(* ===== verification/Prelude.thy ===== *)
theory Prelude
  imports Main "HOL-Library.Word" "HOL-Library.List_Lexorder" "HOL-Library.Char_ord"
    "HOL-Library.Monad_Syntax"
begin

unbundle bit_operations_syntax

text \<open>
  Shared vocabulary of the development: the machine types of the C++ sources, the C++ exceptions
  the consensus code can raise, the little-endian and fixed-array byte encodings, the model of
  \<^verbatim>\<open>std::map\<close>, and the generic lemmas (on words that do not wrap, on sums over maps) that
  the component theories use through the collections declared here.

  Representation choices:
  \<^item> \<^verbatim>\<open>uint8_t\<close> \dots \<^verbatim>\<open>uint64_t\<close> and \<^verbatim>\<open>unsigned __int128\<close> are words of that width,
    so \<open>+\<close>, \<open>-\<close> and \<open>*\<close> wrap exactly as in the code;
  \<^item> \<^verbatim>\<open>std::array<unsigned char, N>\<close> (and \<^verbatim>\<open>Hash256\<close>, which wraps one) is an
    \<open>8 * N\<close>-bit word whose bytes are read most significant first: the lexicographic comparison of
    the C++ arrays is then the order of the words (\<open>be_bytes_less_iff\<close>), and the all-zero array
    is \<open>0\<close>;
  \<^item> \<^verbatim>\<open>std::span\<close> and \<^verbatim>\<open>std::vector\<close> of bytes are lists of bytes; a reader with an offset
    into a span is the list of the bytes that remain;
  \<^item> \<^verbatim>\<open>std::map\<close> is an association list in strictly increasing key order, which is the order
    the code iterates in.
\<close>

named_theorems wordarith \<open>unat of additions and subtractions that the code has checked\<close>
named_theorems bytes_simps \<open>lengths and round trips of the primitive byte encodings\<close>
named_theorems fail_atomic \<open>operations that leave their state alone when they report an error\<close>

type_synonym byte = "8 word"
type_synonym u8 = "8 word"
type_synonym u16 = "16 word"
type_synonym u32 = "32 word"
type_synonym u64 = "64 word"
type_synonym u128 = "128 word"
type_synonym bytes = "8 word list"
type_synonym hash256 = "256 word"
type_synonym AccountId = "256 word"
type_synonym IdentityKeyId = "256 word"
type_synonym ChunkId = "256 word"
type_synonym StorageId = "256 word"
type_synonym ('k, 'v) omap = "('k \<times> 'v) list"

abbreviation U64_MAX :: u64 where "U64_MAX \<equiv> - 1"

text \<open>
  C++ exceptions that cross a function boundary of the modelled code, and the trap of an integer division by zero,
  which no handler catches.
\<close>

datatype exn = invalid_argument | length_error | runtime_error | out_of_range | overflow_error | division_by_zero

definition bindE :: "exn + 'a \<Rightarrow> ('a \<Rightarrow> exn + 'b) \<Rightarrow> exn + 'b" where
  "bindE m f = (case m of Inl e \<Rightarrow> Inl e | Inr a \<Rightarrow> f a)"

lemma bindE_simps [simp]:
  "bindE (Inl e) f = Inl e"
  "bindE (Inr a) f = f a"
  by (simp_all add: bindE_def)

lemma bindE_Inr_iff: "bindE m f = Inr b \<longleftrightarrow> (\<exists>a. m = Inr a \<and> f a = Inr b)"
  by (cases m) auto

text \<open>\<^verbatim>\<open>catch (...) { return std::nullopt; }\<close> around a computation.\<close>

definition catch_none :: "exn + 'a \<Rightarrow> 'a option" where
  "catch_none m = (case m of Inl _ \<Rightarrow> None | Inr a \<Rightarrow> Some a)"

lemma catch_none_simps [simp]:
  "catch_none (Inl e) = None"
  "catch_none (Inr a) = Some a"
  by (simp_all add: catch_none_def)


section \<open>Words that do not wrap\<close>

lemma unat_U64_MAX: "unat U64_MAX = 2 ^ 64 - 1"
  by (simp add: unsigned_minus_1_eq_mask mask_eq_exp_minus_1)

lemma le_max_minus_iff:
  fixes a b :: "'a::len word"
  shows "a \<le> - 1 - b \<longleftrightarrow> unat a + unat b < 2 ^ LENGTH('a)"
proof -
  have "unat (- 1 - b) = 2 ^ LENGTH('a) - 1 - unat b"
    using unat_sub [of b "- 1"] by (simp add: unsigned_minus_1_eq_mask mask_eq_exp_minus_1)
  moreover have "unat b < 2 ^ LENGTH('a)" by (rule unsigned_less)
  ultimately show ?thesis unfolding word_le_nat_alt by linarith
qed

lemma unat_add_checked [wordarith]:
  fixes a b :: "'a::len word"
  shows "a \<le> - 1 - b \<Longrightarrow> unat (a + b) = unat a + unat b"
  using le_max_minus_iff [of a b] by (simp add: unat_word_ariths)

lemma unat_add_fits:
  fixes a b :: "'a::len word"
  shows "unat a + unat b < 2 ^ LENGTH('a) \<Longrightarrow> unat (a + b) = unat a + unat b"
  by (simp add: unat_word_ariths)

lemma unat_sub_checked [wordarith]:
  fixes a b :: "'a::len word"
  shows "b \<le> a \<Longrightarrow> unat (a - b) = unat a - unat b"
  by (rule unat_sub)

lemma unat_mult_fits:
  fixes a b :: "'a::len word"
  shows "unat a * unat b < 2 ^ LENGTH('a) \<Longrightarrow> unat (a * b) = unat a * unat b"
  by (simp add: unat_word_ariths)

text \<open>The arithmetic of a budget: a guard of the form \<^verbatim>\<open>b <= limit - used\<close> makes the addition exact and within the limit.\<close>

lemma budget_add:
  fixes used b limit :: "'a::len word"
  assumes "used \<le> limit" "b \<le> limit - used"
  shows "unat (used + b) = unat used + unat b" "used + b \<le> limit"
proof -
  have "unat b \<le> unat limit - unat used" using assms by (simp add: word_le_nat_alt unat_sub)
  then have le: "unat used + unat b \<le> unat limit" using assms(1) by (simp add: word_le_nat_alt)
  then have "unat used + unat b < 2 ^ LENGTH('a)" by (rule le_less_trans [OF _ unsigned_less])
  then show "unat (used + b) = unat used + unat b" by (rule unat_add_lem [THEN iffD1])
  then show "used + b \<le> limit" using le by (simp add: word_le_nat_alt)
qed

lemma word_less_succ: "x \<noteq> - 1 \<Longrightarrow> x < x + 1" for x :: "'a::len word"
  by (metis inc_less_eq_triv_imp linorder_less_linear word_le_less_eq)


section \<open>Byte encodings\<close>

text \<open>
  \<^verbatim>\<open>AppendLittleEndian\<close> and the hand-written \<^verbatim>\<open>Write32\<close>, \<^verbatim>\<open>Write64\<close>, \<^verbatim>\<open>Append64\<close>
  loops push byte \<open>i\<close> of the value, \<^verbatim>\<open>value >> (8 * i)\<close>, for \<open>i\<close> below the size.
\<close>

definition le_bytes :: "nat \<Rightarrow> 'a::len word \<Rightarrow> bytes" where
  "le_bytes n w = map (\<lambda>i. ucast (drop_bit (8 * i) w)) [0..<n]"

text \<open>\<^verbatim>\<open>value |= UInt{bytes[i]} << (8 * i)\<close>, accumulated over the bytes.\<close>

primrec le_word :: "bytes \<Rightarrow> 'a::len word" where
  "le_word [] = 0"
| "le_word (b # bs) = ucast b OR push_bit 8 (le_word bs)"

text \<open>The bytes of a fixed array, in memory order, and back.\<close>

definition be_bytes :: "nat \<Rightarrow> 'a::len word \<Rightarrow> bytes" where
  "be_bytes n w = rev (le_bytes n w)"

definition be_word :: "bytes \<Rightarrow> 'a::len word" where
  "be_word bs = le_word (rev bs)"

lemma length_le_bytes [simp, bytes_simps]: "length (le_bytes n w) = n"
  by (simp add: le_bytes_def)

lemma length_be_bytes [simp, bytes_simps]: "length (be_bytes n w) = n"
  by (simp add: be_bytes_def)

lemma bit_le_word:
  "bit (le_word bs :: 'a::len word) k \<longleftrightarrow> k < LENGTH('a) \<and> k div 8 < length bs \<and> bit (bs ! (k div 8)) (k mod 8)"
proof (induction bs arbitrary: k)
  case Nil
  then show ?case by simp
next
  case (Cons b bs)
  show ?case
  proof (cases "k < 8")
    case True
    then show ?thesis by (auto simp: bit_simps)
  next
    case False
    then have d: "k div 8 = Suc ((k - 8) div 8)" and m: "k mod 8 = (k - 8) mod 8"
      by (auto simp: le_div_geq le_mod_geq)
    have nb: "\<not> bit b k" using False bit_imp_le_length [of b k] by auto
    show ?thesis using False nb Cons.IH [of "k - 8"] unfolding d m
      by (auto simp: bit_simps)
  qed
qed

lemma bit_le_bytes_nth:
  "i < n \<Longrightarrow> bit (le_bytes n w ! i) j \<longleftrightarrow> j < 8 \<and> bit w (8 * i + j)"
  by (auto simp: le_bytes_def bit_simps)

lemma le_word_le_bytes:
  fixes w :: "'a::len word"
  assumes "LENGTH('a) \<le> 8 * n"
  shows "le_word (le_bytes n w) = w"
proof (rule bit_word_eqI)
  fix k assume k: "k < LENGTH('a)"
  then have "k div 8 < n" using assms by (simp add: less_mult_imp_div_less mult.commute)
  then show "bit (le_word (le_bytes n w) :: 'a word) k = bit w k"
    using k by (simp add: bit_le_word bit_le_bytes_nth)
qed

lemma le_bytes_le_word:
  assumes "length bs = n" and "8 * n \<le> LENGTH('a::len)"
  shows "le_bytes n (le_word bs :: 'a word) = bs"
proof (rule nth_equalityI)
  show "length (le_bytes n (le_word bs :: 'a word)) = length bs" using assms by simp
next
  fix i assume "i < length (le_bytes n (le_word bs :: 'a word))"
  then have i: "i < n" by simp
  show "le_bytes n (le_word bs :: 'a word) ! i = bs ! i"
  proof (rule bit_word_eqI)
    fix j assume j: "j < LENGTH(8)"
    then have "8 * i + j < LENGTH('a)" using i assms(2) by auto
    then show "bit (le_bytes n (le_word bs :: 'a word) ! i) j = bit (bs ! i) j"
      using i j assms(1) by (simp add: bit_le_bytes_nth bit_le_word)
  qed
qed

lemma be_word_be_bytes:
  fixes w :: "'a::len word"
  shows "LENGTH('a) \<le> 8 * n \<Longrightarrow> be_word (be_bytes n w) = w"
  by (simp add: be_word_def be_bytes_def le_word_le_bytes)

lemma be_bytes_be_word:
  assumes "length bs = n" and "8 * n \<le> LENGTH('a::len)"
  shows "be_bytes n (be_word bs :: 'a word) = bs"
  using le_bytes_le_word [of "rev bs" n, where 'a = 'a] assms
  by (simp add: be_word_def be_bytes_def)

text \<open>
  The order of the words is the lexicographic order of the arrays they stand for
  (\<^verbatim>\<open>std::array::operator<\<close>, \<^verbatim>\<open>Hash256::operator<=>\<close>): \<open>nat_be\<close> is the value of a
  byte string read most significant byte first.
\<close>

primrec nat_be :: "bytes \<Rightarrow> nat" where
  "nat_be [] = 0"
| "nat_be (b # bs) = unat b * 256 ^ length bs + nat_be bs"

lemma nat_be_bound: "nat_be bs < 256 ^ length bs"
proof (induction bs)
  case Nil
  then show ?case by simp
next
  case (Cons b bs)
  have "unat b < 256" using unsigned_less [of b] by simp
  then have "unat b * 256 ^ length bs + 256 ^ length bs \<le> 256 * 256 ^ length bs"
    by (metis Suc_leI add.commute mult_Suc mult_le_mono1)
  with Cons.IH have "unat b * 256 ^ length bs + nat_be bs < 256 * 256 ^ length bs" by linarith
  then show ?case by simp
qed

lemma nat_be_less_iff: "length xs = length ys \<Longrightarrow> nat_be xs < nat_be ys \<longleftrightarrow> xs < ys"
proof (induction xs ys rule: list_induct2)
  case Nil
  then show ?case by simp
next
  case (Cons x xs y ys)
  let ?p = "256 ^ length xs :: nat"
  have bx: "nat_be xs < ?p" and by': "nat_be ys < ?p"
    using nat_be_bound [of xs] nat_be_bound [of ys] Cons.hyps by auto
  have lt: "unat a * ?p + m < unat b * ?p + k" if "a < b" "m < ?p" for a b :: byte and m k
  proof -
    have "Suc (unat a) \<le> unat b" using that(1) by (simp add: word_less_nat_alt)
    then have "Suc (unat a) * ?p \<le> unat b * ?p" by (rule mult_le_mono1)
    with that(2) show ?thesis by simp
  qed
  show ?case
  proof (cases x y rule: linorder_cases)
    case less
    with lt [OF less bx, of "nat_be ys"] Cons.hyps show ?thesis by simp
  next
    case equal
    with Cons show ?thesis by simp
  next
    case greater
    with lt [OF greater by', of "nat_be xs"] Cons.hyps show ?thesis
      by (simp add: not_less_iff_gr_or_eq [symmetric] less_not_sym)
  qed
qed

lemma unat_ucast_drop: "unat (ucast (drop_bit k w) :: byte) = unat w div 2 ^ k mod 256"
  by (simp add: unsigned_ucast_eq unsigned_drop_bit_eq
      drop_bit_eq_div [where 'a = nat] take_bit_eq_mod [where 'a = nat])

lemma be_bytes_Suc: "be_bytes (Suc n) w = ucast (drop_bit (8 * n) w) # be_bytes n w"
  by (simp add: be_bytes_def le_bytes_def)

lemma nat_be_be_bytes: "nat_be (be_bytes n w) = unat w mod 256 ^ n"
proof (induction n)
  case 0
  then show ?case by (simp add: be_bytes_def le_bytes_def)
next
  case (Suc n)
  have p: "(2::nat) ^ (8 * n) = 256 ^ n" by (simp add: power_mult)
  have "unat (ucast (drop_bit (8 * n) w) :: byte) = unat w div 256 ^ n mod 256"
    by (simp add: unat_ucast_drop p)
  then have "nat_be (be_bytes (Suc n) w) = unat w div 256 ^ n mod 256 * 256 ^ n + unat w mod 256 ^ n"
    by (simp add: be_bytes_Suc Suc.IH)
  also have "\<dots> = unat w mod 256 ^ Suc n"
    using mod_mult2_eq [of "unat w" "256 ^ n" 256] by (simp add: mult.commute)
  finally show ?case .
qed

lemma be_bytes_less_iff:
  fixes v w :: "'a::len word"
  assumes "LENGTH('a) = 8 * n"
  shows "be_bytes n v < be_bytes n w \<longleftrightarrow> v < w"
proof -
  have "(256::nat) ^ n = 2 ^ LENGTH('a)" using assms by (simp add: power_mult)
  then have "nat_be (be_bytes n x) = unat x" for x :: "'a word"
    using unsigned_less [of x] by (simp add: nat_be_be_bytes)
  then show ?thesis
    using nat_be_less_iff [of "be_bytes n v" "be_bytes n w"] by (simp add: word_less_nat_alt)
qed

end
