(* ===== verification/Codec.thy ===== *)
theory Codec
  imports Prelude
begin

text \<open>
  The byte-level codecs: \<^verbatim>\<open>binary_codec.h\<close> (\<^verbatim>\<open>IsValidUtf8\<close>, \<^verbatim>\<open>BinaryWriter\<close>,
  \<^verbatim>\<open>BinaryReader\<close>), the private \<^verbatim>\<open>Reader\<close> classes of \<^verbatim>\<open>state.cpp\<close> and
  \<^verbatim>\<open>identity_registry_codec.cpp\<close>, and the hex forms of \<^verbatim>\<open>hash256.cpp\<close> and
  \<^verbatim>\<open>hex.cpp\<close>. A reader is the list of bytes not yet consumed. The locale \<open>codec\<close> is the
  contract every wire format of the protocol is held to: decoding inverts encoding, and only the
  canonical encoding decodes.
\<close>

section \<open>The contract of a canonical wire format\<close>

locale codec =
  fixes enc :: "'a \<Rightarrow> bytes option" and dec :: "bytes \<Rightarrow> 'a option"
  assumes dec_enc: "enc a = Some bs \<Longrightarrow> dec bs = Some a"
    and enc_dec: "dec bs = Some a \<Longrightarrow> enc a = Some bs"
begin

lemma dec_iff: "dec bs = Some a \<longleftrightarrow> enc a = Some bs"
  using dec_enc enc_dec by blast

lemma enc_inj: "enc a = Some bs \<Longrightarrow> enc b = Some bs \<Longrightarrow> a = b"
  using dec_enc [of a bs] dec_enc [of b bs] by simp

lemma dec_inj: "dec bs = Some a \<Longrightarrow> dec cs = Some a \<Longrightarrow> bs = cs"
  using enc_dec [of bs a] enc_dec [of cs a] by simp

end

text \<open>A wire format of one fixed size, as most payloads are.\<close>

locale sized_codec = codec enc dec
  for enc :: "'a \<Rightarrow> bytes option" and dec :: "bytes \<Rightarrow> 'a option" +
  fixes sz :: nat
  assumes enc_size: "enc a = Some bs \<Longrightarrow> length bs = sz"
begin

lemma dec_size: "dec bs = Some a \<Longrightarrow> length bs = sz"
  using enc_dec enc_size by blast

text \<open>The format can be followed by other fields: its extent is known without a length prefix.\<close>

lemma enc_append_inj:
  "enc a = Some xs \<Longrightarrow> enc b = Some ys \<Longrightarrow> xs @ r = ys @ s \<Longrightarrow> a = b \<and> r = s"
  using enc_size [of a xs] enc_size [of b ys] enc_inj [of a xs b] by auto

end


section \<open>Text and spans\<close>

text \<open>The bytes of a string literal (\<^verbatim>\<open>Sha256Bytes\<close>) and of a \<^verbatim>\<open>std::string\<close>.\<close>

definition str :: "string \<Rightarrow> bytes" where
  "str s = map of_char s"

definition string_of_bytes :: "bytes \<Rightarrow> string" where
  "string_of_bytes bs = map (\<lambda>b. char_of (unat b)) bs"

lemma length_str [simp]: "length (str s) = length s"
  by (simp add: str_def)

lemma unat_of_char: "unat (of_char c :: byte) = of_char c"
proof -
  have "(of_char c :: byte) = word_of_nat (of_char c)" by (simp only: of_nat_of_char)
  then have "unat (of_char c :: byte) = take_bit 8 (of_char c :: nat)"
    by (simp only: unsigned_of_nat) simp
  then show ?thesis by (simp add: take_bit_nat_eq_self)
qed

lemma string_of_bytes_str [simp]: "string_of_bytes (str s) = s"
  by (induction s) (simp_all add: string_of_bytes_def str_def unat_of_char)

lemma str_string_of_bytes [simp]: "str (string_of_bytes bs) = bs"
proof -
  have "of_char (char_of (unat b)) = b" for b :: byte
  proof -
    have "unat (of_char (char_of (unat b)) :: byte) = unat b"
      using unsigned_less [of b, where 'a = nat] by (simp add: unat_of_char)
    then show ?thesis by (simp only: unsigned_word_eqI)
  qed
  then show ?thesis by (induction bs) (simp_all add: string_of_bytes_def str_def)
qed

definition subspan :: "nat \<Rightarrow> nat \<Rightarrow> bytes \<Rightarrow> bytes" where
  "subspan off n bs = take n (drop off bs)"

lemma length_subspan: "off + n \<le> length bs \<Longrightarrow> length (subspan off n bs) = n"
  by (simp add: subspan_def)

lemma subspan_append [simp]: "length a = off \<Longrightarrow> length b = n \<Longrightarrow> subspan off n (a @ b @ r) = b"
  by (simp add: subspan_def)

lemma subspan_drop: "off + n \<le> length bs \<Longrightarrow> subspan off n bs @ drop (off + n) bs = drop off bs"
  by (metis append_take_drop_id drop_drop add.commute subspan_def)

lemma nth_drop: "i < length bs \<Longrightarrow> drop i bs = bs ! i # drop (Suc i) bs"
  by (simp add: Cons_nth_drop_Suc)


section \<open>Reading fields\<close>

text \<open>
  \<^verbatim>\<open>BinaryReader\<close> (\<^verbatim>\<open>binary_codec.h\<close>): a limited span with a position. The constructor
  refuses an oversized input, \<^verbatim>\<open>Fixed\<close> a truncated one, \<^verbatim>\<open>Finish\<close> trailing bytes.
\<close>

definition reader_open :: "nat \<Rightarrow> bytes \<Rightarrow> exn + bytes" where
  "reader_open limit bs = (if length bs > limit then Inl length_error else Inr bs)"

definition reader_Fixed :: "nat \<Rightarrow> bytes \<Rightarrow> exn + (bytes \<times> bytes)" where
  "reader_Fixed count bs =
     (if count > length bs then Inl invalid_argument else Inr (take count bs, drop count bs))"

definition reader_Array :: "nat \<Rightarrow> bytes \<Rightarrow> exn + ('a::len word \<times> bytes)" where
  "reader_Array n bs = bindE (reader_Fixed n bs) (\<lambda>(f, r). Inr (be_word f, r))"

definition reader_U8 :: "bytes \<Rightarrow> exn + (u8 \<times> bytes)" where
  "reader_U8 bs = bindE (reader_Fixed 1 bs) (\<lambda>(f, r). Inr (hd f, r))"

definition reader_UInt :: "nat \<Rightarrow> bytes \<Rightarrow> exn + ('a::len word \<times> bytes)" where
  "reader_UInt sz bs = bindE (reader_Fixed sz bs) (\<lambda>(f, r). Inr (le_word f, r))"

definition reader_U16 :: "bytes \<Rightarrow> exn + (u16 \<times> bytes)" where "reader_U16 = reader_UInt 2"
definition reader_U32 :: "bytes \<Rightarrow> exn + (u32 \<times> bytes)" where "reader_U32 = reader_UInt 4"
definition reader_U64 :: "bytes \<Rightarrow> exn + (u64 \<times> bytes)" where "reader_U64 = reader_UInt 8"

definition reader_Flag :: "bytes \<Rightarrow> exn + (bool \<times> bytes)" where
  "reader_Flag bs = bindE (reader_U8 bs) (\<lambda>(v, r). if v > 1 then Inl invalid_argument else Inr (v \<noteq> 0, r))"

definition reader_Bytes :: "nat \<Rightarrow> bytes \<Rightarrow> exn + (bytes \<times> bytes)" where
  "reader_Bytes maximum bs = bindE (reader_U32 bs) (\<lambda>(sz, r).
     if unat sz > maximum then Inl length_error else reader_Fixed (unat sz) r)"

definition reader_Finish :: "bytes \<Rightarrow> exn + unit" where
  "reader_Finish bs = (if bs \<noteq> [] then Inl invalid_argument else Inr ())"

lemma reader_Fixed_iff:
  "reader_Fixed n bs = Inr (f, r) \<longleftrightarrow> bs = f @ r \<and> length f = n"
  by (auto simp: reader_Fixed_def)

lemma reader_open_iff: "reader_open limit bs = Inr r \<longleftrightarrow> r = bs \<and> length bs \<le> limit"
  by (auto simp: reader_open_def)

lemma reader_Finish_iff: "reader_Finish bs = Inr u \<longleftrightarrow> bs = []"
  by (simp add: reader_Finish_def)

lemma reader_Array_iff:
  assumes "LENGTH('a::len) = 8 * n"
  shows "reader_Array n bs = Inr (w :: 'a word, r) \<longleftrightarrow> bs = be_bytes n w @ r"
proof
  assume "reader_Array n bs = Inr (w, r)"
  then obtain f where "reader_Fixed n bs = Inr (f, r)" "w = be_word f"
    by (auto simp: reader_Array_def bindE_Inr_iff)
  then show "bs = be_bytes n w @ r"
    using assms by (simp add: reader_Fixed_iff be_bytes_be_word)
next
  assume "bs = be_bytes n w @ r"
  then have "reader_Fixed n bs = Inr (be_bytes n w, r)" by (simp add: reader_Fixed_iff)
  then show "reader_Array n bs = Inr (w, r)"
    using assms by (simp add: reader_Array_def be_word_be_bytes)
qed

lemma reader_UInt_iff:
  assumes "LENGTH('a::len) = 8 * n"
  shows "reader_UInt n bs = Inr (w :: 'a word, r) \<longleftrightarrow> bs = le_bytes n w @ r"
proof
  assume "reader_UInt n bs = Inr (w, r)"
  then obtain f where "reader_Fixed n bs = Inr (f, r)" "w = le_word f"
    by (auto simp: reader_UInt_def bindE_Inr_iff)
  then show "bs = le_bytes n w @ r"
    using assms by (simp add: reader_Fixed_iff le_bytes_le_word)
next
  assume "bs = le_bytes n w @ r"
  then have "reader_Fixed n bs = Inr (le_bytes n w, r)" by (simp add: reader_Fixed_iff)
  then show "reader_UInt n bs = Inr (w, r)"
    using assms by (simp add: reader_UInt_def le_word_le_bytes)
qed

lemma reader_U8_iff: "reader_U8 bs = Inr (w, r) \<longleftrightarrow> bs = w # r"
  by (cases bs) (auto simp: reader_U8_def reader_Fixed_def)

lemmas reader_U16_iff = reader_UInt_iff [where 'a = 16 and n = 2, folded reader_U16_def, simplified]
lemmas reader_U32_iff = reader_UInt_iff [where 'a = 32 and n = 4, folded reader_U32_def, simplified]
lemmas reader_U64_iff = reader_UInt_iff [where 'a = 64 and n = 8, folded reader_U64_def, simplified]
lemmas reader_Hash_iff = reader_Array_iff [where 'a = 256 and n = 32, simplified]

lemma reader_Flag_iff: "reader_Flag bs = Inr (b, r) \<longleftrightarrow> bs = (if b then 1 else 0) # r"
proof (cases bs)
  case Nil
  then show ?thesis by (simp add: reader_Flag_def reader_U8_def reader_Fixed_def)
next
  case (Cons v bs')
  then have 1: "reader_Flag bs = (if v > 1 then Inl invalid_argument else Inr (v \<noteq> 0, bs'))"
    by (simp add: reader_Flag_def reader_U8_def reader_Fixed_def)
  have 2: "\<not> v > 1 \<longleftrightarrow> v = 0 \<or> v = 1"
    using unsigned_word_eqI [of v 1, where 'a = nat]
    by (auto simp: not_less word_le_nat_alt le_Suc_eq unat_eq_0)
  show ?thesis using Cons 1 2 by (cases "v = 0") auto
qed

lemma reader_Bytes_iff:
  "reader_Bytes m bs = Inr (f, r) \<longleftrightarrow>
     length f \<le> m \<and> length f < 2 ^ 32 \<and> bs = le_bytes 4 (of_nat (length f) :: u32) @ f @ r"
proof
  assume "reader_Bytes m bs = Inr (f, r)"
  then obtain sz :: u32 where s: "bs = le_bytes 4 sz @ f @ r" "unat sz \<le> m" "length f = unat sz"
    by (auto simp: reader_Bytes_def bindE_Inr_iff reader_U32_iff reader_Fixed_iff not_less split: if_splits)
  then show "length f \<le> m \<and> length f < 2 ^ 32 \<and> bs = le_bytes 4 (of_nat (length f) :: u32) @ f @ r"
    using unsigned_less [of sz, where 'a = nat] by simp
next
  assume a: "length f \<le> m \<and> length f < 2 ^ 32 \<and> bs = le_bytes 4 (of_nat (length f) :: u32) @ f @ r"
  then have "reader_U32 bs = Inr (of_nat (length f), f @ r)" by (simp add: reader_U32_iff)
  with a show "reader_Bytes m bs = Inr (f, r)"
    by (simp add: reader_Bytes_def unsigned_of_nat take_bit_nat_eq_self reader_Fixed_def)
qed

lemmas reader_iffs = reader_open_iff reader_Finish_iff reader_Fixed_iff reader_U8_iff reader_U16_iff
  reader_U32_iff reader_U64_iff reader_Hash_iff reader_Flag_iff reader_Bytes_iff

text \<open>
  \<^verbatim>\<open>BinaryWriter\<close>: the bytes written so far and a limit. \<^verbatim>\<open>m_limit - m_bytes.size()\<close> never
  wraps because no operation lets the buffer pass its limit.
\<close>

definition writer_Fixed :: "nat \<Rightarrow> bytes \<Rightarrow> bytes \<Rightarrow> exn + bytes" where
  "writer_Fixed limit bs acc =
     (if length bs > limit - length acc then Inl length_error else Inr (acc @ bs))"

definition writer_U8 :: "nat \<Rightarrow> u8 \<Rightarrow> bytes \<Rightarrow> exn + bytes" where
  "writer_U8 limit v acc = (if length acc \<ge> limit then Inl length_error else Inr (acc @ [v]))"

definition writer_UInt :: "nat \<Rightarrow> nat \<Rightarrow> 'a::len word \<Rightarrow> bytes \<Rightarrow> exn + bytes" where
  "writer_UInt limit sz v acc =
     (if sz > limit - length acc then Inl length_error else Inr (acc @ le_bytes sz v))"

definition writer_Bytes :: "nat \<Rightarrow> bytes \<Rightarrow> nat \<Rightarrow> bytes \<Rightarrow> exn + bytes" where
  "writer_Bytes limit bs maximum acc =
     (if length bs > maximum \<or> length bs > 2 ^ 32 - 1 then Inl length_error
      else bindE (writer_UInt limit 4 (of_nat (length bs) :: u32) acc) (writer_Fixed limit bs))"

lemma writer_Fixed_iff:
  "length acc \<le> limit \<Longrightarrow> writer_Fixed limit bs acc = Inr out \<longleftrightarrow> out = acc @ bs \<and> length out \<le> limit"
  by (auto simp: writer_Fixed_def)

lemma writer_U8_iff:
  "writer_U8 limit v acc = Inr out \<longleftrightarrow> out = acc @ [v] \<and> length out \<le> limit"
  by (auto simp: writer_U8_def)

lemma writer_UInt_iff:
  "length acc \<le> limit \<Longrightarrow> writer_UInt limit n v acc = Inr out \<longleftrightarrow> out = acc @ le_bytes n v \<and> length out \<le> limit"
  by (auto simp: writer_UInt_def)

lemma writer_Bytes_iff:
  "length acc \<le> limit \<Longrightarrow> writer_Bytes limit bs m acc = Inr out \<longleftrightarrow>
     length bs \<le> m \<and> length bs < 2 ^ 32 \<and> length out \<le> limit \<and>
     out = acc @ le_bytes 4 (of_nat (length bs) :: u32) @ bs"
  by (auto simp: writer_Bytes_def bindE_Inr_iff writer_UInt_def writer_Fixed_def)

end
