(* ===== verification/TextForms.thy ===== *)
theory TextForms
  imports Codec
begin

text \<open>
  The textual forms of \<^verbatim>\<open>hash256.cpp\<close>, \<^verbatim>\<open>hex.cpp\<close> and the UTF-8 check of
  \<^verbatim>\<open>binary_codec.h\<close>. The hex decoder is shown to accept exactly the 64-digit strings, in either
  letter case, of the value it returns; the UTF-8 scanner is shown to accept exactly the
  concatenations of the encodings of Unicode scalar values.
\<close>

section \<open>Hexadecimal\<close>

definition hex_digits :: string where
  "hex_digits = ''0123456789abcdef''"

definition HexEncode :: "bytes \<Rightarrow> string" where
  "HexEncode bs = concat (map (\<lambda>b. [hex_digits ! unat (drop_bit 4 b), hex_digits ! unat (b AND 15)]) bs)"

definition GetHex :: "hash256 \<Rightarrow> string" where
  "GetHex h = HexEncode (be_bytes 32 h)"

definition Nibble :: "char \<Rightarrow> int" where
  "Nibble c = (let n = int (of_char c) in
     if 48 \<le> n \<and> n \<le> 57 then n - 48
     else if 97 \<le> n \<and> n \<le> 102 then n - 97 + 10
     else if 65 \<le> n \<and> n \<le> 70 then n - 65 + 10
     else - 1)"

text \<open>The loop of \<^verbatim>\<open>FromHex\<close>: two digits per byte.\<close>

fun hex_pairs :: "string \<Rightarrow> bytes option" where
  "hex_pairs [] = Some []"
| "hex_pairs [_] = None"
| "hex_pairs (a # b # s) =
     (if Nibble a < 0 \<or> Nibble b < 0 then None
      else map_option ((#) (word_of_int (push_bit 4 (Nibble a) OR Nibble b))) (hex_pairs s))"

definition FromHex :: "string \<Rightarrow> hash256 option" where
  "FromHex hex = (if length hex \<noteq> 64 then None else map_option be_word (hex_pairs hex))"

text \<open>The lower-case form of an ASCII digit string.\<close>

definition hex_lower :: "char \<Rightarrow> char" where
  "hex_lower c = (let n = of_char c :: nat in if 65 \<le> n \<and> n \<le> 70 then char_of (n + 32) else c)"

definition hex_digit :: "char \<Rightarrow> bool" where
  "hex_digit c \<longleftrightarrow> Nibble c \<ge> 0"

lemma length_HexEncode: "length (HexEncode bs) = 2 * length bs"
  by (induction bs) (simp_all add: HexEncode_def)

lemma of_char_hex_digits:
  assumes "n < 16"
  shows "(of_char (hex_digits ! n) :: nat) = (if n < 10 then n + 48 else n + 87)"
proof -
  from assms have "n \<in> set [0..<16]" by simp
  then show ?thesis unfolding hex_digits_def by (simp add: upt_rec) (elim disjE; simp)
qed

lemma Nibble_digit: "n < 16 \<Longrightarrow> Nibble (hex_digits ! n) = int n"
  by (simp add: Nibble_def of_char_hex_digits)

lemma Nibble_bounds: "Nibble c < 16"
  by (simp add: Nibble_def Let_def)

lemma digit_Nibble:
  assumes "hex_digit c"
  shows "hex_digits ! nat (Nibble c) = hex_lower c"
proof -
  have b: "nat (Nibble c) < 16" using Nibble_bounds [of c] assms by (simp add: hex_digit_def)
  have "(of_char (hex_digits ! nat (Nibble c)) :: nat) = of_char (hex_lower c)"
    unfolding of_char_hex_digits [OF b]
    using assms by (auto simp: hex_digit_def Nibble_def hex_lower_def Let_def split: if_splits)
  then show ?thesis by (simp only: of_char_eq_iff)
qed

lemma unat_nibbles: "unat (drop_bit 4 b) = unat b div 16" "unat (b AND 15) = unat b mod 16" for b :: byte
proof -
  show "unat (drop_bit 4 b) = unat b div 16"
    using unsigned_less [of b, where 'a = nat] by (simp add: unsigned_drop_bit_eq drop_bit_eq_div [where 'a = nat] take_bit_eq_mod [where 'a = nat])
  have "(15 :: byte) = mask 4" by (simp add: mask_eq_exp_minus_1)
  then have "b AND 15 = take_bit 4 b" by (simp only: take_bit_eq_mask)
  then show "unat (b AND 15) = unat b mod 16"
    by (simp add: unsigned_take_bit_eq take_bit_eq_mod [where 'a = nat])
qed

lemma nibble_byte: "0 \<le> h \<Longrightarrow> 0 \<le> l \<Longrightarrow> l < 16 \<Longrightarrow>
    (word_of_int (push_bit 4 h OR l) :: byte) = word_of_nat (16 * nat h + nat l)"
proof -
  assume a: "0 \<le> h" "0 \<le> l" "l < 16"
  have "take_bit 4 l = l" using a by (simp add: take_bit_int_eq_self)
  then have "\<not> bit l n" if "4 \<le> n" for n
    using bit_take_bit_iff [of 4 l n] that by simp
  then have "push_bit 4 h AND l = 0"
    by (intro bit_eqI) (auto simp: bit_and_iff bit_push_bit_iff)
  then have "push_bit 4 h OR l = 16 * h + l"
    using disjunctive_add_eq_or [of "push_bit 4 h" l] by (simp add: push_bit_eq_mult)
  also have "\<dots> = int (16 * nat h + nat l)" using a by simp
  finally show ?thesis by (simp only: of_int_of_nat_eq)
qed

lemma hex_pairs_HexEncode: "hex_pairs (HexEncode bs) = Some bs"
proof (induction bs)
  case Nil
  then show ?case by (simp add: HexEncode_def)
next
  case (Cons b bs)
  have b: "unat b < 256" using unsigned_less [of b] by simp
  have n: "Nibble (hex_digits ! unat (drop_bit 4 b)) = int (unat b div 16)"
    "Nibble (hex_digits ! unat (b AND 15)) = int (unat b mod 16)"
    using b by (simp_all add: unat_nibbles Nibble_digit less_mult_imp_div_less)
  have "(word_of_int (push_bit 4 (int (unat b div 16)) OR int (unat b mod 16)) :: byte)
      = word_of_nat (16 * (unat b div 16) + unat b mod 16)"
    by (subst nibble_byte) (simp_all del: of_nat_add of_nat_mult)
  then have w: "(word_of_int (push_bit 4 (int (unat b div 16)) OR int (unat b mod 16)) :: byte) = b"
    by simp
  have "HexEncode (b # bs) = hex_digits ! unat (drop_bit 4 b) # hex_digits ! unat (b AND 15) # HexEncode bs"
    by (simp add: HexEncode_def)
  then show ?case using Cons.IH by (simp add: n w)
qed

lemma hex_pairs_SomeD:
  "hex_pairs s = Some bs \<Longrightarrow> list_all hex_digit s \<and> HexEncode bs = map hex_lower s \<and> length s = 2 * length bs"
proof (induction s arbitrary: bs rule: hex_pairs.induct)
  case 1
  then show ?case by (simp add: HexEncode_def)
next
  case (2 c)
  then show ?case by simp
next
  case (3 a b s)
  then have d: "hex_digit a" "hex_digit b" by (auto simp: hex_digit_def split: if_splits)
  let ?w = "word_of_int (push_bit 4 (Nibble a) OR Nibble b) :: byte"
  from 3 obtain cs where cs: "hex_pairs s = Some cs" "bs = ?w # cs" by (auto split: if_splits)
  have lt: "nat (Nibble a) < 16" "nat (Nibble b) < 16"
    using Nibble_bounds [of a] Nibble_bounds [of b] d by (auto simp: hex_digit_def)
  have "unat ?w = 16 * nat (Nibble a) + nat (Nibble b)"
    using d lt Nibble_bounds [of b]
    by (simp add: nibble_byte hex_digit_def unsigned_of_nat take_bit_nat_eq_self del: of_nat_add of_nat_mult)
  then have "unat (drop_bit 4 ?w) = nat (Nibble a)" "unat (?w AND 15) = nat (Nibble b)"
    using lt by (simp_all only: unat_nibbles) simp_all
  then have "HexEncode bs = hex_lower a # hex_lower b # HexEncode cs"
    using d by (simp add: cs HexEncode_def digit_Nibble)
  moreover have "list_all hex_digit s \<and> HexEncode cs = map hex_lower s \<and> length s = 2 * length cs"
  proof -
    have "\<not> (Nibble a < 0 \<or> Nibble b < 0)" using d by (simp add: hex_digit_def)
    then show ?thesis using 3(1) cs(1) by blast
  qed
  ultimately show ?case using d cs by simp
qed

lemma hex_pairs_total: "list_all hex_digit s \<Longrightarrow> even (length s) \<Longrightarrow> \<exists>bs. hex_pairs s = Some bs"
  by (induction s rule: hex_pairs.induct) (auto simp: hex_digit_def)

text \<open>\<^verbatim>\<open>FromHex\<close> accepts exactly the 64-digit strings, in either case, that spell the value it returns.\<close>

lemma FromHex_iff:
  "FromHex s = Some h \<longleftrightarrow> length s = 64 \<and> list_all hex_digit s \<and> GetHex h = map hex_lower s"
proof
  assume "FromHex s = Some h"
  then obtain bs where l: "length s = 64" and bs: "hex_pairs s = Some bs" "h = be_word bs"
    by (auto simp: FromHex_def split: if_splits)
  note d = hex_pairs_SomeD [OF bs(1)]
  then have "be_bytes 32 h = bs" using l bs(2) by (simp add: be_bytes_be_word)
  with l d show "length s = 64 \<and> list_all hex_digit s \<and> GetHex h = map hex_lower s"
    by (simp add: GetHex_def)
next
  assume a: "length s = 64 \<and> list_all hex_digit s \<and> GetHex h = map hex_lower s"
  then obtain bs where bs: "hex_pairs s = Some bs" using hex_pairs_total [of s] by auto
  then have "HexEncode bs = HexEncode (be_bytes 32 h)"
    using a hex_pairs_SomeD [OF bs] by (simp add: GetHex_def)
  then have "bs = be_bytes 32 h" by (metis hex_pairs_HexEncode option.inject)
  with a bs show "FromHex s = Some h" by (simp add: FromHex_def be_word_be_bytes)
qed

lemma hex_lower_digit: "n < 16 \<Longrightarrow> hex_lower (hex_digits ! n) = hex_digits ! n"
  using digit_Nibble [of "hex_digits ! n"] by (simp add: Nibble_digit hex_digit_def)

lemma FromHex_GetHex: "FromHex (GetHex h) = Some h"
  using hex_pairs_SomeD [OF hex_pairs_HexEncode, of "be_bytes 32 h"]
  by (simp add: FromHex_def GetHex_def hex_pairs_HexEncode be_word_be_bytes)


section \<open>UTF-8\<close>

text \<open>The lead byte fixes the number of continuation bytes, the first payload bits and the least scalar
  value that needs this many bytes.\<close>

definition utf8_lead :: "byte \<Rightarrow> (nat \<times> u32 \<times> u32) option" where
  "utf8_lead c =
     (if 0xC2 \<le> c \<and> c \<le> 0xDF then Some (1, ucast (c AND 31), 0x80)
      else if 0xE0 \<le> c \<and> c \<le> 0xEF then Some (2, ucast (c AND 15), 0x800)
      else if 0xF0 \<le> c \<and> c \<le> 0xF4 then Some (3, ucast (c AND 7), 0x10000)
      else None)"

text \<open>The inner loop over the continuation bytes; it returns the scalar value and the rest.\<close>

fun utf8_continue :: "nat \<Rightarrow> u32 \<Rightarrow> bytes \<Rightarrow> (u32 \<times> bytes) option" where
  "utf8_continue 0 v bs = Some (v, bs)"
| "utf8_continue (Suc k) v [] = None"
| "utf8_continue (Suc k) v (b # bs) =
     (if b AND 0xC0 \<noteq> 0x80 then None else utf8_continue k (push_bit 6 v OR ucast (b AND 63)) bs)"

lemma length_utf8_continue: "utf8_continue k v bs = Some (v', r) \<Longrightarrow> length bs = k + length r"
  by (induction k v bs rule: utf8_continue.induct) (auto split: if_splits)

function IsValidUtf8 :: "bytes \<Rightarrow> bool" where
  "IsValidUtf8 [] = True"
| "IsValidUtf8 (c # bs) =
     (if c < 0x80 then IsValidUtf8 bs
      else case utf8_lead c of None \<Rightarrow> False
        | Some (count, val, minimum) \<Rightarrow>
          if count > length bs then False
          else case utf8_continue count val bs of None \<Rightarrow> False
            | Some (v, r) \<Rightarrow>
              if v < minimum \<or> v > 0x10FFFF \<or> (0xD800 \<le> v \<and> v \<le> 0xDFFF) then False
              else IsValidUtf8 r)"
  by pat_completeness auto
termination
  by (relation "measure length") (auto dest: length_utf8_continue)

text \<open>The reference: the encodings of the Unicode scalar values (RFC 3629).\<close>

definition scalar_value :: "nat \<Rightarrow> bool" where
  "scalar_value n \<longleftrightarrow> n \<le> 0x10FFFF \<and> \<not> (0xD800 \<le> n \<and> n \<le> 0xDFFF)"

definition utf8_encode :: "nat \<Rightarrow> bytes" where
  "utf8_encode n =
     (if n < 0x80 then [of_nat n]
      else if n < 0x800 then [of_nat (0xC0 + n div 64), of_nat (0x80 + n mod 64)]
      else if n < 0x10000 then
        [of_nat (0xE0 + n div 4096), of_nat (0x80 + n div 64 mod 64), of_nat (0x80 + n mod 64)]
      else [of_nat (0xF0 + n div 262144), of_nat (0x80 + n div 4096 mod 64),
            of_nat (0x80 + n div 64 mod 64), of_nat (0x80 + n mod 64)])"

lemma and_low_mask: "unat (b AND mask n) = unat b mod 2 ^ n" for b :: "'a::len word"
  by (simp add: take_bit_eq_mask [symmetric] unsigned_take_bit_eq take_bit_eq_mod [where 'a = nat])

lemmas and_low = and_low_mask [of _ 3, where 'a = 8, simplified mask_eq_exp_minus_1, simplified]
  and_low_mask [of _ 4, where 'a = 8, simplified mask_eq_exp_minus_1, simplified]
  and_low_mask [of _ 5, where 'a = 8, simplified mask_eq_exp_minus_1, simplified]
  and_low_mask [of _ 6, where 'a = 8, simplified mask_eq_exp_minus_1, simplified]

text \<open>The bytes \<^verbatim>\<open>10xxxxxx\<close>.\<close>

definition continuation :: "byte \<Rightarrow> bool" where
  "continuation b \<longleftrightarrow> 0x80 \<le> unat b \<and> unat b < 0xC0"

lemma continuation_iff: "b AND 0xC0 = 0x80 \<longleftrightarrow> continuation b"
proof -
  have all: "list_all (\<lambda>n. of_nat n AND 0xC0 = (0x80 :: byte) \<longleftrightarrow> 0x80 \<le> n \<and> n < 0xC0) [0..<256]"
    by code_simp
  have "unat b < 256" using unsigned_less [of b, where 'a = nat] by simp
  then have "unat b \<in> set [0..<256]" by simp
  with all have "(of_nat (unat b) AND 0xC0 = (0x80 :: byte)) \<longleftrightarrow> 0x80 \<le> unat b \<and> unat b < 0xC0"
    unfolding list_all_iff by blast
  then show ?thesis by (simp add: continuation_def)
qed

lemma shift_in:
  fixes v :: u32
  assumes "unat v < 2 ^ 26"
  shows "unat (push_bit 6 v OR ucast (b AND 63 :: byte)) = 64 * unat v + unat b mod 64"
proof -
  have u: "unat (ucast (b AND 63) :: u32) = unat b mod 64"
    by (simp add: unsigned_ucast_eq and_low take_bit_nat_eq_self)
  have p: "unat (push_bit 6 v) = 64 * unat v"
    using assms by (simp add: unsigned_push_bit_eq push_bit_eq_mult [where 'a = nat] take_bit_nat_eq_self)
  have "push_bit 6 v AND ucast (b AND 63) = 0"
  proof (rule bit_eqI)
    fix n
    have "\<not> bit (63 :: byte) n" if "6 \<le> n"
      using bit_mask_iff [of 6 n, where 'a = "8 word"] that by (simp add: mask_eq_exp_minus_1)
    then show "bit (push_bit 6 v AND ucast (b AND 63)) n = bit (0 :: u32) n"
      by (auto simp: bit_simps)
  qed
  then have "push_bit 6 v OR ucast (b AND 63) = push_bit 6 v + ucast (b AND 63)"
    by (simp add: disjunctive_add_eq_or)
  then show ?thesis using assms u p by (simp add: unat_add_fits)
qed

lemma base64: "d < 64 \<Longrightarrow> (64 * k + d) div 64 = k" "d < 64 \<Longrightarrow> (64 * k + d) mod 64 = d" for d k :: nat
  by simp_all

lemma digit_mod: "d < 64 \<Longrightarrow> (0x80 + d) mod 64 = (d :: nat)"
  using base64(2) [of d 2] by simp

lemma continuation_digit: "continuation b \<longleftrightarrow> (\<exists>d < 64. b = of_nat (0x80 + d))"
proof
  assume c: "continuation b"
  then have "b = of_nat (0x80 + (unat b - 0x80))" by (simp add: continuation_def)
  with c show "\<exists>d < 64. b = of_nat (0x80 + d)"
    by (intro exI [of _ "unat b - 0x80"]) (auto simp: continuation_def)
qed (auto simp: continuation_def unsigned_of_nat take_bit_nat_eq_self simp del: of_nat_add)

abbreviation cont_byte :: "nat \<Rightarrow> byte" where
  "cont_byte d \<equiv> of_nat (0x80 + d)"

lemma unat_cont_byte: "d < 64 \<Longrightarrow> unat (cont_byte d) = 0x80 + d"
  by (simp add: unsigned_of_nat take_bit_nat_eq_self del: of_nat_add)

lemma utf8_continue_iff:
  "(unat v + 1) * 64 ^ k \<le> 2 ^ 32 \<Longrightarrow> utf8_continue k v bs = Some (w, r) \<longleftrightarrow>
     (\<exists>ds. length ds = k \<and> list_all (\<lambda>d. d < 64) ds \<and> bs = map cont_byte ds @ r
        \<and> unat w = foldl (\<lambda>a d. 64 * a + d) (unat v) ds)"
proof (induction k arbitrary: v bs)
  case 0
  then show ?case by (auto dest: unsigned_word_eqI)
next
  case (Suc k)
  have "64 * (unat v + 1) * 1 \<le> 64 * (unat v + 1) * 64 ^ k" by (rule mult_le_mono2) simp
  also have "\<dots> \<le> 2 ^ 32" using Suc.prems by (simp add: algebra_simps)
  finally have v: "unat v < 2 ^ 26" by simp
  let ?v = "\<lambda>d. push_bit 6 v OR ucast (cont_byte d AND 63)"
  have vd: "unat (?v d) = 64 * unat v + d" if "d < 64" for d
    using v that by (simp add: shift_in unat_cont_byte digit_mod del: of_nat_add)
  have le: "(unat (?v d) + 1) * 64 ^ k \<le> 2 ^ 32" if "d < 64" for d
  proof -
    have "(unat (?v d) + 1) * 64 ^ k \<le> 64 * (unat v + 1) * 64 ^ k"
      using vd [OF that] that by (intro mult_le_mono1) simp
    also have "\<dots> \<le> 2 ^ 32" using Suc.prems by (simp add: algebra_simps)
    finally show ?thesis .
  qed
  have IH: "utf8_continue k (?v d) bs' = Some (w, r) \<longleftrightarrow>
      (\<exists>ds. length ds = k \<and> list_all (\<lambda>d. d < 64) ds \<and> bs' = map cont_byte ds @ r
        \<and> unat w = foldl (\<lambda>a d. 64 * a + d) (64 * unat v + d) ds)" if "d < 64" for d bs'
    using Suc.IH [OF le [OF that], of bs'] unfolding vd [OF that] .
  have step: "utf8_continue (Suc k) v bs = Some (w, r) \<longleftrightarrow>
      (\<exists>d bs'. d < 64 \<and> bs = cont_byte d # bs' \<and> utf8_continue k (?v d) bs' = Some (w, r))"
    by (cases bs) (auto simp: continuation_iff continuation_digit simp del: of_nat_add)
  show ?case (is "_ = ?R")
  proof
    assume "utf8_continue (Suc k) v bs = Some (w, r)"
    then obtain d bs' where d: "d < 64" "bs = cont_byte d # bs'" "utf8_continue k (?v d) bs' = Some (w, r)"
      using step by blast
    then obtain ds where "length ds = k" "list_all (\<lambda>d. d < 64) ds" "bs' = map cont_byte ds @ r"
      "unat w = foldl (\<lambda>a d. 64 * a + d) (64 * unat v + d) ds" using IH [OF d(1)] by blast
    with d show ?R by (intro exI [of _ "d # ds"]) simp
  next
    assume ?R
    then obtain ds where ds: "length ds = Suc k" "list_all (\<lambda>d. d < 64) ds" "bs = map cont_byte ds @ r"
      "unat w = foldl (\<lambda>a d. 64 * a + d) (unat v) ds" by blast
    then obtain d ds' where "ds = d # ds'" by (cases ds) auto
    with ds show "utf8_continue (Suc k) v bs = Some (w, r)"
      using step IH [of d "map cont_byte ds' @ r"] by auto
  qed
qed

text \<open>The multi-byte forms: the payload digits of the bytes are the base-64 digits of the scalar value.\<close>

lemma utf8_encode2:
  assumes "d < 64" and n: "n = 64 * p + d" "0x80 \<le> n" "n < 0x800"
  shows "utf8_encode n = [of_nat (0xC0 + p), cont_byte d]"
  using assms by (simp add: utf8_encode_def)

lemma utf8_encode3:
  assumes "e < 64" "d < 64" and n: "n = 64 * (64 * p + e) + d" "0x800 \<le> n" "n < 0x10000"
  shows "utf8_encode n = [of_nat (0xE0 + p), cont_byte e, cont_byte d]"
proof -
  have "n div 4096 = n div 64 div 64" by (simp add: div_mult2_eq [symmetric])
  moreover have "n div 64 = 64 * p + e" "n mod 64 = d" unfolding n(1) using assms(2) by (simp_all only: base64)
  ultimately have "n div 4096 = p" "n div 64 mod 64 = e" "n mod 64 = d" using assms(1) by (simp_all only: base64)
  then show ?thesis using n(2,3) by (simp add: utf8_encode_def)
qed

lemma utf8_encode4:
  assumes "g < 64" "e < 64" "d < 64" and n: "n = 64 * (64 * (64 * p + g) + e) + d" "0x10000 \<le> n"
  shows "utf8_encode n = [of_nat (0xF0 + p), cont_byte g, cont_byte e, cont_byte d]"
proof -
  have "n div 4096 = n div 64 div 64" "n div 262144 = n div 64 div 64 div 64"
    by (simp_all add: div_mult2_eq [symmetric])
  moreover have 1: "n div 64 = 64 * (64 * p + g) + e" "n mod 64 = d"
    unfolding n(1) using assms(3) by (simp_all only: base64)
  ultimately have 2: "n div 4096 = 64 * p + g" "n div 262144 = (64 * p + g) div 64" "n div 64 mod 64 = e"
    using assms(2) by (simp_all only: base64)
  then have "n div 262144 = p" "n div 4096 mod 64 = g" using assms(1) by (simp_all only: base64)
  then show ?thesis using 1(2) 2(3) n(2) by (simp add: utf8_encode_def)
qed

lemma utf8_lead_unat:
  "utf8_lead c =
     (if 0xC2 \<le> unat c \<and> unat c \<le> 0xDF then Some (1, ucast (c AND 31), 0x80)
      else if 0xE0 \<le> unat c \<and> unat c \<le> 0xEF then Some (2, ucast (c AND 15), 0x800)
      else if 0xF0 \<le> unat c \<and> unat c \<le> 0xF4 then Some (3, ucast (c AND 7), 0x10000)
      else None)"
  by (simp add: utf8_lead_def word_le_nat_alt)

lemma unat_lead:
  "unat c = 0xC0 + p \<Longrightarrow> p < 32 \<Longrightarrow> unat (ucast (c AND 31) :: u32) = p"
  "unat c = 0xE0 + p \<Longrightarrow> p < 16 \<Longrightarrow> unat (ucast (c AND 15) :: u32) = p"
  "unat c = 0xF0 + p \<Longrightarrow> p < 8 \<Longrightarrow> unat (ucast (c AND 7) :: u32) = p"
  for c :: byte
proof -
  have m: "(64 * 3 + q) mod 32 = q" if "q < 32" for q :: nat using that mod_mult_self3 [of 6 32 q] by simp
  show "unat c = 0xC0 + p \<Longrightarrow> p < 32 \<Longrightarrow> unat (ucast (c AND 31) :: u32) = p"
    using m [of p] by (simp add: unsigned_ucast_eq and_low take_bit_nat_eq_self)
  show "unat c = 0xE0 + p \<Longrightarrow> p < 16 \<Longrightarrow> unat (ucast (c AND 15) :: u32) = p"
    using mod_mult_self3 [of 14 16 p] by (simp add: unsigned_ucast_eq and_low take_bit_nat_eq_self)
  show "unat c = 0xF0 + p \<Longrightarrow> p < 8 \<Longrightarrow> unat (ucast (c AND 7) :: u32) = p"
    using mod_mult_self3 [of 30 8 p] by (simp add: unsigned_ucast_eq and_low take_bit_nat_eq_self)
qed

text \<open>One round of the scanner's loop accepts a prefix exactly when it encodes a scalar value.\<close>

definition utf8_round :: "bytes \<Rightarrow> (nat \<times> bytes) option" where
  "utf8_round bs = (case bs of [] \<Rightarrow> None | c # bs \<Rightarrow>
     if c < 0x80 then Some (unat c, bs)
     else case utf8_lead c of None \<Rightarrow> None
       | Some (count, val, minimum) \<Rightarrow>
         case utf8_continue count val bs of None \<Rightarrow> None
           | Some (v, r) \<Rightarrow>
             if v < minimum \<or> v > 0x10FFFF \<or> (0xD800 \<le> v \<and> v \<le> 0xDFFF) then None
             else Some (unat v, r))"

lemma IsValidUtf8_round:
  "IsValidUtf8 bs \<longleftrightarrow> bs = [] \<or> (\<exists>n r. utf8_round bs = Some (n, r) \<and> IsValidUtf8 r)"
proof (cases bs)
  case Nil
  then show ?thesis by simp
next
  case (Cons c cs)
  have "length cs \<ge> k" if "utf8_continue k v cs = Some (w, r)" for k v w r
    using length_utf8_continue [OF that] by simp
  then show ?thesis using Cons
    by (fastforce simp: utf8_round_def split: option.splits if_splits prod.splits)
qed



lemma ex_len:
  "(\<exists>ds. length ds = 1 \<and> P ds) \<longleftrightarrow> (\<exists>d. P [d])"
  "(\<exists>ds. length ds = 2 \<and> Q ds) \<longleftrightarrow> (\<exists>e d. Q [e, d])"
  "(\<exists>ds. length ds = 3 \<and> R ds) \<longleftrightarrow> (\<exists>g e d. R [g, e, d])"
proof -
  have l: "length ds = 1 \<longleftrightarrow> (\<exists>d. ds = [d])" "length ds = 2 \<longleftrightarrow> (\<exists>e d. ds = [e, d])"
    "length ds = 3 \<longleftrightarrow> (\<exists>g e d. ds = [g, e, d])" for ds :: "'x list"
    by (auto simp: length_Suc_conv numeral_eq_Suc)
  show "(\<exists>ds. length ds = 1 \<and> P ds) \<longleftrightarrow> (\<exists>d. P [d])" unfolding l by blast
  show "(\<exists>ds. length ds = 2 \<and> Q ds) \<longleftrightarrow> (\<exists>e d. Q [e, d])" unfolding l by blast
  show "(\<exists>ds. length ds = 3 \<and> R ds) \<longleftrightarrow> (\<exists>g e d. R [g, e, d])" unfolding l by blast
qed

lemma unat_of_nat_u32: "n < 2 ^ 32 \<Longrightarrow> unat (of_nat n :: u32) = n"
  by (simp add: unsigned_of_nat take_bit_nat_eq_self)

lemma byte_split: "k \<le> unat c \<Longrightarrow> \<exists>p. unat c = k + p \<and> c = of_nat (k + p)" for c :: byte
  by (rule exI [of _ "unat c - k"]) simp

lemma utf8_roundD:
  assumes "utf8_round bs = Some (n, r)"
  shows "scalar_value n \<and> bs = utf8_encode n @ r"
proof -
  from assms obtain c cs where bs: "bs = c # cs" by (auto simp: utf8_round_def split: list.splits)
  show ?thesis
  proof (cases "c < 0x80")
    case True
    with assms bs show ?thesis
      by (auto simp: utf8_round_def scalar_value_def utf8_encode_def word_less_nat_alt)
  next
    case False
    with assms bs obtain count val minimum v where l: "utf8_lead c = Some (count, val, minimum)"
      and v: "utf8_continue count val cs = Some (v, r)"
      and ok: "\<not> (v < minimum \<or> v > 0x10FFFF \<or> (0xD800 \<le> v \<and> v \<le> 0xDFFF))" and n: "n = unat v"
      by (auto simp: utf8_round_def split: option.splits if_splits)
    have sv: "scalar_value n" using ok n by (auto simp: scalar_value_def word_le_nat_alt word_less_nat_alt)
    have mn: "unat minimum \<le> n" using ok n by (auto simp: word_less_nat_alt)
    from l consider "count = 1" "val = ucast (c AND 31)" "minimum = 0x80" "0xC2 \<le> unat c" "unat c \<le> 0xDF"
      | "count = 2" "val = ucast (c AND 15)" "minimum = 0x800" "0xE0 \<le> unat c" "unat c \<le> 0xEF"
      | "count = 3" "val = ucast (c AND 7)" "minimum = 0x10000" "0xF0 \<le> unat c" "unat c \<le> 0xF4"
      by (auto simp: utf8_lead_unat split: if_splits)
    then show ?thesis
    proof cases
      case 1
      then obtain p where p: "unat c = 0xC0 + p" "c = of_nat (0xC0 + p)" using byte_split [of "0xC0" c] by auto
      then have pv: "unat val = p" "p < 32" using 1 by (simp_all add: unat_lead)
      then obtain d where "d < 64" "cs = cont_byte d # r" "n = 64 * p + d"
        using v utf8_continue_iff [of val 1 cs v r] 1 n unfolding ex_len by auto
      then show ?thesis using utf8_encode2 [of d n p] mn pv p sv 1 bs by simp
    next
      case 2
      then obtain p where p: "unat c = 0xE0 + p" "c = of_nat (0xE0 + p)" using byte_split [of "0xE0" c] by auto
      then have pv: "unat val = p" "p < 16" using 2 by (simp_all add: unat_lead)
      then obtain e d where "e < 64" "d < 64" "cs = cont_byte e # cont_byte d # r" "n = 64 * (64 * p + e) + d"
        using v utf8_continue_iff [of val 2 cs v r] 2 n unfolding ex_len by auto
      then show ?thesis using utf8_encode3 [of e d n p] mn pv p sv 2 bs by simp
    next
      case 3
      then obtain p where p: "unat c = 0xF0 + p" "c = of_nat (0xF0 + p)" using byte_split [of "0xF0" c] by auto
      then have pv: "unat val = p" "p < 8" using 3 by (simp_all add: unat_lead)
      then obtain g e d where "g < 64" "e < 64" "d < 64" "cs = cont_byte g # cont_byte e # cont_byte d # r"
        "n = 64 * (64 * (64 * p + g) + e) + d"
        using v utf8_continue_iff [of val 3 cs v r] 3 n unfolding ex_len by auto
      then show ?thesis using utf8_encode4 [of g e d n p] mn pv p sv 3 bs by simp
    qed
  qed
qed

lemma utf8_round_multi:
  assumes c: "\<not> c < 0x80" and l: "utf8_lead c = Some (count, val, minimum)"
    and ds: "length ds = count" "list_all (\<lambda>d. d < 64) ds"
    and val: "(unat val + 1) * 64 ^ count \<le> 2 ^ 32" "foldl (\<lambda>a d. 64 * a + d) (unat val) ds = n"
    and n: "unat minimum \<le> n" "scalar_value n"
  shows "utf8_round (c # map cont_byte ds @ r) = Some (n, r)"
proof -
  have un: "unat (of_nat n :: u32) = n" using n(2) by (simp add: unat_of_nat_u32 scalar_value_def)
  then have "utf8_continue count val (map cont_byte ds @ r) = Some (of_nat n, r)"
    using utf8_continue_iff [OF val(1)] ds val(2) by auto
  then show ?thesis using c l n un
    by (auto simp: utf8_round_def scalar_value_def word_less_nat_alt word_le_nat_alt)
qed

lemma unat_byte: "n < 256 \<Longrightarrow> unat (of_nat n :: byte) = n"
  by (simp add: unsigned_of_nat take_bit_nat_eq_self)

lemma base64_split: "\<exists>p d. n = 64 * p + d \<and> d < (64 :: nat)"
  by (rule exI [of _ "n div 64"], rule exI [of _ "n mod 64"]) simp

lemma utf8_round_encode:
  assumes n: "scalar_value n"
  shows "utf8_round (utf8_encode n @ r) = Some (n, r)"
proof -
  obtain q d where q: "n = 64 * q + d" "d < 64" using base64_split by blast
  obtain s e where s: "q = 64 * s + e" "e < 64" using base64_split by blast
  obtain p g where p: "s = 64 * p + g" "g < 64" using base64_split by blast
  consider "n < 0x80" | "0x80 \<le> n" "n < 0x800" | "0x800 \<le> n" "n < 0x10000" | "0x10000 \<le> n" by linarith
  then show ?thesis
  proof cases
    case 1
    then show ?thesis by (simp add: utf8_round_def utf8_encode_def word_less_nat_alt unat_byte)
  next
    case 2
    let ?c = "of_nat (0xC0 + q) :: byte"
    have b: "q < 32" "2 \<le> q" using 2 q by auto
    then have c: "unat ?c = 0xC0 + q" by (simp add: unat_byte del: of_nat_add)
    have "utf8_lead ?c = Some (1, ucast (?c AND 31), 0x80)" "\<not> ?c < 0x80"
      unfolding utf8_lead_unat word_less_nat_alt c using b by simp_all
    then have "utf8_round (?c # map cont_byte [d] @ r) = Some (n, r)"
      using unat_lead(1) [OF c b(1)] q b 2 n
      by (intro utf8_round_multi [where count = 1 and minimum = "0x80"]) (auto simp del: of_nat_add One_nat_def)
    then show ?thesis using utf8_encode2 [of d n q] q 2 by simp
  next
    case 3
    let ?c = "of_nat (0xE0 + s) :: byte"
    have b: "s < 16" using 3 q s by auto
    then have c: "unat ?c = 0xE0 + s" by (simp add: unat_byte del: of_nat_add)
    have "utf8_lead ?c = Some (2, ucast (?c AND 15), 0x800)" "\<not> ?c < 0x80"
      unfolding utf8_lead_unat word_less_nat_alt c using b by simp_all
    then have "utf8_round (?c # map cont_byte [e, d] @ r) = Some (n, r)"
      using unat_lead(2) [OF c b(1)] q s b 3 n
      by (intro utf8_round_multi [where count = 2 and minimum = "0x800"]) (auto simp del: of_nat_add)
    then show ?thesis using utf8_encode3 [of e d n s] q s 3 by simp
  next
    case 4
    let ?c = "of_nat (0xF0 + p) :: byte"
    have b: "p < 5" "p < 8" using 4 q s p n by (auto simp: scalar_value_def)
    then have c: "unat ?c = 0xF0 + p" by (simp add: unat_byte del: of_nat_add)
    have "utf8_lead ?c = Some (3, ucast (?c AND 7), 0x10000)" "\<not> ?c < 0x80"
      unfolding utf8_lead_unat word_less_nat_alt c using b by simp_all
    then have "utf8_round (?c # map cont_byte [g, e, d] @ r) = Some (n, r)"
      using unat_lead(3) [OF c b(2)] q s p b 4 n
      by (intro utf8_round_multi [where count = 3 and minimum = "0x10000"]) (auto simp del: of_nat_add)
    then show ?thesis using utf8_encode4 [of g e d n p] q s p 4 by simp
  qed
qed

lemma utf8_encode_ne: "utf8_encode n \<noteq> []"
  by (simp add: utf8_encode_def)

lemma IsValidUtf8_concat:
  "list_all scalar_value ns \<Longrightarrow> IsValidUtf8 (concat (map utf8_encode ns))"
proof (induction ns)
  case (Cons n ns)
  then have "utf8_round (utf8_encode n @ concat (map utf8_encode ns)) = Some (n, concat (map utf8_encode ns))"
    by (intro utf8_round_encode) simp
  moreover have "IsValidUtf8 (concat (map utf8_encode ns))" using Cons by simp
  ultimately have "IsValidUtf8 (utf8_encode n @ concat (map utf8_encode ns))"
    by (subst IsValidUtf8_round) blast
  then show ?case by simp
qed simp

lemma IsValidUtf8_decodes:
  "IsValidUtf8 bs \<Longrightarrow> \<exists>ns. list_all scalar_value ns \<and> bs = concat (map utf8_encode ns)"
proof (induction "length bs" arbitrary: bs rule: less_induct)
  case less
  show ?case
  proof (cases "bs = []")
    case True
    then show ?thesis by (intro exI [of _ "[]"]) simp
  next
    case False
    then obtain n r where r: "utf8_round bs = Some (n, r)" "IsValidUtf8 r"
      using less.prems IsValidUtf8_round by blast
    note d = utf8_roundD [OF r(1)]
    then have "length r < length bs" using utf8_encode_ne by auto
    then obtain ns where "list_all scalar_value ns" "r = concat (map utf8_encode ns)"
      using less.hyps r(2) by blast
    with d show ?thesis by (intro exI [of _ "n # ns"]) simp
  qed
qed

end
