(* ===== verification/Economy.thy ===== *)
theory Economy
  imports Prelude
begin

text \<open>
  Protocol parameters (\<^verbatim>\<open>protocol_params.h\<close>) and the pure storage arithmetic
  (\<^verbatim>\<open>storage_economy.h\<close>, \<^verbatim>\<open>storage_economy.cpp\<close>). \<^verbatim>\<open>uint64_t\<close> values are
  64-bit words, \<^verbatim>\<open>unsigned __int128\<close> intermediates are 128-bit words; the lemmas state in
  unbounded arithmetic what each checked computation returns and exactly when it is refused.
\<close>

section \<open>Protocol parameters\<close>

record CybouProtocolParameters =
  account_creation_work_bits :: u32
  account_creation_epoch_lag :: u64
  max_account_creates_per_block :: u32
  onboarding_bonus :: u64
  epoch_blocks :: u64
  payment_fee :: u64
  root_publication_fee_per_started_kib :: u64
  root_publication_fee_per_chunk :: u64
  name_claim_work_bits :: u32
  name_commit_min_depth :: u64
  name_commit_max_lifetime :: u64
  max_pending_name_commits :: u32
  identity_kem_xwing_enabled :: bool
  storage_rate_per_gib_day_replica :: u64
  storage_replica_target :: u8
  storage_settlement_period_seconds :: u64
  max_storage_lease_periods :: u32

definition DEFAULT_MAX_PENDING_NAME_COMMITS :: nat where
  "DEFAULT_MAX_PENDING_NAME_COMMITS = 10000"

definition DevProtocolParameters :: CybouProtocolParameters where
  "DevProtocolParameters = \<lparr>
     account_creation_work_bits = 25,
     account_creation_epoch_lag = 1,
     max_account_creates_per_block = 100,
     onboarding_bonus = 20000,
     epoch_blocks = 1024,
     payment_fee = 1,
     root_publication_fee_per_started_kib = 4,
     root_publication_fee_per_chunk = 4,
     name_claim_work_bits = 16,
     name_commit_min_depth = 1,
     name_commit_max_lifetime = 1000,
     max_pending_name_commits = of_nat DEFAULT_MAX_PENDING_NAME_COMMITS,
     identity_kem_xwing_enabled = True,
     storage_rate_per_gib_day_replica = 5,
     storage_replica_target = 2,
     storage_settlement_period_seconds = 86400,
     max_storage_lease_periods = 3650 \<rparr>"

definition EpochForHeight :: "u64 \<Rightarrow> CybouProtocolParameters \<Rightarrow> u64" where
  "EpochForHeight block_height params =
     (if epoch_blocks params = 0 then 0 else block_height div epoch_blocks params)"

definition MAX_PUBLICATION_CHUNKS :: nat where "MAX_PUBLICATION_CHUNKS = 2 ^ 20"
definition MAX_OPERATION_PAYLOAD_BYTES :: nat where "MAX_OPERATION_PAYLOAD_BYTES = 128 * 1024"
definition MAX_FINALIZED_BLOCK_BYTES :: nat where "MAX_FINALIZED_BLOCK_BYTES = 32 * 1024 * 1024"
definition GENESIS_MONETARY_BASE :: u64 where "GENESIS_MONETARY_BASE = 100000000000"
definition CENTRAL_AUTHORITY_NAME :: string where "CENTRAL_AUTHORITY_NAME = ''cybou''"


section \<open>Storage rent and funded shares\<close>

definition STORAGE_BILLING_UNIT_BYTES :: u64 where "STORAGE_BILLING_UNIT_BYTES = 512 * 1024"
definition STORAGE_SECONDS_PER_DAY :: u64 where "STORAGE_SECONDS_PER_DAY = 86400"
definition STORAGE_RATE_CYBOU_PER_GIB_DAY_REPLICA :: u64 where "STORAGE_RATE_CYBOU_PER_GIB_DAY_REPLICA = 5"
definition STORAGE_RENT_DENOMINATOR :: u64 where "STORAGE_RENT_DENOMINATOR = 2048 * 86400"

definition StorageBillingUnits :: "u64 \<Rightarrow> u64" where
  "StorageBillingUnits bs = bs div STORAGE_BILLING_UNIT_BYTES + (if bs mod STORAGE_BILLING_UNIT_BYTES \<noteq> 0 then 1 else 0)"

definition CheckedMul :: "u64 \<Rightarrow> u64 \<Rightarrow> u64 option" where
  "CheckedMul a b = (if a \<noteq> 0 \<and> b > U64_MAX div a then None else Some (a * b))"

record StorageRentAccumulator =
  ra_cybou :: u64
  ra_remainder :: u64

text \<open>\<^verbatim>\<open>AccrueStorageRent\<close>: \<^verbatim>\<open>false\<close> (here \<open>None\<close>) leaves the accumulator as it was.\<close>

definition AccrueStorageRent :: "StorageRentAccumulator \<Rightarrow> u64 \<Rightarrow> u64 \<Rightarrow> u64 \<Rightarrow> StorageRentAccumulator option" where
  "AccrueStorageRent acc units seconds replicas =
     (if ra_remainder acc \<ge> STORAGE_RENT_DENOMINATOR then None
      else do {
        n1 \<leftarrow> CheckedMul units seconds;
        n2 \<leftarrow> CheckedMul n1 replicas;
        numerator \<leftarrow> CheckedMul n2 STORAGE_RATE_CYBOU_PER_GIB_DAY_REPLICA;
        let whole = numerator div STORAGE_RENT_DENOMINATOR;
            sum = numerator mod STORAGE_RENT_DENOMINATOR + ra_remainder acc;
            carry = sum div STORAGE_RENT_DENOMINATOR;
            remainder = sum mod STORAGE_RENT_DENOMINATOR
        in if whole > U64_MAX - carry \<or> ra_cybou acc > U64_MAX - whole - carry then None
           else Some \<lparr> ra_cybou = ra_cybou acc + (whole + carry), ra_remainder = remainder \<rparr> })"

definition StorageRentPerDay :: "u64 \<Rightarrow> u64 \<Rightarrow> u64 option" where
  "StorageRentPerDay units replicas =
     map_option ra_cybou (AccrueStorageRent \<lparr> ra_cybou = 0, ra_remainder = 0 \<rparr> units STORAGE_SECONDS_PER_DAY replicas)"

record AssignedStorageBudget =
  per_replica :: u64
  budget_total :: u64
  budget_unit_seconds :: u64

definition ComputeAssignedStorageBudget :: "u64 \<Rightarrow> u64 \<Rightarrow> u64 \<Rightarrow> u64 \<Rightarrow> u64 \<Rightarrow> AssignedStorageBudget option" where
  "ComputeAssignedStorageBudget units replicas periods period_seconds rate =
     (if units = 0 \<or> replicas = 0 \<or> periods = 0 \<or> period_seconds = 0 \<or> rate = 0 then None
      else do {
        seconds \<leftarrow> CheckedMul periods period_seconds;
        unit_seconds \<leftarrow> CheckedMul units seconds;
        let numerator = (ucast unit_seconds :: u128) * ucast rate;
            share = numerator div ucast STORAGE_RENT_DENOMINATOR
                      + (if numerator mod ucast STORAGE_RENT_DENOMINATOR \<noteq> 0 then 1 else 0)
        in if share > ucast U64_MAX then None
           else do {
             total \<leftarrow> CheckedMul (ucast share) replicas;
             Some \<lparr> per_replica = ucast share, budget_total = total, budget_unit_seconds = unit_seconds \<rparr> } })"

text \<open>\<^verbatim>\<open>int64_t\<close> timestamps in milliseconds; the guards make both operands positive.\<close>

definition StorageVerifiedIntervalSeconds :: "int \<Rightarrow> int \<Rightarrow> int \<Rightarrow> u64" where
  "StorageVerifiedIntervalSeconds previous_ms now_ms maximum_gap_ms =
     (if previous_ms \<le> 0 \<or> now_ms \<le> previous_ms \<or> maximum_gap_ms \<le> 0 then 0
      else let gap = now_ms - previous_ms in
        if gap \<le> maximum_gap_ms then of_int (gap div 1000) else 0)"

definition ComputeAssignedStoragePayout :: "AssignedStorageBudget \<Rightarrow> u64 \<Rightarrow> u64 \<Rightarrow> u64 option" where
  "ComputeAssignedStoragePayout budget verified_unit_seconds finalized_paid =
     (if per_replica budget = 0 \<or> budget_unit_seconds budget = 0 \<or> budget_total budget < per_replica budget
         \<or> budget_total budget mod per_replica budget \<noteq> 0
         \<or> verified_unit_seconds > budget_unit_seconds budget then None
      else let entitlement = (ucast ((ucast (per_replica budget) :: u128) * ucast verified_unit_seconds
                                div ucast (budget_unit_seconds budget)) :: u64)
        in if finalized_paid > entitlement then None else Some (entitlement - finalized_paid))"


section \<open>What the arithmetic computes\<close>

lemma unat_ucast_u128 [simp]: "unat (ucast a :: u128) = unat a" for a :: u64
  using unsigned_less [of a, where 'a = nat] by (simp add: unsigned_ucast_eq take_bit_nat_eq_self)

lemma unat_ucast_u64: "unat (a :: u128) < 2 ^ 64 \<Longrightarrow> unat (ucast a :: u64) = unat a"
  by (simp add: unsigned_ucast_eq take_bit_nat_eq_self)

lemma unat_lt64: "unat (a :: u64) < 2 ^ 64"
  using unsigned_less [of a, where 'a = nat] by simp

lemma unat_mul_u128:
  "unat ((ucast a :: u128) * ucast b) = unat (a :: u64) * unat (b :: u64)"
proof -
  have "unat a * unat b < 2 ^ 64 * 2 ^ 64"
    by (rule mult_strict_mono') (simp_all add: unat_lt64 del: power_numeral)
  then show ?thesis by (simp add: unat_mult_fits)
qed

lemma CheckedMul_iff: "CheckedMul a b = Some c \<longleftrightarrow> unat a * unat b < 2 ^ 64 \<and> c = a * b"
proof (cases "a = 0")
  case True
  then show ?thesis by (auto simp: CheckedMul_def)
next
  case False
  then have a: "0 < unat a" by (simp add: unat_gt_0)
  have "b > U64_MAX div a \<longleftrightarrow> (2 ^ 64 - 1) div unat a < unat b"
    by (simp add: word_less_nat_alt unat_div unat_U64_MAX)
  also have "\<dots> \<longleftrightarrow> 2 ^ 64 - 1 < unat b * unat a"
    using a by (rule div_less_iff_less_mult)
  finally show ?thesis using False by (auto simp: CheckedMul_def mult.commute)
qed

lemma CheckedMul_unat: "CheckedMul a b = Some c \<Longrightarrow> unat c = unat a * unat b"
  by (auto simp: CheckedMul_iff unat_mult_fits)

lemma CheckedMul_None_iff: "CheckedMul a b = None \<longleftrightarrow> 2 ^ 64 \<le> unat a * unat b"
  by (metis CheckedMul_iff leI not_le not_None_eq)

text \<open>The rent denominator as a number: GiB-days in unit-seconds.\<close>

definition rent_den :: nat where "rent_den = 2048 * 86400"

lemma unat_STORAGE_RENT_DENOMINATOR: "unat STORAGE_RENT_DENOMINATOR = rent_den"
  by (simp add: STORAGE_RENT_DENOMINATOR_def rent_den_def)

definition ceil_div :: "nat \<Rightarrow> nat \<Rightarrow> nat" where
  "ceil_div a b = a div b + (if a mod b \<noteq> 0 then 1 else 0)"

lemma ceil_div_bounds: "0 < b \<Longrightarrow> a \<le> ceil_div a b * b \<and> ceil_div a b * b < a + b"
proof -
  assume "0 < b"
  then have "a mod b < b" by simp
  moreover have "a div b * b + a mod b = a" by simp
  ultimately have "a \<le> a div b * b + b" "a mod b \<noteq> 0 \<Longrightarrow> a div b * b < a" "a mod b = 0 \<Longrightarrow> a div b * b = a"
    by linarith+
  then show ?thesis using \<open>0 < b\<close> by (cases "a mod b = 0") (simp_all add: ceil_div_def)
qed

text \<open>\<^verbatim>\<open>StorageBillingUnits\<close> rounds up: the least number of 512 KiB units that hold the bytes.\<close>

lemma unat_StorageBillingUnits: "unat (StorageBillingUnits bs) = ceil_div (unat bs) (512 * 1024)"
proof -
  have "unat bs div (512 * 1024) + 1 < 2 ^ 64"
    using unat_lt64 [of bs] by (simp add: less_mult_imp_div_less)
  then show ?thesis
    by (auto simp: StorageBillingUnits_def STORAGE_BILLING_UNIT_BYTES_def ceil_div_def unat_div unat_mod
        unat_add_fits unat_eq_zero [symmetric])
qed

lemma share_u128:
  "unat ((ucast us :: u128) * ucast rate div ucast STORAGE_RENT_DENOMINATOR
      + (if (ucast us :: u128) * ucast rate mod ucast STORAGE_RENT_DENOMINATOR \<noteq> 0 then 1 else 0))
   = ceil_div (unat us * unat rate) rent_den" for us rate :: u64
proof -
  let ?n = "(ucast us :: u128) * ucast rate"
  have n: "unat ?n = unat us * unat rate" by (rule unat_mul_u128)
  have d: "unat (?n div ucast STORAGE_RENT_DENOMINATOR) = unat us * unat rate div rent_den"
    by (simp only: unat_div n unat_ucast_u128 unat_STORAGE_RENT_DENOMINATOR)
  have m: "?n mod ucast STORAGE_RENT_DENOMINATOR \<noteq> 0 \<longleftrightarrow> unat us * unat rate mod rent_den \<noteq> 0"
    by (simp only: unat_eq_0 [symmetric] unat_mod n unat_ucast_u128 unat_STORAGE_RENT_DENOMINATOR)
  have "unat ?n < 2 ^ 128" using unsigned_less [of ?n, where 'a = nat] by simp
  then have "unat us * unat rate div rent_den + 1 < 2 ^ 128"
    unfolding n rent_den_def by (simp add: less_mult_imp_div_less)
  then show ?thesis using m d by (auto simp: ceil_div_def unat_add_fits)
qed

lemma budget_eq_iff:
  "\<lparr> per_replica = x, budget_total = y, budget_unit_seconds = z \<rparr> = b \<longleftrightarrow>
     unat (per_replica b) = unat x \<and> unat (budget_total b) = unat y \<and> unat (budget_unit_seconds b) = unat z"
  by (cases b) (auto dest: unsigned_word_eqI)

text \<open>The funded share of a replica is the rent of the whole term rounded up to a whole CYBOU, the total
  is that share times the replicas, and the computation is refused only for a zero argument or when
  one of the four products does not fit 64 bits.\<close>

lemma ComputeAssignedStorageBudget_iff:
  fixes units replicas periods period_seconds rate :: u64
  defines "unit_secs \<equiv> unat units * (unat periods * unat period_seconds)"
  defines "share \<equiv> ceil_div (unit_secs * unat rate) rent_den"
  shows "ComputeAssignedStorageBudget units replicas periods period_seconds rate = Some b \<longleftrightarrow>
     units \<noteq> 0 \<and> replicas \<noteq> 0 \<and> periods \<noteq> 0 \<and> period_seconds \<noteq> 0 \<and> rate \<noteq> 0
     \<and> unat periods * unat period_seconds < 2 ^ 64 \<and> unit_secs < 2 ^ 64
     \<and> share < 2 ^ 64 \<and> share * unat replicas < 2 ^ 64
     \<and> unat (per_replica b) = share \<and> unat (budget_total b) = share * unat replicas
     \<and> unat (budget_unit_seconds b) = unit_secs"
proof -
  let ?P = "units = 0 \<or> replicas = 0 \<or> periods = 0 \<or> period_seconds = 0 \<or> rate = 0"
  let ?s = "periods * period_seconds" and ?us = "units * (periods * period_seconds)"
  let ?sh = "(ucast ?us :: u128) * ucast rate div ucast STORAGE_RENT_DENOMINATOR
      + (if (ucast ?us :: u128) * ucast rate mod ucast STORAGE_RENT_DENOMINATOR \<noteq> 0 then 1 else 0)"
  show ?thesis
  proof (cases "\<not> ?P \<and> unat periods * unat period_seconds < 2 ^ 64 \<and> unit_secs < 2 ^ 64")
    case False
    then show ?thesis
      by (auto simp: ComputeAssignedStorageBudget_def bind_eq_Some_conv CheckedMul_iff unit_secs_def unat_mult_fits)
  next
    case True
    then have us: "unat ?us = unit_secs" and c: "CheckedMul periods period_seconds = Some ?s"
      "CheckedMul units ?s = Some ?us"
      by (simp_all add: CheckedMul_iff unit_secs_def unat_mult_fits)
    have sh: "unat ?sh = share" unfolding share_u128 us share_def ..
    have gt: "?sh > ucast U64_MAX \<longleftrightarrow> 2 ^ 64 \<le> share"
      unfolding word_less_nat_alt sh unat_ucast_u128 unat_U64_MAX by auto
    have "ComputeAssignedStorageBudget units replicas periods period_seconds rate =
      (if 2 ^ 64 \<le> share then None else do {
         total \<leftarrow> CheckedMul (ucast ?sh) replicas;
         Some \<lparr> per_replica = ucast ?sh, budget_total = total, budget_unit_seconds = ?us \<rparr> })"
      using True c gt by (simp add: ComputeAssignedStorageBudget_def Let_def)
    moreover have "unat (ucast ?sh :: u64) = share" if "share < 2 ^ 64"
      using that sh by (simp only: unat_ucast_u64)
    then obtain w :: u64 where "w = ucast ?sh" "share < 2 ^ 64 \<Longrightarrow> unat w = share" by blast
    ultimately have e: "ComputeAssignedStorageBudget units replicas periods period_seconds rate =
      (if 2 ^ 64 \<le> share then None else do {
         total \<leftarrow> CheckedMul w replicas;
         Some \<lparr> per_replica = w, budget_total = total, budget_unit_seconds = ?us \<rparr> })"
      and w: "share < 2 ^ 64 \<Longrightarrow> unat w = share" by simp_all
    show ?thesis unfolding e using True us w
      by (cases "2 ^ 64 \<le> share")
        (auto simp: bind_eq_Some_conv CheckedMul_iff unat_mult_fits budget_eq_iff)
  qed
qed

text \<open>The cumulative entitlement after \<open>verified\<close> unit-seconds.\<close>

definition entitlement :: "AssignedStorageBudget \<Rightarrow> nat \<Rightarrow> nat" where
  "entitlement b verified = unat (per_replica b) * verified div unat (budget_unit_seconds b)"

definition budget_ok :: "AssignedStorageBudget \<Rightarrow> bool" where
  "budget_ok b \<longleftrightarrow> per_replica b \<noteq> 0 \<and> budget_unit_seconds b \<noteq> 0 \<and> per_replica b \<le> budget_total b
     \<and> budget_total b mod per_replica b = 0"

lemma entitlement_le:
  "v \<le> unat (budget_unit_seconds b) \<Longrightarrow> entitlement b v \<le> unat (per_replica b)"
  unfolding entitlement_def
  by (metis div_le_mono div_mult_self_is_m gr0I le_zero_eq mult_le_mono2 div_by_0 zero_le)

lemma entitlement_mono: "v \<le> w \<Longrightarrow> entitlement b v \<le> entitlement b w"
  by (simp add: entitlement_def div_le_mono)

lemma entitlement_full: "budget_ok b \<Longrightarrow> entitlement b (unat (budget_unit_seconds b)) = unat (per_replica b)"
  by (simp add: entitlement_def budget_ok_def unat_eq_0)

lemma ComputeAssignedStoragePayout_iff:
  "ComputeAssignedStoragePayout b verified paid = Some q \<longleftrightarrow>
     budget_ok b \<and> verified \<le> budget_unit_seconds b \<and> unat paid + unat q = entitlement b (unat verified)"
proof (cases "budget_ok b \<and> verified \<le> budget_unit_seconds b")
  case False
  then show ?thesis by (auto simp: ComputeAssignedStoragePayout_def budget_ok_def)
next
  case True
  let ?w = "(ucast (per_replica b) :: u128) * ucast verified div ucast (budget_unit_seconds b)"
  have w: "unat ?w = entitlement b (unat verified)"
    by (simp only: unat_div unat_mul_u128 unat_ucast_u128 entitlement_def)
  have "entitlement b (unat verified) \<le> unat (per_replica b)"
    using True by (intro entitlement_le) (simp add: word_le_nat_alt)
  then have "unat ?w < 2 ^ 64" using w unat_lt64 [of "per_replica b"] by linarith
  then have e: "unat (ucast ?w :: u64) = entitlement b (unat verified)" using w by (simp only: unat_ucast_u64)
  have p: "ComputeAssignedStoragePayout b verified paid =
      (if paid > ucast ?w then None else Some (ucast ?w - paid))"
    using True by (auto simp: ComputeAssignedStoragePayout_def budget_ok_def Let_def)
  show ?thesis
  proof (cases "paid > ucast ?w")
    case True
    then show ?thesis unfolding p using e by (auto simp: word_less_nat_alt)
  next
    case False
    then have le: "paid \<le> ucast ?w" by simp
    then have "unat (ucast ?w - paid) = entitlement b (unat verified) - unat paid"
      "unat paid \<le> entitlement b (unat verified)"
      using e by (simp_all add: unat_sub word_le_nat_alt)
    moreover have "ucast ?w - paid = q \<longleftrightarrow> unat (ucast ?w - paid) = unat q"
      by (auto dest: unsigned_word_eqI)
    ultimately show ?thesis unfolding p using True False by auto
  qed
qed

text \<open>The exact balance of \<^verbatim>\<open>AccrueStorageRent\<close>: nothing is lost and nothing created.\<close>

definition rent_value :: "StorageRentAccumulator \<Rightarrow> nat" where
  "rent_value a = rent_den * unat (ra_cybou a) + unat (ra_remainder a)"

lemma rent_carry:
  fixes n r :: nat
  assumes "0 < d"
  shows "d * (n div d + (n mod d + r) div d) + (n mod d + r) mod d = n + r"
proof -
  have "d * (n div d + (n mod d + r) div d) + (n mod d + r) mod d
      = d * (n div d) + (d * ((n mod d + r) div d) + (n mod d + r) mod d)"
    by (simp add: algebra_simps)
  also have "\<dots> = d * (n div d) + (n mod d + r)" by (simp only: mult_div_mod_eq)
  also have "\<dots> = n + r" by (simp add: add.assoc [symmetric])
  finally show ?thesis .
qed

lemma AccrueStorageRent_SomeD:
  assumes "AccrueStorageRent a units seconds replicas = Some a'"
  shows "rent_value a' = rent_value a + unat units * unat seconds * unat replicas * 5
    \<and> unat (ra_remainder a') < rent_den"
proof -
  let ?D = STORAGE_RENT_DENOMINATOR
  from assms obtain n1 n2 n where r: "ra_remainder a < ?D"
    and m: "CheckedMul units seconds = Some n1" "CheckedMul n1 replicas = Some n2"
      "CheckedMul n2 STORAGE_RATE_CYBOU_PER_GIB_DAY_REPLICA = Some n"
    and ok: "n div ?D \<le> U64_MAX - (n mod ?D + ra_remainder a) div ?D"
      "ra_cybou a \<le> U64_MAX - n div ?D - (n mod ?D + ra_remainder a) div ?D"
    and a': "a' = \<lparr> ra_cybou = ra_cybou a + (n div ?D + (n mod ?D + ra_remainder a) div ?D),
                   ra_remainder = (n mod ?D + ra_remainder a) mod ?D \<rparr>"
    by (auto simp: AccrueStorageRent_def Let_def bind_eq_Some_conv not_le not_less split: if_splits)
  have n: "unat n = unat units * unat seconds * unat replicas * 5"
    using m [THEN CheckedMul_unat] by (simp add: STORAGE_RATE_CYBOU_PER_GIB_DAY_REPLICA_def)
  have r': "unat (ra_remainder a) < rent_den"
    using r by (simp add: word_less_nat_alt unat_STORAGE_RENT_DENOMINATOR)
  have md: "unat (n mod ?D) < rent_den"
    by (simp add: unat_mod unat_STORAGE_RENT_DENOMINATOR rent_den_def)
  have sum: "unat (n mod ?D + ra_remainder a) = unat n mod rent_den + unat (ra_remainder a)"
    using r' md by (subst unat_add_fits) (simp_all add: unat_mod unat_STORAGE_RENT_DENOMINATOR rent_den_def)
  let ?c = "(n mod ?D + ra_remainder a) div ?D"
  have c: "unat ?c = (unat n mod rent_den + unat (ra_remainder a)) div rent_den"
    by (simp add: unat_div sum unat_STORAGE_RENT_DENOMINATOR)
  have wc: "unat (n div ?D + ?c) = unat n div rent_den + unat ?c"
    using unat_add_checked [OF ok(1)] by (simp add: unat_div unat_STORAGE_RENT_DENOMINATOR)
  have "ra_cybou a \<le> U64_MAX - (n div ?D + ?c)" using ok(2) by (simp add: diff_diff_add)
  then have cy: "unat (ra_cybou a') = unat (ra_cybou a) + (unat n div rent_den + unat ?c)"
    using wc by (simp add: a' unat_add_checked)
  have rm: "unat (ra_remainder a') = (unat n mod rent_den + unat (ra_remainder a)) mod rent_den"
    by (simp add: a' unat_mod sum unat_STORAGE_RENT_DENOMINATOR)
  have "0 < rent_den" by (simp add: rent_den_def)
  then have "rent_value a' = rent_den * unat (ra_cybou a) + (unat n + unat (ra_remainder a))"
    using rent_carry [of rent_den "unat n" "unat (ra_remainder a)"]
    unfolding rent_value_def cy rm c by (simp only: distrib_left add.assoc)
  then show ?thesis by (simp add: rent_value_def n rm rent_den_def)
qed

section \<open>Properties\<close>

text \<open>The budget of a funded storage term, with every overflow check: \<^verbatim>\<open>ComputeAssignedStorageBudget\<close> succeeds exactly
  when no argument is zero and no product leaves 64 bits; then the share of a replica is the rent of its unit-seconds
  rounded up to a whole CYBOU, and the total is the share times the replicas.\<close>

theorem storage_budget_exact:
  "ComputeAssignedStorageBudget units replicas periods period_seconds rate = Some b \<longleftrightarrow>
     units \<noteq> 0 \<and> replicas \<noteq> 0 \<and> periods \<noteq> 0 \<and> period_seconds \<noteq> 0 \<and> rate \<noteq> 0
     \<and> unat periods * unat period_seconds < 2 ^ 64
     \<and> unat units * (unat periods * unat period_seconds) < 2 ^ 64
     \<and> unat (budget_unit_seconds b) = unat units * (unat periods * unat period_seconds)
     \<and> unat (per_replica b) = ceil_div (unat units * (unat periods * unat period_seconds) * unat rate) (2048 * 86400)
     \<and> unat (per_replica b) * unat replicas < 2 ^ 64
     \<and> unat (budget_total b) = unat (per_replica b) * unat replicas"
  using ComputeAssignedStorageBudget_iff [of units replicas periods period_seconds rate b] unat_lt64 [of "per_replica b"]
  unfolding rent_den_def by auto

text \<open>C39. Cumulative payouts. \<^verbatim>\<open>ComputeAssignedStoragePayout\<close> tops a provider up to the floor of its proportional share: what was
  paid before plus what it returns is always that entitlement, so payments never exceed the share of the replica, however
  they are split, and reach it exactly at full service.\<close>

theorem storage_payout_exact:
  "ComputeAssignedStoragePayout b verified paid = Some q \<longleftrightarrow>
     per_replica b \<noteq> 0 \<and> budget_unit_seconds b \<noteq> 0 \<and> per_replica b \<le> budget_total b \<and> budget_total b mod per_replica b = 0
     \<and> verified \<le> budget_unit_seconds b
     \<and> unat paid + unat q = unat (per_replica b) * unat verified div unat (budget_unit_seconds b)
     \<and> unat paid + unat q \<le> unat (per_replica b)"
proof -
  have "verified \<le> budget_unit_seconds b \<Longrightarrow> entitlement b (unat verified) \<le> unat (per_replica b)"
    by (rule entitlement_le) (simp add: word_le_nat_alt)
  then show ?thesis unfolding ComputeAssignedStoragePayout_iff budget_ok_def entitlement_def by metis
qed

text \<open>Rent accrual loses nothing to rounding: the accumulator, read as a rational with denominator 2048 * 86400, grows by
  exactly units * seconds * replicas * 5, and the remainder stays below the denominator.\<close>

theorem storage_rent_exact:
  assumes "AccrueStorageRent a units seconds replicas = Some a'"
  shows "(2048 * 86400) * unat (ra_cybou a') + unat (ra_remainder a')
      = (2048 * 86400) * unat (ra_cybou a) + unat (ra_remainder a) + unat units * unat seconds * unat replicas * 5
    \<and> unat (ra_remainder a') < 2048 * 86400"
  using AccrueStorageRent_SomeD [OF assms] by (simp add: rent_value_def rent_den_def)

theorem storage_rent_exact_witness:
  "AccrueStorageRent \<lparr> ra_cybou = 7, ra_remainder = 100 \<rparr> 3 86400 2 = Some \<lparr> ra_cybou = 7, ra_remainder = 2592100 \<rparr>
    \<and> (2048 * 86400) * unat (7 :: u64) + unat (2592100 :: u64) = (2048 * 86400) * unat (7 :: u64) + unat (100 :: u64) + 3 * 86400 * 2 * 5"
proof -
  have a: "AccrueStorageRent \<lparr> ra_cybou = 7, ra_remainder = 100 \<rparr> 3 86400 2 = Some \<lparr> ra_cybou = 7, ra_remainder = 2592100 \<rparr>"
    by code_simp
  with storage_rent_exact [OF a] show ?thesis by simp
qed

end
