(* ===== verification/Identity.thy ===== *)
theory Identity
  imports Codec Economy
begin

text \<open>
  Hybrid identity keys and signatures (\<^verbatim>\<open>identity_crypto.h/.cpp\<close>), the canonical key descriptor
  (\<^verbatim>\<open>identity_authorization.h/.cpp\<close>) and the KEM package (\<^verbatim>\<open>identity_kem.cpp\<close>). OpenSSL and
  BLAKE3 are not part of the repository: they are the fields of the parameter \<open>crypto\<close>, which every
  definition that reaches them takes as its first argument.
\<close>

section \<open>The cryptographic library\<close>

text \<open>
  \<open>evp_sha256\<close> is \<^verbatim>\<open>ComputeSha256\<close> on the concatenated parts (\<open>None\<close> when OpenSSL reports a
  failure), \<open>evp_import\<close> says whether \<^verbatim>\<open>EVP_PKEY_new_raw_public_key_ex\<close> accepts a raw key,
  \<open>evp_verify\<close> is \<^verbatim>\<open>EVP_DigestVerify\<close> under an imported key, \<open>evp_derive\<close> the raw X25519
  derivation, \<open>blake3\<close> the chunk hash.
\<close>

record crypto =
  evp_sha256 :: "bytes \<Rightarrow> hash256 option"
  evp_import :: "string \<Rightarrow> bytes \<Rightarrow> bool"
  evp_verify :: "string \<Rightarrow> bytes \<Rightarrow> bytes \<Rightarrow> bytes \<Rightarrow> bool"
  evp_derive :: "bytes \<Rightarrow> bytes \<Rightarrow> bytes option"
  blake3 :: "bytes \<Rightarrow> hash256"

text \<open>The class \<^verbatim>\<open>crypto::Sha256\<close> throws where \<^verbatim>\<open>ComputeSha256\<close> returns \<^verbatim>\<open>false\<close>.\<close>

definition Sha256_Finalize :: "crypto \<Rightarrow> bytes \<Rightarrow> exn + hash256" where
  "Sha256_Finalize C bs = (case evp_sha256 C bs of None \<Rightarrow> Inl runtime_error | Some h \<Rightarrow> Inr h)"

definition ComputeSha256 :: "crypto \<Rightarrow> bytes list \<Rightarrow> hash256 option" where
  "ComputeSha256 C parts = catch_none (Sha256_Finalize C (concat parts))"

lemma ComputeSha256_eq [simp]: "ComputeSha256 C parts = evp_sha256 C (concat parts)"
  by (simp add: ComputeSha256_def Sha256_Finalize_def split: option.split)

abbreviation hash_bytes :: "hash256 \<Rightarrow> bytes" where
  "hash_bytes \<equiv> be_bytes 32"

text \<open>Null hashes, \<^verbatim>\<open>Hash256::IsNull\<close>, \<^verbatim>\<open>IsZero\<close>, \<^verbatim>\<open>HasNonzero\<close>.\<close>

definition HasNonzero :: "bytes \<Rightarrow> bool" where
  "HasNonzero bs \<longleftrightarrow> list_ex (\<lambda>b. b \<noteq> 0) bs"

lemma HasNonzero_be_bytes:
  fixes w :: "'a::len word"
  assumes "LENGTH('a) \<le> 8 * n"
  shows "HasNonzero (be_bytes n w) \<longleftrightarrow> w \<noteq> 0"
proof
  assume "HasNonzero (be_bytes n w)"
  then show "w \<noteq> 0" by (auto simp: HasNonzero_def list_ex_iff be_bytes_def le_bytes_def)
next
  assume "w \<noteq> 0"
  show "HasNonzero (be_bytes n w)"
  proof (rule ccontr)
    assume "\<not> HasNonzero (be_bytes n w)"
    then have "\<forall>b \<in> set (le_bytes n w). b = 0" by (auto simp: HasNonzero_def list_ex_iff be_bytes_def)
    then have "le_bytes n w = le_bytes n (0 :: 'a word)"
      by (intro nth_equalityI) (auto simp: le_bytes_def)
    then have "w = 0" using le_word_le_bytes [OF assms] by metis
    with \<open>w \<noteq> 0\<close> show False by simp
  qed
qed

definition AccountId_FromBytes :: "bytes \<Rightarrow> AccountId option" where
  "AccountId_FromBytes bs =
     (if length bs \<noteq> 32 then None else let id = be_word bs in if id = 0 then None else Some id)"

lemma AccountId_FromBytes_iff:
  "AccountId_FromBytes bs = Some a \<longleftrightarrow> a \<noteq> 0 \<and> bs = hash_bytes a"
  by (auto simp: AccountId_FromBytes_def Let_def be_bytes_be_word be_word_be_bytes split: if_splits)


section \<open>Hybrid keys\<close>

text \<open>The enum has \<^verbatim>\<open>uint8_t\<close> as its underlying type; a cast may give a value that no enumerator names.\<close>

datatype IdentityKeyPurpose = RECOVERY_ROOT | AUTHORIZATION | POA_FINALIZER | STORAGE | NETWORK_ROOT | OTHER_PURPOSE byte

record IdentityHybridPublicKey =
  purpose :: IdentityKeyPurpose
  pk_ed25519 :: "256 word"
  pk_ml_dsa :: bytes

record IdentityHybridSignature =
  sig_ed25519 :: "512 word"
  sig_ml_dsa :: bytes

text \<open>\<^verbatim>\<open>nullptr\<close> is the empty name, which \<^verbatim>\<open>Verify\<close> refuses like any unknown one.\<close>

fun Algorithm :: "IdentityKeyPurpose \<Rightarrow> string" where
  "Algorithm RECOVERY_ROOT = ''ML-DSA-65''"
| "Algorithm AUTHORIZATION = ''ML-DSA-44''"
| "Algorithm STORAGE = ''ML-DSA-44''"
| "Algorithm POA_FINALIZER = ''ML-DSA-65''"
| "Algorithm NETWORK_ROOT = ''ML-DSA-65''"
| "Algorithm (OTHER_PURPOSE _) = ''''"

definition PublicSize :: "IdentityKeyPurpose \<Rightarrow> nat" where
  "PublicSize p = (if p = AUTHORIZATION \<or> p = STORAGE then 1312 else 1952)"

definition SignatureSize :: "IdentityKeyPurpose \<Rightarrow> nat" where
  "SignatureSize p = (if p = AUTHORIZATION \<or> p = STORAGE then 2420 else 3309)"

text \<open>\<^verbatim>\<open>Verify\<close> without its key cache; \<open>PublicKeyCache\<close> below shows the cache does not change it.\<close>

definition Verify :: "crypto \<Rightarrow> string \<Rightarrow> bytes \<Rightarrow> bytes \<Rightarrow> bytes \<Rightarrow> bool" where
  "Verify C algorithm public_key signature message \<longleftrightarrow>
     public_key \<noteq> [] \<and> algorithm \<in> set [''ED25519'', ''ML-DSA-44'', ''ML-DSA-65'']
     \<and> evp_import C algorithm public_key \<and> evp_verify C algorithm public_key signature message"

definition VerifyIdentityMessage ::
  "crypto \<Rightarrow> IdentityHybridPublicKey \<Rightarrow> IdentityHybridSignature \<Rightarrow> bytes \<Rightarrow> bool" where
  "VerifyIdentityMessage C key signature message \<longleftrightarrow>
     (if length (pk_ml_dsa key) \<noteq> PublicSize (purpose key)
         \<or> length (sig_ml_dsa signature) \<noteq> SignatureSize (purpose key) then False
      else Verify C ''ED25519'' (be_bytes 32 (pk_ed25519 key)) (be_bytes 64 (sig_ed25519 signature)) message
         \<and> Verify C (Algorithm (purpose key)) (pk_ml_dsa key) (sig_ml_dsa signature) message)"

text \<open>The common guard of the three key identifiers.\<close>

definition key_wellformed :: "IdentityKeyPurpose \<Rightarrow> IdentityHybridPublicKey \<Rightarrow> bool" where
  "key_wellformed p key \<longleftrightarrow> purpose key = p \<and> length (pk_ml_dsa key) = PublicSize p
     \<and> HasNonzero (be_bytes 32 (pk_ed25519 key)) \<and> HasNonzero (pk_ml_dsa key)"

definition ComputeRecoveryKeyId :: "crypto \<Rightarrow> IdentityHybridPublicKey \<Rightarrow> IdentityKeyId option" where
  "ComputeRecoveryKeyId C key =
     (if \<not> key_wellformed RECOVERY_ROOT key then None
      else ComputeSha256 C [str ''CYBOU/RECOVERY-KEY-ID'', [1], be_bytes 32 (pk_ed25519 key), pk_ml_dsa key])"

definition ComputeAuthorizationKeyId :: "crypto \<Rightarrow> IdentityHybridPublicKey \<Rightarrow> IdentityKeyId option" where
  "ComputeAuthorizationKeyId C key =
     (if \<not> key_wellformed AUTHORIZATION key then None
      else ComputeSha256 C [str ''CYBOU/IDENTITY-AUTH-KEY-ID'', [2, 1], be_bytes 32 (pk_ed25519 key), pk_ml_dsa key])"

definition ComputePoaFinalizerKeyId :: "crypto \<Rightarrow> IdentityHybridPublicKey \<Rightarrow> IdentityKeyId option" where
  "ComputePoaFinalizerKeyId C key =
     (if \<not> key_wellformed POA_FINALIZER key then None
      else ComputeSha256 C [str ''CYBOU/POA-FINALIZER-KEY-ID'', be_bytes 32 (pk_ed25519 key), pk_ml_dsa key])"


section \<open>The public key cache\<close>

text \<open>
  \<^verbatim>\<open>PublicKeyCache\<close>: entries in recency order, most recent first; \<^verbatim>\<open>m_map\<close> indexes the same
  entries by key, so a lookup finds the entry with that key. A handle stands for the imported
  \<^verbatim>\<open>EVP_PKEY\<close> and remembers what it was imported from. \<^verbatim>\<open>GetOrCreate\<close> releases its lock while
  it imports, so the call is two critical sections, \<open>cache_hit\<close> and \<open>cache_store\<close>, between which the
  cache may be changed by other threads.
\<close>

type_synonym cache_key = "u8 \<times> bytes"
type_synonym key_handle = "string \<times> bytes"
type_synonym key_cache = "(cache_key \<times> key_handle) list"

definition CACHE_MAX_ENTRIES :: nat where "CACHE_MAX_ENTRIES = 1024"

definition cache_algo_id :: "string \<Rightarrow> u8 option" where
  "cache_algo_id algorithm =
     (if algorithm = ''ED25519'' then Some 1
      else if algorithm = ''ML-DSA-44'' then Some 2
      else if algorithm = ''ML-DSA-65'' then Some 3
      else None)"

definition cache_hit :: "cache_key \<Rightarrow> key_cache \<Rightarrow> (key_handle \<times> key_cache) option" where
  "cache_hit k cache = (case map_of cache k of None \<Rightarrow> None
     | Some h \<Rightarrow> Some (h, (k, h) # filter (\<lambda>e. fst e \<noteq> k) cache))"

definition cache_store :: "cache_key \<Rightarrow> key_handle \<Rightarrow> key_cache \<Rightarrow> key_handle \<times> key_cache" where
  "cache_store k h cache = (case cache_hit k cache of
     Some r \<Rightarrow> r
   | None \<Rightarrow> (h, (k, h) # (if length cache \<ge> CACHE_MAX_ENTRIES then butlast cache else cache)))"

text \<open>\<open>interfere\<close> is what other threads do to the cache while the lock is released.\<close>

definition GetOrCreate ::
  "crypto \<Rightarrow> (key_cache \<Rightarrow> key_cache) \<Rightarrow> string \<Rightarrow> bytes \<Rightarrow> key_cache \<Rightarrow> key_handle option \<times> key_cache" where
  "GetOrCreate C interfere algorithm raw_key cache =
     (if raw_key = [] then (None, cache)
      else case cache_algo_id algorithm of None \<Rightarrow> (None, cache)
        | Some algo \<Rightarrow>
          (case cache_hit (algo, raw_key) cache of
             Some (h, cache') \<Rightarrow> (Some h, cache')
           | None \<Rightarrow>
             if \<not> evp_import C algorithm raw_key then (None, interfere cache)
             else let (h, cache') = cache_store (algo, raw_key) (algorithm, raw_key) (interfere cache)
                  in (Some h, cache')))"

definition cached_Verify ::
  "crypto \<Rightarrow> (key_cache \<Rightarrow> key_cache) \<Rightarrow> string \<Rightarrow> bytes \<Rightarrow> bytes \<Rightarrow> bytes \<Rightarrow> key_cache \<Rightarrow> bool \<times> key_cache" where
  "cached_Verify C interfere algorithm public_key signature message cache =
     (case GetOrCreate C interfere algorithm public_key cache of
        (None, cache') \<Rightarrow> (False, cache')
      | (Some (a, k), cache') \<Rightarrow> (evp_verify C a k signature message, cache'))"

text \<open>Every entry was imported under its own algorithm, keys are distinct, the size is bounded.\<close>

definition cache_ok :: "crypto \<Rightarrow> key_cache \<Rightarrow> bool" where
  "cache_ok C cache \<longleftrightarrow> distinct (map fst cache) \<and> length cache \<le> CACHE_MAX_ENTRIES
     \<and> list_all (\<lambda>((algo, raw), (a, k)). cache_algo_id a = Some algo \<and> k = raw \<and> raw \<noteq> [] \<and> evp_import C a raw) cache"

lemma cache_ok_map_of:
  "cache_ok C cache \<Longrightarrow> map_of cache (algo, raw) = Some (a, k) \<Longrightarrow>
     cache_algo_id a = Some algo \<and> k = raw \<and> raw \<noteq> [] \<and> evp_import C a raw"
  by (auto simp: cache_ok_def list_all_iff dest!: map_of_SomeD)

lemma cache_algo_id_inj: "cache_algo_id a = Some i \<Longrightarrow> cache_algo_id b = Some i \<Longrightarrow> a = b"
  by (auto simp: cache_algo_id_def split: if_splits)

lemma length_filter_key:
  "map_of cache k = Some h \<Longrightarrow> length (filter (\<lambda>e. fst e \<noteq> k) cache) < length cache"
  by (rule length_filter_less [of "(k, h)"]) (auto dest: map_of_SomeD)

lemma cache_hit_ok:
  assumes "cache_ok C cache" and "cache_hit k cache = Some (h, cache')"
  shows "cache_ok C cache' \<and> map_of cache k = Some h"
proof -
  from assms(2) have h: "map_of cache k = Some h" "cache' = (k, h) # filter (\<lambda>e. fst e \<noteq> k) cache"
    by (auto simp: cache_hit_def split: option.splits)
  then have "(k, h) \<in> set cache" by (simp add: map_of_SomeD)
  with assms(1) h length_filter_key [OF h(1)] show ?thesis
    by (auto simp: cache_ok_def list_all_iff distinct_map_filter)
qed

lemma cache_store_ok:
  assumes "cache_ok C cache" and "cache_algo_id a = Some algo" and "raw \<noteq> []" and "evp_import C a raw"
  shows "cache_ok C (snd (cache_store (algo, raw) (a, raw) cache))
    \<and> fst (cache_store (algo, raw) (a, raw) cache) = (a, raw)"
proof (cases "cache_hit (algo, raw) cache")
  case None
  then have n: "map_of cache (algo, raw) = None" by (auto simp: cache_hit_def split: option.splits)
  then have "(algo, raw) \<notin> fst ` set cache" by (simp add: map_of_eq_None_iff)
  moreover have "distinct (map fst (butlast cache))" "set (butlast cache) \<subseteq> set cache"
    using assms(1) by (auto simp: cache_ok_def map_butlast distinct_butlast dest: in_set_butlastD)
  ultimately show ?thesis using assms None
    by (auto simp: cache_store_def cache_ok_def list_all_iff CACHE_MAX_ENTRIES_def dest: in_set_butlastD)
next
  case (Some r)
  obtain h c' where r: "r = (h, c')" by (cases r)
  obtain b k where h: "h = (b, k)" by (cases h)
  note d = cache_hit_ok [OF assms(1) Some [unfolded r]]
  from cache_ok_map_of [OF assms(1), of algo raw b k] d h have "b = a" "k = raw"
    using assms(2) cache_algo_id_inj by auto
  with d r h Some show ?thesis by (simp add: cache_store_def)
qed

lemma cached_Verify_eq:
  assumes "cache_ok C cache" and "cache_ok C (interfere cache)"
  shows "fst (cached_Verify C interfere algorithm key signature message cache) = Verify C algorithm key signature message
    \<and> cache_ok C (snd (cached_Verify C interfere algorithm key signature message cache))"
proof -
  have algo: "algorithm \<in> set [''ED25519'', ''ML-DSA-44'', ''ML-DSA-65''] \<longleftrightarrow> cache_algo_id algorithm \<noteq> None"
    by (simp add: cache_algo_id_def)
  show ?thesis
  proof (cases "key = [] \<or> cache_algo_id algorithm = None")
    case True
    then show ?thesis using assms algo by (auto simp: cached_Verify_def GetOrCreate_def Verify_def)
  next
    case False
    then obtain i where i: "cache_algo_id algorithm = Some i" and ne: "key \<noteq> []" by auto
    show ?thesis
    proof (cases "cache_hit (i, key) cache")
      case None
      show ?thesis
      proof (cases "evp_import C algorithm key")
        case True
        note st = cache_store_ok [OF assms(2) i ne True]
        obtain h c' where s: "cache_store (i, key) (algorithm, key) (interfere cache) = (h, c')"
          by (cases "cache_store (i, key) (algorithm, key) (interfere cache)")
        with st i ne None True algo show ?thesis
          by (auto simp: cached_Verify_def GetOrCreate_def Verify_def)
      qed (use None i ne assms in \<open>auto simp: cached_Verify_def GetOrCreate_def Verify_def\<close>)
    next
      case (Some r)
      obtain a k c' where r: "r = ((a, k), c')" by (cases r) auto
      note d = cache_hit_ok [OF assms(1) Some [unfolded r]]
      then have "a = algorithm" "k = key" "evp_import C algorithm key"
        using cache_ok_map_of [OF assms(1), of i key a k] i cache_algo_id_inj by auto
      with d r Some i ne algo show ?thesis by (auto simp: cached_Verify_def GetOrCreate_def Verify_def)
    qed
  qed
qed


section \<open>The key descriptor of an identity\<close>

record IdentityAuthorization =
  recovery_root :: IdentityHybridPublicKey
  authorization_key :: IdentityHybridPublicKey

definition IDENTITY_AUTHORIZATION_SIZE :: nat where "IDENTITY_AUTHORIZATION_SIZE = 3330"

definition IdentityAuthorization_Valid :: "IdentityAuthorization \<Rightarrow> bool" where
  "IdentityAuthorization_Valid auth \<longleftrightarrow>
     purpose (recovery_root auth) = RECOVERY_ROOT \<and> purpose (authorization_key auth) = AUTHORIZATION
     \<and> length (pk_ml_dsa (recovery_root auth)) = 1952 \<and> length (pk_ml_dsa (authorization_key auth)) = 1312
     \<and> HasNonzero (be_bytes 32 (pk_ed25519 (recovery_root auth))) \<and> HasNonzero (pk_ml_dsa (recovery_root auth))
     \<and> HasNonzero (be_bytes 32 (pk_ed25519 (authorization_key auth))) \<and> HasNonzero (pk_ml_dsa (authorization_key auth))
     \<and> pk_ed25519 (recovery_root auth) \<noteq> pk_ed25519 (authorization_key auth)"

definition SerializeIdentityAuthorization :: "IdentityAuthorization \<Rightarrow> bytes option" where
  "SerializeIdentityAuthorization auth =
     (if \<not> IdentityAuthorization_Valid auth then None
      else Some ([1] @ be_bytes 32 (pk_ed25519 (recovery_root auth)) @ pk_ml_dsa (recovery_root auth)
              @ [1] @ be_bytes 32 (pk_ed25519 (authorization_key auth)) @ pk_ml_dsa (authorization_key auth)))"

definition DeserializeIdentityAuthorization :: "bytes \<Rightarrow> IdentityAuthorization option" where
  "DeserializeIdentityAuthorization bs =
     (if length bs \<noteq> IDENTITY_AUTHORIZATION_SIZE \<or> bs ! 0 \<noteq> 1 \<or> bs ! 1985 \<noteq> 1 then None
      else let auth = \<lparr>
          recovery_root = \<lparr> purpose = RECOVERY_ROOT, pk_ed25519 = be_word (subspan 1 32 bs),
            pk_ml_dsa = subspan 33 1952 bs \<rparr>,
          authorization_key = \<lparr> purpose = AUTHORIZATION, pk_ed25519 = be_word (subspan 1986 32 bs),
            pk_ml_dsa = drop 2018 bs \<rparr> \<rparr>
        in if \<not> IdentityAuthorization_Valid auth then None else Some auth)"

definition ComputeIdentityAuthorizationCommitment :: "crypto \<Rightarrow> IdentityAuthorization \<Rightarrow> hash256 option" where
  "ComputeIdentityAuthorizationCommitment C auth =
     (case SerializeIdentityAuthorization auth of None \<Rightarrow> None
      | Some bs \<Rightarrow> ComputeSha256 C [str ''CYBOU/IDENTITY-AUTH-COMMIT'', bs])"

lemma identity_authorization_enc_dec:
  assumes "DeserializeIdentityAuthorization bs = Some auth"
  shows "SerializeIdentityAuthorization auth = Some bs"
proof -
  from assms have l: "length bs = 3330" and s: "bs ! 0 = 1" "bs ! 1985 = 1"
    and v: "IdentityAuthorization_Valid auth"
    and a: "recovery_root auth = \<lparr> purpose = RECOVERY_ROOT, pk_ed25519 = be_word (subspan 1 32 bs),
            pk_ml_dsa = subspan 33 1952 bs \<rparr>"
      "authorization_key auth = \<lparr> purpose = AUTHORIZATION, pk_ed25519 = be_word (subspan 1986 32 bs),
            pk_ml_dsa = drop 2018 bs \<rparr>"
    by (auto simp: DeserializeIdentityAuthorization_def Let_def IDENTITY_AUTHORIZATION_SIZE_def split: if_splits)
  have "bs = [1] @ subspan 1 32 bs @ subspan 33 1952 bs @ [1] @ subspan 1986 32 bs @ drop 2018 bs"
    using l s nth_drop [of 0 bs] nth_drop [of 1985 bs] subspan_drop [of 1 32 bs] subspan_drop [of 33 1952 bs]
      subspan_drop [of 1986 32 bs]
    by simp
  moreover have "be_bytes 32 (be_word (subspan 1 32 bs) :: 256 word) = subspan 1 32 bs"
    "be_bytes 32 (be_word (subspan 1986 32 bs) :: 256 word) = subspan 1986 32 bs"
    using l by (simp_all add: be_bytes_be_word length_subspan)
  ultimately show ?thesis using v a by (simp add: SerializeIdentityAuthorization_def)
qed

lemma identity_authorization_dec_enc:
  assumes "SerializeIdentityAuthorization auth = Some bs"
  shows "DeserializeIdentityAuthorization bs = Some auth"
proof -
  from assms have v: "IdentityAuthorization_Valid auth"
    and b: "bs = [1] @ be_bytes 32 (pk_ed25519 (recovery_root auth)) @ pk_ml_dsa (recovery_root auth)
              @ [1] @ be_bytes 32 (pk_ed25519 (authorization_key auth)) @ pk_ml_dsa (authorization_key auth)"
    by (auto simp: SerializeIdentityAuthorization_def split: if_splits)
  from v have p: "purpose (recovery_root auth) = RECOVERY_ROOT" "purpose (authorization_key auth) = AUTHORIZATION"
    and n: "length (pk_ml_dsa (recovery_root auth)) = 1952" "length (pk_ml_dsa (authorization_key auth)) = 1312"
    by (simp_all add: IdentityAuthorization_Valid_def)
  have l: "length bs = 3330" "bs ! 0 = 1" "bs ! 1985 = 1"
    unfolding b using n by (simp_all add: nth_append)
  have f: "subspan 1 32 bs = be_bytes 32 (pk_ed25519 (recovery_root auth))"
    "subspan 33 1952 bs = pk_ml_dsa (recovery_root auth)"
    "subspan 1986 32 bs = be_bytes 32 (pk_ed25519 (authorization_key auth))"
    "drop 2018 bs = pk_ml_dsa (authorization_key auth)"
    unfolding b using n by (simp_all add: subspan_def)
  have "\<lparr> recovery_root = \<lparr> purpose = RECOVERY_ROOT, pk_ed25519 = be_word (subspan 1 32 bs),
            pk_ml_dsa = subspan 33 1952 bs \<rparr>,
          authorization_key = \<lparr> purpose = AUTHORIZATION, pk_ed25519 = be_word (subspan 1986 32 bs),
            pk_ml_dsa = drop 2018 bs \<rparr> \<rparr> = auth"
    using p by (intro IdentityAuthorization.equality IdentityHybridPublicKey.equality)
      (simp_all add: f be_word_be_bytes del: One_nat_def)
  then show ?thesis using v l
    by (simp add: DeserializeIdentityAuthorization_def IDENTITY_AUTHORIZATION_SIZE_def Let_def)
qed

interpretation idauth: sized_codec SerializeIdentityAuthorization DeserializeIdentityAuthorization IDENTITY_AUTHORIZATION_SIZE
proof unfold_locales
  show "SerializeIdentityAuthorization a = Some bs \<Longrightarrow> length bs = IDENTITY_AUTHORIZATION_SIZE" for a bs
    by (auto simp: SerializeIdentityAuthorization_def IdentityAuthorization_Valid_def
        IDENTITY_AUTHORIZATION_SIZE_def split: if_splits)
qed (fact identity_authorization_dec_enc, fact identity_authorization_enc_dec)


section \<open>The KEM package\<close>

type_synonym IdentityKemPackage = "9744 word"
type_synonym XWingPublicKey = "9728 word"

definition IDENTITY_KEM_PACKAGE_SIZE :: nat where "IDENTITY_KEM_PACKAGE_SIZE = 1218"
definition IDENTITY_KEM_PROFILE_XWING :: u16 where "IDENTITY_KEM_PROFILE_XWING = 0x647A"

abbreviation kem_bytes :: "IdentityKemPackage \<Rightarrow> bytes" where "kem_bytes \<equiv> be_bytes 1218"

definition X25519SharedSecret :: "crypto \<Rightarrow> bytes \<Rightarrow> bytes \<Rightarrow> bytes option" where
  "X25519SharedSecret C private_key public_key =
     (if \<not> HasNonzero private_key \<or> \<not> HasNonzero public_key then None
      else if \<not> evp_import C ''X25519'' public_key then None
      else case evp_derive C private_key public_key of None \<Rightarrow> None
        | Some secret \<Rightarrow> if length secret \<noteq> 32 \<or> \<not> HasNonzero secret then None else Some secret)"

definition DecodeIdentityKemPackage :: "crypto \<Rightarrow> bytes \<Rightarrow> XWingPublicKey option" where
  "DecodeIdentityKemPackage C package =
     (if length package \<noteq> IDENTITY_KEM_PACKAGE_SIZE
         \<or> package ! 0 \<noteq> ucast IDENTITY_KEM_PROFILE_XWING
         \<or> package ! 1 \<noteq> ucast (drop_bit 8 IDENTITY_KEM_PROFILE_XWING) then None
      else let public_key = drop 2 package; pq = take 1184 public_key; classical = drop 1184 public_key in
        if \<not> HasNonzero pq \<or> \<not> HasNonzero classical then None
        else if \<not> evp_import C ''ML-KEM-768'' pq \<or> \<not> evp_import C ''X25519'' classical then None
        else case X25519SharedSecret C (replicate 32 0x42) classical of None \<Rightarrow> None
          | Some _ \<Rightarrow> Some (be_word public_key))"

definition EncodeIdentityKemPackage :: "crypto \<Rightarrow> XWingPublicKey \<Rightarrow> IdentityKemPackage option" where
  "EncodeIdentityKemPackage C public_key =
     (if public_key = 0 then None
      else let package = [ucast IDENTITY_KEM_PROFILE_XWING, ucast (drop_bit 8 IDENTITY_KEM_PROFILE_XWING)]
             @ be_bytes 1216 public_key
        in case DecodeIdentityKemPackage C package of None \<Rightarrow> None | Some _ \<Rightarrow> Some (be_word package))"

definition ComputeIdentityKemPackageCommitment ::
  "crypto \<Rightarrow> hash256 \<Rightarrow> AccountId \<Rightarrow> u64 \<Rightarrow> IdentityKemPackage \<Rightarrow> hash256 option" where
  "ComputeIdentityKemPackageCommitment C network_binding account_id key_epoch package =
     (if network_binding = 0 \<or> account_id = 0 \<or> DecodeIdentityKemPackage C (kem_bytes package) = None then None
      else ComputeSha256 C [str ''CYBOU/IDENTITY-KEM-PACKAGE'', [0], hash_bytes network_binding, hash_bytes account_id,
        le_bytes 8 key_epoch, le_bytes 2 (of_nat IDENTITY_KEM_PACKAGE_SIZE :: u16), kem_bytes package])"

text \<open>Decoding gives back exactly the key that was encoded, and every accepted package is the encoding of
  its key.\<close>

lemma kem_package_roundtrip:
  "EncodeIdentityKemPackage C k = Some p \<longleftrightarrow> k \<noteq> 0 \<and> DecodeIdentityKemPackage C (kem_bytes p) = Some k"
  (is "?L \<longleftrightarrow> ?R")
proof -
  let ?hdr = "[ucast IDENTITY_KEM_PROFILE_XWING, ucast (drop_bit 8 IDENTITY_KEM_PROFILE_XWING)] :: bytes"
  have dec: "drop 2 bs = be_bytes 1216 k'" "bs = ?hdr @ be_bytes 1216 k'" "length bs = 1218"
    if "DecodeIdentityKemPackage C bs = Some k'" for bs k'
  proof -
    from that have l: "length bs = 1218" and h: "bs ! 0 = ?hdr ! 0" "bs ! 1 = ?hdr ! 1"
      and k: "k' = be_word (drop 2 bs)"
      by (auto simp: DecodeIdentityKemPackage_def IDENTITY_KEM_PACKAGE_SIZE_def Let_def split: if_splits option.splits)
    show "length bs = 1218" by (fact l)
    show d: "drop 2 bs = be_bytes 1216 k'" using l k by (simp add: be_bytes_be_word)
    show "bs = ?hdr @ be_bytes 1216 k'"
      unfolding d [symmetric] using l h nth_drop [of 0 bs] nth_drop [of 1 bs] by (simp add: numeral_2_eq_2)
  qed
  show ?thesis
  proof
    assume ?L
    then obtain k' where k: "k \<noteq> 0" and p: "p = be_word (?hdr @ be_bytes 1216 k)"
      and d: "DecodeIdentityKemPackage C (?hdr @ be_bytes 1216 k) = Some k'"
      by (auto simp: EncodeIdentityKemPackage_def Let_def split: if_splits option.splits)
    have pb: "kem_bytes p = ?hdr @ be_bytes 1216 k" unfolding p by (rule be_bytes_be_word) simp_all
    have "be_bytes 1216 k' = be_bytes 1216 k" using dec(1) [OF d] by simp
    then have "(be_word (be_bytes 1216 k') :: XWingPublicKey) = be_word (be_bytes 1216 k)" by (simp only:)
    then have "k' = k" by (simp add: be_word_be_bytes)
    with k d pb show ?R by simp
  next
    assume ?R
    then have k: "k \<noteq> 0" and d: "DecodeIdentityKemPackage C (kem_bytes p) = Some k" by auto
    note b = dec(2) [OF d]
    have "be_word (kem_bytes p) = p" by (rule be_word_be_bytes) simp
    with k d b show ?L by (simp add: EncodeIdentityKemPackage_def Let_def)
  qed
qed


section \<open>A concrete instance of the parameter\<close>

text \<open>
  \<open>sample_crypto\<close> instantiates the library so that the hypotheses of the theorems can be evaluated: the
  hash reads the last 32 bytes and adds the length, every key imports and every signature verifies.
\<close>

definition sample_hash :: "bytes \<Rightarrow> hash256" where
  "sample_hash bs = be_word (drop (length bs - 32) bs) + of_nat (length bs)"

definition sample_crypto :: crypto where
  "sample_crypto = \<lparr> evp_sha256 = (\<lambda>bs. Some (sample_hash bs)), evp_import = (\<lambda>_ _. True),
     evp_verify = (\<lambda>_ _ _ _. True), evp_derive = (\<lambda>a b. Some a), blake3 = sample_hash \<rparr>"

lemma sample_hash_suffix: "sample_hash (p @ hash_bytes x) = x + of_nat (length p + 32)"
  by (simp add: sample_hash_def be_word_be_bytes)

section \<open>Properties\<close>

text \<open>The cache of imported public keys is transparent: whatever other threads do to it between the lookup and the insertion,
  as long as they keep its invariant, verification through the cache gives the result of a direct import, and the cache
  keeps at most its limit of entries, each imported under its own algorithm.\<close>

theorem key_cache_transparent:
  assumes "cache_ok C cache" and "cache_ok C (interfere cache)"
  shows "fst (cached_Verify C interfere algorithm key signature message cache) = Verify C algorithm key signature message
    \<and> cache_ok C (snd (cached_Verify C interfere algorithm key signature message cache))"
  using assms by (rule cached_Verify_eq)

theorem key_cache_transparent_witness:
  "fst (cached_Verify sample_crypto (\<lambda>c. c) ''ED25519'' [1] [2] [3] []) = Verify sample_crypto ''ED25519'' [1] [2] [3]"
proof -
  have "cache_ok sample_crypto []" by (simp add: cache_ok_def)
  from key_cache_transparent [OF this, of "\<lambda>c. c"] this show ?thesis by simp
qed

text \<open>KEM packages: encoding a nonzero key succeeds with a package exactly when decoding that package gives the key back, so
  every key has one package and every accepted package is that of its key.\<close>

theorem kem_package_exact:
  "EncodeIdentityKemPackage C k = Some p \<longleftrightarrow> k \<noteq> 0 \<and> DecodeIdentityKemPackage C (kem_bytes p) = Some k"
  by (rule kem_package_roundtrip)

end
