(* ===== verification/AccountCreation.thy ===== *)
theory AccountCreation
  imports Identity
begin

text \<open>
  The account creation operation (\<^verbatim>\<open>account_creation.h/.cpp\<close>): its proof of work, its canonical
  bytes and its validation. The work predicate is shown to be the numeric target it stands for.
\<close>

record AccountCreationWork =
  acw_network_binding :: hash256
  acw_account_id :: AccountId
  acw_authorization_commitment :: hash256
  acw_work_epoch :: u64
  acw_nonce :: u64

record AccountCreateOp =
  aco_account_id :: AccountId
  aco_authorization :: IdentityAuthorization
  aco_kem_package :: IdentityKemPackage
  aco_work :: AccountCreationWork
  aco_recovery_pop :: IdentityHybridSignature
  aco_authorization_pop :: IdentityHybridSignature

datatype AccountCreateError = NONE | INVALID_FORMAT | NULL_ACCOUNT_ID | NETWORK_MISMATCH
  | ACCOUNT_ID_MISMATCH | COMMITMENT_MISMATCH | FUTURE_WORK_EPOCH | EXPIRED_WORK_EPOCH
  | INSUFFICIENT_WORK | INVALID_RECOVERY_POP | INVALID_AUTHORIZATION_POP


section \<open>Proof of work\<close>

text \<open>\<^verbatim>\<open>std::countl_zero\<close> on a byte.\<close>

definition countl_zero :: "byte \<Rightarrow> nat" where
  "countl_zero b = length (takeWhile (\<lambda>i. \<not> bit b i) [7, 6, 5, 4, 3, 2, 1, 0])"

fun leading_zero_bits :: "bytes \<Rightarrow> nat" where
  "leading_zero_bits [] = 0"
| "leading_zero_bits (b # bs) = (if b = 0 then 8 + leading_zero_bits bs else countl_zero b)"

definition HasWork :: "hash256 \<Rightarrow> u32 \<Rightarrow> bool" where
  "HasWork digest required_bits \<longleftrightarrow>
     (if required_bits > 256 then False else leading_zero_bits (hash_bytes digest) \<ge> unat required_bits)"

lemma countl_zero_iff:
  assumes "n \<le> 8"
  shows "n \<le> countl_zero b \<longleftrightarrow> unat b < 2 ^ (8 - n)"
proof -
  have all: "list_all (\<lambda>k. list_all (\<lambda>n. n \<le> countl_zero (of_nat k) \<longleftrightarrow> k < 2 ^ (8 - n)) [0..<9]) [0..<256]"
    by code_simp
  have k: "unat b \<in> set [0..<256]" using unsigned_less [of b, where 'a = nat] by simp
  have n: "n \<in> set [0..<9]" using assms by simp
  from all k n have "n \<le> countl_zero (of_nat (unat b)) \<longleftrightarrow> unat b < 2 ^ (8 - n)"
    unfolding list_all_iff by blast
  then show ?thesis by simp
qed

lemma leading_zero_bits_iff:
  "n \<le> 8 * length bs \<Longrightarrow> n \<le> leading_zero_bits bs \<longleftrightarrow> nat_be bs < 2 ^ (8 * length bs - n)"
proof (induction bs arbitrary: n)
  case Nil
  then show ?case by simp
next
  case (Cons b bs)
  let ?L = "8 * length bs"
  have p: "(256 :: nat) ^ length bs = 2 ^ ?L" by (simp add: power_mult)
  have bd: "nat_be bs < 2 ^ ?L" using nat_be_bound [of bs] p by simp
  show ?case
  proof (cases "n \<le> 8")
    case True
    have e: "(2 :: nat) ^ (8 * length (b # bs) - n) = 2 ^ (8 - n) * 2 ^ ?L"
      using True by (simp add: power_add [symmetric])
    have "nat_be (b # bs) < 2 ^ (8 - n) * 2 ^ ?L \<longleftrightarrow> unat b < 2 ^ (8 - n)"
    proof
      assume "nat_be (b # bs) < 2 ^ (8 - n) * 2 ^ ?L"
      moreover have "nat_be (b # bs) = unat b * 2 ^ ?L + nat_be bs" using p by simp
      ultimately have "unat b * 2 ^ ?L < 2 ^ (8 - n) * 2 ^ ?L" by linarith
      then show "unat b < 2 ^ (8 - n)" by (rule mult_less_cancel2 [THEN iffD1, THEN conjunct2])
    next
      assume "unat b < 2 ^ (8 - n)"
      then have "(unat b + 1) * 2 ^ ?L \<le> 2 ^ (8 - n) * 2 ^ ?L" by (intro mult_le_mono1) simp
      then show "nat_be (b # bs) < 2 ^ (8 - n) * 2 ^ ?L" using bd p by simp
    qed
    then show ?thesis using True unfolding e by (cases "b = 0") (simp_all add: countl_zero_iff)
  next
    case False
    then have e: "8 * length (b # bs) - n = ?L - (n - 8)" by simp
    have le: "n - 8 \<le> ?L" using Cons.prems by simp
    show ?thesis
    proof (cases "b = 0")
      case True
      then show ?thesis using Cons.IH [OF le] False unfolding e by auto
    next
      case b: False
      then have "0 < unat b" by (simp add: unat_gt_0)
      have "countl_zero b \<le> 8" by (simp add: countl_zero_def)
      then have "\<not> n \<le> countl_zero b" using False by simp
      have "(2 :: nat) ^ (?L - (n - 8)) \<le> 2 ^ ?L" by (rule power_increasing) simp_all
      moreover have "1 * 2 ^ ?L \<le> unat b * 2 ^ ?L" using \<open>0 < unat b\<close> by (intro mult_le_mono1) simp
      moreover have "nat_be (b # bs) = unat b * 2 ^ ?L + nat_be bs" using p by simp
      ultimately have "2 ^ (?L - (n - 8)) \<le> nat_be (b # bs)" by linarith
      with \<open>\<not> n \<le> countl_zero b\<close> show ?thesis using b unfolding e by simp
    qed
  qed
qed

text \<open>The difficulty check is a comparison with the target \<open>2 ^ (256 - bits)\<close>.\<close>

lemma HasWork_iff: "HasWork digest bits \<longleftrightarrow> unat bits \<le> 256 \<and> unat digest < 2 ^ (256 - unat bits)"
proof -
  have "nat_be (hash_bytes digest) = unat digest"
    using unsigned_less [of digest, where 'a = nat] by (simp add: nat_be_be_bytes)
  then show ?thesis
    using leading_zero_bits_iff [of "unat bits" "hash_bytes digest"]
    by (auto simp: HasWork_def word_less_nat_alt)
qed


section \<open>Canonical bytes\<close>

definition ACCOUNT_CREATE_WORK_SIZE :: nat where "ACCOUNT_CREATE_WORK_SIZE = 112"
definition ACCOUNT_CREATE_SIZE :: nat where
  "ACCOUNT_CREATE_SIZE = 32 + IDENTITY_AUTHORIZATION_SIZE + IDENTITY_KEM_PACKAGE_SIZE
     + ACCOUNT_CREATE_WORK_SIZE + 64 + 3309 + 64 + 2420"

definition HashWithDomain :: "crypto \<Rightarrow> string \<Rightarrow> bytes \<Rightarrow> hash256 option" where
  "HashWithDomain C domain bs = ComputeSha256 C [str domain, bs]"

definition SerializeAccountCreationWork :: "AccountCreationWork \<Rightarrow> bytes option" where
  "SerializeAccountCreationWork work =
     (if acw_network_binding work = 0 \<or> acw_account_id work = 0 then None
      else Some (hash_bytes (acw_network_binding work) @ hash_bytes (acw_account_id work)
        @ hash_bytes (acw_authorization_commitment work) @ le_bytes 8 (acw_work_epoch work) @ le_bytes 8 (acw_nonce work)))"

definition ComputeAccountCreateWorkHash :: "crypto \<Rightarrow> AccountCreationWork \<Rightarrow> hash256 option" where
  "ComputeAccountCreateWorkHash C work = (case SerializeAccountCreationWork work of None \<Rightarrow> None
     | Some bs \<Rightarrow> HashWithDomain C ''CYBOU/ACCOUNT-CREATE-WORK'' bs)"

definition ComputeAccountCreateAuthorizationCommitment ::
  "crypto \<Rightarrow> IdentityAuthorization \<Rightarrow> hash256 \<Rightarrow> hash256 option" where
  "ComputeAccountCreateAuthorizationCommitment C authorization kem_package_id =
     (case ComputeIdentityAuthorizationCommitment C authorization of None \<Rightarrow> None
      | Some auth_commitment \<Rightarrow>
        if kem_package_id = 0 then None
        else ComputeSha256 C [str ''CYBOU/ACCOUNT-AUTHORIZATION'', hash_bytes auth_commitment, hash_bytes kem_package_id])"

definition ComputeAccountCreatePopDigest ::
  "crypto \<Rightarrow> hash256 \<Rightarrow> AccountId \<Rightarrow> IdentityAuthorization \<Rightarrow> hash256 \<Rightarrow> hash256 option" where
  "ComputeAccountCreatePopDigest C network_binding account_id authorization kem_package_id =
     (if network_binding = 0 \<or> account_id = 0 then None
      else case ComputeAccountCreateAuthorizationCommitment C authorization kem_package_id of None \<Rightarrow> None
        | Some commitment \<Rightarrow> HashWithDomain C ''CYBOU/ACCOUNT-POP''
            (hash_bytes network_binding @ hash_bytes account_id @ hash_bytes commitment))"

definition CheckAccountCreationWork :: "crypto \<Rightarrow> AccountCreationWork \<Rightarrow> u32 \<Rightarrow> bool" where
  "CheckAccountCreationWork C work required_bits =
     (case ComputeAccountCreateWorkHash C work of None \<Rightarrow> False | Some h \<Rightarrow> HasWork h required_bits)"

definition ValidSignatures :: "AccountCreateOp \<Rightarrow> bool" where
  "ValidSignatures op \<longleftrightarrow> length (sig_ml_dsa (aco_recovery_pop op)) = 3309
     \<and> length (sig_ml_dsa (aco_authorization_pop op)) = 2420"

abbreviation ed_sig_bytes :: "512 word \<Rightarrow> bytes" where "ed_sig_bytes \<equiv> be_bytes 64"

definition SerializeAccountCreateOp :: "crypto \<Rightarrow> AccountCreateOp \<Rightarrow> bytes option" where
  "SerializeAccountCreateOp C op =
     (case (SerializeIdentityAuthorization (aco_authorization op), SerializeAccountCreationWork (aco_work op)) of
        (Some auth, Some work) \<Rightarrow>
          if aco_account_id op = 0 \<or> DecodeIdentityKemPackage C (kem_bytes (aco_kem_package op)) = None
             \<or> \<not> ValidSignatures op then None
          else Some (hash_bytes (aco_account_id op) @ auth @ kem_bytes (aco_kem_package op) @ work
            @ ed_sig_bytes (sig_ed25519 (aco_recovery_pop op)) @ sig_ml_dsa (aco_recovery_pop op)
            @ ed_sig_bytes (sig_ed25519 (aco_authorization_pop op)) @ sig_ml_dsa (aco_authorization_pop op))
      | _ \<Rightarrow> None)"

text \<open>Offsets: account 0, descriptor 32, KEM 3362, work 4580, recovery proof 4692 and 4756,
  authorization proof 8065 and 8129.\<close>

definition DeserializeAccountCreateOp :: "crypto \<Rightarrow> bytes \<Rightarrow> AccountCreateOp option" where
  "DeserializeAccountCreateOp C bs =
     (if length bs \<noteq> ACCOUNT_CREATE_SIZE then None
      else do {
        account_id \<leftarrow> AccountId_FromBytes (subspan 0 32 bs);
        auth \<leftarrow> DeserializeIdentityAuthorization (subspan 32 3330 bs);
        let kem_package = (be_word (subspan 3362 1218 bs) :: IdentityKemPackage)
        in if DecodeIdentityKemPackage C (kem_bytes kem_package) = None then None
           else do {
             work_id \<leftarrow> AccountId_FromBytes (subspan 4612 32 bs);
             Some \<lparr> aco_account_id = account_id, aco_authorization = auth, aco_kem_package = kem_package,
               aco_work = \<lparr> acw_network_binding = be_word (subspan 4580 32 bs), acw_account_id = work_id,
                 acw_authorization_commitment = be_word (subspan 4644 32 bs),
                 acw_work_epoch = le_word (subspan 4676 8 bs), acw_nonce = le_word (subspan 4684 8 bs) \<rparr>,
               aco_recovery_pop = \<lparr> sig_ed25519 = be_word (subspan 4692 64 bs), sig_ml_dsa = subspan 4756 3309 bs \<rparr>,
               aco_authorization_pop = \<lparr> sig_ed25519 = be_word (subspan 8065 64 bs), sig_ml_dsa = drop 8129 bs \<rparr> \<rparr> } })"

definition ValidateAccountCreateOp ::
  "crypto \<Rightarrow> AccountCreateOp \<Rightarrow> hash256 \<Rightarrow> u64 \<Rightarrow> CybouProtocolParameters \<Rightarrow> AccountCreateError" where
  "ValidateAccountCreateOp C op network_binding block_height params =
     (if SerializeAccountCreateOp C op = None then INVALID_FORMAT
      else if \<not> identity_kem_xwing_enabled params then INVALID_FORMAT
      else if aco_account_id op = 0 then NULL_ACCOUNT_ID
      else if network_binding = 0 \<or> acw_network_binding (aco_work op) \<noteq> network_binding then NETWORK_MISMATCH
      else if acw_account_id (aco_work op) \<noteq> aco_account_id op then ACCOUNT_ID_MISMATCH
      else
        let package_id = (case ComputeAuthorizationKeyId C (authorization_key (aco_authorization op)) of None \<Rightarrow> None
              | Some _ \<Rightarrow> ComputeIdentityKemPackageCommitment C network_binding (aco_account_id op) 0 (aco_kem_package op));
            commitment = (case package_id of None \<Rightarrow> None
              | Some p \<Rightarrow> ComputeAccountCreateAuthorizationCommitment C (aco_authorization op) p);
            epoch = EpochForHeight block_height params
        in if commitment = None \<or> acw_authorization_commitment (aco_work op) \<noteq> the commitment then COMMITMENT_MISMATCH
           else if acw_work_epoch (aco_work op) > epoch then FUTURE_WORK_EPOCH
           else if epoch - acw_work_epoch (aco_work op) > account_creation_epoch_lag params then EXPIRED_WORK_EPOCH
           else if \<not> CheckAccountCreationWork C (aco_work op) (account_creation_work_bits params) then INSUFFICIENT_WORK
           else case ComputeAccountCreatePopDigest C network_binding (aco_account_id op) (aco_authorization op) (the package_id) of
               None \<Rightarrow> INVALID_RECOVERY_POP
             | Some pop_digest \<Rightarrow>
               if \<not> VerifyIdentityMessage C (recovery_root (aco_authorization op)) (aco_recovery_pop op) (hash_bytes pop_digest)
               then INVALID_RECOVERY_POP
               else if \<not> VerifyIdentityMessage C (authorization_key (aco_authorization op)) (aco_authorization_pop op) (hash_bytes pop_digest)
               then INVALID_AUTHORIZATION_POP
               else NONE)"

section \<open>Round trip and validation\<close>

lemma account_create_dec_enc:
  assumes "SerializeAccountCreateOp C op = Some bs"
  shows "DeserializeAccountCreateOp C bs = Some op"
proof -
  from assms obtain auth work where a: "SerializeIdentityAuthorization (aco_authorization op) = Some auth"
    and w: "SerializeAccountCreationWork (aco_work op) = Some work"
    and nz: "aco_account_id op \<noteq> 0"
    and k: "DecodeIdentityKemPackage C (kem_bytes (aco_kem_package op)) \<noteq> None" and v: "ValidSignatures op"
    and b: "bs = hash_bytes (aco_account_id op) @ auth @ kem_bytes (aco_kem_package op) @ work
            @ ed_sig_bytes (sig_ed25519 (aco_recovery_pop op)) @ sig_ml_dsa (aco_recovery_pop op)
            @ ed_sig_bytes (sig_ed25519 (aco_authorization_pop op)) @ sig_ml_dsa (aco_authorization_pop op)"
    by (auto simp: SerializeAccountCreateOp_def split: option.splits if_splits)
  from w have wn: "acw_account_id (aco_work op) \<noteq> 0"
    and wb: "work = hash_bytes (acw_network_binding (aco_work op)) @ hash_bytes (acw_account_id (aco_work op))
        @ hash_bytes (acw_authorization_commitment (aco_work op)) @ le_bytes 8 (acw_work_epoch (aco_work op))
        @ le_bytes 8 (acw_nonce (aco_work op))"
    by (auto simp: SerializeAccountCreationWork_def split: if_splits)
  have la: "length auth = 3330" using idauth.enc_size [OF a] by (simp add: IDENTITY_AUTHORIZATION_SIZE_def)
  from v have ls: "length (sig_ml_dsa (aco_recovery_pop op)) = 3309" "length (sig_ml_dsa (aco_authorization_pop op)) = 2420"
    by (simp_all add: ValidSignatures_def)
  have len: "length bs = ACCOUNT_CREATE_SIZE"
    unfolding b wb using la ls
    by (simp add: ACCOUNT_CREATE_SIZE_def IDENTITY_AUTHORIZATION_SIZE_def IDENTITY_KEM_PACKAGE_SIZE_def ACCOUNT_CREATE_WORK_SIZE_def)
  have f: "subspan 0 32 bs = hash_bytes (aco_account_id op)" "subspan 32 3330 bs = auth"
    "subspan 3362 1218 bs = kem_bytes (aco_kem_package op)"
    "subspan 4580 32 bs = hash_bytes (acw_network_binding (aco_work op))"
    "subspan 4612 32 bs = hash_bytes (acw_account_id (aco_work op))"
    "subspan 4644 32 bs = hash_bytes (acw_authorization_commitment (aco_work op))"
    "subspan 4676 8 bs = le_bytes 8 (acw_work_epoch (aco_work op))"
    "subspan 4684 8 bs = le_bytes 8 (acw_nonce (aco_work op))"
    "subspan 4692 64 bs = ed_sig_bytes (sig_ed25519 (aco_recovery_pop op))"
    "subspan 4756 3309 bs = sig_ml_dsa (aco_recovery_pop op)"
    "subspan 8065 64 bs = ed_sig_bytes (sig_ed25519 (aco_authorization_pop op))"
    "drop 8129 bs = sig_ml_dsa (aco_authorization_pop op)"
    unfolding b wb using la ls by (simp_all add: subspan_def)
  have ids: "AccountId_FromBytes (hash_bytes (aco_account_id op)) = Some (aco_account_id op)"
    "AccountId_FromBytes (hash_bytes (acw_account_id (aco_work op))) = Some (acw_account_id (aco_work op))"
    using nz wn by (simp_all add: AccountId_FromBytes_iff)
  have rt: "be_word (kem_bytes (aco_kem_package op)) = aco_kem_package op"
    by (rule be_word_be_bytes) simp
  show ?thesis
    unfolding DeserializeAccountCreateOp_def f using len ids k a
    by (simp add: idauth.dec_enc rt Let_def be_word_be_bytes le_word_le_bytes)
qed

text \<open>Every decoded operation that names a network is the encoding of its bytes. The decoder itself does
  not look at the network binding of the work.\<close>

lemma account_create_enc_dec:
  assumes "DeserializeAccountCreateOp C bs = Some op" and nb: "acw_network_binding (aco_work op) \<noteq> 0"
  shows "SerializeAccountCreateOp C op = Some bs"
proof -
  from assms(1) obtain account_id auth work_id where l: "length bs = 10549"
    and i: "AccountId_FromBytes (subspan 0 32 bs) = Some account_id"
    and a: "DeserializeIdentityAuthorization (subspan 32 3330 bs) = Some auth"
    and k: "DecodeIdentityKemPackage C (kem_bytes (be_word (subspan 3362 1218 bs))) \<noteq> None"
    and w: "AccountId_FromBytes (subspan 4612 32 bs) = Some work_id"
    and op: "op = \<lparr> aco_account_id = account_id, aco_authorization = auth, aco_kem_package = be_word (subspan 3362 1218 bs),
               aco_work = \<lparr> acw_network_binding = be_word (subspan 4580 32 bs), acw_account_id = work_id,
                 acw_authorization_commitment = be_word (subspan 4644 32 bs),
                 acw_work_epoch = le_word (subspan 4676 8 bs), acw_nonce = le_word (subspan 4684 8 bs) \<rparr>,
               aco_recovery_pop = \<lparr> sig_ed25519 = be_word (subspan 4692 64 bs), sig_ml_dsa = subspan 4756 3309 bs \<rparr>,
               aco_authorization_pop = \<lparr> sig_ed25519 = be_word (subspan 8065 64 bs), sig_ml_dsa = drop 8129 bs \<rparr> \<rparr>"
    by (auto simp: DeserializeAccountCreateOp_def Let_def bind_eq_Some_conv ACCOUNT_CREATE_SIZE_def
        IDENTITY_AUTHORIZATION_SIZE_def IDENTITY_KEM_PACKAGE_SIZE_def ACCOUNT_CREATE_WORK_SIZE_def split: if_splits)
  have ids: "account_id \<noteq> 0" "hash_bytes account_id = subspan 0 32 bs" "work_id \<noteq> 0" "hash_bytes work_id = subspan 4612 32 bs"
    using i w by (simp_all add: AccountId_FromBytes_iff)
  have au: "SerializeIdentityAuthorization auth = Some (subspan 32 3330 bs)" by (rule idauth.enc_dec [OF a])
  have be: "be_bytes 1218 (be_word (subspan 3362 1218 bs) :: IdentityKemPackage) = subspan 3362 1218 bs"
    "hash_bytes (be_word (subspan 4580 32 bs)) = subspan 4580 32 bs"
    "hash_bytes (be_word (subspan 4644 32 bs)) = subspan 4644 32 bs"
    "ed_sig_bytes (be_word (subspan 4692 64 bs)) = subspan 4692 64 bs"
    "ed_sig_bytes (be_word (subspan 8065 64 bs)) = subspan 8065 64 bs"
    "le_bytes 8 (le_word (subspan 4676 8 bs) :: u64) = subspan 4676 8 bs"
    "le_bytes 8 (le_word (subspan 4684 8 bs) :: u64) = subspan 4684 8 bs"
    using l by (simp_all add: be_bytes_be_word le_bytes_le_word length_subspan)
  have "bs = subspan 0 32 bs @ subspan 32 3330 bs @ subspan 3362 1218 bs @ (subspan 4580 32 bs @ subspan 4612 32 bs
      @ subspan 4644 32 bs @ subspan 4676 8 bs @ subspan 4684 8 bs) @ subspan 4692 64 bs @ subspan 4756 3309 bs
      @ subspan 8065 64 bs @ drop 8129 bs"
    using l subspan_drop [of 0 32 bs] subspan_drop [of 32 3330 bs] subspan_drop [of 3362 1218 bs]
      subspan_drop [of 4580 32 bs] subspan_drop [of 4612 32 bs] subspan_drop [of 4644 32 bs] subspan_drop [of 4676 8 bs]
      subspan_drop [of 4684 8 bs] subspan_drop [of 4692 64 bs] subspan_drop [of 4756 3309 bs] subspan_drop [of 8065 64 bs]
    by simp
  then show ?thesis using nb ids au be k l
    by (simp add: op SerializeAccountCreateOp_def SerializeAccountCreationWork_def ValidSignatures_def length_subspan)
qed

lemma ValidateAccountCreateOp_NONE:
  assumes "ValidateAccountCreateOp C op network_binding h params = NONE"
  shows "aco_account_id op \<noteq> 0 \<and> network_binding \<noteq> 0 \<and> SerializeAccountCreateOp C op \<noteq> None
    \<and> acw_network_binding (aco_work op) = network_binding \<and> acw_account_id (aco_work op) = aco_account_id op
    \<and> CheckAccountCreationWork C (aco_work op) (account_creation_work_bits params)
    \<and> acw_work_epoch (aco_work op) \<le> EpochForHeight h params
    \<and> (\<exists>m. VerifyIdentityMessage C (recovery_root (aco_authorization op)) (aco_recovery_pop op) m
         \<and> VerifyIdentityMessage C (authorization_key (aco_authorization op)) (aco_authorization_pop op) m)"
  using assms
  by (auto simp: ValidateAccountCreateOp_def Let_def split: if_splits option.splits)

section \<open>Properties\<close>

text \<open>The byte-wise work check is the numeric threshold: a digest has \<open>bits\<close> leading zero bits exactly when, read as a
  big-endian number, it is below 2 to the power (256 - bits); more than 256 bits are never met.\<close>

theorem proof_of_work_exact: "HasWork digest bits \<longleftrightarrow> unat bits \<le> 256 \<and> unat digest < 2 ^ (256 - unat bits)"
  by (rule HasWork_iff)

end
