(* ===== verification/OrderedMap.thy ===== *)
theory OrderedMap
  imports Prelude
begin

text \<open>
  \<^verbatim>\<open>std::map\<close> as the consensus code uses it. The locale \<open>dictionary\<close> is the interface the
  state transitions rely on: what \<^verbatim>\<open>find\<close>, \<^verbatim>\<open>contains\<close>, \<^verbatim>\<open>emplace\<close> (which never
  overwrites), \<^verbatim>\<open>erase\<close> and a write through an iterator do to each other, and how each changes
  a sum over the stored values. Its derived lemmas (a transfer between two entries keeps the sum) carry
  the supply proofs. It is interpreted on the strictly sorted association lists of the model.
\<close>

section \<open>The interface\<close>

locale dictionary =
  fixes find :: "'m \<Rightarrow> 'k \<Rightarrow> 'v option"
    and emplace :: "'k \<Rightarrow> 'v \<Rightarrow> 'm \<Rightarrow> 'm"
    and adjust :: "'k \<Rightarrow> ('v \<Rightarrow> 'v) \<Rightarrow> 'm \<Rightarrow> 'm"
    and erase :: "'k \<Rightarrow> 'm \<Rightarrow> 'm"
    and wf :: "'m \<Rightarrow> bool"
    and weigh :: "('v \<Rightarrow> nat) \<Rightarrow> 'm \<Rightarrow> nat"
  assumes find_emplace: "find (emplace k v m) k' = (if k' = k \<and> find m k = None then Some v else find m k')"
    and find_adjust: "find (adjust k f m) k' = (if k' = k then map_option f (find m k) else find m k')"
    and find_erase: "find (erase k m) k' = (if k' = k then None else find m k')"
    and wf_emplace: "wf m \<Longrightarrow> wf (emplace k v m)"
    and wf_adjust: "wf m \<Longrightarrow> wf (adjust k f m)"
    and wf_erase: "wf m \<Longrightarrow> wf (erase k m)"
    and weigh_emplace: "find m k = None \<Longrightarrow> weigh g (emplace k v m) = g v + weigh g m"
    and weigh_adjust: "wf m \<Longrightarrow> find m k = Some v \<Longrightarrow> weigh g (adjust k f m) + g v = weigh g m + g (f v)"
    and weigh_erase: "wf m \<Longrightarrow> find m k = Some v \<Longrightarrow> weigh g (erase k m) + g v = weigh g m"
    and weigh_le: "find m k = Some v \<Longrightarrow> g v \<le> weigh g m"
begin

lemma adjust_same_weight:
  "wf m \<Longrightarrow> find m k = Some v \<Longrightarrow> g (f v) = g v \<Longrightarrow> weigh g (adjust k f m) = weigh g m"
  using weigh_adjust [of m k v g f] by simp

text \<open>A debit of one entry and the same credit of another keep the sum.\<close>

lemma weigh_transfer:
  assumes "wf m" and "find m a = Some x" and "find m b = Some y" and "a \<noteq> b"
    and "g (f x) + d = g x" and "g (h y) = g y + d"
  shows "weigh g (adjust b h (adjust a f m)) = weigh g m"
proof -
  have "weigh g (adjust a f m) + g x = weigh g m + g (f x)"
    using assms by (intro weigh_adjust)
  moreover have "find (adjust a f m) b = Some y"
    using assms by (simp add: find_adjust)
  then have "weigh g (adjust b h (adjust a f m)) + g y = weigh g (adjust a f m) + g (h y)"
    using assms by (intro weigh_adjust wf_adjust)
  ultimately show ?thesis using assms(5,6) by linarith
qed

lemma two_weights_le:
  assumes "wf m" and "find m a = Some x" and "find m b = Some y" and "a \<noteq> b"
  shows "g x + g y \<le> weigh g m"
proof -
  have "find (erase a m) b = Some y" using assms by (simp add: find_erase)
  then have "g y \<le> weigh g (erase a m)" by (rule weigh_le)
  with weigh_erase [OF assms(1,2), of g] show ?thesis by linarith
qed

lemma contains_emplace: "find (emplace k v m) k \<noteq> None"
  by (simp add: find_emplace)

end


section \<open>Strictly sorted association lists\<close>

definition omap_wf :: "('k::linorder, 'v) omap \<Rightarrow> bool" where
  "omap_wf m \<longleftrightarrow> sorted_wrt (<) (map fst m)"

definition map_find :: "('k, 'v) omap \<Rightarrow> 'k \<Rightarrow> 'v option" where
  "map_find m k = map_of m k"

definition map_contains :: "('k, 'v) omap \<Rightarrow> 'k \<Rightarrow> bool" where
  "map_contains m k \<longleftrightarrow> map_find m k \<noteq> None"

text \<open>\<^verbatim>\<open>emplace\<close> inserts in key order and leaves an existing entry as it is.\<close>

fun map_insert :: "'k::linorder \<Rightarrow> 'v \<Rightarrow> ('k, 'v) omap \<Rightarrow> ('k, 'v) omap" where
  "map_insert k v [] = [(k, v)]"
| "map_insert k v ((a, b) # m) =
     (if k < a then (k, v) # (a, b) # m else (a, b) # map_insert k v m)"

definition map_emplace :: "'k::linorder \<Rightarrow> 'v \<Rightarrow> ('k, 'v) omap \<Rightarrow> ('k, 'v) omap" where
  "map_emplace k v m = (case map_find m k of Some _ \<Rightarrow> m | None \<Rightarrow> map_insert k v m)"

text \<open>A write through the iterator (or reference) of the entry with key \<open>k\<close>.\<close>

fun map_adjust :: "'k \<Rightarrow> ('v \<Rightarrow> 'v) \<Rightarrow> ('k, 'v) omap \<Rightarrow> ('k, 'v) omap" where
  "map_adjust k f [] = []"
| "map_adjust k f ((a, b) # m) = (if k = a then (a, f b) # m else (a, b) # map_adjust k f m)"

definition map_erase :: "'k \<Rightarrow> ('k, 'v) omap \<Rightarrow> ('k, 'v) omap" where
  "map_erase k m = filter (\<lambda>p. fst p \<noteq> k) m"

text \<open>\<^verbatim>\<open>std::erase_if\<close>.\<close>

definition map_erase_if :: "('k \<Rightarrow> 'v \<Rightarrow> bool) \<Rightarrow> ('k, 'v) omap \<Rightarrow> ('k, 'v) omap" where
  "map_erase_if P m = filter (\<lambda>(k, v). \<not> P k v) m"

text \<open>A sum over the stored values.\<close>

definition map_weigh :: "('v \<Rightarrow> nat) \<Rightarrow> ('k, 'v) omap \<Rightarrow> nat" where
  "map_weigh g m = (\<Sum>(k, v)\<leftarrow>m. g v)"

lemma omap_wf_Nil [simp]: "omap_wf []"
  by (simp add: omap_wf_def)

lemma omap_wf_Cons [simp]: "omap_wf (p # m) \<longleftrightarrow> (\<forall>q \<in> set m. fst p < fst q) \<and> omap_wf m"
  by (auto simp: omap_wf_def)

lemma omap_wf_distinct: "omap_wf m \<Longrightarrow> distinct (map fst m)"
  by (auto simp: omap_wf_def strict_sorted_iff)

lemma map_find_Nil [simp]: "map_find [] k = None"
  by (simp add: map_find_def)

lemma map_find_Cons [simp]: "map_find ((a, b) # m) k = (if k = a then Some b else map_find m k)"
  by (simp add: map_find_def)

lemma map_find_insert:
  "map_find m k = None \<Longrightarrow> map_find (map_insert k v m) k' = (if k' = k then Some v else map_find m k')"
  by (induction k v m rule: map_insert.induct) (auto split: if_splits)

lemma map_find_emplace:
  "map_find (map_emplace k v m) k' = (if k' = k \<and> map_find m k = None then Some v else map_find m k')"
  by (auto simp: map_emplace_def map_find_insert split: option.split)

lemma map_find_adjust:
  "map_find (map_adjust k f m) k' = (if k' = k then map_option f (map_find m k) else map_find m k')"
  by (induction k f m rule: map_adjust.induct) auto

lemma map_find_erase: "map_find (map_erase k m) k' = (if k' = k then None else map_find m k')"
  by (induction m) (auto simp: map_erase_def)

lemma set_map_insert: "set (map_insert k v m) = insert (k, v) (set m)"
  by (induction k v m rule: map_insert.induct) auto

lemma keys_map_adjust [simp]: "map fst (map_adjust k f m) = map fst m"
  by (induction k f m rule: map_adjust.induct) auto

lemma length_map_adjust [simp]: "length (map_adjust k f m) = length m"
  by (induction k f m rule: map_adjust.induct) auto

lemma length_map_insert [simp]: "length (map_insert k v m) = Suc (length m)"
  by (induction k v m rule: map_insert.induct) auto

lemma length_map_emplace: "map_find m k = None \<Longrightarrow> length (map_emplace k v m) = Suc (length m)"
  by (simp add: map_emplace_def)

lemma omap_wf_insert: "omap_wf m \<Longrightarrow> map_find m k = None \<Longrightarrow> omap_wf (map_insert k v m)"
proof (induction k v m rule: map_insert.induct)
  case (1 k v)
  then show ?case by simp
next
  case (2 k v a b m)
  then show ?case by (fastforce simp: set_map_insert split: if_splits)
qed

lemma omap_wf_emplace: "omap_wf m \<Longrightarrow> omap_wf (map_emplace k v m)"
  by (auto simp: map_emplace_def omap_wf_insert split: option.split)

lemma omap_wf_adjust: "omap_wf m \<Longrightarrow> omap_wf (map_adjust k f m)"
  by (simp add: omap_wf_def)

lemma omap_wf_filter: "omap_wf m \<Longrightarrow> omap_wf (filter P m)"
  by (induction m) auto

lemma omap_wf_erase: "omap_wf m \<Longrightarrow> omap_wf (map_erase k m)"
  by (simp add: map_erase_def omap_wf_filter)

lemma map_find_notin: "\<forall>q \<in> set m. fst q \<noteq> k \<Longrightarrow> map_find m k = None"
  by (induction m) auto

lemma map_adjust_notin: "\<forall>q \<in> set m. fst q \<noteq> k \<Longrightarrow> map_adjust k f m = m"
  by (induction k f m rule: map_adjust.induct) auto

lemma map_erase_notin: "\<forall>q \<in> set m. fst q \<noteq> k \<Longrightarrow> map_erase k m = m"
  by (simp add: map_erase_def filter_id_conv)

lemma map_weigh_Nil [simp]: "map_weigh g [] = 0"
  by (simp add: map_weigh_def)

lemma map_weigh_Cons [simp]: "map_weigh g ((k, v) # m) = g v + map_weigh g m"
  by (simp add: map_weigh_def)

lemma map_weigh_insert: "map_weigh g (map_insert k v m) = g v + map_weigh g m"
  by (induction k v m rule: map_insert.induct) auto

lemma map_weigh_emplace:
  "map_find m k = None \<Longrightarrow> map_weigh g (map_emplace k v m) = g v + map_weigh g m"
  by (simp add: map_emplace_def map_weigh_insert)

lemma map_weigh_adjust:
  "omap_wf m \<Longrightarrow> map_find m k = Some v \<Longrightarrow> map_weigh g (map_adjust k f m) + g v = map_weigh g m + g (f v)"
  by (induction k f m rule: map_adjust.induct) (auto split: if_splits)

lemma map_weigh_erase:
  "omap_wf m \<Longrightarrow> map_find m k = Some v \<Longrightarrow> map_weigh g (map_erase k m) + g v = map_weigh g m"
proof (induction m)
  case Nil
  then show ?case by simp
next
  case (Cons p m)
  obtain a b where p: "p = (a, b)" by force
  show ?case
  proof (cases "k = a")
    case True
    with Cons.prems p have "map_erase k m = m" by (intro map_erase_notin) auto
    with True Cons.prems p show ?thesis by (simp add: map_erase_def)
  next
    case False
    with Cons p show ?thesis by (simp add: map_erase_def)
  qed
qed

lemma map_weigh_le: "map_find m k = Some v \<Longrightarrow> g v \<le> map_weigh g m"
  by (induction m) (auto split: if_splits)

interpretation om: dictionary map_find map_emplace map_adjust map_erase omap_wf map_weigh
  by unfold_locales
    (simp_all add: map_find_emplace map_find_adjust map_find_erase omap_wf_emplace omap_wf_adjust
      omap_wf_erase map_weigh_emplace map_weigh_adjust map_weigh_erase map_weigh_le)

lemmas om_find [simp] = map_find_emplace map_find_adjust map_find_erase
lemmas om_wf [intro, simp] = omap_wf_emplace omap_wf_adjust omap_wf_erase omap_wf_filter

lemma map_weigh_filter_le: "map_weigh g (filter P m) \<le> map_weigh g m"
  by (induction m) auto

text \<open>In a well-formed map the entries iterated over are exactly the entries that can be looked up.\<close>

lemma map_find_iff_set: "omap_wf m \<Longrightarrow> map_find m k = Some v \<longleftrightarrow> (k, v) \<in> set m"
  by (simp add: map_find_def omap_wf_distinct)

lemma map_find_in_set: "map_find m k = Some v \<Longrightarrow> (k, v) \<in> set m"
  by (simp add: map_find_def map_of_SomeD)

text \<open>A well-formed map is determined by its lookups.\<close>

lemma omap_eqI:
  assumes "omap_wf m" and "omap_wf m'" and "\<And>k. map_find m k = map_find m' k"
  shows "m = m'"
proof (rule map_sorted_distinct_set_unique)
  show s: "set m = set m'" using assms by (auto simp flip: map_find_iff_set)
  show "inj_on fst (set m \<union> set m')"
    using omap_wf_distinct [OF assms(1)] by (simp add: s [symmetric] distinct_map)
qed (use assms in \<open>auto simp: omap_wf_def strict_sorted_iff\<close>)

lemma map_contains_iff: "map_contains m k \<longleftrightarrow> (\<exists>v. map_find m k = Some v)"
  by (auto simp: map_contains_def)

lemma list_all_omap:
  "omap_wf m \<Longrightarrow> list_all P m \<longleftrightarrow> (\<forall>k v. map_find m k = Some v \<longrightarrow> P (k, v))"
  by (auto simp: list_all_iff map_find_iff_set)

text \<open>Entries that arrive in key order are appended.\<close>

lemma map_insert_last: "\<forall>q \<in> set m. fst q < k \<Longrightarrow> map_insert k v m = m @ [(k, v)]"
  by (induction k v m rule: map_insert.induct) auto

lemma omap_wf_append:
  "omap_wf (m @ m') \<longleftrightarrow> omap_wf m \<and> omap_wf m' \<and> (\<forall>p \<in> set m. \<forall>q \<in> set m'. fst p < fst q)"
  by (auto simp: omap_wf_def sorted_wrt_append)

lemma map_emplace_last:
  assumes "omap_wf (m @ (k, v) # m')"
  shows "map_find m k = None" and "map_emplace k v m = m @ [(k, v)]"
proof -
  have lt: "\<forall>q \<in> set m. fst q < k" using assms by (auto simp: omap_wf_append)
  then show n: "map_find m k = None" by (intro map_find_notin) auto
  show "map_emplace k v m = m @ [(k, v)]" using n lt by (simp add: map_emplace_def map_insert_last)
qed

lemma map_contains_adjust [simp]: "map_contains (map_adjust k f m) k' = map_contains m k'"
  by (simp add: map_contains_def)

lemma map_contains_emplace [simp]: "map_contains (map_emplace k v m) k' \<longleftrightarrow> k' = k \<or> map_contains m k'"
  by (auto simp: map_contains_def)

lemma map_contains_erase [simp]: "map_contains (map_erase k m) k' \<longleftrightarrow> k' \<noteq> k \<and> map_contains m k'"
  by (auto simp: map_contains_def)

lemma filter_map_adjust:
  "(\<And>v. P (k, f v) = P (k, v)) \<Longrightarrow> filter P (map_adjust k f m) = map_adjust k f (filter P m)
     \<or> filter P (map_adjust k f m) = filter P m"
proof (induction k f m rule: map_adjust.induct)
  case (2 k f a b m)
  then show ?case by (cases "k = a"; cases "P (a, b)") auto
qed simp

end
