(* ===== verification/IdentityRegistry.thy ===== *)
theory IdentityRegistry
  imports AccountCreation OrderedMap
begin

text \<open>
  The registry of identities (\<^verbatim>\<open>identity_registry.h/.cpp\<close>): registration, rotation and the
  authorization of ordinary operations. Each operation returns the error code of the source together
  with the registry it leaves behind. Shown here: the recovery index stays the inverse of the recorded
  recovery keys, failed operations change nothing, and nonces only grow, so that no authorization is ever
  accepted twice.
\<close>

section \<open>Data\<close>

record IdentityRecord =
  ir_recovery_key :: IdentityHybridPublicKey
  ir_authorization_key :: IdentityHybridPublicKey
  ir_kem_package_id :: hash256
  ir_nonce :: u64
  ir_key_epoch :: u64

record IdentityRotate =
  rot_account_id :: AccountId
  rot_new_recovery_key :: IdentityHybridPublicKey
  rot_new_authorization_key :: IdentityHybridPublicKey
  rot_new_kem_package :: IdentityKemPackage
  rot_nonce :: u64
  rot_key_epoch :: u64
  rot_old_recovery_signature :: IdentityHybridSignature
  rot_new_recovery_pop :: IdentityHybridSignature
  rot_new_authorization_pop :: IdentityHybridSignature

datatype IdentityOperationKind = PAYMENT | SYSTEM_LOCK | NAME_COMMIT | NAME_REVEAL
  | ROOT_PUBLICATION | REVOKE_PUBLICATION | STORAGE_LEASE

text \<open>\<^verbatim>\<open>static_cast<uint8_t>(kind)\<close>; the range check \<open>1 .. 7\<close> of the digest is the range of the type.\<close>

fun kind_code :: "IdentityOperationKind \<Rightarrow> u8" where
  "kind_code PAYMENT = 1"
| "kind_code SYSTEM_LOCK = 2"
| "kind_code NAME_COMMIT = 3"
| "kind_code NAME_REVEAL = 4"
| "kind_code ROOT_PUBLICATION = 5"
| "kind_code REVOKE_PUBLICATION = 6"
| "kind_code STORAGE_LEASE = 7"

record IdentityOperationAuthorization =
  ioa_account_id :: AccountId
  ioa_nonce :: u64
  ioa_key_epoch :: u64
  ioa_kind :: IdentityOperationKind
  ioa_payload_commitment :: hash256
  ioa_signature :: IdentityHybridSignature

datatype IdentityRegistryError = NONE | INVALID_CREATE | ACCOUNT_EXISTS | RECOVERY_KEY_EXISTS
  | ACCOUNT_NOT_FOUND | INVALID_KEY | BAD_NONCE | NONCE_EXHAUSTED | INVALID_SIGNATURE | INVALID_PAYLOAD

record IdentityRegistry =
  m_accounts :: "(AccountId, IdentityRecord) omap"
  m_recovery_index :: "(IdentityKeyId, AccountId) omap"

definition MAX_IDENTITY_REGISTRY_ACCOUNTS :: nat where "MAX_IDENTITY_REGISTRY_ACCOUNTS = 1000000"

definition empty_registry :: IdentityRegistry where
  "empty_registry = \<lparr> m_accounts = [], m_recovery_index = [] \<rparr>"


section \<open>Digests\<close>

definition Registry_Hash :: "crypto \<Rightarrow> string \<Rightarrow> bytes \<Rightarrow> IdentityKeyId option" where
  "Registry_Hash C domain bs = ComputeSha256 C [str domain, bs]"

definition rotate_preimage :: "hash256 \<Rightarrow> IdentityRotate \<Rightarrow> hash256 \<Rightarrow> hash256 \<Rightarrow> hash256 \<Rightarrow> bytes" where
  "rotate_preimage network_binding request recovery_id authorization_id package_id =
     str ''CYBOU/IDENTITY-ROTATE'' @ hash_bytes network_binding @ hash_bytes (rot_account_id request)
     @ le_bytes 8 (rot_nonce request) @ le_bytes 8 (rot_key_epoch request)
     @ hash_bytes recovery_id @ hash_bytes authorization_id @ hash_bytes package_id"

definition ComputeIdentityRotateDigest :: "crypto \<Rightarrow> hash256 \<Rightarrow> IdentityRotate \<Rightarrow> IdentityKeyId option" where
  "ComputeIdentityRotateDigest C network_binding request =
     (if network_binding = 0 \<or> rot_account_id request = 0 then None
      else do {
        recovery_id \<leftarrow> ComputeRecoveryKeyId C (rot_new_recovery_key request);
        authorization_id \<leftarrow> ComputeAuthorizationKeyId C (rot_new_authorization_key request);
        package_id \<leftarrow> ComputeIdentityKemPackageCommitment C network_binding (rot_account_id request)
          (rot_key_epoch request) (rot_new_kem_package request);
        Registry_Hash C ''CYBOU/IDENTITY-ROTATE-DIGEST''
          (rotate_preimage network_binding request recovery_id authorization_id package_id) })"

definition operation_preimage :: "hash256 \<Rightarrow> IdentityOperationAuthorization \<Rightarrow> bytes" where
  "operation_preimage network_binding request =
     str ''CYBOU/IDENTITY-OP'' @ hash_bytes network_binding @ hash_bytes (ioa_account_id request)
     @ le_bytes 8 (ioa_nonce request) @ le_bytes 8 (ioa_key_epoch request)
     @ [kind_code (ioa_kind request)] @ hash_bytes (ioa_payload_commitment request)"

definition ComputeIdentityOperationDigest ::
  "crypto \<Rightarrow> hash256 \<Rightarrow> IdentityOperationAuthorization \<Rightarrow> IdentityKeyId option" where
  "ComputeIdentityOperationDigest C network_binding request =
     (if ioa_payload_commitment request = 0 \<or> network_binding = 0 \<or> ioa_account_id request = 0 then None
      else Registry_Hash C ''CYBOU/IDENTITY-OP-DIGEST'' (operation_preimage network_binding request))"


section \<open>Operations\<close>

definition Registry_Find :: "IdentityRegistry \<Rightarrow> AccountId \<Rightarrow> IdentityRecord option" where
  "Registry_Find r a = map_find (m_accounts r) a"

definition FindByRecoveryKeyId :: "IdentityRegistry \<Rightarrow> IdentityKeyId \<Rightarrow> AccountId option" where
  "FindByRecoveryKeyId r i = map_find (m_recovery_index r) i"

definition Register :: "crypto \<Rightarrow> AccountCreateOp \<Rightarrow> hash256 \<Rightarrow> u64 \<Rightarrow> CybouProtocolParameters
    \<Rightarrow> IdentityRegistry \<Rightarrow> IdentityRegistryError \<times> IdentityRegistry" where
  "Register C create network_binding block_height params r =
     (if ValidateAccountCreateOp C create network_binding block_height params \<noteq> AccountCreateError.NONE then (INVALID_CREATE, r)
      else if map_contains (m_accounts r) (aco_account_id create) then (ACCOUNT_EXISTS, r)
      else case (ComputeRecoveryKeyId C (recovery_root (aco_authorization create)),
                 ComputeAuthorizationKeyId C (authorization_key (aco_authorization create)),
                 ComputeIdentityKemPackageCommitment C network_binding (aco_account_id create) 0 (aco_kem_package create)) of
          (Some recovery_id, Some _, Some package_id) \<Rightarrow>
            if map_contains (m_recovery_index r) recovery_id then (RECOVERY_KEY_EXISTS, r)
            else (NONE, r \<lparr> m_accounts := map_emplace (aco_account_id create)
                    \<lparr> ir_recovery_key = recovery_root (aco_authorization create),
                      ir_authorization_key = authorization_key (aco_authorization create),
                      ir_kem_package_id = package_id, ir_nonce = 0, ir_key_epoch = 0 \<rparr> (m_accounts r),
                  m_recovery_index := map_emplace recovery_id (aco_account_id create) (m_recovery_index r) \<rparr>)
        | _ \<Rightarrow> (INVALID_KEY, r))"

definition RotateIdentity :: "crypto \<Rightarrow> IdentityRotate \<Rightarrow> hash256 \<Rightarrow> IdentityRegistry
    \<Rightarrow> IdentityRegistryError \<times> IdentityRegistry" where
  "RotateIdentity C request network_binding r =
     (case map_find (m_accounts r) (rot_account_id request) of None \<Rightarrow> (ACCOUNT_NOT_FOUND, r)
      | Some record \<Rightarrow>
        if rot_nonce request \<noteq> ir_nonce record \<or> rot_key_epoch request \<noteq> ir_key_epoch record + 1 then (BAD_NONCE, r)
        else if ir_nonce record = U64_MAX \<or> ir_key_epoch record = U64_MAX then (NONCE_EXHAUSTED, r)
        else case (ComputeRecoveryKeyId C (ir_recovery_key record), ComputeRecoveryKeyId C (rot_new_recovery_key request),
                   ComputeAuthorizationKeyId C (rot_new_authorization_key request),
                   ComputeIdentityKemPackageCommitment C network_binding (rot_account_id request)
                     (rot_key_epoch request) (rot_new_kem_package request)) of
            (Some old_id, Some new_id, Some _, Some package_id) \<Rightarrow>
              if map_contains (m_recovery_index r) new_id then (RECOVERY_KEY_EXISTS, r)
              else (case ComputeIdentityRotateDigest C network_binding request of None \<Rightarrow> (INVALID_SIGNATURE, r)
                | Some digest \<Rightarrow>
                  if \<not> VerifyIdentityMessage C (ir_recovery_key record) (rot_old_recovery_signature request) (hash_bytes digest)
                     \<or> \<not> VerifyIdentityMessage C (rot_new_recovery_key request) (rot_new_recovery_pop request) (hash_bytes digest)
                     \<or> \<not> VerifyIdentityMessage C (rot_new_authorization_key request) (rot_new_authorization_pop request) (hash_bytes digest)
                  then (INVALID_SIGNATURE, r)
                  else (NONE, r \<lparr>
                    m_recovery_index := map_emplace new_id (rot_account_id request) (map_erase old_id (m_recovery_index r)),
                    m_accounts := map_adjust (rot_account_id request) (\<lambda>rec. rec \<lparr>
                      ir_recovery_key := rot_new_recovery_key request,
                      ir_authorization_key := rot_new_authorization_key request,
                      ir_kem_package_id := package_id,
                      ir_nonce := ir_nonce rec + 1,
                      ir_key_epoch := rot_key_epoch request \<rparr>) (m_accounts r) \<rparr>))
          | _ \<Rightarrow> (INVALID_KEY, r))"

definition AuthorizeOperation :: "crypto \<Rightarrow> IdentityOperationAuthorization \<Rightarrow> hash256 \<Rightarrow> IdentityRegistry
    \<Rightarrow> IdentityRegistryError \<times> IdentityRegistry" where
  "AuthorizeOperation C request network_binding r =
     (case map_find (m_accounts r) (ioa_account_id request) of None \<Rightarrow> (ACCOUNT_NOT_FOUND, r)
      | Some record \<Rightarrow>
        if ioa_nonce request \<noteq> ir_nonce record \<or> ioa_key_epoch request \<noteq> ir_key_epoch record then (BAD_NONCE, r)
        else if ir_nonce record = U64_MAX then (NONCE_EXHAUSTED, r)
        else case ComputeIdentityOperationDigest C network_binding request of None \<Rightarrow> (INVALID_PAYLOAD, r)
          | Some digest \<Rightarrow>
            if \<not> VerifyIdentityMessage C (ir_authorization_key record) (ioa_signature request) (hash_bytes digest)
            then (INVALID_SIGNATURE, r)
            else (NONE, r \<lparr> m_accounts := map_adjust (ioa_account_id request)
                    (\<lambda>rec. rec \<lparr> ir_nonce := ir_nonce rec + 1 \<rparr>) (m_accounts r) \<rparr>))"


section \<open>What the operations do\<close>

lemma AuthorizeOperation_NONE_iff:
  "AuthorizeOperation C a nb r = (NONE, r') \<longleftrightarrow>
     (\<exists>rec digest. map_find (m_accounts r) (ioa_account_id a) = Some rec
        \<and> ioa_nonce a = ir_nonce rec \<and> ioa_key_epoch a = ir_key_epoch rec \<and> ir_nonce rec \<noteq> U64_MAX
        \<and> ComputeIdentityOperationDigest C nb a = Some digest
        \<and> VerifyIdentityMessage C (ir_authorization_key rec) (ioa_signature a) (hash_bytes digest)
        \<and> r' = r \<lparr> m_accounts := map_adjust (ioa_account_id a) (\<lambda>rec. rec \<lparr> ir_nonce := ir_nonce rec + 1 \<rparr>) (m_accounts r) \<rparr>)"
  by (auto simp: AuthorizeOperation_def split: option.splits if_splits)

lemma AuthorizeOperation_fail [fail_atomic]:
  "AuthorizeOperation C a nb r = (e, r') \<Longrightarrow> e \<noteq> NONE \<Longrightarrow> r' = r"
  by (auto simp: AuthorizeOperation_def split: option.splits if_splits)

lemma Register_fail [fail_atomic]: "Register C op nb h params r = (e, r') \<Longrightarrow> e \<noteq> NONE \<Longrightarrow> r' = r"
  by (auto simp: Register_def split: option.splits if_splits)

lemma RotateIdentity_fail [fail_atomic]: "RotateIdentity C q nb r = (e, r') \<Longrightarrow> e \<noteq> NONE \<Longrightarrow> r' = r"
  by (auto simp: RotateIdentity_def split: option.splits if_splits)

lemma Register_NONE:
  assumes "Register C op nb h params r = (NONE, r')"
  obtains recovery_id package_id where
    "ValidateAccountCreateOp C op nb h params = AccountCreateError.NONE"
    "map_find (m_accounts r) (aco_account_id op) = None"
    "ComputeRecoveryKeyId C (recovery_root (aco_authorization op)) = Some recovery_id"
    "ComputeAuthorizationKeyId C (authorization_key (aco_authorization op)) \<noteq> None"
    "map_find (m_recovery_index r) recovery_id = None"
    "r' = r \<lparr> m_accounts := map_emplace (aco_account_id op)
                \<lparr> ir_recovery_key = recovery_root (aco_authorization op),
                  ir_authorization_key = authorization_key (aco_authorization op),
                  ir_kem_package_id = package_id, ir_nonce = 0, ir_key_epoch = 0 \<rparr> (m_accounts r),
              m_recovery_index := map_emplace recovery_id (aco_account_id op) (m_recovery_index r) \<rparr>"
proof -
  from assms obtain recovery_id auth_id package_id where
    "ComputeRecoveryKeyId C (recovery_root (aco_authorization op)) = Some recovery_id"
    "ComputeAuthorizationKeyId C (authorization_key (aco_authorization op)) = Some auth_id"
    "ComputeIdentityKemPackageCommitment C nb (aco_account_id op) 0 (aco_kem_package op) = Some package_id"
    by (auto simp: Register_def split: option.splits if_splits)
  with assms that [of recovery_id package_id] show thesis
    by (auto simp: Register_def map_contains_def split: if_splits)
qed

lemma RotateIdentity_NONE:
  assumes "RotateIdentity C q nb r = (NONE, r')"
  obtains rec old_id new_id package_id digest where
    "map_find (m_accounts r) (rot_account_id q) = Some rec"
    "rot_nonce q = ir_nonce rec" "rot_key_epoch q = ir_key_epoch rec + 1" "ir_nonce rec \<noteq> U64_MAX" "ir_key_epoch rec \<noteq> U64_MAX"
    "ComputeRecoveryKeyId C (ir_recovery_key rec) = Some old_id"
    "ComputeRecoveryKeyId C (rot_new_recovery_key q) = Some new_id"
    "ComputeAuthorizationKeyId C (rot_new_authorization_key q) \<noteq> None"
    "map_find (m_recovery_index r) new_id = None"
    "ComputeIdentityRotateDigest C nb q = Some digest"
    "VerifyIdentityMessage C (ir_recovery_key rec) (rot_old_recovery_signature q) (hash_bytes digest)"
    "VerifyIdentityMessage C (rot_new_recovery_key q) (rot_new_recovery_pop q) (hash_bytes digest)"
    "VerifyIdentityMessage C (rot_new_authorization_key q) (rot_new_authorization_pop q) (hash_bytes digest)"
    "r' = r \<lparr> m_recovery_index := map_emplace new_id (rot_account_id q) (map_erase old_id (m_recovery_index r)),
              m_accounts := map_adjust (rot_account_id q) (\<lambda>rec. rec \<lparr>
                ir_recovery_key := rot_new_recovery_key q, ir_authorization_key := rot_new_authorization_key q,
                ir_kem_package_id := package_id, ir_nonce := ir_nonce rec + 1, ir_key_epoch := rot_key_epoch q \<rparr>) (m_accounts r) \<rparr>"
proof -
  from assms obtain rec old_id new_id auth_id package_id digest where f:
    "map_find (m_accounts r) (rot_account_id q) = Some rec"
    "ComputeRecoveryKeyId C (ir_recovery_key rec) = Some old_id"
    "ComputeRecoveryKeyId C (rot_new_recovery_key q) = Some new_id"
    "ComputeAuthorizationKeyId C (rot_new_authorization_key q) = Some auth_id"
    "ComputeIdentityKemPackageCommitment C nb (rot_account_id q) (rot_key_epoch q) (rot_new_kem_package q) = Some package_id"
    "ComputeIdentityRotateDigest C nb q = Some digest"
    by (auto simp: RotateIdentity_def split: option.splits if_splits)
  with assms that [of rec old_id new_id digest package_id] show thesis
    by (auto simp: RotateIdentity_def map_contains_def split: if_splits)
qed


section \<open>The index invariant\<close>

text \<open>Every account is indexed under the identifier of its current recovery key, and the index holds
  nothing else.\<close>

definition account_indexed :: "crypto \<Rightarrow> IdentityRegistry \<Rightarrow> AccountId \<Rightarrow> IdentityRecord \<Rightarrow> bool" where
  "account_indexed C r a rec \<longleftrightarrow> a \<noteq> 0 \<and> ComputeAuthorizationKeyId C (ir_authorization_key rec) \<noteq> None
     \<and> (case ComputeRecoveryKeyId C (ir_recovery_key rec) of None \<Rightarrow> False
        | Some i \<Rightarrow> map_find (m_recovery_index r) i = Some a)"

definition index_backed :: "crypto \<Rightarrow> IdentityRegistry \<Rightarrow> IdentityKeyId \<Rightarrow> AccountId \<Rightarrow> bool" where
  "index_backed C r i a \<longleftrightarrow> (case map_find (m_accounts r) a of None \<Rightarrow> False
     | Some rec \<Rightarrow> ComputeRecoveryKeyId C (ir_recovery_key rec) = Some i)"

definition registry_ok :: "crypto \<Rightarrow> IdentityRegistry \<Rightarrow> bool" where
  "registry_ok C r \<longleftrightarrow> omap_wf (m_accounts r) \<and> omap_wf (m_recovery_index r)
     \<and> list_all (\<lambda>(a, rec). account_indexed C r a rec) (m_accounts r)
     \<and> list_all (\<lambda>(i, a). index_backed C r i a) (m_recovery_index r)"

text \<open>The same invariant through lookups, which is the form the proofs use.\<close>

lemma registry_ok_iff:
  "registry_ok C r \<longleftrightarrow> omap_wf (m_accounts r) \<and> omap_wf (m_recovery_index r)
     \<and> (\<forall>a rec. map_find (m_accounts r) a = Some rec \<longrightarrow> account_indexed C r a rec)
     \<and> (\<forall>i a. map_find (m_recovery_index r) i = Some a \<longrightarrow> index_backed C r i a)"
  unfolding registry_ok_def
  using list_all_omap [of "m_accounts r" "\<lambda>(a, rec). account_indexed C r a rec"]
    list_all_omap [of "m_recovery_index r" "\<lambda>(i, a). index_backed C r i a"] by auto

lemma index_backedI:
  "map_find (m_accounts r) a = Some rec \<Longrightarrow> ComputeRecoveryKeyId C (ir_recovery_key rec) = Some i \<Longrightarrow> index_backed C r i a"
  by (simp add: index_backed_def)

lemma index_backedE:
  assumes "index_backed C r i a"
  obtains rec where "map_find (m_accounts r) a = Some rec" "ComputeRecoveryKeyId C (ir_recovery_key rec) = Some i"
  using assms by (auto simp: index_backed_def split: option.splits)

lemma account_indexedI:
  "a \<noteq> 0 \<Longrightarrow> ComputeAuthorizationKeyId C (ir_authorization_key rec) \<noteq> None \<Longrightarrow>
   ComputeRecoveryKeyId C (ir_recovery_key rec) = Some i \<Longrightarrow> map_find (m_recovery_index r) i = Some a \<Longrightarrow>
   account_indexed C r a rec"
  by (simp add: account_indexed_def)

lemma account_indexedE:
  assumes "account_indexed C r a rec"
  obtains i where "a \<noteq> 0" "ComputeAuthorizationKeyId C (ir_authorization_key rec) \<noteq> None"
    "ComputeRecoveryKeyId C (ir_recovery_key rec) = Some i" "map_find (m_recovery_index r) i = Some a"
  using assms by (auto simp: account_indexed_def split: option.splits)

lemma registry_ok_account: "registry_ok C r \<Longrightarrow> map_find (m_accounts r) a = Some rec \<Longrightarrow> account_indexed C r a rec"
  by (simp add: registry_ok_iff)

lemma registry_ok_index: "registry_ok C r \<Longrightarrow> map_find (m_recovery_index r) i = Some a \<Longrightarrow> index_backed C r i a"
  by (simp add: registry_ok_iff)

lemma registry_ok_empty: "registry_ok C empty_registry"
  by (simp add: registry_ok_def empty_registry_def)

lemma Register_ok:
  assumes ok: "registry_ok C r" and reg: "Register C op nb h params r = (NONE, r')"
  shows "registry_ok C r'"
proof -
  from reg obtain i p where v: "ValidateAccountCreateOp C op nb h params = AccountCreateError.NONE"
    and n: "map_find (m_accounts r) (aco_account_id op) = None" "map_find (m_recovery_index r) i = None"
    and i: "ComputeRecoveryKeyId C (recovery_root (aco_authorization op)) = Some i"
    and au: "ComputeAuthorizationKeyId C (authorization_key (aco_authorization op)) \<noteq> None"
    and r': "r' = r \<lparr> m_accounts := map_emplace (aco_account_id op)
                \<lparr> ir_recovery_key = recovery_root (aco_authorization op),
                  ir_authorization_key = authorization_key (aco_authorization op),
                  ir_kem_package_id = p, ir_nonce = 0, ir_key_epoch = 0 \<rparr> (m_accounts r),
              m_recovery_index := map_emplace i (aco_account_id op) (m_recovery_index r) \<rparr>"
    by (rule Register_NONE)
  have nz: "aco_account_id op \<noteq> 0" using ValidateAccountCreateOp_NONE [OF v] by simp
  have "account_indexed C r' a rec" if a: "map_find (m_accounts r') a = Some rec" for a rec
  proof (cases "a = aco_account_id op")
    case True
    with a n i au nz show ?thesis by (intro account_indexedI [where i = i]) (auto simp: r')
  next
    case False
    with a have "account_indexed C r a rec" using registry_ok_account [OF ok] by (simp add: r')
    then show ?thesis using n
      by (elim account_indexedE, intro account_indexedI) (auto simp: r')
  qed
  moreover have "index_backed C r' k a" if k: "map_find (m_recovery_index r') k = Some a" for k a
  proof (cases "k = i")
    case True
    with k n i show ?thesis by (intro index_backedI) (auto simp: r')
  next
    case False
    with k have "index_backed C r k a" using registry_ok_index [OF ok] by (simp add: r')
    then show ?thesis using n by (elim index_backedE, intro index_backedI) (auto simp: r')
  qed
  ultimately show ?thesis using ok unfolding registry_ok_iff by (simp add: r')
qed

lemma RotateIdentity_ok:
  assumes ok: "registry_ok C r" and rot: "RotateIdentity C q nb r = (NONE, r')"
  shows "registry_ok C r'"
proof -
  let ?a = "rot_account_id q"
  from rot obtain rec0 old_id new_id p where f: "map_find (m_accounts r) ?a = Some rec0"
    "ComputeRecoveryKeyId C (ir_recovery_key rec0) = Some old_id"
    "ComputeRecoveryKeyId C (rot_new_recovery_key q) = Some new_id"
    "ComputeAuthorizationKeyId C (rot_new_authorization_key q) \<noteq> None"
    "map_find (m_recovery_index r) new_id = None"
    and r': "r' = r \<lparr> m_recovery_index := map_emplace new_id ?a (map_erase old_id (m_recovery_index r)),
              m_accounts := map_adjust ?a (\<lambda>rec. rec \<lparr>
                ir_recovery_key := rot_new_recovery_key q, ir_authorization_key := rot_new_authorization_key q,
                ir_kem_package_id := p, ir_nonce := ir_nonce rec + 1, ir_key_epoch := rot_key_epoch q \<rparr>) (m_accounts r) \<rparr>"
    by (rule RotateIdentity_NONE)
  have old: "map_find (m_recovery_index r) old_id = Some ?a" "?a \<noteq> 0"
    using registry_ok_account [OF ok f(1)] f(2) by (auto elim: account_indexedE)
  have "account_indexed C r' a rec" if a: "map_find (m_accounts r') a = Some rec" for a rec
  proof (cases "a = ?a")
    case True
    with a f old show ?thesis by (intro account_indexedI [where i = new_id]) (auto simp: r')
  next
    case False
    with a have "account_indexed C r a rec" using registry_ok_account [OF ok] by (simp add: r')
    then show ?thesis using False f old
      by (elim account_indexedE, intro account_indexedI) (auto simp: r')
  qed
  moreover have "index_backed C r' i a" if i: "map_find (m_recovery_index r') i = Some a" for i a
  proof (cases "i = new_id")
    case True
    with i f have "a = ?a" by (auto simp: r' split: if_splits)
    with True f show ?thesis by (intro index_backedI) (auto simp: r')
  next
    case False
    with i have ne: "i \<noteq> old_id" and "index_backed C r i a"
      using registry_ok_index [OF ok, of i a] by (auto simp: r' split: if_splits)
    then show ?thesis using f by (elim index_backedE, intro index_backedI) (auto simp: r')
  qed
  ultimately show ?thesis using ok unfolding registry_ok_iff by (simp add: r')
qed

lemma AuthorizeOperation_ok:
  assumes ok: "registry_ok C r" and a: "AuthorizeOperation C q nb r = (NONE, r')"
  shows "registry_ok C r'"
proof -
  from a have r': "r' = r \<lparr> m_accounts := map_adjust (ioa_account_id q) (\<lambda>rec. rec \<lparr> ir_nonce := ir_nonce rec + 1 \<rparr>) (m_accounts r) \<rparr>"
    by (auto simp: AuthorizeOperation_NONE_iff)
  have "account_indexed C r' a rec" if a: "map_find (m_accounts r') a = Some rec" for a rec
  proof -
    from a obtain rec0 where "map_find (m_accounts r) a = Some rec0"
      "ir_recovery_key rec = ir_recovery_key rec0" "ir_authorization_key rec = ir_authorization_key rec0"
      by (auto simp: r' split: if_splits)
    with registry_ok_account [OF ok this(1)] show ?thesis
      by (elim account_indexedE, intro account_indexedI) (auto simp: r')
  qed
  moreover have "index_backed C r' i a" if i: "map_find (m_recovery_index r') i = Some a" for i a
  proof -
    from i have "index_backed C r i a" using registry_ok_index [OF ok] by (simp add: r')
    then obtain rec where "map_find (m_accounts r) a = Some rec" "ComputeRecoveryKeyId C (ir_recovery_key rec) = Some i"
      by (rule index_backedE)
    then show ?thesis
      by (intro index_backedI [where rec = "if a = ioa_account_id q then rec \<lparr> ir_nonce := ir_nonce rec + 1 \<rparr> else rec"])
        (auto simp: r')
  qed
  ultimately show ?thesis using ok unfolding registry_ok_iff by (simp add: r')
qed


section \<open>Nonces\<close>

text \<open>Accounts stay, and their nonces never decrease.\<close>

definition nonces_grow :: "IdentityRegistry \<Rightarrow> IdentityRegistry \<Rightarrow> bool" where
  "nonces_grow r r' \<longleftrightarrow> (\<forall>a rec. map_find (m_accounts r) a = Some rec \<longrightarrow>
     (\<exists>rec'. map_find (m_accounts r') a = Some rec' \<and> ir_nonce rec \<le> ir_nonce rec'))"

lemma nonces_grow_refl [simp]: "nonces_grow r r"
  by (simp add: nonces_grow_def)

lemma nonces_grow_trans [trans]: "nonces_grow r s \<Longrightarrow> nonces_grow s t \<Longrightarrow> nonces_grow r t"
  unfolding nonces_grow_def by (meson order_trans)

lemma nonces_grow_adjust:
  assumes "map_find (m_accounts r) b = Some rec0" and "ir_nonce rec0 \<le> ir_nonce (f rec0)"
    and "m_accounts r' = map_adjust b f (m_accounts r)"
  shows "nonces_grow r r'"
  using assms by (auto simp: nonces_grow_def)

lemma AuthorizeOperation_grow: "AuthorizeOperation C q nb r = (e, r') \<Longrightarrow> nonces_grow r r'"
proof (cases "e = NONE")
  case True
  assume "AuthorizeOperation C q nb r = (e, r')"
  with True obtain rec where "map_find (m_accounts r) (ioa_account_id q) = Some rec" "ir_nonce rec \<noteq> U64_MAX"
    "m_accounts r' = map_adjust (ioa_account_id q) (\<lambda>rec. rec \<lparr> ir_nonce := ir_nonce rec + 1 \<rparr>) (m_accounts r)"
    by (auto simp: AuthorizeOperation_NONE_iff)
  then show ?thesis using word_less_succ [of "ir_nonce rec"] by (intro nonces_grow_adjust) auto
qed (use AuthorizeOperation_fail in force)

lemma RotateIdentity_grow: "RotateIdentity C q nb r = (e, r') \<Longrightarrow> nonces_grow r r'"
proof (cases "e = NONE")
  case True
  assume "RotateIdentity C q nb r = (e, r')"
  with True have "RotateIdentity C q nb r = (NONE, r')" by simp
  then obtain rec p where "map_find (m_accounts r) (rot_account_id q) = Some rec" "ir_nonce rec \<noteq> U64_MAX"
    "m_accounts r' = map_adjust (rot_account_id q) (\<lambda>rec. rec \<lparr>
       ir_recovery_key := rot_new_recovery_key q, ir_authorization_key := rot_new_authorization_key q,
       ir_kem_package_id := p, ir_nonce := ir_nonce rec + 1, ir_key_epoch := rot_key_epoch q \<rparr>) (m_accounts r)"
    by (rule RotateIdentity_NONE) simp
  then show ?thesis using word_less_succ [of "ir_nonce rec"] by (intro nonces_grow_adjust) auto
qed (use RotateIdentity_fail in force)

lemma Register_grow: "Register C op nb h params r = (e, r') \<Longrightarrow> nonces_grow r r'"
proof (cases "e = NONE")
  case True
  assume "Register C op nb h params r = (e, r')"
  with True have "Register C op nb h params r = (NONE, r')" by simp
  then show ?thesis by (rule Register_NONE) (auto simp: nonces_grow_def)
qed (use Register_fail in force)

text \<open>An accepted authorization carries the current nonce, and that nonce is then used up.\<close>

lemma AuthorizeOperation_no_replay:
  assumes "AuthorizeOperation C q nb r = (NONE, r')" and "nonces_grow r' s"
  shows "AuthorizeOperation C q nb' s = (BAD_NONCE, s)"
proof -
  from assms(1) obtain rec where rec: "map_find (m_accounts r) (ioa_account_id q) = Some rec"
    "ioa_nonce q = ir_nonce rec" "ir_nonce rec \<noteq> U64_MAX"
    and r': "r' = r \<lparr> m_accounts := map_adjust (ioa_account_id q) (\<lambda>rec. rec \<lparr> ir_nonce := ir_nonce rec + 1 \<rparr>) (m_accounts r) \<rparr>"
    by (auto simp: AuthorizeOperation_NONE_iff)
  then have "map_find (m_accounts r') (ioa_account_id q) = Some (rec \<lparr> ir_nonce := ir_nonce rec + 1 \<rparr>)" by simp
  with assms(2) obtain rec' where "map_find (m_accounts s) (ioa_account_id q) = Some rec'" "ir_nonce rec + 1 \<le> ir_nonce rec'"
    unfolding nonces_grow_def by fastforce
  with rec(2) word_less_succ [OF rec(3)] show ?thesis by (auto simp: AuthorizeOperation_def)
qed

text \<open>The registry as a state machine: any sequence of registrations, rotations and authorizations,
  accepted or refused.\<close>

inductive registry_step :: "crypto \<Rightarrow> IdentityRegistry \<Rightarrow> IdentityRegistry \<Rightarrow> bool" for C where
  register: "Register C op nb h params r = (e, r') \<Longrightarrow> registry_step C r r'"
| rotate: "RotateIdentity C q nb r = (e, r') \<Longrightarrow> registry_step C r r'"
| authorize: "AuthorizeOperation C a nb r = (e, r') \<Longrightarrow> registry_step C r r'"

inductive registry_reach :: "crypto \<Rightarrow> IdentityRegistry \<Rightarrow> IdentityRegistry \<Rightarrow> bool" for C where
  refl: "registry_reach C r r"
| step: "registry_reach C r s \<Longrightarrow> registry_step C s t \<Longrightarrow> registry_reach C r t"

inductive_cases registry_step_cases: "registry_step C r r'"

lemma registry_step_ok: "registry_step C r r' \<Longrightarrow> registry_ok C r \<Longrightarrow> registry_ok C r'"
proof (induction rule: registry_step.induct)
  case (register op nb h params r e r')
  then show ?case using Register_ok Register_fail by (cases "e = NONE") fastforce+
next
  case (rotate q nb r e r')
  then show ?case using RotateIdentity_ok RotateIdentity_fail by (cases "e = NONE") fastforce+
next
  case (authorize a nb r e r')
  then show ?case using AuthorizeOperation_ok AuthorizeOperation_fail by (cases "e = NONE") fastforce+
qed

lemma registry_step_grow: "registry_step C r r' \<Longrightarrow> nonces_grow r r'"
  by (induction rule: registry_step.induct) (auto intro: Register_grow RotateIdentity_grow AuthorizeOperation_grow)

lemma registry_reach_ok: "registry_reach C r r' \<Longrightarrow> registry_ok C r \<Longrightarrow> registry_ok C r'"
  by (induction rule: registry_reach.induct) (auto intro: registry_step_ok)

lemma registry_reach_grow: "registry_reach C r r' \<Longrightarrow> nonces_grow r r'"
  by (induction rule: registry_reach.induct) (auto intro: registry_step_grow nonces_grow_trans)

text \<open>The signed preimage determines every field that is authorized.\<close>

lemma le_bytes_inj: "le_bytes n v = le_bytes n w \<Longrightarrow> LENGTH('a) \<le> 8 * n \<Longrightarrow> v = w" for v w :: "'a::len word"
  by (metis le_word_le_bytes)

lemma be_bytes_inj: "be_bytes n v = be_bytes n w \<Longrightarrow> LENGTH('a) \<le> 8 * n \<Longrightarrow> v = w" for v w :: "'a::len word"
  by (metis be_word_be_bytes)

lemma kind_code_inj: "kind_code a = kind_code b \<Longrightarrow> a = b"
  by (cases a; cases b) simp_all

lemma operation_preimage_inj:
  assumes "operation_preimage nb a = operation_preimage nb' b"
  shows "nb = nb' \<and> ioa_account_id a = ioa_account_id b \<and> ioa_nonce a = ioa_nonce b
    \<and> ioa_key_epoch a = ioa_key_epoch b \<and> ioa_kind a = ioa_kind b \<and> ioa_payload_commitment a = ioa_payload_commitment b"
  using assms by (auto simp: operation_preimage_def dest!: be_bytes_inj le_bytes_inj kind_code_inj)

end
