(* ===== verification/Names.thy ===== *)
theory Names
  imports IdentityRegistry
begin

text \<open>
  The registry of \<^verbatim>\<open>.cybou\<close> names (\<^verbatim>\<open>name_registry.h\<close>): label syntax, the commit and
  reveal payloads with their canonical bytes, the claim work, and the serialized registry. The
  \<^verbatim>\<open>Sha256\<close> class used here throws on failure, so the commitments return an exception or a value.
\<close>

section \<open>Labels\<close>

datatype NameValidationError = NONE | EMPTY | TOO_SHORT | TOO_LONG | INVALID_CHARACTER | INVALID_START_END
  | CONSECUTIVE_HYPHENS | IDN_PREFIX | ALL_DIGITS | PROTECTED_NAME

definition NAME_MIN_LABEL_LENGTH :: nat where "NAME_MIN_LABEL_LENGTH = 5"
definition NAME_MAX_LABEL_LENGTH :: nat where "NAME_MAX_LABEL_LENGTH = 32"

definition lower_alpha :: "char \<Rightarrow> bool" where
  "lower_alpha c \<longleftrightarrow> 97 \<le> (of_char c :: nat) \<and> (of_char c :: nat) \<le> 122"

definition ascii_digit :: "char \<Rightarrow> bool" where
  "ascii_digit c \<longleftrightarrow> 48 \<le> (of_char c :: nat) \<and> (of_char c :: nat) \<le> 57"

text \<open>The character loop: an error, or whether a letter was seen.\<close>

fun label_scan :: "string \<Rightarrow> bool \<Rightarrow> NameValidationError + bool" where
  "label_scan [] has_alpha = Inr has_alpha"
| "label_scan (c # cs) has_alpha =
     (if lower_alpha c then label_scan cs True
      else if ascii_digit c then label_scan cs has_alpha
      else if c = CHR ''-'' then
        (if cs \<noteq> [] \<and> hd cs = CHR ''-'' then Inl CONSECUTIVE_HYPHENS else label_scan cs has_alpha)
      else Inl INVALID_CHARACTER)"

definition RESERVED_NAMES :: "string list" where
  "RESERVED_NAMES = [CENTRAL_AUTHORITY_NAME, ''admin'', ''root'', ''system'', ''support'',
     ''security'', ''operator'', ''validator'', ''wallet'', ''mail'']"

definition ValidateNameLabel :: "string \<Rightarrow> NameValidationError" where
  "ValidateNameLabel label =
     (if label = [] then EMPTY
      else if length label < NAME_MIN_LABEL_LENGTH then TOO_SHORT
      else if length label > NAME_MAX_LABEL_LENGTH then TOO_LONG
      else if take 4 label = ''xn--'' then IDN_PREFIX
      else case label_scan label False of
          Inl e \<Rightarrow> e
        | Inr has_alpha \<Rightarrow>
          if hd label = CHR ''-'' \<or> last label = CHR ''-'' then INVALID_START_END
          else if \<not> has_alpha then ALL_DIGITS
          else if label \<in> set RESERVED_NAMES then PROTECTED_NAME
          else NONE)"

text \<open>The syntax rule, stated on the label as a whole.\<close>

definition double_hyphen :: "string \<Rightarrow> bool" where
  "double_hyphen s \<longleftrightarrow> (\<exists>i < length s - 1. s ! i = CHR ''-'' \<and> s ! Suc i = CHR ''-'')"

definition label_char :: "char \<Rightarrow> bool" where
  "label_char c \<longleftrightarrow> lower_alpha c \<or> ascii_digit c \<or> c = CHR ''-''"

lemma double_hyphen_Cons:
  "double_hyphen (c # cs) \<longleftrightarrow> (c = CHR ''-'' \<and> cs \<noteq> [] \<and> hd cs = CHR ''-'') \<or> double_hyphen cs"
proof (cases cs)
  case Nil
  then show ?thesis by (simp add: double_hyphen_def)
next
  case (Cons d ds)
  show ?thesis unfolding double_hyphen_def Cons
    by (auto simp: less_Suc_eq_0_disj)
qed

lemma hyphen_not_alnum: "\<not> lower_alpha CHR ''-''" "\<not> ascii_digit CHR ''-''"
  by (simp_all add: lower_alpha_def ascii_digit_def)

lemma label_scan_Inr_iff:
  "label_scan s b = Inr r \<longleftrightarrow> list_all label_char s \<and> \<not> double_hyphen s \<and> r = (b \<or> list_ex lower_alpha s)"
proof (induction s b rule: label_scan.induct)
  case (1 b)
  then show ?case by (auto simp: double_hyphen_def)
next
  case (2 c cs b)
  then show ?case
    using hyphen_not_alnum by (auto simp: double_hyphen_Cons label_char_def split: if_splits)
qed

lemma label_scan_Inl: "label_scan s b = Inl e \<Longrightarrow> e = CONSECUTIVE_HYPHENS \<or> e = INVALID_CHARACTER"
  by (induction s b rule: label_scan.induct) (auto split: if_splits)

definition label_syntax :: "string \<Rightarrow> bool" where
  "label_syntax s \<longleftrightarrow> 5 \<le> length s \<and> length s \<le> 32 \<and> list_all label_char s \<and> \<not> double_hyphen s
     \<and> hd s \<noteq> CHR ''-'' \<and> last s \<noteq> CHR ''-'' \<and> list_ex lower_alpha s"

lemma xn_double_hyphen: "take 4 s = ''xn--'' \<Longrightarrow> double_hyphen s"
proof -
  assume a: "take 4 s = ''xn--''"
  then have l: "4 \<le> length s" by (metis length_take list.size(3,4) min.cobounded1 One_nat_def Suc_eq_plus1 add_2_eq_Suc'
        numeral_Bit0 numeral_2_eq_2 add_Suc_shift plus_1_eq_Suc)
  have "s ! 2 = take 4 s ! 2" "s ! Suc 2 = take 4 s ! Suc 2" by simp_all
  then have "s ! 2 = CHR ''-''" "s ! Suc 2 = CHR ''-''" by (simp_all add: a)
  with l show ?thesis by (auto simp: double_hyphen_def intro!: exI [of _ 2])
qed

lemma ValidateNameLabel_iff:
  "ValidateNameLabel s = NONE \<longleftrightarrow> label_syntax s \<and> s \<notin> set RESERVED_NAMES"
  "ValidateNameLabel s = PROTECTED_NAME \<longleftrightarrow> label_syntax s \<and> s \<in> set RESERVED_NAMES"
proof -
  have "ValidateNameLabel s = (if label_syntax s then (if s \<in> set RESERVED_NAMES then PROTECTED_NAME else NONE)
      else ValidateNameLabel s)
    \<and> (\<not> label_syntax s \<longrightarrow> ValidateNameLabel s \<noteq> NONE \<and> ValidateNameLabel s \<noteq> PROTECTED_NAME)"
  proof (cases "label_scan s False")
    case (Inl e)
    then have "\<not> label_syntax s" using label_scan_Inr_iff [of s False] by (auto simp: label_syntax_def)
    with Inl label_scan_Inl [OF Inl] show ?thesis by (auto simp: ValidateNameLabel_def)
  next
    case (Inr b)
    then have b: "list_all label_char s \<and> \<not> double_hyphen s \<and> b = list_ex lower_alpha s"
      by (simp add: label_scan_Inr_iff)
    then have "take 4 s \<noteq> ''xn--''" using xn_double_hyphen by blast
    with Inr b show ?thesis
      by (auto simp: ValidateNameLabel_def label_syntax_def NAME_MIN_LABEL_LENGTH_def NAME_MAX_LABEL_LENGTH_def)
  qed
  then show "ValidateNameLabel s = NONE \<longleftrightarrow> label_syntax s \<and> s \<notin> set RESERVED_NAMES"
    "ValidateNameLabel s = PROTECTED_NAME \<longleftrightarrow> label_syntax s \<and> s \<in> set RESERVED_NAMES"
    by (auto split: if_splits)
qed


section \<open>Commitments and payloads\<close>

definition ComputeNameCommitment :: "crypto \<Rightarrow> hash256 \<Rightarrow> AccountId \<Rightarrow> string \<Rightarrow> hash256 \<Rightarrow> exn + hash256" where
  "ComputeNameCommitment C network_binding account_id label salt =
     Sha256_Finalize C (str ''CYBOU/NAME-COMMIT'' @ hash_bytes network_binding @ hash_bytes account_id
       @ [of_nat (length label)] @ str label @ hash_bytes salt)"

record NameCommitPayload =
  ncp_commitment :: hash256

definition SerializeNameCommitPayload :: "NameCommitPayload \<Rightarrow> bytes option" where
  "SerializeNameCommitPayload payload =
     (if ncp_commitment payload = 0 then None else Some (hash_bytes (ncp_commitment payload)))"

definition DeserializeNameCommitPayload :: "bytes \<Rightarrow> NameCommitPayload option" where
  "DeserializeNameCommitPayload bs =
     (if length bs \<noteq> 32 then None
      else let commitment = be_word bs in if commitment = 0 then None else Some \<lparr> ncp_commitment = commitment \<rparr>)"

definition ComputeNameCommitPayloadCommitment :: "crypto \<Rightarrow> NameCommitPayload \<Rightarrow> exn + hash256 option" where
  "ComputeNameCommitPayloadCommitment C payload =
     (case SerializeNameCommitPayload payload of None \<Rightarrow> Inr None
      | Some bs \<Rightarrow> bindE (Sha256_Finalize C (str ''CYBOU/NAME-COMMIT-PAYLOAD'' @ bs)) (\<lambda>h. Inr (Some h)))"

record AuthorizedNameCommit =
  anc_authorization :: IdentityOperationAuthorization
  anc_commit :: NameCommitPayload

record NameClaimWork =
  ncw_network_binding :: hash256
  ncw_account_id :: AccountId
  ncw_commitment :: hash256
  ncw_work_epoch :: u64
  ncw_nonce :: u64

definition NAME_CLAIM_WORK_SIZE :: nat where "NAME_CLAIM_WORK_SIZE = 112"
definition NAME_REVEAL_PAYLOAD_SIZE :: nat where "NAME_REVEAL_PAYLOAD_SIZE = 177"

definition SerializeNameClaimWork :: "NameClaimWork \<Rightarrow> bytes option" where
  "SerializeNameClaimWork work =
     (if ncw_network_binding work = 0 \<or> ncw_account_id work = 0 \<or> ncw_commitment work = 0 then None
      else Some (hash_bytes (ncw_network_binding work) @ hash_bytes (ncw_account_id work)
        @ hash_bytes (ncw_commitment work) @ le_bytes 8 (ncw_work_epoch work) @ le_bytes 8 (ncw_nonce work)))"

definition DeserializeNameClaimWork :: "bytes \<Rightarrow> NameClaimWork option" where
  "DeserializeNameClaimWork bs =
     (if length bs \<noteq> NAME_CLAIM_WORK_SIZE then None
      else case AccountId_FromBytes (subspan 32 32 bs) of None \<Rightarrow> None
        | Some acc \<Rightarrow>
          let work = \<lparr> ncw_network_binding = be_word (subspan 0 32 bs), ncw_account_id = acc,
                ncw_commitment = be_word (subspan 64 32 bs), ncw_work_epoch = le_word (subspan 96 8 bs),
                ncw_nonce = le_word (subspan 104 8 bs) \<rparr>
          in if ncw_network_binding work = 0 \<or> ncw_commitment work = 0 then None else Some work)"

definition ComputeNameClaimWorkHash :: "crypto \<Rightarrow> NameClaimWork \<Rightarrow> exn + hash256" where
  "ComputeNameClaimWorkHash C work =
     (case SerializeNameClaimWork work of None \<Rightarrow> Inr 0
      | Some bs \<Rightarrow> Sha256_Finalize C (str ''CYBOU/NAME-WORK'' @ bs))"

definition CheckNameClaimWork :: "crypto \<Rightarrow> NameClaimWork \<Rightarrow> u32 \<Rightarrow> exn + bool" where
  "CheckNameClaimWork C work required_bits =
     (if required_bits = 0 then Inr True
      else if required_bits > 256 then Inr False
      else bindE (ComputeNameClaimWorkHash C work)
        (\<lambda>h. Inr (leading_zero_bits (hash_bytes h) \<ge> unat required_bits)))"

record NameRevealPayload =
  nrp_label :: string
  nrp_salt :: hash256
  nrp_work :: NameClaimWork

definition SerializeNameRevealPayload :: "NameRevealPayload \<Rightarrow> bytes option" where
  "SerializeNameRevealPayload payload =
     (if length (nrp_label payload) < NAME_MIN_LABEL_LENGTH \<or> length (nrp_label payload) > NAME_MAX_LABEL_LENGTH then None
      else case SerializeNameClaimWork (nrp_work payload) of None \<Rightarrow> None
        | Some work_bytes \<Rightarrow>
          if nrp_salt payload = 0 then None
          else Some ([of_nat (length (nrp_label payload))] @ str (nrp_label payload)
            @ replicate (32 - length (nrp_label payload)) 0 @ hash_bytes (nrp_salt payload) @ work_bytes))"

definition DeserializeNameRevealPayload :: "bytes \<Rightarrow> NameRevealPayload option" where
  "DeserializeNameRevealPayload bs =
     (if length bs \<noteq> NAME_REVEAL_PAYLOAD_SIZE then None
      else let label_len = unat (bs ! 0) in
        if label_len < NAME_MIN_LABEL_LENGTH \<or> label_len > NAME_MAX_LABEL_LENGTH then None
        else if list_ex (\<lambda>i. bs ! i \<noteq> 0) [1 + label_len ..< 33] then None
        else let salt = be_word (subspan 33 32 bs) in
          if salt = 0 then None
          else case DeserializeNameClaimWork (subspan 65 NAME_CLAIM_WORK_SIZE bs) of None \<Rightarrow> None
            | Some work \<Rightarrow> Some \<lparr> nrp_label = string_of_bytes (subspan 1 label_len bs), nrp_salt = salt, nrp_work = work \<rparr>)"

definition ComputeNameRevealPayloadCommitment :: "crypto \<Rightarrow> NameRevealPayload \<Rightarrow> exn + hash256 option" where
  "ComputeNameRevealPayloadCommitment C payload =
     (case SerializeNameRevealPayload payload of None \<Rightarrow> Inr None
      | Some bs \<Rightarrow> bindE (Sha256_Finalize C (str ''CYBOU/NAME-REVEAL-PAYLOAD'' @ bs)) (\<lambda>h. Inr (Some h)))"

record AuthorizedNameReveal =
  anr_authorization :: IdentityOperationAuthorization
  anr_reveal :: NameRevealPayload

record NameCommitRecord =
  ncr_account_id :: AccountId
  ncr_commit_height :: u64

record NameRegistry =
  nr_names :: "(string, AccountId) omap"
  account_names :: "(AccountId, string) omap"
  pending_commits :: "(hash256, NameCommitRecord) omap"

definition Resolve :: "NameRegistry \<Rightarrow> string \<Rightarrow> AccountId option" where
  "Resolve reg label = map_find (nr_names reg) label"

definition PrimaryName :: "NameRegistry \<Rightarrow> AccountId \<Rightarrow> string option" where
  "PrimaryName reg a = map_find (account_names reg) a"

datatype NameCommitError = NONE | INVALID_PAYLOAD | INVALID_AUTHORIZATION | ACCOUNT_NOT_FOUND
  | ACCOUNT_ALREADY_HAS_NAME | ACCOUNT_HAS_PENDING_COMMIT | COMMITMENT_EXISTS | COMMITMENT_LIMIT_EXCEEDED

datatype NameRevealError = NONE | INVALID_PAYLOAD | INVALID_AUTHORIZATION | INVALID_LABEL_SYNTAX | ACCOUNT_NOT_FOUND
  | ACCOUNT_ALREADY_HAS_NAME | NAME_ALREADY_TAKEN | COMMITMENT_NOT_FOUND | COMMITMENT_ACCOUNT_MISMATCH
  | INSUFFICIENT_COMMIT_DEPTH | COMMIT_EXPIRED | INVALID_WORK_TARGET | INVALID_WORK_PROOF


section \<open>The payloads are canonical\<close>

interpretation ncommit: sized_codec SerializeNameCommitPayload DeserializeNameCommitPayload 32
  by unfold_locales
    (auto simp: SerializeNameCommitPayload_def DeserializeNameCommitPayload_def Let_def be_word_be_bytes
      be_bytes_be_word split: if_splits)

interpretation nwork: sized_codec SerializeNameClaimWork DeserializeNameClaimWork NAME_CLAIM_WORK_SIZE
proof unfold_locales
  fix a bs assume "SerializeNameClaimWork a = Some bs"
  then have nz: "ncw_network_binding a \<noteq> 0" "ncw_account_id a \<noteq> 0" "ncw_commitment a \<noteq> 0"
    and b: "bs = hash_bytes (ncw_network_binding a) @ hash_bytes (ncw_account_id a)
        @ hash_bytes (ncw_commitment a) @ le_bytes 8 (ncw_work_epoch a) @ le_bytes 8 (ncw_nonce a)"
    by (auto simp: SerializeNameClaimWork_def split: if_splits)
  show l: "length bs = NAME_CLAIM_WORK_SIZE" by (simp add: b NAME_CLAIM_WORK_SIZE_def)
  have f: "subspan 0 32 bs = hash_bytes (ncw_network_binding a)" "subspan 32 32 bs = hash_bytes (ncw_account_id a)"
    "subspan 64 32 bs = hash_bytes (ncw_commitment a)" "subspan 96 8 bs = le_bytes 8 (ncw_work_epoch a)"
    "subspan 104 8 bs = le_bytes 8 (ncw_nonce a)"
    unfolding b by (simp_all add: subspan_def)
  have "AccountId_FromBytes (hash_bytes (ncw_account_id a)) = Some (ncw_account_id a)"
    using nz by (simp add: AccountId_FromBytes_iff)
  then show "DeserializeNameClaimWork bs = Some a"
    unfolding DeserializeNameClaimWork_def f using l nz by (simp add: be_word_be_bytes le_word_le_bytes)
next
  fix a bs assume "DeserializeNameClaimWork bs = Some a"
  then obtain acc where l: "length bs = 112" and i: "AccountId_FromBytes (subspan 32 32 bs) = Some acc"
    and a: "a = \<lparr> ncw_network_binding = be_word (subspan 0 32 bs), ncw_account_id = acc,
                ncw_commitment = be_word (subspan 64 32 bs), ncw_work_epoch = le_word (subspan 96 8 bs),
                ncw_nonce = le_word (subspan 104 8 bs) \<rparr>"
    and nz: "ncw_network_binding a \<noteq> 0" "ncw_commitment a \<noteq> 0"
    by (auto simp: DeserializeNameClaimWork_def NAME_CLAIM_WORK_SIZE_def Let_def split: if_splits option.splits)
  have "acc \<noteq> 0" "hash_bytes acc = subspan 32 32 bs" using i by (simp_all add: AccountId_FromBytes_iff)
  moreover have "hash_bytes (be_word (subspan 0 32 bs)) = subspan 0 32 bs"
    "hash_bytes (be_word (subspan 64 32 bs)) = subspan 64 32 bs"
    "le_bytes 8 (le_word (subspan 96 8 bs) :: u64) = subspan 96 8 bs"
    "le_bytes 8 (le_word (subspan 104 8 bs) :: u64) = subspan 104 8 bs"
    using l by (simp_all add: be_bytes_be_word le_bytes_le_word length_subspan)
  moreover have "bs = subspan 0 32 bs @ subspan 32 32 bs @ subspan 64 32 bs @ subspan 96 8 bs @ subspan 104 8 bs"
    using l subspan_drop [of 0 32 bs] subspan_drop [of 32 32 bs] subspan_drop [of 64 32 bs] subspan_drop [of 96 8 bs]
      subspan_drop [of 104 8 bs] by simp
  ultimately show "SerializeNameClaimWork a = Some bs" using nz by (simp add: SerializeNameClaimWork_def a)
qed

lemma zero_span:
  assumes "\<not> list_ex (\<lambda>i. bs ! i \<noteq> 0) [a ..< b]" and "b \<le> length bs" and "a \<le> b"
  shows "subspan a (b - a) bs = replicate (b - a) 0"
  using assms by (intro nth_equalityI) (auto simp: subspan_def list_ex_iff)

lemma length_str_string_of_bytes [simp]: "length (string_of_bytes bs) = length bs"
  by (simp add: string_of_bytes_def)

interpretation nreveal: sized_codec SerializeNameRevealPayload DeserializeNameRevealPayload NAME_REVEAL_PAYLOAD_SIZE
proof unfold_locales
  fix a bs assume "SerializeNameRevealPayload a = Some bs"
  then obtain w where n: "5 \<le> length (nrp_label a)" "length (nrp_label a) \<le> 32"
    and w: "SerializeNameClaimWork (nrp_work a) = Some w" and nz: "nrp_salt a \<noteq> 0"
    and b: "bs = [of_nat (length (nrp_label a))] @ str (nrp_label a)
            @ replicate (32 - length (nrp_label a)) 0 @ hash_bytes (nrp_salt a) @ w"
    by (auto simp: SerializeNameRevealPayload_def NAME_MIN_LABEL_LENGTH_def NAME_MAX_LABEL_LENGTH_def
        split: if_splits option.splits)
  have lw: "length w = 112" using nwork.enc_size [OF w] by (simp add: NAME_CLAIM_WORK_SIZE_def)
  show l: "length bs = NAME_REVEAL_PAYLOAD_SIZE" using n lw by (simp add: b NAME_REVEAL_PAYLOAD_SIZE_def)
  have h: "unat (bs ! 0) = length (nrp_label a)" using n by (simp add: b unsigned_of_nat take_bit_nat_eq_self)
  have f: "subspan 1 (length (nrp_label a)) bs = str (nrp_label a)"
    "subspan 33 32 bs = hash_bytes (nrp_salt a)" "subspan 65 112 bs = w"
    unfolding b using n lw by (simp_all add: subspan_def)
  have "\<not> list_ex (\<lambda>i. bs ! i \<noteq> 0) [1 + length (nrp_label a) ..< 33]"
    unfolding b using n by (auto simp: list_ex_iff nth_append nth_Cons')
  then show "DeserializeNameRevealPayload bs = Some a"
    unfolding DeserializeNameRevealPayload_def h NAME_CLAIM_WORK_SIZE_def f using l n nz
    by (simp add: nwork.dec_enc [OF w] be_word_be_bytes NAME_MIN_LABEL_LENGTH_def NAME_MAX_LABEL_LENGTH_def f [unfolded One_nat_def])
next
  fix a bs assume "DeserializeNameRevealPayload bs = Some a"
  then obtain work where l: "length bs = 177" and n: "5 \<le> unat (bs ! 0)" "unat (bs ! 0) \<le> 32"
    and z: "\<not> list_ex (\<lambda>i. bs ! i \<noteq> 0) [1 + unat (bs ! 0) ..< 33]"
    and nz: "(be_word (subspan 33 32 bs) :: hash256) \<noteq> 0"
    and w: "DeserializeNameClaimWork (subspan 65 112 bs) = Some work"
    and a: "a = \<lparr> nrp_label = string_of_bytes (subspan 1 (unat (bs ! 0)) bs),
        nrp_salt = be_word (subspan 33 32 bs), nrp_work = work \<rparr>"
    by (auto simp: DeserializeNameRevealPayload_def NAME_REVEAL_PAYLOAD_SIZE_def Let_def NAME_MIN_LABEL_LENGTH_def
        NAME_MAX_LABEL_LENGTH_def NAME_CLAIM_WORK_SIZE_def not_less split: if_splits option.splits)
  let ?n = "unat (bs ! 0)"
  have pad: "subspan (1 + ?n) (32 - ?n) bs = replicate (32 - ?n) 0"
    using zero_span [OF z] l n by simp
  have "bs = bs ! 0 # subspan 1 ?n bs @ subspan (1 + ?n) (32 - ?n) bs @ subspan 33 32 bs @ subspan 65 112 bs"
    using l n nth_drop [of 0 bs] subspan_drop [of 1 ?n bs] subspan_drop [of "1 + ?n" "32 - ?n" bs]
      subspan_drop [of 33 32 bs] subspan_drop [of 65 112 bs] by simp
  moreover have "hash_bytes (be_word (subspan 33 32 bs)) = subspan 33 32 bs"
    using l by (simp add: be_bytes_be_word length_subspan)
  moreover have "length (subspan 1 ?n bs) = ?n" using l n by (intro length_subspan) simp
  ultimately show "SerializeNameRevealPayload a = Some bs"
    using nwork.enc_dec [OF w] n nz pad
    by (simp add: SerializeNameRevealPayload_def a NAME_MIN_LABEL_LENGTH_def NAME_MAX_LABEL_LENGTH_def)
qed


section \<open>The serialized registry\<close>

definition name_entry_bytes :: "string \<times> AccountId \<Rightarrow> bytes" where
  "name_entry_bytes = (\<lambda>(label, acc). [of_nat (length label)] @ str label @ hash_bytes acc)"

definition commit_entry_bytes :: "hash256 \<times> NameCommitRecord \<Rightarrow> bytes" where
  "commit_entry_bytes = (\<lambda>(commit, record). hash_bytes commit @ hash_bytes (ncr_account_id record)
     @ le_bytes 8 (ncr_commit_height record))"

definition SerializeNameRegistry :: "NameRegistry \<Rightarrow> bytes" where
  "SerializeNameRegistry reg =
     le_bytes 4 (of_nat (length (nr_names reg)) :: u32) @ concat (map name_entry_bytes (nr_names reg))
     @ le_bytes 4 (of_nat (length (pending_commits reg)) :: u32) @ concat (map commit_entry_bytes (pending_commits reg))"

fun read_names :: "nat \<Rightarrow> bytes \<Rightarrow> NameRegistry \<Rightarrow> (NameRegistry \<times> bytes) option" where
  "read_names 0 bs reg = Some (reg, bs)"
| "read_names (Suc n) bs reg =
     (case bs of [] \<Rightarrow> None
      | b # rest \<Rightarrow>
        let label_len = unat b in
        if label_len < NAME_MIN_LABEL_LENGTH \<or> label_len > NAME_MAX_LABEL_LENGTH \<or> label_len + 32 > length rest then None
        else let label = string_of_bytes (take label_len rest); validity = ValidateNameLabel label in
          if validity \<noteq> NameValidationError.NONE \<and> validity \<noteq> PROTECTED_NAME then None
          else case AccountId_FromBytes (subspan label_len 32 rest) of None \<Rightarrow> None
            | Some acc \<Rightarrow>
              if map_contains (nr_names reg) label \<or> map_contains (account_names reg) acc then None
              else read_names n (drop (label_len + 32) rest)
                (reg \<lparr> nr_names := map_emplace label acc (nr_names reg),
                       account_names := map_emplace acc label (account_names reg) \<rparr>))"

fun read_commits :: "nat \<Rightarrow> bytes \<Rightarrow> NameRegistry \<Rightarrow> NameRegistry option" where
  "read_commits 0 bs reg = Some reg"
| "read_commits (Suc n) bs reg =
     (let commit = (be_word (subspan 0 32 bs) :: hash256); height = le_word (subspan 64 8 bs) in
      case AccountId_FromBytes (subspan 32 32 bs) of None \<Rightarrow> None
      | Some acc \<Rightarrow>
        if commit = 0 \<or> map_contains (pending_commits reg) commit then None
        else read_commits n (drop 72 bs)
          (reg \<lparr> pending_commits := map_emplace commit \<lparr> ncr_account_id = acc, ncr_commit_height = height \<rparr>
                   (pending_commits reg) \<rparr>))"

definition DeserializeNameRegistry :: "bytes \<Rightarrow> NameRegistry option" where
  "DeserializeNameRegistry bs =
     (if length bs < 8 then None
      else let names_count = unat (le_word (take 4 bs) :: u32) in
        case read_names names_count (drop 4 bs) \<lparr> nr_names = [], account_names = [], pending_commits = [] \<rparr> of
          None \<Rightarrow> None
        | Some (reg, rest) \<Rightarrow>
          if length rest < 4 then None
          else let commit_count = unat (le_word (take 4 rest) :: u32); body = drop 4 rest in
            if length body \<noteq> commit_count * 72 then None
            else read_commits commit_count body reg)"

text \<open>A registry that can be written down: every entry well-formed and the two name maps inverse.\<close>

definition name_entry_ok :: "string \<times> AccountId \<Rightarrow> bool" where
  "name_entry_ok = (\<lambda>(label, acc). label_syntax label \<and> acc \<noteq> 0)"

definition names_ok :: "NameRegistry \<Rightarrow> bool" where
  "names_ok reg \<longleftrightarrow> omap_wf (nr_names reg) \<and> omap_wf (account_names reg) \<and> omap_wf (pending_commits reg)
     \<and> list_all name_entry_ok (nr_names reg)
     \<and> list_all (\<lambda>(label, acc). map_find (account_names reg) acc = Some label) (nr_names reg)
     \<and> list_all (\<lambda>(acc, label). map_find (nr_names reg) label = Some acc) (account_names reg)
     \<and> list_all (\<lambda>(commit, record). commit \<noteq> 0 \<and> ncr_account_id record \<noteq> 0) (pending_commits reg)
     \<and> length (nr_names reg) < 2 ^ 32 \<and> length (pending_commits reg) < 2 ^ 32"

lemma label_syntax_length: "label_syntax s \<Longrightarrow> 5 \<le> length s \<and> length s \<le> 32"
  by (simp add: label_syntax_def)

lemma read_name_entry:
  assumes "name_entry_ok (label, acc)" and "map_find (nr_names reg) label = None" and "map_find (account_names reg) acc = None"
  shows "read_names (Suc n) (name_entry_bytes (label, acc) @ rest) reg =
    read_names n rest (reg \<lparr> nr_names := map_emplace label acc (nr_names reg),
       account_names := map_emplace acc label (account_names reg) \<rparr>)"
proof -
  from assms(1) have l: "label_syntax label" "5 \<le> length label" "length label \<le> 32" and a: "acc \<noteq> 0"
    by (auto simp: name_entry_ok_def dest: label_syntax_length)
  have u: "unat (of_nat (length label) :: byte) = length label"
    using l by (simp add: unsigned_of_nat take_bit_nat_eq_self)
  have t: "subspan (length label) 32 (str label @ hash_bytes acc @ rest) = hash_bytes acc"
    by (simp add: subspan_def)
  have v: "ValidateNameLabel label = NameValidationError.NONE \<or> ValidateNameLabel label = PROTECTED_NAME"
    using l ValidateNameLabel_iff [of label] by blast
  have f: "AccountId_FromBytes (hash_bytes acc) = Some acc" using a by (simp add: AccountId_FromBytes_iff)
  show ?thesis using l u t v f assms(2,3)
    by (auto simp: name_entry_bytes_def Let_def NAME_MIN_LABEL_LENGTH_def NAME_MAX_LABEL_LENGTH_def map_contains_def)
qed

lemma read_names_entries:
  assumes "omap_wf (nr_names reg @ es)" and "list_all name_entry_ok es" and "distinct (map snd es)"
    and "\<forall>(l, a) \<in> set es. map_find (account_names reg) a = None" and "omap_wf (account_names reg)"
  shows "\<exists>reg'. read_names (length es) (concat (map name_entry_bytes es) @ rest) reg = Some (reg', rest)
    \<and> nr_names reg' = nr_names reg @ es \<and> pending_commits reg' = pending_commits reg \<and> omap_wf (account_names reg')
    \<and> (\<forall>a. map_find (account_names reg') a = (case map_of (map prod.swap es) a of Some l \<Rightarrow> Some l | None \<Rightarrow> map_find (account_names reg) a))"
  using assms
proof (induction es arbitrary: reg)
  case Nil
  then show ?case by simp
next
  case (Cons e es)
  obtain l a where e: "e = (l, a)" by (cases e)
  have w: "omap_wf (nr_names reg @ (l, a) # es)" using Cons.prems(1) e by simp
  note em = map_emplace_last [OF w]
  let ?reg = "reg \<lparr> nr_names := map_emplace l a (nr_names reg), account_names := map_emplace a l (account_names reg) \<rparr>"
  have "\<exists>reg'. read_names (length es) (concat (map name_entry_bytes es) @ rest) ?reg = Some (reg', rest)
    \<and> nr_names reg' = nr_names ?reg @ es \<and> pending_commits reg' = pending_commits ?reg \<and> omap_wf (account_names reg')
    \<and> (\<forall>b. map_find (account_names reg') b = (case map_of (map prod.swap es) b of Some l \<Rightarrow> Some l | None \<Rightarrow> map_find (account_names ?reg) b))"
  proof (rule Cons.IH)
    show "omap_wf (nr_names ?reg @ es)" using w em by simp
    show "\<forall>(l', b) \<in> set es. map_find (account_names ?reg) b = None"
    proof -
      have "b \<noteq> a" if "(l', b) \<in> set es" for l' b
        using Cons.prems(3) e image_eqI [of b snd "(l', b)" "set es"] that by auto
      then show ?thesis using Cons.prems(4) e by auto
    qed
  qed (use Cons.prems e in auto)
  then obtain reg' where r: "read_names (length es) (concat (map name_entry_bytes es) @ rest) ?reg = Some (reg', rest)"
    "nr_names reg' = nr_names ?reg @ es" "pending_commits reg' = pending_commits ?reg" "omap_wf (account_names reg')"
    "\<forall>b. map_find (account_names reg') b = (case map_of (map prod.swap es) b of Some l \<Rightarrow> Some l | None \<Rightarrow> map_find (account_names ?reg) b)"
    by blast
  have "read_names (length (e # es)) (concat (map name_entry_bytes (e # es)) @ rest) reg = Some (reg', rest)"
    using read_name_entry [of l a reg "length es" "concat (map name_entry_bytes es) @ rest"] Cons.prems(2,4) e em(1) r(1)
    by auto
  moreover have "map_of (map prod.swap es) a = None" using Cons.prems(3) e by (force simp: map_of_eq_None_iff)
  ultimately show ?case using r em Cons.prems(4) e by (intro exI [of _ reg']) (auto split: option.splits)
qed

lemma read_commits_entries:
  assumes "omap_wf (pending_commits reg @ es)"
    and "list_all (\<lambda>(commit, record). commit \<noteq> 0 \<and> ncr_account_id record \<noteq> 0) es"
  shows "read_commits (length es) (concat (map commit_entry_bytes es)) reg =
    Some (reg \<lparr> pending_commits := pending_commits reg @ es \<rparr>)"
  using assms
proof (induction es arbitrary: reg)
  case Nil
  then show ?case by simp
next
  case (Cons e es)
  obtain c r where e: "e = (c, r)" by (cases e)
  have w: "omap_wf (pending_commits reg @ (c, r) # es)" using Cons.prems(1) e by simp
  note em = map_emplace_last [OF w]
  let ?rest = "concat (map commit_entry_bytes es)"
  let ?bs = "hash_bytes c @ hash_bytes (ncr_account_id r) @ le_bytes 8 (ncr_commit_height r) @ ?rest"
  have f: "subspan 0 32 ?bs = hash_bytes c" "subspan 32 32 ?bs = hash_bytes (ncr_account_id r)"
    "subspan 64 8 ?bs = le_bytes 8 (ncr_commit_height r)" "drop 72 ?bs = ?rest"
    by (simp_all add: subspan_def)
  have surj: "\<lparr> ncr_account_id = ncr_account_id r, ncr_commit_height = ncr_commit_height r \<rparr> = r" by simp
  have "AccountId_FromBytes (hash_bytes (ncr_account_id r)) = Some (ncr_account_id r)"
    using Cons.prems(2) e by (simp add: AccountId_FromBytes_iff)
  then have "read_commits (Suc (length es)) ?bs reg =
      read_commits (length es) ?rest (reg \<lparr> pending_commits := pending_commits reg @ [(c, r)] \<rparr>)"
    using Cons.prems(2) e em
    by (simp only: read_commits.simps f Let_def) (simp add: be_word_be_bytes le_word_le_bytes map_contains_def surj)
  moreover have "read_commits (length es) ?rest (reg \<lparr> pending_commits := pending_commits reg @ [(c, r)] \<rparr>)
      = Some (reg \<lparr> pending_commits := pending_commits reg @ e # es \<rparr>)"
    using Cons.IH [of "reg \<lparr> pending_commits := pending_commits reg @ [(c, r)] \<rparr>"] Cons.prems e by simp
  ultimately show ?case by (simp add: e commit_entry_bytes_def)
qed

lemma length_commit_entries [simp]: "length (concat (map commit_entry_bytes es)) = 72 * length es"
  by (induction es) (auto simp: commit_entry_bytes_def)

lemma le_u32_roundtrip: "n < 2 ^ 32 \<Longrightarrow> unat (le_word (le_bytes 4 (of_nat n :: u32)) :: u32) = n"
  by (simp add: le_word_le_bytes unsigned_of_nat take_bit_nat_eq_self)

lemma case_option_id: "y = None \<Longrightarrow> (case x of None \<Rightarrow> y | Some l \<Rightarrow> Some l) = x"
  by (cases x) simp_all

text \<open>What is written is read back.\<close>

lemma name_registry_dec_enc:
  assumes ok: "names_ok reg"
  shows "DeserializeNameRegistry (SerializeNameRegistry reg) = Some reg"
proof -
  let ?ns = "nr_names reg" and ?cs = "pending_commits reg"
  let ?empty = "\<lparr> nr_names = [], account_names = [], pending_commits = [] \<rparr>"
  let ?tail = "le_bytes 4 (of_nat (length ?cs) :: u32) @ concat (map commit_entry_bytes ?cs)"
  have wf: "omap_wf ?ns" "omap_wf (account_names reg)" "omap_wf ?cs" and sz: "length ?ns < 2 ^ 32" "length ?cs < 2 ^ 32"
    and en: "list_all name_entry_ok ?ns"
    and co: "list_all (\<lambda>(commit, record). commit \<noteq> 0 \<and> ncr_account_id record \<noteq> 0) ?cs"
    and inv: "list_all (\<lambda>(label, acc). map_find (account_names reg) acc = Some label) ?ns"
      "list_all (\<lambda>(acc, label). map_find ?ns label = Some acc) (account_names reg)"
    using ok by (simp_all add: names_ok_def)
  have fw: "map_find ?ns l = Some a \<longleftrightarrow> map_find (account_names reg) a = Some l" for l a
    using inv unfolding list_all_omap [OF wf(1)] list_all_omap [OF wf(2)] prod.case by blast
  have bk: "map_find (account_names reg) a = Some l" if "(l, a) \<in> set ?ns" for l a
    using that fw wf(1) by (simp add: map_find_iff_set)
  have "distinct (map snd ?ns)"
  proof -
    have "l = l'" if "(l, a) \<in> set ?ns" "(l', a) \<in> set ?ns" for l l' a
      using bk [OF that(1)] bk [OF that(2)] by simp
    then show ?thesis using omap_wf_distinct [OF wf(1)] by (auto simp: distinct_map inj_on_def)
  qed
  then obtain reg' where r: "read_names (length ?ns) (concat (map name_entry_bytes ?ns) @ ?tail) ?empty = Some (reg', ?tail)"
    "nr_names reg' = ?ns" "pending_commits reg' = []" "omap_wf (account_names reg')"
    "\<And>a. map_find (account_names reg') a = map_of (map prod.swap ?ns) a"
    using read_names_entries [of ?empty ?ns ?tail] wf(1) en by (auto simp: case_option_id)
  have "map_of (map prod.swap ?ns) a = map_find (account_names reg) a" for a
  proof (cases "map_find (account_names reg) a")
    case None
    then show ?thesis using bk by (force simp: map_of_eq_None_iff)
  next
    case (Some l)
    then have "(l, a) \<in> set ?ns" using fw wf(1) by (simp add: map_find_iff_set)
    moreover have "distinct (map fst (map prod.swap ?ns))"
      using \<open>distinct (map snd ?ns)\<close> by (simp add: comp_def)
    ultimately show ?thesis using Some by (force intro!: map_of_is_SomeI)
  qed
  then have "account_names reg' = account_names reg"
    using r(4,5) wf(2) by (intro omap_eqI) simp_all
  then have reg': "reg' \<lparr> pending_commits := ?cs \<rparr> = reg" using r(2) by simp
  have "read_commits (length ?cs) (concat (map commit_entry_bytes ?cs)) reg' = Some reg"
    using read_commits_entries [of reg' ?cs] wf(3) co r(3) reg' by simp
  then show ?thesis
    using r(1) sz le_u32_roundtrip [OF sz(1)] le_u32_roundtrip [OF sz(2)]
    by (simp add: DeserializeNameRegistry_def SerializeNameRegistry_def Let_def)
qed

section \<open>Properties\<close>

text \<open>Label syntax. \<^verbatim>\<open>ValidateNameLabel\<close> accepts exactly the labels of 5 to 32 characters over lower-case letters, digits and
  hyphens that have a letter, no hyphen at either end and no two in a row, outside the reserved list; a reserved label of
  that syntax is reported as protected.\<close>

theorem name_label_exact:
  "(ValidateNameLabel s = NameValidationError.NONE \<longleftrightarrow> label_syntax s \<and> s \<notin> set RESERVED_NAMES)
   \<and> (ValidateNameLabel s = PROTECTED_NAME \<longleftrightarrow> label_syntax s \<and> s \<in> set RESERVED_NAMES)"
  using ValidateNameLabel_iff by blast

text \<open>The name registry is read back from its serialization, for every registry whose two name maps are inverse to each other
  and whose entries are well-formed.\<close>

theorem name_registry_roundtrip:
  assumes "names_ok reg"
  shows "DeserializeNameRegistry (SerializeNameRegistry reg) = Some reg"
  using assms by (rule name_registry_dec_enc)

definition two_names :: NameRegistry where
  "two_names = \<lparr> nr_names = [(''alice'', 7), (''robert'', 3)], account_names = [(3, ''robert''), (7, ''alice'')],
     pending_commits = [(9, \<lparr> ncr_account_id = 4, ncr_commit_height = 12 \<rparr>)] \<rparr>"

lemma two_names_ok: "names_ok two_names"
proof -
  have "ValidateNameLabel ''alice'' = NameValidationError.NONE" "ValidateNameLabel ''robert'' = NameValidationError.NONE" by code_simp+
  then have "label_syntax ''alice''" "label_syntax ''robert''" by (simp_all add: ValidateNameLabel_iff)
  moreover have "''alice'' < ''robert''" by code_simp
  ultimately show ?thesis by (simp add: names_ok_def two_names_def name_entry_ok_def)
qed

theorem name_registry_roundtrip_witness: "DeserializeNameRegistry (SerializeNameRegistry two_names) = Some two_names"
  by (rule name_registry_roundtrip [OF two_names_ok])

text \<open>The same registry written with its two entries exchanged.\<close>

definition two_names_swapped :: bytes where
  "two_names_swapped = le_bytes 4 (2 :: u32) @ name_entry_bytes (''robert'', 3) @ name_entry_bytes (''alice'', 7)
     @ le_bytes 4 (1 :: u32) @ commit_entry_bytes (9, \<lparr> ncr_account_id = 4, ncr_commit_height = 12 \<rparr>)"

text \<open>The serialized name registry is not canonical: \<^verbatim>\<open>DeserializeNameRegistry\<close> accepts entries in any order, so one registry
  has several accepted byte strings, of which only one is its serialization.\<close>

theorem name_registry_not_canonical:
  "DeserializeNameRegistry two_names_swapped = DeserializeNameRegistry (SerializeNameRegistry two_names)
   \<and> DeserializeNameRegistry two_names_swapped = Some two_names \<and> two_names_swapped \<noteq> SerializeNameRegistry two_names"
proof -
  have "DeserializeNameRegistry two_names_swapped = Some two_names" by code_simp
  moreover have "two_names_swapped \<noteq> SerializeNameRegistry two_names" by code_simp
  ultimately show ?thesis using name_registry_dec_enc [OF two_names_ok] by simp
qed

end
