(* ===== verification/State.thy ===== *)
theory State
  imports Names
begin

text \<open>
  The consensus state (\<^verbatim>\<open>state.h\<close>) and its monetary accounting (\<^verbatim>\<open>state.cpp\<close>): where the
  treasury balance lives, fee routing, debits of the system balance, and the total supply. A pointer into
  the state (\<^verbatim>\<open>uint64_t*\<close>) is a location of type \<open>treasury_loc\<close> that is read and written
  explicitly.
\<close>

section \<open>Data\<close>

record AccountState =
  balance :: u64
  system_balance :: u64
  onboarding_system_balance :: u64
  creation_height :: u64
  creation_epoch :: u64

record GenesisAllocation =
  ga_balance :: u64
  ga_label :: string
  ga_claimed_by :: "AccountId option"

record PublicationRecord =
  pub_owner :: AccountId
  pub_chunk_authorization_root :: ChunkId
  pub_chunk_count :: u32
  pub_height :: u64

record StorageAcceptedBinding =
  sab_storage_id :: StorageId
  sab_payout_account :: AccountId
  sab_key_epoch :: u64
  sab_accepted_height :: u64

record StorageAssignmentDeclaration =
  sad_operation_id :: hash256
  sad_epoch :: u64
  sad_height :: u64
  sad_eligible :: "StorageAcceptedBinding list"

record StorageAssignedUnits =
  sau_slot :: u8
  sau_storage_id :: StorageId
  sau_payout_account :: AccountId
  sau_units :: u32

record StorageAcceptedAssignment =
  saa_operation_id :: hash256
  saa_preparation_id :: hash256
  saa_seed :: hash256
  saa_epoch :: u64
  saa_effective_period :: u64
  saa_allocations :: "StorageAssignedUnits list"

record StorageServicePayment =
  ssp_slot :: u8
  ssp_storage_id :: StorageId
  ssp_payout_account :: AccountId
  ssp_verified_unit_seconds :: u64
  ssp_paid :: u64
  ssp_closed_epoch_capacity :: u64

record StorageFundedTerm =
  ft_funding_operation_id :: hash256
  ft_first_period :: u64
  ft_end_period :: u64
  ft_rate :: u64
  ft_period_seconds :: u64
  ft_replica_share :: u64
  ft_contracted_unit_seconds :: u64
  ft_initial_onboarding :: u64
  ft_initial_locked :: u64
  ft_paid_onboarding :: u64
  ft_paid_locked :: u64
  ft_next_assignment_epoch :: u64
  ft_declarations :: "StorageAssignmentDeclaration list"
  ft_assignments :: "StorageAcceptedAssignment list"
  ft_service_payments :: "StorageServicePayment list"
  ft_refunded_onboarding :: u64
  ft_refunded_locked :: u64

record StorageLeaseRecord =
  sl_payer :: AccountId
  sl_units :: u32
  sl_replicas :: u8
  sl_first_period :: u64
  sl_end_period :: u64
  sl_escrow_onboarding :: u64
  sl_escrow_locked :: u64
  sl_funded_terms :: "StorageFundedTerm list"

record StorageSettlementCursor =
  next_period :: u64
  next_period_start_utc :: u64

record CybouState =
  accounts :: "(AccountId, AccountState) omap"
  identities :: IdentityRegistry
  names :: NameRegistry
  genesis_allocations :: "(IdentityKeyId, GenesisAllocation) omap"
  publications :: "(hash256, PublicationRecord) omap"
  settlement :: StorageSettlementCursor
  leases :: "(hash256, StorageLeaseRecord) omap"

definition MAX_GENESIS_ALLOCATIONS :: nat where "MAX_GENESIS_ALLOCATIONS = 16"
definition MAX_STORAGE_LEASE_REPLICAS :: u8 where "MAX_STORAGE_LEASE_REPLICAS = 16"

text \<open>The maps of a state are \<^verbatim>\<open>std::map\<close>s.\<close>

definition maps_wf :: "CybouState \<Rightarrow> bool" where
  "maps_wf st \<longleftrightarrow> omap_wf (accounts st) \<and> omap_wf (genesis_allocations st) \<and> omap_wf (publications st)
     \<and> omap_wf (leases st) \<and> omap_wf (m_accounts (identities st)) \<and> omap_wf (m_recovery_index (identities st))
     \<and> omap_wf (nr_names (names st)) \<and> omap_wf (account_names (names st)) \<and> omap_wf (pending_commits (names st))"


section \<open>The treasury\<close>

text \<open>The unique genesis allocation labelled \<^verbatim>\<open>cybou\<close>; a second one makes the search fail.\<close>

definition FindCentralAuthorityAllocation :: "CybouState \<Rightarrow> (IdentityKeyId \<times> GenesisAllocation) option" where
  "FindCentralAuthorityAllocation st =
     (case filter (\<lambda>(rid, allocation). ga_label allocation = CENTRAL_AUTHORITY_NAME) (genesis_allocations st) of
        [p] \<Rightarrow> Some p
      | _ \<Rightarrow> None)"

datatype treasury_loc = AtAllocation IdentityKeyId | AtAccount AccountId

definition CentralAuthorityFeeBalance :: "CybouState \<Rightarrow> treasury_loc option" where
  "CentralAuthorityFeeBalance st =
     (case FindCentralAuthorityAllocation st of None \<Rightarrow> None
      | Some (rid, allocation) \<Rightarrow>
        (case ga_claimed_by allocation of None \<Rightarrow> Some (AtAllocation rid)
         | Some claimant \<Rightarrow>
           if \<not> map_contains (accounts st) claimant \<or> Registry_Find (identities st) claimant = None then None
           else if map_find (nr_names (names st)) (ga_label allocation) \<noteq> Some claimant
              \<or> map_find (account_names (names st)) claimant \<noteq> Some (ga_label allocation) then None
           else Some (AtAccount claimant)))"

definition loc_balance :: "CybouState \<Rightarrow> treasury_loc \<Rightarrow> u64" where
  "loc_balance st l = (case l of
     AtAllocation rid \<Rightarrow> (case map_find (genesis_allocations st) rid of None \<Rightarrow> 0 | Some a \<Rightarrow> ga_balance a)
   | AtAccount a \<Rightarrow> (case map_find (accounts st) a of None \<Rightarrow> 0 | Some acc \<Rightarrow> balance acc))"

definition loc_update :: "treasury_loc \<Rightarrow> (u64 \<Rightarrow> u64) \<Rightarrow> CybouState \<Rightarrow> CybouState" where
  "loc_update l f st = (case l of
     AtAllocation rid \<Rightarrow> st \<lparr> genesis_allocations :=
       map_adjust rid (\<lambda>a. a \<lparr> ga_balance := f (ga_balance a) \<rparr>) (genesis_allocations st) \<rparr>
   | AtAccount a \<Rightarrow> st \<lparr> accounts := map_adjust a (\<lambda>acc. acc \<lparr> balance := f (balance acc) \<rparr>) (accounts st) \<rparr>)"

text \<open>\<^verbatim>\<open>DebitSystemBalance\<close>: the onboarding part is spent first; it returns how much of it was spent.\<close>

definition DebitSystemBalance :: "AccountState \<Rightarrow> u64 \<Rightarrow> u64 \<times> AccountState" where
  "DebitSystemBalance account amount =
     (let onboarding = min (onboarding_system_balance account) amount in
      (onboarding, account \<lparr> onboarding_system_balance := onboarding_system_balance account - onboarding,
                             system_balance := system_balance account - amount \<rparr>))"

definition CanCreditCentralAuthorityFee :: "CybouState \<Rightarrow> u64 \<Rightarrow> bool" where
  "CanCreditCentralAuthorityFee st fee =
     (case CentralAuthorityFeeBalance st of None \<Rightarrow> False | Some l \<Rightarrow> loc_balance st l \<le> U64_MAX - fee)"

definition CreditCentralAuthorityFee :: "CybouState \<Rightarrow> u64 \<Rightarrow> bool \<times> CybouState" where
  "CreditCentralAuthorityFee st fee =
     (if \<not> CanCreditCentralAuthorityFee st fee then (False, st)
      else case CentralAuthorityFeeBalance st of None \<Rightarrow> (False, st)
        | Some l \<Rightarrow> (True, loc_update l (\<lambda>b. b + fee) st))"


section \<open>Total supply\<close>

text \<open>\<^verbatim>\<open>add\<close>: \<open>None\<close> when the sum would reach the reserved overflow value.\<close>

definition total_add :: "u64 \<Rightarrow> u64 \<Rightarrow> u64 option" where
  "total_add v t = (if v \<ge> U64_MAX - t then None else Some (t + v))"

fun total_values :: "u64 list \<Rightarrow> u64 \<Rightarrow> u64 option" where
  "total_values [] t = Some t"
| "total_values (v # vs) t = (case total_add v t of None \<Rightarrow> None | Some t' \<Rightarrow> total_values vs t')"

definition supply_values :: "CybouState \<Rightarrow> u64 list" where
  "supply_values st =
     concat (map (\<lambda>(id, a). if ga_claimed_by a \<noteq> None then [] else [ga_balance a]) (genesis_allocations st))
     @ concat (map (\<lambda>(id, a). [balance a, system_balance a]) (accounts st))
     @ concat (map (\<lambda>(id, l). [sl_escrow_onboarding l, sl_escrow_locked l]) (leases st))"

definition TotalCybou :: "CybouState \<Rightarrow> u64" where
  "TotalCybou st = (case total_values (supply_values st) 0 of None \<Rightarrow> U64_MAX | Some t \<Rightarrow> t)"

text \<open>The supply as an unbounded number.\<close>

definition alloc_value :: "GenesisAllocation \<Rightarrow> nat" where
  "alloc_value a = (if ga_claimed_by a \<noteq> None then 0 else unat (ga_balance a))"

definition account_value :: "AccountState \<Rightarrow> nat" where
  "account_value a = unat (balance a) + unat (system_balance a)"

definition lease_value :: "StorageLeaseRecord \<Rightarrow> nat" where
  "lease_value l = unat (sl_escrow_onboarding l) + unat (sl_escrow_locked l)"

definition money_supply :: "CybouState \<Rightarrow> nat" where
  "money_supply st = map_weigh alloc_value (genesis_allocations st) + map_weigh account_value (accounts st)
     + map_weigh lease_value (leases st)"

definition supply_bounded :: "CybouState \<Rightarrow> bool" where
  "supply_bounded st \<longleftrightarrow> money_supply st < 2 ^ 64 - 1"

lemma total_add_iff: "total_add v t = Some t' \<longleftrightarrow> unat t + unat v < 2 ^ 64 - 1 \<and> t' = t + v"
proof -
  have "unat (U64_MAX - t) = 2 ^ 64 - 1 - unat t"
    using unat_sub [of t U64_MAX] unat_U64_MAX by simp
  then have "v \<ge> U64_MAX - t \<longleftrightarrow> 2 ^ 64 - 1 \<le> unat t + unat v"
    using unat_lt64 [of t] by (auto simp: word_le_nat_alt)
  then show ?thesis by (auto simp: total_add_def)
qed

lemma total_values_iff:
  "total_values vs t = Some t' \<longleftrightarrow>
     (vs = [] \<and> t' = t) \<or> (vs \<noteq> [] \<and> unat t + sum_list (map unat vs) < 2 ^ 64 - 1 \<and> unat t' = unat t + sum_list (map unat vs))"
proof (induction vs arbitrary: t)
  case Nil
  then show ?case by auto
next
  case (Cons v vs)
  show ?case
  proof (cases "unat t + unat v < 2 ^ 64 - 1")
    case True
    then have "total_add v t = Some (t + v)" and u: "unat (t + v) = unat t + unat v"
      by (simp_all add: total_add_iff unat_add_fits)
    moreover have "t' = t + v \<longleftrightarrow> unat t' = unat t + unat v"
      using u unsigned_word_eqI [of t' "t + v", where 'a = nat] by auto
    ultimately show ?thesis using Cons.IH [of "t + v"] True by (cases "vs = []") (auto simp: add.assoc)
  next
    case False
    then have "total_add v t = None" by (cases "total_add v t") (auto simp: total_add_iff)
    with False show ?thesis by auto
  qed
qed

lemma sum_list_concat: "sum_list (map f (concat xss)) = sum_list (map (\<lambda>xs. sum_list (map f xs)) xss)"
  by (induction xss) auto

lemma supply_values_sum: "sum_list (map unat (supply_values st)) = money_supply st"
  by (simp add: supply_values_def money_supply_def map_weigh_def sum_list_concat comp_def split_def
      alloc_value_def account_value_def lease_value_def if_distrib [of "\<lambda>xs. sum_list (map unat xs)"] cong: if_cong)

lemma TotalCybou_exact: "unat (TotalCybou st) = (if supply_bounded st then money_supply st else 2 ^ 64 - 1)"
proof (cases "total_values (supply_values st) 0")
  case None
  then have "\<not> money_supply st < 2 ^ 64 - 1"
  proof (cases "supply_values st = []")
    case True
    with None show ?thesis by simp
  next
    case False
    show ?thesis
    proof
      assume "money_supply st < 2 ^ 64 - 1"
      then have "unat (of_nat (money_supply st) :: u64) = money_supply st"
        by (simp add: unsigned_of_nat take_bit_nat_eq_self)
      then have "total_values (supply_values st) 0 = Some (of_nat (money_supply st))"
        using False \<open>money_supply st < 2 ^ 64 - 1\<close> by (simp add: total_values_iff supply_values_sum)
      with None show False by simp
    qed
  qed
  with None show ?thesis by (simp add: TotalCybou_def supply_bounded_def unat_U64_MAX)
next
  case (Some t)
  then have "unat t = money_supply st \<and> money_supply st < 2 ^ 64 - 1"
    by (auto simp: total_values_iff supply_values_sum) (simp_all flip: supply_values_sum)
  with Some show ?thesis by (simp add: TotalCybou_def supply_bounded_def)
qed


section \<open>How updates change the supply\<close>

text \<open>A valid treasury location points at an existing entry that the supply counts.\<close>

lemma CentralAuthorityFeeBalance_cases:
  assumes "CentralAuthorityFeeBalance st = Some l" and "maps_wf st"
  obtains (alloc) rid a where "l = AtAllocation rid" "map_find (genesis_allocations st) rid = Some a"
      "ga_claimed_by a = None" "ga_label a = CENTRAL_AUTHORITY_NAME"
    | (account) c acc where "l = AtAccount c" "map_find (accounts st) c = Some acc"
proof -
  from assms(1) obtain rid a where f: "FindCentralAuthorityAllocation st = Some (rid, a)"
    by (auto simp: CentralAuthorityFeeBalance_def split: option.splits)
  then have "filter (\<lambda>(rid, allocation). ga_label allocation = CENTRAL_AUTHORITY_NAME) (genesis_allocations st) = [(rid, a)]"
    by (auto simp: FindCentralAuthorityAllocation_def split: list.splits)
  then have "(rid, a) \<in> set (genesis_allocations st)" "ga_label a = CENTRAL_AUTHORITY_NAME"
    by (auto dest: filter_eq_ConsD)
  then have fa: "map_find (genesis_allocations st) rid = Some a" using assms(2) by (simp add: map_find_iff_set maps_wf_def)
  show thesis
  proof (cases "ga_claimed_by a")
    case None
    with assms(1) f have "l = AtAllocation rid" by (simp add: CentralAuthorityFeeBalance_def)
    with alloc fa None \<open>ga_label a = CENTRAL_AUTHORITY_NAME\<close> show thesis by blast
  next
    case (Some c)
    with assms(1) f have "l = AtAccount c" "map_contains (accounts st) c"
      by (auto simp: CentralAuthorityFeeBalance_def split: if_splits)
    with account show thesis by (auto simp: map_contains_def)
  qed
qed

lemma FindCentralAuthorityAllocation_update [simp]:
  "FindCentralAuthorityAllocation (st \<lparr> accounts := x \<rparr>) = FindCentralAuthorityAllocation st"
  "FindCentralAuthorityAllocation (st \<lparr> identities := r \<rparr>) = FindCentralAuthorityAllocation st"
  "FindCentralAuthorityAllocation (st \<lparr> names := ns \<rparr>) = FindCentralAuthorityAllocation st"
  "FindCentralAuthorityAllocation (st \<lparr> leases := ls \<rparr>) = FindCentralAuthorityAllocation st"
  "FindCentralAuthorityAllocation (st \<lparr> publications := ps \<rparr>) = FindCentralAuthorityAllocation st"
  by (simp_all add: FindCentralAuthorityAllocation_def)

text \<open>Changing balances, nonces, leases or publications does not move the treasury.\<close>

lemma fee_loc_accounts [simp]:
  "CentralAuthorityFeeBalance (st \<lparr> accounts := map_adjust a f (accounts st) \<rparr>) = CentralAuthorityFeeBalance st"
  by (simp add: CentralAuthorityFeeBalance_def cong: option.case_cong prod.case_cong if_cong)

lemma fee_loc_leases [simp]:
  "CentralAuthorityFeeBalance (st \<lparr> leases := ls \<rparr>) = CentralAuthorityFeeBalance st"
  by (simp add: CentralAuthorityFeeBalance_def cong: option.case_cong prod.case_cong if_cong)

lemma fee_loc_publications [simp]:
  "CentralAuthorityFeeBalance (st \<lparr> publications := ps \<rparr>) = CentralAuthorityFeeBalance st"
  by (simp add: CentralAuthorityFeeBalance_def cong: option.case_cong prod.case_cong if_cong)

lemma fee_loc_identities:
  assumes "\<And>a. (map_find (m_accounts r) a = None) = (map_find (m_accounts (identities st)) a = None)"
  shows "CentralAuthorityFeeBalance (st \<lparr> identities := r \<rparr>) = CentralAuthorityFeeBalance st"
  using assms by (simp add: CentralAuthorityFeeBalance_def Registry_Find_def cong: option.case_cong prod.case_cong if_cong)

lemma loc_balance_update [simp]:
  "loc_balance (st \<lparr> identities := r \<rparr>) l = loc_balance st l"
  "loc_balance (st \<lparr> leases := ls \<rparr>) l = loc_balance st l"
  "loc_balance (st \<lparr> publications := ps \<rparr>) l = loc_balance st l"
  by (simp_all add: loc_balance_def split: treasury_loc.split)

lemma supply_other [simp]:
  "money_supply (st \<lparr> identities := r \<rparr>) = money_supply st"
  "money_supply (st \<lparr> names := ns \<rparr>) = money_supply st"
  "money_supply (st \<lparr> publications := ps \<rparr>) = money_supply st"
  "money_supply (st \<lparr> settlement := c \<rparr>) = money_supply st"
  by (simp_all add: money_supply_def)

lemma supply_adjust_account:
  "omap_wf (accounts st) \<Longrightarrow> map_find (accounts st) a = Some acc \<Longrightarrow>
   money_supply (st \<lparr> accounts := map_adjust a f (accounts st) \<rparr>) + account_value acc = money_supply st + account_value (f acc)"
  using om.weigh_adjust [of "accounts st" a acc account_value f] by (simp add: money_supply_def)

lemma supply_adjust_lease:
  "omap_wf (leases st) \<Longrightarrow> map_find (leases st) i = Some l \<Longrightarrow>
   money_supply (st \<lparr> leases := map_adjust i f (leases st) \<rparr>) + lease_value l = money_supply st + lease_value (f l)"
  using om.weigh_adjust [of "leases st" i l lease_value f] by (simp add: money_supply_def)

lemma supply_emplace_lease:
  "map_find (leases st) i = None \<Longrightarrow> money_supply (st \<lparr> leases := map_emplace i l (leases st) \<rparr>) = money_supply st + lease_value l"
  by (simp add: money_supply_def map_weigh_emplace)

lemma account_value_le: "map_find (accounts st) a = Some acc \<Longrightarrow> account_value acc \<le> money_supply st"
  using map_weigh_le [of "accounts st" a acc account_value] by (simp add: money_supply_def)

lemma supply_loc_update:
  assumes "CentralAuthorityFeeBalance st = Some l" and wf: "maps_wf st"
  shows "money_supply (loc_update l f st) + unat (loc_balance st l) = money_supply st + unat (f (loc_balance st l))"
  using assms
proof (cases rule: CentralAuthorityFeeBalance_cases)
  case (alloc rid a)
  then have "map_weigh alloc_value (map_adjust rid (\<lambda>a. a \<lparr> ga_balance := f (ga_balance a) \<rparr>) (genesis_allocations st))
      + unat (ga_balance a) = map_weigh alloc_value (genesis_allocations st) + unat (f (ga_balance a))"
    using om.weigh_adjust [of "genesis_allocations st" rid a alloc_value "\<lambda>a. a \<lparr> ga_balance := f (ga_balance a) \<rparr>"] wf
    by (simp add: maps_wf_def alloc_value_def)
  with alloc show ?thesis by (simp add: loc_update_def loc_balance_def money_supply_def)
next
  case (account c acc)
  have "money_supply (st \<lparr> accounts := map_adjust c (\<lambda>acc. acc \<lparr> balance := f (balance acc) \<rparr>) (accounts st) \<rparr>)
      + account_value acc = money_supply st + account_value (acc \<lparr> balance := f (balance acc) \<rparr>)"
    using account wf by (intro supply_adjust_account) (simp_all add: maps_wf_def)
  with account show ?thesis by (simp add: loc_update_def loc_balance_def account_value_def)
qed

lemma maps_wf_update [simp]:
  "maps_wf st \<Longrightarrow> maps_wf (st \<lparr> accounts := map_adjust a f (accounts st) \<rparr>)"
  "maps_wf st \<Longrightarrow> maps_wf (st \<lparr> leases := map_adjust i g (leases st) \<rparr>)"
  "maps_wf st \<Longrightarrow> maps_wf (st \<lparr> leases := map_emplace i lr (leases st) \<rparr>)"
  "maps_wf st \<Longrightarrow> maps_wf (st \<lparr> publications := map_erase i (publications st) \<rparr>)"
  "maps_wf st \<Longrightarrow> maps_wf (st \<lparr> publications := map_emplace i pr (publications st) \<rparr>)"
  by (simp_all add: maps_wf_def)

lemma maps_wf_loc_update [simp]: "maps_wf st \<Longrightarrow> maps_wf (loc_update l f st)"
  by (simp add: loc_update_def maps_wf_def split: treasury_loc.split)

text \<open>A fee that may be credited is credited in full.\<close>

lemma CreditCentralAuthorityFee_supply:
  assumes "CanCreditCentralAuthorityFee st fee" and "maps_wf st"
  shows "fst (CreditCentralAuthorityFee st fee)"
    and "money_supply (snd (CreditCentralAuthorityFee st fee)) = money_supply st + unat fee"
    and "maps_wf (snd (CreditCentralAuthorityFee st fee))"
proof -
  from assms(1) obtain l where l: "CentralAuthorityFeeBalance st = Some l" "loc_balance st l \<le> U64_MAX - fee"
    by (auto simp: CanCreditCentralAuthorityFee_def split: option.splits)
  then have c: "CreditCentralAuthorityFee st fee = (True, loc_update l (\<lambda>b. b + fee) st)"
    using assms(1) by (simp add: CreditCentralAuthorityFee_def)
  show "fst (CreditCentralAuthorityFee st fee)" by (simp add: c)
  show "maps_wf (snd (CreditCentralAuthorityFee st fee))" using assms(2) by (simp add: c)
  show "money_supply (snd (CreditCentralAuthorityFee st fee)) = money_supply st + unat fee"
    using supply_loc_update [OF l(1) assms(2), of "\<lambda>b. b + fee"] l(2) by (simp add: c unat_add_checked)
qed

lemma DebitSystemBalance_value:
  "amount \<le> system_balance acc \<Longrightarrow> account_value (snd (DebitSystemBalance acc amount)) + unat amount = account_value acc"
  by (simp add: DebitSystemBalance_def Let_def account_value_def unat_sub word_le_nat_alt)

lemma DebitSystemBalance_fields [simp]:
  "balance (snd (DebitSystemBalance acc amount)) = balance acc"
  "system_balance (snd (DebitSystemBalance acc amount)) = system_balance acc - amount"
  "fst (DebitSystemBalance acc amount) = min (onboarding_system_balance acc) amount"
  by (simp_all add: DebitSystemBalance_def Let_def)

section \<open>Properties\<close>

text \<open>C38. The 64-bit supply counter is exact: \<^verbatim>\<open>TotalCybou\<close> is the true sum of all balances, unclaimed allocations and escrows when
  that sum is below the reserved overflow value, and the overflow value otherwise; it never wraps.\<close>

theorem total_cybou_exact:
  "unat (TotalCybou st) = (if money_supply st < 2 ^ 64 - 1 then money_supply st else 2 ^ 64 - 1)"
  using TotalCybou_exact [of st] unfolding supply_bounded_def .

end
