(* ===== verification/Payloads.thy ===== *)
theory Payloads
  imports State
begin

text \<open>
  The payloads of the identity-authorized operations: \<^verbatim>\<open>PaymentPayload\<close>, \<^verbatim>\<open>SystemLockPayload\<close>
  (\<^verbatim>\<open>payment.h/.cpp\<close>), \<^verbatim>\<open>RootPublication\<close> and \<^verbatim>\<open>RevokePublicationPayload\<close>
  (\<^verbatim>\<open>root_publication.h/.cpp\<close>) and \<^verbatim>\<open>StorageLeasePayload\<close> (\<^verbatim>\<open>storage_lease.h/.cpp\<close>),
  with their wire formats, commitments and the publication fee. Every format is an interpretation of
  \<open>codec\<close>.
\<close>

section \<open>Payment and SystemLock\<close>

record PaymentPayload =
  pay_recipient :: AccountId
  pay_amount :: u64

record AuthorizedPayment =
  ap_authorization :: IdentityOperationAuthorization
  ap_payment :: PaymentPayload

record SystemLockPayload =
  lock_amount :: u64

record AuthorizedSystemLock =
  asl_authorization :: IdentityOperationAuthorization
  asl_lock :: SystemLockPayload

datatype PaymentError = NONE | INVALID_PAYLOAD | INVALID_AUTHORIZATION | SENDER_NOT_FOUND | RECIPIENT_NOT_FOUND
  | SELF_PAYMENT | ZERO_AMOUNT | INSUFFICIENT_BALANCE | INSUFFICIENT_SYSTEM_BALANCE | RECIPIENT_OVERFLOW
  | FEE_TRANSFER_FAILED | INCONSISTENT_STATE

datatype SystemLockError = NONE | INVALID_PAYLOAD | INVALID_AUTHORIZATION | ACCOUNT_NOT_FOUND | ZERO_AMOUNT
  | INSUFFICIENT_BALANCE | SYSTEM_BALANCE_OVERFLOW | INCONSISTENT_STATE

definition PAYMENT_PAYLOAD_SIZE :: nat where "PAYMENT_PAYLOAD_SIZE = 40"
definition SYSTEM_LOCK_PAYLOAD_SIZE :: nat where "SYSTEM_LOCK_PAYLOAD_SIZE = 8"

definition SerializePaymentPayload :: "PaymentPayload \<Rightarrow> bytes option" where
  "SerializePaymentPayload payment =
     (if pay_recipient payment = 0 \<or> pay_amount payment = 0 then None
      else Some (hash_bytes (pay_recipient payment) @ le_bytes 8 (pay_amount payment)))"

definition DeserializePaymentPayload :: "bytes \<Rightarrow> PaymentPayload option" where
  "DeserializePaymentPayload bs =
     (if length bs \<noteq> PAYMENT_PAYLOAD_SIZE then None
      else case AccountId_FromBytes (subspan 0 32 bs) of None \<Rightarrow> None
        | Some recipient \<Rightarrow>
          let amount = le_word (subspan 32 8 bs) in
          if amount = 0 then None else Some \<lparr> pay_recipient = recipient, pay_amount = amount \<rparr>)"

definition ComputePaymentPayloadCommitment :: "crypto \<Rightarrow> PaymentPayload \<Rightarrow> IdentityKeyId option" where
  "ComputePaymentPayloadCommitment C payment =
     (case SerializePaymentPayload payment of None \<Rightarrow> None
      | Some bs \<Rightarrow> ComputeSha256 C [str ''CYBOU/PAYMENT-PAYLOAD'', bs])"

definition SerializeSystemLockPayload :: "SystemLockPayload \<Rightarrow> bytes option" where
  "SerializeSystemLockPayload lock = (if lock_amount lock = 0 then None else Some (le_bytes 8 (lock_amount lock)))"

definition DeserializeSystemLockPayload :: "bytes \<Rightarrow> SystemLockPayload option" where
  "DeserializeSystemLockPayload bs =
     (if length bs \<noteq> SYSTEM_LOCK_PAYLOAD_SIZE then None
      else let amount = le_word bs in if amount = 0 then None else Some \<lparr> lock_amount = amount \<rparr>)"

definition ComputeSystemLockPayloadCommitment :: "crypto \<Rightarrow> SystemLockPayload \<Rightarrow> IdentityKeyId option" where
  "ComputeSystemLockPayloadCommitment C lock =
     (case SerializeSystemLockPayload lock of None \<Rightarrow> None
      | Some bs \<Rightarrow> ComputeSha256 C [str ''CYBOU/SYSTEM-LOCK-PAYLOAD'', bs])"

interpretation pay: sized_codec SerializePaymentPayload DeserializePaymentPayload PAYMENT_PAYLOAD_SIZE
proof unfold_locales
  fix a bs assume "SerializePaymentPayload a = Some bs"
  then have nz: "pay_recipient a \<noteq> 0" "pay_amount a \<noteq> 0"
    and b: "bs = hash_bytes (pay_recipient a) @ le_bytes 8 (pay_amount a)"
    by (auto simp: SerializePaymentPayload_def split: if_splits)
  show "length bs = PAYMENT_PAYLOAD_SIZE" by (simp add: b PAYMENT_PAYLOAD_SIZE_def)
  have "AccountId_FromBytes (subspan 0 32 bs) = Some (pay_recipient a)" "subspan 32 8 bs = le_bytes 8 (pay_amount a)"
    using nz by (simp_all add: b subspan_def AccountId_FromBytes_iff)
  then show "DeserializePaymentPayload bs = Some a"
    using nz by (simp add: DeserializePaymentPayload_def b PAYMENT_PAYLOAD_SIZE_def le_word_le_bytes)
next
  fix a bs assume "DeserializePaymentPayload bs = Some a"
  then obtain r where l: "length bs = 40" and r: "AccountId_FromBytes (subspan 0 32 bs) = Some r"
    and nz: "(le_word (subspan 32 8 bs) :: u64) \<noteq> 0" and a: "a = \<lparr> pay_recipient = r, pay_amount = le_word (subspan 32 8 bs) \<rparr>"
    by (auto simp: DeserializePaymentPayload_def PAYMENT_PAYLOAD_SIZE_def Let_def split: if_splits option.splits)
  have "le_bytes 8 (le_word (subspan 32 8 bs) :: u64) = subspan 32 8 bs" "bs = subspan 0 32 bs @ subspan 32 8 bs"
    using l subspan_drop [of 0 32 bs] subspan_drop [of 32 8 bs] by (simp_all add: le_bytes_le_word length_subspan)
  then show "SerializePaymentPayload a = Some bs" using r nz by (simp add: SerializePaymentPayload_def a AccountId_FromBytes_iff)
qed

interpretation slock: sized_codec SerializeSystemLockPayload DeserializeSystemLockPayload SYSTEM_LOCK_PAYLOAD_SIZE
  by unfold_locales
    (auto simp: SerializeSystemLockPayload_def DeserializeSystemLockPayload_def SYSTEM_LOCK_PAYLOAD_SIZE_def Let_def
      le_word_le_bytes le_bytes_le_word split: if_splits)


section \<open>RootPublication\<close>

record RootRecipientCapsule =
  cap_kem_profile :: u16
  cap_key_epoch :: u64
  cap_encapsulation :: "8960 word"
  cap_wrapped_content_key :: "480 word"

record RootPublication =
  rp_root_chunk_id :: ChunkId
  rp_chunk_authorization_root :: ChunkId
  rp_chunk_count :: u32
  rp_lease_periods :: u32
  rp_recipient_capsules :: "RootRecipientCapsule list"

record AuthorizedRootPublication =
  arp_authorization :: IdentityOperationAuthorization
  arp_publication :: RootPublication

record RevokePublicationPayload =
  rev_publication_id :: hash256

record AuthorizedRevokePublication =
  arv_authorization :: IdentityOperationAuthorization
  arv_revoke :: RevokePublicationPayload

datatype RootPublicationError = NONE | INVALID_PAYLOAD | INVALID_AUTHORIZATION | SENDER_NOT_FOUND
  | INSUFFICIENT_SYSTEM_BALANCE | FEE_TRANSFER_FAILED

datatype RevokePublicationError = NONE | INVALID_PAYLOAD | INVALID_AUTHORIZATION | SENDER_NOT_FOUND
  | PUBLICATION_NOT_FOUND | NOT_OWNER | INSUFFICIENT_SYSTEM_BALANCE | FEE_TRANSFER_FAILED

definition ROOT_PUBLICATION_MAX_BYTES :: nat where "ROOT_PUBLICATION_MAX_BYTES = 128 * 1024"
definition ROOT_PUBLICATION_MAX_OPERATION_BYTES :: nat where "ROOT_PUBLICATION_MAX_OPERATION_BYTES = 144 * 1024"
definition ROOT_PUBLICATION_MAX_CAPSULES :: nat where "ROOT_PUBLICATION_MAX_CAPSULES = 32"
definition REVOKE_PUBLICATION_PAYLOAD_SIZE :: nat where "REVOKE_PUBLICATION_PAYLOAD_SIZE = 32"

definition IsValidPublication :: "RootPublication \<Rightarrow> bool" where
  "IsValidPublication p \<longleftrightarrow>
     \<not> (rp_root_chunk_id p = 0 \<or> rp_chunk_authorization_root p = 0 \<or> rp_chunk_count p = 0
        \<or> rp_recipient_capsules p = [] \<or> length (rp_recipient_capsules p) > ROOT_PUBLICATION_MAX_CAPSULES)
     \<and> list_all (\<lambda>c. cap_kem_profile c = IDENTITY_KEM_PROFILE_XWING) (rp_recipient_capsules p)"

text \<open>The two loops over the capsules and the \<^verbatim>\<open>BinaryWriter\<close>/\<^verbatim>\<open>BinaryReader\<close> code around them.\<close>

definition write_capsule :: "nat \<Rightarrow> RootRecipientCapsule \<Rightarrow> bytes \<Rightarrow> exn + bytes" where
  "write_capsule limit c out =
     bindE (writer_UInt limit 2 (cap_kem_profile c) out) (\<lambda>out.
     bindE (writer_UInt limit 8 (cap_key_epoch c) out) (\<lambda>out.
     bindE (writer_Fixed limit (be_bytes 1120 (cap_encapsulation c)) out)
       (writer_Fixed limit (be_bytes 60 (cap_wrapped_content_key c)))))"

fun write_capsules :: "nat \<Rightarrow> RootRecipientCapsule list \<Rightarrow> bytes \<Rightarrow> exn + bytes" where
  "write_capsules limit [] out = Inr out"
| "write_capsules limit (c # cs) out = bindE (write_capsule limit c out) (write_capsules limit cs)"

definition SerializeRootPublication :: "RootPublication \<Rightarrow> bytes option" where
  "SerializeRootPublication p =
     (if \<not> IsValidPublication p then None
      else let limit = ROOT_PUBLICATION_MAX_BYTES in catch_none (
        bindE (writer_Fixed limit (hash_bytes (rp_root_chunk_id p)) []) (\<lambda>out.
        bindE (writer_Fixed limit (hash_bytes (rp_chunk_authorization_root p)) out) (\<lambda>out.
        bindE (writer_UInt limit 4 (rp_chunk_count p) out) (\<lambda>out.
        bindE (writer_UInt limit 4 (rp_lease_periods p) out) (\<lambda>out.
        bindE (writer_UInt limit 2 (of_nat (length (rp_recipient_capsules p)) :: u16) out)
          (write_capsules limit (rp_recipient_capsules p))))))))"

definition read_capsule :: "bytes \<Rightarrow> exn + (RootRecipientCapsule \<times> bytes)" where
  "read_capsule bs =
     bindE (reader_U16 bs) (\<lambda>(prof, bs). bindE (reader_U64 bs) (\<lambda>(ep, bs).
     bindE (reader_Array 1120 bs) (\<lambda>(enc, bs). bindE (reader_Array 60 bs) (\<lambda>(key, bs).
       Inr (\<lparr> cap_kem_profile = prof, cap_key_epoch = ep, cap_encapsulation = enc, cap_wrapped_content_key = key \<rparr>, bs)))))"

fun read_capsules :: "nat \<Rightarrow> bytes \<Rightarrow> exn + (RootRecipientCapsule list \<times> bytes)" where
  "read_capsules 0 bs = Inr ([], bs)"
| "read_capsules (Suc n) bs = bindE (read_capsule bs) (\<lambda>(c, bs). bindE (read_capsules n bs) (\<lambda>(cs, bs). Inr (c # cs, bs)))"

definition DeserializeRootPublication :: "bytes \<Rightarrow> RootPublication option" where
  "DeserializeRootPublication bs =
     Option.bind (catch_none (
       bindE (reader_open ROOT_PUBLICATION_MAX_BYTES bs) (\<lambda>bs. bindE (reader_Array 32 bs) (\<lambda>(root, bs).
       bindE (reader_Array 32 bs) (\<lambda>(auth, bs). bindE (reader_U32 bs) (\<lambda>(chunks, bs).
       bindE (reader_U32 bs) (\<lambda>(periods, bs). bindE (reader_U16 bs) (\<lambda>(count, bs).
         if count = 0 \<or> unat count > ROOT_PUBLICATION_MAX_CAPSULES then Inr None
         else bindE (read_capsules (unat count) bs) (\<lambda>(cs, bs). bindE (reader_Finish bs) (\<lambda>_.
           let p = \<lparr> rp_root_chunk_id = root, rp_chunk_authorization_root = auth, rp_chunk_count = chunks,
                     rp_lease_periods = periods, rp_recipient_capsules = cs \<rparr>
           in Inr (if IsValidPublication p then Some p else None))))))))))) (\<lambda>r. r)"

definition ComputeRootPublicationFee :: "CybouProtocolParameters \<Rightarrow> nat \<Rightarrow> u32 \<Rightarrow> u64 option" where
  "ComputeRootPublicationFee params canonical_operation_bytes chunk_count =
     (if canonical_operation_bytes = 0 \<or> canonical_operation_bytes > ROOT_PUBLICATION_MAX_OPERATION_BYTES
         \<or> chunk_count = 0 \<or> unat chunk_count > MAX_PUBLICATION_CHUNKS then None
      else let kib = of_nat ((canonical_operation_bytes + 1023) div 1024) :: u64;
               per_kib = root_publication_fee_per_started_kib params;
               per_chunk = root_publication_fee_per_chunk params
        in if per_kib \<noteq> 0 \<and> kib > U64_MAX div per_kib then None
           else if per_chunk \<noteq> 0 \<and> ucast chunk_count > U64_MAX div per_chunk then None
           else let byte_fee = kib * per_kib; chunk_fee = ucast chunk_count * per_chunk
             in if chunk_fee > U64_MAX - byte_fee then None else Some (byte_fee + chunk_fee))"

definition ComputeRootPublicationPayloadCommitment :: "crypto \<Rightarrow> RootPublication \<Rightarrow> IdentityKeyId option" where
  "ComputeRootPublicationPayloadCommitment C p =
     (case SerializeRootPublication p of None \<Rightarrow> None
      | Some bs \<Rightarrow> ComputeSha256 C [str ''CYBOU/ROOT-PUBLICATION/P4'', bs])"

definition SerializeRevokePublicationPayload :: "RevokePublicationPayload \<Rightarrow> bytes option" where
  "SerializeRevokePublicationPayload revoke =
     (if rev_publication_id revoke = 0 then None else Some (hash_bytes (rev_publication_id revoke)))"

definition DeserializeRevokePublicationPayload :: "bytes \<Rightarrow> RevokePublicationPayload option" where
  "DeserializeRevokePublicationPayload bs =
     (if length bs \<noteq> REVOKE_PUBLICATION_PAYLOAD_SIZE then None
      else let revoke = \<lparr> rev_publication_id = be_word bs \<rparr> in
        if rev_publication_id revoke = 0 then None else Some revoke)"

definition ComputeRevokePublicationPayloadCommitment :: "crypto \<Rightarrow> RevokePublicationPayload \<Rightarrow> IdentityKeyId option" where
  "ComputeRevokePublicationPayloadCommitment C revoke =
     (case SerializeRevokePublicationPayload revoke of None \<Rightarrow> None
      | Some bs \<Rightarrow> ComputeSha256 C [str ''CYBOU/REVOKE-PUBLICATION-PAYLOAD'', bs])"


section \<open>StorageLease\<close>

record StorageLeasePayload =
  slp_publication_id :: hash256
  slp_periods :: u32

record AuthorizedStorageLease =
  asle_authorization :: IdentityOperationAuthorization
  asle_lease :: StorageLeasePayload

datatype StorageLeaseError = NONE | INVALID_PAYLOAD | INVALID_AUTHORIZATION | SENDER_NOT_FOUND
  | PUBLICATION_NOT_FOUND | NOT_OWNER | INSUFFICIENT_SYSTEM_BALANCE | FEE_TRANSFER_FAILED | ESCROW_OVERFLOW

definition STORAGE_LEASE_PAYLOAD_SIZE :: nat where "STORAGE_LEASE_PAYLOAD_SIZE = 36"

definition SerializeStorageLeasePayload :: "StorageLeasePayload \<Rightarrow> bytes option" where
  "SerializeStorageLeasePayload lease =
     (if slp_publication_id lease = 0 \<or> slp_periods lease = 0 then None
      else Some (hash_bytes (slp_publication_id lease) @ le_bytes 4 (slp_periods lease)))"

definition DeserializeStorageLeasePayload :: "bytes \<Rightarrow> StorageLeasePayload option" where
  "DeserializeStorageLeasePayload bs =
     (if length bs \<noteq> STORAGE_LEASE_PAYLOAD_SIZE then None
      else let lease = \<lparr> slp_publication_id = be_word (subspan 0 32 bs), slp_periods = le_word (subspan 32 4 bs) \<rparr> in
        if SerializeStorageLeasePayload lease = None then None else Some lease)"

definition ComputeStorageLeasePayloadCommitment :: "crypto \<Rightarrow> StorageLeasePayload \<Rightarrow> IdentityKeyId option" where
  "ComputeStorageLeasePayloadCommitment C lease =
     (case SerializeStorageLeasePayload lease of None \<Rightarrow> None
      | Some bs \<Rightarrow> ComputeSha256 C [str ''CYBOU/STORAGE-LEASE-PAYLOAD'', bs])"


section \<open>The payloads are canonical\<close>

interpretation revoke: sized_codec SerializeRevokePublicationPayload DeserializeRevokePublicationPayload REVOKE_PUBLICATION_PAYLOAD_SIZE
  by unfold_locales
    (auto simp: SerializeRevokePublicationPayload_def DeserializeRevokePublicationPayload_def
      REVOKE_PUBLICATION_PAYLOAD_SIZE_def Let_def be_word_be_bytes be_bytes_be_word split: if_splits)

interpretation slease: sized_codec SerializeStorageLeasePayload DeserializeStorageLeasePayload STORAGE_LEASE_PAYLOAD_SIZE
proof unfold_locales
  fix a bs assume s: "SerializeStorageLeasePayload a = Some bs"
  then have b: "bs = hash_bytes (slp_publication_id a) @ le_bytes 4 (slp_periods a)"
    by (auto simp: SerializeStorageLeasePayload_def split: if_splits)
  then have "subspan 0 32 bs = hash_bytes (slp_publication_id a)" "subspan 32 4 bs = le_bytes 4 (slp_periods a)"
    by (simp_all add: subspan_def)
  then show "DeserializeStorageLeasePayload bs = Some a" using s
    by (cases a) (simp add: DeserializeStorageLeasePayload_def STORAGE_LEASE_PAYLOAD_SIZE_def Let_def be_word_be_bytes
        le_word_le_bytes b)
  show "length bs = STORAGE_LEASE_PAYLOAD_SIZE" by (simp add: b STORAGE_LEASE_PAYLOAD_SIZE_def)
next
  fix a bs assume "DeserializeStorageLeasePayload bs = Some a"
  then have l: "length bs = 36" and a: "a = \<lparr> slp_publication_id = be_word (subspan 0 32 bs), slp_periods = le_word (subspan 32 4 bs) \<rparr>"
    and s: "SerializeStorageLeasePayload a \<noteq> None"
    by (auto simp: DeserializeStorageLeasePayload_def STORAGE_LEASE_PAYLOAD_SIZE_def Let_def split: if_splits)
  have "hash_bytes (be_word (subspan 0 32 bs)) = subspan 0 32 bs" "le_bytes 4 (le_word (subspan 32 4 bs) :: u32) = subspan 32 4 bs"
    "bs = subspan 0 32 bs @ subspan 32 4 bs"
    using l subspan_drop [of 0 32 bs] subspan_drop [of 32 4 bs]
    by (simp_all add: be_bytes_be_word le_bytes_le_word length_subspan)
  then show "SerializeStorageLeasePayload a = Some bs" using s
    by (auto simp: SerializeStorageLeasePayload_def a split: if_splits)
qed

lemmas reader_Enc_iff = reader_Array_iff [where 'a = 8960 and n = 1120, simplified]
lemmas reader_Key_iff = reader_Array_iff [where 'a = 480 and n = 60, simplified]

definition capsule_bytes :: "RootRecipientCapsule \<Rightarrow> bytes" where
  "capsule_bytes c = le_bytes 2 (cap_kem_profile c) @ le_bytes 8 (cap_key_epoch c)
     @ be_bytes 1120 (cap_encapsulation c) @ be_bytes 60 (cap_wrapped_content_key c)"

lemma length_capsule_bytes [simp]: "length (capsule_bytes c) = 1190"
  by (simp add: capsule_bytes_def)

lemma length_capsules_bytes [simp]: "length (concat (map capsule_bytes cs)) = 1190 * length cs"
  by (induction cs) simp_all

lemma write_capsule_eq: "length out + 1190 \<le> limit \<Longrightarrow> write_capsule limit c out = Inr (out @ capsule_bytes c)"
  by (auto simp: write_capsule_def writer_UInt_def writer_Fixed_def capsule_bytes_def)

lemma write_capsules_eq:
  "length out + 1190 * length cs \<le> limit \<Longrightarrow> write_capsules limit cs out = Inr (out @ concat (map capsule_bytes cs))"
  by (induction cs arbitrary: out) (simp_all add: write_capsule_eq)

lemma read_capsule_iff: "read_capsule bs = Inr (c, r) \<longleftrightarrow> bs = capsule_bytes c @ r"
  by (cases c) (auto simp: read_capsule_def bindE_Inr_iff reader_iffs reader_Enc_iff reader_Key_iff capsule_bytes_def)

lemma read_capsules_iff:
  "read_capsules n bs = Inr (cs, r) \<longleftrightarrow> length cs = n \<and> bs = concat (map capsule_bytes cs) @ r"
proof (induction n arbitrary: bs cs)
  case 0
  then show ?case by auto
next
  case (Suc n)
  show ?case
    by (cases cs) (auto simp: bindE_Inr_iff read_capsule_iff Suc.IH)
qed

text \<open>32 capsules fit the limit, so the writer never throws.\<close>

definition publication_bytes :: "RootPublication \<Rightarrow> bytes" where
  "publication_bytes p = hash_bytes (rp_root_chunk_id p) @ hash_bytes (rp_chunk_authorization_root p)
     @ le_bytes 4 (rp_chunk_count p) @ le_bytes 4 (rp_lease_periods p)
     @ le_bytes 2 (of_nat (length (rp_recipient_capsules p)) :: u16) @ concat (map capsule_bytes (rp_recipient_capsules p))"

lemma SerializeRootPublication_eq:
  "SerializeRootPublication p = (if IsValidPublication p then Some (publication_bytes p) else None)"
proof (cases "IsValidPublication p")
  case True
  then have "length (rp_recipient_capsules p) \<le> 32" by (simp add: IsValidPublication_def ROOT_PUBLICATION_MAX_CAPSULES_def)
  with True show ?thesis
    by (simp add: SerializeRootPublication_def ROOT_PUBLICATION_MAX_BYTES_def writer_Fixed_def writer_UInt_def
        write_capsules_eq publication_bytes_def)
qed (simp add: SerializeRootPublication_def)

lemma length_publication_bytes: "length (publication_bytes p) = 74 + 1190 * length (rp_recipient_capsules p)"
  by (simp add: publication_bytes_def)

lemma DeserializeRootPublication_iff:
  "DeserializeRootPublication bs = Some p \<longleftrightarrow> IsValidPublication p \<and> bs = publication_bytes p"
proof
  assume "DeserializeRootPublication bs = Some p"
  then obtain count :: u16 where "IsValidPublication p" "length (rp_recipient_capsules p) = unat count"
    "bs = hash_bytes (rp_root_chunk_id p) @ hash_bytes (rp_chunk_authorization_root p)
     @ le_bytes 4 (rp_chunk_count p) @ le_bytes 4 (rp_lease_periods p) @ le_bytes 2 count
     @ concat (map capsule_bytes (rp_recipient_capsules p))"
    by (auto simp: DeserializeRootPublication_def Option.bind_eq_Some_conv catch_none_def bindE_Inr_iff reader_iffs
        read_capsules_iff Let_def split: sum.splits if_splits)
  then show "IsValidPublication p \<and> bs = publication_bytes p" by (simp add: publication_bytes_def)
next
  assume p: "IsValidPublication p \<and> bs = publication_bytes p"
  let ?n = "length (rp_recipient_capsules p)" and ?c = "concat (map capsule_bytes (rp_recipient_capsules p))"
  from p have n: "?n \<noteq> 0" "?n \<le> 32" by (auto simp: IsValidPublication_def ROOT_PUBLICATION_MAX_CAPSULES_def)
  then have u: "unat (of_nat ?n :: u16) = ?n" by (simp add: unsigned_of_nat take_bit_nat_eq_self)
  then have z: "(of_nat ?n :: u16) \<noteq> 0" using n by auto
  have o: "reader_open ROOT_PUBLICATION_MAX_BYTES bs = Inr bs"
    using p n by (simp add: reader_open_def length_publication_bytes ROOT_PUBLICATION_MAX_BYTES_def)
  have r: "reader_Array 32 bs = Inr (rp_root_chunk_id p, drop 32 bs)"
    "reader_Array 32 (drop 32 bs) = Inr (rp_chunk_authorization_root p, drop 64 bs)"
    "reader_U32 (drop 64 bs) = Inr (rp_chunk_count p, drop 68 bs)"
    "reader_U32 (drop 68 bs) = Inr (rp_lease_periods p, drop 72 bs)"
    "reader_U16 (drop 72 bs) = Inr (of_nat ?n, ?c)"
    using p by (simp_all add: reader_iffs publication_bytes_def)
  have rebuild: "\<lparr> rp_root_chunk_id = rp_root_chunk_id p, rp_chunk_authorization_root = rp_chunk_authorization_root p,
      rp_chunk_count = rp_chunk_count p, rp_lease_periods = rp_lease_periods p,
      rp_recipient_capsules = rp_recipient_capsules p \<rparr> = p" by simp
  have "read_capsules ?n ?c = Inr (rp_recipient_capsules p, [])" by (simp add: read_capsules_iff)
  then show "DeserializeRootPublication bs = Some p"
    using conjunct1 [OF p] n by (simp add: DeserializeRootPublication_def o r u z ROOT_PUBLICATION_MAX_CAPSULES_def reader_Finish_def
        rebuild)
qed

interpretation rootpub: codec SerializeRootPublication DeserializeRootPublication
  by unfold_locales (auto simp: SerializeRootPublication_eq DeserializeRootPublication_iff split: if_splits)


section \<open>The publication fee\<close>

definition publication_fee :: "CybouProtocolParameters \<Rightarrow> nat \<Rightarrow> nat \<Rightarrow> nat" where
  "publication_fee params n chunks = ceil_div n 1024 * unat (root_publication_fee_per_started_kib params)
     + chunks * unat (root_publication_fee_per_chunk params)"

lemma ceil_div_kib: "ceil_div n 1024 = (n + 1023) div 1024"
proof -
  have "(q * 1024 + r + 1023) div 1024 = q + (if r \<noteq> 0 then 1 else 0)" if "r < 1024" for q r :: nat
    using that by (cases "r = 0") (simp_all add: div_nat_eqI)
  from this [of "n mod 1024" "n div 1024"] show ?thesis by (simp add: ceil_div_def)
qed

lemma checked_mul_u64: "b \<noteq> 0 \<and> a > U64_MAX div b \<longleftrightarrow> \<not> unat a * unat b < 2 ^ 64" for a b :: u64
  using CheckedMul_None_iff [of b a] by (auto simp: CheckedMul_def mult.commute split: if_splits)

lemma ComputeRootPublicationFee_iff:
  "ComputeRootPublicationFee params n chunks = Some fee \<longleftrightarrow>
     0 < n \<and> n \<le> 147456 \<and> chunks \<noteq> 0 \<and> unat chunks \<le> 2 ^ 20
     \<and> publication_fee params n (unat chunks) < 2 ^ 64 \<and> unat fee = publication_fee params n (unat chunks)"
proof (cases "0 < n \<and> n \<le> 147456 \<and> chunks \<noteq> 0 \<and> unat chunks \<le> 2 ^ 20")
  case False
  then show ?thesis
    by (auto simp: ComputeRootPublicationFee_def ROOT_PUBLICATION_MAX_OPERATION_BYTES_def MAX_PUBLICATION_CHUNKS_def)
next
  case True
  define kib :: u64 where "kib = of_nat ((n + 1023) div 1024)"
  let ?k = "root_publication_fee_per_started_kib params" and ?c = "root_publication_fee_per_chunk params"
  have "(n + 1023) div 1024 \<le> (147456 + 1023) div 1024" using True by (intro div_le_mono) simp
  then have k: "unat kib = ceil_div n 1024"
    by (simp add: kib_def ceil_div_kib unsigned_of_nat take_bit_nat_eq_self)
  have u: "unat (ucast chunks :: u64) = unat chunks"
    by (simp add: unsigned_ucast_eq take_bit_nat_eq_self unsigned_less [THEN less_trans])
  have f: "publication_fee params n (unat chunks) = unat kib * unat ?k + unat (ucast chunks :: u64) * unat ?c"
    by (simp add: publication_fee_def k u)
  have e: "ComputeRootPublicationFee params n chunks =
     (if \<not> unat kib * unat ?k < 2 ^ 64 then None else if \<not> unat (ucast chunks :: u64) * unat ?c < 2 ^ 64 then None
      else if ucast chunks * ?c > U64_MAX - kib * ?k then None else Some (kib * ?k + ucast chunks * ?c))"
    using True unfolding ComputeRootPublicationFee_def Let_def checked_mul_u64 kib_def [symmetric]
    by (simp add: ROOT_PUBLICATION_MAX_OPERATION_BYTES_def MAX_PUBLICATION_CHUNKS_def)
  show ?thesis
  proof (cases "unat kib * unat ?k < 2 ^ 64 \<and> unat (ucast chunks :: u64) * unat ?c < 2 ^ 64")
    case False
    with True f show ?thesis unfolding e by auto
  next
    case True2: True
    then have m: "unat (kib * ?k) = unat kib * unat ?k" "unat (ucast chunks * ?c) = unat (ucast chunks :: u64) * unat ?c"
      by (simp_all add: unat_mult_fits)
    have fits: "\<not> ucast chunks * ?c > U64_MAX - kib * ?k \<longleftrightarrow> publication_fee params n (unat chunks) < 2 ^ 64"
      unfolding not_less le_max_minus_iff f m by (simp only: add.commute) simp
    show ?thesis
    proof (cases "publication_fee params n (unat chunks) < 2 ^ 64")
      case False
      then have "ComputeRootPublicationFee params n chunks = None" using fits by (simp only: e) simp
      with False show ?thesis by simp
    next
      case fit: True
      then have u: "unat (kib * ?k + ucast chunks * ?c) = publication_fee params n (unat chunks)"
        by (simp add: unat_add_fits m f)
      have "ComputeRootPublicationFee params n chunks = Some (kib * ?k + ucast chunks * ?c)"
        using fit fits True2 by (simp only: e) simp
      moreover have "fee = kib * ?k + ucast chunks * ?c \<longleftrightarrow> unat fee = publication_fee params n (unat chunks)"
        using u unsigned_word_eqI [of fee "kib * ?k + ucast chunks * ?c", where 'a = nat] by auto
      ultimately show ?thesis using True fit by auto
    qed
  qed
qed

section \<open>Properties\<close>

text \<open>The fee of a publication: per started KiB of the operation and per chunk, refused when the size or the number of chunks is
  out of range or the sum does not fit 64 bits.\<close>

theorem publication_fee_exact:
  "ComputeRootPublicationFee params n chunks = Some fee \<longleftrightarrow>
     0 < n \<and> n \<le> 147456 \<and> chunks \<noteq> 0 \<and> unat chunks \<le> 2 ^ 20
     \<and> (n + 1023) div 1024 * unat (root_publication_fee_per_started_kib params)
         + unat chunks * unat (root_publication_fee_per_chunk params) < 2 ^ 64
     \<and> unat fee = (n + 1023) div 1024 * unat (root_publication_fee_per_started_kib params)
         + unat chunks * unat (root_publication_fee_per_chunk params)"
  using ComputeRootPublicationFee_iff [of params n chunks fee] unfolding publication_fee_def ceil_div_kib .

text \<open>Publications have one encoding: a byte string decodes to a publication exactly when it is what that publication
  serializes to. Truncated, padded and out-of-range inputs are refused.\<close>

theorem publication_codec_exact: "DeserializeRootPublication bs = Some p \<longleftrightarrow> SerializeRootPublication p = Some bs"
  using rootpub.dec_enc rootpub.enc_dec by blast

end
