(* ===== verification/Merkle.thy ===== *)
theory Merkle
  imports Payloads
begin

unbundle bit_operations_syntax

text \<open>
  Chunk authorization (\<^verbatim>\<open>chunk_authorization.h/.cpp\<close>): the Merkle tree over the chunk identifiers of a
  publication, the streaming accumulator, inclusion proofs and their verification. The theory shows that
  the accumulator computes the root of the tree, that every proof of the tree verifies, and that a path
  that verifies proves membership unless the hash collides on the strings involved.
\<close>

section \<open>Hashing\<close>

definition leaf_preimage :: "ChunkId \<Rightarrow> bytes" where
  "leaf_preimage i = str ''CYBOU/CHUNK-AUTH/LEAF'' @ hash_bytes i"

definition node_preimage :: "ChunkId \<Rightarrow> ChunkId \<Rightarrow> bytes" where
  "node_preimage l r = str ''CYBOU/CHUNK-AUTH/NODE'' @ hash_bytes l @ hash_bytes r"

definition HashLeaf :: "crypto \<Rightarrow> ChunkId \<Rightarrow> ChunkId" where
  "HashLeaf C i = blake3 C (leaf_preimage i)"

definition HashNode :: "crypto \<Rightarrow> ChunkId \<Rightarrow> ChunkId \<Rightarrow> ChunkId" where
  "HashNode C l r = blake3 C (node_preimage l r)"

definition ValidChunkSet :: "ChunkId list \<Rightarrow> bool" where
  "ValidChunkSet chunks \<longleftrightarrow> \<not> (chunks = [] \<or> length chunks > MAX_PUBLICATION_CHUNKS) \<and> list_all (\<lambda>c. c \<noteq> 0) chunks"


section \<open>The full tree\<close>

fun next_level :: "crypto \<Rightarrow> ChunkId list \<Rightarrow> ChunkId list" where
  "next_level C [] = []"
| "next_level C [x] = [HashNode C x x]"
| "next_level C (x # y # r) = HashNode C x y # next_level C r"

lemma length_next_level [simp]: "length (next_level C xs) = (length xs + 1) div 2"
  by (induction C xs rule: next_level.induct) simp_all

function build_levels :: "crypto \<Rightarrow> ChunkId list \<Rightarrow> ChunkId list list" where
  "build_levels C xs = (if length xs > 1 then xs # build_levels C (next_level C xs) else [xs])"
  by pat_completeness auto

termination by (relation "measure (\<lambda>(C, xs). length xs)") auto

declare build_levels.simps [simp del]

record ChunkAuthorizationTree =
  tree_root :: ChunkId
  tree_chunk_count :: u32
  m_levels :: "ChunkId list list"

definition BuildChunkAuthorizationTree :: "crypto \<Rightarrow> ChunkId list \<Rightarrow> ChunkAuthorizationTree option" where
  "BuildChunkAuthorizationTree C chunks =
     (if \<not> ValidChunkSet chunks then None
      else if \<not> distinct chunks then None
      else let levels = build_levels C (map (HashLeaf C) chunks) in
        Some \<lparr> tree_root = hd (last levels), tree_chunk_count = of_nat (length chunks), m_levels = levels \<rparr>)"

record ChunkAuthorizationProof =
  cap_leaf_index :: u32
  cap_siblings :: "ChunkId list"

text \<open>The loop of \<^verbatim>\<open>ChunkAuthorizationTree::Proof\<close> over the levels.\<close>

fun proof_siblings :: "ChunkId list list \<Rightarrow> nat \<Rightarrow> nat \<Rightarrow> ChunkId list" where
  "proof_siblings [] index width = []"
| "proof_siblings (level # levels) index width =
     (if width > 1 then
        let sibling = index XOR 1 in
        level ! (if sibling < width then sibling else index) # proof_siblings levels (index div 2) ((width + 1) div 2)
      else [])"

definition Proof :: "ChunkAuthorizationTree \<Rightarrow> u32 \<Rightarrow> exn + ChunkAuthorizationProof" where
  "Proof tree leaf_index =
     (if leaf_index \<ge> tree_chunk_count tree then Inl out_of_range
      else Inr \<lparr> cap_leaf_index = leaf_index,
             cap_siblings = proof_siblings (m_levels tree) (unat leaf_index) (unat (tree_chunk_count tree)) \<rparr>)"


section \<open>Verification of a path\<close>

fun verify_walk :: "crypto \<Rightarrow> nat \<Rightarrow> nat \<Rightarrow> ChunkId list \<Rightarrow> ChunkId \<Rightarrow> ChunkId option" where
  "verify_walk C index width [] current = (if width > 1 then None else Some current)"
| "verify_walk C index width (sibling # siblings) current =
     (if width > 1 then
        if odd index then verify_walk C (index div 2) ((width + 1) div 2) siblings (HashNode C sibling current)
        else if index + 1 \<ge> width then
          (if sibling \<noteq> current then None
           else verify_walk C (index div 2) ((width + 1) div 2) siblings (HashNode C current sibling))
        else verify_walk C (index div 2) ((width + 1) div 2) siblings (HashNode C current sibling)
      else None)"

definition VerifyChunkAuthorizationPath :: "crypto \<Rightarrow> ChunkId \<Rightarrow> ChunkId \<Rightarrow> u32 \<Rightarrow> u32 \<Rightarrow> ChunkId list \<Rightarrow> bool" where
  "VerifyChunkAuthorizationPath C expected_root chunk_id leaf_index chunk_count siblings =
     (if chunk_count = 0 \<or> leaf_index \<ge> chunk_count \<or> chunk_id = 0 \<or> length siblings > 32 then False
      else verify_walk C (unat leaf_index) (unat chunk_count) siblings (HashLeaf C chunk_id) = Some expected_root)"

definition VerifyChunkAuthorizationProof :: "crypto \<Rightarrow> RootPublication \<Rightarrow> ChunkId \<Rightarrow> ChunkAuthorizationProof \<Rightarrow> bool" where
  "VerifyChunkAuthorizationProof C publication chunk_id proof =
     (if rp_chunk_count publication = 0 \<or> cap_leaf_index proof \<ge> rp_chunk_count publication \<or> chunk_id = 0 then False
      else VerifyChunkAuthorizationPath C (rp_chunk_authorization_root publication) chunk_id (cap_leaf_index proof)
             (rp_chunk_count publication) (cap_siblings proof))"


section \<open>The streaming accumulator\<close>

record ChunkAuthorizationAccumulator =
  m_frontier :: "ChunkId option list"
  m_chunk_count :: u32
  m_failed :: bool

definition new_accumulator :: ChunkAuthorizationAccumulator where
  "new_accumulator = \<lparr> m_frontier = replicate 32 None, m_chunk_count = 0, m_failed = False \<rparr>"

text \<open>The carry loop of \<^verbatim>\<open>Add\<close>; it runs off the end when all levels are occupied.\<close>

fun push_carry :: "crypto \<Rightarrow> ChunkId option list \<Rightarrow> ChunkId \<Rightarrow> bool \<times> ChunkId option list" where
  "push_carry C [] carry = (False, [])"
| "push_carry C (None # levels) carry = (True, Some carry # levels)"
| "push_carry C (Some x # levels) carry =
     (let (ok, levels') = push_carry C levels (HashNode C x carry) in (ok, None # levels'))"

definition Accumulator_Add :: "crypto \<Rightarrow> ChunkAuthorizationAccumulator \<Rightarrow> ChunkId \<Rightarrow> bool \<times> ChunkAuthorizationAccumulator" where
  "Accumulator_Add C a chunk =
     (if m_failed a \<or> unat (m_chunk_count a) \<ge> MAX_PUBLICATION_CHUNKS \<or> chunk = 0 then (False, a \<lparr> m_failed := True \<rparr>)
      else let (ok, frontier) = push_carry C (m_frontier a) (HashLeaf C chunk) in
        if \<not> ok then (False, a \<lparr> m_frontier := frontier, m_failed := True \<rparr>)
        else (True, a \<lparr> m_frontier := frontier, m_chunk_count := m_chunk_count a + 1 \<rparr>))"

text \<open>\<^verbatim>\<open>while (root_level < level)\<close> raises the pending root by hashing it with itself.\<close>

fun raise_root :: "crypto \<Rightarrow> nat \<Rightarrow> ChunkId \<Rightarrow> ChunkId" where
  "raise_root C 0 r = r"
| "raise_root C (Suc n) r = raise_root C n (HashNode C r r)"

fun finish_levels :: "crypto \<Rightarrow> ChunkId option list \<Rightarrow> nat \<Rightarrow> (ChunkId \<times> nat) option \<Rightarrow> ChunkId option" where
  "finish_levels C [] level root = map_option fst root"
| "finish_levels C (None # levels) level root = finish_levels C levels (level + 1) root"
| "finish_levels C (Some x # levels) level None = finish_levels C levels (level + 1) (Some (x, level))"
| "finish_levels C (Some x # levels) level (Some (r, root_level)) =
     finish_levels C levels (level + 1) (Some (HashNode C x (raise_root C (level - root_level) r), level + 1))"

definition Accumulator_Finish :: "crypto \<Rightarrow> ChunkAuthorizationAccumulator \<Rightarrow> (ChunkId \<times> u32) option" where
  "Accumulator_Finish C a =
     (if m_failed a \<or> m_chunk_count a = 0 then None
      else case finish_levels C (m_frontier a) 0 None of None \<Rightarrow> None
        | Some root \<Rightarrow> Some (root, m_chunk_count a))"

text \<open>Feeding a list of chunks, stopping at the first refusal.\<close>

fun Accumulator_Feed :: "crypto \<Rightarrow> ChunkAuthorizationAccumulator \<Rightarrow> ChunkId list \<Rightarrow> bool \<times> ChunkAuthorizationAccumulator" where
  "Accumulator_Feed C a [] = (True, a)"
| "Accumulator_Feed C a (c # cs) =
     (let (ok, a') = Accumulator_Add C a c in if ok then Accumulator_Feed C a' cs else (False, a'))"


section \<open>The accumulator computes the root of the tree\<close>

definition level_root :: "crypto \<Rightarrow> ChunkId list \<Rightarrow> ChunkId" where
  "level_root C xs = hd (last (build_levels C xs))"

lemma build_levels_nonempty [simp]: "build_levels C xs \<noteq> []"
  by (subst build_levels.simps) simp

lemma level_root_single [simp]: "level_root C [x] = x"
  by (simp add: level_root_def build_levels.simps)

lemma level_root_step: "length xs > 1 \<Longrightarrow> level_root C xs = level_root C (next_level C xs)"
  unfolding level_root_def by (subst build_levels.simps) simp

lemma next_level_Nil [simp]: "next_level C xs = [] \<longleftrightarrow> xs = []"
  by (cases "(C, xs)" rule: next_level.cases) auto

lemma next_level_append: "even (length xs) \<Longrightarrow> next_level C (xs @ ys) = next_level C xs @ next_level C ys"
  by (induction C xs rule: next_level.induct) simp_all

text \<open>
  The frontier is the binary decomposition of the list of hashes seen so far: an occupied level holds the
  last, unpaired hash of that level.
\<close>

fun frontier_of :: "crypto \<Rightarrow> ChunkId option list \<Rightarrow> ChunkId list \<Rightarrow> bool" where
  "frontier_of C [] xs \<longleftrightarrow> xs = []"
| "frontier_of C (None # f) xs \<longleftrightarrow> even (length xs) \<and> frontier_of C f (next_level C xs)"
| "frontier_of C (Some y # f) xs \<longleftrightarrow>
     (\<exists>zs. xs = zs @ [y] \<and> even (length zs) \<and> frontier_of C f (next_level C zs))"

lemma frontier_of_empty: "frontier_of C (replicate n None) []"
  by (induction n) simp_all

lemma push_carry_frontier:
  "frontier_of C f xs \<Longrightarrow> push_carry C f c = (True, f') \<Longrightarrow> frontier_of C f' (xs @ [c])"
proof (induction C f c arbitrary: xs f' rule: push_carry.induct)
  case (1 C c)
  then show ?case by simp
next
  case (2 C f c)
  then show ?case by auto
next
  case (3 C x f c)
  then obtain zs where z: "xs = zs @ [x]" "even (length zs)" "frontier_of C f (next_level C zs)" by auto
  from 3(3) obtain f'' where p: "push_carry C f (HashNode C x c) = (True, f'')" "f' = None # f''"
    by (auto split: prod.splits)
  have "frontier_of C f'' (next_level C zs @ [HashNode C x c])"
    using 3(1) [OF z(3)] p by simp
  with z p show ?case by (simp add: next_level_append)
qed

lemma push_carry_fits:
  "frontier_of C f xs \<Longrightarrow> length xs + 1 < 2 ^ length f \<Longrightarrow> fst (push_carry C f c)"
proof (induction C f c arbitrary: xs rule: push_carry.induct)
  case (3 C x f c)
  then obtain zs where z: "xs = zs @ [x]" "even (length zs)" "frontier_of C f (next_level C zs)" by auto
  have "length (next_level C zs) + 1 < 2 ^ length f" using 3(3) z by (auto elim!: evenE)
  then show ?case using 3(1) [OF z(3)] by (auto split: prod.splits)
qed simp_all

lemma length_push_carry [simp]: "length (snd (push_carry C f c)) = length f"
  by (induction C f c rule: push_carry.induct) (auto split: prod.splits)

lemma raise_root_Suc: "raise_root C (Suc n) r = HashNode C (raise_root C n r) (raise_root C n r)"
  by (induction n arbitrary: r) simp_all

lemma finish_levels_all_None:
  "list_all (\<lambda>x. x = None) f \<Longrightarrow> finish_levels C f level (Some (r, rl)) = Some r"
  by (induction f arbitrary: level) auto

lemma frontier_of_Nil: "frontier_of C f xs \<Longrightarrow> (xs = [] \<longleftrightarrow> list_all (\<lambda>x. x = None) f)"
  by (induction C f xs rule: frontier_of.induct) auto

text \<open>A pending root stands for the unpaired last hash of the current level.\<close>

lemma finish_levels_pending:
  assumes "frontier_of C f xs" and "rl \<le> level"
  shows "\<not> list_all (\<lambda>x. x = None) f \<Longrightarrow>
    finish_levels C f level (Some (r, rl)) = Some (level_root C (xs @ [raise_root C (level - rl) r]))"
  using assms
proof (induction f arbitrary: xs level r rl)
  case Nil
  then show ?case by simp
next
  case (Cons b f)
  show ?case
  proof (cases b)
    case None
    then have e: "even (length xs)" "frontier_of C f (next_level C xs)" "\<not> list_all (\<lambda>x. x = None) f"
      using Cons.prems by auto
    then have "xs \<noteq> []" using frontier_of_Nil [of C f "next_level C xs"] by auto
    have "finish_levels C (b # f) level (Some (r, rl)) = finish_levels C f (level + 1) (Some (r, rl))" using None by simp
    also have "\<dots> = Some (level_root C (next_level C xs @ [raise_root C (Suc (level - rl)) r]))"
      using Cons.IH [of "next_level C xs" rl "level + 1" r] e Cons.prems(3) by (simp add: Suc_diff_le)
    also have "next_level C xs @ [raise_root C (Suc (level - rl)) r] = next_level C (xs @ [raise_root C (level - rl) r])"
      using e by (simp add: next_level_append raise_root_Suc del: raise_root.simps)
    finally show ?thesis using \<open>xs \<noteq> []\<close> by (simp add: level_root_step)
  next
    case (Some y)
    then obtain zs where z: "xs = zs @ [y]" "even (length zs)" "frontier_of C f (next_level C zs)" using Cons.prems(2) by auto
    let ?h = "HashNode C y (raise_root C (level - rl) r)"
    have n: "next_level C (xs @ [raise_root C (level - rl) r]) = next_level C zs @ [?h]"
      using z by (simp add: next_level_append)
    have "finish_levels C f (level + 1) (Some (?h, level + 1)) = Some (level_root C (next_level C zs @ [?h]))"
    proof (cases "list_all (\<lambda>x. x = None) f")
      case True
      then have "next_level C zs = []" using frontier_of_Nil [OF z(3)] by blast
      with True show ?thesis by (simp add: finish_levels_all_None)
    next
      case False
      then show ?thesis using Cons.IH [of "next_level C zs" "level + 1" "level + 1" ?h] z(3) by simp
    qed
    then show ?thesis using Some n z by (simp add: level_root_step)
  qed
qed

lemma finish_levels_root:
  assumes "frontier_of C f xs" and "xs \<noteq> []"
  shows "finish_levels C f level None = Some (level_root C xs)"
  using assms
proof (induction f arbitrary: xs level)
  case Nil
  then show ?case by simp
next
  case (Cons b f)
  show ?case
  proof (cases b)
    case None
    then have e: "even (length xs)" "frontier_of C f (next_level C xs)" using Cons.prems by auto
    have "length xs \<noteq> 1" using e by auto
    then have l: "length xs > 1" using Cons.prems(2) by (cases xs) auto
    then have "next_level C xs \<noteq> []" by auto
    then show ?thesis using None Cons.IH [OF e(2), of "level + 1"] l by (simp add: level_root_step)
  next
    case (Some y)
    then obtain zs where z: "xs = zs @ [y]" "even (length zs)" "frontier_of C f (next_level C zs)" using Cons.prems by auto
    show ?thesis
    proof (cases "list_all (\<lambda>x. x = None) f")
      case True
      then have "next_level C zs = []" using frontier_of_Nil [OF z(3)] by blast
      then have "zs = []" by simp
      with True Some z show ?thesis by (simp add: finish_levels_all_None)
    next
      case False
      then have "next_level C zs \<noteq> []" using frontier_of_Nil [OF z(3)] by blast
      then have "zs \<noteq> []" by auto
      have "finish_levels C f (level + 1) (Some (y, level)) = Some (level_root C (next_level C zs @ [HashNode C y y]))"
        using finish_levels_pending [OF z(3), of level "level + 1" y] False by simp
      then show ?thesis using Some z \<open>zs \<noteq> []\<close> by (simp add: level_root_step next_level_append)
    qed
  qed
qed

definition accumulates :: "crypto \<Rightarrow> ChunkAuthorizationAccumulator \<Rightarrow> ChunkId list \<Rightarrow> bool" where
  "accumulates C a cs \<longleftrightarrow> \<not> m_failed a \<and> length (m_frontier a) = 32 \<and> unat (m_chunk_count a) = length cs
     \<and> frontier_of C (m_frontier a) (map (HashLeaf C) cs)"

lemma accumulates_new: "accumulates C new_accumulator []"
  by (simp add: accumulates_def new_accumulator_def frontier_of_empty)

lemma Accumulator_Add_ok:
  assumes "accumulates C a cs" and "length cs < 2 ^ 20" and "c \<noteq> 0"
  shows "\<exists>a'. Accumulator_Add C a c = (True, a') \<and> accumulates C a' (cs @ [c])"
proof -
  from assms(1) have a: "\<not> m_failed a" "length (m_frontier a) = 32" "unat (m_chunk_count a) = length cs"
    and f: "frontier_of C (m_frontier a) (map (HashLeaf C) cs)" by (simp_all add: accumulates_def)
  have "fst (push_carry C (m_frontier a) (HashLeaf C c))"
    using push_carry_fits [OF f] assms(2) a(2) by simp
  then obtain f' where p: "push_carry C (m_frontier a) (HashLeaf C c) = (True, f')" by (metis prod.collapse)
  have l: "length f' = 32" using length_push_carry [of C "m_frontier a" "HashLeaf C c"] p a(2) by simp
  have "unat (m_chunk_count a + 1) = length cs + 1" using a(3) assms(2) by (simp add: unat_add_fits)
  then show ?thesis using a p l push_carry_frontier [OF f p] assms(2,3)
    by (auto simp: Accumulator_Add_def MAX_PUBLICATION_CHUNKS_def accumulates_def)
qed

lemma Accumulator_Feed_ok:
  assumes "accumulates C a cs" and "length (cs @ ds) \<le> 2 ^ 20" and "list_all (\<lambda>c. c \<noteq> 0) ds"
  shows "\<exists>a'. Accumulator_Feed C a ds = (True, a') \<and> accumulates C a' (cs @ ds)"
  using assms
proof (induction ds arbitrary: a cs)
  case Nil
  then show ?case by simp
next
  case (Cons d ds)
  then obtain a' where a': "Accumulator_Add C a d = (True, a')" "accumulates C a' (cs @ [d])"
    using Accumulator_Add_ok [of C a cs d] by auto
  then show ?case using Cons.IH [OF a'(2)] Cons.prems by simp
qed

lemma Accumulator_Finish_root:
  assumes "accumulates C a cs" and "cs \<noteq> []"
  shows "Accumulator_Finish C a = Some (level_root C (map (HashLeaf C) cs), m_chunk_count a)"
proof -
  from assms have "m_chunk_count a \<noteq> 0" by (auto simp: accumulates_def)
  moreover have "finish_levels C (m_frontier a) 0 None = Some (level_root C (map (HashLeaf C) cs))"
    using assms finish_levels_root [of C "m_frontier a" "map (HashLeaf C) cs" 0] by (simp add: accumulates_def)
  ultimately show ?thesis using assms(1) by (simp add: Accumulator_Finish_def accumulates_def)
qed

lemma BuildChunkAuthorizationTree_Some:
  "BuildChunkAuthorizationTree C cs = Some t \<longleftrightarrow>
     ValidChunkSet cs \<and> distinct cs \<and> t = \<lparr> tree_root = level_root C (map (HashLeaf C) cs),
       tree_chunk_count = of_nat (length cs), m_levels = build_levels C (map (HashLeaf C) cs) \<rparr>"
  by (auto simp: BuildChunkAuthorizationTree_def level_root_def Let_def)


section \<open>Proofs of the tree verify\<close>

lemma next_level_nth:
  "i < length xs \<Longrightarrow> next_level C xs ! (i div 2) =
     (if odd i then HashNode C (xs ! (i - 1)) (xs ! i)
      else HashNode C (xs ! i) (if i + 1 < length xs then xs ! (i + 1) else xs ! i))"
proof (induction C xs arbitrary: i rule: next_level.induct)
  case (3 C x y r)
  show ?case
  proof (cases "i < 2")
    case True
    then have "i = 0 \<or> i = 1" by auto
    then show ?thesis by auto
  next
    case False
    then obtain j where j: "i = j + 2" by (metis add.commute le_Suc_ex not_less)
    have "next_level C r ! (j div 2) = (if odd j then HashNode C (r ! (j - 1)) (r ! j)
      else HashNode C (r ! j) (if j + 1 < length r then r ! (j + 1) else r ! j))"
      using 3(1) [of j] 3(2) j by simp
    then show ?thesis using j by (cases j) auto
  qed
qed auto

lemma xor_sibling: "(i :: nat) XOR 1 = (if even i then i + 1 else i - 1)"
  using xor_Suc_0_eq [of i] by simp

lemma verify_walk_complete:
  assumes "xs \<noteq> []" and "i < length xs"
  shows "verify_walk C i (length xs) (proof_siblings (build_levels C xs) i (length xs)) (xs ! i) = Some (level_root C xs)"
  using assms
proof (induction C xs arbitrary: i rule: build_levels.induct)
  case (1 C xs)
  show ?case
  proof (cases "length xs > 1")
    case False
    then have "length xs = 1" using 1(2) by (cases xs) auto
    then obtain x where "xs = [x]" by (auto simp: length_Suc_conv)
    with 1(3) show ?thesis by (simp add: build_levels.simps)
  next
    case True
    then have b: "build_levels C xs = xs # build_levels C (next_level C xs)" by (subst build_levels.simps) simp
    have i: "i div 2 < length (next_level C xs)" using 1(3) by simp
    have IH: "verify_walk C (i div 2) ((length xs + 1) div 2)
        (proof_siblings (build_levels C (next_level C xs)) (i div 2) ((length xs + 1) div 2)) (next_level C xs ! (i div 2))
        = Some (level_root C (next_level C xs))"
      using 1(1) [OF True _ i] 1(2) by simp
    consider (odd) "odd i" | (pair) "even i" "i + 1 < length xs" | (tail) "even i" "\<not> i + 1 < length xs" by blast
    then show ?thesis
    proof cases
      case odd
      moreover have "i - 1 < length xs" using 1(3) by simp
      ultimately show ?thesis using True IH 1(3) next_level_nth [of i xs C]
        by (simp add: b level_root_step [OF True] xor_sibling Let_def del: One_nat_def)
    next
      case pair
      then show ?thesis using True IH next_level_nth [of i xs C]
        by (simp add: b level_root_step [OF True] xor_sibling Let_def del: One_nat_def)
    next
      case tail
      then show ?thesis using True IH 1(3) next_level_nth [of i xs C]
        by (simp add: b level_root_step [OF True] xor_sibling Let_def del: One_nat_def)
    qed
  qed
qed

lemma length_proof_siblings: "length (proof_siblings (build_levels C xs) i (length xs)) \<le> n" if "length xs \<le> 2 ^ n"
  using that
proof (induction C xs arbitrary: i n rule: build_levels.induct)
  case (1 C xs)
  show ?case
  proof (cases "length xs > 1")
    case False
    then show ?thesis by (simp add: build_levels.simps)
  next
    case True
    then obtain m where n: "n = Suc m" using 1(2) by (cases n) auto
    have b: "build_levels C xs = xs # build_levels C (next_level C xs)" using True by (subst build_levels.simps) simp
    have "length (next_level C xs) \<le> 2 ^ m" using 1(2) n by simp
    then show ?thesis using 1(1) [OF True] n True by (simp add: b Let_def)
  qed
qed


section \<open>A verified path proves membership\<close>

text \<open>The strings hashed while building the tree, and while following a path.\<close>

fun level_preimages :: "ChunkId list \<Rightarrow> bytes list" where
  "level_preimages [] = []"
| "level_preimages [x] = [node_preimage x x]"
| "level_preimages (x # y # r) = node_preimage x y # level_preimages r"

definition tree_preimages :: "crypto \<Rightarrow> ChunkId list \<Rightarrow> bytes list" where
  "tree_preimages C cs = map leaf_preimage cs @ concat (map level_preimages (butlast (build_levels C (map (HashLeaf C) cs))))"

fun path_nodes :: "crypto \<Rightarrow> nat \<Rightarrow> ChunkId list \<Rightarrow> ChunkId \<Rightarrow> bytes list" where
  "path_nodes C index [] current = []"
| "path_nodes C index (s # ss) current =
     (let (l, r) = if odd index then (s, current) else (current, s)
      in node_preimage l r # path_nodes C (index div 2) ss (HashNode C l r))"

definition path_preimages :: "crypto \<Rightarrow> ChunkId \<Rightarrow> nat \<Rightarrow> ChunkId list \<Rightarrow> bytes list" where
  "path_preimages C i index siblings = leaf_preimage i # path_nodes C index siblings (HashLeaf C i)"

lemma hash_bytes_inj [simp]: "hash_bytes a = hash_bytes b \<longleftrightarrow> a = b"
proof
  assume "hash_bytes a = hash_bytes b"
  then have "(be_word (hash_bytes a) :: hash256) = be_word (hash_bytes b)" by simp
  then show "a = b" by (simp add: be_word_be_bytes)
qed simp

lemma node_preimage_inj [simp]: "node_preimage a b = node_preimage c d \<longleftrightarrow> a = c \<and> b = d"
  by (auto simp: node_preimage_def)

lemma leaf_preimage_inj [simp]: "leaf_preimage a = leaf_preimage b \<longleftrightarrow> a = b"
  by (auto simp: leaf_preimage_def)

lemma level_preimages_nth:
  "i < length xs \<Longrightarrow>
     (if odd i then node_preimage (xs ! (i - 1)) (xs ! i)
      else node_preimage (xs ! i) (if i + 1 < length xs then xs ! (i + 1) else xs ! i)) \<in> set (level_preimages xs)"
proof (induction xs arbitrary: i rule: level_preimages.induct)
  case (3 x y r)
  show ?case
  proof (cases "i < 2")
    case True
    then have "i = 0 \<or> i = 1" by auto
    then show ?thesis by auto
  next
    case False
    then obtain j where j: "i = j + 2" by (metis add.commute le_Suc_ex not_less)
    then have "j < length r" using 3(2) by simp
    from 3(1) [OF this] show ?thesis using j by (cases j) auto
  qed
qed auto

lemma verify_walk_sound:
  assumes "i < length xs" and "verify_walk C i (length xs) sibs cur = Some (level_root C xs)"
    and "inj_on (blake3 C) (set (path_nodes C i sibs cur) \<union> set (concat (map level_preimages (butlast (build_levels C xs)))))"
  shows "cur = xs ! i"
  using assms
proof (induction C xs arbitrary: i sibs cur rule: build_levels.induct)
  case (1 C xs)
  show ?case
  proof (cases "length xs > 1")
    case False
    then have "length xs = 1" using 1(2) by (cases xs) auto
    then obtain x where "xs = [x]" by (auto simp: length_Suc_conv)
    with 1(2,3) show ?thesis by (cases sibs) auto
  next
    case True
    then obtain s ss where sibs: "sibs = s # ss" using 1(3) by (cases sibs) auto
    have b: "build_levels C xs = xs # build_levels C (next_level C xs)" using True by (subst build_levels.simps) simp
    define l r where lr: "l = (if odd i then s else cur)" "r = (if odd i then cur else s)"
    define l' r' where lr': "l' = (if odd i then xs ! (i - 1) else xs ! i)"
      "r' = (if odd i then xs ! i else if i + 1 < length xs then xs ! (i + 1) else xs ! i)"
    have w: "verify_walk C (i div 2) ((length xs + 1) div 2) ss (HashNode C l r) = Some (level_root C xs)"
      using 1(3) True by (auto simp: sibs lr split: if_splits)
    have pn: "path_nodes C i sibs cur = node_preimage l r # path_nodes C (i div 2) ss (HashNode C l r)"
      by (auto simp: sibs lr)
    have "HashNode C l r = next_level C xs ! (i div 2)"
    proof (rule 1(1) [OF True])
      show "i div 2 < length (next_level C xs)" using 1(2) by simp
      show "verify_walk C (i div 2) (length (next_level C xs)) ss (HashNode C l r) = Some (level_root C (next_level C xs))"
        using w True by (simp add: level_root_step)
      show "inj_on (blake3 C) (set (path_nodes C (i div 2) ss (HashNode C l r))
          \<union> set (concat (map level_preimages (butlast (build_levels C (next_level C xs))))))"
        by (rule inj_on_subset [OF 1(4)]) (auto simp: pn b)
    qed
    also have "\<dots> = HashNode C l' r'" using next_level_nth [OF 1(2)] by (simp add: lr')
    finally have "blake3 C (node_preimage l r) = blake3 C (node_preimage l' r')" by (simp add: HashNode_def)
    moreover have "node_preimage l' r' \<in> set (level_preimages xs)"
      using level_preimages_nth [OF 1(2)] by (auto simp: lr' split: if_splits)
    ultimately have "node_preimage l r = node_preimage l' r'"
      using inj_onD [OF 1(4), of "node_preimage l r" "node_preimage l' r'"] by (simp add: pn b)
    then show ?thesis by (auto simp: lr lr' split: if_splits)
  qed
qed


section \<open>Properties\<close>

text \<open>C33. The streaming accumulator accepts every valid list of chunk identifiers and returns the root and
  the count of the full tree built from the same list.\<close>
theorem accumulator_matches_tree:
  assumes "ValidChunkSet cs" and "distinct cs"
  shows "\<exists>a t. Accumulator_Feed C new_accumulator cs = (True, a) \<and> BuildChunkAuthorizationTree C cs = Some t
    \<and> Accumulator_Finish C a = Some (tree_root t, tree_chunk_count t)"
proof -
  from assms(1) have v: "cs \<noteq> []" "length cs \<le> 2 ^ 20" "list_all (\<lambda>c. c \<noteq> 0) cs"
    by (simp_all add: ValidChunkSet_def MAX_PUBLICATION_CHUNKS_def)
  obtain a where a: "Accumulator_Feed C new_accumulator cs = (True, a)" "accumulates C a cs"
    using Accumulator_Feed_ok [OF accumulates_new, of cs C] v by auto
  have "m_chunk_count a = of_nat (length cs)" using a(2) v(2)
    by (intro unsigned_word_eqI [where 'a = nat]) (simp add: accumulates_def unsigned_of_nat take_bit_nat_eq_self)
  then show ?thesis using a Accumulator_Finish_root [OF a(2) v(1)] assms by (simp add: BuildChunkAuthorizationTree_Some)
qed

theorem accumulator_matches_tree_witness:
  "\<exists>a t. Accumulator_Feed sample_crypto new_accumulator [5, 9, 2] = (True, a)
    \<and> BuildChunkAuthorizationTree sample_crypto [5, 9, 2] = Some t
    \<and> Accumulator_Finish sample_crypto a = Some (tree_root t, tree_chunk_count t)"
  by (rule accumulator_matches_tree) (simp_all add: ValidChunkSet_def MAX_PUBLICATION_CHUNKS_def)

text \<open>For every chunk of a built tree, the inclusion proof the tree issues for its index is accepted by
  the verifier against the root of the tree.\<close>
theorem tree_proof_verifies:
  assumes "BuildChunkAuthorizationTree C cs = Some t" and "i < tree_chunk_count t"
  shows "\<exists>p. Proof t i = Inr p \<and> cap_leaf_index p = i
    \<and> VerifyChunkAuthorizationPath C (tree_root t) (cs ! unat i) i (tree_chunk_count t) (cap_siblings p)"
proof -
  from assms(1) have v: "length cs \<le> 2 ^ 20" "cs \<noteq> []" "list_all (\<lambda>c. c \<noteq> 0) cs"
    and t: "tree_root t = level_root C (map (HashLeaf C) cs)" "tree_chunk_count t = of_nat (length cs)"
      "m_levels t = build_levels C (map (HashLeaf C) cs)"
    by (auto simp: BuildChunkAuthorizationTree_Some ValidChunkSet_def MAX_PUBLICATION_CHUNKS_def)
  have n: "unat (tree_chunk_count t) = length cs" using v t by (simp add: unsigned_of_nat take_bit_nat_eq_self)
  then have i: "unat i < length cs" using assms(2) by (simp add: word_less_nat_alt)
  have z: "tree_chunk_count t \<noteq> 0" using n v(2) by auto
  let ?s = "proof_siblings (m_levels t) (unat i) (length cs)"
  have "length ?s \<le> 20" using length_proof_siblings [of "map (HashLeaf C) cs" 20 C "unat i"] v(1) by (simp add: t)
  moreover have "verify_walk C (unat i) (length cs) ?s (HashLeaf C (cs ! unat i)) = Some (tree_root t)"
    using verify_walk_complete [of "map (HashLeaf C) cs" "unat i" C] v i by (simp add: t)
  moreover have "cs ! unat i \<noteq> 0" using v(3) i by (simp add: list_all_length)
  ultimately show ?thesis using assms(2) n z by (simp add: Proof_def VerifyChunkAuthorizationPath_def not_le)
qed

theorem tree_proof_verifies_witness:
  "\<exists>t p. BuildChunkAuthorizationTree sample_crypto [5, 9, 2] = Some t \<and> Proof t 2 = Inr p
    \<and> VerifyChunkAuthorizationPath sample_crypto (tree_root t) 2 2 (tree_chunk_count t) (cap_siblings p)"
proof -
  obtain t where t: "BuildChunkAuthorizationTree sample_crypto [5, 9, 2] = Some t" "tree_chunk_count t = 3"
    by (simp add: BuildChunkAuthorizationTree_Some ValidChunkSet_def MAX_PUBLICATION_CHUNKS_def)
  with tree_proof_verifies [OF t(1), of 2] show ?thesis by auto
qed

text \<open>C34. A path that the verifier accepts against the root of a publication of \<open>cs\<close> proves that the chunk is
  the one at that index, unless the hash collides on the strings hashed by the tree and by the path.\<close>
theorem verified_path_is_member:
  assumes "BuildChunkAuthorizationTree C cs = Some t"
    and "VerifyChunkAuthorizationPath C (tree_root t) chunk i (tree_chunk_count t) sibs"
    and "inj_on (blake3 C) (set (tree_preimages C cs) \<union> set (path_preimages C chunk (unat i) sibs))"
  shows "unat i < length cs \<and> chunk = cs ! unat i"
proof -
  from assms(1) have v: "length cs \<le> 2 ^ 20" and t: "tree_root t = level_root C (map (HashLeaf C) cs)"
      "tree_chunk_count t = of_nat (length cs)"
    by (auto simp: BuildChunkAuthorizationTree_Some ValidChunkSet_def MAX_PUBLICATION_CHUNKS_def)
  have n: "unat (tree_chunk_count t) = length cs" using v t by (simp add: unsigned_of_nat take_bit_nat_eq_self)
  have i: "unat i < length cs" and w: "verify_walk C (unat i) (length cs) sibs (HashLeaf C chunk) = Some (tree_root t)"
    using assms(2) n by (auto simp: VerifyChunkAuthorizationPath_def not_le word_less_nat_alt split: if_splits)
  have "HashLeaf C chunk = map (HashLeaf C) cs ! unat i"
  proof (rule verify_walk_sound)
    show "inj_on (blake3 C) (set (path_nodes C (unat i) sibs (HashLeaf C chunk))
        \<union> set (concat (map level_preimages (butlast (build_levels C (map (HashLeaf C) cs))))))"
      by (rule inj_on_subset [OF assms(3)]) (auto simp: tree_preimages_def path_preimages_def)
  qed (use i w t in simp_all)
  then have "blake3 C (leaf_preimage chunk) = blake3 C (leaf_preimage (cs ! unat i))" using i by (simp add: HashLeaf_def)
  then have "leaf_preimage chunk = leaf_preimage (cs ! unat i)"
    using inj_onD [OF assms(3), of "leaf_preimage chunk" "leaf_preimage (cs ! unat i)"] i
    by (auto simp: tree_preimages_def path_preimages_def)
  with i show ?thesis by simp
qed

lemma sample_leaf: "HashLeaf sample_crypto x = x + 53"
  using sample_hash_suffix [of "str ''CYBOU/CHUNK-AUTH/LEAF''" x] by (simp add: HashLeaf_def leaf_preimage_def sample_crypto_def)

lemma sample_node: "HashNode sample_crypto l r = r + 85"
  using sample_hash_suffix [of "str ''CYBOU/CHUNK-AUTH/NODE'' @ hash_bytes l" r]
  by (simp add: HashNode_def node_preimage_def sample_crypto_def)

theorem verified_path_is_member_witness:
  "(7 :: ChunkId) = [4, 7] ! unat (1 :: u32)"
proof -
  let ?t = "\<lparr> tree_root = 145, tree_chunk_count = 2, m_levels = [[57, 60], [145]] \<rparr>"
  have lv: "build_levels sample_crypto [57, 60] = [[57, 60], [145]]"
    by (simp add: build_levels.simps sample_node)
  have "BuildChunkAuthorizationTree sample_crypto [4, 7] = Some ?t"
    by (simp add: BuildChunkAuthorizationTree_def ValidChunkSet_def MAX_PUBLICATION_CHUNKS_def sample_leaf lv)
  moreover have "VerifyChunkAuthorizationPath sample_crypto (tree_root ?t) 7 1 (tree_chunk_count ?t) [57]"
    by (simp add: VerifyChunkAuthorizationPath_def sample_leaf sample_node word_le_nat_alt)
  moreover have "inj_on (blake3 sample_crypto)
      (set (tree_preimages sample_crypto [4, 7]) \<union> set (path_preimages sample_crypto 7 (unat (1 :: u32)) [57]))"
  proof -
    have b: "blake3 sample_crypto (leaf_preimage x) = x + 53" "blake3 sample_crypto (node_preimage l r) = r + 85" for x l r
      using sample_leaf [of x] sample_node [of l r] by (simp_all add: HashLeaf_def HashNode_def)
    show ?thesis by (simp add: inj_on_def tree_preimages_def path_preimages_def sample_leaf sample_node lv b)
  qed
  ultimately show ?thesis using verified_path_is_member [of sample_crypto "[4, 7]" ?t 7 1 "[57]"] by blast
qed

end
