(* ===== verification/Assignment.thy ===== *)
theory Assignment
  imports Identity OrderedMap "HOL-Library.Product_Lexorder" "HOL-Library.Multiset"
begin

text \<open>
  The deterministic storage assignment (\<^verbatim>\<open>storage_assignment_algorithm.cpp\<close>): providers are sorted,
  deduplicated, grouped by payout account, and the accounts and the providers of each chosen account are
  shuffled by a hash-driven Fisher-Yates. The theory shows that the shuffle is a permutation, that the plan
  picks one provider of each of \<open>replicas\<close> different payout accounts, none of them the payer, and that the
  order and the duplicates of the input do not matter.
\<close>

section \<open>Data\<close>

record StorageAssignmentContext =
  ctx_network_binding :: "256 word"
  ctx_publication :: "256 word"
  ctx_chunk :: "256 word"
  ctx_finalized_seed :: "256 word"
  ctx_payer :: "256 word"
  ctx_epoch :: u64
  ctx_term_start :: u64
  ctx_term_end :: u64
  ctx_replicas :: u8

record StorageAssignmentProvider =
  prov_storage_id :: "256 word"
  prov_payout_account :: "256 word"

record StorageAssignmentPlan =
  plan_context :: StorageAssignmentContext
  plan_eligible :: "StorageAssignmentProvider list"
  plan_selected :: "StorageAssignmentProvider list"
  plan_commitment :: "256 word"

definition MAX_STORAGE_ASSIGNMENT_CANDIDATES :: nat where "MAX_STORAGE_ASSIGNMENT_CANDIDATES = 1024"


section \<open>Encoding and hashing\<close>

definition Assignment_Digest :: "crypto \<Rightarrow> string \<Rightarrow> bytes \<Rightarrow> exn + hash256" where
  "Assignment_Digest C domain bs =
     (case ComputeSha256 C [str domain, bs] of None \<Rightarrow> Inl runtime_error | Some h \<Rightarrow> Inr h)"

definition Context_bytes :: "StorageAssignmentContext \<Rightarrow> bytes" where
  "Context_bytes c = hash_bytes (ctx_network_binding c) @ hash_bytes (ctx_publication c) @ hash_bytes (ctx_chunk c)
     @ hash_bytes (ctx_finalized_seed c) @ hash_bytes (ctx_payer c) @ le_bytes 8 (ctx_epoch c)
     @ le_bytes 8 (ctx_term_start c) @ le_bytes 8 (ctx_term_end c) @ [ctx_replicas c]"

definition Providers_bytes :: "StorageAssignmentProvider list \<Rightarrow> bytes" where
  "Providers_bytes ps = le_bytes 4 (of_nat (length ps) :: u32)
     @ concat (map (\<lambda>p. hash_bytes (prov_storage_id p) @ hash_bytes (prov_payout_account p)) ps)"

definition Plan_Encode :: "StorageAssignmentPlan \<Rightarrow> bool \<Rightarrow> bytes" where
  "Plan_Encode plan with_selected = Context_bytes (plan_context plan) @ Providers_bytes (plan_eligible plan)
     @ (if with_selected then Providers_bytes (plan_selected plan) else [])"

text \<open>The \<^verbatim>\<open>BinaryWriter\<close> limit of 256 KiB is never reached by a plan of the sizes the code admits.\<close>

lemma length_Providers_bytes [simp]: "length (Providers_bytes ps) = 4 + 64 * length ps"
  by (induction ps) (simp_all add: Providers_bytes_def)

lemma Plan_Encode_fits:
  "length (plan_eligible plan) \<le> MAX_STORAGE_ASSIGNMENT_CANDIDATES \<Longrightarrow> length (plan_selected plan) \<le> 2 \<Longrightarrow>
   length (Plan_Encode plan sel) \<le> 256 * 1024"
  by (simp add: Plan_Encode_def Context_bytes_def MAX_STORAGE_ASSIGNMENT_CANDIDATES_def)


section \<open>The shuffle\<close>

text \<open>The rejection loop: every round consumes a counter value, so it ends at the latest when they run out.\<close>

function draw_below :: "crypto \<Rightarrow> hash256 \<Rightarrow> u64 \<Rightarrow> u64 \<Rightarrow> exn + (u64 \<times> u64)" where
  "draw_below C input limit counter =
     (if counter = U64_MAX then Inl overflow_error
      else case Assignment_Digest C ''CYBOU/STORAGE-ASSIGNMENT-DRAW'' (hash_bytes input @ le_bytes 8 counter) of
        Inl e \<Rightarrow> Inl e
      | Inr hash \<Rightarrow>
        let draw = le_word (take 8 (hash_bytes hash)) in
        if draw \<ge> limit then draw_below C input limit (counter + 1) else Inr (draw, counter + 1))"
  by pat_completeness auto

termination
proof (relation "measure (\<lambda>(C, input, limit, counter). 2 ^ 64 - unat counter)")
  show "wf (measure (\<lambda>(C, input, limit, counter :: u64). 2 ^ 64 - unat counter))" by simp
next
  fix C :: crypto and input :: hash256 and limit counter :: u64
  assume "counter \<noteq> U64_MAX"
  then have "unat counter < unat (counter + 1)" using word_less_succ [of counter] by (simp add: word_less_nat_alt)
  moreover have "unat counter < 2 ^ 64" using unsigned_less [of counter, where 'a = nat] by simp
  ultimately show "((C, input, limit, counter + 1), C, input, limit, counter)
    \<in> measure (\<lambda>(C, input, limit, counter). 2 ^ 64 - unat counter)" by simp
qed

declare draw_below.simps [simp del]

definition swap :: "nat \<Rightarrow> nat \<Rightarrow> 'a list \<Rightarrow> 'a list" where
  "swap i j xs = xs[i := xs ! j, j := xs ! i]"

fun shuffle_from :: "crypto \<Rightarrow> hash256 \<Rightarrow> nat \<Rightarrow> 'a list \<Rightarrow> u64 \<Rightarrow> exn + ('a list \<times> u64)" where
  "shuffle_from C input 0 items counter = Inr (items, counter)"
| "shuffle_from C input (Suc n) items counter =
     (if n = 0 then Inr (items, counter)
      else let bound = of_nat (Suc n) :: u64; limit = U64_MAX - U64_MAX mod bound in
        bindE (draw_below C input limit counter) (\<lambda>(draw, counter').
          shuffle_from C input n (swap n (unat (draw mod bound)) items) counter'))"

definition Shuffle :: "crypto \<Rightarrow> 'a list \<Rightarrow> hash256 \<Rightarrow> u64 \<Rightarrow> exn + ('a list \<times> u64)" where
  "Shuffle C items input counter = shuffle_from C input (length items) items counter"


section \<open>Preparing an assignment\<close>

definition prov_key :: "StorageAssignmentProvider \<Rightarrow> 256 word \<times> 256 word" where
  "prov_key p = (prov_storage_id p, prov_payout_account p)"

text \<open>\<^verbatim>\<open>std::sort\<close> with the defaulted \<^verbatim>\<open>operator<=>\<close>, then \<^verbatim>\<open>std::unique\<close> and \<^verbatim>\<open>erase\<close>.\<close>

definition canonical_providers :: "StorageAssignmentProvider list \<Rightarrow> StorageAssignmentProvider list" where
  "canonical_providers eligible = remdups_adj (sort_key prov_key eligible)"

text \<open>\<^verbatim>\<open>groups[account].push_back(p)\<close>\<close>

definition groups_push ::
  "StorageAssignmentProvider \<Rightarrow> (256 word, StorageAssignmentProvider list) omap \<Rightarrow> (256 word, StorageAssignmentProvider list) omap" where
  "groups_push p groups =
     (if map_contains groups (prov_payout_account p) then map_adjust (prov_payout_account p) (\<lambda>ps. ps @ [p]) groups
      else map_emplace (prov_payout_account p) [p] groups)"

text \<open>The validation loop; \<open>prior\<close> is \<^verbatim>\<open>eligible[i - 1]\<close>.\<close>

fun group_providers ::
  "256 word \<Rightarrow> StorageAssignmentProvider option \<Rightarrow> StorageAssignmentProvider list
   \<Rightarrow> (256 word, StorageAssignmentProvider list) omap \<Rightarrow> (256 word, StorageAssignmentProvider list) omap option" where
  "group_providers payer prior [] groups = Some groups"
| "group_providers payer prior (p # ps) groups =
     (if prov_storage_id p = 0 \<or> prov_payout_account p = 0 \<or> prov_payout_account p = payer
         \<or> (case prior of None \<Rightarrow> False | Some q \<Rightarrow> prov_storage_id q = prov_storage_id p) then None
      else group_providers payer (Some p) ps (groups_push p groups))"

text \<open>The selection loop over the first \<open>replicas\<close> accounts.\<close>

fun select_providers ::
  "crypto \<Rightarrow> hash256 \<Rightarrow> (256 word, StorageAssignmentProvider list) omap \<Rightarrow> (256 word) list \<Rightarrow> u64
   \<Rightarrow> exn + (StorageAssignmentProvider list \<times> u64)" where
  "select_providers C input groups [] counter = Inr ([], counter)"
| "select_providers C input groups (a # as) counter =
     (case map_find groups a of None \<Rightarrow> Inl out_of_range
      | Some providers \<Rightarrow>
        bindE (Shuffle C providers input counter) (\<lambda>(ps, counter').
        bindE (select_providers C input groups as counter') (\<lambda>(sel, counter'').
          Inr (hd ps # sel, counter''))))"

definition PrepareStorageAssignment ::
  "crypto \<Rightarrow> StorageAssignmentContext \<Rightarrow> StorageAssignmentProvider list \<Rightarrow> exn + StorageAssignmentPlan option" where
  "PrepareStorageAssignment C context eligible0 =
     (if ctx_network_binding context = 0 \<or> ctx_publication context = 0 \<or> ctx_chunk context = 0
         \<or> ctx_finalized_seed context = 0 \<or> ctx_payer context = 0 \<or> ctx_term_end context \<le> ctx_term_start context
         \<or> ctx_replicas context = 0 \<or> ctx_replicas context > 2 \<or> eligible0 = []
         \<or> length eligible0 > MAX_STORAGE_ASSIGNMENT_CANDIDATES then Inr None
      else let eligible = canonical_providers eligible0 in
        case group_providers (ctx_payer context) None eligible [] of None \<Rightarrow> Inr None
        | Some groups \<Rightarrow>
          if length groups < unat (ctx_replicas context) then Inr None
          else let plan = \<lparr> plan_context = context, plan_eligible = eligible, plan_selected = [], plan_commitment = 0 \<rparr> in
            bindE (Assignment_Digest C ''CYBOU/STORAGE-ASSIGNMENT-INPUT'' (Plan_Encode plan False)) (\<lambda>input.
            bindE (Shuffle C (map fst groups) input 0) (\<lambda>(accounts, counter).
            bindE (select_providers C input groups (take (unat (ctx_replicas context)) accounts) counter) (\<lambda>(selected, _).
              let plan = plan \<lparr> plan_selected := selected \<rparr> in
              bindE (Assignment_Digest C ''CYBOU/STORAGE-ASSIGNMENT-COMMITMENT'' (Plan_Encode plan True)) (\<lambda>commitment.
                Inr (Some (plan \<lparr> plan_commitment := commitment \<rparr>)))))))"


section \<open>The shuffle is a permutation\<close>

lemma mset_swap [simp]: "i < length xs \<Longrightarrow> j < length xs \<Longrightarrow> mset (swap i j xs) = mset xs"
  unfolding swap_def by (rule mset_swap)

lemma length_swap [simp]: "length (swap i j xs) = length xs"
  by (simp add: swap_def)

lemma draw_index: "unat (d mod (of_nat (Suc n) :: u64)) < Suc n" if "Suc n < 2 ^ 64"
proof -
  have "unat (of_nat (Suc n) :: u64) = Suc n" using that by (simp add: unsigned_of_nat take_bit_nat_eq_self del: of_nat_Suc)
  then show ?thesis by (simp add: unat_mod del: of_nat_Suc)
qed

lemma shuffle_from_perm:
  "shuffle_from C input n items counter = Inr (items', counter') \<Longrightarrow> n \<le> length items \<Longrightarrow> length items < 2 ^ 64
   \<Longrightarrow> mset items' = mset items"
proof (induction C input n items counter arbitrary: items' counter' rule: shuffle_from.induct)
  case (2 C input n items counter)
  show ?case
  proof (cases "n = 0")
    case True
    with 2 show ?thesis by simp
  next
    case False
    let ?b = "of_nat (Suc n) :: u64"
    from 2(2) False obtain d c where d: "draw_below C input (U64_MAX - U64_MAX mod ?b) counter = Inr (d, c)"
      "shuffle_from C input n (swap n (unat (d mod ?b)) items) c = Inr (items', counter')"
      by (auto simp: Let_def bindE_Inr_iff simp del: of_nat_Suc)
    have j: "unat (d mod ?b) < length items" using draw_index [of n d] 2(3,4) by (simp del: of_nat_Suc)
    have "mset items' = mset (swap n (unat (d mod ?b)) items)"
      using 2(1) [OF False refl refl d(2)] 2(3,4) by (simp del: of_nat_Suc)
    then show ?thesis using j 2(3) by (simp del: of_nat_Suc)
  qed
qed simp

lemma Shuffle_perm: "Shuffle C items input counter = Inr (items', c) \<Longrightarrow> length items < 2 ^ 64 \<Longrightarrow> mset items' = mset items"
  unfolding Shuffle_def by (rule shuffle_from_perm) auto


section \<open>The canonical list of providers\<close>

lemma distinct_remdups_adj_sorted: "sorted xs \<Longrightarrow> distinct (remdups_adj xs)"
proof (induction xs rule: remdups_adj.induct)
  case (3 x y xs)
  show ?case
  proof (cases "x = y")
    case True
    with 3 show ?thesis by simp
  next
    case False
    then have "x < y" using 3(3) by auto
    then have "x \<notin> set (y # xs)" using 3(3) by auto
    then show ?thesis using False 3(2) [OF False] 3(3) by simp
  qed
qed simp_all

lemma inj_prov_key: "inj prov_key"
  by (rule injI) (simp add: prov_key_def)

lemma canonical_providers_set [simp]: "set (canonical_providers xs) = set xs"
  by (simp add: canonical_providers_def)

lemma canonical_providers_sorted: "sorted (map prov_key (canonical_providers xs))" "distinct (map prov_key (canonical_providers xs))"
  unfolding canonical_providers_def remdups_adj_map_injective [OF inj_prov_key, symmetric]
  by (simp_all add: sorted_remdups_adj distinct_remdups_adj_sorted)

lemma canonical_providers_unique: "set xs = set ys \<Longrightarrow> canonical_providers xs = canonical_providers ys"
  by (rule map_sorted_distinct_set_unique [of prov_key])
    (simp_all add: canonical_providers_sorted inj_on_subset [OF inj_prov_key])

lemma length_canonical_providers: "length (canonical_providers xs) \<le> length xs"
  unfolding canonical_providers_def by (metis length_sort remdups_adj_length)


section \<open>What a plan selects\<close>

definition groups_ok :: "256 word \<Rightarrow> StorageAssignmentProvider set \<Rightarrow> nat \<Rightarrow> (256 word, StorageAssignmentProvider list) omap \<Rightarrow> bool" where
  "groups_ok payer S n groups \<longleftrightarrow> omap_wf groups \<and> length groups \<le> n
     \<and> (\<forall>a ps. map_find groups a = Some ps \<longrightarrow> ps \<noteq> [] \<and> a \<noteq> payer \<and> a \<noteq> 0 \<and> length ps \<le> n
          \<and> (\<forall>p \<in> set ps. prov_payout_account p = a \<and> p \<in> S))"

lemma groups_okD:
  assumes "groups_ok payer S n groups" and "map_find groups a = Some ps"
  shows "ps \<noteq> []" "a \<noteq> payer" "a \<noteq> 0" "length ps \<le> n" "\<forall>p \<in> set ps. prov_payout_account p = a \<and> p \<in> S"
  using assms by (simp_all add: groups_ok_def)

lemma groups_push_ok:
  assumes "groups_ok payer S n groups" and "p \<in> S" and "prov_payout_account p \<noteq> payer" "prov_payout_account p \<noteq> 0"
  shows "groups_ok payer S (Suc n) (groups_push p groups)"
proof (cases "map_find groups (prov_payout_account p)")
  case None
  with assms show ?thesis
    by (auto simp: groups_ok_def groups_push_def map_contains_def length_map_emplace split: if_splits; force)
next
  case (Some ps)
  with assms show ?thesis
    by (auto simp: groups_ok_def groups_push_def map_contains_def split: if_splits; force)
qed

lemma group_providers_ok:
  "group_providers payer prior ps groups = Some groups' \<Longrightarrow> groups_ok payer S n groups \<Longrightarrow> set ps \<subseteq> S
   \<Longrightarrow> groups_ok payer S (n + length ps) groups'"
proof (induction payer prior ps groups arbitrary: n rule: group_providers.induct)
  case (2 payer prior p ps groups)
  then have gp: "group_providers payer (Some p) ps (groups_push p groups) = Some groups'"
    and c: "\<not> (prov_storage_id p = 0 \<or> prov_payout_account p = 0 \<or> prov_payout_account p = payer
         \<or> (case prior of None \<Rightarrow> False | Some q \<Rightarrow> prov_storage_id q = prov_storage_id p))"
    by (simp_all split: if_splits)
  have "groups_ok payer S (Suc n) (groups_push p groups)" using 2(3,4) c by (intro groups_push_ok) auto
  from 2(1) [OF c gp this] 2(4) show ?case by simp
qed simp

lemma select_providers_spec:
  assumes "select_providers C input groups as counter = Inr (sel, c)" and "groups_ok payer S n groups" and "n < 2 ^ 64"
  shows "map prov_payout_account sel = as \<and> set sel \<subseteq> S"
  using assms(1)
proof (induction as arbitrary: counter sel)
  case Nil
  then show ?case by simp
next
  case (Cons a as)
  then obtain ps qs k sel' where f: "map_find groups a = Some ps" and sh: "Shuffle C ps input counter = Inr (qs, k)"
    and r: "select_providers C input groups as k = Inr (sel', c)" and sel: "sel = hd qs # sel'"
    by (auto simp: bindE_Inr_iff split: option.splits)
  have g: "ps \<noteq> []" "length ps < 2 ^ 64" "\<forall>p \<in> set ps. prov_payout_account p = a \<and> p \<in> S"
    using groups_okD [OF assms(2) f] assms(3) by (blast, linarith, blast)
  have "mset qs = mset ps" by (rule Shuffle_perm [OF sh g(2)])
  then have "set qs = set ps" by (rule mset_eq_setD)
  then have "hd qs \<in> set ps" using g(1) by (metis hd_in_set set_empty)
  with g(3) Cons.IH [OF r] sel show ?case by auto
qed

lemma omap_in: "omap_wf m \<Longrightarrow> k \<in> set (map fst m) \<Longrightarrow> \<exists>v. map_find m k = Some v"
  by (auto simp: map_find_iff_set)

lemma PrepareStorageAssignment_Some:
  assumes "PrepareStorageAssignment C ctx eligible = Inr (Some plan)"
  shows "plan_context plan = ctx" and "plan_eligible plan = canonical_providers eligible"
    and "length (plan_selected plan) = unat (ctx_replicas ctx)"
    and "distinct (map prov_payout_account (plan_selected plan))"
    and "set (plan_selected plan) \<subseteq> set eligible"
    and "\<forall>p \<in> set (plan_selected plan). prov_payout_account p \<noteq> ctx_payer ctx \<and> prov_payout_account p \<noteq> 0"
proof -
  obtain groups input accounts counter selected k h where n: "length eligible \<le> 1024"
    and g: "group_providers (ctx_payer ctx) None (canonical_providers eligible) [] = Some groups"
    and l: "unat (ctx_replicas ctx) \<le> length groups"
    and sh: "Shuffle C (map fst groups) input 0 = Inr (accounts, counter)"
    and sel: "select_providers C input groups (take (unat (ctx_replicas ctx)) accounts) counter = Inr (selected, k)"
    and p: "plan = \<lparr> plan_context = ctx, plan_eligible = canonical_providers eligible, plan_selected = selected,
              plan_commitment = h \<rparr>"
    using assms by (auto simp: PrepareStorageAssignment_def Let_def bindE_Inr_iff not_less
        MAX_STORAGE_ASSIGNMENT_CANDIDATES_def split: if_splits option.splits)
  let ?n = "length (canonical_providers eligible)"
  have ok: "groups_ok (ctx_payer ctx) (set eligible) ?n groups"
    using group_providers_ok [OF g, of "set eligible" 0] by (simp add: groups_ok_def)
  have n': "?n < 2 ^ 64" "length groups < 2 ^ 64"
    using n length_canonical_providers [of eligible] ok by (auto simp: groups_ok_def)
  have perm: "mset accounts = mset (map fst groups)" using Shuffle_perm [OF sh] n' by simp
  have acc: "distinct accounts" "length accounts = length groups" "set accounts = set (map fst groups)"
    using mset_eq_imp_distinct_iff [OF perm] mset_eq_length [OF perm] mset_eq_setD [OF perm] ok omap_wf_distinct [of groups]
    by (simp_all add: groups_ok_def)
  note sp = select_providers_spec [OF sel ok n'(1)]
  have m: "map prov_payout_account selected = take (unat (ctx_replicas ctx)) accounts" using sp by blast
  show "plan_context plan = ctx" "plan_eligible plan = canonical_providers eligible" by (simp_all add: p)
  show "length (plan_selected plan) = unat (ctx_replicas ctx)"
    using arg_cong [OF m, of length] acc(2) l by (simp add: p)
  show "distinct (map prov_payout_account (plan_selected plan))" using acc(1) by (simp add: p m)
  show "set (plan_selected plan) \<subseteq> set eligible" using sp by (simp add: p)
  show "\<forall>q \<in> set (plan_selected plan). prov_payout_account q \<noteq> ctx_payer ctx \<and> prov_payout_account q \<noteq> 0"
  proof
    fix q assume "q \<in> set (plan_selected plan)"
    then have "prov_payout_account q \<in> set (take (unat (ctx_replicas ctx)) accounts)"
      unfolding m [symmetric] by (simp add: p)
    then have "prov_payout_account q \<in> set (map fst groups)" unfolding acc(3) [symmetric]
      by (rule in_set_takeD)
    moreover have "omap_wf groups" using ok by (simp only: groups_ok_def)
    ultimately obtain ps where "map_find groups (prov_payout_account q) = Some ps" using omap_in by blast
    from groups_okD [OF ok this] show "prov_payout_account q \<noteq> ctx_payer ctx \<and> prov_payout_account q \<noteq> 0" by blast
  qed
qed


section \<open>Properties\<close>

text \<open>C35. A prepared plan selects exactly \<open>replicas\<close> eligible providers, all of different payout accounts and
  none of them paid to the payer of the lease.\<close>
theorem assignment_selects_distinct_accounts:
  assumes "PrepareStorageAssignment C ctx eligible = Inr (Some plan)"
  shows "length (plan_selected plan) = unat (ctx_replicas ctx)
    \<and> distinct (map prov_payout_account (plan_selected plan))
    \<and> (\<forall>p \<in> set (plan_selected plan). p \<in> set eligible \<and> prov_payout_account p \<noteq> ctx_payer ctx)"
  using PrepareStorageAssignment_Some [OF assms] by blast

text \<open>The plan depends only on the set of eligible providers: reordering or repeating them changes nothing, as long as the
  lists have at most 1024 entries (a longer list is refused before duplicates are removed).\<close>
theorem assignment_input_order_irrelevant:
  assumes "set eligible = set eligible'" and "length eligible \<le> MAX_STORAGE_ASSIGNMENT_CANDIDATES"
    and "length eligible' \<le> MAX_STORAGE_ASSIGNMENT_CANDIDATES"
  shows "PrepareStorageAssignment C ctx eligible = PrepareStorageAssignment C ctx eligible'"
proof -
  have "eligible = [] \<longleftrightarrow> eligible' = []" using assms(1) by auto
  moreover have "canonical_providers eligible = canonical_providers eligible'"
    by (rule canonical_providers_unique [OF assms(1)])
  moreover have "length eligible > MAX_STORAGE_ASSIGNMENT_CANDIDATES \<longleftrightarrow> length eligible' > MAX_STORAGE_ASSIGNMENT_CANDIDATES"
    using assms(2,3) by linarith
  ultimately show ?thesis unfolding PrepareStorageAssignment_def by (simp only:)
qed

definition sample_context :: StorageAssignmentContext where
  "sample_context = \<lparr> ctx_network_binding = 1, ctx_publication = 2, ctx_chunk = 3, ctx_finalized_seed = 4, ctx_payer = 5,
     ctx_epoch = 1, ctx_term_start = 10, ctx_term_end = 12, ctx_replicas = 1 \<rparr>"

theorem assignment_input_order_irrelevant_witness:
  "PrepareStorageAssignment sample_crypto sample_context
     [\<lparr> prov_storage_id = 7, prov_payout_account = 9 \<rparr>, \<lparr> prov_storage_id = 6, prov_payout_account = 8 \<rparr>]
   = PrepareStorageAssignment sample_crypto sample_context
     [\<lparr> prov_storage_id = 6, prov_payout_account = 8 \<rparr>, \<lparr> prov_storage_id = 7, prov_payout_account = 9 \<rparr>,
      \<lparr> prov_storage_id = 6, prov_payout_account = 8 \<rparr>]"
  by (rule assignment_input_order_irrelevant) (auto simp: MAX_STORAGE_ASSIGNMENT_CANDIDATES_def)

lemma sample_plan:
  "\<exists>plan. PrepareStorageAssignment sample_crypto sample_context [\<lparr> prov_storage_id = 6, prov_payout_account = 8 \<rparr>] = Inr (Some plan)"
  by (simp add: PrepareStorageAssignment_def sample_context_def canonical_providers_def groups_push_def map_contains_def
      map_emplace_def MAX_STORAGE_ASSIGNMENT_CANDIDATES_def Shuffle_def Assignment_Digest_def sample_crypto_def
      word_less_nat_alt word_le_nat_alt Let_def)

theorem assignment_selects_distinct_accounts_witness:
  "\<exists>plan. PrepareStorageAssignment sample_crypto sample_context [\<lparr> prov_storage_id = 6, prov_payout_account = 8 \<rparr>] = Inr (Some plan)
     \<and> length (plan_selected plan) = unat (1 :: u8)"
proof -
  obtain plan where p: "PrepareStorageAssignment sample_crypto sample_context
      [\<lparr> prov_storage_id = 6, prov_payout_account = 8 \<rparr>] = Inr (Some plan)"
    using sample_plan by blast
  with assignment_selects_distinct_accounts [OF p] show ?thesis by (simp add: sample_context_def)
qed

end
