(* ===== verification/Settlement.thy ===== *)
theory Settlement
  imports Merkle Assignment
begin

text \<open>
  Storage audits and payout bindings (\<^verbatim>\<open>storage_audit.h/.cpp\<close>, \<^verbatim>\<open>storage_key_proof.cpp\<close>) and the
  PoA-signed storage settlement with its wire format (\<^verbatim>\<open>storage_lease.h/.cpp\<close>, codec part).
\<close>

section \<open>Audits\<close>

definition STORAGE_AUDIT_SAMPLE_SIZE :: nat where "STORAGE_AUDIT_SAMPLE_SIZE = 64"

record StorageAuditChallenge =
  sac_chunk_id :: ChunkId
  sac_byte_offset :: u64
  sac_nonce :: "256 word"

record StorageAuditProof =
  sap_chunk_id :: ChunkId
  sap_byte_offset :: u64
  sap_nonce :: "256 word"
  sap_response_hash :: hash256

definition ComputeChunkId :: "crypto \<Rightarrow> bytes \<Rightarrow> ChunkId" where
  "ComputeChunkId C bs = blake3 C bs"

definition ComputeStorageAuditResponse :: "crypto \<Rightarrow> bytes \<Rightarrow> u64 \<Rightarrow> 256 word \<Rightarrow> hash256 option" where
  "ComputeStorageAuditResponse C chunk_bytes byte_offset nonce =
     (if chunk_bytes = [] \<or> unat byte_offset \<ge> length chunk_bytes then None
      else let available = length chunk_bytes - unat byte_offset;
               sample_len = min available STORAGE_AUDIT_SAMPLE_SIZE
        in Some (blake3 C (subspan (unat byte_offset) sample_len chunk_bytes @ hash_bytes nonce)))"

definition CreateStorageAuditProof :: "crypto \<Rightarrow> StorageAuditChallenge \<Rightarrow> bytes \<Rightarrow> StorageAuditProof option" where
  "CreateStorageAuditProof C challenge chunk_bytes =
     (if ComputeChunkId C chunk_bytes \<noteq> sac_chunk_id challenge then None
      else case ComputeStorageAuditResponse C chunk_bytes (sac_byte_offset challenge) (sac_nonce challenge) of None \<Rightarrow> None
        | Some response \<Rightarrow> Some \<lparr> sap_chunk_id = sac_chunk_id challenge, sap_byte_offset = sac_byte_offset challenge,
            sap_nonce = sac_nonce challenge, sap_response_hash = response \<rparr>)"

definition VerifyStorageAuditProof :: "crypto \<Rightarrow> StorageAuditProof \<Rightarrow> bytes \<Rightarrow> bool" where
  "VerifyStorageAuditProof C proof chunk_bytes =
     (if ComputeChunkId C chunk_bytes \<noteq> sap_chunk_id proof then False
      else ComputeStorageAuditResponse C chunk_bytes (sap_byte_offset proof) (sap_nonce proof) = Some (sap_response_hash proof))"

definition StorageReceiptMessage :: "hash256 \<Rightarrow> hash256 \<Rightarrow> ChunkId \<Rightarrow> u32 \<Rightarrow> bytes" where
  "StorageReceiptMessage network_binding publication_operation_id chunk_id stored_size =
     str ''CYBOU/STORAGE-RECEIPT'' @ hash_bytes network_binding @ hash_bytes publication_operation_id
     @ hash_bytes chunk_id @ le_bytes 4 stored_size"

definition VerifyStorageProof :: "crypto \<Rightarrow> bytes \<Rightarrow> bytes \<Rightarrow> StorageId option" where
  "VerifyStorageProof C payload message =
     (if length payload \<noteq> 32 + 1312 + 64 + 2420 then None
      else let key = \<lparr> purpose = STORAGE, pk_ed25519 = be_word (subspan 0 32 payload), pk_ml_dsa = subspan 32 1312 payload \<rparr>;
               sig = drop (32 + 1312) payload;
               signature = \<lparr> sig_ed25519 = be_word (take 64 sig), sig_ml_dsa = drop 64 sig \<rparr>
        in if \<not> VerifyIdentityMessage C key signature message then None
           else Some (ComputeChunkId C (str ''CYBOU/STORAGE-ID'' @ take (32 + 1312) payload)))"

definition VerifyStorageReceipt :: "crypto \<Rightarrow> bytes \<Rightarrow> hash256 \<Rightarrow> hash256 \<Rightarrow> ChunkId \<Rightarrow> u32 \<Rightarrow> StorageId option" where
  "VerifyStorageReceipt C receipt network_binding publication_operation_id chunk_id stored_size =
     VerifyStorageProof C receipt (StorageReceiptMessage network_binding publication_operation_id chunk_id stored_size)"


section \<open>Payout bindings\<close>

record StoragePayoutBinding =
  spb_payout_account :: AccountId
  spb_authorization :: IdentityHybridSignature
  spb_storage_proof :: bytes

definition StoragePayoutBindingDigest :: "crypto \<Rightarrow> hash256 \<Rightarrow> StorageId \<Rightarrow> AccountId \<Rightarrow> hash256" where
  "StoragePayoutBindingDigest C network_binding storage_id payout_account =
     blake3 C (str ''CYBOU/STORAGE-PAYOUT-BINDING'' @ hash_bytes network_binding @ hash_bytes storage_id
       @ hash_bytes payout_account)"

definition EncodeStoragePayoutBinding :: "StoragePayoutBinding \<Rightarrow> bytes" where
  "EncodeStoragePayoutBinding b = hash_bytes (spb_payout_account b) @ ed_sig_bytes (sig_ed25519 (spb_authorization b))
     @ sig_ml_dsa (spb_authorization b) @ spb_storage_proof b"

definition DecodeStoragePayoutBinding :: "bytes \<Rightarrow> StoragePayoutBinding option" where
  "DecodeStoragePayoutBinding bs =
     (let prefix = 32 + 64 + 2420 in
      if length bs \<le> prefix then None
      else case AccountId_FromBytes (take 32 bs) of None \<Rightarrow> None
        | Some account \<Rightarrow> Some \<lparr> spb_payout_account = account,
            spb_authorization = \<lparr> sig_ed25519 = be_word (subspan 32 64 bs), sig_ml_dsa = subspan 96 2420 bs \<rparr>,
            spb_storage_proof = drop prefix bs \<rparr>)"

definition VerifyStoragePayoutBindingStorageKey :: "crypto \<Rightarrow> StoragePayoutBinding \<Rightarrow> hash256 \<Rightarrow> StorageId \<Rightarrow> bool" where
  "VerifyStoragePayoutBindingStorageKey C binding network_binding storage_id =
     (let digest = StoragePayoutBindingDigest C network_binding storage_id (spb_payout_account binding)
      in VerifyStorageProof C (spb_storage_proof binding) (hash_bytes digest) = Some storage_id)"

definition binding_wf :: "StoragePayoutBinding \<Rightarrow> bool" where
  "binding_wf b \<longleftrightarrow> spb_payout_account b \<noteq> 0 \<and> length (sig_ml_dsa (spb_authorization b)) = 2420 \<and> spb_storage_proof b \<noteq> []"

lemma DecodeStoragePayoutBinding_iff:
  "DecodeStoragePayoutBinding bs = Some b \<longleftrightarrow> binding_wf b \<and> bs = EncodeStoragePayoutBinding b"
proof
  assume "DecodeStoragePayoutBinding bs = Some b"
  then obtain a where l: "2516 < length bs" and a: "AccountId_FromBytes (take 32 bs) = Some a"
    and b: "b = \<lparr> spb_payout_account = a, spb_authorization = \<lparr> sig_ed25519 = be_word (subspan 32 64 bs),
        sig_ml_dsa = subspan 96 2420 bs \<rparr>, spb_storage_proof = drop 2516 bs \<rparr>"
    by (auto simp: DecodeStoragePayoutBinding_def Let_def split: if_splits option.splits)
  have "ed_sig_bytes (be_word (subspan 32 64 bs)) = subspan 32 64 bs"
    using l by (simp add: be_bytes_be_word length_subspan)
  moreover have "bs = take 32 bs @ subspan 32 64 bs @ subspan 96 2420 bs @ drop 2516 bs"
    using l subspan_drop [of 32 64 bs] subspan_drop [of 96 2420 bs] by simp
  ultimately show "binding_wf b \<and> bs = EncodeStoragePayoutBinding b"
    using l a by (auto simp: binding_wf_def b EncodeStoragePayoutBinding_def AccountId_FromBytes_iff length_subspan)
next
  assume b: "binding_wf b \<and> bs = EncodeStoragePayoutBinding b"
  obtain acc ed ml pr where e: "b = \<lparr> spb_payout_account = acc, spb_authorization = \<lparr> sig_ed25519 = ed, sig_ml_dsa = ml \<rparr>,
      spb_storage_proof = pr \<rparr>"
    by (metis IdentityHybridSignature.surjective old.unit.exhaust StoragePayoutBinding.surjective)
  have w: "acc \<noteq> 0" "length ml = 2420" "pr \<noteq> []" and s: "bs = hash_bytes acc @ ed_sig_bytes ed @ ml @ pr"
    using b by (simp_all add: e binding_wf_def EncodeStoragePayoutBinding_def)
  have "take 32 bs = hash_bytes acc" "subspan 32 64 bs = ed_sig_bytes ed" "subspan 96 2420 bs = ml" "drop 2516 bs = pr"
    using w by (simp_all add: s subspan_def)
  moreover have "AccountId_FromBytes (hash_bytes acc) = Some acc" using w by (simp add: AccountId_FromBytes_iff)
  moreover have "length bs > 2516" using w by (simp add: s)
  ultimately show "DecodeStoragePayoutBinding bs = Some b"
    by (simp add: DecodeStoragePayoutBinding_def Let_def e be_word_be_bytes)
qed


section \<open>The settlement and its wire format\<close>

datatype StorageSettlementAction = PREPARE | ACTIVATE | PAY

fun action_code :: "StorageSettlementAction \<Rightarrow> u8" where
  "action_code PREPARE = 1"
| "action_code ACTIVATE = 2"
| "action_code PAY = 3"

record StorageSettlementEntry =
  sse_funding_operation_id :: hash256
  sse_payout_account :: AccountId
  sse_amount :: u64
  sse_slot :: u8
  sse_storage_id :: StorageId
  sse_verified_unit_seconds :: u64

record StorageSettlementBinding =
  ssb_storage_id :: StorageId
  ssb_binding :: StoragePayoutBinding

record StorageSettlement =
  st_period :: u64
  st_period_start_utc :: u64
  st_entries :: "StorageSettlementEntry list"
  st_poa_signature :: IdentityHybridSignature
  st_action :: StorageSettlementAction
  st_funded_term_id :: hash256
  st_preparation_id :: hash256
  st_assignment_epoch :: u64
  st_eligible :: "StorageSettlementBinding list"
  st_manifest :: "ChunkId list"
  st_period_end_utc :: u64
  st_evidence_root :: hash256
  st_activation_witnesses :: "hash256 list"

datatype StorageSettlementError = NONE | INVALID_PAYLOAD | INVALID_SIGNATURE | WRONG_PERIOD | WRONG_PERIOD_START
  | LEASE_NOT_FOUND | LEASE_NOT_ACTIVE | PAYOUT_ACCOUNT_NOT_FOUND | SELF_PAYOUT | TOO_MANY_PAYOUTS
  | PAYOUT_EXCEEDS_ESCROW | BALANCE_OVERFLOW | INVALID_ASSIGNMENT | WRONG_ACTIVATION_HEIGHT

definition MAX_STORAGE_SETTLEMENT_ENTRIES :: nat where "MAX_STORAGE_SETTLEMENT_ENTRIES = 1024"
definition STORAGE_SETTLEMENT_ENTRY_SIZE :: nat where "STORAGE_SETTLEMENT_ENTRY_SIZE = 113"
definition SETTLEMENT_HEADER_SIZE :: nat where "SETTLEMENT_HEADER_SIZE = 61"
definition POA_SIGNATURE_SIZE :: nat where "POA_SIGNATURE_SIZE = 64 + 3309"
definition SETTLEMENT_BODY_LIMIT :: nat where
  "SETTLEMENT_BODY_LIMIT = MAX_OPERATION_PAYLOAD_BYTES - 1 - POA_SIGNATURE_SIZE"

text \<open>\<^verbatim>\<open>prior && !(*prior < entry)\<close> in the loops of the serializer.\<close>

fun strictly_increasing :: "'a::linorder list \<Rightarrow> bool" where
  "strictly_increasing (x # y # r) \<longleftrightarrow> x < y \<and> strictly_increasing (y # r)"
| "strictly_increasing _ \<longleftrightarrow> True"

lemma strictly_increasing_iff: "strictly_increasing xs \<longleftrightarrow> sorted_wrt (<) xs"
proof (induction xs rule: strictly_increasing.induct)
  case (1 x y r)
  then show ?case by (auto intro: less_trans)
qed simp_all

definition settlement_prefix :: "StorageSettlement \<Rightarrow> bytes" where
  "settlement_prefix s = le_bytes 8 (st_period s) @ le_bytes 8 (st_period_start_utc s) @ [action_code (st_action s)]"

definition eligible_bytes :: "StorageSettlementBinding \<Rightarrow> bytes" where
  "eligible_bytes e = (let binding = EncodeStoragePayoutBinding (ssb_binding e)
     in hash_bytes (ssb_storage_id e) @ le_bytes 4 (of_nat (length binding) :: u32) @ binding)"

definition eligible_ok :: "StorageSettlementBinding \<Rightarrow> bool" where
  "eligible_ok e \<longleftrightarrow> ssb_storage_id e \<noteq> 0
     \<and> (let binding = EncodeStoragePayoutBinding (ssb_binding e)
        in length binding = 6344 \<and> DecodeStoragePayoutBinding binding \<noteq> None)"

definition entry_bytes :: "StorageSettlementEntry \<Rightarrow> bytes" where
  "entry_bytes e = hash_bytes (sse_funding_operation_id e) @ [sse_slot e] @ hash_bytes (sse_storage_id e)
     @ hash_bytes (sse_payout_account e) @ le_bytes 8 (sse_verified_unit_seconds e) @ le_bytes 8 (sse_amount e)"

definition entry_ok :: "StorageSettlementEntry \<Rightarrow> bool" where
  "entry_ok e \<longleftrightarrow> sse_funding_operation_id e \<noteq> 0 \<and> sse_payout_account e \<noteq> 0 \<and> sse_storage_id e \<noteq> 0
     \<and> sse_verified_unit_seconds e \<noteq> 0"

definition entry_key :: "StorageSettlementEntry \<Rightarrow> hash256 \<times> u8 \<times> StorageId \<times> AccountId" where
  "entry_key e = (sse_funding_operation_id e, sse_slot e, sse_storage_id e, sse_payout_account e)"

text \<open>
  \<^verbatim>\<open>SerializeSettlementBody\<close>. In the first two actions the \<^verbatim>\<open>BinaryWriter\<close> throws exactly when the
  whole body would exceed its limit, and the exception becomes \<^verbatim>\<open>std::nullopt\<close>.
\<close>

definition limited :: "bytes \<Rightarrow> bytes option" where
  "limited out = (if length out > SETTLEMENT_BODY_LIMIT then None else Some out)"

definition SerializeSettlementBody :: "StorageSettlement \<Rightarrow> bytes option" where
  "SerializeSettlementBody s =
     (if st_period_start_utc s = 0 \<or> length (st_entries s) > MAX_STORAGE_SETTLEMENT_ENTRIES then None
      else case st_action s of
        PREPARE \<Rightarrow>
          if st_entries s \<noteq> [] \<or> st_period_end_utc s \<noteq> 0 \<or> st_evidence_root s \<noteq> 0 \<or> st_activation_witnesses s \<noteq> [] then None
          else if st_funded_term_id s = 0 \<or> st_preparation_id s \<noteq> 0 \<or> st_assignment_epoch s = 0 \<or> st_manifest s \<noteq> []
            \<or> st_eligible s = [] \<or> length (st_eligible s) > 20 then None
          else if \<not> list_all eligible_ok (st_eligible s) \<or> \<not> strictly_increasing (map ssb_storage_id (st_eligible s)) then None
          else limited (settlement_prefix s @ hash_bytes (st_funded_term_id s) @ le_bytes 8 (st_assignment_epoch s)
            @ le_bytes 4 (of_nat (length (st_eligible s)) :: u32) @ concat (map eligible_bytes (st_eligible s)))
      | ACTIVATE \<Rightarrow>
          if st_entries s \<noteq> [] \<or> st_period_end_utc s \<noteq> 0 \<or> st_evidence_root s \<noteq> 0 \<or> st_activation_witnesses s \<noteq> [] then None
          else if st_preparation_id s = 0 \<or> st_funded_term_id s \<noteq> 0 \<or> st_assignment_epoch s \<noteq> 0 \<or> st_eligible s \<noteq> []
            \<or> st_manifest s = [] \<or> length (st_manifest s) > 3988 then None
          else if \<not> list_all (\<lambda>c. c \<noteq> 0) (st_manifest s) \<or> \<not> distinct (st_manifest s) then None
          else limited (settlement_prefix s @ hash_bytes (st_preparation_id s)
            @ le_bytes 4 (of_nat (length (st_manifest s)) :: u32) @ concat (map hash_bytes (st_manifest s)))
      | PAY \<Rightarrow>
          if st_funded_term_id s \<noteq> 0 \<or> st_preparation_id s \<noteq> 0 \<or> st_assignment_epoch s \<noteq> 0 \<or> st_eligible s \<noteq> []
            \<or> st_manifest s \<noteq> [] then None
          else if st_period_end_utc s \<le> st_period_start_utc s \<or> st_evidence_root s = 0
            \<or> length (st_activation_witnesses s) > MAX_OPERATION_PAYLOAD_BYTES div 32 then None
          else if SETTLEMENT_HEADER_SIZE + length (st_entries s) * STORAGE_SETTLEMENT_ENTRY_SIZE + 4
                 + 32 * length (st_activation_witnesses s) > SETTLEMENT_BODY_LIMIT then None
          else if \<not> list_all entry_ok (st_entries s) \<or> \<not> strictly_increasing (map entry_key (st_entries s)) then None
          else if \<not> list_all (\<lambda>i. i \<noteq> 0) (st_activation_witnesses s) \<or> \<not> strictly_increasing (st_activation_witnesses s) then None
          else Some (settlement_prefix s @ le_bytes 8 (st_period_end_utc s) @ hash_bytes (st_evidence_root s)
            @ le_bytes 4 (of_nat (length (st_entries s)) :: u32) @ concat (map entry_bytes (st_entries s))
            @ le_bytes 4 (of_nat (length (st_activation_witnesses s)) :: u32)
            @ concat (map hash_bytes (st_activation_witnesses s))))"

definition ComputeStorageSettlementDigest :: "crypto \<Rightarrow> hash256 \<Rightarrow> StorageSettlement \<Rightarrow> hash256 option" where
  "ComputeStorageSettlementDigest C network_binding s =
     (case SerializeSettlementBody s of None \<Rightarrow> None
      | Some body \<Rightarrow>
        if network_binding = 0 then None
        else ComputeSha256 C [str ''CYBOU/STORAGE-SETTLEMENT'', hash_bytes network_binding, body])"

definition SerializeStorageSettlement :: "StorageSettlement \<Rightarrow> bytes option" where
  "SerializeStorageSettlement s =
     (case SerializeSettlementBody s of None \<Rightarrow> None
      | Some out \<Rightarrow>
        if length (sig_ml_dsa (st_poa_signature s)) \<noteq> 3309 then None
        else Some (out @ ed_sig_bytes (sig_ed25519 (st_poa_signature s)) @ sig_ml_dsa (st_poa_signature s)))"

fun read_hashes :: "nat \<Rightarrow> bytes \<Rightarrow> hash256 list \<times> bytes" where
  "read_hashes 0 bs = ([], bs)"
| "read_hashes (Suc n) bs = (let (hs, rest) = read_hashes n (drop 32 bs) in (be_word (take 32 bs) # hs, rest))"

definition read_entry :: "bytes \<Rightarrow> StorageSettlementEntry option" where
  "read_entry bs =
     (case AccountId_FromBytes (subspan 65 32 bs) of None \<Rightarrow> None
      | Some payout \<Rightarrow> Some \<lparr> sse_funding_operation_id = be_word (subspan 0 32 bs), sse_payout_account = payout,
          sse_amount = le_word (subspan 105 8 bs), sse_slot = bs ! 32, sse_storage_id = be_word (subspan 33 32 bs),
          sse_verified_unit_seconds = le_word (subspan 97 8 bs) \<rparr>)"

fun read_entries :: "nat \<Rightarrow> bytes \<Rightarrow> (StorageSettlementEntry list \<times> bytes) option" where
  "read_entries 0 bs = Some ([], bs)"
| "read_entries (Suc n) bs =
     (case read_entry bs of None \<Rightarrow> None
      | Some e \<Rightarrow> map_option (\<lambda>(es, rest). (e # es, rest)) (read_entries n (drop STORAGE_SETTLEMENT_ENTRY_SIZE bs)))"

text \<open>The loop over eligible bindings, with the \<^verbatim>\<open>BinaryReader\<close> exceptions caught by the caller.\<close>

fun read_eligible :: "nat \<Rightarrow> bytes \<Rightarrow> exn + (StorageSettlementBinding list \<times> bytes) option" where
  "read_eligible 0 bs = Inr (Some ([], bs))"
| "read_eligible (Suc n) bs =
     bindE (reader_Array 32 bs) (\<lambda>(sid, bs). bindE (reader_Bytes 6344 bs) (\<lambda>(f, bs).
       case DecodeStoragePayoutBinding f of None \<Rightarrow> Inr None
       | Some b \<Rightarrow> bindE (read_eligible n bs) (\<lambda>r.
           Inr (map_option (\<lambda>(es, rest). (\<lparr> ssb_storage_id = sid, ssb_binding = b \<rparr> # es, rest)) r))))"

fun read_manifest :: "nat \<Rightarrow> bytes \<Rightarrow> exn + (ChunkId list \<times> bytes)" where
  "read_manifest 0 bs = Inr ([], bs)"
| "read_manifest (Suc n) bs =
     bindE (reader_Array 32 bs) (\<lambda>(c, bs). bindE (read_manifest n bs) (\<lambda>(cs, bs). Inr (c # cs, bs)))"

definition poa_signature_of :: "bytes \<Rightarrow> IdentityHybridSignature" where
  "poa_signature_of sig = \<lparr> sig_ed25519 = be_word (take 64 sig), sig_ml_dsa = drop 64 sig \<rparr>"

definition empty_settlement :: "u64 \<Rightarrow> u64 \<Rightarrow> StorageSettlementAction \<Rightarrow> bytes \<Rightarrow> StorageSettlement" where
  "empty_settlement period start action sig = \<lparr> st_period = period, st_period_start_utc = start, st_entries = [],
     st_poa_signature = poa_signature_of sig, st_action = action, st_funded_term_id = 0, st_preparation_id = 0,
     st_assignment_epoch = 0, st_eligible = [], st_manifest = [], st_period_end_utc = 0, st_evidence_root = 0,
     st_activation_witnesses = [] \<rparr>"

definition checked_settlement :: "StorageSettlement \<Rightarrow> StorageSettlement option" where
  "checked_settlement s = (if SerializeSettlementBody s = None then None else Some s)"

definition DeserializeStorageSettlement :: "bytes \<Rightarrow> StorageSettlement option" where
  "DeserializeStorageSettlement bs =
     (if length bs < 17 + POA_SIGNATURE_SIZE \<or> length bs > MAX_OPERATION_PAYLOAD_BYTES - 1 then None
      else let period = le_word (subspan 0 8 bs); start = le_word (subspan 8 8 bs);
               sig = drop (length bs - POA_SIGNATURE_SIZE) bs;
               body = subspan 17 (length bs - 17 - POA_SIGNATURE_SIZE) bs
        in if bs ! 16 = action_code PREPARE then
             if length bs < 17 + 44 + POA_SIGNATURE_SIZE then None
             else Option.bind (catch_none (bindE (reader_Array 32 body) (\<lambda>(term_id, r). bindE (reader_U64 r) (\<lambda>(epoch, r).
               bindE (reader_U32 r) (\<lambda>(count, r).
                 if count = 0 \<or> count > 20 \<or> unat count > (length bs - POA_SIGNATURE_SIZE - 17 - 44) div 6380 then Inr None
                 else bindE (read_eligible (unat count) r) (\<lambda>e.
                   case e of None \<Rightarrow> Inr None
                   | Some (es, r) \<Rightarrow> bindE (reader_Finish r) (\<lambda>_.
                     Inr (checked_settlement (empty_settlement period start PREPARE sig
                       \<lparr> st_funded_term_id := term_id, st_assignment_epoch := epoch, st_eligible := es \<rparr>))))))))) (\<lambda>r. r)
           else if bs ! 16 = action_code ACTIVATE then
             if length bs < 17 + 36 + POA_SIGNATURE_SIZE then None
             else Option.bind (catch_none (bindE (reader_Array 32 body) (\<lambda>(prep_id, r). bindE (reader_U32 r) (\<lambda>(count, r).
                 if count = 0 \<or> count > 3988 \<or> unat count > (length bs - POA_SIGNATURE_SIZE - 17 - 36) div 32 then Inr None
                 else bindE (read_manifest (unat count) r) (\<lambda>(cs, r). bindE (reader_Finish r) (\<lambda>_.
                     Inr (checked_settlement (empty_settlement period start ACTIVATE sig
                       \<lparr> st_preparation_id := prep_id, st_manifest := cs \<rparr>)))))))) (\<lambda>r. r)
           else if bs ! 16 = action_code PAY then
             if length bs < SETTLEMENT_HEADER_SIZE + 4 + POA_SIGNATURE_SIZE then None
             else let count = unat (le_word (subspan 57 4 bs) :: u32) in
               if count > MAX_STORAGE_SETTLEMENT_ENTRIES
                  \<or> count > (length bs - SETTLEMENT_HEADER_SIZE - 4 - POA_SIGNATURE_SIZE) div STORAGE_SETTLEMENT_ENTRY_SIZE then None
               else case read_entries count (drop SETTLEMENT_HEADER_SIZE bs) of None \<Rightarrow> None
                 | Some (es, rest) \<Rightarrow>
                   let witnesses = unat (le_word (take 4 rest) :: u32); tail = drop 4 rest in
                   if witnesses > (length tail - POA_SIGNATURE_SIZE) div 32
                      \<or> length tail \<noteq> witnesses * 32 + POA_SIGNATURE_SIZE then None
                   else let (ws, sig') = read_hashes witnesses tail in
                     checked_settlement (empty_settlement period start PAY sig'
                       \<lparr> st_period_end_utc := le_word (subspan 17 8 bs), st_evidence_root := be_word (subspan 25 32 bs),
                          st_entries := es, st_activation_witnesses := ws \<rparr>)
           else None)"

section \<open>Properties\<close>

text \<open>Payout bindings: a byte string decodes to a binding exactly when it is the encoding of that binding and the binding is
  well-formed (an account, an ML-DSA part of 2420 bytes, a nonempty storage proof).\<close>

theorem payout_binding_exact:
  "DecodeStoragePayoutBinding bs = Some b \<longleftrightarrow>
     spb_payout_account b \<noteq> 0 \<and> length (sig_ml_dsa (spb_authorization b)) = 2420 \<and> spb_storage_proof b \<noteq> []
     \<and> bs = EncodeStoragePayoutBinding b"
  by (simp add: DecodeStoragePayoutBinding_iff binding_wf_def)

end
