(* ===== verification/Operation.thy ===== *)
theory Operation
  imports Settlement
begin

text \<open>
  The tagged union of protocol operations and its wire format (\<^verbatim>\<open>protocol_operation.h/.cpp\<close>), the
  operation identifier and the relay check. The seven identity-authorized variants share the shape of the
  template \<^verbatim>\<open>SerializeAuthorizedPayload\<close>; the locale \<open>authorized_format\<close> proves their round trip once from
  the contract of the payload codec.
\<close>

section \<open>The authorization prefix\<close>

definition IDENTITY_OPERATION_AUTH_SIZE :: nat where
  "IDENTITY_OPERATION_AUTH_SIZE = 32 + 8 + 8 + 1 + 32 + 64 + 2420"

definition SerializeIdentityOperationAuthorization ::
  "IdentityOperationAuthorization \<Rightarrow> IdentityOperationKind \<Rightarrow> bytes option" where
  "SerializeIdentityOperationAuthorization auth expected_kind =
     (if ioa_kind auth \<noteq> expected_kind \<or> ioa_account_id auth = 0 \<or> length (sig_ml_dsa (ioa_signature auth)) \<noteq> 2420
         \<or> ioa_payload_commitment auth = 0 \<or> sig_ed25519 (ioa_signature auth) = 0
         \<or> \<not> HasNonzero (sig_ml_dsa (ioa_signature auth)) then None
      else Some (hash_bytes (ioa_account_id auth) @ le_bytes 8 (ioa_nonce auth) @ le_bytes 8 (ioa_key_epoch auth)
        @ [kind_code (ioa_kind auth)] @ hash_bytes (ioa_payload_commitment auth)
        @ ed_sig_bytes (sig_ed25519 (ioa_signature auth)) @ sig_ml_dsa (ioa_signature auth)))"

definition DeserializeIdentityOperationAuthorization ::
  "bytes \<Rightarrow> IdentityOperationKind \<Rightarrow> IdentityOperationAuthorization option" where
  "DeserializeIdentityOperationAuthorization bs expected_kind =
     (if length bs \<noteq> IDENTITY_OPERATION_AUTH_SIZE then None
      else case AccountId_FromBytes (take 32 bs) of None \<Rightarrow> None
        | Some account \<Rightarrow>
          if bs ! 48 \<noteq> kind_code expected_kind then None
          else let auth = \<lparr> ioa_account_id = account, ioa_nonce = le_word (subspan 32 8 bs),
                     ioa_key_epoch = le_word (subspan 40 8 bs), ioa_kind = expected_kind,
                     ioa_payload_commitment = be_word (subspan 49 32 bs),
                     ioa_signature = \<lparr> sig_ed25519 = be_word (subspan 81 64 bs), sig_ml_dsa = drop 145 bs \<rparr> \<rparr>
            in if ioa_payload_commitment auth = 0 \<or> sig_ed25519 (ioa_signature auth) = 0
                  \<or> \<not> HasNonzero (sig_ml_dsa (ioa_signature auth)) then None
               else Some auth)"

text \<open>The templates: a payload, its codec and its commitment (which may throw for names).\<close>

definition SerializeAuthorizedPayload ::
  "IdentityOperationAuthorization \<Rightarrow> IdentityOperationKind \<Rightarrow> 'p \<Rightarrow> ('p \<Rightarrow> exn + hash256 option) \<Rightarrow> ('p \<Rightarrow> bytes option)
   \<Rightarrow> exn + bytes option" where
  "SerializeAuthorizedPayload auth kind payload commitment_fn serialize_fn =
     bindE (commitment_fn payload) (\<lambda>commitment.
       case (serialize_fn payload, commitment) of
         (Some payload_bytes, Some c) \<Rightarrow>
           if c \<noteq> ioa_payload_commitment auth then Inr None
           else Inr (map_option (\<lambda>out. out @ payload_bytes) (SerializeIdentityOperationAuthorization auth kind))
       | _ \<Rightarrow> Inr None)"

definition DeserializeAuthorizedPayload ::
  "IdentityOperationKind \<Rightarrow> ('p \<Rightarrow> exn + hash256 option) \<Rightarrow> (bytes \<Rightarrow> 'p option) \<Rightarrow> bytes
   \<Rightarrow> exn + (IdentityOperationAuthorization \<times> 'p) option" where
  "DeserializeAuthorizedPayload kind commitment_fn deserialize_fn bs =
     (case (DeserializeIdentityOperationAuthorization (take IDENTITY_OPERATION_AUTH_SIZE bs) kind,
            deserialize_fn (drop IDENTITY_OPERATION_AUTH_SIZE bs)) of
        (Some auth, Some payload) \<Rightarrow>
          bindE (commitment_fn payload) (\<lambda>c.
            if c \<noteq> Some (ioa_payload_commitment auth) then Inr None else Inr (Some (auth, payload)))
      | _ \<Rightarrow> Inr None)"

definition mapE :: "('a \<Rightarrow> 'b) \<Rightarrow> exn + 'a option \<Rightarrow> exn + 'b option" where
  "mapE f m = bindE m (\<lambda>r. Inr (map_option f r))"

abbreviation (input) no_throw :: "('a \<Rightarrow> 'b) \<Rightarrow> 'a \<Rightarrow> exn + 'b" where
  "no_throw f \<equiv> (\<lambda>x. Inr (f x))"

definition AUTHORIZED_PAYMENT_SIZE :: nat where "AUTHORIZED_PAYMENT_SIZE = IDENTITY_OPERATION_AUTH_SIZE + PAYMENT_PAYLOAD_SIZE"
definition AUTHORIZED_SYSTEM_LOCK_SIZE :: nat where "AUTHORIZED_SYSTEM_LOCK_SIZE = IDENTITY_OPERATION_AUTH_SIZE + SYSTEM_LOCK_PAYLOAD_SIZE"
definition AUTHORIZED_NAME_COMMIT_SIZE :: nat where "AUTHORIZED_NAME_COMMIT_SIZE = IDENTITY_OPERATION_AUTH_SIZE + 32"
definition AUTHORIZED_NAME_REVEAL_SIZE :: nat where "AUTHORIZED_NAME_REVEAL_SIZE = IDENTITY_OPERATION_AUTH_SIZE + NAME_REVEAL_PAYLOAD_SIZE"
definition AUTHORIZED_REVOKE_PUBLICATION_SIZE :: nat where
  "AUTHORIZED_REVOKE_PUBLICATION_SIZE = IDENTITY_OPERATION_AUTH_SIZE + REVOKE_PUBLICATION_PAYLOAD_SIZE"
definition AUTHORIZED_STORAGE_LEASE_SIZE :: nat where
  "AUTHORIZED_STORAGE_LEASE_SIZE = IDENTITY_OPERATION_AUTH_SIZE + STORAGE_LEASE_PAYLOAD_SIZE"


section \<open>The authorized variants\<close>

definition SerializePayment :: "crypto \<Rightarrow> AuthorizedPayment \<Rightarrow> exn + bytes option" where
  "SerializePayment C op = SerializeAuthorizedPayload (ap_authorization op) PAYMENT (ap_payment op)
     (no_throw (ComputePaymentPayloadCommitment C)) SerializePaymentPayload"

definition DeserializePayment :: "crypto \<Rightarrow> bytes \<Rightarrow> exn + AuthorizedPayment option" where
  "DeserializePayment C bs =
     (if length bs \<noteq> AUTHORIZED_PAYMENT_SIZE then Inr None
      else mapE (\<lambda>(a, p). \<lparr> ap_authorization = a, ap_payment = p \<rparr>)
        (DeserializeAuthorizedPayload PAYMENT (no_throw (ComputePaymentPayloadCommitment C)) DeserializePaymentPayload bs))"

definition SerializeSystemLock :: "crypto \<Rightarrow> AuthorizedSystemLock \<Rightarrow> exn + bytes option" where
  "SerializeSystemLock C op = SerializeAuthorizedPayload (asl_authorization op) SYSTEM_LOCK (asl_lock op)
     (no_throw (ComputeSystemLockPayloadCommitment C)) SerializeSystemLockPayload"

definition DeserializeSystemLock :: "crypto \<Rightarrow> bytes \<Rightarrow> exn + AuthorizedSystemLock option" where
  "DeserializeSystemLock C bs =
     (if length bs \<noteq> AUTHORIZED_SYSTEM_LOCK_SIZE then Inr None
      else mapE (\<lambda>(a, p). \<lparr> asl_authorization = a, asl_lock = p \<rparr>)
        (DeserializeAuthorizedPayload SYSTEM_LOCK (no_throw (ComputeSystemLockPayloadCommitment C)) DeserializeSystemLockPayload bs))"

definition SerializeNameCommit :: "crypto \<Rightarrow> AuthorizedNameCommit \<Rightarrow> exn + bytes option" where
  "SerializeNameCommit C op = SerializeAuthorizedPayload (anc_authorization op) NAME_COMMIT (anc_commit op)
     (ComputeNameCommitPayloadCommitment C) SerializeNameCommitPayload"

definition DeserializeNameCommit :: "crypto \<Rightarrow> bytes \<Rightarrow> exn + AuthorizedNameCommit option" where
  "DeserializeNameCommit C bs =
     (if length bs \<noteq> AUTHORIZED_NAME_COMMIT_SIZE then Inr None
      else mapE (\<lambda>(a, p). \<lparr> anc_authorization = a, anc_commit = p \<rparr>)
        (DeserializeAuthorizedPayload NAME_COMMIT (ComputeNameCommitPayloadCommitment C) DeserializeNameCommitPayload bs))"

definition SerializeNameReveal :: "crypto \<Rightarrow> AuthorizedNameReveal \<Rightarrow> exn + bytes option" where
  "SerializeNameReveal C op = SerializeAuthorizedPayload (anr_authorization op) NAME_REVEAL (anr_reveal op)
     (ComputeNameRevealPayloadCommitment C) SerializeNameRevealPayload"

definition DeserializeNameReveal :: "crypto \<Rightarrow> bytes \<Rightarrow> exn + AuthorizedNameReveal option" where
  "DeserializeNameReveal C bs =
     (if length bs \<noteq> AUTHORIZED_NAME_REVEAL_SIZE then Inr None
      else mapE (\<lambda>(a, p). \<lparr> anr_authorization = a, anr_reveal = p \<rparr>)
        (DeserializeAuthorizedPayload NAME_REVEAL (ComputeNameRevealPayloadCommitment C) DeserializeNameRevealPayload bs))"

definition SerializeRootPublicationOperation :: "crypto \<Rightarrow> AuthorizedRootPublication \<Rightarrow> exn + bytes option" where
  "SerializeRootPublicationOperation C op = SerializeAuthorizedPayload (arp_authorization op) ROOT_PUBLICATION
     (arp_publication op) (no_throw (ComputeRootPublicationPayloadCommitment C)) SerializeRootPublication"

definition DeserializeRootPublicationOperation :: "crypto \<Rightarrow> bytes \<Rightarrow> exn + AuthorizedRootPublication option" where
  "DeserializeRootPublicationOperation C bs =
     (if length bs < IDENTITY_OPERATION_AUTH_SIZE \<or> length bs > ROOT_PUBLICATION_MAX_OPERATION_BYTES then Inr None
      else mapE (\<lambda>(a, p). \<lparr> arp_authorization = a, arp_publication = p \<rparr>)
        (DeserializeAuthorizedPayload ROOT_PUBLICATION (no_throw (ComputeRootPublicationPayloadCommitment C))
           DeserializeRootPublication bs))"

definition SerializeRevokePublicationOperation :: "crypto \<Rightarrow> AuthorizedRevokePublication \<Rightarrow> exn + bytes option" where
  "SerializeRevokePublicationOperation C op = SerializeAuthorizedPayload (arv_authorization op) REVOKE_PUBLICATION
     (arv_revoke op) (no_throw (ComputeRevokePublicationPayloadCommitment C)) SerializeRevokePublicationPayload"

definition DeserializeRevokePublicationOperation :: "crypto \<Rightarrow> bytes \<Rightarrow> exn + AuthorizedRevokePublication option" where
  "DeserializeRevokePublicationOperation C bs =
     (if length bs \<noteq> AUTHORIZED_REVOKE_PUBLICATION_SIZE then Inr None
      else mapE (\<lambda>(a, p). \<lparr> arv_authorization = a, arv_revoke = p \<rparr>)
        (DeserializeAuthorizedPayload REVOKE_PUBLICATION (no_throw (ComputeRevokePublicationPayloadCommitment C))
           DeserializeRevokePublicationPayload bs))"

definition SerializeStorageLeaseOperation :: "crypto \<Rightarrow> AuthorizedStorageLease \<Rightarrow> exn + bytes option" where
  "SerializeStorageLeaseOperation C op = SerializeAuthorizedPayload (asle_authorization op) STORAGE_LEASE (asle_lease op)
     (no_throw (ComputeStorageLeasePayloadCommitment C)) SerializeStorageLeasePayload"

definition DeserializeStorageLeaseOperation :: "crypto \<Rightarrow> bytes \<Rightarrow> exn + AuthorizedStorageLease option" where
  "DeserializeStorageLeaseOperation C bs =
     (if length bs \<noteq> AUTHORIZED_STORAGE_LEASE_SIZE then Inr None
      else mapE (\<lambda>(a, p). \<lparr> asle_authorization = a, asle_lease = p \<rparr>)
        (DeserializeAuthorizedPayload STORAGE_LEASE (no_throw (ComputeStorageLeasePayloadCommitment C))
           DeserializeStorageLeasePayload bs))"


section \<open>IdentityRotate\<close>

definition IDENTITY_ROTATE_SIZE :: nat where
  "IDENTITY_ROTATE_SIZE = 32 + 32 + 1952 + 32 + 1312 + 1218 + 8 + 8 + 2 * (64 + 3309) + 64 + 2420"

definition WritePublic :: "IdentityHybridPublicKey \<Rightarrow> bytes" where
  "WritePublic key = hash_bytes (pk_ed25519 key) @ pk_ml_dsa key"

definition WriteSignature :: "IdentityHybridSignature \<Rightarrow> bytes" where
  "WriteSignature signature = ed_sig_bytes (sig_ed25519 signature) @ sig_ml_dsa signature"

definition hybrid_key_ok :: "IdentityKeyPurpose \<Rightarrow> nat \<Rightarrow> IdentityHybridPublicKey \<Rightarrow> bool" where
  "hybrid_key_ok p n key \<longleftrightarrow> purpose key = p \<and> length (pk_ml_dsa key) = n \<and> pk_ed25519 key \<noteq> 0 \<and> HasNonzero (pk_ml_dsa key)"

definition hybrid_sig_ok :: "nat \<Rightarrow> IdentityHybridSignature \<Rightarrow> bool" where
  "hybrid_sig_ok n sig \<longleftrightarrow> length (sig_ml_dsa sig) = n \<and> sig_ed25519 sig \<noteq> 0 \<and> HasNonzero (sig_ml_dsa sig)"

definition SerializeIdentityRotate :: "crypto \<Rightarrow> IdentityRotate \<Rightarrow> bytes option" where
  "SerializeIdentityRotate C op =
     (if rot_account_id op = 0 \<or> \<not> hybrid_key_ok RECOVERY_ROOT 1952 (rot_new_recovery_key op)
         \<or> \<not> hybrid_key_ok AUTHORIZATION 1312 (rot_new_authorization_key op)
         \<or> \<not> hybrid_sig_ok 3309 (rot_old_recovery_signature op) \<or> \<not> hybrid_sig_ok 3309 (rot_new_recovery_pop op)
         \<or> \<not> hybrid_sig_ok 2420 (rot_new_authorization_pop op)
         \<or> DecodeIdentityKemPackage C (kem_bytes (rot_new_kem_package op)) = None then None
      else let out = hash_bytes (rot_account_id op) @ WritePublic (rot_new_recovery_key op)
             @ WritePublic (rot_new_authorization_key op) @ kem_bytes (rot_new_kem_package op)
             @ le_bytes 8 (rot_nonce op) @ le_bytes 8 (rot_key_epoch op) @ WriteSignature (rot_old_recovery_signature op)
             @ WriteSignature (rot_new_recovery_pop op) @ WriteSignature (rot_new_authorization_pop op)
        in if length out \<noteq> IDENTITY_ROTATE_SIZE then None else Some out)"

definition DeserializeIdentityRotate :: "crypto \<Rightarrow> bytes \<Rightarrow> IdentityRotate option" where
  "DeserializeIdentityRotate C bs =
     (if length bs \<noteq> IDENTITY_ROTATE_SIZE then None
      else case AccountId_FromBytes (take 32 bs) of None \<Rightarrow> None
        | Some account \<Rightarrow>
          let op = \<lparr> rot_account_id = account,
                rot_new_recovery_key = \<lparr> purpose = RECOVERY_ROOT, pk_ed25519 = be_word (subspan 32 32 bs), pk_ml_dsa = subspan 64 1952 bs \<rparr>,
                rot_new_authorization_key = \<lparr> purpose = AUTHORIZATION, pk_ed25519 = be_word (subspan 2016 32 bs), pk_ml_dsa = subspan 2048 1312 bs \<rparr>,
                rot_new_kem_package = be_word (subspan 3360 1218 bs), rot_nonce = le_word (subspan 4578 8 bs),
                rot_key_epoch = le_word (subspan 4586 8 bs),
                rot_old_recovery_signature = \<lparr> sig_ed25519 = be_word (subspan 4594 64 bs), sig_ml_dsa = subspan 4658 3309 bs \<rparr>,
                rot_new_recovery_pop = \<lparr> sig_ed25519 = be_word (subspan 7967 64 bs), sig_ml_dsa = subspan 8031 3309 bs \<rparr>,
                rot_new_authorization_pop = \<lparr> sig_ed25519 = be_word (subspan 11340 64 bs), sig_ml_dsa = subspan 11404 2420 bs \<rparr> \<rparr>
          in if DecodeIdentityKemPackage C (kem_bytes (rot_new_kem_package op)) = None then None
             else if SerializeIdentityRotate C op = None then None else Some op)"


section \<open>The tagged union\<close>

datatype ProtocolOperation =
    OpAccountCreate AccountCreateOp
  | OpPayment AuthorizedPayment
  | OpIdentityRotate IdentityRotate
  | OpSystemLock AuthorizedSystemLock
  | OpNameCommit AuthorizedNameCommit
  | OpNameReveal AuthorizedNameReveal
  | OpRootPublication AuthorizedRootPublication
  | OpRevokePublication AuthorizedRevokePublication
  | OpStorageLease AuthorizedStorageLease
  | OpStorageSettlement StorageSettlement

definition TaggedOperationBytes :: "u8 \<Rightarrow> exn + bytes option \<Rightarrow> exn + bytes option" where
  "TaggedOperationBytes kind body = mapE (\<lambda>bs. kind # bs) body"

fun SerializeProtocolOperation :: "crypto \<Rightarrow> ProtocolOperation \<Rightarrow> exn + bytes option" where
  "SerializeProtocolOperation C (OpAccountCreate op) = TaggedOperationBytes 1 (Inr (SerializeAccountCreateOp C op))"
| "SerializeProtocolOperation C (OpPayment op) = TaggedOperationBytes 2 (SerializePayment C op)"
| "SerializeProtocolOperation C (OpIdentityRotate op) = TaggedOperationBytes 3 (Inr (SerializeIdentityRotate C op))"
| "SerializeProtocolOperation C (OpSystemLock op) = TaggedOperationBytes 4 (SerializeSystemLock C op)"
| "SerializeProtocolOperation C (OpNameCommit op) = TaggedOperationBytes 5 (SerializeNameCommit C op)"
| "SerializeProtocolOperation C (OpNameReveal op) = TaggedOperationBytes 6 (SerializeNameReveal C op)"
| "SerializeProtocolOperation C (OpRootPublication op) =
     bindE (SerializeRootPublicationOperation C op) (\<lambda>body. case body of None \<Rightarrow> Inr None
       | Some bs \<Rightarrow> if length bs + 1 > ROOT_PUBLICATION_MAX_OPERATION_BYTES then Inr None
           else TaggedOperationBytes 7 (Inr (Some bs)))"
| "SerializeProtocolOperation C (OpRevokePublication op) = TaggedOperationBytes 8 (SerializeRevokePublicationOperation C op)"
| "SerializeProtocolOperation C (OpStorageLease op) = TaggedOperationBytes 9 (SerializeStorageLeaseOperation C op)"
| "SerializeProtocolOperation C (OpStorageSettlement op) = TaggedOperationBytes 10 (Inr (SerializeStorageSettlement op))"

definition DeserializeProtocolOperation :: "crypto \<Rightarrow> bytes \<Rightarrow> exn + ProtocolOperation option" where
  "DeserializeProtocolOperation C bs =
     (case bs of [] \<Rightarrow> Inr None
      | kind # body \<Rightarrow>
        if kind = 1 then
          (if length bs \<noteq> 1 + ACCOUNT_CREATE_SIZE then Inr None else Inr (map_option OpAccountCreate (DeserializeAccountCreateOp C body)))
        else if kind = 2 then
          (if length bs \<noteq> 1 + AUTHORIZED_PAYMENT_SIZE then Inr None else mapE OpPayment (DeserializePayment C body))
        else if kind = 3 then
          (if length bs \<noteq> 1 + IDENTITY_ROTATE_SIZE then Inr None else Inr (map_option OpIdentityRotate (DeserializeIdentityRotate C body)))
        else if kind = 4 then
          (if length bs \<noteq> 1 + AUTHORIZED_SYSTEM_LOCK_SIZE then Inr None else mapE OpSystemLock (DeserializeSystemLock C body))
        else if kind = 5 then
          (if length bs < 1 + AUTHORIZED_NAME_COMMIT_SIZE then Inr None else mapE OpNameCommit (DeserializeNameCommit C body))
        else if kind = 6 then
          (if length bs < 1 + AUTHORIZED_NAME_REVEAL_SIZE then Inr None else mapE OpNameReveal (DeserializeNameReveal C body))
        else if kind = 7 then
          (if length bs > ROOT_PUBLICATION_MAX_OPERATION_BYTES then Inr None
           else mapE OpRootPublication (DeserializeRootPublicationOperation C body))
        else if kind = 8 then
          (if length bs \<noteq> 1 + AUTHORIZED_REVOKE_PUBLICATION_SIZE then Inr None
           else mapE OpRevokePublication (DeserializeRevokePublicationOperation C body))
        else if kind = 9 then
          (if length bs \<noteq> 1 + AUTHORIZED_STORAGE_LEASE_SIZE then Inr None
           else mapE OpStorageLease (DeserializeStorageLeaseOperation C body))
        else if kind = 10 then
          (if length bs > MAX_OPERATION_PAYLOAD_BYTES then Inr None
           else Inr (map_option OpStorageSettlement (DeserializeStorageSettlement body)))
        else Inr None)"

fun AuthorizingAccount :: "ProtocolOperation \<Rightarrow> AccountId option" where
  "AuthorizingAccount (OpAccountCreate op) = None"
| "AuthorizingAccount (OpStorageSettlement op) = None"
| "AuthorizingAccount (OpIdentityRotate op) = Some (rot_account_id op)"
| "AuthorizingAccount (OpPayment op) = Some (ioa_account_id (ap_authorization op))"
| "AuthorizingAccount (OpSystemLock op) = Some (ioa_account_id (asl_authorization op))"
| "AuthorizingAccount (OpNameCommit op) = Some (ioa_account_id (anc_authorization op))"
| "AuthorizingAccount (OpNameReveal op) = Some (ioa_account_id (anr_authorization op))"
| "AuthorizingAccount (OpRootPublication op) = Some (ioa_account_id (arp_authorization op))"
| "AuthorizingAccount (OpRevokePublication op) = Some (ioa_account_id (arv_authorization op))"
| "AuthorizingAccount (OpStorageLease op) = Some (ioa_account_id (asle_authorization op))"

definition OperationIdOfBytes :: "crypto \<Rightarrow> bytes \<Rightarrow> hash256 option" where
  "OperationIdOfBytes C serialized = (if serialized = [] then None else ComputeSha256 C [str ''CYBOU/OP-ID'', serialized])"

definition ComputeOperationId :: "crypto \<Rightarrow> ProtocolOperation \<Rightarrow> exn + hash256 option" where
  "ComputeOperationId C op = bindE (SerializeProtocolOperation C op) (\<lambda>bytes.
     case bytes of None \<Rightarrow> Inr None | Some bs \<Rightarrow> Inr (OperationIdOfBytes C bs))"


section \<open>Relay proofs\<close>

text \<open>The common tail of the authorized variants: payload commitment, expected kind, signature of the current key.\<close>

definition relay_authorized ::
  "crypto \<Rightarrow> hash256 \<Rightarrow> IdentityRegistry \<Rightarrow> IdentityOperationAuthorization \<Rightarrow> IdentityOperationKind \<Rightarrow> exn + hash256 option
   \<Rightarrow> exn + bool" where
  "relay_authorized C network_binding ids auth expected_kind commitment =
     (case Registry_Find ids (ioa_account_id auth) of None \<Rightarrow> Inr False
      | Some record \<Rightarrow> bindE commitment (\<lambda>c.
          Inr (case (c, ComputeIdentityOperationDigest C network_binding auth) of
             (Some c, Some digest) \<Rightarrow> ioa_kind auth = expected_kind \<and> ioa_payload_commitment auth = c
               \<and> VerifyIdentityMessage C (ir_authorization_key record) (ioa_signature auth) (hash_bytes digest)
           | _ \<Rightarrow> False)))"

fun relay_proofs :: "crypto \<Rightarrow> hash256 \<Rightarrow> IdentityRegistry \<Rightarrow> ProtocolOperation \<Rightarrow> exn + bool" where
  "relay_proofs C network_binding ids (OpAccountCreate op) =
     (if acw_network_binding (aco_work op) \<noteq> network_binding \<or> acw_account_id (aco_work op) \<noteq> aco_account_id op then Inr False
      else let package_id = (case ComputeAuthorizationKeyId C (authorization_key (aco_authorization op)) of None \<Rightarrow> None
                 | Some _ \<Rightarrow> ComputeIdentityKemPackageCommitment C network_binding (aco_account_id op) 0 (aco_kem_package op))
        in case package_id of None \<Rightarrow> Inr False
           | Some package_id \<Rightarrow>
             (case (ComputeAccountCreateAuthorizationCommitment C (aco_authorization op) package_id,
                    ComputeAccountCreatePopDigest C network_binding (aco_account_id op) (aco_authorization op) package_id) of
                (Some commitment, Some digest) \<Rightarrow> Inr (acw_authorization_commitment (aco_work op) = commitment
                  \<and> VerifyIdentityMessage C (recovery_root (aco_authorization op)) (aco_recovery_pop op) (hash_bytes digest)
                  \<and> VerifyIdentityMessage C (authorization_key (aco_authorization op)) (aco_authorization_pop op) (hash_bytes digest))
              | _ \<Rightarrow> Inr False))"
| "relay_proofs C network_binding ids (OpIdentityRotate op) =
     (case Registry_Find ids (rot_account_id op) of None \<Rightarrow> Inr False
      | Some record \<Rightarrow>
        (case (ComputeIdentityRotateDigest C network_binding op,
               ComputeIdentityKemPackageCommitment C network_binding (rot_account_id op) (rot_key_epoch op) (rot_new_kem_package op)) of
           (Some digest, Some package_id) \<Rightarrow> Inr (ComputeRecoveryKeyId C (rot_new_recovery_key op) \<noteq> None
             \<and> ComputeAuthorizationKeyId C (rot_new_authorization_key op) \<noteq> None
             \<and> VerifyIdentityMessage C (ir_recovery_key record) (rot_old_recovery_signature op) (hash_bytes digest)
             \<and> VerifyIdentityMessage C (rot_new_recovery_key op) (rot_new_recovery_pop op) (hash_bytes digest)
             \<and> VerifyIdentityMessage C (rot_new_authorization_key op) (rot_new_authorization_pop op) (hash_bytes digest))
         | _ \<Rightarrow> Inr False))"
| "relay_proofs C network_binding ids (OpStorageSettlement op) = Inr False"
| "relay_proofs C network_binding ids (OpPayment op) =
     relay_authorized C network_binding ids (ap_authorization op) PAYMENT (Inr (ComputePaymentPayloadCommitment C (ap_payment op)))"
| "relay_proofs C network_binding ids (OpSystemLock op) =
     relay_authorized C network_binding ids (asl_authorization op) SYSTEM_LOCK (Inr (ComputeSystemLockPayloadCommitment C (asl_lock op)))"
| "relay_proofs C network_binding ids (OpNameCommit op) =
     relay_authorized C network_binding ids (anc_authorization op) NAME_COMMIT (ComputeNameCommitPayloadCommitment C (anc_commit op))"
| "relay_proofs C network_binding ids (OpNameReveal op) =
     relay_authorized C network_binding ids (anr_authorization op) NAME_REVEAL (ComputeNameRevealPayloadCommitment C (anr_reveal op))"
| "relay_proofs C network_binding ids (OpRootPublication op) =
     relay_authorized C network_binding ids (arp_authorization op) ROOT_PUBLICATION
       (Inr (ComputeRootPublicationPayloadCommitment C (arp_publication op)))"
| "relay_proofs C network_binding ids (OpRevokePublication op) =
     relay_authorized C network_binding ids (arv_authorization op) REVOKE_PUBLICATION
       (Inr (ComputeRevokePublicationPayloadCommitment C (arv_revoke op)))"
| "relay_proofs C network_binding ids (OpStorageLease op) =
     relay_authorized C network_binding ids (asle_authorization op) STORAGE_LEASE
       (Inr (ComputeStorageLeasePayloadCommitment C (asle_lease op)))"

definition VerifyProtocolOperationRelayProofs :: "crypto \<Rightarrow> ProtocolOperation \<Rightarrow> hash256 \<Rightarrow> IdentityRegistry \<Rightarrow> exn + bool" where
  "VerifyProtocolOperationRelayProofs C operation network_binding ids =
     (if network_binding = 0 then Inr False else relay_proofs C network_binding ids operation)"


section \<open>The authorized formats are canonical\<close>

interpretation opauth: sized_codec "\<lambda>a. SerializeIdentityOperationAuthorization a k"
  "\<lambda>bs. DeserializeIdentityOperationAuthorization bs k" IDENTITY_OPERATION_AUTH_SIZE for k
proof unfold_locales
  fix a bs assume "SerializeIdentityOperationAuthorization a k = Some bs"
  then have nz: "ioa_kind a = k" "ioa_account_id a \<noteq> 0" "length (sig_ml_dsa (ioa_signature a)) = 2420"
      "ioa_payload_commitment a \<noteq> 0" "sig_ed25519 (ioa_signature a) \<noteq> 0" "HasNonzero (sig_ml_dsa (ioa_signature a))"
    and b: "bs = hash_bytes (ioa_account_id a) @ le_bytes 8 (ioa_nonce a) @ le_bytes 8 (ioa_key_epoch a)
        @ [kind_code (ioa_kind a)] @ hash_bytes (ioa_payload_commitment a)
        @ ed_sig_bytes (sig_ed25519 (ioa_signature a)) @ sig_ml_dsa (ioa_signature a)"
    by (auto simp: SerializeIdentityOperationAuthorization_def split: if_splits)
  show l: "length bs = IDENTITY_OPERATION_AUTH_SIZE" using nz by (simp add: b IDENTITY_OPERATION_AUTH_SIZE_def)
  have f: "take 32 bs = hash_bytes (ioa_account_id a)" "subspan 32 8 bs = le_bytes 8 (ioa_nonce a)"
    "subspan 40 8 bs = le_bytes 8 (ioa_key_epoch a)" "bs ! 48 = kind_code k" "subspan 49 32 bs = hash_bytes (ioa_payload_commitment a)"
    "subspan 81 64 bs = ed_sig_bytes (sig_ed25519 (ioa_signature a))" "drop 145 bs = sig_ml_dsa (ioa_signature a)"
    using nz(1) unfolding b by (simp_all add: subspan_def nth_append)
  have "AccountId_FromBytes (hash_bytes (ioa_account_id a)) = Some (ioa_account_id a)" using nz by (simp add: AccountId_FromBytes_iff)
  then show "DeserializeIdentityOperationAuthorization bs k = Some a"
    using l nz unfolding DeserializeIdentityOperationAuthorization_def f by (simp add: be_word_be_bytes le_word_le_bytes)
next
  fix a bs assume "DeserializeIdentityOperationAuthorization bs k = Some a"
  then obtain acc where l: "length bs = 2565" and i: "AccountId_FromBytes (take 32 bs) = Some acc" and k: "bs ! 48 = kind_code k"
    and a: "a = \<lparr> ioa_account_id = acc, ioa_nonce = le_word (subspan 32 8 bs), ioa_key_epoch = le_word (subspan 40 8 bs), ioa_kind = k,
        ioa_payload_commitment = be_word (subspan 49 32 bs),
        ioa_signature = \<lparr> sig_ed25519 = be_word (subspan 81 64 bs), sig_ml_dsa = drop 145 bs \<rparr> \<rparr>"
    and nz: "ioa_payload_commitment a \<noteq> 0" "sig_ed25519 (ioa_signature a) \<noteq> 0" "HasNonzero (sig_ml_dsa (ioa_signature a))"
    by (auto simp: DeserializeIdentityOperationAuthorization_def IDENTITY_OPERATION_AUTH_SIZE_def Let_def split: if_splits option.splits)
  have f: "hash_bytes (be_word (subspan 49 32 bs)) = subspan 49 32 bs" "ed_sig_bytes (be_word (subspan 81 64 bs)) = subspan 81 64 bs"
    "le_bytes 8 (le_word (subspan 32 8 bs) :: u64) = subspan 32 8 bs" "le_bytes 8 (le_word (subspan 40 8 bs) :: u64) = subspan 40 8 bs"
    using l by (simp_all add: be_bytes_be_word le_bytes_le_word length_subspan)
  have "bs = take 32 bs @ subspan 32 8 bs @ subspan 40 8 bs @ [bs ! 48] @ subspan 49 32 bs @ subspan 81 64 bs @ drop 145 bs"
    using l subspan_drop [of 32 8 bs] subspan_drop [of 40 8 bs] nth_drop [of 48 bs] subspan_drop [of 49 32 bs] subspan_drop [of 81 64 bs]
    by simp
  then show "SerializeIdentityOperationAuthorization a k = Some bs"
    using i k nz l f by (simp add: SerializeIdentityOperationAuthorization_def a AccountId_FromBytes_iff)
qed

lemma length_auth_bytes: "SerializeIdentityOperationAuthorization a k = Some bs \<Longrightarrow> length bs = IDENTITY_OPERATION_AUTH_SIZE"
  by (rule opauth.enc_size)

text \<open>Any payload with a canonical codec gives a canonical authorized operation.\<close>

locale authorized_format = codec ser des
  for ser :: "'p \<Rightarrow> bytes option" and des :: "bytes \<Rightarrow> 'p option" +
  fixes kind :: IdentityOperationKind and commitment :: "'p \<Rightarrow> exn + hash256 option"
begin

lemma authorized_iff:
  "DeserializeAuthorizedPayload kind commitment des bs = Inr (Some (a, p)) \<longleftrightarrow>
     SerializeAuthorizedPayload a kind p commitment ser = Inr (Some bs)"
proof
  assume "DeserializeAuthorizedPayload kind commitment des bs = Inr (Some (a, p))"
  then have a: "DeserializeIdentityOperationAuthorization (take IDENTITY_OPERATION_AUTH_SIZE bs) kind = Some a"
    and p: "des (drop IDENTITY_OPERATION_AUTH_SIZE bs) = Some p" and c: "commitment p = Inr (Some (ioa_payload_commitment a))"
    by (auto simp: DeserializeAuthorizedPayload_def bindE_Inr_iff split: option.splits if_splits)
  show "SerializeAuthorizedPayload a kind p commitment ser = Inr (Some bs)"
    using opauth.enc_dec [OF a] enc_dec [OF p] c by (simp add: SerializeAuthorizedPayload_def)
next
  assume "SerializeAuthorizedPayload a kind p commitment ser = Inr (Some bs)"
  then obtain ab pb where a: "SerializeIdentityOperationAuthorization a kind = Some ab" and p: "ser p = Some pb"
    and c: "commitment p = Inr (Some (ioa_payload_commitment a))" and b: "bs = ab @ pb"
    by (auto simp: SerializeAuthorizedPayload_def bindE_Inr_iff split: option.splits if_splits)
  show "DeserializeAuthorizedPayload kind commitment des bs = Inr (Some (a, p))"
    using opauth.dec_enc [OF a] dec_enc [OF p] c length_auth_bytes [OF a] by (simp add: DeserializeAuthorizedPayload_def b)
qed

lemma authorized_length:
  "SerializeAuthorizedPayload a kind p commitment ser = Inr (Some bs) \<Longrightarrow>
   \<exists>pb. ser p = Some pb \<and> length bs = IDENTITY_OPERATION_AUTH_SIZE + length pb"
  by (cases "ser p"; cases "commitment p")
    (auto simp: SerializeAuthorizedPayload_def dest: length_auth_bytes split: option.splits if_splits)

end

interpretation apay: authorized_format SerializePaymentPayload DeserializePaymentPayload PAYMENT
  "no_throw (ComputePaymentPayloadCommitment C)" for C ..
interpretation aslock: authorized_format SerializeSystemLockPayload DeserializeSystemLockPayload SYSTEM_LOCK
  "no_throw (ComputeSystemLockPayloadCommitment C)" for C ..
interpretation ancommit: authorized_format SerializeNameCommitPayload DeserializeNameCommitPayload NAME_COMMIT
  "ComputeNameCommitPayloadCommitment C" for C ..
interpretation anreveal: authorized_format SerializeNameRevealPayload DeserializeNameRevealPayload NAME_REVEAL
  "ComputeNameRevealPayloadCommitment C" for C ..
interpretation arootpub: authorized_format SerializeRootPublication DeserializeRootPublication ROOT_PUBLICATION
  "no_throw (ComputeRootPublicationPayloadCommitment C)" for C ..
interpretation arevoke: authorized_format SerializeRevokePublicationPayload DeserializeRevokePublicationPayload REVOKE_PUBLICATION
  "no_throw (ComputeRevokePublicationPayloadCommitment C)" for C ..
interpretation aslease: authorized_format SerializeStorageLeasePayload DeserializeStorageLeasePayload STORAGE_LEASE
  "no_throw (ComputeStorageLeasePayloadCommitment C)" for C ..

lemma mapE_iff: "mapE f m = Inr (Some b) \<longleftrightarrow> (\<exists>a. m = Inr (Some a) \<and> b = f a)"
  by (auto simp: mapE_def bindE_Inr_iff)

end
