(* ===== verification/Ledger.thy ===== *)
theory Ledger
  imports Operation
begin

text \<open>
  The transitions on accounts and names: \<^verbatim>\<open>ApplyAccountCreate\<close>, \<^verbatim>\<open>ApplyNameCommit\<close>,
  \<^verbatim>\<open>ApplyNameReveal\<close> (\<^verbatim>\<open>state.cpp\<close>), \<^verbatim>\<open>ApplyPayment\<close> and \<^verbatim>\<open>ApplySystemLock\<close>
  (\<^verbatim>\<open>payment.cpp\<close>). Each returns its error and the state; the lemmas show that an error leaves the
  state as it was and that a success moves money without creating or destroying any.
\<close>

section \<open>Transitions\<close>

datatype AccountCreateStateError = NONE | INVALID_CREATE | ACCOUNT_EXISTS | RECOVERY_KEY_EXISTS | ACCOUNT_LIMIT
  | INSUFFICIENT_TREASURY | INCONSISTENT_STATE

text \<open>\<^verbatim>\<open>*TreasuryBalance(state) -= bonus\<close>; the pointer is not null where the code dereferences it.\<close>

definition debit_treasury :: "u64 \<Rightarrow> CybouState \<Rightarrow> CybouState" where
  "debit_treasury bonus st = (case CentralAuthorityFeeBalance st of None \<Rightarrow> st | Some l \<Rightarrow> loc_update l (\<lambda>b. b - bonus) st)"

text \<open>The genesis allocation the operation claims: the unclaimed allocation of its recovery key.\<close>

definition claimed_allocation :: "crypto \<Rightarrow> AccountCreateOp \<Rightarrow> CybouState \<Rightarrow> (IdentityKeyId \<times> GenesisAllocation) option" where
  "claimed_allocation C op st =
     (case ComputeRecoveryKeyId C (recovery_root (aco_authorization op)) of None \<Rightarrow> None
      | Some recovery_id \<Rightarrow>
        (case map_find (genesis_allocations st) recovery_id of None \<Rightarrow> None
         | Some allocation \<Rightarrow> if ga_claimed_by allocation \<noteq> None then None else Some (recovery_id, allocation)))"

definition create_bonus :: "CybouProtocolParameters \<Rightarrow> (IdentityKeyId \<times> GenesisAllocation) option \<Rightarrow> u64" where
  "create_bonus params claim =
     (case claim of Some (rid, allocation) \<Rightarrow> if ga_label allocation = CENTRAL_AUTHORITY_NAME then 0 else onboarding_bonus params
      | None \<Rightarrow> onboarding_bonus params)"

text \<open>The claim itself: the allocation is marked and its label, if any, becomes the name of the account.\<close>

definition claim_allocation :: "AccountId \<Rightarrow> IdentityKeyId \<Rightarrow> GenesisAllocation \<Rightarrow> CybouState \<Rightarrow> CybouState" where
  "claim_allocation account rid allocation st =
     (let st = st \<lparr> genesis_allocations := map_adjust rid (\<lambda>a. a \<lparr> ga_claimed_by := Some account \<rparr>) (genesis_allocations st) \<rparr>
      in if ga_label allocation = [] then st
         else st \<lparr> names := (names st) \<lparr>
                nr_names := map_emplace (ga_label allocation) account (nr_names (names st)),
                account_names := map_emplace account (ga_label allocation) (account_names (names st)) \<rparr> \<rparr>)"

definition genesis_balance_of :: "CybouState \<Rightarrow> (IdentityKeyId \<times> GenesisAllocation) option \<Rightarrow> u64" where
  "genesis_balance_of st claim = (case claim of None \<Rightarrow> 0
     | Some (rid, _) \<Rightarrow> (case map_find (genesis_allocations st) rid of None \<Rightarrow> 0 | Some a \<Rightarrow> ga_balance a))"

definition ApplyAccountCreate :: "crypto \<Rightarrow> AccountCreateOp \<Rightarrow> hash256 \<Rightarrow> u64 \<Rightarrow> CybouProtocolParameters \<Rightarrow> CybouState
    \<Rightarrow> AccountCreateStateError \<times> CybouState" where
  "ApplyAccountCreate C op network_binding block_height params st =
     (if length (accounts st) \<noteq> length (m_accounts (identities st)) then (INCONSISTENT_STATE, st)
      else if list_ex (\<lambda>(i, acc). Registry_Find (identities st) i = None) (accounts st) then (INCONSISTENT_STATE, st)
      else if length (accounts st) \<ge> MAX_IDENTITY_REGISTRY_ACCOUNTS then (ACCOUNT_LIMIT, st)
      else if map_contains (accounts st) (aco_account_id op) then (ACCOUNT_EXISTS, st)
      else let claim = claimed_allocation C op st; bonus = create_bonus params claim in
        if bonus \<noteq> 0 \<and> (case CentralAuthorityFeeBalance st of None \<Rightarrow> True | Some l \<Rightarrow> loc_balance st l < bonus)
        then (INSUFFICIENT_TREASURY, st)
        else case Register C op network_binding block_height params (identities st) of
          (IdentityRegistryError.NONE, registry) \<Rightarrow>
            let st1 = st \<lparr> identities := registry \<rparr>;
                st2 = (if bonus \<noteq> 0 then debit_treasury bonus st1 else st1);
                genesis_balance = genesis_balance_of st2 claim;
                st3 = (case claim of None \<Rightarrow> st2 | Some (rid, allocation) \<Rightarrow> claim_allocation (aco_account_id op) rid allocation st2)
            in (NONE, st3 \<lparr> accounts := map_emplace (aco_account_id op)
                  \<lparr> balance = genesis_balance, system_balance = bonus, onboarding_system_balance = bonus,
                    creation_height = block_height, creation_epoch = EpochForHeight block_height params \<rparr> (accounts st3) \<rparr>)
        | (IdentityRegistryError.ACCOUNT_EXISTS, _) \<Rightarrow> (ACCOUNT_EXISTS, st)
        | (IdentityRegistryError.RECOVERY_KEY_EXISTS, _) \<Rightarrow> (RECOVERY_KEY_EXISTS, st)
        | _ \<Rightarrow> (INVALID_CREATE, st))"

definition ApplyNameCommit :: "crypto \<Rightarrow> AuthorizedNameCommit \<Rightarrow> hash256 \<Rightarrow> u64 \<Rightarrow> CybouProtocolParameters \<Rightarrow> CybouState
    \<Rightarrow> exn + (NameCommitError \<times> CybouState)" where
  "ApplyNameCommit C op network_binding block_height params st =
     (let auth = anc_authorization op; account = ioa_account_id auth; commitment = ncp_commitment (anc_commit op) in
      if ioa_kind auth \<noteq> NAME_COMMIT then Inr (NameCommitError.INVALID_AUTHORIZATION, st)
      else bindE (ComputeNameCommitPayloadCommitment C (anc_commit op)) (\<lambda>expected.
        if expected \<noteq> Some (ioa_payload_commitment auth) then Inr (NameCommitError.INVALID_AUTHORIZATION, st)
        else if \<not> map_contains (accounts st) account then Inr (NameCommitError.ACCOUNT_NOT_FOUND, st)
        else if map_contains (account_names (names st)) account then Inr (NameCommitError.ACCOUNT_ALREADY_HAS_NAME, st)
        else if list_ex (\<lambda>(c, record). ncr_account_id record = account) (pending_commits (names st))
          then Inr (NameCommitError.ACCOUNT_HAS_PENDING_COMMIT, st)
        else if length (pending_commits (names st)) \<ge> unat (max_pending_name_commits params)
          then Inr (NameCommitError.COMMITMENT_LIMIT_EXCEEDED, st)
        else if map_contains (pending_commits (names st)) commitment then Inr (NameCommitError.COMMITMENT_EXISTS, st)
        else case AuthorizeOperation C auth network_binding (identities st) of
          (IdentityRegistryError.NONE, registry) \<Rightarrow>
            Inr (NameCommitError.NONE, st \<lparr> identities := registry, names := (names st) \<lparr> pending_commits :=
              map_emplace commitment \<lparr> ncr_account_id = account, ncr_commit_height = block_height \<rparr> (pending_commits (names st)) \<rparr> \<rparr>)
        | _ \<Rightarrow> Inr (NameCommitError.INVALID_AUTHORIZATION, st)))"

definition ApplyNameReveal :: "crypto \<Rightarrow> AuthorizedNameReveal \<Rightarrow> hash256 \<Rightarrow> u64 \<Rightarrow> CybouProtocolParameters \<Rightarrow> CybouState
    \<Rightarrow> exn + (NameRevealError \<times> CybouState)" where
  "ApplyNameReveal C op network_binding block_height params st =
     (let auth = anr_authorization op; account = ioa_account_id auth; reveal = anr_reveal op; label = nrp_label reveal;
          work = nrp_work reveal in
      if ioa_kind auth \<noteq> NAME_REVEAL then Inr (NameRevealError.INVALID_AUTHORIZATION, st)
      else bindE (ComputeNameRevealPayloadCommitment C reveal) (\<lambda>expected.
        if expected \<noteq> Some (ioa_payload_commitment auth) then Inr (NameRevealError.INVALID_AUTHORIZATION, st)
        else if ValidateNameLabel label \<noteq> NameValidationError.NONE then Inr (NameRevealError.INVALID_LABEL_SYNTAX, st)
        else if \<not> map_contains (accounts st) account then Inr (NameRevealError.ACCOUNT_NOT_FOUND, st)
        else if map_contains (account_names (names st)) account then Inr (NameRevealError.ACCOUNT_ALREADY_HAS_NAME, st)
        else if map_contains (nr_names (names st)) label \<or> list_ex (\<lambda>(i, a). ga_label a = label) (genesis_allocations st)
          then Inr (NameRevealError.NAME_ALREADY_TAKEN, st)
        else bindE (ComputeNameCommitment C network_binding account label (nrp_salt reveal)) (\<lambda>commitment.
          if ncw_commitment work \<noteq> commitment then Inr (NameRevealError.INVALID_WORK_PROOF, st)
          else case map_find (pending_commits (names st)) commitment of
            None \<Rightarrow> Inr (NameRevealError.COMMITMENT_NOT_FOUND, st)
          | Some record \<Rightarrow>
            if ncr_account_id record \<noteq> account then Inr (NameRevealError.COMMITMENT_ACCOUNT_MISMATCH, st)
            else if block_height < ncr_commit_height record + name_commit_min_depth params
              then Inr (NameRevealError.INSUFFICIENT_COMMIT_DEPTH, st)
            else if block_height > ncr_commit_height record + name_commit_max_lifetime params
              then Inr (NameRevealError.COMMIT_EXPIRED, st)
            else if ncw_network_binding work \<noteq> network_binding \<or> ncw_account_id work \<noteq> account
              then Inr (NameRevealError.INVALID_WORK_PROOF, st)
            else let current_epoch = EpochForHeight block_height params in
              if ncw_work_epoch work > current_epoch \<or> ncw_work_epoch work + account_creation_epoch_lag params < current_epoch
              then Inr (NameRevealError.INVALID_WORK_PROOF, st)
              else bindE (CheckNameClaimWork C work (name_claim_work_bits params)) (\<lambda>ok.
                if \<not> ok then Inr (NameRevealError.INVALID_WORK_PROOF, st)
                else case AuthorizeOperation C auth network_binding (identities st) of
                  (IdentityRegistryError.NONE, registry) \<Rightarrow>
                    Inr (NameRevealError.NONE, st \<lparr> identities := registry, names := (names st) \<lparr>
                      pending_commits := map_erase commitment (pending_commits (names st)),
                      nr_names := map_emplace label account (nr_names (names st)),
                      account_names := map_emplace account label (account_names (names st)) \<rparr> \<rparr>)
                | _ \<Rightarrow> Inr (NameRevealError.INVALID_AUTHORIZATION, st)))))"

definition ApplyPayment :: "crypto \<Rightarrow> AuthorizedPayment \<Rightarrow> hash256 \<Rightarrow> CybouProtocolParameters \<Rightarrow> CybouState
    \<Rightarrow> PaymentError \<times> CybouState" where
  "ApplyPayment C op network_binding params st =
     (let auth = ap_authorization op; amount = pay_amount (ap_payment op); recipient_id = pay_recipient (ap_payment op);
          sender_id = ioa_account_id auth; fee = payment_fee params in
      if ioa_kind auth \<noteq> PAYMENT then (PaymentError.INVALID_AUTHORIZATION, st)
      else if amount = 0 then (PaymentError.ZERO_AMOUNT, st)
      else if recipient_id = 0 then (PaymentError.INVALID_PAYLOAD, st)
      else if ComputePaymentPayloadCommitment C (ap_payment op) \<noteq> Some (ioa_payload_commitment auth)
        then (PaymentError.INVALID_PAYLOAD, st)
      else if sender_id = recipient_id then (PaymentError.SELF_PAYMENT, st)
      else case map_find (accounts st) sender_id of None \<Rightarrow> (PaymentError.SENDER_NOT_FOUND, st)
      | Some sender \<Rightarrow>
        (case map_find (accounts st) recipient_id of None \<Rightarrow> (PaymentError.RECIPIENT_NOT_FOUND, st)
         | Some recipient \<Rightarrow>
           if Registry_Find (identities st) sender_id = None \<or> Registry_Find (identities st) recipient_id = None
             then (PaymentError.INCONSISTENT_STATE, st)
           else if balance sender < amount then (PaymentError.INSUFFICIENT_BALANCE, st)
           else if system_balance sender < fee then (PaymentError.INSUFFICIENT_SYSTEM_BALANCE, st)
           else if balance recipient > U64_MAX - amount then (PaymentError.RECIPIENT_OVERFLOW, st)
           else if \<not> CanCreditCentralAuthorityFee st fee then (PaymentError.FEE_TRANSFER_FAILED, st)
           else if (case FindCentralAuthorityAllocation st of None \<Rightarrow> False
                    | Some (rid, authority) \<Rightarrow> ga_claimed_by authority = Some recipient_id)
                   \<and> balance recipient + amount > U64_MAX - fee
             then (PaymentError.FEE_TRANSFER_FAILED, st)
           else case AuthorizeOperation C auth network_binding (identities st) of
             (IdentityRegistryError.NONE, registry) \<Rightarrow>
               let st1 = st \<lparr> identities := registry \<rparr>;
                   st2 = st1 \<lparr> accounts := map_adjust sender_id
                     (\<lambda>a. snd (DebitSystemBalance (a \<lparr> balance := balance a - amount \<rparr>) fee)) (accounts st1) \<rparr>;
                   st3 = st2 \<lparr> accounts := map_adjust recipient_id (\<lambda>a. a \<lparr> balance := balance a + amount \<rparr>) (accounts st2) \<rparr>
               in (PaymentError.NONE, snd (CreditCentralAuthorityFee st3 fee))
           | _ \<Rightarrow> (PaymentError.INVALID_AUTHORIZATION, st)))"

definition ApplySystemLock :: "crypto \<Rightarrow> AuthorizedSystemLock \<Rightarrow> hash256 \<Rightarrow> CybouState \<Rightarrow> SystemLockError \<times> CybouState" where
  "ApplySystemLock C op network_binding st =
     (let auth = asl_authorization op; amount = lock_amount (asl_lock op); account_id = ioa_account_id auth in
      if ioa_kind auth \<noteq> SYSTEM_LOCK then (SystemLockError.INVALID_AUTHORIZATION, st)
      else if amount = 0 then (SystemLockError.ZERO_AMOUNT, st)
      else if ComputeSystemLockPayloadCommitment C (asl_lock op) \<noteq> Some (ioa_payload_commitment auth)
        then (SystemLockError.INVALID_PAYLOAD, st)
      else case map_find (accounts st) account_id of None \<Rightarrow> (SystemLockError.ACCOUNT_NOT_FOUND, st)
      | Some account \<Rightarrow>
        if Registry_Find (identities st) account_id = None then (SystemLockError.INCONSISTENT_STATE, st)
        else if balance account < amount then (SystemLockError.INSUFFICIENT_BALANCE, st)
        else if system_balance account > U64_MAX - amount then (SystemLockError.SYSTEM_BALANCE_OVERFLOW, st)
        else case AuthorizeOperation C auth network_binding (identities st) of
          (IdentityRegistryError.NONE, registry) \<Rightarrow>
            (SystemLockError.NONE, st \<lparr> identities := registry, accounts := map_adjust account_id
              (\<lambda>a. a \<lparr> balance := balance a - amount, system_balance := system_balance a + amount \<rparr>) (accounts st) \<rparr>)
        | _ \<Rightarrow> (SystemLockError.INVALID_AUTHORIZATION, st))"


section \<open>An error leaves the state as it was\<close>

lemma case_auth_NONE:
  "(case r of (IdentityRegistryError.NONE, reg) \<Rightarrow> f reg | _ \<Rightarrow> b) = (if fst r = IdentityRegistryError.NONE then f (snd r) else b)"
  by (cases r; cases "fst r") auto

text \<open>\<open>keeps\<close> walks down the guards of a handler: every early return gives back the input state.\<close>

definition keeps :: "'e \<Rightarrow> 's \<Rightarrow> exn + ('e \<times> 's) \<Rightarrow> bool" where
  "keeps ok st m \<longleftrightarrow> (\<forall>e s. m = Inr (e, s) \<longrightarrow> e \<noteq> ok \<longrightarrow> s = st)"

lemma keepsD: "keeps ok st m \<Longrightarrow> m = Inr (e, s) \<Longrightarrow> e \<noteq> ok \<Longrightarrow> s = st"
  by (simp add: keeps_def)

lemma keeps_intros:
  "keeps ok st (Inr (e, st))"
  "keeps ok st (Inr (ok, s))"
  "keeps ok st x \<Longrightarrow> keeps ok st y \<Longrightarrow> keeps ok st (if b then x else y)"
  "(\<And>a. keeps ok st (f a)) \<Longrightarrow> keeps ok st (bindE m f)"
  "keeps ok st x \<Longrightarrow> (\<And>a. keeps ok st (g a)) \<Longrightarrow> keeps ok st (case opt of None \<Rightarrow> x | Some a \<Rightarrow> g a)"
  by (auto simp: keeps_def bindE_Inr_iff split: option.splits)

lemma keeps_pure:
  "keeps ok st (Inr (if b then x else y)) \<longleftrightarrow> keeps ok st (if b then Inr x else Inr y)"
  "keeps ok st (Inr (case opt of None \<Rightarrow> x | Some a \<Rightarrow> g a)) \<longleftrightarrow> keeps ok st (case opt of None \<Rightarrow> Inr x | Some a \<Rightarrow> Inr (g a))"
  by (simp_all split: option.split)

lemma ApplyAccountCreate_fail [fail_atomic]:
  "ApplyAccountCreate C op nb h params st = (e, st') \<Longrightarrow> e \<noteq> NONE \<Longrightarrow> st' = st"
  by (auto simp: ApplyAccountCreate_def Let_def split: if_splits prod.splits IdentityRegistryError.splits)

lemma ApplyNameCommit_keeps: "keeps NameCommitError.NONE st (ApplyNameCommit C op nb h params st)"
  unfolding ApplyNameCommit_def Let_def case_auth_NONE by (intro keeps_intros)

lemma ApplyNameReveal_keeps: "keeps NameRevealError.NONE st (ApplyNameReveal C op nb h params st)"
  unfolding ApplyNameReveal_def Let_def case_auth_NONE by (intro keeps_intros)

lemma ApplyPayment_keeps: "keeps PaymentError.NONE st (Inr (ApplyPayment C op nb params st))"
  unfolding ApplyPayment_def Let_def case_auth_NONE keeps_pure by (intro keeps_intros | simp only: keeps_pure)+

lemma ApplySystemLock_keeps: "keeps SystemLockError.NONE st (Inr (ApplySystemLock C op nb st))"
  unfolding ApplySystemLock_def Let_def case_auth_NONE keeps_pure by (intro keeps_intros | simp only: keeps_pure)+

lemmas ApplyNameCommit_fail [fail_atomic] = keepsD [OF ApplyNameCommit_keeps]
lemmas ApplyNameReveal_fail [fail_atomic] = keepsD [OF ApplyNameReveal_keeps]
lemmas ApplyPayment_fail [fail_atomic] = keepsD [OF ApplyPayment_keeps, OF arg_cong [where f = Inr]]
lemmas ApplySystemLock_fail [fail_atomic] = keepsD [OF ApplySystemLock_keeps, OF arg_cong [where f = Inr]]


section \<open>What a success requires and does\<close>

text \<open>\<open>guards\<close> reads a success off a handler: every guard before it was passed.\<close>

lemma guards:
  "e \<noteq> ok \<Longrightarrow> (if b then (e, s) else m) = (ok, s') \<longleftrightarrow> \<not> b \<and> m = (ok, s')"
  "e \<noteq> ok \<Longrightarrow> (if b then m else (e, s)) = (ok, s') \<longleftrightarrow> b \<and> m = (ok, s')"
  "e \<noteq> ok \<Longrightarrow> (if b then Inr (e, s) else n) = Inr (ok, s') \<longleftrightarrow> \<not> b \<and> n = Inr (ok, s')"
  "e \<noteq> ok \<Longrightarrow> (if b then n else Inr (e, s)) = Inr (ok, s') \<longleftrightarrow> b \<and> n = Inr (ok, s')"
  "e \<noteq> ok \<Longrightarrow> (case opt of None \<Rightarrow> (e, s) | Some x \<Rightarrow> g x) = (ok, s') \<longleftrightarrow> (\<exists>x. opt = Some x \<and> g x = (ok, s'))"
  "e \<noteq> ok \<Longrightarrow> (case opt of None \<Rightarrow> Inr (e, s) | Some x \<Rightarrow> h x) = Inr (ok, s') \<longleftrightarrow> (\<exists>x. opt = Some x \<and> h x = Inr (ok, s'))"
  by (auto split: option.splits)

lemma auth_ok: "fst (AuthorizeOperation C a nb r) = IdentityRegistryError.NONE \<longleftrightarrow>
    (\<exists>reg. AuthorizeOperation C a nb r = (IdentityRegistryError.NONE, reg))"
  by (metis prod.collapse fst_conv)

lemma ApplyPayment_NONE:
  assumes "ApplyPayment C op nb params st = (PaymentError.NONE, st')"
  defines "s \<equiv> ioa_account_id (ap_authorization op)" and "r \<equiv> pay_recipient (ap_payment op)"
    and "amount \<equiv> pay_amount (ap_payment op)" and "fee \<equiv> payment_fee params"
  obtains sender recipient registry where
    "ioa_kind (ap_authorization op) = PAYMENT" "amount \<noteq> 0" "s \<noteq> r"
    "map_find (accounts st) s = Some sender" "map_find (accounts st) r = Some recipient"
    "amount \<le> balance sender" "fee \<le> system_balance sender" "balance recipient \<le> U64_MAX - amount"
    "CanCreditCentralAuthorityFee st fee"
    "\<And>rid a. FindCentralAuthorityAllocation st = Some (rid, a) \<Longrightarrow> ga_claimed_by a = Some r \<Longrightarrow> balance recipient + amount \<le> U64_MAX - fee"
    "AuthorizeOperation C (ap_authorization op) nb (identities st) = (IdentityRegistryError.NONE, registry)"
    "st' = snd (CreditCentralAuthorityFee (st \<lparr> identities := registry,
       accounts := map_adjust r (\<lambda>a. a \<lparr> balance := balance a + amount \<rparr>)
         (map_adjust s (\<lambda>a. snd (DebitSystemBalance (a \<lparr> balance := balance a - amount \<rparr>) fee)) (accounts st)) \<rparr>) fee)"
proof -
  obtain sender recipient where f: "map_find (accounts st) s = Some sender" "map_find (accounts st) r = Some recipient"
    using assms by (auto simp: ApplyPayment_def Let_def split: if_splits option.splits)
  obtain e registry where a: "AuthorizeOperation C (ap_authorization op) nb (identities st) = (e, registry)"
    by fastforce
  show thesis
    using assms(1) f a that [of sender recipient registry]
    unfolding ApplyPayment_def Let_def case_auth_NONE s_def [symmetric] r_def [symmetric] amount_def [symmetric] fee_def [symmetric]
    by (auto simp: not_less split: if_splits option.splits)
qed

lemma AuthorizeOperation_dom:
  assumes "AuthorizeOperation C a nb r = (e, r')"
  shows "(map_find (m_accounts r') i = None) = (map_find (m_accounts r) i = None)" and "m_recovery_index r' = m_recovery_index r"
    and "omap_wf (m_accounts r) \<Longrightarrow> omap_wf (m_accounts r')" and "length (m_accounts r') = length (m_accounts r)"
  using assms by (auto simp: AuthorizeOperation_def split: option.splits if_splits)

lemma fee_loc_authorized:
  "AuthorizeOperation C a nb (identities st) = (e, reg) \<Longrightarrow>
   CentralAuthorityFeeBalance (st \<lparr> identities := reg \<rparr>) = CentralAuthorityFeeBalance st"
  by (rule fee_loc_identities) (rule AuthorizeOperation_dom)

lemma CanCredit_authorized:
  "AuthorizeOperation C a nb (identities st) = (e, reg) \<Longrightarrow>
   CanCreditCentralAuthorityFee (st \<lparr> identities := reg \<rparr>) fee = CanCreditCentralAuthorityFee st fee"
  unfolding CanCreditCentralAuthorityFee_def fee_loc_authorized by (simp split: option.split)

lemma maps_wf_authorized:
  "maps_wf st \<Longrightarrow> AuthorizeOperation C a nb (identities st) = (e, reg) \<Longrightarrow> maps_wf (st \<lparr> identities := reg \<rparr>)"
  using AuthorizeOperation_dom [of C a nb "identities st" e reg] by (simp add: maps_wf_def)

lemma loc_balance_adjust:
  "loc_balance (st \<lparr> accounts := map_adjust a f (accounts st) \<rparr>) l =
     (case l of AtAllocation rid \<Rightarrow> loc_balance st l
      | AtAccount b \<Rightarrow> if b = a then (case map_find (accounts st) a of None \<Rightarrow> 0 | Some x \<Rightarrow> balance (f x)) else loc_balance st l)"
  by (auto simp: loc_balance_def split: treasury_loc.splits option.splits)


section \<open>Conservation\<close>

text \<open>A transition conserves when it keeps the maps well-formed and the total supply.\<close>

definition conserves :: "CybouState \<Rightarrow> CybouState \<Rightarrow> bool" where
  "conserves st st' \<longleftrightarrow> (maps_wf st \<longrightarrow> maps_wf st' \<and> money_supply st' = money_supply st)"

lemma conserves_refl [simp]: "conserves st st"
  by (simp add: conserves_def)

lemma conserves_trans: "conserves a b \<Longrightarrow> conserves b c \<Longrightarrow> conserves a c"
  by (simp add: conserves_def)

lemma CanCredit_payment:
  assumes can: "CanCreditCentralAuthorityFee st fee" and ne: "s \<noteq> r"
    and f: "map_find (accounts st) s = Some sender" "map_find (accounts st) r = Some recipient" "amount \<le> balance sender"
    and ov: "\<And>rid a. FindCentralAuthorityAllocation st = Some (rid, a) \<Longrightarrow> ga_claimed_by a = Some r \<Longrightarrow> balance recipient + amount \<le> U64_MAX - fee"
  defines "st2 \<equiv> st \<lparr> accounts := map_adjust s (\<lambda>a. snd (DebitSystemBalance (a \<lparr> balance := balance a - amount \<rparr>) fee)) (accounts st) \<rparr>"
  shows "CanCreditCentralAuthorityFee (st2 \<lparr> accounts := map_adjust r (\<lambda>a. a \<lparr> balance := balance a + amount \<rparr>) (accounts st2) \<rparr>) fee"
proof -
  from can obtain l where l: "CentralAuthorityFeeBalance st = Some l" "loc_balance st l \<le> U64_MAX - fee"
    by (auto simp: CanCreditCentralAuthorityFee_def split: option.splits)
  let ?st3 = "st2 \<lparr> accounts := map_adjust r (\<lambda>a. a \<lparr> balance := balance a + amount \<rparr>) (accounts st2) \<rparr>"
  have l3: "CentralAuthorityFeeBalance ?st3 = Some l"
    unfolding fee_loc_accounts unfolding st2_def fee_loc_accounts by (rule l(1))
  have "loc_balance ?st3 l \<le> U64_MAX - fee"
  proof (cases l)
    case (AtAllocation rid)
    with l(2) show ?thesis by (simp add: loc_balance_adjust) (simp add: st2_def loc_balance_adjust)
  next
    case (AtAccount c)
    have "ga_claimed_by a = Some c" if "FindCentralAuthorityAllocation st = Some (rid, a)" for rid a
      using l(1) that AtAccount by (auto simp: CentralAuthorityFeeBalance_def split: option.splits if_splits)
    moreover obtain rid a where "FindCentralAuthorityAllocation st = Some (rid, a)"
      using l(1) by (auto simp: CentralAuthorityFeeBalance_def split: option.splits)
    moreover have "balance sender - amount \<le> balance sender"
      using f(3) by (simp add: word_le_nat_alt unat_sub)
    ultimately show ?thesis using l(2) f ne ov [of rid a] AtAccount
      by (auto simp: loc_balance_adjust st2_def loc_balance_def)
  qed
  with l3 show ?thesis by (simp add: CanCreditCentralAuthorityFee_def)
qed

lemma ApplyPayment_conserves:
  assumes "ApplyPayment C op nb params st = (e, st')"
  shows "conserves st st'"
proof (cases "e = PaymentError.NONE")
  case False
  with ApplyPayment_fail [OF assms] show ?thesis by simp
next
  case True
  with assms have "ApplyPayment C op nb params st = (PaymentError.NONE, st')" by simp
  then show ?thesis
  proof (rule ApplyPayment_NONE)
    fix sender recipient registry
    let ?s = "ioa_account_id (ap_authorization op)" and ?r = "pay_recipient (ap_payment op)"
      and ?amount = "pay_amount (ap_payment op)" and ?fee = "payment_fee params"
    assume ne: "?s \<noteq> ?r" and f: "map_find (accounts st) ?s = Some sender" "map_find (accounts st) ?r = Some recipient"
      and b: "?amount \<le> balance sender" "?fee \<le> system_balance sender" "balance recipient \<le> U64_MAX - ?amount"
      and can: "CanCreditCentralAuthorityFee st ?fee"
      and ov: "\<And>rid a. FindCentralAuthorityAllocation st = Some (rid, a) \<Longrightarrow> ga_claimed_by a = Some ?r \<Longrightarrow>
            balance recipient + ?amount \<le> U64_MAX - ?fee"
      and au: "AuthorizeOperation C (ap_authorization op) nb (identities st) = (IdentityRegistryError.NONE, registry)"
      and st': "st' = snd (CreditCentralAuthorityFee (st \<lparr> identities := registry,
       accounts := map_adjust ?r (\<lambda>a. a \<lparr> balance := balance a + ?amount \<rparr>)
         (map_adjust ?s (\<lambda>a. snd (DebitSystemBalance (a \<lparr> balance := balance a - ?amount \<rparr>) ?fee)) (accounts st)) \<rparr>) ?fee)"
    define st1 where "st1 = st \<lparr> identities := registry \<rparr>"
    define st2 where "st2 = st1 \<lparr> accounts := map_adjust ?s (\<lambda>a. snd (DebitSystemBalance (a \<lparr> balance := balance a - ?amount \<rparr>) ?fee)) (accounts st1) \<rparr>"
    define st3 where "st3 = st2 \<lparr> accounts := map_adjust ?r (\<lambda>a. a \<lparr> balance := balance a + ?amount \<rparr>) (accounts st2) \<rparr>"
    have can3: "CanCreditCentralAuthorityFee st3 ?fee"
      unfolding st3_def st2_def
    proof (rule CanCredit_payment [OF _ ne])
      show "CanCreditCentralAuthorityFee st1 ?fee"
        using can by (simp add: st1_def CanCredit_authorized [OF au])
    qed (use f b ov in \<open>simp_all add: st1_def\<close>)
    have e: "st' = snd (CreditCentralAuthorityFee st3 ?fee)" by (simp add: st' st3_def st2_def st1_def)
    show "conserves st st'"
      unfolding conserves_def
    proof
      assume wf: "maps_wf st"
      have wf1: "maps_wf st1" using maps_wf_authorized [OF wf au] by (simp add: st1_def)
      then have wf3: "maps_wf st2" "maps_wf st3" by (simp_all add: st2_def st3_def maps_wf_def)
      have 2: "money_supply st2 + unat ?amount + unat ?fee = money_supply st1"
        using supply_adjust_account [of st1 ?s sender "\<lambda>a. snd (DebitSystemBalance (a \<lparr> balance := balance a - ?amount \<rparr>) ?fee)"]
          DebitSystemBalance_value [of ?fee "sender \<lparr> balance := balance sender - ?amount \<rparr>"] wf1 f b
        by (simp add: st2_def st1_def maps_wf_def account_value_def unat_sub word_le_nat_alt)
      have 3: "money_supply st3 = money_supply st2 + unat ?amount"
        using supply_adjust_account [of st2 ?r recipient "\<lambda>a. a \<lparr> balance := balance a + ?amount \<rparr>"] wf3 f ne b
        by (simp add: st3_def st2_def st1_def maps_wf_def account_value_def unat_add_checked)
      show "maps_wf st' \<and> money_supply st' = money_supply st"
        using CreditCentralAuthorityFee_supply [OF can3 wf3(2)] 2 3 by (simp add: e st1_def)
    qed
  qed
qed

lemma ApplySystemLock_conserves:
  assumes "ApplySystemLock C op nb st = (e, st')"
  shows "conserves st st'"
proof (cases "e = SystemLockError.NONE")
  case False
  with ApplySystemLock_fail [OF assms] show ?thesis by simp
next
  case True
  let ?a = "ioa_account_id (asl_authorization op)" and ?n = "lock_amount (asl_lock op)"
  obtain acc registry where f: "map_find (accounts st) ?a = Some acc" "?n \<le> balance acc" "system_balance acc \<le> U64_MAX - ?n"
    and au: "AuthorizeOperation C (asl_authorization op) nb (identities st) = (IdentityRegistryError.NONE, registry)"
    and st': "st' = st \<lparr> identities := registry, accounts := map_adjust ?a
        (\<lambda>a. a \<lparr> balance := balance a - ?n, system_balance := system_balance a + ?n \<rparr>) (accounts st) \<rparr>"
    using assms True unfolding ApplySystemLock_def Let_def case_auth_NONE
    by (cases "AuthorizeOperation C (asl_authorization op) nb (identities st)")
      (auto simp: not_less split: if_splits option.splits)
  show ?thesis
    unfolding conserves_def
  proof
    assume wf: "maps_wf st"
    have wf1: "maps_wf (st \<lparr> identities := registry \<rparr>)" by (rule maps_wf_authorized [OF wf au])
    then have "maps_wf st'" by (simp add: st' maps_wf_def)
    moreover have "money_supply st' = money_supply st"
      using supply_adjust_account [of "st \<lparr> identities := registry \<rparr>" ?a acc
          "\<lambda>a. a \<lparr> balance := balance a - ?n, system_balance := system_balance a + ?n \<rparr>"] wf1 f
      by (simp add: st' maps_wf_def account_value_def unat_add_checked unat_sub word_le_nat_alt)
    ultimately show "maps_wf st' \<and> money_supply st' = money_supply st" ..
  qed
qed

lemma ApplyNameCommit_conserves:
  assumes "ApplyNameCommit C op nb h params st = Inr (e, st')"
  shows "conserves st st'"
proof (cases "e = NameCommitError.NONE")
  case False
  with ApplyNameCommit_fail [OF assms] show ?thesis by simp
next
  case True
  then obtain registry where
    au: "AuthorizeOperation C (anc_authorization op) nb (identities st) = (IdentityRegistryError.NONE, registry)"
    and st': "st' = st \<lparr> identities := registry, names := (names st) \<lparr> pending_commits :=
        map_emplace (ncp_commitment (anc_commit op)) \<lparr> ncr_account_id = ioa_account_id (anc_authorization op), ncr_commit_height = h \<rparr>
          (pending_commits (names st)) \<rparr> \<rparr>"
    using assms unfolding ApplyNameCommit_def Let_def case_auth_NONE
    by (cases "AuthorizeOperation C (anc_authorization op) nb (identities st)") (auto simp: bindE_Inr_iff split: if_splits)
  show ?thesis using maps_wf_authorized [OF _ au] by (auto simp: conserves_def st' maps_wf_def)
qed

lemma ApplyNameReveal_NONE:
  assumes "ApplyNameReveal C op nb h params st = Inr (NameRevealError.NONE, st')"
  defines "a \<equiv> ioa_account_id (anr_authorization op)" and "label \<equiv> nrp_label (anr_reveal op)"
  obtains commitment pend registry where
    "ValidateNameLabel label = NameValidationError.NONE" "map_contains (accounts st) a"
    "\<not> map_contains (account_names (names st)) a" "\<not> map_contains (nr_names (names st)) label"
    "\<not> list_ex (\<lambda>(i, al). ga_label al = label) (genesis_allocations st)"
    "ComputeNameCommitment C nb a label (nrp_salt (anr_reveal op)) = Inr commitment"
    "map_find (pending_commits (names st)) commitment = Some pend" "ncr_account_id pend = a"
    "\<not> h < ncr_commit_height pend + name_commit_min_depth params"
    "\<not> h > ncr_commit_height pend + name_commit_max_lifetime params"
    "CheckNameClaimWork C (nrp_work (anr_reveal op)) (name_claim_work_bits params) = Inr True"
    "AuthorizeOperation C (anr_authorization op) nb (identities st) = (IdentityRegistryError.NONE, registry)"
    "st' = st \<lparr> identities := registry, names := (names st) \<lparr>
        pending_commits := map_erase commitment (pending_commits (names st)),
        nr_names := map_emplace label a (nr_names (names st)), account_names := map_emplace a label (account_names (names st)) \<rparr> \<rparr>"
  using assms(1) unfolding ApplyNameReveal_def Let_def case_auth_NONE a_def [symmetric] label_def [symmetric]
  by (simp add: guards bindE_Inr_iff auth_ok) (elim exE conjE, rule that, auto)

lemma ApplyNameReveal_conserves:
  assumes "ApplyNameReveal C op nb h params st = Inr (e, st')"
  shows "conserves st st'"
proof (cases "e = NameRevealError.NONE")
  case False
  with ApplyNameReveal_fail [OF assms] show ?thesis by simp
next
  case True
  with assms have "ApplyNameReveal C op nb h params st = Inr (NameRevealError.NONE, st')" by simp
  then show ?thesis
  proof (rule ApplyNameReveal_NONE)
    fix commitment pend registry
    assume au: "AuthorizeOperation C (anr_authorization op) nb (identities st) = (IdentityRegistryError.NONE, registry)"
      and st': "st' = st \<lparr> identities := registry, names := (names st) \<lparr>
        pending_commits := map_erase commitment (pending_commits (names st)),
        nr_names := map_emplace (nrp_label (anr_reveal op)) (ioa_account_id (anr_authorization op)) (nr_names (names st)),
        account_names := map_emplace (ioa_account_id (anr_authorization op)) (nrp_label (anr_reveal op)) (account_names (names st)) \<rparr> \<rparr>"
    show ?thesis using maps_wf_authorized [OF _ au] by (auto simp: conserves_def st' maps_wf_def)
  qed
qed


section \<open>Account creation\<close>

lemma ApplyAccountCreate_NONE:
  fixes claim bonus
  assumes "ApplyAccountCreate C op nb h params st = (NONE, st')"
  defines "claim \<equiv> claimed_allocation C op st" and "bonus \<equiv> create_bonus params claim"
  obtains registry st2 where
    "length (accounts st) = length (m_accounts (identities st))"
    "\<forall>(i, acc) \<in> set (accounts st). Registry_Find (identities st) i \<noteq> None"
    "length (accounts st) < MAX_IDENTITY_REGISTRY_ACCOUNTS" "map_find (accounts st) (aco_account_id op) = None"
    "bonus \<noteq> 0 \<Longrightarrow> \<exists>l. CentralAuthorityFeeBalance st = Some l \<and> bonus \<le> loc_balance st l"
    "Register C op nb h params (identities st) = (IdentityRegistryError.NONE, registry)"
    "st2 = (if bonus \<noteq> 0 then debit_treasury bonus (st \<lparr> identities := registry \<rparr>) else st \<lparr> identities := registry \<rparr>)"
    "st' = (let st3 = (case claim of None \<Rightarrow> st2 | Some (rid, allocation) \<Rightarrow> claim_allocation (aco_account_id op) rid allocation st2)
       in st3 \<lparr> accounts := map_emplace (aco_account_id op)
                  \<lparr> balance = genesis_balance_of st2 claim, system_balance = bonus, onboarding_system_balance = bonus,
                    creation_height = h, creation_epoch = EpochForHeight h params \<rparr> (accounts st3) \<rparr>)"
proof -
  obtain e registry where r: "Register C op nb h params (identities st) = (e, registry)" by fastforce
  have e: "e = IdentityRegistryError.NONE"
    using assms(1) r by (cases e) (simp_all add: ApplyAccountCreate_def Let_def split: if_splits)
  show thesis
  proof (rule that)
    show "Register C op nb h params (identities st) = (IdentityRegistryError.NONE, registry)" using r e by simp
    show "st' = (let st3 = (case claim of None \<Rightarrow> (if bonus \<noteq> 0 then debit_treasury bonus (st \<lparr> identities := registry \<rparr>) else st \<lparr> identities := registry \<rparr>)
          | Some (rid, allocation) \<Rightarrow> claim_allocation (aco_account_id op) rid allocation
              (if bonus \<noteq> 0 then debit_treasury bonus (st \<lparr> identities := registry \<rparr>) else st \<lparr> identities := registry \<rparr>))
       in st3 \<lparr> accounts := map_emplace (aco_account_id op)
                  \<lparr> balance = genesis_balance_of (if bonus \<noteq> 0 then debit_treasury bonus (st \<lparr> identities := registry \<rparr>) else st \<lparr> identities := registry \<rparr>) claim,
                    system_balance = bonus, onboarding_system_balance = bonus,
                    creation_height = h, creation_epoch = EpochForHeight h params \<rparr> (accounts st3) \<rparr>)"
      using assms(1) r e unfolding ApplyAccountCreate_def Let_def claim_def [symmetric] bonus_def [symmetric]
      by (simp add: guards split del: if_split)
  qed (use assms(1) r e in \<open>auto simp: ApplyAccountCreate_def Let_def guards list_ex_iff map_contains_def not_le not_less
      claim_def [symmetric] bonus_def [symmetric] split: option.splits\<close>)
qed

lemma fee_loc_registered:
  assumes "Register C op nb h params (identities st) = (e, registry)" and "CentralAuthorityFeeBalance st = Some l"
  shows "CentralAuthorityFeeBalance (st \<lparr> identities := registry \<rparr>) = Some l"
proof -
  have "Registry_Find registry i \<noteq> None" if "Registry_Find (identities st) i \<noteq> None" for i
  proof (cases "e = IdentityRegistryError.NONE")
    case True
    with assms(1) have "Register C op nb h params (identities st) = (IdentityRegistryError.NONE, registry)" by simp
    then show ?thesis
      by (rule Register_NONE) (use that in \<open>auto simp: Registry_Find_def map_find_emplace\<close>)
  qed (use Register_fail [OF assms(1)] that in simp)
  then show ?thesis using assms(2)
    by (auto simp: CentralAuthorityFeeBalance_def split: option.splits if_splits) fastforce
qed

lemma maps_wf_registered:
  assumes "Register C op nb h params (identities st) = (IdentityRegistryError.NONE, registry)" and "maps_wf st"
  shows "maps_wf (st \<lparr> identities := registry \<rparr>)"
  using assms(1) by (rule Register_NONE) (use assms(2) in \<open>auto simp: maps_wf_def\<close>)

lemma debit_treasury_supply:
  assumes "CentralAuthorityFeeBalance st = Some l" and "bonus \<le> loc_balance st l" and "maps_wf st"
  shows "maps_wf (debit_treasury bonus st)" and "money_supply (debit_treasury bonus st) + unat bonus = money_supply st"
  using supply_loc_update [OF assms(1,3), of "\<lambda>b. b - bonus"] assms
  by (simp_all add: debit_treasury_def unat_sub word_le_nat_alt)

lemma debit_treasury_keeps:
  "map_find (accounts (debit_treasury bonus st)) a = None \<longleftrightarrow> map_find (accounts st) a = None"
  "map_find (genesis_allocations st) rid = Some al \<Longrightarrow>
   \<exists>b. map_find (genesis_allocations (debit_treasury bonus st)) rid = Some (al \<lparr> ga_balance := b \<rparr>)"
proof -
  show "map_find (accounts (debit_treasury bonus st)) a = None \<longleftrightarrow> map_find (accounts st) a = None"
    by (auto simp: debit_treasury_def loc_update_def map_find_adjust split: option.splits treasury_loc.splits)
  have "\<exists>b. al = al \<lparr> ga_balance := b \<rparr>" by (rule exI [of _ "ga_balance al"]) simp
  then show "map_find (genesis_allocations st) rid = Some al \<Longrightarrow>
      \<exists>b. map_find (genesis_allocations (debit_treasury bonus st)) rid = Some (al \<lparr> ga_balance := b \<rparr>)"
    by (auto simp: debit_treasury_def loc_update_def map_find_adjust split: option.splits treasury_loc.splits)
qed

lemma claim_allocation_supply:
  assumes "map_find (genesis_allocations st) rid = Some a" and "ga_claimed_by a = None" and "maps_wf st"
  shows "maps_wf (claim_allocation account rid al st)" and "accounts (claim_allocation account rid al st) = accounts st"
    and "money_supply (claim_allocation account rid al st) + unat (ga_balance a) = money_supply st"
  using om.weigh_adjust [of "genesis_allocations st" rid a alloc_value "\<lambda>a. a \<lparr> ga_claimed_by := Some account \<rparr>"] assms
  by (auto simp: claim_allocation_def Let_def maps_wf_def money_supply_def alloc_value_def)

lemma claimed_allocation_Some:
  "claimed_allocation C op st = Some (rid, al) \<longleftrightarrow> ComputeRecoveryKeyId C (recovery_root (aco_authorization op)) = Some rid
     \<and> map_find (genesis_allocations st) rid = Some al \<and> ga_claimed_by al = None"
  by (auto simp: claimed_allocation_def split: option.splits if_splits)

lemma emplace_account_supply:
  assumes "map_find (accounts st) a = None" and "maps_wf st"
  shows "maps_wf (st \<lparr> accounts := map_emplace a acc (accounts st) \<rparr>)"
    and "money_supply (st \<lparr> accounts := map_emplace a acc (accounts st) \<rparr>) = money_supply st + account_value acc"
  using assms by (simp_all add: maps_wf_def money_supply_def map_weigh_emplace)

lemma claim_supply:
  fixes st2 :: CybouState and account :: AccountId
  assumes "claim = claimed_allocation C op st" and "st2 = debit_treasury bonus st1 \<or> st2 = st1"
    and "genesis_allocations st1 = genesis_allocations st" and "maps_wf st2"
  defines "st3 \<equiv> (case claim of None \<Rightarrow> st2 | Some (rid, al) \<Rightarrow> claim_allocation account rid al st2)"
  shows "maps_wf st3" and "accounts st3 = accounts st2" and "money_supply st3 + unat (genesis_balance_of st2 claim) = money_supply st2"
proof -
  have "maps_wf st3 \<and> accounts st3 = accounts st2 \<and> money_supply st3 + unat (genesis_balance_of st2 claim) = money_supply st2"
  proof (cases claim)
    case None
    then show ?thesis using assms(4) by (simp add: st3_def genesis_balance_of_def)
  next
    case (Some p)
    obtain rid al where p: "p = (rid, al)" by fastforce
    then have al: "map_find (genesis_allocations st1) rid = Some al" "ga_claimed_by al = None"
      using Some assms(1,3) claimed_allocation_Some [of C op st rid al] by simp_all
    then obtain a where a: "map_find (genesis_allocations st2) rid = Some a" "ga_claimed_by a = None"
      using assms(2) debit_treasury_keeps(2) [OF al(1), of bonus] by auto
    show ?thesis using claim_allocation_supply [OF a assms(4)] Some p a(1)
      by (simp add: st3_def genesis_balance_of_def)
  qed
  then show "maps_wf st3" and "accounts st3 = accounts st2"
    and "money_supply st3 + unat (genesis_balance_of st2 claim) = money_supply st2" by auto
qed

lemma ApplyAccountCreate_conserves:
  assumes "ApplyAccountCreate C op nb h params st = (e, st')"
  shows "conserves st st'"
proof (cases "e = NONE")
  case False
  with ApplyAccountCreate_fail [OF assms] show ?thesis by simp
next
  case True
  define claim where "claim = claimed_allocation C op st"
  define bonus where "bonus = create_bonus params claim"
  from assms True have "ApplyAccountCreate C op nb h params st = (NONE, st')" by simp
  then obtain registry st2 where fresh: "map_find (accounts st) (aco_account_id op) = None"
    and treasury: "bonus \<noteq> 0 \<Longrightarrow> \<exists>l. CentralAuthorityFeeBalance st = Some l \<and> bonus \<le> loc_balance st l"
    and reg: "Register C op nb h params (identities st) = (IdentityRegistryError.NONE, registry)"
    and st2: "st2 = (if bonus \<noteq> 0 then debit_treasury bonus (st \<lparr> identities := registry \<rparr>) else st \<lparr> identities := registry \<rparr>)"
    and st': "st' = (let st3 = (case claim of None \<Rightarrow> st2 | Some (rid, allocation) \<Rightarrow> claim_allocation (aco_account_id op) rid allocation st2)
       in st3 \<lparr> accounts := map_emplace (aco_account_id op)
                  \<lparr> balance = genesis_balance_of st2 claim, system_balance = bonus, onboarding_system_balance = bonus,
                    creation_height = h, creation_epoch = EpochForHeight h params \<rparr> (accounts st3) \<rparr>)"
    unfolding claim_def bonus_def by (rule ApplyAccountCreate_NONE) blast
  show ?thesis
    unfolding conserves_def
  proof
    assume wf: "maps_wf st"
    let ?st1 = "st \<lparr> identities := registry \<rparr>"
    have wf1: "maps_wf ?st1" by (rule maps_wf_registered [OF reg wf])
    have 2: "maps_wf st2 \<and> money_supply st2 + unat bonus = money_supply st \<and> map_find (accounts st2) (aco_account_id op) = None"
    proof (cases "bonus = 0")
      case True
      then show ?thesis using wf1 fresh by (simp add: st2)
    next
      case False
      then obtain l where l: "CentralAuthorityFeeBalance ?st1 = Some l" "bonus \<le> loc_balance ?st1 l"
        using treasury fee_loc_registered [OF reg] by auto
      show ?thesis using debit_treasury_supply [OF l wf1] False fresh by (simp add: st2 debit_treasury_keeps(1))
    qed
    define st3 where "st3 = (case claim of None \<Rightarrow> st2 | Some (rid, al) \<Rightarrow> claim_allocation (aco_account_id op) rid al st2)"
    have 3: "maps_wf st3" "accounts st3 = accounts st2" "money_supply st3 + unat (genesis_balance_of st2 claim) = money_supply st2"
      unfolding st3_def using 2 by (intro claim_supply [OF claim_def, where ?st1.0 = ?st1 and bonus = bonus]; auto simp: st2)+
    show "maps_wf st' \<and> money_supply st' = money_supply st"
      using emplace_account_supply [of st3 "aco_account_id op"] 2 3
      by (simp add: st' st3_def [symmetric] account_value_def)
  qed
qed

end
