(* ===== verification/Lease.thy ===== *)
theory Lease
  imports Ledger
begin

text \<open>
  Publications and storage leases: \<^verbatim>\<open>ApplyRootPublication\<close>, \<^verbatim>\<open>RecordPublication\<close> and
  \<^verbatim>\<open>ApplyRevokePublication\<close> (\<^verbatim>\<open>state.cpp\<close>), \<^verbatim>\<open>FundStorageLease\<close> and
  \<^verbatim>\<open>ApplyStorageLease\<close> (\<^verbatim>\<open>storage_lease.cpp\<close>), and the cost quotes of
  \<^verbatim>\<open>economics_quote.cpp\<close>. The lemmas show that the fee reaches the treasury, that the rent moves into the
  escrow of the lease unit by unit, and that what is debited is what was quoted.
\<close>

section \<open>Escrow and quotes\<close>

definition ComputeStorageLeaseEscrow :: "CybouProtocolParameters \<Rightarrow> u32 \<Rightarrow> u8 \<Rightarrow> u32 \<Rightarrow> u64 option" where
  "ComputeStorageLeaseEscrow params units replicas periods =
     map_option budget_total (ComputeAssignedStorageBudget (ucast units) (ucast replicas) (ucast periods)
       (storage_settlement_period_seconds params) (storage_rate_per_gib_day_replica params))"

record PublicationCostQuote =
  pcq_publication_fee :: u64
  pcq_storage_escrow :: u64
  pcq_total_system_debit :: u64
  pcq_billing_units :: u32
  pcq_lease_periods :: u32
  pcq_remote_replicas :: u8

record StorageLeaseCostQuote =
  slq_protocol_fee :: u64
  slq_storage_escrow :: u64
  slq_total_system_debit :: u64

definition QuotePublicationCostOfSize :: "CybouProtocolParameters \<Rightarrow> nat \<Rightarrow> u32 \<Rightarrow> u32 \<Rightarrow> PublicationCostQuote option" where
  "QuotePublicationCostOfSize params bs chunks periods =
     (case ComputeRootPublicationFee params bs chunks of None \<Rightarrow> None
      | Some fee \<Rightarrow>
        if periods > max_storage_lease_periods params then None
        else case (if periods = 0 then Some 0
                   else ComputeStorageLeaseEscrow params chunks (storage_replica_target params) periods) of
          None \<Rightarrow> None
        | Some escrow \<Rightarrow>
          if escrow > U64_MAX - fee then None
          else Some \<lparr> pcq_publication_fee = fee, pcq_storage_escrow = escrow, pcq_total_system_debit = fee + escrow,
                      pcq_billing_units = chunks, pcq_lease_periods = periods,
                      pcq_remote_replicas = storage_replica_target params \<rparr>)"

definition QuotePublicationCost :: "crypto \<Rightarrow> CybouProtocolParameters \<Rightarrow> AuthorizedRootPublication \<Rightarrow> exn + PublicationCostQuote option" where
  "QuotePublicationCost C params op =
     bindE (SerializeProtocolOperation C (OpRootPublication op)) (\<lambda>encoded. Inr (case encoded of None \<Rightarrow> None
       | Some bs \<Rightarrow> QuotePublicationCostOfSize params (length bs) (rp_chunk_count (arp_publication op))
           (rp_lease_periods (arp_publication op))))"

definition QuoteStorageLeaseCost :: "CybouProtocolParameters \<Rightarrow> u32 \<Rightarrow> u8 \<Rightarrow> u32 \<Rightarrow> StorageLeaseCostQuote option" where
  "QuoteStorageLeaseCost params units replicas periods =
     (if periods > max_storage_lease_periods params then None
      else case ComputeStorageLeaseEscrow params units replicas periods of None \<Rightarrow> None
        | Some escrow \<Rightarrow>
          if escrow > U64_MAX - payment_fee params then None
          else Some \<lparr> slq_protocol_fee = payment_fee params, slq_storage_escrow = escrow,
                      slq_total_system_debit = payment_fee params + escrow \<rparr>)"


section \<open>Transitions\<close>

definition funded_term :: "hash256 \<Rightarrow> u64 \<Rightarrow> u64 \<Rightarrow> CybouProtocolParameters \<Rightarrow> AssignedStorageBudget \<Rightarrow> u64 \<Rightarrow> u64
    \<Rightarrow> StorageFundedTerm" where
  "funded_term fid first term_end params budget onboarding locked = \<lparr>
     ft_funding_operation_id = fid, ft_first_period = first, ft_end_period = term_end,
     ft_rate = storage_rate_per_gib_day_replica params, ft_period_seconds = storage_settlement_period_seconds params,
     ft_replica_share = per_replica budget, ft_contracted_unit_seconds = budget_unit_seconds budget,
     ft_initial_onboarding = onboarding, ft_initial_locked = locked, ft_paid_onboarding = 0, ft_paid_locked = 0,
     ft_next_assignment_epoch = 1, ft_declarations = [], ft_assignments = [], ft_service_payments = [],
     ft_refunded_onboarding = 0, ft_refunded_locked = 0 \<rparr>"

definition lease_first_period :: "CybouState \<Rightarrow> hash256 \<Rightarrow> u64" where
  "lease_first_period st publication_id =
     (case map_find (leases st) publication_id of None \<Rightarrow> next_period (settlement st)
      | Some existing \<Rightarrow> max (next_period (settlement st)) (sl_end_period existing))"

text \<open>The two ends of \<^verbatim>\<open>FundStorageLease\<close>: a new lease, or a term appended to an existing one.\<close>

definition add_funded_term :: "hash256 \<Rightarrow> AccountId \<Rightarrow> u32 \<Rightarrow> u8 \<Rightarrow> StorageFundedTerm
    \<Rightarrow> (hash256, StorageLeaseRecord) omap \<Rightarrow> (hash256, StorageLeaseRecord) omap" where
  "add_funded_term publication_id payer units replicas t ls =
     (if map_contains ls publication_id
      then map_adjust publication_id (\<lambda>l. l \<lparr>
             sl_end_period := ft_end_period t, sl_escrow_onboarding := sl_escrow_onboarding l + ft_initial_onboarding t,
             sl_escrow_locked := sl_escrow_locked l + ft_initial_locked t, sl_funded_terms := sl_funded_terms l @ [t] \<rparr>) ls
      else map_emplace publication_id \<lparr> sl_payer = payer, sl_units = units, sl_replicas = replicas,
             sl_first_period = ft_first_period t, sl_end_period = ft_end_period t,
             sl_escrow_onboarding = ft_initial_onboarding t, sl_escrow_locked = ft_initial_locked t,
             sl_funded_terms = [t] \<rparr> ls)"

definition FundStorageLease :: "CybouState \<Rightarrow> hash256 \<Rightarrow> AccountId \<Rightarrow> u32 \<Rightarrow> u8 \<Rightarrow> u32 \<Rightarrow> u64 \<Rightarrow> CybouProtocolParameters \<Rightarrow> hash256
    \<Rightarrow> exn + CybouState" where
  "FundStorageLease st publication_id payer units replicas periods escrow params funding_operation_id =
     (let existing = map_find (leases st) publication_id; first = lease_first_period st publication_id in
      case ComputeAssignedStorageBudget (ucast units) (ucast replicas) (ucast periods)
             (storage_settlement_period_seconds params) (storage_rate_per_gib_day_replica params) of
        None \<Rightarrow> Inl invalid_argument
      | Some budget \<Rightarrow>
        if budget_total budget \<noteq> escrow \<or> funding_operation_id = 0 \<or> first > U64_MAX - ucast periods
           \<or> (case existing of None \<Rightarrow> False
              | Some l \<Rightarrow> sl_funded_terms l = [] \<or> sl_payer l \<noteq> payer \<or> sl_units l \<noteq> units \<or> sl_replicas l \<noteq> replicas
                  \<or> list_ex (\<lambda>t. ft_funding_operation_id t = funding_operation_id) (sl_funded_terms l))
        then Inl invalid_argument
        else case map_find (accounts st) payer of None \<Rightarrow> Inl out_of_range
        | Some account \<Rightarrow>
          let onboarding = fst (DebitSystemBalance account escrow);
              t = funded_term funding_operation_id first (first + ucast periods) params budget onboarding (escrow - onboarding)
          in Inr (st \<lparr> accounts := map_adjust payer (\<lambda>a. snd (DebitSystemBalance a escrow)) (accounts st),
                       leases := add_funded_term publication_id payer units replicas t (leases st) \<rparr>))"

text \<open>\<^verbatim>\<open>DebitSystemBalance(sender->second, fee); CreditCentralAuthorityFee(state, fee)\<close>.\<close>

definition pay_fee :: "AccountId \<Rightarrow> u64 \<Rightarrow> CybouState \<Rightarrow> CybouState" where
  "pay_fee sender fee st = snd (CreditCentralAuthorityFee
     (st \<lparr> accounts := map_adjust sender (\<lambda>a. snd (DebitSystemBalance a fee)) (accounts st) \<rparr>) fee)"

definition ApplyRootPublication :: "crypto \<Rightarrow> AuthorizedRootPublication \<Rightarrow> hash256 \<Rightarrow> CybouProtocolParameters \<Rightarrow> CybouState
    \<Rightarrow> exn + (RootPublicationError \<times> CybouState)" where
  "ApplyRootPublication C op network_binding params st =
     (let auth = arp_authorization op; account_id = ioa_account_id auth; publication = arp_publication op;
          chunk_count = rp_chunk_count publication; periods = rp_lease_periods publication in
      if ioa_kind auth \<noteq> ROOT_PUBLICATION then Inr (RootPublicationError.INVALID_AUTHORIZATION, st)
      else if ComputeRootPublicationPayloadCommitment C publication \<noteq> Some (ioa_payload_commitment auth)
        then Inr (RootPublicationError.INVALID_PAYLOAD, st)
      else bindE (SerializeProtocolOperation C (OpRootPublication op)) (\<lambda>operation_bytes.
        case operation_bytes of None \<Rightarrow> Inr (RootPublicationError.INVALID_PAYLOAD, st)
        | Some bs \<Rightarrow>
          case ComputeRootPublicationFee params (length bs) chunk_count of None \<Rightarrow> Inr (RootPublicationError.INVALID_PAYLOAD, st)
          | Some fee \<Rightarrow>
            case OperationIdOfBytes C bs of None \<Rightarrow> Inr (RootPublicationError.INVALID_PAYLOAD, st)
            | Some publication_id \<Rightarrow>
              if periods > max_storage_lease_periods params then Inr (RootPublicationError.INVALID_PAYLOAD, st)
              else if periods \<noteq> 0 \<and> next_period (settlement st) > U64_MAX - ucast periods
                then Inr (RootPublicationError.INVALID_PAYLOAD, st)
              else case (if periods = 0 then Some 0
                         else ComputeStorageLeaseEscrow params chunk_count (storage_replica_target params) periods) of
                None \<Rightarrow> Inr (RootPublicationError.INVALID_PAYLOAD, st)
              | Some escrow \<Rightarrow>
                if escrow > U64_MAX - fee then Inr (RootPublicationError.INVALID_PAYLOAD, st)
                else case map_find (accounts st) account_id of None \<Rightarrow> Inr (RootPublicationError.SENDER_NOT_FOUND, st)
                | Some sender \<Rightarrow>
                  if Registry_Find (identities st) account_id = None then Inr (RootPublicationError.SENDER_NOT_FOUND, st)
                  else if system_balance sender < fee + escrow then Inr (RootPublicationError.INSUFFICIENT_SYSTEM_BALANCE, st)
                  else if \<not> CanCreditCentralAuthorityFee st fee then Inr (RootPublicationError.FEE_TRANSFER_FAILED, st)
                  else case AuthorizeOperation C auth network_binding (identities st) of
                    (IdentityRegistryError.NONE, registry) \<Rightarrow>
                      let st1 = pay_fee account_id fee (st \<lparr> identities := registry \<rparr>) in
                      if escrow = 0 then Inr (RootPublicationError.NONE, st1)
                      else bindE (FundStorageLease st1 publication_id account_id chunk_count (storage_replica_target params)
                             periods escrow params publication_id) (\<lambda>st2. Inr (RootPublicationError.NONE, st2))
                  | _ \<Rightarrow> Inr (RootPublicationError.INVALID_AUTHORIZATION, st)))"

definition RecordPublication :: "CybouState \<Rightarrow> hash256 \<Rightarrow> AccountId \<Rightarrow> ChunkId \<Rightarrow> u32 \<Rightarrow> u64 \<Rightarrow> bool \<times> CybouState" where
  "RecordPublication st publication_id owner chunk_authorization_root chunk_count height =
     (if publication_id = 0 \<or> chunk_count = 0 \<or> map_contains (publications st) publication_id
         \<or> \<not> map_contains (accounts st) owner then (False, st)
      else (True, st \<lparr> publications := map_emplace publication_id \<lparr> pub_owner = owner,
              pub_chunk_authorization_root = chunk_authorization_root, pub_chunk_count = chunk_count, pub_height = height \<rparr>
              (publications st) \<rparr>))"

definition ApplyRevokePublication :: "crypto \<Rightarrow> AuthorizedRevokePublication \<Rightarrow> hash256 \<Rightarrow> CybouProtocolParameters \<Rightarrow> CybouState
    \<Rightarrow> RevokePublicationError \<times> CybouState" where
  "ApplyRevokePublication C op network_binding params st =
     (let auth = arv_authorization op; account_id = ioa_account_id auth; publication_id = rev_publication_id (arv_revoke op);
          fee = payment_fee params in
      if ioa_kind auth \<noteq> REVOKE_PUBLICATION then (RevokePublicationError.INVALID_AUTHORIZATION, st)
      else if ComputeRevokePublicationPayloadCommitment C (arv_revoke op) \<noteq> Some (ioa_payload_commitment auth)
        then (RevokePublicationError.INVALID_PAYLOAD, st)
      else case map_find (accounts st) account_id of None \<Rightarrow> (RevokePublicationError.SENDER_NOT_FOUND, st)
      | Some sender \<Rightarrow>
        if Registry_Find (identities st) account_id = None then (RevokePublicationError.SENDER_NOT_FOUND, st)
        else case map_find (publications st) publication_id of None \<Rightarrow> (RevokePublicationError.PUBLICATION_NOT_FOUND, st)
        | Some pub \<Rightarrow>
          if pub_owner pub \<noteq> account_id then (RevokePublicationError.NOT_OWNER, st)
          else if system_balance sender < fee then (RevokePublicationError.INSUFFICIENT_SYSTEM_BALANCE, st)
          else if \<not> CanCreditCentralAuthorityFee st fee then (RevokePublicationError.FEE_TRANSFER_FAILED, st)
          else case AuthorizeOperation C auth network_binding (identities st) of
            (IdentityRegistryError.NONE, registry) \<Rightarrow>
              let st1 = st \<lparr> identities := registry, leases := map_adjust publication_id (\<lambda>l. l \<lparr> sl_end_period :=
                          min (sl_end_period l) (max (sl_first_period l) (next_period (settlement st)) + 1) \<rparr>) (leases st),
                        publications := map_erase publication_id (publications st) \<rparr>
              in (RevokePublicationError.NONE, pay_fee account_id fee st1)
          | _ \<Rightarrow> (RevokePublicationError.INVALID_AUTHORIZATION, st))"

definition ApplyStorageLease :: "crypto \<Rightarrow> AuthorizedStorageLease \<Rightarrow> hash256 \<Rightarrow> CybouProtocolParameters \<Rightarrow> CybouState
    \<Rightarrow> exn + (StorageLeaseError \<times> CybouState)" where
  "ApplyStorageLease C op network_binding params st =
     (let auth = asle_authorization op; account_id = ioa_account_id auth; publication_id = slp_publication_id (asle_lease op);
          periods = slp_periods (asle_lease op); fee = payment_fee params in
      if ioa_kind auth \<noteq> STORAGE_LEASE then Inr (StorageLeaseError.INVALID_AUTHORIZATION, st)
      else if ComputeStorageLeasePayloadCommitment C (asle_lease op) \<noteq> Some (ioa_payload_commitment auth)
           \<or> periods > max_storage_lease_periods params then Inr (StorageLeaseError.INVALID_PAYLOAD, st)
      else case map_find (accounts st) account_id of None \<Rightarrow> Inr (StorageLeaseError.SENDER_NOT_FOUND, st)
      | Some sender \<Rightarrow>
        if Registry_Find (identities st) account_id = None then Inr (StorageLeaseError.SENDER_NOT_FOUND, st)
        else case map_find (publications st) publication_id of None \<Rightarrow> Inr (StorageLeaseError.PUBLICATION_NOT_FOUND, st)
        | Some publication \<Rightarrow>
          if pub_owner publication \<noteq> account_id then Inr (StorageLeaseError.NOT_OWNER, st)
          else let existing = map_find (leases st) publication_id;
                   replicas = (case existing of Some l \<Rightarrow> sl_replicas l | None \<Rightarrow> storage_replica_target params) in
            case ComputeStorageLeaseEscrow params (pub_chunk_count publication) replicas periods of
              None \<Rightarrow> Inr (StorageLeaseError.ESCROW_OVERFLOW, st)
            | Some escrow \<Rightarrow>
              if escrow > U64_MAX - fee then Inr (StorageLeaseError.ESCROW_OVERFLOW, st)
              else bindE (ComputeOperationId C (OpStorageLease op)) (\<lambda>fid.
                case fid of None \<Rightarrow> Inr (StorageLeaseError.INVALID_PAYLOAD, st)
                | Some funding_id \<Rightarrow>
                  if (case existing of Some l \<Rightarrow> sl_funded_terms l = [] | None \<Rightarrow> False)
                    then Inr (StorageLeaseError.INVALID_PAYLOAD, st)
                  else if lease_first_period st publication_id > U64_MAX - ucast periods
                    then Inr (StorageLeaseError.ESCROW_OVERFLOW, st)
                  else if (case existing of None \<Rightarrow> False
                           | Some l \<Rightarrow> sl_end_period l > U64_MAX - ucast periods
                               \<or> sl_escrow_onboarding l + sl_escrow_locked l > U64_MAX - escrow)
                    then Inr (StorageLeaseError.ESCROW_OVERFLOW, st)
                  else if system_balance sender < escrow + fee then Inr (StorageLeaseError.INSUFFICIENT_SYSTEM_BALANCE, st)
                  else if \<not> CanCreditCentralAuthorityFee st fee then Inr (StorageLeaseError.FEE_TRANSFER_FAILED, st)
                  else case AuthorizeOperation C auth network_binding (identities st) of
                    (IdentityRegistryError.NONE, registry) \<Rightarrow>
                      bindE (FundStorageLease (pay_fee account_id fee (st \<lparr> identities := registry \<rparr>)) publication_id account_id
                             (pub_chunk_count publication) replicas periods escrow params funding_id)
                        (\<lambda>st2. Inr (StorageLeaseError.NONE, st2))
                  | _ \<Rightarrow> Inr (StorageLeaseError.INVALID_AUTHORIZATION, st)))"


section \<open>An error leaves the state as it was\<close>

lemma keeps_bind_pure: "keeps ok st (bindE m (\<lambda>s. Inr (ok, s)))"
  by (auto simp: keeps_def bindE_Inr_iff)

lemma ApplyRootPublication_keeps: "keeps RootPublicationError.NONE st (ApplyRootPublication C op nb params st)"
  unfolding ApplyRootPublication_def Let_def case_auth_NONE by (intro keeps_intros keeps_bind_pure)

lemma ApplyStorageLease_keeps: "keeps StorageLeaseError.NONE st (ApplyStorageLease C op nb params st)"
  unfolding ApplyStorageLease_def Let_def case_auth_NONE by (intro keeps_intros keeps_bind_pure)

lemma ApplyRevokePublication_keeps: "keeps RevokePublicationError.NONE st (Inr (ApplyRevokePublication C op nb params st))"
  unfolding ApplyRevokePublication_def Let_def case_auth_NONE keeps_pure by (intro keeps_intros | simp only: keeps_pure)+

lemmas ApplyRootPublication_fail [fail_atomic] = keepsD [OF ApplyRootPublication_keeps]
lemmas ApplyStorageLease_fail [fail_atomic] = keepsD [OF ApplyStorageLease_keeps]
lemmas ApplyRevokePublication_fail [fail_atomic] = keepsD [OF ApplyRevokePublication_keeps, OF arg_cong [where f = Inr]]


section \<open>Fees and escrow\<close>

lemma pay_fee_accounts:
  assumes "map_find (accounts st) s = Some acc"
  obtains acc' where "map_find (accounts (pay_fee s fee st)) s = Some acc'"
    "system_balance acc' = system_balance acc - fee"
    "onboarding_system_balance acc' = onboarding_system_balance acc - min (onboarding_system_balance acc) fee"
proof -
  let ?st1 = "st \<lparr> accounts := map_adjust s (\<lambda>a. snd (DebitSystemBalance a fee)) (accounts st) \<rparr>"
  have "\<exists>acc'. map_find (accounts (snd (CreditCentralAuthorityFee ?st1 fee))) s = Some acc' \<and>
      system_balance acc' = system_balance acc - fee \<and>
      onboarding_system_balance acc' = onboarding_system_balance acc - min (onboarding_system_balance acc) fee"
    using assms by (auto simp: CreditCentralAuthorityFee_def loc_update_def map_find_adjust DebitSystemBalance_def Let_def
        split: option.splits treasury_loc.splits)
  with that show thesis unfolding pay_fee_def by blast
qed

lemma pay_fee_other [simp]:
  "leases (pay_fee s fee st) = leases st" "settlement (pay_fee s fee st) = settlement st"
  "identities (pay_fee s fee st) = identities st" "publications (pay_fee s fee st) = publications st"
  "names (pay_fee s fee st) = names st"
  by (simp_all add: pay_fee_def CreditCentralAuthorityFee_def loc_update_def split: option.split treasury_loc.split)

lemma CanCredit_debit:
  "CanCreditCentralAuthorityFee (st \<lparr> accounts := map_adjust s (\<lambda>a. snd (DebitSystemBalance a n)) (accounts st) \<rparr>) fee
   = CanCreditCentralAuthorityFee st fee"
  unfolding CanCreditCentralAuthorityFee_def fee_loc_accounts
  by (auto simp: loc_balance_adjust loc_balance_def split: option.split treasury_loc.split)

lemma pay_fee_conserves:
  assumes "CanCreditCentralAuthorityFee st fee" and "map_find (accounts st) s = Some acc" and "fee \<le> system_balance acc"
  shows "conserves st (pay_fee s fee st)"
  unfolding conserves_def
proof
  assume wf: "maps_wf st"
  let ?st1 = "st \<lparr> accounts := map_adjust s (\<lambda>a. snd (DebitSystemBalance a fee)) (accounts st) \<rparr>"
  have "money_supply ?st1 + unat fee = money_supply st"
    using supply_adjust_account [of st s acc "\<lambda>a. snd (DebitSystemBalance a fee)"] DebitSystemBalance_value [of fee acc] assms wf
    by (simp add: maps_wf_def)
  moreover have "CanCreditCentralAuthorityFee ?st1 fee" "maps_wf ?st1" using assms(1) wf by (simp_all add: CanCredit_debit)
  ultimately show "maps_wf (pay_fee s fee st) \<and> money_supply (pay_fee s fee st) = money_supply st"
    using CreditCentralAuthorityFee_supply [of ?st1 fee] by (simp add: pay_fee_def)
qed

lemma unat_split: "unat (min b a) + unat (a - min b a) = unat a" for a b :: u64
  by (simp add: unat_sub min_def word_le_nat_alt)

lemma lease_value_le: "map_find (leases st) i = Some l \<Longrightarrow> lease_value l \<le> money_supply st"
  using map_weigh_le [of "leases st" i l lease_value] by (simp add: money_supply_def)

lemma FundStorageLease_Inr:
  assumes "FundStorageLease st pid payer units replicas periods escrow params fid = Inr st'"
  obtains acc t where "map_find (accounts st) payer = Some acc"
    "ComputeStorageLeaseEscrow params units replicas periods = Some escrow"
    "lease_first_period st pid \<le> U64_MAX - ucast periods"
    "ft_initial_onboarding t = min (onboarding_system_balance acc) escrow" "ft_initial_locked t = escrow - ft_initial_onboarding t"
    "ft_first_period t = lease_first_period st pid" "ft_end_period t = lease_first_period st pid + ucast periods"
    "ft_funding_operation_id t = fid"
    "st' = st \<lparr> accounts := map_adjust payer (\<lambda>a. snd (DebitSystemBalance a escrow)) (accounts st),
                leases := add_funded_term pid payer units replicas t (leases st) \<rparr>"
  using assms unfolding FundStorageLease_def Let_def
  by (auto simp: ComputeStorageLeaseEscrow_def not_less funded_term_def split: option.splits if_splits intro!: that)

lemma add_funded_term_supply:
  fixes st t pid payer units replicas
  assumes wf: "maps_wf st" and bnd: "money_supply st + unat (ft_initial_onboarding t) + unat (ft_initial_locked t) < 2 ^ 64"
  defines "st' \<equiv> st \<lparr> leases := add_funded_term pid payer units replicas t (leases st) \<rparr>"
  shows "maps_wf st'" and "money_supply st' = money_supply st + unat (ft_initial_onboarding t) + unat (ft_initial_locked t)"
proof -
  show "maps_wf st'" using wf by (simp add: st'_def add_funded_term_def)
  show "money_supply st' = money_supply st + unat (ft_initial_onboarding t) + unat (ft_initial_locked t)"
  proof (cases "map_find (leases st) pid")
    case None
    then show ?thesis by (simp add: st'_def add_funded_term_def map_contains_def supply_emplace_lease lease_value_def)
  next
    case (Some l)
    have "unat (sl_escrow_onboarding l + ft_initial_onboarding t) = unat (sl_escrow_onboarding l) + unat (ft_initial_onboarding t)"
      "unat (sl_escrow_locked l + ft_initial_locked t) = unat (sl_escrow_locked l) + unat (ft_initial_locked t)"
      using lease_value_le [OF Some] bnd by (simp_all add: unat_add_fits lease_value_def)
    moreover have "omap_wf (leases st)" using wf by (simp add: maps_wf_def)
    ultimately show ?thesis
      using Some supply_adjust_lease [OF _ Some, of "\<lambda>l. l \<lparr> sl_end_period := ft_end_period t,
          sl_escrow_onboarding := sl_escrow_onboarding l + ft_initial_onboarding t,
          sl_escrow_locked := sl_escrow_locked l + ft_initial_locked t, sl_funded_terms := sl_funded_terms l @ [t] \<rparr>"]
      by (simp add: st'_def add_funded_term_def map_contains_def lease_value_def)
  qed
qed

lemma FundStorageLease_conserves:
  assumes fund: "FundStorageLease st pid payer units replicas periods escrow params fid = Inr st'"
    and acc: "map_find (accounts st) payer = Some acc" "escrow \<le> system_balance acc" and bnd: "supply_bounded st"
  shows "conserves st st'"
  using fund
proof (rule FundStorageLease_Inr)
  fix acc0 t
  assume a: "map_find (accounts st) payer = Some acc0"
    and t: "ft_initial_onboarding t = min (onboarding_system_balance acc0) escrow" "ft_initial_locked t = escrow - ft_initial_onboarding t"
    and st': "st' = st \<lparr> accounts := map_adjust payer (\<lambda>a. snd (DebitSystemBalance a escrow)) (accounts st),
                leases := add_funded_term pid payer units replicas t (leases st) \<rparr>"
  define st1 where "st1 = st \<lparr> accounts := map_adjust payer (\<lambda>a. snd (DebitSystemBalance a escrow)) (accounts st) \<rparr>"
  have split: "unat (ft_initial_onboarding t) + unat (ft_initial_locked t) = unat escrow"
    using unat_split [of "onboarding_system_balance acc0" escrow] t by simp
  show ?thesis
    unfolding conserves_def
  proof
    assume wf: "maps_wf st"
    have 1: "money_supply st1 + unat escrow = money_supply st" "maps_wf st1"
      using supply_adjust_account [of st payer acc "\<lambda>a. snd (DebitSystemBalance a escrow)"]
        DebitSystemBalance_value [OF acc(2)] acc(1) wf by (simp_all add: st1_def maps_wf_def)
    then show "maps_wf st' \<and> money_supply st' = money_supply st"
      using add_funded_term_supply [of st1 t pid payer units replicas] split bnd
      by (simp add: st' st1_def supply_bounded_def)
  qed
qed


section \<open>What a success requires and does\<close>

lemma ApplyRootPublication_NONE:
  assumes "ApplyRootPublication C op nb params st = Inr (RootPublicationError.NONE, st')"
  defines "a \<equiv> ioa_account_id (arp_authorization op)" and "chunks \<equiv> rp_chunk_count (arp_publication op)"
    and "periods \<equiv> rp_lease_periods (arp_publication op)"
  obtains bs fee pid escrow sender registry where
    "SerializeProtocolOperation C (OpRootPublication op) = Inr (Some bs)"
    "ComputeRootPublicationFee params (length bs) chunks = Some fee" "OperationIdOfBytes C bs = Some pid"
    "periods \<le> max_storage_lease_periods params"
    "(if periods = 0 then Some 0 else ComputeStorageLeaseEscrow params chunks (storage_replica_target params) periods) = Some escrow"
    "escrow \<le> U64_MAX - fee" "map_find (accounts st) a = Some sender" "fee + escrow \<le> system_balance sender"
    "CanCreditCentralAuthorityFee st fee"
    "AuthorizeOperation C (arp_authorization op) nb (identities st) = (IdentityRegistryError.NONE, registry)"
    "(if escrow = 0 then Inr (pay_fee a fee (st \<lparr> identities := registry \<rparr>))
      else FundStorageLease (pay_fee a fee (st \<lparr> identities := registry \<rparr>)) pid a chunks (storage_replica_target params)
             periods escrow params pid) = Inr st'"
  using assms(1) unfolding ApplyRootPublication_def Let_def case_auth_NONE a_def [symmetric] chunks_def [symmetric] periods_def [symmetric]
  by (simp add: guards bindE_Inr_iff auth_ok not_less split del: if_split)
    (elim exE conjE, rule that, auto simp: bindE_Inr_iff split: if_splits)

lemma ApplyStorageLease_NONE:
  assumes "ApplyStorageLease C op nb params st = Inr (StorageLeaseError.NONE, st')"
  defines "a \<equiv> ioa_account_id (asle_authorization op)" and "pid \<equiv> slp_publication_id (asle_lease op)"
    and "periods \<equiv> slp_periods (asle_lease op)" and "fee \<equiv> payment_fee params"
    and "replicas \<equiv> (case map_find (leases st) (slp_publication_id (asle_lease op)) of
           Some l \<Rightarrow> sl_replicas l | None \<Rightarrow> storage_replica_target params)"
  obtains publication escrow fid sender registry where
    "periods \<le> max_storage_lease_periods params"
    "map_find (publications st) pid = Some publication" "pub_owner publication = a"
    "ComputeStorageLeaseEscrow params (pub_chunk_count publication) replicas periods = Some escrow"
    "escrow \<le> U64_MAX - fee" "map_find (accounts st) a = Some sender" "escrow + fee \<le> system_balance sender"
    "CanCreditCentralAuthorityFee st fee"
    "AuthorizeOperation C (asle_authorization op) nb (identities st) = (IdentityRegistryError.NONE, registry)"
    "FundStorageLease (pay_fee a fee (st \<lparr> identities := registry \<rparr>)) pid a (pub_chunk_count publication) replicas
       periods escrow params fid = Inr st'"
  using assms(1) unfolding ApplyStorageLease_def Let_def case_auth_NONE a_def [symmetric] pid_def [symmetric] periods_def [symmetric]
    fee_def [symmetric] replicas_def [symmetric, folded pid_def]
  by (simp add: guards bindE_Inr_iff auth_ok not_less split del: if_split)
    (elim exE conjE, rule that, auto simp: bindE_Inr_iff)

lemma ApplyRevokePublication_NONE:
  assumes "ApplyRevokePublication C op nb params st = (RevokePublicationError.NONE, st')"
  defines "a \<equiv> ioa_account_id (arv_authorization op)" and "pid \<equiv> rev_publication_id (arv_revoke op)"
    and "fee \<equiv> payment_fee params"
  obtains pub sender registry where
    "map_find (publications st) pid = Some pub" "pub_owner pub = a"
    "map_find (accounts st) a = Some sender" "fee \<le> system_balance sender" "CanCreditCentralAuthorityFee st fee"
    "AuthorizeOperation C (arv_authorization op) nb (identities st) = (IdentityRegistryError.NONE, registry)"
    "st' = pay_fee a fee (st \<lparr> identities := registry, leases := map_adjust pid (\<lambda>l. l \<lparr> sl_end_period :=
             min (sl_end_period l) (max (sl_first_period l) (next_period (settlement st)) + 1) \<rparr>) (leases st),
           publications := map_erase pid (publications st) \<rparr>)"
  using assms(1) unfolding ApplyRevokePublication_def Let_def case_auth_NONE a_def [symmetric] pid_def [symmetric] fee_def [symmetric]
  by (simp add: guards auth_ok not_less split del: if_split) (elim exE conjE, rule that, auto)


section \<open>Conservation\<close>

lemma unat_le_sum: "fee + escrow \<le> b \<Longrightarrow> escrow \<le> U64_MAX - fee \<Longrightarrow> fee \<le> b \<and> escrow \<le> b - fee" for fee escrow b :: u64
  using unat_add_checked [of escrow fee] by (simp add: add.commute word_le_nat_alt unat_sub)

lemma authorized_conserves:
  "AuthorizeOperation C au nb (identities st) = (e, reg) \<Longrightarrow> conserves st (st \<lparr> identities := reg \<rparr>)"
  by (simp add: conserves_def maps_wf_authorized)

text \<open>Fee first, then escrow: the second debit still fits.\<close>

lemma fee_then_fund_conserves:
  assumes au: "AuthorizeOperation C auth nb (identities st) = (IdentityRegistryError.NONE, registry)"
    and acc: "map_find (accounts st) a = Some sender" "fee + escrow \<le> system_balance sender" "escrow \<le> U64_MAX - fee"
    and can: "CanCreditCentralAuthorityFee st fee" and bnd: "supply_bounded st"
    and fund: "FundStorageLease (pay_fee a fee (st \<lparr> identities := registry \<rparr>)) pid a units replicas periods escrow params fid = Inr st'"
  shows "conserves st st'"
proof -
  let ?st1 = "st \<lparr> identities := registry \<rparr>"
  have c1: "conserves st (pay_fee a fee ?st1)"
    using acc can unat_le_sum [OF acc(2,3)]
    by (intro conserves_trans [OF authorized_conserves [OF au]] pay_fee_conserves [where acc = sender])
      (simp_all add: CanCredit_authorized [OF au])
  obtain acc' where "map_find (accounts (pay_fee a fee ?st1)) a = Some acc'" "system_balance acc' = system_balance sender - fee"
    using pay_fee_accounts [of ?st1 a sender fee] acc(1) by auto
  then have "conserves (pay_fee a fee ?st1) st'" if "maps_wf st"
    using that c1 bnd unat_le_sum [OF acc(2,3)]
    by (intro FundStorageLease_conserves [OF fund]) (auto simp: conserves_def supply_bounded_def)
  with c1 show ?thesis by (auto simp: conserves_def)
qed

lemma ApplyRootPublication_conserves:
  assumes "ApplyRootPublication C op nb params st = Inr (e, st')" and bnd: "supply_bounded st"
  shows "conserves st st'"
proof (cases "e = RootPublicationError.NONE")
  case False
  with ApplyRootPublication_fail [OF assms(1)] show ?thesis by simp
next
  case True
  with assms have "ApplyRootPublication C op nb params st = Inr (RootPublicationError.NONE, st')" by simp
  then show ?thesis
  proof (rule ApplyRootPublication_NONE)
    fix bs fee pid escrow sender registry
    let ?a = "ioa_account_id (arp_authorization op)"
    assume acc: "escrow \<le> U64_MAX - fee" "map_find (accounts st) ?a = Some sender" "fee + escrow \<le> system_balance sender"
      and can: "CanCreditCentralAuthorityFee st fee"
      and au: "AuthorizeOperation C (arp_authorization op) nb (identities st) = (IdentityRegistryError.NONE, registry)"
      and st': "(if escrow = 0 then Inr (pay_fee ?a fee (st \<lparr> identities := registry \<rparr>))
        else FundStorageLease (pay_fee ?a fee (st \<lparr> identities := registry \<rparr>)) pid ?a (rp_chunk_count (arp_publication op))
          (storage_replica_target params) (rp_lease_periods (arp_publication op)) escrow params pid) = Inr st'"
    show ?thesis
    proof (cases "escrow = 0")
      case False
      with st' show ?thesis by (intro fee_then_fund_conserves [OF au acc(2,3,1) can bnd]) simp
    next
      case True
      with st' acc can show ?thesis
        by (auto intro!: conserves_trans [OF authorized_conserves [OF au]] pay_fee_conserves [where acc = sender]
            simp: CanCredit_authorized [OF au])
    qed
  qed
qed

lemma ApplyStorageLease_conserves:
  assumes "ApplyStorageLease C op nb params st = Inr (e, st')" and bnd: "supply_bounded st"
  shows "conserves st st'"
proof (cases "e = StorageLeaseError.NONE")
  case False
  with ApplyStorageLease_fail [OF assms(1)] show ?thesis by simp
next
  case True
  with assms have "ApplyStorageLease C op nb params st = Inr (StorageLeaseError.NONE, st')" by simp
  then show ?thesis
    by (rule ApplyStorageLease_NONE) (rule fee_then_fund_conserves [OF _ _ _ _ _ bnd]; simp add: add.commute)
qed

lemma map_weigh_adjust_same: "(\<And>v. g (f v) = g v) \<Longrightarrow> map_weigh g (map_adjust k f m) = map_weigh g m"
  by (induction k f m rule: map_adjust.induct) auto

lemma ApplyRevokePublication_conserves:
  assumes "ApplyRevokePublication C op nb params st = (e, st')"
  shows "conserves st st'"
proof (cases "e = RevokePublicationError.NONE")
  case False
  with ApplyRevokePublication_fail [OF assms] show ?thesis by simp
next
  case True
  with assms have "ApplyRevokePublication C op nb params st = (RevokePublicationError.NONE, st')" by simp
  then show ?thesis
  proof (rule ApplyRevokePublication_NONE)
    fix pub sender registry
    let ?a = "ioa_account_id (arv_authorization op)" and ?pid = "rev_publication_id (arv_revoke op)"
    let ?f = "\<lambda>l. l \<lparr> sl_end_period := min (sl_end_period l) (max (sl_first_period l) (next_period (settlement st)) + 1) \<rparr>"
    let ?st1 = "st \<lparr> identities := registry, leases := map_adjust ?pid ?f (leases st), publications := map_erase ?pid (publications st) \<rparr>"
    assume acc: "map_find (accounts st) ?a = Some sender" "payment_fee params \<le> system_balance sender"
      and can: "CanCreditCentralAuthorityFee st (payment_fee params)"
      and au: "AuthorizeOperation C (arv_authorization op) nb (identities st) = (IdentityRegistryError.NONE, registry)"
      and st': "st' = pay_fee ?a (payment_fee params) ?st1"
    have "map_weigh lease_value (map_adjust ?pid ?f (leases st)) = map_weigh lease_value (leases st)" 
      by (intro map_weigh_adjust_same) (simp add: lease_value_def)
    then have "conserves st ?st1"
      using maps_wf_authorized [OF _ au] by (auto simp: conserves_def money_supply_def maps_wf_def)
    moreover have "CanCreditCentralAuthorityFee ?st1 (payment_fee params)"
      using CanCredit_authorized [OF au, of "payment_fee params"] can by (simp add: CanCreditCentralAuthorityFee_def cong: option.case_cong)
    ultimately show ?thesis
      unfolding st' using acc by (intro conserves_trans [OF _ pay_fee_conserves [where acc = sender]]) simp_all
  qed
qed

lemma RecordPublication_conserves: "RecordPublication st pid owner root n h = (ok, st') \<Longrightarrow> conserves st st'"
  by (auto simp: RecordPublication_def conserves_def split: if_splits)

end
