(* ===== verification/Validate.thy ===== *)
theory Validate
  imports Lease
begin

text \<open>
  The state validator (\<^verbatim>\<open>ValidateCybouState\<close>, \<^verbatim>\<open>state.cpp\<close>) and the accepted storage capacity it
  recomputes (\<^verbatim>\<open>ComputeAcceptedStorageCapacity\<close>, \<^verbatim>\<open>storage_lease.cpp\<close>). The inner loops of
  the validator return one error code, so each is a Boolean check; a set that a loop only fills to find duplicates
  is a \<open>distinct\<close> test on the values in loop order; the 128-bit sums are natural numbers.
\<close>

section \<open>Accepted capacity\<close>

type_synonym service_key = "u8 \<times> StorageId \<times> AccountId"

definition units_key :: "StorageAssignedUnits \<Rightarrow> service_key" where
  "units_key u = (sau_slot u, sau_storage_id u, sau_payout_account u)"

definition payment_key :: "StorageServicePayment \<Rightarrow> service_key" where
  "payment_key e = (ssp_slot e, ssp_storage_id e, ssp_payout_account e)"

text \<open>The loop over the allocations of an epoch, with the variables \<^verbatim>\<open>units\<close> and \<^verbatim>\<open>found\<close>.\<close>

fun scan_allocations :: "service_key \<Rightarrow> StorageAssignedUnits list \<Rightarrow> u32 \<Rightarrow> bool \<Rightarrow> u32 option" where
  "scan_allocations key [] units found = Some units"
| "scan_allocations key (a # as) units found =
     (if units_key a \<noteq> key then scan_allocations key as units found
      else if found \<or> sau_units a = 0 then None
      else scan_allocations key as (sau_units a) True)"

fun capacity_loop :: "StorageFundedTerm \<Rightarrow> service_key \<Rightarrow> u64 \<Rightarrow> StorageAcceptedAssignment option
    \<Rightarrow> StorageAcceptedAssignment list \<Rightarrow> u64 \<Rightarrow> u64 option" where
  "capacity_loop t key end_p prev [] capacity = Some capacity"
| "capacity_loop t key end_p prev (epoch # rest) capacity =
     (if saa_epoch epoch = 0 \<or> saa_effective_period epoch < ft_first_period t \<or> saa_effective_period epoch \<ge> ft_end_period t
         \<or> (case prev of None \<Rightarrow> False
            | Some p \<Rightarrow> saa_epoch epoch \<le> saa_epoch p \<or> saa_effective_period epoch < saa_effective_period p) then None
      else case scan_allocations key (saa_allocations epoch) 0 False of None \<Rightarrow> None
      | Some units \<Rightarrow>
        let epoch_end = (case rest of [] \<Rightarrow> end_p | n # _ \<Rightarrow> min end_p (saa_effective_period n)) in
        if epoch_end \<le> saa_effective_period epoch \<or> units = 0 then capacity_loop t key end_p (Some epoch) rest capacity
        else case CheckedMul (epoch_end - saa_effective_period epoch) (ft_period_seconds t) of None \<Rightarrow> None
        | Some seconds \<Rightarrow>
          (case CheckedMul seconds (ucast units) of None \<Rightarrow> None
           | Some increment \<Rightarrow>
             if increment > U64_MAX - capacity then None
             else capacity_loop t key end_p (Some epoch) rest (capacity + increment)))"

definition ComputeAcceptedStorageCapacity :: "StorageFundedTerm \<Rightarrow> service_key \<Rightarrow> u64 \<Rightarrow> u64 \<Rightarrow> u64 option" where
  "ComputeAcceptedStorageCapacity t key through_period closure_period =
     (let (slot, storage_id, payout_account) = key in
      if ft_period_seconds t = 0 \<or> ft_end_period t \<le> ft_first_period t \<or> storage_id = 0 \<or> payout_account = 0
         \<or> through_period < ft_first_period t \<or> closure_period < ft_first_period t then None
      else case capacity_loop t key (min (min through_period closure_period) (ft_end_period t)) None (ft_assignments t) 0 of
        None \<Rightarrow> None
      | Some capacity \<Rightarrow> if capacity > ft_contracted_unit_seconds t then None else Some capacity)"


section \<open>Checks of a funded term\<close>

definition eligible_valid :: "CybouState \<Rightarrow> StorageLeaseRecord \<Rightarrow> u64 \<Rightarrow> StorageAcceptedBinding \<Rightarrow> bool" where
  "eligible_valid st l height e \<longleftrightarrow> sab_storage_id e \<noteq> 0 \<and> sab_payout_account e \<noteq> sl_payer l
     \<and> map_contains (accounts st) (sab_payout_account e)
     \<and> (case Registry_Find (identities st) (sab_payout_account e) of None \<Rightarrow> False | Some i \<Rightarrow> sab_key_epoch e \<le> ir_key_epoch i)
     \<and> sab_accepted_height e = height"

fun declarations_valid :: "CybouState \<Rightarrow> StorageLeaseRecord \<Rightarrow> StorageFundedTerm \<Rightarrow> u64 \<Rightarrow> u64 \<Rightarrow> StorageAssignmentDeclaration list \<Rightarrow> bool" where
  "declarations_valid st l t prior_epoch prior_height [] \<longleftrightarrow>
     ft_next_assignment_epoch t = (if ft_declarations t = [] then 1 else prior_epoch + 1)"
| "declarations_valid st l t prior_epoch prior_height (d # ds) \<longleftrightarrow>
     sad_operation_id d \<noteq> 0 \<and> prior_epoch < sad_epoch d \<and> sad_epoch d < ft_next_assignment_epoch t \<and> sad_height d \<noteq> 0
     \<and> prior_height \<le> sad_height d \<and> sl_replicas l \<le> 2 \<and> sad_eligible d \<noteq> [] \<and> length (sad_eligible d) \<le> 20
     \<and> list_all (eligible_valid st l (sad_height d)) (sad_eligible d) \<and> strictly_increasing (map sab_storage_id (sad_eligible d))
     \<and> unat (sl_replicas l) \<le> length (remdups (map sab_payout_account (sad_eligible d)))
     \<and> declarations_valid st l t (sad_epoch d) (sad_height d) ds"

definition allocation_valid :: "StorageLeaseRecord \<Rightarrow> StorageAssignmentDeclaration \<Rightarrow> StorageAssignedUnits \<Rightarrow> bool" where
  "allocation_valid l d u \<longleftrightarrow> sau_slot u < sl_replicas l \<and> sau_units u \<noteq> 0 \<and> sau_units u \<le> sl_units l
     \<and> list_ex (\<lambda>e. sab_storage_id e = sau_storage_id u \<and> sab_payout_account e = sau_payout_account u) (sad_eligible d)"

definition slot_units :: "StorageAssignedUnits list \<Rightarrow> u8 \<Rightarrow> nat" where
  "slot_units us slot = sum_list (map (\<lambda>u. unat (sau_units u)) (filter (\<lambda>u. sau_slot u = slot) us))"

definition all_slots :: "u8 \<Rightarrow> (u8 \<Rightarrow> bool) \<Rightarrow> bool" where
  "all_slots replicas P \<longleftrightarrow> list_all (\<lambda>n. P (of_nat n)) [0..<unat replicas]"

fun assignments_valid :: "CybouState \<Rightarrow> StorageLeaseRecord \<Rightarrow> StorageFundedTerm \<Rightarrow> u64 \<Rightarrow> u64 \<Rightarrow> StorageAcceptedAssignment list \<Rightarrow> bool" where
  "assignments_valid st l t prior_epoch prior_period [] \<longleftrightarrow> True"
| "assignments_valid st l t prior_epoch prior_period (a # as) \<longleftrightarrow>
     saa_operation_id a \<noteq> 0 \<and> saa_seed a \<noteq> 0
     \<and> (case find (\<lambda>d. sad_operation_id d = saa_preparation_id a) (ft_declarations t) of None \<Rightarrow> False
        | Some d \<Rightarrow> saa_epoch a = sad_epoch d \<and> prior_epoch < saa_epoch a
            \<and> ft_first_period t \<le> saa_effective_period a \<and> saa_effective_period a < ft_end_period t
            \<and> saa_effective_period a \<le> next_period (settlement st)
            \<and> (prior_epoch = 0 \<or> prior_period \<le> saa_effective_period a) \<and> saa_allocations a \<noteq> []
            \<and> length (saa_allocations a) \<le> 20 * unat (sl_replicas l)
            \<and> list_all (allocation_valid l d) (saa_allocations a) \<and> strictly_increasing (map units_key (saa_allocations a))
            \<and> all_slots (sl_replicas l) (\<lambda>slot. slot_units (saa_allocations a) slot = unat (sl_units l)))
     \<and> assignments_valid st l t (saa_epoch a) (saa_effective_period a) as"

text \<open>The term is closed once the settlement cursor has reached its end or the end of the lease.\<close>

definition term_closed :: "CybouState \<Rightarrow> StorageLeaseRecord \<Rightarrow> StorageFundedTerm \<Rightarrow> bool" where
  "term_closed st l t \<longleftrightarrow> min (ft_end_period t) (sl_end_period l) \<le> next_period (settlement st)"

definition payment_valid :: "CybouState \<Rightarrow> StorageLeaseRecord \<Rightarrow> StorageFundedTerm \<Rightarrow> AssignedStorageBudget \<Rightarrow> StorageServicePayment \<Rightarrow> bool" where
  "payment_valid st l t budget e \<longleftrightarrow> ssp_slot e < sl_replicas l \<and> ssp_verified_unit_seconds e \<noteq> 0 \<and> ft_assignments t \<noteq> []
     \<and> (case ComputeAcceptedStorageCapacity t (payment_key e) (next_period (settlement st)) (sl_end_period l) of None \<Rightarrow> False
        | Some capacity \<Rightarrow> ssp_verified_unit_seconds e \<le> capacity)
     \<and> ComputeAcceptedStorageCapacity t (payment_key e)
          (if term_closed st l t then next_period (settlement st) else saa_effective_period (last (ft_assignments t))) (sl_end_period l)
        = Some (ssp_closed_epoch_capacity e)
     \<and> ComputeAssignedStoragePayout budget (ssp_verified_unit_seconds e) (ssp_paid e) = Some 0"

definition slot_service :: "StorageServicePayment list \<Rightarrow> u8 \<Rightarrow> nat" where
  "slot_service ps slot = sum_list (map (\<lambda>e. unat (ssp_verified_unit_seconds e)) (filter (\<lambda>e. ssp_slot e = slot) ps))"

definition U32_COUNT_MAX :: nat where "U32_COUNT_MAX = 2 ^ 32 - 1"

definition term_valid :: "CybouState \<Rightarrow> StorageLeaseRecord \<Rightarrow> u64 \<Rightarrow> StorageFundedTerm \<Rightarrow> bool" where
  "term_valid st l end_p t \<longleftrightarrow>
     ft_funding_operation_id t \<noteq> 0 \<and> end_p \<le> ft_first_period t \<and> ft_first_period t < ft_end_period t
     \<and> ft_paid_onboarding t \<le> ft_initial_onboarding t \<and> ft_paid_locked t \<le> ft_initial_locked t
     \<and> ft_refunded_onboarding t \<le> ft_initial_onboarding t - ft_paid_onboarding t
     \<and> ft_refunded_locked t \<le> ft_initial_locked t - ft_paid_locked t
     \<and> (ft_refunded_onboarding t = 0 \<and> ft_refunded_locked t = 0 \<or> term_closed st l t)
     \<and> (case ComputeAssignedStorageBudget (ucast (sl_units l)) (ucast (sl_replicas l)) (ft_end_period t - ft_first_period t)
               (ft_period_seconds t) (ft_rate t) of None \<Rightarrow> False
        | Some budget \<Rightarrow>
            per_replica budget = ft_replica_share t \<and> budget_unit_seconds budget = ft_contracted_unit_seconds t
            \<and> unat (ft_initial_onboarding t) + unat (ft_initial_locked t) = unat (budget_total budget)
            \<and> (ft_paid_locked t = 0 \<or> ft_paid_onboarding t = ft_initial_onboarding t)
            \<and> (term_closed st l t \<longrightarrow> ft_initial_onboarding t - ft_paid_onboarding t = ft_refunded_onboarding t
                 \<and> ft_initial_locked t - ft_paid_locked t = ft_refunded_locked t)
            \<and> ft_next_assignment_epoch t \<noteq> 0 \<and> length (ft_declarations t) \<le> U32_COUNT_MAX
            \<and> length (ft_assignments t) \<le> U32_COUNT_MAX \<and> length (ft_service_payments t) \<le> U32_COUNT_MAX
            \<and> declarations_valid st l t 0 0 (ft_declarations t) \<and> assignments_valid st l t 0 0 (ft_assignments t)
            \<and> list_all (payment_valid st l t budget) (ft_service_payments t)
            \<and> strictly_increasing (map payment_key (ft_service_payments t))
            \<and> sum_list (map (\<lambda>e. unat (ssp_paid e)) (ft_service_payments t)) = unat (ft_paid_onboarding t) + unat (ft_paid_locked t)
            \<and> all_slots (sl_replicas l) (\<lambda>slot. slot_service (ft_service_payments t) slot \<le> unat (ft_contracted_unit_seconds t)))"

definition remaining_onboarding :: "StorageFundedTerm \<Rightarrow> u64" where
  "remaining_onboarding t = ft_initial_onboarding t - ft_paid_onboarding t - ft_refunded_onboarding t"

definition remaining_locked :: "StorageFundedTerm \<Rightarrow> u64" where
  "remaining_locked t = ft_initial_locked t - ft_paid_locked t - ft_refunded_locked t"

fun terms_valid :: "CybouState \<Rightarrow> StorageLeaseRecord \<Rightarrow> u64 \<Rightarrow> StorageFundedTerm list \<Rightarrow> bool" where
  "terms_valid st l end_p [] \<longleftrightarrow> sl_end_period l \<le> end_p"
| "terms_valid st l end_p (t # ts) \<longleftrightarrow> term_valid st l end_p t \<and> terms_valid st l (ft_end_period t) ts"

definition lease_valid :: "CybouState \<Rightarrow> hash256 \<Rightarrow> StorageLeaseRecord \<Rightarrow> bool" where
  "lease_valid st i l \<longleftrightarrow>
     i \<noteq> 0 \<and> map_contains (accounts st) (sl_payer l) \<and> sl_units l \<noteq> 0 \<and> sl_replicas l \<noteq> 0
     \<and> sl_replicas l \<le> MAX_STORAGE_LEASE_REPLICAS \<and> sl_first_period l < sl_end_period l
     \<and> sl_first_period l \<le> next_period (settlement st)
     \<and> (case map_find (publications st) i of None \<Rightarrow> True
        | Some p \<Rightarrow> pub_owner p = sl_payer l \<and> pub_chunk_count p = sl_units l)
     \<and> sl_funded_terms l \<noteq> [] \<and> length (sl_funded_terms l) \<le> U32_COUNT_MAX
     \<and> terms_valid st l (sl_first_period l) (sl_funded_terms l)
     \<and> unat (sl_escrow_onboarding l) = sum_list (map (\<lambda>t. unat (remaining_onboarding t)) (sl_funded_terms l))
     \<and> unat (sl_escrow_locked l) = sum_list (map (\<lambda>t. unat (remaining_locked t)) (sl_funded_terms l))"

text \<open>The values put into \<^verbatim>\<open>funding_ids\<close> and \<^verbatim>\<open>assignment_operation_ids\<close>, in loop order.\<close>

definition all_terms :: "CybouState \<Rightarrow> StorageFundedTerm list" where
  "all_terms st = concat (map (\<lambda>(i, l). sl_funded_terms l) (leases st))"

definition assignment_ids :: "StorageFundedTerm \<Rightarrow> hash256 list" where
  "assignment_ids t = map sad_operation_id (ft_declarations t) @ map saa_operation_id (ft_assignments t)"

definition leases_valid :: "CybouState \<Rightarrow> bool" where
  "leases_valid st \<longleftrightarrow> list_all (\<lambda>(i, l). lease_valid st i l) (leases st)
     \<and> distinct (map ft_funding_operation_id (all_terms st)) \<and> distinct (concat (map assignment_ids (all_terms st)))"


section \<open>The validator\<close>

datatype StateValidationError = NONE | ACCOUNT_LIMIT_EXCEEDED | ACCOUNT_IDENTITY_COUNT_MISMATCH | MISSING_IDENTITY
  | DUPLICATE_RECOVERY_BINDING | BALANCE_OVERFLOW | INVALID_NAME_REGISTRY | INVALID_RESOURCE_USAGE | INVALID_STORAGE_LEASE

fun check_accounts :: "CybouState \<Rightarrow> (AccountId \<times> AccountState) list \<Rightarrow> StateValidationError" where
  "check_accounts st [] = NONE"
| "check_accounts st ((i, account) # rest) =
     (if i = 0 \<or> Registry_Find (identities st) i = None then MISSING_IDENTITY
      else if onboarding_system_balance account > system_balance account then BALANCE_OVERFLOW
      else check_accounts st rest)"

definition identity_indexed :: "crypto \<Rightarrow> CybouState \<Rightarrow> AccountId \<times> IdentityRecord \<Rightarrow> bool" where
  "identity_indexed C st p \<longleftrightarrow> (case ComputeRecoveryKeyId C (ir_recovery_key (snd p)) of None \<Rightarrow> False
     | Some root_id \<Rightarrow> FindByRecoveryKeyId (identities st) root_id = Some (fst p))"

definition allocation_label_valid :: "CybouState \<Rightarrow> GenesisAllocation \<Rightarrow> bool" where
  "allocation_label_valid st a \<longleftrightarrow>
     (ga_label a = [] \<or> ValidateNameLabel (ga_label a) = NameValidationError.NONE
        \<or> ValidateNameLabel (ga_label a) = NameValidationError.PROTECTED_NAME)
     \<and> (case ga_claimed_by a of None \<Rightarrow> True | Some c \<Rightarrow> map_contains (accounts st) c)"

definition claimed_genesis_labels :: "CybouState \<Rightarrow> (string \<times> AccountId) list" where
  "claimed_genesis_labels st = map (\<lambda>(i, a). (ga_label a, the (ga_claimed_by a)))
     (filter (\<lambda>(i, a). ga_claimed_by a \<noteq> None \<and> ga_label a \<noteq> []) (genesis_allocations st))"

definition name_valid :: "CybouState \<Rightarrow> string \<Rightarrow> AccountId \<Rightarrow> bool" where
  "name_valid st label acc \<longleftrightarrow>
     (ValidateNameLabel label = NameValidationError.NONE
        \<or> ValidateNameLabel label = NameValidationError.PROTECTED_NAME \<and> map_of (claimed_genesis_labels st) label = Some acc)
     \<and> map_find (account_names (names st)) acc = Some label \<and> map_contains (accounts st) acc"

definition registry_names_valid :: "CybouState \<Rightarrow> bool" where
  "registry_names_valid st \<longleftrightarrow>
     length (nr_names (names st)) = length (account_names (names st))
     \<and> length (genesis_allocations st) \<le> MAX_GENESIS_ALLOCATIONS
     \<and> list_all (\<lambda>(i, a). allocation_label_valid st a) (genesis_allocations st)
     \<and> distinct (filter (\<lambda>s. s \<noteq> []) (map (\<lambda>(i, a). ga_label a) (genesis_allocations st)))
     \<and> list_all (\<lambda>(label, acc). name_valid st label acc) (nr_names (names st))
     \<and> list_all (\<lambda>(commit, r). commit \<noteq> 0 \<and> map_contains (accounts st) (ncr_account_id r)) (pending_commits (names st))
     \<and> distinct (map (\<lambda>(commit, r). ncr_account_id r) (pending_commits (names st)))
     \<and> length (pending_commits (names st)) \<le> DEFAULT_MAX_PENDING_NAME_COMMITS"

definition publications_valid :: "CybouState \<Rightarrow> bool" where
  "publications_valid st \<longleftrightarrow> list_all (\<lambda>(i, r). i \<noteq> 0 \<and> pub_chunk_count r \<noteq> 0 \<and> map_contains (accounts st) (pub_owner r)) (publications st)"

definition ValidateCybouState :: "crypto \<Rightarrow> CybouState \<Rightarrow> StateValidationError" where
  "ValidateCybouState C st =
     (if length (accounts st) > MAX_IDENTITY_REGISTRY_ACCOUNTS then ACCOUNT_LIMIT_EXCEEDED
      else if length (accounts st) \<noteq> length (m_accounts (identities st)) then ACCOUNT_IDENTITY_COUNT_MISMATCH
      else case check_accounts st (accounts st) of
        NONE \<Rightarrow>
          if \<not> list_all (identity_indexed C st) (m_accounts (identities st)) then DUPLICATE_RECOVERY_BINDING
          else if \<not> registry_names_valid st then INVALID_NAME_REGISTRY
          else if TotalCybou st = U64_MAX then BALANCE_OVERFLOW
          else if \<not> publications_valid st then INVALID_RESOURCE_USAGE
          else if \<not> leases_valid st then INVALID_STORAGE_LEASE
          else NONE
      | e \<Rightarrow> e)"


section \<open>What the capacity is\<close>

text \<open>
  The units a key holds in a period are those of the last assignment in force by then; the accepted capacity is
  their sum over the settled periods, times the length of a period.
\<close>

definition epoch_units :: "service_key \<Rightarrow> StorageAcceptedAssignment \<Rightarrow> nat" where
  "epoch_units key a = (case find (\<lambda>u. units_key u = key) (saa_allocations a) of None \<Rightarrow> 0 | Some u \<Rightarrow> unat (sau_units u))"

definition assigned_units :: "service_key \<Rightarrow> StorageAcceptedAssignment list \<Rightarrow> nat \<Rightarrow> nat" where
  "assigned_units key as p = (let in_force = filter (\<lambda>a. unat (saa_effective_period a) \<le> p) as
     in if in_force = [] then 0 else epoch_units key (last in_force))"

lemma scan_allocations_found: "scan_allocations key as u True = Some v \<Longrightarrow> v = u"
  by (induction as) (auto split: if_splits)

lemma scan_allocations_units: "scan_allocations key (saa_allocations a) 0 False = Some u \<Longrightarrow> unat u = epoch_units key a"
proof -
  have "scan_allocations key us 0 False = Some u \<Longrightarrow>
      unat u = (case find (\<lambda>u. units_key u = key) us of None \<Rightarrow> 0 | Some u \<Rightarrow> unat (sau_units u))" for us
    by (induction us) (auto split: if_splits dest: scan_allocations_found)
  then show "scan_allocations key (saa_allocations a) 0 False = Some u \<Longrightarrow> unat u = epoch_units key a"
    by (simp add: epoch_units_def)
qed

lemma assigned_units_before: "\<forall>a \<in> set as. p < unat (saa_effective_period a) \<Longrightarrow> assigned_units key as p = 0"
  by (auto simp: assigned_units_def filter_empty_conv)

lemma assigned_units_Cons:
  assumes "sorted (map saa_effective_period (a # as))"
  shows "assigned_units key (a # as) p =
     (if p < unat (saa_effective_period a) then 0
      else if as \<noteq> [] \<and> unat (saa_effective_period (hd as)) \<le> p then assigned_units key as p else epoch_units key a)"
proof (cases as)
  case Nil
  then show ?thesis by (simp add: assigned_units_def)
next
  case (Cons b bs)
  have "unat (saa_effective_period a) \<le> unat (saa_effective_period b)" "\<forall>c \<in> set bs. unat (saa_effective_period b) \<le> unat (saa_effective_period c)"
    using assms Cons by (auto simp: word_le_nat_alt)
  then show ?thesis using Cons by (force simp: assigned_units_def filter_empty_conv)
qed

lemma sum_step:
  fixes f g :: "nat \<Rightarrow> nat"
  assumes "\<And>p. p < E \<Longrightarrow> f p = (if p < a then 0 else if p < b then u else g p)" and "\<And>p. p < b \<Longrightarrow> g p = 0" and "a \<le> b"
  shows "sum f {..<E} = (min E b - a) * u + sum g {..<E}"
proof -
  have "sum f {..<E} = sum (\<lambda>p. (if p \<in> {a..<min E b} then u else 0) + g p) {..<E}"
    using assms by (intro sum.cong) auto
  also have "\<dots> = sum (\<lambda>p. if p \<in> {a..<min E b} then u else 0) {..<E} + sum g {..<E}" by (rule sum.distrib)
  also have "sum (\<lambda>p. if p \<in> {a..<min E b} then u else 0) {..<E} = sum (\<lambda>_. u) ({..<E} \<inter> {a..<min E b})"
    by (subst sum.inter_restrict) (simp_all only: finite_lessThan)
  also have "{..<E} \<inter> {a..<min E b} = {a..<min E b}" by auto
  finally show ?thesis by simp
qed

lemma capacity_loop_sorted:
  "capacity_loop t key E prev as c = Some c' \<Longrightarrow> sorted (map saa_effective_period as)
     \<and> (\<forall>p a. prev = Some p \<longrightarrow> a \<in> set as \<longrightarrow> saa_effective_period p \<le> saa_effective_period a)"
proof (induction t key E prev as c arbitrary: c' rule: capacity_loop.induct)
  case (2 t key end_p prev epoch rest capacity)
  then have "sorted (map saa_effective_period rest) \<and>
      (\<forall>a \<in> set rest. saa_effective_period epoch \<le> saa_effective_period a)"
    by (auto split: if_splits option.splits simp: Let_def)
  moreover have "case prev of None \<Rightarrow> True | Some p \<Rightarrow> saa_effective_period p \<le> saa_effective_period epoch"
    using 2(3) by (auto split: if_splits option.splits)
  ultimately show ?case by (auto split: option.splits intro: order_trans)
qed simp

lemma capacity_loop_exact:
  "capacity_loop t key E prev as c = Some c' \<Longrightarrow>
   unat c' = unat c + (\<Sum>p<unat E. assigned_units key as p) * unat (ft_period_seconds t)"
proof (induction t key E prev as c arbitrary: c' rule: capacity_loop.induct)
  case (1 t key end_p prev capacity)
  then show ?case by (simp add: assigned_units_def)
next
  case (2 t key end_p prev epoch rest capacity)
  obtain units where u: "scan_allocations key (saa_allocations epoch) 0 False = Some units"
    using 2(3) by (auto split: if_splits option.splits)
  note guard = 2(3) u
  have sorted: "sorted (map saa_effective_period (epoch # rest))" using capacity_loop_sorted [OF 2(3)] by simp
  let ?b = "case rest of [] \<Rightarrow> unat end_p | n # _ \<Rightarrow> unat (saa_effective_period n)"
    and ?e = "unat (saa_effective_period epoch)"
  define epoch_end where "epoch_end = (case rest of [] \<Rightarrow> end_p | n # _ \<Rightarrow> min end_p (saa_effective_period n))"
  have ee: "unat epoch_end = min (unat end_p) ?b"
    by (auto simp: epoch_end_def min_def word_le_nat_alt split: list.split)
  have step: "(\<Sum>p<unat end_p. assigned_units key (epoch # rest) p)
      = (unat epoch_end - ?e) * unat units + (\<Sum>p<unat end_p. assigned_units key rest p)"
  proof (cases rest)
    case Nil
    have "(\<Sum>p<unat end_p. assigned_units key (epoch # rest) p)
        = (min (unat end_p) (max ?e (unat end_p)) - ?e) * epoch_units key epoch + sum (\<lambda>_. 0) {..<unat end_p}"
      by (rule sum_step) (auto simp: Nil assigned_units_def)
    then show ?thesis using scan_allocations_units [OF u] by (simp add: Nil ee assigned_units_def max_def)
  next
    case (Cons n ns)
    have n: "\<forall>a \<in> set rest. unat (saa_effective_period n) \<le> unat (saa_effective_period a)" "?e \<le> unat (saa_effective_period n)"
      using sorted Cons by (auto simp: word_le_nat_alt)
    have before: "assigned_units key rest p = 0" if "p < unat (saa_effective_period n)" for p
      using n(1) that by (intro assigned_units_before) auto
    have "(\<Sum>p<unat end_p. assigned_units key (epoch # rest) p)
        = (min (unat end_p) (unat (saa_effective_period n)) - ?e) * epoch_units key epoch + (\<Sum>p<unat end_p. assigned_units key rest p)"
      using n(2) by (intro sum_step) (simp_all add: assigned_units_Cons [OF sorted] before, simp_all add: Cons)
    then show ?thesis using scan_allocations_units [OF u] by (simp add: Cons ee)
  qed
  show ?case
  proof (cases "epoch_end \<le> saa_effective_period epoch \<or> units = 0")
    case True
    then have "capacity_loop t key end_p (Some epoch) rest capacity = Some c'"
      using guard by (auto simp: Let_def epoch_end_def split: if_splits option.splits)
    then show ?thesis using 2(1) [OF _ u epoch_end_def True, of c'] guard step True
      by (auto simp: word_le_nat_alt split: if_splits)
  next
    case False
    then obtain seconds inc where s: "CheckedMul (epoch_end - saa_effective_period epoch) (ft_period_seconds t) = Some seconds"
      "CheckedMul seconds (ucast units) = Some inc" "\<not> inc > U64_MAX - capacity"
      and c': "capacity_loop t key end_p (Some epoch) rest (capacity + inc) = Some c'"
      using guard by (auto simp: Let_def epoch_end_def [symmetric] split: if_splits option.splits)
    have "unat (ucast units :: u64) = unat units"
      using unsigned_less [of units, where 'a = nat] by (simp add: unsigned_ucast_eq take_bit_nat_eq_self)
    then have "unat inc = (unat epoch_end - ?e) * unat (ft_period_seconds t) * unat units"
      using CheckedMul_unat [OF s(1)] CheckedMul_unat [OF s(2)] False by (simp add: unat_sub word_le_nat_alt)
    moreover have "unat (capacity + inc) = unat capacity + unat inc"
      using s(3) unat_add_checked [of inc capacity] by (simp add: not_less add.commute)
    moreover have "unat c' = unat (capacity + inc) + (\<Sum>p<unat end_p. assigned_units key rest p) * unat (ft_period_seconds t)"
      using 2(2) [OF _ u epoch_end_def False s(1,2,3) c'] guard by (auto split: if_splits)
    ultimately show ?thesis by (simp add: step algebra_simps)
  qed
qed

lemma ComputeAcceptedStorageCapacity_exact:
  assumes "ComputeAcceptedStorageCapacity t key through closure = Some capacity"
  shows "unat capacity = (\<Sum>p<unat (min (min through closure) (ft_end_period t)). assigned_units key (ft_assignments t) p)
           * unat (ft_period_seconds t)"
    and "capacity \<le> ft_contracted_unit_seconds t"
  using assms capacity_loop_exact [of t key "min (min through closure) (ft_end_period t)" None "ft_assignments t" 0]
  by (auto simp: ComputeAcceptedStorageCapacity_def split: prod.splits if_splits option.splits)


section \<open>What validity gives\<close>

lemma check_accounts_NONE:
  "check_accounts st as = NONE \<longleftrightarrow> (\<forall>(i, account) \<in> set as. i \<noteq> 0 \<and> Registry_Find (identities st) i \<noteq> None
     \<and> onboarding_system_balance account \<le> system_balance account)"
  by (induction st as rule: check_accounts.induct) (auto simp: not_less)

lemma ValidateCybouState_NONE_iff:
  "ValidateCybouState C st = NONE \<longleftrightarrow> length (accounts st) \<le> MAX_IDENTITY_REGISTRY_ACCOUNTS
     \<and> length (accounts st) = length (m_accounts (identities st)) \<and> check_accounts st (accounts st) = NONE
     \<and> list_all (identity_indexed C st) (m_accounts (identities st)) \<and> registry_names_valid st
     \<and> supply_bounded st \<and> publications_valid st \<and> leases_valid st"
proof -
  have "TotalCybou st = U64_MAX \<longleftrightarrow> \<not> supply_bounded st"
    using TotalCybou_exact [of st] unsigned_word_eqI [of "TotalCybou st" U64_MAX, where 'a = nat]
    by (auto simp: unat_U64_MAX supply_bounded_def)
  then show ?thesis
    by (auto simp: ValidateCybouState_def split: StateValidationError.splits)
qed

section \<open>Properties\<close>

text \<open>C37. Accepted capacity. When \<^verbatim>\<open>ComputeAcceptedStorageCapacity\<close> returns, it is the sum, over the periods before the settled,
  closing and final period, of the units the key holds under the assignment in force in that period, times the length of
  a period; and it is within the contracted unit-seconds.\<close>

theorem accepted_capacity_exact:
  assumes "ComputeAcceptedStorageCapacity t key through closure = Some capacity"
  shows "unat capacity = (\<Sum>p<unat (min (min through closure) (ft_end_period t)). assigned_units key (ft_assignments t) p)
           * unat (ft_period_seconds t)
    \<and> capacity \<le> ft_contracted_unit_seconds t"
  using ComputeAcceptedStorageCapacity_exact [OF assms] by blast

definition two_epochs :: StorageFundedTerm where
  "two_epochs = \<lparr> ft_funding_operation_id = 1, ft_first_period = 0, ft_end_period = 10, ft_rate = 5, ft_period_seconds = 100,
     ft_replica_share = 1, ft_contracted_unit_seconds = 5000, ft_initial_onboarding = 2, ft_initial_locked = 0, ft_paid_onboarding = 0,
     ft_paid_locked = 0, ft_next_assignment_epoch = 3, ft_declarations = [],
     ft_assignments = [
       \<lparr> saa_operation_id = 2, saa_preparation_id = 3, saa_seed = 4, saa_epoch = 1, saa_effective_period = 2,
         saa_allocations = [\<lparr> sau_slot = 0, sau_storage_id = 8, sau_payout_account = 9, sau_units = 3 \<rparr>] \<rparr>,
       \<lparr> saa_operation_id = 5, saa_preparation_id = 6, saa_seed = 7, saa_epoch = 2, saa_effective_period = 5,
         saa_allocations = [\<lparr> sau_slot = 0, sau_storage_id = 8, sau_payout_account = 9, sau_units = 1 \<rparr>] \<rparr>],
     ft_service_payments = [], ft_refunded_onboarding = 0, ft_refunded_locked = 0 \<rparr>"

theorem accepted_capacity_exact_witness:
  "ComputeAcceptedStorageCapacity two_epochs (0, 8, 9) 7 10 = Some 1100
   \<and> (\<Sum>p<7. assigned_units (0, 8, 9) (ft_assignments two_epochs) p) * 100 = 1100"
proof -
  have a: "ComputeAcceptedStorageCapacity two_epochs (0, 8, 9) 7 10 = Some 1100" by code_simp
  have "unat (min (min 7 10) (ft_end_period two_epochs)) = 7" "unat (ft_period_seconds two_epochs) = 100"
    by (simp_all add: two_epochs_def)
  with accepted_capacity_exact [OF a] a show ?thesis by simp
qed

end
