(* ===== verification/Settle.thy ===== *)
theory Settle
  imports Validate
begin

text \<open>
  The storage settlement transition (\<^verbatim>\<open>storage_lease.cpp\<close>): preparing and activating an assignment
  (\<^verbatim>\<open>ApplyAssignmentInputs\<close>), paying a period and refunding closed terms (\<^verbatim>\<open>ApplyPayInputs\<close>), the
  preview \<^verbatim>\<open>CheckStorageSettlementInputs\<close> and \<^verbatim>\<open>ApplyStorageSettlement\<close>. A pointer to a funded
  term is the pair of its lease id and its index. The two inner functions work on a copy of the state that every
  caller drops on an error, so their error results carry no state.
\<close>

section \<open>Funded terms by location\<close>

type_synonym term_loc = "hash256 \<times> nat"

definition lease_term_locs :: "hash256 \<Rightarrow> StorageLeaseRecord \<Rightarrow> (term_loc \<times> StorageLeaseRecord \<times> StorageFundedTerm) list" where
  "lease_term_locs i l = map (\<lambda>(n, t). ((i, n), l, t)) (List.enumerate 0 (sl_funded_terms l))"

definition state_term_locs :: "CybouState \<Rightarrow> (term_loc \<times> StorageLeaseRecord \<times> StorageFundedTerm) list" where
  "state_term_locs st = concat (map (\<lambda>(i, l). lease_term_locs i l) (leases st))"

definition update_term :: "term_loc \<Rightarrow> (StorageFundedTerm \<Rightarrow> StorageFundedTerm) \<Rightarrow> CybouState \<Rightarrow> CybouState" where
  "update_term loc f st = st \<lparr> leases := map_adjust (fst loc)
     (\<lambda>l. l \<lparr> sl_funded_terms := (sl_funded_terms l)[snd loc := f (sl_funded_terms l ! snd loc)] \<rparr>) (leases st) \<rparr>"


section \<open>Preparing and activating an assignment\<close>

text \<open>The terms (and declarations) the operation names; a second one is an error.\<close>

definition named_terms :: "StorageSettlement \<Rightarrow> CybouState
    \<Rightarrow> (term_loc \<times> StorageLeaseRecord \<times> StorageFundedTerm \<times> StorageAssignmentDeclaration option) list" where
  "named_terms op st = concat (map (\<lambda>(loc, l, t). case st_action op of
       PREPARE \<Rightarrow> if ft_funding_operation_id t = st_funded_term_id op then [(loc, l, t, None)] else []
     | ACTIVATE \<Rightarrow> map (\<lambda>d. (loc, l, t, Some d)) (filter (\<lambda>d. sad_operation_id d = st_preparation_id op) (ft_declarations t))
     | PAY \<Rightarrow> []) (state_term_locs st))"

fun accept_eligible :: "crypto \<Rightarrow> hash256 \<Rightarrow> CybouState \<Rightarrow> StorageLeaseRecord \<Rightarrow> u64 \<Rightarrow> StorageSettlementBinding list
    \<Rightarrow> StorageSettlementError + StorageAcceptedBinding list" where
  "accept_eligible C network st l height [] = Inr []"
| "accept_eligible C network st l height (e # es) =
     (let payout = spb_payout_account (ssb_binding e) in
      case Registry_Find (identities st) payout of None \<Rightarrow> Inl StorageSettlementError.PAYOUT_ACCOUNT_NOT_FOUND
      | Some identity \<Rightarrow>
        if \<not> map_contains (accounts st) payout then Inl StorageSettlementError.PAYOUT_ACCOUNT_NOT_FOUND
        else if payout = sl_payer l then Inl StorageSettlementError.SELF_PAYOUT
        else if \<not> VerifyStoragePayoutBindingStorageKey C (ssb_binding e) network (ssb_storage_id e)
             \<or> purpose (ir_authorization_key identity) \<noteq> AUTHORIZATION
             \<or> \<not> VerifyIdentityMessage C (ir_authorization_key identity) (spb_authorization (ssb_binding e))
                  (hash_bytes (StoragePayoutBindingDigest C network (ssb_storage_id e) payout)) then Inl StorageSettlementError.INVALID_ASSIGNMENT
        else case accept_eligible C network st l height es of Inl err \<Rightarrow> Inl err
        | Inr rest \<Rightarrow> Inr (\<lparr> sab_storage_id = ssb_storage_id e, sab_payout_account = payout,
              sab_key_epoch = ir_key_epoch identity, sab_accepted_height = height \<rparr> # rest))"

definition prepare_assignment :: "crypto \<Rightarrow> StorageSettlement \<Rightarrow> hash256 \<Rightarrow> CybouState \<Rightarrow> u64 \<Rightarrow> hash256 option
    \<Rightarrow> term_loc \<Rightarrow> StorageLeaseRecord \<Rightarrow> StorageFundedTerm \<Rightarrow> StorageSettlementError + CybouState" where
  "prepare_assignment C op network st height operation_id loc l t =
     (if sl_replicas l > 2 \<or> st_assignment_epoch op < ft_next_assignment_epoch t \<or> st_assignment_epoch op = U64_MAX
      then Inl StorageSettlementError.INVALID_ASSIGNMENT
      else case accept_eligible C network st l height (st_eligible op) of Inl err \<Rightarrow> Inl err
      | Inr eligible \<Rightarrow>
        if length (remdups (map sab_payout_account eligible)) < unat (sl_replicas l) then Inl StorageSettlementError.INVALID_ASSIGNMENT
        else case operation_id of None \<Rightarrow> Inr st
        | Some oid \<Rightarrow> Inr (update_term loc (\<lambda>t. t \<lparr>
            ft_declarations := ft_declarations t @ [\<lparr> sad_operation_id = oid, sad_epoch = st_assignment_epoch op,
              sad_height = height, sad_eligible = eligible \<rparr>],
            ft_next_assignment_epoch := st_assignment_epoch op + 1 \<rparr>) st))"

text \<open>\<^verbatim>\<open>++counts[{slot, storage_id, account}]\<close> for the selected providers of one chunk.\<close>

definition bump :: "service_key \<Rightarrow> (service_key, u32) omap \<Rightarrow> (service_key, u32) omap" where
  "bump key counts = (if map_contains counts key then map_adjust key (\<lambda>n. n + 1) counts else map_emplace key 1 counts)"

fun count_selected :: "u8 \<Rightarrow> StorageAssignmentProvider list \<Rightarrow> (service_key, u32) omap \<Rightarrow> (service_key, u32) omap option" where
  "count_selected slot [] counts = Some counts"
| "count_selected slot (e # es) counts =
     (if prov_payout_account e = 0 then None
      else count_selected (slot + 1) es (bump (slot, prov_storage_id e, prov_payout_account e) counts))"

fun count_chunks :: "crypto \<Rightarrow> StorageAssignmentContext \<Rightarrow> StorageAssignmentProvider list \<Rightarrow> ChunkId list
    \<Rightarrow> (service_key, u32) omap \<Rightarrow> exn + (service_key, u32) omap option" where
  "count_chunks C context eligible [] counts = Inr (Some counts)"
| "count_chunks C context eligible (chunk # chunks) counts =
     bindE (PrepareStorageAssignment C (context \<lparr> ctx_chunk := chunk \<rparr>) eligible) (\<lambda>plan.
       case plan of None \<Rightarrow> Inr None
       | Some p \<Rightarrow> (case count_selected 0 (plan_selected p) counts of None \<Rightarrow> Inr None
           | Some counts' \<Rightarrow> count_chunks C context eligible chunks counts'))"

definition refresh_capacity :: "StorageFundedTerm \<Rightarrow> u64 \<Rightarrow> u64 \<Rightarrow> StorageServicePayment \<Rightarrow> StorageServicePayment option" where
  "refresh_capacity t through closure e =
     map_option (\<lambda>c. e \<lparr> ssp_closed_epoch_capacity := c \<rparr>) (ComputeAcceptedStorageCapacity t (payment_key e) through closure)"

fun map_checked :: "('a \<Rightarrow> 'b option) \<Rightarrow> 'a list \<Rightarrow> 'b list option" where
  "map_checked f [] = Some []"
| "map_checked f (x # xs) = (case f x of None \<Rightarrow> None | Some y \<Rightarrow> map_option ((#) y) (map_checked f xs))"

definition assignment_context :: "hash256 \<Rightarrow> hash256 \<Rightarrow> hash256 \<Rightarrow> StorageLeaseRecord \<Rightarrow> StorageFundedTerm \<Rightarrow> StorageAssignmentDeclaration
    \<Rightarrow> StorageAssignmentContext" where
  "assignment_context network publication parent l t d = \<lparr> ctx_network_binding = network, ctx_publication = publication,
     ctx_chunk = 0, ctx_finalized_seed = parent, ctx_payer = sl_payer l, ctx_epoch = sad_epoch d,
     ctx_term_start = ft_first_period t, ctx_term_end = ft_end_period t, ctx_replicas = sl_replicas l \<rparr>"

definition activate_assignment :: "crypto \<Rightarrow> StorageSettlement \<Rightarrow> hash256 \<Rightarrow> CybouState \<Rightarrow> u64 \<Rightarrow> hash256 \<Rightarrow> hash256 option
    \<Rightarrow> PublicationRecord \<Rightarrow> term_loc \<Rightarrow> StorageLeaseRecord \<Rightarrow> StorageFundedTerm \<Rightarrow> StorageAssignmentDeclaration
    \<Rightarrow> exn + (StorageSettlementError + CybouState)" where
  "activate_assignment C op network st height parent operation_id pub loc l t d =
     (if sad_operation_id (last (ft_declarations t)) \<noteq> st_preparation_id op \<or> parent = 0
         \<or> sad_height d > U64_MAX - 2 \<or> height \<noteq> sad_height d + 2 then Inr (Inl StorageSettlementError.WRONG_ACTIVATION_HEIGHT)
      else if ft_assignments t \<noteq> [] \<and> sad_epoch d \<le> saa_epoch (last (ft_assignments t)) then Inr (Inl StorageSettlementError.INVALID_ASSIGNMENT)
      else if length (st_manifest op) \<noteq> unat (sl_units l) \<or> length (st_manifest op) \<noteq> unat (pub_chunk_count pub)
        then Inr (Inl StorageSettlementError.INVALID_ASSIGNMENT)
      else case BuildChunkAuthorizationTree C (st_manifest op) of None \<Rightarrow> Inr (Inl StorageSettlementError.INVALID_ASSIGNMENT)
      | Some tree \<Rightarrow>
        if tree_root tree \<noteq> pub_chunk_authorization_root pub then Inr (Inl StorageSettlementError.INVALID_ASSIGNMENT)
        else bindE (count_chunks C (assignment_context network (fst loc) parent l t d)
               (map (\<lambda>e. \<lparr> prov_storage_id = sab_storage_id e, prov_payout_account = sab_payout_account e \<rparr>) (sad_eligible d))
               (st_manifest op) []) (\<lambda>counted.
          case counted of None \<Rightarrow> Inr (Inl StorageSettlementError.INVALID_ASSIGNMENT)
          | Some counts \<Rightarrow>
            case operation_id of None \<Rightarrow> Inr (Inr st)
            | Some oid \<Rightarrow>
              (case map_checked (refresh_capacity t (st_period op) (sl_end_period l)) (ft_service_payments t) of
                 None \<Rightarrow> Inr (Inl StorageSettlementError.INVALID_ASSIGNMENT)
               | Some payments \<Rightarrow> Inr (Inr (update_term loc (\<lambda>t. t \<lparr> ft_service_payments := payments,
                   ft_assignments := ft_assignments t @ [\<lparr> saa_operation_id = oid, saa_preparation_id = st_preparation_id op,
                     saa_seed = parent, saa_epoch = sad_epoch d, saa_effective_period = st_period op,
                     saa_allocations = map (\<lambda>((slot, sid, acc), units). \<lparr> sau_slot = slot, sau_storage_id = sid,
                       sau_payout_account = acc, sau_units = units \<rparr>) counts \<rparr>] \<rparr>) st)))))"

definition ApplyAssignmentInputs :: "crypto \<Rightarrow> StorageSettlement \<Rightarrow> hash256 \<Rightarrow> CybouState \<Rightarrow> u64 \<Rightarrow> hash256 \<Rightarrow> bool
    \<Rightarrow> exn + (StorageSettlementError + CybouState)" where
  "ApplyAssignmentInputs C op network st height parent apply_it =
     (if SerializeSettlementBody op = None \<or> network = 0 \<or> height = 0 then Inr (Inl StorageSettlementError.INVALID_PAYLOAD)
      else if st_period op \<noteq> next_period (settlement st) then Inr (Inl StorageSettlementError.WRONG_PERIOD)
      else if next_period_start_utc (settlement st) \<noteq> 0 \<and> next_period_start_utc (settlement st) \<noteq> st_period_start_utc op
        then Inr (Inl StorageSettlementError.WRONG_PERIOD_START)
      else case named_terms op st of
        [] \<Rightarrow> Inr (Inl StorageSettlementError.LEASE_NOT_FOUND)
      | _ # _ # _ \<Rightarrow> Inr (Inl StorageSettlementError.INVALID_ASSIGNMENT)
      | [(loc, l, t, decl)] \<Rightarrow>
        (case map_find (publications st) (fst loc) of None \<Rightarrow> Inr (Inl StorageSettlementError.LEASE_NOT_ACTIVE)
         | Some pub \<Rightarrow>
           if st_period op < ft_first_period t \<or> st_period op \<ge> ft_end_period t \<or> st_period op \<ge> sl_end_period l
             then Inr (Inl StorageSettlementError.LEASE_NOT_ACTIVE)
           else if st_period_start_utc op > U64_MAX - ft_period_seconds t then Inr (Inl StorageSettlementError.INVALID_PAYLOAD)
           else bindE (if apply_it then ComputeOperationId C (OpStorageSettlement op) else Inr None) (\<lambda>operation_id.
             if apply_it \<and> operation_id = None then Inr (Inl StorageSettlementError.INVALID_PAYLOAD)
             else bindE (case decl of
                 None \<Rightarrow> Inr (prepare_assignment C op network st height operation_id loc l t)
               | Some d \<Rightarrow> activate_assignment C op network st height parent operation_id pub loc l t d) (\<lambda>r.
               Inr (case r of Inl err \<Rightarrow> Inl err
                 | Inr st' \<Rightarrow> Inr (if apply_it \<and> next_period_start_utc (settlement st') = 0
                     then st' \<lparr> settlement := (settlement st') \<lparr> next_period_start_utc := st_period_start_utc op \<rparr> \<rparr> else st'))))))"


section \<open>Paying a period\<close>

text \<open>
  \<^verbatim>\<open>std::lower_bound\<close> on the payments of a term, which are sorted by key in every valid state: the first
  payment whose key is not below the key. \<^verbatim>\<open>std::binary_search\<close> on the witnesses, which the serializer has found
  sorted, is membership.
\<close>

definition find_payment :: "service_key \<Rightarrow> StorageServicePayment list \<Rightarrow> StorageServicePayment option" where
  "find_payment key ps = (case dropWhile (\<lambda>e. payment_key e < key) ps of [] \<Rightarrow> None
     | e # _ \<Rightarrow> if payment_key e = key then Some e else None)"

definition put_payment :: "service_key \<Rightarrow> (StorageServicePayment \<Rightarrow> StorageServicePayment) \<Rightarrow> StorageServicePayment list
    \<Rightarrow> StorageServicePayment list" where
  "put_payment key f ps = takeWhile (\<lambda>e. payment_key e < key) ps @
     (case dropWhile (\<lambda>e. payment_key e < key) ps of
        e # rest \<Rightarrow> if payment_key e = key then f e # rest
          else f \<lparr> ssp_slot = fst key, ssp_storage_id = fst (snd key), ssp_payout_account = snd (snd key),
                   ssp_verified_unit_seconds = 0, ssp_paid = 0, ssp_closed_epoch_capacity = 0 \<rparr> # e # rest
      | [] \<Rightarrow> [f \<lparr> ssp_slot = fst key, ssp_storage_id = fst (snd key), ssp_payout_account = snd (snd key),
                   ssp_verified_unit_seconds = 0, ssp_paid = 0, ssp_closed_epoch_capacity = 0 \<rparr>])"

definition sse_key :: "StorageSettlementEntry \<Rightarrow> service_key" where
  "sse_key e = (sse_slot e, sse_storage_id e, sse_payout_account e)"

text \<open>The epochs that contribute to the key; each has to be witnessed.\<close>

fun useful_epochs :: "StorageSettlement \<Rightarrow> service_key \<Rightarrow> StorageLeaseRecord \<Rightarrow> StorageFundedTerm \<Rightarrow> StorageAcceptedAssignment list
    \<Rightarrow> hash256 list" where
  "useful_epochs op key l t [] = []"
| "useful_epochs op key l t (epoch # rest) =
     (let end_p = min (min (st_period op + 1) (sl_end_period l)) (min (ft_end_period t)
            (case rest of n # _ \<Rightarrow> saa_effective_period n | [] \<Rightarrow> ft_end_period t))
      in if end_p \<le> saa_effective_period epoch \<or> \<not> list_ex (\<lambda>a. units_key a = key) (saa_allocations epoch)
         then useful_epochs op key l t rest
         else saa_operation_id epoch # useful_epochs op key l t rest)"

definition pay_entry :: "StorageSettlement \<Rightarrow> CybouProtocolParameters \<Rightarrow> StorageSettlementEntry \<Rightarrow> CybouState
    \<Rightarrow> StorageSettlementError + (CybouState \<times> hash256 list)" where
  "pay_entry op params entry st =
     (case filter (\<lambda>(loc, l, t). ft_funding_operation_id t = sse_funding_operation_id entry) (state_term_locs st) of
        [] \<Rightarrow> Inl StorageSettlementError.LEASE_NOT_FOUND
      | _ # _ # _ \<Rightarrow> Inl StorageSettlementError.INVALID_PAYLOAD
      | [(loc, l, t)] \<Rightarrow>
        let key = sse_key entry; amount = sse_amount entry; payout = sse_payout_account entry; period = st_period op in
        if period < ft_first_period t \<or> period \<ge> ft_end_period t \<or> period \<ge> sl_end_period l
           \<or> ft_refunded_onboarding t \<noteq> 0 \<or> ft_refunded_locked t \<noteq> 0 then Inl StorageSettlementError.LEASE_NOT_ACTIVE
        else case map_find (accounts st) payout of None \<Rightarrow> Inl StorageSettlementError.PAYOUT_ACCOUNT_NOT_FOUND
        | Some provider \<Rightarrow>
          if payout = sl_payer l then Inl StorageSettlementError.SELF_PAYOUT
          else if sse_slot entry \<ge> sl_replicas l \<or> ft_period_seconds t \<noteq> storage_settlement_period_seconds params
            then Inl StorageSettlementError.INVALID_ASSIGNMENT
          else
          let existing = find_payment key (ft_service_payments t);
              prior_service = (case existing of Some e \<Rightarrow> ssp_verified_unit_seconds e | None \<Rightarrow> 0);
              paid = (case existing of Some e \<Rightarrow> ssp_paid e | None \<Rightarrow> 0) in
          if sse_verified_unit_seconds entry \<le> prior_service then Inl StorageSettlementError.INVALID_PAYLOAD
          else case ComputeAcceptedStorageCapacity t key (period + 1) (sl_end_period l) of None \<Rightarrow> Inl StorageSettlementError.INVALID_ASSIGNMENT
          | Some capacity \<Rightarrow>
            if sse_verified_unit_seconds entry > capacity then Inl StorageSettlementError.INVALID_ASSIGNMENT
            else
            let useful = useful_epochs op key l t (ft_assignments t) in
            if \<not> list_all (\<lambda>i. i \<in> set (st_activation_witnesses op)) useful \<or> useful = [] then Inl StorageSettlementError.INVALID_ASSIGNMENT
            else case ComputeAssignedStoragePayout \<lparr> per_replica = ft_replica_share t,
                    budget_total = ft_initial_onboarding t + ft_initial_locked t,
                    budget_unit_seconds = ft_contracted_unit_seconds t \<rparr> (sse_verified_unit_seconds entry) paid of
              None \<Rightarrow> Inl StorageSettlementError.PAYOUT_EXCEEDS_ESCROW
            | Some due \<Rightarrow>
              if amount \<noteq> due then Inl StorageSettlementError.PAYOUT_EXCEEDS_ESCROW
              else if unat (sse_verified_unit_seconds entry)
                    + sum_list (map (\<lambda>e. unat (ssp_verified_unit_seconds e))
                        (filter (\<lambda>e. ssp_slot e = sse_slot entry \<and> payment_key e \<noteq> key) (ft_service_payments t)))
                    > unat (ft_contracted_unit_seconds t) then Inl StorageSettlementError.INVALID_ASSIGNMENT
              else if ft_paid_onboarding t > ft_initial_onboarding t \<or> ft_paid_locked t > ft_initial_locked t
                   \<or> amount > ft_initial_onboarding t - ft_paid_onboarding t + ft_initial_locked t - ft_paid_locked t
                then Inl StorageSettlementError.PAYOUT_EXCEEDS_ESCROW
              else
              let onboarding = min amount (ft_initial_onboarding t - ft_paid_onboarding t); locked = amount - onboarding in
              if onboarding > sl_escrow_onboarding l \<or> locked > sl_escrow_locked l then Inl StorageSettlementError.PAYOUT_EXCEEDS_ESCROW
              else if onboarding > U64_MAX - system_balance provider
                   \<or> onboarding > U64_MAX - onboarding_system_balance provider
                   \<or> locked > U64_MAX - balance provider then Inl StorageSettlementError.BALANCE_OVERFLOW
              else case ComputeAcceptedStorageCapacity t key (saa_effective_period (last (ft_assignments t))) (sl_end_period l) of
                None \<Rightarrow> Inl StorageSettlementError.INVALID_ASSIGNMENT
              | Some closed_capacity \<Rightarrow>
                Inr (st \<lparr>
                  leases := map_adjust (fst loc) (\<lambda>l. l \<lparr>
                    sl_escrow_onboarding := sl_escrow_onboarding l - onboarding, sl_escrow_locked := sl_escrow_locked l - locked,
                    sl_funded_terms := (sl_funded_terms l)[snd loc := t \<lparr>
                      ft_service_payments := put_payment key (\<lambda>e. e \<lparr> ssp_closed_epoch_capacity := closed_capacity,
                        ssp_verified_unit_seconds := sse_verified_unit_seconds entry, ssp_paid := ssp_paid e + amount \<rparr>)
                        (ft_service_payments t),
                      ft_paid_onboarding := ft_paid_onboarding t + onboarding, ft_paid_locked := ft_paid_locked t + locked \<rparr>] \<rparr>)
                    (leases st),
                  accounts := map_adjust payout (\<lambda>a. a \<lparr> system_balance := system_balance a + onboarding,
                    onboarding_system_balance := onboarding_system_balance a + onboarding, balance := balance a + locked \<rparr>)
                    (accounts st) \<rparr>, useful))"

fun pay_entries :: "StorageSettlement \<Rightarrow> CybouProtocolParameters \<Rightarrow> StorageSettlementEntry list \<Rightarrow> CybouState \<Rightarrow> hash256 list
    \<Rightarrow> StorageSettlementError + (CybouState \<times> hash256 list)" where
  "pay_entries op params [] st used = Inr (st, used)"
| "pay_entries op params (entry # es) st used =
     (case pay_entry op params entry st of Inl err \<Rightarrow> Inl err
      | Inr (st', useful) \<Rightarrow> pay_entries op params es st' (used @ useful))"

definition refund_term :: "term_loc \<Rightarrow> CybouState \<Rightarrow> exn + (StorageSettlementError + CybouState)" where
  "refund_term loc st =
     (case map_find (leases st) (fst loc) of None \<Rightarrow> Inr (Inr st)
      | Some l \<Rightarrow>
        let t = sl_funded_terms l ! snd loc in
        if \<not> term_closed st l t then Inr (Inr st)
        else
        let onboarding = remaining_onboarding t; locked = remaining_locked t in
        case map_find (accounts st) (sl_payer l) of None \<Rightarrow> Inl out_of_range
        | Some payer \<Rightarrow>
          if onboarding > sl_escrow_onboarding l \<or> locked > sl_escrow_locked l
             \<or> onboarding > U64_MAX - onboarding_system_balance payer \<or> onboarding > U64_MAX - system_balance payer
             \<or> locked > U64_MAX - system_balance payer - onboarding then Inr (Inl StorageSettlementError.BALANCE_OVERFLOW)
          else let t1 = t \<lparr> ft_refunded_onboarding := ft_refunded_onboarding t + onboarding,
                            ft_refunded_locked := ft_refunded_locked t + locked \<rparr> in
          case map_checked (refresh_capacity t1 (next_period (settlement st)) (sl_end_period l)) (ft_service_payments t1) of
            None \<Rightarrow> Inr (Inl StorageSettlementError.INVALID_ASSIGNMENT)
          | Some payments \<Rightarrow> Inr (Inr (st \<lparr>
              accounts := map_adjust (sl_payer l) (\<lambda>a. a \<lparr> system_balance := system_balance a + (onboarding + locked),
                onboarding_system_balance := onboarding_system_balance a + onboarding \<rparr>) (accounts st),
              leases := map_adjust (fst loc) (\<lambda>l. l \<lparr>
                sl_escrow_onboarding := sl_escrow_onboarding l - onboarding, sl_escrow_locked := sl_escrow_locked l - locked,
                sl_funded_terms := (sl_funded_terms l)[snd loc := t1 \<lparr> ft_service_payments := payments \<rparr>] \<rparr>) (leases st) \<rparr>)))"

fun refund_terms :: "term_loc list \<Rightarrow> CybouState \<Rightarrow> exn + (StorageSettlementError + CybouState)" where
  "refund_terms [] st = Inr (Inr st)"
| "refund_terms (loc # locs) st =
     bindE (refund_term loc st) (\<lambda>r. case r of Inl err \<Rightarrow> Inr (Inl err) | Inr st' \<Rightarrow> refund_terms locs st')"

definition ApplyPayInputs :: "StorageSettlement \<Rightarrow> CybouProtocolParameters \<Rightarrow> CybouState
    \<Rightarrow> exn + (StorageSettlementError + CybouState)" where
  "ApplyPayInputs op params st =
     (if st_action op \<noteq> PAY \<or> SerializeSettlementBody op = None then Inr (Inl StorageSettlementError.INVALID_PAYLOAD)
      else if st_period op \<noteq> next_period (settlement st) then Inr (Inl StorageSettlementError.WRONG_PERIOD)
      else if next_period_start_utc (settlement st) \<noteq> 0 \<and> st_period_start_utc op \<noteq> next_period_start_utc (settlement st)
        then Inr (Inl StorageSettlementError.WRONG_PERIOD_START)
      else if storage_settlement_period_seconds params = 0 \<or> st_period op = U64_MAX
           \<or> st_period_start_utc op > U64_MAX - storage_settlement_period_seconds params
           \<or> st_period_end_utc op \<noteq> st_period_start_utc op + storage_settlement_period_seconds params
        then Inr (Inl StorageSettlementError.INVALID_PAYLOAD)
      else case pay_entries op params (st_entries op) st [] of Inl err \<Rightarrow> Inr (Inl err)
      | Inr (st1, used) \<Rightarrow>
        if length (remdups used) \<noteq> length (st_activation_witnesses op) then Inr (Inl StorageSettlementError.INVALID_ASSIGNMENT)
        else let st2 = st1 \<lparr> settlement := \<lparr> next_period = st_period op + 1, next_period_start_utc = st_period_end_utc op \<rparr> \<rparr>
          in refund_terms (map fst (state_term_locs st2)) st2)"


section \<open>The settlement\<close>

definition CheckStorageSettlementInputs :: "crypto \<Rightarrow> StorageSettlement \<Rightarrow> CybouProtocolParameters \<Rightarrow> CybouState \<Rightarrow> hash256 \<Rightarrow> u64 \<Rightarrow> hash256
    \<Rightarrow> exn + StorageSettlementError" where
  "CheckStorageSettlementInputs C op params st network_binding block_height verified_parent_id =
     (if st_action op \<noteq> PAY then
        bindE (ApplyAssignmentInputs C op network_binding st block_height verified_parent_id False) (\<lambda>r.
          Inr (case r of Inl err \<Rightarrow> err | Inr _ \<Rightarrow> StorageSettlementError.NONE))
      else bindE (ApplyPayInputs op params st) (\<lambda>r. Inr (case r of Inl err \<Rightarrow> err
        | Inr candidate \<Rightarrow> if ValidateCybouState C candidate = StateValidationError.NONE \<and> TotalCybou candidate = TotalCybou st
            then StorageSettlementError.NONE else StorageSettlementError.INVALID_PAYLOAD)))"

definition ApplyStorageSettlement :: "crypto \<Rightarrow> StorageSettlement \<Rightarrow> hash256 \<Rightarrow> CybouProtocolParameters \<Rightarrow> IdentityHybridPublicKey
    \<Rightarrow> CybouState \<Rightarrow> u64 \<Rightarrow> hash256 \<Rightarrow> exn + (StorageSettlementError \<times> CybouState)" where
  "ApplyStorageSettlement C op network_binding params poa_key st block_height verified_parent_id =
     (case ComputeStorageSettlementDigest C network_binding op of None \<Rightarrow> Inr (StorageSettlementError.INVALID_PAYLOAD, st)
      | Some digest \<Rightarrow>
        if purpose poa_key \<noteq> POA_FINALIZER \<or> \<not> VerifyIdentityMessage C poa_key (st_poa_signature op) (hash_bytes digest)
        then Inr (StorageSettlementError.INVALID_SIGNATURE, st)
        else if st_action op \<noteq> PAY then
          bindE (ApplyAssignmentInputs C op network_binding st block_height verified_parent_id True) (\<lambda>r.
            Inr (case r of Inl err \<Rightarrow> (err, st)
              | Inr candidate \<Rightarrow> if ValidateCybouState C candidate \<noteq> StateValidationError.NONE then (StorageSettlementError.INVALID_ASSIGNMENT, st)
                  else (StorageSettlementError.NONE, candidate)))
        else bindE (ApplyPayInputs op params st) (\<lambda>r. Inr (case r of Inl err \<Rightarrow> (err, st)
          | Inr candidate \<Rightarrow> if ValidateCybouState C candidate \<noteq> StateValidationError.NONE \<or> TotalCybou candidate \<noteq> TotalCybou st
              then (StorageSettlementError.INVALID_PAYLOAD, st) else (StorageSettlementError.NONE, candidate))))"


section \<open>An error leaves the state as it was\<close>

lemma keeps_candidate:
  "keeps ok st (Inr (case r of Inl err \<Rightarrow> (err, st) | Inr candidate \<Rightarrow> if b candidate then (e, st) else (ok, candidate)))"
  by (cases r) (simp_all add: keeps_def)

lemma ApplyStorageSettlement_keeps: "keeps StorageSettlementError.NONE st (ApplyStorageSettlement C op nb params key st h parent)"
  unfolding ApplyStorageSettlement_def by (intro keeps_intros keeps_candidate)

lemmas ApplyStorageSettlement_fail [fail_atomic] = keepsD [OF ApplyStorageSettlement_keeps]

text \<open>The inner functions report an error only with a real error code.\<close>

definition coded :: "exn + (StorageSettlementError + 'a) \<Rightarrow> bool" where
  "coded m \<longleftrightarrow> m \<noteq> Inr (Inl StorageSettlementError.NONE)"

lemma coded_intros:
  "coded (Inl x)" "coded (Inr (Inr y))" "e \<noteq> StorageSettlementError.NONE \<Longrightarrow> coded (Inr (Inl e))"
  "coded m \<Longrightarrow> coded n \<Longrightarrow> coded (if b then m else n)"
  "coded m \<Longrightarrow> (\<And>a. coded (f a)) \<Longrightarrow> coded (case opt of None \<Rightarrow> m | Some a \<Rightarrow> f a)"
  "coded m \<Longrightarrow> (\<And>x xs. coded (g x xs)) \<Longrightarrow> coded (case l of [] \<Rightarrow> m | x # xs \<Rightarrow> g x xs)"
  "(\<And>a b. coded (h a b)) \<Longrightarrow> coded (case p of (a, b) \<Rightarrow> h a b)"
  "(\<And>a. coded (f a)) \<Longrightarrow> coded (bindE r f)"
  by (auto simp: coded_def bindE_Inr_iff split: option.split list.split prod.split)

lemma coded_pure:
  "coded (Inr (if b then x else y)) \<longleftrightarrow> coded (if b then Inr x else Inr y)"
  "coded (Inr (case opt of None \<Rightarrow> x | Some a \<Rightarrow> f a)) \<longleftrightarrow> coded (case opt of None \<Rightarrow> Inr x | Some a \<Rightarrow> Inr (f a))"
  "coded (Inr (case l of [] \<Rightarrow> x | a # as \<Rightarrow> g a as)) \<longleftrightarrow> coded (case l of [] \<Rightarrow> Inr x | a # as \<Rightarrow> Inr (g a as))"
  "coded (Inr (case p of (a, b) \<Rightarrow> h a b)) \<longleftrightarrow> coded (case p of (a, b) \<Rightarrow> Inr (h a b))"
  by (simp_all split: option.split list.split prod.split)

lemma coded_sum: "coded (Inr r) \<Longrightarrow> (\<And>a. coded (f a)) \<Longrightarrow> coded (case r of Inl err \<Rightarrow> Inr (Inl err) | Inr a \<Rightarrow> f a)"
  by (auto simp: coded_def split: sum.split)

lemma coded_sum_pure:
  "coded (Inr (case r of Inl err \<Rightarrow> Inl err | Inr a \<Rightarrow> g a)) \<longleftrightarrow> coded (case r of Inl err \<Rightarrow> Inr (Inl err) | Inr a \<Rightarrow> Inr (g a))"
  by (simp split: sum.split)

lemma accept_eligible_coded: "coded (Inr (accept_eligible C network st l height es))"
  by (induction es) (auto simp: coded_def Let_def split: option.split sum.split_asm)

lemma prepare_assignment_coded: "coded (Inr (prepare_assignment C op network st height oid loc l t))"
  unfolding prepare_assignment_def
  by (intro coded_intros coded_sum accept_eligible_coded | simp only: coded_pure coded_sum_pure | simp)+

lemma activate_assignment_coded: "coded (activate_assignment C op network st height parent oid pub loc l t d)"
  unfolding activate_assignment_def by (intro coded_intros; simp)

lemma bindE_coded: "coded m \<Longrightarrow> (\<And>a. coded (f a)) \<Longrightarrow> coded (bindE m (\<lambda>r. case r of Inl err \<Rightarrow> Inr (Inl err) | Inr a \<Rightarrow> f a))"
  by (cases m) (auto simp: coded_def bindE_def split: sum.split)

lemma ApplyAssignmentInputs_coded: "coded (ApplyAssignmentInputs C op network st height parent b)"
proof -
  have "coded (bindE (case d of None \<Rightarrow> Inr (prepare_assignment C op network st height oid loc l t)
      | Some d \<Rightarrow> activate_assignment C op network st height parent oid pub loc l t d) (\<lambda>r.
        Inr (case r of Inl err \<Rightarrow> Inl err | Inr st' \<Rightarrow> Inr (f st'))))" for d oid loc l t pub and f :: "CybouState \<Rightarrow> CybouState"
    using prepare_assignment_coded [of C op network st height oid loc l t]
      activate_assignment_coded [of C op network st height parent oid pub loc l t]
    by (auto simp: coded_def bindE_Inr_iff split: option.split sum.split_asm) 
  note bind = this
  show ?thesis unfolding ApplyAssignmentInputs_def by (rule bind coded_intros | simp)+
qed

lemma pay_entry_coded: "coded (Inr (pay_entry op params entry st))"
  unfolding pay_entry_def Let_def by (rule coded_intros | simp only: coded_pure | simp)+

lemma pay_entries_coded: "coded (Inr (pay_entries op params es st used))"
proof (induction es arbitrary: st used)
  case (Cons e es)
  then show ?case using pay_entry_coded [of op params e st] by (auto simp: coded_def split: sum.split)
qed (simp add: coded_def)

lemma refund_term_coded: "coded (refund_term loc st)"
  unfolding refund_term_def Let_def by (rule coded_intros | simp)+

lemma refund_terms_coded: "coded (refund_terms locs st)"
proof (induction locs arbitrary: st)
  case (Cons loc locs)
  then show ?case using refund_term_coded [of loc st] unfolding refund_terms.simps by (intro bindE_coded)
qed (simp add: coded_def)

lemma ApplyPayInputs_coded: "coded (ApplyPayInputs op params st)"
  unfolding ApplyPayInputs_def Let_def
  by (intro coded_intros coded_sum pay_entries_coded refund_terms_coded; simp)

lemma candidate_NONE:
  assumes "bindE m (\<lambda>r. Inr (case r of Inl err \<Rightarrow> (err, st) | Inr c \<Rightarrow> if b c then (e, st) else (StorageSettlementError.NONE, c)))
      = Inr (StorageSettlementError.NONE, st')" and "coded m" and "e \<noteq> StorageSettlementError.NONE"
  shows "m = Inr (Inr st') \<and> \<not> b st'"
proof (cases m)
  case (Inr r)
  with assms show ?thesis by (cases r) (auto simp: coded_def split: if_split_asm)
qed (use assms in simp)

lemma ApplyStorageSettlement_NONE:
  assumes "ApplyStorageSettlement C op nb params key st h parent = Inr (StorageSettlementError.NONE, st')"
  shows "ValidateCybouState C st' = StateValidationError.NONE"
    and "st_action op \<noteq> PAY \<Longrightarrow> ApplyAssignmentInputs C op nb st h parent True = Inr (Inr st')"
    and "st_action op = PAY \<Longrightarrow> ApplyPayInputs op params st = Inr (Inr st')"
  using assms unfolding ApplyStorageSettlement_def
  by (auto simp: guards dest!: candidate_NONE [OF _ ApplyAssignmentInputs_coded] candidate_NONE [OF _ ApplyPayInputs_coded]
      split: if_split_asm)


section \<open>Conservation\<close>

lemma state_term_locs_iff:
  assumes "omap_wf (leases st)"
  shows "((i, n), l, t) \<in> set (state_term_locs st) \<longleftrightarrow>
     map_find (leases st) i = Some l \<and> n < length (sl_funded_terms l) \<and> t = sl_funded_terms l ! n"
proof -
  have loc: "((i, n), l, t) \<in> set (lease_term_locs j l') \<longleftrightarrow> j = i \<and> l' = l \<and> (n, t) \<in> set (List.enumerate 0 (sl_funded_terms l))" for j l'
    by (auto simp: lease_term_locs_def image_iff intro!: bexI [of _ "(n, t)"])
  have "((i, n), l, t) \<in> set (state_term_locs st) \<longleftrightarrow> (i, l) \<in> set (leases st) \<and> (n, t) \<in> set (List.enumerate 0 (sl_funded_terms l))"
    unfolding state_term_locs_def by (auto simp: loc)
  then show ?thesis using assms by (auto simp: map_find_iff_set in_set_enumerate_eq)
qed

lemma update_term_conserves: "conserves st (update_term loc f st)"
  by (auto simp: conserves_def update_term_def money_supply_def maps_wf_def intro!: map_weigh_adjust_same simp: lease_value_def)

lemma settlement_conserves: "conserves st s \<Longrightarrow> conserves st (s \<lparr> settlement := c \<rparr>)"
  by (simp add: conserves_def maps_wf_def)

text \<open>\<open>yields P\<close> walks down the guards of a function and collects them for its results.\<close>

definition yields :: "('a \<Rightarrow> bool) \<Rightarrow> exn + ('e + 'a) \<Rightarrow> bool" where
  "yields P m \<longleftrightarrow> (\<forall>a. m = Inr (Inr a) \<longrightarrow> P a)"

lemma yieldsD: "yields P m \<Longrightarrow> m = Inr (Inr a) \<Longrightarrow> P a"
  by (simp add: yields_def)

lemma yields_intros:
  "yields P (Inl x)" "yields P (Inr (Inl e))" "P a \<Longrightarrow> yields P (Inr (Inr a))"
  "(b \<Longrightarrow> yields P m) \<Longrightarrow> (\<not> b \<Longrightarrow> yields P n) \<Longrightarrow> yields P (if b then m else n)"
  "(opt = None \<Longrightarrow> yields P m) \<Longrightarrow> (\<And>a. opt = Some a \<Longrightarrow> yields P (f a)) \<Longrightarrow> yields P (case opt of None \<Rightarrow> m | Some a \<Rightarrow> f a)"
  "(xs = [] \<Longrightarrow> yields P m) \<Longrightarrow> (\<And>y ys. xs = y # ys \<Longrightarrow> yields P (g y ys)) \<Longrightarrow> yields P (case xs of [] \<Rightarrow> m | y # ys \<Rightarrow> g y ys)"
  "(\<And>a b. p = (a, b) \<Longrightarrow> yields P (h a b)) \<Longrightarrow> yields P (case p of (a, b) \<Rightarrow> h a b)"
  "(\<And>e. r = Inl e \<Longrightarrow> yields P (i e)) \<Longrightarrow> (\<And>a. r = Inr a \<Longrightarrow> yields P (j a)) \<Longrightarrow> yields P (case r of Inl e \<Rightarrow> i e | Inr a \<Rightarrow> j a)"
  "(\<And>a. k = Inr a \<Longrightarrow> yields P (l a)) \<Longrightarrow> yields P (bindE k l)"
  by (auto simp: yields_def bindE_Inr_iff split: option.split list.split prod.split sum.split)

lemma yields_pure:
  "yields P (Inr (if b then x else y)) \<longleftrightarrow> yields P (if b then Inr x else Inr y)"
  "yields P (Inr (case opt of None \<Rightarrow> x | Some a \<Rightarrow> f a)) \<longleftrightarrow> yields P (case opt of None \<Rightarrow> Inr x | Some a \<Rightarrow> Inr (f a))"
  "yields P (Inr (case l of [] \<Rightarrow> x | a # as \<Rightarrow> g a as)) \<longleftrightarrow> yields P (case l of [] \<Rightarrow> Inr x | a # as \<Rightarrow> Inr (g a as))"
  "yields P (Inr (case p of (a, b) \<Rightarrow> h a b)) \<longleftrightarrow> yields P (case p of (a, b) \<Rightarrow> Inr (h a b))"
  "yields P (Inr (case r of Inl e \<Rightarrow> i e | Inr a \<Rightarrow> j a)) \<longleftrightarrow> yields P (case r of Inl e \<Rightarrow> Inr (i e) | Inr a \<Rightarrow> Inr (j a))"
  by (simp_all split: option.split list.split prod.split sum.split)

text \<open>A payment out of the escrow of a lease into an account.\<close>

lemma escrow_to_account_conserves:
  assumes "map_find (leases st) i = Some l" and "lease_value (f l) + n = lease_value l"
    and "map_find (accounts st) a = Some acc" and "account_value (g acc) = account_value acc + n"
  shows "conserves st (st \<lparr> leases := map_adjust i f (leases st), accounts := map_adjust a g (accounts st) \<rparr>)"
  unfolding conserves_def
proof
  assume wf: "maps_wf st"
  let ?st1 = "st \<lparr> leases := map_adjust i f (leases st) \<rparr>"
  let ?st2 = "?st1 \<lparr> accounts := map_adjust a g (accounts ?st1) \<rparr>"
  have "money_supply ?st1 + n = money_supply st"
    using supply_adjust_lease [of st i l f] assms(1,2) wf by (simp add: maps_wf_def)
  moreover have "money_supply ?st2 = money_supply ?st1 + n"
    using supply_adjust_account [of ?st1 a acc g] assms(3,4) wf by (simp add: maps_wf_def)
  ultimately show "maps_wf (st \<lparr> leases := map_adjust i f (leases st), accounts := map_adjust a g (accounts st) \<rparr>) \<and>
      money_supply (st \<lparr> leases := map_adjust i f (leases st), accounts := map_adjust a g (accounts st) \<rparr>) = money_supply st"
    using wf by (simp add: maps_wf_def)
qed

lemma payout_conserves:
  assumes "map_find (leases st) i = Some l" and "map_find (accounts st) a = Some acc"
    and "on \<le> sl_escrow_onboarding l" "lk \<le> sl_escrow_locked l" "on \<le> U64_MAX - system_balance acc" "lk \<le> U64_MAX - balance acc"
  shows "conserves st (st \<lparr> leases := map_adjust i (\<lambda>l. l \<lparr> sl_escrow_onboarding := sl_escrow_onboarding l - on,
       sl_escrow_locked := sl_escrow_locked l - lk, sl_funded_terms := ts l \<rparr>) (leases st),
     accounts := map_adjust a (\<lambda>a. a \<lparr> system_balance := system_balance a + on,
       onboarding_system_balance := onboarding_system_balance a + on, balance := balance a + lk \<rparr>) (accounts st) \<rparr>)"
  using unat_add_checked [of on "system_balance acc"] unat_add_checked [of lk "balance acc"] assms
  by (intro escrow_to_account_conserves [where n = "unat on + unat lk" and l = l and acc = acc])
    (simp_all add: lease_value_def account_value_def unat_sub word_le_nat_alt add.commute)

lemma refund_conserves:
  assumes "map_find (leases st) i = Some l" and "map_find (accounts st) a = Some acc"
    and "on \<le> sl_escrow_onboarding l" "lk \<le> sl_escrow_locked l" "on \<le> U64_MAX - system_balance acc"
      "lk \<le> U64_MAX - system_balance acc - on"
  shows "conserves st (st \<lparr> accounts := map_adjust a (\<lambda>a. a \<lparr> system_balance := system_balance a + (on + lk),
       onboarding_system_balance := onboarding_system_balance a + on \<rparr>) (accounts st),
     leases := map_adjust i (\<lambda>l. l \<lparr> sl_escrow_onboarding := sl_escrow_onboarding l - on,
       sl_escrow_locked := sl_escrow_locked l - lk, sl_funded_terms := ts l \<rparr>) (leases st) \<rparr>)"
proof -
  have s: "unat (U64_MAX - system_balance acc) = 2 ^ 64 - 1 - unat (system_balance acc)"
    by (simp add: unat_sub unat_U64_MAX)
  then have "unat (U64_MAX - system_balance acc - on) = 2 ^ 64 - 1 - unat (system_balance acc) - unat on"
    using unat_sub [OF assms(5)] by simp
  then have "unat (system_balance acc) + unat on + unat lk < 2 ^ 64"
    using assms(5,6) s unsigned_less [of "system_balance acc", where 'a = nat] by (simp add: word_le_nat_alt)
  then have "unat (system_balance acc + (on + lk)) = unat (system_balance acc) + (unat on + unat lk)"
    by (simp add: unat_add_fits)
  then have "conserves st (st \<lparr> leases := map_adjust i (\<lambda>l. l \<lparr> sl_escrow_onboarding := sl_escrow_onboarding l - on,
       sl_escrow_locked := sl_escrow_locked l - lk, sl_funded_terms := ts l \<rparr>) (leases st),
     accounts := map_adjust a (\<lambda>a. a \<lparr> system_balance := system_balance a + (on + lk),
       onboarding_system_balance := onboarding_system_balance a + on \<rparr>) (accounts st) \<rparr>)"
    using assms by (intro escrow_to_account_conserves [where n = "unat on + unat lk" and l = l and acc = acc])
      (simp_all add: lease_value_def account_value_def unat_sub word_le_nat_alt)
  moreover have "st \<lparr> leases := x, accounts := y \<rparr> = st \<lparr> accounts := y, leases := x \<rparr>" for x y by simp
  ultimately show ?thesis by simp
qed

lemma unique_term_loc:
  assumes "filter P (state_term_locs st) = [(loc, l, t)]" and "maps_wf st"
  shows "map_find (leases st) (fst loc) = Some l"
proof -
  from assms(1) have "(loc, l, t) \<in> set (state_term_locs st)" by (auto dest: filter_eq_ConsD)
  then show ?thesis using assms(2) state_term_locs_iff [of st "fst loc" "snd loc" l t] by (simp add: maps_wf_def)
qed

section \<open>What a settlement does to the money\<close>

text \<open>
  A settlement moves value only in two ways: a payout from the escrow of a lease to a provider, and the refund of a
  closed term to its payer. A relation between states that both respect, with the bookkeeping of terms and of the
  cursor, holds between the states before and after any settlement.
\<close>

locale escrow_relation =
  fixes R :: "CybouState \<Rightarrow> CybouState \<Rightarrow> bool"
  assumes R_refl [simp]: "R st st" and R_trans: "R st st1 \<Longrightarrow> R st1 st2 \<Longrightarrow> R st st2"
    and R_ill: "\<not> maps_wf st \<Longrightarrow> R st st'"
    and R_settlement: "R st s \<Longrightarrow> R st (s \<lparr> settlement := cur \<rparr>)"
    and R_update_term: "R st (update_term loc f st)"
    and R_payout: "maps_wf st \<Longrightarrow> map_find (leases st) i = Some l \<Longrightarrow> map_find (accounts st) a = Some acc \<Longrightarrow>
      on \<le> sl_escrow_onboarding l \<Longrightarrow> lk \<le> sl_escrow_locked l \<Longrightarrow> on \<le> U64_MAX - system_balance acc \<Longrightarrow>
      lk \<le> U64_MAX - balance acc \<Longrightarrow>
      R st (st \<lparr> leases := map_adjust i (\<lambda>l. l \<lparr> sl_escrow_onboarding := sl_escrow_onboarding l - on,
             sl_escrow_locked := sl_escrow_locked l - lk, sl_funded_terms := ts l \<rparr>) (leases st),
           accounts := map_adjust a (\<lambda>a. a \<lparr> system_balance := system_balance a + on,
             onboarding_system_balance := onboarding_system_balance a + on, balance := balance a + lk \<rparr>) (accounts st) \<rparr>)"
    and R_refund: "map_find (leases st) i = Some l \<Longrightarrow> map_find (accounts st) a = Some acc \<Longrightarrow>
      on \<le> sl_escrow_onboarding l \<Longrightarrow> lk \<le> sl_escrow_locked l \<Longrightarrow> on \<le> U64_MAX - system_balance acc \<Longrightarrow>
      lk \<le> U64_MAX - system_balance acc - on \<Longrightarrow>
      R st (st \<lparr> accounts := map_adjust a (\<lambda>a. a \<lparr> system_balance := system_balance a + (on + lk),
             onboarding_system_balance := onboarding_system_balance a + on \<rparr>) (accounts st),
           leases := map_adjust i (\<lambda>l. l \<lparr> sl_escrow_onboarding := sl_escrow_onboarding l - on,
             sl_escrow_locked := sl_escrow_locked l - lk, sl_funded_terms := ts l \<rparr>) (leases st) \<rparr>)"
begin

lemma prepare_assignment_R: "yields (R st) (Inr (prepare_assignment C op network st height oid loc l t))"
  unfolding prepare_assignment_def by (rule yields_intros R_update_term R_refl | simp only: yields_pure)+

lemma activate_assignment_R: "yields (R st) (activate_assignment C op network st height parent oid pub loc l t d)"
  unfolding activate_assignment_def by (rule yields_intros R_update_term R_refl)+

lemma ApplyAssignmentInputs_R: "yields (R st) (ApplyAssignmentInputs C op network st height parent b)"
proof -
  have step: "yields (R st) (bindE (case d of None \<Rightarrow> Inr (prepare_assignment C op network st height oid loc l t)
      | Some d \<Rightarrow> activate_assignment C op network st height parent oid pub loc l t d) (\<lambda>r.
        Inr (case r of Inl err \<Rightarrow> Inl err | Inr st' \<Rightarrow> Inr (if g st' then st' \<lparr> settlement := c st' \<rparr> else st'))))"
    for d oid loc l t pub g c
    using prepare_assignment_R [of st C op network height oid loc l t]
      activate_assignment_R [of st C op network height parent oid pub loc l t]
    by (auto simp: yields_def bindE_Inr_iff split: option.split_asm sum.split_asm intro!: R_settlement)
  show ?thesis unfolding ApplyAssignmentInputs_def by (rule step yields_intros)+
qed

lemma pay_entry_R: "yields (\<lambda>r. R st (fst r)) (Inr (pay_entry op params entry st))"
proof (cases "maps_wf st \<and> (\<exists>loc l t. filter (\<lambda>(loc, l, t). ft_funding_operation_id t = sse_funding_operation_id entry)
    (state_term_locs st) = [(loc, l, t)])")
  case True
  then obtain loc l t where f: "filter (\<lambda>(loc, l, t). ft_funding_operation_id t = sse_funding_operation_id entry)
      (state_term_locs st) = [(loc, l, t)]" and wf: "maps_wf st" by blast
  note l = unique_term_loc [OF f wf]
  show ?thesis
    unfolding pay_entry_def Let_def f list.case prod.case
    by (rule yields_intros R_payout [OF wf l] | assumption | simp only: yields_pure fst_conv | simp only: de_Morgan_disj not_less)+
next
  case False
  then show ?thesis by (auto simp: yields_def pay_entry_def intro: R_ill split: list.split_asm)
qed

lemma pay_entries_R: "pay_entries op params es st used = Inr (st', used') \<Longrightarrow> R st st'"
proof (induction es arbitrary: st used)
  case (Cons e es)
  from Cons.prems obtain st1 u where 1: "pay_entry op params e st = Inr (st1, u)" "pay_entries op params es st1 (used @ u) = Inr (st', used')"
    by (auto split: sum.split_asm)
  from pay_entry_R [of st op params e] 1(1) have "R st st1" by (auto simp: yields_def)
  from this Cons.IH [OF 1(2)] show ?case by (rule R_trans)
qed simp

lemma refund_term_R: "yields (R st) (refund_term loc st)"
  unfolding refund_term_def Let_def
  by (rule yields_intros R_refund R_refl | assumption | simp only: de_Morgan_disj not_less)+

lemma refund_terms_R: "yields (R st) (refund_terms locs st)"
proof (induction locs arbitrary: st)
  case (Cons loc locs)
  have "R st st2" if "refund_terms (loc # locs) st = Inr (Inr st2)" for st2
  proof -
    from that obtain st1 where "refund_term loc st = Inr (Inr st1)" "refund_terms locs st1 = Inr (Inr st2)"
      by (cases "refund_term loc st") (auto split: sum.split_asm)
    with Cons.IH [of st1] refund_term_R [of st loc] show ?thesis by (auto simp: yields_def intro: R_trans)
  qed
  then show ?case by (simp add: yields_def del: refund_terms.simps)
qed (simp add: yields_def)

lemma ApplyPayInputs_R: "yields (R st) (ApplyPayInputs op params st)"
proof -
  have "R st st'" if "ApplyPayInputs op params st = Inr (Inr st')" for st'
  proof -
    from that obtain st1 used c locs where "pay_entries op params (st_entries op) st [] = Inr (st1, used)"
      "refund_terms locs (st1 \<lparr> settlement := c \<rparr>) = Inr (Inr st')"
      by (auto simp: ApplyPayInputs_def Let_def split: if_split_asm sum.split_asm)
    with refund_terms_R [of "st1 \<lparr> settlement := c \<rparr>" locs] show ?thesis
      by (auto simp: yields_def intro: R_trans R_settlement dest: pay_entries_R)
  qed
  then show ?thesis by (simp add: yields_def)
qed

lemma ApplyStorageSettlement_R:
  assumes "ApplyStorageSettlement C op nb params key st h parent = Inr (e, st')"
  shows "R st st'"
proof (cases "e = StorageSettlementError.NONE")
  case False
  with ApplyStorageSettlement_fail [OF assms] R_refl show ?thesis by simp
next
  case True
  with ApplyStorageSettlement_NONE [of C op nb params key st h parent st'] assms
    ApplyAssignmentInputs_R [of st C op nb h parent True] ApplyPayInputs_R [of st op params]
  show ?thesis by (cases "st_action op = PAY") (auto simp: yields_def)
qed

end

interpretation cons: escrow_relation conserves
proof
  show "conserves st st" for st by simp
  show "\<not> maps_wf st \<Longrightarrow> conserves st st'" for st st' by (simp add: conserves_def)
qed (rule conserves_trans settlement_conserves update_term_conserves payout_conserves refund_conserves; assumption)+

lemmas ApplyStorageSettlement_conserves = cons.ApplyStorageSettlement_R

end
