(* ===== verification/StateCodec.thy ===== *)
theory StateCodec
  imports Settle "HOL-Library.Monad_Syntax"
begin

text \<open>
  The canonical serialization of the identity registry (\<^verbatim>\<open>identity_registry_codec.cpp\<close>) and of the whole
  state (\<^verbatim>\<open>state.cpp\<close>), and the state root. The private \<^verbatim>\<open>Reader\<close> returns an optional; a function
  that reads several fields and tests them afterwards is the sequence of the reads, since any failure gives
  \<^verbatim>\<open>nullopt\<close>. The locale \<open>format\<close> is the contract of a record format inside such a stream, \<open>keyed_format\<close>
  that of the entries of a map, which must come in strict key order.
\<close>

section \<open>The reader\<close>

definition rU8 :: "bytes \<Rightarrow> (u8 \<times> bytes) option" where
  "rU8 bs = (case bs of [] \<Rightarrow> None | b # r \<Rightarrow> Some (b, r))"

definition rU32 :: "bytes \<Rightarrow> (u32 \<times> bytes) option" where
  "rU32 bs = (if length bs < 4 then None else Some (le_word (take 4 bs), drop 4 bs))"

definition rU64 :: "bytes \<Rightarrow> (u64 \<times> bytes) option" where
  "rU64 bs = (if length bs < 8 then None else Some (le_word (take 8 bs), drop 8 bs))"

definition rBytes :: "nat \<Rightarrow> bytes \<Rightarrow> (bytes \<times> bytes) option" where
  "rBytes n bs = (if n > length bs then None else Some (take n bs, drop n bs))"

definition rHash :: "bytes \<Rightarrow> (256 word \<times> bytes) option" where
  "rHash bs = do { (b, r) \<leftarrow> rBytes 32 bs; Some (be_word b, r) }"

definition rAccount :: "bytes \<Rightarrow> (AccountId \<times> bytes) option" where
  "rAccount bs = do { (b, r) \<leftarrow> rBytes 32 bs; a \<leftarrow> AccountId_FromBytes b; Some (a, r) }"

fun read_list :: "(bytes \<Rightarrow> ('a \<times> bytes) option) \<Rightarrow> nat \<Rightarrow> bytes \<Rightarrow> ('a list \<times> bytes) option" where
  "read_list rd 0 bs = Some ([], bs)"
| "read_list rd (Suc n) bs = do { (x, bs) \<leftarrow> rd bs; (xs, bs) \<leftarrow> read_list rd n bs; Some (x # xs, bs) }"

text \<open>A count, checked against a limit and against the bytes left, and that many records.\<close>

definition read_counted :: "(bytes \<Rightarrow> ('a \<times> bytes) option) \<Rightarrow> nat \<Rightarrow> nat \<Rightarrow> bytes \<Rightarrow> ('a list \<times> bytes) option" where
  "read_counted rd limit least bs = do { (n, r) \<leftarrow> rU32 bs;
     if unat n > limit \<or> unat n > length r div least then None else read_list rd (unat n) r }"

definition counted :: "('a \<Rightarrow> bytes) \<Rightarrow> 'a list \<Rightarrow> bytes" where
  "counted enc xs = le_bytes 4 (of_nat (length xs) :: u32) @ concat (map enc xs)"

text \<open>The loops that fill a map check \<^verbatim>\<open>prior < key\<close> before they emplace.\<close>

fun read_map :: "(bytes \<Rightarrow> (('k::linorder \<times> 'v) \<times> bytes) option) \<Rightarrow> nat \<Rightarrow> 'k option \<Rightarrow> bytes \<Rightarrow> ('k, 'v) omap
    \<Rightarrow> (('k, 'v) omap \<times> bytes) option" where
  "read_map rd 0 prior bs m = Some (m, bs)"
| "read_map rd (Suc n) prior bs m = do { ((k, v), bs) \<leftarrow> rd bs;
     if (case prior of None \<Rightarrow> False | Some p \<Rightarrow> \<not> p < k) then None
     else read_map rd n (Some k) bs (map_emplace k v m) }"

definition read_counted_map :: "(bytes \<Rightarrow> (('k::linorder \<times> 'v) \<times> bytes) option) \<Rightarrow> nat \<Rightarrow> nat \<Rightarrow> bytes
    \<Rightarrow> (('k, 'v) omap \<times> bytes) option" where
  "read_counted_map rd limit least bs = do { (n, r) \<leftarrow> rU32 bs;
     if unat n > limit \<or> unat n > length r div least then None else read_map rd (unat n) None r [] }"

lemma rU8_iff: "rU8 bs = Some (b, r) \<longleftrightarrow> bs = b # r"
  by (cases bs) (auto simp: rU8_def)

lemma rBytes_iff: "rBytes n bs = Some (f, r) \<longleftrightarrow> bs = f @ r \<and> length f = n"
  by (auto simp: rBytes_def)

lemma le_field_iff:
  assumes "LENGTH('a::len) = 8 * n"
  shows "(if length bs < n then None else Some (le_word (take n bs), drop n bs)) = Some (w :: 'a word, r) \<longleftrightarrow> bs = le_bytes n w @ r"
  using assms by (auto simp: le_bytes_le_word le_word_le_bytes)

lemma rU32_iff: "rU32 bs = Some (w, r) \<longleftrightarrow> bs = le_bytes 4 w @ r"
  unfolding rU32_def by (rule le_field_iff) simp

lemma rU64_iff: "rU64 bs = Some (w, r) \<longleftrightarrow> bs = le_bytes 8 w @ r"
  unfolding rU64_def by (rule le_field_iff) simp

lemma rHash_iff: "rHash bs = Some (w, r) \<longleftrightarrow> bs = hash_bytes w @ r"
  by (auto simp: rHash_def bind_eq_Some_conv rBytes_iff be_bytes_be_word be_word_be_bytes)

lemma rAccount_iff: "rAccount bs = Some (a, r) \<longleftrightarrow> a \<noteq> 0 \<and> bs = hash_bytes a @ r"
  by (auto simp: rAccount_def bind_eq_Some_conv rBytes_iff AccountId_FromBytes_iff)

lemmas r_iffs = bind_eq_Some_conv rU8_iff rU32_iff rU64_iff rBytes_iff rHash_iff rAccount_iff


section \<open>The contract of a record format\<close>

locale format =
  fixes enc :: "'a \<Rightarrow> bytes" and dec :: "bytes \<Rightarrow> ('a \<times> bytes) option" and ok :: "'a \<Rightarrow> bool" and least :: nat
  assumes dec_iff: "dec bs = Some (a, r) \<longleftrightarrow> ok a \<and> bs = enc a @ r"
    and enc_least: "least \<le> length (enc a)" and least_pos: "0 < least"
begin

lemma read_list_iff: "read_list dec n bs = Some (xs, r) \<longleftrightarrow> length xs = n \<and> list_all ok xs \<and> bs = concat (map enc xs) @ r"
proof (induction n arbitrary: bs xs)
  case (Suc n)
  show ?case by (cases xs) (auto simp: bind_eq_Some_conv dec_iff Suc)
qed auto

lemma length_records: "least * length xs \<le> length (concat (map enc xs))"
proof (induction xs)
  case (Cons x xs)
  then show ?case using enc_least [of x] by simp
qed simp

lemma count_fits: "length xs \<le> length (concat (map enc xs) @ r) div least"
  using length_records [of xs] least_pos by (simp add: less_eq_div_iff_mult_less_eq mult.commute)

lemma read_counted_iff:
  "read_counted dec limit least bs = Some (xs, r) \<longleftrightarrow>
     length xs \<le> limit \<and> length xs < 2 ^ 32 \<and> list_all ok xs \<and> bs = counted enc xs @ r"
proof
  assume "read_counted dec limit least bs = Some (xs, r)"
  then obtain n :: u32 where n: "bs = le_bytes 4 n @ concat (map enc xs) @ r" "unat n \<le> limit" "length xs = unat n" "list_all ok xs"
    by (auto simp: read_counted_def r_iffs read_list_iff not_less split: if_splits)
  then show "length xs \<le> limit \<and> length xs < 2 ^ 32 \<and> list_all ok xs \<and> bs = counted enc xs @ r"
    using unsigned_less [of n, where 'a = nat] by (simp add: counted_def)
next
  assume a: "length xs \<le> limit \<and> length xs < 2 ^ 32 \<and> list_all ok xs \<and> bs = counted enc xs @ r"
  then have u: "unat (of_nat (length xs) :: u32) = length xs" by (simp add: unsigned_of_nat take_bit_nat_eq_self)
  have "rU32 bs = Some (of_nat (length xs), concat (map enc xs) @ r)" using a by (simp add: rU32_iff counted_def)
  moreover have "read_list dec (length xs) (concat (map enc xs) @ r) = Some (xs, r)" using a by (simp add: read_list_iff)
  ultimately show "read_counted dec limit least bs = Some (xs, r)"
    using a u count_fits [of xs r] by (simp add: read_counted_def)
qed

end

locale keyed_format = format enc dec ok least
  for enc :: "('k::linorder \<times> 'v) \<Rightarrow> bytes" and dec ok least
begin

lemma read_map_iff:
  assumes "omap_wf m" and "case prior of None \<Rightarrow> m = [] | Some p \<Rightarrow> m \<noteq> [] \<and> fst (last m) = p"
  shows "read_map dec n prior bs m = Some (m', r) \<longleftrightarrow>
     (\<exists>es. length es = n \<and> list_all ok es \<and> omap_wf (m @ es) \<and> m' = m @ es \<and> bs = concat (map enc es) @ r)"
  using assms
proof (induction n arbitrary: bs m prior)
  case 0
  then show ?case by auto
next
  case (Suc n)
  have step: "read_map dec n (Some k) bs' (map_emplace k v m) = Some (m', r) \<longleftrightarrow>
      (\<exists>es. length es = n \<and> list_all ok es \<and> omap_wf (m @ (k, v) # es) \<and> m' = m @ (k, v) # es \<and> bs' = concat (map enc es) @ r)"
    if "case prior of None \<Rightarrow> True | Some p \<Rightarrow> p < k" for k v bs'
  proof -
    have "\<forall>q \<in> set m. fst q < k"
    proof (cases "m = []")
      case False
      then have "fst (last m) < k" using that Suc.prems(2) by (auto split: option.splits)
      moreover have "\<forall>q \<in> set m. fst q \<le> fst (last m)"
        using Suc.prems(1) False unfolding omap_wf_def by (cases m rule: rev_cases) (auto simp: sorted_wrt_append)
      ultimately show ?thesis by force
    qed simp
    moreover from this have "map_find m k = None" by (intro map_find_notin) auto
    ultimately have e: "map_emplace k v m = m @ [(k, v)]" and w: "omap_wf (m @ [(k, v)])"
      using Suc.prems(1) map_insert_last [of m k v] by (auto simp: map_emplace_def omap_wf_append)
    show ?thesis unfolding e using Suc.IH [of "m @ [(k, v)]" "Some k" bs'] w by simp
  qed
  have ord: "(case prior of None \<Rightarrow> False | Some p \<Rightarrow> \<not> p < k) \<longleftrightarrow> \<not> (case prior of None \<Rightarrow> True | Some p \<Rightarrow> p < k)" for k
    by (simp split: option.split)
  have mono: "case prior of None \<Rightarrow> True | Some p \<Rightarrow> p < k" if "omap_wf (m @ (k, v) # es)" for k v es
    using that Suc.prems(2) by (auto simp: omap_wf_def sorted_wrt_append split: option.splits)
  show ?case
  proof
    assume "read_map dec (Suc n) prior bs m = Some (m', r)"
    then obtain k v bs' where d: "ok (k, v)" "bs = enc (k, v) @ bs'" and p: "case prior of None \<Rightarrow> True | Some p \<Rightarrow> p < k"
      and rd: "read_map dec n (Some k) bs' (map_emplace k v m) = Some (m', r)"
      by (auto simp: bind_eq_Some_conv dec_iff ord split: if_splits)
    from rd [unfolded step [OF p]] obtain es where "length es = n" "list_all ok es" "omap_wf (m @ (k, v) # es)"
      "m' = m @ (k, v) # es" "bs' = concat (map enc es) @ r" by blast
    with d show "\<exists>es. length es = Suc n \<and> list_all ok es \<and> omap_wf (m @ es) \<and> m' = m @ es \<and> bs = concat (map enc es) @ r"
      by (intro exI [of _ "(k, v) # es"]) simp
  next
    assume "\<exists>es. length es = Suc n \<and> list_all ok es \<and> omap_wf (m @ es) \<and> m' = m @ es \<and> bs = concat (map enc es) @ r"
    then obtain k v es where es: "length es = n" "list_all ok ((k, v) # es)" "omap_wf (m @ (k, v) # es)"
      "m' = m @ (k, v) # es" "bs = enc (k, v) @ concat (map enc es) @ r"
      by (auto simp: length_Suc_conv)
    have "dec bs = Some ((k, v), concat (map enc es) @ r)" using es by (simp add: dec_iff)
    moreover have "read_map dec n (Some k) (concat (map enc es) @ r) (map_emplace k v m) = Some (m', r)"
      unfolding step [OF mono [OF es(3)]] using es by auto
    ultimately show "read_map dec (Suc n) prior bs m = Some (m', r)"
      using mono [OF es(3)] by (simp add: ord)
  qed
qed

lemma read_counted_map_iff:
  "read_counted_map dec limit least bs = Some (m, r) \<longleftrightarrow>
     length m \<le> limit \<and> length m < 2 ^ 32 \<and> list_all ok m \<and> omap_wf m \<and> bs = counted enc m @ r"
proof
  assume "read_counted_map dec limit least bs = Some (m, r)"
  then obtain n :: u32 where n: "bs = le_bytes 4 n @ concat (map enc m) @ r" "unat n \<le> limit" "length m = unat n" "list_all ok m" "omap_wf m"
    by (auto simp: read_counted_map_def r_iffs read_map_iff not_less split: if_splits)
  then show "length m \<le> limit \<and> length m < 2 ^ 32 \<and> list_all ok m \<and> omap_wf m \<and> bs = counted enc m @ r"
    using unsigned_less [of n, where 'a = nat] by (simp add: counted_def)
next
  assume a: "length m \<le> limit \<and> length m < 2 ^ 32 \<and> list_all ok m \<and> omap_wf m \<and> bs = counted enc m @ r"
  then have u: "unat (of_nat (length m) :: u32) = length m" by (simp add: unsigned_of_nat take_bit_nat_eq_self)
  have "rU32 bs = Some (of_nat (length m), concat (map enc m) @ r)" using a by (simp add: rU32_iff counted_def)
  moreover have "read_map dec (length m) None (concat (map enc m) @ r) [] = Some (m, r)"
    using a by (simp add: read_map_iff)
  ultimately show "read_counted_map dec limit least bs = Some (m, r)"
    using a u count_fits [of m r] by (simp add: read_counted_map_def)
qed

end


section \<open>The identity registry\<close>

definition identity_entry_bytes :: "AccountId \<times> IdentityRecord \<Rightarrow> bytes" where
  "identity_entry_bytes = (\<lambda>(account_id, r). hash_bytes account_id @ WritePublic (ir_recovery_key r)
     @ WritePublic (ir_authorization_key r) @ hash_bytes (ir_kem_package_id r) @ le_bytes 8 (ir_nonce r) @ le_bytes 8 (ir_key_epoch r))"

definition IDENTITY_ACCOUNT_SIZE :: nat where
  "IDENTITY_ACCOUNT_SIZE = 32 + (32 + 1952) + (32 + 1312) + 32 + 8 + 8"

definition identity_serializable :: "crypto \<Rightarrow> IdentityRegistry \<Rightarrow> AccountId \<times> IdentityRecord \<Rightarrow> bool" where
  "identity_serializable C registry = (\<lambda>(account_id, r). account_id \<noteq> 0 \<and> ComputeAuthorizationKeyId C (ir_authorization_key r) \<noteq> None
     \<and> ir_kem_package_id r \<noteq> 0
     \<and> (case ComputeRecoveryKeyId C (ir_recovery_key r) of None \<Rightarrow> False
        | Some recovery_id \<Rightarrow> map_find (m_recovery_index registry) recovery_id = Some account_id))"

definition SerializeIdentityRegistry :: "crypto \<Rightarrow> IdentityRegistry \<Rightarrow> bytes option" where
  "SerializeIdentityRegistry C registry =
     (if length (m_accounts registry) > MAX_IDENTITY_REGISTRY_ACCOUNTS
         \<or> length (m_accounts registry) \<noteq> length (m_recovery_index registry) then None
      else if \<not> list_all (identity_serializable C registry) (m_accounts registry) then None
      else Some (counted identity_entry_bytes (m_accounts registry)))"

definition ReadPublic :: "IdentityKeyPurpose \<Rightarrow> nat \<Rightarrow> bytes \<Rightarrow> (IdentityHybridPublicKey \<times> bytes) option" where
  "ReadPublic p pq_size bs = do { (ed, bs) \<leftarrow> rHash bs; (ml, bs) \<leftarrow> rBytes pq_size bs;
     Some (\<lparr> purpose = p, pk_ed25519 = ed, pk_ml_dsa = ml \<rparr>, bs) }"

fun read_identities :: "crypto \<Rightarrow> nat \<Rightarrow> AccountId option \<Rightarrow> bytes \<Rightarrow> IdentityRegistry \<Rightarrow> (IdentityRegistry \<times> bytes) option" where
  "read_identities C 0 prior bs registry = Some (registry, bs)"
| "read_identities C (Suc n) prior bs registry = do {
     (account_id, bs) \<leftarrow> rHash bs;
     if account_id = 0 \<or> (case prior of None \<Rightarrow> False | Some p \<Rightarrow> \<not> p < account_id) then None
     else do {
       (recovery, bs) \<leftarrow> ReadPublic RECOVERY_ROOT 1952 bs;
       (authorization, bs) \<leftarrow> ReadPublic AUTHORIZATION 1312 bs;
       (package_id, bs) \<leftarrow> rHash bs;
       (nonce, bs) \<leftarrow> rU64 bs;
       (epoch, bs) \<leftarrow> rU64 bs;
       if package_id = 0 then None
       else do {
         recovery_id \<leftarrow> ComputeRecoveryKeyId C recovery;
         if map_contains (m_recovery_index registry) recovery_id \<or> ComputeAuthorizationKeyId C authorization = None then None
         else read_identities C n (Some account_id) bs (registry \<lparr>
           m_recovery_index := map_emplace recovery_id account_id (m_recovery_index registry),
           m_accounts := map_emplace account_id \<lparr> ir_recovery_key = recovery, ir_authorization_key = authorization,
             ir_kem_package_id = package_id, ir_nonce = nonce, ir_key_epoch = epoch \<rparr> (m_accounts registry) \<rparr>) } } }"

definition DeserializeIdentityRegistry :: "crypto \<Rightarrow> bytes \<Rightarrow> IdentityRegistry option" where
  "DeserializeIdentityRegistry C bs = do { (count, r) \<leftarrow> rU32 bs;
     if unat count > MAX_IDENTITY_REGISTRY_ACCOUNTS \<or> unat count > length r div IDENTITY_ACCOUNT_SIZE then None
     else do { (registry, rest) \<leftarrow> read_identities C (unat count) None r \<lparr> m_accounts = [], m_recovery_index = [] \<rparr>;
       if rest \<noteq> [] then None else Some registry } }"

lemma ReadPublic_iff:
  "ReadPublic p n bs = Some (k, r) \<longleftrightarrow> purpose k = p \<and> length (pk_ml_dsa k) = n \<and> bs = WritePublic k @ r"
  by (cases k) (auto simp: ReadPublic_def r_iffs WritePublic_def)

lemma recovery_key_shape: "ComputeRecoveryKeyId C k = Some i \<Longrightarrow> purpose k = RECOVERY_ROOT \<and> length (pk_ml_dsa k) = 1952"
  by (auto simp: ComputeRecoveryKeyId_def key_wellformed_def PublicSize_def split: if_splits)

lemma authorization_key_shape: "ComputeAuthorizationKeyId C k \<noteq> None \<Longrightarrow> purpose k = AUTHORIZATION \<and> length (pk_ml_dsa k) = 1312"
  by (auto simp: ComputeAuthorizationKeyId_def key_wellformed_def PublicSize_def split: if_splits)

text \<open>Reading back a list of entries whose recovery keys are new to the registry read so far.\<close>

definition recovery_ids :: "crypto \<Rightarrow> (AccountId \<times> IdentityRecord) list \<Rightarrow> IdentityKeyId option list" where
  "recovery_ids C es = map (\<lambda>(a, r). ComputeRecoveryKeyId C (ir_recovery_key r)) es"

lemma read_identity_entry:
  assumes "account_id \<noteq> 0" and "ComputeRecoveryKeyId C (ir_recovery_key r) = Some rid"
    and "ComputeAuthorizationKeyId C (ir_authorization_key r) \<noteq> None" and "ir_kem_package_id r \<noteq> 0"
    and "map_find (m_recovery_index registry) rid = None" and "case prior of None \<Rightarrow> True | Some p \<Rightarrow> p < account_id"
  shows "read_identities C (Suc n) prior (identity_entry_bytes (account_id, r) @ rest) registry =
    read_identities C n (Some account_id) rest (registry \<lparr>
      m_recovery_index := map_emplace rid account_id (m_recovery_index registry),
      m_accounts := map_emplace account_id r (m_accounts registry) \<rparr>)"
proof -
  let ?rk = "ir_recovery_key r" and ?ak = "ir_authorization_key r"
  let ?t3 = "le_bytes 8 (ir_nonce r) @ le_bytes 8 (ir_key_epoch r) @ rest"
  have "ReadPublic RECOVERY_ROOT 1952 (WritePublic ?rk @ WritePublic ?ak @ hash_bytes (ir_kem_package_id r) @ ?t3)
      = Some (?rk, WritePublic ?ak @ hash_bytes (ir_kem_package_id r) @ ?t3)"
    "ReadPublic AUTHORIZATION 1312 (WritePublic ?ak @ hash_bytes (ir_kem_package_id r) @ ?t3)
      = Some (?ak, hash_bytes (ir_kem_package_id r) @ ?t3)"
    using recovery_key_shape [OF assms(2)] authorization_key_shape [OF assms(3)] by (simp_all add: ReadPublic_iff)
  moreover have "rHash (hash_bytes account_id @ x) = Some (account_id, x)" "rHash (hash_bytes (ir_kem_package_id r) @ x) = Some (ir_kem_package_id r, x)"
    "rU64 (le_bytes 8 (ir_nonce r) @ x) = Some (ir_nonce r, x)" "rU64 (le_bytes 8 (ir_key_epoch r) @ x) = Some (ir_key_epoch r, x)" for x
    by (simp_all add: rHash_iff rU64_iff)
  moreover have surj: "\<lparr> ir_recovery_key = ?rk, ir_authorization_key = ?ak, ir_kem_package_id = ir_kem_package_id r,
      ir_nonce = ir_nonce r, ir_key_epoch = ir_key_epoch r \<rparr> = r" by simp
  ultimately show ?thesis using assms
    by (auto simp: identity_entry_bytes_def map_contains_def surj split: option.splits)
qed

lemma read_identities_entries:
  assumes "omap_wf (m_accounts registry @ es)" and "distinct (recovery_ids C es)"
    and "\<forall>(a, r) \<in> set es. a \<noteq> 0 \<and> ComputeAuthorizationKeyId C (ir_authorization_key r) \<noteq> None \<and> ir_kem_package_id r \<noteq> 0
       \<and> (\<exists>rid. ComputeRecoveryKeyId C (ir_recovery_key r) = Some rid \<and> map_find (m_recovery_index registry) rid = None)"
    and "case prior of None \<Rightarrow> m_accounts registry = [] | Some p \<Rightarrow> \<forall>(a, r) \<in> set es. p < a"
    and "omap_wf (m_recovery_index registry)"
  shows "\<exists>registry'. read_identities C (length es) prior (concat (map identity_entry_bytes es) @ rest) registry = Some (registry', rest)
    \<and> m_accounts registry' = m_accounts registry @ es \<and> omap_wf (m_recovery_index registry')
    \<and> (\<forall>rid a. map_find (m_recovery_index registry') rid = Some a \<longleftrightarrow> map_find (m_recovery_index registry) rid = Some a
         \<or> (\<exists>r. (a, r) \<in> set es \<and> ComputeRecoveryKeyId C (ir_recovery_key r) = Some rid))"
  using assms
proof (induction es arbitrary: registry prior)
  case Nil
  then show ?case by auto
next
  case (Cons e es)
  obtain a r where e: "e = (a, r)" by fastforce
  obtain rid where rid: "ComputeRecoveryKeyId C (ir_recovery_key r) = Some rid" "map_find (m_recovery_index registry) rid = None"
    using Cons.prems(3) e by auto
  have w: "omap_wf (m_accounts registry @ (a, r) # es)" using Cons.prems(1) e by simp
  note em = map_emplace_last [OF w]
  let ?reg = "registry \<lparr> m_recovery_index := map_emplace rid a (m_recovery_index registry),
      m_accounts := map_emplace a r (m_accounts registry) \<rparr>"
  have fresh: "ComputeRecoveryKeyId C (ir_recovery_key r') \<noteq> Some rid" if "(a', r') \<in> set es" for a' r'
    using Cons.prems(2) e rid(1) that by (force simp: recovery_ids_def)
  have "\<exists>registry'. read_identities C (length es) (Some a) (concat (map identity_entry_bytes es) @ rest) ?reg = Some (registry', rest)
    \<and> m_accounts registry' = m_accounts ?reg @ es \<and> omap_wf (m_recovery_index registry')
    \<and> (\<forall>i b. map_find (m_recovery_index registry') i = Some b \<longleftrightarrow> map_find (m_recovery_index ?reg) i = Some b
         \<or> (\<exists>r. (b, r) \<in> set es \<and> ComputeRecoveryKeyId C (ir_recovery_key r) = Some i))"
  proof (rule Cons.IH)
    show "omap_wf (m_accounts ?reg @ es)" using w em by simp
    show "distinct (recovery_ids C es)" using Cons.prems(2) by (simp add: recovery_ids_def)
    show "case Some a of None \<Rightarrow> m_accounts ?reg = [] | Some p \<Rightarrow> \<forall>(a, r) \<in> set es. p < a"
      using w by (auto simp: omap_wf_def sorted_wrt_append)
    show "\<forall>(a, r) \<in> set es. a \<noteq> 0 \<and> ComputeAuthorizationKeyId C (ir_authorization_key r) \<noteq> None \<and> ir_kem_package_id r \<noteq> 0
       \<and> (\<exists>rid. ComputeRecoveryKeyId C (ir_recovery_key r) = Some rid \<and> map_find (m_recovery_index ?reg) rid = None)"
      using Cons.prems(3) fresh rid by (fastforce simp: map_find_emplace)
  qed (use Cons.prems(5) in \<open>simp add: omap_wf_emplace\<close>)
  then obtain registry' where r': "read_identities C (length es) (Some a) (concat (map identity_entry_bytes es) @ rest) ?reg = Some (registry', rest)"
    "m_accounts registry' = m_accounts ?reg @ es" "omap_wf (m_recovery_index registry')"
    "\<forall>i b. map_find (m_recovery_index registry') i = Some b \<longleftrightarrow> map_find (m_recovery_index ?reg) i = Some b
         \<or> (\<exists>r. (b, r) \<in> set es \<and> ComputeRecoveryKeyId C (ir_recovery_key r) = Some i)"
    by blast
  have "case prior of None \<Rightarrow> True | Some p \<Rightarrow> p < a" using Cons.prems(4) e by (auto split: option.splits)
  then have "read_identities C (length (e # es)) prior (concat (map identity_entry_bytes (e # es)) @ rest) registry = Some (registry', rest)"
    using read_identity_entry [OF _ rid(1) _ _ rid(2), of a prior "length es" "concat (map identity_entry_bytes es) @ rest"]
      Cons.prems(3) e r'(1) by auto
  moreover have "map_find (m_recovery_index ?reg) i = Some b \<longleftrightarrow> map_find (m_recovery_index registry) i = Some b \<or> (i = rid \<and> b = a)" for i b
    using rid(2) by (auto simp: map_find_emplace)
  ultimately show ?case using r' em rid(1) e by (intro exI [of _ registry']) auto
qed

lemma length_identity_entry:
  "ComputeRecoveryKeyId C (ir_recovery_key r) \<noteq> None \<Longrightarrow> ComputeAuthorizationKeyId C (ir_authorization_key r) \<noteq> None
   \<Longrightarrow> length (identity_entry_bytes (a, r)) = IDENTITY_ACCOUNT_SIZE"
  using recovery_key_shape [of C "ir_recovery_key r"] authorization_key_shape [of C "ir_authorization_key r"]
  by (auto simp: identity_entry_bytes_def WritePublic_def IDENTITY_ACCOUNT_SIZE_def)

lemma length_concat_const: "\<forall>x \<in> set xs. length (f x) = n \<Longrightarrow> length (concat (map f xs)) = n * length xs"
  by (induction xs) auto

text \<open>What is written is read back, index included.\<close>

lemma identity_registry_dec_enc:
  assumes ser: "SerializeIdentityRegistry C registry = Some bs"
    and wf: "omap_wf (m_accounts registry)" "omap_wf (m_recovery_index registry)"
  shows "DeserializeIdentityRegistry C bs = Some registry"
proof -
  let ?as = "m_accounts registry" and ?ix = "m_recovery_index registry"
  have len: "length ?as \<le> 1000000" "length ?as = length ?ix" and all: "list_all (identity_serializable C registry) ?as"
    and bs: "bs = counted identity_entry_bytes ?as"
    using ser by (auto simp: SerializeIdentityRegistry_def MAX_IDENTITY_REGISTRY_ACCOUNTS_def split: if_splits)
  have entry: "\<exists>rid. a \<noteq> 0 \<and> ComputeAuthorizationKeyId C (ir_authorization_key r) \<noteq> None \<and> ir_kem_package_id r \<noteq> 0
      \<and> ComputeRecoveryKeyId C (ir_recovery_key r) = Some rid \<and> map_find ?ix rid = Some a" if "(a, r) \<in> set ?as" for a r
  proof -
    have "identity_serializable C registry (a, r)" using that all by (auto simp: list_all_iff)
    then show ?thesis by (auto simp: identity_serializable_def split: option.splits)
  qed
  have dist: "distinct (recovery_ids C ?as)"
  proof -
    have "a = a' \<and> r = r'" if "(a, r) \<in> set ?as" "(a', r') \<in> set ?as"
      "ComputeRecoveryKeyId C (ir_recovery_key r) = ComputeRecoveryKeyId C (ir_recovery_key r')" for a r a' r'
      using entry [OF that(1)] entry [OF that(2)] that wf(1) map_find_iff_set [OF wf(1)] by (metis option.inject)
    moreover have "distinct ?as" using omap_wf_distinct [OF wf(1)] by (auto simp: distinct_map)
    ultimately show ?thesis unfolding recovery_ids_def distinct_map inj_on_def by (auto split: prod.splits)
  qed
  obtain registry' where r': "read_identities C (length ?as) None (concat (map identity_entry_bytes ?as) @ []) \<lparr> m_accounts = [], m_recovery_index = [] \<rparr>
      = Some (registry', [])" "m_accounts registry' = ?as" "omap_wf (m_recovery_index registry')"
    and ix': "\<And>rid a. map_find (m_recovery_index registry') rid = Some a \<longleftrightarrow>
       (\<exists>r. (a, r) \<in> set ?as \<and> ComputeRecoveryKeyId C (ir_recovery_key r) = Some rid)"
    using read_identities_entries [of "\<lparr> m_accounts = [], m_recovery_index = [] \<rparr>" ?as C None "[]"] wf(1) dist entry
    by fastforce
  have sub: "set (m_recovery_index registry') \<subseteq> set ?ix"
  proof
    fix x assume x: "x \<in> set (m_recovery_index registry')"
    obtain rid a where "x = (rid, a)" by fastforce
    moreover from this x have "map_find (m_recovery_index registry') rid = Some a" by (simp add: map_find_iff_set [OF r'(3)])
    ultimately obtain r where "x = (rid, a)" "(a, r) \<in> set ?as" "ComputeRecoveryKeyId C (ir_recovery_key r) = Some rid"
      unfolding ix' by blast
    then show "x \<in> set ?ix" using entry [of a r] map_find_iff_set [OF wf(2)] by auto
  qed
  have "length (m_recovery_index registry') = length ?ix"
  proof -
    have "snd ` set (m_recovery_index registry') = fst ` set ?as"
    proof (intro equalityI subsetI)
      fix a assume "a \<in> fst ` set ?as"
      then obtain r where "(a, r) \<in> set ?as" by auto
      then obtain rid where "map_find (m_recovery_index registry') rid = Some a" using entry ix' by blast
      then show "a \<in> snd ` set (m_recovery_index registry')" by (force dest: map_find_in_set)
    qed (use ix' map_find_iff_set [OF r'(3)] in force)
    then have "card (set ?as) \<le> card (set (m_recovery_index registry'))"
      using card_image_le [of "set (m_recovery_index registry')" snd] omap_wf_distinct [OF wf(1)]
      by (simp add: card_image distinct_map)
    moreover have "card (set (m_recovery_index registry')) \<le> card (set ?ix)" using sub by (intro card_mono) auto
    moreover have "card (set ?as) = length ?as" "card (set ?ix) = length ?ix"
      "card (set (m_recovery_index registry')) = length (m_recovery_index registry')"
      using omap_wf_distinct [OF wf(1)] omap_wf_distinct [OF wf(2)] omap_wf_distinct [OF r'(3)]
      by (auto simp: distinct_card distinct_map)
    ultimately show ?thesis using len by simp
  qed
  then have "set (m_recovery_index registry') = set ?ix"
    using sub omap_wf_distinct [OF wf(2)] omap_wf_distinct [OF r'(3)]
    by (intro card_subset_eq) (auto simp: distinct_card distinct_map)
  then have "m_recovery_index registry' = ?ix"
    using map_find_iff_set [OF r'(3)] map_find_iff_set [OF wf(2)] r'(3) wf(2) by (intro omap_eqI) (auto, metis not_None_eq)
  then have reg: "registry' = registry" using r'(2) by simp
  have "\<forall>e \<in> set ?as. length (identity_entry_bytes e) = IDENTITY_ACCOUNT_SIZE"
    using entry length_identity_entry by (metis option.distinct(1) surj_pair)
  then have "length (concat (map identity_entry_bytes ?as)) = IDENTITY_ACCOUNT_SIZE * length ?as"
    by (rule length_concat_const)
  then have "length ?as \<le> length (concat (map identity_entry_bytes ?as)) div IDENTITY_ACCOUNT_SIZE"
    by (simp add: IDENTITY_ACCOUNT_SIZE_def)
  moreover have "unat (of_nat (length ?as) :: u32) = length ?as" using len by (simp add: unsigned_of_nat take_bit_nat_eq_self)
  moreover have "rU32 bs = Some (of_nat (length ?as), concat (map identity_entry_bytes ?as))" by (simp add: bs counted_def rU32_iff)
  ultimately show ?thesis using r'(1) reg len by (simp add: DeserializeIdentityRegistry_def MAX_IDENTITY_REGISTRY_ACCOUNTS_def)
qed

end
