(* ===== verification/StateRoot.thy ===== *)
theory StateRoot
  imports StateCodec
begin

text \<open>
  \<^verbatim>\<open>SerializeCybouState\<close>, \<^verbatim>\<open>DeserializeCybouState\<close> and \<^verbatim>\<open>CybouStateHash\<close>
  (\<^verbatim>\<open>state.cpp\<close>). Every record of the state is an instance of the locale \<open>format\<close>, every map of it one of
  \<open>keyed_format\<close>; a valid state is read back from its bytes as it was.
\<close>

section \<open>Records of a lease\<close>

definition eligible_enc :: "StorageAcceptedBinding \<Rightarrow> bytes" where
  "eligible_enc e = hash_bytes (sab_storage_id e) @ hash_bytes (sab_payout_account e) @ le_bytes 8 (sab_key_epoch e)
     @ le_bytes 8 (sab_accepted_height e)"

definition eligible_dec :: "bytes \<Rightarrow> (StorageAcceptedBinding \<times> bytes) option" where
  "eligible_dec bs = do { (storage, bs) \<leftarrow> rHash bs; (account, bs) \<leftarrow> rAccount bs; (key_epoch, bs) \<leftarrow> rU64 bs;
     (accepted, bs) \<leftarrow> rU64 bs;
     Some (\<lparr> sab_storage_id = storage, sab_payout_account = account, sab_key_epoch = key_epoch, sab_accepted_height = accepted \<rparr>, bs) }"

interpretation elig: format eligible_enc eligible_dec "\<lambda>e. sab_payout_account e \<noteq> 0" 80
proof unfold_locales
  show "(eligible_dec bs = Some (e, r)) = (sab_payout_account e \<noteq> 0 \<and> bs = eligible_enc e @ r)" for bs e r
    by (cases e) (auto simp: eligible_dec_def eligible_enc_def r_iffs)
qed (simp_all add: eligible_enc_def)

definition declaration_enc :: "StorageAssignmentDeclaration \<Rightarrow> bytes" where
  "declaration_enc d = hash_bytes (sad_operation_id d) @ le_bytes 8 (sad_epoch d) @ le_bytes 8 (sad_height d)
     @ counted eligible_enc (sad_eligible d)"

definition declaration_dec :: "bytes \<Rightarrow> (StorageAssignmentDeclaration \<times> bytes) option" where
  "declaration_dec bs = do { (i, bs) \<leftarrow> rHash bs; (epoch, bs) \<leftarrow> rU64 bs; (height, bs) \<leftarrow> rU64 bs;
     (eligible, bs) \<leftarrow> read_counted eligible_dec 20 80 bs;
     Some (\<lparr> sad_operation_id = i, sad_epoch = epoch, sad_height = height, sad_eligible = eligible \<rparr>, bs) }"

definition declaration_ok :: "StorageAssignmentDeclaration \<Rightarrow> bool" where
  "declaration_ok d \<longleftrightarrow> length (sad_eligible d) \<le> 20 \<and> list_all (\<lambda>e. sab_payout_account e \<noteq> 0) (sad_eligible d)"

interpretation decl: format declaration_enc declaration_dec declaration_ok 52
proof unfold_locales
  show "(declaration_dec bs = Some (d, r)) = (declaration_ok d \<and> bs = declaration_enc d @ r)" for bs d r
    by (cases d) (auto simp: declaration_dec_def declaration_enc_def declaration_ok_def r_iffs elig.read_counted_iff)
qed (simp_all add: declaration_enc_def counted_def)

definition units_enc :: "StorageAssignedUnits \<Rightarrow> bytes" where
  "units_enc u = [sau_slot u] @ hash_bytes (sau_storage_id u) @ hash_bytes (sau_payout_account u) @ le_bytes 4 (sau_units u)"

definition units_dec :: "bytes \<Rightarrow> (StorageAssignedUnits \<times> bytes) option" where
  "units_dec bs = do { (slot, bs) \<leftarrow> rU8 bs; (storage, bs) \<leftarrow> rHash bs; (account, bs) \<leftarrow> rAccount bs; (units, bs) \<leftarrow> rU32 bs;
     Some (\<lparr> sau_slot = slot, sau_storage_id = storage, sau_payout_account = account, sau_units = units \<rparr>, bs) }"

interpretation units: format units_enc units_dec "\<lambda>u. sau_payout_account u \<noteq> 0" 69
proof unfold_locales
  show "(units_dec bs = Some (u, r)) = (sau_payout_account u \<noteq> 0 \<and> bs = units_enc u @ r)" for bs u r
    by (cases u) (auto simp: units_dec_def units_enc_def r_iffs)
qed (simp_all add: units_enc_def)

definition assignment_enc :: "StorageAcceptedAssignment \<Rightarrow> bytes" where
  "assignment_enc a = hash_bytes (saa_operation_id a) @ hash_bytes (saa_preparation_id a) @ hash_bytes (saa_seed a)
     @ le_bytes 8 (saa_epoch a) @ le_bytes 8 (saa_effective_period a) @ counted units_enc (saa_allocations a)"

definition assignment_dec :: "bytes \<Rightarrow> (StorageAcceptedAssignment \<times> bytes) option" where
  "assignment_dec bs = do { (i, bs) \<leftarrow> rHash bs; (prep, bs) \<leftarrow> rHash bs; (seed, bs) \<leftarrow> rHash bs; (epoch, bs) \<leftarrow> rU64 bs;
     (period, bs) \<leftarrow> rU64 bs; (us, bs) \<leftarrow> read_counted units_dec (20 * unat MAX_STORAGE_LEASE_REPLICAS) 69 bs;
     Some (\<lparr> saa_operation_id = i, saa_preparation_id = prep, saa_seed = seed, saa_epoch = epoch, saa_effective_period = period,
       saa_allocations = us \<rparr>, bs) }"

definition assignment_ok :: "StorageAcceptedAssignment \<Rightarrow> bool" where
  "assignment_ok a \<longleftrightarrow> length (saa_allocations a) \<le> 320 \<and> list_all (\<lambda>u. sau_payout_account u \<noteq> 0) (saa_allocations a)"

interpretation asg: format assignment_enc assignment_dec assignment_ok 116
proof unfold_locales
  show "(assignment_dec bs = Some (a, r)) = (assignment_ok a \<and> bs = assignment_enc a @ r)" for bs a r
    by (cases a) (auto simp: assignment_dec_def assignment_enc_def assignment_ok_def MAX_STORAGE_LEASE_REPLICAS_def r_iffs units.read_counted_iff)
qed (simp_all add: assignment_enc_def counted_def)

definition payment_enc :: "StorageServicePayment \<Rightarrow> bytes" where
  "payment_enc e = [ssp_slot e] @ hash_bytes (ssp_storage_id e) @ hash_bytes (ssp_payout_account e)
     @ le_bytes 8 (ssp_verified_unit_seconds e) @ le_bytes 8 (ssp_paid e) @ le_bytes 8 (ssp_closed_epoch_capacity e)"

definition payment_dec :: "bytes \<Rightarrow> (StorageServicePayment \<times> bytes) option" where
  "payment_dec bs = do { (slot, bs) \<leftarrow> rU8 bs; (storage, bs) \<leftarrow> rHash bs; (account, bs) \<leftarrow> rAccount bs;
     (service, bs) \<leftarrow> rU64 bs; (paid, bs) \<leftarrow> rU64 bs; (closed, bs) \<leftarrow> rU64 bs;
     Some (\<lparr> ssp_slot = slot, ssp_storage_id = storage, ssp_payout_account = account, ssp_verified_unit_seconds = service,
       ssp_paid = paid, ssp_closed_epoch_capacity = closed \<rparr>, bs) }"

interpretation pmt: format payment_enc payment_dec "\<lambda>e. ssp_payout_account e \<noteq> 0" 89
proof unfold_locales
  show "(payment_dec bs = Some (e, r)) = (ssp_payout_account e \<noteq> 0 \<and> bs = payment_enc e @ r)" for bs e r
    by (cases e) (auto simp: payment_dec_def payment_enc_def r_iffs)
qed (simp_all add: payment_enc_def)

definition term_enc :: "StorageFundedTerm \<Rightarrow> bytes" where
  "term_enc t = hash_bytes (ft_funding_operation_id t) @ le_bytes 8 (ft_first_period t) @ le_bytes 8 (ft_end_period t)
     @ le_bytes 8 (ft_rate t) @ le_bytes 8 (ft_period_seconds t) @ le_bytes 8 (ft_replica_share t)
     @ le_bytes 8 (ft_contracted_unit_seconds t) @ le_bytes 8 (ft_initial_onboarding t) @ le_bytes 8 (ft_initial_locked t)
     @ le_bytes 8 (ft_paid_onboarding t) @ le_bytes 8 (ft_paid_locked t) @ le_bytes 8 (ft_next_assignment_epoch t)
     @ counted declaration_enc (ft_declarations t) @ counted assignment_enc (ft_assignments t)
     @ le_bytes 8 (ft_refunded_onboarding t) @ le_bytes 8 (ft_refunded_locked t) @ counted payment_enc (ft_service_payments t)"

definition term_dec :: "bytes \<Rightarrow> (StorageFundedTerm \<times> bytes) option" where
  "term_dec bs = do { (funding, bs) \<leftarrow> rHash bs; (first, bs) \<leftarrow> rU64 bs; (end_p, bs) \<leftarrow> rU64 bs; (rate, bs) \<leftarrow> rU64 bs;
     (seconds, bs) \<leftarrow> rU64 bs; (share, bs) \<leftarrow> rU64 bs; (contracted, bs) \<leftarrow> rU64 bs; (onb, bs) \<leftarrow> rU64 bs; (lk, bs) \<leftarrow> rU64 bs;
     (paid_onb, bs) \<leftarrow> rU64 bs; (paid_lk, bs) \<leftarrow> rU64 bs; (next_epoch, bs) \<leftarrow> rU64 bs;
     (ds, bs) \<leftarrow> read_counted declaration_dec U32_COUNT_MAX 52 bs; (as, bs) \<leftarrow> read_counted assignment_dec U32_COUNT_MAX 116 bs;
     (ref_onb, bs) \<leftarrow> rU64 bs; (ref_lk, bs) \<leftarrow> rU64 bs; (ps, bs) \<leftarrow> read_counted payment_dec U32_COUNT_MAX 89 bs;
     Some (\<lparr> ft_funding_operation_id = funding, ft_first_period = first, ft_end_period = end_p, ft_rate = rate,
       ft_period_seconds = seconds, ft_replica_share = share, ft_contracted_unit_seconds = contracted, ft_initial_onboarding = onb,
       ft_initial_locked = lk, ft_paid_onboarding = paid_onb, ft_paid_locked = paid_lk, ft_next_assignment_epoch = next_epoch,
       ft_declarations = ds, ft_assignments = as, ft_service_payments = ps, ft_refunded_onboarding = ref_onb,
       ft_refunded_locked = ref_lk \<rparr>, bs) }"

definition term_ok :: "StorageFundedTerm \<Rightarrow> bool" where
  "term_ok t \<longleftrightarrow> length (ft_declarations t) \<le> U32_COUNT_MAX \<and> list_all declaration_ok (ft_declarations t)
     \<and> length (ft_assignments t) \<le> U32_COUNT_MAX \<and> list_all assignment_ok (ft_assignments t)
     \<and> length (ft_service_payments t) \<le> U32_COUNT_MAX \<and> list_all (\<lambda>e. ssp_payout_account e \<noteq> 0) (ft_service_payments t)"

interpretation trm: format term_enc term_dec term_ok 148
proof unfold_locales
  show "(term_dec bs = Some (t, r)) = (term_ok t \<and> bs = term_enc t @ r)" for bs t r
    by (cases t) (auto simp: term_dec_def term_enc_def term_ok_def r_iffs decl.read_counted_iff asg.read_counted_iff
        pmt.read_counted_iff U32_COUNT_MAX_def)
qed (simp_all add: term_enc_def counted_def)


section \<open>Entries of the maps\<close>

definition account_enc :: "AccountId \<times> AccountState \<Rightarrow> bytes" where
  "account_enc = (\<lambda>(i, a). hash_bytes i @ le_bytes 8 (balance a) @ le_bytes 8 (system_balance a)
     @ le_bytes 8 (onboarding_system_balance a) @ le_bytes 8 (creation_height a) @ le_bytes 8 (creation_epoch a))"

definition account_dec :: "bytes \<Rightarrow> ((AccountId \<times> AccountState) \<times> bytes) option" where
  "account_dec bs = do { (i, bs) \<leftarrow> rAccount bs; (bal, bs) \<leftarrow> rU64 bs; (sys, bs) \<leftarrow> rU64 bs; (onb, bs) \<leftarrow> rU64 bs;
     (height, bs) \<leftarrow> rU64 bs; (epoch, bs) \<leftarrow> rU64 bs;
     Some ((i, \<lparr> balance = bal, system_balance = sys, onboarding_system_balance = onb, creation_height = height,
       creation_epoch = epoch \<rparr>), bs) }"

interpretation acct: keyed_format account_enc account_dec "\<lambda>e. fst e \<noteq> 0" 72
proof unfold_locales
  show "(account_dec bs = Some (e, r)) = (fst e \<noteq> 0 \<and> bs = account_enc e @ r)" for bs e r
    by (cases e, cases "snd e") (auto simp: account_dec_def account_enc_def r_iffs)
  show "72 \<le> length (account_enc e)" for e by (cases e) (simp add: account_enc_def)
qed simp

definition allocation_enc :: "IdentityKeyId \<times> GenesisAllocation \<Rightarrow> bytes" where
  "allocation_enc = (\<lambda>(i, a). hash_bytes i @ le_bytes 8 (ga_balance a) @ le_bytes 4 (of_nat (length (ga_label a)) :: u32)
     @ str (ga_label a) @ (case ga_claimed_by a of None \<Rightarrow> [0] | Some c \<Rightarrow> 1 # hash_bytes c))"

definition allocation_dec :: "bytes \<Rightarrow> ((IdentityKeyId \<times> GenesisAllocation) \<times> bytes) option" where
  "allocation_dec bs = do { (i, bs) \<leftarrow> rHash bs; (bal, bs) \<leftarrow> rU64 bs; (label_size, bs) \<leftarrow> rU32 bs;
     if unat label_size > NAME_MAX_LABEL_LENGTH then None
     else do { (label, bs) \<leftarrow> rBytes (unat label_size) bs; (claimed, bs) \<leftarrow> rU8 bs;
       if claimed > 1 then None
       else if claimed \<noteq> 0 then do { (c, bs) \<leftarrow> rAccount bs;
         Some ((i, \<lparr> ga_balance = bal, ga_label = string_of_bytes label, ga_claimed_by = Some c \<rparr>), bs) }
       else Some ((i, \<lparr> ga_balance = bal, ga_label = string_of_bytes label, ga_claimed_by = None \<rparr>), bs) } }"

definition allocation_ok :: "IdentityKeyId \<times> GenesisAllocation \<Rightarrow> bool" where
  "allocation_ok p \<longleftrightarrow> length (ga_label (snd p)) \<le> 32 \<and> ga_claimed_by (snd p) \<noteq> Some 0"

lemma r_evals:
  "rHash (hash_bytes w @ r) = Some (w, r)" "rU64 (le_bytes 8 v @ r) = Some (v, r)" "rU32 (le_bytes 4 u @ r) = Some (u, r)"
  "rU8 (b # r) = Some (b, r)" "length f = n \<Longrightarrow> rBytes n (f @ r) = Some (f, r)" "a \<noteq> 0 \<Longrightarrow> rAccount (hash_bytes a @ r) = Some (a, r)"
  by (simp_all add: r_iffs)

lemma flag_byte: "\<not> (b :: byte) > 1 \<Longrightarrow> b \<noteq> 0 \<Longrightarrow> b = 1"
  using unsigned_word_eqI [of b 1, where 'a = nat] by (auto simp: not_less word_le_nat_alt le_Suc_eq unat_eq_0)

interpretation alloc: keyed_format allocation_enc allocation_dec allocation_ok 45
proof unfold_locales
  show "(allocation_dec bs = Some (e, r)) = (allocation_ok e \<and> bs = allocation_enc e @ r)" for bs e r
  proof
    assume "allocation_dec bs = Some (e, r)"
    then show "allocation_ok e \<and> bs = allocation_enc e @ r"
      by (auto simp: allocation_dec_def allocation_enc_def allocation_ok_def r_iffs NAME_MAX_LABEL_LENGTH_def
          dest: flag_byte split: if_splits)
  next
    assume a: "allocation_ok e \<and> bs = allocation_enc e @ r"
    obtain i al where e: "e = (i, al)" by fastforce
    have "unat (of_nat (length (ga_label al)) :: u32) = length (ga_label al)" "length (ga_label al) \<le> 32"
      using a by (simp_all add: e allocation_ok_def unsigned_of_nat take_bit_nat_eq_self)
    then show "allocation_dec bs = Some (e, r)"
      using a by (cases "ga_claimed_by al"; cases al)
        (auto simp: allocation_dec_def allocation_enc_def allocation_ok_def e r_evals NAME_MAX_LABEL_LENGTH_def)
  qed
  show "45 \<le> length (allocation_enc e)" for e by (cases e) (simp add: allocation_enc_def split: option.split)
qed simp

definition publication_enc :: "hash256 \<times> PublicationRecord \<Rightarrow> bytes" where
  "publication_enc = (\<lambda>(i, p). hash_bytes i @ hash_bytes (pub_owner p) @ hash_bytes (pub_chunk_authorization_root p)
     @ le_bytes 4 (pub_chunk_count p) @ le_bytes 8 (pub_height p))"

definition publication_dec :: "bytes \<Rightarrow> ((hash256 \<times> PublicationRecord) \<times> bytes) option" where
  "publication_dec bs = do { (i, bs) \<leftarrow> rHash bs; (owner, bs) \<leftarrow> rAccount bs; (root, bs) \<leftarrow> rHash bs; (chunks, bs) \<leftarrow> rU32 bs;
     (height, bs) \<leftarrow> rU64 bs;
     Some ((i, \<lparr> pub_owner = owner, pub_chunk_authorization_root = root, pub_chunk_count = chunks, pub_height = height \<rparr>), bs) }"

interpretation publ: keyed_format publication_enc publication_dec "\<lambda>e. pub_owner (snd e) \<noteq> 0" 108
proof unfold_locales
  show "(publication_dec bs = Some (e, r)) = (pub_owner (snd e) \<noteq> 0 \<and> bs = publication_enc e @ r)" for bs e r
    by (cases e, cases "snd e") (auto simp: publication_dec_def publication_enc_def r_iffs)
  show "108 \<le> length (publication_enc e)" for e by (cases e) (simp add: publication_enc_def)
qed simp

definition lease_enc :: "hash256 \<times> StorageLeaseRecord \<Rightarrow> bytes" where
  "lease_enc = (\<lambda>(i, l). hash_bytes i @ hash_bytes (sl_payer l) @ le_bytes 4 (sl_units l) @ [sl_replicas l]
     @ le_bytes 8 (sl_first_period l) @ le_bytes 8 (sl_end_period l) @ le_bytes 8 (sl_escrow_onboarding l)
     @ le_bytes 8 (sl_escrow_locked l) @ counted term_enc (sl_funded_terms l))"

definition lease_dec :: "bytes \<Rightarrow> ((hash256 \<times> StorageLeaseRecord) \<times> bytes) option" where
  "lease_dec bs = do { (i, bs) \<leftarrow> rHash bs; (payer, bs) \<leftarrow> rAccount bs; (units, bs) \<leftarrow> rU32 bs; (replicas, bs) \<leftarrow> rU8 bs;
     (first, bs) \<leftarrow> rU64 bs; (end_p, bs) \<leftarrow> rU64 bs; (onb, bs) \<leftarrow> rU64 bs; (lk, bs) \<leftarrow> rU64 bs;
     (ts, bs) \<leftarrow> read_counted term_dec U32_COUNT_MAX 148 bs;
     if ts = [] then None
     else Some ((i, \<lparr> sl_payer = payer, sl_units = units, sl_replicas = replicas, sl_first_period = first, sl_end_period = end_p,
       sl_escrow_onboarding = onb, sl_escrow_locked = lk, sl_funded_terms = ts \<rparr>), bs) }"

definition lease_ok :: "hash256 \<times> StorageLeaseRecord \<Rightarrow> bool" where
  "lease_ok p \<longleftrightarrow> sl_payer (snd p) \<noteq> 0 \<and> sl_funded_terms (snd p) \<noteq> [] \<and> length (sl_funded_terms (snd p)) \<le> U32_COUNT_MAX
     \<and> list_all term_ok (sl_funded_terms (snd p))"

interpretation lse: keyed_format lease_enc lease_dec lease_ok 105
proof unfold_locales
  show "(lease_dec bs = Some (e, r)) = (lease_ok e \<and> bs = lease_enc e @ r)" for bs e r
  proof
    assume "lease_dec bs = Some (e, r)"
    then show "lease_ok e \<and> bs = lease_enc e @ r"
      by (auto simp: lease_dec_def lease_enc_def lease_ok_def r_iffs trm.read_counted_iff split: if_splits)
  next
    assume a: "lease_ok e \<and> bs = lease_enc e @ r"
    then have "read_counted term_dec U32_COUNT_MAX 148 (counted term_enc (sl_funded_terms (snd e)) @ r) = Some (sl_funded_terms (snd e), r)"
      by (auto simp: lease_ok_def trm.read_counted_iff U32_COUNT_MAX_def)
    with a show "lease_dec bs = Some (e, r)"
      by (cases e; cases "snd e") (auto simp: lease_dec_def lease_enc_def lease_ok_def r_evals)
  qed
  show "105 \<le> length (lease_enc e)" for e by (cases e) (simp add: lease_enc_def counted_def)
qed simp


section \<open>The state\<close>

definition SerializeCybouState :: "crypto \<Rightarrow> CybouState \<Rightarrow> bool \<Rightarrow> bytes option" where
  "SerializeCybouState C st validate =
     (if validate \<and> ValidateCybouState C st \<noteq> StateValidationError.NONE then None
      else case SerializeIdentityRegistry C (identities st) of None \<Rightarrow> None
      | Some ids \<Rightarrow>
        let ns = SerializeNameRegistry (names st) in
        if length ids > U32_COUNT_MAX \<or> length ns > U32_COUNT_MAX then None
        else if list_ex (\<lambda>(i, a). i = 0 \<or> Registry_Find (identities st) i = None) (accounts st) then None
        else Some (counted account_enc (accounts st)
          @ le_bytes 4 (of_nat (length ids) :: u32) @ ids @ le_bytes 4 (of_nat (length ns) :: u32) @ ns
          @ counted allocation_enc (genesis_allocations st) @ counted publication_enc (publications st)
          @ le_bytes 8 (next_period (settlement st)) @ le_bytes 8 (next_period_start_utc (settlement st))
          @ counted lease_enc (leases st)))"

definition DeserializeCybouState :: "crypto \<Rightarrow> bytes \<Rightarrow> CybouState option" where
  "DeserializeCybouState C bs = do {
     (accs, bs) \<leftarrow> read_counted_map account_dec MAX_IDENTITY_REGISTRY_ACCOUNTS 72 bs;
     (identity_size, bs) \<leftarrow> rU32 bs;
     (identity_bytes, bs) \<leftarrow> rBytes (unat identity_size) bs;
     ids \<leftarrow> DeserializeIdentityRegistry C identity_bytes;
     if length (m_accounts ids) \<noteq> length accs \<or> list_ex (\<lambda>(i, a). Registry_Find ids i = None) accs then None
     else do {
       (names_size, bs) \<leftarrow> rU32 bs;
       (names_bytes, bs) \<leftarrow> rBytes (unat names_size) bs;
       ns \<leftarrow> DeserializeNameRegistry names_bytes;
       (n, bs) \<leftarrow> rU32 bs;
       if unat n > MAX_GENESIS_ALLOCATIONS then None
       else do {
         (allocs, bs) \<leftarrow> read_map allocation_dec (unat n) None bs [];
         (pubs, bs) \<leftarrow> read_counted_map publication_dec U32_COUNT_MAX 108 bs;
         (period, bs) \<leftarrow> rU64 bs;
         (start, bs) \<leftarrow> rU64 bs;
         (ls, bs) \<leftarrow> read_counted_map lease_dec U32_COUNT_MAX 105 bs;
         let st = \<lparr> accounts = accs, identities = ids, names = ns, genesis_allocations = allocs, publications = pubs,
                    settlement = \<lparr> next_period = period, next_period_start_utc = start \<rparr>, leases = ls \<rparr>
         in if bs \<noteq> [] then None
            else if ValidateCybouState C st \<noteq> StateValidationError.NONE then None
            else Some st } } }"

definition CybouStateHash :: "crypto \<Rightarrow> CybouState \<Rightarrow> bool \<Rightarrow> hash256 option" where
  "CybouStateHash C st validate =
     (case SerializeCybouState C st validate of None \<Rightarrow> None
      | Some bs \<Rightarrow> ComputeSha256 C [str ''CYBOU/STATE'', bs])"


section \<open>A valid state fits its format\<close>

lemma valid_account_nonzero:
  assumes "check_accounts st (accounts st) = StateValidationError.NONE" and "map_contains (accounts st) a"
  shows "a \<noteq> 0"
  using assms by (auto simp: check_accounts_NONE map_contains_iff dest!: map_find_in_set)

lemma declarations_valid_ok:
  "declarations_valid st l t pe ph ds \<Longrightarrow> check_accounts st (accounts st) = StateValidationError.NONE \<Longrightarrow>
   d \<in> set ds \<Longrightarrow> declaration_ok d"
  by (induction st l t pe ph ds rule: declarations_valid.induct)
    (auto simp: declaration_ok_def list_all_iff eligible_valid_def dest: valid_account_nonzero)

lemma assignments_valid_ok:
  assumes "assignments_valid st l t pe pp as" and "sl_replicas l \<le> MAX_STORAGE_LEASE_REPLICAS"
    and "\<And>d. d \<in> set (ft_declarations t) \<Longrightarrow> declaration_ok d" and "a \<in> set as"
  shows "assignment_ok a"
  using assms
proof (induction st l t pe pp as rule: assignments_valid.induct)
  case (2 st l t pe pp b as)
  show ?case
  proof (cases "a = b")
    case True
    from 2(2) obtain d where "find (\<lambda>d. sad_operation_id d = saa_preparation_id b) (ft_declarations t) = Some d"
      and len: "length (saa_allocations b) \<le> 20 * unat (sl_replicas l)" and all: "list_all (allocation_valid l d) (saa_allocations b)"
      by (auto split: option.splits)
    then have "declaration_ok d" using 2(4) by (auto simp: find_Some_iff)
    then have "list_all (\<lambda>u. sau_payout_account u \<noteq> 0) (saa_allocations b)"
      using all by (force simp: list_all_iff allocation_valid_def declaration_ok_def list_ex_iff)
    moreover have "unat (sl_replicas l) \<le> 16"
      using 2(3) by (simp add: word_le_nat_alt MAX_STORAGE_LEASE_REPLICAS_def)
    then have "length (saa_allocations b) \<le> 320" using len by simp
    ultimately show ?thesis using True by (simp add: assignment_ok_def)
  qed (use 2 in auto)
qed simp

lemma capacity_payout: "ComputeAcceptedStorageCapacity t key p c = Some n \<Longrightarrow> snd (snd key) \<noteq> 0"
  by (auto simp: ComputeAcceptedStorageCapacity_def split: prod.splits if_splits)

lemma term_valid_ok:
  assumes "term_valid st l e t" and "sl_replicas l \<le> MAX_STORAGE_LEASE_REPLICAS" and "check_accounts st (accounts st) = StateValidationError.NONE"
  shows "term_ok t"
proof -
  from assms(1) obtain budget where d: "declarations_valid st l t 0 0 (ft_declarations t)" "assignments_valid st l t 0 0 (ft_assignments t)"
    and n: "length (ft_declarations t) \<le> U32_COUNT_MAX" "length (ft_assignments t) \<le> U32_COUNT_MAX" "length (ft_service_payments t) \<le> U32_COUNT_MAX"
    and p: "list_all (payment_valid st l t budget) (ft_service_payments t)"
    by (auto simp: term_valid_def split: option.splits)
  note dok = declarations_valid_ok [OF d(1) assms(3)]
  have "list_all (\<lambda>e. ssp_payout_account e \<noteq> 0) (ft_service_payments t)"
    using p by (auto simp: list_all_iff payment_valid_def payment_key_def dest!: bspec capacity_payout)
  then show ?thesis using n dok assignments_valid_ok [OF d(2) assms(2) dok] by (simp add: term_ok_def list_all_iff)
qed

lemma lease_valid_ok:
  assumes "lease_valid st i l" and acc: "check_accounts st (accounts st) = StateValidationError.NONE"
  shows "lease_ok (i, l)"
proof -
  have "terms_valid st l e ts \<Longrightarrow> list_all term_ok ts" if "sl_replicas l \<le> MAX_STORAGE_LEASE_REPLICAS" for e ts
    by (induction ts arbitrary: e) (use that acc term_valid_ok in auto)
  with assms show ?thesis
    by (auto simp: lease_valid_def lease_ok_def dest: valid_account_nonzero)
qed

lemma valid_names_ok:
  assumes v: "registry_names_valid st" and wf: "maps_wf st" and acc: "check_accounts st (accounts st) = StateValidationError.NONE"
    and len: "length (accounts st) \<le> MAX_IDENTITY_REGISTRY_ACCOUNTS"
  shows "names_ok (names st)"
proof -
  let ?ns = "nr_names (names st)" and ?an = "account_names (names st)"
  have w: "omap_wf ?ns" "omap_wf ?an" "omap_wf (pending_commits (names st))" "omap_wf (accounts st)" using wf by (simp_all add: maps_wf_def)
  have nv: "name_valid st label a" if "(label, a) \<in> set ?ns" for label a
    using v that by (auto simp: registry_names_valid_def list_all_iff)
  have "prod.swap ` set ?ns \<subseteq> set ?an"
    using nv by (auto simp: name_valid_def map_find_iff_set [OF w(2)])
  moreover have card: "card (set ?ns) = length ?ns" "card (set ?an) = length ?an" "card (set (accounts st)) = length (accounts st)"
    "card (fst ` set ?an) = length ?an" "card (fst ` set (accounts st)) = length (accounts st)"
    using omap_wf_distinct [OF w(1)] omap_wf_distinct [OF w(2)] omap_wf_distinct [OF w(4)]
    by (auto simp: distinct_card distinct_map card_image)
  moreover have "card (prod.swap ` set ?ns) = card (set ?ns)" by (intro card_image) simp
  ultimately have swap: "prod.swap ` set ?ns = set ?an"
    using v by (intro card_subset_eq) (simp_all add: registry_names_valid_def)
  have "fst ` set ?an \<subseteq> fst ` set (accounts st)"
  proof
    fix a assume "a \<in> fst ` set ?an"
    then obtain label where "(label, a) \<in> set ?ns" unfolding swap [symmetric] by auto
    from nv [OF this] show "a \<in> fst ` set (accounts st)"
      by (force simp: name_valid_def map_contains_iff dest!: map_find_in_set)
  qed
  then have small: "length ?an \<le> 1000000"
    using card card_mono [of "fst ` set (accounts st)" "fst ` set ?an"] len by (simp add: MAX_IDENTITY_REGISTRY_ACCOUNTS_def)
  have "list_all name_entry_ok ?ns"
  proof -
    have "label_syntax label \<and> a \<noteq> 0" if "(label, a) \<in> set ?ns" for label a
      using nv [OF that] valid_account_nonzero [OF acc] ValidateNameLabel_iff [of label] by (auto simp: name_valid_def)
    then show ?thesis by (auto simp: list_all_iff name_entry_ok_def)
  qed
  moreover have "list_all (\<lambda>(label, a). map_find ?an a = Some label) ?ns"
    using nv by (auto simp: list_all_iff name_valid_def)
  moreover have "list_all (\<lambda>(a, label). map_find ?ns label = Some a) ?an"
    unfolding list_all_iff swap [symmetric] by (auto simp: map_find_iff_set [OF w(1)])
  moreover have "list_all (\<lambda>(commit, r). commit \<noteq> 0 \<and> ncr_account_id r \<noteq> 0) (pending_commits (names st))"
    using v valid_account_nonzero [OF acc] by (auto simp: registry_names_valid_def list_all_iff)
  ultimately show ?thesis using w v small by (simp add: names_ok_def registry_names_valid_def DEFAULT_MAX_PENDING_NAME_COMMITS_def)
qed

lemma valid_allocation_ok:
  assumes "registry_names_valid st" and "check_accounts st (accounts st) = StateValidationError.NONE"
  shows "list_all allocation_ok (genesis_allocations st)" and "length (genesis_allocations st) \<le> 16"
proof -
  have "allocation_ok (i, a)" if "(i, a) \<in> set (genesis_allocations st)" for i a
  proof -
    have "allocation_label_valid st a" using assms(1) that by (auto simp: registry_names_valid_def list_all_iff)
    then show ?thesis
      using ValidateNameLabel_iff [of "ga_label a"] label_syntax_length [of "ga_label a"] valid_account_nonzero [OF assms(2)]
      by (auto simp: allocation_label_valid_def allocation_ok_def split: option.splits)
  qed
  then show "list_all allocation_ok (genesis_allocations st)" by (auto simp: list_all_iff)
  show "length (genesis_allocations st) \<le> 16"
    using assms(1) by (simp add: registry_names_valid_def MAX_GENESIS_ALLOCATIONS_def)
qed


section \<open>The round trip\<close>

lemma sized_field: "length f \<le> U32_COUNT_MAX \<Longrightarrow> rBytes (unat (of_nat (length f) :: u32)) (f @ r) = Some (f, r)"
  by (simp add: unsigned_of_nat take_bit_nat_eq_self rBytes_def U32_COUNT_MAX_def)

lemma state_dec_enc:
  assumes ser: "SerializeCybouState C st True = Some bs" and wf: "maps_wf st"
    and small: "length (publications st) < 2 ^ 32" "length (leases st) < 2 ^ 32"
  shows "DeserializeCybouState C bs = Some st"
proof -
  obtain ids where v: "ValidateCybouState C st = StateValidationError.NONE" and ids: "SerializeIdentityRegistry C (identities st) = Some ids"
    and sz: "length ids \<le> U32_COUNT_MAX" "length (SerializeNameRegistry (names st)) \<le> U32_COUNT_MAX"
    and found: "\<not> list_ex (\<lambda>(i, a). i = 0 \<or> Registry_Find (identities st) i = None) (accounts st)"
    and bs: "bs = counted account_enc (accounts st) @ le_bytes 4 (of_nat (length ids) :: u32) @ ids
        @ le_bytes 4 (of_nat (length (SerializeNameRegistry (names st))) :: u32) @ SerializeNameRegistry (names st)
        @ counted allocation_enc (genesis_allocations st) @ counted publication_enc (publications st)
        @ le_bytes 8 (next_period (settlement st)) @ le_bytes 8 (next_period_start_utc (settlement st)) @ counted lease_enc (leases st)"
    using ser by (auto simp: SerializeCybouState_def Let_def not_less split: if_splits option.splits)
  have w: "omap_wf (accounts st)" "omap_wf (genesis_allocations st)" "omap_wf (publications st)" "omap_wf (leases st)"
    "omap_wf (m_accounts (identities st))" "omap_wf (m_recovery_index (identities st))"
    using wf by (simp_all add: maps_wf_def)
  have V: "length (accounts st) \<le> MAX_IDENTITY_REGISTRY_ACCOUNTS" "length (accounts st) = length (m_accounts (identities st))"
    "check_accounts st (accounts st) = StateValidationError.NONE" "registry_names_valid st" "publications_valid st" "leases_valid st"
    using v by (simp_all add: ValidateCybouState_NONE_iff)
  note nz = valid_account_nonzero [OF V(3)]
  have "\<And>r. read_counted_map account_dec MAX_IDENTITY_REGISTRY_ACCOUNTS 72 (counted account_enc (accounts st) @ r) = Some (accounts st, r)"
    using V(1) w(1) found by (auto simp: acct.read_counted_map_iff MAX_IDENTITY_REGISTRY_ACCOUNTS_def list_ex_iff list_all_iff)
  moreover have "DeserializeIdentityRegistry C ids = Some (identities st)" by (rule identity_registry_dec_enc [OF ids w(5,6)])
  moreover have "DeserializeNameRegistry (SerializeNameRegistry (names st)) = Some (names st)"
    by (rule name_registry_dec_enc [OF valid_names_ok [OF V(4) wf V(3,1)]])
  moreover have "\<And>r. rU32 (counted allocation_enc (genesis_allocations st) @ r) =
      Some (of_nat (length (genesis_allocations st)), concat (map allocation_enc (genesis_allocations st)) @ r)"
    by (simp add: counted_def r_evals)
  moreover have "unat (of_nat (length (genesis_allocations st)) :: u32) = length (genesis_allocations st)"
    using valid_allocation_ok(2) [OF V(4,3)] by (simp add: unsigned_of_nat take_bit_nat_eq_self)
  moreover have "\<And>r. read_map allocation_dec (length (genesis_allocations st)) None (concat (map allocation_enc (genesis_allocations st)) @ r) []
      = Some (genesis_allocations st, r)"
    using valid_allocation_ok(1) [OF V(4,3)] w(2) by (simp add: alloc.read_map_iff)
  moreover have "\<And>r. read_counted_map publication_dec U32_COUNT_MAX 108 (counted publication_enc (publications st) @ r) = Some (publications st, r)"
    using V(5) w(3) small nz by (auto simp: publ.read_counted_map_iff U32_COUNT_MAX_def publications_valid_def list_all_iff)
  moreover have "read_counted_map lease_dec U32_COUNT_MAX 105 (counted lease_enc (leases st)) = Some (leases st, [])"
    using V(6) w(4) small lease_valid_ok [OF _ V(3)] lse.read_counted_map_iff [of U32_COUNT_MAX "counted lease_enc (leases st)" "leases st" "[]"]
    by (auto simp: U32_COUNT_MAX_def leases_valid_def list_all_iff)
  moreover have "\<not> list_ex (\<lambda>(i, a). Registry_Find (identities st) i = None) (accounts st)" using found by (auto simp: list_ex_iff)
  moreover have "length (genesis_allocations st) \<le> MAX_GENESIS_ALLOCATIONS"
    using valid_allocation_ok(2) [OF V(4,3)] by (simp add: MAX_GENESIS_ALLOCATIONS_def)
  moreover have surj: "\<lparr> accounts = accounts st, identities = identities st, names = names st, genesis_allocations = genesis_allocations st,
      publications = publications st, settlement = \<lparr> next_period = next_period (settlement st),
        next_period_start_utc = next_period_start_utc (settlement st) \<rparr>, leases = leases st \<rparr> = st" by simp
  ultimately show ?thesis using v V(2) sz
    unfolding DeserializeCybouState_def bs by (simp add: r_evals sized_field surj)
qed

end
