(* ===== verification/Executor.thy ===== *)
theory Executor
  imports StateRoot
begin

text \<open>
  The block executor (\<^verbatim>\<open>block_executor.h/.cpp\<close>): operations applied one after the other to a copy of the
  parent state, then validation, the supply check and the state root. Shown here: no operation changes the supply,
  so the supply check never fails; the executed block is deterministic in the parent, the operations and the height;
  and the account-creation budget of a block is respected.
\<close>

section \<open>The executor\<close>

datatype BlockExecutionError = NONE | TOO_MANY_ACCOUNT_CREATES | INVALID_ACCOUNT_CREATE | INVALID_PAYMENT
  | INVALID_IDENTITY_ROTATE | INVALID_SYSTEM_LOCK | INVALID_NAME_COMMIT | INVALID_NAME_REVEAL | INVALID_ROOT_PUBLICATION
  | INVALID_REVOKE_PUBLICATION | INVALID_STORAGE_LEASE | INVALID_STORAGE_SETTLEMENT | SUPPLY_CHANGED | INVALID_STATE

text \<open>The detail of a failure: the one error field the code fills in besides \<^verbatim>\<open>error\<close>.\<close>

datatype error_detail = NoDetail | CreateDetail AccountCreateStateError | PaymentDetail PaymentError
  | IdentityDetail IdentityRegistryError | LockDetail SystemLockError | NameCommitDetail NameCommitError
  | NameRevealDetail NameRevealError | PublicationDetail RootPublicationError | RevokeDetail RevokePublicationError
  | LeaseDetail StorageLeaseError | SettlementDetail StorageSettlementError

record BlockExecutionResult =
  ber_error :: BlockExecutionError
  ber_failed_operation_index :: nat
  ber_detail :: error_detail
  ber_state :: "CybouState option"
  ber_state_root :: "hash256 option"

definition empty_result :: BlockExecutionResult where
  "empty_result = \<lparr> ber_error = NONE, ber_failed_operation_index = 0, ber_detail = NoDetail, ber_state = None, ber_state_root = None \<rparr>"

definition fail_result :: "BlockExecutionError \<Rightarrow> error_detail \<Rightarrow> BlockExecutionResult" where
  "fail_result e d = empty_result \<lparr> ber_error := e, ber_detail := d \<rparr>"

definition IsOk :: "BlockExecutionResult \<Rightarrow> bool" where
  "IsOk r \<longleftrightarrow> ber_error r = NONE"

record BlockExecutor =
  m_parent :: CybouState
  m_candidate :: CybouState
  m_network_binding :: hash256
  m_block_height :: u64
  m_verified_parent_id :: hash256
  m_initial_supply :: u64
  m_account_creates :: nat
  m_params :: CybouProtocolParameters
  m_poa_key :: "IdentityHybridPublicKey option"
  m_valid :: bool
  m_init_error :: BlockExecutionError

text \<open>\<^verbatim>\<open>std::erase_if\<close> on the pending commits.\<close>

definition expire_commits :: "u64 \<Rightarrow> CybouProtocolParameters \<Rightarrow> CybouState \<Rightarrow> CybouState" where
  "expire_commits height params st =
     (if name_commit_max_lifetime params > 0 then st \<lparr> names := (names st) \<lparr> pending_commits :=
        filter (\<lambda>(c, r). \<not> (height > ncr_commit_height r \<and> height - ncr_commit_height r > name_commit_max_lifetime params))
          (pending_commits (names st)) \<rparr> \<rparr>
      else st)"

definition new_executor :: "crypto \<Rightarrow> CybouState \<Rightarrow> hash256 \<Rightarrow> u64 \<Rightarrow> CybouProtocolParameters \<Rightarrow> IdentityHybridPublicKey option \<Rightarrow> hash256
    \<Rightarrow> BlockExecutor" where
  "new_executor C parent network_binding block_height params poa_key verified_parent_id =
     (let x = \<lparr> m_parent = parent, m_candidate = parent, m_network_binding = network_binding, m_block_height = block_height,
                m_verified_parent_id = verified_parent_id, m_initial_supply = 0, m_account_creates = 0, m_params = params,
                m_poa_key = poa_key, m_valid = False, m_init_error = NONE \<rparr> in
      if ValidateCybouState C parent \<noteq> StateValidationError.NONE then x \<lparr> m_init_error := INVALID_STATE \<rparr>
      else x \<lparr> m_initial_supply := TotalCybou parent, m_candidate := expire_commits block_height params parent, m_valid := True \<rparr>)"

text \<open>The dispatch on the kind of operation: the handler's outcome as \<^verbatim>\<open>(error, detail)\<close>, with the candidate it leaves.\<close>

definition outcome :: "'e \<Rightarrow> BlockExecutionError \<Rightarrow> ('e \<Rightarrow> error_detail) \<Rightarrow> 'e \<times> CybouState
    \<Rightarrow> (BlockExecutionError \<times> error_detail) \<times> CybouState" where
  "outcome ok err detail r = (if fst r = ok then (NONE, NoDetail) else (err, detail (fst r)), snd r)"

definition dispatch :: "crypto \<Rightarrow> BlockExecutor \<Rightarrow> ProtocolOperation \<Rightarrow> exn + ((BlockExecutionError \<times> error_detail) \<times> CybouState)" where
  "dispatch C x operation =
     (let st = m_candidate x; nb = m_network_binding x; h = m_block_height x; params = m_params x in
      case operation of
        OpAccountCreate create \<Rightarrow>
          if m_account_creates x \<ge> unat (max_account_creates_per_block params) then Inr ((TOO_MANY_ACCOUNT_CREATES, NoDetail), st)
          else Inr (outcome AccountCreateStateError.NONE INVALID_ACCOUNT_CREATE CreateDetail (ApplyAccountCreate C create nb h params st))
      | OpPayment payment \<Rightarrow> Inr (outcome PaymentError.NONE INVALID_PAYMENT PaymentDetail (ApplyPayment C payment nb params st))
      | OpIdentityRotate rot \<Rightarrow>
          (let (e, registry) = RotateIdentity C rot nb (identities st)
           in Inr (outcome IdentityRegistryError.NONE INVALID_IDENTITY_ROTATE IdentityDetail (e, st \<lparr> identities := registry \<rparr>)))
      | OpSystemLock lock \<Rightarrow> Inr (outcome SystemLockError.NONE INVALID_SYSTEM_LOCK LockDetail (ApplySystemLock C lock nb st))
      | OpNameCommit commit \<Rightarrow> bindE (ApplyNameCommit C commit nb h params st) (\<lambda>r.
          Inr (outcome NameCommitError.NONE INVALID_NAME_COMMIT NameCommitDetail r))
      | OpNameReveal reveal \<Rightarrow> bindE (ApplyNameReveal C reveal nb h params st) (\<lambda>r.
          Inr (outcome NameRevealError.NONE INVALID_NAME_REVEAL NameRevealDetail r))
      | OpRootPublication publication \<Rightarrow> bindE (ApplyRootPublication C publication nb params st) (\<lambda>r.
          Inr (outcome RootPublicationError.NONE INVALID_ROOT_PUBLICATION PublicationDetail r))
      | OpRevokePublication revoke \<Rightarrow>
          Inr (outcome RevokePublicationError.NONE INVALID_REVOKE_PUBLICATION RevokeDetail (ApplyRevokePublication C revoke nb params st))
      | OpStorageLease lease \<Rightarrow> bindE (ApplyStorageLease C lease nb params st) (\<lambda>r.
          Inr (outcome StorageLeaseError.NONE INVALID_STORAGE_LEASE LeaseDetail r))
      | OpStorageSettlement op \<Rightarrow>
          (case m_poa_key x of
             None \<Rightarrow> Inr ((INVALID_STORAGE_SETTLEMENT, SettlementDetail StorageSettlementError.INVALID_SIGNATURE), st)
           | Some key \<Rightarrow> bindE (ApplyStorageSettlement C op nb params key st h (m_verified_parent_id x)) (\<lambda>r.
               Inr (outcome StorageSettlementError.NONE INVALID_STORAGE_SETTLEMENT SettlementDetail r))))"

definition executor_fail :: "BlockExecutor \<Rightarrow> BlockExecutionError \<Rightarrow> error_detail \<Rightarrow> BlockExecutionResult \<times> BlockExecutor" where
  "executor_fail x e d = (fail_result e d, x \<lparr> m_valid := False \<rparr>)"

text \<open>The part of \<^verbatim>\<open>ApplyOperation\<close> after a successful handler.\<close>

definition finish_operation :: "crypto \<Rightarrow> ProtocolOperation \<Rightarrow> BlockExecutor \<Rightarrow> exn + (BlockExecutionResult \<times> BlockExecutor)" where
  "finish_operation C operation x =
     (case operation of
        OpRootPublication publication_op \<Rightarrow>
          bindE (ComputeOperationId C operation) (\<lambda>i. case i of
              None \<Rightarrow> Inr (executor_fail x INVALID_STATE NoDetail)
            | Some pid \<Rightarrow>
              case RecordPublication (m_candidate x) pid (ioa_account_id (arp_authorization publication_op))
                    (rp_chunk_authorization_root (arp_publication publication_op))
                    (rp_chunk_count (arp_publication publication_op)) (m_block_height x) of
                (recorded, st) \<Rightarrow>
                  if \<not> recorded then Inr (executor_fail x INVALID_STATE NoDetail)
                  else Inr (empty_result, x \<lparr> m_candidate := st \<rparr>))
      | OpAccountCreate _ \<Rightarrow> Inr (empty_result, x \<lparr> m_account_creates := m_account_creates x + 1 \<rparr>)
      | _ \<Rightarrow> Inr (empty_result, x))"

definition ApplyOperation :: "crypto \<Rightarrow> ProtocolOperation \<Rightarrow> BlockExecutor \<Rightarrow> exn + (BlockExecutionResult \<times> BlockExecutor)" where
  "ApplyOperation C operation x =
     (if \<not> m_valid x then Inr (executor_fail x (m_init_error x) NoDetail)
      else bindE (dispatch C x operation) (\<lambda>((e, d), st).
        if e \<noteq> NONE then Inr (executor_fail (x \<lparr> m_candidate := st \<rparr>) e d)
        else finish_operation C operation (x \<lparr> m_candidate := st \<rparr>)))"

definition CanFinalize :: "crypto \<Rightarrow> BlockExecutor \<Rightarrow> bool" where
  "CanFinalize C x \<longleftrightarrow> m_valid x \<and> ValidateCybouState C (m_candidate x) = StateValidationError.NONE
     \<and> TotalCybou (m_candidate x) = m_initial_supply x"

definition Finalize :: "crypto \<Rightarrow> BlockExecutor \<Rightarrow> BlockExecutionResult" where
  "Finalize C x =
     (if \<not> m_valid x then fail_result (m_init_error x) NoDetail
      else if ValidateCybouState C (m_candidate x) \<noteq> StateValidationError.NONE then fail_result INVALID_STATE NoDetail
      else if TotalCybou (m_candidate x) \<noteq> m_initial_supply x then fail_result SUPPLY_CHANGED NoDetail
      else case CybouStateHash C (m_candidate x) False of None \<Rightarrow> fail_result INVALID_STATE NoDetail
      | Some root \<Rightarrow> empty_result \<lparr> ber_state := Some (m_candidate x), ber_state_root := Some root \<rparr>)"

definition StorageAssignmentSeed :: "BlockExecutor \<Rightarrow> u64 \<Rightarrow> hash256 option" where
  "StorageAssignmentSeed x preparation_height =
     (if \<not> m_valid x \<or> m_verified_parent_id x = 0 \<or> preparation_height > U64_MAX - 2
         \<or> m_block_height x \<noteq> preparation_height + 2 then None else Some (m_verified_parent_id x))"

fun apply_operations :: "crypto \<Rightarrow> nat \<Rightarrow> ProtocolOperation list \<Rightarrow> BlockExecutor \<Rightarrow> exn + (BlockExecutionResult + BlockExecutor)" where
  "apply_operations C i [] x = Inr (Inr x)"
| "apply_operations C i (operation # ops) x =
     bindE (ApplyOperation C operation x) (\<lambda>(result, x').
       if \<not> IsOk result then Inr (Inl (result \<lparr> ber_failed_operation_index := i \<rparr>)) else apply_operations C (i + 1) ops x')"

definition is_create :: "ProtocolOperation \<Rightarrow> bool" where
  "is_create operation = (case operation of OpAccountCreate _ \<Rightarrow> True | _ \<Rightarrow> False)"

definition ExecuteBlockOperations :: "crypto \<Rightarrow> CybouState \<Rightarrow> ProtocolOperation list \<Rightarrow> hash256 \<Rightarrow> u64 \<Rightarrow> CybouProtocolParameters
    \<Rightarrow> IdentityHybridPublicKey option \<Rightarrow> hash256 \<Rightarrow> exn + BlockExecutionResult" where
  "ExecuteBlockOperations C parent operations network_binding block_height params poa_key verified_parent_id =
     (if length (filter is_create operations) > unat (max_account_creates_per_block params)
      then Inr (fail_result TOO_MANY_ACCOUNT_CREATES NoDetail)
      else let x = new_executor C parent network_binding block_height params poa_key verified_parent_id in
        if \<not> m_valid x then Inr (fail_result (m_init_error x) NoDetail)
        else bindE (apply_operations C 0 operations x) (\<lambda>r. Inr (case r of Inl result \<Rightarrow> result | Inr x' \<Rightarrow> Finalize C x')))"


section \<open>The contract of a handler\<close>

text \<open>
  What the executor relies on: a handler that reports an error leaves the state alone, and no handler changes the
  supply of a state whose supply is below the overflow value.
\<close>

locale handler =
  fixes step :: "CybouState \<Rightarrow> exn + ('e \<times> CybouState)" and ok :: 'e
  assumes atomic: "step st = Inr (e, st') \<Longrightarrow> e \<noteq> ok \<Longrightarrow> st' = st"
    and conserving: "step st = Inr (e, st') \<Longrightarrow> supply_bounded st \<Longrightarrow> conserves st st'"
begin

lemma outcome_step:
  assumes "bindE (step st) (\<lambda>r. Inr (outcome ok err detail r)) = Inr ((e, d), st')" and "err \<noteq> NONE"
  shows "e \<noteq> NONE \<Longrightarrow> st' = st" and "supply_bounded st \<Longrightarrow> conserves st st'"
  using assms atomic [of st] conserving [of st]
  by (auto simp: bindE_Inr_iff outcome_def split: if_splits)

end

lemma RotateIdentity_wf:
  assumes "RotateIdentity C q nb r = (e, r')"
  shows "omap_wf (m_accounts r) \<Longrightarrow> omap_wf (m_accounts r')" and "omap_wf (m_recovery_index r) \<Longrightarrow> omap_wf (m_recovery_index r')"
  using assms by (auto simp: RotateIdentity_def Let_def split: option.splits if_splits)

definition rotate_step :: "crypto \<Rightarrow> IdentityRotate \<Rightarrow> hash256 \<Rightarrow> CybouState \<Rightarrow> IdentityRegistryError \<times> CybouState" where
  "rotate_step C q nb st = (let (e, registry) = RotateIdentity C q nb (identities st) in (e, st \<lparr> identities := registry \<rparr>))"

interpretation h_create: handler "\<lambda>st. Inr (ApplyAccountCreate C op nb h params st)" AccountCreateStateError.NONE
  by unfold_locales (auto dest: ApplyAccountCreate_fail ApplyAccountCreate_conserves)

interpretation h_payment: handler "\<lambda>st. Inr (ApplyPayment C op nb params st)" PaymentError.NONE
  by unfold_locales (auto dest: ApplyPayment_fail ApplyPayment_conserves)

interpretation h_rotate: handler "\<lambda>st. Inr (rotate_step C q nb st)" IdentityRegistryError.NONE
proof unfold_locales
  fix st e st'
  assume a: "Inr (rotate_step C q nb st) = Inr (e, st')"
  then obtain registry where r: "RotateIdentity C q nb (identities st) = (e, registry)" "st' = st \<lparr> identities := registry \<rparr>"
    by (auto simp: rotate_step_def split: prod.splits)
  show "e \<noteq> IdentityRegistryError.NONE \<Longrightarrow> st' = st" using RotateIdentity_fail [OF r(1)] r(2) by simp
  show "conserves st st'" using RotateIdentity_wf [OF r(1)] r(2) by (simp add: conserves_def maps_wf_def)
qed

interpretation h_lock: handler "\<lambda>st. Inr (ApplySystemLock C op nb st)" SystemLockError.NONE
  by unfold_locales (auto dest: ApplySystemLock_fail ApplySystemLock_conserves)

interpretation h_commit: handler "\<lambda>st. ApplyNameCommit C op nb h params st" NameCommitError.NONE
  by unfold_locales (auto dest: ApplyNameCommit_fail ApplyNameCommit_conserves)

interpretation h_reveal: handler "\<lambda>st. ApplyNameReveal C op nb h params st" NameRevealError.NONE
  by unfold_locales (auto dest: ApplyNameReveal_fail ApplyNameReveal_conserves)

interpretation h_publish: handler "\<lambda>st. ApplyRootPublication C op nb params st" RootPublicationError.NONE
  by unfold_locales (auto dest: ApplyRootPublication_fail ApplyRootPublication_conserves)

interpretation h_revoke: handler "\<lambda>st. Inr (ApplyRevokePublication C op nb params st)" RevokePublicationError.NONE
  by unfold_locales (auto dest: ApplyRevokePublication_fail ApplyRevokePublication_conserves)

interpretation h_lease: handler "\<lambda>st. ApplyStorageLease C op nb params st" StorageLeaseError.NONE
  by unfold_locales (auto dest: ApplyStorageLease_fail ApplyStorageLease_conserves)

interpretation h_settle: handler "\<lambda>st. ApplyStorageSettlement C op nb params key st h parent" StorageSettlementError.NONE
  by unfold_locales (auto dest: ApplyStorageSettlement_fail ApplyStorageSettlement_conserves)


section \<open>Every operation of a block\<close>

lemma dispatch_step:
  assumes "dispatch C x operation = Inr ((e, d), st')"
  shows "e \<noteq> NONE \<Longrightarrow> st' = m_candidate x" and "supply_bounded (m_candidate x) \<Longrightarrow> conserves (m_candidate x) st'"
proof -
  have "(e \<noteq> NONE \<longrightarrow> st' = m_candidate x) \<and> (supply_bounded (m_candidate x) \<longrightarrow> conserves (m_candidate x) st')"
  proof (cases operation)
    case (OpAccountCreate op)
    then show ?thesis
      using assms h_create.outcome_step [of C op "m_network_binding x" "m_block_height x" "m_params x" "m_candidate x"
          INVALID_ACCOUNT_CREATE CreateDetail e d st']
      by (auto simp: dispatch_def Let_def split: if_splits)
  next
    case (OpPayment op)
    then show ?thesis
      using assms h_payment.outcome_step [of C op "m_network_binding x" "m_params x" "m_candidate x" INVALID_PAYMENT PaymentDetail e d st']
      by (auto simp: dispatch_def Let_def)
  next
    case (OpIdentityRotate op)
    then show ?thesis
      using assms h_rotate.outcome_step [of C op "m_network_binding x" "m_candidate x" INVALID_IDENTITY_ROTATE IdentityDetail e d st']
      by (auto simp: dispatch_def Let_def rotate_step_def split: prod.splits)
  next
    case (OpSystemLock op)
    then show ?thesis
      using assms h_lock.outcome_step [of C op "m_network_binding x" "m_candidate x" INVALID_SYSTEM_LOCK LockDetail e d st']
      by (auto simp: dispatch_def Let_def)
  next
    case (OpNameCommit op)
    then show ?thesis
      using assms h_commit.outcome_step [of C op "m_network_binding x" "m_block_height x" "m_params x" "m_candidate x"
          INVALID_NAME_COMMIT NameCommitDetail e d st']
      by (auto simp: dispatch_def Let_def)
  next
    case (OpNameReveal op)
    then show ?thesis
      using assms h_reveal.outcome_step [of C op "m_network_binding x" "m_block_height x" "m_params x" "m_candidate x"
          INVALID_NAME_REVEAL NameRevealDetail e d st']
      by (auto simp: dispatch_def Let_def)
  next
    case (OpRootPublication op)
    then show ?thesis
      using assms h_publish.outcome_step [of C op "m_network_binding x" "m_params x" "m_candidate x"
          INVALID_ROOT_PUBLICATION PublicationDetail e d st']
      by (auto simp: dispatch_def Let_def)
  next
    case (OpRevokePublication op)
    then show ?thesis
      using assms h_revoke.outcome_step [of C op "m_network_binding x" "m_params x" "m_candidate x"
          INVALID_REVOKE_PUBLICATION RevokeDetail e d st']
      by (auto simp: dispatch_def Let_def)
  next
    case (OpStorageLease op)
    then show ?thesis
      using assms h_lease.outcome_step [of C op "m_network_binding x" "m_params x" "m_candidate x"
          INVALID_STORAGE_LEASE LeaseDetail e d st']
      by (auto simp: dispatch_def Let_def)
  next
    case (OpStorageSettlement op)
    then show ?thesis
      using assms h_settle.outcome_step [of C op "m_network_binding x" "m_params x" _ "m_candidate x" "m_block_height x"
          "m_verified_parent_id x" INVALID_STORAGE_SETTLEMENT SettlementDetail e d st']
      by (cases "m_poa_key x") (auto simp: dispatch_def Let_def)
  qed
  then show "e \<noteq> NONE \<Longrightarrow> st' = m_candidate x" and "supply_bounded (m_candidate x) \<Longrightarrow> conserves (m_candidate x) st'" by auto
qed

section \<open>Reachable executors\<close>

text \<open>The states of an executor between its construction and its finalization.\<close>

inductive executor_reach :: "crypto \<Rightarrow> BlockExecutor \<Rightarrow> BlockExecutor \<Rightarrow> bool" for C x0 where
  start: "executor_reach C x0 x0"
| apply_op: "executor_reach C x0 x \<Longrightarrow> ApplyOperation C operation x = Inr (r, x') \<Longrightarrow> executor_reach C x0 x'"

definition executor_inv :: "BlockExecutor \<Rightarrow> bool" where
  "executor_inv x \<longleftrightarrow> maps_wf (m_candidate x) \<and> supply_bounded (m_candidate x)
     \<and> unat (m_initial_supply x) = money_supply (m_candidate x) \<and> m_init_error x = NONE
     \<and> m_account_creates x \<le> unat (max_account_creates_per_block (m_params x))"

lemma executor_inv_conserves:
  "executor_inv x \<Longrightarrow> conserves (m_candidate x) st \<Longrightarrow> executor_inv (x \<lparr> m_candidate := st \<rparr>)"
  "executor_inv x \<Longrightarrow> conserves (m_candidate x) st \<Longrightarrow> executor_inv (x \<lparr> m_candidate := st, m_valid := b \<rparr>)"
  "executor_inv x \<Longrightarrow> conserves (m_candidate x) st \<Longrightarrow> n \<le> unat (max_account_creates_per_block (m_params x)) \<Longrightarrow>
   executor_inv (x \<lparr> m_candidate := st, m_account_creates := n \<rparr>)"
  by (auto simp: executor_inv_def conserves_def supply_bounded_def)

text \<open>\<open>results P\<close> holds of a computation when \<open>P\<close> holds of what it returns, if it returns.\<close>

definition results :: "('a \<Rightarrow> bool) \<Rightarrow> exn + 'a \<Rightarrow> bool" where
  "results P m \<longleftrightarrow> (\<forall>a. m = Inr a \<longrightarrow> P a)"

lemma results_intros:
  "results P (Inl x)" "P a \<Longrightarrow> results P (Inr a)"
  "(b \<Longrightarrow> results P m) \<Longrightarrow> (\<not> b \<Longrightarrow> results P n) \<Longrightarrow> results P (if b then m else n)"
  "(opt = None \<Longrightarrow> results P m) \<Longrightarrow> (\<And>a. opt = Some a \<Longrightarrow> results P (f a)) \<Longrightarrow> results P (case opt of None \<Rightarrow> m | Some a \<Rightarrow> f a)"
  "(\<And>a b. p = (a, b) \<Longrightarrow> results P (h a b)) \<Longrightarrow> results P (case p of (a, b) \<Rightarrow> h a b)"
  "(\<And>a. k = Inr a \<Longrightarrow> results P (l a)) \<Longrightarrow> results P (bindE k l)"
  by (auto simp: results_def bindE_Inr_iff split: option.split prod.split)

lemma executor_fail_inv: "executor_inv x \<Longrightarrow> executor_fail x e d = (r, x') \<Longrightarrow> ber_state r = None \<and> executor_inv x'"
  by (auto simp: executor_fail_def executor_inv_def fail_result_def empty_result_def)

lemma finish_operation_results:
  assumes inv: "executor_inv x"
    and cr: "is_create operation \<Longrightarrow> m_account_creates x + 1 \<le> unat (max_account_creates_per_block (m_params x))"
  shows "results (\<lambda>(r, x'). ber_state r = None \<and> executor_inv x') (finish_operation C operation x)"
proof -
  have base: "ber_state empty_result = None" by (simp add: empty_result_def)
  have failed: "(\<lambda>(r, x'). ber_state r = None \<and> executor_inv x') (executor_fail x e d)" for e d
    using executor_fail_inv [OF inv] by (cases "executor_fail x e d") auto
  have rec: "executor_inv (x \<lparr> m_candidate := st \<rparr>)" if "RecordPublication (m_candidate x) pid ow rt n h = (b, st)" for pid ow rt n h b st
    by (rule executor_inv_conserves(1) [OF inv RecordPublication_conserves [OF that]])
  show ?thesis
  proof (cases operation)
    case (OpRootPublication op)
    show ?thesis unfolding finish_operation_def OpRootPublication ProtocolOperation.case
      by (rule results_intros failed)+ (auto simp: base intro: rec)
  next
    case (OpAccountCreate op)
    then show ?thesis using inv cr by (simp add: finish_operation_def results_def base is_create_def executor_inv_def)
  qed (use inv in \<open>simp_all add: finish_operation_def results_def base\<close>)
qed

lemma ApplyOperation_results:
  assumes inv: "executor_inv x"
  shows "results (\<lambda>(r, x'). ber_state r = None \<and> executor_inv x') (ApplyOperation C operation x)"
  unfolding ApplyOperation_def
proof (rule results_intros)
  show "results (\<lambda>(r, x'). ber_state r = None \<and> executor_inv x') (Inr (executor_fail x (m_init_error x) NoDetail))"
    using executor_fail_inv [OF inv] by (auto simp: results_def)
  show "results (\<lambda>(r, x'). ber_state r = None \<and> executor_inv x') (bindE (dispatch C x operation) (\<lambda>((e, d), st).
        if e \<noteq> NONE then Inr (executor_fail (x \<lparr> m_candidate := st \<rparr>) e d)
        else finish_operation C operation (x \<lparr> m_candidate := st \<rparr>)))"
  proof (rule results_intros, clarsimp split del: if_split, rule results_intros)
    fix e d st
    assume di: "dispatch C x operation = Inr ((e, d), st)"
    have inv1: "executor_inv (x \<lparr> m_candidate := st \<rparr>)"
      using dispatch_step(2) [OF di] inv by (intro executor_inv_conserves(1)) (simp_all add: executor_inv_def)
    show "results (\<lambda>(r, x'). ber_state r = None \<and> executor_inv x') (Inr (executor_fail (x \<lparr> m_candidate := st \<rparr>) e d))"
      using executor_fail_inv [OF inv1] by (auto simp: results_def)
    assume "\<not> e \<noteq> NONE"
    then have "m_account_creates x + 1 \<le> unat (max_account_creates_per_block (m_params x))" if "is_create operation"
      using di that by (cases operation) (auto simp: dispatch_def Let_def is_create_def split: if_split_asm)
    then show "results (\<lambda>(r, x'). ber_state r = None \<and> executor_inv x') (finish_operation C operation (x \<lparr> m_candidate := st \<rparr>))"
      by (intro finish_operation_results inv1) simp
  qed
qed

lemma ApplyOperation_inv: "executor_inv x \<Longrightarrow> ApplyOperation C operation x = Inr (r, x') \<Longrightarrow> executor_inv x' \<and> ber_state r = None"
  using ApplyOperation_results [of x C operation] by (auto simp: results_def)

lemma expire_commits_conserves: "conserves st (expire_commits h params st)"
  by (simp add: expire_commits_def conserves_def maps_wf_def omap_wf_filter)

lemma new_executor_inv:
  assumes "maps_wf parent" and "m_valid (new_executor C parent nb h params key vp)"
  shows "executor_inv (new_executor C parent nb h params key vp)"
proof -
  have v: "ValidateCybouState C parent = StateValidationError.NONE"
    using assms(2) by (auto simp: new_executor_def Let_def split: if_splits)
  then have b: "supply_bounded parent" by (simp add: ValidateCybouState_NONE_iff)
  then have "unat (TotalCybou parent) = money_supply parent" by (simp add: TotalCybou_exact)
  then show ?thesis using v b assms(1) expire_commits_conserves [of parent h params]
    by (simp add: new_executor_def Let_def executor_inv_def conserves_def supply_bounded_def)
qed

lemma executor_reach_inv: "executor_reach C x0 x \<Longrightarrow> executor_inv x0 \<Longrightarrow> executor_inv x"
  by (induction rule: executor_reach.induct) (auto dest: ApplyOperation_inv)

lemma finish_operation_frame:
  "results (\<lambda>(r, x'). m_initial_supply x' = m_initial_supply x \<and> ber_error r \<in> {NONE, INVALID_STATE}) (finish_operation C operation x)"
  unfolding finish_operation_def
  by (cases operation; simp only: ProtocolOperation.case; (rule results_intros)+)
    (auto simp: executor_fail_def fail_result_def empty_result_def results_def split: prod.split)

lemma ApplyOperation_supply: "ApplyOperation C operation x = Inr (r, x') \<Longrightarrow> m_initial_supply x' = m_initial_supply x"
  using finish_operation_frame [of _ C operation]
  by (auto simp: ApplyOperation_def bindE_Inr_iff executor_fail_def results_def split: if_split_asm)

lemma executor_reach_supply: "executor_reach C x0 x \<Longrightarrow> m_initial_supply x = m_initial_supply x0"
  by (induction rule: executor_reach.induct) (auto dest: ApplyOperation_supply)

lemma apply_operations_reach:
  "apply_operations C i ops x = Inr (Inr x') \<Longrightarrow> executor_reach C x0 x \<Longrightarrow> executor_reach C x0 x'"
proof (induction ops arbitrary: i x)
  case (Cons operation ops)
  from Cons.prems(1) obtain r x1 where "ApplyOperation C operation x = Inr (r, x1)" "apply_operations C (i + 1) ops x1 = Inr (Inr x')"
    by (auto simp: bindE_Inr_iff split: prod.split_asm if_split_asm)
  with Cons show ?case by (auto intro: executor_reach.intros)
qed simp

lemma CanFinalize_iff: "executor_inv x \<Longrightarrow> CanFinalize C x \<longleftrightarrow> m_valid x \<and> ValidateCybouState C (m_candidate x) = StateValidationError.NONE"
  using unsigned_word_eqI [of "TotalCybou (m_candidate x)" "m_initial_supply x", where 'a = nat]
  by (auto simp: CanFinalize_def executor_inv_def TotalCybou_exact)

lemma Finalize_state:
  assumes "ber_state (Finalize C x) = Some st"
  shows "st = m_candidate x" and "m_valid x" and "ValidateCybouState C st = StateValidationError.NONE"
    and "TotalCybou st = m_initial_supply x" and "ber_state_root (Finalize C x) = CybouStateHash C st False"
  using assms by (auto simp: Finalize_def fail_result_def empty_result_def split: if_split_asm option.split_asm)

lemma ExecuteBlockOperations_state:
  assumes "ExecuteBlockOperations C parent ops nb h params key vp = Inr r" and "ber_state r = Some st" and wf: "maps_wf parent"
  obtains x where "executor_reach C (new_executor C parent nb h params key vp) x" "r = Finalize C x"
    "m_valid (new_executor C parent nb h params key vp)"
proof -
  let ?x0 = "new_executor C parent nb h params key vp"
  have fr: "ber_state (fail_result e d) = None" for e d by (simp add: fail_result_def empty_result_def)
  have v: "m_valid ?x0" and "\<exists>a. apply_operations C 0 ops ?x0 = Inr a \<and> r = (case a of Inl result \<Rightarrow> result | Inr x' \<Rightarrow> Finalize C x')"
    using assms by (auto simp: ExecuteBlockOperations_def Let_def bindE_Inr_iff fr split: if_split_asm)
  then obtain a where a: "apply_operations C 0 ops ?x0 = Inr a" "r = (case a of Inl result \<Rightarrow> result | Inr x' \<Rightarrow> Finalize C x')" by blast
  have early: "apply_operations C i ops x = Inr (Inl result) \<Longrightarrow> executor_inv x \<Longrightarrow> ber_state result = None" for i x result
  proof (induction ops arbitrary: i x)
    case (Cons operation ops)
    from Cons.prems(1) obtain r1 x1 where 1: "ApplyOperation C operation x = Inr (r1, x1)"
      "(if \<not> IsOk r1 then Inr (Inl (r1 \<lparr> ber_failed_operation_index := i \<rparr>)) else apply_operations C (i + 1) ops x1) = Inr (Inl result)"
      by (auto simp: bindE_Inr_iff)
    with Cons.IH [of "i + 1" x1] ApplyOperation_inv [OF Cons.prems(2) 1(1)] show ?case by (auto split: if_split_asm)
  qed simp
  obtain x where "a = Inr x" "r = Finalize C x"
    using a assms(2) early [of 0 ?x0] new_executor_inv [OF wf v] by (cases a) auto
  with that v apply_operations_reach [of C 0 ops ?x0 x ?x0] a(1) show thesis by (auto intro: executor_reach.start)
qed

lemma ExecuteBlockOperations_sound:
  assumes "maps_wf parent" and "ExecuteBlockOperations C parent ops nb h params key vp = Inr r" and "ber_state r = Some st"
  shows "ValidateCybouState C st = StateValidationError.NONE \<and> maps_wf st \<and> money_supply st = money_supply parent
    \<and> ber_state_root r = CybouStateHash C st False \<and> ber_error r = BlockExecutionError.NONE"
proof -
  obtain x where x: "executor_reach C (new_executor C parent nb h params key vp) x" "r = Finalize C x"
    and v: "m_valid (new_executor C parent nb h params key vp)"
    using ExecuteBlockOperations_state [OF assms(2,3,1)] by blast
  have inv: "executor_inv x" using executor_reach_inv [OF x(1)] new_executor_inv [OF assms(1) v] by blast
  have "executor_inv (new_executor C parent nb h params key vp)" by (rule new_executor_inv [OF assms(1) v])
  note f = Finalize_state [OF assms(3) [unfolded x(2)]]
  have "m_initial_supply x = TotalCybou parent"
    using executor_reach_supply [OF x(1)] v by (simp add: new_executor_def Let_def split: if_splits)
  moreover have "supply_bounded parent" using v by (auto simp: new_executor_def Let_def ValidateCybouState_NONE_iff split: if_splits)
  ultimately have "money_supply (m_candidate x) = money_supply parent"
    using inv by (simp add: executor_inv_def TotalCybou_exact)
  moreover have "ber_error r = BlockExecutionError.NONE"
    using assms(3) by (auto simp: x(2) Finalize_def fail_result_def empty_result_def split: if_splits option.splits)
  ultimately show ?thesis using f inv by (simp add: x(2) executor_inv_def)
qed

end
