(* ===== verification/Samples.thy ===== *)
theory Samples
  imports Executor
begin

text \<open>
  A small network on which the theorems about operations and blocks are exercised: two accounts, an unclaimed
  treasury allocation, and operations that succeed. The cryptographic library is instantiated by \<open>tail_crypto\<close>:
  the hash is the last byte plus one, every key imports and every signature verifies.
\<close>

definition tail_hash :: "bytes \<Rightarrow> hash256" where
  "tail_hash bs = (if bs = [] then 1 else ucast (last bs) + 1)"

definition tail_crypto :: crypto where
  "tail_crypto = \<lparr> evp_sha256 = (\<lambda>bs. Some (tail_hash bs)), evp_import = (\<lambda>_ _. True),
     evp_verify = (\<lambda>_ _ _ _. True), evp_derive = (\<lambda>a b. Some a), blake3 = tail_hash \<rparr>"

definition sample_key :: "IdentityKeyPurpose \<Rightarrow> byte \<Rightarrow> IdentityHybridPublicKey" where
  "sample_key p n = \<lparr> purpose = p, pk_ed25519 = 1, pk_ml_dsa = replicate (PublicSize p - 1) 0 @ [n] \<rparr>"

definition sample_sig :: "IdentityKeyPurpose \<Rightarrow> IdentityHybridSignature" where
  "sample_sig p = \<lparr> sig_ed25519 = 1, sig_ml_dsa = replicate (SignatureSize p) 1 \<rparr>"

definition sample_identity :: "byte \<Rightarrow> IdentityRecord" where
  "sample_identity n = \<lparr> ir_recovery_key = sample_key RECOVERY_ROOT n, ir_authorization_key = sample_key AUTHORIZATION n,
     ir_kem_package_id = 1, ir_nonce = 0, ir_key_epoch = 0 \<rparr>"

definition sample_state :: CybouState where
  "sample_state = \<lparr>
     accounts = [(1, \<lparr> balance = 100, system_balance = 50000, onboarding_system_balance = 5, creation_height = 0, creation_epoch = 0 \<rparr>),
                 (2, \<lparr> balance = 10, system_balance = 0, onboarding_system_balance = 0, creation_height = 0, creation_epoch = 0 \<rparr>)],
     identities = \<lparr> m_accounts = [(1, sample_identity 1), (2, sample_identity 2)], m_recovery_index = [(2, 1), (3, 2)] \<rparr>,
     names = \<lparr> nr_names = [], account_names = [], pending_commits = [] \<rparr>,
     genesis_allocations = [(9, \<lparr> ga_balance = 100000, ga_label = CENTRAL_AUTHORITY_NAME, ga_claimed_by = None \<rparr>)],
     publications = [], settlement = \<lparr> next_period = 0, next_period_start_utc = 0 \<rparr>, leases = [] \<rparr>"

definition sample_auth :: "IdentityOperationKind \<Rightarrow> IdentityKeyId \<Rightarrow> IdentityOperationAuthorization" where
  "sample_auth kind commitment = \<lparr> ioa_account_id = 1, ioa_nonce = 0, ioa_key_epoch = 0, ioa_kind = kind,
     ioa_payload_commitment = commitment, ioa_signature = sample_sig AUTHORIZATION \<rparr>"

definition sample_payment :: AuthorizedPayment where
  "sample_payment = \<lparr> ap_authorization = sample_auth PAYMENT 1, ap_payment = \<lparr> pay_recipient = 2, pay_amount = 30 \<rparr> \<rparr>"


section \<open>Evaluation\<close>

lemma tail_hash_nonzero [simp]: "tail_hash bs \<noteq> 0"
proof -
  have "unat (ucast b + 1 :: 256 word) \<noteq> 0" for b :: byte
  proof -
    have "unat (ucast b :: 256 word) < 256" using unsigned_less [of b, where 'a = nat] by (simp add: unsigned_ucast_eq take_bit_nat_eq_self)
    then show ?thesis by (subst unat_add_fits) auto
  qed
  then show ?thesis by (metis tail_hash_def unsigned_0 zero_neq_one)
qed

lemma bytes_nonempty [simp]: "le_bytes n w = [] \<longleftrightarrow> n = 0" "be_bytes n w = [] \<longleftrightarrow> n = 0"
  by (simp_all flip: length_0_conv)

lemma tail_crypto_simps [simp]: "evp_sha256 tail_crypto bs = Some (tail_hash bs)" "blake3 tail_crypto = tail_hash"
  by (simp_all add: tail_crypto_def)

lemma tail_Verify [simp]: "Verify tail_crypto a k s m \<longleftrightarrow> k \<noteq> [] \<and> a \<in> set [''ED25519'', ''ML-DSA-44'', ''ML-DSA-65'']"
  by (simp add: Verify_def tail_crypto_def)

lemma length_sample_key [simp]: "length (pk_ml_dsa (sample_key p n)) = PublicSize p"
  by (simp add: sample_key_def PublicSize_def)

lemma sample_key_wellformed [simp]: "n \<noteq> 0 \<Longrightarrow> key_wellformed p (sample_key p n)"
  by (simp add: key_wellformed_def HasNonzero_be_bytes) (simp add: sample_key_def HasNonzero_def PublicSize_def)

lemma sample_recovery_id [simp]: "n \<noteq> 0 \<Longrightarrow> ComputeRecoveryKeyId tail_crypto (sample_key RECOVERY_ROOT n) = Some (ucast n + 1)"
  by (simp add: ComputeRecoveryKeyId_def) (simp add: tail_hash_def sample_key_def)

lemma sample_auth_id [simp]: "n \<noteq> 0 \<Longrightarrow> \<exists>k. ComputeAuthorizationKeyId tail_crypto (sample_key AUTHORIZATION n) = Some k"
  by (simp add: ComputeAuthorizationKeyId_def)

lemma sample_verify [simp]: "Algorithm p \<noteq> [] \<Longrightarrow> VerifyIdentityMessage tail_crypto (sample_key p n) (sample_sig p) m"
  by (cases p) (simp_all add: VerifyIdentityMessage_def sample_key_def sample_sig_def PublicSize_def)

lemma sample_wf: "maps_wf sample_state"
  by (simp add: maps_wf_def sample_state_def)

lemma sample_names_valid: "registry_names_valid sample_state"
proof -
  have "ValidateNameLabel CENTRAL_AUTHORITY_NAME = NameValidationError.NONE \<or> ValidateNameLabel CENTRAL_AUTHORITY_NAME = NameValidationError.PROTECTED_NAME"
    by code_simp
  then show ?thesis
    by (auto simp: registry_names_valid_def sample_state_def allocation_label_valid_def MAX_GENESIS_ALLOCATIONS_def)
qed

lemma sample_supply: "money_supply sample_state = 150110"
  by (simp add: money_supply_def sample_state_def alloc_value_def account_value_def)

lemma sample_identities: "list_all (identity_indexed tail_crypto sample_state) (m_accounts (identities sample_state))"
  by (simp add: sample_state_def identity_indexed_def sample_identity_def FindByRecoveryKeyId_def)

lemma sample_valid: "ValidateCybouState tail_crypto sample_state = StateValidationError.NONE"
  unfolding ValidateCybouState_NONE_iff
proof (intro conjI sample_names_valid sample_identities)
  show "supply_bounded sample_state" by (simp add: supply_bounded_def sample_supply)
  show "check_accounts sample_state (accounts sample_state) = StateValidationError.NONE"
    by (simp add: sample_state_def Registry_Find_def)
qed (simp_all add: sample_state_def MAX_IDENTITY_REGISTRY_ACCOUNTS_def publications_valid_def leases_valid_def all_terms_def)

lemma sample_auth_fields [simp]:
  "ioa_account_id (sample_auth kind c) = 1" "ioa_kind (sample_auth kind c) = kind" "ioa_payload_commitment (sample_auth kind c) = c"
  "ioa_nonce (sample_auth kind c) = 0" "ioa_key_epoch (sample_auth kind c) = 0" "ioa_signature (sample_auth kind c) = sample_sig AUTHORIZATION"
  by (simp_all add: sample_auth_def)

lemma sample_authorized:
  assumes "nb \<noteq> 0" and "commitment \<noteq> 0"
  shows "AuthorizeOperation tail_crypto (sample_auth kind commitment) nb (identities sample_state) =
    (IdentityRegistryError.NONE, identities sample_state \<lparr> m_accounts := [(1, sample_identity 1 \<lparr> ir_nonce := 1 \<rparr>), (2, sample_identity 2)] \<rparr>)"
  using assms by (simp add: AuthorizeOperation_def sample_auth_def sample_state_def sample_identity_def
      ComputeIdentityOperationDigest_def Registry_Hash_def)

lemma sample_treasury: "CentralAuthorityFeeBalance sample_state = Some (AtAllocation 9)" "loc_balance sample_state (AtAllocation 9) = 100000"
  by (simp_all add: CentralAuthorityFeeBalance_def FindCentralAuthorityAllocation_def sample_state_def loc_balance_def)

lemma last_le_bytes: "last (le_bytes 8 (v :: u64)) = ucast (drop_bit 56 v)"
  by (simp add: le_bytes_def last_map)

lemma sample_payment_commitment: "ComputePaymentPayloadCommitment tail_crypto \<lparr> pay_recipient = 2, pay_amount = 30 \<rparr> = Some 1"
  by (simp add: ComputePaymentPayloadCommitment_def SerializePaymentPayload_def tail_hash_def last_le_bytes)

definition paid_registry :: IdentityRegistry where
  "paid_registry = (identities sample_state) \<lparr> m_accounts := [(1, sample_identity 1 \<lparr> ir_nonce := 1 \<rparr>), (2, sample_identity 2)] \<rparr>"

lemma sample_can_credit: "fee \<le> 1000 \<Longrightarrow> CanCreditCentralAuthorityFee sample_state fee"
  by (simp add: CanCreditCentralAuthorityFee_def sample_treasury word_le_nat_alt unat_sub unat_U64_MAX)

lemma sample_payment_applies:
  "ApplyPayment tail_crypto sample_payment 5 DevProtocolParameters sample_state =
     (PaymentError.NONE, sample_state \<lparr> identities := paid_registry,
        accounts := [(1, \<lparr> balance = 70, system_balance = 49999, onboarding_system_balance = 4, creation_height = 0, creation_epoch = 0 \<rparr>),
                 (2, \<lparr> balance = 40, system_balance = 0, onboarding_system_balance = 0, creation_height = 0, creation_epoch = 0 \<rparr>)],
        genesis_allocations := [(9, \<lparr> ga_balance = 100001, ga_label = CENTRAL_AUTHORITY_NAME, ga_claimed_by = None \<rparr>)] \<rparr>)"
proof -
  have a: "AuthorizeOperation tail_crypto (sample_auth PAYMENT 1) 5 (identities sample_state) = (IdentityRegistryError.NONE, paid_registry)"
    by (simp add: sample_authorized paid_registry_def)
  have f: "payment_fee DevProtocolParameters = 1" by (simp add: DevProtocolParameters_def)
  have s: "map_find (accounts sample_state) 1 = Some \<lparr> balance = 100, system_balance = 50000, onboarding_system_balance = 5, creation_height = 0, creation_epoch = 0 \<rparr>"
    "map_find (accounts sample_state) 2 = Some \<lparr> balance = 10, system_balance = 0, onboarding_system_balance = 0, creation_height = 0, creation_epoch = 0 \<rparr>"
    "Registry_Find (identities sample_state) 1 \<noteq> None" "Registry_Find (identities sample_state) 2 \<noteq> None"
    "FindCentralAuthorityAllocation sample_state = Some (9, \<lparr> ga_balance = 100000, ga_label = CENTRAL_AUTHORITY_NAME, ga_claimed_by = None \<rparr>)"
    by (simp_all add: sample_state_def Registry_Find_def FindCentralAuthorityAllocation_def)
  let ?st3 = "sample_state \<lparr> identities := paid_registry, accounts := [(1, \<lparr> balance = 70, system_balance = 49999, onboarding_system_balance = 4, creation_height = 0, creation_epoch = 0 \<rparr>),
                 (2, \<lparr> balance = 40, system_balance = 0, onboarding_system_balance = 0, creation_height = 0, creation_epoch = 0 \<rparr>)] \<rparr>"
  have 3: "CreditCentralAuthorityFee ?st3 1 = (True, ?st3 \<lparr> genesis_allocations := [(9, \<lparr> ga_balance = 100001, ga_label = CENTRAL_AUTHORITY_NAME, ga_claimed_by = None \<rparr>)] \<rparr>)"
    by (simp add: CreditCentralAuthorityFee_def CanCreditCentralAuthorityFee_def CentralAuthorityFeeBalance_def
        FindCentralAuthorityAllocation_def sample_state_def loc_balance_def loc_update_def)
  have "map_adjust 2 (\<lambda>a. a \<lparr> balance := balance a + 30 \<rparr>) (map_adjust 1 (\<lambda>a. snd (DebitSystemBalance (a \<lparr> balance := balance a - 30 \<rparr>) 1))
      (accounts sample_state)) = accounts ?st3"
    by (simp add: sample_state_def DebitSystemBalance_def)
  then show ?thesis
    unfolding ApplyPayment_def Let_def sample_payment_def
    using s a f 3 sample_payment_commitment sample_can_credit [of 1] by simp
qed

text \<open>The block holding that payment, executed on the sample state.\<close>

definition paid_state :: CybouState where
  "paid_state = snd (ApplyPayment tail_crypto sample_payment 5 DevProtocolParameters sample_state)"

lemmas paid_state_eq = paid_state_def [unfolded sample_payment_applies snd_conv]

lemma paid_wf: "maps_wf paid_state"
  by (simp add: paid_state_eq maps_wf_def sample_state_def paid_registry_def)

lemma paid_valid: "ValidateCybouState tail_crypto paid_state = StateValidationError.NONE"
  unfolding ValidateCybouState_NONE_iff
proof (intro conjI)
  show "registry_names_valid paid_state"
    using sample_names_valid by (simp add: registry_names_valid_def paid_state_eq sample_state_def allocation_label_valid_def)
  show "supply_bounded paid_state"
    by (simp add: supply_bounded_def money_supply_def paid_state_eq sample_state_def alloc_value_def account_value_def)
  show "check_accounts paid_state (accounts paid_state) = StateValidationError.NONE"
    by (simp add: paid_state_eq sample_state_def paid_registry_def Registry_Find_def)
  show "list_all (identity_indexed tail_crypto paid_state) (m_accounts (identities paid_state))"
    by (simp add: paid_state_eq sample_state_def paid_registry_def identity_indexed_def sample_identity_def FindByRecoveryKeyId_def)
qed (simp_all add: paid_state_eq paid_registry_def sample_state_def MAX_IDENTITY_REGISTRY_ACCOUNTS_def publications_valid_def
    leases_valid_def all_terms_def)

lemma length_sample_entry [simp]:
  "length (identity_entry_bytes (a, sample_identity n)) = IDENTITY_ACCOUNT_SIZE"
  "length (identity_entry_bytes (a, sample_identity n \<lparr> ir_nonce := m \<rparr>)) = IDENTITY_ACCOUNT_SIZE"
  by (simp_all add: identity_entry_bytes_def sample_identity_def WritePublic_def IDENTITY_ACCOUNT_SIZE_def PublicSize_def)

lemma sample_registry_bytes:
  "\<exists>bs. SerializeIdentityRegistry tail_crypto (identities sample_state) = Some bs \<and> length bs \<le> U32_COUNT_MAX"
  "\<exists>bs. SerializeIdentityRegistry tail_crypto paid_registry = Some bs \<and> length bs \<le> U32_COUNT_MAX"
  by (simp_all add: SerializeIdentityRegistry_def sample_state_def paid_registry_def identity_serializable_def counted_def
      MAX_IDENTITY_REGISTRY_ACCOUNTS_def IDENTITY_ACCOUNT_SIZE_def U32_COUNT_MAX_def)
    (simp_all add: sample_identity_def)

lemma sample_names_bytes: "length (SerializeNameRegistry (names sample_state)) \<le> U32_COUNT_MAX"
  by (simp add: sample_state_def SerializeNameRegistry_def U32_COUNT_MAX_def)

lemma sample_accounts_known:
  "\<not> list_ex (\<lambda>(i, a). i = 0 \<or> Registry_Find (identities sample_state) i = None) (accounts sample_state)"
  "\<not> list_ex (\<lambda>(i, a). i = 0 \<or> Registry_Find (identities paid_state) i = None) (accounts paid_state)"
  by (simp_all add: paid_state_eq sample_state_def paid_registry_def Registry_Find_def)

lemma sample_serializes: "\<exists>bs. SerializeCybouState tail_crypto sample_state True = Some bs"
  using sample_registry_bytes(1) sample_names_bytes sample_accounts_known(1)
  by (auto simp: SerializeCybouState_def sample_valid Let_def)

lemma paid_serializes: "\<exists>bs. SerializeCybouState tail_crypto paid_state v = Some bs"
proof -
  have "identities paid_state = paid_registry" "names paid_state = names sample_state" by (simp_all add: paid_state_eq)
  then show ?thesis using sample_registry_bytes(2) sample_names_bytes sample_accounts_known(2)
    by (auto simp: SerializeCybouState_def paid_valid Let_def)
qed

text \<open>Executing the block yields the paid state.\<close>

lemma sample_block:
  "\<exists>r. ExecuteBlockOperations tail_crypto sample_state [OpPayment sample_payment] 5 1 DevProtocolParameters None 7 = Inr r
     \<and> ber_state r = Some paid_state"
proof -
  have e: "expire_commits 1 DevProtocolParameters sample_state = sample_state" by (simp add: expire_commits_def sample_state_def)
  have p: "ApplyPayment tail_crypto sample_payment 5 DevProtocolParameters sample_state = (PaymentError.NONE, paid_state)"
    by (simp add: paid_state_eq sample_payment_applies)
  have t: "TotalCybou paid_state = TotalCybou sample_state"
    using ApplyPayment_conserves [OF p] sample_wf TotalCybou_exact [of paid_state] TotalCybou_exact [of sample_state]
    by (intro unsigned_word_eqI [where 'a = nat]) (simp add: conserves_def supply_bounded_def)
  obtain root where "CybouStateHash tail_crypto paid_state False = Some root"
    using paid_serializes [of False] by (auto simp: CybouStateHash_def)
  then show ?thesis
    by (simp add: ExecuteBlockOperations_def new_executor_def sample_valid Let_def e is_create_def ApplyOperation_def dispatch_def
        outcome_def p finish_operation_def IsOk_def empty_result_def Finalize_def paid_valid t)
qed

end
