(* ===== verification/Holdings.thy ===== *)
theory Holdings
  imports Executor
begin

text \<open>
  An abstract ledger. The state of the chain is seen as an amount per holder: the spendable and the system balance of
  an account, an unclaimed genesis allocation, the escrow of a lease. Every operation that moves value refines
  transfers between holders: the theorems give, for each operation, which transfers, of how much, and that each
  giver had the amount.
\<close>

section \<open>Holders\<close>

datatype holder = Spendable AccountId | System AccountId | Unclaimed IdentityKeyId | Escrow hash256

definition holding :: "CybouState \<Rightarrow> holder \<Rightarrow> nat" where
  "holding st h = (case h of
     Spendable a \<Rightarrow> (case map_find (accounts st) a of None \<Rightarrow> 0 | Some acc \<Rightarrow> unat (balance acc))
   | System a \<Rightarrow> (case map_find (accounts st) a of None \<Rightarrow> 0 | Some acc \<Rightarrow> unat (system_balance acc))
   | Unclaimed rid \<Rightarrow> (case map_find (genesis_allocations st) rid of None \<Rightarrow> 0 | Some al \<Rightarrow> alloc_value al)
   | Escrow pid \<Rightarrow> (case map_find (leases st) pid of None \<Rightarrow> 0 | Some l \<Rightarrow> lease_value l))"

definition gain :: "holder \<Rightarrow> nat \<Rightarrow> (holder \<Rightarrow> nat) \<Rightarrow> holder \<Rightarrow> nat" where
  "gain h n m = m(h := m h + n)"

definition lose :: "holder \<Rightarrow> nat \<Rightarrow> (holder \<Rightarrow> nat) \<Rightarrow> holder \<Rightarrow> nat" where
  "lose h n m = m(h := m h - n)"

definition transfer :: "holder \<Rightarrow> holder \<Rightarrow> nat \<Rightarrow> (holder \<Rightarrow> nat) \<Rightarrow> holder \<Rightarrow> nat" where
  "transfer src dst n m = gain dst n (lose src n m)"

definition treasury_holder :: "treasury_loc \<Rightarrow> holder" where
  "treasury_holder l = (case l of AtAllocation rid \<Rightarrow> Unclaimed rid | AtAccount a \<Rightarrow> Spendable a)"

lemma transfer_0 [simp]: "transfer src dst 0 m = m"
  by (simp add: transfer_def gain_def lose_def)

lemma holding_other [simp]:
  "holding (st \<lparr> identities := r \<rparr>) = holding st" "holding (st \<lparr> names := ns \<rparr>) = holding st"
  "holding (st \<lparr> publications := ps \<rparr>) = holding st" "holding (st \<lparr> settlement := c \<rparr>) = holding st"
  by (simp_all add: holding_def fun_eq_iff split: holder.split)

lemma holding_adjust_account:
  assumes "map_find (accounts st) a = Some acc"
  shows "holding (st \<lparr> accounts := map_adjust a f (accounts st) \<rparr>) =
    (holding st)(Spendable a := unat (balance (f acc)), System a := unat (system_balance (f acc)))"
  using assms by (auto simp: holding_def fun_eq_iff split: holder.split)

lemma holding_account: "map_find (accounts st) a = Some acc \<Longrightarrow> holding st (Spendable a) = unat (balance acc)"
  "map_find (accounts st) a = Some acc \<Longrightarrow> holding st (System a) = unat (system_balance acc)"
  by (simp_all add: holding_def)

lemma holding_debit:
  assumes "map_find (accounts st) a = Some acc" and "n \<le> system_balance acc"
  shows "holding (st \<lparr> accounts := map_adjust a (\<lambda>x. snd (DebitSystemBalance x n)) (accounts st) \<rparr>) = lose (System a) (unat n) (holding st)"
  using assms by (auto simp: holding_adjust_account lose_def fun_eq_iff holding_account unat_sub word_le_nat_alt)

lemma holding_credit:
  assumes "CanCreditCentralAuthorityFee st fee" and "CentralAuthorityFeeBalance st = Some l" and wf: "maps_wf st"
  shows "holding (snd (CreditCentralAuthorityFee st fee)) = gain (treasury_holder l) (unat fee) (holding st)"
proof -
  have c: "snd (CreditCentralAuthorityFee st fee) = loc_update l (\<lambda>b. b + fee) st"
    using assms by (simp add: CreditCentralAuthorityFee_def)
  have le: "loc_balance st l \<le> U64_MAX - fee" using assms by (simp add: CanCreditCentralAuthorityFee_def)
  from assms(2) wf show ?thesis
  proof (cases rule: CentralAuthorityFeeBalance_cases)
    case (alloc rid a)
    then show ?thesis using le
      by (auto simp: c fun_eq_iff holding_def gain_def treasury_holder_def loc_update_def loc_balance_def alloc_value_def
          unat_add_checked split: holder.split)
  next
    case (account b acc)
    then show ?thesis using le
      by (auto simp: c fun_eq_iff holding_def gain_def treasury_holder_def loc_update_def loc_balance_def unat_add_checked
          split: holder.split)
  qed
qed

lemma holding_pay_fee:
  assumes "CanCreditCentralAuthorityFee st fee" and "CentralAuthorityFeeBalance st = Some l"
    and "map_find (accounts st) a = Some acc" and "fee \<le> system_balance acc" and "maps_wf st"
  shows "holding (pay_fee a fee st) = transfer (System a) (treasury_holder l) (unat fee) (holding st)"
  using assms unfolding pay_fee_def transfer_def
  by (subst holding_credit) (simp_all add: CanCredit_debit holding_debit)

lemma holding_authorized_fee:
  assumes "AuthorizeOperation C au nb (identities st) = (IdentityRegistryError.NONE, registry)" and "maps_wf st"
    and "CanCreditCentralAuthorityFee st fee" and "CentralAuthorityFeeBalance st = Some l"
    and "map_find (accounts st) a = Some acc" and "fee \<le> system_balance acc"
  shows "holding (pay_fee a fee (st \<lparr> identities := registry \<rparr>)) = transfer (System a) (treasury_holder l) (unat fee) (holding st)"
  using assms CanCredit_authorized [OF assms(1)] fee_loc_authorized [OF assms(1)] maps_wf_authorized [OF assms(2,1)]
  by (subst holding_pay_fee) simp_all

section \<open>Payments and locks\<close>

lemma ApplyPayment_holding:
  assumes "ApplyPayment C op nb params st = (PaymentError.NONE, st')" and wf: "maps_wf st"
  defines "s \<equiv> ioa_account_id (ap_authorization op)" and "r \<equiv> pay_recipient (ap_payment op)"
    and "amount \<equiv> pay_amount (ap_payment op)" and "fee \<equiv> payment_fee params"
  obtains l where "CentralAuthorityFeeBalance st = Some l"
    "unat amount \<le> holding st (Spendable s)" "unat fee \<le> holding st (System s)" "s \<noteq> r"
    "holding st' = transfer (System s) (treasury_holder l) (unat fee) (transfer (Spendable s) (Spendable r) (unat amount) (holding st))"
  using assms(1)
proof (rule ApplyPayment_NONE, fold s_def r_def amount_def fee_def)
  fix sender recipient registry
  assume ne: "s \<noteq> r" and f: "map_find (accounts st) s = Some sender" "map_find (accounts st) r = Some recipient"
    and b: "amount \<le> balance sender" "fee \<le> system_balance sender" "balance recipient \<le> U64_MAX - amount"
    and can: "CanCreditCentralAuthorityFee st fee"
    and ov: "\<And>rid a. FindCentralAuthorityAllocation st = Some (rid, a) \<Longrightarrow> ga_claimed_by a = Some r \<Longrightarrow>
          balance recipient + amount \<le> U64_MAX - fee"
    and au: "AuthorizeOperation C (ap_authorization op) nb (identities st) = (IdentityRegistryError.NONE, registry)"
    and st': "st' = snd (CreditCentralAuthorityFee (st \<lparr> identities := registry,
     accounts := map_adjust r (\<lambda>a. a \<lparr> balance := balance a + amount \<rparr>)
       (map_adjust s (\<lambda>a. snd (DebitSystemBalance (a \<lparr> balance := balance a - amount \<rparr>) fee)) (accounts st)) \<rparr>) fee)"
  define st1 where "st1 = st \<lparr> identities := registry \<rparr>"
  define st2 where "st2 = st1 \<lparr> accounts := map_adjust s (\<lambda>a. snd (DebitSystemBalance (a \<lparr> balance := balance a - amount \<rparr>) fee)) (accounts st1) \<rparr>"
  define st3 where "st3 = st2 \<lparr> accounts := map_adjust r (\<lambda>a. a \<lparr> balance := balance a + amount \<rparr>) (accounts st2) \<rparr>"
  have wf1: "maps_wf st1" using maps_wf_authorized [OF wf au] by (simp add: st1_def)
  then have wf3: "maps_wf st3" by (simp add: st2_def st3_def maps_wf_def)
  have can3: "CanCreditCentralAuthorityFee st3 fee"
    unfolding st3_def st2_def
    by (rule CanCredit_payment [OF _ ne]) (use can f b ov in \<open>simp_all add: st1_def CanCredit_authorized [OF au]\<close>)
  obtain l where l: "CentralAuthorityFeeBalance st = Some l"
    using can by (auto simp: CanCreditCentralAuthorityFee_def split: option.splits)
  have l3: "CentralAuthorityFeeBalance st3 = Some l"
    unfolding st3_def fee_loc_accounts unfolding st2_def fee_loc_accounts st1_def fee_loc_authorized [OF au] by (rule l)
  have "holding st3 = lose (System s) (unat fee) (transfer (Spendable s) (Spendable r) (unat amount) (holding st))"
    using f b ne holding_adjust_account [of st2 r recipient "\<lambda>a. a \<lparr> balance := balance a + amount \<rparr>"]
      holding_adjust_account [of st1 s sender "\<lambda>a. snd (DebitSystemBalance (a \<lparr> balance := balance a - amount \<rparr>) fee)"]
    by (auto simp: fun_eq_iff st3_def [symmetric] st2_def [symmetric] transfer_def gain_def lose_def unat_sub word_le_nat_alt unat_add_checked)
      (auto simp: st2_def st1_def holding_account)
  moreover have "st' = snd (CreditCentralAuthorityFee st3 fee)" by (simp add: st' st3_def st2_def st1_def)
  ultimately have "holding st' = transfer (System s) (treasury_holder l) (unat fee) (transfer (Spendable s) (Spendable r) (unat amount) (holding st))"
    using holding_credit [OF can3 l3 wf3] by (simp add: transfer_def)
  then show thesis using that l f b ne by (simp add: holding_account word_le_nat_alt)
qed

lemma ApplySystemLock_NONE:
  assumes "ApplySystemLock C op nb st = (SystemLockError.NONE, st')"
  defines "a \<equiv> ioa_account_id (asl_authorization op)" and "n \<equiv> lock_amount (asl_lock op)"
  obtains acc registry where "map_find (accounts st) a = Some acc" "n \<le> balance acc" "system_balance acc \<le> U64_MAX - n"
    "AuthorizeOperation C (asl_authorization op) nb (identities st) = (IdentityRegistryError.NONE, registry)"
    "st' = st \<lparr> identities := registry, accounts := map_adjust a
        (\<lambda>a. a \<lparr> balance := balance a - n, system_balance := system_balance a + n \<rparr>) (accounts st) \<rparr>"
proof -
  obtain acc registry where "map_find (accounts st) a = Some acc" "n \<le> balance acc" "system_balance acc \<le> U64_MAX - n"
    "AuthorizeOperation C (asl_authorization op) nb (identities st) = (IdentityRegistryError.NONE, registry)"
    "st' = st \<lparr> identities := registry, accounts := map_adjust a
        (\<lambda>a. a \<lparr> balance := balance a - n, system_balance := system_balance a + n \<rparr>) (accounts st) \<rparr>"
    using assms(1) unfolding ApplySystemLock_def Let_def case_auth_NONE a_def n_def
    by (cases "AuthorizeOperation C (asl_authorization op) nb (identities st)")
      (auto simp: not_less split: if_splits option.splits)
  then show thesis by (rule that)
qed

lemma holding_adjust_transfer:
  assumes "map_find (accounts st) a = Some acc" and "n \<le> balance acc" and "system_balance acc \<le> U64_MAX - n"
  shows "holding (st \<lparr> accounts := map_adjust a (\<lambda>x. x \<lparr> balance := balance x - n, system_balance := system_balance x + n \<rparr>) (accounts st) \<rparr>)
    = transfer (Spendable a) (System a) (unat n) (holding st)"
  using assms
  by (auto simp: holding_adjust_account fun_eq_iff transfer_def gain_def lose_def holding_account unat_sub word_le_nat_alt unat_add_checked)

lemma ApplySystemLock_holding:
  assumes "ApplySystemLock C op nb st = (SystemLockError.NONE, st')"
  defines "a \<equiv> ioa_account_id (asl_authorization op)" and "n \<equiv> lock_amount (asl_lock op)"
  shows "unat n \<le> holding st (Spendable a) \<and> holding st' = transfer (Spendable a) (System a) (unat n) (holding st)"
  using assms(1)
proof (rule ApplySystemLock_NONE, fold a_def n_def)
  fix acc registry
  assume f: "map_find (accounts st) a = Some acc" "n \<le> balance acc" "system_balance acc \<le> U64_MAX - n"
    and st': "st' = st \<lparr> identities := registry, accounts := map_adjust a
        (\<lambda>a. a \<lparr> balance := balance a - n, system_balance := system_balance a + n \<rparr>) (accounts st) \<rparr>"
  then show ?thesis
    using holding_adjust_transfer [of "st \<lparr> identities := registry \<rparr>" a acc n] by (simp add: holding_account word_le_nat_alt)
qed


section \<open>Publications and leases\<close>

lemma holding_add_funded_term:
  assumes "money_supply st + unat (ft_initial_onboarding t) + unat (ft_initial_locked t) < 2 ^ 64"
  shows "holding (st \<lparr> leases := add_funded_term pid payer units replicas t (leases st) \<rparr>)
    = gain (Escrow pid) (unat (ft_initial_onboarding t) + unat (ft_initial_locked t)) (holding st)"
proof (cases "map_find (leases st) pid")
  case None
  then show ?thesis
    by (auto simp: fun_eq_iff holding_def gain_def add_funded_term_def map_contains_def lease_value_def split: holder.split)
next
  case (Some l)
  have "unat (sl_escrow_onboarding l + ft_initial_onboarding t) = unat (sl_escrow_onboarding l) + unat (ft_initial_onboarding t)"
    "unat (sl_escrow_locked l + ft_initial_locked t) = unat (sl_escrow_locked l) + unat (ft_initial_locked t)"
    using lease_value_le [OF Some] assms by (simp_all add: unat_add_fits lease_value_def)
  with Some show ?thesis
    by (auto simp: fun_eq_iff holding_def gain_def add_funded_term_def map_contains_def lease_value_def split: holder.split)
qed

lemma holding_fund:
  assumes fund: "FundStorageLease st pid payer units replicas periods escrow params fid = Inr st'"
    and acc: "map_find (accounts st) payer = Some acc" "escrow \<le> system_balance acc" and "supply_bounded st" and "maps_wf st"
  shows "holding st' = transfer (System payer) (Escrow pid) (unat escrow) (holding st)"
  using fund
proof (rule FundStorageLease_Inr)
  fix acc0 t
  assume "map_find (accounts st) payer = Some acc0"
    and t: "ft_initial_onboarding t = min (onboarding_system_balance acc0) escrow" "ft_initial_locked t = escrow - ft_initial_onboarding t"
    and st': "st' = st \<lparr> accounts := map_adjust payer (\<lambda>a. snd (DebitSystemBalance a escrow)) (accounts st),
                leases := add_funded_term pid payer units replicas t (leases st) \<rparr>"
  define st1 where "st1 = st \<lparr> accounts := map_adjust payer (\<lambda>a. snd (DebitSystemBalance a escrow)) (accounts st) \<rparr>"
  have "unat (ft_initial_onboarding t) + unat (ft_initial_locked t) = unat escrow"
    using unat_split [of "onboarding_system_balance acc0" escrow] t by simp
  moreover have "money_supply st1 + unat escrow = money_supply st"
    using supply_adjust_account [of st payer acc "\<lambda>a. snd (DebitSystemBalance a escrow)"]
      DebitSystemBalance_value [OF acc(2)] assms by (simp add: st1_def maps_wf_def)
  ultimately have "holding (st1 \<lparr> leases := add_funded_term pid payer units replicas t (leases st1) \<rparr>)
      = gain (Escrow pid) (unat escrow) (holding st1)"
    using holding_add_funded_term [of st1 t pid payer units replicas] assms(4) by (simp add: supply_bounded_def)
  then show ?thesis using holding_debit [OF acc] by (simp add: st' st1_def transfer_def)
qed

text \<open>A fee to the treasury followed by an escrow, the two debits of a publication and of a lease.\<close>

lemma holding_fee_then_fund:
  assumes au: "AuthorizeOperation C auth nb (identities st) = (IdentityRegistryError.NONE, registry)"
    and acc: "map_find (accounts st) a = Some sender" "fee + escrow \<le> system_balance sender" "escrow \<le> U64_MAX - fee"
    and can: "CanCreditCentralAuthorityFee st fee" "CentralAuthorityFeeBalance st = Some l" and bnd: "supply_bounded st" "maps_wf st"
    and fund: "FundStorageLease (pay_fee a fee (st \<lparr> identities := registry \<rparr>)) pid a units replicas periods escrow params fid = Inr st'"
  shows "holding st' = transfer (System a) (Escrow pid) (unat escrow) (transfer (System a) (treasury_holder l) (unat fee) (holding st))"
proof -
  let ?st1 = "pay_fee a fee (st \<lparr> identities := registry \<rparr>)"
  have le: "fee \<le> system_balance sender" "escrow \<le> system_balance sender - fee" using unat_le_sum [OF acc(2,3)] by simp_all
  have "conserves st ?st1"
    using acc can le
    by (intro conserves_trans [OF authorized_conserves [OF au]] pay_fee_conserves [where acc = sender])
      (simp_all add: CanCredit_authorized [OF au])
  moreover obtain acc' where "map_find (accounts ?st1) a = Some acc'" "system_balance acc' = system_balance sender - fee"
    using pay_fee_accounts [of "st \<lparr> identities := registry \<rparr>" a sender fee] acc(1) by auto
  ultimately show ?thesis
    using holding_fund [OF fund, of acc'] holding_authorized_fee [OF au bnd(2) can acc(1) le(1)] bnd le
    by (simp add: conserves_def supply_bounded_def)
qed

lemma ApplyRootPublication_holding:
  assumes "ApplyRootPublication C op nb params st = Inr (RootPublicationError.NONE, st')" and bnd: "supply_bounded st" "maps_wf st"
  defines "a \<equiv> ioa_account_id (arp_authorization op)"
  obtains l bs q pid where "CentralAuthorityFeeBalance st = Some l"
    "SerializeProtocolOperation C (OpRootPublication op) = Inr (Some bs)" "OperationIdOfBytes C bs = Some pid"
    "QuotePublicationCost C params op = Inr (Some q)"
    "unat (pcq_total_system_debit q) = unat (pcq_publication_fee q) + unat (pcq_storage_escrow q)"
    "unat (pcq_total_system_debit q) \<le> holding st (System a)"
    "holding st' = transfer (System a) (Escrow pid) (unat (pcq_storage_escrow q))
       (transfer (System a) (treasury_holder l) (unat (pcq_publication_fee q)) (holding st))"
  using assms(1)
proof (rule ApplyRootPublication_NONE, fold a_def)
  fix bs fee pid escrow sender registry
  assume bs: "SerializeProtocolOperation C (OpRootPublication op) = Inr (Some bs)"
    "ComputeRootPublicationFee params (length bs) (rp_chunk_count (arp_publication op)) = Some fee"
    "OperationIdOfBytes C bs = Some pid" "rp_lease_periods (arp_publication op) \<le> max_storage_lease_periods params"
    "(if rp_lease_periods (arp_publication op) = 0 then Some 0
      else ComputeStorageLeaseEscrow params (rp_chunk_count (arp_publication op)) (storage_replica_target params)
             (rp_lease_periods (arp_publication op))) = Some escrow"
    and acc: "escrow \<le> U64_MAX - fee" "map_find (accounts st) a = Some sender" "fee + escrow \<le> system_balance sender"
    and can: "CanCreditCentralAuthorityFee st fee"
    and au: "AuthorizeOperation C (arp_authorization op) nb (identities st) = (IdentityRegistryError.NONE, registry)"
    and st': "(if escrow = 0 then Inr (pay_fee a fee (st \<lparr> identities := registry \<rparr>))
        else FundStorageLease (pay_fee a fee (st \<lparr> identities := registry \<rparr>)) pid a (rp_chunk_count (arp_publication op))
          (storage_replica_target params) (rp_lease_periods (arp_publication op)) escrow params pid) = Inr st'"
  obtain l where l: "CentralAuthorityFeeBalance st = Some l"
    using can by (auto simp: CanCreditCentralAuthorityFee_def split: option.splits)
  have "holding st' = transfer (System a) (Escrow pid) (unat escrow) (transfer (System a) (treasury_holder l) (unat fee) (holding st))"
  proof (cases "escrow = 0")
    case False
    with st' show ?thesis by (intro holding_fee_then_fund [OF au acc(2,3,1) can l bnd]) simp
  next
    case True
    with st' acc show ?thesis using holding_authorized_fee [OF au bnd(2) can l acc(2)]
      by simp
  qed
  moreover have "unat (fee + escrow) = unat fee + unat escrow" using unat_add_checked [of escrow fee] acc(1) by (simp add: add.commute)
  moreover obtain q where "QuotePublicationCost C params op = Inr (Some q)" "pcq_publication_fee q = fee" "pcq_storage_escrow q = escrow"
    "pcq_total_system_debit q = fee + escrow"
    using bs(2,4,5) acc(1) unfolding QuotePublicationCost_def bs(1)
    by (auto simp: QuotePublicationCostOfSize_def not_less split: if_splits)
  ultimately show thesis using that [OF l bs(1,3)] acc by (simp add: holding_account word_le_nat_alt)
qed

lemma ApplyStorageLease_holding:
  assumes "ApplyStorageLease C op nb params st = Inr (StorageLeaseError.NONE, st')" and bnd: "supply_bounded st" "maps_wf st"
  defines "a \<equiv> ioa_account_id (asle_authorization op)" and "pid \<equiv> slp_publication_id (asle_lease op)"
    and "replicas \<equiv> (case map_find (leases st) (slp_publication_id (asle_lease op)) of
           Some l \<Rightarrow> sl_replicas l | None \<Rightarrow> storage_replica_target params)"
  obtains l publication q where "CentralAuthorityFeeBalance st = Some l"
    "map_find (publications st) pid = Some publication" "pub_owner publication = a"
    "QuoteStorageLeaseCost params (pub_chunk_count publication) replicas (slp_periods (asle_lease op)) = Some q"
    "unat (slq_total_system_debit q) \<le> holding st (System a)"
    "holding st' = transfer (System a) (Escrow pid) (unat (slq_storage_escrow q))
       (transfer (System a) (treasury_holder l) (unat (slq_protocol_fee q)) (holding st))"
  using assms(1)
proof (rule ApplyStorageLease_NONE, fold a_def pid_def replicas_def)
  fix publication escrow fid sender registry
  assume pub: "slp_periods (asle_lease op) \<le> max_storage_lease_periods params"
      "map_find (publications st) pid = Some publication" "pub_owner publication = a"
      "ComputeStorageLeaseEscrow params (pub_chunk_count publication) replicas (slp_periods (asle_lease op)) = Some escrow"
    and acc: "escrow \<le> U64_MAX - payment_fee params" "map_find (accounts st) a = Some sender"
      "escrow + payment_fee params \<le> system_balance sender"
    and can: "CanCreditCentralAuthorityFee st (payment_fee params)"
    and au: "AuthorizeOperation C (asle_authorization op) nb (identities st) = (IdentityRegistryError.NONE, registry)"
    and fund: "FundStorageLease (pay_fee a (payment_fee params) (st \<lparr> identities := registry \<rparr>)) pid a
       (pub_chunk_count publication) replicas (slp_periods (asle_lease op)) escrow params fid = Inr st'"
  obtain l where l: "CentralAuthorityFeeBalance st = Some l"
    using can by (auto simp: CanCreditCentralAuthorityFee_def split: option.splits)
  have sum: "payment_fee params + escrow \<le> system_balance sender" using acc(3) by (simp add: add.commute)
  let ?q = "\<lparr> slq_protocol_fee = payment_fee params, slq_storage_escrow = escrow, slq_total_system_debit = payment_fee params + escrow \<rparr>"
  have "QuoteStorageLeaseCost params (pub_chunk_count publication) replicas (slp_periods (asle_lease op)) = Some ?q"
    using pub(1,4) acc(1) by (simp add: QuoteStorageLeaseCost_def flip: not_less)
  then show thesis
    using holding_fee_then_fund [OF au acc(2) sum acc(1) can l bnd fund] acc(2) sum
    by (intro that [OF l pub(2,3), of ?q]) (simp_all add: holding_account word_le_nat_alt)
qed

lemma holding_adjust_lease_same: "(\<And>v. lease_value (f v) = lease_value v) \<Longrightarrow>
    holding (st \<lparr> leases := map_adjust k f (leases st) \<rparr>) = holding st"
  by (auto simp: fun_eq_iff holding_def split: holder.split option.split)

lemma ApplyRevokePublication_holding:
  assumes "ApplyRevokePublication C op nb params st = (RevokePublicationError.NONE, st')" and wf: "maps_wf st"
  defines "a \<equiv> ioa_account_id (arv_authorization op)" and "pid \<equiv> rev_publication_id (arv_revoke op)"
    and "fee \<equiv> payment_fee params"
  obtains l where "CentralAuthorityFeeBalance st = Some l" "unat fee \<le> holding st (System a)"
    "map_option pub_owner (map_find (publications st) pid) = Some a"
    "publications st' = map_erase pid (publications st)"
    "holding st' = transfer (System a) (treasury_holder l) (unat fee) (holding st)"
  using assms(1)
proof (rule ApplyRevokePublication_NONE, fold a_def pid_def fee_def)
  fix pub sender registry
  let ?f = "\<lambda>l. l \<lparr> sl_end_period := min (sl_end_period l) (max (sl_first_period l) (next_period (settlement st)) + 1) \<rparr>"
  let ?st0 = "st \<lparr> leases := map_adjust pid ?f (leases st), publications := map_erase pid (publications st) \<rparr>"
  assume pub: "map_find (publications st) pid = Some pub" "pub_owner pub = a"
    and acc: "map_find (accounts st) a = Some sender" "fee \<le> system_balance sender" and can: "CanCreditCentralAuthorityFee st fee"
    and au: "AuthorizeOperation C (arv_authorization op) nb (identities st) = (IdentityRegistryError.NONE, registry)"
    and st': "st' = pay_fee a fee (st \<lparr> identities := registry, leases := map_adjust pid ?f (leases st),
        publications := map_erase pid (publications st) \<rparr>)"
  obtain l where l: "CentralAuthorityFeeBalance st = Some l"
    using can by (auto simp: CanCreditCentralAuthorityFee_def split: option.splits)
  have loc: "CentralAuthorityFeeBalance ?st0 = Some l" using l by simp
  have st0: "CanCreditCentralAuthorityFee ?st0 fee" "maps_wf ?st0" "holding ?st0 = holding st"
    using can wf loc l holding_adjust_lease_same [of ?f pid st]
    by (auto simp: CanCreditCentralAuthorityFee_def loc_balance_def maps_wf_def lease_value_def split: treasury_loc.splits)
  have au0: "AuthorizeOperation C (arv_authorization op) nb (identities ?st0) = (IdentityRegistryError.NONE, registry)" using au by simp
  have "st' = pay_fee a fee (?st0 \<lparr> identities := registry \<rparr>)"
    unfolding st' by (rule arg_cong [of _ _ "pay_fee a fee"]) simp
  moreover have "publications st' = map_erase pid (publications st)" by (simp add: st')
  ultimately show thesis
    using that [OF l] holding_authorized_fee [OF au0 st0(2,1) loc, of a sender] st0(3) acc pub by (simp add: holding_account word_le_nat_alt)
qed


section \<open>Account creation\<close>

lemma treasury_not_claimed:
  assumes "CentralAuthorityFeeBalance st = Some l" and "maps_wf st" and "map_find (genesis_allocations st) rid = Some al"
    and "ga_label al \<noteq> CENTRAL_AUTHORITY_NAME"
  shows "l \<noteq> AtAllocation rid"
  using assms(1,2) by (cases rule: CentralAuthorityFeeBalance_cases) (use assms(3,4) in auto)

lemma holding_debit_treasury:
  assumes "CentralAuthorityFeeBalance st = Some l" and "bonus \<le> loc_balance st l" and "maps_wf st"
  shows "holding (debit_treasury bonus st) = lose (treasury_holder l) (unat bonus) (holding st)"
  using assms(1,3)
proof (cases rule: CentralAuthorityFeeBalance_cases)
  case (alloc rid a)
  then show ?thesis using assms(1,2)
    by (auto simp: debit_treasury_def fun_eq_iff holding_def lose_def treasury_holder_def loc_update_def loc_balance_def alloc_value_def
        unat_sub word_le_nat_alt split: holder.split)
next
  case (account b acc)
  then show ?thesis using assms(1,2)
    by (auto simp: debit_treasury_def fun_eq_iff holding_def lose_def treasury_holder_def loc_update_def loc_balance_def
        unat_sub word_le_nat_alt split: holder.split)
qed

lemma holding_claim:
  assumes "map_find (genesis_allocations st) rid = Some al" and "ga_claimed_by al = None"
  shows "holding (claim_allocation a rid al0 st) = lose (Unclaimed rid) (unat (ga_balance al)) (holding st)"
  using assms
  by (auto simp: claim_allocation_def Let_def fun_eq_iff holding_def lose_def alloc_value_def split: holder.split)

lemma holding_emplace_account:
  assumes "map_find (accounts st) a = None"
  shows "holding (st \<lparr> accounts := map_emplace a acc (accounts st) \<rparr>)
    = gain (System a) (unat (system_balance acc)) (gain (Spendable a) (unat (balance acc)) (holding st))"
  using assms by (auto simp: fun_eq_iff holding_def gain_def split: holder.split)

lemma claim_after_debit:
  assumes "claimed_allocation C op st = Some (rid, al)" and "bonus = create_bonus params (Some (rid, al))"
    and "CentralAuthorityFeeBalance st = Some l" and "maps_wf st" and "bonus \<noteq> 0" and "genesis_allocations st1 = genesis_allocations st"
    and "CentralAuthorityFeeBalance st1 = Some l"
  shows "map_find (genesis_allocations (debit_treasury bonus st1)) rid = Some al"
proof -
  have al: "map_find (genesis_allocations st) rid = Some al" "ga_claimed_by al = None"
    using assms(1) by (simp_all add: claimed_allocation_Some)
  then have "l \<noteq> AtAllocation rid"
    using assms by (intro treasury_not_claimed [of st]) (auto simp: create_bonus_def split: if_splits)
  then show ?thesis using al assms(6,7) by (auto simp: debit_treasury_def loc_update_def split: treasury_loc.split)
qed

lemma ApplyAccountCreate_holding:
  assumes "ApplyAccountCreate C op nb h params st = (AccountCreateStateError.NONE, st')" and wf: "maps_wf st"
  defines "a \<equiv> aco_account_id op" and "claim \<equiv> claimed_allocation C op st" and "bonus \<equiv> create_bonus params (claimed_allocation C op st)"
  obtains t where "map_find (accounts st) a = None"
    "bonus \<noteq> 0 \<Longrightarrow> \<exists>l. CentralAuthorityFeeBalance st = Some l \<and> t = treasury_holder l"
    "unat bonus \<le> holding st t"
    "holding st' = (case claim of None \<Rightarrow> transfer t (System a) (unat bonus) (holding st)
       | Some (rid, al) \<Rightarrow> transfer (Unclaimed rid) (Spendable a) (unat (ga_balance al)) (transfer t (System a) (unat bonus) (holding st)))"
  using assms(1)
proof (rule ApplyAccountCreate_NONE, fold a_def claim_def bonus_def [folded claim_def])
  fix registry st2
  let ?st1 = "st \<lparr> identities := registry \<rparr>"
  define st3 where "st3 = (case claim of None \<Rightarrow> st2 | Some (rid, allocation) \<Rightarrow> claim_allocation a rid allocation st2)"
  assume fresh: "map_find (accounts st) a = None"
    and tr: "bonus \<noteq> 0 \<Longrightarrow> \<exists>l. CentralAuthorityFeeBalance st = Some l \<and> bonus \<le> loc_balance st l"
    and reg: "Register C op nb h params (identities st) = (IdentityRegistryError.NONE, registry)"
    and st2: "st2 = (if bonus \<noteq> 0 then debit_treasury bonus ?st1 else ?st1)"
    and st': "st' = (let st3 = (case claim of None \<Rightarrow> st2 | Some (rid, allocation) \<Rightarrow> claim_allocation a rid allocation st2)
       in st3 \<lparr> accounts := map_emplace a \<lparr> balance = genesis_balance_of st2 claim, system_balance = bonus,
                    onboarding_system_balance = bonus, creation_height = h, creation_epoch = EpochForHeight h params \<rparr> (accounts st3) \<rparr>)"
  define t where "t = (if bonus = 0 then System a else treasury_holder (the (CentralAuthorityFeeBalance st)))"
  have t: "bonus \<noteq> 0 \<Longrightarrow> \<exists>l. CentralAuthorityFeeBalance st = Some l \<and> t = treasury_holder l" using tr by (auto simp: t_def)
  have h2: "holding st2 = lose t (unat bonus) (holding st)" "unat bonus \<le> holding st t"
  proof -
    have "holding st2 = lose t (unat bonus) (holding st) \<and> unat bonus \<le> holding st t"
    proof (cases "bonus = 0")
      case True
      then show ?thesis by (simp add: st2 lose_def)
    next
      case False
      then obtain l where l: "CentralAuthorityFeeBalance st = Some l" "bonus \<le> loc_balance st l" "t = treasury_holder l"
        using tr by (auto simp: t_def)
      have "unat bonus \<le> holding st t" using l wf
        by (cases rule: CentralAuthorityFeeBalance_cases [OF l(1) wf])
          (auto simp: holding_def treasury_holder_def loc_balance_def alloc_value_def word_le_nat_alt)
      then show ?thesis using holding_debit_treasury [OF fee_loc_registered [OF reg l(1)], of bonus] l(2,3) False maps_wf_registered [OF reg wf]
        by (simp add: st2)
    qed
    then show "holding st2 = lose t (unat bonus) (holding st)" "unat bonus \<le> holding st t" by simp_all
  qed
  have claimed: "map_find (genesis_allocations st2) rid = Some al" "ga_claimed_by al = None" if "claim = Some (rid, al)" for rid al
  proof -
    have al: "map_find (genesis_allocations st) rid = Some al" "ga_claimed_by al = None"
      using that by (simp_all add: claim_def claimed_allocation_Some)
    show "map_find (genesis_allocations st2) rid = Some al"
      using al that tr fee_loc_registered [OF reg] claim_after_debit [of C op st rid al bonus params _ ?st1] wf
      by (cases "bonus = 0") (auto simp: st2 claim_def bonus_def)
    show "ga_claimed_by al = None" by (rule al)
  qed
  have f3: "map_find (accounts st3) a = None"
    using fresh by (auto simp: st3_def st2 debit_treasury_keeps(1) claim_allocation_def Let_def split: option.split)
  have "holding st' = gain (System a) (unat bonus) (gain (Spendable a) (unat (genesis_balance_of st2 claim)) (holding st3))"
    using holding_emplace_account [OF f3] by (simp add: st' st3_def [symmetric])
  moreover have z: "holding st (System a) = 0" "holding st (Spendable a) = 0" using fresh by (simp_all add: holding_def)
  ultimately show thesis
    using h2 claimed holding_claim [of st2]
    by (intro that [OF fresh t h2(2)])
      (auto simp: st3_def genesis_balance_of_def transfer_def gain_def lose_def fun_eq_iff split: option.split)
qed


section \<open>Settlements\<close>

text \<open>A settlement takes from escrows only: no account and no unclaimed allocation loses by it.\<close>

definition drains :: "CybouState \<Rightarrow> CybouState \<Rightarrow> bool" where
  "drains st st' \<longleftrightarrow> (maps_wf st \<longrightarrow> maps_wf st' \<and> (\<forall>h. case h of
     Spendable a \<Rightarrow> holding st h \<le> holding st' h | System a \<Rightarrow> holding st h \<le> holding st' h
   | Unclaimed rid \<Rightarrow> holding st' h = holding st h | Escrow pid \<Rightarrow> holding st' h \<le> holding st h))"

lemma drainsI:
  assumes "maps_wf st \<Longrightarrow> maps_wf st'"
    and "\<And>a. holding st (Spendable a) \<le> holding st' (Spendable a)" "\<And>a. holding st (System a) \<le> holding st' (System a)"
    and "\<And>rid. holding st' (Unclaimed rid) = holding st (Unclaimed rid)" "\<And>pid. holding st' (Escrow pid) \<le> holding st (Escrow pid)"
  shows "drains st st'"
  using assms by (simp add: drains_def split: holder.split)

lemma drains_trans:
  assumes "drains st st1" and "drains st1 st2"
  shows "drains st st2"
  unfolding drains_def
proof (intro impI conjI allI)
  assume "maps_wf st"
  with assms have wf1: "maps_wf st1" and 1: "\<And>h. case h of Spendable a \<Rightarrow> holding st h \<le> holding st1 h | System a \<Rightarrow> holding st h \<le> holding st1 h
      | Unclaimed rid \<Rightarrow> holding st1 h = holding st h | Escrow pid \<Rightarrow> holding st1 h \<le> holding st h"
    by (simp_all add: drains_def)
  with assms(2) have wf2: "maps_wf st2" and 2: "\<And>h. case h of Spendable a \<Rightarrow> holding st1 h \<le> holding st2 h | System a \<Rightarrow> holding st1 h \<le> holding st2 h
      | Unclaimed rid \<Rightarrow> holding st2 h = holding st1 h | Escrow pid \<Rightarrow> holding st2 h \<le> holding st1 h"
    by (simp_all add: drains_def)
  show "maps_wf st2" by (rule wf2)
  fix h
  show "case h of Spendable a \<Rightarrow> holding st h \<le> holding st2 h | System a \<Rightarrow> holding st h \<le> holding st2 h
      | Unclaimed rid \<Rightarrow> holding st2 h = holding st h | Escrow pid \<Rightarrow> holding st2 h \<le> holding st h"
    using 1 [of h] 2 [of h] by (cases h) auto
qed

lemma escrow_to_account_drains:
  assumes "map_find (leases st) i = Some l" and "lease_value (f l) \<le> lease_value l"
    and "map_find (accounts st) a = Some acc" and "balance acc \<le> balance (g acc)" "system_balance acc \<le> system_balance (g acc)"
  shows "drains st (st \<lparr> leases := map_adjust i f (leases st), accounts := map_adjust a g (accounts st) \<rparr>)"
  using assms by (intro drainsI) (auto simp: holding_def maps_wf_def word_le_nat_alt)

lemma unat_le_add: "b \<le> U64_MAX - a \<Longrightarrow> a \<le> a + b" for a b :: u64
  using unat_add_checked [of b a] by (simp add: word_le_nat_alt add.commute)

interpretation drain: escrow_relation drains
proof
  show "drains st st" for st by (rule drainsI) simp_all
  show "\<not> maps_wf st \<Longrightarrow> drains st st'" for st st' by (simp add: drains_def)
  show "drains st s \<Longrightarrow> drains st (s \<lparr> settlement := cur \<rparr>)" for st s cur
    by (erule drains_trans) (rule drainsI; simp add: maps_wf_def)
  show "drains st (update_term loc f st)" for st loc f
    unfolding update_term_def
    by (rule drainsI) (auto simp: holding_def maps_wf_def lease_value_def split: option.split)
  fix st :: CybouState and i l a acc "on" lk ts
  assume l: "map_find (leases st) i = Some l" and acc: "map_find (accounts st) a = Some acc"
    and le: "on \<le> sl_escrow_onboarding l" "lk \<le> sl_escrow_locked l" "on \<le> U64_MAX - system_balance acc"
  let ?f = "\<lambda>l :: StorageLeaseRecord. l \<lparr> sl_escrow_onboarding := sl_escrow_onboarding l - on, sl_escrow_locked := sl_escrow_locked l - lk,
      sl_funded_terms := ts l \<rparr>"
  have v: "lease_value (?f l) \<le> lease_value l"
    using le by (simp add: lease_value_def unat_sub word_le_nat_alt)
  show "drains st (st \<lparr> leases := map_adjust i (\<lambda>l. l \<lparr> sl_escrow_onboarding := sl_escrow_onboarding l - on,
             sl_escrow_locked := sl_escrow_locked l - lk, sl_funded_terms := ts l \<rparr>) (leases st),
           accounts := map_adjust a (\<lambda>a. a \<lparr> system_balance := system_balance a + on,
             onboarding_system_balance := onboarding_system_balance a + on, balance := balance a + lk \<rparr>) (accounts st) \<rparr>)"
    if "lk \<le> U64_MAX - balance acc"
    using that le(3) by (intro escrow_to_account_drains [where f = ?f, OF l v acc]) (simp_all add: unat_le_add)
  show "drains st (st \<lparr> accounts := map_adjust a (\<lambda>a. a \<lparr> system_balance := system_balance a + (on + lk),
             onboarding_system_balance := onboarding_system_balance a + on \<rparr>) (accounts st),
           leases := map_adjust i (\<lambda>l. l \<lparr> sl_escrow_onboarding := sl_escrow_onboarding l - on,
             sl_escrow_locked := sl_escrow_locked l - lk, sl_funded_terms := ts l \<rparr>) (leases st) \<rparr>)"
    if le2: "lk \<le> U64_MAX - system_balance acc - on"
  proof -
    have "on + lk \<le> U64_MAX - system_balance acc"
      using unat_sub [OF le(3)] le2 le(3) unat_lt64 [of "U64_MAX - system_balance acc"]
        unat_add_fits [of "on" lk] by (simp add: word_le_nat_alt)
    then have "system_balance acc \<le> system_balance acc + (on + lk)" by (rule unat_le_add)
    then have "drains st (st \<lparr> leases := map_adjust i ?f (leases st), accounts := map_adjust a (\<lambda>a. a \<lparr>
        system_balance := system_balance a + (on + lk), onboarding_system_balance := onboarding_system_balance a + on \<rparr>) (accounts st) \<rparr>)"
      by (intro escrow_to_account_drains [where f = ?f, OF l v acc]) simp_all
    moreover have "st \<lparr> leases := x, accounts := y \<rparr> = st \<lparr> accounts := y, leases := x \<rparr>" for x y by simp
    ultimately show ?thesis by simp
  qed
qed (rule drains_trans; assumption)

end
