(* ===== verification/SampleOps.thy ===== *)
theory SampleOps
  imports Samples Holdings
begin

text \<open>
  Further operations that succeed on the sample network: a lock, the creation of a third account, and a name that was
  committed and is then revealed.
\<close>

section \<open>A lock\<close>

definition sample_lock :: AuthorizedSystemLock where
  "sample_lock = \<lparr> asl_authorization = sample_auth SYSTEM_LOCK 1, asl_lock = \<lparr> lock_amount = 40 \<rparr> \<rparr>"

lemma sample_lock_applies: "\<exists>st'. ApplySystemLock tail_crypto sample_lock 5 sample_state = (SystemLockError.NONE, st')"
proof -
  have c: "ComputeSystemLockPayloadCommitment tail_crypto \<lparr> lock_amount = 40 \<rparr> = Some 1"
    by (simp add: ComputeSystemLockPayloadCommitment_def SerializeSystemLockPayload_def tail_hash_def last_le_bytes)
  have s: "map_find (accounts sample_state) 1 = Some \<lparr> balance = 100, system_balance = 50000, onboarding_system_balance = 5, creation_height = 0, creation_epoch = 0 \<rparr>"
    "Registry_Find (identities sample_state) 1 \<noteq> None"
    by (simp_all add: sample_state_def Registry_Find_def)
  then show ?thesis using sample_authorized [of 5 1 SYSTEM_LOCK] c
    by (simp add: ApplySystemLock_def sample_lock_def Let_def word_less_nat_alt unat_sub unat_U64_MAX)
qed

section \<open>A new account\<close>

definition sample_kem :: IdentityKemPackage where
  "sample_kem = be_word ([ucast IDENTITY_KEM_PROFILE_XWING, ucast (drop_bit 8 IDENTITY_KEM_PROFILE_XWING)]
     @ replicate 1183 0 @ [1] @ replicate 31 0 @ [1])"

definition sample_descriptor :: IdentityAuthorization where
  "sample_descriptor = \<lparr> recovery_root = sample_key RECOVERY_ROOT 3,
     authorization_key = (sample_key AUTHORIZATION 3) \<lparr> pk_ed25519 := 2 \<rparr> \<rparr>"

definition sample_create :: AccountCreateOp where
  "sample_create = \<lparr> aco_account_id = 3, aco_authorization = sample_descriptor, aco_kem_package = sample_kem,
     aco_work = \<lparr> acw_network_binding = 5, acw_account_id = 3, acw_authorization_commitment = 3, acw_work_epoch = 0, acw_nonce = 0 \<rparr>,
     aco_recovery_pop = sample_sig RECOVERY_ROOT, aco_authorization_pop = sample_sig AUTHORIZATION \<rparr>"

lemma sample_kem_bytes: "kem_bytes sample_kem = [ucast IDENTITY_KEM_PROFILE_XWING, ucast (drop_bit 8 IDENTITY_KEM_PROFILE_XWING)]
     @ replicate 1183 0 @ [1] @ replicate 31 0 @ [1]"
  by (simp add: sample_kem_def be_bytes_be_word)

lemma sample_kem_decodes: "\<exists>k. DecodeIdentityKemPackage tail_crypto (kem_bytes sample_kem) = Some k"
  unfolding sample_kem_bytes
  by (simp add: DecodeIdentityKemPackage_def IDENTITY_KEM_PACKAGE_SIZE_def Let_def X25519SharedSecret_def tail_crypto_def HasNonzero_def
      list_ex_iff)

lemma sample_kem_commitment: "ComputeIdentityKemPackageCommitment tail_crypto 5 3 0 sample_kem = Some 2"
proof -
  have "tail_hash (x @ kem_bytes sample_kem) = 2" for x by (simp add: tail_hash_def sample_kem_bytes)
  from this [of "concat [str ''CYBOU/IDENTITY-KEM-PACKAGE'', [0], hash_bytes (5 :: hash256), hash_bytes (3 :: hash256), le_bytes 8 (0 :: u64),
      le_bytes 2 (of_nat IDENTITY_KEM_PACKAGE_SIZE :: u16)]"]
  show ?thesis using sample_kem_decodes by (auto simp: ComputeIdentityKemPackageCommitment_def)
qed

lemma sample_descriptor_valid: "IdentityAuthorization_Valid sample_descriptor"
  by (simp add: IdentityAuthorization_Valid_def sample_descriptor_def sample_key_def HasNonzero_be_bytes PublicSize_def)
    (simp add: HasNonzero_def)

lemma tail_hash_snoc: "tail_hash (xs @ [b]) = ucast b + 1"
  by (simp add: tail_hash_def)

lemma last_hash_bytes: "last (be_bytes 32 (h :: hash256)) = ucast h"
  by (simp add: be_bytes_def last_rev) (simp add: le_bytes_def hd_map)

lemma tail_hash_hash: "tail_hash (xs @ hash_bytes (h :: hash256)) = ucast (ucast h :: byte) + 1"
  using last_hash_bytes [of h] by (simp add: tail_hash_def)

lemma sample_auth_key_id: "\<exists>k. ComputeAuthorizationKeyId tail_crypto (authorization_key sample_descriptor) = Some k"
  by (simp add: ComputeAuthorizationKeyId_def key_wellformed_def sample_descriptor_def HasNonzero_be_bytes)
    (simp add: sample_key_def HasNonzero_def PublicSize_def)

lemma sample_recovery_key: "ComputeRecoveryKeyId tail_crypto (recovery_root sample_descriptor) = Some 4"
  by (simp add: sample_descriptor_def)

lemma sample_create_commitment: "ComputeAccountCreateAuthorizationCommitment tail_crypto sample_descriptor 2 = Some 3"
  using sample_descriptor_valid
  by (simp add: ComputeAccountCreateAuthorizationCommitment_def ComputeIdentityAuthorizationCommitment_def
      SerializeIdentityAuthorization_def tail_hash_hash flip: append_assoc)

lemma sample_create_work: "CheckAccountCreationWork tail_crypto (aco_work sample_create) (account_creation_work_bits DevProtocolParameters)"
  by (simp add: CheckAccountCreationWork_def ComputeAccountCreateWorkHash_def SerializeAccountCreationWork_def sample_create_def
      HashWithDomain_def HasWork_iff tail_hash_def last_le_bytes DevProtocolParameters_def)

lemma sample_create_valid:
  "ValidateAccountCreateOp tail_crypto sample_create 5 1 DevProtocolParameters = AccountCreateError.NONE"
proof -
  have f: "aco_account_id sample_create = 3" "aco_authorization sample_create = sample_descriptor" "aco_kem_package sample_create = sample_kem"
    "acw_network_binding (aco_work sample_create) = 5" "acw_account_id (aco_work sample_create) = 3"
    "acw_authorization_commitment (aco_work sample_create) = 3" "acw_work_epoch (aco_work sample_create) = 0"
    "aco_recovery_pop sample_create = sample_sig RECOVERY_ROOT" "aco_authorization_pop sample_create = sample_sig AUTHORIZATION"
    by (simp_all add: sample_create_def)
  have ser: "SerializeAccountCreateOp tail_crypto sample_create \<noteq> None"
    using sample_descriptor_valid sample_kem_decodes
    by (auto simp: SerializeAccountCreateOp_def SerializeIdentityAuthorization_def SerializeAccountCreationWork_def f ValidSignatures_def
        sample_sig_def SignatureSize_def)
  have p: "identity_kem_xwing_enabled DevProtocolParameters" "EpochForHeight 1 DevProtocolParameters = 0"
    by (simp_all add: DevProtocolParameters_def EpochForHeight_def)
  obtain k where k: "ComputeAuthorizationKeyId tail_crypto (authorization_key sample_descriptor) = Some k" using sample_auth_key_id by blast
  have v: "VerifyIdentityMessage tail_crypto (recovery_root sample_descriptor) (sample_sig RECOVERY_ROOT) m"
    "VerifyIdentityMessage tail_crypto (authorization_key sample_descriptor) (sample_sig AUTHORIZATION) m" for m
    by (simp_all add: sample_descriptor_def) (simp add: VerifyIdentityMessage_def sample_key_def sample_sig_def PublicSize_def)
  have d: "ComputeAccountCreatePopDigest tail_crypto 5 3 sample_descriptor 2 \<noteq> None"
    by (simp add: ComputeAccountCreatePopDigest_def sample_create_commitment HashWithDomain_def)
  show ?thesis
    unfolding ValidateAccountCreateOp_def f
    using ser p k d sample_create_work by (auto simp: sample_kem_commitment sample_create_commitment v)
qed

lemma sample_registers:
  "\<exists>registry. Register tail_crypto sample_create 5 1 DevProtocolParameters (identities sample_state) = (IdentityRegistryError.NONE, registry)"
proof -
  have f: "aco_account_id sample_create = 3" "aco_authorization sample_create = sample_descriptor" "aco_kem_package sample_create = sample_kem"
    by (simp_all add: sample_create_def)
  have "map_find (m_accounts (identities sample_state)) 3 = None" "map_find (m_recovery_index (identities sample_state)) 4 = None"
    by (simp_all add: sample_state_def)
  then show ?thesis using sample_auth_key_id
    by (auto simp: Register_def sample_create_valid f sample_recovery_key sample_kem_commitment map_contains_def)
qed

lemma sample_no_claim: "claimed_allocation tail_crypto sample_create sample_state = None"
  by (simp add: claimed_allocation_def sample_create_def sample_recovery_key) (simp add: sample_state_def)

lemma sample_bonus: "create_bonus DevProtocolParameters None = 20000"
  by (simp add: create_bonus_def DevProtocolParameters_def)

lemma sample_create_applies:
  "\<exists>st'. ApplyAccountCreate tail_crypto sample_create 5 1 DevProtocolParameters sample_state = (AccountCreateStateError.NONE, st')"
proof -
  have f: "aco_account_id sample_create = 3" by (simp add: sample_create_def)
  have s: "length (accounts sample_state) = length (m_accounts (identities sample_state))"
    "\<not> list_ex (\<lambda>(i, acc). Registry_Find (identities sample_state) i = None) (accounts sample_state)"
    "\<not> length (accounts sample_state) \<ge> MAX_IDENTITY_REGISTRY_ACCOUNTS" "\<not> map_contains (accounts sample_state) 3"
    by (simp_all add: sample_state_def Registry_Find_def MAX_IDENTITY_REGISTRY_ACCOUNTS_def map_contains_def)
  obtain registry where "Register tail_crypto sample_create 5 1 DevProtocolParameters (identities sample_state) = (IdentityRegistryError.NONE, registry)"
    using sample_registers by blast
  then show ?thesis
    unfolding ApplyAccountCreate_def f Let_def sample_no_claim sample_bonus sample_treasury using s sample_treasury(2) by simp
qed


section \<open>A name\<close>

definition naming_state :: CybouState where
  "naming_state = sample_state \<lparr> names := \<lparr> nr_names = [], account_names = [],
     pending_commits = [(2, \<lparr> ncr_account_id = 1, ncr_commit_height = 0 \<rparr>)] \<rparr> \<rparr>"

definition sample_reveal :: AuthorizedNameReveal where
  "sample_reveal = \<lparr> anr_authorization = sample_auth NAME_REVEAL 1,
     anr_reveal = \<lparr> nrp_label = ''alice'', nrp_salt = 1, nrp_work = \<lparr> ncw_network_binding = 5, ncw_account_id = 1,
       ncw_commitment = 2, ncw_work_epoch = 0, ncw_nonce = 0 \<rparr> \<rparr> \<rparr>"

lemma sample_name_commitment: "ComputeNameCommitment tail_crypto 5 1 ''alice'' 1 = Inr 2"
  unfolding ComputeNameCommitment_def Sha256_Finalize_def append_assoc [symmetric] tail_crypto_simps
  by (simp only: tail_hash_hash option.case) simp

lemma sample_name_work: "CheckNameClaimWork tail_crypto (nrp_work (anr_reveal sample_reveal)) 16 = Inr True"
proof -
  have "HasWork 1 16" by (simp add: HasWork_iff)
  then have "16 \<le> leading_zero_bits (hash_bytes (1 :: hash256))" by (simp add: HasWork_def)
  then show ?thesis
    by (simp add: CheckNameClaimWork_def ComputeNameClaimWorkHash_def SerializeNameClaimWork_def sample_reveal_def
        Sha256_Finalize_def tail_hash_def last_le_bytes)
qed

lemma sample_reveal_payload: "ComputeNameRevealPayloadCommitment tail_crypto (anr_reveal sample_reveal) = Inr (Some 1)"
  by (simp add: ComputeNameRevealPayloadCommitment_def SerializeNameRevealPayload_def SerializeNameClaimWork_def sample_reveal_def
      NAME_MIN_LABEL_LENGTH_def NAME_MAX_LABEL_LENGTH_def Sha256_Finalize_def tail_hash_def last_le_bytes)

lemma sample_reveal_applies:
  "\<exists>st'. ApplyNameReveal tail_crypto sample_reveal 5 1 DevProtocolParameters naming_state = Inr (NameRevealError.NONE, st')"
proof -
  have r: "anr_authorization sample_reveal = sample_auth NAME_REVEAL 1" "nrp_label (anr_reveal sample_reveal) = ''alice''"
    "nrp_salt (anr_reveal sample_reveal) = 1" "ncw_commitment (nrp_work (anr_reveal sample_reveal)) = 2"
    "ncw_network_binding (nrp_work (anr_reveal sample_reveal)) = 5" "ncw_account_id (nrp_work (anr_reveal sample_reveal)) = 1"
    "ncw_work_epoch (nrp_work (anr_reveal sample_reveal)) = 0"
    by (simp_all add: sample_reveal_def)
  have n: "names naming_state = \<lparr> nr_names = [], account_names = [], pending_commits = [(2, \<lparr> ncr_account_id = 1, ncr_commit_height = 0 \<rparr>)] \<rparr>"
    "identities naming_state = identities sample_state" "\<exists>acc. map_find (accounts naming_state) 1 = Some acc"
    "\<not> list_ex (\<lambda>(i, a). ga_label a = ''alice'') (genesis_allocations naming_state)"
    by (simp_all add: naming_state_def sample_state_def map_contains_def CENTRAL_AUTHORITY_NAME_def)
  have l: "ValidateNameLabel ''alice'' = NameValidationError.NONE" by code_simp
  have p: "name_commit_min_depth DevProtocolParameters = 1" "name_commit_max_lifetime DevProtocolParameters = 1000"
    "EpochForHeight 1 DevProtocolParameters = 0" "name_claim_work_bits DevProtocolParameters = 16"
    by (simp_all add: DevProtocolParameters_def EpochForHeight_def)
  show ?thesis
    unfolding ApplyNameReveal_def r Let_def
    using sample_authorized [of 5 1 NAME_REVEAL]
    by (simp add: sample_reveal_payload sample_name_commitment sample_name_work n l p map_contains_def)
qed


section \<open>A publication with a lease\<close>

definition sample_publication :: RootPublication where
  "sample_publication = \<lparr> rp_root_chunk_id = 1, rp_chunk_authorization_root = 1, rp_chunk_count = 1, rp_lease_periods = 2,
     rp_recipient_capsules = [\<lparr> cap_kem_profile = IDENTITY_KEM_PROFILE_XWING, cap_key_epoch = 0, cap_encapsulation = 0,
       cap_wrapped_content_key = 0 \<rparr>] \<rparr>"

definition sample_publish :: AuthorizedRootPublication where
  "sample_publish = \<lparr> arp_authorization = sample_auth ROOT_PUBLICATION 1, arp_publication = sample_publication \<rparr>"

definition sample_publish_bytes :: bytes where
  "sample_publish_bytes = 7 # the (SerializeIdentityOperationAuthorization (sample_auth ROOT_PUBLICATION 1) ROOT_PUBLICATION)
     @ publication_bytes sample_publication"

lemma last_be_bytes: "0 < n \<Longrightarrow> last (be_bytes n w) = ucast w"
  by (simp add: be_bytes_def last_rev) (simp add: le_bytes_def hd_map)

lemma tail_publication: "tail_hash (xs @ publication_bytes sample_publication) = 1"
  by (simp add: tail_hash_def publication_bytes_def sample_publication_def capsule_bytes_def last_be_bytes)

lemma sample_publish_serializes:
  "SerializeProtocolOperation tail_crypto (OpRootPublication sample_publish) = Inr (Some sample_publish_bytes)"
  "length sample_publish_bytes = 3830" "OperationIdOfBytes tail_crypto sample_publish_bytes = Some 1"
  "ComputeRootPublicationPayloadCommitment tail_crypto sample_publication = Some 1"
proof -
  have v: "IsValidPublication sample_publication"
    by (simp add: IsValidPublication_def sample_publication_def ROOT_PUBLICATION_MAX_CAPSULES_def)
  show c: "ComputeRootPublicationPayloadCommitment tail_crypto sample_publication = Some 1"
    using v by (simp add: ComputeRootPublicationPayloadCommitment_def SerializeRootPublication_eq tail_publication flip: append_assoc)
  obtain ab where ab: "SerializeIdentityOperationAuthorization (sample_auth ROOT_PUBLICATION 1) ROOT_PUBLICATION = Some ab"
    by (simp add: SerializeIdentityOperationAuthorization_def sample_sig_def SignatureSize_def HasNonzero_def list_ex_iff)
  have lab: "length ab = 2565" using length_auth_bytes [OF ab] by (simp add: IDENTITY_OPERATION_AUTH_SIZE_def)
  have lp: "length (publication_bytes sample_publication) = 1264"
    by (simp add: length_publication_bytes) (simp add: sample_publication_def)
  show l: "length sample_publish_bytes = 3830" using lab lp by (simp add: sample_publish_bytes_def ab)
  show "SerializeProtocolOperation tail_crypto (OpRootPublication sample_publish) = Inr (Some sample_publish_bytes)"
    using lab lp v by (simp add: SerializeRootPublicationOperation_def SerializeAuthorizedPayload_def sample_publish_def c
        SerializeRootPublication_eq ab sample_publish_bytes_def TaggedOperationBytes_def mapE_def ROOT_PUBLICATION_MAX_OPERATION_BYTES_def)
  show "OperationIdOfBytes tail_crypto sample_publish_bytes = Some 1"
    using tail_publication [of "str ''CYBOU/OP-ID'' @ 7 # ab"] by (simp add: OperationIdOfBytes_def sample_publish_bytes_def ab)
qed

lemma sample_publication_fee: "ComputeRootPublicationFee DevProtocolParameters 3830 1 = Some 20"
  by (simp add: ComputeRootPublicationFee_iff publication_fee_def ceil_div_kib DevProtocolParameters_def)

lemma sample_budget:
  "ComputeAssignedStorageBudget 1 2 2 86400 5 = Some \<lparr> per_replica = 1, budget_total = 2, budget_unit_seconds = 172800 \<rparr>"
  by (simp add: ComputeAssignedStorageBudget_iff ceil_div_def rent_den_def)

lemma sample_publish_applies:
  "\<exists>st'. ApplyRootPublication tail_crypto sample_publish 5 DevProtocolParameters sample_state = Inr (RootPublicationError.NONE, st')"
proof -
  let ?st1 = "pay_fee 1 20 (sample_state \<lparr> identities := paid_registry \<rparr>)"
  have f: "arp_authorization sample_publish = sample_auth ROOT_PUBLICATION 1" "arp_publication sample_publish = sample_publication"
    "rp_chunk_count sample_publication = 1" "rp_lease_periods sample_publication = 2"
    by (simp_all add: sample_publish_def sample_publication_def)
  have p: "max_storage_lease_periods DevProtocolParameters = 3650" "storage_replica_target DevProtocolParameters = 2"
    "storage_settlement_period_seconds DevProtocolParameters = 86400" "storage_rate_per_gib_day_replica DevProtocolParameters = 5"
    by (simp_all add: DevProtocolParameters_def)
  have s: "map_find (accounts sample_state) 1 = Some \<lparr> balance = 100, system_balance = 50000, onboarding_system_balance = 5, creation_height = 0, creation_epoch = 0 \<rparr>"
    "Registry_Find (identities sample_state) 1 \<noteq> None" "leases sample_state = []" "next_period (settlement sample_state) = 0"
    by (simp_all add: sample_state_def Registry_Find_def)
  have a: "AuthorizeOperation tail_crypto (sample_auth ROOT_PUBLICATION 1) 5 (identities sample_state) = (IdentityRegistryError.NONE, paid_registry)"
    by (simp add: sample_authorized paid_registry_def)
  have e: "ComputeStorageLeaseEscrow DevProtocolParameters 1 2 2 = Some 2"
    by (simp add: ComputeStorageLeaseEscrow_def p sample_budget)
  obtain acc' where "map_find (accounts ?st1) 1 = Some acc'"
    using pay_fee_accounts [of "sample_state \<lparr> identities := paid_registry \<rparr>" 1 _ 20] s(1) by auto
  then have "\<exists>st'. FundStorageLease ?st1 1 1 1 2 2 2 DevProtocolParameters 1 = Inr st'"
    by (simp add: FundStorageLease_def Let_def p sample_budget s lease_first_period_def map_contains_def)
  then obtain st' where "FundStorageLease ?st1 1 1 1 2 2 2 DevProtocolParameters 1 = Inr st'" by blast
  then show ?thesis
    unfolding ApplyRootPublication_def f Let_def sample_publish_serializes
    using s a e sample_can_credit [of 20] by (simp add: p sample_publish_serializes sample_publication_fee)
qed


section \<open>A settlement that closes a lease\<close>

definition sample_term :: "u64 \<Rightarrow> StorageFundedTerm" where
  "sample_term refunded = \<lparr> ft_funding_operation_id = 1, ft_first_period = 0, ft_end_period = 1, ft_rate = 5, ft_period_seconds = 86400,
     ft_replica_share = 1, ft_contracted_unit_seconds = 86400, ft_initial_onboarding = 2, ft_initial_locked = 0,
     ft_paid_onboarding = 0, ft_paid_locked = 0, ft_next_assignment_epoch = 1, ft_declarations = [], ft_assignments = [],
     ft_service_payments = [], ft_refunded_onboarding = refunded, ft_refunded_locked = 0 \<rparr>"

definition sample_lease :: "u64 \<Rightarrow> StorageLeaseRecord" where
  "sample_lease refunded = \<lparr> sl_payer = 1, sl_units = 1, sl_replicas = 2, sl_first_period = 0, sl_end_period = 1,
     sl_escrow_onboarding = 2 - refunded, sl_escrow_locked = 0, sl_funded_terms = [sample_term refunded] \<rparr>"

definition leased_state :: CybouState where
  "leased_state = sample_state \<lparr> leases := [(1, sample_lease 0)] \<rparr>"

definition settled_state :: CybouState where
  "settled_state = sample_state \<lparr>
     accounts := [(1, \<lparr> balance = 100, system_balance = 50002, onboarding_system_balance = 7, creation_height = 0, creation_epoch = 0 \<rparr>),
                 (2, \<lparr> balance = 10, system_balance = 0, onboarding_system_balance = 0, creation_height = 0, creation_epoch = 0 \<rparr>)],
     leases := [(1, sample_lease 2)], settlement := \<lparr> next_period = 1, next_period_start_utc = 86401 \<rparr> \<rparr>"

definition sample_settlement :: StorageSettlement where
  "sample_settlement = \<lparr> st_period = 0, st_period_start_utc = 1, st_entries = [], st_poa_signature = sample_sig POA_FINALIZER,
     st_action = PAY, st_funded_term_id = 0, st_preparation_id = 0, st_assignment_epoch = 0, st_eligible = [], st_manifest = [],
     st_period_end_utc = 86401, st_evidence_root = 1, st_activation_witnesses = [] \<rparr>"

lemma leased_wf: "maps_wf leased_state"
  by (simp add: maps_wf_def leased_state_def sample_state_def)

lemma sample_term_budget:
  "ComputeAssignedStorageBudget 1 2 1 86400 5 = Some \<lparr> per_replica = 1, budget_total = 2, budget_unit_seconds = 86400 \<rparr>"
  by (simp add: ComputeAssignedStorageBudget_iff ceil_div_def rent_den_def)

lemma settled_leases: "leases_valid settled_state"
proof -
  have t: "term_valid settled_state (sample_lease 2) 0 (sample_term 2)"
    by (simp add: term_valid_def sample_term_def sample_lease_def term_closed_def settled_state_def sample_term_budget U32_COUNT_MAX_def
        all_slots_def slot_service_def list_all_iff)
  have "lease_valid settled_state 1 (sample_lease 2)"
    unfolding lease_valid_def using t
    by (simp add: sample_lease_def) (simp add: settled_state_def sample_state_def sample_term_def map_contains_def MAX_STORAGE_LEASE_REPLICAS_def
        U32_COUNT_MAX_def remaining_onboarding_def remaining_locked_def)
  then show ?thesis
    by (simp add: leases_valid_def all_terms_def settled_state_def) (simp add: sample_lease_def sample_term_def assignment_ids_def)
qed

lemma settled_valid: "ValidateCybouState tail_crypto settled_state = StateValidationError.NONE"
  unfolding ValidateCybouState_NONE_iff
proof (intro conjI settled_leases)
  show "registry_names_valid settled_state"
    using sample_names_valid by (simp add: registry_names_valid_def settled_state_def sample_state_def allocation_label_valid_def)
  show "supply_bounded settled_state"
    by (simp add: supply_bounded_def money_supply_def settled_state_def sample_state_def alloc_value_def account_value_def
        lease_value_def sample_lease_def)
  show "check_accounts settled_state (accounts settled_state) = StateValidationError.NONE"
    by (simp add: settled_state_def sample_state_def Registry_Find_def)
  show "list_all (identity_indexed tail_crypto settled_state) (m_accounts (identities settled_state))"
    by (simp add: settled_state_def sample_state_def identity_indexed_def sample_identity_def FindByRecoveryKeyId_def)
qed (simp_all add: settled_state_def sample_state_def MAX_IDENTITY_REGISTRY_ACCOUNTS_def publications_valid_def)

lemma sample_pay: "ApplyPayInputs sample_settlement DevProtocolParameters leased_state = Inr (Inr settled_state)"
proof -
  have "\<exists>bs. SerializeSettlementBody sample_settlement = Some bs"
    by (simp add: SerializeSettlementBody_def sample_settlement_def MAX_STORAGE_SETTLEMENT_ENTRIES_def SETTLEMENT_HEADER_SIZE_def
        SETTLEMENT_BODY_LIMIT_def MAX_OPERATION_PAYLOAD_BYTES_def POA_SIGNATURE_SIZE_def word_le_nat_alt)
  then obtain bs where b: "SerializeSettlementBody sample_settlement = Some bs" by blast
  let ?st2 = "leased_state \<lparr> settlement := \<lparr> next_period = 1, next_period_start_utc = 86401 \<rparr> \<rparr>"
  have "state_term_locs ?st2 = [((1, 0), sample_lease 0, sample_term 0)]"
    by (simp add: state_term_locs_def lease_term_locs_def leased_state_def) (simp add: sample_lease_def)
  moreover have "refund_term (1, 0) ?st2 = Inr (Inr settled_state)"
    by (simp add: refund_term_def leased_state_def sample_state_def sample_lease_def sample_term_def term_closed_def Let_def
        remaining_onboarding_def remaining_locked_def settled_state_def)
  ultimately show ?thesis
    unfolding ApplyPayInputs_def b
    by (simp add: sample_settlement_def DevProtocolParameters_def) (simp add: leased_state_def sample_state_def)
qed

lemma sample_settlement_applies:
  "ApplyStorageSettlement tail_crypto sample_settlement 5 DevProtocolParameters (sample_key POA_FINALIZER 1) leased_state 1 7
     = Inr (StorageSettlementError.NONE, settled_state)"
proof -
  obtain digest where d: "ComputeStorageSettlementDigest tail_crypto 5 sample_settlement = Some digest"
    using sample_pay by (auto simp: ComputeStorageSettlementDigest_def ApplyPayInputs_def split: if_splits option.splits)
  have t: "TotalCybou settled_state = TotalCybou leased_state"
    using cons.ApplyPayInputs_R [of leased_state sample_settlement DevProtocolParameters] sample_pay leased_wf
      TotalCybou_exact [of settled_state] TotalCybou_exact [of leased_state]
    by (intro unsigned_word_eqI [where 'a = nat]) (simp add: yields_def conserves_def supply_bounded_def)
  have k: "purpose (sample_key POA_FINALIZER 1) = POA_FINALIZER" "st_action sample_settlement = PAY"
    "st_poa_signature sample_settlement = sample_sig POA_FINALIZER" by (simp_all add: sample_key_def sample_settlement_def)
  show ?thesis unfolding ApplyStorageSettlement_def d using sample_pay settled_valid t by (simp add: k)
qed


section \<open>A rejected operation\<close>

definition sample_executor :: BlockExecutor where
  "sample_executor = new_executor tail_crypto sample_state 5 1 DevProtocolParameters None 7"

definition zero_payment :: AuthorizedPayment where
  "zero_payment = sample_payment \<lparr> ap_payment := \<lparr> pay_recipient = 2, pay_amount = 0 \<rparr> \<rparr>"

definition rejected_executor :: BlockExecutor where
  "rejected_executor = sample_executor \<lparr> m_valid := False \<rparr>"

lemma sample_executor_valid: "m_valid sample_executor"
  by (simp add: sample_executor_def new_executor_def sample_valid Let_def)

lemma sample_rejects: "ApplyOperation tail_crypto (OpPayment zero_payment) sample_executor
    = Inr (fail_result INVALID_PAYMENT (PaymentDetail PaymentError.ZERO_AMOUNT), rejected_executor)"
  using sample_executor_valid
  by (simp add: ApplyOperation_def dispatch_def Let_def outcome_def ApplyPayment_def sample_payment_def zero_payment_def
      executor_fail_def rejected_executor_def)

lemma rejected_reach:
  "executor_reach tail_crypto (new_executor tail_crypto sample_state 5 1 DevProtocolParameters None 7) rejected_executor"
  using sample_rejects unfolding sample_executor_def by (rule executor_reach.apply_op [OF executor_reach.start])

end
