(* ===== verification/PoaFinality.thy ===== *)
theory PoaFinality
  imports Operation
begin

text \<open>
  The PoA finality certificate (\<^verbatim>\<open>poa_finality.h/.cpp\<close>): the certificate, its digest, its verification and its
  canonical wire format of fixed size.
\<close>

definition POA_FINALITY_CERTIFICATE_SIZE :: nat where
  "POA_FINALITY_CERTIFICATE_SIZE = 32 + 32 + 8 + 32 + 64 + 3309"

record PoaFinalityCertificate =
  pfc_network_binding :: hash256
  pfc_block_id :: hash256
  pfc_height :: u64
  pfc_parent_block_id :: hash256
  pfc_signature :: IdentityHybridSignature

definition ValidFields :: "PoaFinalityCertificate \<Rightarrow> bool" where
  "ValidFields c \<longleftrightarrow> pfc_network_binding c \<noteq> 0 \<and> pfc_block_id c \<noteq> 0 \<and> pfc_height c \<noteq> 0 \<and> pfc_parent_block_id c \<noteq> 0
     \<and> length (sig_ml_dsa (pfc_signature c)) = 3309
     \<and> HasNonzero (ed_sig_bytes (sig_ed25519 (pfc_signature c))) \<and> HasNonzero (sig_ml_dsa (pfc_signature c))"

definition ComputePoaFinalityDigest :: "crypto \<Rightarrow> hash256 \<Rightarrow> hash256 \<Rightarrow> u64 \<Rightarrow> hash256 \<Rightarrow> exn + hash256" where
  "ComputePoaFinalityDigest C network_binding block_id height parent_block_id =
     Sha256_Finalize C (str ''CYBOU/POA-FINALITY'' @ hash_bytes network_binding @ hash_bytes block_id
       @ le_bytes 8 height @ hash_bytes parent_block_id)"

definition VerifyPoaFinalityCertificate ::
  "crypto \<Rightarrow> PoaFinalityCertificate \<Rightarrow> IdentityHybridPublicKey \<Rightarrow> hash256 \<Rightarrow> hash256 \<Rightarrow> u64 \<Rightarrow> hash256 \<Rightarrow> exn + bool" where
  "VerifyPoaFinalityCertificate C c key nb block_id height parent =
     (if \<not> ValidFields c \<or> purpose key \<noteq> POA_FINALIZER \<or> length (pk_ml_dsa key) \<noteq> 1952
         \<or> \<not> HasNonzero (be_bytes 32 (pk_ed25519 key)) \<or> \<not> HasNonzero (pk_ml_dsa key)
         \<or> pfc_network_binding c \<noteq> nb \<or> pfc_block_id c \<noteq> block_id \<or> pfc_height c \<noteq> height \<or> pfc_parent_block_id c \<noteq> parent
      then Inr False
      else bindE (ComputePoaFinalityDigest C (pfc_network_binding c) (pfc_block_id c) (pfc_height c) (pfc_parent_block_id c))
        (\<lambda>digest. Inr (VerifyIdentityMessage C key (pfc_signature c) (hash_bytes digest))))"

definition SerializePoaFinalityCertificate :: "PoaFinalityCertificate \<Rightarrow> bytes option" where
  "SerializePoaFinalityCertificate c =
     (if \<not> ValidFields c then None
      else Some (hash_bytes (pfc_network_binding c) @ hash_bytes (pfc_block_id c) @ le_bytes 8 (pfc_height c)
        @ hash_bytes (pfc_parent_block_id c) @ ed_sig_bytes (sig_ed25519 (pfc_signature c)) @ sig_ml_dsa (pfc_signature c)))"

definition DeserializePoaFinalityCertificate :: "bytes \<Rightarrow> PoaFinalityCertificate option" where
  "DeserializePoaFinalityCertificate bs =
     (if length bs \<noteq> POA_FINALITY_CERTIFICATE_SIZE then None
      else let c = \<lparr> pfc_network_binding = be_word (subspan 0 32 bs), pfc_block_id = be_word (subspan 32 32 bs),
             pfc_height = le_word (subspan 64 8 bs), pfc_parent_block_id = be_word (subspan 72 32 bs),
             pfc_signature = \<lparr> sig_ed25519 = be_word (subspan 104 64 bs), sig_ml_dsa = drop 168 bs \<rparr> \<rparr>
        in if \<not> ValidFields c then None else Some c)"

interpretation certificate: sized_codec SerializePoaFinalityCertificate DeserializePoaFinalityCertificate
  POA_FINALITY_CERTIFICATE_SIZE
proof unfold_locales
  fix c bs assume "SerializePoaFinalityCertificate c = Some bs"
  then have v: "ValidFields c"
    and b: "bs = hash_bytes (pfc_network_binding c) @ hash_bytes (pfc_block_id c) @ le_bytes 8 (pfc_height c)
        @ hash_bytes (pfc_parent_block_id c) @ ed_sig_bytes (sig_ed25519 (pfc_signature c)) @ sig_ml_dsa (pfc_signature c)"
    by (auto simp: SerializePoaFinalityCertificate_def split: if_splits)
  show l: "length bs = POA_FINALITY_CERTIFICATE_SIZE"
    using v by (simp add: b ValidFields_def POA_FINALITY_CERTIFICATE_SIZE_def)
  have f: "subspan 0 32 bs = hash_bytes (pfc_network_binding c)" "subspan 32 32 bs = hash_bytes (pfc_block_id c)"
    "subspan 64 8 bs = le_bytes 8 (pfc_height c)" "subspan 72 32 bs = hash_bytes (pfc_parent_block_id c)"
    "subspan 104 64 bs = ed_sig_bytes (sig_ed25519 (pfc_signature c))" "drop 168 bs = sig_ml_dsa (pfc_signature c)"
    unfolding b by (simp_all add: subspan_def)
  show "DeserializePoaFinalityCertificate bs = Some c"
    using l v unfolding DeserializePoaFinalityCertificate_def f by (simp add: be_word_be_bytes le_word_le_bytes Let_def ValidFields_def)
next
  fix c bs assume "DeserializePoaFinalityCertificate bs = Some c"
  then have l: "length bs = 3477" and v: "ValidFields c"
    and c: "c = \<lparr> pfc_network_binding = be_word (subspan 0 32 bs), pfc_block_id = be_word (subspan 32 32 bs),
             pfc_height = le_word (subspan 64 8 bs), pfc_parent_block_id = be_word (subspan 72 32 bs),
             pfc_signature = \<lparr> sig_ed25519 = be_word (subspan 104 64 bs), sig_ml_dsa = drop 168 bs \<rparr> \<rparr>"
    by (auto simp: DeserializePoaFinalityCertificate_def POA_FINALITY_CERTIFICATE_SIZE_def Let_def split: if_splits)
  have "bs = subspan 0 32 bs @ subspan 32 32 bs @ subspan 64 8 bs @ subspan 72 32 bs @ subspan 104 64 bs @ drop 168 bs"
    using l subspan_drop [of 0 32 bs] subspan_drop [of 32 32 bs] subspan_drop [of 64 8 bs] subspan_drop [of 72 32 bs]
      subspan_drop [of 104 64 bs] by simp
  moreover have "hash_bytes (be_word (subspan 0 32 bs)) = subspan 0 32 bs" "hash_bytes (be_word (subspan 32 32 bs)) = subspan 32 32 bs"
    "le_bytes 8 (le_word (subspan 64 8 bs) :: u64) = subspan 64 8 bs" "hash_bytes (be_word (subspan 72 32 bs)) = subspan 72 32 bs"
    "ed_sig_bytes (be_word (subspan 104 64 bs)) = subspan 104 64 bs"
    using l by (simp_all add: be_bytes_be_word le_bytes_le_word length_subspan)
  ultimately show "SerializePoaFinalityCertificate c = Some bs"
    using v by (simp add: SerializePoaFinalityCertificate_def c)
qed

lemma verified_certificate:
  assumes "VerifyPoaFinalityCertificate C c key nb b h p = Inr True"
  shows "ValidFields c \<and> pfc_network_binding c = nb \<and> pfc_block_id c = b \<and> pfc_height c = h \<and> pfc_parent_block_id c = p
    \<and> (\<exists>digest. ComputePoaFinalityDigest C nb b h p = Inr digest \<and> VerifyIdentityMessage C key (pfc_signature c) (hash_bytes digest))"
  using assms by (auto simp: VerifyPoaFinalityCertificate_def bindE_Inr_iff split: if_splits)


section \<open>Properties\<close>

text \<open>The certificate format is canonical: a byte string decodes to a certificate exactly when the certificate
  serializes to that byte string, which is then 3477 bytes long. Certificates with a null field or a malformed signature
  have no encoding and no byte string decodes to one.\<close>

theorem certificate_codec_exact:
  "(DeserializePoaFinalityCertificate bs = Some c \<longleftrightarrow> SerializePoaFinalityCertificate c = Some bs)
   \<and> (SerializePoaFinalityCertificate c = None \<longleftrightarrow> \<not> ValidFields c)
   \<and> (DeserializePoaFinalityCertificate bs \<noteq> None
        \<longleftrightarrow> length bs = POA_FINALITY_CERTIFICATE_SIZE \<and> (\<exists>d. ValidFields d \<and> SerializePoaFinalityCertificate d = Some bs))"
proof (intro conjI)
  show "DeserializePoaFinalityCertificate bs = Some c \<longleftrightarrow> SerializePoaFinalityCertificate c = Some bs" by (rule certificate.dec_iff)
  show n: "SerializePoaFinalityCertificate d = None \<longleftrightarrow> \<not> ValidFields d" for d by (simp add: SerializePoaFinalityCertificate_def)
  show "DeserializePoaFinalityCertificate bs \<noteq> None
      \<longleftrightarrow> length bs = POA_FINALITY_CERTIFICATE_SIZE \<and> (\<exists>d. ValidFields d \<and> SerializePoaFinalityCertificate d = Some bs)"
    using certificate.dec_iff [of bs] certificate.dec_size [of bs] n
    by (metis not_None_eq)
qed

end
