(* ===== verification/NetworkGenesis.thy ===== *)
theory NetworkGenesis
  imports PoaFinality Lease
begin

text \<open>
  The signed network genesis (\<^verbatim>\<open>network_genesis.h/.cpp\<close>): the admissible protocol parameters, the canonical
  wire format, the digest that anchors the chain and the network binding, and the check that a
  \<^verbatim>\<open>VerifiedNetworkGenesis\<close> has passed.
\<close>

section \<open>Protocol parameters\<close>

text \<open>\<^verbatim>\<open>uint64_t\<close> division: a zero divisor has no defined result and traps.\<close>

definition div_u64 :: "u64 \<Rightarrow> u64 \<Rightarrow> exn + u64" where
  "div_u64 a b = (if b = 0 then Inl division_by_zero else Inr (a div b))"

text \<open>The divisor of the rent guard, with the wrap-around of \<^verbatim>\<open>uint64_t\<close> products.\<close>

definition rent_divisor :: "CybouProtocolParameters \<Rightarrow> u64" where
  "rent_divisor params = of_nat MAX_PUBLICATION_CHUNKS * ucast (storage_replica_target params)
     * storage_settlement_period_seconds params * ucast (max_storage_lease_periods params)"

definition rent_guard :: "CybouProtocolParameters \<Rightarrow> exn + bool" where
  "rent_guard params =
     (if storage_rate_per_gib_day_replica params = 0 \<or> storage_replica_target params = 0
         \<or> storage_replica_target params > 16 \<or> storage_settlement_period_seconds params = 0
         \<or> storage_settlement_period_seconds params > 366 * 86400 \<or> max_storage_lease_periods params = 0 then Inr False
      else bindE (div_u64 U64_MAX (rent_divisor params)) (\<lambda>limit.
        Inr (\<not> storage_rate_per_gib_day_replica params > limit)))"

definition max_fee_kib :: u64 where
  "max_fee_kib = of_nat ((ROOT_PUBLICATION_MAX_OPERATION_BYTES + 1023) div 1024)"

definition fee_guard :: "CybouProtocolParameters \<Rightarrow> bool" where
  "fee_guard params =
     (let per_kib = root_publication_fee_per_started_kib params; per_chunk = root_publication_fee_per_chunk params in
      if (per_kib \<noteq> 0 \<and> max_fee_kib > U64_MAX div per_kib)
         \<or> (per_chunk \<noteq> 0 \<and> of_nat MAX_PUBLICATION_CHUNKS > U64_MAX div per_chunk) then False
      else let max_byte_fee = max_fee_kib * per_kib; max_chunk_fee = of_nat MAX_PUBLICATION_CHUNKS * per_chunk
        in \<not> max_chunk_fee > U64_MAX - max_byte_fee)"

definition ValidateProtocolParameters :: "CybouProtocolParameters \<Rightarrow> exn + bool" where
  "ValidateProtocolParameters params =
     (if unat (account_creation_work_bits params) > 32 * 8 then Inr False
      else if max_account_creates_per_block params = 0 then Inr False
      else if epoch_blocks params = 0 then Inr False
      else bindE (rent_guard params) (\<lambda>rent_ok.
        if \<not> rent_ok then Inr False
        else if \<not> fee_guard params then Inr False
        else if unat (name_claim_work_bits params) > 32 * 8 \<or> name_commit_min_depth params = 0
             \<or> name_commit_max_lifetime params < name_commit_min_depth params \<or> max_pending_name_commits params = 0
             \<or> unat (max_pending_name_commits params) > DEFAULT_MAX_PENDING_NAME_COMMITS then Inr False
        else Inr True))"


section \<open>Canonical public keys\<close>

definition purpose_byte :: "IdentityKeyPurpose \<Rightarrow> byte" where
  "purpose_byte p = (case p of RECOVERY_ROOT \<Rightarrow> 1 | AUTHORIZATION \<Rightarrow> 2 | POA_FINALIZER \<Rightarrow> 7 | STORAGE \<Rightarrow> 8 | NETWORK_ROOT \<Rightarrow> 9
     | OTHER_PURPOSE b \<Rightarrow> b)"

text \<open>\<^verbatim>\<open>static_cast<IdentityKeyPurpose>\<close> of a byte.\<close>

definition purpose_of_byte :: "byte \<Rightarrow> IdentityKeyPurpose" where
  "purpose_of_byte b = (if b = 1 then RECOVERY_ROOT else if b = 2 then AUTHORIZATION else if b = 7 then POA_FINALIZER
     else if b = 8 then STORAGE else if b = 9 then NETWORK_ROOT else OTHER_PURPOSE b)"

definition CanonicalSerializeHybridPublicKey :: "IdentityHybridPublicKey \<Rightarrow> bytes" where
  "CanonicalSerializeHybridPublicKey key =
     purpose_byte (purpose key) # be_bytes 32 (pk_ed25519 key) @ le_bytes 4 (of_nat (length (pk_ml_dsa key)) :: u32) @ pk_ml_dsa key"

definition CanonicalDeserializeHybridPublicKey :: "bytes \<Rightarrow> IdentityKeyPurpose option \<Rightarrow> IdentityHybridPublicKey option" where
  "CanonicalDeserializeHybridPublicKey bs expected_purpose =
     (if length bs < 1 + 32 + 4 then None
      else let p = purpose_of_byte (bs ! 0) in
        if expected_purpose \<noteq> None \<and> p \<noteq> the expected_purpose then None
        else case (case p of AUTHORIZATION \<Rightarrow> Some 1312 | STORAGE \<Rightarrow> Some 1312 | RECOVERY_ROOT \<Rightarrow> Some 1952
            | POA_FINALIZER \<Rightarrow> Some 1952 | NETWORK_ROOT \<Rightarrow> Some 1952 | OTHER_PURPOSE _ \<Rightarrow> None) of
            None \<Rightarrow> None
          | Some expected_ml_dsa_size \<Rightarrow>
            let ml_dsa_len = unat (le_word (subspan 33 4 bs) :: u32) in
            if 37 + ml_dsa_len \<noteq> length bs then None
            else if ml_dsa_len \<noteq> expected_ml_dsa_size then None
            else Some \<lparr> purpose = p, pk_ed25519 = be_word (subspan 1 32 bs), pk_ml_dsa = drop 37 bs \<rparr>)"

definition CanonicalSerializeNetworkPublicKey :: "IdentityHybridPublicKey \<Rightarrow> bytes" where
  "CanonicalSerializeNetworkPublicKey key = CanonicalSerializeHybridPublicKey key"

definition CanonicalDeserializeNetworkPublicKey :: "bytes \<Rightarrow> IdentityHybridPublicKey option" where
  "CanonicalDeserializeNetworkPublicKey bs = CanonicalDeserializeHybridPublicKey bs (Some NETWORK_ROOT)"

definition ComputeNetworkBinding :: "crypto \<Rightarrow> IdentityHybridPublicKey \<Rightarrow> exn + hash256" where
  "ComputeNetworkBinding C network_public_key =
     Sha256_Finalize C (str ''CYBOU/NETWORK-ID'' @ CanonicalSerializeNetworkPublicKey network_public_key)"


section \<open>The genesis and its wire format\<close>

record NetworkGenesis =
  ng_network_public_key :: IdentityHybridPublicKey
  ng_genesis_state_root :: hash256
  ng_poa_finalizer_public_key :: IdentityHybridPublicKey
  ng_protocol_parameters :: CybouProtocolParameters
  ng_signature :: IdentityHybridSignature

datatype NetworkGenesisError = NONE | INVALID_NETWORK_KEY | NULL_GENESIS_STATE_ROOT | INVALID_POA_KEY
  | INVALID_PROTOCOL_PARAMETERS | INVALID_SIGNATURE

definition parameter_bytes :: "CybouProtocolParameters \<Rightarrow> bytes" where
  "parameter_bytes p =
     le_bytes 4 (account_creation_work_bits p) @ le_bytes 8 (account_creation_epoch_lag p)
     @ le_bytes 4 (max_account_creates_per_block p) @ le_bytes 8 (onboarding_bonus p) @ le_bytes 8 (epoch_blocks p)
     @ le_bytes 8 (payment_fee p) @ le_bytes 8 (root_publication_fee_per_started_kib p)
     @ le_bytes 8 (root_publication_fee_per_chunk p) @ le_bytes 4 (name_claim_work_bits p)
     @ le_bytes 8 (name_commit_min_depth p) @ le_bytes 8 (name_commit_max_lifetime p) @ le_bytes 4 (max_pending_name_commits p)
     @ (if identity_kem_xwing_enabled p then 1 else 0) # le_bytes 8 (storage_rate_per_gib_day_replica p)
     @ storage_replica_target p # le_bytes 8 (storage_settlement_period_seconds p) @ le_bytes 4 (max_storage_lease_periods p)"

definition SerializeNetworkGenesisPayload :: "NetworkGenesis \<Rightarrow> bytes" where
  "SerializeNetworkGenesisPayload genesis =
     (let net_key_bytes = CanonicalSerializeNetworkPublicKey (ng_network_public_key genesis);
          poa_key_bytes = CanonicalSerializeHybridPublicKey (ng_poa_finalizer_public_key genesis)
      in le_bytes 4 (of_nat (length net_key_bytes) :: u32) @ net_key_bytes @ hash_bytes (ng_genesis_state_root genesis)
         @ poa_key_bytes @ parameter_bytes (ng_protocol_parameters genesis))"

definition ComputeNetworkGenesisDigest :: "crypto \<Rightarrow> NetworkGenesis \<Rightarrow> exn + hash256" where
  "ComputeNetworkGenesisDigest C genesis = Sha256_Finalize C (str ''CYBOU/GENESIS'' @ SerializeNetworkGenesisPayload genesis)"

definition SerializeSignedNetworkGenesis :: "NetworkGenesis \<Rightarrow> bytes" where
  "SerializeSignedNetworkGenesis genesis =
     SerializeNetworkGenesisPayload genesis @ ed_sig_bytes (sig_ed25519 (ng_signature genesis))
     @ le_bytes 4 (of_nat (length (sig_ml_dsa (ng_signature genesis))) :: u32) @ sig_ml_dsa (ng_signature genesis)"

text \<open>The four reading lambdas; the state is the unread rest.\<close>

definition read_u8 :: "bytes \<Rightarrow> (u8 \<times> bytes) option" where
  "read_u8 bs = (case bs of [] \<Rightarrow> None | b # r \<Rightarrow> Some (b, r))"

definition read_u32le :: "bytes \<Rightarrow> (u32 \<times> bytes) option" where
  "read_u32le bs = (if 4 > length bs then None else Some (le_word (take 4 bs), drop 4 bs))"

definition read_u64le :: "bytes \<Rightarrow> (u64 \<times> bytes) option" where
  "read_u64le bs = (if 8 > length bs then None else Some (le_word (take 8 bs), drop 8 bs))"

definition read_hash :: "bytes \<Rightarrow> (hash256 \<times> bytes) option" where
  "read_hash bs = (if 32 > length bs then None else Some (be_word (take 32 bs), drop 32 bs))"

text \<open>
  The parameters. The code reads all seventeen fields before it tests them; a read that fails leaves the position
  alone and the test then fails, so stopping at the first failure gives the same result.
\<close>

definition read_parameters :: "bytes \<Rightarrow> (CybouProtocolParameters \<times> bytes) option" where
  "read_parameters bs =
     Option.bind (read_u32le bs) (\<lambda>(work_bits, bs). Option.bind (read_u64le bs) (\<lambda>(epoch_lag, bs).
     Option.bind (read_u32le bs) (\<lambda>(max_creates, bs). Option.bind (read_u64le bs) (\<lambda>(bonus, bs).
     Option.bind (read_u64le bs) (\<lambda>(epochs, bs). Option.bind (read_u64le bs) (\<lambda>(fee, bs).
     Option.bind (read_u64le bs) (\<lambda>(per_kib, bs). Option.bind (read_u64le bs) (\<lambda>(per_chunk, bs).
     Option.bind (read_u32le bs) (\<lambda>(name_work, bs). Option.bind (read_u64le bs) (\<lambda>(name_min_depth, bs).
     Option.bind (read_u64le bs) (\<lambda>(name_max_life, bs). Option.bind (read_u32le bs) (\<lambda>(max_pending_names, bs).
     Option.bind (read_u8 bs) (\<lambda>(kem_xwing, bs). Option.bind (read_u64le bs) (\<lambda>(rate, bs).
     Option.bind (read_u8 bs) (\<lambda>(replicas, bs). Option.bind (read_u64le bs) (\<lambda>(period, bs).
     Option.bind (read_u32le bs) (\<lambda>(max_lease_periods, bs).
       if kem_xwing > 1 then None
       else Some (\<lparr> account_creation_work_bits = work_bits, account_creation_epoch_lag = epoch_lag,
         max_account_creates_per_block = max_creates, onboarding_bonus = bonus, epoch_blocks = epochs, payment_fee = fee,
         root_publication_fee_per_started_kib = per_kib, root_publication_fee_per_chunk = per_chunk,
         name_claim_work_bits = name_work, name_commit_min_depth = name_min_depth, name_commit_max_lifetime = name_max_life,
         max_pending_name_commits = max_pending_names, identity_kem_xwing_enabled = (kem_xwing = 1),
         storage_rate_per_gib_day_replica = rate, storage_replica_target = replicas,
         storage_settlement_period_seconds = period, max_storage_lease_periods = max_lease_periods \<rparr>, bs))))))))))))))))))"

definition read_poa_key :: "bytes \<Rightarrow> (IdentityHybridPublicKey \<times> bytes) option" where
  "read_poa_key bs = Option.bind (read_u8 bs) (\<lambda>(p, bs).
     if 32 + 4 > length bs then None
     else Option.bind (read_u32le (drop 32 bs)) (\<lambda>(ml_dsa_len, r).
       if unat ml_dsa_len > length r then None
       else Some (\<lparr> purpose = purpose_of_byte p, pk_ed25519 = be_word (take 32 bs), pk_ml_dsa = take (unat ml_dsa_len) r \<rparr>,
         drop (unat ml_dsa_len) r)))"

definition read_genesis_signature :: "bytes \<Rightarrow> IdentityHybridSignature option" where
  "read_genesis_signature bs =
     (if 64 + 4 > length bs then None
      else Option.bind (read_u32le (drop 64 bs)) (\<lambda>(ml_dsa_len, r).
        if unat ml_dsa_len \<noteq> length r then None
        else Some \<lparr> sig_ed25519 = be_word (take 64 bs), sig_ml_dsa = r \<rparr>))"

definition DeserializeSignedNetworkGenesis :: "bytes \<Rightarrow> NetworkGenesis option" where
  "DeserializeSignedNetworkGenesis bs =
     Option.bind (read_u32le bs) (\<lambda>(net_key_len, bs).
       if unat net_key_len > length bs then None
       else Option.bind (CanonicalDeserializeNetworkPublicKey (take (unat net_key_len) bs)) (\<lambda>net_key.
         Option.bind (read_hash (drop (unat net_key_len) bs)) (\<lambda>(state_root, bs).
         Option.bind (read_poa_key bs) (\<lambda>(poa_key, bs).
         Option.bind (read_parameters bs) (\<lambda>(p, bs).
         Option.bind (read_genesis_signature bs) (\<lambda>sig.
           Some \<lparr> ng_network_public_key = net_key, ng_genesis_state_root = state_root, ng_poa_finalizer_public_key = poa_key,
             ng_protocol_parameters = p, ng_signature = sig \<rparr>))))))"


section \<open>Verification\<close>

definition genesis_key_ok :: "IdentityKeyPurpose \<Rightarrow> IdentityHybridPublicKey \<Rightarrow> bool" where
  "genesis_key_ok p key \<longleftrightarrow> purpose key = p \<and> length (pk_ml_dsa key) = 1952 \<and> \<not> list_all (\<lambda>b. b = 0) (be_bytes 32 (pk_ed25519 key))"

definition VerifySignedNetworkGenesis :: "crypto \<Rightarrow> NetworkGenesis \<Rightarrow> exn + NetworkGenesisError" where
  "VerifySignedNetworkGenesis C genesis =
     (if \<not> genesis_key_ok NETWORK_ROOT (ng_network_public_key genesis) then Inr INVALID_NETWORK_KEY
      else if ng_genesis_state_root genesis = 0 then Inr NULL_GENESIS_STATE_ROOT
      else if \<not> genesis_key_ok POA_FINALIZER (ng_poa_finalizer_public_key genesis) then Inr INVALID_POA_KEY
      else bindE (ValidateProtocolParameters (ng_protocol_parameters genesis)) (\<lambda>ok.
        if \<not> ok then Inr INVALID_PROTOCOL_PARAMETERS
        else bindE (ComputeNetworkGenesisDigest C genesis) (\<lambda>digest.
          if \<not> VerifyIdentityMessage C (ng_network_public_key genesis) (ng_signature genesis) (hash_bytes digest)
          then Inr INVALID_SIGNATURE else Inr NONE)))"

record VerifiedNetworkGenesis =
  vg_genesis :: NetworkGenesis
  vg_network_id_bytes :: bytes
  vg_genesis_digest :: hash256

definition VerifiedNetworkGenesis_Create :: "crypto \<Rightarrow> NetworkGenesis \<Rightarrow> exn + VerifiedNetworkGenesis option" where
  "VerifiedNetworkGenesis_Create C genesis =
     bindE (VerifySignedNetworkGenesis C genesis) (\<lambda>e.
       if e \<noteq> NONE then Inr None
       else bindE (ComputeNetworkGenesisDigest C genesis) (\<lambda>digest.
         Inr (Some \<lparr> vg_genesis = genesis,
           vg_network_id_bytes = CanonicalSerializeNetworkPublicKey (ng_network_public_key genesis),
           vg_genesis_digest = digest \<rparr>)))"


section \<open>The format is canonical\<close>

lemma read_u8_iff: "read_u8 bs = Some (b, r) \<longleftrightarrow> bs = b # r"
  by (cases bs) (auto simp: read_u8_def)

lemma read_u32le_iff: "read_u32le bs = Some (w, r) \<longleftrightarrow> bs = le_bytes 4 w @ r"
  by (simp add: read_u32le_def reader_U32_def reader_UInt_def reader_Fixed_def flip: reader_U32_iff)

lemma read_u64le_iff: "read_u64le bs = Some (w, r) \<longleftrightarrow> bs = le_bytes 8 w @ r"
  by (simp add: read_u64le_def reader_U64_def reader_UInt_def reader_Fixed_def flip: reader_U64_iff)

lemma read_hash_iff: "read_hash bs = Some (w, r) \<longleftrightarrow> bs = hash_bytes w @ r"
  by (simp add: read_hash_def reader_Array_def reader_Fixed_def flip: reader_Hash_iff)

lemmas genesis_read_iffs = read_u8_iff read_u32le_iff read_u64le_iff read_hash_iff bind_eq_Some_conv

lemma kem_flag: "\<not> (b :: byte) > 1 \<longleftrightarrow> b = 0 \<or> b = 1"
  using unsigned_word_eqI [of b 1, where 'a = nat]
  by (auto simp: not_less word_le_nat_alt le_Suc_eq unat_eq_0)

lemma read_parameters_back: "read_parameters (parameter_bytes p @ r) = Some (p, r)"
proof -
  have a: "read_u32le (le_bytes 4 w @ r) = Some (w, r)" "read_u64le (le_bytes 8 v @ r) = Some (v, r)" "read_u8 (b # r) = Some (b, r)"
    for w v b r by (simp_all add: genesis_read_iffs)
  show ?thesis by (simp add: read_parameters_def parameter_bytes_def a kem_flag [symmetric])
qed

lemma read_parameters_iff: "read_parameters bs = Some (p, r) \<longleftrightarrow> bs = parameter_bytes p @ r"
proof
  assume "read_parameters bs = Some (p, r)"
  then show "bs = parameter_bytes p @ r"
    by (auto simp: read_parameters_def genesis_read_iffs parameter_bytes_def kem_flag split: if_split_asm)
qed (simp add: read_parameters_back)

lemma purpose_byte_inverse [simp]: "purpose_byte (purpose_of_byte b) = b"
  by (simp add: purpose_byte_def purpose_of_byte_def)

definition purpose_canonical :: "IdentityKeyPurpose \<Rightarrow> bool" where
  "purpose_canonical p \<longleftrightarrow> purpose_of_byte (purpose_byte p) = p"

lemma purpose_canonical_simps [simp]:
  "purpose_canonical RECOVERY_ROOT" "purpose_canonical AUTHORIZATION" "purpose_canonical POA_FINALIZER"
  "purpose_canonical STORAGE" "purpose_canonical NETWORK_ROOT" "purpose_canonical (purpose_of_byte b)"
  by (simp_all add: purpose_canonical_def) (simp_all add: purpose_of_byte_def purpose_byte_def)

lemma sized_field_iff:
  "(\<exists>n r'. bs = le_bytes 4 (n :: u32) @ r' \<and> unat n \<le> length r' \<and> v = take (unat n) r' \<and> r = drop (unat n) r')
   \<longleftrightarrow> length v < 2 ^ 32 \<and> bs = le_bytes 4 (of_nat (length v) :: u32) @ v @ r" (is "?L \<longleftrightarrow> ?R")
proof
  assume ?L
  then obtain n r' where "bs = le_bytes 4 (n :: u32) @ r'" "unat n \<le> length r'" "v = take (unat n) r'" "r = drop (unat n) r'" by blast
  then show ?R using unsigned_less [of n, where 'a = nat] by simp
next
  assume ?R
  then show ?L
    by (intro exI [of _ "of_nat (length v)"] exI [of _ "v @ r"]) (simp add: unsigned_of_nat take_bit_nat_eq_self)
qed

lemma read_poa_key_iff:
  "read_poa_key bs = Some (key, r) \<longleftrightarrow> bs = CanonicalSerializeHybridPublicKey key @ r
     \<and> purpose_canonical (purpose key) \<and> length (pk_ml_dsa key) < 2 ^ 32" (is "?L \<longleftrightarrow> ?R")
proof
  assume ?L
  then obtain b t n r' where b: "bs = b # t" "36 \<le> length t" "drop 32 t = le_bytes 4 (n :: u32) @ r'" "unat n \<le> length r'"
    and key: "key = \<lparr> purpose = purpose_of_byte b, pk_ed25519 = be_word (take 32 t), pk_ml_dsa = take (unat n) r' \<rparr>"
    and r: "r = drop (unat n) r'"
    by (auto simp: read_poa_key_def genesis_read_iffs not_less split: if_split_asm)
  have e: "be_bytes 32 (be_word (take 32 t) :: 256 word) = take 32 t" using b(2) by (intro be_bytes_be_word) auto
  have "t = take 32 t @ drop 32 t" by simp
  also have "drop 32 t = le_bytes 4 (of_nat (length (pk_ml_dsa key)) :: u32) @ pk_ml_dsa key @ r \<and> length (pk_ml_dsa key) < 2 ^ 32"
    using sized_field_iff [of "drop 32 t" "pk_ml_dsa key" r] b(3,4) r by (auto simp: key)
  ultimately show ?R using b(1) e by (auto simp: CanonicalSerializeHybridPublicKey_def key)
next
  assume r: ?R
  let ?v = "pk_ml_dsa key"
  have "unat (of_nat (length ?v) :: u32) = length ?v" using r by (simp add: unsigned_of_nat take_bit_nat_eq_self)
  moreover have "read_u32le (le_bytes 4 (of_nat (length ?v) :: u32) @ ?v @ r) = Some (of_nat (length ?v), ?v @ r)" by (simp add: genesis_read_iffs)
  ultimately show ?L using r
    by (simp add: read_poa_key_def read_u8_def CanonicalSerializeHybridPublicKey_def purpose_canonical_def be_word_be_bytes)
qed

lemma read_genesis_signature_iff:
  "read_genesis_signature bs = Some s \<longleftrightarrow> length (sig_ml_dsa s) < 2 ^ 32
     \<and> bs = ed_sig_bytes (sig_ed25519 s) @ le_bytes 4 (of_nat (length (sig_ml_dsa s)) :: u32) @ sig_ml_dsa s" (is "?L \<longleftrightarrow> ?R")
proof
  assume ?L
  then obtain n where b: "68 \<le> length bs" "drop 64 bs = le_bytes 4 (n :: u32) @ sig_ml_dsa s" "unat n = length (sig_ml_dsa s)"
    and s: "sig_ed25519 s = be_word (take 64 bs)"
    by (auto simp: read_genesis_signature_def genesis_read_iffs not_less split: if_split_asm)
  have "ed_sig_bytes (be_word (take 64 bs)) = take 64 bs" using b(1) by (intro be_bytes_be_word) auto
  then show ?R using append_take_drop_id [of 64 bs] b(2,3) unsigned_less [of n, where 'a = nat] by (simp add: s flip: b(3))
next
  assume r: ?R
  have "read_u32le (le_bytes 4 (of_nat (length (sig_ml_dsa s)) :: u32) @ sig_ml_dsa s) = Some (of_nat (length (sig_ml_dsa s)), sig_ml_dsa s)"
    by (simp add: genesis_read_iffs)
  with r show ?L by (simp add: read_genesis_signature_def be_word_be_bytes unsigned_of_nat take_bit_nat_eq_self)
qed

lemma network_key_iff:
  "CanonicalDeserializeNetworkPublicKey bs = Some key \<longleftrightarrow>
     bs = CanonicalSerializeNetworkPublicKey key \<and> purpose key = NETWORK_ROOT \<and> length (pk_ml_dsa key) = 1952" (is "?L \<longleftrightarrow> ?R")
proof
  assume ?L
  then have l: "length bs = 1989" "unat (le_word (subspan 33 4 bs) :: u32) = 1952" "purpose_of_byte (bs ! 0) = NETWORK_ROOT"
    and key: "key = \<lparr> purpose = NETWORK_ROOT, pk_ed25519 = be_word (subspan 1 32 bs), pk_ml_dsa = drop 37 bs \<rparr>"
    by (auto simp: CanonicalDeserializeNetworkPublicKey_def CanonicalDeserializeHybridPublicKey_def Let_def split: if_split_asm)
  have "bs = bs ! 0 # subspan 1 32 bs @ subspan 33 4 bs @ drop 37 bs"
    using l(1) nth_drop [of 0 bs] subspan_drop [of 1 32 bs] subspan_drop [of 33 4 bs] by simp
  moreover have "be_bytes 32 (be_word (subspan 1 32 bs) :: 256 word) = subspan 1 32 bs" "le_bytes 4 (le_word (subspan 33 4 bs) :: u32) = subspan 33 4 bs"
    using l(1) by (simp_all add: be_bytes_be_word le_bytes_le_word length_subspan)
  moreover have "(le_word (subspan 33 4 bs) :: u32) = of_nat 1952" by (metis l(2) of_nat_unat ucast_id)
  moreover have "bs ! 0 = purpose_byte NETWORK_ROOT" using l(3) purpose_byte_inverse by metis
  ultimately show ?R using l(1) by (simp add: key CanonicalSerializeNetworkPublicKey_def CanonicalSerializeHybridPublicKey_def)
next
  assume r: ?R
  let ?b = "CanonicalSerializeHybridPublicKey key"
  have s: "subspan 1 32 ?b = be_bytes 32 (pk_ed25519 key)" "subspan 33 4 ?b = le_bytes 4 (of_nat (length (pk_ml_dsa key)) :: u32)"
    "drop 37 ?b = pk_ml_dsa key" "?b ! 0 = 9" "length ?b = 1989"
    using r by (simp_all add: CanonicalSerializeHybridPublicKey_def subspan_def purpose_byte_def)
  then show ?L using r
    by (simp add: CanonicalDeserializeNetworkPublicKey_def CanonicalSerializeNetworkPublicKey_def
        CanonicalDeserializeHybridPublicKey_def Let_def le_word_le_bytes be_word_be_bytes purpose_of_byte_def)
qed

definition genesis_encodable :: "NetworkGenesis \<Rightarrow> bool" where
  "genesis_encodable g \<longleftrightarrow> purpose (ng_network_public_key g) = NETWORK_ROOT \<and> length (pk_ml_dsa (ng_network_public_key g)) = 1952
     \<and> purpose_canonical (purpose (ng_poa_finalizer_public_key g)) \<and> length (pk_ml_dsa (ng_poa_finalizer_public_key g)) < 2 ^ 32
     \<and> length (sig_ml_dsa (ng_signature g)) < 2 ^ 32"

lemma DeserializeSignedNetworkGenesis_iff:
  "DeserializeSignedNetworkGenesis bs = Some g \<longleftrightarrow> genesis_encodable g \<and> bs = SerializeSignedNetworkGenesis g" (is "?L \<longleftrightarrow> ?R")
proof
  assume ?L
  then obtain n t where b: "bs = le_bytes 4 (n :: u32) @ t" "unat n \<le> length t"
    and k: "CanonicalDeserializeNetworkPublicKey (take (unat n) t) = Some (ng_network_public_key g)"
    and rest: "\<exists>r1 r2 r3. drop (unat n) t = hash_bytes (ng_genesis_state_root g) @ r1
        \<and> read_poa_key r1 = Some (ng_poa_finalizer_public_key g, r2)
        \<and> read_parameters r2 = Some (ng_protocol_parameters g, r3) \<and> read_genesis_signature r3 = Some (ng_signature g)"
    by (auto simp: DeserializeSignedNetworkGenesis_def genesis_read_iffs not_less split: if_split_asm)
  note key = k [unfolded network_key_iff]
  have len: "length (CanonicalSerializeNetworkPublicKey (ng_network_public_key g)) = unat n"
    using key b(2) by (metis length_take min_absorb2)
  have "t = CanonicalSerializeNetworkPublicKey (ng_network_public_key g) @ drop (unat n) t"
    using key by (metis append_take_drop_id)
  with rest b(1) len key show ?R
    by (auto simp: read_poa_key_iff read_parameters_iff read_genesis_signature_iff SerializeSignedNetworkGenesis_def
        SerializeNetworkGenesisPayload_def Let_def genesis_encodable_def)
next
  assume r: ?R
  let ?k = "CanonicalSerializeNetworkPublicKey (ng_network_public_key g)"
  have k: "CanonicalDeserializeNetworkPublicKey ?k = Some (ng_network_public_key g)" "length ?k = 1989"
    using r by (simp_all add: genesis_encodable_def network_key_iff CanonicalSerializeNetworkPublicKey_def CanonicalSerializeHybridPublicKey_def)
  have h: "read_hash (hash_bytes w @ r) = Some (w, r)" and u: "read_u32le (le_bytes 4 v @ r) = Some (v, r)" for w v r
    by (simp_all add: genesis_read_iffs)
  have p: "read_poa_key (CanonicalSerializeHybridPublicKey (ng_poa_finalizer_public_key g) @ r) = Some (ng_poa_finalizer_public_key g, r)" for r
    using r by (simp add: read_poa_key_iff genesis_encodable_def)
  have s: "read_genesis_signature (ed_sig_bytes (sig_ed25519 (ng_signature g))
      @ le_bytes 4 (of_nat (length (sig_ml_dsa (ng_signature g))) :: u32) @ sig_ml_dsa (ng_signature g)) = Some (ng_signature g)"
    using r by (simp add: read_genesis_signature_iff genesis_encodable_def)
  show ?L using r
    by (simp add: SerializeSignedNetworkGenesis_def SerializeNetworkGenesisPayload_def Let_def DeserializeSignedNetworkGenesis_def
        h u p s k read_parameters_back)
qed


section \<open>What the parameter check guarantees\<close>

lemma div_guard: "per \<noteq> 0 \<Longrightarrow> \<not> n > U64_MAX div per \<longleftrightarrow> unat n * unat per < 2 ^ 64" for n per :: u64
proof -
  assume "per \<noteq> 0"
  then have "unat per > 0" by (simp add: unat_gt_0)
  then have "unat n \<le> (2 ^ 64 - 1) div unat per \<longleftrightarrow> unat n * unat per \<le> 2 ^ 64 - 1" by (simp add: less_eq_div_iff_mult_less_eq)
  then show ?thesis by (simp add: not_less word_le_nat_alt unat_div unat_U64_MAX less_Suc_eq_le [symmetric])
qed

lemma product_guard:
  "\<not> (per \<noteq> 0 \<and> n > U64_MAX div per) \<longleftrightarrow> unat n * unat per < 2 ^ 64" for n per :: u64
  using div_guard [of per n] by (cases "per = 0") auto

lemma fee_guard_iff:
  "fee_guard params \<longleftrightarrow> 144 * unat (root_publication_fee_per_started_kib params)
     + 2 ^ 20 * unat (root_publication_fee_per_chunk params) < 2 ^ 64"
proof -
  define k where "k = root_publication_fee_per_started_kib params"
  define c where "c = root_publication_fee_per_chunk params"
  have n: "unat (max_fee_kib * k) = 144 * unat k" if "144 * unat k < 2 ^ 64"
    using that by (simp add: max_fee_kib_def ROOT_PUBLICATION_MAX_OPERATION_BYTES_def unat_mult_fits)
  have m: "unat (of_nat MAX_PUBLICATION_CHUNKS * c) = 2 ^ 20 * unat c" if "2 ^ 20 * unat c < 2 ^ 64"
    using that by (simp add: MAX_PUBLICATION_CHUNKS_def unat_mult_fits)
  have l64: "LENGTH(64) = 64" by simp
  have u: "unat max_fee_kib = 144" "unat (of_nat MAX_PUBLICATION_CHUNKS :: u64) = 2 ^ 20"
    by (simp_all add: max_fee_kib_def ROOT_PUBLICATION_MAX_OPERATION_BYTES_def MAX_PUBLICATION_CHUNKS_def)
  have "fee_guard params \<longleftrightarrow> \<not> (k \<noteq> 0 \<and> max_fee_kib > U64_MAX div k) \<and> \<not> (c \<noteq> 0 \<and> of_nat MAX_PUBLICATION_CHUNKS > U64_MAX div c)
      \<and> of_nat MAX_PUBLICATION_CHUNKS * c \<le> U64_MAX - max_fee_kib * k"
    by (auto simp: fee_guard_def Let_def k_def c_def)
  also have "\<dots> \<longleftrightarrow> 144 * unat k < 2 ^ 64 \<and> 2 ^ 20 * unat c < 2 ^ 64
      \<and> unat (of_nat MAX_PUBLICATION_CHUNKS * c) + unat (max_fee_kib * k) < 2 ^ 64"
    unfolding product_guard u le_max_minus_iff by (simp only: l64)
  also have "\<dots> \<longleftrightarrow> 144 * unat k + 2 ^ 20 * unat c < 2 ^ 64" using n m by auto
  finally show ?thesis by (simp add: k_def c_def)
qed

lemma fee_guard_fee:
  assumes "fee_guard params" and "0 < n" "n \<le> ROOT_PUBLICATION_MAX_OPERATION_BYTES" and "0 < chunks" "unat chunks \<le> MAX_PUBLICATION_CHUNKS"
  shows "\<exists>fee. ComputeRootPublicationFee params n chunks = Some fee
    \<and> unat fee = (n + 1023) div 1024 * unat (root_publication_fee_per_started_kib params)
        + unat chunks * unat (root_publication_fee_per_chunk params)"
proof -
  define k where "k = root_publication_fee_per_started_kib params"
  define c where "c = root_publication_fee_per_chunk params"
  define kib where "kib = (of_nat ((n + 1023) div 1024) :: u64)"
  define ch where "ch = (ucast chunks :: u64)"
  have kib: "unat kib = (n + 1023) div 1024" "unat kib \<le> 144"
    using assms(3) by (simp_all add: kib_def ROOT_PUBLICATION_MAX_OPERATION_BYTES_def unsigned_of_nat take_bit_nat_eq_self)
  have ch: "unat ch = unat chunks" "unat ch \<le> 2 ^ 20"
    using assms(5) unsigned_less [of chunks, where 'a = nat]
    by (simp_all add: ch_def MAX_PUBLICATION_CHUNKS_def unsigned_ucast_eq take_bit_nat_eq_self)
  have "unat kib * unat k \<le> 144 * unat k" "unat ch * unat c \<le> 2 ^ 20 * unat c" using kib(2) ch(2) by (simp_all only: mult_le_mono1)
  then have b: "unat kib * unat k + unat ch * unat c < 2 ^ 64"
    using assms(1) unfolding fee_guard_iff k_def c_def by linarith
  then have p: "unat kib * unat k < 2 ^ 64" "unat ch * unat c < 2 ^ 64" by simp_all
  have "\<not> (k \<noteq> 0 \<and> kib > U64_MAX div k)" "\<not> (c \<noteq> 0 \<and> ch > U64_MAX div c)" using p by (simp_all only: product_guard)
  moreover have "\<not> ch * c > U64_MAX - kib * k" using b p by (simp add: not_less le_max_minus_iff unat_mult_fits)
  moreover have "unat (kib * k + ch * c) = unat kib * unat k + unat ch * unat c" using b p by (simp add: unat_mult_fits unat_add_fits)
  ultimately show ?thesis using assms(2-5) kib(1) ch(1)
    by (auto simp: ComputeRootPublicationFee_def Let_def k_def c_def kib_def ch_def)
qed

lemma ValidateProtocolParameters_guards:
  "ValidateProtocolParameters params = Inr True \<Longrightarrow> fee_guard params \<and> rent_guard params = Inr True"
  by (auto simp: ValidateProtocolParameters_def bindE_Inr_iff split: if_split_asm)

lemma unat_widen: "unat (ucast (a :: u8) :: u64) = unat a" "unat (ucast (b :: u32) :: u64) = unat b"
  using unsigned_less [of a, where 'a = nat] unsigned_less [of b, where 'a = nat]
  by (simp_all add: unsigned_ucast_eq take_bit_nat_eq_self)

lemma ceil_div_le: "0 < b \<Longrightarrow> ceil_div a b \<le> a"
proof (cases "a mod b = 0")
  case False
  assume "0 < b"
  have "b \<noteq> 1" using False by (metis mod_by_1)
  then have "a div b < a" using False \<open>0 < b\<close> by (intro div_less_dividend) (cases a; auto)+
  then show ?thesis using False by (simp add: ceil_div_def)
qed (simp add: ceil_div_def)

lemma rent_guard_product:
  fixes params
  defines "D \<equiv> MAX_PUBLICATION_CHUNKS * unat (storage_replica_target params) * unat (storage_settlement_period_seconds params) * unat (max_storage_lease_periods params)"
  assumes "rent_guard params = Inr True" "D < 2 ^ 64"
  shows "unat (storage_rate_per_gib_day_replica params) * D < 2 ^ 64" "storage_rate_per_gib_day_replica params \<noteq> 0"
    "storage_replica_target params \<noteq> 0" "storage_settlement_period_seconds params \<noteq> 0"
proof -
  have g: "storage_rate_per_gib_day_replica params \<noteq> 0" "storage_replica_target params \<noteq> 0" "storage_settlement_period_seconds params \<noteq> 0" "rent_divisor params \<noteq> 0"
    "storage_rate_per_gib_day_replica params \<le> U64_MAX div rent_divisor params"
    using assms(2) by (auto simp: rent_guard_def div_u64_def bindE_Inr_iff split: if_split_asm)
  then show "storage_rate_per_gib_day_replica params \<noteq> 0" "storage_replica_target params \<noteq> 0" "storage_settlement_period_seconds params \<noteq> 0" by simp_all
  have "rent_divisor params = of_nat D"
    unfolding rent_divisor_def D_def of_nat_mult unat_widen [symmetric] by simp
  then have u: "unat (rent_divisor params) = D" using assms(3) by (simp add: unsigned_of_nat take_bit_nat_eq_self_iff)
  have "0 < D" using u g(4) by (metis gr0I unat_eq_zero)
  have "unat (storage_rate_per_gib_day_replica params) \<le> unat U64_MAX div D" using g(5) by (simp add: word_le_nat_alt unat_div u)
  then have "unat (storage_rate_per_gib_day_replica params) * D \<le> unat U64_MAX" using \<open>0 < D\<close> by (simp add: less_eq_div_iff_mult_less_eq)
  then show "unat (storage_rate_per_gib_day_replica params) * D < 2 ^ 64" by (simp add: unat_U64_MAX)
qed

lemma rent_guard_escrow:
  assumes "rent_guard params = Inr True"
    and "MAX_PUBLICATION_CHUNKS * unat (storage_replica_target params) * unat (storage_settlement_period_seconds params) * unat (max_storage_lease_periods params) < 2 ^ 64"
    and "0 < units" "unat units \<le> MAX_PUBLICATION_CHUNKS" and "0 < periods" "periods \<le> max_storage_lease_periods params"
  shows "\<exists>escrow. ComputeStorageLeaseEscrow params units (storage_replica_target params) periods = Some escrow
    \<and> unat escrow = unat (storage_replica_target params)
        * ceil_div (unat units * (unat periods * unat (storage_settlement_period_seconds params)) * unat (storage_rate_per_gib_day_replica params)) rent_den"
proof -
  let ?r = "unat (storage_replica_target params)" and ?s = "unat (storage_settlement_period_seconds params)" and ?m = "unat (max_storage_lease_periods params)"
    and ?rate = "unat (storage_rate_per_gib_day_replica params)"
  let ?us = "unat units * (unat periods * ?s)"
  note g = rent_guard_product [OF assms(1,2)]
  have r: "0 < ?r" "0 < ?rate" "0 < unat periods" "0 < unat units" using g(2,3) assms(3,5) by (simp_all add: unat_gt_0)
  have m: "unat periods \<le> ?m" using assms(6) by (simp add: word_le_nat_alt)
  have "?us \<le> MAX_PUBLICATION_CHUNKS * (?m * ?s)" using assms(4) m by (intro mult_le_mono) simp_all
  then have usr: "?us * ?r \<le> MAX_PUBLICATION_CHUNKS * ?r * ?s * ?m" using mult_le_mono1 [of ?us _ ?r] by (simp add: mult_ac)
  then have "?us * ?r * ?rate \<le> ?rate * (MAX_PUBLICATION_CHUNKS * ?r * ?s * ?m)" using mult_le_mono1 [OF usr, of ?rate] by (simp only: mult_ac)
  then have "?us * ?r * ?rate < 2 ^ 64" using g(1) by (rule le_less_trans)
  then have all: "?us * ?rate * ?r < 2 ^ 64" by (simp only: mult_ac)
  have "?us \<le> ?us * ?r" "unat periods * ?s \<le> ?us" using r by simp_all
  then have small: "unat periods * ?s < 2 ^ 64" "?us < 2 ^ 64" using le_less_trans [OF usr assms(2)] by linarith+
  have "ceil_div (?us * ?rate) rent_den \<le> ?us * ?rate" by (rule ceil_div_le) (simp add: rent_den_def)
  then have share: "ceil_div (?us * ?rate) rent_den * ?r < 2 ^ 64" using all mult_le_mono1 le_less_trans by blast
  moreover have "ceil_div (?us * ?rate) rent_den \<le> ceil_div (?us * ?rate) rent_den * ?r" using r(1) by simp
  ultimately have s: "ceil_div (?us * ?rate) rent_den < 2 ^ 64" by linarith
  have ub: "\<exists>v :: u64. unat v = n" if "n < 2 ^ 64" for n using that by (intro exI [of _ "of_nat n"]) (simp add: unsigned_of_nat take_bit_nat_eq_self_iff)
  obtain v1 v2 v3 :: u64 where v: "unat v1 = ceil_div (?us * ?rate) rent_den" "unat v2 = ceil_div (?us * ?rate) rent_den * ?r" "unat v3 = ?us"
    using ub [OF s] ub [OF share] ub [OF small(2)] by blast
  define b where "b = \<lparr> per_replica = v1, budget_total = v2, budget_unit_seconds = v3 \<rparr>"
  have uc: "unat (ucast units :: u64) = unat units" "unat (ucast periods :: u64) = unat periods" "unat (ucast (storage_replica_target params) :: u64) = ?r"
    by (simp_all add: unat_widen)
  have nz: "(ucast units :: u64) \<noteq> 0" "(ucast periods :: u64) \<noteq> 0" "(ucast (storage_replica_target params) :: u64) \<noteq> 0" using uc r by (metis less_irrefl unat_0)+
  have "ComputeAssignedStorageBudget (ucast units) (ucast (storage_replica_target params)) (ucast periods) (storage_settlement_period_seconds params)
      (storage_rate_per_gib_day_replica params) = Some b"
    unfolding ComputeAssignedStorageBudget_iff uc b_def using nz g(2,4) small s share v by simp
  moreover have "unat (budget_total b) = ceil_div (?us * ?rate) rent_den * ?r" using v(2) by (simp add: b_def)
  ultimately show ?thesis by (simp add: ComputeStorageLeaseEscrow_def mult_ac)
qed

text \<open>Below, the parameters for which the divisor of the rent guard wraps.\<close>

definition wrapped_parameters :: "u32 \<Rightarrow> CybouProtocolParameters" where
  "wrapped_parameters periods = DevProtocolParameters \<lparr> storage_rate_per_gib_day_replica := 2 ^ 20 - 1, storage_replica_target := 16,
     storage_settlement_period_seconds := 2 ^ 20, max_storage_lease_periods := periods \<rparr>"

section \<open>Properties\<close>

text \<open>C30. The signed genesis has one encoding. A byte string decodes to a genesis exactly when the genesis serializes to it; the
  genesis objects that have an encoding are those with a network root key of the right size and no field longer than its 32-bit length.\<close>

theorem genesis_codec_exact:
  "DeserializeSignedNetworkGenesis bs = Some g \<longleftrightarrow> genesis_encodable g \<and> bs = SerializeSignedNetworkGenesis g"
  by (rule DeserializeSignedNetworkGenesis_iff)

text \<open>C31. Parameters that pass \<^verbatim>\<open>ValidateProtocolParameters\<close> make the fee of every admissible publication computable: for every
  operation of at most 144 KiB and at most 2 to the 20 chunks the fee exists and is the exact sum of the fee per started KiB and the
  fee per chunk, without wrap-around.\<close>

theorem validated_fee_is_exact:
  assumes "ValidateProtocolParameters params = Inr True"
    and "0 < n" "n \<le> ROOT_PUBLICATION_MAX_OPERATION_BYTES" and "0 < chunks" "unat chunks \<le> MAX_PUBLICATION_CHUNKS"
  shows "\<exists>fee. ComputeRootPublicationFee params n chunks = Some fee
    \<and> unat fee = (n + 1023) div 1024 * unat (root_publication_fee_per_started_kib params)
        + unat chunks * unat (root_publication_fee_per_chunk params)"
  using fee_guard_fee [OF _ assms(2-5)] ValidateProtocolParameters_guards [OF assms(1)] by blast

theorem validated_fee_is_exact_witness:
  "\<exists>fee. ComputeRootPublicationFee DevProtocolParameters 2000 3 = Some fee \<and> unat fee = 20"
proof -
  have v: "ValidateProtocolParameters DevProtocolParameters = Inr True"
    by (simp add: ValidateProtocolParameters_def rent_guard_def rent_divisor_def div_u64_def fee_guard_iff DevProtocolParameters_def
        MAX_PUBLICATION_CHUNKS_def DEFAULT_MAX_PENDING_NAME_COMMITS_def)
  have "\<exists>fee. ComputeRootPublicationFee DevProtocolParameters 2000 3 = Some fee
    \<and> unat fee = (2000 + 1023) div 1024 * unat (root_publication_fee_per_started_kib DevProtocolParameters)
        + unat (3 :: u32) * unat (root_publication_fee_per_chunk DevProtocolParameters)"
    by (rule validated_fee_is_exact [OF v]) (simp_all add: ROOT_PUBLICATION_MAX_OPERATION_BYTES_def MAX_PUBLICATION_CHUNKS_def)
  then show ?thesis by (simp add: DevProtocolParameters_def)
qed

text \<open>C32. Parameters that pass \<^verbatim>\<open>ValidateProtocolParameters\<close> make every lease computable, provided the divisor of the rent guard does not wrap around:
  if 2 to the 20 chunks times the replicas, the seconds of a period and the largest number of periods stay below 2 to the 64, then the escrow of every
  publication of at most 2 to the 20 chunks and every admissible number of periods exists and is the exact rent, rounded up for each replica.
  The validation does not ensure the condition on the product; \<open>rent_guard_wraps\<close> below has parameters that pass without it.\<close>

theorem validated_rent_is_exact:
  assumes "ValidateProtocolParameters params = Inr True"
    and "MAX_PUBLICATION_CHUNKS * unat (storage_replica_target params) * unat (storage_settlement_period_seconds params) * unat (max_storage_lease_periods params) < 2 ^ 64"
    and "0 < units" "unat units \<le> MAX_PUBLICATION_CHUNKS" and "0 < periods" "periods \<le> max_storage_lease_periods params"
  shows "\<exists>escrow. ComputeStorageLeaseEscrow params units (storage_replica_target params) periods = Some escrow
    \<and> unat escrow = unat (storage_replica_target params)
        * ceil_div (unat units * unat periods * unat (storage_settlement_period_seconds params) * unat (storage_rate_per_gib_day_replica params)) rent_den"
  using rent_guard_escrow [OF _ assms(2-6)] ValidateProtocolParameters_guards [OF assms(1)] by (simp add: mult_ac)

theorem validated_rent_is_exact_witness:
  "\<exists>escrow. ComputeStorageLeaseEscrow DevProtocolParameters 3 (storage_replica_target DevProtocolParameters) 1 = Some escrow"
proof -
  have v: "ValidateProtocolParameters DevProtocolParameters = Inr True"
    by (simp add: ValidateProtocolParameters_def rent_guard_def rent_divisor_def div_u64_def fee_guard_iff DevProtocolParameters_def
        MAX_PUBLICATION_CHUNKS_def DEFAULT_MAX_PENDING_NAME_COMMITS_def)
  have "MAX_PUBLICATION_CHUNKS * unat (storage_replica_target DevProtocolParameters) * unat (storage_settlement_period_seconds DevProtocolParameters)
      * unat (max_storage_lease_periods DevProtocolParameters) < 2 ^ 64" "(1 :: u32) \<le> max_storage_lease_periods DevProtocolParameters"
    by (simp_all add: DevProtocolParameters_def MAX_PUBLICATION_CHUNKS_def)
  from validated_rent_is_exact [OF v this(1) _ _ _ this(2), of 3] show ?thesis by (auto simp: MAX_PUBLICATION_CHUNKS_def)
qed

text \<open>Without that condition the guard on the storage rate says nothing: for parameters inside every other bound the product is
  zero and the check traps; for one more lease period the check accepts a rate whose product with the largest lease exceeds 64 bits.\<close>

lemma rent_guard_wraps:
  "ValidateProtocolParameters (wrapped_parameters (2 ^ 20)) = Inl division_by_zero
   \<and> ValidateProtocolParameters (wrapped_parameters (2 ^ 20 + 1)) = Inr True
   \<and> unat (storage_rate_per_gib_day_replica (wrapped_parameters (2 ^ 20 + 1))) * (2 ^ 20 * 16 * 2 ^ 20 * (2 ^ 20 + 1)) \<ge> 2 ^ 64"
proof (intro conjI)
  show "ValidateProtocolParameters (wrapped_parameters (2 ^ 20)) = Inl division_by_zero"
    by (simp add: ValidateProtocolParameters_def rent_guard_def rent_divisor_def div_u64_def fee_guard_iff wrapped_parameters_def
        DevProtocolParameters_def MAX_PUBLICATION_CHUNKS_def DEFAULT_MAX_PENDING_NAME_COMMITS_def)
  show "ValidateProtocolParameters (wrapped_parameters (2 ^ 20 + 1)) = Inr True"
    by (simp add: ValidateProtocolParameters_def rent_guard_def rent_divisor_def div_u64_def fee_guard_iff wrapped_parameters_def
        DevProtocolParameters_def MAX_PUBLICATION_CHUNKS_def DEFAULT_MAX_PENDING_NAME_COMMITS_def)
  show "unat (storage_rate_per_gib_day_replica (wrapped_parameters (2 ^ 20 + 1))) * (2 ^ 20 * 16 * 2 ^ 20 * (2 ^ 20 + 1)) \<ge> 2 ^ 64"
    by (simp add: wrapped_parameters_def)
qed

end
