(* ===== verification/LocalStore.thy ===== *)
theory LocalStore
  imports Identity
begin

text \<open>
  The local key-value store (\<^verbatim>\<open>kv_store.h/.cpp\<close>): the record codecs of \<^verbatim>\<open>detail\<close> and the adapter
  \<^verbatim>\<open>KVStore\<close> over LevelDB. LevelDB itself is a vendored library; the store is the map from raw keys
  to raw values it presents, together with the two ways it can fail that the callers distinguish: a read may
  report an error, and a write that reports an error may or may not have become durable.
\<close>

section \<open>Compact sizes\<close>

definition AppendCompactSize :: "u64 \<Rightarrow> bytes" where
  "AppendCompactSize value =
     (if value < 253 then [ucast value]
      else if value \<le> 0xFFFF then 253 # le_bytes 2 value
      else if value \<le> 0xFFFFFFFF then 254 # le_bytes 4 value
      else 255 # le_bytes 8 value)"

definition CompactSizeWidth :: "u64 \<Rightarrow> nat" where
  "CompactSizeWidth value =
     (if value < 253 then 1 else if value \<le> 0xFFFF then 3 else if value \<le> 0xFFFFFFFF then 5 else 9)"

text \<open>The offset that the C++ function advances is the suffix that is returned.\<close>

definition ReadCompactSize :: "bytes \<Rightarrow> (u64 \<times> bytes) option" where
  "ReadCompactSize bs = (case bs of [] \<Rightarrow> None
     | marker # r \<Rightarrow>
       if marker < 253 then Some (ucast marker, r)
       else let width = (if marker = 253 then 2 else if marker = 254 then 4 else 8 :: nat) in
         if width > length r then None
         else let value = le_word (take width r) in
           if (width \<noteq> 2 \<or> value \<ge> 253) \<and> (width \<noteq> 4 \<or> value \<ge> 0x10000) \<and> (width \<noteq> 8 \<or> value \<ge> 0x100000000)
              \<and> value \<le> 0x02000000 then Some (value, drop width r)
           else None)"

lemma AppendCompactSize_width: "length (AppendCompactSize v) = CompactSizeWidth v"
  by (simp add: AppendCompactSize_def CompactSizeWidth_def)

lemma le_word_small:
  fixes w :: "'a::len word"
  assumes "unat w < 256 ^ n"
  shows "le_word (le_bytes n w) = w"
proof (rule bit_word_eqI)
  fix k assume k: "k < LENGTH('a)"
  show "bit (le_word (le_bytes n w) :: 'a word) k = bit w k"
  proof (cases "k div 8 < n")
    case True
    then show ?thesis using k by (simp add: bit_le_word bit_le_bytes_nth)
  next
    case False
    then have "8 * n \<le> k" by (simp add: not_less less_eq_div_iff_mult_less_eq mult.commute)
    then have "(256::nat) ^ n \<le> 2 ^ k" using power_increasing [of "8 * n" k "2::nat"] by (simp add: power_mult)
    then have "\<not> bit (unat w) k" using assms by (simp add: bit_iff_odd)
    then have "\<not> bit w k" using k by (simp add: bit_unsigned_iff)
    then show ?thesis using False by (simp add: bit_le_word)
  qed
qed

lemma le_word_bound: "unat (le_word bs :: 'a::len word) < 256 ^ length bs"
proof (cases "8 * length bs < LENGTH('a)")
  case True
  have "take_bit (8 * length bs) (le_word bs :: 'a word) = le_word bs"
    by (rule bit_word_eqI) (auto simp: bit_take_bit_iff bit_le_word less_mult_imp_div_less dest: div_less_iff_less_mult [THEN iffD1, rotated])
  then have "unat (le_word bs :: 'a word) < 2 ^ (8 * length bs)"
    by (metis take_bit_nat_less_exp unsigned_take_bit_eq)
  then show ?thesis by (simp add: power_mult)
next
  case False
  then have "(2::nat) ^ LENGTH('a) \<le> 2 ^ (8 * length bs)" by (intro power_increasing) auto
  then have "(2::nat) ^ LENGTH('a) \<le> 256 ^ length bs" by (simp add: power_mult)
  then show ?thesis by (rule order_less_le_trans [OF unsigned_less])
qed

lemma compact_read_back: "v \<le> 0x02000000 \<Longrightarrow> ReadCompactSize (AppendCompactSize v @ r) = Some (v, r)"
proof -
  assume v: "v \<le> 0x02000000"
  consider "v < 253" | "253 \<le> v" "v \<le> 0xFFFF" | "0x10000 \<le> v" using inc_le [of "0xFFFF" v] by (force simp: not_less)
  then show ?thesis
  proof cases
    case 1
    then have "unat v < 253" by (simp add: word_less_nat_alt)
    then have e: "take_bit 8 (unat v) = unat v" by (simp add: take_bit_nat_eq_self)
    then have "take_bit 8 v = v" by (simp add: word_unat_eq_iff unsigned_take_bit_eq)
    then have "ucast (ucast v :: byte) = v" by (simp add: unsigned_ucast_eq)
    moreover have "(ucast v :: byte) < 253" using 1 e by (simp add: word_less_nat_alt unsigned_ucast_eq)
    ultimately have "ucast (ucast v :: byte) = v" "(ucast v :: byte) < 253" by simp_all
    then show ?thesis using 1 by (simp add: AppendCompactSize_def ReadCompactSize_def)
  next
    case 2
    then have "le_word (le_bytes 2 v) = v" by (intro le_word_small) (simp add: word_le_nat_alt)
    with 2 v show ?thesis by (simp add: AppendCompactSize_def ReadCompactSize_def not_less [symmetric])
  next
    case 3
    have "v \<le> 0xFFFFFFFF" by (rule order_trans [OF v]) simp
    moreover from 3 have "\<not> v < 253" "\<not> v \<le> 0xFFFF" by (auto simp: word_le_nat_alt word_less_nat_alt)
    moreover have "le_word (le_bytes 4 v) = v" using v by (intro le_word_small) (simp add: word_le_nat_alt)
    ultimately show ?thesis using 3 v by (simp add: AppendCompactSize_def ReadCompactSize_def)
  qed
qed

lemma compact_canonical:
  assumes "ReadCompactSize bs = Some (v, r)"
  shows "v \<le> 0x02000000 \<and> bs = AppendCompactSize v @ r"
proof -
  obtain m t where b: "bs = m # t" using assms by (cases bs) (auto simp: ReadCompactSize_def)
  have rb: "le_bytes n (le_word (take n t) :: u64) = take n t" if "n \<le> length t" "8 * n \<le> 64" for n
    using that by (intro le_bytes_le_word) auto
  have bound: "unat (le_word (take n t) :: u64) < 256 ^ n" if "n \<le> length t" for n
    using le_word_bound [of "take n t", where 'a = 64] that by (simp add: min_absorb2)
  show ?thesis
  proof (cases "m < 253")
    case True
    then have "v = ucast m" "t = r" using assms b by (simp_all add: ReadCompactSize_def)
    moreover have "unat (ucast m :: u64) = unat m"
      using unsigned_less [of m, where 'a = nat] by (simp add: unsigned_ucast_eq take_bit_nat_eq_self)
    moreover have "(ucast (ucast m :: u64) :: byte) = m" by (rule bit_word_eqI) (simp add: bit_simps)
    ultimately show ?thesis using True b by (simp add: AppendCompactSize_def word_less_nat_alt word_le_nat_alt)
  next
    case False
    consider "m = 253" | "m = 254" | "m \<noteq> 253" "m \<noteq> 254" by blast
    then show ?thesis
    proof cases
      case 1
      then show ?thesis using assms b rb [of 2] bound [of 2]
        by (auto simp: ReadCompactSize_def Let_def AppendCompactSize_def word_le_nat_alt word_less_nat_alt split: if_splits)
    next
      case 2
      then show ?thesis using assms b rb [of 4] bound [of 4]
        by (auto simp: ReadCompactSize_def Let_def AppendCompactSize_def word_le_nat_alt word_less_nat_alt split: if_splits)
    next
      case 3
      then show ?thesis using assms b False
        by (auto simp: ReadCompactSize_def Let_def word_le_nat_alt split: if_splits)
    qed
  qed
qed


section \<open>Record codecs\<close>

text \<open>
  \<^verbatim>\<open>LocalRecordCodec\<close> for byte vectors, strings, unsigned integers and hashes. A decoder reads a prefix
  and ignores what follows, so the contract is that a record is read back whatever follows it.
\<close>

definition EncodeBytes :: "bytes \<Rightarrow> bytes" where
  "EncodeBytes value = AppendCompactSize (of_nat (length value)) @ value"

definition DecodeBytes :: "bytes \<Rightarrow> bytes option" where
  "DecodeBytes bs = (case ReadCompactSize bs of None \<Rightarrow> None
     | Some (sz, r) \<Rightarrow> if unat sz > length r then None else Some (take (unat sz) r))"

definition EncodeString :: "string \<Rightarrow> bytes" where
  "EncodeString value = AppendCompactSize (of_nat (length value)) @ str value"

definition DecodeString :: "bytes \<Rightarrow> string option" where
  "DecodeString bs = (case ReadCompactSize bs of None \<Rightarrow> None
     | Some (sz, r) \<Rightarrow> if unat sz > length r then None else Some (string_of_bytes (take (unat sz) r)))"

definition EncodeUnsigned :: "nat \<Rightarrow> 'a::len word \<Rightarrow> bytes" where
  "EncodeUnsigned n value = le_bytes n value"

definition DecodeUnsigned :: "nat \<Rightarrow> bytes \<Rightarrow> 'a::len word option" where
  "DecodeUnsigned n bs = (if length bs < n then None else Some (le_word (take n bs)))"

definition EncodeHash :: "hash256 \<Rightarrow> bytes" where
  "EncodeHash value = hash_bytes value"

definition DecodeHash :: "bytes \<Rightarrow> hash256 option" where
  "DecodeHash bs = (if length bs < 32 then None else Some (be_word (take 32 bs)))"

definition MAX_LOCAL_RECORD :: nat where "MAX_LOCAL_RECORD = 0x02000000"

locale local_record =
  fixes enc :: "'a \<Rightarrow> bytes" and dec :: "bytes \<Rightarrow> 'a option" and ok :: "'a \<Rightarrow> bool"
  assumes read_back: "ok v \<Longrightarrow> dec (enc v @ r) = Some v"
begin

lemma dec_enc: "ok v \<Longrightarrow> dec (enc v) = Some v"
  using read_back [of v "[]"] by simp

lemma enc_inj: "ok v \<Longrightarrow> ok w \<Longrightarrow> enc v = enc w \<Longrightarrow> v = w"
  by (metis dec_enc option.inject)

end

lemma record_size_word:
  "n \<le> MAX_LOCAL_RECORD \<Longrightarrow> unat (of_nat n :: u64) = n \<and> (of_nat n :: u64) \<le> 0x02000000"
  by (simp add: MAX_LOCAL_RECORD_def word_le_nat_alt unsigned_of_nat take_bit_nat_eq_self)

interpretation bytes_record: local_record EncodeBytes DecodeBytes "\<lambda>v. length v \<le> MAX_LOCAL_RECORD"
  by unfold_locales (simp add: EncodeBytes_def DecodeBytes_def compact_read_back record_size_word)

interpretation string_record: local_record EncodeString DecodeString "\<lambda>v. length v \<le> MAX_LOCAL_RECORD"
  by unfold_locales (simp add: EncodeString_def DecodeString_def compact_read_back record_size_word)

interpretation height_record: local_record "EncodeUnsigned 8 :: u64 \<Rightarrow> bytes" "DecodeUnsigned 8" "\<lambda>_. True"
  by unfold_locales (simp add: EncodeUnsigned_def DecodeUnsigned_def le_word_le_bytes)

interpretation hash_record: local_record EncodeHash DecodeHash "\<lambda>_. True"
  by unfold_locales (simp add: EncodeHash_def DecodeHash_def be_word_be_bytes)


section \<open>The store\<close>

record KVStore =
  kv_data :: "bytes \<Rightarrow> bytes option"
  kv_unreadable :: "bytes \<Rightarrow> bool"

text \<open>What becomes of a batch: applied; reported as failed and absent; reported as failed but present.\<close>

datatype write_outcome = WriteOk | WriteLost | WriteApplied

type_synonym kv_batch = "(bytes \<times> bytes option) list"

definition batch_apply :: "kv_batch \<Rightarrow> (bytes \<Rightarrow> bytes option) \<Rightarrow> (bytes \<Rightarrow> bytes option)" where
  "batch_apply batch d = fold (\<lambda>(k, v) d. d(k := v)) batch d"

definition batch_Write :: "string \<Rightarrow> bytes \<Rightarrow> kv_batch \<Rightarrow> kv_batch" where
  "batch_Write key value batch = batch @ [(EncodeString key, Some (EncodeBytes value))]"

definition batch_Erase :: "string \<Rightarrow> kv_batch \<Rightarrow> kv_batch" where
  "batch_Erase key batch = batch @ [(EncodeString key, None)]"

definition ReadRaw :: "KVStore \<Rightarrow> bytes \<Rightarrow> exn + bytes option" where
  "ReadRaw db key = (if kv_unreadable db key then Inl runtime_error else Inr (kv_data db key))"

definition WriteBatch :: "write_outcome \<Rightarrow> kv_batch \<Rightarrow> KVStore \<Rightarrow> (exn + unit) \<times> KVStore" where
  "WriteBatch w batch db =
     (let applied = db \<lparr> kv_data := batch_apply batch (kv_data db) \<rparr> in
      case w of WriteOk \<Rightarrow> (Inr (), applied)
        | WriteLost \<Rightarrow> (Inl runtime_error, db)
        | WriteApplied \<Rightarrow> (Inl runtime_error, applied))"

definition KV_Read :: "KVStore \<Rightarrow> string \<Rightarrow> exn + bytes option" where
  "KV_Read db key = bindE (ReadRaw db (EncodeString key)) (\<lambda>raw.
     case raw of None \<Rightarrow> Inr None | Some bs \<Rightarrow> Inr (DecodeBytes bs))"

definition KV_Exists :: "KVStore \<Rightarrow> string \<Rightarrow> exn + bool" where
  "KV_Exists db key = bindE (ReadRaw db (EncodeString key)) (\<lambda>raw. Inr (raw \<noteq> None))"

definition KV_Write :: "write_outcome \<Rightarrow> string \<Rightarrow> bytes \<Rightarrow> KVStore \<Rightarrow> (exn + unit) \<times> KVStore" where
  "KV_Write w key value db = WriteBatch w (batch_Write key value []) db"

definition KV_Erase :: "write_outcome \<Rightarrow> string \<Rightarrow> KVStore \<Rightarrow> (exn + unit) \<times> KVStore" where
  "KV_Erase w key db = WriteBatch w (batch_Erase key []) db"

text \<open>The stored record under a string key, as the client sees it when the key is readable.\<close>

definition stored :: "KVStore \<Rightarrow> string \<Rightarrow> bytes option" where
  "stored db key = (case kv_data db (EncodeString key) of None \<Rightarrow> None | Some bs \<Rightarrow> DecodeBytes bs)"

lemma batch_apply_snoc: "batch_apply (batch @ [(k, v)]) d = (batch_apply batch d)(k := v)"
  by (simp add: batch_apply_def)

lemma KV_Read_Some: "KV_Read db key = Inr r \<Longrightarrow> stored db key = r"
  by (auto simp: KV_Read_def stored_def ReadRaw_def bindE_Inr_iff split: option.splits if_splits)

lemma KV_Exists_False: "KV_Exists db key = Inr False \<Longrightarrow> stored db key = None"
  by (auto simp: KV_Exists_def stored_def ReadRaw_def bindE_Inr_iff split: if_splits)

definition key_ok :: "string \<Rightarrow> bool" where
  "key_ok key \<longleftrightarrow> length key \<le> MAX_LOCAL_RECORD"

lemma EncodeString_inj: "key_ok k \<Longrightarrow> key_ok l \<Longrightarrow> EncodeString k = EncodeString l \<longleftrightarrow> k = l"
  using string_record.enc_inj by (auto simp: key_ok_def)

lemma stored_write:
  assumes "length v \<le> MAX_LOCAL_RECORD" and "key_ok k" and "key_ok l"
  shows "stored (db \<lparr> kv_data := batch_apply (batch_Write k v []) (kv_data db) \<rparr>) l
    = (if k = l then Some v else stored db l)"
  using assms by (simp add: stored_def batch_apply_def batch_Write_def bytes_record.dec_enc EncodeString_inj)

lemma stored_KV_Write:
  assumes "length v \<le> MAX_LOCAL_RECORD" and "key_ok k" and "key_ok l"
  shows "stored (snd (KV_Write w k v db)) l = (if k = l \<and> w \<noteq> WriteLost then Some v else stored db l)"
  using stored_write [OF assms] by (cases w) (auto simp: KV_Write_def WriteBatch_def Let_def)

lemma fst_KV_Write: "fst (KV_Write w k v db) = Inr u \<longleftrightarrow> w = WriteOk"
  by (cases w) (simp_all add: KV_Write_def WriteBatch_def Let_def)

lemma KV_Write_unreadable [simp]: "kv_unreadable (snd (KV_Write w k v db)) = kv_unreadable db"
  by (cases w) (simp_all add: KV_Write_def WriteBatch_def Let_def)


section \<open>Properties\<close>

text \<open>A compact size is read exactly from its own encoding: no other byte string, in particular no longer form of
  a small value, is accepted, and values above 32 MiB are refused. The encoder of a value writes as many bytes as
  \<^verbatim>\<open>CompactSizeWidth\<close> announces.\<close>

theorem compact_size_exact:
  "(ReadCompactSize bs = Some (v, r) \<longleftrightarrow> v \<le> 0x02000000 \<and> bs = AppendCompactSize v @ r)
   \<and> length (AppendCompactSize v) = CompactSizeWidth v"
  using compact_read_back compact_canonical AppendCompactSize_width by blast

end
