(* ===== verification/SigningJournal.thy ===== *)
theory SigningJournal
  imports LocalStore TextForms
begin

text \<open>
  The durable journal of the PoA finalizer (\<^verbatim>\<open>poa_signing_journal.h/.cpp\<close>). The journal object lives in the
  process; its head is durable in the key-value store. Every operation takes the store and the journal and returns both;
  its argument \<open>w\<close> says what becomes of the one synchronous write the operation can make.
\<close>

section \<open>Data\<close>

record PoaJournalHead =
  jh_height :: u64
  jh_parent_block_id :: hash256
  jh_block_id :: hash256

datatype PoaJournalStatus = NONE | ALREADY_PREPARED | INVALID_REQUEST | HISTORY_NOT_VERIFIED | HISTORY_MISMATCH
  | HEIGHT_MISMATCH | PARENT_MISMATCH | EQUIVOCATION | JOURNAL_HALTED | STORAGE_ERROR

fun journal_status_code :: "PoaJournalStatus \<Rightarrow> u8" where
  "journal_status_code NONE = 0"
| "journal_status_code ALREADY_PREPARED = 1"
| "journal_status_code INVALID_REQUEST = 2"
| "journal_status_code HISTORY_NOT_VERIFIED = 3"
| "journal_status_code HISTORY_MISMATCH = 4"
| "journal_status_code HEIGHT_MISMATCH = 5"
| "journal_status_code PARENT_MISMATCH = 6"
| "journal_status_code EQUIVOCATION = 7"
| "journal_status_code JOURNAL_HALTED = 8"
| "journal_status_code STORAGE_ERROR = 9"

record PoaSigningJournal =
  j_network_binding :: hash256
  j_genesis_anchor :: hash256
  j_finalizer_key_id :: IdentityKeyId
  j_prefix :: string
  j_head :: PoaJournalHead
  j_verified_height :: u64
  j_verified_tip :: hash256
  j_history_verified :: bool
  j_halted :: bool

definition JOURNAL_METADATA_SIZE :: nat where "JOURNAL_METADATA_SIZE = 32 + 32 + 32"
definition JOURNAL_HEAD_SIZE :: nat where "JOURNAL_HEAD_SIZE = 8 + 32 + 32"

definition journal_prefix :: "hash256 \<Rightarrow> string" where
  "journal_prefix network_binding = ''poa-finalizer-journal/'' @ HexEncode (hash_bytes network_binding) @ ''/''"

definition EncodeHead :: "PoaJournalHead \<Rightarrow> bytes" where
  "EncodeHead head = le_bytes 8 (jh_height head) @ hash_bytes (jh_parent_block_id head) @ hash_bytes (jh_block_id head)"

definition DecodeHead :: "bytes \<Rightarrow> PoaJournalHead option" where
  "DecodeHead bs =
     (if length bs \<noteq> JOURNAL_HEAD_SIZE then None
      else let head = \<lparr> jh_height = le_word (take 8 bs), jh_parent_block_id = be_word (subspan 8 32 bs),
             jh_block_id = be_word (subspan 40 32 bs) \<rparr>
        in if jh_block_id head = 0 \<or> (jh_height head = 0 \<and> jh_parent_block_id head \<noteq> 0)
              \<or> (jh_height head \<noteq> 0 \<and> jh_parent_block_id head = 0) then None
           else Some head)"


section \<open>Opening the journal\<close>

text \<open>What the constructor finds: an existing journal (its head, and whether it is halted) or none.\<close>

definition load_journal :: "KVStore \<Rightarrow> string \<Rightarrow> bytes \<Rightarrow> hash256 \<Rightarrow> exn + (PoaJournalHead \<times> bool) option" where
  "load_journal db prefix expected_metadata genesis_anchor =
     bindE (KV_Read db (prefix @ ''metadata'')) (\<lambda>metadata. case metadata of
         Some m \<Rightarrow>
           if m \<noteq> expected_metadata then Inl runtime_error
           else bindE (KV_Read db (prefix @ ''head'')) (\<lambda>encoded_head.
             case Option.bind encoded_head DecodeHead of None \<Rightarrow> Inl runtime_error
               | Some head \<Rightarrow>
                 if jh_height head = 0 \<and> jh_block_id head \<noteq> genesis_anchor then Inl runtime_error
                 else bindE (KV_Read db (prefix @ ''halt'')) (\<lambda>halt. case halt of
                     Some h \<Rightarrow>
                       if length h \<noteq> 1 \<or> (hd h \<noteq> journal_status_code HISTORY_MISMATCH \<and> hd h \<noteq> journal_status_code EQUIVOCATION)
                       then Inl runtime_error else Inr (Some (head, True))
                   | None \<Rightarrow> bindE (KV_Exists db (prefix @ ''halt'')) (\<lambda>e.
                       if e then Inl runtime_error else Inr (Some (head, False)))))
       | None \<Rightarrow>
         bindE (KV_Exists db (prefix @ ''metadata'')) (\<lambda>em. if em then Inl runtime_error
           else bindE (KV_Exists db (prefix @ ''head'')) (\<lambda>eh. if eh then Inl runtime_error
             else bindE (KV_Exists db (prefix @ ''halt'')) (\<lambda>et. if et then Inl runtime_error else Inr None))))"

definition genesis_head :: "hash256 \<Rightarrow> PoaJournalHead" where
  "genesis_head genesis_anchor = \<lparr> jh_height = 0, jh_parent_block_id = 0, jh_block_id = genesis_anchor \<rparr>"

text \<open>The constructor. Its check on the size of the expected metadata cannot fail: the three fields have 32 bytes each.\<close>

definition open_journal ::
  "crypto \<Rightarrow> write_outcome \<Rightarrow> hash256 \<Rightarrow> hash256 \<Rightarrow> IdentityHybridPublicKey \<Rightarrow> KVStore \<Rightarrow> (exn + PoaSigningJournal) \<times> KVStore" where
  "open_journal C w network_binding genesis_anchor finalizer_key db =
     (case ComputePoaFinalizerKeyId C finalizer_key of None \<Rightarrow> (Inl invalid_argument, db)
      | Some key_id \<Rightarrow>
        if network_binding = 0 \<or> genesis_anchor = 0 then (Inl invalid_argument, db)
        else let prefix = journal_prefix network_binding;
                 expected_metadata = hash_bytes network_binding @ hash_bytes key_id @ hash_bytes genesis_anchor;
                 journal = (\<lambda>head halted. \<lparr> j_network_binding = network_binding, j_genesis_anchor = genesis_anchor,
                   j_finalizer_key_id = key_id, j_prefix = prefix, j_head = head, j_verified_height = 0, j_verified_tip = 0,
                   j_history_verified = False, j_halted = halted \<rparr>)
          in case load_journal db prefix expected_metadata genesis_anchor of Inl e \<Rightarrow> (Inl e, db)
             | Inr (Some (head, halted)) \<Rightarrow> (Inr (journal head halted), db)
             | Inr None \<Rightarrow>
               (case WriteBatch w (batch_Write (prefix @ ''head'') (EncodeHead (genesis_head genesis_anchor))
                       (batch_Write (prefix @ ''metadata'') expected_metadata [])) db of
                  (Inl e, db') \<Rightarrow> (Inl e, db')
                | (Inr _, db') \<Rightarrow> (Inr (journal (genesis_head genesis_anchor) False), db')))"


section \<open>Operations\<close>

definition PersistHalt ::
  "write_outcome \<Rightarrow> PoaJournalStatus \<Rightarrow> KVStore \<Rightarrow> PoaSigningJournal \<Rightarrow> bool \<times> KVStore \<times> PoaSigningJournal" where
  "PersistHalt w reason db j =
     (let j = j \<lparr> j_halted := True, j_history_verified := False \<rparr>;
          (r, db') = KV_Write w (j_prefix j @ ''halt'') [journal_status_code reason] db
      in (case r of Inl _ \<Rightarrow> False | Inr _ \<Rightarrow> True, db', j))"

definition tip_matches :: "PoaSigningJournal \<Rightarrow> u64 \<Rightarrow> hash256 \<Rightarrow> bool" where
  "tip_matches j finalized_height finalized_tip \<longleftrightarrow>
     (if jh_height (j_head j) = 0 then finalized_height = 0 \<and> finalized_tip = j_genesis_anchor j
      else if finalized_height = jh_height (j_head j) then finalized_tip = jh_block_id (j_head j)
      else if finalized_height \<noteq> U64_MAX \<and> finalized_height + 1 = jh_height (j_head j)
        then finalized_tip = jh_parent_block_id (j_head j)
      else False)"

definition CheckCanonicalTip ::
  "write_outcome \<Rightarrow> u64 \<Rightarrow> hash256 \<Rightarrow> KVStore \<Rightarrow> PoaSigningJournal \<Rightarrow> PoaJournalStatus \<times> KVStore \<times> PoaSigningJournal" where
  "CheckCanonicalTip w finalized_height finalized_tip db j =
     (if j_halted j then (JOURNAL_HALTED, db, j)
      else if \<not> tip_matches j finalized_height finalized_tip then
        (let (persisted, db', j') = PersistHalt w HISTORY_MISMATCH db (j \<lparr> j_history_verified := False \<rparr>)
         in (if persisted then HISTORY_MISMATCH else STORAGE_ERROR, db', j'))
      else (NONE, db, j \<lparr> j_verified_height := finalized_height, j_verified_tip := finalized_tip, j_history_verified := True \<rparr>))"

definition PrepareToSign ::
  "write_outcome \<Rightarrow> u64 \<Rightarrow> hash256 \<Rightarrow> hash256 \<Rightarrow> KVStore \<Rightarrow> PoaSigningJournal \<Rightarrow> PoaJournalStatus \<times> KVStore \<times> PoaSigningJournal" where
  "PrepareToSign w height parent_block_id block_id db j =
     (if j_halted j then (JOURNAL_HALTED, db, j)
      else if \<not> j_history_verified j then (HISTORY_NOT_VERIFIED, db, j)
      else if height = 0 \<or> parent_block_id = 0 \<or> block_id = 0 then (INVALID_REQUEST, db, j)
      else if height = jh_height (j_head j) then
        (if parent_block_id = jh_parent_block_id (j_head j) \<and> block_id = jh_block_id (j_head j) then (ALREADY_PREPARED, db, j)
         else let (persisted, db', j') = PersistHalt w EQUIVOCATION db j
              in (if persisted then EQUIVOCATION else STORAGE_ERROR, db', j'))
      else if jh_height (j_head j) = U64_MAX \<or> height \<noteq> jh_height (j_head j) + 1 then (HEIGHT_MISMATCH, db, j)
      else if j_verified_height j \<noteq> jh_height (j_head j) \<or> j_verified_tip j \<noteq> jh_block_id (j_head j) then (HISTORY_NOT_VERIFIED, db, j)
      else if parent_block_id \<noteq> jh_block_id (j_head j) then (PARENT_MISMATCH, db, j)
      else let next = \<lparr> jh_height = height, jh_parent_block_id = parent_block_id, jh_block_id = block_id \<rparr>
           in (case KV_Write w (j_prefix j @ ''head'') (EncodeHead next) db of
                 (Inr _, db') \<Rightarrow> (NONE, db', j \<lparr> j_head := next \<rparr>)
               | (Inl _, db') \<Rightarrow> (STORAGE_ERROR, db', j \<lparr> j_halted := True, j_history_verified := False \<rparr>)))"


section \<open>Intents\<close>

text \<open>
  What the finalizer relies on. The head of the log only moves to a child of the block it names. An intent is covered by
  a head when it lies below it, is the head itself, or is the parent of the head.
\<close>

definition head_step :: "PoaJournalHead \<Rightarrow> PoaJournalHead \<Rightarrow> bool" where
  "head_step h h' \<longleftrightarrow> h' = h \<or> (unat (jh_height h') = Suc (unat (jh_height h)) \<and> jh_parent_block_id h' = jh_block_id h)"

definition covers :: "PoaJournalHead \<Rightarrow> PoaJournalHead \<Rightarrow> bool" where
  "covers h i \<longleftrightarrow> jh_height i \<le> jh_height h \<and> (jh_height i = jh_height h \<longrightarrow> i = h)
     \<and> (Suc (unat (jh_height i)) = unat (jh_height h) \<longrightarrow> jh_block_id i = jh_parent_block_id h)"

lemma covers_refl: "covers h h"
  by (simp add: covers_def)

lemma covers_step:
  assumes "covers h i" and "head_step h h'"
  shows "covers h' i"
proof (cases "h' = h")
  case False
  then have n: "unat (jh_height h') = Suc (unat (jh_height h))" and p: "jh_parent_block_id h' = jh_block_id h"
    using assms(2) by (auto simp: head_step_def)
  have le: "unat (jh_height i) \<le> unat (jh_height h)" using assms(1) by (simp add: covers_def word_le_nat_alt)
  have "i = h" if "unat (jh_height i) = unat (jh_height h)"
    using that assms(1) by (simp add: covers_def word_unat_eq_iff)
  with n p le show ?thesis by (auto simp: covers_def word_le_nat_alt)
qed (use assms in simp)

locale intent_log =
  fixes inv :: "'s \<Rightarrow> bool" and head :: "'s \<Rightarrow> PoaJournalHead option" and move :: "'s \<Rightarrow> 's \<Rightarrow> bool"
  assumes inv_move: "inv s \<Longrightarrow> move s s' \<Longrightarrow> inv s'"
    and head_move: "inv s \<Longrightarrow> head s = Some h \<Longrightarrow> move s s' \<Longrightarrow> \<exists>h'. head s' = Some h' \<and> head_step h h'"
begin

text \<open>The intents recorded so far are covered by the current head.\<close>

definition recorded :: "'s \<Rightarrow> PoaJournalHead set \<Rightarrow> bool" where
  "recorded s I \<longleftrightarrow> inv s \<and> (\<forall>i\<in>I. \<exists>h. head s = Some h \<and> covers h i)"

lemma recorded_move: "recorded s I \<Longrightarrow> move s s' \<Longrightarrow> recorded s' I"
  unfolding recorded_def using inv_move head_move covers_step by metis

lemma recorded_moves: "move\<^sup>*\<^sup>* s s' \<Longrightarrow> recorded s I \<Longrightarrow> recorded s' I"
  by (induction rule: rtranclp_induct) (auto intro: recorded_move)

lemma recorded_head: "recorded s I \<Longrightarrow> head s = Some h \<Longrightarrow> recorded s (insert h I)"
  by (auto simp: recorded_def covers_refl)

end

text \<open>Intents that agree: one block per height, and each block extends the one below it.\<close>

definition one_chain :: "PoaJournalHead set \<Rightarrow> bool" where
  "one_chain I \<longleftrightarrow> (\<forall>i\<in>I. \<forall>k\<in>I. (jh_height i = jh_height k \<longrightarrow> i = k)
     \<and> (Suc (unat (jh_height i)) = unat (jh_height k) \<longrightarrow> jh_parent_block_id k = jh_block_id i))"

lemma one_chain_insert:
  assumes "one_chain I" and "\<And>i. i \<in> I \<Longrightarrow> covers h i"
  shows "one_chain (insert h I)"
proof -
  have "\<not> Suc (unat (jh_height h)) = unat (jh_height i)" if "i \<in> I" for i
    using assms(2) [OF that] by (auto simp: covers_def word_le_nat_alt)
  then show ?thesis using assms by (auto simp: one_chain_def covers_def)
qed


section \<open>The journal keeps its head\<close>

definition has_metadata :: "hash256 \<Rightarrow> KVStore \<Rightarrow> bool" where
  "has_metadata nb db \<longleftrightarrow> stored db (journal_prefix nb @ ''metadata'') \<noteq> None"

definition durable_head :: "hash256 \<Rightarrow> KVStore \<Rightarrow> PoaJournalHead option" where
  "durable_head nb db = (if has_metadata nb db then Option.bind (stored db (journal_prefix nb @ ''head'')) DecodeHead else None)"

definition journal_ok :: "hash256 \<Rightarrow> KVStore \<Rightarrow> PoaSigningJournal \<Rightarrow> bool" where
  "journal_ok nb db j \<longleftrightarrow> j_network_binding j = nb \<and> j_prefix j = journal_prefix nb \<and> has_metadata nb db
     \<and> (\<not> j_halted j \<longrightarrow> durable_head nb db = Some (j_head j))"

definition head_ok :: "PoaJournalHead \<Rightarrow> bool" where
  "head_ok h \<longleftrightarrow> jh_block_id h \<noteq> 0 \<and> (jh_height h = 0 \<longleftrightarrow> jh_parent_block_id h = 0)"

lemma DecodeHead_EncodeHead: "head_ok h \<Longrightarrow> DecodeHead (EncodeHead h) = Some h"
  by (auto simp: DecodeHead_def EncodeHead_def JOURNAL_HEAD_SIZE_def head_ok_def subspan_def Let_def be_word_be_bytes le_word_le_bytes)

lemma journal_keys_ok: "length s \<le> 100 \<Longrightarrow> key_ok (journal_prefix nb @ s)"
  by (simp add: key_ok_def journal_prefix_def length_HexEncode MAX_LOCAL_RECORD_def)

lemma length_EncodeHead: "length (EncodeHead h) \<le> MAX_LOCAL_RECORD"
  by (simp add: EncodeHead_def MAX_LOCAL_RECORD_def)

lemmas journal_key_oks = journal_keys_ok [of "''metadata''"] journal_keys_ok [of "''head''"] journal_keys_ok [of "''halt''"]

lemma write_halt_keeps:
  "has_metadata nb (snd (KV_Write w (journal_prefix nb @ ''halt'') [c] db)) = has_metadata nb db"
  "durable_head nb (snd (KV_Write w (journal_prefix nb @ ''halt'') [c] db)) = durable_head nb db"
  using journal_key_oks [of nb] by (simp_all add: has_metadata_def durable_head_def stored_KV_Write MAX_LOCAL_RECORD_def)

lemma write_head_sets:
  "has_metadata nb (snd (KV_Write w (journal_prefix nb @ ''head'') (EncodeHead h) db)) = has_metadata nb db"
  "head_ok h \<Longrightarrow> has_metadata nb db \<Longrightarrow>
   durable_head nb (snd (KV_Write w (journal_prefix nb @ ''head'') (EncodeHead h) db))
     = (if w = WriteLost then durable_head nb db else Some h)"
  using journal_key_oks [of nb]
  by (simp_all add: has_metadata_def durable_head_def stored_KV_Write length_EncodeHead DecodeHead_EncodeHead)

lemma PersistHalt_keeps:
  assumes "PersistHalt w r db j = (p, db', j')" and "j_prefix j = journal_prefix nb"
  shows "has_metadata nb db' = has_metadata nb db \<and> durable_head nb db' = durable_head nb db
    \<and> j_halted j' \<and> j_network_binding j' = j_network_binding j \<and> j_prefix j' = j_prefix j"
proof -
  have "db' = snd (KV_Write w (journal_prefix nb @ ''halt'') [journal_status_code r] db)"
    and j: "j' = j \<lparr> j_halted := True, j_history_verified := False \<rparr>"
    using assms by (auto simp: PersistHalt_def Let_def split: prod.splits)
  then show ?thesis using write_halt_keeps by simp
qed

lemma CheckCanonicalTip_keeps:
  assumes "CheckCanonicalTip w h t db j = (s, db', j')" and "journal_ok nb db j"
  shows "journal_ok nb db' j' \<and> durable_head nb db' = durable_head nb db"
  using assms PersistHalt_keeps [of w HISTORY_MISMATCH db "j \<lparr> j_history_verified := False \<rparr>" _ _ _ nb]
  by (auto simp: CheckCanonicalTip_def journal_ok_def Let_def split: if_splits prod.splits)

lemma CheckCanonicalTip_NONE:
  "CheckCanonicalTip w h t db j = (NONE, db', j') \<Longrightarrow> db' = db \<and> j_head j' = j_head j \<and> \<not> j_halted j' \<and> j_history_verified j'"
  by (auto simp: CheckCanonicalTip_def Let_def split: if_splits prod.splits)


lemma PrepareToSign_cases:
  fixes height parent block
  defines "nx \<equiv> \<lparr> jh_height = height, jh_parent_block_id = parent, jh_block_id = block \<rparr>"
  assumes "PrepareToSign w height parent block db j = (s, db', j')"
  obtains (same) "db' = db" "j' = j"
    | (halt) p where "PersistHalt w EQUIVOCATION db j = (p, db', j')" "\<not> j_halted j"
    | (head) r where "KV_Write w (j_prefix j @ ''head'') (EncodeHead nx) db = (r, db')" "\<not> j_halted j"
        "height = jh_height (j_head j) + 1" "jh_height (j_head j) \<noteq> U64_MAX" "parent = jh_block_id (j_head j)" "head_ok nx"
        "j' = (case r of Inr _ \<Rightarrow> j \<lparr> j_head := nx \<rparr> | Inl _ \<Rightarrow> j \<lparr> j_halted := True, j_history_verified := False \<rparr>)"
proof -
  let ?wr = "KV_Write w (j_prefix j @ ''head'') (EncodeHead nx) db"
  obtain r d where w: "?wr = (r, d)" by (cases ?wr)
  show ?thesis
    using assms(2) that w unfolding PrepareToSign_def Let_def nx_def [symmetric]
    by (cases r) (auto simp: nx_def head_ok_def split: if_split_asm prod.split_asm)
qed

lemma PrepareToSign_keeps:
  assumes "PrepareToSign w height parent block db j = (s, db', j')" and ok: "journal_ok nb db j"
  shows "journal_ok nb db' j' \<and> (\<forall>h. durable_head nb db = Some h \<longrightarrow> (\<exists>h'. durable_head nb db' = Some h' \<and> head_step h h'))"
  using assms(1)
proof (cases rule: PrepareToSign_cases)
  case same
  then show ?thesis using ok by (auto simp: head_step_def)
next
  case (halt p)
  have "j_prefix j = journal_prefix nb" using ok by (simp add: journal_ok_def)
  then show ?thesis using PersistHalt_keeps [OF halt(1)] halt(2) ok by (auto simp: journal_ok_def head_step_def)
next
  case (head r)
  let ?next = "\<lparr> jh_height = height, jh_parent_block_id = parent, jh_block_id = block \<rparr>"
  have px: "j_prefix j = journal_prefix nb" and d0: "durable_head nb db = Some (j_head j)" "has_metadata nb db"
    using ok head(2) by (simp_all add: journal_ok_def)
  have db': "db' = snd (KV_Write w (journal_prefix nb @ ''head'') (EncodeHead ?next) db)"
    and r: "r = fst (KV_Write w (journal_prefix nb @ ''head'') (EncodeHead ?next) db)" using head(1) px by simp_all
  have d: "durable_head nb db' = (if w = WriteLost then durable_head nb db else Some ?next)" "has_metadata nb db'"
    unfolding db' using write_head_sets d0(2) head(6) by simp_all
  have "unat height = Suc (unat (jh_height (j_head j)))"
    using head(3,4) by (metis add.commute add_eq_0_iff unatSuc)
  then have st: "head_step (j_head j) ?next" using head(5) by (simp add: head_step_def)
  have "journal_ok nb db' j'"
    using ok d r fst_KV_Write [of w "journal_prefix nb @ ''head''" "EncodeHead ?next" db] head(7)
    by (auto simp: journal_ok_def split: sum.splits)
  then show ?thesis using d d0 st by (auto simp: head_step_def)
qed

lemma PrepareToSign_head:
  assumes "PrepareToSign w height parent block db j = (s, db', j')" and "journal_ok nb db j"
    and "s = NONE \<or> s = ALREADY_PREPARED"
  shows "durable_head nb db' = Some \<lparr> jh_height = height, jh_parent_block_id = parent, jh_block_id = block \<rparr>"
proof -
  have "\<not> j_halted j'" "j_head j' = \<lparr> jh_height = height, jh_parent_block_id = parent, jh_block_id = block \<rparr>"
    using assms(1,3) by (auto simp: PrepareToSign_def Let_def split: if_splits prod.splits sum.splits)
  moreover have "journal_ok nb db' j'" using PrepareToSign_keeps [OF assms(1,2)] by simp
  ultimately show ?thesis by (simp add: journal_ok_def)
qed

lemma load_journal_Some:
  assumes "load_journal db (journal_prefix nb) m ga = Inr (Some (head, halted))"
  shows "has_metadata nb db \<and> durable_head nb db = Some head"
  using assms
  by (auto simp: load_journal_def bindE_Inr_iff has_metadata_def durable_head_def dest!: KV_Read_Some
      split: option.split_asm if_split_asm)

lemma load_journal_None: "load_journal db (journal_prefix nb) m ga = Inr None \<Longrightarrow> \<not> has_metadata nb db"
  by (auto simp: load_journal_def bindE_Inr_iff has_metadata_def dest!: KV_Read_Some KV_Exists_False
      split: option.split_asm if_split_asm)

lemma fresh_journal:
  assumes "db' = db \<lparr> kv_data := batch_apply (batch_Write (journal_prefix nb @ ''head'') (EncodeHead h)
      (batch_Write (journal_prefix nb @ ''metadata'') (hash_bytes a @ hash_bytes b @ hash_bytes c) [])) (kv_data db) \<rparr>" and "head_ok h"
  shows "has_metadata nb db' \<and> durable_head nb db' = Some h"
proof -
  have "stored db' (journal_prefix nb @ ''head'') = Some (EncodeHead h)"
    "stored db' (journal_prefix nb @ ''metadata'') = Some (hash_bytes a @ hash_bytes b @ hash_bytes c)"
    using journal_key_oks [of nb] EncodeString_inj [of "journal_prefix nb @ ''head''" "journal_prefix nb @ ''metadata''"]
      bytes_record.dec_enc [OF length_EncodeHead] bytes_record.dec_enc [of "hash_bytes a @ hash_bytes b @ hash_bytes c"]
    by (simp_all add: assms(1) stored_def batch_apply_def batch_Write_def MAX_LOCAL_RECORD_def)
  then show ?thesis using assms(2) by (simp add: has_metadata_def durable_head_def DecodeHead_EncodeHead)
qed

lemma open_journal_ok:
  assumes "open_journal C w nb ga key db = (r, db')"
  shows "(has_metadata nb db \<longrightarrow> db' = db) \<and> (\<forall>j. r = Inr j \<longrightarrow> journal_ok nb db' j)"
proof (cases "ComputePoaFinalizerKeyId C key")
  case None
  then show ?thesis using assms by (auto simp: open_journal_def)
next
  case (Some key_id)
  show ?thesis
  proof (cases "nb = 0 \<or> ga = 0")
    case True
    then show ?thesis using assms Some by (auto simp: open_journal_def)
  next
    case False
    let ?load = "load_journal db (journal_prefix nb) (hash_bytes nb @ hash_bytes key_id @ hash_bytes ga) ga"
    show ?thesis
    proof (cases ?load)
      case (Inl e)
      then show ?thesis using assms Some False by (auto simp: open_journal_def)
    next
      case (Inr x)
      show ?thesis
      proof (cases x)
        case None
        have nm: "\<not> has_metadata nb db" using Inr None load_journal_None by blast
        have g: "head_ok (genesis_head ga)" using False by (simp add: head_ok_def genesis_head_def)
        show ?thesis using assms Some False Inr None nm fresh_journal [OF _ g]
          by (cases w) (auto simp: open_journal_def WriteBatch_def Let_def journal_ok_def)
      next
        case (Some y)
        then show ?thesis using assms \<open>ComputePoaFinalizerKeyId C key = Some key_id\<close> False Inr load_journal_Some
          by (cases y) (auto simp: open_journal_def Let_def journal_ok_def)
      qed
    qed
  qed
qed


section \<open>Everything that can happen to a journal\<close>

text \<open>
  The process opens the journal, uses it, stops or crashes at any point, and starts again; meanwhile other parts of the
  node write under other keys, and any read may fail.
\<close>

definition journal_keys :: "hash256 \<Rightarrow> bytes list" where
  "journal_keys nb = map (\<lambda>k. EncodeString (journal_prefix nb @ k)) [''metadata'', ''head'', ''halt'']"

type_synonym journal_state = "KVStore \<times> PoaSigningJournal option"

inductive journal_move :: "crypto \<Rightarrow> hash256 \<Rightarrow> journal_state \<Rightarrow> journal_state \<Rightarrow> bool" for C nb where
  opened: "open_journal C w nb ga key db = (Inr j, db') \<Longrightarrow> journal_move C nb (db, None) (db', Some j)"
| refused: "open_journal C w nb ga key db = (Inl e, db') \<Longrightarrow> journal_move C nb (db, None) (db', None)"
| stopped: "journal_move C nb (db, x) (db, None)"
| checked: "CheckCanonicalTip w h t db j = (s, db', j') \<Longrightarrow> journal_move C nb (db, Some j) (db', Some j')"
| prepared: "PrepareToSign w h p b db j = (s, db', j') \<Longrightarrow> journal_move C nb (db, Some j) (db', Some j')"
| elsewhere: "list_all (\<lambda>k. kv_data db' k = kv_data db k) (journal_keys nb) \<Longrightarrow> journal_move C nb (db, x) (db', x)"

definition journal_inv :: "hash256 \<Rightarrow> journal_state \<Rightarrow> bool" where
  "journal_inv nb s = (case snd s of None \<Rightarrow> True | Some j \<Rightarrow> journal_ok nb (fst s) j)"

lemma elsewhere_keeps:
  assumes "list_all (\<lambda>k. kv_data db' k = kv_data db k) (journal_keys nb)"
  shows "has_metadata nb db' = has_metadata nb db \<and> durable_head nb db' = durable_head nb db"
  using assms by (simp add: journal_keys_def has_metadata_def durable_head_def stored_def)

lemma durable_head_metadata: "durable_head nb db = Some h \<Longrightarrow> has_metadata nb db"
  by (simp add: durable_head_def split: if_splits)

interpretation journal: intent_log "journal_inv nb" "\<lambda>s. durable_head nb (fst s)" "journal_move C nb" for C nb
proof unfold_locales
  fix s s' assume "journal_inv nb s" and "journal_move C nb s s'"
  from this(2,1) show "journal_inv nb s'"
  proof cases
    case (elsewhere db' db x)
    then show ?thesis using \<open>journal_inv nb s\<close> elsewhere_keeps [OF elsewhere(3)]
      by (auto simp: journal_inv_def journal_ok_def split: option.splits)
  qed (use CheckCanonicalTip_keeps PrepareToSign_keeps open_journal_ok in \<open>fastforce simp: journal_inv_def\<close>)+
next
  fix s h s' assume i: "journal_inv nb s" and d: "durable_head nb (fst s) = Some h" and m: "journal_move C nb s s'"
  have keep: "\<exists>h'. durable_head nb (fst s') = Some h' \<and> head_step h h'" if "durable_head nb (fst s') = durable_head nb (fst s)"
    using that d by (auto simp: head_step_def)
  from m show "\<exists>h'. durable_head nb (fst s') = Some h' \<and> head_step h h'"
  proof cases
    case (opened w ga key db j db')
    then show ?thesis using keep open_journal_ok [OF opened(3)] durable_head_metadata [OF d] by simp
  next
    case (refused w ga key db e db')
    then show ?thesis using keep open_journal_ok [OF refused(3)] durable_head_metadata [OF d] by simp
  next
    case (stopped db x)
    then show ?thesis using keep by simp
  next
    case (checked w h t db j s db' j')
    then show ?thesis using keep CheckCanonicalTip_keeps [OF checked(3)] i by (simp add: journal_inv_def)
  next
    case (prepared w h p b db j s db' j')
    then show ?thesis using d PrepareToSign_keeps [OF prepared(3)] i by (simp add: journal_inv_def)
  next
    case (elsewhere db' db x)
    then show ?thesis using keep elsewhere_keeps [OF elsewhere(3)] by simp
  qed
qed

end
