(* ===== verification/OperationCodec.thy ===== *)
theory OperationCodec
  imports Operation
begin

text \<open>
  Round trip of the tagged union of operations: every operation that serializes is read back from its bytes, for
  every variant but \<^verbatim>\<open>StorageSettlement\<close> (whose writer does not check the inner layout of the payout bindings it
  copies).
\<close>

lemma rotate_dec_enc:
  assumes "SerializeIdentityRotate C op = Some bs"
  shows "DeserializeIdentityRotate C bs = Some op"
proof -
  from assms have nz: "rot_account_id op \<noteq> 0" and k: "DecodeIdentityKemPackage C (kem_bytes (rot_new_kem_package op)) \<noteq> None"
    and keys: "hybrid_key_ok RECOVERY_ROOT 1952 (rot_new_recovery_key op)" "hybrid_key_ok AUTHORIZATION 1312 (rot_new_authorization_key op)"
    and sigs: "hybrid_sig_ok 3309 (rot_old_recovery_signature op)" "hybrid_sig_ok 3309 (rot_new_recovery_pop op)"
      "hybrid_sig_ok 2420 (rot_new_authorization_pop op)"
    and len: "length bs = IDENTITY_ROTATE_SIZE"
    and b: "bs = hash_bytes (rot_account_id op) @ WritePublic (rot_new_recovery_key op)
             @ WritePublic (rot_new_authorization_key op) @ kem_bytes (rot_new_kem_package op)
             @ le_bytes 8 (rot_nonce op) @ le_bytes 8 (rot_key_epoch op) @ WriteSignature (rot_old_recovery_signature op)
             @ WriteSignature (rot_new_recovery_pop op) @ WriteSignature (rot_new_authorization_pop op)"
    by (auto simp: SerializeIdentityRotate_def Let_def split: if_splits)
  have n: "length (pk_ml_dsa (rot_new_recovery_key op)) = 1952" "length (pk_ml_dsa (rot_new_authorization_key op)) = 1312"
    "length (sig_ml_dsa (rot_old_recovery_signature op)) = 3309" "length (sig_ml_dsa (rot_new_recovery_pop op)) = 3309"
    "length (sig_ml_dsa (rot_new_authorization_pop op)) = 2420"
    and p: "purpose (rot_new_recovery_key op) = RECOVERY_ROOT" "purpose (rot_new_authorization_key op) = AUTHORIZATION"
    using keys sigs by (simp_all add: hybrid_key_ok_def hybrid_sig_ok_def)
  have f: "take 32 bs = hash_bytes (rot_account_id op)"
    "subspan 32 32 bs = hash_bytes (pk_ed25519 (rot_new_recovery_key op))" "subspan 64 1952 bs = pk_ml_dsa (rot_new_recovery_key op)"
    "subspan 2016 32 bs = hash_bytes (pk_ed25519 (rot_new_authorization_key op))" "subspan 2048 1312 bs = pk_ml_dsa (rot_new_authorization_key op)"
    "subspan 3360 1218 bs = kem_bytes (rot_new_kem_package op)"
    "subspan 4578 8 bs = le_bytes 8 (rot_nonce op)" "subspan 4586 8 bs = le_bytes 8 (rot_key_epoch op)"
    "subspan 4594 64 bs = ed_sig_bytes (sig_ed25519 (rot_old_recovery_signature op))"
    "subspan 4658 3309 bs = sig_ml_dsa (rot_old_recovery_signature op)"
    "subspan 7967 64 bs = ed_sig_bytes (sig_ed25519 (rot_new_recovery_pop op))"
    "subspan 8031 3309 bs = sig_ml_dsa (rot_new_recovery_pop op)"
    "subspan 11340 64 bs = ed_sig_bytes (sig_ed25519 (rot_new_authorization_pop op))"
    "subspan 11404 2420 bs = sig_ml_dsa (rot_new_authorization_pop op)"
    unfolding b WritePublic_def WriteSignature_def using n by (simp_all add: subspan_def)
  have i: "AccountId_FromBytes (hash_bytes (rot_account_id op)) = Some (rot_account_id op)"
    using nz by (simp add: AccountId_FromBytes_iff)
  have w: "be_word (kem_bytes (rot_new_kem_package op)) = rot_new_kem_package op" by (rule be_word_be_bytes) simp
  have e: "\<lparr> rot_account_id = rot_account_id op,
      rot_new_recovery_key = \<lparr> purpose = RECOVERY_ROOT, pk_ed25519 = pk_ed25519 (rot_new_recovery_key op), pk_ml_dsa = pk_ml_dsa (rot_new_recovery_key op) \<rparr>,
      rot_new_authorization_key = \<lparr> purpose = AUTHORIZATION, pk_ed25519 = pk_ed25519 (rot_new_authorization_key op), pk_ml_dsa = pk_ml_dsa (rot_new_authorization_key op) \<rparr>,
      rot_new_kem_package = rot_new_kem_package op, rot_nonce = rot_nonce op, rot_key_epoch = rot_key_epoch op,
      rot_old_recovery_signature = \<lparr> sig_ed25519 = sig_ed25519 (rot_old_recovery_signature op), sig_ml_dsa = sig_ml_dsa (rot_old_recovery_signature op) \<rparr>,
      rot_new_recovery_pop = \<lparr> sig_ed25519 = sig_ed25519 (rot_new_recovery_pop op), sig_ml_dsa = sig_ml_dsa (rot_new_recovery_pop op) \<rparr>,
      rot_new_authorization_pop = \<lparr> sig_ed25519 = sig_ed25519 (rot_new_authorization_pop op), sig_ml_dsa = sig_ml_dsa (rot_new_authorization_pop op) \<rparr> \<rparr> = op"
    using p by (intro IdentityRotate.equality IdentityHybridPublicKey.equality) simp_all
  show ?thesis
    unfolding DeserializeIdentityRotate_def f i option.case w
    by (simp only: be_word_be_bytes le_word_le_bytes e Let_def len simp_thms if_False if_True) (simp add: be_word_be_bytes le_word_le_bytes e k assms)
qed


lemma authorized_back:
  assumes "SerializeAuthorizedPayload a kind p commitment ser = Inr (Some bs)" and "codec ser des"
  shows "DeserializeAuthorizedPayload kind commitment des bs = Inr (Some (a, p))"
  using authorized_format.authorized_iff [OF authorized_format.intro [OF assms(2)]] assms(1) by blast

lemma sized_authorized_back:
  assumes "SerializeAuthorizedPayload a kind p commitment ser = Inr (Some bs)" and "sized_codec ser des n"
  shows "DeserializeAuthorizedPayload kind commitment des bs = Inr (Some (a, p))" "length bs = IDENTITY_OPERATION_AUTH_SIZE + n"
proof -
  note c = sized_codec.axioms(1) [OF assms(2)]
  show "DeserializeAuthorizedPayload kind commitment des bs = Inr (Some (a, p))" by (rule authorized_back [OF assms(1) c])
  show "length bs = IDENTITY_OPERATION_AUTH_SIZE + n"
    using authorized_format.authorized_length [OF authorized_format.intro [OF c] assms(1)] sized_codec.enc_size [OF assms(2)]
    by auto
qed

lemmas authorized_sizes = AUTHORIZED_PAYMENT_SIZE_def AUTHORIZED_SYSTEM_LOCK_SIZE_def AUTHORIZED_NAME_COMMIT_SIZE_def
  AUTHORIZED_NAME_REVEAL_SIZE_def AUTHORIZED_REVOKE_PUBLICATION_SIZE_def AUTHORIZED_STORAGE_LEASE_SIZE_def

lemma payment_back:
  assumes "SerializePayment C op = Inr (Some bs)"
  shows "DeserializePayment C bs = Inr (Some op)" "length bs = AUTHORIZED_PAYMENT_SIZE"
  using sized_authorized_back [OF assms [unfolded SerializePayment_def] pay.sized_codec_axioms]
  by (simp_all add: DeserializePayment_def mapE_def authorized_sizes)

lemma system_lock_back:
  assumes "SerializeSystemLock C op = Inr (Some bs)"
  shows "DeserializeSystemLock C bs = Inr (Some op)" "length bs = AUTHORIZED_SYSTEM_LOCK_SIZE"
  using sized_authorized_back [OF assms [unfolded SerializeSystemLock_def] slock.sized_codec_axioms]
  by (simp_all add: DeserializeSystemLock_def mapE_def authorized_sizes)

lemma name_commit_back:
  assumes "SerializeNameCommit C op = Inr (Some bs)"
  shows "DeserializeNameCommit C bs = Inr (Some op)" "length bs = AUTHORIZED_NAME_COMMIT_SIZE"
  using sized_authorized_back [OF assms [unfolded SerializeNameCommit_def] ncommit.sized_codec_axioms]
  by (simp_all add: DeserializeNameCommit_def mapE_def authorized_sizes)

lemma name_reveal_back:
  assumes "SerializeNameReveal C op = Inr (Some bs)"
  shows "DeserializeNameReveal C bs = Inr (Some op)" "length bs = AUTHORIZED_NAME_REVEAL_SIZE"
  using sized_authorized_back [OF assms [unfolded SerializeNameReveal_def] nreveal.sized_codec_axioms]
  by (simp_all add: DeserializeNameReveal_def mapE_def authorized_sizes)

lemma revoke_back:
  assumes "SerializeRevokePublicationOperation C op = Inr (Some bs)"
  shows "DeserializeRevokePublicationOperation C bs = Inr (Some op)" "length bs = AUTHORIZED_REVOKE_PUBLICATION_SIZE"
  using sized_authorized_back [OF assms [unfolded SerializeRevokePublicationOperation_def] revoke.sized_codec_axioms]
  by (simp_all add: DeserializeRevokePublicationOperation_def mapE_def authorized_sizes)

lemma lease_back:
  assumes "SerializeStorageLeaseOperation C op = Inr (Some bs)"
  shows "DeserializeStorageLeaseOperation C bs = Inr (Some op)" "length bs = AUTHORIZED_STORAGE_LEASE_SIZE"
  using sized_authorized_back [OF assms [unfolded SerializeStorageLeaseOperation_def] slease.sized_codec_axioms]
  by (simp_all add: DeserializeStorageLeaseOperation_def mapE_def authorized_sizes)

lemma publication_back:
  assumes "SerializeRootPublicationOperation C op = Inr (Some bs)" and "length bs + 1 \<le> ROOT_PUBLICATION_MAX_OPERATION_BYTES"
  shows "DeserializeRootPublicationOperation C bs = Inr (Some op)"
proof -
  note s = assms(1) [unfolded SerializeRootPublicationOperation_def]
  have "length bs \<ge> IDENTITY_OPERATION_AUTH_SIZE"
    using authorized_format.authorized_length [OF arootpub.authorized_format_axioms s] by auto
  then show ?thesis
    using assms(2) authorized_back [OF s rootpub.codec_axioms]
    by (simp add: DeserializeRootPublicationOperation_def mapE_def)
qed

fun is_settlement :: "ProtocolOperation \<Rightarrow> bool" where
  "is_settlement (OpStorageSettlement op) = True"
| "is_settlement op = False"

lemma tagged_iff: "TaggedOperationBytes k m = Inr (Some bs) \<longleftrightarrow> (\<exists>body. m = Inr (Some body) \<and> bs = k # body)"
  by (auto simp: TaggedOperationBytes_def mapE_iff)

lemma account_create_length: "SerializeAccountCreateOp C op = Some bs \<Longrightarrow> length bs = ACCOUNT_CREATE_SIZE"
  using account_create_dec_enc [of C op bs] by (auto simp: DeserializeAccountCreateOp_def split: if_splits)

lemma rotate_length: "SerializeIdentityRotate C op = Some bs \<Longrightarrow> length bs = IDENTITY_ROTATE_SIZE"
  by (auto simp: SerializeIdentityRotate_def Let_def split: if_splits)

lemma operation_dec_enc:
  assumes "SerializeProtocolOperation C op = Inr (Some bs)" and "\<not> is_settlement op"
  shows "DeserializeProtocolOperation C bs = Inr (Some op)"
proof (cases op)
  case (OpAccountCreate x)
  with assms obtain b where "SerializeAccountCreateOp C x = Some b" "bs = 1 # b" by (auto simp: tagged_iff)
  then show ?thesis
    using OpAccountCreate account_create_dec_enc account_create_length by (simp add: DeserializeProtocolOperation_def)
next
  case (OpPayment x)
  with assms obtain b where "SerializePayment C x = Inr (Some b)" "bs = 2 # b" by (auto simp: tagged_iff)
  then show ?thesis using OpPayment payment_back by (simp add: DeserializeProtocolOperation_def mapE_def)
next
  case (OpIdentityRotate x)
  with assms obtain b where "SerializeIdentityRotate C x = Some b" "bs = 3 # b" by (auto simp: tagged_iff)
  then show ?thesis using OpIdentityRotate rotate_dec_enc rotate_length by (simp add: DeserializeProtocolOperation_def)
next
  case (OpSystemLock x)
  with assms obtain b where "SerializeSystemLock C x = Inr (Some b)" "bs = 4 # b" by (auto simp: tagged_iff)
  then show ?thesis using OpSystemLock system_lock_back by (simp add: DeserializeProtocolOperation_def mapE_def)
next
  case (OpNameCommit x)
  with assms obtain b where "SerializeNameCommit C x = Inr (Some b)" "bs = 5 # b" by (auto simp: tagged_iff)
  then show ?thesis using OpNameCommit name_commit_back by (simp add: DeserializeProtocolOperation_def mapE_def)
next
  case (OpNameReveal x)
  with assms obtain b where "SerializeNameReveal C x = Inr (Some b)" "bs = 6 # b" by (auto simp: tagged_iff)
  then show ?thesis using OpNameReveal name_reveal_back by (simp add: DeserializeProtocolOperation_def mapE_def)
next
  case (OpRootPublication x)
  with assms obtain b where b: "SerializeRootPublicationOperation C x = Inr (Some b)" "bs = 7 # b"
    and l: "length b + 1 \<le> ROOT_PUBLICATION_MAX_OPERATION_BYTES"
    by (auto simp: tagged_iff bindE_Inr_iff not_less split: option.splits if_splits)
  then show ?thesis using OpRootPublication publication_back [OF b(1) l] by (simp add: DeserializeProtocolOperation_def mapE_def)
next
  case (OpRevokePublication x)
  with assms obtain b where "SerializeRevokePublicationOperation C x = Inr (Some b)" "bs = 8 # b" by (auto simp: tagged_iff)
  then show ?thesis using OpRevokePublication revoke_back by (simp add: DeserializeProtocolOperation_def mapE_def)
next
  case (OpStorageLease x)
  with assms obtain b where "SerializeStorageLeaseOperation C x = Inr (Some b)" "bs = 9 # b" by (auto simp: tagged_iff)
  then show ?thesis using OpStorageLease lease_back by (simp add: DeserializeProtocolOperation_def mapE_def)
next
  case (OpStorageSettlement x)
  with assms(2) show ?thesis by simp
qed

end
