(* ===== verification/Block.thy ===== *)
theory Block
  imports PoaFinality OperationCodec
begin

text \<open>
  Blocks and finalized blocks (\<^verbatim>\<open>block.h/.cpp\<close>): the header and its identifier, the wire formats, and the
  certificate check against a block (\<^verbatim>\<open>VerifyPoaCertificateForBlock\<close>).
\<close>

definition MAX_FINALIZER_SERIALIZED_BLOCK_BYTES :: nat where
  "MAX_FINALIZER_SERIALIZED_BLOCK_BYTES = 32 * 1024 * 1024"

record CybouBlock =
  blk_parent_block_id :: hash256
  blk_height :: u64
  blk_operations :: "ProtocolOperation list"
  blk_resulting_state_root :: hash256

record CybouBlockHeader =
  hdr_parent_block_id :: hash256
  hdr_height :: u64
  hdr_operations_root :: hash256
  hdr_resulting_state_root :: hash256

record FinalizedBlock =
  fb_block :: CybouBlock
  fb_certificate :: PoaFinalityCertificate


section \<open>Identifiers\<close>

definition ComputeOperationsRootFromHashes :: "crypto \<Rightarrow> hash256 list \<Rightarrow> exn + hash256" where
  "ComputeOperationsRootFromHashes C hashes =
     Sha256_Finalize C (str ''CYBOU/OPS-ROOT'' @ le_bytes 4 (of_nat (length hashes) :: u64) @ concat (map hash_bytes hashes))"

text \<open>The loop skips operations that do not serialize.\<close>

fun operation_hashes :: "crypto \<Rightarrow> ProtocolOperation list \<Rightarrow> exn + hash256 list" where
  "operation_hashes C [] = Inr []"
| "operation_hashes C (op # ops) = bindE (SerializeProtocolOperation C op) (\<lambda>serialized.
     case serialized of None \<Rightarrow> operation_hashes C ops
       | Some bs \<Rightarrow> bindE (Sha256_Finalize C bs) (\<lambda>h. bindE (operation_hashes C ops) (\<lambda>hs. Inr (h # hs))))"

definition ComputeOperationsRoot :: "crypto \<Rightarrow> ProtocolOperation list \<Rightarrow> exn + hash256" where
  "ComputeOperationsRoot C operations = bindE (operation_hashes C operations) (ComputeOperationsRootFromHashes C)"

definition ComputeBlockHeaderId :: "crypto \<Rightarrow> CybouBlockHeader \<Rightarrow> exn + hash256" where
  "ComputeBlockHeaderId C header =
     Sha256_Finalize C (str ''CYBOU/BLOCK'' @ hash_bytes (hdr_parent_block_id header) @ le_bytes 8 (hdr_height header)
       @ hash_bytes (hdr_operations_root header) @ hash_bytes (hdr_resulting_state_root header))"

definition ExtractBlockHeader :: "crypto \<Rightarrow> CybouBlock \<Rightarrow> exn + CybouBlockHeader" where
  "ExtractBlockHeader C block = bindE (ComputeOperationsRoot C (blk_operations block)) (\<lambda>root.
     Inr \<lparr> hdr_parent_block_id = blk_parent_block_id block, hdr_height = blk_height block,
           hdr_operations_root = root, hdr_resulting_state_root = blk_resulting_state_root block \<rparr>)"

definition ComputeBlockId :: "crypto \<Rightarrow> CybouBlock \<Rightarrow> exn + hash256" where
  "ComputeBlockId C block = bindE (ExtractBlockHeader C block) (ComputeBlockHeaderId C)"


section \<open>Wire formats\<close>

fun serialize_operations :: "crypto \<Rightarrow> ProtocolOperation list \<Rightarrow> exn + bytes list option" where
  "serialize_operations C [] = Inr (Some [])"
| "serialize_operations C (op # ops) = bindE (SerializeProtocolOperation C op) (\<lambda>serialized.
     case serialized of None \<Rightarrow> Inr None
       | Some bs \<Rightarrow> mapE (\<lambda>rest. bs # rest) (serialize_operations C ops))"

definition sized_bytes :: "bytes \<Rightarrow> bytes" where
  "sized_bytes bs = le_bytes 4 (of_nat (length bs) :: u32) @ bs"

definition SerializeBlock :: "crypto \<Rightarrow> CybouBlock \<Rightarrow> exn + bytes option" where
  "SerializeBlock C block = mapE (\<lambda>serialized_operations.
       hash_bytes (blk_parent_block_id block) @ le_bytes 8 (blk_height block) @ hash_bytes (blk_resulting_state_root block)
       @ le_bytes 4 (of_nat (length (blk_operations block)) :: u32) @ concat (map sized_bytes serialized_operations))
     (serialize_operations C (blk_operations block))"

text \<open>The loop over the operation count; the state is the unread rest of the input.\<close>

fun read_operations :: "crypto \<Rightarrow> nat \<Rightarrow> bytes \<Rightarrow> exn + (ProtocolOperation list \<times> bytes) option" where
  "read_operations C 0 bs = Inr (Some ([], bs))"
| "read_operations C (Suc n) bs =
     (if 4 > length bs then Inr None
      else let op_len = unat (le_word (take 4 bs) :: u32); r = drop 4 bs in
        if op_len > length r then Inr None
        else bindE (DeserializeProtocolOperation C (take op_len r)) (\<lambda>op. case op of None \<Rightarrow> Inr None
          | Some op \<Rightarrow> mapE (\<lambda>(ops, rest). (op # ops, rest)) (read_operations C n (drop op_len r))))"

definition DeserializeBlock :: "crypto \<Rightarrow> bytes \<Rightarrow> exn + CybouBlock option" where
  "DeserializeBlock C bs =
     (if length bs < 76 then Inr None
      else let op_count = unat (le_word (subspan 72 4 bs) :: u32); r = drop 76 bs in
        if op_count > length r div 4 then Inr None
        else bindE (read_operations C op_count r) (\<lambda>res. case res of None \<Rightarrow> Inr None
          | Some (ops, rest) \<Rightarrow>
            if rest \<noteq> [] then Inr None
            else Inr (Some \<lparr> blk_parent_block_id = be_word (take 32 bs), blk_height = le_word (subspan 32 8 bs),
              blk_operations = ops, blk_resulting_state_root = be_word (subspan 40 32 bs) \<rparr>)))"

definition SerializeFinalizedBlock :: "crypto \<Rightarrow> FinalizedBlock \<Rightarrow> exn + bytes option" where
  "SerializeFinalizedBlock C fb = bindE (SerializeBlock C (fb_block fb)) (\<lambda>serialized_block.
     case serialized_block of None \<Rightarrow> Inr None
       | Some block_bytes \<Rightarrow>
         (case SerializePoaFinalityCertificate (fb_certificate fb) of None \<Rightarrow> Inr None
          | Some cert_bytes \<Rightarrow> Inr (Some (sized_bytes block_bytes @ sized_bytes cert_bytes))))"

definition DeserializeFinalizedBlock :: "crypto \<Rightarrow> bytes \<Rightarrow> exn + FinalizedBlock option" where
  "DeserializeFinalizedBlock C bs =
     (if length bs < 8 then Inr None
      else let block_len = unat (le_word (take 4 bs) :: u32); r = drop 4 bs in
        if block_len > length r then Inr None
        else bindE (DeserializeBlock C (take block_len r)) (\<lambda>block. case block of None \<Rightarrow> Inr None
          | Some block \<Rightarrow>
            let r = drop block_len r in
            if 4 > length r then Inr None
            else let cert_len = unat (le_word (take 4 r) :: u32); r = drop 4 r in
              if cert_len \<noteq> length r then Inr None
              else Inr (map_option (\<lambda>c. \<lparr> fb_block = block, fb_certificate = c \<rparr>) (DeserializePoaFinalityCertificate r))))"

definition VerifyPoaCertificateForBlock ::
  "crypto \<Rightarrow> PoaFinalityCertificate \<Rightarrow> IdentityHybridPublicKey \<Rightarrow> hash256 \<Rightarrow> CybouBlock \<Rightarrow> exn + bool" where
  "VerifyPoaCertificateForBlock C c key nb block = bindE (SerializeBlock C block) (\<lambda>serialized.
     if serialized = None then Inr False
     else bindE (ComputeBlockId C block) (\<lambda>block_id.
       if block_id = 0 then Inr False
       else VerifyPoaFinalityCertificate C c key nb block_id (blk_height block) (blk_parent_block_id block)))"


section \<open>Round trip\<close>

lemma length_sized_bytes [simp]: "length (sized_bytes bs) = 4 + length bs"
  by (simp add: sized_bytes_def)

lemma sized_bytes_fields:
  assumes "length bs < 2 ^ 32"
  shows "unat (le_word (take 4 (sized_bytes bs @ r)) :: u32) = length bs" "drop 4 (sized_bytes bs @ r) = bs @ r"
  using assms by (simp_all add: sized_bytes_def le_word_le_bytes unsigned_of_nat take_bit_nat_eq_self)

lemma serialize_operations_length: "serialize_operations C ops = Inr (Some bss) \<Longrightarrow> length bss = length ops"
  by (induction ops arbitrary: bss) (auto simp: bindE_Inr_iff mapE_iff split: option.split_asm)

lemma read_operations_back:
  "serialize_operations C ops = Inr (Some bss) \<Longrightarrow> list_all (\<lambda>op. \<not> is_settlement op) ops \<Longrightarrow>
   list_all (\<lambda>bs. length bs < 2 ^ 32) bss \<Longrightarrow>
   read_operations C (length ops) (concat (map sized_bytes bss) @ r) = Inr (Some (ops, r))"
proof (induction ops arbitrary: bss)
  case Nil
  then show ?case by simp
next
  case (Cons op ops)
  then obtain b rest where s: "SerializeProtocolOperation C op = Inr (Some b)" "serialize_operations C ops = Inr (Some rest)"
    and bss: "bss = b # rest"
    by (auto simp: bindE_Inr_iff mapE_iff split: option.split_asm)
  have l: "length b < 2 ^ 32" and lr: "list_all (\<lambda>bs. length bs < 2 ^ 32) rest" using Cons.prems(3) bss by simp_all
  have o: "DeserializeProtocolOperation C b = Inr (Some op)" using operation_dec_enc s(1) Cons.prems(2) by simp
  have ih: "read_operations C (length ops) (concat (map sized_bytes rest) @ r) = Inr (Some (ops, r))"
    using Cons.IH [OF s(2) _ lr] Cons.prems(2) by simp
  show ?case
    unfolding bss using sized_bytes_fields [OF l, of "concat (map sized_bytes rest) @ r"] o ih
    by (simp add: mapE_def Let_def)
qed

lemma length_concat_sized: "length (concat (map sized_bytes bss)) = 4 * length bss + sum_list (map length bss)"
  by (induction bss) simp_all

lemma SerializeBlock_back:
  assumes "SerializeBlock C block = Inr (Some bs)" and "list_all (\<lambda>op. \<not> is_settlement op) (blk_operations block)"
    and "length bs < 2 ^ 32"
  shows "DeserializeBlock C bs = Inr (Some block)"
proof -
  obtain bss where s: "serialize_operations C (blk_operations block) = Inr (Some bss)"
    and b: "bs = hash_bytes (blk_parent_block_id block) @ le_bytes 8 (blk_height block) @ hash_bytes (blk_resulting_state_root block)
       @ le_bytes 4 (of_nat (length (blk_operations block)) :: u32) @ concat (map sized_bytes bss)"
    using assms(1) by (auto simp: SerializeBlock_def mapE_iff)
  note n = serialize_operations_length [OF s]
  have total: "length bs = 76 + 4 * length bss + sum_list (map length bss)" by (simp add: b length_concat_sized)
  have "length x \<le> sum_list (map length bss)" if "x \<in> set bss" for x using that by (induction bss) auto
  with total assms(3) have each: "list_all (\<lambda>x. length x < 2 ^ 32) bss" by (force simp: list_all_iff)
  have f: "take 32 bs = hash_bytes (blk_parent_block_id block)" "subspan 32 8 bs = le_bytes 8 (blk_height block)"
    "subspan 40 32 bs = hash_bytes (blk_resulting_state_root block)"
    "subspan 72 4 bs = le_bytes 4 (of_nat (length (blk_operations block)) :: u32)" "drop 76 bs = concat (map sized_bytes bss)"
    unfolding b by (simp_all add: subspan_def)
  have c: "unat (le_word (le_bytes 4 (of_nat (length (blk_operations block)) :: u32)) :: u32) = length (blk_operations block)"
    using total assms(3) n by (simp add: le_word_le_bytes unsigned_of_nat take_bit_nat_eq_self)
  have r: "read_operations C (length (blk_operations block)) (concat (map sized_bytes bss)) = Inr (Some (blk_operations block, []))"
    using read_operations_back [OF s assms(2) each, of "[]"] by simp
  show ?thesis
    unfolding DeserializeBlock_def Let_def f c using total n r
    by (simp add: length_concat_sized be_word_be_bytes le_word_le_bytes)
qed

lemma SerializeFinalizedBlock_parts:
  assumes "SerializeFinalizedBlock C fb = Inr (Some bs)"
  obtains bb cb where "SerializeBlock C (fb_block fb) = Inr (Some bb)"
    "SerializePoaFinalityCertificate (fb_certificate fb) = Some cb" "bs = sized_bytes bb @ sized_bytes cb"
  using assms by (auto simp: SerializeFinalizedBlock_def bindE_Inr_iff split: option.split_asm)

lemma SerializeFinalizedBlock_back:
  assumes "SerializeFinalizedBlock C fb = Inr (Some bs)"
    and "list_all (\<lambda>op. \<not> is_settlement op) (blk_operations (fb_block fb))" and "length bs < 2 ^ 32"
  shows "DeserializeFinalizedBlock C bs = Inr (Some fb)"
proof -
  obtain bb cb where s: "SerializeBlock C (fb_block fb) = Inr (Some bb)"
    and c: "SerializePoaFinalityCertificate (fb_certificate fb) = Some cb" and b: "bs = sized_bytes bb @ sized_bytes cb"
    by (rule SerializeFinalizedBlock_parts [OF assms(1)])
  have l: "length bb < 2 ^ 32" "length cb < 2 ^ 32" using assms(3) by (simp_all add: b)
  note f = sized_bytes_fields [OF l(1), of "sized_bytes cb"] sized_bytes_fields [OF l(2), of "[]"]
  show ?thesis
    using SerializeBlock_back [OF s assms(2) l(1)] certificate.dec_enc [OF c] f
    by (simp add: DeserializeFinalizedBlock_def Let_def b)
qed

end
