(* ===== verification/ConflictDetector.thy ===== *)
theory ConflictDetector
  imports SigningJournal Block
begin

text \<open>
  The detector of PoA equivocation (\<^verbatim>\<open>poa_conflict_detector.h/.cpp\<close>): for every height and parent it keeps the
  certificate with the least block identifier it has observed, and durable evidence of a conflict.
\<close>

section \<open>Data\<close>

datatype PoaConflictStatus = OBSERVED | ALREADY_OBSERVED | SAFETY_CONFLICT | COMPETING_NON_CANONICAL | CANONICAL_REORG_REQUIRED
  | INVALID_CERTIFICATE | ALREADY_HALTED | CORRUPT_STORAGE | STORAGE_ERROR

datatype PoaEvidenceReadStatus = NOT_HALTED | EQUIVOCATION | HALTED_CORRUPT_STORAGE | UNAVAILABLE

record PoaEquivocationEvidence =
  eq_first :: PoaFinalityCertificate
  eq_second :: PoaFinalityCertificate

record PoaConflictDetector =
  cd_network_binding :: hash256
  cd_genesis_finalizer_key :: IdentityHybridPublicKey
  cd_prefix :: string
  cd_halted :: bool

definition HALT_CORRUPT_STORAGE :: byte where "HALT_CORRUPT_STORAGE = 1"
definition HALT_EQUIVOCATION :: byte where "HALT_EQUIVOCATION = 2"

definition EQUIVOCATION_RECORD_SIZE :: nat where
  "EQUIVOCATION_RECORD_SIZE = 1 + 2 * POA_FINALITY_CERTIFICATE_SIZE"

definition detector_prefix :: "hash256 \<Rightarrow> IdentityKeyId \<Rightarrow> string" where
  "detector_prefix network_binding key_id =
     ''poa-conflict-detector/'' @ HexEncode (hash_bytes network_binding) @ ''/'' @ HexEncode (hash_bytes key_id) @ ''/''"

definition ObservationKey :: "string \<Rightarrow> PoaFinalityCertificate \<Rightarrow> string" where
  "ObservationKey prefix c =
     prefix @ ''observed/'' @ HexEncode (le_bytes 8 (pfc_height c)) @ ''/'' @ HexEncode (hash_bytes (pfc_parent_block_id c))"

text \<open>A certificate that verifies for the fields it carries itself.\<close>

definition self_verified :: "crypto \<Rightarrow> IdentityHybridPublicKey \<Rightarrow> hash256 \<Rightarrow> PoaFinalityCertificate \<Rightarrow> exn + bool" where
  "self_verified C key nb c = VerifyPoaFinalityCertificate C c key nb (pfc_block_id c) (pfc_height c) (pfc_parent_block_id c)"

definition ValidConflictRecord :: "crypto \<Rightarrow> bytes \<Rightarrow> hash256 \<Rightarrow> IdentityHybridPublicKey \<Rightarrow> exn + bool" where
  "ValidConflictRecord C record_bytes network_binding key =
     (if length record_bytes \<noteq> EQUIVOCATION_RECORD_SIZE \<or> hd record_bytes \<noteq> HALT_EQUIVOCATION then Inr False
      else case (DeserializePoaFinalityCertificate (subspan 1 POA_FINALITY_CERTIFICATE_SIZE record_bytes),
                 DeserializePoaFinalityCertificate (subspan (1 + POA_FINALITY_CERTIFICATE_SIZE) POA_FINALITY_CERTIFICATE_SIZE record_bytes)) of
          (Some first, Some second) \<Rightarrow>
            if pfc_network_binding first = network_binding \<and> pfc_network_binding second = network_binding
               \<and> pfc_height first = pfc_height second \<and> pfc_parent_block_id first = pfc_parent_block_id second
               \<and> pfc_block_id first \<noteq> pfc_block_id second
            then bindE (self_verified C key network_binding first) (\<lambda>v1.
              if \<not> v1 then Inr False else self_verified C key network_binding second)
            else Inr False
        | _ \<Rightarrow> Inr False)"


section \<open>Operations\<close>

text \<open>What the constructor finds under the halt key of an existing detector.\<close>

definition load_detector :: "crypto \<Rightarrow> KVStore \<Rightarrow> string \<Rightarrow> bytes \<Rightarrow> hash256 \<Rightarrow> IdentityHybridPublicKey \<Rightarrow> exn + bool option" where
  "load_detector C db prefix expected_metadata network_binding key =
     bindE (KV_Read db (prefix @ ''metadata'')) (\<lambda>metadata. case metadata of
         Some m \<Rightarrow>
           if m \<noteq> expected_metadata then Inl runtime_error
           else bindE (KV_Read db (prefix @ ''halt'')) (\<lambda>halt. case halt of
               Some h \<Rightarrow>
                 if length h = 1 \<and> hd h = HALT_CORRUPT_STORAGE then Inr (Some True)
                 else bindE (ValidConflictRecord C h network_binding key) (\<lambda>valid.
                   if \<not> valid then Inl runtime_error else Inr (Some False))
             | None \<Rightarrow> bindE (KV_Exists db (prefix @ ''halt'')) (\<lambda>e. if e then Inl runtime_error else Inr (Some False)))
       | None \<Rightarrow>
         bindE (KV_Exists db (prefix @ ''metadata'')) (\<lambda>em. if em then Inl runtime_error
           else bindE (KV_Exists db (prefix @ ''halt'')) (\<lambda>eh. if eh then Inl runtime_error else Inr None)))"

definition open_detector ::
  "crypto \<Rightarrow> write_outcome \<Rightarrow> hash256 \<Rightarrow> IdentityHybridPublicKey \<Rightarrow> KVStore \<Rightarrow> (exn + PoaConflictDetector) \<times> KVStore" where
  "open_detector C w network_binding key db =
     (case ComputePoaFinalizerKeyId C key of None \<Rightarrow> (Inl invalid_argument, db)
      | Some key_id \<Rightarrow>
        if network_binding = 0 then (Inl invalid_argument, db)
        else let prefix = detector_prefix network_binding key_id;
                 expected_metadata = hash_bytes network_binding @ hash_bytes key_id;
                 detector = (\<lambda>halted. \<lparr> cd_network_binding = network_binding, cd_genesis_finalizer_key = key,
                   cd_prefix = prefix, cd_halted = halted \<rparr>)
          in case load_detector C db prefix expected_metadata network_binding key of Inl e \<Rightarrow> (Inl e, db)
             | Inr (Some halted) \<Rightarrow> (Inr (detector halted), db)
             | Inr None \<Rightarrow>
               (case KV_Write w (prefix @ ''metadata'') expected_metadata db of
                  (Inl e, db') \<Rightarrow> (Inl e, db') | (Inr _, db') \<Rightarrow> (Inr (detector False), db')))"

definition Detector_PersistHalt ::
  "write_outcome \<Rightarrow> bytes \<Rightarrow> KVStore \<Rightarrow> PoaConflictDetector \<Rightarrow> bool \<times> KVStore \<times> PoaConflictDetector" where
  "Detector_PersistHalt w record_bytes db d =
     (let d = d \<lparr> cd_halted := True \<rparr>; (r, db') = KV_Write w (cd_prefix d @ ''halt'') record_bytes db
      in (case r of Inl _ \<Rightarrow> False | Inr _ \<Rightarrow> True, db', d))"

definition corrupt_storage ::
  "write_outcome \<Rightarrow> KVStore \<Rightarrow> PoaConflictDetector \<Rightarrow> (exn + PoaConflictStatus) \<times> KVStore \<times> PoaConflictDetector" where
  "corrupt_storage w db d =
     (let (persisted, db', d') = Detector_PersistHalt w [HALT_CORRUPT_STORAGE] db d
      in (Inr (if persisted then CORRUPT_STORAGE else STORAGE_ERROR), db', d'))"

text \<open>The stored observation is usable when it verifies and belongs to the same network, height and parent.\<close>

definition previous_usable ::
  "crypto \<Rightarrow> PoaConflictDetector \<Rightarrow> PoaFinalityCertificate \<Rightarrow> PoaFinalityCertificate option \<Rightarrow> exn + bool" where
  "previous_usable C d certificate previous = (case previous of None \<Rightarrow> Inr False
     | Some p \<Rightarrow>
       if pfc_network_binding p \<noteq> cd_network_binding d \<or> pfc_height p \<noteq> pfc_height certificate
          \<or> pfc_parent_block_id p \<noteq> pfc_parent_block_id certificate then Inr False
       else self_verified C (cd_genesis_finalizer_key d) (cd_network_binding d) p)"

text \<open>The conflicting case: the evidence is written first (outcome \<open>w\<close>), the smaller certificate replaces the observation second (outcome \<open>w'\<close>).\<close>

definition record_conflict ::
  "write_outcome \<Rightarrow> write_outcome \<Rightarrow> string \<Rightarrow> bytes \<Rightarrow> bytes \<Rightarrow> PoaFinalityCertificate \<Rightarrow> PoaFinalityCertificate
   \<Rightarrow> KVStore \<Rightarrow> PoaConflictDetector \<Rightarrow> (exn + PoaConflictStatus) \<times> KVStore \<times> PoaConflictDetector" where
  "record_conflict w w' observation_key previous_bytes encoded previous certificate db d =
     (case KV_Write w (cd_prefix d @ ''halt'') (HALT_EQUIVOCATION # previous_bytes @ encoded) db of
        (Inl _, db1) \<Rightarrow> (Inr STORAGE_ERROR, db1, d \<lparr> cd_halted := True \<rparr>)
      | (Inr _, db1) \<Rightarrow>
        if pfc_block_id certificate < pfc_block_id previous then
          (case KV_Write w' observation_key encoded db1 of
             (Inl _, db2) \<Rightarrow> (Inr STORAGE_ERROR, db2, d \<lparr> cd_halted := True \<rparr>)
           | (Inr _, db2) \<Rightarrow> (Inr CANONICAL_REORG_REQUIRED, db2, d))
        else (Inr COMPETING_NON_CANONICAL, db1, d))"

definition Observe ::
  "crypto \<Rightarrow> write_outcome \<Rightarrow> write_outcome \<Rightarrow> PoaFinalityCertificate \<Rightarrow> CybouBlock \<Rightarrow> KVStore \<Rightarrow> PoaConflictDetector
   \<Rightarrow> (exn + PoaConflictStatus) \<times> KVStore \<times> PoaConflictDetector" where
  "Observe C w w' certificate block db d =
     (case SerializePoaFinalityCertificate certificate of None \<Rightarrow> (Inr INVALID_CERTIFICATE, db, d)
      | Some encoded \<Rightarrow>
        (case VerifyPoaCertificateForBlock C certificate (cd_genesis_finalizer_key d) (cd_network_binding d) block of
           Inl e \<Rightarrow> (Inl e, db, d)
         | Inr False \<Rightarrow> (Inr INVALID_CERTIFICATE, db, d)
         | Inr True \<Rightarrow>
           if cd_halted d then (Inr ALREADY_HALTED, db, d)
           else let observation_key = ObservationKey (cd_prefix d) certificate in
             (case KV_Read db observation_key of Inl e \<Rightarrow> (Inl e, db, d)
              | Inr None \<Rightarrow>
                (case KV_Exists db observation_key of Inl e \<Rightarrow> (Inl e, db, d)
                 | Inr True \<Rightarrow> corrupt_storage w db d
                 | Inr False \<Rightarrow>
                   (case KV_Write w observation_key encoded db of
                      (Inr _, db') \<Rightarrow> (Inr OBSERVED, db', d)
                    | (Inl _, db') \<Rightarrow> (Inr STORAGE_ERROR, db', d \<lparr> cd_halted := True \<rparr>)))
              | Inr (Some previous_bytes) \<Rightarrow>
                let previous = DeserializePoaFinalityCertificate previous_bytes in
                (case previous_usable C d certificate previous of Inl e \<Rightarrow> (Inl e, db, d)
                 | Inr False \<Rightarrow> corrupt_storage w db d
                 | Inr True \<Rightarrow>
                   if pfc_block_id (the previous) = pfc_block_id certificate then (Inr ALREADY_OBSERVED, db, d)
                   else record_conflict w w' observation_key previous_bytes encoded (the previous) certificate db d))))"

definition ReadSafetyEvidence ::
  "crypto \<Rightarrow> KVStore \<Rightarrow> PoaConflictDetector
   \<Rightarrow> (exn + PoaEvidenceReadStatus \<times> PoaEquivocationEvidence option) \<times> PoaConflictDetector" where
  "ReadSafetyEvidence C db d =
     (case KV_Read db (cd_prefix d @ ''halt'') of Inl _ \<Rightarrow> (Inr (UNAVAILABLE, None), d)
      | Inr None \<Rightarrow>
        (if cd_halted d then (Inr (UNAVAILABLE, None), d)
         else case KV_Exists db (cd_prefix d @ ''halt'') of Inl _ \<Rightarrow> (Inr (UNAVAILABLE, None), d)
           | Inr e \<Rightarrow> (Inr (if e then UNAVAILABLE else NOT_HALTED, None), d))
      | Inr (Some rec) \<Rightarrow>
        if length rec = 1 \<and> hd rec = HALT_CORRUPT_STORAGE then (Inr (HALTED_CORRUPT_STORAGE, None), d \<lparr> cd_halted := True \<rparr>)
        else (case ValidConflictRecord C rec (cd_network_binding d) (cd_genesis_finalizer_key d) of Inl e \<Rightarrow> (Inl e, d)
          | Inr False \<Rightarrow> (Inr (UNAVAILABLE, None), d \<lparr> cd_halted := True \<rparr>)
          | Inr True \<Rightarrow>
            (case (DeserializePoaFinalityCertificate (subspan 1 POA_FINALITY_CERTIFICATE_SIZE rec),
                   DeserializePoaFinalityCertificate (subspan (1 + POA_FINALITY_CERTIFICATE_SIZE) POA_FINALITY_CERTIFICATE_SIZE rec)) of
               (Some first, Some second) \<Rightarrow> (Inr (EQUIVOCATION, Some \<lparr> eq_first = first, eq_second = second \<rparr>), d)
             | _ \<Rightarrow> (Inr (UNAVAILABLE, None), d \<lparr> cd_halted := True \<rparr>))))"


section \<open>Keys and writes\<close>

lemma HexEncode_inj: "HexEncode a = HexEncode b \<longleftrightarrow> a = b"
  using hex_pairs_HexEncode by (metis option.inject)

definition same_slot :: "PoaFinalityCertificate \<Rightarrow> PoaFinalityCertificate \<Rightarrow> bool" where
  "same_slot c d \<longleftrightarrow> pfc_height c = pfc_height d \<and> pfc_parent_block_id c = pfc_parent_block_id d"

lemma ObservationKey_eq_iff: "ObservationKey p c = ObservationKey p d \<longleftrightarrow> same_slot c d"
proof
  assume "ObservationKey p c = ObservationKey p d"
  then have "HexEncode (le_bytes 8 (pfc_height c)) @ ''/'' @ HexEncode (hash_bytes (pfc_parent_block_id c))
      = HexEncode (le_bytes 8 (pfc_height d)) @ ''/'' @ HexEncode (hash_bytes (pfc_parent_block_id d))"
    by (simp add: ObservationKey_def)
  then have "HexEncode (le_bytes 8 (pfc_height c)) = HexEncode (le_bytes 8 (pfc_height d))"
    "HexEncode (hash_bytes (pfc_parent_block_id c)) = HexEncode (hash_bytes (pfc_parent_block_id d))"
    by (simp_all add: append_eq_append_conv length_HexEncode)
  then have "le_bytes 8 (pfc_height c) = le_bytes 8 (pfc_height d)" "hash_bytes (pfc_parent_block_id c) = hash_bytes (pfc_parent_block_id d)"
    by (simp_all add: HexEncode_inj)
  from le_bytes_inj [OF this(1)] be_bytes_inj [OF this(2)] show "same_slot c d" by (simp add: same_slot_def)
qed (simp add: ObservationKey_def same_slot_def)

definition short :: "string \<Rightarrow> bool" where
  "short p \<longleftrightarrow> length p \<le> 200"

lemma detector_keys:
  assumes "short p"
  shows "key_ok (ObservationKey p c)" "key_ok (p @ ''halt'')" "ObservationKey p c \<noteq> p @ ''halt''" "p @ ''halt'' \<noteq> ObservationKey p c"
  using assms by (simp_all add: key_ok_def ObservationKey_def length_HexEncode short_def MAX_LOCAL_RECORD_def)

lemma detector_metadata:
  assumes "short p"
  shows "key_ok (p @ ''metadata'')" "ObservationKey p c \<noteq> p @ ''metadata''" "p @ ''metadata'' \<noteq> ObservationKey p c"
  using assms by (simp_all add: key_ok_def ObservationKey_def short_def MAX_LOCAL_RECORD_def)

lemma length_certificate: "SerializePoaFinalityCertificate c = Some bs \<Longrightarrow> length bs \<le> MAX_LOCAL_RECORD"
  using certificate.enc_size [of c bs] by (simp add: POA_FINALITY_CERTIFICATE_SIZE_def MAX_LOCAL_RECORD_def)


section \<open>The least certificate is kept\<close>

text \<open>
  The evidence record is either that of a proven equivocation or the mark of corrupt storage. A certificate is accounted for
  when the slot of its height and parent holds a verified certificate with an identifier at most its own, and smaller only if
  there is evidence.
\<close>

definition evidence :: "crypto \<Rightarrow> IdentityHybridPublicKey \<Rightarrow> hash256 \<Rightarrow> string \<Rightarrow> KVStore \<Rightarrow> bool" where
  "evidence C key nb p db \<longleftrightarrow> (\<exists>rec. stored db (p @ ''halt'') = Some rec
     \<and> (rec = [HALT_CORRUPT_STORAGE] \<or> ValidConflictRecord C rec nb key = Inr True))"

definition observation :: "string \<Rightarrow> KVStore \<Rightarrow> PoaFinalityCertificate \<Rightarrow> PoaFinalityCertificate option" where
  "observation p db c = Option.bind (stored db (ObservationKey p c)) DeserializePoaFinalityCertificate"

definition accounted :: "crypto \<Rightarrow> IdentityHybridPublicKey \<Rightarrow> hash256 \<Rightarrow> string \<Rightarrow> KVStore \<Rightarrow> PoaFinalityCertificate \<Rightarrow> bool" where
  "accounted C key nb p db c \<longleftrightarrow> (\<exists>q. observation p db c = Some q \<and> same_slot q c \<and> self_verified C key nb q = Inr True
     \<and> pfc_block_id q \<le> pfc_block_id c \<and> (pfc_block_id q \<noteq> pfc_block_id c \<longrightarrow> evidence C key nb p db))"

lemma halt_write:
  assumes "short p" and "length rec \<le> MAX_LOCAL_RECORD" and "rec = [HALT_CORRUPT_STORAGE] \<or> ValidConflictRecord C rec nb key = Inr True"
  shows "observation p (snd (KV_Write w (p @ ''halt'') rec db)) c = observation p db c"
    and "evidence C key nb p db \<or> w = WriteOk \<Longrightarrow> evidence C key nb p (snd (KV_Write w (p @ ''halt'') rec db))"
  using assms detector_keys [OF assms(1)] by (auto simp: observation_def evidence_def stored_KV_Write)

lemma accounted_halt_write:
  assumes "short p" and "length rec \<le> MAX_LOCAL_RECORD" and "rec = [HALT_CORRUPT_STORAGE] \<or> ValidConflictRecord C rec nb key = Inr True"
    and "accounted C key nb p db c"
  shows "accounted C key nb p (snd (KV_Write w (p @ ''halt'') rec db)) c"
  using assms(4) halt_write [OF assms(1-3)] unfolding accounted_def by auto

lemma observation_write:
  assumes "short p" and "SerializePoaFinalityCertificate c = Some bs"
  shows "observation p (snd (KV_Write w (ObservationKey p c) bs db)) d
      = (if same_slot c d \<and> w \<noteq> WriteLost then Some c else observation p db d)"
    and "evidence C key nb p (snd (KV_Write w (ObservationKey p c) bs db)) = evidence C key nb p db"
  using detector_keys [OF assms(1)] length_certificate [OF assms(2)] certificate.dec_enc [OF assms(2)]
  by (auto simp: observation_def evidence_def stored_KV_Write ObservationKey_eq_iff)

lemma accounted_observation_write:
  assumes "short p" and "SerializePoaFinalityCertificate c = Some bs" and "self_verified C key nb c = Inr True"
    and "accounted C key nb p db d"
    and "same_slot c d \<Longrightarrow> evidence C key nb p db \<and> pfc_block_id c \<le> pfc_block_id d"
  shows "accounted C key nb p (snd (KV_Write w (ObservationKey p c) bs db)) d"
  using assms(3-5) observation_write [OF assms(1,2)] unfolding accounted_def by (auto simp: same_slot_def)

lemma conflict_record_valid:
  assumes "SerializePoaFinalityCertificate c = Some cb" and "DeserializePoaFinalityCertificate pb = Some q"
    and "self_verified C key nb c = Inr True" and "self_verified C key nb q = Inr True"
    and "same_slot q c" and "pfc_block_id q \<noteq> pfc_block_id c"
  shows "ValidConflictRecord C (HALT_EQUIVOCATION # pb @ cb) nb key = Inr True"
    and "length (HALT_EQUIVOCATION # pb @ cb) \<le> MAX_LOCAL_RECORD"
proof -
  have l: "length pb = POA_FINALITY_CERTIFICATE_SIZE" "length cb = POA_FINALITY_CERTIFICATE_SIZE"
    using certificate.dec_size [OF assms(2)] certificate.enc_size [OF assms(1)] by simp_all
  have f: "subspan 1 POA_FINALITY_CERTIFICATE_SIZE (HALT_EQUIVOCATION # pb @ cb) = pb"
    "subspan (1 + POA_FINALITY_CERTIFICATE_SIZE) POA_FINALITY_CERTIFICATE_SIZE (HALT_EQUIVOCATION # pb @ cb) = cb"
    using l by (simp_all add: subspan_def)
  have n: "pfc_network_binding c = nb" "pfc_network_binding q = nb"
    using assms(3,4) verified_certificate by (auto simp: self_verified_def)
  show "ValidConflictRecord C (HALT_EQUIVOCATION # pb @ cb) nb key = Inr True"
    unfolding ValidConflictRecord_def f using l n assms certificate.dec_enc [OF assms(1)]
    by (simp add: EQUIVOCATION_RECORD_SIZE_def same_slot_def)
  show "length (HALT_EQUIVOCATION # pb @ cb) \<le> MAX_LOCAL_RECORD"
    using l by (simp add: POA_FINALITY_CERTIFICATE_SIZE_def MAX_LOCAL_RECORD_def)
qed


definition accepted :: "PoaConflictStatus \<Rightarrow> bool" where
  "accepted s \<longleftrightarrow> s \<in> {OBSERVED, ALREADY_OBSERVED, COMPETING_NON_CANONICAL, CANONICAL_REORG_REQUIRED}"

text \<open>One call of \<^verbatim>\<open>Observe\<close>: every certificate that was accounted for still is, and so is an accepted one.\<close>

definition observes_safely ::
  "crypto \<Rightarrow> PoaConflictDetector \<Rightarrow> KVStore \<Rightarrow> PoaFinalityCertificate
   \<Rightarrow> (exn + PoaConflictStatus) \<times> KVStore \<times> PoaConflictDetector \<Rightarrow> bool" where
  "observes_safely C d db c out \<longleftrightarrow> (case out of (r, db', d') \<Rightarrow>
     d' \<lparr> cd_halted := cd_halted d \<rparr> = d
     \<and> (\<forall>k. accounted C (cd_genesis_finalizer_key d) (cd_network_binding d) (cd_prefix d) db k
          \<longrightarrow> accounted C (cd_genesis_finalizer_key d) (cd_network_binding d) (cd_prefix d) db' k)
     \<and> (\<forall>s. r = Inr s \<and> accepted s \<longrightarrow> accounted C (cd_genesis_finalizer_key d) (cd_network_binding d) (cd_prefix d) db' c))"

lemma observes_safely_same: "(\<forall>s. r = Inr s \<longrightarrow> \<not> accepted s) \<Longrightarrow> observes_safely C d db c (r, db, d)"
  by (auto simp: observes_safely_def)

lemma corrupt_storage_safe:
  assumes "short (cd_prefix d)"
  shows "observes_safely C d db c (corrupt_storage w db d)"
proof -
  obtain r db' where w: "KV_Write w (cd_prefix d @ ''halt'') [HALT_CORRUPT_STORAGE] db = (r, db')" by (metis prod.exhaust)
  have "accounted C (cd_genesis_finalizer_key d) (cd_network_binding d) (cd_prefix d) db' k"
    if "accounted C (cd_genesis_finalizer_key d) (cd_network_binding d) (cd_prefix d) db k" for k
    using accounted_halt_write [OF assms _ _ that, of "[HALT_CORRUPT_STORAGE]" w] w by (simp add: MAX_LOCAL_RECORD_def)
  then show ?thesis
    using w by (auto simp: corrupt_storage_def Detector_PersistHalt_def observes_safely_def accepted_def split: sum.split)
qed

lemma first_observation_safe:
  assumes "short (cd_prefix d)" and "SerializePoaFinalityCertificate c = Some bs"
    and "self_verified C (cd_genesis_finalizer_key d) (cd_network_binding d) c = Inr True"
    and "stored db (ObservationKey (cd_prefix d) c) = None"
  shows "observes_safely C d db c (case KV_Write w (ObservationKey (cd_prefix d) c) bs db of
      (Inr _, db') \<Rightarrow> (Inr OBSERVED, db', d) | (Inl _, db') \<Rightarrow> (Inr STORAGE_ERROR, db', d \<lparr> cd_halted := True \<rparr>))"
proof -
  let ?acc = "accounted C (cd_genesis_finalizer_key d) (cd_network_binding d) (cd_prefix d)"
  obtain r db' where w: "KV_Write w (ObservationKey (cd_prefix d) c) bs db = (r, db')" by (metis prod.exhaust)
  have empty: "\<not> same_slot c k" if "?acc db k" for k
    using that assms(4) ObservationKey_eq_iff [of "cd_prefix d" c k] by (auto simp: accounted_def observation_def)
  have keep: "?acc db' k" if "?acc db k" for k
    using accounted_observation_write [OF assms(1-3) that, where w = w] empty [OF that] w by simp
  have "?acc db' c" if "w = WriteOk"
    using that observation_write(1) [OF assms(1,2), of w db c] assms(3) w by (simp add: accounted_def same_slot_def)
  moreover have "r = Inr u \<Longrightarrow> w = WriteOk" for u
    using fst_KV_Write [of w "ObservationKey (cd_prefix d) c" bs db u] w by simp
  ultimately show ?thesis using w keep by (auto simp: observes_safely_def accepted_def split: sum.split)
qed

lemma record_conflict_safe:
  assumes "short (cd_prefix d)" and "SerializePoaFinalityCertificate c = Some cb"
    and "self_verified C (cd_genesis_finalizer_key d) (cd_network_binding d) c = Inr True"
    and "stored db (ObservationKey (cd_prefix d) c) = Some pb" and "DeserializePoaFinalityCertificate pb = Some q"
    and "self_verified C (cd_genesis_finalizer_key d) (cd_network_binding d) q = Inr True"
    and "same_slot q c" and "pfc_block_id q \<noteq> pfc_block_id c"
  shows "observes_safely C d db c (record_conflict w w' (ObservationKey (cd_prefix d) c) pb cb q c db d)"
proof -
  let ?p = "cd_prefix d"
  let ?acc = "accounted C (cd_genesis_finalizer_key d) (cd_network_binding d) ?p"
  let ?ev = "evidence C (cd_genesis_finalizer_key d) (cd_network_binding d) ?p"
  let ?rec = "HALT_EQUIVOCATION # pb @ cb"
  note valid = conflict_record_valid [OF assms(2,5,3,6-8)]
  obtain r db1 where w1: "KV_Write w (?p @ ''halt'') ?rec db = (r, db1)" by (metis prod.exhaust)
  obtain r' db2 where w2: "KV_Write w' (ObservationKey ?p c) cb db1 = (r', db2)" by (metis prod.exhaust)
  have keep1: "?acc db1 k" if "?acc db k" for k
    using accounted_halt_write [OF assms(1) valid(2) disjI2 [OF valid(1)] that, where w = w] w1 by simp
  have obs: "observation ?p db k = Some q" if "same_slot c k" for k
    using assms(4,5) that ObservationKey_eq_iff [of ?p c k] by (simp add: observation_def)
  have obs1: "observation ?p db1 k = observation ?p db k" for k
    using halt_write(1) [OF assms(1) valid(2) disjI2 [OF valid(1)]] w1 by (metis snd_conv)
  have ok: "w = WriteOk" if "r = Inr u" for u using that fst_KV_Write [of w "?p @ ''halt''" ?rec db u] w1 by simp
  have ev1: "?ev db1" if "r = Inr u" for u
    using halt_write(2) [OF assms(1) valid(2) disjI2 [OF valid(1)]] ok [OF that] w1 by (metis snd_conv)
  have c1: "?acc db1 c" if "r = Inr u" "\<not> pfc_block_id c < pfc_block_id q" for u
    using obs [of c] obs1 [of c] ev1 [OF that(1)] that(2) assms(6,7) by (auto simp: accounted_def same_slot_def)
  have keep2: "?acc db2 k" if "r = Inr u" "pfc_block_id c < pfc_block_id q" "?acc db k" for k u
  proof -
    have "pfc_block_id c \<le> pfc_block_id k" if "same_slot c k"
      using \<open>?acc db k\<close> obs [OF that] \<open>pfc_block_id c < pfc_block_id q\<close> by (auto simp: accounted_def)
    then show ?thesis
      using accounted_observation_write [OF assms(1-3) keep1 [OF that(3)], where w = w'] ev1 [OF that(1)] w2 by simp
  qed
  have c2: "?acc db2 c" if "r' = Inr u" for u
    using that fst_KV_Write [of w' "ObservationKey ?p c" cb db1 u] observation_write(1) [OF assms(1,2), of w' db1 c] assms(3) w2
    by (simp add: accounted_def same_slot_def)
  show ?thesis
    using w1 w2 keep1 keep2 c1 c2 by (auto simp: record_conflict_def observes_safely_def accepted_def split: sum.split)
qed

lemma Observe_safe:
  assumes "short (cd_prefix d)"
  shows "observes_safely C d db c (Observe C w w' c block db d)"
proof (cases "SerializePoaFinalityCertificate c")
  case None
  then show ?thesis by (simp add: Observe_def observes_safely_same accepted_def)
next
  case (Some bs)
  let ?v = "VerifyPoaCertificateForBlock C c (cd_genesis_finalizer_key d) (cd_network_binding d) block"
  let ?k = "ObservationKey (cd_prefix d) c"
  show ?thesis
  proof (cases "?v = Inr True \<and> \<not> cd_halted d")
    case False
    then show ?thesis using Some
      by (auto simp: Observe_def observes_safely_same accepted_def split: sum.split bool.split)
  next
    case True
    then obtain b where "VerifyPoaFinalityCertificate C c (cd_genesis_finalizer_key d) (cd_network_binding d) b
        (blk_height block) (blk_parent_block_id block) = Inr True"
      by (auto simp: VerifyPoaCertificateForBlock_def bindE_Inr_iff split: if_split_asm)
    with verified_certificate [OF this] have v: "self_verified C (cd_genesis_finalizer_key d) (cd_network_binding d) c = Inr True"
      by (simp add: self_verified_def)
    show ?thesis
    proof (cases "KV_Read db ?k")
      case (Inl e)
      then show ?thesis using True Some by (simp add: Observe_def observes_safely_same accepted_def)
    next
      case (Inr r)
      show ?thesis
      proof (cases r)
        case None
        show ?thesis
          using True Some Inr None first_observation_safe [OF assms Some v KV_Exists_False] corrupt_storage_safe [OF assms]
          by (cases "KV_Exists db ?k") (auto simp: Observe_def Let_def observes_safely_same accepted_def split: bool.split)
      next
        case pb: (Some pb)
        have st: "stored db ?k = Some pb" using KV_Read_Some Inr pb by simp
        let ?u = "previous_usable C d c (DeserializePoaFinalityCertificate pb)"
        show ?thesis
        proof (cases "?u = Inr True")
          case False
          then show ?thesis using True Some Inr pb corrupt_storage_safe [OF assms]
            by (auto simp: Observe_def Let_def observes_safely_same accepted_def split: sum.split bool.split)
        next
          case u: True
          then obtain q where q: "DeserializePoaFinalityCertificate pb = Some q" "same_slot q c"
            "self_verified C (cd_genesis_finalizer_key d) (cd_network_binding d) q = Inr True"
            by (auto simp: previous_usable_def same_slot_def split: option.split_asm if_split_asm)
          show ?thesis
          proof (cases "pfc_block_id q = pfc_block_id c")
            case True
            then have "accounted C (cd_genesis_finalizer_key d) (cd_network_binding d) (cd_prefix d) db c"
              using st q by (simp add: accounted_def observation_def)
            then show ?thesis
              using \<open>?v = Inr True \<and> \<not> cd_halted d\<close> Some Inr pb u q(1) True by (simp add: Observe_def Let_def observes_safely_def)
          next
            case False
            from record_conflict_safe [OF assms Some v st q(1,3,2) False] show ?thesis
              using True Some Inr pb u q(1) False by (simp add: Observe_def Let_def)
          qed
        qed
      qed
    qed
  qed
qed


section \<open>Every history of a detector\<close>

text \<open>The node: its store, the detector while the process runs, and the certificates it has accepted so far, in this run or earlier.\<close>

record detector_node =
  dn_db :: KVStore
  dn_detector :: "PoaConflictDetector option"
  dn_accepted :: "PoaFinalityCertificate list"

inductive detector_step :: "crypto \<Rightarrow> hash256 \<Rightarrow> IdentityHybridPublicKey \<Rightarrow> IdentityKeyId \<Rightarrow> detector_node \<Rightarrow> detector_node \<Rightarrow> bool"
  for C nb key kid where
  start: "dn_detector n = None \<Longrightarrow> open_detector C w nb key (dn_db n) = (r, db') \<Longrightarrow>
    detector_step C nb key kid n (n \<lparr> dn_db := db', dn_detector := (case r of Inl _ \<Rightarrow> None | Inr d \<Rightarrow> Some d) \<rparr>)"
| crash: "detector_step C nb key kid n (n \<lparr> dn_detector := None \<rparr>)"
| observe: "dn_detector n = Some d \<Longrightarrow> Observe C w w' c block (dn_db n) d = (r, db', d') \<Longrightarrow>
    detector_step C nb key kid n (n \<lparr> dn_db := db', dn_detector := Some d',
      dn_accepted := (case r of Inr s \<Rightarrow> if accepted s then c # dn_accepted n else dn_accepted n | Inl _ \<Rightarrow> dn_accepted n) \<rparr>)"
| read_evidence: "dn_detector n = Some d \<Longrightarrow>
    detector_step C nb key kid n (n \<lparr> dn_detector := Some (snd (ReadSafetyEvidence C (dn_db n) d)) \<rparr>)"
| elsewhere: "(\<And>k. kv_data db' (EncodeString (detector_prefix nb kid @ k)) = kv_data (dn_db n) (EncodeString (detector_prefix nb kid @ k))) \<Longrightarrow>
    detector_step C nb key kid n (n \<lparr> dn_db := db' \<rparr>)"

definition detector_node_ok :: "crypto \<Rightarrow> hash256 \<Rightarrow> IdentityHybridPublicKey \<Rightarrow> IdentityKeyId \<Rightarrow> detector_node \<Rightarrow> bool" where
  "detector_node_ok C nb key kid n \<longleftrightarrow>
     (\<forall>d. dn_detector n = Some d \<longrightarrow> cd_network_binding d = nb \<and> cd_genesis_finalizer_key d = key \<and> cd_prefix d = detector_prefix nb kid)
     \<and> (\<forall>c\<in>set (dn_accepted n). accounted C key nb (detector_prefix nb kid) (dn_db n) c)"

lemma detector_prefix_short: "short (detector_prefix nb kid)"
  by (simp add: short_def detector_prefix_def length_HexEncode)

lemma accounted_stored_eq:
  assumes "accounted C key nb p db c" and "stored db' (p @ ''halt'') = stored db (p @ ''halt'')"
    and "\<And>c. stored db' (ObservationKey p c) = stored db (ObservationKey p c)"
  shows "accounted C key nb p db' c"
  using assms by (simp add: accounted_def observation_def evidence_def)

lemma metadata_write_keeps:
  assumes "short p" and "length v \<le> MAX_LOCAL_RECORD" and "accounted C key nb p db c"
  shows "accounted C key nb p (snd (KV_Write w (p @ ''metadata'') v db)) c"
  using detector_keys [OF assms(1)] detector_metadata [OF assms(1)] assms(2)
  by (intro accounted_stored_eq [OF assms(3)]) (simp_all add: stored_KV_Write)

lemma open_detector_keeps:
  assumes "open_detector C w nb key db = (r, db')" and "ComputePoaFinalizerKeyId C key = Some kid"
  shows "(accounted C key nb (detector_prefix nb kid) db c \<longrightarrow> accounted C key nb (detector_prefix nb kid) db' c)
    \<and> (\<forall>d. r = Inr d \<longrightarrow> cd_network_binding d = nb \<and> cd_genesis_finalizer_key d = key \<and> cd_prefix d = detector_prefix nb kid)"
proof (cases "db' = db")
  case True
  then show ?thesis using assms by (auto simp: open_detector_def Let_def split: if_split_asm sum.split_asm option.split_asm prod.split_asm)
next
  case False
  have "db' = snd (KV_Write w (detector_prefix nb kid @ ''metadata'') (hash_bytes nb @ hash_bytes kid) db)"
    using False assms by (auto simp: open_detector_def Let_def split: if_split_asm sum.split_asm option.split_asm prod.split_asm)
  moreover have "accounted C key nb (detector_prefix nb kid) db c \<Longrightarrow>
      accounted C key nb (detector_prefix nb kid) (snd (KV_Write w (detector_prefix nb kid @ ''metadata'') (hash_bytes nb @ hash_bytes kid) db)) c"
    by (rule metadata_write_keeps [OF detector_prefix_short]) (simp_all add: MAX_LOCAL_RECORD_def)
  ultimately show ?thesis
    using assms by (auto simp: open_detector_def Let_def split: if_split_asm sum.split_asm option.split_asm prod.split_asm)
qed

lemma ReadSafetyEvidence_fields:
  "d' = snd (ReadSafetyEvidence C db d) \<Longrightarrow> cd_network_binding d' = cd_network_binding d
     \<and> cd_genesis_finalizer_key d' = cd_genesis_finalizer_key d \<and> cd_prefix d' = cd_prefix d"
  by (simp add: ReadSafetyEvidence_def split: sum.split option.split bool.split)

lemma detector_step_ok:
  assumes "detector_step C nb key kid n n'" and "detector_node_ok C nb key kid n" and kid: "ComputePoaFinalizerKeyId C key = Some kid"
  shows "detector_node_ok C nb key kid n'"
  using assms(1)
proof cases
  case (start w r db')
  then show ?thesis using assms(2) open_detector_keeps [OF start(3) kid]
    by (auto simp: detector_node_ok_def split: sum.split)
next
  case crash
  then show ?thesis using assms(2) by (simp add: detector_node_ok_def)
next
  case (observe d w w' c block r db' d')
  have d: "cd_network_binding d = nb" "cd_genesis_finalizer_key d = key" "cd_prefix d = detector_prefix nb kid"
    using assms(2) observe(2) by (simp_all add: detector_node_ok_def)
  have safe: "observes_safely C d (dn_db n) c (r, db', d')"
    using Observe_safe [of d C "dn_db n" c w w' block] detector_prefix_short d(3) observe(3) by simp
  then have "cd_network_binding d' = nb \<and> cd_genesis_finalizer_key d' = key \<and> cd_prefix d' = detector_prefix nb kid"
    using d by (cases d; cases d') (simp add: observes_safely_def)
  then show ?thesis
    using safe assms(2) unfolding observe(1) by (auto simp: detector_node_ok_def observes_safely_def d split: sum.split)
next
  case (read_evidence d)
  then show ?thesis using assms(2) ReadSafetyEvidence_fields [OF HOL.refl] by (auto simp: detector_node_ok_def)
next
  case (elsewhere db')
  have "stored db' (detector_prefix nb kid @ k) = stored (dn_db n) (detector_prefix nb kid @ k)" for k
    using elsewhere(2) [of k] by (simp add: stored_def)
  then have "accounted C key nb (detector_prefix nb kid) db' c" if "accounted C key nb (detector_prefix nb kid) (dn_db n) c" for c
    by (intro accounted_stored_eq [OF that]) (simp_all add: ObservationKey_def)
  then show ?thesis using elsewhere(1) assms(2) by (simp add: detector_node_ok_def)
qed

definition initial_detector_node :: "KVStore \<Rightarrow> detector_node" where
  "initial_detector_node db = \<lparr> dn_db = db, dn_detector = None, dn_accepted = [] \<rparr>"

lemma detector_reachable_ok:
  assumes "(detector_step C nb key kid)\<^sup>*\<^sup>* (initial_detector_node db) n" and "ComputePoaFinalizerKeyId C key = Some kid"
  shows "detector_node_ok C nb key kid n"
  using assms(1)
proof (induction rule: rtranclp_induct)
  case base
  then show ?case by (simp add: detector_node_ok_def initial_detector_node_def)
next
  case (step y z)
  then show ?case using detector_step_ok assms(2) by blast
qed

end
