(* ===== verification/StateStore.thy ===== *)
theory StateStore
  imports NetworkGenesis ConflictDetector Executor
begin

text \<open>
  The canonical state store (\<^verbatim>\<open>state_store.h/.cpp\<close>) and the part of the event index it writes
  (\<^verbatim>\<open>finalized_event_index.cpp\<close>): loading the state with its integrity check, the genesis, and the commit of a
  finalized block on the normal path and on the path that replaces the tip by a block with a smaller identifier. The functions take
  the database and the store object and return both; the outcome of every write is an argument.
\<close>

section \<open>Records and keys\<close>

text \<open>\<^verbatim>\<open>KVStore::Read\<close> and \<^verbatim>\<open>Batch::Write\<close> at a value type given by its codec.\<close>

definition KV_ReadAs :: "(bytes \<Rightarrow> 'a option) \<Rightarrow> KVStore \<Rightarrow> string \<Rightarrow> exn + 'a option" where
  "KV_ReadAs decode db key = bindE (ReadRaw db (EncodeString key)) (\<lambda>raw.
     case raw of None \<Rightarrow> Inr None | Some bs \<Rightarrow> Inr (decode bs))"

definition batch_Put :: "string \<Rightarrow> bytes \<Rightarrow> kv_batch \<Rightarrow> kv_batch" where
  "batch_Put key encoded batch = batch @ [(EncodeString key, Some encoded)]"

record FinalizedHead =
  fh_block_id :: hash256
  fh_height :: u64

definition EncodeFinalizedHead :: "FinalizedHead \<Rightarrow> bytes" where
  "EncodeFinalizedHead h = EncodeHash (fh_block_id h) @ EncodeUnsigned 8 (fh_height h)"

definition DecodeFinalizedHead :: "bytes \<Rightarrow> FinalizedHead option" where
  "DecodeFinalizedHead bs =
     (if length bs < 32 + 8 then None
      else case (DecodeHash (take 32 bs), DecodeUnsigned 8 (drop 32 bs)) of
          (Some b, Some h) \<Rightarrow> Some \<lparr> fh_block_id = b, fh_height = h \<rparr>
        | _ \<Rightarrow> None)"

interpretation head_record: local_record EncodeFinalizedHead DecodeFinalizedHead "\<lambda>_. True"
  by unfold_locales
    (simp add: EncodeFinalizedHead_def DecodeFinalizedHead_def EncodeHash_def EncodeUnsigned_def DecodeHash_def DecodeUnsigned_def
      be_word_be_bytes le_word_le_bytes)

text \<open>\<^verbatim>\<open>std::to_string\<close> of an unsigned number.\<close>

fun to_string :: "nat \<Rightarrow> string" where
  "to_string n = (if n < 10 then [hex_digits ! n] else to_string (n div 10) @ [hex_digits ! (n mod 10)])"

declare to_string.simps [simp del]

definition STATE_KEY :: string where "STATE_KEY = ''cybou/state''"
definition HASH_KEY :: string where "HASH_KEY = ''cybou/hash''"
definition HEAD_KEY :: string where "HEAD_KEY = ''cybou/head''"
definition NETWORK_ID_KEY :: string where "NETWORK_ID_KEY = ''cybou/network-id''"
definition EVENTS_HEAD_KEY :: string where "EVENTS_HEAD_KEY = ''cybou/events/head''"

definition BlockKey :: "hash256 \<Rightarrow> string" where "BlockKey block_id = ''cybou/block/'' @ GetHex block_id"
definition BlockHeightKey :: "u64 \<Rightarrow> string" where "BlockHeightKey height = ''cybou/block-height/'' @ to_string (unat height)"
definition OperationKey :: "hash256 \<Rightarrow> string" where "OperationKey op_id = ''cybou/operation/'' @ GetHex op_id"
definition StateHeightKey :: "u64 \<Rightarrow> string" where "StateHeightKey height = ''cybou/state-height/'' @ to_string (unat height)"


section \<open>The store object\<close>

datatype StateLoadError = NONE | NOT_FOUND | CORRUPT | NETWORK_MISMATCH

record StateLoadResult =
  slr_error :: StateLoadError
  slr_state :: "CybouState option"

datatype GenesisInitError = NONE | ALREADY_INITIALIZED | GENESIS_STATE_MISMATCH

datatype BlockTransitionError = NONE | INVALID_BLOCK_ID | STATE_NOT_INITIALIZED | NETWORK_MISMATCH | CORRUPT_STATE | PARENT_MISMATCH
  | BLOCK_ALREADY_APPLIED | INVALID_HEIGHT | CORRUPT_HEAD | INVALID_OPERATION | TOO_MANY_ACCOUNT_CREATES | INVALID_CERTIFICATE
  | STATE_ROOT_MISMATCH | POA_EQUIVOCATION_DETECTED | POA_SAFETY_HALTED

record BlockTransitionResult =
  btr_error :: BlockTransitionError
  btr_op_result :: BlockExecutionResult

definition transition :: "BlockTransitionError \<Rightarrow> BlockTransitionResult" where
  "transition e = \<lparr> btr_error = e, btr_op_result = empty_result \<rparr>"

record CybouStateStore =
  ss_network_genesis :: VerifiedNetworkGenesis
  ss_network_binding :: hash256
  ss_snapshot :: "CybouState option"
  ss_detector :: PoaConflictDetector

abbreviation ss_params :: "CybouStateStore \<Rightarrow> CybouProtocolParameters" where
  "ss_params s \<equiv> ng_protocol_parameters (vg_genesis (ss_network_genesis s))"

abbreviation ss_poa_key :: "CybouStateStore \<Rightarrow> IdentityHybridPublicKey" where
  "ss_poa_key s \<equiv> ng_poa_finalizer_public_key (vg_genesis (ss_network_genesis s))"

definition new_store :: "crypto \<Rightarrow> write_outcome \<Rightarrow> VerifiedNetworkGenesis \<Rightarrow> KVStore \<Rightarrow> (exn + CybouStateStore) \<times> KVStore" where
  "new_store C w g db =
     (case ComputeNetworkBinding C (ng_network_public_key (vg_genesis g)) of Inl e \<Rightarrow> (Inl e, db)
      | Inr binding \<Rightarrow>
        (case open_detector C w binding (ng_poa_finalizer_public_key (vg_genesis g)) db of (Inl e, db') \<Rightarrow> (Inl e, db')
         | (Inr d, db') \<Rightarrow> (Inr \<lparr> ss_network_genesis = g, ss_network_binding = binding, ss_snapshot = None, ss_detector = d \<rparr>, db')))"

definition PoaSafetyHalted :: "CybouStateStore \<Rightarrow> bool" where
  "PoaSafetyHalted s = cd_halted (ss_detector s)"

definition ReadPoaSafetyEvidence ::
  "crypto \<Rightarrow> KVStore \<Rightarrow> CybouStateStore \<Rightarrow> (exn + PoaEvidenceReadStatus \<times> PoaEquivocationEvidence option) \<times> CybouStateStore" where
  "ReadPoaSafetyEvidence C db s = (let (r, d) = ReadSafetyEvidence C db (ss_detector s) in (r, s \<lparr> ss_detector := d \<rparr>))"

definition GetStateRoot :: "KVStore \<Rightarrow> exn + hash256 option" where
  "GetStateRoot db = KV_ReadAs DecodeHash db HASH_KEY"

definition GetFinalizedHead :: "KVStore \<Rightarrow> exn + FinalizedHead option" where
  "GetFinalizedHead db = KV_ReadAs DecodeFinalizedHead db HEAD_KEY"

definition GetFinalizedTip :: "KVStore \<Rightarrow> exn + hash256 option" where
  "GetFinalizedTip db = bindE (GetFinalizedHead db) (\<lambda>head. Inr (map_option fh_block_id head))"

definition GetFinalizedHeight :: "KVStore \<Rightarrow> exn + u64 option" where
  "GetFinalizedHeight db = bindE (GetFinalizedHead db) (\<lambda>head. Inr (map_option fh_height head))"

definition GetStoredNetworkBinding :: "KVStore \<Rightarrow> exn + hash256 option" where
  "GetStoredNetworkBinding db = KV_ReadAs DecodeHash db NETWORK_ID_KEY"

definition load_failed :: "StateLoadError \<Rightarrow> exn + StateLoadResult" where
  "load_failed e = Inr \<lparr> slr_error = e, slr_state = None \<rparr>"

definition LoadStateLocked :: "crypto \<Rightarrow> CybouStateStore \<Rightarrow> KVStore \<Rightarrow> exn + StateLoadResult" where
  "LoadStateLocked C s db =
     bindE (KV_Exists db STATE_KEY) (\<lambda>state_exists. bindE (KV_Exists db HASH_KEY) (\<lambda>hash_exists.
     bindE (KV_Exists db HEAD_KEY) (\<lambda>head_exists. bindE (KV_Exists db NETWORK_ID_KEY) (\<lambda>network_exists.
       if \<not> state_exists \<and> \<not> hash_exists \<and> \<not> head_exists \<and> \<not> network_exists then load_failed NOT_FOUND
       else if \<not> state_exists \<or> \<not> hash_exists \<or> \<not> head_exists \<or> \<not> network_exists then load_failed CORRUPT
       else bindE (GetStoredNetworkBinding db) (\<lambda>stored_network_binding.
         case stored_network_binding of None \<Rightarrow> load_failed CORRUPT
         | Some nb \<Rightarrow>
           if nb \<noteq> ss_network_binding s then load_failed StateLoadError.NETWORK_MISMATCH
           else bindE (KV_Read db STATE_KEY) (\<lambda>bytes. case bytes of None \<Rightarrow> load_failed CORRUPT
             | Some bs \<Rightarrow> bindE (KV_ReadAs DecodeHash db HASH_KEY) (\<lambda>stored_hash. case stored_hash of None \<Rightarrow> load_failed CORRUPT
               | Some h \<Rightarrow>
                 (case DeserializeCybouState C bs of None \<Rightarrow> load_failed CORRUPT
                  | Some st \<Rightarrow>
                    if CybouStateHash C st True \<noteq> Some h then load_failed CORRUPT
                    else Inr \<lparr> slr_error = StateLoadError.NONE, slr_state = Some st \<rparr>))))))))"

definition LoadState :: "crypto \<Rightarrow> CybouStateStore \<Rightarrow> KVStore \<Rightarrow> exn + StateLoadResult" where
  "LoadState C s db = LoadStateLocked C s db"

text \<open>The shared snapshot is part of the store object, so reading it may change the object.\<close>

definition GetStateSnapshotLocked :: "crypto \<Rightarrow> KVStore \<Rightarrow> CybouStateStore \<Rightarrow> (exn + StateLoadResult) \<times> CybouStateStore" where
  "GetStateSnapshotLocked C db s =
     (case ss_snapshot s of
        Some st \<Rightarrow> (Inr \<lparr> slr_error = StateLoadError.NONE, slr_state = Some st \<rparr>, s)
      | None \<Rightarrow>
        (case LoadStateLocked C s db of Inl e \<Rightarrow> (Inl e, s)
         | Inr loaded \<Rightarrow>
           if slr_error loaded = StateLoadError.NONE \<and> slr_state loaded \<noteq> None
           then (Inr loaded, s \<lparr> ss_snapshot := slr_state loaded \<rparr>)
           else (load_failed (slr_error loaded), s)))"

definition GetStateSnapshot :: "crypto \<Rightarrow> KVStore \<Rightarrow> CybouStateStore \<Rightarrow> (exn + StateLoadResult) \<times> CybouStateStore" where
  "GetStateSnapshot C db s = GetStateSnapshotLocked C db s"


section \<open>Genesis\<close>

definition InitializeGenesis ::
  "crypto \<Rightarrow> write_outcome \<Rightarrow> CybouState \<Rightarrow> KVStore \<Rightarrow> CybouStateStore \<Rightarrow> (exn + GenesisInitError) \<times> KVStore \<times> CybouStateStore" where
  "InitializeGenesis C w genesis_state db s =
     (case bindE (KV_Exists db STATE_KEY) (\<lambda>a. if a then Inr True else bindE (KV_Exists db HASH_KEY) (\<lambda>b. if b then Inr True
        else bindE (KV_Exists db HEAD_KEY) (\<lambda>c. if c then Inr True else KV_Exists db NETWORK_ID_KEY))) of
        Inl e \<Rightarrow> (Inl e, db, s)
      | Inr True \<Rightarrow> (Inr ALREADY_INITIALIZED, db, s)
      | Inr False \<Rightarrow>
        (case (CybouStateHash C genesis_state True, SerializeCybouState C genesis_state True) of
           (Some state_hash, Some serialized_state) \<Rightarrow>
             if state_hash \<noteq> ng_genesis_state_root (vg_genesis (ss_network_genesis s)) then (Inr GENESIS_STATE_MISMATCH, db, s)
             else let initial_head = \<lparr> fh_block_id = vg_genesis_digest (ss_network_genesis s), fh_height = 0 \<rparr>;
                      batch = batch_Put EVENTS_HEAD_KEY (EncodeBytes (EncodeFinalizedHead initial_head))
                        (batch_Write (StateHeightKey 0) serialized_state
                        (batch_Put NETWORK_ID_KEY (EncodeHash (ss_network_binding s))
                        (batch_Put HEAD_KEY (EncodeFinalizedHead initial_head)
                        (batch_Put HASH_KEY (EncodeHash state_hash) (batch_Write STATE_KEY serialized_state [])))))
               in (case WriteBatch w batch db of (Inl e, db') \<Rightarrow> (Inl e, db', s)
                   | (Inr _, db') \<Rightarrow> (Inr GenesisInitError.NONE, db', s \<lparr> ss_snapshot := Some genesis_state \<rparr>))
         | _ \<Rightarrow> (Inr GENESIS_STATE_MISMATCH, db, s)))"


section \<open>Blocks\<close>

definition GetBlock :: "crypto \<Rightarrow> KVStore \<Rightarrow> hash256 \<Rightarrow> exn + FinalizedBlock option" where
  "GetBlock C db block_id = bindE (KV_Read db (BlockKey block_id)) (\<lambda>bytes.
     case bytes of None \<Rightarrow> Inr None | Some bs \<Rightarrow> DeserializeFinalizedBlock C bs)"

text \<open>The fallback loop of \<^verbatim>\<open>GetBlockAtHeight\<close>: \<open>n\<close> is \<^verbatim>\<open>cursor - height\<close>.\<close>

fun walk_back :: "crypto \<Rightarrow> KVStore \<Rightarrow> nat \<Rightarrow> u64 \<Rightarrow> hash256 \<Rightarrow> exn + hash256 option" where
  "walk_back C db 0 cursor block_id = Inr (Some block_id)"
| "walk_back C db (Suc n) cursor block_id = bindE (GetBlock C db block_id) (\<lambda>ancestor. case ancestor of None \<Rightarrow> Inr None
     | Some a \<Rightarrow>
       if blk_height (fb_block a) \<noteq> cursor then Inr None
       else bindE (ComputeBlockId C (fb_block a)) (\<lambda>i.
         if i \<noteq> block_id then Inr None else walk_back C db n (cursor - 1) (blk_parent_block_id (fb_block a))))"

definition block_id_at :: "crypto \<Rightarrow> KVStore \<Rightarrow> u64 \<Rightarrow> exn + hash256 option" where
  "block_id_at C db height = bindE (KV_ReadAs DecodeHash db (BlockHeightKey height)) (\<lambda>indexed. case indexed of
       Some i \<Rightarrow> Inr (Some i)
     | None \<Rightarrow> bindE (GetFinalizedHead db) (\<lambda>head. case head of None \<Rightarrow> Inr None
       | Some head \<Rightarrow>
         if height > fh_height head then Inr None
         else walk_back C db (unat (fh_height head) - unat height) (fh_height head) (fh_block_id head)))"

definition GetBlockAtHeight :: "crypto \<Rightarrow> KVStore \<Rightarrow> u64 \<Rightarrow> exn + FinalizedBlock option" where
  "GetBlockAtHeight C db height =
     (if height = 0 then Inr None
      else bindE (block_id_at C db height) (\<lambda>found. case found of None \<Rightarrow> Inr None
        | Some block_id \<Rightarrow> bindE (GetBlock C db block_id) (\<lambda>block. case block of None \<Rightarrow> Inr None
          | Some b \<Rightarrow>
            if blk_height (fb_block b) \<noteq> height then Inr None
            else bindE (ComputeBlockId C (fb_block b)) (\<lambda>i. Inr (if i \<noteq> block_id then None else Some b)))))"

fun contains_operation :: "crypto \<Rightarrow> hash256 \<Rightarrow> ProtocolOperation list \<Rightarrow> exn + bool" where
  "contains_operation C op_id [] = Inr False"
| "contains_operation C op_id (op # ops) = bindE (ComputeOperationId C op) (\<lambda>i.
     if i = Some op_id then Inr True else contains_operation C op_id ops)"

definition GetFinalizedOperationHeight :: "crypto \<Rightarrow> KVStore \<Rightarrow> CybouStateStore \<Rightarrow> hash256 \<Rightarrow> exn + u64 option" where
  "GetFinalizedOperationHeight C db s op_id =
     (if op_id = 0 then Inr None
      else bindE (KV_ReadAs DecodeHash db (OperationKey op_id)) (\<lambda>indexed. case indexed of None \<Rightarrow> Inr None
        | Some block_id \<Rightarrow> bindE (GetFinalizedHead db) (\<lambda>head. bindE (GetBlock C db block_id) (\<lambda>finalized.
          case (head, finalized) of
            (Some head, Some fb) \<Rightarrow>
              let block = fb_block fb; cert = fb_certificate fb in
              if blk_height block = 0 \<or> blk_height block > fh_height head then Inr None
              else bindE (ComputeBlockId C block) (\<lambda>i.
                if i \<noteq> block_id \<or> pfc_block_id cert \<noteq> block_id \<or> pfc_height cert \<noteq> blk_height block
                   \<or> pfc_network_binding cert \<noteq> ss_network_binding s then Inr None
                else bindE (contains_operation C op_id (blk_operations block)) (\<lambda>found.
                  Inr (if found then Some (blk_height block) else None)))
          | _ \<Rightarrow> Inr None))))"

definition HasIndexedFinalizedOperation :: "crypto \<Rightarrow> KVStore \<Rightarrow> CybouStateStore \<Rightarrow> hash256 \<Rightarrow> exn + bool" where
  "HasIndexedFinalizedOperation C db s op_id = bindE (GetFinalizedOperationHeight C db s op_id) (\<lambda>h. Inr (h \<noteq> None))"


section \<open>The event index\<close>

record FinalizedEventLocation =
  fel_height :: u64
  fel_operation_index :: u32
  fel_block_id :: hash256

text \<open>Sixteen hexadecimal digits, the most significant first.\<close>

definition OrderedNumber :: "u64 \<Rightarrow> string" where
  "OrderedNumber number = map (\<lambda>i. hex_digits ! unat (drop_bit (4 * i) number AND 15)) (rev [0..<16])"

definition EventKey :: "hash256 \<Rightarrow> string" where "EventKey op_id = ''cybou/events/op/'' @ GetHex op_id"

definition PublicationKey :: "u64 \<Rightarrow> string" where "PublicationKey height = ''cybou/events/publication/'' @ OrderedNumber height"

definition KemKey :: "AccountId \<Rightarrow> u64 \<Rightarrow> string" where
  "KemKey account epoch = ''cybou/events/kem/'' @ GetHex account @ ''/'' @ OrderedNumber epoch"

definition EncodeLocation :: "FinalizedEventLocation \<Rightarrow> string" where
  "EncodeLocation l = string_of_bytes (EncodeUnsigned 8 (fel_height l) @ EncodeUnsigned 4 (fel_operation_index l) @ hash_bytes (fel_block_id l))"

definition DecodeLocation :: "string \<Rightarrow> FinalizedEventLocation option" where
  "DecodeLocation v =
     (if length v \<noteq> 44 then None
      else let bs = str v in
        case (DecodeUnsigned 8 (take 8 bs), DecodeUnsigned 4 (subspan 8 4 bs), DecodeHash (drop 12 bs)) of
          (Some h, Some i, Some b) \<Rightarrow> Some \<lparr> fel_height = h, fel_operation_index = i, fel_block_id = b \<rparr>
        | _ \<Rightarrow> None)"

definition batch_event :: "bool \<Rightarrow> string \<Rightarrow> string \<Rightarrow> kv_batch \<Rightarrow> kv_batch" where
  "batch_event erase key value batch = (if erase then batch_Erase key batch else batch_Put key (EncodeString value) batch)"

definition kem_key_of :: "ProtocolOperation \<Rightarrow> string option" where
  "kem_key_of operation = (case operation of
       OpAccountCreate create \<Rightarrow> Some (KemKey (aco_account_id create) 0)
     | OpIdentityRotate rot \<Rightarrow> Some (KemKey (rot_account_id rot) (rot_key_epoch rot))
     | _ \<Rightarrow> None)"

definition is_publication :: "ProtocolOperation \<Rightarrow> bool" where
  "is_publication operation = (case operation of OpRootPublication _ \<Rightarrow> True | _ \<Rightarrow> False)"

fun write_operation_events ::
  "crypto \<Rightarrow> bool \<Rightarrow> u64 \<Rightarrow> hash256 \<Rightarrow> nat \<Rightarrow> ProtocolOperation list \<Rightarrow> kv_batch \<Rightarrow> exn + kv_batch" where
  "write_operation_events C erase height block_id i [] batch = Inr batch"
| "write_operation_events C erase height block_id i (operation # ops) batch =
     bindE (ComputeOperationId C operation) (\<lambda>r. case r of None \<Rightarrow> Inl runtime_error
       | Some op_id \<Rightarrow>
         let value = EncodeLocation \<lparr> fel_height = height, fel_operation_index = of_nat i, fel_block_id = block_id \<rparr>;
             batch = batch_event erase (EventKey op_id) value batch;
             batch = (case kem_key_of operation of None \<Rightarrow> batch | Some k \<Rightarrow> batch_event erase k value batch)
         in write_operation_events C erase height block_id (i + 1) ops batch)"

definition WriteEvents :: "crypto \<Rightarrow> FinalizedBlock \<Rightarrow> bool \<Rightarrow> kv_batch \<Rightarrow> exn + kv_batch" where
  "WriteEvents C finalized erase batch =
     (let block = fb_block finalized in
      bindE (ComputeBlockId C block) (\<lambda>block_id.
      bindE (write_operation_events C erase (blk_height block) block_id 0 (blk_operations block) batch) (\<lambda>batch.
        let key = PublicationKey (blk_height block) in
        Inr (batch_event (erase \<or> \<not> list_ex is_publication (blk_operations block)) key
          (EncodeLocation \<lparr> fel_height = blk_height block, fel_operation_index = 0, fel_block_id = block_id \<rparr>) batch))))"

definition AppendFinalizedEvents ::
  "crypto \<Rightarrow> KVStore \<Rightarrow> FinalizedBlock \<Rightarrow> FinalizedHead \<Rightarrow> FinalizedBlock option \<Rightarrow> kv_batch \<Rightarrow> exn + kv_batch" where
  "AppendFinalizedEvents C db block previous replaced batch =
     bindE (case replaced of None \<Rightarrow> Inr batch | Some r \<Rightarrow> WriteEvents C r True batch) (\<lambda>batch.
     bindE (WriteEvents C block False batch) (\<lambda>batch.
     bindE (KV_Read db EVENTS_HEAD_KEY) (\<lambda>marker.
       if marker = Some (EncodeFinalizedHead previous)
       then bindE (ComputeBlockId C (fb_block block)) (\<lambda>i. Inr (batch_Put EVENTS_HEAD_KEY
              (EncodeBytes (EncodeFinalizedHead \<lparr> fh_block_id = i, fh_height = blk_height (fb_block block) \<rparr>)) batch))
       else Inr batch)))"


section \<open>Execution of a candidate\<close>

definition expires_name :: "CybouProtocolParameters \<Rightarrow> u64 \<Rightarrow> CybouState \<Rightarrow> bool" where
  "expires_name params height st = list_ex (\<lambda>(c, r). name_commit_max_lifetime params > 0 \<and> height > ncr_commit_height r
     \<and> height - ncr_commit_height r > name_commit_max_lifetime params) (pending_commits (names st))"

text \<open>\<^verbatim>\<open>BlockExecutionResult::operator bool\<close>.\<close>

definition execution_ok :: "BlockExecutionResult \<Rightarrow> bool" where
  "execution_ok r \<longleftrightarrow> ber_error r = BlockExecutionError.NONE \<and> ber_state r \<noteq> None \<and> ber_state_root r \<noteq> None"

definition ComputeCandidateStateRoot ::
  "crypto \<Rightarrow> ProtocolOperation list \<Rightarrow> u64 \<Rightarrow> KVStore \<Rightarrow> CybouStateStore \<Rightarrow> (exn + hash256 option) \<times> CybouStateStore" where
  "ComputeCandidateStateRoot C operations height db s =
     (case GetStateSnapshotLocked C db s of (Inl e, s) \<Rightarrow> (Inl e, s)
      | (Inr loaded, s) \<Rightarrow>
        (bindE (GetFinalizedHead db) (\<lambda>head. case (slr_state loaded, head) of
            (Some st, Some head) \<Rightarrow>
              if slr_error loaded \<noteq> StateLoadError.NONE \<or> height \<noteq> fh_height head + 1 \<or> height = 0 then Inr None
              else if operations = [] \<and> \<not> expires_name (ss_params s) height st then GetStateRoot db
              else bindE (ExecuteBlockOperations C st operations (ss_network_binding s) height (ss_params s) (Some (ss_poa_key s))
                  (fh_block_id head)) (\<lambda>execution.
                Inr (if execution_ok execution then ber_state_root execution else None))
          | _ \<Rightarrow> Inr None), s))"


section \<open>Committing a finalized block\<close>

definition check_certificate ::
  "crypto \<Rightarrow> FinalizedBlock \<Rightarrow> KVStore \<Rightarrow> CybouStateStore \<Rightarrow> exn + (BlockTransitionError + (hash256 \<times> FinalizedHead))" where
  "check_certificate C fb db s =
     (let block = fb_block fb; cert = fb_certificate fb in
      bindE (ComputeBlockId C block) (\<lambda>block_id.
        if block_id = 0 then Inr (Inl INVALID_BLOCK_ID)
        else bindE (GetFinalizedHead db) (\<lambda>head. case head of None \<Rightarrow> Inr (Inl CORRUPT_HEAD)
          | Some head \<Rightarrow>
            if fh_block_id head = block_id then Inr (Inl BLOCK_ALREADY_APPLIED)
            else if pfc_network_binding cert \<noteq> ss_network_binding s \<or> pfc_block_id cert \<noteq> block_id
                 \<or> pfc_height cert \<noteq> blk_height block \<or> pfc_parent_block_id cert \<noteq> blk_parent_block_id block
            then Inr (Inl BlockTransitionError.INVALID_CERTIFICATE)
            else bindE (VerifyPoaCertificateForBlock C cert (ss_poa_key s) (ss_network_binding s) block) (\<lambda>ok.
              Inr (if \<not> ok then Inl BlockTransitionError.INVALID_CERTIFICATE else Inr (block_id, head))))))"

definition observation_error :: "PoaConflictStatus \<Rightarrow> BlockTransitionError option" where
  "observation_error status =
     (if status \<in> set [SAFETY_CONFLICT, COMPETING_NON_CANONICAL] then Some POA_EQUIVOCATION_DETECTED
      else if status \<in> set [ALREADY_HALTED, CORRUPT_STORAGE, PoaConflictStatus.STORAGE_ERROR] then Some POA_SAFETY_HALTED
      else if status = PoaConflictStatus.INVALID_CERTIFICATE then Some BlockTransitionError.INVALID_CERTIFICATE
      else None)"

definition execution_failure :: "BlockExecutionResult \<Rightarrow> BlockTransitionResult" where
  "execution_failure execution =
     (if ber_error execution = BlockExecutionError.TOO_MANY_ACCOUNT_CREATES then transition BlockTransitionError.TOO_MANY_ACCOUNT_CREATES
      else \<lparr> btr_error = INVALID_OPERATION, btr_op_result = execution \<rparr>)"

fun index_operations :: "crypto \<Rightarrow> bool \<Rightarrow> hash256 \<Rightarrow> ProtocolOperation list \<Rightarrow> kv_batch \<Rightarrow> exn + kv_batch" where
  "index_operations C erase block_id [] batch = Inr batch"
| "index_operations C erase block_id (op # ops) batch = bindE (ComputeOperationId C op) (\<lambda>r.
     index_operations C erase block_id ops (case r of None \<Rightarrow> batch
       | Some op_id \<Rightarrow>
         if op_id = 0 then batch
         else if erase then batch_Erase (OperationKey op_id) batch else batch_Put (OperationKey op_id) (EncodeHash block_id) batch))"

text \<open>The operation index of the normal path refuses an operation without identifier.\<close>

fun index_operations_strict :: "crypto \<Rightarrow> hash256 \<Rightarrow> ProtocolOperation list \<Rightarrow> kv_batch \<Rightarrow> exn + kv_batch option" where
  "index_operations_strict C block_id [] batch = Inr (Some batch)"
| "index_operations_strict C block_id (op # ops) batch = bindE (ComputeOperationId C op) (\<lambda>r. case r of None \<Rightarrow> Inr None
     | Some op_id \<Rightarrow>
       if op_id = 0 then Inr None
       else index_operations_strict C block_id ops (batch_Put (OperationKey op_id) (EncodeHash block_id) batch))"

text \<open>
  The path after \<^verbatim>\<open>CANONICAL_REORG_REQUIRED\<close>: the block replaces the tip. The result is a refusal, or the batch to write
  and the state that becomes the snapshot.
\<close>

definition reorg_parent :: "crypto \<Rightarrow> CybouBlock \<Rightarrow> FinalizedHead \<Rightarrow> KVStore
    \<Rightarrow> exn + (BlockTransitionError + (FinalizedBlock \<times> CybouState))" where
  "reorg_parent C block head db =
     (if fh_height head \<noteq> blk_height block then Inr (Inl INVALID_HEIGHT)
      else bindE (GetBlockAtHeight C db (blk_height block)) (\<lambda>old. case old of None \<Rightarrow> Inr (Inl BlockTransitionError.PARENT_MISMATCH)
        | Some old_block \<Rightarrow>
          if blk_parent_block_id (fb_block old_block) \<noteq> blk_parent_block_id block then Inr (Inl BlockTransitionError.PARENT_MISMATCH)
          else bindE (KV_Read db (StateHeightKey (blk_height block - 1))) (\<lambda>bytes. case bytes of None \<Rightarrow> Inr (Inl CORRUPT_STATE)
            | Some bs \<Rightarrow> Inr (case DeserializeCybouState C bs of None \<Rightarrow> Inl CORRUPT_STATE | Some st \<Rightarrow> Inr (old_block, st)))))"

definition reorg_batch ::
  "crypto \<Rightarrow> FinalizedBlock \<Rightarrow> hash256 \<Rightarrow> FinalizedHead \<Rightarrow> FinalizedBlock \<Rightarrow> CybouState \<Rightarrow> hash256 \<Rightarrow> KVStore \<Rightarrow> exn + kv_batch option" where
  "reorg_batch C fb block_id head old_block next root db =
     (let block = fb_block fb in
      bindE (index_operations C True block_id (blk_operations (fb_block old_block)) []) (\<lambda>batch.
        case SerializeCybouState C next False of None \<Rightarrow> Inr None
        | Some state_bytes \<Rightarrow>
          let batch = batch_Put HEAD_KEY (EncodeFinalizedHead \<lparr> fh_block_id = block_id, fh_height = blk_height block \<rparr>)
                (batch_Write (StateHeightKey (blk_height block)) state_bytes
                (batch_Put HASH_KEY (EncodeHash root) (batch_Write STATE_KEY state_bytes batch)))
          in bindE (SerializeFinalizedBlock C fb) (\<lambda>serialized. case serialized of None \<Rightarrow> Inr None
            | Some bs \<Rightarrow>
              bindE (index_operations C False block_id (blk_operations block)
                (batch_Put (BlockHeightKey (blk_height block)) (EncodeHash block_id) (batch_Write (BlockKey block_id) bs batch))) (\<lambda>batch.
              bindE (AppendFinalizedEvents C db fb head (Some old_block) batch) (\<lambda>batch. Inr (Some batch))))))"

definition prepare_reorg ::
  "crypto \<Rightarrow> FinalizedBlock \<Rightarrow> hash256 \<Rightarrow> FinalizedHead \<Rightarrow> KVStore \<Rightarrow> CybouStateStore
   \<Rightarrow> exn + (BlockTransitionResult + (kv_batch \<times> CybouState))" where
  "prepare_reorg C fb block_id head db s =
     (let block = fb_block fb in
      bindE (reorg_parent C block head db) (\<lambda>p. case p of Inl e \<Rightarrow> Inr (Inl (transition e))
        | Inr (old_block, parent_state) \<Rightarrow>
          bindE (ExecuteBlockOperations C parent_state (blk_operations block) (ss_network_binding s) (blk_height block)
              (ss_params s) (Some (ss_poa_key s)) (blk_parent_block_id block)) (\<lambda>execution.
            if \<not> execution_ok execution then Inr (Inl (execution_failure execution))
            else if the (ber_state_root execution) \<noteq> blk_resulting_state_root block then Inr (Inl (transition STATE_ROOT_MISMATCH))
            else bindE (reorg_batch C fb block_id head old_block (the (ber_state execution)) (the (ber_state_root execution)) db) (\<lambda>batch.
              Inr (case batch of None \<Rightarrow> Inl (transition CORRUPT_STATE) | Some b \<Rightarrow> Inr (b, the (ber_state execution)))))))"

text \<open>
  The normal path: the block extends the tip. \<open>extend_state\<close> is the root of the candidate and the state, when it differs
  from the parent state, which an empty block without expiring name commitments keeps.
\<close>

definition extend_state ::
  "crypto \<Rightarrow> CybouBlock \<Rightarrow> CybouState \<Rightarrow> KVStore \<Rightarrow> CybouStateStore \<Rightarrow> exn + (BlockTransitionResult + (hash256 \<times> CybouState option))" where
  "extend_state C block state db s =
     (if blk_operations block = [] \<and> \<not> expires_name (ss_params s) (blk_height block) state
      then bindE (GetStateRoot db) (\<lambda>root. Inr (case root of None \<Rightarrow> Inl (transition CORRUPT_STATE) | Some r \<Rightarrow> Inr (r, None)))
      else bindE (ExecuteBlockOperations C state (blk_operations block) (ss_network_binding s) (blk_height block)
              (ss_params s) (Some (ss_poa_key s)) (blk_parent_block_id block)) (\<lambda>execution.
        Inr (if \<not> execution_ok execution then Inl (execution_failure execution)
             else Inr (the (ber_state_root execution), ber_state execution))))"

definition extend_batch ::
  "crypto \<Rightarrow> FinalizedBlock \<Rightarrow> hash256 \<Rightarrow> FinalizedHead \<Rightarrow> CybouState \<Rightarrow> hash256 \<Rightarrow> CybouState option \<Rightarrow> KVStore
   \<Rightarrow> exn + (BlockTransitionResult + kv_batch)" where
  "extend_batch C fb block_id head state root next db =
     (let block = fb_block fb in
      case SerializeCybouState C (case next of None \<Rightarrow> state | Some st \<Rightarrow> st) False of None \<Rightarrow> Inr (Inl (transition CORRUPT_STATE))
      | Some state_bytes \<Rightarrow>
        let batch = (case next of None \<Rightarrow> batch_Write (StateHeightKey (blk_height block)) state_bytes []
              | Some _ \<Rightarrow> batch_Write (StateHeightKey (blk_height block)) state_bytes
                  (batch_Put HASH_KEY (EncodeHash root) (batch_Write STATE_KEY state_bytes [])));
            batch = batch_Put HEAD_KEY (EncodeFinalizedHead \<lparr> fh_block_id = block_id, fh_height = blk_height block \<rparr>) batch
        in bindE (SerializeFinalizedBlock C fb) (\<lambda>serialized. case serialized of None \<Rightarrow> Inr (Inl (transition CORRUPT_STATE))
          | Some bs \<Rightarrow>
            bindE (index_operations_strict C block_id (blk_operations block)
              (batch_Put (BlockHeightKey (blk_height block)) (EncodeHash block_id) (batch_Write (BlockKey block_id) bs batch))) (\<lambda>indexed.
            case indexed of None \<Rightarrow> Inr (Inl (transition INVALID_OPERATION))
            | Some batch \<Rightarrow>
              bindE (AppendFinalizedEvents C db fb head None
                (if blk_height block > 16 then batch_Erase (StateHeightKey (blk_height block - 16)) batch else batch)) (\<lambda>batch.
                Inr (Inr batch)))))"

definition prepare_extend ::
  "crypto \<Rightarrow> FinalizedBlock \<Rightarrow> hash256 \<Rightarrow> FinalizedHead \<Rightarrow> CybouState \<Rightarrow> KVStore \<Rightarrow> CybouStateStore
   \<Rightarrow> exn + (BlockTransitionResult + (kv_batch \<times> CybouState))" where
  "prepare_extend C fb block_id head state db s =
     (let block = fb_block fb in
      if fh_block_id head \<noteq> blk_parent_block_id block then Inr (Inl (transition BlockTransitionError.PARENT_MISMATCH))
      else if fh_height head = U64_MAX \<or> blk_height block \<noteq> fh_height head + 1 then Inr (Inl (transition INVALID_HEIGHT))
      else bindE (extend_state C block state db s) (\<lambda>r. case r of Inl e \<Rightarrow> Inr (Inl e)
        | Inr (root, next) \<Rightarrow>
          if root \<noteq> blk_resulting_state_root block then Inr (Inl (transition STATE_ROOT_MISMATCH))
          else bindE (extend_batch C fb block_id head state root next db) (\<lambda>b. Inr (case b of Inl e \<Rightarrow> Inl e
            | Inr batch \<Rightarrow> Inr (batch, case next of None \<Rightarrow> state | Some st \<Rightarrow> st)))))"

definition commit_batch ::
  "write_outcome \<Rightarrow> exn + (BlockTransitionResult + (kv_batch \<times> CybouState)) \<Rightarrow> KVStore \<Rightarrow> CybouStateStore
   \<Rightarrow> (exn + BlockTransitionResult) \<times> KVStore \<times> CybouStateStore" where
  "commit_batch w prepared db s =
     (case prepared of Inl e \<Rightarrow> (Inl e, db, s)
      | Inr (Inl refused) \<Rightarrow> (Inr refused, db, s)
      | Inr (Inr (batch, next)) \<Rightarrow>
        (case WriteBatch w batch db of (Inl e, db') \<Rightarrow> (Inl e, db', s)
         | (Inr _, db') \<Rightarrow> (Inr (transition BlockTransitionError.NONE), db', s \<lparr> ss_snapshot := Some next \<rparr>)))"

definition load_error :: "StateLoadError \<Rightarrow> BlockTransitionError" where
  "load_error e = (if e = StateLoadError.NETWORK_MISMATCH then BlockTransitionError.NETWORK_MISMATCH
     else if e = StateLoadError.CORRUPT then CORRUPT_STATE else STATE_NOT_INITIALIZED)"

definition CommitFinalizedBlock ::
  "crypto \<Rightarrow> write_outcome \<Rightarrow> write_outcome \<Rightarrow> write_outcome \<Rightarrow> FinalizedBlock \<Rightarrow> KVStore \<Rightarrow> CybouStateStore
   \<Rightarrow> (exn + BlockTransitionResult) \<times> KVStore \<times> CybouStateStore" where
  "CommitFinalizedBlock C w1 w2 w3 fb db s =
     (case GetStateSnapshotLocked C db s of (Inl e, s) \<Rightarrow> (Inl e, db, s)
      | (Inr loaded, s) \<Rightarrow>
        (case slr_state loaded of None \<Rightarrow> (Inr (transition (load_error (slr_error loaded))), db, s)
         | Some state \<Rightarrow>
           if slr_error loaded \<noteq> StateLoadError.NONE then (Inr (transition (load_error (slr_error loaded))), db, s)
           else if PoaSafetyHalted s then (Inr (transition POA_SAFETY_HALTED), db, s)
           else case check_certificate C fb db s of Inl e \<Rightarrow> (Inl e, db, s)
             | Inr (Inl e) \<Rightarrow> (Inr (transition e), db, s)
             | Inr (Inr (block_id, head)) \<Rightarrow>
               (case Observe C w1 w2 (fb_certificate fb) (fb_block fb) db (ss_detector s) of
                  (Inl e, db, d) \<Rightarrow> (Inl e, db, s \<lparr> ss_detector := d \<rparr>)
                | (Inr status, db, d) \<Rightarrow>
                  let s = s \<lparr> ss_detector := d \<rparr> in
                  (case observation_error status of Some e \<Rightarrow> (Inr (transition e), db, s)
                   | None \<Rightarrow>
                     commit_batch w3 (if status = CANONICAL_REORG_REQUIRED then prepare_reorg C fb block_id head db s
                                      else prepare_extend C fb block_id head state db s) db s))))"

end
