(* ===== verification/StoreHistory.thy ===== *)
theory StoreHistory
  imports StateStore
begin

text \<open>
  Histories of the state store: the keys of its records are distinct, the batches of a commit touch the core records as the code
  means to, and over every history of opening, initializing, committing, crashing and failing writes the state on disk is a valid
  state with the supply of the genesis.
\<close>

section \<open>Keys\<close>

lemma length_to_string: "n < 10 ^ k \<Longrightarrow> 0 < k \<Longrightarrow> length (to_string n) \<le> k"
proof (induction n arbitrary: k rule: to_string.induct)
  case (1 n)
  show ?case
  proof (cases "n < 10")
    case True
    then show ?thesis using 1(3) by (simp add: to_string.simps [of n])
  next
    case False
    then obtain j where k: "k = Suc j" "0 < j" using 1(2,3) by (cases k; cases "k - 1") auto
    then have "n div 10 < 10 ^ j" using 1(2) by (simp add: div_less_iff_less_mult mult.commute)
    from 1(1) [OF False this k(2)] show ?thesis using False k by (simp add: to_string.simps [of n])
  qed
qed

lemma length_u64_string: "length (to_string (unat (h :: u64))) \<le> 20"
  using unsigned_less [of h, where 'a = nat] by (intro length_to_string) auto

definition core_key :: "string \<Rightarrow> bool" where
  "core_key k \<longleftrightarrow> k \<in> {STATE_KEY, HASH_KEY, HEAD_KEY, NETWORK_ID_KEY} \<or> k \<in> range StateHeightKey"

lemmas fixed_key_defs = STATE_KEY_def HASH_KEY_def HEAD_KEY_def NETWORK_ID_KEY_def EVENTS_HEAD_KEY_def

lemma length_GetHex [simp]: "length (GetHex h) = 64"
  by (simp add: GetHex_def length_HexEncode)

lemma key_ok_simps [simp]:
  "key_ok STATE_KEY" "key_ok HASH_KEY" "key_ok HEAD_KEY" "key_ok NETWORK_ID_KEY" "key_ok EVENTS_HEAD_KEY"
  "key_ok (BlockKey b)" "key_ok (BlockHeightKey h)" "key_ok (OperationKey b)" "key_ok (StateHeightKey h)" "key_ok (KemKey a e)"
  "key_ok (EventKey b)" "key_ok (PublicationKey h)"
  using length_u64_string [of h]
  by (simp_all add: key_ok_def fixed_key_defs BlockKey_def BlockHeightKey_def OperationKey_def StateHeightKey_def KemKey_def
      EventKey_def PublicationKey_def OrderedNumber_def MAX_LOCAL_RECORD_def)

lemma core_key_ok: "core_key k \<Longrightarrow> key_ok k"
  by (auto simp: core_key_def)

lemma core_keys_distinct [simp]:
  "STATE_KEY \<noteq> HASH_KEY" "STATE_KEY \<noteq> HEAD_KEY" "STATE_KEY \<noteq> NETWORK_ID_KEY" "HASH_KEY \<noteq> HEAD_KEY" "HASH_KEY \<noteq> NETWORK_ID_KEY"
  "HEAD_KEY \<noteq> NETWORK_ID_KEY" "HASH_KEY \<noteq> STATE_KEY" "HEAD_KEY \<noteq> STATE_KEY" "NETWORK_ID_KEY \<noteq> STATE_KEY" "HEAD_KEY \<noteq> HASH_KEY"
  "NETWORK_ID_KEY \<noteq> HASH_KEY" "NETWORK_ID_KEY \<noteq> HEAD_KEY"
  "StateHeightKey h \<noteq> STATE_KEY" "StateHeightKey h \<noteq> HASH_KEY" "StateHeightKey h \<noteq> HEAD_KEY" "StateHeightKey h \<noteq> NETWORK_ID_KEY"
  "STATE_KEY \<noteq> StateHeightKey h" "HASH_KEY \<noteq> StateHeightKey h" "HEAD_KEY \<noteq> StateHeightKey h" "NETWORK_ID_KEY \<noteq> StateHeightKey h"
  "EVENTS_HEAD_KEY \<noteq> STATE_KEY" "EVENTS_HEAD_KEY \<noteq> HASH_KEY" "EVENTS_HEAD_KEY \<noteq> HEAD_KEY" "EVENTS_HEAD_KEY \<noteq> NETWORK_ID_KEY"
  "EVENTS_HEAD_KEY \<noteq> StateHeightKey h"
  by (simp_all add: fixed_key_defs StateHeightKey_def)

lemma not_core [simp]:
  "\<not> core_key EVENTS_HEAD_KEY" "\<not> core_key (BlockKey b)" "\<not> core_key (BlockHeightKey h)" "\<not> core_key (OperationKey b)"
  "\<not> core_key (KemKey a e)" "\<not> core_key (EventKey b)"
  "\<not> core_key (PublicationKey h)"
  by (auto simp: core_key_def fixed_key_defs BlockKey_def BlockHeightKey_def OperationKey_def StateHeightKey_def KemKey_def EventKey_def PublicationKey_def)

lemma core_key_simps [simp]:
  "core_key STATE_KEY" "core_key HASH_KEY" "core_key HEAD_KEY" "core_key NETWORK_ID_KEY" "core_key (StateHeightKey h)"
  by (simp_all add: core_key_def)


section \<open>Batches\<close>

lemma batch_apply_Nil [simp]: "batch_apply [] d = d"
  by (simp add: batch_apply_def)

lemma batch_apply_put:
  assumes "key_ok key" and "key_ok k"
  shows "batch_apply (batch_Put key e b) d (EncodeString k) = (if key = k then Some e else batch_apply b d (EncodeString k))"
    and "batch_apply (batch_Write key v b) d (EncodeString k) = (if key = k then Some (EncodeBytes v) else batch_apply b d (EncodeString k))"
    and "batch_apply (batch_Erase key b) d (EncodeString k) = (if key = k then None else batch_apply b d (EncodeString k))"
  using assms by (auto simp: batch_Put_def batch_Write_def batch_Erase_def batch_apply_snoc EncodeString_inj)

text \<open>A batch that agrees with another on the core records.\<close>

definition same_core :: "kv_batch \<Rightarrow> kv_batch \<Rightarrow> bool" where
  "same_core b b' \<longleftrightarrow> (\<forall>d k. core_key k \<longrightarrow> batch_apply b' d (EncodeString k) = batch_apply b d (EncodeString k))"

lemma same_core_refl [simp, intro]: "same_core b b"
  by (simp add: same_core_def)

lemma same_core_trans: "same_core a b \<Longrightarrow> same_core b c \<Longrightarrow> same_core a c"
  by (simp add: same_core_def)

lemma same_core_put:
  assumes "\<not> core_key key" and "key_ok key"
  shows "same_core b (batch_Put key e b)" "same_core b (batch_Write key v b)" "same_core b (batch_Erase key b)"
  using assms core_key_ok by (auto simp: same_core_def batch_apply_put)

lemma same_core_event: "\<not> core_key key \<Longrightarrow> key_ok key \<Longrightarrow> same_core b (batch_event erase key v b)"
  by (simp add: batch_event_def same_core_put)

lemma index_operations_core: "index_operations C erase i ops b = Inr b' \<Longrightarrow> same_core b b'"
proof (induction ops arbitrary: b)
  case (Cons op ops)
  then obtain r where "index_operations C erase i ops (case r of None \<Rightarrow> b
       | Some op_id \<Rightarrow> if op_id = 0 then b
         else if erase then batch_Erase (OperationKey op_id) b else batch_Put (OperationKey op_id) (EncodeHash i) b) = Inr b'"
    by (auto simp: bindE_Inr_iff)
  from Cons.IH [OF this] show ?case
    by (rule same_core_trans [rotated]) (auto simp: same_core_put split: option.split)
qed simp

lemma index_operations_strict_core: "index_operations_strict C i ops b = Inr (Some b') \<Longrightarrow> same_core b b'"
proof (induction ops arbitrary: b)
  case (Cons op ops)
  then obtain r where "index_operations_strict C i ops (batch_Put (OperationKey r) (EncodeHash i) b) = Inr (Some b')"
    by (auto simp: bindE_Inr_iff split: option.split_asm if_split_asm)
  from Cons.IH [OF this] show ?case by (rule same_core_trans [rotated]) (simp add: same_core_put)
qed simp

lemma kem_key_not_core: "kem_key_of op = Some k \<Longrightarrow> \<not> core_key k \<and> key_ok k"
  by (auto simp: kem_key_of_def split: ProtocolOperation.split_asm)

lemma write_operation_events_core: "write_operation_events C erase h i n ops b = Inr b' \<Longrightarrow> same_core b b'"
proof (induction ops arbitrary: b n)
  case (Cons op ops)
  then obtain op_id where o: "ComputeOperationId C op = Inr (Some op_id)"
    by (auto simp: bindE_Inr_iff split: option.split_asm)
  define v where "v = EncodeLocation \<lparr> fel_height = h, fel_operation_index = of_nat n, fel_block_id = i \<rparr>"
  define b1 where "b1 = batch_event erase (EventKey op_id) v b"
  define b2 where "b2 = (case kem_key_of op of None \<Rightarrow> b1 | Some k \<Rightarrow> batch_event erase k v b1)"
  have "write_operation_events C erase h i (n + 1) ops b2 = Inr b'" using Cons.prems o unfolding b2_def b1_def v_def by (simp add: Let_def)
  from Cons.IH [OF this] have "same_core b2 b'" .
  moreover have "same_core b b1" by (simp add: b1_def same_core_event)
  moreover have "same_core b1 b2" using kem_key_not_core by (auto simp: b2_def same_core_event split: option.split)
  ultimately show ?case by (blast intro: same_core_trans)
qed simp

lemma WriteEvents_core: "WriteEvents C fb erase b = Inr b' \<Longrightarrow> same_core b b'"
  by (auto simp: WriteEvents_def Let_def bindE_Inr_iff dest!: write_operation_events_core intro!: same_core_trans [OF _ same_core_event])

lemma AppendFinalizedEvents_core:
  assumes "AppendFinalizedEvents C db fb previous replaced b = Inr b'"
  shows "same_core b b'"
proof -
  obtain b1 b2 where 1: "(case replaced of None \<Rightarrow> Inr b | Some r \<Rightarrow> WriteEvents C r True b) = Inr b1" and 2: "WriteEvents C fb False b1 = Inr b2"
    and 3: "b' = b2 \<or> (\<exists>e. b' = batch_Put EVENTS_HEAD_KEY e b2)"
    using assms by (auto simp: AppendFinalizedEvents_def bindE_Inr_iff split: if_split_asm)
  have "same_core b b1" using 1 WriteEvents_core by (auto split: option.split_asm)
  moreover have "same_core b1 b2" by (rule WriteEvents_core [OF 2])
  moreover have "same_core b2 b'" using 3 by (auto simp: same_core_put)
  ultimately show ?thesis by (blast intro: same_core_trans)
qed


section \<open>The detector leaves the core records alone\<close>

definition detector_ok :: "PoaConflictDetector \<Rightarrow> bool" where
  "detector_ok d \<longleftrightarrow> short (cd_prefix d) \<and> take 4 (cd_prefix d) = ''poa-''"

definition same_records :: "KVStore \<Rightarrow> KVStore \<Rightarrow> bool" where
  "same_records db db' \<longleftrightarrow> (\<forall>k. core_key k \<longrightarrow> kv_data db' (EncodeString k) = kv_data db (EncodeString k))"

lemma same_records_refl [simp, intro]: "same_records db db"
  by (simp add: same_records_def)

lemma same_records_trans: "same_records a b \<Longrightarrow> same_records b c \<Longrightarrow> same_records a c"
  by (simp add: same_records_def)

lemma core_key_prefix: "core_key k \<Longrightarrow> take 4 k = ''cybo''"
  by (auto simp: core_key_def fixed_key_defs StateHeightKey_def)

lemma same_records_write:
  assumes "\<not> core_key key" and "key_ok key"
  shows "same_records db (snd (KV_Write w key v db))"
  using assms core_key_ok
  by (cases w) (auto simp: same_records_def KV_Write_def WriteBatch_def Let_def batch_apply_put)

lemma detector_key_not_core:
  assumes "detector_ok d"
  shows "\<not> core_key (cd_prefix d @ x)"
proof
  assume "core_key (cd_prefix d @ x)"
  from core_key_prefix [OF this] have "take 4 (cd_prefix d @ x) = ''cybo''" .
  moreover have "length (take 4 (cd_prefix d)) = 4" using assms by (simp add: detector_ok_def)
  ultimately show False using assms by (auto simp: detector_ok_def min_def split: if_split_asm)
qed

lemma detector_writes:
  assumes "detector_ok d"
  shows "same_records db (snd (KV_Write w (cd_prefix d @ ''halt'') v db))"
    and "same_records db (snd (KV_Write w (ObservationKey (cd_prefix d) c) v db))"
  using assms detector_key_not_core [OF assms] detector_keys(1) [of "cd_prefix d" c] detector_keys(2) [of "cd_prefix d"]
  by (auto simp: detector_ok_def ObservationKey_def intro!: same_records_write)

text \<open>An observation keeps the core records and the identity of the detector.\<close>

definition contained :: "PoaConflictDetector \<Rightarrow> KVStore \<Rightarrow> (exn + PoaConflictStatus) \<times> KVStore \<times> PoaConflictDetector \<Rightarrow> bool" where
  "contained d db out \<longleftrightarrow> same_records db (fst (snd out)) \<and> kv_unreadable (fst (snd out)) = kv_unreadable db
     \<and> cd_prefix (snd (snd out)) = cd_prefix d"

lemma contained_same [simp]: "contained d db (r, db, d)"
  by (simp add: contained_def)

lemma corrupt_storage_contained: "detector_ok d \<Longrightarrow> contained d db (corrupt_storage w db d)"
  using detector_writes(1) [of d db w "[HALT_CORRUPT_STORAGE]"] KV_Write_unreadable [of w "cd_prefix d @ ''halt''" "[HALT_CORRUPT_STORAGE]" db]
  by (cases "KV_Write w (cd_prefix d @ ''halt'') [HALT_CORRUPT_STORAGE] db")
    (simp add: corrupt_storage_def Detector_PersistHalt_def contained_def Let_def del: KV_Write_unreadable)

lemma record_conflict_contained:
  assumes "detector_ok d"
  shows "contained d db (record_conflict w w' (ObservationKey (cd_prefix d) c) pb cb q c db d)"
proof -
  obtain r db1 where 1: "KV_Write w (cd_prefix d @ ''halt'') (HALT_EQUIVOCATION # pb @ cb) db = (r, db1)" by (metis prod.exhaust)
  obtain r' db2 where 2: "KV_Write w' (ObservationKey (cd_prefix d) c) cb db1 = (r', db2)" by (metis prod.exhaust)
  have "same_records db db1" "same_records db1 db2"
    using detector_writes [OF assms] 1 2 by (metis snd_conv)+
  moreover have "kv_unreadable db1 = kv_unreadable db" "kv_unreadable db2 = kv_unreadable db1"
    using 1 2 KV_Write_unreadable by (metis snd_conv)+
  ultimately show ?thesis using 1 2 same_records_trans
    by (auto simp: record_conflict_def contained_def split: sum.split)
qed

lemma first_observation_contained:
  assumes "detector_ok d"
  shows "contained d db (case KV_Write w (ObservationKey (cd_prefix d) c) bs db of
      (Inr _, db') \<Rightarrow> (Inr OBSERVED, db', d) | (Inl _, db') \<Rightarrow> (Inr STORAGE_ERROR, db', d \<lparr> cd_halted := True \<rparr>))"
  using detector_writes(2) [OF assms, of db w c bs] KV_Write_unreadable [of w "ObservationKey (cd_prefix d) c" bs db]
  by (auto simp: contained_def simp del: KV_Write_unreadable split: prod.split sum.split)

lemma Observe_contained:
  assumes "detector_ok d"
  shows "contained d db (Observe C w w' c block db d)"
  unfolding Observe_def Let_def
  by (auto simp: corrupt_storage_contained [OF assms] record_conflict_contained [OF assms] first_observation_contained [OF assms]
      split: option.split sum.split bool.split if_split)

lemma open_detector_contained:
  assumes "open_detector C w nb key db = (r, db')"
  shows "same_records db db'" and "r = Inr d \<Longrightarrow> detector_ok d"
proof -
  have l: "length (detector_prefix nb kid) = 152" and t: "take 4 (detector_prefix nb kid) = ''poa-''" for kid
    by (simp_all add: detector_prefix_def length_HexEncode)
  have w: "same_records db (snd (KV_Write w (detector_prefix nb kid @ ''metadata'') v db))" for kid v
  proof (rule same_records_write)
    show "key_ok (detector_prefix nb kid @ ''metadata'')" by (simp add: key_ok_def l MAX_LOCAL_RECORD_def)
    show "\<not> core_key (detector_prefix nb kid @ ''metadata'')" using core_key_prefix l t by fastforce
  qed
  let ?d = "\<lambda>kid h. \<lparr> cd_network_binding = nb, cd_genesis_finalizer_key = key, cd_prefix = detector_prefix nb kid, cd_halted = h \<rparr>"
  have "same_records db db' \<and> (\<forall>d. r = Inr d \<longrightarrow> (\<exists>kid h. d = ?d kid h))"
  proof (cases "\<exists>kid. ComputePoaFinalizerKeyId C key = Some kid \<and> nb \<noteq> 0 \<and> load_detector C db (detector_prefix nb kid)
      (hash_bytes nb @ hash_bytes kid) nb key = Inr None")
    case True
    then obtain kid where k: "ComputePoaFinalizerKeyId C key = Some kid" "nb \<noteq> 0"
      "load_detector C db (detector_prefix nb kid) (hash_bytes nb @ hash_bytes kid) nb key = Inr None" by blast
    obtain r1 db1 where 1: "KV_Write w (detector_prefix nb kid @ ''metadata'') (hash_bytes nb @ hash_bytes kid) db = (r1, db1)"
      by (metis prod.exhaust)
    have "same_records db db1" using w [of kid "hash_bytes nb @ hash_bytes kid"] 1 by simp
    then show ?thesis using assms k 1 by (cases r1) (auto simp: open_detector_def Let_def)
  qed (use assms in \<open>auto simp: open_detector_def Let_def split: option.split_asm if_split_asm sum.split_asm\<close>)
  then show "same_records db db'" and "r = Inr d \<Longrightarrow> detector_ok d"
    using l t by (auto simp: detector_ok_def short_def)
qed


section \<open>The state on disk\<close>

definition good_state :: "crypto \<Rightarrow> CybouState \<Rightarrow> CybouState \<Rightarrow> bool" where
  "good_state C g0 st \<longleftrightarrow> ValidateCybouState C st = StateValidationError.NONE \<and> maps_wf st \<and> money_supply st = money_supply g0"

definition state_at :: "crypto \<Rightarrow> KVStore \<Rightarrow> string \<Rightarrow> CybouState \<Rightarrow> bool" where
  "state_at C db key st \<longleftrightarrow> (\<exists>bs. kv_data db (EncodeString key) = Some (EncodeBytes bs) \<and> SerializeCybouState C st False = Some bs)"

definition snapshots_ok :: "crypto \<Rightarrow> CybouState \<Rightarrow> KVStore \<Rightarrow> bool" where
  "snapshots_ok C g0 db \<longleftrightarrow> (\<forall>h. kv_data db (EncodeString (StateHeightKey h)) = None
     \<or> (\<exists>st. good_state C g0 st \<and> state_at C db (StateHeightKey h) st))"

definition live :: "crypto \<Rightarrow> hash256 \<Rightarrow> CybouState \<Rightarrow> KVStore \<Rightarrow> CybouState \<Rightarrow> bool" where
  "live C nb g0 db st \<longleftrightarrow> good_state C g0 st \<and> state_at C db STATE_KEY st \<and> snapshots_ok C g0 db
     \<and> (\<exists>root. CybouStateHash C st False = Some root \<and> kv_data db (EncodeString HASH_KEY) = Some (EncodeHash root))
     \<and> (\<exists>head. kv_data db (EncodeString HEAD_KEY) = Some (EncodeFinalizedHead head))
     \<and> kv_data db (EncodeString NETWORK_ID_KEY) = Some (EncodeHash nb)"

definition fresh :: "KVStore \<Rightarrow> bool" where
  "fresh db \<longleftrightarrow> (\<forall>k. core_key k \<longrightarrow> kv_data db (EncodeString k) = None)"

text \<open>No value has 2 to the 63 bytes: no process can address it.\<close>

definition addressable :: "KVStore \<Rightarrow> bool" where
  "addressable db \<longleftrightarrow> (\<forall>k v. kv_data db k = Some v \<longrightarrow> length v < 2 ^ 63)"

lemma live_same_records: "same_records db db' \<Longrightarrow> live C nb g0 db st \<Longrightarrow> live C nb g0 db' st"
  by (simp add: same_records_def live_def snapshots_ok_def state_at_def)

lemma fresh_same_records: "same_records db db' \<Longrightarrow> fresh db \<Longrightarrow> fresh db'"
  by (simp add: same_records_def fresh_def)

lemma read_compact_large:
  assumes "v > 0x02000000"
  shows "ReadCompactSize (AppendCompactSize v @ r) = None"
proof -
  have "ReadCompactSize (AppendCompactSize v @ r) = Some (u, t) \<Longrightarrow> False" for u t
  proof -
    assume "ReadCompactSize (AppendCompactSize v @ r) = Some (u, t)"
    then have u: "u \<le> 0x02000000" and e: "AppendCompactSize v @ r = AppendCompactSize u @ t" using compact_canonical by blast+
    have w: "\<not> v < 253" "\<not> v \<le> 0xFFFF" using assms by (auto simp: word_less_nat_alt word_le_nat_alt)
    have hv: "hd (AppendCompactSize v) \<in> {254, 255}" using w by (simp add: AppendCompactSize_def)
    have hu: "hd (AppendCompactSize u) = hd (AppendCompactSize v)" "length (AppendCompactSize u) > 0"
      using arg_cong [OF e, of hd] by (auto simp: AppendCompactSize_def split: if_split_asm)
    have s: "u \<le> 0xFFFFFFFF" by (rule order_trans [OF u]) simp
    have nu: "\<not> u < 253"
    proof
      assume lt: "u < 253"
      then have "hd (AppendCompactSize u) = ucast u" by (simp add: AppendCompactSize_def)
      moreover have "unat (ucast u :: byte) < 253" using lt by (simp add: word_less_nat_alt unsigned_ucast_eq take_bit_nat_eq_self)
      ultimately show False using hu(1) hv by auto
    qed
    with hu(1) hv s w have both: "AppendCompactSize u = 254 # le_bytes 4 u" "AppendCompactSize v = 254 # le_bytes 4 v" "v \<le> 0xFFFFFFFF"
      by (auto simp: AppendCompactSize_def split: if_split_asm)
    with e have "le_bytes 4 u = le_bytes 4 v" by simp
    moreover have "le_word (le_bytes 4 u) = u" "le_word (le_bytes 4 v) = v"
      using s both(3) by (auto intro!: le_word_small simp: word_le_nat_alt)
    ultimately show False using u assms by (metis linorder_not_less)
  qed
  then show ?thesis by (cases "ReadCompactSize (AppendCompactSize v @ r)") auto
qed

lemma DecodeBytes_EncodeBytes:
  assumes "length v < 2 ^ 64"
  shows "DecodeBytes (EncodeBytes v) = (if length v \<le> MAX_LOCAL_RECORD then Some v else None)"
proof (cases "length v \<le> MAX_LOCAL_RECORD")
  case False
  have "unat (of_nat (length v) :: u64) = length v" using assms by (simp add: unsigned_of_nat take_bit_nat_eq_self)
  then have "(of_nat (length v) :: u64) > 0x02000000" using False by (simp add: word_less_nat_alt MAX_LOCAL_RECORD_def)
  from read_compact_large [OF this, of v] show ?thesis using False by (simp add: DecodeBytes_def EncodeBytes_def)
qed (simp add: bytes_record.dec_enc)

lemma length_concat_ge: "(\<And>x. 0 < length (f x)) \<Longrightarrow> length xs \<le> length (concat (map f xs))"
proof (induction xs)
  case (Cons x xs)
  from Cons.prems have "0 < length (f x)" by blast
  then have "Suc (length xs) \<le> length (f x) + length (concat (map f xs))" using Cons.IH [OF Cons.prems] by linarith
  then show ?case by simp
qed simp

lemma serialized_counts:
  assumes "SerializeCybouState C st v = Some bs"
  shows "length (publications st) \<le> length bs" and "length (leases st) \<le> length bs"
proof -
  have p: "0 < length (publication_enc x)" and l: "0 < length (lease_enc y)" for x y
    by (cases x; simp add: publication_enc_def) (cases y; simp add: lease_enc_def)
  have "length (concat (map publication_enc (publications st))) \<le> length bs" "length (concat (map lease_enc (leases st))) \<le> length bs"
    using assms by (auto simp: SerializeCybouState_def Let_def counted_def split: option.split_asm if_split_asm)
  with length_concat_ge [of publication_enc, OF p, of "publications st"] length_concat_ge [of lease_enc, OF l, of "leases st"]
  show "length (publications st) \<le> length bs" and "length (leases st) \<le> length bs" by linarith+
qed

lemma state_read:
  assumes "state_at C db key st" and "good_state C g0 st" and "addressable db" and "KV_Read db key = Inr (Some bs)"
  shows "DeserializeCybouState C bs = Some st"
proof -
  obtain b where b: "kv_data db (EncodeString key) = Some (EncodeBytes b)" "SerializeCybouState C st False = Some b"
    using assms(1) by (auto simp: state_at_def)
  have "length b \<le> length (EncodeBytes b)" by (simp add: EncodeBytes_def)
  then have "length b < 2 ^ 64" using assms(3) b(1) by (fastforce simp: addressable_def)
  then have d: "length b \<le> MAX_LOCAL_RECORD" "bs = b"
    using assms(4) b(1) DecodeBytes_EncodeBytes [of b]
    by (auto simp: KV_Read_def ReadRaw_def bindE_Inr_iff split: if_split_asm)
  have "SerializeCybouState C st True = Some b" using b(2) assms(2) by (simp add: SerializeCybouState_def good_state_def)
  then show ?thesis
    using assms(2) d serialized_counts [OF b(2)] unfolding d(2)
    by (intro state_dec_enc) (auto simp: good_state_def MAX_LOCAL_RECORD_def)
qed


section \<open>Loading\<close>

definition db_ok :: "crypto \<Rightarrow> hash256 \<Rightarrow> CybouState \<Rightarrow> KVStore \<Rightarrow> bool" where
  "db_ok C nb g0 db \<longleftrightarrow> fresh db \<or> (\<exists>st. live C nb g0 db st)"

definition store_ok :: "crypto \<Rightarrow> VerifiedNetworkGenesis \<Rightarrow> hash256 \<Rightarrow> CybouState \<Rightarrow> KVStore \<Rightarrow> CybouStateStore \<Rightarrow> bool" where
  "store_ok C G nb g0 db s \<longleftrightarrow> ss_network_genesis s = G \<and> ss_network_binding s = nb \<and> detector_ok (ss_detector s)
     \<and> db_ok C nb g0 db \<and> (\<forall>st. ss_snapshot s = Some st \<longrightarrow> live C nb g0 db st)"

lemma db_ok_same_records: "same_records db db' \<Longrightarrow> db_ok C nb g0 db \<Longrightarrow> db_ok C nb g0 db'"
  using live_same_records fresh_same_records unfolding db_ok_def by blast

lemma load_failed_state [simp]: "load_failed e = Inr r \<Longrightarrow> slr_state r = None"
  by (auto simp: load_failed_def)

lemma LoadStateLocked_results:
  "results (\<lambda>r. \<forall>st. slr_state r = Some st \<longrightarrow> (\<exists>bs h. KV_Exists db STATE_KEY = Inr True \<and> KV_Read db STATE_KEY = Inr (Some bs)
     \<and> KV_ReadAs DecodeHash db HASH_KEY = Inr (Some h) \<and> DeserializeCybouState C bs = Some st \<and> CybouStateHash C st True = Some h
     \<and> slr_error r = StateLoadError.NONE)) (LoadStateLocked C s db)"
proof -
  have f: "results (\<lambda>r. \<forall>st. slr_state r = Some st \<longrightarrow> P r st) (load_failed e)" for P e
    by (simp add: results_def load_failed_def)
  show ?thesis unfolding LoadStateLocked_def
    by (rule f results_intros)+ auto
qed

lemma LoadStateLocked_Some:
  assumes "LoadStateLocked C s db = Inr r" and "slr_state r = Some st"
  obtains bs h where "KV_Exists db STATE_KEY = Inr True" "KV_Read db STATE_KEY = Inr (Some bs)" "KV_ReadAs DecodeHash db HASH_KEY = Inr (Some h)"
    "DeserializeCybouState C bs = Some st" "CybouStateHash C st True = Some h" "slr_error r = StateLoadError.NONE"
  using LoadStateLocked_results [of db C s] assms unfolding results_def by blast

lemma LoadStateLocked_live:
  assumes "db_ok C nb g0 db" and "addressable db" and "LoadStateLocked C s db = Inr r" and "slr_state r = Some st"
  shows "live C nb g0 db st"
proof -
  obtain bs where e: "KV_Exists db STATE_KEY = Inr True" and r: "KV_Read db STATE_KEY = Inr (Some bs)" and d: "DeserializeCybouState C bs = Some st"
    using LoadStateLocked_Some [OF assms(3,4)] by metis
  have "\<not> fresh db" using e
    by (auto simp: fresh_def KV_Exists_def ReadRaw_def bindE_Inr_iff intro!: exI [of _ STATE_KEY] split: if_split_asm)
  then obtain st' where l: "live C nb g0 db st'" using assms(1) by (auto simp: db_ok_def)
  then have "DeserializeCybouState C bs = Some st'" using state_read [OF _ _ assms(2) r] by (auto simp: live_def)
  with d l show ?thesis by simp
qed

lemma GetStateSnapshotLocked_ok:
  assumes "store_ok C G nb g0 db s" and "addressable db" and "GetStateSnapshotLocked C db s = (r, s')"
  shows "store_ok C G nb g0 db s'" and "r = Inr l \<Longrightarrow> slr_state l = Some st \<Longrightarrow> live C nb g0 db st"
    and "ss_detector s' = ss_detector s"
proof -
  have "store_ok C G nb g0 db s' \<and> (\<forall>l st. r = Inr l \<longrightarrow> slr_state l = Some st \<longrightarrow> live C nb g0 db st) \<and> ss_detector s' = ss_detector s"
  proof (cases "ss_snapshot s")
    case (Some st)
    then show ?thesis using assms(1,3) by (auto simp: GetStateSnapshotLocked_def store_ok_def)
  next
    case None
    have n: "slr_state l = None" if "load_failed e = Inr l" for e l using that by simp
    show ?thesis
    proof (cases "LoadStateLocked C s db")
      case (Inl e)
      then show ?thesis using assms(1,3) None by (auto simp: GetStateSnapshotLocked_def)
    next
      case (Inr l)
      have "slr_state l = Some st \<Longrightarrow> live C nb g0 db st" for st
        using LoadStateLocked_live [OF _ assms(2) Inr] assms(1) by (simp add: store_ok_def)
      then show ?thesis using assms(1,3) None Inr n
        by (auto simp: GetStateSnapshotLocked_def store_ok_def split: if_split_asm)
    qed
  qed
  then show "store_ok C G nb g0 db s'" and "r = Inr l \<Longrightarrow> slr_state l = Some st \<Longrightarrow> live C nb g0 db st"
    and "ss_detector s' = ss_detector s" by blast+
qed


section \<open>Committing\<close>

definition written :: "kv_batch \<Rightarrow> KVStore \<Rightarrow> KVStore" where
  "written batch db = db \<lparr> kv_data := batch_apply batch (kv_data db) \<rparr>"

lemma WriteBatch_written: "WriteBatch w batch db = (if w = WriteOk then Inr () else Inl runtime_error, if w = WriteLost then db else written batch db)"
  by (cases w) (simp_all add: WriteBatch_def Let_def written_def)

lemma live_update:
  assumes "snapshots_ok C g0 db" and "kv_data db (EncodeString NETWORK_ID_KEY) = Some (EncodeHash nb)"
    and "good_state C g0 next" "SerializeCybouState C next False = Some sb" "CybouStateHash C next False = Some root"
    and "kv_data db' (EncodeString STATE_KEY) = Some (EncodeBytes sb)" "kv_data db' (EncodeString HASH_KEY) = Some (EncodeHash root)"
    and "kv_data db' (EncodeString HEAD_KEY) = Some (EncodeFinalizedHead new_head)"
    and "kv_data db' (EncodeString NETWORK_ID_KEY) = kv_data db (EncodeString NETWORK_ID_KEY)"
    and h: "\<And>h. kv_data db' (EncodeString (StateHeightKey h)) \<in> {kv_data db (EncodeString (StateHeightKey h)), None, Some (EncodeBytes sb)}"
  shows "live C nb g0 db' next"
proof -
  have "kv_data db' (EncodeString (StateHeightKey h)) = None \<or> (\<exists>st. good_state C g0 st \<and> state_at C db' (StateHeightKey h) st)" for h
    using h [of h] assms(1,3,4) unfolding snapshots_ok_def state_at_def by (elim insertE emptyE) (metis | blast)+
  then show ?thesis using assms(2-9) by (auto simp: live_def snapshots_ok_def state_at_def)
qed

lemma same_coreD: "same_core b b' \<Longrightarrow> core_key k \<Longrightarrow> batch_apply b' d (EncodeString k) = batch_apply b d (EncodeString k)"
  by (simp add: same_core_def)

lemma extend_batch_effect:
  assumes "extend_batch C fb i head state root next db = Inr (Inr batch)"
  obtains sb where "SerializeCybouState C (case next of None \<Rightarrow> state | Some st \<Rightarrow> st) False = Some sb"
    "\<And>k. core_key k \<Longrightarrow> batch_apply batch d (EncodeString k) =
      (if blk_height (fb_block fb) > 16 \<and> k = StateHeightKey (blk_height (fb_block fb) - 16) then None
       else if k = HEAD_KEY then Some (EncodeFinalizedHead \<lparr> fh_block_id = i, fh_height = blk_height (fb_block fb) \<rparr>)
       else if k = StateHeightKey (blk_height (fb_block fb)) then Some (EncodeBytes sb)
       else if k = HASH_KEY \<and> next \<noteq> None then Some (EncodeHash root)
       else if k = STATE_KEY \<and> next \<noteq> None then Some (EncodeBytes sb) else d (EncodeString k))"
proof -
  let ?h = "blk_height (fb_block fb)"
  obtain sb where sb: "SerializeCybouState C (case next of None \<Rightarrow> state | Some st \<Rightarrow> st) False = Some sb"
    using assms by (auto simp: extend_batch_def Let_def split: option.split_asm)
  define b1 where "b1 = batch_Put HEAD_KEY (EncodeFinalizedHead \<lparr> fh_block_id = i, fh_height = ?h \<rparr>)
      (case next of None \<Rightarrow> batch_Write (StateHeightKey ?h) sb []
       | Some _ \<Rightarrow> batch_Write (StateHeightKey ?h) sb (batch_Put HASH_KEY (EncodeHash root) (batch_Write STATE_KEY sb [])))"
  have "bindE (SerializeFinalizedBlock C fb) (\<lambda>serialized. case serialized of None \<Rightarrow> Inr (Inl (transition CORRUPT_STATE))
          | Some bs \<Rightarrow> bindE (index_operations_strict C i (blk_operations (fb_block fb))
              (batch_Put (BlockHeightKey ?h) (EncodeHash i) (batch_Write (BlockKey i) bs b1))) (\<lambda>indexed.
            case indexed of None \<Rightarrow> Inr (Inl (transition INVALID_OPERATION))
            | Some b \<Rightarrow> bindE (AppendFinalizedEvents C db fb head None (if ?h > 16 then batch_Erase (StateHeightKey (?h - 16)) b else b))
                (\<lambda>b. Inr (Inr b)))) = Inr (Inr batch)"
    using assms sb unfolding extend_batch_def Let_def b1_def by simp
  then obtain bs b3 where 3: "index_operations_strict C i (blk_operations (fb_block fb))
      (batch_Put (BlockHeightKey ?h) (EncodeHash i) (batch_Write (BlockKey i) bs b1)) = Inr (Some b3)"
    and 4: "AppendFinalizedEvents C db fb head None (if ?h > 16 then batch_Erase (StateHeightKey (?h - 16)) b3 else b3) = Inr batch"
    by (auto simp: bindE_Inr_iff split del: if_split split: option.split_asm)
  have s13: "same_core b1 b3"
    by (rule same_core_trans [OF _ index_operations_strict_core [OF 3]]) (rule same_core_trans [OF same_core_put(2) same_core_put(1)]; simp)
  show thesis
  proof (rule that [OF sb])
    fix k assume k: "core_key k"
    have "batch_apply batch d (EncodeString k) = (if ?h > 16 \<and> k = StateHeightKey (?h - 16) then None else batch_apply b1 d (EncodeString k))"
      using same_coreD [OF AppendFinalizedEvents_core [OF 4] k] same_coreD [OF s13 k] core_key_ok [OF k] by (auto simp: batch_apply_put)
    also have "batch_apply b1 d (EncodeString k) =
      (if k = HEAD_KEY then Some (EncodeFinalizedHead \<lparr> fh_block_id = i, fh_height = ?h \<rparr>)
       else if k = StateHeightKey ?h then Some (EncodeBytes sb)
       else if k = HASH_KEY \<and> next \<noteq> None then Some (EncodeHash root)
       else if k = STATE_KEY \<and> next \<noteq> None then Some (EncodeBytes sb) else d (EncodeString k))"
      using core_key_ok [OF k] by (cases "next") (auto simp: b1_def batch_apply_put)
    finally show "batch_apply batch d (EncodeString k) = (if ?h > 16 \<and> k = StateHeightKey (?h - 16) then None
       else if k = HEAD_KEY then Some (EncodeFinalizedHead \<lparr> fh_block_id = i, fh_height = ?h \<rparr>)
       else if k = StateHeightKey ?h then Some (EncodeBytes sb)
       else if k = HASH_KEY \<and> next \<noteq> None then Some (EncodeHash root)
       else if k = STATE_KEY \<and> next \<noteq> None then Some (EncodeBytes sb) else d (EncodeString k))" .
  qed
qed


lemma reorg_batch_effect:
  assumes "reorg_batch C fb i head old next root db = Inr (Some batch)"
  obtains sb where "SerializeCybouState C next False = Some sb"
    "\<And>k. core_key k \<Longrightarrow> batch_apply batch d (EncodeString k) =
      (if k = HEAD_KEY then Some (EncodeFinalizedHead \<lparr> fh_block_id = i, fh_height = blk_height (fb_block fb) \<rparr>)
       else if k = StateHeightKey (blk_height (fb_block fb)) then Some (EncodeBytes sb)
       else if k = HASH_KEY then Some (EncodeHash root)
       else if k = STATE_KEY then Some (EncodeBytes sb) else d (EncodeString k))"
proof -
  let ?h = "blk_height (fb_block fb)"
  let ?head = "EncodeFinalizedHead \<lparr> fh_block_id = i, fh_height = ?h \<rparr>"
  obtain b0 sb where 0: "index_operations C True i (blk_operations (fb_block old)) [] = Inr b0" and sb: "SerializeCybouState C next False = Some sb"
    using assms by (auto simp: reorg_batch_def Let_def bindE_Inr_iff split: option.split_asm)
  define b1 where "b1 = batch_Put HEAD_KEY ?head (batch_Write (StateHeightKey ?h) sb (batch_Put HASH_KEY (EncodeHash root) (batch_Write STATE_KEY sb b0)))"
  have "bindE (SerializeFinalizedBlock C fb) (\<lambda>serialized. case serialized of None \<Rightarrow> Inr None
          | Some bs \<Rightarrow> bindE (index_operations C False i (blk_operations (fb_block fb))
              (batch_Put (BlockHeightKey ?h) (EncodeHash i) (batch_Write (BlockKey i) bs b1))) (\<lambda>b.
            bindE (AppendFinalizedEvents C db fb head (Some old) b) (\<lambda>b. Inr (Some b)))) = Inr (Some batch)"
    using assms sb 0 unfolding reorg_batch_def Let_def b1_def by simp
  then obtain bs b3 where 3: "index_operations C False i (blk_operations (fb_block fb))
      (batch_Put (BlockHeightKey ?h) (EncodeHash i) (batch_Write (BlockKey i) bs b1)) = Inr b3"
    and 4: "AppendFinalizedEvents C db fb head (Some old) b3 = Inr batch"
    by (auto simp: bindE_Inr_iff split: option.split_asm)
  have "same_core b1 b3"
    by (rule same_core_trans [OF _ index_operations_core [OF 3]]) (rule same_core_trans [OF same_core_put(2) same_core_put(1)]; simp)
  then have s: "same_core b1 batch" using AppendFinalizedEvents_core [OF 4] same_core_trans by blast
  show thesis
  proof (rule that [OF sb])
    fix k assume k: "core_key k"
    show "batch_apply batch d (EncodeString k) = (if k = HEAD_KEY then Some ?head else if k = StateHeightKey ?h then Some (EncodeBytes sb)
       else if k = HASH_KEY then Some (EncodeHash root) else if k = STATE_KEY then Some (EncodeBytes sb) else d (EncodeString k))"
      using same_coreD [OF s k] same_coreD [OF index_operations_core [OF 0] k] core_key_ok [OF k] by (auto simp: b1_def batch_apply_put)
  qed
qed

lemma execution_good:
  assumes "good_state C g0 parent" and "ExecuteBlockOperations C parent ops nb h params key vp = Inr r" and "execution_ok r"
  shows "good_state C g0 (the (ber_state r))" and "CybouStateHash C (the (ber_state r)) False = ber_state_root r"
    and "ber_state r \<noteq> None" and "ber_state_root r \<noteq> None"
  using assms ExecuteBlockOperations_sound [OF _ assms(2)] by (auto simp: execution_ok_def good_state_def)

lemma results_sum:
  "(\<And>a. x = Inl a \<Longrightarrow> results P (f a)) \<Longrightarrow> (\<And>b. x = Inr b \<Longrightarrow> results P (g b)) \<Longrightarrow> results P (case x of Inl a \<Rightarrow> f a | Inr b \<Rightarrow> g b)"
  by (cases x) auto

lemma prepare_extend_parts:
  assumes "prepare_extend C fb i head state db s = Inr (Inr (batch, next))"
  obtains root nx where "extend_state C (fb_block fb) state db s = Inr (Inr (root, nx))" "root = blk_resulting_state_root (fb_block fb)"
    "extend_batch C fb i head state root nx db = Inr (Inr batch)" "next = (case nx of None \<Rightarrow> state | Some st \<Rightarrow> st)"
    "fh_block_id head = blk_parent_block_id (fb_block fb)" "blk_height (fb_block fb) = fh_height head + 1" "fh_height head \<noteq> U64_MAX"
proof -
  have "results (\<lambda>r. \<forall>batch next. r = Inr (batch, next) \<longrightarrow> (\<exists>root nx. extend_state C (fb_block fb) state db s = Inr (Inr (root, nx))
      \<and> root = blk_resulting_state_root (fb_block fb)
      \<and> extend_batch C fb i head state root nx db = Inr (Inr batch) \<and> next = (case nx of None \<Rightarrow> state | Some st \<Rightarrow> st)
      \<and> fh_block_id head = blk_parent_block_id (fb_block fb) \<and> blk_height (fb_block fb) = fh_height head + 1 \<and> fh_height head \<noteq> U64_MAX))
    (prepare_extend C fb i head state db s)"
    unfolding prepare_extend_def Let_def by (intro results_intros results_sum) (auto split: sum.split_asm)
  then show thesis using assms that unfolding results_def by blast
qed

lemma prepare_reorg_parts:
  assumes "prepare_reorg C fb i head db s = Inr (Inr (batch, next))"
  obtains old parent r where "reorg_parent C (fb_block fb) head db = Inr (Inr (old, parent))"
    "ExecuteBlockOperations C parent (blk_operations (fb_block fb)) (ss_network_binding s) (blk_height (fb_block fb)) (ss_params s)
        (Some (ss_poa_key s)) (blk_parent_block_id (fb_block fb)) = Inr r" "execution_ok r" "next = the (ber_state r)"
    "the (ber_state_root r) = blk_resulting_state_root (fb_block fb)"
    "reorg_batch C fb i head old next (the (ber_state_root r)) db = Inr (Some batch)"
proof -
  have "results (\<lambda>x. \<forall>batch next. x = Inr (batch, next) \<longrightarrow> (\<exists>old parent r. reorg_parent C (fb_block fb) head db = Inr (Inr (old, parent))
      \<and> ExecuteBlockOperations C parent (blk_operations (fb_block fb)) (ss_network_binding s) (blk_height (fb_block fb)) (ss_params s)
        (Some (ss_poa_key s)) (blk_parent_block_id (fb_block fb)) = Inr r \<and> execution_ok r \<and> next = the (ber_state r)
      \<and> the (ber_state_root r) = blk_resulting_state_root (fb_block fb)
      \<and> reorg_batch C fb i head old next (the (ber_state_root r)) db = Inr (Some batch)))
    (prepare_reorg C fb i head db s)"
    unfolding prepare_reorg_def Let_def by (intro results_intros results_sum) (auto split: option.split_asm)
  then show thesis using assms that unfolding results_def by blast
qed

lemma reorg_parent_parts:
  assumes "reorg_parent C block head db = Inr (Inr (old, parent))"
  obtains bs where "KV_Read db (StateHeightKey (blk_height block - 1)) = Inr (Some bs)" "DeserializeCybouState C bs = Some parent"
    "GetBlockAtHeight C db (blk_height block) = Inr (Some old)" "fh_height head = blk_height block"
    "blk_parent_block_id (fb_block old) = blk_parent_block_id block"
proof -
  have "results (\<lambda>r. \<forall>old parent. r = Inr (old, parent) \<longrightarrow> (\<exists>bs. KV_Read db (StateHeightKey (blk_height block - 1)) = Inr (Some bs)
      \<and> DeserializeCybouState C bs = Some parent \<and> GetBlockAtHeight C db (blk_height block) = Inr (Some old)
      \<and> fh_height head = blk_height block \<and> blk_parent_block_id (fb_block old) = blk_parent_block_id block)) (reorg_parent C block head db)"
    unfolding reorg_parent_def by (intro results_intros) (auto split: option.split_asm)
  then show thesis using assms that unfolding results_def by blast
qed

lemma prepare_extend_live:
  assumes "prepare_extend C fb i head state db s = Inr (Inr (batch, next))" and l: "live C nb g0 db state"
  shows "live C nb g0 (written batch db) next"
proof -
  let ?h = "blk_height (fb_block fb)"
  obtain root nx where x: "extend_state C (fb_block fb) state db s = Inr (Inr (root, nx))"
    and e: "extend_batch C fb i head state root nx db = Inr (Inr batch)" and n: "next = (case nx of None \<Rightarrow> state | Some st \<Rightarrow> st)"
    using prepare_extend_parts [OF assms(1)] by metis
  obtain sb where sb: "SerializeCybouState C next False = Some sb"
    and eff: "\<And>k. core_key k \<Longrightarrow> batch_apply batch (kv_data db) (EncodeString k) =
      (if ?h > 16 \<and> k = StateHeightKey (?h - 16) then None
       else if k = HEAD_KEY then Some (EncodeFinalizedHead \<lparr> fh_block_id = i, fh_height = ?h \<rparr>)
       else if k = StateHeightKey ?h then Some (EncodeBytes sb)
       else if k = HASH_KEY \<and> nx \<noteq> None then Some (EncodeHash root)
       else if k = STATE_KEY \<and> nx \<noteq> None then Some (EncodeBytes sb) else kv_data db (EncodeString k))"
    using extend_batch_effect [OF e, of "kv_data db"] unfolding n by blast
  have g: "good_state C g0 state" and sn: "snapshots_ok C g0 db" and nw: "kv_data db (EncodeString NETWORK_ID_KEY) = Some (EncodeHash nb)"
    using l by (simp_all add: live_def)
  obtain r0 where r0: "CybouStateHash C state False = Some r0" "kv_data db (EncodeString HASH_KEY) = Some (EncodeHash r0)"
    using l by (auto simp: live_def)
  have st: "nx = None \<Longrightarrow> kv_data db (EncodeString STATE_KEY) = Some (EncodeBytes sb)"
    using l sb n by (auto simp: live_def state_at_def)
  have gn: "good_state C g0 next \<and> CybouStateHash C next False = Some (case nx of None \<Rightarrow> r0 | Some _ \<Rightarrow> root)"
  proof (cases nx)
    case None
    then show ?thesis using g r0(1) n by simp
  next
    case (Some st')
    then obtain r where r: "ExecuteBlockOperations C state (blk_operations (fb_block fb)) (ss_network_binding s) ?h (ss_params s)
        (Some (ss_poa_key s)) (blk_parent_block_id (fb_block fb)) = Inr r" "execution_ok r" "root = the (ber_state_root r)" "ber_state r = Some st'"
      using x by (auto simp: extend_state_def bindE_Inr_iff split: if_split_asm option.split_asm)
    show ?thesis using execution_good [OF g r(1,2)] r(3,4) Some n by auto
  qed
  show ?thesis
    by (rule live_update [OF sn nw conjunct1 [OF gn] sb conjunct2 [OF gn],
        where new_head = "\<lparr> fh_block_id = i, fh_height = ?h \<rparr>"])
      (use eff st r0(2) in \<open>auto simp: written_def split: option.split\<close>)
qed

lemma prepare_reorg_live:
  assumes "prepare_reorg C fb i head db s = Inr (Inr (batch, next))" and l: "live C nb g0 db state" and "addressable db"
  shows "live C nb g0 (written batch db) next"
proof -
  let ?h = "blk_height (fb_block fb)"
  obtain old parent r where p: "reorg_parent C (fb_block fb) head db = Inr (Inr (old, parent))"
    and r: "ExecuteBlockOperations C parent (blk_operations (fb_block fb)) (ss_network_binding s) ?h (ss_params s)
        (Some (ss_poa_key s)) (blk_parent_block_id (fb_block fb)) = Inr r" "execution_ok r" "next = the (ber_state r)"
    and b: "reorg_batch C fb i head old next (the (ber_state_root r)) db = Inr (Some batch)"
    using prepare_reorg_parts [OF assms(1)] by metis
  obtain bs where rd: "KV_Read db (StateHeightKey (?h - 1)) = Inr (Some bs)" "DeserializeCybouState C bs = Some parent"
    using reorg_parent_parts [OF p] by metis
  have sn: "snapshots_ok C g0 db" and nw: "kv_data db (EncodeString NETWORK_ID_KEY) = Some (EncodeHash nb)"
    using l by (simp_all add: live_def)
  have "kv_data db (EncodeString (StateHeightKey (?h - 1))) \<noteq> None"
    using rd(1) by (auto simp: KV_Read_def ReadRaw_def bindE_Inr_iff split: if_split_asm option.split_asm)
  then obtain st' where "good_state C g0 st'" "state_at C db (StateHeightKey (?h - 1)) st'"
    using sn [unfolded snapshots_ok_def, rule_format, of "?h - 1"] by auto
  then have g: "good_state C g0 parent" using state_read [OF _ _ assms(3) rd(1)] rd(2) by fastforce
  note x = execution_good [OF g r(1,2)]
  obtain sb where sb: "SerializeCybouState C next False = Some sb"
    and eff: "\<And>k. core_key k \<Longrightarrow> batch_apply batch (kv_data db) (EncodeString k) =
      (if k = HEAD_KEY then Some (EncodeFinalizedHead \<lparr> fh_block_id = i, fh_height = ?h \<rparr>)
       else if k = StateHeightKey ?h then Some (EncodeBytes sb)
       else if k = HASH_KEY then Some (EncodeHash (the (ber_state_root r)))
       else if k = STATE_KEY then Some (EncodeBytes sb) else kv_data db (EncodeString k))"
    using reorg_batch_effect [OF b, of "kv_data db"] by blast
  have gn: "good_state C g0 next" "CybouStateHash C next False = Some (the (ber_state_root r))" using x r(3) by auto
  show ?thesis
    by (rule live_update [OF sn nw gn(1) sb gn(2), where new_head = "\<lparr> fh_block_id = i, fh_height = ?h \<rparr>"])
      (use eff in \<open>auto simp: written_def\<close>)
qed


lemma InitializeGenesis_ok:
  assumes ok: "store_ok C G nb g0 db s" and wf: "maps_wf g0" and i: "InitializeGenesis C w g0 db s = (r, db', s')"
  shows "db_ok C nb g0 db'" and "w \<noteq> WriteApplied \<Longrightarrow> store_ok C G nb g0 db' s'"
proof -
  let ?head = "\<lparr> fh_block_id = vg_genesis_digest (ss_network_genesis s), fh_height = 0 \<rparr>"
  have "(db' = db \<and> s' = s) \<or> (\<exists>hash sb. CybouStateHash C g0 True = Some hash \<and> SerializeCybouState C g0 True = Some sb \<and> fresh db
      \<and> (let batch = batch_Put EVENTS_HEAD_KEY (EncodeBytes (EncodeFinalizedHead ?head)) (batch_Write (StateHeightKey 0) sb
            (batch_Put NETWORK_ID_KEY (EncodeHash nb) (batch_Put HEAD_KEY (EncodeFinalizedHead ?head)
            (batch_Put HASH_KEY (EncodeHash hash) (batch_Write STATE_KEY sb [])))))
         in db' = (if w = WriteLost then db else written batch db) \<and> s' = (if w = WriteOk then s \<lparr> ss_snapshot := Some g0 \<rparr> else s)))"
  proof (cases "fresh db")
    case True
    then show ?thesis using i ok
      by (auto simp: InitializeGenesis_def Let_def WriteBatch_written store_ok_def split: sum.split_asm bool.split_asm option.split_asm if_split_asm)
  next
    case False
    then obtain st where l: "live C nb g0 db st" using ok by (auto simp: store_ok_def db_ok_def)
    then have "KV_Exists db STATE_KEY \<noteq> Inr False" by (auto simp: live_def state_at_def KV_Exists_def ReadRaw_def)
    then show ?thesis using i
      by (cases "KV_Exists db STATE_KEY") (auto simp: InitializeGenesis_def split: bool.split_asm)
  qed
  then consider "db' = db" "s' = s" | hash sb batch where "CybouStateHash C g0 True = Some hash" "SerializeCybouState C g0 True = Some sb" "fresh db"
      "batch = batch_Put EVENTS_HEAD_KEY (EncodeBytes (EncodeFinalizedHead ?head)) (batch_Write (StateHeightKey 0) sb
            (batch_Put NETWORK_ID_KEY (EncodeHash nb) (batch_Put HEAD_KEY (EncodeFinalizedHead ?head)
            (batch_Put HASH_KEY (EncodeHash hash) (batch_Write STATE_KEY sb [])))))"
      "db' = (if w = WriteLost then db else written batch db)" "s' = (if w = WriteOk then s \<lparr> ss_snapshot := Some g0 \<rparr> else s)"
    unfolding Let_def by blast
  then have "db_ok C nb g0 db' \<and> (w \<noteq> WriteApplied \<longrightarrow> store_ok C G nb g0 db' s')"
  proof cases
    case 1
    then show ?thesis using ok by (simp add: store_ok_def)
  next
    case 2
    have v: "ValidateCybouState C g0 = StateValidationError.NONE" using 2(2) by (auto simp: SerializeCybouState_def split: if_split_asm)
    then have f: "SerializeCybouState C g0 False = Some sb" "CybouStateHash C g0 False = Some hash"
      using 2(1,2) by (simp_all add: SerializeCybouState_def CybouStateHash_def)
    have w: "kv_data (written batch db) (EncodeString k) =
      (if k = STATE_KEY \<or> k = StateHeightKey 0 then Some (EncodeBytes sb) else if k = HASH_KEY then Some (EncodeHash hash)
       else if k = HEAD_KEY then Some (EncodeFinalizedHead ?head) else if k = NETWORK_ID_KEY then Some (EncodeHash nb) else None)"
      if k: "core_key k" for k
      using core_key_ok [OF k] k 2(3) by (auto simp: written_def 2(4) batch_apply_put fresh_def)
    have "kv_data (written batch db) (EncodeString (StateHeightKey h)) = None \<or> (\<exists>st. good_state C g0 st \<and> state_at C (written batch db) (StateHeightKey h) st)" for h
      using f v wf by (auto simp: w state_at_def good_state_def)
    then have l: "live C nb g0 (written batch db) g0"
      using f v wf by (auto simp: live_def good_state_def state_at_def snapshots_ok_def w)
    show ?thesis using ok 2(3,5,6) l by (cases w) (auto simp: store_ok_def db_ok_def)
  qed
  then show "db_ok C nb g0 db'" and "w \<noteq> WriteApplied \<Longrightarrow> store_ok C G nb g0 db' s'" by blast+
qed

lemma commit_batch_ok:
  assumes ok: "store_ok C G nb g0 db s" and p: "\<And>batch next. prepared = Inr (Inr (batch, next)) \<Longrightarrow> live C nb g0 (written batch db) next"
    and c: "commit_batch w prepared db s = (r, db', s')"
  shows "db_ok C nb g0 db'" and "w \<noteq> WriteApplied \<Longrightarrow> store_ok C G nb g0 db' s'"
proof -
  have "(db' = db \<and> s' = s) \<or> (\<exists>batch next. prepared = Inr (Inr (batch, next)) \<and> db' = (if w = WriteLost then db else written batch db)
      \<and> s' = (if w = WriteOk then s \<lparr> ss_snapshot := Some next \<rparr> else s))"
    using c by (auto simp: commit_batch_def WriteBatch_written split: sum.split_asm if_split_asm)
  then have "db_ok C nb g0 db' \<and> (w \<noteq> WriteApplied \<longrightarrow> store_ok C G nb g0 db' s')"
    using ok p by (cases w) (auto simp: store_ok_def db_ok_def)
  then show "db_ok C nb g0 db'" and "w \<noteq> WriteApplied \<Longrightarrow> store_ok C G nb g0 db' s'" by blast+
qed

lemma store_ok_observed:
  assumes "store_ok C G nb g0 db s" and "contained (ss_detector s) db (r, db', d)"
  shows "store_ok C G nb g0 db' (s \<lparr> ss_detector := d \<rparr>)"
  using assms live_same_records [of db db'] db_ok_same_records [of db db']
  by (auto simp: store_ok_def contained_def detector_ok_def)

lemma CommitFinalizedBlock_ok:
  assumes ok: "store_ok C G nb g0 db s" and a: "addressable db" "\<And>r db' d. Observe C w1 w2 (fb_certificate fb) (fb_block fb) db (ss_detector s) = (r, db', d) \<Longrightarrow> addressable db'"
    and c: "CommitFinalizedBlock C w1 w2 w3 fb db s = (r, db', s')"
  shows "db_ok C nb g0 db'" and "w3 \<noteq> WriteApplied \<Longrightarrow> store_ok C G nb g0 db' s'"
proof -
  obtain g s1 where g: "GetStateSnapshotLocked C db s = (g, s1)" by (metis prod.exhaust)
  note l = GetStateSnapshotLocked_ok [OF ok a(1) g]
  obtain ob db1 d1 where o: "Observe C w1 w2 (fb_certificate fb) (fb_block fb) db (ss_detector s1) = (ob, db1, d1)" by (metis prod.exhaust)
  have a1: "addressable db1" using a(2) o l(3) by simp
  have "contained (ss_detector s1) db (ob, db1, d1)"
    using Observe_contained [of "ss_detector s1" db C w1 w2] l(1) o by (metis store_ok_def)
  from store_ok_observed [OF l(1) this] have ok1: "store_ok C G nb g0 db1 (s1 \<lparr> ss_detector := d1 \<rparr>)" .
  let ?s2 = "s1 \<lparr> ss_detector := d1 \<rparr>"
  have "(db' = db \<and> s' = s1) \<or> (db' = db1 \<and> s' = ?s2)
      \<or> (\<exists>ld state i head status. g = Inr ld \<and> slr_state ld = Some state
          \<and> commit_batch w3 (if status = CANONICAL_REORG_REQUIRED then prepare_reorg C fb i head db1 ?s2
                else prepare_extend C fb i head state db1 ?s2) db1 ?s2 = (r, db', s'))"
    using c g o
    by (auto simp: CommitFinalizedBlock_def Let_def split: sum.split_asm option.split_asm if_split_asm) blast+
  then consider "db' = db" "s' = s1" | "db' = db1" "s' = ?s2"
    | ld state i head status where "g = Inr ld" "slr_state ld = Some state"
      "commit_batch w3 (if status = CANONICAL_REORG_REQUIRED then prepare_reorg C fb i head db1 ?s2
                else prepare_extend C fb i head state db1 ?s2) db1 ?s2 = (r, db', s')" by blast
  then have "db_ok C nb g0 db' \<and> (w3 \<noteq> WriteApplied \<longrightarrow> store_ok C G nb g0 db' s')"
  proof cases
    case 1
    then show ?thesis using l(1) by (simp add: store_ok_def)
  next
    case 2
    then show ?thesis using ok1 by (simp add: store_ok_def)
  next
    case 3
    have "same_records db db1" using \<open>contained (ss_detector s1) db (ob, db1, d1)\<close> by (simp add: contained_def)
    from live_same_records [OF this l(2) [OF 3(1,2)]] have st: "live C nb g0 db1 state" .
    have "live C nb g0 (written batch db1) next"
      if "(if status = CANONICAL_REORG_REQUIRED then prepare_reorg C fb i head db1 ?s2 else prepare_extend C fb i head state db1 ?s2)
        = Inr (Inr (batch, next))" for batch "next"
      using that prepare_reorg_live [OF _ st a1] prepare_extend_live [OF _ st] by (cases "status = CANONICAL_REORG_REQUIRED") auto
    from commit_batch_ok [OF ok1 this 3(3)] show ?thesis by blast
  qed
  then show "db_ok C nb g0 db'" and "w3 \<noteq> WriteApplied \<Longrightarrow> store_ok C G nb g0 db' s'" by blast+
qed



section \<open>Histories\<close>

text \<open>
  A node is the database and, while the process runs, the store object. A batch whose write failed but reached the log
  (\<open>WriteApplied\<close>) is seen only after the database was opened again, so such a failure ends the process. Other components write
  other keys of the same database, and reads may start or stop failing at any time.
\<close>

record store_node =
  sn_db :: KVStore
  sn_store :: "CybouStateStore option"

inductive store_step :: "crypto \<Rightarrow> VerifiedNetworkGenesis \<Rightarrow> CybouState \<Rightarrow> store_node \<Rightarrow> store_node \<Rightarrow> bool" for C G g0 where
  start: "sn_store n = None \<Longrightarrow> new_store C w G (sn_db n) = (r, db') \<Longrightarrow> addressable db' \<Longrightarrow>
    store_step C G g0 n \<lparr> sn_db = db', sn_store = (case r of Inl _ \<Rightarrow> None | Inr s \<Rightarrow> Some s) \<rparr>"
| crash: "store_step C G g0 n (n \<lparr> sn_store := None \<rparr>)"
| initialize: "sn_store n = Some s \<Longrightarrow> InitializeGenesis C w g0 (sn_db n) s = (r, db', s') \<Longrightarrow> addressable db' \<Longrightarrow>
    store_step C G g0 n \<lparr> sn_db = db', sn_store = (if w = WriteApplied then None else Some s') \<rparr>"
| commit: "sn_store n = Some s \<Longrightarrow> CommitFinalizedBlock C w1 w2 w3 fb (sn_db n) s = (r, db', s') \<Longrightarrow> addressable db' \<Longrightarrow>
    (\<forall>r db1 d. Observe C w1 w2 (fb_certificate fb) (fb_block fb) (sn_db n) (ss_detector s) = (r, db1, d) \<longrightarrow> addressable db1) \<Longrightarrow>
    store_step C G g0 n \<lparr> sn_db = db', sn_store = (if w3 = WriteApplied then None else Some s') \<rparr>"
| snapshot: "sn_store n = Some s \<Longrightarrow> GetStateSnapshot C (sn_db n) s = (r, s') \<Longrightarrow> store_step C G g0 n (n \<lparr> sn_store := Some s' \<rparr>)"
| candidate: "sn_store n = Some s \<Longrightarrow> ComputeCandidateStateRoot C ops h (sn_db n) s = (r, s') \<Longrightarrow>
    store_step C G g0 n (n \<lparr> sn_store := Some s' \<rparr>)"
| others: "same_records (sn_db n) db' \<Longrightarrow> addressable db' \<Longrightarrow> store_step C G g0 n (n \<lparr> sn_db := db' \<rparr>)"

definition node_ok :: "crypto \<Rightarrow> VerifiedNetworkGenesis \<Rightarrow> hash256 \<Rightarrow> CybouState \<Rightarrow> store_node \<Rightarrow> bool" where
  "node_ok C G nb g0 n \<longleftrightarrow> addressable (sn_db n) \<and> db_ok C nb g0 (sn_db n)
     \<and> (\<forall>s. sn_store n = Some s \<longrightarrow> store_ok C G nb g0 (sn_db n) s)"

lemma new_store_ok:
  assumes "new_store C w G db = (r, db')" and "ComputeNetworkBinding C (ng_network_public_key (vg_genesis G)) = Inr nb"
    and "db_ok C nb g0 db"
  shows "db_ok C nb g0 db'" and "r = Inr s \<Longrightarrow> store_ok C G nb g0 db' s"
proof -
  obtain rd db1 where o: "open_detector C w nb (ng_poa_finalizer_public_key (vg_genesis G)) db = (rd, db1)" by (metis prod.exhaust)
  note c = open_detector_contained [OF o]
  have db: "db' = db1" and r: "r = (case rd of Inl e \<Rightarrow> Inl e | Inr d \<Rightarrow> Inr \<lparr> ss_network_genesis = G, ss_network_binding = nb, ss_snapshot = None, ss_detector = d \<rparr>)"
    using assms(1,2) o by (auto simp: new_store_def split: sum.split_asm)
  show d: "db_ok C nb g0 db'" using db_ok_same_records [OF c(1) assms(3)] db by simp
  show "r = Inr s \<Longrightarrow> store_ok C G nb g0 db' s"
    using c(2) d r by (auto simp: store_ok_def split: sum.split_asm)
qed

lemma ComputeCandidateStateRoot_store:
  "ComputeCandidateStateRoot C ops h db s = (r, s') \<Longrightarrow> s' = snd (GetStateSnapshotLocked C db s)"
  by (auto simp: ComputeCandidateStateRoot_def split: prod.split_asm sum.split_asm)

lemma store_step_ok:
  assumes "store_step C G g0 n n'" and ok: "node_ok C G nb g0 n" and wf: "maps_wf g0"
    and nb: "ComputeNetworkBinding C (ng_network_public_key (vg_genesis G)) = Inr nb"
  shows "node_ok C G nb g0 n'"
  using assms(1)
proof cases
  case (start w r db')
  have "db_ok C nb g0 db'" "r = Inr s \<Longrightarrow> store_ok C G nb g0 db' s" for s
    using ok new_store_ok [OF start(3) nb] by (simp_all add: node_ok_def)
  then show ?thesis using start(1,4) by (cases r) (simp_all add: node_ok_def)
next
  case crash
  then show ?thesis using ok by (simp add: node_ok_def)
next
  case (initialize s w r db' s')
  have "db_ok C nb g0 db'" "w \<noteq> WriteApplied \<Longrightarrow> store_ok C G nb g0 db' s'"
    using ok initialize(2) InitializeGenesis_ok [OF _ wf initialize(3), of G nb] by (simp_all add: node_ok_def)
  then show ?thesis using initialize(1,4) by (simp add: node_ok_def)
next
  case (commit s w1 w2 w3 fb r db' s')
  have "store_ok C G nb g0 (sn_db n) s" "addressable (sn_db n)" using ok commit(2) by (simp_all add: node_ok_def)
  from CommitFinalizedBlock_ok [OF this _ commit(3)] commit(5)
  have "db_ok C nb g0 db'" "w3 \<noteq> WriteApplied \<Longrightarrow> store_ok C G nb g0 db' s'" by blast+
  then show ?thesis using commit(1,4) by (simp add: node_ok_def)
next
  case (snapshot s r s')
  then show ?thesis using ok GetStateSnapshotLocked_ok(1) [OF _ _ snapshot(3) [unfolded GetStateSnapshot_def]] by (auto simp: node_ok_def)
next
  case (candidate s ops h r s')
  have "store_ok C G nb g0 (sn_db n) s'"
    using ok candidate(2) ComputeCandidateStateRoot_store [OF candidate(3)] GetStateSnapshotLocked_ok(1) [of C G nb g0 "sn_db n" s]
    by (cases "GetStateSnapshotLocked C (sn_db n) s") (auto simp: node_ok_def)
  then show ?thesis using ok candidate(1) by (simp add: node_ok_def)
next
  case (others db')
  have "db_ok C nb g0 db'" using ok db_ok_same_records [OF others(2)] by (simp add: node_ok_def)
  moreover have "store_ok C G nb g0 db' s" if "sn_store n = Some s" for s
    using ok that \<open>db_ok C nb g0 db'\<close> live_same_records [OF others(2)] unfolding node_ok_def store_ok_def by blast
  ultimately show ?thesis using others(1,3) by (simp add: node_ok_def)
qed

lemma store_reachable_ok:
  assumes "(store_step C G g0)\<^sup>*\<^sup>* \<lparr> sn_db = db, sn_store = None \<rparr> n" and "fresh db" "addressable db" "maps_wf g0"
    and "ComputeNetworkBinding C (ng_network_public_key (vg_genesis G)) = Inr nb"
  shows "node_ok C G nb g0 n"
  using assms(1)
proof induction
  case base
  then show ?case using assms(2,3) by (simp add: node_ok_def db_ok_def)
next
  case (step m n)
  then show ?case using store_step_ok assms(4,5) by blast
qed

lemma valid_hash: "good_state C g0 st \<Longrightarrow> CybouStateHash C st True = CybouStateHash C st False \<and> SerializeCybouState C st True = SerializeCybouState C st False"
  by (simp add: good_state_def CybouStateHash_def SerializeCybouState_def)

text \<open>What a restarted process reads: the state, unless its record exceeds the largest record that can be read.\<close>

definition readable :: "KVStore \<Rightarrow> bool" where
  "readable db \<longleftrightarrow> list_all (\<lambda>k. \<not> kv_unreadable db (EncodeString k)) [STATE_KEY, HASH_KEY, HEAD_KEY, NETWORK_ID_KEY]"

lemma reload:
  assumes l: "live C nb g0 db st" and a: "addressable db" and r: "readable db" and s: "ss_network_binding s = nb"
    and b: "SerializeCybouState C st False = Some bs"
  shows "LoadState C s db = Inr (if length bs \<le> MAX_LOCAL_RECORD then \<lparr> slr_error = StateLoadError.NONE, slr_state = Some st \<rparr>
     else \<lparr> slr_error = StateLoadError.CORRUPT, slr_state = None \<rparr>)"
proof -
  obtain root head where k: "kv_data db (EncodeString STATE_KEY) = Some (EncodeBytes bs)" "kv_data db (EncodeString HASH_KEY) = Some (EncodeHash root)"
    "kv_data db (EncodeString HEAD_KEY) = Some (EncodeFinalizedHead head)" "kv_data db (EncodeString NETWORK_ID_KEY) = Some (EncodeHash nb)"
    and h: "CybouStateHash C st False = Some root" and g: "good_state C g0 st"
    using l b by (auto simp: live_def state_at_def)
  have "length bs \<le> length (EncodeBytes bs)" by (simp add: EncodeBytes_def)
  then have "length bs < 2 ^ 64" using a k(1) by (fastforce simp: addressable_def)
  then have rd: "KV_Read db STATE_KEY = Inr (if length bs \<le> MAX_LOCAL_RECORD then Some bs else None)"
    using r k(1) DecodeBytes_EncodeBytes [of bs] by (simp add: KV_Read_def ReadRaw_def readable_def)
  have e: "KV_Exists db STATE_KEY = Inr True" "KV_Exists db HASH_KEY = Inr True" "KV_Exists db HEAD_KEY = Inr True"
    "KV_Exists db NETWORK_ID_KEY = Inr True" "GetStoredNetworkBinding db = Inr (Some nb)" "KV_ReadAs DecodeHash db HASH_KEY = Inr (Some root)"
    using r k hash_record.dec_enc
    by (simp_all add: KV_Exists_def KV_ReadAs_def GetStoredNetworkBinding_def ReadRaw_def readable_def)
  show ?thesis
  proof (cases "length bs \<le> MAX_LOCAL_RECORD")
    case True
    then have "DeserializeCybouState C bs = Some st" using state_read [OF _ g a] l rd by (auto simp: live_def)
    then show ?thesis using True e rd s h valid_hash [OF g] by (simp add: LoadState_def LoadStateLocked_def)
  next
    case False
    then show ?thesis using e rd s by (simp add: LoadState_def LoadStateLocked_def load_failed_def)
  qed
qed

end
