(* ===== verification/StoreCommit.thy ===== *)
theory StoreCommit
  imports StoreHistory
begin

text \<open>
  The store and the finalizer agree: the shortcut for empty blocks gives what execution gives, and a block built from the candidate
  root of the store is committed by it.
\<close>

section \<open>The empty block\<close>

lemma expire_commits_none:
  assumes "\<not> expires_name params h st"
  shows "expire_commits h params st = st"
proof -
  have "filter (\<lambda>(c, r). \<not> (h > ncr_commit_height r \<and> h - ncr_commit_height r > name_commit_max_lifetime params)) (pending_commits (names st))
      = pending_commits (names st)" if "name_commit_max_lifetime params > 0"
    using assms that by (auto simp: filter_id_conv expires_name_def list_ex_iff)
  then show ?thesis by (simp add: expire_commits_def)
qed

lemma empty_block_execution:
  assumes "ValidateCybouState C st = StateValidationError.NONE" and "\<not> expires_name params h st" and "CybouStateHash C st False = Some root"
  shows "ExecuteBlockOperations C st [] nb h params key vp = Inr (empty_result \<lparr> ber_state := Some st, ber_state_root := Some root \<rparr>)"
  using assms by (simp add: ExecuteBlockOperations_def new_executor_def Let_def expire_commits_none Finalize_def)

lemma live_root:
  assumes "live C nb g0 db st" and "GetStateRoot db = Inr r"
  shows "r = CybouStateHash C st False \<and> r \<noteq> None"
proof -
  obtain root where "CybouStateHash C st False = Some root" "kv_data db (EncodeString HASH_KEY) = Some (EncodeHash root)"
    using assms(1) by (auto simp: live_def)
  moreover from this have "r = Some root"
    using assms(2) by (auto simp: GetStateRoot_def KV_ReadAs_def ReadRaw_def bindE_Inr_iff hash_record.dec_enc split: if_split_asm)
  ultimately show ?thesis by simp
qed

lemma snapshot_kept:
  assumes "GetStateSnapshotLocked C db s = (Inr \<lparr> slr_error = e, slr_state = Some st \<rparr>, s')"
  shows "ss_snapshot s' = Some st"
proof (cases "ss_snapshot s")
  case (Some t)
  then show ?thesis using assms by (simp add: GetStateSnapshotLocked_def)
next
  case None
  then obtain l where l: "LoadStateLocked C s db = Inr l"
    using assms by (cases "LoadStateLocked C s db") (simp_all add: GetStateSnapshotLocked_def)
  show ?thesis
  proof (cases "slr_error l = StateLoadError.NONE \<and> slr_state l \<noteq> None")
    case True
    then have "GetStateSnapshotLocked C db s = (Inr l, s \<lparr> ss_snapshot := slr_state l \<rparr>)" using None l by (simp add: GetStateSnapshotLocked_def)
    then have e: "Inr l = (Inr \<lparr> slr_error = e, slr_state = Some st \<rparr> :: exn + StateLoadResult)" "s' = s \<lparr> ss_snapshot := slr_state l \<rparr>"
      using assms by (metis prod.inject)+
    from e(1) have "slr_state l = Some st" by simp
    then show ?thesis by (simp add: e(2))
  next
    case False
    then have "GetStateSnapshotLocked C db s = (load_failed (slr_error l), s)" using None l by (simp only: GetStateSnapshotLocked_def option.case sum.case if_False)
    then have "load_failed (slr_error l) = Inr \<lparr> slr_error = e, slr_state = Some st \<rparr>" using assms by (metis prod.inject)
    from load_failed_state [OF this] show ?thesis by simp
  qed
qed

lemma live_canonical:
  assumes "live C nb g0 db st"
  shows "CybouStateHash C st True = CybouStateHash C st False" "SerializeCybouState C st True = SerializeCybouState C st False"
  using assms valid_hash [of C g0 st] by (auto simp: live_def)

text \<open>What a successful candidate computation says: the state in use, and its execution.\<close>

lemma candidate_execution:
  assumes ok: "store_ok C G nb g0 db s" "addressable db" and c: "ComputeCandidateStateRoot C ops h db s = (Inr (Some root), s')"
  obtains st head execution where "GetStateSnapshotLocked C db s = (Inr \<lparr> slr_error = StateLoadError.NONE, slr_state = Some st \<rparr>, s')"
    "live C nb g0 db st" "GetFinalizedHead db = Inr (Some head)" "h = fh_height head + 1" "h \<noteq> 0"
    "ExecuteBlockOperations C st ops nb h (ng_protocol_parameters (vg_genesis G)) (Some (ng_poa_finalizer_public_key (vg_genesis G)))
       (fh_block_id head) = Inr execution" "execution_ok execution" "ber_state_root execution = Some root"
proof -
  obtain l s1 where g: "GetStateSnapshotLocked C db s = (Inr l, s1)"
    using c by (auto simp: ComputeCandidateStateRoot_def split: prod.split_asm sum.split_asm)
  note k = GetStateSnapshotLocked_ok [OF ok g]
  have b: "ss_network_binding s1 = nb" "ss_network_genesis s1 = G" using k(1) by (simp_all add: store_ok_def)
  let ?P = "ss_params s1" and ?K = "Some (ss_poa_key s1)"
  have s1: "s1 = s'" and "results (\<lambda>r. \<forall>root. r = Some root \<longrightarrow> (\<exists>st head. slr_state l = Some st \<and> GetFinalizedHead db = Inr (Some head)
      \<and> slr_error l = StateLoadError.NONE \<and> h = fh_height head + 1 \<and> h \<noteq> 0
      \<and> (if ops = [] \<and> \<not> expires_name ?P h st then GetStateRoot db = Inr r
         else \<exists>e. ExecuteBlockOperations C st ops nb h ?P ?K (fh_block_id head) = Inr e \<and> execution_ok e \<and> ber_state_root e = r)))
     (fst (ComputeCandidateStateRoot C ops h db s))"
  proof -
    show "s1 = s'" using c g by (simp add: ComputeCandidateStateRoot_def)
    show "results (\<lambda>r. \<forall>root. r = Some root \<longrightarrow> (\<exists>st head. slr_state l = Some st \<and> GetFinalizedHead db = Inr (Some head)
      \<and> slr_error l = StateLoadError.NONE \<and> h = fh_height head + 1 \<and> h \<noteq> 0
      \<and> (if ops = [] \<and> \<not> expires_name ?P h st then GetStateRoot db = Inr r
         else \<exists>e. ExecuteBlockOperations C st ops nb h ?P ?K (fh_block_id head) = Inr e \<and> execution_ok e \<and> ber_state_root e = r)))
     (fst (ComputeCandidateStateRoot C ops h db s))"
      using b by (auto simp: ComputeCandidateStateRoot_def g results_def bindE_Inr_iff split: option.split_asm if_split_asm)
  qed
  then obtain st head where st: "slr_state l = Some st" "GetFinalizedHead db = Inr (Some head)" "slr_error l = StateLoadError.NONE"
      "h = fh_height head + 1" "h \<noteq> 0"
    and e: "if ops = [] \<and> \<not> expires_name ?P h st then GetStateRoot db = Inr (Some root)
         else \<exists>e. ExecuteBlockOperations C st ops nb h ?P ?K (fh_block_id head) = Inr e \<and> execution_ok e \<and> ber_state_root e = Some root"
    using c unfolding results_def by (metis fst_conv)
  have lv: "live C nb g0 db st" by (rule k(2) [OF HOL.refl st(1)])
  have "\<exists>e. ExecuteBlockOperations C st ops nb h ?P ?K (fh_block_id head) = Inr e \<and> execution_ok e \<and> ber_state_root e = Some root"
  proof (cases "ops = [] \<and> \<not> expires_name ?P h st")
    case True
    then have "CybouStateHash C st False = Some root" using e live_root [OF lv] by simp
    with True lv show ?thesis using empty_block_execution [of C st ?P h root nb ?K "fh_block_id head"]
      by (auto simp: live_def good_state_def execution_ok_def empty_result_def)
  next
    case False
    then show ?thesis using e by (simp only: if_False)
  qed
  moreover have "l = \<lparr> slr_error = StateLoadError.NONE, slr_state = Some st \<rparr>" using st(1,3) by simp
  ultimately show thesis using that g s1 lv st b by blast
qed


section \<open>A candidate commits\<close>

definition operation_identified :: "crypto \<Rightarrow> ProtocolOperation \<Rightarrow> bool" where
  "operation_identified C op \<longleftrightarrow> (case ComputeOperationId C op of Inr (Some i) \<Rightarrow> i \<noteq> 0 | _ \<Rightarrow> False)"

lemma operation_identified_iff: "operation_identified C op \<longleftrightarrow> (\<exists>i. ComputeOperationId C op = Inr (Some i) \<and> i \<noteq> 0)"
  by (auto simp: operation_identified_def split: sum.split option.split)

lemma index_operations_strict_total:
  "list_all (operation_identified C) ops \<Longrightarrow> \<exists>b'. index_operations_strict C i ops b = Inr (Some b')"
  by (induction ops arbitrary: b) (auto simp: operation_identified_iff)

lemma write_operation_events_total:
  "list_all (operation_identified C) ops \<Longrightarrow> \<exists>b'. write_operation_events C erase h i n ops b = Inr b'"
  by (induction ops arbitrary: b n) (auto simp: operation_identified_iff Let_def)

lemma AppendFinalizedEvents_total:
  assumes "list_all (operation_identified C) (blk_operations (fb_block fb))" and "ComputeBlockId C (fb_block fb) = Inr i"
    and "\<not> kv_unreadable db (EncodeString EVENTS_HEAD_KEY)"
  shows "\<exists>b'. AppendFinalizedEvents C db fb head None b = Inr b'"
proof -
  obtain b1 where "write_operation_events C False (blk_height (fb_block fb)) i 0 (blk_operations (fb_block fb)) b = Inr b1"
    using write_operation_events_total [OF assms(1)] by blast
  moreover obtain m where "KV_Read db EVENTS_HEAD_KEY = Inr m"
    using assms(3) by (cases "kv_data db (EncodeString EVENTS_HEAD_KEY)") (simp_all add: KV_Read_def ReadRaw_def)
  ultimately show ?thesis using assms(2) by (auto simp: AppendFinalizedEvents_def WriteEvents_def Let_def)
qed

lemma hash_serializes: "CybouStateHash C st v = Some root \<Longrightarrow> \<exists>bs. SerializeCybouState C st v = Some bs"
  by (auto simp: CybouStateHash_def split: option.split_asm)

lemma extend_state_candidate:
  assumes l: "live C nb g0 db st" and r: "\<not> kv_unreadable db (EncodeString HASH_KEY)"
    and e: "ExecuteBlockOperations C st (blk_operations block) (ss_network_binding s) (blk_height block) (ss_params s) (Some (ss_poa_key s))
       (blk_parent_block_id block) = Inr execution" "execution_ok execution" "ber_state_root execution = Some root"
  obtains nx where "extend_state C block st db s = Inr (Inr (root, nx))" "nx \<noteq> None \<Longrightarrow> nx = ber_state execution"
    "CybouStateHash C (case nx of None \<Rightarrow> st | Some t \<Rightarrow> t) False = Some root"
proof (cases "blk_operations block = [] \<and> \<not> expires_name (ss_params s) (blk_height block) st")
  case True
  obtain r0 where r0: "CybouStateHash C st False = Some r0" "kv_data db (EncodeString HASH_KEY) = Some (EncodeHash r0)"
    using l by (auto simp: live_def)
  have "GetStateRoot db = Inr (Some r0)" using r r0(2) hash_record.dec_enc by (simp add: GetStateRoot_def KV_ReadAs_def ReadRaw_def)
  moreover have "r0 = root"
    using empty_block_execution [OF _ _ r0(1)] True l e by (auto simp: live_def good_state_def)
  ultimately show thesis using that [of None] True r0(1) by (simp add: extend_state_def)
next
  case False
  have g: "good_state C g0 st" using l by (simp add: live_def)
  note x = execution_good [OF g e(1,2)]
  then obtain t where "ber_state execution = Some t" by blast
  then show thesis using that [of "Some t"] False e x(2) by (auto simp: extend_state_def)
qed

lemma verified_block_serializes:
  assumes "VerifyPoaCertificateForBlock C c key nb (fb_block fb) = Inr True" and "c = fb_certificate fb"
  obtains bs i where "SerializeFinalizedBlock C fb = Inr (Some bs)" "ComputeBlockId C (fb_block fb) = Inr i" "i \<noteq> 0"
    "pfc_network_binding c = nb" "pfc_block_id c = i" "pfc_height c = blk_height (fb_block fb)"
    "pfc_parent_block_id c = blk_parent_block_id (fb_block fb)"
proof -
  obtain bb i where b: "SerializeBlock C (fb_block fb) = Inr (Some bb)" "ComputeBlockId C (fb_block fb) = Inr i" "i \<noteq> 0"
    and v: "VerifyPoaFinalityCertificate C c key nb i (blk_height (fb_block fb)) (blk_parent_block_id (fb_block fb)) = Inr True"
    using assms(1) by (auto simp: VerifyPoaCertificateForBlock_def bindE_Inr_iff split: if_split_asm)
  note f = verified_certificate [OF v]
  then obtain cb where "SerializePoaFinalityCertificate c = Some cb" by (simp add: SerializePoaFinalityCertificate_def)
  then have "SerializeFinalizedBlock C fb = Inr (Some (sized_bytes bb @ sized_bytes cb))"
    using b(1) assms(2) by (simp add: SerializeFinalizedBlock_def)
  with that b f show thesis by blast
qed

lemma prepare_extend_candidate:
  assumes l: "live C nb g0 db st" and r: "\<not> kv_unreadable db (EncodeString HASH_KEY)" "\<not> kv_unreadable db (EncodeString EVENTS_HEAD_KEY)"
    and e: "ExecuteBlockOperations C st (blk_operations (fb_block fb)) (ss_network_binding s) (blk_height (fb_block fb)) (ss_params s)
       (Some (ss_poa_key s)) (blk_parent_block_id (fb_block fb)) = Inr execution" "execution_ok execution"
       "ber_state_root execution = Some (blk_resulting_state_root (fb_block fb))"
    and h: "fh_block_id head = blk_parent_block_id (fb_block fb)" "blk_height (fb_block fb) = fh_height head + 1" "blk_height (fb_block fb) \<noteq> 0"
    and o: "list_all (operation_identified C) (blk_operations (fb_block fb))"
    and b: "SerializeFinalizedBlock C fb = Inr (Some bs)" "ComputeBlockId C (fb_block fb) = Inr i"
  shows "\<exists>batch next. prepare_extend C fb i head st db s = Inr (Inr (batch, next))
     \<and> CybouStateHash C next False = Some (blk_resulting_state_root (fb_block fb))
     \<and> batch_apply batch (kv_data db) (EncodeString HEAD_KEY) = Some (EncodeFinalizedHead \<lparr> fh_block_id = i, fh_height = blk_height (fb_block fb) \<rparr>)"
proof -
  obtain nx where x: "extend_state C (fb_block fb) st db s = Inr (Inr (blk_resulting_state_root (fb_block fb), nx))"
    and hash: "CybouStateHash C (case nx of None \<Rightarrow> st | Some t \<Rightarrow> t) False = Some (blk_resulting_state_root (fb_block fb))"
    by (rule extend_state_candidate [OF l r(1) e])
  obtain sb where sb: "SerializeCybouState C (case nx of None \<Rightarrow> st | Some t \<Rightarrow> t) False = Some sb" using hash_serializes [OF hash] by blast
  have "\<exists>batch. extend_batch C fb i head st (blk_resulting_state_root (fb_block fb)) nx db = Inr (Inr batch)"
  proof -
    obtain f where f: "index_operations_strict C i (blk_operations (fb_block fb)) b = Inr (Some (f b))" for b
      using index_operations_strict_total [OF o] by metis
    obtain g where "AppendFinalizedEvents C db fb head None b = Inr (g b)" for b
      using AppendFinalizedEvents_total [OF o b(2) r(2)] by metis
    then show ?thesis using sb b(1) f by (simp add: extend_batch_def Let_def)
  qed
  then obtain batch where batch: "extend_batch C fb i head st (blk_resulting_state_root (fb_block fb)) nx db = Inr (Inr batch)" by blast
  have "fh_height head \<noteq> U64_MAX" using h(2,3) by auto
  then have "prepare_extend C fb i head st db s = Inr (Inr (batch, case nx of None \<Rightarrow> st | Some t \<Rightarrow> t))"
    using h x batch by (simp add: prepare_extend_def)
  moreover have "batch_apply batch (kv_data db) (EncodeString HEAD_KEY) = Some (EncodeFinalizedHead \<lparr> fh_block_id = i, fh_height = blk_height (fb_block fb) \<rparr>)"
    using extend_batch_effect [OF batch, of "kv_data db"] by (metis core_key_simps(3) core_keys_distinct(19))
  ultimately show ?thesis using hash by blast
qed

lemma candidate_commits:
  assumes ok: "store_ok C G nb g0 db s" "addressable db" "\<forall>k. \<not> kv_unreadable db k"
    and c: "ComputeCandidateStateRoot C (blk_operations (fb_block fb)) (blk_height (fb_block fb)) db s = (Inr (Some (blk_resulting_state_root (fb_block fb))), s1)"
    and p: "GetFinalizedHead db = Inr (Some head)" "blk_parent_block_id (fb_block fb) = fh_block_id head" "ComputeBlockId C (fb_block fb) \<noteq> Inr (fh_block_id head)"
    and o: "list_all (operation_identified C) (blk_operations (fb_block fb))"
    and v: "VerifyPoaCertificateForBlock C (fb_certificate fb) (ng_poa_finalizer_public_key (vg_genesis G)) nb (fb_block fb) = Inr True"
    and d: "\<not> PoaSafetyHalted s" "Observe C w1 w2 (fb_certificate fb) (fb_block fb) db (ss_detector s) = (Inr OBSERVED, db1, d1)"
  shows "\<exists>db' s' st i. CommitFinalizedBlock C w1 w2 WriteOk fb db s = (Inr (transition BlockTransitionError.NONE), db', s')
     \<and> ComputeBlockId C (fb_block fb) = Inr i \<and> GetFinalizedHead db' = Inr (Some \<lparr> fh_block_id = i, fh_height = blk_height (fb_block fb) \<rparr>)
     \<and> GetStateRoot db' = Inr (Some (blk_resulting_state_root (fb_block fb)))
     \<and> ss_snapshot s' = Some st \<and> live C nb g0 db' st"
proof -
  let ?root = "blk_resulting_state_root (fb_block fb)"
  obtain st hd' x where g: "GetStateSnapshotLocked C db s = (Inr \<lparr> slr_error = StateLoadError.NONE, slr_state = Some st \<rparr>, s1)"
    and l: "live C nb g0 db st" and hd': "GetFinalizedHead db = Inr (Some hd')" and h: "blk_height (fb_block fb) = fh_height hd' + 1" "blk_height (fb_block fb) \<noteq> 0"
    and x: "ExecuteBlockOperations C st (blk_operations (fb_block fb)) nb (blk_height (fb_block fb)) (ng_protocol_parameters (vg_genesis G))
       (Some (ng_poa_finalizer_public_key (vg_genesis G))) (fh_block_id hd') = Inr x" "execution_ok x" "ber_state_root x = Some ?root"
    by (rule candidate_execution [OF ok(1,2) c])
  have hd: "hd' = head" using hd' p(1) by simp
  note k = GetStateSnapshotLocked_ok [OF ok(1,2) g]
  have b: "ss_network_binding s1 = nb" "ss_network_genesis s1 = G" "detector_ok (ss_detector s)" using k(1,3) by (simp_all add: store_ok_def)
  obtain bs i where f: "SerializeFinalizedBlock C fb = Inr (Some bs)" "ComputeBlockId C (fb_block fb) = Inr i" "i \<noteq> 0"
    "pfc_network_binding (fb_certificate fb) = nb" "pfc_block_id (fb_certificate fb) = i" "pfc_height (fb_certificate fb) = blk_height (fb_block fb)"
    "pfc_parent_block_id (fb_certificate fb) = blk_parent_block_id (fb_block fb)"
    by (rule verified_block_serializes [OF v HOL.refl])
  have cc: "check_certificate C fb db s1 = Inr (Inr (i, head))"
    using f p v b by (simp add: check_certificate_def Let_def)
  have con: "contained (ss_detector s) db (Inr OBSERVED, db1, d1)" using Observe_contained [OF b(3), of db C w1 w2] d(2) by metis
  then have l1: "live C nb g0 db1 st" and u1: "kv_unreadable db1 = kv_unreadable db"
    using live_same_records [OF _ l] by (simp_all add: contained_def)
  let ?s2 = "s1 \<lparr> ss_detector := d1 \<rparr>"
  have r1: "\<not> kv_unreadable db1 (EncodeString HASH_KEY)" "\<not> kv_unreadable db1 (EncodeString EVENTS_HEAD_KEY)" using u1 ok(3) by simp_all
  have x1: "ExecuteBlockOperations C st (blk_operations (fb_block fb)) (ss_network_binding ?s2) (blk_height (fb_block fb)) (ss_params ?s2)
       (Some (ss_poa_key ?s2)) (blk_parent_block_id (fb_block fb)) = Inr x" using x(1) b hd p(2) by simp
  have h1: "fh_block_id head = blk_parent_block_id (fb_block fb)" "blk_height (fb_block fb) = fh_height head + 1" using p(2) h(1) hd by simp_all
  obtain batch nxt where pe: "prepare_extend C fb i head st db1 ?s2 = Inr (Inr (batch, nxt))" "CybouStateHash C nxt False = Some ?root"
    "batch_apply batch (kv_data db1) (EncodeString HEAD_KEY) = Some (EncodeFinalizedHead \<lparr> fh_block_id = i, fh_height = blk_height (fb_block fb) \<rparr>)"
    using prepare_extend_candidate [OF l1 r1 x1 x(2,3) h1 h(2) o f(1,2)] by blast
  have lv: "live C nb g0 (written batch db1) nxt" by (rule prepare_extend_live [OF pe(1) l1])
  have cm: "CommitFinalizedBlock C w1 w2 WriteOk fb db s = (Inr (transition BlockTransitionError.NONE), written batch db1, ?s2 \<lparr> ss_snapshot := Some nxt \<rparr>)"
    using g cc d k(3) pe(1)
    by (simp add: CommitFinalizedBlock_def PoaSafetyHalted_def observation_error_def commit_batch_def WriteBatch_written)
  have hr: "GetFinalizedHead (written batch db1) = Inr (Some \<lparr> fh_block_id = i, fh_height = blk_height (fb_block fb) \<rparr>)"
    using pe(3) u1 ok(3) head_record.dec_enc by (simp add: GetFinalizedHead_def KV_ReadAs_def ReadRaw_def written_def)
  have "\<exists>rt. GetStateRoot (written batch db1) = Inr rt"
    using u1 ok(3) by (cases "kv_data (written batch db1) (EncodeString HASH_KEY)") (simp_all add: GetStateRoot_def KV_ReadAs_def ReadRaw_def written_def)
  then have "GetStateRoot (written batch db1) = Inr (Some ?root)" using live_root [OF lv] pe(2) by auto
  with cm hr f(2) lv show ?thesis by auto
qed

end
