(* ===== verification/OperationWork.thy ===== *)
theory OperationWork
  imports Operation
begin

text \<open>
  The relay proof of work of user operations (\<^verbatim>\<open>operation_work.h/.cpp\<close>): the check a node makes before it holds or
  forwards an operation, the difficulty by kind of operation, and the search of the submitter. The search has no bound of
  its own, so it is a \<^theory_text>\<open>partial_function\<close> whose value \<open>None\<close> is a search that never ends; the random start and the
  answers of the stop token are parameters. Shown: the masked test of the search is the leading-zero test of the check,
  what the search returns passes the check, and the search ends whenever a nonce exists or a stop is requested.
\<close>

section \<open>The work hash and its check\<close>

definition OPERATION_WORK_BITS :: u32 where "OPERATION_WORK_BITS = 22"
definition NAME_OPERATION_EXTRA_WORK_BITS :: u32 where "NAME_OPERATION_EXTRA_WORK_BITS = 4"

definition work_message :: "hash256 \<Rightarrow> hash256 \<Rightarrow> u64 \<Rightarrow> bytes" where
  "work_message network_binding operation_id nonce =
     str ''CYBOU/OP-WORK'' @ hash_bytes network_binding @ hash_bytes operation_id @ le_bytes 8 nonce"

definition ComputeOperationWorkHash :: "crypto \<Rightarrow> hash256 \<Rightarrow> hash256 \<Rightarrow> u64 \<Rightarrow> exn + hash256" where
  "ComputeOperationWorkHash C network_binding operation_id nonce =
     Sha256_Finalize C (work_message network_binding operation_id nonce)"

definition LeadingZeroBits :: "hash256 \<Rightarrow> nat" where
  "LeadingZeroBits h = leading_zero_bits (hash_bytes h)"

definition CheckOperationWork :: "crypto \<Rightarrow> hash256 \<Rightarrow> hash256 \<Rightarrow> u64 \<Rightarrow> u32 \<Rightarrow> exn + bool" where
  "CheckOperationWork C network_binding operation_id nonce required_bits =
     (if required_bits = 0 then Inr True
      else if required_bits > 256 \<or> network_binding = 0 \<or> operation_id = 0 then Inr False
      else bindE (ComputeOperationWorkHash C network_binding operation_id nonce) (\<lambda>h.
        Inr (LeadingZeroBits h \<ge> unat required_bits)))"

text \<open>One difficulty for all identities; operations with a protection of their own need no relay work.\<close>

definition RequiredOperationWorkBits :: "ProtocolOperation \<Rightarrow> u32" where
  "RequiredOperationWorkBits operation =
     (if AuthorizingAccount operation = None then 0
      else OPERATION_WORK_BITS + (case operation of OpNameCommit _ \<Rightarrow> NAME_OPERATION_EXTRA_WORK_BITS
        | OpNameReveal _ \<Rightarrow> NAME_OPERATION_EXTRA_WORK_BITS | _ \<Rightarrow> 0))"

section \<open>The search\<close>

text \<open>The test of the search works on the bytes: whole zero bytes, then a mask on the next one.\<close>

definition rem_mask :: "u32 \<Rightarrow> byte" where
  "rem_mask rem_bits = (if rem_bits = 0 then 0 else ucast (push_bit (8 - unat rem_bits) (0xff :: u32)))"

definition work_match :: "u32 \<Rightarrow> bytes \<Rightarrow> bool" where
  "work_match required_bits hash =
     (let full_zero_bytes = unat (required_bits div 8); mask = rem_mask (required_bits mod 8)
      in list_all (\<lambda>b. b = 0) (take full_zero_bytes hash)
         \<and> \<not> (mask \<noteq> 0 \<and> and (hash ! full_zero_bytes) mask \<noteq> 0))"

text \<open>The loop of \<^verbatim>\<open>SolveOperationWork\<close>; the stop token is asked once in 65536 tries, \<open>stop k\<close> is its answer at the \<open>k\<close>-th
  request, and a failing digest ends the search.\<close>

partial_function (option) search_nonce ::
  "crypto \<Rightarrow> (nat \<Rightarrow> bool) \<Rightarrow> hash256 \<Rightarrow> hash256 \<Rightarrow> u32 \<Rightarrow> nat \<Rightarrow> u64 \<Rightarrow> u64 \<Rightarrow> u64 option option" where
  "search_nonce C stop network_binding operation_id required_bits asked tries nonce =
     (let ask = (and tries 0xffff = 0) in
      if ask \<and> stop asked then Some None
      else case evp_sha256 C (work_message network_binding operation_id nonce) of
          None \<Rightarrow> Some None
        | Some h \<Rightarrow>
          if work_match required_bits (hash_bytes h) then Some (Some nonce)
          else search_nonce C stop network_binding operation_id required_bits (if ask then asked + 1 else asked) (tries + 1) (nonce + 1))"

declare search_nonce.simps [code]

definition SolveOperationWork ::
  "crypto \<Rightarrow> u32 \<times> u32 \<Rightarrow> (nat \<Rightarrow> bool) \<Rightarrow> hash256 \<Rightarrow> hash256 \<Rightarrow> u32 \<Rightarrow> u64 option option" where
  "SolveOperationWork C random stop network_binding operation_id required_bits =
     (if required_bits = 0 then Some (Some 0)
      else if required_bits > 64 \<or> network_binding = 0 \<or> operation_id = 0 then Some None
      else let nonce = xor (push_bit 32 (ucast (fst random) :: u64)) (ucast (snd random))
           in search_nonce C stop network_binding operation_id required_bits 0 0 nonce)"

section \<open>The masked test\<close>

lemma countl_zero_0 [simp]: "countl_zero 0 = 8" by code_simp

lemma countl_zero_nonzero: "b \<noteq> 0 \<Longrightarrow> countl_zero b < 8"
  using countl_zero_iff [of 8 b] by (simp add: unat_eq_0) 

lemma rem_mask_eq:
  assumes "r < 8"
  shows "rem_mask r = not (mask (8 - unat r))"
proof -
  have "list_all (\<lambda>n. rem_mask (of_nat n) = not (mask (8 - n))) [0..<8]" by code_simp
  moreover have "unat r \<in> set [0..<8]" using assms by (simp add: word_less_nat_alt)
  ultimately have "rem_mask (of_nat (unat r)) = not (mask (8 - unat r))" unfolding list_all_iff by blast
  then show ?thesis by simp
qed

lemma rem_mask_iff:
  assumes "r < 8"
  shows "\<not> (rem_mask r \<noteq> 0 \<and> and b (rem_mask r) \<noteq> 0) \<longleftrightarrow> unat r \<le> countl_zero b"
proof -
  have r: "unat r \<le> 8" using assms by (simp add: word_less_nat_alt)
  have "and b (not (mask (8 - unat r))) = 0 \<longleftrightarrow> take_bit (8 - unat r) b = b"
    by (auto simp: bit_eq_iff bit_simps)
  also have "\<dots> \<longleftrightarrow> unat b < 2 ^ (8 - unat r)"
    unfolding word_unat_eq_iff unsigned_take_bit_eq take_bit_nat_eq_self_iff by (rule HOL.refl)
  also have "\<dots> \<longleftrightarrow> unat r \<le> countl_zero b" by (rule countl_zero_iff [OF r, symmetric])
  finally have e: "and b (rem_mask r) = 0 \<longleftrightarrow> unat r \<le> countl_zero b" unfolding rem_mask_eq [OF assms] .
  have "\<not> (m \<noteq> 0 \<and> and b m \<noteq> 0) \<longleftrightarrow> and b m = 0" for m :: byte by (cases "m = 0") simp_all
  then show ?thesis using e by blast
qed

lemma leading_zero_bits_split:
  "n < 8 * length bs \<Longrightarrow> n \<le> leading_zero_bits bs
     \<longleftrightarrow> list_all (\<lambda>b. b = 0) (take (n div 8) bs) \<and> n mod 8 \<le> countl_zero (bs ! (n div 8))"
proof (induction bs arbitrary: n)
  case Nil
  then show ?case by simp
next
  case (Cons b bs)
  show ?case
  proof (cases "n < 8")
    case True
    then show ?thesis by (cases "b = 0") simp_all
  next
    case False
    then obtain m where n: "n = m + 8" using le_Suc_ex [of 8 n] by (auto simp: add.commute)
    then have "m < 8 * length bs" using Cons.prems by simp
    moreover have "(m + 8) div 8 = Suc (m div 8)" "(m + 8) mod 8 = m mod 8" by simp_all
    ultimately show ?thesis
      unfolding n using Cons.IH [of m] countl_zero_nonzero [of b] by (cases "b = 0") simp_all
  qed
qed

lemma work_match_iff:
  assumes "required_bits < 256"
  shows "work_match required_bits (hash_bytes h) \<longleftrightarrow> unat required_bits \<le> LeadingZeroBits h"
proof -
  have "required_bits mod 8 < 8" by (simp add: word_mod_less_divisor)
  moreover have "unat (required_bits mod 8) = unat required_bits mod 8" "unat (required_bits div 8) = unat required_bits div 8"
    by (simp_all add: unat_mod unat_div)
  moreover have "unat required_bits < 8 * length (hash_bytes h)" using assms by (simp add: word_less_nat_alt)
  ultimately show ?thesis
    unfolding work_match_def Let_def LeadingZeroBits_def by (simp only: rem_mask_iff leading_zero_bits_split)
qed

section \<open>What the search finds\<close>

lemma search_nonce_found:
  assumes "search_nonce C stop nb i bits asked tries nonce = Some (Some n)"
  shows "\<exists>h. evp_sha256 C (work_message nb i n) = Some h \<and> work_match bits (hash_bytes h)"
proof -
  have "\<forall>n. r = Some n \<longrightarrow> (\<exists>h. evp_sha256 C (work_message nb i n) = Some h \<and> work_match bits (hash_bytes h))"
    if "search_nonce C stop nb i bits asked tries nonce = Some r" for r
    by (rule search_nonce.raw_induct [where P = "\<lambda>C stop nb i bits asked tries nonce r. \<forall>n. r = Some n \<longrightarrow>
          (\<exists>h. evp_sha256 C (work_message nb i n) = Some h \<and> work_match bits (hash_bytes h))", OF _ that])
      (auto simp: Let_def split: if_splits option.splits)
  from this [OF assms] show ?thesis by simp
qed

lemma check_iff_match:
  assumes "0 < bits" "bits < 256" "nb \<noteq> 0" "i \<noteq> 0"
  shows "CheckOperationWork C nb i n bits = Inr True
    \<longleftrightarrow> (\<exists>h. evp_sha256 C (work_message nb i n) = Some h \<and> work_match bits (hash_bytes h))"
proof -
  have "\<not> 256 < bits" using assms(2) by (simp add: word_less_nat_alt)
  then show ?thesis using assms
    by (auto simp: CheckOperationWork_def ComputeOperationWorkHash_def Sha256_Finalize_def work_match_iff split: option.splits)
qed

text \<open>Until the first good nonce is reached, \<open>d\<close> tries away, the search goes on unless it is stopped.\<close>

lemma search_nonce_ends:
  assumes "\<And>n. \<exists>h. evp_sha256 C (work_message nb i n) = Some h"
    and "\<exists>h. evp_sha256 C (work_message nb i (nonce + of_nat d)) = Some h \<and> work_match bits (hash_bytes h)"
  shows "\<exists>r. search_nonce C stop nb i bits asked tries nonce = Some r \<and> (r = None \<longrightarrow> (\<exists>k. stop k))"
  using assms(2)
proof (induction d arbitrary: asked tries nonce)
  case 0
  then show ?case by (subst search_nonce.simps) (auto simp: Let_def)
next
  case (Suc d)
  obtain h where h: "evp_sha256 C (work_message nb i nonce) = Some h" using assms(1) by blast
  have "nonce + 1 + of_nat d = nonce + of_nat (Suc d)" by simp
  with Suc.prems have "\<exists>h. evp_sha256 C (work_message nb i (nonce + 1 + of_nat d)) = Some h \<and> work_match bits (hash_bytes h)"
    by (simp only:)
  from Suc.IH [OF this] show ?case by (subst search_nonce.simps) (auto simp: Let_def h)
qed

text \<open>The whole search.\<close>

lemma SolveOperationWork_ends:
  assumes sha: "\<And>bs. evp_sha256 C bs \<noteq> None" and bits: "bits \<le> 64" and ids: "nb \<noteq> 0" "i \<noteq> 0"
    and good: "CheckOperationWork C nb i n bits = Inr True"
  shows "\<exists>r. SolveOperationWork C random stop nb i bits = Some r
    \<and> (r = None \<longrightarrow> (\<exists>k. stop k)) \<and> (\<forall>m. r = Some m \<longrightarrow> CheckOperationWork C nb i m bits = Inr True)"
proof (cases "bits = 0")
  case True
  then show ?thesis by (simp add: SolveOperationWork_def CheckOperationWork_def)
next
  case False
  then have b: "0 < bits" "bits < 256" "\<not> 64 < bits" using bits by (auto simp: word_less_nat_alt word_le_nat_alt unat_gt_0)
  define start where "start = xor (push_bit 32 (ucast (fst random) :: u64)) (ucast (snd random))"
  have eq: "SolveOperationWork C random stop nb i bits = search_nonce C stop nb i bits 0 0 start"
    using False ids b by (simp add: SolveOperationWork_def start_def)
  have "\<exists>h. evp_sha256 C (work_message nb i n) = Some h \<and> work_match bits (hash_bytes h)"
    using good check_iff_match [OF b(1,2) ids] by blast
  moreover have "start + of_nat (unat (n - start)) = n" by simp
  ultimately obtain r where r: "search_nonce C stop nb i bits 0 0 start = Some r" "r = None \<longrightarrow> (\<exists>k. stop k)"
    using search_nonce_ends [of C nb i start "unat (n - start)" bits stop 0 0] sha by (metis option.exhaust)
  moreover have "CheckOperationWork C nb i m bits = Inr True" if "r = Some m" for m
    using search_nonce_found [of C stop nb i bits 0 0 start m] r(1) that check_iff_match [OF b(1,2) ids] by blast
  ultimately show ?thesis unfolding eq by blast
qed

end
