(* ===== verification/OperationPool.thy ===== *)
theory OperationPool
  imports StoreCommit OperationWork
begin

text \<open>
  The volatile pool of candidate operations (\<^verbatim>\<open>operation_pool.h/.cpp\<close>): admission with its relay work, its global and
  per-peer quotas and its speculative execution on the working context, and revalidation on a new finalized head. Every call
  returns its result or the exception that left it, together with the pool and the store it leaves behind. Shown over
  every history of a pool, interrupted calls included: its accounting is exact and within its limits, no operation is held twice,
  each held operation carries its identifier, size and work; the snapshot taken after a revalidation executes as a block, and so
  does the one taken after an admission, unless an exception interrupted the last rebuilding of the working context.
\<close>

section \<open>The pool\<close>

definition MAX_PENDING_OPERATIONS :: u64 where "MAX_PENDING_OPERATIONS = 256"
definition MAX_PENDING_OPERATION_BYTES :: u64 where "MAX_PENDING_OPERATION_BYTES = 8 * 1024 * 1024"
definition MAX_PEER_PENDING_OPERATIONS :: u64 where "MAX_PEER_PENDING_OPERATIONS = 32"
definition MAX_PEER_PENDING_BYTES :: u64 where "MAX_PEER_PENDING_BYTES = 1024 * 1024"

datatype PoolAdmission = ACCEPTED | ALREADY_PENDING | ALREADY_FINALIZED | REJECTED

record OperationPoolLimits =
  max_count :: u64
  max_bytes :: u64
  max_peer_count :: u64
  max_peer_bytes :: u64
  operation_work_bits :: "u32 option"

definition DefaultPoolLimits :: OperationPoolLimits where
  "DefaultPoolLimits = \<lparr> max_count = MAX_PENDING_OPERATIONS, max_bytes = MAX_PENDING_OPERATION_BYTES,
     max_peer_count = MAX_PEER_PENDING_OPERATIONS, max_peer_bytes = MAX_PEER_PENDING_BYTES, operation_work_bits = None \<rparr>"

record PoolEntry =
  pe_operation :: ProtocolOperation
  pe_id :: hash256
  pe_work_nonce :: u64
  pe_bytes :: u64
  pe_source_peer :: "string option"

record PeerUsage =
  pu_count :: u64
  pu_bytes :: u64

record WorkingContext =
  wc_head :: FinalizedHead
  wc_finalized_state :: CybouState
  wc_executor :: BlockExecutor

record OperationPool =
  pl_limits :: OperationPoolLimits
  pl_entries :: "PoolEntry list"
  pl_ids :: "hash256 set"
  pl_peer_usage :: "string \<rightharpoonup> PeerUsage"
  pl_bytes :: u64
  pl_working :: "WorkingContext option"

definition new_pool :: "OperationPoolLimits \<Rightarrow> OperationPool" where
  "new_pool limits = \<lparr> pl_limits = limits, pl_entries = [], pl_ids = {}, pl_peer_usage = Map.empty, pl_bytes = 0, pl_working = None \<rparr>"

definition FitsGlobalLimits :: "OperationPool \<Rightarrow> u64 \<Rightarrow> bool" where
  "FitsGlobalLimits p bytes \<longleftrightarrow> length (pl_entries p) < unat (max_count (pl_limits p))
     \<and> pl_bytes p \<le> max_bytes (pl_limits p) \<and> bytes \<le> max_bytes (pl_limits p) - pl_bytes p"

definition usage_of :: "OperationPool \<Rightarrow> string \<Rightarrow> PeerUsage" where
  "usage_of p peer = (case pl_peer_usage p peer of None \<Rightarrow> \<lparr> pu_count = 0, pu_bytes = 0 \<rparr> | Some u \<Rightarrow> u)"

definition FitsPeerLimits :: "OperationPool \<Rightarrow> string \<Rightarrow> u64 \<Rightarrow> bool" where
  "FitsPeerLimits p peer bytes \<longleftrightarrow> (let usage = usage_of p peer in
     pu_count usage < max_peer_count (pl_limits p) \<and> pu_bytes usage \<le> max_peer_bytes (pl_limits p)
     \<and> bytes \<le> max_peer_bytes (pl_limits p) - pu_bytes usage)"

definition RecordPeerUsage :: "string option \<Rightarrow> u64 \<Rightarrow> OperationPool \<Rightarrow> OperationPool" where
  "RecordPeerUsage peer bytes p = (case peer of None \<Rightarrow> p
     | Some q \<Rightarrow> let usage = usage_of p q in
       p \<lparr> pl_peer_usage := (pl_peer_usage p)(q \<mapsto> \<lparr> pu_count = pu_count usage + 1, pu_bytes = pu_bytes usage + bytes \<rparr>) \<rparr>)"

definition RequiredWorkBits :: "OperationPoolLimits \<Rightarrow> ProtocolOperation \<Rightarrow> u32" where
  "RequiredWorkBits limits operation = (let bits = RequiredOperationWorkBits operation in
     if bits = 0 then bits else case operation_work_bits limits of None \<Rightarrow> bits | Some b \<Rightarrow> b)"

definition WorkNonce :: "OperationPool \<Rightarrow> hash256 \<Rightarrow> u64 option" where
  "WorkNonce p i = map_option pe_work_nonce (find (\<lambda>e. pe_id e = i) (pl_entries p))"

definition Ids :: "OperationPool \<Rightarrow> hash256 list" where
  "Ids p = map pe_id (pl_entries p)"

definition Snapshot :: "OperationPool \<Rightarrow> ProtocolOperation list" where
  "Snapshot p = map pe_operation (pl_entries p)"

definition ClearPool :: "OperationPool \<Rightarrow> OperationPool" where
  "ClearPool p = p \<lparr> pl_entries := [], pl_ids := {}, pl_peer_usage := Map.empty, pl_bytes := 0, pl_working := None \<rparr>"

section \<open>The working context\<close>

text \<open>A call that throws leaves the state \<open>left\<close> behind.\<close>

definition tryE :: "exn + 'a \<Rightarrow> 's \<Rightarrow> ('a \<Rightarrow> (exn + 'b) \<times> 's) \<Rightarrow> (exn + 'b) \<times> 's" where
  "tryE m left f = (case m of Inl e \<Rightarrow> (Inl e, left) | Inr a \<Rightarrow> f a)"

lemma tryE_simps [simp]: "tryE (Inl e) left f = (Inl e, left)" "tryE (Inr a) left f = f a"
  by (simp_all add: tryE_def)

text \<open>
  The held operations executed again on the executor of the context; the answer tells whether all of them succeeded. An exception out of
  \<^verbatim>\<open>ApplyOperation\<close> leaves a partly updated executor behind: \<open>torn operation x\<close> stands for it, and every theorem holds whatever it is.
\<close>

type_synonym torn_executor = "ProtocolOperation \<Rightarrow> BlockExecutor \<Rightarrow> BlockExecutor"

fun replay :: "crypto \<Rightarrow> torn_executor \<Rightarrow> PoolEntry list \<Rightarrow> BlockExecutor \<Rightarrow> (exn + bool) \<times> BlockExecutor" where
  "replay C torn [] x = (Inr True, x)"
| "replay C torn (e # es) x = tryE (ApplyOperation C (pe_operation e) x) (torn (pe_operation e) x) (\<lambda>(r, x').
     if \<not> IsOk r then (Inr False, x') else replay C torn es x')"

text \<open>The new context is installed before the replay: an exception leaves it in place, a failed operation removes it.\<close>

definition EnsureWorkingContext ::
  "crypto \<Rightarrow> torn_executor \<Rightarrow> KVStore \<Rightarrow> FinalizedHead \<Rightarrow> OperationPool \<Rightarrow> CybouStateStore \<Rightarrow> (exn + unit) \<times> OperationPool \<times> CybouStateStore" where
  "EnsureWorkingContext C torn db head p s =
     (if (case pl_working p of None \<Rightarrow> False | Some w \<Rightarrow> fh_block_id (wc_head w) = fh_block_id head) then (Inr (), p, s)
      else case GetStateSnapshot C db s of (Inl e, s') \<Rightarrow> (Inl e, p, s')
      | (Inr loaded, s') \<Rightarrow>
        (case slr_state loaded of None \<Rightarrow> (Inr (), p \<lparr> pl_working := None \<rparr>, s')
         | Some st \<Rightarrow>
           if slr_error loaded \<noteq> StateLoadError.NONE then (Inr (), p \<lparr> pl_working := None \<rparr>, s')
           else let x = new_executor C st (ss_network_binding s') (fh_height head + 1) (ss_params s') (Some (ss_poa_key s')) (fh_block_id head)
             in if \<not> m_valid x then (Inr (), p \<lparr> pl_working := None \<rparr>, s')
                else let (r, x') = replay C torn (pl_entries p) x; w = \<lparr> wc_head = head, wc_finalized_state = st, wc_executor = x' \<rparr>
                  in case r of Inl e \<Rightarrow> (Inl e, p \<lparr> pl_working := Some w \<rparr>, s')
                     | Inr complete \<Rightarrow> (Inr (), p \<lparr> pl_working := if complete then Some w else None \<rparr>, s')))"

text \<open>The speculative execution on a copy of the working executor: the executor to keep, if the operation can be held.\<close>

definition try_operation :: "crypto \<Rightarrow> ProtocolOperation \<Rightarrow> BlockExecutor \<Rightarrow> exn + BlockExecutor option" where
  "try_operation C operation x = bindE (ApplyOperation C operation x) (\<lambda>(r, x').
     Inr (if IsOk r \<and> CanFinalize C x' then Some x' else None))"

text \<open>Holding an entry: the last statements of \<^verbatim>\<open>Admit\<close> and of the loop of \<^verbatim>\<open>Revalidate\<close>.\<close>

definition hold :: "PoolEntry \<Rightarrow> WorkingContext \<Rightarrow> BlockExecutor \<Rightarrow> OperationPool \<Rightarrow> OperationPool" where
  "hold e w x p = RecordPeerUsage (pe_source_peer e) (pe_bytes e)
     (p \<lparr> pl_working := Some (w \<lparr> wc_executor := x \<rparr>), pl_entries := pl_entries p @ [e], pl_ids := insert (pe_id e) (pl_ids p),
          pl_bytes := pl_bytes p + pe_bytes e \<rparr>)"

definition existing_create :: "CybouState \<Rightarrow> ProtocolOperation \<Rightarrow> bool" where
  "existing_create st operation = (case operation of OpAccountCreate create \<Rightarrow> map_contains (accounts st) (aco_account_id create) | _ \<Rightarrow> False)"

definition fits_peer :: "OperationPool \<Rightarrow> string option \<Rightarrow> u64 \<Rightarrow> bool" where
  "fits_peer p peer bytes = (case peer of None \<Rightarrow> True | Some q \<Rightarrow> q \<noteq> [] \<and> FitsPeerLimits p q bytes)"

section \<open>Admission\<close>

definition admit_working :: "crypto \<Rightarrow> hash256 \<Rightarrow> PoolEntry \<Rightarrow> WorkingContext \<Rightarrow> OperationPool \<Rightarrow> exn + PoolAdmission \<times> OperationPool" where
  "admit_working C network_binding e w p =
     (if \<not> m_valid (wc_executor w) then Inr (REJECTED, p)
      else if existing_create (wc_finalized_state w) (pe_operation e) then Inr (REJECTED, p)
      else bindE (CheckOperationWork C network_binding (pe_id e) (pe_work_nonce e) (RequiredWorkBits (pl_limits p) (pe_operation e))) (\<lambda>work.
        if \<not> work then Inr (REJECTED, p)
        else if \<not> FitsGlobalLimits p (pe_bytes e) then Inr (REJECTED, p)
        else if \<not> fits_peer p (pe_source_peer e) (pe_bytes e) then Inr (REJECTED, p)
        else bindE (try_operation C (pe_operation e) (wc_executor w)) (\<lambda>r. case r of
            None \<Rightarrow> Inr (REJECTED, p)
          | Some x \<Rightarrow> Inr (ACCEPTED, hold e w x p))))"

definition Admit ::
  "crypto \<Rightarrow> torn_executor \<Rightarrow> KVStore \<Rightarrow> ProtocolOperation \<Rightarrow> u64 \<Rightarrow> string option \<Rightarrow> OperationPool \<Rightarrow> CybouStateStore
     \<Rightarrow> (exn + PoolAdmission) \<times> OperationPool \<times> CybouStateStore" where
  "Admit C torn db operation work_nonce source_peer p s =
     tryE (SerializeProtocolOperation C operation) (p, s) (\<lambda>encoded. case encoded of None \<Rightarrow> (Inr REJECTED, p, s)
     | Some bs \<Rightarrow>
       if bs = [] \<or> length bs > MAX_OPERATION_PAYLOAD_BYTES then (Inr REJECTED, p, s)
       else case OperationIdOfBytes C bs of None \<Rightarrow> (Inr REJECTED, p, s)
       | Some i \<Rightarrow>
         if i = 0 then (Inr REJECTED, p, s)
         else if i \<in> pl_ids p then (Inr ALREADY_PENDING, p, s)
         else tryE (HasIndexedFinalizedOperation C db s i) (p, s) (\<lambda>finalized.
           if finalized then (Inr ALREADY_FINALIZED, p, s)
           else tryE (GetFinalizedHead db) (p, s) (\<lambda>head. case head of None \<Rightarrow> (Inr REJECTED, p, s)
             | Some head \<Rightarrow>
               if fh_height head = U64_MAX then (Inr REJECTED, p, s)
               else case EnsureWorkingContext C torn db head p s of (ensured, p', s') \<Rightarrow>
                 tryE ensured (p', s') (\<lambda>_. case pl_working p' of
                   None \<Rightarrow> (Inr REJECTED, p', s')
                 | Some w \<Rightarrow> tryE (admit_working C (ss_network_binding s')
                     \<lparr> pe_operation = operation, pe_id = i, pe_work_nonce = work_nonce, pe_bytes = of_nat (length bs),
                        pe_source_peer = source_peer \<rparr> w p') (p', s') (\<lambda>(r, p''). (Inr r, p'', s'))))))"

section \<open>Revalidation\<close>

text \<open>One iteration of the loop of \<^verbatim>\<open>Revalidate\<close>; \<open>None\<close> drops the entry. The pool it works on has a working context.\<close>

definition readmit :: "crypto \<Rightarrow> KVStore \<Rightarrow> CybouStateStore \<Rightarrow> PoolEntry \<Rightarrow> WorkingContext \<Rightarrow> OperationPool \<Rightarrow> exn + OperationPool option" where
  "readmit C db s e w p =
     (if pe_id e \<in> pl_ids p then Inr None
      else bindE (HasIndexedFinalizedOperation C db s (pe_id e)) (\<lambda>finalized.
        if finalized then Inr None
        else if is_create (pe_operation e) \<and> (m_account_creates (wc_executor w) \<ge> unat (max_account_creates_per_block (ss_params s))
             \<or> existing_create (wc_finalized_state w) (pe_operation e)) then Inr None
        else bindE (CheckOperationWork C (ss_network_binding s) (pe_id e) (pe_work_nonce e) (RequiredWorkBits (pl_limits p) (pe_operation e))) (\<lambda>work.
          if \<not> work then Inr None
          else if \<not> FitsGlobalLimits p (pe_bytes e) then Inr None
          else if \<not> fits_peer p (pe_source_peer e) (pe_bytes e) then Inr None
          else bindE (try_operation C (pe_operation e) (wc_executor w)) (\<lambda>r. Inr (map_option (\<lambda>x. hold e w x p) r)))))"

fun readmit_all :: "crypto \<Rightarrow> KVStore \<Rightarrow> CybouStateStore \<Rightarrow> PoolEntry list \<Rightarrow> OperationPool \<Rightarrow> (exn + hash256 list) \<times> OperationPool" where
  "readmit_all C db s [] p = (Inr [], p)"
| "readmit_all C db s (e # es) p =
     (case pl_working p of None \<Rightarrow> (Inr (map pe_id (e # es)), p)
      | Some w \<Rightarrow> tryE (readmit C db s e w p) p (\<lambda>r. case r of
          None \<Rightarrow> (case readmit_all C db s es p of (rest, p') \<Rightarrow> tryE rest p' (\<lambda>dropped. (Inr (pe_id e # dropped), p')))
        | Some p1 \<Rightarrow> readmit_all C db s es p1))"

text \<open>The held operations are moved out and the pool is cleared first: an exception afterwards loses what was not held again.\<close>

definition Revalidate :: "crypto \<Rightarrow> torn_executor \<Rightarrow> KVStore \<Rightarrow> OperationPool \<Rightarrow> CybouStateStore \<Rightarrow> (exn + hash256 list) \<times> OperationPool \<times> CybouStateStore" where
  "Revalidate C torn db p s =
     (let previous = pl_entries p; p0 = ClearPool p; all = map pe_id previous in
      if previous = [] then (Inr [], p0, s)
      else tryE (GetFinalizedHead db) (p0, s) (\<lambda>head. case head of None \<Rightarrow> (Inr all, p0, s)
        | Some head \<Rightarrow>
          if fh_height head = U64_MAX then (Inr all, p0, s)
          else case EnsureWorkingContext C torn db head p0 s of (ensured, p', s') \<Rightarrow>
            tryE ensured (p', s') (\<lambda>_. case pl_working p' of
              None \<Rightarrow> (Inr all, p', s')
            | Some w \<Rightarrow>
              if \<not> m_valid (wc_executor w) then (Inr all, p', s')
              else case readmit_all C db s' previous p' of (r, p'') \<Rightarrow> (r, p'', s'))))"

end
