(* ===== verification/PoolHistory.thy ===== *)
theory PoolHistory
  imports OperationPool "HOL-Library.Sublist" "HOL-Library.Multiset"
begin

text \<open>
  The histories of an operation pool: the accounting of its limits, the working context as the execution of the held
  operations, and the block made of a snapshot.
\<close>

section \<open>Executing the held operations\<close>

lemma finish_operation_ok:
  "results (\<lambda>(r, x'). IsOk r \<longrightarrow> m_valid x' = m_valid x \<and> m_params x' = m_params x
     \<and> m_account_creates x' = m_account_creates x + (if is_create operation then 1 else 0)) (finish_operation C operation x)"
  unfolding finish_operation_def
  by (cases operation; simp only: ProtocolOperation.case; (rule results_intros)+)
    (auto simp: executor_fail_def fail_result_def empty_result_def results_def IsOk_def is_create_def split: prod.split)

lemma ApplyOperation_ok:
  assumes "ApplyOperation C operation x = Inr (r, x')" and "IsOk r" and "m_valid x"
  shows "m_valid x' \<and> m_params x' = m_params x \<and> m_account_creates x' = m_account_creates x + (if is_create operation then 1 else 0)"
proof -
  obtain e d st where di: "dispatch C x operation = Inr ((e, d), st)"
    and f: "(if e \<noteq> BlockExecutionError.NONE then Inr (executor_fail (x \<lparr> m_candidate := st \<rparr>) e d)
        else finish_operation C operation (x \<lparr> m_candidate := st \<rparr>)) = Inr (r, x')"
    using assms(1,3) by (auto simp: ApplyOperation_def bindE_Inr_iff)
  show ?thesis
  proof (cases "e = BlockExecutionError.NONE")
    case True
    then show ?thesis using f assms finish_operation_ok [of "x \<lparr> m_candidate := st \<rparr>" operation C] by (simp add: results_def)
  next
    case False
    then show ?thesis using f assms(2) by (auto simp: executor_fail_def fail_result_def empty_result_def IsOk_def)
  qed
qed

text \<open>What an interrupted call leaves behind does not matter for a complete replay.\<close>

lemma replay_torn: "replay C torn es x = (Inr True, x') \<Longrightarrow> replay C torn' es x = (Inr True, x')"
proof (induction es arbitrary: x)
  case (Cons e es)
  then show ?case by (cases "ApplyOperation C (pe_operation e) x") (auto split: if_split_asm)
qed simp

lemma replay_snoc:
  "replay C torn es x = (Inr True, x') \<Longrightarrow> ApplyOperation C (pe_operation e) x' = Inr (r, x'') \<Longrightarrow> IsOk r
     \<Longrightarrow> replay C torn (es @ [e]) x = (Inr True, x'')"
proof (induction es arbitrary: x)
  case (Cons f es)
  then show ?case by (cases "ApplyOperation C (pe_operation f) x") (auto split: if_split_asm)
qed simp

lemma replay_apply_operations:
  "replay C torn es x = (Inr True, x') \<Longrightarrow> apply_operations C i (map pe_operation es) x = Inr (Inr x')"
proof (induction es arbitrary: x i)
  case (Cons e es)
  then show ?case by (cases "ApplyOperation C (pe_operation e) x") (auto split: if_split_asm)
qed simp

lemma replay_creates:
  "replay C torn es x = (Inr True, x') \<Longrightarrow> m_valid x \<Longrightarrow> m_valid x' \<and> m_params x' = m_params x
     \<and> m_account_creates x' = m_account_creates x + length (filter is_create (map pe_operation es))"
proof (induction es arbitrary: x)
  case (Cons e es)
  obtain r x1 where 1: "ApplyOperation C (pe_operation e) x = Inr (r, x1)" "IsOk r" "replay C torn es x1 = (Inr True, x')"
    using Cons.prems(1) by (cases "ApplyOperation C (pe_operation e) x") (auto split: if_split_asm)
  from ApplyOperation_ok [OF 1(1,2) Cons.prems(2)] Cons.IH [OF 1(3)] show ?case by simp
qed simp

text \<open>A sequence of operations that replays to an executor that can be finalized is a block.\<close>

lemma replay_block:
  assumes wf: "maps_wf st" and v: "m_valid (new_executor C st nb h params key vp)"
    and r: "replay C torn es (new_executor C st nb h params key vp) = (Inr True, x)"
  shows "ExecuteBlockOperations C st (map pe_operation es) nb h params key vp = Inr (Finalize C x)"
proof -
  let ?x0 = "new_executor C st nb h params key vp"
  have ap: "apply_operations C 0 (map pe_operation es) ?x0 = Inr (Inr x)" by (rule replay_apply_operations [OF r])
  have i: "executor_inv x"
    using executor_reach_inv [OF apply_operations_reach [OF ap executor_reach.start]] new_executor_inv [OF wf v] by blast
  have "m_account_creates ?x0 = 0" "m_params ?x0 = params" by (simp_all add: new_executor_def Let_def)
  then have "length (filter is_create (map pe_operation es)) \<le> unat (max_account_creates_per_block params)"
    using replay_creates [OF r v] i by (simp add: executor_inv_def)
  then show ?thesis using v ap by (simp add: ExecuteBlockOperations_def Let_def)
qed

text \<open>An executor that can be finalized yields a block result unless the state hash itself fails.\<close>

lemma CanFinalize_result:
  assumes "CanFinalize C x"
  shows "CybouStateHash C (m_candidate x) False = Some root \<Longrightarrow> Finalize C x = empty_result \<lparr> ber_state := Some (m_candidate x), ber_state_root := Some root \<rparr>"
  using assms by (simp add: CanFinalize_def Finalize_def)

section \<open>The accounting\<close>

definition entry_ok :: "crypto \<Rightarrow> hash256 \<Rightarrow> OperationPoolLimits \<Rightarrow> PoolEntry \<Rightarrow> bool" where
  "entry_ok C nb L e \<longleftrightarrow> (\<exists>bs. SerializeProtocolOperation C (pe_operation e) = Inr (Some bs) \<and> 0 < length bs
       \<and> length bs \<le> MAX_OPERATION_PAYLOAD_BYTES \<and> unat (pe_bytes e) = length bs \<and> OperationIdOfBytes C bs = Some (pe_id e))
     \<and> pe_id e \<noteq> 0 \<and> pe_source_peer e \<noteq> Some []
     \<and> CheckOperationWork C nb (pe_id e) (pe_work_nonce e) (RequiredWorkBits L (pe_operation e)) = Inr True"

definition total_bytes :: "PoolEntry list \<Rightarrow> nat" where
  "total_bytes es = sum_list (map (\<lambda>e. unat (pe_bytes e)) es)"

definition from_peer :: "string \<Rightarrow> PoolEntry list \<Rightarrow> PoolEntry list" where
  "from_peer q es = filter (\<lambda>e. pe_source_peer e = Some q) es"

definition peer_exact :: "OperationPool \<Rightarrow> string \<Rightarrow> bool" where
  "peer_exact p q \<longleftrightarrow> unat (pu_count (usage_of p q)) = length (from_peer q (pl_entries p))
     \<and> unat (pu_bytes (usage_of p q)) = total_bytes (from_peer q (pl_entries p))
     \<and> pu_count (usage_of p q) \<le> max_peer_count (pl_limits p) \<and> pu_bytes (usage_of p q) \<le> max_peer_bytes (pl_limits p)"

definition pool_accounts :: "crypto \<Rightarrow> hash256 \<Rightarrow> OperationPool \<Rightarrow> bool" where
  "pool_accounts C nb p \<longleftrightarrow> list_all (entry_ok C nb (pl_limits p)) (pl_entries p) \<and> distinct (Ids p) \<and> pl_ids p = set (Ids p)
     \<and> length (pl_entries p) \<le> unat (max_count (pl_limits p))
     \<and> unat (pl_bytes p) = total_bytes (pl_entries p) \<and> pl_bytes p \<le> max_bytes (pl_limits p) \<and> (\<forall>q. peer_exact p q)"

lemma pool_accounts_working [simp]: "pool_accounts C nb (p \<lparr> pl_working := v \<rparr>) = pool_accounts C nb p"
  by (simp add: pool_accounts_def peer_exact_def usage_of_def Ids_def)

lemma pool_accounts_empty:
  "pl_entries p = [] \<Longrightarrow> pl_ids p = {} \<Longrightarrow> pl_peer_usage p = Map.empty \<Longrightarrow> pl_bytes p = 0 \<Longrightarrow> pool_accounts C nb p"
  by (simp add: pool_accounts_def peer_exact_def usage_of_def Ids_def total_bytes_def from_peer_def)

lemma pool_accounts_new [simp]: "pool_accounts C nb (new_pool L)"
  by (rule pool_accounts_empty) (simp_all add: new_pool_def)

lemma pool_accounts_clear [simp]: "pool_accounts C nb (ClearPool p)"
  by (rule pool_accounts_empty) (simp_all add: ClearPool_def)

lemma total_bytes_snoc [simp]: "total_bytes (es @ [e]) = total_bytes es + unat (pe_bytes e)"
  by (simp add: total_bytes_def)

lemma hold_fields [simp]:
  "pl_limits (hold e w x p) = pl_limits p" "pl_entries (hold e w x p) = pl_entries p @ [e]"
  "pl_ids (hold e w x p) = insert (pe_id e) (pl_ids p)" "pl_bytes (hold e w x p) = pl_bytes p + pe_bytes e"
  "pl_working (hold e w x p) = Some (w \<lparr> wc_executor := x \<rparr>)"
  by (simp_all add: hold_def RecordPeerUsage_def Let_def split: option.split)

lemma hold_usage:
  "usage_of (hold e w x p) q = (if pe_source_peer e = Some q
     then \<lparr> pu_count = pu_count (usage_of p q) + 1, pu_bytes = pu_bytes (usage_of p q) + pe_bytes e \<rparr> else usage_of p q)"
  by (simp add: hold_def RecordPeerUsage_def usage_of_def Let_def split: option.split)

lemma peer_exact_hold:
  assumes "peer_exact p q" and "fits_peer p (pe_source_peer e) (pe_bytes e)"
  shows "peer_exact (hold e w x p) q"
proof (cases "pe_source_peer e = Some q")
  case True
  let ?u = "usage_of p q"
  have f: "pu_count ?u < max_peer_count (pl_limits p)" "pu_bytes ?u \<le> max_peer_bytes (pl_limits p)" "pe_bytes e \<le> max_peer_bytes (pl_limits p) - pu_bytes ?u"
    using assms(2) True by (simp_all add: fits_peer_def FitsPeerLimits_def Let_def)
  have "unat (pu_count ?u + 1) = unat (pu_count ?u) + 1" "pu_count ?u + 1 \<le> max_peer_count (pl_limits p)"
    using budget_add [of "pu_count ?u" "max_peer_count (pl_limits p)" 1] f(1) by (simp_all add: word_less_nat_alt word_le_nat_alt unat_sub)
  with budget_add [OF f(2,3)] assms(1) True show ?thesis
    by (simp add: peer_exact_def hold_usage from_peer_def)
next
  case False
  then show ?thesis using assms(1) by (simp add: peer_exact_def hold_usage from_peer_def)
qed

lemma pool_accounts_hold:
  assumes p: "pool_accounts C nb p" and e: "entry_ok C nb (pl_limits p) e" and n: "pe_id e \<notin> pl_ids p"
    and g: "FitsGlobalLimits p (pe_bytes e)" and f: "fits_peer p (pe_source_peer e) (pe_bytes e)"
  shows "pool_accounts C nb (hold e w x p)"
proof -
  have "unat (pl_bytes p + pe_bytes e) = unat (pl_bytes p) + unat (pe_bytes e)" "pl_bytes p + pe_bytes e \<le> max_bytes (pl_limits p)"
    using budget_add [of "pl_bytes p" "max_bytes (pl_limits p)" "pe_bytes e"] g by (simp_all add: FitsGlobalLimits_def)
  moreover have "peer_exact (hold e w x p) q" for q using peer_exact_hold [OF _ f] p by (simp add: pool_accounts_def)
  ultimately show ?thesis using p e n g by (auto simp: pool_accounts_def Ids_def FitsGlobalLimits_def)
qed

section \<open>The working context\<close>

definition context_executor :: "crypto \<Rightarrow> VerifiedNetworkGenesis \<Rightarrow> hash256 \<Rightarrow> WorkingContext \<Rightarrow> BlockExecutor" where
  "context_executor C G nb w = new_executor C (wc_finalized_state w) nb (fh_height (wc_head w) + 1) (ng_protocol_parameters (vg_genesis G))
     (Some (ng_poa_finalizer_public_key (vg_genesis G))) (fh_block_id (wc_head w))"

text \<open>
  The head and the state of a context belong together (\<open>final\<close> names the height and the state of a block), and the state is one of the store. In a
  complete context the executor is the execution of the held operations, in their order, on that state.
\<close>

type_synonym finalized_states = "hash256 \<Rightarrow> u64 \<times> CybouState"

definition context_ok :: "CybouState \<Rightarrow> crypto \<Rightarrow> VerifiedNetworkGenesis \<Rightarrow> hash256 \<Rightarrow> WorkingContext \<Rightarrow> bool" where
  "context_ok g0 C G nb w \<longleftrightarrow> good_state C g0 (wc_finalized_state w) \<and> m_valid (context_executor C G nb w)"

definition context_named :: "finalized_states \<Rightarrow> WorkingContext \<Rightarrow> bool" where
  "context_named final w \<longleftrightarrow> final (fh_block_id (wc_head w)) = (fh_height (wc_head w), wc_finalized_state w)"

definition working_ok :: "crypto \<Rightarrow> VerifiedNetworkGenesis \<Rightarrow> hash256 \<Rightarrow> CybouState \<Rightarrow> OperationPool \<Rightarrow> bool" where
  "working_ok C G nb g0 p \<longleftrightarrow> (\<forall>w. pl_working p = Some w \<longrightarrow> context_ok g0 C G nb w
     \<and> replay C (\<lambda>_ x. x) (pl_entries p) (context_executor C G nb w) = (Inr True, wc_executor w))"

lemma working_ok_none: "pl_working p = None \<Longrightarrow> working_ok C G nb g0 p"
  by (simp add: working_ok_def)

lemma context_update [simp]:
  "context_executor C G nb (w \<lparr> wc_executor := x \<rparr>) = context_executor C G nb w" "context_ok g0 C G nb (w \<lparr> wc_executor := x \<rparr>) = context_ok g0 C G nb w"
  "context_named final (w \<lparr> wc_executor := x \<rparr>) = context_named final w"
  by (simp_all add: context_executor_def context_ok_def context_named_def)

lemma try_operation_Some:
  assumes "try_operation C operation x = Inr (Some x')"
  shows "CanFinalize C x' \<and> (\<exists>r. ApplyOperation C operation x = Inr (r, x') \<and> IsOk r)"
  using assms by (auto simp: try_operation_def bindE_Inr_iff split: if_split_asm)

lemma working_ok_hold:
  assumes "working_ok C G nb g0 p" "pl_working p = Some w" "try_operation C (pe_operation e) (wc_executor w) = Inr (Some x)"
  shows "working_ok C G nb g0 (hold e w x p)"
  using assms(1,2) try_operation_Some [OF assms(3)] by (auto simp: working_ok_def intro: replay_snoc)

lemma working_block:
  assumes "working_ok C G nb g0 p" and "pl_working p = Some w"
  shows "ExecuteBlockOperations C (wc_finalized_state w) (Snapshot p) nb (fh_height (wc_head w) + 1) (ng_protocol_parameters (vg_genesis G))
     (Some (ng_poa_finalizer_public_key (vg_genesis G))) (fh_block_id (wc_head w)) = Inr (Finalize C (wc_executor w))"
  unfolding Snapshot_def using assms by (intro replay_block) (auto simp: working_ok_def context_ok_def good_state_def context_executor_def)

section \<open>The steps of a pool\<close>

text \<open>Every outcome of a call, its exceptions included.\<close>

definition ends :: "('a \<Rightarrow> bool) \<Rightarrow> 'a \<Rightarrow> bool" where
  "ends P a \<longleftrightarrow> P a"

lemma ends_intros:
  "P (Inr a, t) \<Longrightarrow> ends P (Inr a, t)" "P (Inl e, t) \<Longrightarrow> ends P (Inl e, t)"
  "(b \<Longrightarrow> ends P m) \<Longrightarrow> (\<not> b \<Longrightarrow> ends P n) \<Longrightarrow> ends P (if b then m else n)"
  "(opt = None \<Longrightarrow> ends P m) \<Longrightarrow> (\<And>a. opt = Some a \<Longrightarrow> ends P (f a)) \<Longrightarrow> ends P (case opt of None \<Rightarrow> m | Some a \<Rightarrow> f a)"
  "(\<And>a b. q = (a, b) \<Longrightarrow> ends P (h a b)) \<Longrightarrow> ends P (case q of (a, b) \<Rightarrow> h a b)"
  "(\<And>e. k = Inl e \<Longrightarrow> P (Inl e, left)) \<Longrightarrow> (\<And>a. k = Inr a \<Longrightarrow> ends P (l a)) \<Longrightarrow> ends P (tryE k left l)"
  "(\<And>e. k = Inl e \<Longrightarrow> ends P (i e)) \<Longrightarrow> (\<And>a. k = Inr a \<Longrightarrow> ends P (l a)) \<Longrightarrow> ends P (case k of Inl e \<Rightarrow> i e | Inr a \<Rightarrow> l a)"
  by (auto simp: ends_def split: option.split prod.split sum.split) (auto simp: tryE_def split: sum.split)

text \<open>The store at a call agrees with \<open>final\<close>: the block identifier of its head names one height and one state.\<close>

definition named :: "crypto \<Rightarrow> finalized_states \<Rightarrow> KVStore \<Rightarrow> CybouStateStore \<Rightarrow> bool" where
  "named C final db s \<longleftrightarrow> (\<forall>head. GetFinalizedHead db = Inr (Some head) \<longrightarrow> fst (final (fh_block_id head)) = fh_height head
     \<and> (\<forall>l s' st. GetStateSnapshot C db s = (Inr l, s') \<longrightarrow> slr_state l = Some st \<longrightarrow> snd (final (fh_block_id head)) = st))"

text \<open>What the working context is after \<^verbatim>\<open>EnsureWorkingContext\<close>, interrupted or not: nothing else of the pool changes.\<close>

lemma EnsureWorkingContext_step:
  assumes s: "store_ok C G nb g0 db s" "addressable db" and e: "EnsureWorkingContext C torn db head p s = (r, p', s')"
  shows "\<exists>v. p' = p \<lparr> pl_working := v \<rparr> \<and> store_ok C G nb g0 db s' \<and> (r = Inr () \<and> working_ok C G nb g0 p \<longrightarrow> working_ok C G nb g0 p')
    \<and> (\<forall>w. v = Some w \<longrightarrow> (v = pl_working p \<and> (r = Inr () \<longrightarrow> fh_block_id (wc_head w) = fh_block_id head)) \<or> (wc_head w = head
         \<and> live C nb g0 db (wc_finalized_state w) \<and> ss_snapshot s' = Some (wc_finalized_state w)
         \<and> (\<exists>l. GetStateSnapshot C db s = (Inr l, s') \<and> slr_state l = Some (wc_finalized_state w))
         \<and> (pl_entries p = [] \<longrightarrow> r = Inr () \<and> working_ok C G nb g0 p')))"
proof (cases "case pl_working p of None \<Rightarrow> False | Some w \<Rightarrow> fh_block_id (wc_head w) = fh_block_id head")
  case True
  then have "p' = p" "s' = s" "r = Inr ()" using e by (simp_all add: EnsureWorkingContext_def)
  then show ?thesis using True s(1) by (intro exI [of _ "pl_working p"]) (auto split: option.split_asm)
next
  case False
  obtain l s1 where g: "GetStateSnapshotLocked C db s = (l, s1)" by fastforce
  show ?thesis
  proof (cases l)
    case (Inl x)
    then have "p' = p" "s' = s1" "r = Inl x" using e False g by (simp_all add: EnsureWorkingContext_def GetStateSnapshot_def)
    moreover have "store_ok C G nb g0 db s1" by (rule GetStateSnapshotLocked_ok(1) [OF s g])
    ultimately show ?thesis by (intro exI [of _ "pl_working p"]) simp
  next
    case (Inr l)
    note g = g [unfolded Inr] and k = GetStateSnapshotLocked_ok [OF s g [unfolded Inr]]
    have b: "ss_network_binding s1 = nb" "ss_network_genesis s1 = G" using k(1) by (simp_all add: store_ok_def)
    let ?W = "\<lambda>st x. \<lparr> wc_head = head, wc_finalized_state = st, wc_executor = x \<rparr>"
    let ?X = "\<lambda>st. context_executor C G nb (?W st undefined)"
    let ?P = "\<lambda>(r, p', s'). s' = s1 \<and> (r = Inr () \<and> p' = p \<lparr> pl_working := None \<rparr> \<or> (\<exists>st x. slr_state l = Some st \<and> m_valid (?X st)
        \<and> p' = p \<lparr> pl_working := Some (?W st x) \<rparr>
        \<and> (r = Inr () \<and> replay C torn (pl_entries p) (?X st) = (Inr True, x) \<or> (\<exists>err. r = Inl err \<and> replay C torn (pl_entries p) (?X st) = (Inl err, x)))))"
    have "ends ?P (EnsureWorkingContext C torn db head p s)"
      unfolding EnsureWorkingContext_def if_not_P [OF False] GetStateSnapshot_def g Let_def prod.case sum.case context_executor_def
      by (intro ends_intros) (auto simp: b)
    then have "?P (r, p', s')" unfolding ends_def e by blast
    then consider (none) "s' = s1" "r = Inr ()" "p' = p \<lparr> pl_working := None \<rparr>"
      | (ctx) st x where "s' = s1" "slr_state l = Some st" "m_valid (?X st)" "p' = p \<lparr> pl_working := Some (?W st x) \<rparr>"
          "r = Inr () \<and> replay C torn (pl_entries p) (?X st) = (Inr True, x) \<or> (\<exists>err. r = Inl err \<and> replay C torn (pl_entries p) (?X st) = (Inl err, x))" by auto
    then show ?thesis
    proof cases
      case none
      then show ?thesis using k(1) by (intro exI [of _ None]) (simp add: working_ok_none)
    next
      case ctx
      have lv: "live C nb g0 db st" by (rule k(2) [OF HOL.refl ctx(2)])
      have cx: "context_executor C G nb (?W st x) = ?X st" "good_state C g0 st" using lv by (simp_all add: context_executor_def live_def)
      have wk: "working_ok C G nb g0 p'" if "replay C torn (pl_entries p) (?X st) = (Inr True, x)"
        using replay_torn [OF that] ctx(3) cx unfolding ctx(4) by (simp add: working_ok_def context_ok_def)
      have "replay C torn [] (?X st) = (Inr True, ?X st)" by simp
      moreover have "l = \<lparr> slr_error = slr_error l, slr_state = Some st \<rparr>" using ctx(2) by simp
      then have "ss_snapshot s' = Some st" unfolding ctx(1) using snapshot_kept [of C db s "slr_error l" st s1] g by metis
      ultimately show ?thesis using lv wk ctx k(1) g by (intro exI [of _ "Some (?W st x)"]) (auto simp: GetStateSnapshot_def)
    qed
  qed
qed

lemma ensure_cleared:
  assumes s: "store_ok C G nb g0 db s" "addressable db" and e: "EnsureWorkingContext C torn db head p s = (r, p', s')" and p: "pl_entries p = []" "pl_working p = None"
  shows "\<exists>v. p' = p \<lparr> pl_working := v \<rparr> \<and> store_ok C G nb g0 db s' \<and> (\<forall>w. v = Some w \<longrightarrow> wc_head w = head \<and> live C nb g0 db (wc_finalized_state w)
    \<and> ss_snapshot s' = Some (wc_finalized_state w) \<and> working_ok C G nb g0 p')"
proof -
  obtain v where v: "p' = p \<lparr> pl_working := v \<rparr>" "store_ok C G nb g0 db s'"
    "\<forall>w. v = Some w \<longrightarrow> v = pl_working p \<or> (wc_head w = head \<and> live C nb g0 db (wc_finalized_state w) \<and> ss_snapshot s' = Some (wc_finalized_state w)
       \<and> (pl_entries p = [] \<longrightarrow> working_ok C G nb g0 p'))"
    using EnsureWorkingContext_step [OF s e] by blast
  have "\<forall>w. v = Some w \<longrightarrow> wc_head w = head \<and> live C nb g0 db (wc_finalized_state w) \<and> ss_snapshot s' = Some (wc_finalized_state w) \<and> working_ok C G nb g0 p'"
    using v(3) unfolding p by blast
  with v(1,2) show ?thesis by blast
qed

text \<open>An interrupted replay leaves its context in place, and the next call takes it for complete.\<close>

lemma interrupted_context_trusted:
  assumes "EnsureWorkingContext C torn db head p s = (Inl e, p', s')" and "pl_working p' \<noteq> pl_working p"
  shows "\<exists>w err. pl_working p' = Some w \<and> wc_head w = head \<and> replay C torn (pl_entries p') (new_executor C (wc_finalized_state w) (ss_network_binding s')
      (fh_height head + 1) (ss_params s') (Some (ss_poa_key s')) (fh_block_id head)) = (Inl err, wc_executor w)
    \<and> EnsureWorkingContext C torn' db head p' s'' = (Inr (), p', s'')"
proof -
  let ?P = "\<lambda>(r :: exn + unit, p', s'). isl r \<longrightarrow> pl_working p' = pl_working p \<or> (\<exists>w err. p' = p \<lparr> pl_working := Some w \<rparr> \<and> wc_head w = head
      \<and> replay C torn (pl_entries p) (new_executor C (wc_finalized_state w) (ss_network_binding s') (fh_height head + 1) (ss_params s') (Some (ss_poa_key s'))
           (fh_block_id head)) = (Inl err, wc_executor w))"
  have "ends ?P (EnsureWorkingContext C torn db head p s)"
    unfolding EnsureWorkingContext_def Let_def by (intro ends_intros) auto
  then have "?P (Inl e, p', s')" unfolding ends_def assms(1) by blast
  with assms(2) show ?thesis by (auto simp: EnsureWorkingContext_def)
qed

lemma admit_working_step:
  assumes "admit_working C nb e w p = Inr (r, p')"
  shows "(r = REJECTED \<and> p' = p) \<or> (r = ACCEPTED \<and> FitsGlobalLimits p (pe_bytes e) \<and> fits_peer p (pe_source_peer e) (pe_bytes e)
     \<and> CheckOperationWork C nb (pe_id e) (pe_work_nonce e) (RequiredWorkBits (pl_limits p) (pe_operation e)) = Inr True
     \<and> (\<exists>x. try_operation C (pe_operation e) (wc_executor w) = Inr (Some x) \<and> p' = hold e w x p))"
  using assms by (auto simp: admit_working_def bindE_Inr_iff split: if_split_asm option.split_asm)

text \<open>The accounting always holds; the context is complete as long as \<open>intact\<close> is true.\<close>

definition pool_ok :: "crypto \<Rightarrow> VerifiedNetworkGenesis \<Rightarrow> hash256 \<Rightarrow> CybouState \<Rightarrow> OperationPoolLimits \<Rightarrow> bool \<Rightarrow> OperationPool \<Rightarrow> bool" where
  "pool_ok C G nb g0 L intact p \<longleftrightarrow> pl_limits p = L \<and> pool_accounts C nb p \<and> (intact \<longrightarrow> working_ok C G nb g0 p)"

definition pool_named :: "finalized_states \<Rightarrow> OperationPool \<Rightarrow> bool" where
  "pool_named final p \<longleftrightarrow> (\<forall>w. pl_working p = Some w \<longrightarrow> context_named final w)"

lemma pool_ok_hold:
  assumes "pool_ok C G nb g0 L intact p" "pl_working p = Some w" "try_operation C (pe_operation e) (wc_executor w) = Inr (Some x)"
    "entry_ok C nb L e" "pe_id e \<notin> pl_ids p" "FitsGlobalLimits p (pe_bytes e)" "fits_peer p (pe_source_peer e) (pe_bytes e)"
  shows "pool_ok C G nb g0 L intact (hold e w x p)"
  using assms pool_accounts_hold [of C nb p e w x] working_ok_hold [of C G nb g0 p w e x] by (auto simp: pool_ok_def)

lemma EnsureWorkingContext_named:
  assumes s: "store_ok C G nb g0 db s" "addressable db" and e: "EnsureWorkingContext C torn db head p s = (r, p', s')"
    and n: "named C final db s" "GetFinalizedHead db = Inr (Some head)" "pool_named final p"
  shows "pool_named final p'"
  unfolding pool_named_def
proof (intro allI impI)
  fix w
  assume w: "pl_working p' = Some w"
  consider "pl_working p = Some w" | l where "wc_head w = head" "GetStateSnapshot C db s = (Inr l, s')" "slr_state l = Some (wc_finalized_state w)"
    using EnsureWorkingContext_step [OF s e] w by auto
  then show "context_named final w"
  proof cases
    case 1
    then show ?thesis using n(3) by (simp add: pool_named_def)
  next
    case 2
    then show ?thesis using n(1,2) by (auto simp: context_named_def named_def prod_eq_iff)
  qed
qed

text \<open>The outcomes of \<^verbatim>\<open>Admit\<close>.\<close>

lemma Admit_outcomes:
  assumes a: "Admit C torn db operation work_nonce source_peer p s = (r, p', s')"
  obtains (same) "r \<noteq> Inr ACCEPTED" "p' = p" "s' = s"
    | (refused) head ensured where "GetFinalizedHead db = Inr (Some head)" "EnsureWorkingContext C torn db head p s = (ensured, p', s')"
        "r \<noteq> Inr ACCEPTED" "isl ensured \<longrightarrow> isl r"
    | (accepted) head q bs i w x where "r = Inr ACCEPTED" "SerializeProtocolOperation C operation = Inr (Some bs)" "bs \<noteq> []" "length bs \<le> MAX_OPERATION_PAYLOAD_BYTES"
        "OperationIdOfBytes C bs = Some i" "i \<noteq> 0" "i \<notin> pl_ids p" "GetFinalizedHead db = Inr (Some head)" "EnsureWorkingContext C torn db head p s = (Inr (), q, s')"
        "pl_working q = Some w" "try_operation C operation (wc_executor w) = Inr (Some x)" "FitsGlobalLimits q (of_nat (length bs))"
        "fits_peer q source_peer (of_nat (length bs))" "CheckOperationWork C (ss_network_binding s') i work_nonce (RequiredWorkBits (pl_limits q) operation) = Inr True"
        "p' = hold \<lparr> pe_operation = operation, pe_id = i, pe_work_nonce = work_nonce, pe_bytes = of_nat (length bs), pe_source_peer = source_peer \<rparr> w x q"
proof -
  let ?e = "\<lambda>i bs. \<lparr> pe_operation = operation, pe_id = i, pe_work_nonce = work_nonce, pe_bytes = of_nat (length bs), pe_source_peer = source_peer \<rparr>"
  let ?P = "\<lambda>(r, p', s'). (r \<noteq> Inr ACCEPTED \<and> p' = p \<and> s' = s) \<or> (\<exists>head ensured q. GetFinalizedHead db = Inr (Some head)
      \<and> EnsureWorkingContext C torn db head p s = (ensured, q, s')
      \<and> ((r \<noteq> Inr ACCEPTED \<and> p' = q \<and> (isl ensured \<longrightarrow> isl r)) \<or> (\<exists>bs i w a. ensured = Inr () \<and> SerializeProtocolOperation C operation = Inr (Some bs) \<and> bs \<noteq> []
        \<and> length bs \<le> MAX_OPERATION_PAYLOAD_BYTES \<and> OperationIdOfBytes C bs = Some i \<and> i \<noteq> 0 \<and> i \<notin> pl_ids p
        \<and> pl_working q = Some w \<and> r = Inr a \<and> admit_working C (ss_network_binding s') (?e i bs) w q = Inr (a, p'))))"
  have "ends ?P (Admit C torn db operation work_nonce source_peer p s)"
    unfolding Admit_def by (intro ends_intros) (auto simp: not_less)
  then have "?P (r, p', s')" unfolding ends_def a by blast
  then consider "r \<noteq> Inr ACCEPTED" "p' = p" "s' = s"
    | head ensured where "GetFinalizedHead db = Inr (Some head)" "EnsureWorkingContext C torn db head p s = (ensured, p', s')" "r \<noteq> Inr ACCEPTED" "isl ensured \<longrightarrow> isl r"
    | head q bs i w a where "GetFinalizedHead db = Inr (Some head)" "EnsureWorkingContext C torn db head p s = (Inr (), q, s')"
        "SerializeProtocolOperation C operation = Inr (Some bs)" "bs \<noteq> []" "length bs \<le> MAX_OPERATION_PAYLOAD_BYTES" "OperationIdOfBytes C bs = Some i" "i \<noteq> 0"
        "i \<notin> pl_ids p" "pl_working q = Some w" "r = Inr a" "admit_working C (ss_network_binding s') (?e i bs) w q = Inr (a, p')"
    by auto
  then show thesis
  proof cases
    case 3
    from admit_working_step [OF 3(11)] show thesis
    proof (elim disjE conjE exE)
      assume "a = REJECTED" "p' = q"
      then show thesis using refused [of head "Inr ()"] 3 by simp
    qed (use accepted 3 in auto)
  qed (use same refused in blast)+
qed

text \<open>A call of \<^verbatim>\<open>Admit\<close> leaves the accounting exact; an accepted operation is the last of the pool, on the current head.\<close>

lemma Admit_step:
  assumes s: "store_ok C G nb g0 db s" "addressable db" and p: "pool_ok C G nb g0 L intact p"
    and a: "Admit C torn db operation work_nonce source_peer p s = (r, p', s')"
  shows "pool_ok C G nb g0 L (intact \<and> (isl r \<longrightarrow> pl_working p' = pl_working p)) p'"
    and "named C final db s \<Longrightarrow> pool_named final p \<Longrightarrow> pool_named final p'"
    and "r = Inr ACCEPTED \<Longrightarrow> \<exists>w head. pl_working p' = Some w \<and> GetFinalizedHead db = Inr (Some head) \<and> fh_block_id (wc_head w) = fh_block_id head
       \<and> Snapshot p' = Snapshot p @ [operation] \<and> CanFinalize C (wc_executor w)"
proof -
  let ?head = "\<lambda>w head. pl_working p' = Some w \<and> GetFinalizedHead db = Inr (Some head) \<and> fh_block_id (wc_head w) = fh_block_id head
       \<and> Snapshot p' = Snapshot p @ [operation] \<and> CanFinalize C (wc_executor w)"
  have "pool_ok C G nb g0 L (intact \<and> (isl r \<longrightarrow> pl_working p' = pl_working p)) p' \<and> (named C final db s \<longrightarrow> pool_named final p \<longrightarrow> pool_named final p')
     \<and> (r = Inr ACCEPTED \<longrightarrow> (\<exists>w head. ?head w head))"
    using a
  proof (cases rule: Admit_outcomes)
    case same
    then show ?thesis using p by (auto simp: pool_ok_def)
  next
    case (refused head ensured)
    obtain v where v: "p' = p \<lparr> pl_working := v \<rparr>" "ensured = Inr () \<and> working_ok C G nb g0 p \<longrightarrow> working_ok C G nb g0 p'"
      using EnsureWorkingContext_step [OF s refused(2)] by blast
    have "working_ok C G nb g0 p'" if "intact" "isl r \<longrightarrow> pl_working p' = pl_working p"
    proof (cases ensured)
      case (Inl e)
      then have "p' = p" using that(2) refused(4) v(1) by simp
      then show ?thesis using that(1) p by (simp add: pool_ok_def)
    qed (use v(2) that(1) p in \<open>simp add: pool_ok_def\<close>)
    then show ?thesis using p v(1) refused(3) EnsureWorkingContext_named [OF s refused(2) _ refused(1)] by (auto simp: pool_ok_def)
  next
    case (accepted head q bs i w x)
    obtain v where q: "q = p \<lparr> pl_working := v \<rparr>" "store_ok C G nb g0 db s'" "working_ok C G nb g0 p \<longrightarrow> working_ok C G nb g0 q"
      and v: "\<forall>w. v = Some w \<longrightarrow> fh_block_id (wc_head w) = fh_block_id head \<or> wc_head w = head"
      using EnsureWorkingContext_step [OF s accepted(9)] by blast
    have h: "fh_block_id (wc_head w) = fh_block_id head" using v accepted(10) q(1) by auto
    have ok: "pool_ok C G nb g0 L intact q" using p q(1,3) by (simp add: pool_ok_def)
    have nb: "ss_network_binding s' = nb" using q(2) by (simp add: store_ok_def)
    let ?e = "\<lparr> pe_operation = operation, pe_id = i, pe_work_nonce = work_nonce, pe_bytes = of_nat (length bs), pe_source_peer = source_peer \<rparr>"
    have "unat (of_nat (length bs) :: u64) = length bs" using accepted(4) by (simp add: MAX_OPERATION_PAYLOAD_BYTES_def unsigned_of_nat take_bit_nat_eq_self_iff)
    moreover have "source_peer \<noteq> Some []" using accepted(13) by (auto simp: fits_peer_def)
    ultimately have "entry_ok C nb L ?e" using accepted ok nb by (simp add: entry_ok_def pool_ok_def)
    then have "pool_ok C G nb g0 L intact p'" unfolding accepted(15) using ok accepted q(1) by (intro pool_ok_hold) simp_all
    moreover have "pool_named final p'" if "named C final db s" "pool_named final p"
      using EnsureWorkingContext_named [OF s accepted(9) that(1) accepted(8) that(2)] accepted(10) unfolding accepted(15) by (simp add: pool_named_def)
    moreover have "?head (w \<lparr> wc_executor := x \<rparr>) head" using accepted(8) q(1) h try_operation_Some [OF accepted(11)] unfolding accepted(15) by (simp add: Snapshot_def)
    ultimately show ?thesis using accepted(1) by auto
  qed
  then show "pool_ok C G nb g0 L (intact \<and> (isl r \<longrightarrow> pl_working p' = pl_working p)) p'" "named C final db s \<Longrightarrow> pool_named final p \<Longrightarrow> pool_named final p'"
    "r = Inr ACCEPTED \<Longrightarrow> \<exists>w head. ?head w head" by blast+
qed

text \<open>One iteration of the revalidation loop.\<close>

lemma readmit_step:
  assumes "readmit C db s e w p = Inr r"
  shows "r = None \<or> (\<exists>x. r = Some (hold e w x p) \<and> pe_id e \<notin> pl_ids p \<and> HasIndexedFinalizedOperation C db s (pe_id e) = Inr False
     \<and> FitsGlobalLimits p (pe_bytes e) \<and> fits_peer p (pe_source_peer e) (pe_bytes e)
     \<and> try_operation C (pe_operation e) (wc_executor w) = Inr (Some x))"
proof -
  have "results (\<lambda>r. r = None \<or> (\<exists>x. r = Some (hold e w x p) \<and> pe_id e \<notin> pl_ids p \<and> HasIndexedFinalizedOperation C db s (pe_id e) = Inr False
     \<and> FitsGlobalLimits p (pe_bytes e) \<and> fits_peer p (pe_source_peer e) (pe_bytes e)
     \<and> try_operation C (pe_operation e) (wc_executor w) = Inr (Some x))) (readmit C db s e w p)"
    unfolding readmit_def by (intro results_intros) (auto, (metis option.exhaust)+)
  then show ?thesis unfolding results_def assms by blast
qed

text \<open>The loop: what is held stays a block, also when an exception ends the loop early.\<close>

lemma readmit_all_step:
  assumes "readmit_all C db s es p = (r, p')" and "pool_ok C G nb g0 L True p" and "list_all (entry_ok C nb L) es"
    and "pl_working p = Some w" and "pl_entries p \<noteq> [] \<longrightarrow> CanFinalize C (wc_executor w)"
  shows "pool_ok C G nb g0 L True p' \<and> (\<exists>ks w'. subseq ks es \<and> pl_entries p' = pl_entries p @ ks
     \<and> (\<forall>dropped. r = Inr dropped \<longrightarrow> mset (map pe_id es) = mset (map pe_id ks) + mset dropped)
     \<and> (\<forall>e\<in>set ks. HasIndexedFinalizedOperation C db s (pe_id e) = Inr False)
     \<and> pl_working p' = Some w' \<and> wc_head w' = wc_head w \<and> wc_finalized_state w' = wc_finalized_state w
     \<and> (pl_entries p' \<noteq> [] \<longrightarrow> CanFinalize C (wc_executor w')))"
  using assms
proof (induction es arbitrary: p w r)
  case Nil
  then show ?case by auto
next
  case (Cons e es)
  have le: "list_all (entry_ok C nb L) es" "entry_ok C nb L e" using Cons.prems(3) by simp_all
  consider (thrown) "isl r" "p' = p"
    | (dropped) r' where "readmit_all C db s es p = (r', p')" "\<forall>d. r = Inr d \<longrightarrow> (\<exists>d'. r' = Inr d' \<and> d = pe_id e # d')"
    | (kept) x where "readmit_all C db s es (hold e w x p) = (r, p')" "pe_id e \<notin> pl_ids p" "HasIndexedFinalizedOperation C db s (pe_id e) = Inr False"
      "FitsGlobalLimits p (pe_bytes e)" "fits_peer p (pe_source_peer e) (pe_bytes e)" "try_operation C (pe_operation e) (wc_executor w) = Inr (Some x)"
  proof (cases "readmit C db s e w p")
    case (Inl err)
    then show thesis using thrown Cons.prems(1,4) by auto
  next
    case (Inr kept_pool)
    from readmit_step [OF Inr] show thesis
    proof (elim disjE exE conjE)
      assume none: "kept_pool = None"
      obtain r' q where rest: "readmit_all C db s es p = (r', q)" by fastforce
      show thesis using dropped [of r'] Cons.prems(1,4) Inr none rest by (cases r') auto
    qed (use kept Cons.prems(1,4) Inr in auto)
  qed
  then show ?case
  proof cases
    case thrown
    then show ?thesis using Cons.prems by (intro conjI exI [of _ "[]"] exI [of _ w]) (auto simp: isl_def)
  next
    case (dropped r')
    obtain ks w' where k: "pool_ok C G nb g0 L True p'" "subseq ks es" "pl_entries p' = pl_entries p @ ks"
      "\<forall>d. r' = Inr d \<longrightarrow> mset (map pe_id es) = mset (map pe_id ks) + mset d" "\<forall>e\<in>set ks. HasIndexedFinalizedOperation C db s (pe_id e) = Inr False"
      "pl_working p' = Some w'" "wc_head w' = wc_head w" "wc_finalized_state w' = wc_finalized_state w"
      "pl_entries p' \<noteq> [] \<longrightarrow> CanFinalize C (wc_executor w')"
      using Cons.IH [OF dropped(1) Cons.prems(2) le(1) Cons.prems(4,5)] by blast
    show ?thesis using k dropped(2) by (intro conjI exI [of _ ks] exI [of _ w']) auto
  next
    case (kept x)
    have ok: "pool_ok C G nb g0 L True (hold e w x p)" by (rule pool_ok_hold [OF Cons.prems(2,4) kept(6) le(2) kept(2,4,5)])
    obtain ks w' where k: "pool_ok C G nb g0 L True p'" "subseq ks es" "pl_entries p' = pl_entries p @ e # ks"
      "\<forall>d. r = Inr d \<longrightarrow> mset (map pe_id es) = mset (map pe_id ks) + mset d" "\<forall>e\<in>set ks. HasIndexedFinalizedOperation C db s (pe_id e) = Inr False"
      "pl_working p' = Some w'" "wc_head w' = wc_head w" "wc_finalized_state w' = wc_finalized_state w"
      "pl_entries p' \<noteq> [] \<longrightarrow> CanFinalize C (wc_executor w')"
      using Cons.IH [OF kept(1) ok le(1) hold_fields(5)] try_operation_Some [OF kept(6)] by auto
    show ?thesis using k kept(3) by (intro conjI exI [of _ "e # ks"] exI [of _ w']) auto
  qed
qed

lemma pool_ok_clear: "pl_limits p = L \<Longrightarrow> pool_ok C G nb g0 L intact (ClearPool p)"
  by (simp add: pool_ok_def working_ok_none) (simp add: ClearPool_def working_ok_def)

text \<open>\<^verbatim>\<open>Revalidate\<close>: what is kept is a subsequence of what was held, nothing kept is finalized already, and what is kept executes on
  the state of the finalized head; when the call returns, the rest is reported as dropped.\<close>

definition revalidated :: "crypto \<Rightarrow> VerifiedNetworkGenesis \<Rightarrow> hash256 \<Rightarrow> CybouState \<Rightarrow> KVStore \<Rightarrow> CybouStateStore \<Rightarrow> OperationPool
    \<Rightarrow> exn + hash256 list \<Rightarrow> OperationPool \<Rightarrow> bool" where
  "revalidated C G nb g0 db s p r p' \<longleftrightarrow> subseq (pl_entries p') (pl_entries p) \<and> (\<forall>dropped. r = Inr dropped \<longrightarrow> mset (Ids p) = mset (Ids p') + mset dropped)
     \<and> (\<forall>e\<in>set (pl_entries p'). HasIndexedFinalizedOperation C db s (pe_id e) = Inr False)
     \<and> (pl_entries p' \<noteq> [] \<longrightarrow> (\<exists>w. pl_working p' = Some w \<and> ss_snapshot s = Some (wc_finalized_state w) \<and> GetFinalizedHead db = Inr (Some (wc_head w)) \<and> fh_height (wc_head w) \<noteq> U64_MAX
          \<and> live C nb g0 db (wc_finalized_state w) \<and> CanFinalize C (wc_executor w)))"

lemma revalidated_none: "pl_entries p' = [] \<Longrightarrow> \<forall>dropped. r = Inr dropped \<longrightarrow> dropped = Ids p \<Longrightarrow> revalidated C G nb g0 db s p r p'"
  by (auto simp: revalidated_def Ids_def)

lemma Revalidate_step:
  assumes s: "store_ok C G nb g0 db s" "addressable db" and p: "pool_ok C G nb g0 L intact p"
    and a: "Revalidate C torn db p s = (r, p', s')"
  shows "pool_ok C G nb g0 L True p' \<and> revalidated C G nb g0 db s' p r p' \<and> store_ok C G nb g0 db s' \<and> (named C final db s \<longrightarrow> pool_named final p')"
proof -
  let ?p0 = "ClearPool p" and ?all = "\<lambda>r. \<forall>dropped. r = Inr dropped \<longrightarrow> dropped = Ids p"
  let ?P = "\<lambda>(r, p', s'). (?all r \<and> p' = ?p0 \<and> s' = s)
     \<or> (\<exists>head ensured q. GetFinalizedHead db = Inr (Some head) \<and> fh_height head \<noteq> U64_MAX \<and> EnsureWorkingContext C torn db head ?p0 s = (ensured, q, s')
       \<and> (?all r \<and> p' = q \<or> (\<exists>w. pl_working q = Some w \<and> readmit_all C db s' (pl_entries p) q = (r, p'))))"
  have "ends ?P (Revalidate C torn db p s)"
    unfolding Revalidate_def Let_def by (intro ends_intros) (auto simp: Ids_def ends_def)
  then have c: "?P (r, p', s')" unfolding ends_def a by blast
  have e0: "pl_entries ?p0 = []" "pl_working ?p0 = None" by (simp_all add: ClearPool_def)
  have ok0: "pool_ok C G nb g0 L True ?p0" using p by (intro pool_ok_clear) (simp add: pool_ok_def)
  have es: "list_all (entry_ok C nb L) (pl_entries p)" using p by (auto simp: pool_ok_def pool_accounts_def)
  have n0: "pool_named final ?p0" by (simp add: pool_named_def e0)
  from c consider "?all r" "p' = ?p0" "s' = s"
    | head ensured q where "GetFinalizedHead db = Inr (Some head)" "fh_height head \<noteq> U64_MAX" "EnsureWorkingContext C torn db head ?p0 s = (ensured, q, s')"
        "?all r \<and> p' = q \<or> (\<exists>w. pl_working q = Some w \<and> readmit_all C db s' (pl_entries p) q = (r, p'))" by auto
  then show ?thesis
  proof cases
    case 1
    then show ?thesis using ok0 s(1) revalidated_none [OF e0(1)] n0 by auto
  next
    case 2
    obtain v where q: "q = ?p0 \<lparr> pl_working := v \<rparr>" "store_ok C G nb g0 db s'"
      "\<forall>w. v = Some w \<longrightarrow> wc_head w = head \<and> live C nb g0 db (wc_finalized_state w) \<and> ss_snapshot s' = Some (wc_finalized_state w) \<and> working_ok C G nb g0 q"
      using ensure_cleared [OF s 2(3) e0] by blast
    have qe: "pl_entries q = []" "pl_working q = v" unfolding q(1) using e0(1) by simp_all
    have "working_ok C G nb g0 q" using q(3) qe(2) by (cases v) (simp_all add: working_ok_none)
    then have okq: "pool_ok C G nb g0 L True q" using ok0 unfolding q(1) by (simp add: pool_ok_def)
    have nq: "named C final db s \<Longrightarrow> pool_named final q" using EnsureWorkingContext_named [OF s 2(3) _ 2(1) n0] .
    from 2(4) show ?thesis
    proof (elim disjE conjE exE)
      assume "?all r" "p' = q"
      then show ?thesis using okq q(2) revalidated_none [OF qe(1)] nq by auto
    next
      fix w
      assume w: "pl_working q = Some w" and r: "readmit_all C db s' (pl_entries p) q = (r, p')"
      have h: "wc_head w = head" "live C nb g0 db (wc_finalized_state w)" "ss_snapshot s' = Some (wc_finalized_state w)" using q(3) w qe(2) by simp_all
      obtain ks w' where k: "pool_ok C G nb g0 L True p'" "subseq ks (pl_entries p)" "pl_entries p' = ks"
        "\<forall>d. r = Inr d \<longrightarrow> mset (map pe_id (pl_entries p)) = mset (map pe_id ks) + mset d" "\<forall>e\<in>set ks. HasIndexedFinalizedOperation C db s' (pe_id e) = Inr False"
        "pl_working p' = Some w'" "wc_head w' = wc_head w" "wc_finalized_state w' = wc_finalized_state w" "pl_entries p' \<noteq> [] \<longrightarrow> CanFinalize C (wc_executor w')"
        using readmit_all_step [OF r okq es w] qe(1) by auto
      have "pool_named final p'" if "named C final db s"
        using nq [OF that] w k(6-8) by (simp add: pool_named_def context_named_def)
      then show ?thesis using k h q(2) 2(1,2) unfolding revalidated_def Ids_def by auto
    qed
  qed
qed

section \<open>Histories\<close>

text \<open>
  A pool over its life: each call may meet another state of the same node's store, any that satisfies \<open>met\<close>, and may be interrupted by an exception. The context
  stops being \<open>intact\<close> when an exception leaves an \<^verbatim>\<open>Admit\<close> that had replaced it.
\<close>

inductive pool_reach :: "crypto \<Rightarrow> VerifiedNetworkGenesis \<Rightarrow> hash256 \<Rightarrow> CybouState \<Rightarrow> (KVStore \<Rightarrow> CybouStateStore \<Rightarrow> bool) \<Rightarrow> OperationPoolLimits \<Rightarrow> bool \<Rightarrow> OperationPool \<Rightarrow> bool"
  for C G nb g0 met L where
  create: "pool_reach C G nb g0 met L True (new_pool L)"
| admit: "pool_reach C G nb g0 met L intact p \<Longrightarrow> store_ok C G nb g0 db s \<Longrightarrow> addressable db \<Longrightarrow> met db s
    \<Longrightarrow> Admit C torn db operation work_nonce source_peer p s = (r, p', s')
    \<Longrightarrow> pool_reach C G nb g0 met L (intact \<and> (isl r \<longrightarrow> pl_working p' = pl_working p)) p'"
| revalidate: "pool_reach C G nb g0 met L intact p \<Longrightarrow> store_ok C G nb g0 db s \<Longrightarrow> addressable db \<Longrightarrow> met db s
    \<Longrightarrow> Revalidate C torn db p s = (r, p', s') \<Longrightarrow> pool_reach C G nb g0 met L True p'"
| clear: "pool_reach C G nb g0 met L intact p \<Longrightarrow> pool_reach C G nb g0 met L True (ClearPool p)"

lemma pool_reach_ok: "pool_reach C G nb g0 met L intact p \<Longrightarrow> pool_ok C G nb g0 L intact p"
proof (induction rule: pool_reach.induct)
  case create
  then show ?case by (simp add: pool_ok_def working_ok_def) (simp add: new_pool_def)
next
  case (admit intact p db s torn operation work_nonce source_peer r p' s')
  then show ?case using Admit_step(1) by blast
next
  case (revalidate intact p db s torn r p' s')
  then show ?case using Revalidate_step by blast
next
  case (clear intact p)
  then show ?case by (intro pool_ok_clear) (simp add: pool_ok_def)
qed

lemma pool_reach_named:
  assumes "pool_reach C G nb g0 met L intact p" "\<forall>db s. met db s \<longrightarrow> named C final db s"
  shows "pool_named final p"
  using assms
proof (induction rule: pool_reach.induct)
  case (admit intact p db s torn operation work_nonce source_peer r p' s')
  then show ?case using Admit_step(2) [OF admit(2,3) pool_reach_ok [OF admit(1)] admit(5)] by blast
next
  case (revalidate intact p db s torn r p' s')
  then show ?case using Revalidate_step [OF revalidate(2,3) pool_reach_ok [OF revalidate(1)] revalidate(5)] by blast
qed (simp_all add: pool_named_def new_pool_def ClearPool_def)

lemma pool_accounts_nonce:
  assumes "pool_accounts C nb p" and "e \<in> set (pl_entries p)"
  shows "WorkNonce p (pe_id e) = Some (pe_work_nonce e)"
proof -
  have "find (\<lambda>f. pe_id f = pe_id e) es = Some e" if "distinct (map pe_id es)" "e \<in> set es" for es
    using that by (induction es) (auto simp: image_iff)
  with assms show ?thesis by (simp add: WorkNonce_def pool_accounts_def Ids_def)
qed

text \<open>The state root the store computes for a block of the held operations.\<close>

lemma pool_candidate:
  assumes s: "store_ok C G nb g0 db s" and p: "working_ok C G nb g0 p" "pl_working p = Some w" "pl_entries p \<noteq> []" "CanFinalize C (wc_executor w)"
    and h: "ss_snapshot s = Some (wc_finalized_state w)" "GetFinalizedHead db = Inr (Some (wc_head w))" "fh_height (wc_head w) \<noteq> U64_MAX"
  shows "ComputeCandidateStateRoot C (Snapshot p) (fh_height (wc_head w) + 1) db s
     = (Inr (CybouStateHash C (m_candidate (wc_executor w)) False), s)"
proof -
  have b: "ss_network_binding s = nb" "ss_network_genesis s = G" using s by (simp_all add: store_ok_def)
  have n: "Snapshot p \<noteq> []" "fh_height (wc_head w) + 1 \<noteq> 0"
    using p(3) h(3) by (simp_all add: Snapshot_def) (metis add_eq_0_iff add.commute)
  have "(if execution_ok (Finalize C (wc_executor w)) then ber_state_root (Finalize C (wc_executor w)) else None)
      = CybouStateHash C (m_candidate (wc_executor w)) False"
    using p(4) by (simp add: CanFinalize_def Finalize_def execution_ok_def empty_result_def fail_result_def split: option.split)
  then show ?thesis using working_block [OF p(1,2)] b n h
    by (simp add: ComputeCandidateStateRoot_def GetStateSnapshotLocked_def)
qed

end
