(* ===== verification/Finalizer.thy ===== *)
theory Finalizer
  imports SigningJournal Block
begin

text \<open>
  The PoA finalizer (\<^verbatim>\<open>poa_finalizer.h/.cpp\<close>): it records its intent in the journal before it asks the signer
  (\<^verbatim>\<open>poa_signer.h\<close>, an interface) for a signature, and checks the signature before it hands out a certificate.
  The safety argument runs over every history of the process and its store, crashes and failed writes included.
\<close>

section \<open>Data\<close>

datatype PoaSigningStatus = SIGNED | ALREADY_PREPARED | JOURNAL_REJECTED | SIGNING_FAILED

record PoaSigningResult =
  psr_status :: PoaSigningStatus
  psr_journal_status :: PoaJournalStatus
  psr_certificate :: "PoaFinalityCertificate option"

record PoaSigner =
  signer_PublicKey :: "IdentityHybridPublicKey option"
  signer_Sign :: "bytes \<Rightarrow> IdentityHybridSignature option"

record PoaFinalizer =
  f_network_binding :: hash256
  f_public_key :: IdentityHybridPublicKey
  f_signer :: "PoaSigner option"
  f_journal :: PoaSigningJournal


section \<open>Operations\<close>

text \<open>The journal member is opened before the key is checked, as the members are initialized first.\<close>

definition new_finalizer ::
  "crypto \<Rightarrow> write_outcome \<Rightarrow> hash256 \<Rightarrow> hash256 \<Rightarrow> IdentityHybridPublicKey \<Rightarrow> KVStore \<Rightarrow> (exn + PoaFinalizer) \<times> KVStore" where
  "new_finalizer C w network_binding genesis_anchor key db =
     (case open_journal C w network_binding genesis_anchor key db of (Inl e, db') \<Rightarrow> (Inl e, db')
      | (Inr j, db') \<Rightarrow>
        if purpose key \<noteq> POA_FINALIZER \<or> length (pk_ml_dsa key) \<noteq> 1952 then (Inl invalid_argument, db')
        else (Inr \<lparr> f_network_binding = network_binding, f_public_key = key, f_signer = None, f_journal = j \<rparr>, db'))"

definition EnableSigner :: "PoaSigner option \<Rightarrow> PoaFinalizer \<Rightarrow> bool \<times> PoaFinalizer" where
  "EnableSigner signer f = (case signer of None \<Rightarrow> (False, f)
     | Some s \<Rightarrow> if signer_PublicKey s \<noteq> Some (f_public_key f) then (False, f) else (True, f \<lparr> f_signer := Some s \<rparr>))"

definition DisableSigner :: "PoaFinalizer \<Rightarrow> PoaFinalizer" where
  "DisableSigner f = f \<lparr> f_signer := None \<rparr>"

definition Finalizer_CheckCanonicalTip ::
  "write_outcome \<Rightarrow> u64 \<Rightarrow> hash256 \<Rightarrow> KVStore \<Rightarrow> PoaFinalizer \<Rightarrow> PoaJournalStatus \<times> KVStore \<times> PoaFinalizer" where
  "Finalizer_CheckCanonicalTip w height tip db f =
     (let (s, db', j) = CheckCanonicalTip w height tip db (f_journal f) in (s, db', f \<lparr> f_journal := j \<rparr>))"

definition CreateCertificate ::
  "IdentityHybridSignature \<Rightarrow> hash256 \<Rightarrow> hash256 \<Rightarrow> u64 \<Rightarrow> hash256 \<Rightarrow> PoaFinalityCertificate option" where
  "CreateCertificate signature network_binding block_id height parent_block_id =
     (if network_binding = 0 \<or> block_id = 0 \<or> height = 0 \<or> parent_block_id = 0 then None
      else let certificate = \<lparr> pfc_network_binding = network_binding, pfc_block_id = block_id, pfc_height = height,
             pfc_parent_block_id = parent_block_id, pfc_signature = signature \<rparr>
        in if SerializePoaFinalityCertificate certificate = None then None else Some certificate)"

definition signing_failed :: "PoaJournalStatus \<Rightarrow> PoaSigningResult" where
  "signing_failed s = \<lparr> psr_status = SIGNING_FAILED, psr_journal_status = s, psr_certificate = None \<rparr>"

text \<open>The tail of \<^verbatim>\<open>SignFinality\<close>, once the journal holds the intent.\<close>

definition sign_prepared ::
  "crypto \<Rightarrow> hash256 \<Rightarrow> PoaJournalStatus \<Rightarrow> CybouBlock \<Rightarrow> PoaFinalizer \<Rightarrow> exn + PoaSigningResult" where
  "sign_prepared C block_id journal_status block f =
     (case f_signer f of None \<Rightarrow> Inr (signing_failed journal_status)
      | Some signer \<Rightarrow>
        bindE (ComputePoaFinalityDigest C (f_network_binding f) block_id (blk_height block) (blk_parent_block_id block)) (\<lambda>digest.
          case signer_Sign signer (hash_bytes digest) of None \<Rightarrow> Inr (signing_failed journal_status)
          | Some signature \<Rightarrow>
            if \<not> VerifyIdentityMessage C (f_public_key f) signature (hash_bytes digest) then Inr (signing_failed journal_status)
            else case CreateCertificate signature (f_network_binding f) block_id (blk_height block) (blk_parent_block_id block) of
                None \<Rightarrow> Inr (signing_failed journal_status)
              | Some certificate \<Rightarrow> Inr \<lparr>
                  psr_status = (if journal_status = PoaJournalStatus.ALREADY_PREPARED then ALREADY_PREPARED else SIGNED),
                  psr_journal_status = journal_status, psr_certificate = Some certificate \<rparr>))"

text \<open>At most one of the two journal calls writes: the second is made only if the first reports no mismatch.\<close>

definition SignFinality ::
  "crypto \<Rightarrow> write_outcome \<Rightarrow> u64 \<Rightarrow> hash256 \<Rightarrow> CybouBlock \<Rightarrow> KVStore \<Rightarrow> PoaFinalizer
   \<Rightarrow> (exn + PoaSigningResult) \<times> KVStore \<times> PoaFinalizer" where
  "SignFinality C w finalized_height finalized_tip block db f =
     (case bindE (SerializeBlock C block) (\<lambda>serialized. if serialized = None then Inr None
            else bindE (ComputeBlockId C block) (\<lambda>block_id. Inr (Some block_id))) of
        Inl e \<Rightarrow> (Inl e, db, f)
      | Inr None \<Rightarrow> (Inr (signing_failed PoaJournalStatus.NONE), db, f)
      | Inr (Some block_id) \<Rightarrow>
        if block_id = 0 then (Inr (signing_failed PoaJournalStatus.NONE), db, f)
        else if f_signer f = None \<or> j_halted (f_journal f) then (Inr (signing_failed PoaJournalStatus.NONE), db, f)
        else (case CheckCanonicalTip w finalized_height finalized_tip db (f_journal f) of (history_status, db1, j1) \<Rightarrow>
          if history_status \<noteq> PoaJournalStatus.NONE
          then (Inr \<lparr> psr_status = JOURNAL_REJECTED, psr_journal_status = history_status, psr_certificate = None \<rparr>, db1, f \<lparr> f_journal := j1 \<rparr>)
          else (case PrepareToSign w (blk_height block) (blk_parent_block_id block) block_id db1 j1 of (journal_status, db2, j2) \<Rightarrow>
            if journal_status \<noteq> PoaJournalStatus.NONE \<and> journal_status \<noteq> PoaJournalStatus.ALREADY_PREPARED
            then (Inr \<lparr> psr_status = JOURNAL_REJECTED, psr_journal_status = journal_status, psr_certificate = None \<rparr>, db2, f \<lparr> f_journal := j2 \<rparr>)
            else (sign_prepared C block_id journal_status block f, db2, f \<lparr> f_journal := j2 \<rparr>))))"

definition SignStorageSettlement :: "crypto \<Rightarrow> StorageSettlement \<Rightarrow> PoaFinalizer \<Rightarrow> bool \<times> StorageSettlement" where
  "SignStorageSettlement C op f =
     (case ComputeStorageSettlementDigest C (f_network_binding f) op of None \<Rightarrow> (False, op)
      | Some digest \<Rightarrow>
        (case f_signer f of None \<Rightarrow> (False, op)
         | Some signer \<Rightarrow>
           if j_halted (f_journal f) then (False, op)
           else (case signer_Sign signer (hash_bytes digest) of None \<Rightarrow> (False, op)
             | Some signature \<Rightarrow>
               if \<not> VerifyIdentityMessage C (f_public_key f) signature (hash_bytes digest) then (False, op)
               else (True, op \<lparr> st_poa_signature := signature \<rparr>))))"


section \<open>What one call does\<close>

definition intent_of :: "PoaFinalityCertificate \<Rightarrow> PoaJournalHead" where
  "intent_of c = \<lparr> jh_height = pfc_height c, jh_parent_block_id = pfc_parent_block_id c, jh_block_id = pfc_block_id c \<rparr>"

lemma sign_prepared_certificate:
  assumes "sign_prepared C b s block f = Inr r" and "psr_certificate r = Some c"
  shows "pfc_network_binding c = f_network_binding f \<and> pfc_block_id c = b \<and> pfc_height c = blk_height block
    \<and> pfc_parent_block_id c = blk_parent_block_id block \<and> ValidFields c
    \<and> (\<exists>digest. ComputePoaFinalityDigest C (f_network_binding f) b (blk_height block) (blk_parent_block_id block) = Inr digest
         \<and> VerifyIdentityMessage C (f_public_key f) (pfc_signature c) (hash_bytes digest))"
proof -
  let ?digest = "ComputePoaFinalityDigest C (f_network_binding f) b (blk_height block) (blk_parent_block_id block)"
  obtain signer where sg: "f_signer f = Some signer"
    using assms by (auto simp: sign_prepared_def signing_failed_def split: option.split_asm)
  obtain digest where d: "?digest = Inr digest"
    using assms(1) sg by (cases ?digest) (auto simp: sign_prepared_def)
  obtain sig where sig: "signer_Sign signer (hash_bytes digest) = Some sig"
      "VerifyIdentityMessage C (f_public_key f) sig (hash_bytes digest)"
      "CreateCertificate sig (f_network_binding f) b (blk_height block) (blk_parent_block_id block) = Some c"
    using assms sg d by (auto simp: sign_prepared_def signing_failed_def split: option.split_asm if_split_asm)
  then have "pfc_network_binding c = f_network_binding f \<and> pfc_block_id c = b \<and> pfc_height c = blk_height block
      \<and> pfc_parent_block_id c = blk_parent_block_id block \<and> pfc_signature c = sig \<and> ValidFields c"
    by (auto simp: CreateCertificate_def SerializePoaFinalityCertificate_def Let_def split: if_split_asm)
  then show ?thesis using d sig(2) by simp
qed

lemma SignFinality_moves:
  assumes "SignFinality C w fh ft block db f = (r, db', f')"
  shows "(journal_move C nb)\<^sup>*\<^sup>* (db, Some (f_journal f)) (db', Some (f_journal f')) \<and> f' = f \<lparr> f_journal := f_journal f' \<rparr>"
proof -
  obtain s1 d1 j1 where c: "CheckCanonicalTip w fh ft db (f_journal f) = (s1, d1, j1)" by (metis prod_cases3)
  have m1: "journal_move C nb (db, Some (f_journal f)) (d1, Some j1)" by (rule journal_move.checked [OF c])
  obtain x where x: "x = bindE (SerializeBlock C block) (\<lambda>serialized. if serialized = None then Inr None
            else bindE (ComputeBlockId C block) (\<lambda>block_id. Inr (Some block_id)))" by blast
  consider "db' = db" "f' = f" | "db' = d1" "f' = f \<lparr> f_journal := j1 \<rparr>"
    | b s2 j2 where "PrepareToSign w (blk_height block) (blk_parent_block_id block) b d1 j1 = (s2, db', j2)" "f' = f \<lparr> f_journal := j2 \<rparr>"
    using assms unfolding SignFinality_def c x [symmetric]
    by (auto split: sum.split_asm option.split_asm if_split_asm prod.split_asm)
  then show ?thesis
  proof cases
    case 3
    then have "journal_move C nb (d1, Some j1) (db', Some j2)" by (intro journal_move.prepared)
    with m1 3 show ?thesis by (auto intro: rtranclp.rtrancl_into_rtrancl)
  qed (use m1 in auto)
qed

lemma SignFinality_issues:
  assumes "SignFinality C w fh ft block db f = (Inr r, db', f')" and "psr_certificate r = Some c"
  obtains b s1 d1 j1 s2 j2 where "SerializeBlock C block \<noteq> Inr None" "\<exists>bs. SerializeBlock C block = Inr bs"
    "ComputeBlockId C block = Inr b" "b \<noteq> 0"
    "CheckCanonicalTip w fh ft db (f_journal f) = (s1, d1, j1)" "s1 = PoaJournalStatus.NONE"
    "PrepareToSign w (blk_height block) (blk_parent_block_id block) b d1 j1 = (s2, db', j2)"
    "s2 = PoaJournalStatus.NONE \<or> s2 = PoaJournalStatus.ALREADY_PREPARED"
    "sign_prepared C b s2 block f = Inr r"
proof -
  obtain s1 d1 j1 where ck: "CheckCanonicalTip w fh ft db (f_journal f) = (s1, d1, j1)" by (metis prod_cases3)
  show ?thesis
    using assms that ck unfolding SignFinality_def
    by (auto simp: signing_failed_def bindE_Inr_iff split: sum.split_asm option.split_asm if_split_asm prod.split_asm)
qed

lemma SignFinality_durable:
  assumes "SignFinality C w fh ft block db f = (Inr r, db', f')" and "psr_certificate r = Some c"
    and "journal_ok nb db (f_journal f)"
  shows "durable_head nb db' = Some (intent_of c)"
proof -
  obtain b s1 d1 j1 s2 j2 where ck: "CheckCanonicalTip w fh ft db (f_journal f) = (s1, d1, j1)"
    and pr: "PrepareToSign w (blk_height block) (blk_parent_block_id block) b d1 j1 = (s2, db', j2)"
      "s2 = PoaJournalStatus.NONE \<or> s2 = PoaJournalStatus.ALREADY_PREPARED"
    and sp: "sign_prepared C b s2 block f = Inr r"
    using SignFinality_issues [OF assms(1,2)] by metis
  have "journal_ok nb d1 j1" using CheckCanonicalTip_keeps [OF ck assms(3)] by simp
  from PrepareToSign_head [OF pr(1) this pr(2)] sign_prepared_certificate [OF sp assms(2)]
  show ?thesis by (simp add: intent_of_def)
qed


section \<open>Every history of a finalizer\<close>

text \<open>
  The node: its store, the finalizer while the process runs, and the certificates handed out so far (which have no
  counterpart in the code: they are what the world has seen).
\<close>

record finalizer_node =
  nd_db :: KVStore
  nd_finalizer :: "PoaFinalizer option"
  nd_issued :: "PoaFinalityCertificate list"

inductive finalizer_step :: "crypto \<Rightarrow> hash256 \<Rightarrow> finalizer_node \<Rightarrow> finalizer_node \<Rightarrow> bool" for C nb where
  start: "nd_finalizer n = None \<Longrightarrow> new_finalizer C w nb ga key (nd_db n) = (Inr f, db') \<Longrightarrow>
    finalizer_step C nb n (n \<lparr> nd_db := db', nd_finalizer := Some f \<rparr>)"
| start_refused: "nd_finalizer n = None \<Longrightarrow> new_finalizer C w nb ga key (nd_db n) = (Inl e, db') \<Longrightarrow>
    finalizer_step C nb n (n \<lparr> nd_db := db' \<rparr>)"
| crash: "finalizer_step C nb n (n \<lparr> nd_finalizer := None \<rparr>)"
| enable: "nd_finalizer n = Some f \<Longrightarrow> finalizer_step C nb n (n \<lparr> nd_finalizer := Some (snd (EnableSigner s f)) \<rparr>)"
| disable: "nd_finalizer n = Some f \<Longrightarrow> finalizer_step C nb n (n \<lparr> nd_finalizer := Some (DisableSigner f) \<rparr>)"
| check_tip: "nd_finalizer n = Some f \<Longrightarrow> Finalizer_CheckCanonicalTip w h t (nd_db n) f = (s, db', f') \<Longrightarrow>
    finalizer_step C nb n (n \<lparr> nd_db := db', nd_finalizer := Some f' \<rparr>)"
| sign: "nd_finalizer n = Some f \<Longrightarrow> SignFinality C w h t block (nd_db n) f = (Inr r, db', f') \<Longrightarrow>
    finalizer_step C nb n (n \<lparr> nd_db := db', nd_finalizer := Some f',
      nd_issued := (case psr_certificate r of None \<Rightarrow> nd_issued n | Some c \<Rightarrow> c # nd_issued n) \<rparr>)"
| sign_throws: "nd_finalizer n = Some f \<Longrightarrow> SignFinality C w h t block (nd_db n) f = (Inl e, db', f') \<Longrightarrow>
    finalizer_step C nb n (n \<lparr> nd_db := db', nd_finalizer := Some f' \<rparr>)"
| elsewhere: "list_all (\<lambda>k. kv_data db' k = kv_data (nd_db n) k) (journal_keys nb) \<Longrightarrow>
    finalizer_step C nb n (n \<lparr> nd_db := db' \<rparr>)"

definition node_state :: "finalizer_node \<Rightarrow> journal_state" where
  "node_state n = (nd_db n, map_option f_journal (nd_finalizer n))"

definition node_ok :: "hash256 \<Rightarrow> finalizer_node \<Rightarrow> bool" where
  "node_ok nb n \<longleftrightarrow> journal.recorded nb (node_state n) (intent_of ` set (nd_issued n))
     \<and> one_chain (intent_of ` set (nd_issued n))
     \<and> (\<forall>f. nd_finalizer n = Some f \<longrightarrow> f_network_binding f = nb)
     \<and> (\<forall>c\<in>set (nd_issued n). pfc_network_binding c = nb)"


lemma new_finalizer_moves:
  assumes "new_finalizer C w nb ga key db = (r, db')"
  shows "(journal_move C nb)\<^sup>*\<^sup>* (db, None) (db', case r of Inl _ \<Rightarrow> None | Inr f \<Rightarrow> Some (f_journal f))
    \<and> (\<forall>f. r = Inr f \<longrightarrow> f_network_binding f = nb \<and> f_public_key f = key)"
proof -
  obtain x d where o: "open_journal C w nb ga key db = (x, d)" by (cases "open_journal C w nb ga key db")
  show ?thesis
  proof (cases x)
    case (Inl e)
    then show ?thesis using assms o by (auto simp: new_finalizer_def intro!: r_into_rtranclp intro: journal_move.refused)
  next
    case (Inr j)
    then have m: "journal_move C nb (db, None) (d, Some j)" using o by (auto intro: journal_move.opened)
    moreover have "journal_move C nb (d, Some j) (d, None)" by (rule journal_move.stopped)
    ultimately have "(journal_move C nb)\<^sup>*\<^sup>* (db, None) (d, None)" by (meson converse_rtranclp_into_rtranclp r_into_rtranclp)
    then show ?thesis using assms o Inr m by (auto simp: new_finalizer_def split: if_split_asm)
  qed
qed

lemma finalizer_step_moves:
  assumes "finalizer_step C nb n n'"
  shows "(journal_move C nb)\<^sup>*\<^sup>* (node_state n) (node_state n')"
  using assms
proof cases
  case (start w ga key f db')
  then show ?thesis using new_finalizer_moves [OF start(3)] by (simp add: node_state_def)
next
  case (start_refused w ga key e db')
  then show ?thesis using new_finalizer_moves [OF start_refused(3)] by (simp add: node_state_def)
next
  case crash
  then show ?thesis by (auto simp: node_state_def intro: journal_move.stopped)
next
  case (enable f s)
  then have "f_journal (snd (EnableSigner s f)) = f_journal f" by (simp add: EnableSigner_def split: option.split)
  then show ?thesis using enable by (simp add: node_state_def)
next
  case (disable f)
  then show ?thesis by (simp add: node_state_def DisableSigner_def)
next
  case (check_tip f w h t s db' f')
  then obtain j where "CheckCanonicalTip w h t (nd_db n) (f_journal f) = (s, db', j)" "f_journal f' = j"
    by (auto simp: Finalizer_CheckCanonicalTip_def split: prod.split_asm)
  then show ?thesis using check_tip by (auto simp: node_state_def intro: journal_move.checked)
next
  case (sign f w h t block r db' f')
  then show ?thesis using SignFinality_moves [OF sign(3)] by (simp add: node_state_def)
next
  case (sign_throws f w h t block e db' f')
  then show ?thesis using SignFinality_moves [OF sign_throws(3)] by (simp add: node_state_def)
next
  case (elsewhere db')
  then show ?thesis by (auto simp: node_state_def intro: journal_move.elsewhere)
qed

lemma finalizer_step_binding:
  assumes "finalizer_step C nb n n'" and "\<forall>f. nd_finalizer n = Some f \<longrightarrow> f_network_binding f = nb"
  shows "\<forall>f. nd_finalizer n' = Some f \<longrightarrow> f_network_binding f = nb"
  using assms
proof cases
  case (start w ga key f db')
  then show ?thesis using new_finalizer_moves [OF start(3)] by simp
next
  case (sign f w h t block r db' f')
  have "f_network_binding f' = f_network_binding f" using conjunct2 [OF SignFinality_moves [OF sign(3), of nb]] by (metis PoaFinalizer.select_convs(1) PoaFinalizer.surjective PoaFinalizer.update_convs(4))
  then show ?thesis using sign assms(2) by simp
next
  case (sign_throws f w h t block e db' f')
  have "f_network_binding f' = f_network_binding f" using conjunct2 [OF SignFinality_moves [OF sign_throws(3), of nb]] by (metis PoaFinalizer.select_convs(1) PoaFinalizer.surjective PoaFinalizer.update_convs(4))
  then show ?thesis using sign_throws assms(2) by simp
qed (auto simp: EnableSigner_def DisableSigner_def Finalizer_CheckCanonicalTip_def split: option.split prod.split_asm)


lemma finalizer_step_issued:
  assumes "finalizer_step C nb n n'" and "node_ok nb n"
  shows "nd_issued n' = nd_issued n
    \<or> (\<exists>c. nd_issued n' = c # nd_issued n \<and> durable_head nb (nd_db n') = Some (intent_of c) \<and> pfc_network_binding c = nb)"
  using assms(1)
proof cases
  case (sign f w h t block r db' f')
  have ok: "journal_ok nb (nd_db n) (f_journal f)" and nb: "f_network_binding f = nb"
    using assms(2) sign(2) by (simp_all add: node_ok_def journal.recorded_def journal_inv_def node_state_def)
  show ?thesis
  proof (cases "psr_certificate r")
    case (Some c)
    have "\<exists>b s2. sign_prepared C b s2 block f = Inr r" by (rule SignFinality_issues [OF sign(3) Some]) blast
    then obtain b s2 where "sign_prepared C b s2 block f = Inr r" by blast
    from sign_prepared_certificate [OF this Some] nb have "pfc_network_binding c = nb" by simp
    then show ?thesis using sign Some SignFinality_durable [OF sign(3) Some ok] by simp
  qed (use sign in simp)
qed simp_all

lemma node_ok_step:
  assumes "finalizer_step C nb n n'" and "node_ok nb n"
  shows "node_ok nb n'"
proof -
  have rec: "journal.recorded nb (node_state n') (intent_of ` set (nd_issued n))"
    using journal.recorded_moves [OF finalizer_step_moves [OF assms(1)]] assms(2) by (simp add: node_ok_def)
  have b: "\<forall>f. nd_finalizer n' = Some f \<longrightarrow> f_network_binding f = nb"
    by (rule finalizer_step_binding [OF assms(1)]) (use assms(2) in \<open>unfold node_ok_def, blast\<close>)
  from finalizer_step_issued [OF assms] show ?thesis
  proof
    assume "nd_issued n' = nd_issued n"
    then show ?thesis using rec b assms(2) by (simp add: node_ok_def)
  next
    assume "\<exists>c. nd_issued n' = c # nd_issued n \<and> durable_head nb (nd_db n') = Some (intent_of c) \<and> pfc_network_binding c = nb"
    then obtain c where c: "nd_issued n' = c # nd_issued n" "durable_head nb (fst (node_state n')) = Some (intent_of c)" "pfc_network_binding c = nb"
      by (auto simp: node_state_def)
    have "covers (intent_of c) i" if "i \<in> intent_of ` set (nd_issued n)" for i
      using rec that c(2) by (auto simp: journal.recorded_def)
    from one_chain_insert [OF _ this] have "one_chain (insert (intent_of c) (intent_of ` set (nd_issued n)))"
      using assms(2) by (simp add: node_ok_def)
    then show ?thesis using journal.recorded_head [OF rec c(2)] b c assms(2) by (simp add: node_ok_def)
  qed
qed

definition initial_node :: "KVStore \<Rightarrow> finalizer_node" where
  "initial_node db = \<lparr> nd_db = db, nd_finalizer = None, nd_issued = [] \<rparr>"

lemma initial_node_ok: "node_ok nb (initial_node db)"
  by (simp add: node_ok_def initial_node_def journal.recorded_def journal_inv_def node_state_def one_chain_def)

lemma node_ok_reachable: "(finalizer_step C nb)\<^sup>*\<^sup>* (initial_node db) n \<Longrightarrow> node_ok nb n"
  by (induction rule: rtranclp_induct) (auto intro: initial_node_ok node_ok_step)

lemma issued_agree:
  assumes "(finalizer_step C nb)\<^sup>*\<^sup>* (initial_node db) n" and "c \<in> set (nd_issued n)" and "d \<in> set (nd_issued n)"
  shows "pfc_network_binding c = nb"
    and "pfc_height c = pfc_height d \<Longrightarrow> pfc_block_id c = pfc_block_id d \<and> pfc_parent_block_id c = pfc_parent_block_id d"
    and "Suc (unat (pfc_height c)) = unat (pfc_height d) \<Longrightarrow> pfc_parent_block_id d = pfc_block_id c"
proof -
  note ok = node_ok_reachable [OF assms(1)]
  show "pfc_network_binding c = nb" using ok assms(2) by (simp add: node_ok_def)
  have "one_chain (intent_of ` set (nd_issued n))" using ok by (simp add: node_ok_def)
  then have i: "(jh_height (intent_of c) = jh_height (intent_of d) \<longrightarrow> intent_of c = intent_of d)
      \<and> (Suc (unat (jh_height (intent_of c))) = unat (jh_height (intent_of d)) \<longrightarrow> jh_parent_block_id (intent_of d) = jh_block_id (intent_of c))"
    using assms(2,3) by (auto simp only: one_chain_def image_iff)
  show "pfc_height c = pfc_height d \<Longrightarrow> pfc_block_id c = pfc_block_id d \<and> pfc_parent_block_id c = pfc_parent_block_id d"
    using i by (simp add: intent_of_def)
  show "Suc (unat (pfc_height c)) = unat (pfc_height d) \<Longrightarrow> pfc_parent_block_id d = pfc_block_id c"
    using i by (simp add: intent_of_def)
qed


section \<open>Issued certificates verify\<close>

definition finalizer_key_ok :: "PoaFinalizer \<Rightarrow> bool" where
  "finalizer_key_ok f \<longleftrightarrow> key_wellformed POA_FINALIZER (f_public_key f)"

lemma new_finalizer_key: "new_finalizer C w nb ga key db = (Inr f, db') \<Longrightarrow> finalizer_key_ok f"
  by (auto simp: new_finalizer_def open_journal_def finalizer_key_ok_def ComputePoaFinalizerKeyId_def
      split: prod.split_asm sum.split_asm if_split_asm option.split_asm)

lemma SignFinality_verifies:
  assumes "SignFinality C w fh ft block db f = (Inr r, db', f')" and "psr_certificate r = Some c" and "finalizer_key_ok f"
  shows "VerifyPoaCertificateForBlock C c (f_public_key f) (f_network_binding f) block = Inr True"
proof -
  obtain b s2 where s: "SerializeBlock C block \<noteq> Inr None" "\<exists>bs. SerializeBlock C block = Inr bs" and b: "ComputeBlockId C block = Inr b" "b \<noteq> 0"
    and sp: "sign_prepared C b s2 block f = Inr r"
    using SignFinality_issues [OF assms(1,2)] by metis
  obtain bs where bs: "SerializeBlock C block = Inr (Some bs)" using s by fastforce
  show ?thesis
    using sign_prepared_certificate [OF sp assms(2)] b bs assms(3)
    by (auto simp: VerifyPoaCertificateForBlock_def VerifyPoaFinalityCertificate_def finalizer_key_ok_def key_wellformed_def PublicSize_def)
qed

end
