(* ===== verification/SampleChain.thy ===== *)
theory SampleChain
  imports Samples Finalizer ConflictDetector
begin

text \<open>A finalizer at work on the sample network: an empty store, a signer that signs everything, and two candidate blocks of height 1.\<close>

definition empty_db :: KVStore where
  "empty_db = \<lparr> kv_data = (\<lambda>_. None), kv_unreadable = (\<lambda>_. False) \<rparr>"

definition poa_key :: IdentityHybridPublicKey where
  "poa_key = sample_key POA_FINALIZER 1"

definition sample_signer :: PoaSigner where
  "sample_signer = \<lparr> signer_PublicKey = Some poa_key, signer_Sign = (\<lambda>_. Some (sample_sig POA_FINALIZER)) \<rparr>"

definition sample_blk :: "hash256 \<Rightarrow> ProtocolOperation list \<Rightarrow> CybouBlock" where
  "sample_blk root ops = \<lparr> blk_parent_block_id = 7, blk_height = 1, blk_operations = ops, blk_resulting_state_root = root \<rparr>"

definition sample_certificate :: PoaFinalityCertificate where
  "sample_certificate = \<lparr> pfc_network_binding = 5, pfc_block_id = 4, pfc_height = 1, pfc_parent_block_id = 7,
     pfc_signature = sample_sig POA_FINALIZER \<rparr>"

definition sample_journal :: PoaSigningJournal where
  "sample_journal = \<lparr> j_network_binding = 5, j_genesis_anchor = 7, j_finalizer_key_id = 2, j_prefix = journal_prefix 5,
     j_head = genesis_head 7, j_verified_height = 0, j_verified_tip = 0, j_history_verified = False, j_halted = False \<rparr>"

definition sample_finalizer :: PoaFinalizer where
  "sample_finalizer = \<lparr> f_network_binding = 5, f_public_key = poa_key, f_signer = Some sample_signer, f_journal = sample_journal \<rparr>"

lemma poa_key_id: "ComputePoaFinalizerKeyId tail_crypto poa_key = Some 2"
  by (simp add: poa_key_def ComputePoaFinalizerKeyId_def) (simp add: tail_hash_def sample_key_def)

lemma load_empty: "load_journal empty_db p m ga = Inr None"
  by (simp add: load_journal_def empty_db_def KV_Read_def KV_Exists_def ReadRaw_def)

lemma open_sample: "\<exists>db. open_journal tail_crypto WriteOk 5 7 poa_key empty_db = (Inr sample_journal, db)"
  by (simp add: open_journal_def poa_key_id load_empty WriteBatch_def Let_def sample_journal_def)

lemma start_sample: "\<exists>db. new_finalizer tail_crypto WriteOk 5 7 poa_key empty_db = (Inr (sample_finalizer \<lparr> f_signer := None \<rparr>), db)"
  using open_sample by (auto simp: new_finalizer_def sample_finalizer_def poa_key_def) (simp_all add: sample_key_def PublicSize_def)

lemma sample_certificate_valid: "ValidFields sample_certificate"
  by (simp add: ValidFields_def sample_certificate_def sample_sig_def SignatureSize_def HasNonzero_be_bytes)
    (simp add: HasNonzero_def list_ex_iff)

lemma sample_blk_id: "ComputeBlockId tail_crypto (sample_blk 3 []) = Inr 4"
  by (simp add: ComputeBlockId_def ExtractBlockHeader_def ComputeOperationsRoot_def ComputeOperationsRootFromHashes_def
      ComputeBlockHeaderId_def Sha256_Finalize_def sample_blk_def tail_hash_def be_bytes_def le_bytes_def last_rev upt_rec [of 0 32])

lemma sign_sample:
  "\<exists>r db' f'. SignFinality tail_crypto WriteOk 0 7 (sample_blk 3 []) db sample_finalizer = (Inr r, db', f')
     \<and> psr_certificate r = Some sample_certificate \<and> psr_status r = SIGNED"
proof -
  have s: "SerializeBlock tail_crypto (sample_blk 3 []) = Inr (Some (hash_bytes 7 @ le_bytes 8 (1::u64) @ hash_bytes 3 @ le_bytes 4 (0::u32)))"
    by (simp add: SerializeBlock_def sample_blk_def mapE_def)
  have "CreateCertificate (sample_sig POA_FINALIZER) 5 4 1 7 = Some sample_certificate"
    using sample_certificate_valid by (simp add: CreateCertificate_def SerializePoaFinalityCertificate_def sample_certificate_def Let_def)
  then have p: "sign_prepared tail_crypto 4 PoaJournalStatus.NONE (sample_blk 3 []) sample_finalizer
      = Inr \<lparr> psr_status = SIGNED, psr_journal_status = PoaJournalStatus.NONE, psr_certificate = Some sample_certificate \<rparr>"
    by (simp add: sign_prepared_def sample_finalizer_def sample_signer_def ComputePoaFinalityDigest_def Sha256_Finalize_def
        sample_blk_def poa_key_def)
  have f: "f_signer sample_finalizer \<noteq> None" "f_journal sample_finalizer = sample_journal" by (simp_all add: sample_finalizer_def)
  obtain j where c: "CheckCanonicalTip WriteOk 0 7 db sample_journal = (PoaJournalStatus.NONE, db, j)"
    and j: "j = sample_journal \<lparr> j_verified_tip := 7, j_history_verified := True \<rparr>"
    by (simp add: CheckCanonicalTip_def tip_matches_def sample_journal_def genesis_head_def)
  have "\<exists>db' j'. PrepareToSign WriteOk 1 7 4 db j = (PoaJournalStatus.NONE, db', j')"
    by (simp add: PrepareToSign_def j sample_journal_def genesis_head_def KV_Write_def WriteBatch_def Let_def)
  then show ?thesis
    using f p by (auto simp: SignFinality_def s sample_blk_id c) (simp_all add: sample_blk_def sample_journal_def)
qed

definition running_node :: "KVStore \<Rightarrow> finalizer_node" where
  "running_node db = \<lparr> nd_db = db, nd_finalizer = Some sample_finalizer, nd_issued = [] \<rparr>"

text \<open>The node signs a block, so the certificate has been handed out.\<close>

lemma signed_node: "\<exists>n. (finalizer_step tail_crypto 5)\<^sup>*\<^sup>* (initial_node empty_db) n \<and> nd_issued n = [sample_certificate]"
proof -
  obtain db where o: "new_finalizer tail_crypto WriteOk 5 7 poa_key empty_db = (Inr (sample_finalizer \<lparr> f_signer := None \<rparr>), db)"
    using start_sample by blast
  let ?b = "initial_node empty_db \<lparr> nd_db := db, nd_finalizer := Some (sample_finalizer \<lparr> f_signer := None \<rparr>) \<rparr>"
  have st: "finalizer_step tail_crypto 5 (initial_node empty_db) ?b"
    by (rule finalizer_step.start) (use o in \<open>simp_all add: initial_node_def\<close>)
  have en: "finalizer_step tail_crypto 5 ?b (running_node db)"
    using finalizer_step.enable [of ?b "sample_finalizer \<lparr> f_signer := None \<rparr>" tail_crypto 5 "Some sample_signer"]
    by (simp add: EnableSigner_def sample_signer_def sample_finalizer_def running_node_def initial_node_def)
  obtain r db' f' where s: "SignFinality tail_crypto WriteOk 0 7 (sample_blk 3 []) db sample_finalizer = (Inr r, db', f')"
    "psr_certificate r = Some sample_certificate" using sign_sample by blast
  have "finalizer_step tail_crypto 5 (running_node db) (running_node db \<lparr> nd_db := db', nd_finalizer := Some f', nd_issued := [sample_certificate] \<rparr>)"
    using finalizer_step.sign [of "running_node db" sample_finalizer tail_crypto WriteOk 0 7 "sample_blk 3 []" r db' f' 5] s
    by (simp add: running_node_def)
  then show ?thesis using st en
    by (intro exI [of _ "running_node db \<lparr> nd_db := db', nd_finalizer := Some f', nd_issued := [sample_certificate] \<rparr>"])
      (auto intro: converse_rtranclp_into_rtranclp)
qed



section \<open>An observed certificate\<close>

definition sample_detector :: PoaConflictDetector where
  "sample_detector = \<lparr> cd_network_binding = 5, cd_genesis_finalizer_key = poa_key, cd_prefix = detector_prefix 5 2, cd_halted = False \<rparr>"

lemma KV_none: "db = snd (KV_Write WriteOk (p @ ''metadata'') v empty_db) \<Longrightarrow> short p \<Longrightarrow>
    KV_Read db (ObservationKey p c) = Inr None \<and> KV_Exists db (ObservationKey p c) = Inr False"
proof -
  assume db: "db = snd (KV_Write WriteOk (p @ ''metadata'') v empty_db)" and p: "short p"
  have "EncodeString (ObservationKey p c) \<noteq> EncodeString (p @ ''metadata'')"
    using EncodeString_inj detector_keys(1) [OF p] detector_metadata [OF p] by blast
  then have "kv_data db (EncodeString (ObservationKey p c)) = None"
    by (simp add: db KV_Write_def WriteBatch_def batch_apply_def batch_Write_def empty_db_def Let_def)
  then show ?thesis by (simp add: KV_Read_def KV_Exists_def ReadRaw_def db) (simp add: empty_db_def)
qed

lemma observe_sample:
  assumes "db = snd (KV_Write WriteOk (detector_prefix 5 2 @ ''metadata'') v empty_db)"
  shows "\<exists>db'. Observe tail_crypto WriteOk WriteOk sample_certificate (sample_blk 3 []) db sample_detector = (Inr OBSERVED, db', sample_detector)"
proof -
  obtain r db1 f' where s: "SignFinality tail_crypto WriteOk 0 7 (sample_blk 3 []) empty_db sample_finalizer = (Inr r, db1, f')"
    "psr_certificate r = Some sample_certificate" using sign_sample by blast
  have "finalizer_key_ok sample_finalizer" by (simp add: finalizer_key_ok_def sample_finalizer_def poa_key_def)
  from SignFinality_verifies [OF s this] have v: "VerifyPoaCertificateForBlock tail_crypto sample_certificate poa_key 5 (sample_blk 3 []) = Inr True"
    by (simp add: sample_finalizer_def)
  have "SerializePoaFinalityCertificate sample_certificate \<noteq> None"
    using sample_certificate_valid by (simp add: SerializePoaFinalityCertificate_def)
  then obtain bs where b: "SerializePoaFinalityCertificate sample_certificate = Some bs" by blast
  show ?thesis
    using v b KV_none [OF assms detector_prefix_short, of sample_certificate]
    by (simp add: Observe_def sample_detector_def Let_def) (simp add: KV_Write_def WriteBatch_def Let_def)
qed

lemma observed_node:
  "\<exists>n. (detector_step tail_crypto 5 poa_key 2)\<^sup>*\<^sup>* (initial_detector_node empty_db) n \<and> dn_accepted n = [sample_certificate]"
proof -
  let ?m = "hash_bytes 5 @ hash_bytes 2"
  obtain db where db: "KV_Write WriteOk (detector_prefix 5 2 @ ''metadata'') ?m empty_db = (Inr (), db)"
    by (simp add: KV_Write_def WriteBatch_def Let_def)
  have "load_detector tail_crypto empty_db (detector_prefix 5 2) ?m 5 poa_key = Inr None"
    by (simp add: load_detector_def empty_db_def KV_Read_def KV_Exists_def ReadRaw_def)
  then have o: "open_detector tail_crypto WriteOk 5 poa_key empty_db = (Inr sample_detector, db)"
    using db by (simp add: open_detector_def poa_key_id sample_detector_def Let_def)
  let ?n = "\<lparr> dn_db = db, dn_detector = Some sample_detector, dn_accepted = [] \<rparr>"
  have 1: "detector_step tail_crypto 5 poa_key 2 (initial_detector_node empty_db) ?n"
    using detector_step.start [of "initial_detector_node empty_db" tail_crypto WriteOk 5 poa_key "Inr sample_detector" db 2] o
    by (simp add: initial_detector_node_def)
  obtain db' where ob: "Observe tail_crypto WriteOk WriteOk sample_certificate (sample_blk 3 []) db sample_detector = (Inr OBSERVED, db', sample_detector)"
    using observe_sample [of db ?m] db by auto
  have 2: "detector_step tail_crypto 5 poa_key 2 ?n (?n \<lparr> dn_db := db', dn_accepted := [sample_certificate] \<rparr>)"
    using detector_step.observe [of ?n sample_detector tail_crypto WriteOk WriteOk sample_certificate "sample_blk 3 []" "Inr OBSERVED" db' sample_detector 5 poa_key 2] ob
    by (simp add: accepted_def)
  show ?thesis
    by (rule exI [of _ "?n \<lparr> dn_db := db', dn_accepted := [sample_certificate] \<rparr>"])
      (use 1 2 in \<open>auto intro: converse_rtranclp_into_rtranclp\<close>)
qed

end
