(* ===== verification/SampleStore.thy ===== *)
theory SampleStore
  imports StoreCommit SampleChain
begin

text \<open>A state store on the sample network: opened on an empty database, initialized with the sample state, and extended by an empty block.\<close>

definition sample_network :: NetworkGenesis where
  "sample_network = \<lparr> ng_network_public_key = sample_key NETWORK_ROOT 4, ng_genesis_state_root = 1, ng_poa_finalizer_public_key = poa_key,
     ng_protocol_parameters = DevProtocolParameters, ng_signature = sample_sig NETWORK_ROOT \<rparr>"

definition sample_genesis :: VerifiedNetworkGenesis where
  "sample_genesis = \<lparr> vg_genesis = sample_network, vg_network_id_bytes = CanonicalSerializeNetworkPublicKey (sample_key NETWORK_ROOT 4),
     vg_genesis_digest = 1 \<rparr>"

lemma sample_binding: "ComputeNetworkBinding tail_crypto (ng_network_public_key (vg_genesis sample_genesis)) = Inr 5"
  by (simp add: ComputeNetworkBinding_def sample_genesis_def sample_network_def Sha256_Finalize_def tail_hash_def
      CanonicalSerializeNetworkPublicKey_def CanonicalSerializeHybridPublicKey_def) (simp add: sample_key_def)

lemma sample_bytes:
  "\<exists>bs. SerializeCybouState tail_crypto sample_state True = Some bs \<and> SerializeCybouState tail_crypto sample_state False = Some bs
     \<and> length bs \<le> 10000 \<and> bs \<noteq> [] \<and> last bs = 0"
proof -
  have i: "\<exists>ids. SerializeIdentityRegistry tail_crypto (identities sample_state) = Some ids \<and> length ids \<le> 7000"
    by (simp add: SerializeIdentityRegistry_def sample_state_def identity_serializable_def counted_def
        MAX_IDENTITY_REGISTRY_ACCOUNTS_def IDENTITY_ACCOUNT_SIZE_def) (simp add: sample_identity_def)
  have n: "length (SerializeNameRegistry (names sample_state)) \<le> 100" by (simp add: sample_state_def SerializeNameRegistry_def)
  have c: "length (counted account_enc (accounts sample_state)) = 148" "length (counted allocation_enc (genesis_allocations sample_state)) = 54"
    "length (counted publication_enc (publications sample_state)) = 4" "counted lease_enc (leases sample_state) = [0, 0, 0, 0]"
    by (simp_all add: counted_def sample_state_def account_enc_def allocation_enc_def CENTRAL_AUTHORITY_NAME_def le_bytes_def upt_rec)
  show ?thesis
    using i n c sample_accounts_known(1) by (auto simp: SerializeCybouState_def sample_valid Let_def U32_COUNT_MAX_def)
qed

lemma sample_hash: "CybouStateHash tail_crypto sample_state v = Some 1"
proof -
  obtain bs where "SerializeCybouState tail_crypto sample_state v = Some bs" "bs \<noteq> []" "last bs = 0"
    using sample_bytes by (cases v) auto
  then show ?thesis by (simp add: CybouStateHash_def ComputeSha256_def Sha256_Finalize_def tail_hash_def)
qed

definition sample_store :: CybouStateStore where
  "sample_store = \<lparr> ss_network_genesis = sample_genesis, ss_network_binding = 5, ss_snapshot = None, ss_detector = sample_detector \<rparr>"

definition opened_db :: KVStore where
  "opened_db = snd (KV_Write WriteOk (detector_prefix 5 2 @ ''metadata'') (hash_bytes 5 @ hash_bytes 2) empty_db)"

lemma open_sample_detector: "open_detector tail_crypto WriteOk 5 poa_key empty_db = (Inr sample_detector, opened_db)"
proof -
  have "load_detector tail_crypto empty_db (detector_prefix 5 2) (hash_bytes 5 @ hash_bytes 2) 5 poa_key = Inr None"
    by (simp add: load_detector_def empty_db_def KV_Read_def KV_Exists_def ReadRaw_def)
  then show ?thesis
    by (simp add: open_detector_def poa_key_id sample_detector_def Let_def opened_db_def) (simp add: KV_Write_def WriteBatch_def Let_def)
qed

lemma open_sample_store: "new_store tail_crypto WriteOk sample_genesis empty_db = (Inr sample_store, opened_db)"
  using sample_binding open_sample_detector by (simp add: new_store_def sample_store_def) (simp add: sample_genesis_def sample_network_def)

lemma empty_fresh: "fresh empty_db" "addressable empty_db"
  by (simp_all add: fresh_def addressable_def empty_db_def)

lemma addressable_put: "addressable db \<Longrightarrow> length v < 2 ^ 63 \<Longrightarrow> addressable (db \<lparr> kv_data := (kv_data db)(k := Some v) \<rparr>)"
  by (auto simp: addressable_def)

lemma opened_ok: "fresh opened_db" "addressable opened_db" "\<forall>k. \<not> kv_unreadable opened_db k"
proof -
  show "fresh opened_db" using fresh_same_records [OF open_detector_contained(1) [OF open_sample_detector] empty_fresh(1)] .
  have l: "length (hash_bytes 5 @ hash_bytes 2) \<le> MAX_LOCAL_RECORD" by (simp add: MAX_LOCAL_RECORD_def)
  then have "length (EncodeBytes (hash_bytes 5 @ hash_bytes 2)) < 2 ^ 63" by (simp add: EncodeBytes_def AppendCompactSize_def)
  from addressable_put [OF empty_fresh(2) this] show "addressable opened_db"
    by (simp add: opened_db_def KV_Write_def WriteBatch_def Let_def batch_apply_def batch_Write_def)
  show "\<forall>k. \<not> kv_unreadable opened_db k" by (simp add: opened_db_def) (simp add: empty_db_def)
qed

lemma addressable_written:
  "addressable db \<Longrightarrow> list_all (\<lambda>(k, v). case v of None \<Rightarrow> True | Some x \<Rightarrow> length x < 2 ^ 63) batch \<Longrightarrow> addressable (written batch db)"
proof (induction batch rule: rev_induct)
  case (snoc e batch)
  obtain k v where e: "e = (k, v)" by (cases e)
  have "addressable (written batch db)" by (rule snoc.IH [OF snoc.prems(1)]) (use snoc.prems(2) in simp)
  then show ?case using snoc.prems(2) by (auto simp: e written_def addressable_def batch_apply_snoc split: option.split_asm if_split_asm)
qed (simp add: written_def addressable_def)

text \<open>The initialized store.\<close>

definition genesis_db :: KVStore where
  "genesis_db = fst (snd (InitializeGenesis tail_crypto WriteOk sample_state opened_db sample_store))"

lemma initialize_sample:
  "InitializeGenesis tail_crypto WriteOk sample_state opened_db sample_store
     = (Inr GenesisInitError.NONE, genesis_db, sample_store \<lparr> ss_snapshot := Some sample_state \<rparr>) \<and> addressable genesis_db
   \<and> (\<forall>k. \<not> kv_unreadable genesis_db k) \<and> GetFinalizedHead genesis_db = Inr (Some \<lparr> fh_block_id = 1, fh_height = 0 \<rparr>)"
proof -
  obtain bs where bs: "SerializeCybouState tail_crypto sample_state True = Some bs" "length bs \<le> 10000" using sample_bytes by blast
  have e: "KV_Exists opened_db k = Inr False" if "core_key k" for k
    using opened_ok that by (simp add: KV_Exists_def ReadRaw_def fresh_def)
  have g: "ng_genesis_state_root (vg_genesis (ss_network_genesis sample_store)) = 1" "vg_genesis_digest (ss_network_genesis sample_store) = 1"
    "ss_network_binding sample_store = 5"
    by (simp_all add: sample_store_def sample_genesis_def sample_network_def)
  let ?h = "\<lparr> fh_block_id = 1, fh_height = 0 \<rparr>"
  let ?b = "batch_Put EVENTS_HEAD_KEY (EncodeBytes (EncodeFinalizedHead ?h)) (batch_Write (StateHeightKey 0) bs
      (batch_Put NETWORK_ID_KEY (EncodeHash 5) (batch_Put HEAD_KEY (EncodeFinalizedHead ?h)
      (batch_Put HASH_KEY (EncodeHash 1) (batch_Write STATE_KEY bs [])))))"
  have i: "InitializeGenesis tail_crypto WriteOk sample_state opened_db sample_store
     = (Inr GenesisInitError.NONE, written ?b opened_db, sample_store \<lparr> ss_snapshot := Some sample_state \<rparr>)"
    by (simp add: InitializeGenesis_def e sample_hash bs(1) g WriteBatch_written Let_def)
  have db: "genesis_db = written ?b opened_db" by (simp add: genesis_db_def i)
  have l: "length (EncodeBytes v) \<le> 9 + length v" for v by (simp add: EncodeBytes_def AppendCompactSize_def)
  have lb: "length (EncodeBytes bs) < 2 ^ 63" using l [of bs] bs(2) by simp
  have lh: "length (EncodeFinalizedHead ?h) = 40" by (simp add: EncodeFinalizedHead_def EncodeHash_def EncodeUnsigned_def)
  have le: "length (EncodeBytes (EncodeFinalizedHead ?h)) < 2 ^ 63" using l [of "EncodeFinalizedHead ?h"] lh by simp
  have "addressable genesis_db" unfolding db using lb lh le
    by (intro addressable_written [OF opened_ok(2)]) (simp add: batch_Put_def batch_Write_def EncodeHash_def)
  moreover have "\<forall>k. \<not> kv_unreadable genesis_db k" using opened_ok(3) by (simp add: db written_def)
  moreover have "kv_data genesis_db (EncodeString HEAD_KEY) = Some (EncodeFinalizedHead ?h)"
    by (simp add: db written_def batch_apply_put)
  ultimately show ?thesis using i head_record.dec_enc
    by (simp add: db GetFinalizedHead_def KV_ReadAs_def ReadRaw_def)
qed

definition genesis_store :: CybouStateStore where
  "genesis_store = sample_store \<lparr> ss_snapshot := Some sample_state \<rparr>"

definition genesis_node :: store_node where
  "genesis_node = \<lparr> sn_db = genesis_db, sn_store = Some genesis_store \<rparr>"

lemma genesis_node_reachable:
  "(store_step tail_crypto sample_genesis sample_state)\<^sup>*\<^sup>* \<lparr> sn_db = empty_db, sn_store = None \<rparr> genesis_node"
proof -
  have 1: "store_step tail_crypto sample_genesis sample_state \<lparr> sn_db = empty_db, sn_store = None \<rparr> \<lparr> sn_db = opened_db, sn_store = Some sample_store \<rparr>"
    using store_step.start [of "\<lparr> sn_db = empty_db, sn_store = None \<rparr>" tail_crypto WriteOk sample_genesis "Inr sample_store" opened_db sample_state]
      open_sample_store opened_ok(2) by simp
  have 2: "store_step tail_crypto sample_genesis sample_state \<lparr> sn_db = opened_db, sn_store = Some sample_store \<rparr> genesis_node"
    using store_step.initialize [of "\<lparr> sn_db = opened_db, sn_store = Some sample_store \<rparr>" sample_store tail_crypto WriteOk sample_state
        "Inr GenesisInitError.NONE" genesis_db genesis_store sample_genesis] initialize_sample
    by (simp add: genesis_node_def genesis_store_def)
  show ?thesis using 1 2 by (auto intro: converse_rtranclp_into_rtranclp)
qed

lemma genesis_store_ok: "store_ok tail_crypto sample_genesis 5 sample_state genesis_db genesis_store"
  using store_reachable_ok [OF genesis_node_reachable empty_fresh sample_wf sample_binding] by (simp add: StoreHistory.node_ok_def genesis_node_def)


section \<open>An empty block\<close>

definition store_block :: CybouBlock where
  "store_block = \<lparr> blk_parent_block_id = 1, blk_height = 1, blk_operations = [], blk_resulting_state_root = 1 \<rparr>"

definition store_certificate :: PoaFinalityCertificate where
  "store_certificate = \<lparr> pfc_network_binding = 5, pfc_block_id = 2, pfc_height = 1, pfc_parent_block_id = 1,
     pfc_signature = sample_sig POA_FINALIZER \<rparr>"

lemma store_block_id: "ComputeBlockId tail_crypto store_block = Inr 2"
  by (simp add: ComputeBlockId_def ExtractBlockHeader_def ComputeOperationsRoot_def ComputeOperationsRootFromHashes_def
      ComputeBlockHeaderId_def Sha256_Finalize_def store_block_def tail_hash_def be_bytes_def le_bytes_def last_rev upt_rec [of 0 32])

lemma store_certificate_valid: "ValidFields store_certificate"
  by (simp add: ValidFields_def store_certificate_def sample_sig_def SignatureSize_def HasNonzero_be_bytes)
    (simp add: HasNonzero_def list_ex_iff)

lemma store_certificate_verifies: "VerifyPoaCertificateForBlock tail_crypto store_certificate poa_key 5 store_block = Inr True"
proof -
  have k: "purpose poa_key = POA_FINALIZER" "length (pk_ml_dsa poa_key) = 1952" "HasNonzero (be_bytes 32 (pk_ed25519 poa_key))" "HasNonzero (pk_ml_dsa poa_key)"
    by (simp_all add: poa_key_def sample_key_def PublicSize_def HasNonzero_be_bytes) (simp add: HasNonzero_def)
  have s: "\<exists>bb. SerializeBlock tail_crypto store_block = Inr (Some bb)"
    by (simp add: SerializeBlock_def store_block_def mapE_def)
  have f: "pfc_network_binding store_certificate = 5" "pfc_block_id store_certificate = 2" "pfc_height store_certificate = 1"
    "pfc_parent_block_id store_certificate = 1" "pfc_signature store_certificate = sample_sig POA_FINALIZER"
    "blk_height store_block = 1" "blk_parent_block_id store_block = 1"
    by (simp_all add: store_certificate_def store_block_def)
  have "VerifyIdentityMessage tail_crypto poa_key (sample_sig POA_FINALIZER) m" for m by (simp add: poa_key_def)
  then show ?thesis using s k f store_block_id store_certificate_valid
    by (auto simp: VerifyPoaCertificateForBlock_def VerifyPoaFinalityCertificate_def ComputePoaFinalityDigest_def Sha256_Finalize_def)
qed

lemma genesis_db_other:
  assumes "key_ok k" and "k \<notin> {STATE_KEY, HASH_KEY, HEAD_KEY, NETWORK_ID_KEY, StateHeightKey 0, EVENTS_HEAD_KEY}"
  shows "kv_data genesis_db (EncodeString k) = kv_data opened_db (EncodeString k)"
proof -
  have e: "KV_Exists opened_db k = Inr False" if "core_key k" for k
    using opened_ok that by (simp add: KV_Exists_def ReadRaw_def fresh_def)
  obtain bs where bs: "SerializeCybouState tail_crypto sample_state True = Some bs" using sample_bytes by blast
  show ?thesis
    using assms by (auto simp: genesis_db_def InitializeGenesis_def e sample_hash bs WriteBatch_written Let_def written_def batch_apply_put
        sample_store_def sample_genesis_def sample_network_def)
qed

lemma observe_store_block:
  "\<exists>db'. Observe tail_crypto WriteOk WriteOk store_certificate store_block genesis_db sample_detector = (Inr OBSERVED, db', sample_detector)"
proof -
  let ?k = "ObservationKey (detector_prefix 5 2) store_certificate"
  have sh: "short (detector_prefix 5 2)" by (rule detector_prefix_short)
  have ok: "key_ok ?k" by (rule detector_keys(1) [OF sh])
  have t: "take 4 ?k = ''poa-''" by (simp add: ObservationKey_def detector_prefix_def)
  have "\<not> core_key ?k" using core_key_prefix [of ?k] t by auto
  moreover have "?k \<noteq> EVENTS_HEAD_KEY" using t by (auto simp: EVENTS_HEAD_KEY_def)
  ultimately have "kv_data genesis_db (EncodeString ?k) = kv_data opened_db (EncodeString ?k)"
    using ok by (intro genesis_db_other) (auto simp: core_key_def)
  moreover have "KV_Read opened_db ?k = Inr None" "KV_Exists opened_db ?k = Inr False"
    using KV_none [OF opened_db_def sh, of store_certificate] by simp_all
  ultimately have "KV_Read genesis_db ?k = Inr None" "KV_Exists genesis_db ?k = Inr False"
    using opened_ok(3) initialize_sample by (simp_all add: KV_Read_def KV_Exists_def ReadRaw_def)
  moreover obtain bs where "SerializePoaFinalityCertificate store_certificate = Some bs"
    using store_certificate_valid by (simp add: SerializePoaFinalityCertificate_def)
  ultimately show ?thesis using store_certificate_verifies
    by (simp add: Observe_def sample_detector_def Let_def) (simp add: KV_Write_def WriteBatch_def Let_def)
qed

lemma candidate_sample:
  "ComputeCandidateStateRoot tail_crypto [] 1 genesis_db genesis_store = (Inr (Some 1), genesis_store)"
proof -
  have "kv_data genesis_db (EncodeString HASH_KEY) = Some (EncodeHash 1)"
    using genesis_store_ok sample_hash by (auto simp: store_ok_def live_def genesis_store_def)
  then have "GetStateRoot genesis_db = Inr (Some 1)"
    using initialize_sample hash_record.dec_enc by (simp add: GetStateRoot_def KV_ReadAs_def ReadRaw_def)
  moreover have "\<not> expires_name params h sample_state" for params h by (simp add: expires_name_def sample_state_def)
  ultimately show ?thesis using initialize_sample
    by (simp add: ComputeCandidateStateRoot_def GetStateSnapshotLocked_def genesis_store_def)
qed


text \<open>A second process opens the initialized database: the metadata of the detector is read back.\<close>

lemma reopen_sample_store: "new_store tail_crypto w sample_genesis genesis_db = (Inr sample_store, genesis_db)"
proof -
  let ?p = "detector_prefix 5 2" and ?m = "hash_bytes 5 @ hash_bytes 2"
  have sh: "short ?p" by (rule detector_prefix_short)
  have t: "take 4 (?p @ x) = ''poa-''" for x by (simp add: detector_prefix_def)
  have other: "kv_data genesis_db (EncodeString (?p @ x)) = kv_data opened_db (EncodeString (?p @ x))" if "key_ok (?p @ x)" for x
  proof (rule genesis_db_other [OF that])
    have "\<not> core_key (?p @ x)" using core_key_prefix [of "?p @ x"] t [of x] by auto
    moreover have "take 4 EVENTS_HEAD_KEY \<noteq> ''poa-''" by (simp add: EVENTS_HEAD_KEY_def)
    then have "?p @ x \<noteq> EVENTS_HEAD_KEY" using t [of x] by metis
    ultimately show "?p @ x \<notin> {STATE_KEY, HASH_KEY, HEAD_KEY, NETWORK_ID_KEY, StateHeightKey 0, EVENTS_HEAD_KEY}"
      by (auto simp: core_key_def)
  qed
  have ok: "key_ok (?p @ ''metadata'')" "key_ok (?p @ ''halt'')" using detector_metadata(1) [OF sh] detector_keys(2) [OF sh] by simp_all
  have "length ?m \<le> MAX_LOCAL_RECORD" by (simp add: MAX_LOCAL_RECORD_def)
  from stored_KV_Write [OF this ok(1)] have st: "stored opened_db (?p @ ''metadata'') = Some ?m" using ok by (simp add: opened_db_def)
  have m: "kv_data opened_db (EncodeString (?p @ ''metadata'')) = Some (EncodeBytes ?m)" "kv_data opened_db (EncodeString (?p @ ''halt'')) = None"
    using EncodeString_inj [OF ok] EncodeString_inj [OF ok(2,1)]
    by (simp_all add: opened_db_def KV_Write_def WriteBatch_def Let_def batch_apply_def batch_Write_def empty_db_def)
  have u: "\<not> kv_unreadable genesis_db k" for k using initialize_sample by blast
  have r: "KV_Read genesis_db (?p @ ''metadata'') = Inr (Some ?m)" "KV_Read genesis_db (?p @ ''halt'') = Inr None"
    "KV_Exists genesis_db (?p @ ''halt'') = Inr False"
    using m other [OF ok(1)] other [OF ok(2)] u bytes_record.dec_enc [of ?m]
    by (simp_all add: KV_Read_def KV_Exists_def ReadRaw_def MAX_LOCAL_RECORD_def)
  then have "load_detector tail_crypto genesis_db ?p ?m 5 poa_key = Inr (Some False)" by (simp add: load_detector_def)
  then have "open_detector tail_crypto w 5 poa_key genesis_db = (Inr sample_detector, genesis_db)"
    by (simp add: open_detector_def poa_key_id sample_detector_def Let_def)
  then show ?thesis using sample_binding by (simp add: new_store_def sample_store_def) (simp add: sample_genesis_def sample_network_def)
qed

end
