(* ===== verification/SamplePool.thy ===== *)
theory SamplePool
  imports PoolHistory SampleStore
begin

text \<open>A pool on the sample store: a payment admitted from a peer, and held over a revalidation.\<close>

definition sample_operation :: ProtocolOperation where
  "sample_operation = OpPayment sample_payment"

definition sample_entry :: PoolEntry where
  "sample_entry = \<lparr> pe_operation = sample_operation, pe_id = 1, pe_work_nonce = 0, pe_bytes = 2606, pe_source_peer = Some ''peer'' \<rparr>"

definition fresh_context :: WorkingContext where
  "fresh_context = \<lparr> wc_head = \<lparr> fh_block_id = 1, fh_height = 0 \<rparr>, wc_finalized_state = sample_state,
     wc_executor = new_executor tail_crypto sample_state 5 1 DevProtocolParameters (Some poa_key) 1 \<rparr>"

definition sample_pool :: OperationPool where
  "sample_pool = hold sample_entry fresh_context ((wc_executor fresh_context) \<lparr> m_candidate := paid_state \<rparr>)
     (new_pool DefaultPoolLimits \<lparr> pl_working := Some fresh_context \<rparr>)"

lemma sample_operation_bytes:
  "\<exists>bs. SerializeProtocolOperation tail_crypto sample_operation = Inr (Some bs) \<and> length bs = 2606 \<and> OperationIdOfBytes tail_crypto bs = Some 1"
proof -
  obtain ab where ab: "SerializeIdentityOperationAuthorization (sample_auth PAYMENT 1) PAYMENT = Some ab"
    by (simp add: SerializeIdentityOperationAuthorization_def sample_sig_def SignatureSize_def HasNonzero_def list_ex_iff)
  have lab: "length ab = 2565" using length_auth_bytes [OF ab] by (simp add: IDENTITY_OPERATION_AUTH_SIZE_def)
  show ?thesis using ab lab sample_payment_commitment
    by (simp add: sample_operation_def SerializePayment_def SerializeAuthorizedPayload_def sample_payment_def SerializePaymentPayload_def
        TaggedOperationBytes_def mapE_def OperationIdOfBytes_def tail_hash_def last_le_bytes)
qed

lemma not_finalized: "HasIndexedFinalizedOperation tail_crypto genesis_db s 1 = Inr False"
proof -
  have t: "take 9 (OperationKey 1) = ''cybou/ope''" by (simp add: OperationKey_def)
  have k: "key_ok (OperationKey 1)" by simp
  have "OperationKey 1 \<notin> {STATE_KEY, HASH_KEY, HEAD_KEY, NETWORK_ID_KEY, StateHeightKey 0, EVENTS_HEAD_KEY}"
    using t by (auto simp: fixed_key_defs StateHeightKey_def)
  then have "kv_data genesis_db (EncodeString (OperationKey 1)) = kv_data opened_db (EncodeString (OperationKey 1))"
    by (rule genesis_db_other [OF k])
  moreover have "OperationKey 1 \<noteq> detector_prefix 5 2 @ ''metadata''" using t by (auto simp: detector_prefix_def)
  then have "EncodeString (OperationKey 1) \<noteq> EncodeString (detector_prefix 5 2 @ ''metadata'')"
    using EncodeString_inj [OF k detector_metadata(1) [OF detector_prefix_short]] by blast
  then have "kv_data opened_db (EncodeString (OperationKey 1)) = None"
    by (simp add: opened_db_def KV_Write_def WriteBatch_def batch_apply_def batch_Write_def empty_db_def Let_def)
  ultimately show ?thesis using initialize_sample
    by (simp add: HasIndexedFinalizedOperation_def GetFinalizedOperationHeight_def KV_ReadAs_def ReadRaw_def)
qed

lemma fresh_executor: "m_valid (wc_executor fresh_context)" "m_candidate (wc_executor fresh_context) = sample_state"
  "m_initial_supply (wc_executor fresh_context) = TotalCybou sample_state"
proof -
  have "expire_commits 1 DevProtocolParameters sample_state = sample_state" by (simp add: expire_commits_def sample_state_def)
  then show "m_valid (wc_executor fresh_context)" "m_candidate (wc_executor fresh_context) = sample_state"
    "m_initial_supply (wc_executor fresh_context) = TotalCybou sample_state"
    by (simp_all add: fresh_context_def new_executor_def sample_valid Let_def)
qed

lemma try_sample: "try_operation tail_crypto sample_operation (wc_executor fresh_context)
    = Inr (Some ((wc_executor fresh_context) \<lparr> m_candidate := paid_state \<rparr>))"
proof -
  have p: "ApplyPayment tail_crypto sample_payment 5 DevProtocolParameters sample_state = (PaymentError.NONE, paid_state)"
    by (simp add: paid_state_eq sample_payment_applies)
  have t: "TotalCybou paid_state = TotalCybou sample_state"
    using ApplyPayment_conserves [OF p] sample_wf TotalCybou_exact [of paid_state] TotalCybou_exact [of sample_state]
    by (intro unsigned_word_eqI [where 'a = nat]) (simp add: conserves_def supply_bounded_def)
  have f: "m_network_binding (wc_executor fresh_context) = 5" "m_params (wc_executor fresh_context) = DevProtocolParameters"
    by (simp_all add: fresh_context_def new_executor_def Let_def)
  show ?thesis
    by (simp add: try_operation_def ApplyOperation_def dispatch_def outcome_def sample_operation_def f p fresh_executor Let_def
        finish_operation_def IsOk_def empty_result_def CanFinalize_def paid_valid t)
qed

lemma sample_work: "CheckOperationWork tail_crypto 5 1 0 (RequiredWorkBits DefaultPoolLimits sample_operation) = Inr True"
proof -
  have "RequiredWorkBits DefaultPoolLimits sample_operation = 22"
    by (simp add: RequiredWorkBits_def RequiredOperationWorkBits_def DefaultPoolLimits_def sample_operation_def OPERATION_WORK_BITS_def)
  moreover have "ComputeOperationWorkHash tail_crypto 5 1 0 = Inr 1"
    by (simp add: ComputeOperationWorkHash_def work_message_def Sha256_Finalize_def tail_hash_def last_le_bytes)
  moreover have "(22 :: nat) \<le> LeadingZeroBits 1"
    unfolding LeadingZeroBits_def by (subst leading_zero_bits_iff) (simp_all add: nat_be_be_bytes)
  ultimately show ?thesis by (simp add: CheckOperationWork_def)
qed

lemma genesis_fields: "ss_network_binding genesis_store = 5" "ss_params genesis_store = DevProtocolParameters" "ss_poa_key genesis_store = poa_key"
  "GetStateSnapshot tail_crypto genesis_db genesis_store = (Inr \<lparr> slr_error = StateLoadError.NONE, slr_state = Some sample_state \<rparr>, genesis_store)"
  by (simp_all add: genesis_store_def sample_store_def sample_genesis_def sample_network_def GetStateSnapshot_def GetStateSnapshotLocked_def)

lemma ensure_sample:
  assumes "pl_working p = None" "pl_entries p = []"
  shows "EnsureWorkingContext tail_crypto torn genesis_db \<lparr> fh_block_id = 1, fh_height = 0 \<rparr> p genesis_store
    = (Inr (), p \<lparr> pl_working := Some fresh_context \<rparr>, genesis_store)"
  using fresh_executor(1) assms by (simp add: EnsureWorkingContext_def genesis_fields Let_def fresh_context_def)

lemma sample_fits:
  assumes "pl_entries p = []" "pl_peer_usage p = Map.empty" "pl_bytes p = 0" "pl_limits p = DefaultPoolLimits"
  shows "FitsGlobalLimits p 2606" "fits_peer p (Some ''peer'') 2606"
  using assms by (simp_all add: FitsGlobalLimits_def fits_peer_def FitsPeerLimits_def usage_of_def Let_def DefaultPoolLimits_def MAX_PENDING_OPERATIONS_def
      MAX_PENDING_OPERATION_BYTES_def MAX_PEER_PENDING_OPERATIONS_def MAX_PEER_PENDING_BYTES_def)

lemma admit_sample: "Admit tail_crypto torn genesis_db sample_operation 0 (Some ''peer'') (new_pool DefaultPoolLimits) genesis_store
    = (Inr ACCEPTED, sample_pool, genesis_store)"
proof -
  let ?p = "new_pool DefaultPoolLimits \<lparr> pl_working := Some fresh_context \<rparr>"
  have n: "pl_entries (new_pool DefaultPoolLimits) = []" "pl_working (new_pool DefaultPoolLimits) = None" "pl_ids (new_pool DefaultPoolLimits) = {}"
    "pl_peer_usage ?p = Map.empty" "pl_bytes ?p = 0" "pl_limits ?p = DefaultPoolLimits" "pl_entries ?p = []"
    by (simp_all add: new_pool_def)
  have "admit_working tail_crypto 5 sample_entry fresh_context ?p = Inr (ACCEPTED, sample_pool)"
    unfolding admit_working_def using n sample_fits [OF n(7,4,5,6)] sample_work try_sample fresh_executor(1)
    by (simp add: sample_entry_def sample_pool_def existing_create_def sample_operation_def)
  then have a: "admit_working tail_crypto 5 \<lparr> pe_operation = sample_operation, pe_id = 1, pe_work_nonce = 0, pe_bytes = 2606,
      pe_source_peer = Some ''peer'' \<rparr> fresh_context ?p = Inr (ACCEPTED, sample_pool)"
    unfolding sample_entry_def .
  obtain bs where bs: "SerializeProtocolOperation tail_crypto sample_operation = Inr (Some bs)" "length bs = 2606" "OperationIdOfBytes tail_crypto bs = Some 1"
    using sample_operation_bytes by blast
  have ne: "bs \<noteq> []" using bs(2) by auto
  show ?thesis unfolding Admit_def
    using bs ne n not_finalized initialize_sample ensure_sample [OF n(2,1)] a genesis_fields(1) by (simp add: MAX_OPERATION_PAYLOAD_BYTES_def)
qed

lemma sample_pool_reach:
  assumes "met genesis_db genesis_store"
  shows "pool_reach tail_crypto sample_genesis 5 sample_state met DefaultPoolLimits True sample_pool"
  using pool_reach.admit [where met = met, OF pool_reach.create genesis_store_ok _ assms admit_sample [of "\<lambda>_ x. x"]] initialize_sample by simp

text \<open>The genesis block names the sample state.\<close>

definition sample_final :: finalized_states where
  "sample_final i = (0, sample_state)"

lemma sample_named: "named tail_crypto sample_final genesis_db genesis_store"
  using initialize_sample by (simp add: named_def sample_final_def genesis_fields)

text \<open>On the same head the payment is kept.\<close>

lemma revalidate_sample: "Revalidate tail_crypto torn genesis_db sample_pool genesis_store = (Inr [], sample_pool, genesis_store)"
proof -
  let ?p0 = "ClearPool sample_pool" and ?q = "new_pool DefaultPoolLimits \<lparr> pl_working := Some fresh_context \<rparr>"
  have e: "pl_entries sample_pool = [sample_entry]" "pl_limits sample_pool = DefaultPoolLimits" by (simp_all add: sample_pool_def new_pool_def)
  then have q: "?p0 \<lparr> pl_working := Some fresh_context \<rparr> = ?q" "pl_working ?p0 = None" "pl_entries ?p0 = []"
    by (simp_all add: ClearPool_def new_pool_def)
  have n: "pl_ids ?q = {}" "pl_peer_usage ?q = Map.empty" "pl_bytes ?q = 0" "pl_limits ?q = DefaultPoolLimits" "pl_entries ?q = []"
    by (simp_all add: new_pool_def)
  have f: "pe_operation sample_entry = sample_operation" "pe_id sample_entry = 1" "pe_work_nonce sample_entry = 0" "pe_bytes sample_entry = 2606"
    "pe_source_peer sample_entry = Some ''peer''" by (simp_all add: sample_entry_def)
  have nc: "\<not> is_create sample_operation" by (simp add: is_create_def sample_operation_def)
  have r: "readmit tail_crypto genesis_db genesis_store sample_entry fresh_context ?q = Inr (Some sample_pool)"
    unfolding readmit_def f n using nc sample_fits [OF n(5,2,3,4)] sample_work try_sample not_finalized genesis_fields(1)
    by (simp add: sample_pool_def)
  have "readmit_all tail_crypto genesis_db genesis_store [sample_entry] ?q = (Inr [], sample_pool)"
    using r by simp
  moreover have "EnsureWorkingContext tail_crypto torn genesis_db \<lparr> fh_block_id = 1, fh_height = 0 \<rparr> ?p0 genesis_store = (Inr (), ?q, genesis_store)"
    using ensure_sample [OF q(2,3)] unfolding q(1) .
  ultimately show ?thesis using initialize_sample fresh_executor(1) by (simp add: Revalidate_def Let_def e)
qed

end
