(* ===== verification/OperationRelay.thy ===== *)
theory OperationRelay
  imports Executor "HOL-Library.Sublist" "HOL-Library.Multiset"
begin

text \<open>
  The bounded queue of exact operation bytes for hop-by-hop relay (\<^verbatim>\<open>operation_relay.h/.cpp\<close>). Each public call is one critical
  section. Shown over every history of calls: the bounds and the duplicate suppression, the claim is always the head, and
  the queue delivers what was enqueued, unmodified, in order and at most once. The seen cache is the exception: an identifier
  that expires while it is queued stays in the cache for ever.
\<close>

section \<open>The queue\<close>

datatype OperationRelayEnqueueStatus = QUEUED | DUPLICATE | QUEUE_FULL | INVALID_OPERATION

record RelayedOperation =
  ro_operation_id :: hash256
  ro_exact_bytes :: bytes
  ro_work_nonce :: u64

record OperationRelay =
  rl_max_operations :: u64
  rl_max_queued_bytes :: u64
  rl_seen_limit :: u64
  rl_queue :: "RelayedOperation list"
  rl_claimed_id :: "hash256 option"
  rl_queued_ids :: "hash256 set"
  rl_seen_order :: "hash256 list"
  rl_seen_ids :: "hash256 set"
  rl_queued_bytes :: u64

text \<open>The product of the constructor wraps in 64 bits.\<close>

definition new_relay :: "u64 \<Rightarrow> u64 \<Rightarrow> exn + OperationRelay" where
  "new_relay max_operations max_queued_bytes =
     (if max_operations = 0 \<or> max_queued_bytes < of_nat MAX_OPERATION_PAYLOAD_BYTES then Inl invalid_argument
      else Inr \<lparr> rl_max_operations = max_operations, rl_max_queued_bytes = max_queued_bytes, rl_seen_limit = max (max_operations * 16) 1024,
        rl_queue = [], rl_claimed_id = None, rl_queued_ids = {}, rl_seen_order = [], rl_seen_ids = {}, rl_queued_bytes = 0 \<rparr>)"

definition FitsQueueLimits :: "OperationRelay \<Rightarrow> u64 \<Rightarrow> bool" where
  "FitsQueueLimits r bytes \<longleftrightarrow> length (rl_queue r) < unat (rl_max_operations r)
     \<and> bytes \<le> rl_max_queued_bytes r - min (rl_queued_bytes r) (rl_max_queued_bytes r)"

text \<open>The expiry loop of \<^verbatim>\<open>RememberSeen\<close>.\<close>

fun expire_seen :: "nat \<Rightarrow> hash256 set \<Rightarrow> hash256 list \<Rightarrow> hash256 set \<Rightarrow> hash256 list \<times> hash256 set" where
  "expire_seen limit queued [] seen = ([], seen)"
| "expire_seen limit queued (x # xs) seen =
     (if length (x # xs) > limit then expire_seen limit queued xs (if x \<in> queued then seen else seen - {x}) else (x # xs, seen))"

definition RememberSeen :: "hash256 \<Rightarrow> OperationRelay \<Rightarrow> OperationRelay" where
  "RememberSeen i r =
     (if i \<in> rl_seen_ids r then r
      else let (order, seen) = expire_seen (unat (rl_seen_limit r)) (rl_queued_ids r) (rl_seen_order r @ [i]) (insert i (rl_seen_ids r))
        in r \<lparr> rl_seen_order := order, rl_seen_ids := seen \<rparr>)"

definition Enqueue :: "crypto \<Rightarrow> bytes \<Rightarrow> u64 \<Rightarrow> bool \<Rightarrow> OperationRelay \<Rightarrow> exn + OperationRelayEnqueueStatus \<times> OperationRelay" where
  "Enqueue C exact_operation_bytes work_nonce allow_seen_retry r =
     (if exact_operation_bytes = [] \<or> length exact_operation_bytes > MAX_OPERATION_PAYLOAD_BYTES then Inr (INVALID_OPERATION, r)
      else bindE (DeserializeProtocolOperation C exact_operation_bytes) (\<lambda>operation. case operation of None \<Rightarrow> Inr (INVALID_OPERATION, r)
        | Some op \<Rightarrow> bindE (ComputeOperationId C op) (\<lambda>operation_id. case operation_id of None \<Rightarrow> Inr (INVALID_OPERATION, r)
          | Some i \<Rightarrow>
            if i = 0 then Inr (INVALID_OPERATION, r)
            else if i \<in> rl_queued_ids r \<or> (i \<in> rl_seen_ids r \<and> \<not> allow_seen_retry) then Inr (DUPLICATE, r)
            else if \<not> FitsQueueLimits r (of_nat (length exact_operation_bytes)) then Inr (QUEUE_FULL, r)
            else
              let r1 = r \<lparr> rl_queue := rl_queue r @ [\<lparr> ro_operation_id = i, ro_exact_bytes = exact_operation_bytes, ro_work_nonce = work_nonce \<rparr>],
                           rl_queued_ids := insert i (rl_queued_ids r) \<rparr>;
                  r2 = RememberSeen i r1
              in Inr (QUEUED, r2 \<lparr> rl_queued_bytes := rl_queued_bytes r2 + of_nat (length exact_operation_bytes) \<rparr>))))"

definition Peek :: "(hash256 \<Rightarrow> bool) option \<Rightarrow> OperationRelay \<Rightarrow> RelayedOperation option" where
  "Peek skip r = find (\<lambda>item. case skip of None \<Rightarrow> True | Some f \<Rightarrow> \<not> f (ro_operation_id item)) (rl_queue r)"

definition Claim :: "OperationRelay \<Rightarrow> RelayedOperation option \<times> OperationRelay" where
  "Claim r = (case rl_queue r of [] \<Rightarrow> (None, r)
     | front # rest \<Rightarrow> if rl_claimed_id r \<noteq> None then (None, r) else (Some front, r \<lparr> rl_claimed_id := Some (ro_operation_id front) \<rparr>))"

definition Release :: "hash256 \<Rightarrow> OperationRelay \<Rightarrow> OperationRelay" where
  "Release i r = (if rl_claimed_id r = Some i then r \<lparr> rl_claimed_id := None \<rparr> else r)"

definition Acknowledge :: "hash256 \<Rightarrow> OperationRelay \<Rightarrow> bool \<times> OperationRelay" where
  "Acknowledge i r =
     (if rl_claimed_id r \<noteq> Some i then (False, r)
      else case rl_queue r of [] \<Rightarrow> (False, r)
      | front # rest \<Rightarrow>
        if ro_operation_id front \<noteq> i then (False, r)
        else (True, r \<lparr> rl_queued_bytes := rl_queued_bytes r - of_nat (length (ro_exact_bytes front)),
                        rl_queued_ids := rl_queued_ids r - {i}, rl_queue := rest, rl_claimed_id := None \<rparr>))"

definition HasQueued :: "hash256 \<Rightarrow> OperationRelay \<Rightarrow> bool" where
  "HasQueued i r \<longleftrightarrow> i \<in> rl_queued_ids r"

text \<open>\<^verbatim>\<open>m_queue.erase(item)\<close> at the first item of the identifier.\<close>

definition ForgetFinalized :: "hash256 \<Rightarrow> OperationRelay \<Rightarrow> OperationRelay" where
  "ForgetFinalized i r =
     (case find (\<lambda>item. ro_operation_id item = i) (rl_queue r) of None \<Rightarrow> r
      | Some item \<Rightarrow> r \<lparr> rl_queued_bytes := rl_queued_bytes r - of_nat (length (ro_exact_bytes item)),
          rl_queued_ids := rl_queued_ids r - {i},
          rl_queue := takeWhile (\<lambda>item. ro_operation_id item \<noteq> i) (rl_queue r) @ tl (dropWhile (\<lambda>item. ro_operation_id item \<noteq> i) (rl_queue r)),
          rl_claimed_id := (if rl_claimed_id r = Some i then None else rl_claimed_id r) \<rparr>)"

definition QueuedOperations :: "OperationRelay \<Rightarrow> nat" where
  "QueuedOperations r = length (rl_queue r)"

definition QueuedBytes :: "OperationRelay \<Rightarrow> u64" where
  "QueuedBytes r = rl_queued_bytes r"

section \<open>Well-formed relays\<close>

definition queue_ids :: "OperationRelay \<Rightarrow> hash256 list" where
  "queue_ids r = map ro_operation_id (rl_queue r)"

definition queue_total :: "RelayedOperation list \<Rightarrow> nat" where
  "queue_total q = sum_list (map (\<lambda>item. length (ro_exact_bytes item)) q)"

definition item_ok :: "crypto \<Rightarrow> RelayedOperation \<Rightarrow> bool" where
  "item_ok C item \<longleftrightarrow> ro_operation_id item \<noteq> 0 \<and> 0 < length (ro_exact_bytes item) \<and> length (ro_exact_bytes item) \<le> MAX_OPERATION_PAYLOAD_BYTES
     \<and> (\<exists>op. DeserializeProtocolOperation C (ro_exact_bytes item) = Inr (Some op) \<and> ComputeOperationId C op = Inr (Some (ro_operation_id item)))"

definition relay_ok :: "crypto \<Rightarrow> OperationRelay \<Rightarrow> bool" where
  "relay_ok C r \<longleftrightarrow> list_all (item_ok C) (rl_queue r) \<and> distinct (queue_ids r) \<and> rl_queued_ids r = set (queue_ids r)
     \<and> length (rl_queue r) \<le> unat (rl_max_operations r)
     \<and> unat (rl_queued_bytes r) = queue_total (rl_queue r) \<and> rl_queued_bytes r \<le> rl_max_queued_bytes r
     \<and> (\<forall>i. rl_claimed_id r = Some i \<longrightarrow> (\<exists>item rest. rl_queue r = item # rest \<and> ro_operation_id item = i))
     \<and> set (queue_ids r) \<subseteq> rl_seen_ids r \<and> set (rl_seen_order r) \<subseteq> rl_seen_ids r \<and> distinct (rl_seen_order r)
     \<and> length (rl_seen_order r) \<le> unat (rl_seen_limit r)"

lemma expire_seen_suffix:
  "expire_seen limit queued order seen = (order', seen') \<Longrightarrow> \<exists>n. order' = drop n order \<and> length order' \<le> max limit 0
     \<and> seen' = seen - {x \<in> set (take n order). x \<notin> queued}"
proof (induction order arbitrary: seen)
  case (Cons x xs)
  show ?case
  proof (cases "length (x # xs) > limit")
    case True
    then have e: "expire_seen limit queued xs (if x \<in> queued then seen else seen - {x}) = (order', seen')" using Cons.prems by simp
    obtain n where "order' = drop n xs" "length order' \<le> max limit 0"
      "seen' = (if x \<in> queued then seen else seen - {x}) - {x \<in> set (take n xs). x \<notin> queued}" using Cons.IH [OF e] by blast
    then show ?thesis by (intro exI [of _ "Suc n"]) auto
  next
    case False
    then show ?thesis using Cons.prems by (intro exI [of _ 0]) auto
  qed
qed simp

lemma RememberSeen_fields [simp]:
  "rl_max_operations (RememberSeen i r) = rl_max_operations r" "rl_max_queued_bytes (RememberSeen i r) = rl_max_queued_bytes r"
  "rl_seen_limit (RememberSeen i r) = rl_seen_limit r" "rl_queue (RememberSeen i r) = rl_queue r"
  "rl_claimed_id (RememberSeen i r) = rl_claimed_id r" "rl_queued_ids (RememberSeen i r) = rl_queued_ids r"
  "rl_queued_bytes (RememberSeen i r) = rl_queued_bytes r"
  by (simp_all add: RememberSeen_def split: prod.split)

text \<open>The effect on the seen cache: the identifier is remembered, no queued identifier is forgotten, the order list keeps its bound.\<close>

lemma RememberSeen_seen:
  assumes "set (rl_seen_order r) \<subseteq> rl_seen_ids r" "distinct (rl_seen_order r)" "length (rl_seen_order r) \<le> unat (rl_seen_limit r)"
    "i \<in> rl_queued_ids r" "x \<in> rl_queued_ids r \<Longrightarrow> x = i \<or> x \<in> rl_seen_ids r"
  shows "set (rl_seen_order (RememberSeen i r)) \<subseteq> rl_seen_ids (RememberSeen i r)" "distinct (rl_seen_order (RememberSeen i r))"
    "length (rl_seen_order (RememberSeen i r)) \<le> unat (rl_seen_limit r)" "x \<in> rl_queued_ids r \<Longrightarrow> x \<in> rl_seen_ids (RememberSeen i r)"
proof -
  have "set (rl_seen_order (RememberSeen i r)) \<subseteq> rl_seen_ids (RememberSeen i r) \<and> distinct (rl_seen_order (RememberSeen i r))
    \<and> length (rl_seen_order (RememberSeen i r)) \<le> unat (rl_seen_limit r) \<and> (x \<in> rl_queued_ids r \<longrightarrow> x \<in> rl_seen_ids (RememberSeen i r))"
  proof (cases "i \<in> rl_seen_ids r")
    case True
    then show ?thesis using assms by (auto simp: RememberSeen_def)
  next
    case False
    obtain order seen where e: "expire_seen (unat (rl_seen_limit r)) (rl_queued_ids r) (rl_seen_order r @ [i]) (insert i (rl_seen_ids r)) = (order, seen)"
      by fastforce
    obtain n where n: "order = drop n (rl_seen_order r @ [i])" "length order \<le> unat (rl_seen_limit r)"
      "seen = insert i (rl_seen_ids r) - {x \<in> set (take n (rl_seen_order r @ [i])). x \<notin> rl_queued_ids r}"
      using expire_seen_suffix [OF e] by auto
    have d: "distinct (rl_seen_order r @ [i])" using assms(1,2) False by auto
    then have dis: "set (take n (rl_seen_order r @ [i])) \<inter> set order = {}"
      unfolding n(1) using set_take_disj_set_drop_if_distinct [of "rl_seen_order r @ [i]" n n] by blast
    have sub: "set order \<subseteq> insert i (rl_seen_ids r)" unfolding n(1) using assms(1) set_drop_subset [of n "rl_seen_order r @ [i]"] by auto
    have "distinct order" unfolding n(1) using d by (rule distinct_drop)
    moreover have "set order \<subseteq> seen" unfolding n(3) using dis sub by blast
    moreover have "x \<in> rl_queued_ids r \<longrightarrow> x \<in> seen" unfolding n(3) using assms(4,5) by blast
    ultimately show ?thesis using False n(2) by (simp add: RememberSeen_def e)
  qed
  then show "set (rl_seen_order (RememberSeen i r)) \<subseteq> rl_seen_ids (RememberSeen i r)" "distinct (rl_seen_order (RememberSeen i r))"
    "length (rl_seen_order (RememberSeen i r)) \<le> unat (rl_seen_limit r)" "x \<in> rl_queued_ids r \<Longrightarrow> x \<in> rl_seen_ids (RememberSeen i r)" by auto
qed

lemma Enqueue_step:
  assumes ok: "relay_ok C r" and e: "Enqueue C bs nonce retry r = Inr (st, r')"
  shows "relay_ok C r'" and "st \<noteq> QUEUED \<Longrightarrow> r' = r"
    and "st = QUEUED \<Longrightarrow> \<exists>i. rl_queue r' = rl_queue r @ [\<lparr> ro_operation_id = i, ro_exact_bytes = bs, ro_work_nonce = nonce \<rparr>]
       \<and> i \<notin> rl_queued_ids r \<and> (retry \<or> i \<notin> rl_seen_ids r)"
proof -
  let ?item = "\<lambda>i. \<lparr> ro_operation_id = i, ro_exact_bytes = bs, ro_work_nonce = nonce \<rparr>"
  let ?r1 = "\<lambda>i. r \<lparr> rl_queue := rl_queue r @ [?item i], rl_queued_ids := insert i (rl_queued_ids r) \<rparr>"
  let ?r' = "\<lambda>i. (RememberSeen i (?r1 i)) \<lparr> rl_queued_bytes := rl_queued_bytes (RememberSeen i (?r1 i)) + of_nat (length bs) \<rparr>"
  let ?P = "\<lambda>(st, r'). (st \<noteq> QUEUED \<and> r' = r) \<or> (\<exists>i. st = QUEUED \<and> r' = ?r' i \<and> item_ok C (?item i) \<and> i \<notin> rl_queued_ids r
      \<and> (retry \<or> i \<notin> rl_seen_ids r) \<and> FitsQueueLimits r (of_nat (length bs)))"
  have "results ?P (Enqueue C bs nonce retry r)"
    unfolding Enqueue_def Let_def by (intro results_intros) (auto simp: item_ok_def not_less)
  then have "?P (st, r')" unfolding results_def e by blast
  then have c: "(st \<noteq> QUEUED \<and> r' = r) \<or> (\<exists>i. st = QUEUED \<and> r' = ?r' i \<and> item_ok C (?item i) \<and> i \<notin> rl_queued_ids r
      \<and> (retry \<or> i \<notin> rl_seen_ids r) \<and> FitsQueueLimits r (of_nat (length bs)))" by (simp only: prod.case)
  have main: "relay_ok C (?r' i)" if "item_ok C (?item i)" "i \<notin> rl_queued_ids r" "FitsQueueLimits r (of_nat (length bs))" for i
  proof -
    have l: "unat (of_nat (length bs) :: u64) = length bs"
      using that(1) by (simp add: item_ok_def MAX_OPERATION_PAYLOAD_BYTES_def unsigned_of_nat take_bit_nat_eq_self_iff)
    have "rl_queued_bytes r \<le> rl_max_queued_bytes r" using ok by (simp add: relay_ok_def)
    then have b: "unat (rl_queued_bytes r + of_nat (length bs)) = unat (rl_queued_bytes r) + length bs" "rl_queued_bytes r + of_nat (length bs) \<le> rl_max_queued_bytes r"
      using budget_add [of "rl_queued_bytes r" "rl_max_queued_bytes r" "of_nat (length bs)"] that(3) l by (simp_all add: FitsQueueLimits_def min_def)
    have s: "set (rl_seen_order (RememberSeen i (?r1 i))) \<subseteq> rl_seen_ids (RememberSeen i (?r1 i))" "distinct (rl_seen_order (RememberSeen i (?r1 i)))"
      "length (rl_seen_order (RememberSeen i (?r1 i))) \<le> unat (rl_seen_limit r)"
      "\<And>x. x \<in> insert i (rl_queued_ids r) \<Longrightarrow> x \<in> rl_seen_ids (RememberSeen i (?r1 i))"
      using RememberSeen_seen [of "?r1 i" i] ok by (auto simp: relay_ok_def)
    show ?thesis using ok that b s
      by (auto simp: relay_ok_def queue_ids_def queue_total_def FitsQueueLimits_def)
  qed
  from c main ok show "relay_ok C r'" "st \<noteq> QUEUED \<Longrightarrow> r' = r" by auto
  from c show "st = QUEUED \<Longrightarrow> \<exists>i. rl_queue r' = rl_queue r @ [?item i] \<and> i \<notin> rl_queued_ids r \<and> (retry \<or> i \<notin> rl_seen_ids r)"
    by auto
qed

lemma Claim_step:
  assumes "relay_ok C r" "Claim r = (item, r')"
  shows "relay_ok C r'" "rl_queue r' = rl_queue r" "item = Some x \<Longrightarrow> \<exists>rest. rl_queue r = x # rest"
  using assms by (auto simp: Claim_def relay_ok_def queue_ids_def image_subset_iff split: list.split_asm if_split_asm)

lemma Release_step: "relay_ok C r \<Longrightarrow> relay_ok C (Release i r)" "rl_queue (Release i r) = rl_queue r"
  by (auto simp: Release_def relay_ok_def queue_ids_def)

lemma queued_bytes_remove:
  assumes "relay_ok C r" and "item \<in> set (rl_queue r)" and "queue_total (rl_queue r) = length (ro_exact_bytes item) + n"
  shows "unat (rl_queued_bytes r - of_nat (length (ro_exact_bytes item))) = n"
    and "rl_queued_bytes r - of_nat (length (ro_exact_bytes item)) \<le> rl_max_queued_bytes r"
proof -
  let ?l = "of_nat (length (ro_exact_bytes item)) :: u64"
  have "length (ro_exact_bytes item) \<le> MAX_OPERATION_PAYLOAD_BYTES" using assms(1,2) by (auto simp: relay_ok_def list_all_iff item_ok_def)
  then have l: "unat ?l = length (ro_exact_bytes item)"
    by (simp add: MAX_OPERATION_PAYLOAD_BYTES_def unsigned_of_nat take_bit_nat_eq_self_iff)
  have t: "unat (rl_queued_bytes r) = length (ro_exact_bytes item) + n" using assms(1,3) by (simp add: relay_ok_def)
  then have "?l \<le> rl_queued_bytes r" using l by (simp add: word_le_nat_alt)
  then have "unat (rl_queued_bytes r - ?l) = unat (rl_queued_bytes r) - unat ?l" by (rule unat_sub)
  then show u: "unat (rl_queued_bytes r - ?l) = n" using l t by simp
  have "unat (rl_queued_bytes r) \<le> unat (rl_max_queued_bytes r)" using assms(1) by (simp add: relay_ok_def word_le_nat_alt)
  then show "rl_queued_bytes r - ?l \<le> rl_max_queued_bytes r" using u t by (simp add: word_le_nat_alt)
qed

lemma Acknowledge_step:
  assumes ok: "relay_ok C r" and a: "Acknowledge i r = (b, r')"
  shows "relay_ok C r'" and "\<not> b \<Longrightarrow> r' = r"
    and "b \<Longrightarrow> \<exists>item. rl_queue r = item # rl_queue r' \<and> ro_operation_id item = i \<and> rl_claimed_id r = Some i"
proof -
  have "relay_ok C r' \<and> (\<not> b \<longrightarrow> r' = r) \<and> (b \<longrightarrow> (\<exists>item. rl_queue r = item # rl_queue r' \<and> ro_operation_id item = i \<and> rl_claimed_id r = Some i))"
  proof (cases b)
    case False
    then show ?thesis using a ok by (auto simp: Acknowledge_def split: if_split_asm list.split_asm)
  next
    case True
    then obtain item rest where q: "rl_queue r = item # rest" "ro_operation_id item = i" "rl_claimed_id r = Some i"
      and r': "r' = r \<lparr> rl_queued_bytes := rl_queued_bytes r - of_nat (length (ro_exact_bytes item)),
                        rl_queued_ids := rl_queued_ids r - {i}, rl_queue := rest, rl_claimed_id := None \<rparr>"
      using a by (auto simp: Acknowledge_def split: if_split_asm list.split_asm)
    have "queue_total (rl_queue r) = length (ro_exact_bytes item) + queue_total rest" using q(1) by (simp add: queue_total_def)
    from queued_bytes_remove [OF ok _ this] have "unat (rl_queued_bytes r') = queue_total rest" "rl_queued_bytes r' \<le> rl_max_queued_bytes r"
      using q(1) r' by simp_all
    then have "relay_ok C r'" using ok q unfolding r' by (auto simp: relay_ok_def queue_ids_def)
    then show ?thesis using q True unfolding r' by simp
  qed
  then show "relay_ok C r'" "\<not> b \<Longrightarrow> r' = r" "b \<Longrightarrow> \<exists>item. rl_queue r = item # rl_queue r' \<and> ro_operation_id item = i \<and> rl_claimed_id r = Some i"
    by auto
qed

lemma ForgetFinalized_step:
  assumes ok: "relay_ok C r"
  shows "relay_ok C (ForgetFinalized i r) \<and> (rl_queue (ForgetFinalized i r) = rl_queue r \<or>
    (\<exists>xs item ys. rl_queue r = xs @ item # ys \<and> rl_queue (ForgetFinalized i r) = xs @ ys \<and> ro_operation_id item = i))"
proof (cases "find (\<lambda>item. ro_operation_id item = i) (rl_queue r)")
  case None
  then show ?thesis using ok by (simp add: ForgetFinalized_def)
next
  case (Some item)
  have sp: "\<exists>ys. dropWhile (\<lambda>item. ro_operation_id item \<noteq> i) q = item # ys" if "find (\<lambda>item. ro_operation_id item = i) q = Some item" for q
    using that by (induction q) (auto split: if_split_asm)
  obtain xs ys where d: "takeWhile (\<lambda>item. ro_operation_id item \<noteq> i) (rl_queue r) = xs"
    "dropWhile (\<lambda>item. ro_operation_id item \<noteq> i) (rl_queue r) = item # ys" using sp [OF Some] by blast
  have q: "rl_queue r = xs @ item # ys" using takeWhile_dropWhile_id [of "\<lambda>item. ro_operation_id item \<noteq> i" "rl_queue r"] d by simp
  have i: "ro_operation_id item = i" using Some by (auto simp: find_Some_iff)
  let ?b = "rl_queued_bytes r - of_nat (length (ro_exact_bytes item))"
  have r': "ForgetFinalized i r = r \<lparr> rl_queued_bytes := ?b, rl_queued_ids := rl_queued_ids r - {i}, rl_queue := xs @ ys,
      rl_claimed_id := (if rl_claimed_id r = Some i then None else rl_claimed_id r) \<rparr>" by (simp add: ForgetFinalized_def Some d)
  have "queue_total (rl_queue r) = length (ro_exact_bytes item) + queue_total (xs @ ys)" by (simp add: q queue_total_def)
  note b = queued_bytes_remove [OF ok _ this]
  have cl: "\<exists>f rest. xs @ ys = f # rest \<and> ro_operation_id f = j" if "rl_claimed_id r = Some j" "j \<noteq> i" for j
    using ok that i by (cases xs) (auto simp: relay_ok_def q)
  have "relay_ok C (ForgetFinalized i r)" unfolding r' using ok b i cl by (auto simp: relay_ok_def queue_ids_def q)
  then show ?thesis using q i unfolding r' by auto
qed

section \<open>Histories\<close>

text \<open>A run of the relay with what it enqueued, what it delivered (acknowledged) and what it forgot as finalized, in order.\<close>

record relay_run =
  rr_relay :: OperationRelay
  rr_enqueued :: "RelayedOperation list"
  rr_delivered :: "RelayedOperation list"
  rr_forgotten :: "RelayedOperation list"

inductive relay_history :: "crypto \<Rightarrow> u64 \<Rightarrow> u64 \<Rightarrow> relay_run \<Rightarrow> bool" for C max_operations max_bytes where
  create: "new_relay max_operations max_bytes = Inr r
    \<Longrightarrow> relay_history C max_operations max_bytes \<lparr> rr_relay = r, rr_enqueued = [], rr_delivered = [], rr_forgotten = [] \<rparr>"
| enqueue: "relay_history C max_operations max_bytes n \<Longrightarrow> Enqueue C bs nonce retry (rr_relay n) = Inr (st, r')
    \<Longrightarrow> relay_history C max_operations max_bytes (n \<lparr> rr_relay := r', rr_enqueued := rr_enqueued n @ drop (length (rl_queue (rr_relay n))) (rl_queue r') \<rparr>)"
| claim: "relay_history C max_operations max_bytes n \<Longrightarrow> Claim (rr_relay n) = (item, r')
    \<Longrightarrow> relay_history C max_operations max_bytes (n \<lparr> rr_relay := r' \<rparr>)"
| release: "relay_history C max_operations max_bytes n \<Longrightarrow> relay_history C max_operations max_bytes (n \<lparr> rr_relay := Release i (rr_relay n) \<rparr>)"
| acknowledge: "relay_history C max_operations max_bytes n \<Longrightarrow> Acknowledge i (rr_relay n) = (b, r')
    \<Longrightarrow> relay_history C max_operations max_bytes (n \<lparr> rr_relay := r',
          rr_delivered := rr_delivered n @ (if b then take 1 (rl_queue (rr_relay n)) else []) \<rparr>)"
| forget: "relay_history C max_operations max_bytes n
    \<Longrightarrow> relay_history C max_operations max_bytes (n \<lparr> rr_relay := ForgetFinalized i (rr_relay n),
          rr_forgotten := rr_forgotten n @ (if HasQueued i (rr_relay n) then filter (\<lambda>x. ro_operation_id x = i) (rl_queue (rr_relay n)) else []) \<rparr>)"

definition run_ok :: "crypto \<Rightarrow> relay_run \<Rightarrow> bool" where
  "run_ok C n \<longleftrightarrow> relay_ok C (rr_relay n) \<and> subseq (rr_delivered n @ rl_queue (rr_relay n)) (rr_enqueued n)
     \<and> mset (rr_enqueued n) = mset (rr_delivered n) + mset (rr_forgotten n) + mset (rl_queue (rr_relay n))"

lemma new_relay_ok: "new_relay max_operations max_bytes = Inr r \<Longrightarrow> relay_ok C r"
  by (auto simp: new_relay_def relay_ok_def queue_ids_def queue_total_def split: if_split_asm)

lemma distinct_split_filter:
  assumes "distinct (map f (xs @ x # ys))"
  shows "filter (\<lambda>y. f y = f x) (xs @ x # ys) = [x]"
proof -
  have "f x \<notin> f ` set xs" "f x \<notin> f ` set ys" using assms by auto
  then have "filter (\<lambda>y. f y = f x) xs = []" "filter (\<lambda>y. f y = f x) ys = []" unfolding filter_empty_conv by (metis image_eqI)+
  then show ?thesis by simp
qed

lemma relay_history_ok: "relay_history C max_operations max_bytes n \<Longrightarrow> run_ok C n"
proof (induction rule: relay_history.induct)
  case (create r)
  then show ?case using new_relay_ok [OF create] by (auto simp: run_ok_def new_relay_def split: if_split_asm)
next
  case (enqueue n bs nonce retry st r')
  then have ok: "relay_ok C (rr_relay n)" by (simp add: run_ok_def)
  note e = Enqueue_step [OF ok enqueue.hyps(2)]
  obtain xs where q: "rl_queue r' = rl_queue (rr_relay n) @ xs" using e(2,3) by (cases "st = QUEUED") auto
  have "subseq ((rr_delivered n @ rl_queue (rr_relay n)) @ xs) (rr_enqueued n @ xs)"
    using enqueue.IH by (intro list_emb_append_mono) (simp_all add: run_ok_def)
  then show ?case using enqueue.IH e(1) q by (simp add: run_ok_def)
next
  case (claim n item r')
  then show ?case using Claim_step [of C "rr_relay n"] by (simp add: run_ok_def)
next
  case (release n i)
  then show ?case using Release_step(1) [of C "rr_relay n" i] Release_step(2) [of i "rr_relay n"] by (simp add: run_ok_def)
next
  case (acknowledge n i b r')
  then have "relay_ok C (rr_relay n)" by (simp add: run_ok_def)
  from Acknowledge_step [OF this acknowledge.hyps(2)] acknowledge.IH show ?case
    by (cases b) (auto simp: run_ok_def)
next
  case (forget n i)
  then have ok: "relay_ok C (rr_relay n)" by (simp add: run_ok_def)
  have d: "distinct (map ro_operation_id (rl_queue (rr_relay n)))" "rl_queued_ids (rr_relay n) = ro_operation_id ` set (rl_queue (rr_relay n))"
    using ok by (simp_all add: relay_ok_def queue_ids_def)
  from ForgetFinalized_step [OF ok, of i] show ?case
  proof (elim conjE disjE exE)
    assume f: "relay_ok C (ForgetFinalized i (rr_relay n))" "rl_queue (ForgetFinalized i (rr_relay n)) = rl_queue (rr_relay n)"
    have "i \<notin> set (queue_ids (rr_relay n))"
    proof
      assume "i \<in> set (queue_ids (rr_relay n))"
      then have "find (\<lambda>item. ro_operation_id item = i) (rl_queue (rr_relay n)) \<noteq> None" by (auto simp: find_None_iff queue_ids_def)
      then have "i \<notin> rl_queued_ids (ForgetFinalized i (rr_relay n))" by (auto simp: ForgetFinalized_def)
      then show False using f ok \<open>i \<in> set (queue_ids (rr_relay n))\<close> by (simp add: relay_ok_def queue_ids_def)
    qed
    then have "\<not> HasQueued i (rr_relay n)" using d by (auto simp: HasQueued_def queue_ids_def)
    then show ?thesis using forget.IH f by (simp add: run_ok_def)
  next
    fix xs item ys
    assume f: "relay_ok C (ForgetFinalized i (rr_relay n))" "rl_queue (rr_relay n) = xs @ item # ys"
      "rl_queue (ForgetFinalized i (rr_relay n)) = xs @ ys" "ro_operation_id item = i"
    have h: "HasQueued i (rr_relay n)" using d(2) f(2,4) by (simp add: HasQueued_def)
    have "filter (\<lambda>y. ro_operation_id y = i) (xs @ item # ys) = [item]" using distinct_split_filter [of ro_operation_id xs item ys] d(1) f(2,4) by simp
    moreover have "subseq (rr_delivered n @ xs @ ys) (rr_delivered n @ xs @ item # ys)" by (intro list_emb_append_mono) auto
    ultimately show ?thesis using forget.IH f h subseq_order.order_trans by (fastforce simp: run_ok_def)
  qed
qed

section \<open>The seen cache\<close>

text \<open>An identifier that is remembered but no longer in the expiry order stays remembered, whatever happens next.\<close>

definition stale :: "hash256 \<Rightarrow> OperationRelay \<Rightarrow> bool" where
  "stale i r \<longleftrightarrow> i \<in> rl_seen_ids r \<and> i \<notin> set (rl_seen_order r)"

lemma RememberSeen_stale: "stale i r \<Longrightarrow> stale i (RememberSeen j r)"
proof (cases "j \<in> rl_seen_ids r")
  case False
  assume st: "stale i r"
  then have "i \<noteq> j" using False by (auto simp: stale_def)
  obtain order seen where e: "expire_seen (unat (rl_seen_limit r)) (rl_queued_ids r) (rl_seen_order r @ [j]) (insert j (rl_seen_ids r)) = (order, seen)"
    by fastforce
  obtain n where n: "order = drop n (rl_seen_order r @ [j])" "seen = insert j (rl_seen_ids r) - {x \<in> set (take n (rl_seen_order r @ [j])). x \<notin> rl_queued_ids r}"
    using expire_seen_suffix [OF e] by blast
  have "i \<notin> set (rl_seen_order r @ [j])" using st \<open>i \<noteq> j\<close> by (simp add: stale_def)
  then have ni: "i \<notin> set order" "i \<notin> set (take n (rl_seen_order r @ [j]))"
    unfolding n(1) using in_set_takeD [of i n] in_set_dropD [of i n] by blast+
  have "i \<in> seen" unfolding n(2) using ni(2) st by (simp add: stale_def)
  note ni(1) this
  then show ?thesis using False by (simp add: stale_def RememberSeen_def e)
qed (simp add: RememberSeen_def)

lemma Enqueue_stale: "stale i r \<Longrightarrow> Enqueue C bs nonce retry r = Inr (st, r') \<Longrightarrow> stale i r'"
proof -
  assume s: "stale i r" and e: "Enqueue C bs nonce retry r = Inr (st, r')"
  have "results (\<lambda>(st, r'). stale i r') (Enqueue C bs nonce retry r)"
    unfolding Enqueue_def Let_def
  proof (intro results_intros, simp_all only: s prod.case)
    show "stale i (RememberSeen j (r \<lparr> rl_queue := q, rl_queued_ids := ids \<rparr>) \<lparr> rl_queued_bytes := b \<rparr>)" for j q ids b
    proof -
      have "stale i (r \<lparr> rl_queue := q, rl_queued_ids := ids \<rparr>)" using s by (simp add: stale_def)
      from RememberSeen_stale [OF this, of j] show ?thesis by (simp add: stale_def)
    qed
  qed
  then show ?thesis unfolding results_def e by blast
qed

lemma expire_queued:
  "x \<in> queued \<Longrightarrow> limit \<le> length xs \<Longrightarrow> distinct (x # xs) \<Longrightarrow> x \<in> seen \<Longrightarrow> expire_seen limit queued (x # xs) seen = (order, seen')
     \<Longrightarrow> x \<in> seen' \<and> x \<notin> set order"
  using expire_seen_suffix [of limit queued xs seen order seen'] by (auto dest: in_set_dropD)

text \<open>A full order list whose oldest identifier is still queued: the next new identifier makes it stale.\<close>

lemma seen_cache_leaks:
  assumes "relay_ok C r" and "rl_seen_order r = x # xs" and "length (x # xs) = unat (rl_seen_limit r)" and "x \<in> rl_queued_ids r" and "i \<notin> rl_seen_ids r"
  shows "stale x (RememberSeen i r)"
proof -
  obtain order seen where e: "expire_seen (unat (rl_seen_limit r)) (rl_queued_ids r) (x # (xs @ [i])) (insert i (rl_seen_ids r)) = (order, seen)"
    by fastforce
  have "distinct (x # (xs @ [i]))" "x \<in> insert i (rl_seen_ids r)" using assms by (auto simp: relay_ok_def)
  from expire_queued [OF assms(4) _ this e] assms(3) have "x \<in> seen \<and> x \<notin> set order" by simp
  then show ?thesis using assms(2,5) e by (simp add: stale_def RememberSeen_def)
qed

end
