(* ===== verification/IngressBudget.thy ===== *)
theory IngressBudget
  imports OrderedMap "HOL-Library.Multiset"
begin

text \<open>
  The local admission of incoming work (\<^verbatim>\<open>p2p/ingress_budget.h\<close>): quotas per address in windows of a minute and of a second, and
  the slots of concurrent storage transfers. Time points are nanoseconds of the steady clock as integers; every call is one
  critical section. Shown for every sequence of requests at non-decreasing times: in any interval of a minute, and of a second,
  wherever it starts, an address gets at most twice the quota of a window; and the transfer slots are exactly the leases held.
\<close>

section \<open>Quotas\<close>

datatype Work = CONNECTION | OPERATION | STORAGE_PUT | STORAGE_GET | STORAGE_PROOF

record Window =
  w_start :: int
  w_second :: int
  w_operations :: u64
  w_operations_second :: u64
  w_connections :: u64
  w_connections_second :: u64
  w_bytes_second :: u64
  w_storage :: "u64 list"
  w_storage_second :: "u64 list"
  w_storage_bytes :: u64
  w_storage_bytes_second :: u64

record IngressBudget =
  ib_last_cleanup :: int
  ib_peers :: "(string \<times> Window) list"

definition new_budget :: IngressBudget where
  "new_budget = \<lparr> ib_last_cleanup = 0, ib_peers = [] \<rparr>"

definition SECOND :: int where "SECOND = 1000000000"
definition MINUTE :: int where "MINUTE = 60 * SECOND"
definition MAX_PEER_WINDOWS :: nat where "MAX_PEER_WINDOWS = 4096"

definition new_window :: "int \<Rightarrow> Window" where
  "new_window now = \<lparr> w_start = now, w_second = 0, w_operations = 0, w_operations_second = 0, w_connections = 0, w_connections_second = 0,
     w_bytes_second = 0, w_storage = [0, 0, 0], w_storage_second = [0, 0, 0], w_storage_bytes = 0, w_storage_bytes_second = 0 \<rparr>"

text \<open>\<^verbatim>\<open>duration_cast<seconds>\<close> truncates towards zero.\<close>

definition seconds_of :: "int \<Rightarrow> int" where
  "seconds_of d = (if d \<ge> 0 then d div SECOND else - ((- d) div SECOND))"

definition cleanup :: "int \<Rightarrow> IngressBudget \<Rightarrow> IngressBudget" where
  "cleanup now b = (if now - ib_last_cleanup b \<ge> SECOND \<or> length (ib_peers b) \<ge> MAX_PEER_WINDOWS
     then \<lparr> ib_last_cleanup = now, ib_peers = filter (\<lambda>(a, w). \<not> now - w_start w \<ge> MINUTE) (ib_peers b) \<rparr> else b)"

text \<open>The window the request falls in; \<open>None\<close> when no further address can be tracked.\<close>

definition current_window :: "int \<Rightarrow> string \<Rightarrow> (string \<times> Window) list \<Rightarrow> Window option" where
  "current_window now address peers =
     (case map_find peers address of
        None \<Rightarrow> if length peers \<ge> MAX_PEER_WINDOWS then None else Some (new_window now)
      | Some w \<Rightarrow> if now - w_start w \<ge> MINUTE then Some (new_window now) else Some w)"

definition roll_second :: "int \<Rightarrow> Window \<Rightarrow> Window" where
  "roll_second now w = (let second = seconds_of (now - w_start w) in
     if second \<noteq> w_second w
     then w \<lparr> w_second := second, w_operations_second := 0, w_bytes_second := 0, w_connections_second := 0,
              w_storage_second := [0, 0, 0], w_storage_bytes_second := 0 \<rparr>
     else w)"

definition storage_kind :: "Work \<Rightarrow> nat" where
  "storage_kind work = (case work of STORAGE_PUT \<Rightarrow> 0 | STORAGE_GET \<Rightarrow> 1 | STORAGE_PROOF \<Rightarrow> 2 | _ \<Rightarrow> 3)"

definition charge :: "Work \<Rightarrow> u64 \<Rightarrow> Window \<Rightarrow> bool \<times> Window" where
  "charge work bytes w =
     (if work = CONNECTION then
        (if w_connections_second w \<ge> 4 \<or> w_connections w \<ge> 60 then (False, w)
         else (True, w \<lparr> w_connections_second := w_connections_second w + 1, w_connections := w_connections w + 1 \<rparr>))
      else if work \<noteq> OPERATION then
        (let kind = storage_kind work; proof_work = (work = STORAGE_PROOF) in
         if kind \<ge> length (w_storage w) then (False, w)
         else if w_storage_second w ! kind \<ge> (if proof_work then 8 else 64) \<or> w_storage w ! kind \<ge> (if proof_work then 120 else 2048)
             \<or> bytes > push_bit 20 32 - w_storage_bytes_second w \<or> bytes > push_bit 20 512 - w_storage_bytes w then (False, w)
         else (True, w \<lparr> w_storage_second := (w_storage_second w)[kind := w_storage_second w ! kind + 1],
             w_storage := (w_storage w)[kind := w_storage w ! kind + 1],
             w_storage_bytes_second := w_storage_bytes_second w + bytes, w_storage_bytes := w_storage_bytes w + bytes \<rparr>))
      else if w_operations_second w \<ge> 8 \<or> w_operations w \<ge> 120 \<or> bytes > push_bit 20 1 - w_bytes_second w then (False, w)
      else (True, w \<lparr> w_operations_second := w_operations_second w + 1, w_operations := w_operations w + 1, w_bytes_second := w_bytes_second w + bytes \<rparr>))"

text \<open>The window is emplaced when it is new and updated through its reference.\<close>

definition put_window :: "string \<Rightarrow> Window \<Rightarrow> (string \<times> Window) list \<Rightarrow> (string \<times> Window) list" where
  "put_window address w peers = map_adjust address (\<lambda>_. w) (map_emplace address w peers)"

definition AdmitWork :: "string \<Rightarrow> Work \<Rightarrow> u64 \<Rightarrow> int \<Rightarrow> IngressBudget \<Rightarrow> bool \<times> IngressBudget" where
  "AdmitWork address work bytes now b =
     (let b1 = cleanup now b in
      case current_window now address (ib_peers b1) of None \<Rightarrow> (False, b1)
      | Some w \<Rightarrow> let (ok, w') = charge work bytes (roll_second now w)
          in (ok, b1 \<lparr> ib_peers := put_window address w' (ib_peers b1) \<rparr>))"

section \<open>Storage transfers\<close>

record Transfers =
  t_active :: "string \<rightharpoonup> u64"
  t_total :: u64

definition new_transfers :: Transfers where
  "new_transfers = \<lparr> t_active = Map.empty, t_total = 0 \<rparr>"

definition AcquireStorageTransfer :: "string \<Rightarrow> Transfers \<Rightarrow> bool \<times> Transfers" where
  "AcquireStorageTransfer address t =
     (if t_total t \<ge> 8 then (False, t)
      else let active = (case t_active t address of None \<Rightarrow> 0 | Some n \<Rightarrow> n);
               t1 = t \<lparr> t_active := (t_active t)(address \<mapsto> active) \<rparr>
        in if active \<ge> 2 then (False, t1)
           else (True, t1 \<lparr> t_active := (t_active t1)(address \<mapsto> active + 1), t_total := t_total t1 + 1 \<rparr>))"

text \<open>The destructor of an acquired lease; \<open>None\<close> where it would follow an iterator that points nowhere.\<close>

definition ReleaseStorageTransfer :: "string \<Rightarrow> Transfers \<Rightarrow> Transfers option" where
  "ReleaseStorageTransfer address t =
     (case t_active t address of None \<Rightarrow> None
      | Some n \<Rightarrow> Some \<lparr> t_active = (if n - 1 = 0 then (t_active t)(address := None) else (t_active t)(address \<mapsto> n - 1)), t_total = t_total t - 1 \<rparr>)"

section \<open>Resources\<close>

text \<open>What a window meters: requests of a kind, operation bytes and storage bytes, each with its level and its quota.\<close>

datatype resource = Requests Work | OperationBytes | StorageBytes

definition cost :: "resource \<Rightarrow> Work \<Rightarrow> u64 \<Rightarrow> nat" where
  "cost r work bytes = (case r of Requests w \<Rightarrow> if w = work then 1 else 0
     | OperationBytes \<Rightarrow> if work = OPERATION then unat bytes else 0
     | StorageBytes \<Rightarrow> if work \<in> {STORAGE_PUT, STORAGE_GET, STORAGE_PROOF} then unat bytes else 0)"

fun level_second :: "resource \<Rightarrow> Window \<Rightarrow> nat" where
  "level_second (Requests CONNECTION) w = unat (w_connections_second w)"
| "level_second (Requests OPERATION) w = unat (w_operations_second w)"
| "level_second (Requests work) w = unat (w_storage_second w ! storage_kind work)"
| "level_second OperationBytes w = unat (w_bytes_second w)"
| "level_second StorageBytes w = unat (w_storage_bytes_second w)"

fun level_minute :: "resource \<Rightarrow> Window \<Rightarrow> nat" where
  "level_minute (Requests CONNECTION) w = unat (w_connections w)"
| "level_minute (Requests OPERATION) w = unat (w_operations w)"
| "level_minute (Requests work) w = unat (w_storage w ! storage_kind work)"
| "level_minute OperationBytes w = 0"
| "level_minute StorageBytes w = unat (w_storage_bytes w)"

fun second_quota :: "resource \<Rightarrow> nat" where
  "second_quota (Requests CONNECTION) = 4"
| "second_quota (Requests OPERATION) = 8"
| "second_quota (Requests STORAGE_PUT) = 64"
| "second_quota (Requests STORAGE_GET) = 64"
| "second_quota (Requests STORAGE_PROOF) = 8"
| "second_quota OperationBytes = 1048576"
| "second_quota StorageBytes = 33554432"

text \<open>The minute has no byte quota for operations: sixty seconds of the second quota bound it.\<close>

fun minute_quota :: "resource \<Rightarrow> nat" where
  "minute_quota (Requests CONNECTION) = 60"
| "minute_quota (Requests OPERATION) = 120"
| "minute_quota (Requests STORAGE_PUT) = 2048"
| "minute_quota (Requests STORAGE_GET) = 2048"
| "minute_quota (Requests STORAGE_PROOF) = 120"
| "minute_quota OperationBytes = 0"
| "minute_quota StorageBytes = 536870912"

definition window_ok :: "Window \<Rightarrow> bool" where
  "window_ok w \<longleftrightarrow> length (w_storage w) = 3 \<and> length (w_storage_second w) = 3
     \<and> (\<forall>r. level_second r w \<le> second_quota r \<and> level_minute r w \<le> minute_quota r)"

lemma resource_all: "(\<forall>r. P r) \<longleftrightarrow> P (Requests CONNECTION) \<and> P (Requests OPERATION) \<and> P (Requests STORAGE_PUT)
    \<and> P (Requests STORAGE_GET) \<and> P (Requests STORAGE_PROOF) \<and> P OperationBytes \<and> P StorageBytes"
proof -
  have "P r" if a: "P (Requests CONNECTION)" "P (Requests OPERATION)" "P (Requests STORAGE_PUT)" "P (Requests STORAGE_GET)"
    "P (Requests STORAGE_PROOF)" "P OperationBytes" "P StorageBytes" for r
  proof (cases r)
    case (Requests x)
    then show ?thesis using a by (cases x) simp_all
  qed (use a in simp_all)
  then show ?thesis by blast
qed

lemma length_three: "length xs = 3 \<Longrightarrow> \<exists>a b c. xs = [a, b, c]"
  by (auto simp: length_Suc_conv numeral_3_eq_3)

lemma step_counter: "x < q \<Longrightarrow> unat (x + 1) = unat x + 1 \<and> unat x + 1 \<le> unat q" for x q :: u64
  using budget_add [of x q 1] by (simp add: word_less_nat_alt word_le_nat_alt unat_sub)

lemma step_bytes: "x \<le> q \<Longrightarrow> \<not> q - x < b \<Longrightarrow> unat (x + b) = unat x + unat b \<and> unat x + unat b \<le> unat q" for x q b :: u64
  using budget_add [of x q b] by (simp add: not_less word_le_nat_alt)

lemma charge_ok:
  assumes "charge work bytes w = (True, w')" and "window_ok w"
  shows "window_ok w' \<and> w_start w' = w_start w \<and> w_second w' = w_second w
    \<and> (\<forall>r. level_second r w' = level_second r w + cost r work bytes)
    \<and> (\<forall>r. r \<noteq> OperationBytes \<longrightarrow> level_minute r w' = level_minute r w + cost r work bytes)"
proof -
  obtain a b c where s: "w_storage w = [a, b, c]" using length_three [of "w_storage w"] assms(2) unfolding window_ok_def by blast
  obtain d e f where t: "w_storage_second w = [d, e, f]" using length_three [of "w_storage_second w"] assms(2) unfolding window_ok_def by blast
  have q: "push_bit 20 (32 :: u64) = 33554432" "push_bit 20 (512 :: u64) = 536870912" "push_bit 20 (1 :: u64) = 1048576" by code_simp+
  have b: "w_storage_bytes_second w \<le> 33554432" "w_storage_bytes w \<le> 536870912" "w_bytes_second w \<le> 1048576"
    using assms(2) unfolding window_ok_def resource_all by (simp_all add: word_le_nat_alt)
  show ?thesis
  proof (cases work)
    case CONNECTION
    then show ?thesis using assms step_counter [of "w_connections_second w" 4] step_counter [of "w_connections w" 60]
      unfolding window_ok_def resource_all by (auto simp: charge_def cost_def s t not_le storage_kind_def split: if_split_asm)
  next
    case OPERATION
    then show ?thesis using assms step_counter [of "w_operations_second w" 8] step_counter [of "w_operations w" 120] step_bytes [OF b(3)]
      unfolding window_ok_def resource_all by (auto simp: charge_def cost_def s t q not_le storage_kind_def split: if_split_asm)
  next
    case STORAGE_PUT
    then show ?thesis using assms step_counter [of d 64] step_counter [of a 2048] step_bytes [OF b(1)] step_bytes [OF b(2)]
      unfolding window_ok_def resource_all by (auto simp: charge_def cost_def s t q not_le storage_kind_def Let_def split: if_split_asm)
  next
    case STORAGE_GET
    then show ?thesis using assms step_counter [of e 64] step_counter [of b 2048] step_bytes [OF b(1)] step_bytes [OF b(2)]
      unfolding window_ok_def resource_all by (auto simp: charge_def cost_def s t q not_le storage_kind_def Let_def split: if_split_asm)
  next
    case STORAGE_PROOF
    then show ?thesis using assms step_counter [of f 8] step_counter [of c 120] step_bytes [OF b(1)] step_bytes [OF b(2)]
      unfolding window_ok_def resource_all by (auto simp: charge_def cost_def s t q not_le storage_kind_def Let_def split: if_split_asm)
  qed
qed

lemma charge_refused: "charge work bytes w = (False, w') \<Longrightarrow> w' = w"
  by (auto simp: charge_def Let_def split: if_split_asm)

section \<open>Admitted work\<close>

text \<open>The log of an execution: each admitted request with its time and the start of the window it was charged to.\<close>

record admitted =
  ad_address :: string
  ad_work :: Work
  ad_bytes :: u64
  ad_time :: int
  ad_window :: int

definition ad_slot :: "admitted \<Rightarrow> int" where
  "ad_slot e = ad_window e + (ad_time e - ad_window e) div SECOND * SECOND"

definition tally :: "resource \<Rightarrow> admitted list \<Rightarrow> nat" where
  "tally r L = sum_list (map (\<lambda>e. cost r (ad_work e) (ad_bytes e)) L)"

lemma tally_simps [simp]: "tally r [] = 0" "tally r (L @ M) = tally r L + tally r M" "tally r (e # L) = cost r (ad_work e) (ad_bytes e) + tally r L"
  by (simp_all add: tally_def)

text \<open>Groups of requests whose keys are at least \<open>D\<close> apart, each within \<open>D\<close> of its key: an interval of length \<open>D\<close> meets two of them.\<close>

definition spaced :: "int \<Rightarrow> (admitted \<Rightarrow> int) \<Rightarrow> admitted list \<Rightarrow> bool" where
  "spaced D key L \<longleftrightarrow> (\<forall>e\<in>set L. key e \<le> ad_time e \<and> ad_time e < key e + D)
     \<and> (\<forall>e\<in>set L. \<forall>f\<in>set L. key e < key f \<longrightarrow> key e + D \<le> key f)"

lemma tally_filter_mono: "(\<And>e. e \<in> set L \<Longrightarrow> P e \<Longrightarrow> Q e) \<Longrightarrow> tally r (filter P L) \<le> tally r (filter Q L)"
  by (induction L) (auto intro: le_SucI trans_le_add2)

lemma tally_filter_union: "tally r (filter (\<lambda>e. P e \<or> Q e) L) \<le> tally r (filter P L) + tally r (filter Q L)"
  by (induction L) auto

lemma interval_tally:
  assumes sp: "spaced D key L" and b: "\<And>k. tally r (filter (\<lambda>e. key e = k) L) \<le> B"
  shows "tally r (filter (\<lambda>e. t \<le> ad_time e \<and> ad_time e < t + D) L) \<le> 2 * B"
proof (cases "filter (\<lambda>e. t \<le> ad_time e \<and> ad_time e < t + D) L")
  case Nil
  then show ?thesis by simp
next
  let ?P = "\<lambda>e. t \<le> ad_time e \<and> ad_time e < t + D"
  case (Cons x xs)
  then have x: "x \<in> set L" "?P x" by (auto simp: filter_eq_Cons_iff)
  have "\<exists>k k'. \<forall>e\<in>set L. ?P e \<longrightarrow> key e = k \<or> key e = k'"
  proof (cases "\<exists>y\<in>set L. ?P y \<and> key y \<noteq> key x")
    case True
    then obtain y where y: "y \<in> set L" "?P y" "key y \<noteq> key x" by blast
    have "key e = key x \<or> key e = key y" if "e \<in> set L" "?P e" for e
    proof (rule ccontr)
      assume n: "\<not> (key e = key x \<or> key e = key y)"
      have w: "key z \<le> ad_time z" "ad_time z < key z + D" if "z \<in> set L" for z using sp that by (auto simp: spaced_def)
      have d: "key u + D \<le> key v" if "u \<in> set L" "v \<in> set L" "key u < key v" for u v using sp that by (auto simp: spaced_def)
      show False
        using n y x that w [OF x(1)] w [OF y(1)] w [OF that(1)] d [OF x(1) y(1)] d [OF y(1) x(1)] d [OF x(1) that(1)] d [OF that(1) x(1)]
          d [OF y(1) that(1)] d [OF that(1) y(1)] by linarith
    qed
    then show ?thesis by blast
  qed blast
  then obtain k k' where "\<forall>e\<in>set L. ?P e \<longrightarrow> key e = k \<or> key e = k'" by blast
  then have "tally r (filter ?P L) \<le> tally r (filter (\<lambda>e. key e = k \<or> key e = k') L)" by (intro tally_filter_mono) blast
  also have "\<dots> \<le> tally r (filter (\<lambda>e. key e = k) L) + tally r (filter (\<lambda>e. key e = k') L)" by (rule tally_filter_union)
  also have "\<dots> \<le> 2 * B" using b [of k] b [of k'] by simp
  finally show ?thesis .
qed

section \<open>The invariant of an address\<close>

definition slot_of :: "Window \<Rightarrow> int" where
  "slot_of w = w_start w + w_second w * SECOND"

definition log_ok :: "admitted list \<Rightarrow> bool" where
  "log_ok L \<longleftrightarrow> spaced MINUTE ad_window L
     \<and> (\<forall>r k. r \<noteq> OperationBytes \<longrightarrow> tally r (filter (\<lambda>e. ad_window e = k) L) \<le> minute_quota r)
     \<and> (\<forall>r k. tally r (filter (\<lambda>e. ad_slot e = k) L) \<le> second_quota r)"

definition window_inv :: "int \<Rightarrow> Window \<Rightarrow> admitted list \<Rightarrow> bool" where
  "window_inv now w L \<longleftrightarrow> window_ok w \<and> 0 \<le> w_second w \<and> slot_of w \<le> now
     \<and> (\<forall>e\<in>set L. ad_window e = w_start w \<or> ad_window e + MINUTE \<le> w_start w) \<and> (\<forall>e\<in>set L. ad_slot e \<le> slot_of w)
     \<and> (\<forall>r. r \<noteq> OperationBytes \<longrightarrow> tally r (filter (\<lambda>e. ad_window e = w_start w) L) = level_minute r w)
     \<and> (\<forall>r. tally r (filter (\<lambda>e. ad_slot e = slot_of w) L) = level_second r w)"

definition address_inv :: "int \<Rightarrow> Window option \<Rightarrow> admitted list \<Rightarrow> bool" where
  "address_inv now ow L \<longleftrightarrow> log_ok L \<and> (case ow of None \<Rightarrow> \<forall>e\<in>set L. ad_window e + MINUTE \<le> now | Some w \<Rightarrow> window_inv now w L)"

lemma slot_bounds: "ad_slot e \<le> ad_time e" "ad_time e < ad_slot e + SECOND"
proof -
  have "(ad_time e - ad_window e) div SECOND * SECOND + (ad_time e - ad_window e) mod SECOND = ad_time e - ad_window e" by simp
  moreover have "0 \<le> (ad_time e - ad_window e) mod SECOND" "(ad_time e - ad_window e) mod SECOND < SECOND" by (simp_all add: SECOND_def)
  ultimately show "ad_slot e \<le> ad_time e" "ad_time e < ad_slot e + SECOND" unfolding ad_slot_def by linarith+
qed

lemma slots_spaced:
  assumes "spaced MINUTE ad_window L"
  shows "spaced SECOND ad_slot L"
proof -
  have "ad_slot e + SECOND \<le> ad_slot f" if e: "e \<in> set L" and f: "f \<in> set L" and lt: "ad_slot e < ad_slot f" for e f
  proof -
    have w: "ad_window z \<le> ad_time z" "ad_time z < ad_window z + MINUTE" if "z \<in> set L" for z using assms that by (auto simp: spaced_def)
    have g: "ad_window e < ad_window f \<Longrightarrow> ad_window e + MINUTE \<le> ad_window f" "ad_window f < ad_window e \<Longrightarrow> ad_window f + MINUTE \<le> ad_window e"
      using assms e f by (auto simp: spaced_def)
    have p: "0 \<le> (ad_time z - ad_window z) div SECOND" "(ad_time z - ad_window z) div SECOND < 60" if "z \<in> set L" for z
    proof -
      have d: "0 \<le> ad_time z - ad_window z" "ad_time z - ad_window z < 60 * SECOND" using w [OF that] by (auto simp: MINUTE_def)
      show "0 \<le> (ad_time z - ad_window z) div SECOND" using d(1) by (simp add: SECOND_def pos_imp_zdiv_nonneg_iff)
      show "(ad_time z - ad_window z) div SECOND < 60" using d(2) by (simp add: SECOND_def div_less_iff_less_mult)
    qed
    consider "ad_window e = ad_window f" | "ad_window e + MINUTE \<le> ad_window f" | "ad_window f + MINUTE \<le> ad_window e" using g by linarith
    then show ?thesis
    proof cases
      case 1
      with lt have "(ad_time e - ad_window e) div SECOND < (ad_time f - ad_window f) div SECOND"
        unfolding ad_slot_def SECOND_def by simp
      then show ?thesis using 1 unfolding ad_slot_def SECOND_def by (simp add: algebra_simps)
    next
      case 2
      then show ?thesis using p [OF e] p [OF f] unfolding ad_slot_def MINUTE_def SECOND_def by linarith
    next
      case 3
      then show ?thesis using p [OF e] p [OF f] lt unfolding ad_slot_def MINUTE_def SECOND_def by linarith
    qed
  qed
  then show ?thesis unfolding spaced_def using slot_bounds by blast
qed

lemma address_inv_later: "address_inv now ow L \<Longrightarrow> now \<le> now' \<Longrightarrow> address_inv now' ow L"
  by (auto simp: address_inv_def window_inv_def split: option.split_asm)

lemma address_inv_evict: "address_inv now (Some w) L \<Longrightarrow> MINUTE \<le> now - w_start w \<Longrightarrow> address_inv now None L"
  by (auto simp: address_inv_def window_inv_def MINUTE_def SECOND_def)

lemma tally_none: "(\<And>e. e \<in> set L \<Longrightarrow> \<not> P e) \<Longrightarrow> tally r (filter P L) = 0"
  by (induction L) auto

lemma new_window_levels [simp]: "level_second r (new_window now) = 0" "level_minute r (new_window now) = 0" "window_ok (new_window now)"
proof -
  have "\<forall>r. level_second r (new_window now) = 0 \<and> level_minute r (new_window now) = 0"
    unfolding resource_all by (simp add: new_window_def storage_kind_def)
  then show "level_second r (new_window now) = 0" "level_minute r (new_window now) = 0" "window_ok (new_window now)"
    by (auto simp: window_ok_def new_window_def)
qed

lemma address_inv_fresh: "address_inv now None L \<Longrightarrow> address_inv now (Some (new_window now)) L"
proof -
  assume a: "address_inv now None L"
  have b: "ad_window e + MINUTE \<le> now" "ad_slot e < now" if "e \<in> set L" for e
  proof -
    show m: "ad_window e + MINUTE \<le> now" using a that by (simp add: address_inv_def)
    have "ad_time e < ad_window e + MINUTE" using a that by (simp add: address_inv_def log_ok_def spaced_def)
    then show "ad_slot e < now" using m slot_bounds(1) [of e] by linarith
  qed
  have s: "w_start (new_window now) = now" "w_second (new_window now) = 0" "slot_of (new_window now) = now" by (simp_all add: new_window_def slot_of_def)
  have "tally r (filter (\<lambda>e. ad_window e = now) L) = 0" "tally r (filter (\<lambda>e. ad_slot e = now) L) = 0" for r
    using b by (intro tally_none; force simp: MINUTE_def SECOND_def)+
  then show ?thesis using a b by (auto simp: address_inv_def window_inv_def s less_imp_le)
qed

text \<open>Rolling to the second of the request.\<close>

lemma roll_second_inv:
  assumes a: "window_inv now w L" and n: "now - w_start w < MINUTE" "w_start w \<le> now"
  shows "window_inv now (roll_second now w) L \<and> w_start (roll_second now w) = w_start w
    \<and> slot_of (roll_second now w) = w_start w + (now - w_start w) div SECOND * SECOND"
proof -
  let ?s = "(now - w_start w) div SECOND"
  have sec: "seconds_of (now - w_start w) = ?s" using n(2) by (simp add: seconds_of_def)
  show ?thesis
  proof (cases "?s = w_second w")
    case True
    then show ?thesis using a sec by (simp add: roll_second_def slot_of_def)
  next
    case False
    let ?w = "roll_second now w"
    have w: "?w = w \<lparr> w_second := ?s, w_operations_second := 0, w_bytes_second := 0, w_connections_second := 0,
              w_storage_second := [0, 0, 0], w_storage_bytes_second := 0 \<rparr>" using False sec by (simp add: roll_second_def)
    have old: "w_second w * SECOND \<le> now - w_start w" "0 \<le> w_second w" using a by (simp_all add: window_inv_def slot_of_def)
    then have "w_second w * SECOND div SECOND \<le> ?s" by (intro zdiv_mono1) (simp_all add: SECOND_def)
    then have "w_second w \<le> ?s" by (simp add: SECOND_def)
    with False have lt: "w_second w < ?s" by simp
    have le: "?s * SECOND \<le> now - w_start w" using div_mult_mod_eq [of "now - w_start w" SECOND] pos_mod_sign [of SECOND "now - w_start w"]
      by (simp add: SECOND_def)
    have lv: "\<forall>r. level_second r ?w = 0 \<and> level_minute r ?w = level_minute r w" unfolding resource_all w by (simp add: storage_kind_def)
    have f: "w_start ?w = w_start w" "w_second ?w = ?s" "slot_of ?w = w_start w + ?s * SECOND" unfolding w by (simp_all add: slot_of_def)
    have "slot_of w < slot_of ?w" using lt unfolding f(3) by (simp add: slot_of_def SECOND_def)
    then have sl: "ad_slot e < slot_of ?w" if "e \<in> set L" for e using a that by (auto simp: window_inv_def intro: le_less_trans)
    then have "tally r (filter (\<lambda>e. ad_slot e = slot_of ?w) L) = 0" for r by (intro tally_none) force
    moreover have "window_ok ?w" using a lv by (simp add: window_inv_def window_ok_def) (simp add: w)
    ultimately show ?thesis using a lv f sl le old(2) lt by (auto simp: window_inv_def less_imp_le)
  qed
qed

lemma charge_inv:
  assumes a: "log_ok L" "window_inv now w L" and n: "now - w_start w < MINUTE" "w_start w \<le> now"
    and sl: "slot_of w = w_start w + (now - w_start w) div SECOND * SECOND"
    and c: "charge work bytes w = (True, w')" and e: "ad_work e = work" "ad_bytes e = bytes" "ad_time e = now" "ad_window e = w_start w"
  shows "log_ok (L @ [e]) \<and> window_inv now w' (L @ [e])"
proof -
  have w: "window_ok w" "\<forall>f\<in>set L. ad_window f = w_start w \<or> ad_window f + MINUTE \<le> w_start w"
    "\<forall>r. r \<noteq> OperationBytes \<longrightarrow> tally r (filter (\<lambda>f. ad_window f = w_start w) L) = level_minute r w"
    "\<forall>r. tally r (filter (\<lambda>f. ad_slot f = slot_of w) L) = level_second r w" using a(2) by (simp_all add: window_inv_def)
  note k = charge_ok [OF c w(1)]
  have slot: "ad_slot e = slot_of w" by (simp add: ad_slot_def e sl)
  have sw: "w_start w' = w_start w" "slot_of w' = slot_of w" using k by (simp_all add: slot_of_def)
  have pos: "(0::int) < MINUTE" by (simp add: MINUTE_def SECOND_def)
  have sp: "spaced MINUTE ad_window (L @ [e])"
    using a(1) w(2) n pos unfolding spaced_def log_ok_def by (auto simp: e)
  have m: "tally r (filter (\<lambda>f. ad_window f = w_start w) (L @ [e])) = level_minute r w'" if "r \<noteq> OperationBytes" for r
    using w(3) k that by (simp add: e)
  have s: "tally r (filter (\<lambda>f. ad_slot f = slot_of w) (L @ [e])) = level_second r w'" for r
    using w(4) k by (simp add: slot e)
  have "tally r (filter (\<lambda>f. ad_window f = x) (L @ [e])) \<le> minute_quota r" if "r \<noteq> OperationBytes" for r x
  proof (cases "x = w_start w")
    case True
    have "level_minute r w' \<le> minute_quota r" using k unfolding window_ok_def by blast
    then show ?thesis unfolding True m [OF that] .
  next
    case False
    then show ?thesis using a(1) that by (simp add: e log_ok_def)
  qed
  moreover have "tally r (filter (\<lambda>f. ad_slot f = x) (L @ [e])) \<le> second_quota r" for r x
  proof (cases "x = slot_of w")
    case True
    have "level_second r w' \<le> second_quota r" using k unfolding window_ok_def by blast
    then show ?thesis unfolding True s .
  next
    case False
    then show ?thesis using a(1) by (simp add: slot log_ok_def)
  qed
  ultimately have "log_ok (L @ [e])" using sp by (simp add: log_ok_def)
  moreover have "window_inv now w' (L @ [e])"
    unfolding window_inv_def sw using a(2) k m s by (auto simp: window_inv_def e slot)
  ultimately show ?thesis by blast
qed

section \<open>Every sequence of requests\<close>

inductive ingress_history :: "IngressBudget \<Rightarrow> int \<Rightarrow> admitted list \<Rightarrow> bool" where
  start: "ingress_history new_budget t []"
| request: "ingress_history b t L \<Longrightarrow> t \<le> now \<Longrightarrow> AdmitWork address work bytes now b = (ok, b')
    \<Longrightarrow> ingress_history b' now (if ok then L @ [\<lparr> ad_address = address, ad_work = work, ad_bytes = bytes, ad_time = now,
          ad_window = w_start (the (map_find (ib_peers b') address)) \<rparr>] else L)"

definition of_address :: "string \<Rightarrow> admitted list \<Rightarrow> admitted list" where
  "of_address a L = filter (\<lambda>e. ad_address e = a) L"

definition budget_inv :: "IngressBudget \<Rightarrow> int \<Rightarrow> admitted list \<Rightarrow> bool" where
  "budget_inv b now L \<longleftrightarrow> omap_wf (ib_peers b) \<and> length (ib_peers b) \<le> MAX_PEER_WINDOWS
     \<and> (\<forall>a w. map_find (ib_peers b) a = Some w \<longrightarrow> w_start w \<le> now)
     \<and> (\<forall>a. address_inv now (map_find (ib_peers b) a) (of_address a L))"

lemma map_find_filter:
  "omap_wf m \<Longrightarrow> map_find (filter (\<lambda>(a, w). P w) m) k = (case map_find m k of None \<Rightarrow> None | Some w \<Rightarrow> if P w then Some w else None)"
proof (induction m)
  case (Cons p m)
  obtain a w where p: "p = (a, w)" by (cases p)
  have "map_find m a = None" using Cons.prems by (intro map_find_notin) (auto simp: p)
  then show ?case using Cons by (auto simp: p split: option.split)
qed simp

lemma cleanup_inv:
  assumes "budget_inv b now L"
  shows "budget_inv (cleanup now b) now L"
proof -
  have wf: "omap_wf (ib_peers b)" using assms by (simp add: budget_inv_def)
  let ?m = "filter (\<lambda>(a, w). \<not> MINUTE \<le> now - w_start w) (ib_peers b)"
  have "address_inv now (map_find ?m a) (of_address a L)" for a
  proof -
    have i: "address_inv now (map_find (ib_peers b) a) (of_address a L)" using assms by (simp add: budget_inv_def)
    show ?thesis
    proof (cases "map_find (ib_peers b) a")
      case None
      then show ?thesis using i map_find_filter [OF wf, of "\<lambda>w. \<not> MINUTE \<le> now - w_start w" a] by simp
    next
      case (Some w)
      then show ?thesis using i map_find_filter [OF wf, of "\<lambda>w. \<not> MINUTE \<le> now - w_start w" a] address_inv_evict [of now w]
        by (cases "MINUTE \<le> now - w_start w") simp_all
    qed
  qed
  moreover have "length ?m \<le> MAX_PEER_WINDOWS" using assms le_trans [OF length_filter_le] unfolding budget_inv_def by blast
  moreover have "w_start w \<le> now" if "map_find ?m a = Some w" for a w
    using assms that map_find_filter [OF wf, of "\<lambda>w. \<not> MINUTE \<le> now - w_start w" a]
    by (auto simp: budget_inv_def split: option.split_asm if_split_asm)
  ultimately show ?thesis using assms wf by (auto simp: cleanup_def budget_inv_def omap_wf_filter)
qed

lemma put_window_find: "map_find (put_window a w m) k = (if k = a then Some w else map_find m k)"
  by (auto simp: put_window_def map_find_adjust map_find_emplace)

lemma put_window_wf: "omap_wf m \<Longrightarrow> omap_wf (put_window a w m)"
  by (simp add: put_window_def omap_wf_adjust omap_wf_emplace)

lemma length_put_window: "map_find m a \<noteq> None \<or> length m < n \<Longrightarrow> length m \<le> n \<Longrightarrow> length (put_window a w m) \<le> n"
  by (cases "map_find m a") (auto simp: put_window_def map_emplace_def)

lemma current_window_inv:
  assumes i: "address_inv now (map_find peers a) L" and le: "\<And>w. map_find peers a = Some w \<Longrightarrow> w_start w \<le> now"
    and c: "current_window now a peers = Some w"
  shows "log_ok L \<and> window_inv now w L \<and> now - w_start w < MINUTE \<and> w_start w \<le> now
    \<and> (map_find peers a \<noteq> None \<or> length peers < MAX_PEER_WINDOWS)"
proof -
  have pos: "(0 :: int) < MINUTE" by (simp add: MINUTE_def SECOND_def)
  have fresh: "log_ok L \<and> window_inv now (new_window now) L \<and> now - w_start (new_window now) < MINUTE \<and> w_start (new_window now) \<le> now"
    if "address_inv now None L"
    using address_inv_fresh [OF that] pos by (auto simp: address_inv_def) (simp_all add: new_window_def)
  show ?thesis
  proof (cases "map_find peers a")
    case None
    then show ?thesis using c i fresh by (auto simp: current_window_def split: if_split_asm)
  next
    case (Some v)
    show ?thesis
    proof (cases "MINUTE \<le> now - w_start v")
      case True
      then show ?thesis using c i Some fresh address_inv_evict [of now v L] by (simp add: current_window_def)
    next
      case False
      then show ?thesis using c i Some le by (simp add: current_window_def address_inv_def)
    qed
  qed
qed

lemma of_address_other: "a \<noteq> ad_address e \<Longrightarrow> of_address a (L @ [e]) = of_address a L" "of_address (ad_address e) (L @ [e]) = of_address (ad_address e) L @ [e]"
  by (simp_all add: of_address_def)

lemma AdmitWork_inv:
  assumes i: "budget_inv b t L" "t \<le> now" and a: "AdmitWork address work bytes now b = (ok, b')"
    and L': "L' = (if ok then L @ [\<lparr> ad_address = address, ad_work = work, ad_bytes = bytes, ad_time = now,
          ad_window = w_start (the (map_find (ib_peers b') address)) \<rparr>] else L)"
  shows "budget_inv b' now L'"
proof -
  have "budget_inv b now L" using i address_inv_later [of t _ _ now] unfolding budget_inv_def by (meson order_trans)
  then have c: "budget_inv (cleanup now b) now L" by (rule cleanup_inv)
  let ?m = "ib_peers (cleanup now b)"
  show ?thesis
  proof (cases "current_window now address ?m")
    case None
    then show ?thesis using a c L' by (simp add: AdmitWork_def Let_def)
  next
    case (Some w)
    have iw: "address_inv now (map_find ?m address) (of_address address L)" "\<And>w. map_find ?m address = Some w \<Longrightarrow> w_start w \<le> now"
      using c by (simp_all add: budget_inv_def)
    note cw = current_window_inv [OF iw Some]
    obtain w' where ch: "charge work bytes (roll_second now w) = (ok, w')" and b': "b' = cleanup now b \<lparr> ib_peers := put_window address w' ?m \<rparr>"
      using a Some by (auto simp: AdmitWork_def Let_def split: prod.split_asm)
    note ro = roll_second_inv [of now w "of_address address L"]
    let ?w = "roll_second now w"
    have r: "window_inv now ?w (of_address address L)" "w_start ?w = w_start w" "slot_of ?w = w_start ?w + (now - w_start ?w) div SECOND * SECOND"
      using ro cw by simp_all
    have own: "address_inv now (Some w') (of_address address L') \<and> w_start w' \<le> now"
    proof (cases ok)
      case True
      have st: "w_start w' = w_start ?w" using charge_ok [of work bytes ?w w'] ch True r(1) by (simp add: window_inv_def)
      have f: "the (map_find (ib_peers b') address) = w'" by (simp add: b' put_window_find)
      let ?e = "\<lparr> ad_address = address, ad_work = work, ad_bytes = bytes, ad_time = now, ad_window = w_start w' \<rparr>"
      have "of_address address L' = of_address address L @ [?e]" using L' True f by (simp add: of_address_def)
      moreover have "log_ok (of_address address L @ [?e]) \<and> window_inv now w' (of_address address L @ [?e])"
        by (rule charge_inv [of "of_address address L" now ?w work bytes]) (use cw r ch True st in simp_all)
      ultimately show ?thesis using st r(2) cw by (simp add: address_inv_def)
    next
      case False
      then have "w' = ?w" using charge_refused ch by simp
      then show ?thesis using r cw L' False by (simp add: address_inv_def)
    qed
    have other: "of_address k L' = of_address k L" if "k \<noteq> address" for k using L' that by (simp add: of_address_def)
    have "address_inv now (map_find (put_window address w' ?m) k) (of_address k L')" for k
      using own other [of k] c by (simp add: put_window_find budget_inv_def)
    moreover have "length (put_window address w' ?m) \<le> MAX_PEER_WINDOWS" using cw c by (intro length_put_window) (simp_all add: budget_inv_def)
    moreover have "omap_wf (put_window address w' ?m)" using c by (intro put_window_wf) (simp add: budget_inv_def)
    moreover have "w_start v \<le> now" if "map_find (put_window address w' ?m) k = Some v" for k v
      using that own c by (auto simp: put_window_find budget_inv_def split: if_split_asm)
    ultimately show ?thesis unfolding b' budget_inv_def by simp
  qed
qed

lemma ingress_history_inv: "ingress_history b t L \<Longrightarrow> budget_inv b t L"
proof (induction rule: ingress_history.induct)
  case (start t)
  then show ?case by (simp add: budget_inv_def new_budget_def address_inv_def log_ok_def of_address_def spaced_def)
next
  case (request b t L now address work bytes ok b')
  then show ?case using AdmitWork_inv by blast
qed

section \<open>Held transfers\<close>

text \<open>A run of the transfer slots with the addresses of the leases that are held.\<close>

inductive transfer_history :: "Transfers \<Rightarrow> string list \<Rightarrow> bool" where
  start: "transfer_history new_transfers []"
| acquire: "transfer_history t ls \<Longrightarrow> AcquireStorageTransfer a t = (ok, t') \<Longrightarrow> transfer_history t' (if ok then a # ls else ls)"
| release: "transfer_history t ls \<Longrightarrow> a \<in> set ls \<Longrightarrow> ReleaseStorageTransfer a t = Some t' \<Longrightarrow> transfer_history t' (remove1 a ls)"

definition slots_inv :: "Transfers \<Rightarrow> string list \<Rightarrow> bool" where
  "slots_inv t ls \<longleftrightarrow> unat (t_total t) = length ls \<and> length ls \<le> 8
     \<and> (\<forall>a. count_list ls a \<le> 2 \<and> (case t_active t a of None \<Rightarrow> a \<notin> set ls | Some n \<Rightarrow> unat n = count_list ls a \<and> a \<in> set ls))"

lemma slots_invD:
  assumes "slots_inv t ls"
  shows "count_list ls a \<le> 2" "t_active t a = None \<Longrightarrow> a \<notin> set ls" "t_active t a = Some n \<Longrightarrow> unat n = count_list ls a \<and> a \<in> set ls"
proof -
  have "count_list ls a \<le> 2 \<and> (case t_active t a of None \<Rightarrow> a \<notin> set ls | Some n \<Rightarrow> unat n = count_list ls a \<and> a \<in> set ls)"
    using assms unfolding slots_inv_def by blast
  then show "count_list ls a \<le> 2" "t_active t a = None \<Longrightarrow> a \<notin> set ls" "t_active t a = Some n \<Longrightarrow> unat n = count_list ls a \<and> a \<in> set ls"
    by (simp_all split: option.split_asm)
qed

lemma count_list_remove1: "count_list (remove1 a ls) b = count_list ls b - (if a = b then 1 else 0)"
  by (induction ls) auto

lemma AcquireStorageTransfer_inv:
  assumes i: "slots_inv t ls" and a: "AcquireStorageTransfer a t = (ok, t')"
  shows "slots_inv t' (if ok then a # ls else ls)"
proof -
  define n where "n = (case t_active t a of None \<Rightarrow> 0 | Some n \<Rightarrow> n)"
  have n: "unat n = count_list ls a" using slots_invD(2,3) [OF i] by (cases "t_active t a") (simp_all add: n_def count_list_0_iff)
  show ?thesis
  proof (cases "t_total t \<ge> 8")
    case True
    then show ?thesis using a i by (simp add: AcquireStorageTransfer_def)
  next
    case False
    show ?thesis
    proof (cases "n \<ge> 2")
      case True
      then have "t_active t a = Some n" using n_def by (cases "t_active t a") auto
      then have "(t_active t)(a \<mapsto> n) = t_active t" by (metis fun_upd_triv)
      then have "t' = t" "\<not> ok" using a False True by (simp_all add: AcquireStorageTransfer_def n_def [symmetric])
      then show ?thesis using i by simp
    next
      case small: False
      then have t': "ok" "t_active t' = (t_active t)(a \<mapsto> n + 1)" "t_total t' = t_total t + 1"
        using a False by (auto simp: AcquireStorageTransfer_def n_def [symmetric])
      have u: "unat (n + 1) = unat n + 1" "unat n + 1 \<le> 2" using budget_add [of n 2 1] small by (simp_all add: word_less_nat_alt word_le_nat_alt unat_sub)
      have v: "unat (t_total t + 1) = unat (t_total t) + 1" "unat (t_total t) + 1 \<le> 8"
        using budget_add [of "t_total t" 8 1] False by (simp_all add: word_less_nat_alt word_le_nat_alt unat_sub)
      have "count_list (a # ls) b \<le> 2 \<and> (case t_active t' b of None \<Rightarrow> b \<notin> set (a # ls) | Some k \<Rightarrow> unat k = count_list (a # ls) b \<and> b \<in> set (a # ls))" for b
        using slots_invD [OF i, of b] t'(2) u n by (cases "t_active t b") auto
      then show ?thesis using i t'(1,3) v by (simp add: slots_inv_def)
    qed
  qed
qed

lemma ReleaseStorageTransfer_inv:
  assumes i: "slots_inv t ls" and m: "a \<in> set ls"
  shows "\<exists>t'. ReleaseStorageTransfer a t = Some t' \<and> slots_inv t' (remove1 a ls)"
proof -
  obtain n where n: "t_active t a = Some n" "unat n = count_list ls a" using slots_invD(2,3) [OF i, of a] m by (cases "t_active t a") auto
  have pos: "0 < count_list ls a" using m count_list_0_iff [of ls a] by (cases "count_list ls a") simp_all
  then have u: "unat (n - 1) = count_list ls a - 1" using n(2) by (metis One_nat_def unat_gt_0 unat_minus_one word_not_simps(1) less_numeral_extra(3) unat_0)
  have l: "0 < length ls" using m by (cases ls) auto
  then have v: "unat (t_total t - 1) = length ls - 1"
    using i by (metis One_nat_def slots_inv_def unat_minus_one unat_0 less_numeral_extra(3))
  have z: "n - 1 = 0 \<longleftrightarrow> a \<notin> set (remove1 a ls)"
    using u count_list_remove1 [of a ls a] count_list_0_iff [of "remove1 a ls" a] by (metis unat_eq_zero)
  let ?t' = "\<lparr> t_active = (if n - 1 = 0 then (t_active t)(a := None) else (t_active t)(a \<mapsto> n - 1)), t_total = t_total t - 1 \<rparr>"
  have e: "(b \<in> set (remove1 a ls)) = (b \<in> set ls)" if "b \<noteq> a" for b using that by (simp add: in_set_remove1)
  have "count_list (remove1 a ls) b \<le> 2" for b using i by (auto simp: slots_inv_def count_list_remove1 intro: le_trans diff_le_self)
  moreover have "case t_active ?t' b of None \<Rightarrow> b \<notin> set (remove1 a ls) | Some k \<Rightarrow> unat k = count_list (remove1 a ls) b \<and> b \<in> set (remove1 a ls)" for b
  proof (cases "b = a")
    case True
    then show ?thesis using z u by (simp add: count_list_remove1)
  next
    case False
    then show ?thesis using slots_invD(2,3) [OF i, of b] e [OF False] by (cases "t_active t b") (simp_all add: count_list_remove1)
  qed
  moreover have "length ls \<le> 8" using i by (simp add: slots_inv_def)
  then have "length (remove1 a ls) \<le> 8" "unat (t_total ?t') = length (remove1 a ls)" using v m by (simp_all add: length_remove1)
  ultimately have "slots_inv ?t' (remove1 a ls)" unfolding slots_inv_def by blast
  then show ?thesis by (simp add: ReleaseStorageTransfer_def n(1))
qed

lemma transfer_history_inv: "transfer_history t ls \<Longrightarrow> slots_inv t ls"
proof (induction rule: transfer_history.induct)
  case start
  then show ?case by (simp add: slots_inv_def new_transfers_def)
next
  case (acquire t ls a ok t')
  then show ?case using AcquireStorageTransfer_inv by blast
next
  case (release t ls a t')
  then show ?case using ReleaseStorageTransfer_inv by fastforce
qed

section \<open>Properties\<close>

text \<open>C26. The ingress quotas hold over any interval. For every sequence of requests at non-decreasing times, an address gets in any minute,
  wherever it starts, at most twice the minute quota of each kind of request and of storage bytes, and in any second at most twice
  the second quota, operation bytes included; and at most 4096 addresses are tracked, so neither the edges of the windows, nor
  their eviction, nor a flood of other addresses gives an address more.\<close>

theorem ingress_rate_bounded:
  assumes "ingress_history b now L"
  shows "length (ib_peers b) \<le> MAX_PEER_WINDOWS
    \<and> (\<forall>a r t. r \<noteq> OperationBytes \<longrightarrow> tally r (filter (\<lambda>e. t \<le> ad_time e \<and> ad_time e < t + MINUTE) (of_address a L)) \<le> 2 * minute_quota r)
    \<and> (\<forall>a r t. tally r (filter (\<lambda>e. t \<le> ad_time e \<and> ad_time e < t + SECOND) (of_address a L)) \<le> 2 * second_quota r)"
proof -
  have i: "budget_inv b now L" by (rule ingress_history_inv [OF assms])
  have lg: "log_ok (of_address a L)" for a using i by (simp add: budget_inv_def address_inv_def)
  have m: "tally r (filter (\<lambda>e. t \<le> ad_time e \<and> ad_time e < t + MINUTE) (of_address a L)) \<le> 2 * minute_quota r" if "r \<noteq> OperationBytes" for a r t
    using lg [of a] that by (intro interval_tally [of _ ad_window]) (simp_all add: log_ok_def)
  have s: "tally r (filter (\<lambda>e. t \<le> ad_time e \<and> ad_time e < t + SECOND) (of_address a L)) \<le> 2 * second_quota r" for a r t
    using lg [of a] by (intro interval_tally [of _ ad_slot] slots_spaced) (simp_all add: log_ok_def)
  show ?thesis using i m s by (simp add: budget_inv_def)
qed

theorem ingress_rate_bounded_witness:
  "tally (Requests OPERATION) (filter (\<lambda>e. 5 \<le> ad_time e \<and> ad_time e < 5 + MINUTE)
     (of_address ''10.0.0.1'' [\<lparr> ad_address = ''10.0.0.1'', ad_work = OPERATION, ad_bytes = 7, ad_time = 5, ad_window = 5 \<rparr>])) \<le> 240"
proof -
  let ?w = "new_window 5 \<lparr> w_operations := 1, w_operations_second := 1, w_bytes_second := 7 \<rparr>"
  have "AdmitWork ''10.0.0.1'' OPERATION 7 5 new_budget = (True, new_budget \<lparr> ib_peers := [(''10.0.0.1'', ?w)] \<rparr>)"
    by (simp add: AdmitWork_def cleanup_def new_budget_def current_window_def roll_second_def new_window_def seconds_of_def charge_def
        put_window_def map_emplace_def SECOND_def MAX_PEER_WINDOWS_def Let_def)
  from ingress_history.request [OF ingress_history.start [of 0] _ this] have
    "ingress_history (new_budget \<lparr> ib_peers := [(''10.0.0.1'', ?w)] \<rparr>) 5
       [\<lparr> ad_address = ''10.0.0.1'', ad_work = OPERATION, ad_bytes = 7, ad_time = 5, ad_window = 5 \<rparr>]"
    by (simp add: new_window_def)
  from ingress_rate_bounded [OF this] have "tally (Requests OPERATION) (filter (\<lambda>e. 5 \<le> ad_time e \<and> ad_time e < 5 + MINUTE)
     (of_address ''10.0.0.1'' [\<lparr> ad_address = ''10.0.0.1'', ad_work = OPERATION, ad_bytes = 7, ad_time = 5, ad_window = 5 \<rparr>])) \<le> 2 * minute_quota (Requests OPERATION)"
    by blast
  then show ?thesis by simp
qed

text \<open>The transfer slots are exactly the leases held: an address never holds more than two, the node never more than eight, the counters
  equal what is held, and the destructor of a held lease always finds the counter it decrements.\<close>

theorem transfer_slots_exact:
  assumes "transfer_history t ls"
  shows "length ls \<le> 8 \<and> count_list ls a \<le> 2 \<and> unat (t_total t) = length ls
    \<and> (a \<in> set ls \<longrightarrow> (\<exists>t'. ReleaseStorageTransfer a t = Some t' \<and> transfer_history t' (remove1 a ls)))"
proof -
  have i: "slots_inv t ls" by (rule transfer_history_inv [OF assms])
  have "\<exists>t'. ReleaseStorageTransfer a t = Some t' \<and> transfer_history t' (remove1 a ls)" if "a \<in> set ls"
    using ReleaseStorageTransfer_inv [OF i that] transfer_history.release [OF assms that] by blast
  then show ?thesis using i by (simp add: slots_inv_def)
qed

theorem transfer_slots_exact_witness: "\<exists>t'. ReleaseStorageTransfer ''10.0.0.1'' \<lparr> t_active = [''10.0.0.1'' \<mapsto> 1], t_total = 1 \<rparr> = Some t'"
proof -
  have "AcquireStorageTransfer ''10.0.0.1'' new_transfers = (True, \<lparr> t_active = [''10.0.0.1'' \<mapsto> 1], t_total = 1 \<rparr>)"
    by (simp add: AcquireStorageTransfer_def new_transfers_def)
  from transfer_slots_exact [OF transfer_history.acquire [OF transfer_history.start this], of "''10.0.0.1''"] show ?thesis by auto
qed

end
