(* ===== verification/PeerAdmission.thy ===== *)
theory PeerAdmission
  imports Samples "HOL-Library.Product_Lexorder"
begin

text \<open>
  The geographic admission of peers (\<^verbatim>\<open>p2p/peer_admission.h/.cpp\<close>): the loading of the country table, the lookup of an address
  by binary search, and the policy. Address parsing and the address predicates of Boost.Asio are the record \<open>asio\<close>; the file is
  an argument, with the size the file system reported and the characters read. Shown: the lookup in a loaded table is exactly
  membership in one of its French lines, and the search ends.
\<close>

section \<open>Addresses\<close>

datatype IpAddress = V4 u32 | V6 "128 word"

record asio =
  asio_make_address :: "string \<Rightarrow> IpAddress option"
  asio_is_v4_mapped :: "128 word \<Rightarrow> bool"
  asio_mapped_v4 :: "128 word \<Rightarrow> u32"
  asio_is_loopback :: "128 word \<Rightarrow> bool"

text \<open>The 16 bytes an address is compared by, read big-endian: an IPv4 address fills the first four. The flag is \<^verbatim>\<open>is_v6\<close>.\<close>

definition AddressBytes :: "asio \<Rightarrow> string \<Rightarrow> (128 word \<times> bool) option" where
  "AddressBytes A text = (case asio_make_address A text of None \<Rightarrow> None
     | Some address \<Rightarrow>
       let address = (case address of V6 a \<Rightarrow> if asio_is_v4_mapped A a then V4 (be_word (drop 12 (be_bytes 16 a))) else V6 a | V4 a \<Rightarrow> V4 a)
       in Some (case address of V4 a \<Rightarrow> (be_word (be_bytes 4 a @ replicate 12 0), False) | V6 a \<Rightarrow> (a, True)))"

definition IsLocalNetworkAddress :: "asio \<Rightarrow> string \<Rightarrow> bool" where
  "IsLocalNetworkAddress A text = (case asio_make_address A text of None \<Rightarrow> False
     | Some address \<Rightarrow>
       let address = (case address of V6 a \<Rightarrow> if asio_is_v4_mapped A a then V4 (asio_mapped_v4 A a) else V6 a | V4 a \<Rightarrow> V4 a)
       in case address of
            V4 v \<Rightarrow> and v 0xFF000000 = 0x7F000000 \<or> and v 0xFF000000 = 0x0A000000 \<or> and v 0xFFF00000 = 0xAC100000
              \<or> and v 0xFFFF0000 = 0xC0A80000 \<or> and v 0xFFFF0000 = 0xA9FE0000
          | V6 a \<Rightarrow> let bytes = be_bytes 16 a in
              asio_is_loopback A a \<or> and (bytes ! 0) 0xFE = 0xFC \<or> (bytes ! 0 = 0xFE \<and> and (bytes ! 1) 0xC0 = 0x80))"

section \<open>The country table\<close>

record Range =
  rg_first :: "128 word"
  rg_last :: "128 word"
  rg_ipv6 :: bool

definition MAX_DATASET_BYTES :: nat where "MAX_DATASET_BYTES = 64 * 1024 * 1024"
definition MAX_RECORDS :: nat where "MAX_RECORDS = 1000000"
definition MAX_DATASET_AGE :: int where "MAX_DATASET_AGE = 45"

text \<open>\<^verbatim>\<open>std::from_chars\<close> for an unsigned number that must use all its characters.\<close>

definition is_digit :: "char \<Rightarrow> bool" where
  "is_digit c \<longleftrightarrow> 48 \<le> (of_char c :: nat) \<and> (of_char c :: nat) \<le> 57"

definition digits_value :: "string \<Rightarrow> nat option" where
  "digits_value text = (if text \<noteq> [] \<and> list_all is_digit text then Some (foldl (\<lambda>n c. 10 * n + (of_char c - 48)) 0 text) else None)"

definition ParseIssuedMonth :: "string \<Rightarrow> (int \<times> int) option" where
  "ParseIssuedMonth text =
     (if length text \<noteq> 7 \<or> text ! 4 \<noteq> CHR ''-'' then None
      else case (digits_value (take 4 text), digits_value (drop 5 text)) of
        (Some year, Some month) \<Rightarrow> if year < 1970 \<or> year > 9999 \<or> month < 1 \<or> month > 12 then None else Some (int year, int month)
      | _ \<Rightarrow> None)"

text \<open>\<^verbatim>\<open>std::chrono::sys_days\<close> of the first day of a month: days of the proleptic Gregorian calendar since 1970-01-01.\<close>

definition sys_days :: "int \<times> int \<Rightarrow> int" where
  "sys_days ym = (let (year, month) = ym; y = (if month \<le> 2 then year - 1 else year); era = y div 400; yoe = y mod 400;
       doy = (153 * (if month > 2 then month - 3 else month + 9) + 2) div 5; doe = yoe * 365 + yoe div 4 - yoe div 100 + doy
     in era * 146097 + doe - 719468)"

definition month_ok :: "int \<times> int \<Rightarrow> bool" where
  "month_ok ym \<longleftrightarrow> -32767 \<le> fst ym \<and> fst ym \<le> 32767 \<and> 1 \<le> snd ym \<and> snd ym \<le> 12"

text \<open>The next line and the rest of the text; the offset of the source is the part already consumed.\<close>

definition NextLine :: "string \<Rightarrow> (string \<times> string) option" where
  "NextLine text =
     (if text = [] then None
      else let line = takeWhile (\<lambda>c. c \<noteq> CHR ''\<newline>'') text; rest = drop (length line + 1) text;
               line = (if line \<noteq> [] \<and> last line = CHR 0x0D then butlast line else line)
        in Some (line, rest))"

text \<open>\<^verbatim>\<open>line.find(',', pos)\<close>.\<close>

definition find_comma :: "nat \<Rightarrow> string \<Rightarrow> nat option" where
  "find_comma pos line = (let n = length (takeWhile (\<lambda>c. c \<noteq> CHR '','') (drop pos line))
     in if pos + n < length line then Some (pos + n) else None)"

text \<open>One record: \<open>None\<close> is a damaged line, \<open>Some None\<close> a range of another country.\<close>

definition parse_line :: "asio \<Rightarrow> string \<Rightarrow> Range option option" where
  "parse_line A line =
     (case find_comma 0 line of None \<Rightarrow> None
      | Some first_comma \<Rightarrow>
        (case find_comma (first_comma + 1) line of None \<Rightarrow> None
         | Some second_comma \<Rightarrow>
           if find_comma (second_comma + 1) line \<noteq> None \<or> first_comma = 0 \<or> second_comma = first_comma + 1 \<or> second_comma + 3 \<noteq> length line then None
           else case (AddressBytes A (take first_comma line), AddressBytes A (take (second_comma - first_comma - 1) (drop (first_comma + 1) line))) of
             (Some (first, v6), Some (lst, v6')) \<Rightarrow>
               if v6 \<noteq> v6' \<or> first > lst then None
               else let country = drop (second_comma + 1) line in
                 if \<not> list_all (\<lambda>c. CHR ''A'' \<le> c \<and> c \<le> CHR ''Z'') country then None
                 else Some (if country = ''FR'' then Some \<lparr> rg_first = first, rg_last = lst, rg_ipv6 = v6 \<rparr> else None)
           | _ \<Rightarrow> None))"

lemma NextLine_shorter [termination_simp]: "NextLine text = Some (line, rest) \<Longrightarrow> length rest < length text"
  by (auto simp: NextLine_def Let_def split: if_split_asm)

fun parse_csv :: "asio \<Rightarrow> nat \<Rightarrow> string \<Rightarrow> Range list option" where
  "parse_csv A records text =
     (case NextLine text of None \<Rightarrow> Some []
      | Some (line, rest) \<Rightarrow>
        if line = [] \<or> records + 1 > MAX_RECORDS then None
        else case parse_line A line of None \<Rightarrow> None
          | Some french \<Rightarrow> (case parse_csv A (records + 1) rest of None \<Rightarrow> None
              | Some ranges \<Rightarrow> Some (case french of None \<Rightarrow> ranges | Some r \<Rightarrow> r # ranges)))"

declare parse_csv.simps [simp del]

fun overlaps :: "Range list \<Rightarrow> bool" where
  "overlaps (a # b # rs) = ((rg_ipv6 a = rg_ipv6 b \<and> rg_first b \<le> rg_last a) \<or> overlaps (b # rs))"
| "overlaps _ = False"

definition LoadDbIpCountryCsv :: "crypto \<Rightarrow> asio \<Rightarrow> (nat \<times> string) option \<Rightarrow> hash256 \<Rightarrow> int \<times> int \<Rightarrow> int \<Rightarrow> Range list option" where
  "LoadDbIpCountryCsv C A file expected_sha256 issued_month today =
     (if \<not> month_ok issued_month then None
      else if today < sys_days issued_month \<or> today - sys_days issued_month > MAX_DATASET_AGE then None
      else case file of None \<Rightarrow> None
        | Some (file_size, csv) \<Rightarrow>
          if file_size = 0 \<or> file_size > MAX_DATASET_BYTES then None
          else if length csv \<noteq> file_size then None
          else if ComputeSha256 C [str csv] \<noteq> Some expected_sha256 then None
          else case parse_csv A 0 csv of None \<Rightarrow> None
            | Some ranges \<Rightarrow>
              if ranges = [] then None
              else let ranges = sort_key (\<lambda>r. (rg_ipv6 r, rg_first r)) ranges in if overlaps ranges then None else Some ranges)"

section \<open>Lookup\<close>

text \<open>\<^verbatim>\<open>std::lower_bound\<close> on the sorted ranges, as the halving loop of the library.\<close>

function lower_bound :: "('a \<Rightarrow> bool) \<Rightarrow> 'a list \<Rightarrow> nat \<Rightarrow> nat \<Rightarrow> nat" where
  "lower_bound before xs first len =
     (if len = 0 then first
      else let half = len div 2; mid = first + half in
        if before (xs ! mid) then lower_bound before xs (mid + 1) (len - half - 1) else lower_bound before xs first half)"
  by pat_completeness auto
termination
  by (relation "measure (\<lambda>(before, xs, first, len). len)") auto

declare lower_bound.simps [simp del]

definition range_before :: "128 word \<times> bool \<Rightarrow> Range \<Rightarrow> bool" where
  "range_before key r \<longleftrightarrow> (case key of (bytes, ipv6) \<Rightarrow> rg_ipv6 r < ipv6 \<or> (rg_ipv6 r = ipv6 \<and> rg_last r < bytes))"

definition IsFrench :: "asio \<Rightarrow> Range list \<Rightarrow> string \<Rightarrow> bool" where
  "IsFrench A ranges text = (case AddressBytes A text of None \<Rightarrow> False
     | Some (bytes, ipv6) \<Rightarrow>
       let found = lower_bound (range_before (bytes, ipv6)) ranges 0 (length ranges)
       in found \<noteq> length ranges \<and> rg_ipv6 (ranges ! found) = ipv6 \<and> rg_first (ranges ! found) \<le> bytes \<and> bytes \<le> rg_last (ranges ! found))"

text \<open>
  The updater is seen through its current snapshot: a dataset and its month. The day is an argument of every call that asks the clock.
\<close>

record GeoSnapshot =
  sn_dataset :: "Range list"
  sn_issued_month :: "int \<times> int"

definition CurrentDataset :: "GeoSnapshot option \<Rightarrow> int \<Rightarrow> Range list option" where
  "CurrentDataset current today = (case current of None \<Rightarrow> None
     | Some s \<Rightarrow> let issued = sys_days (sn_issued_month s)
         in if today < issued \<or> today - issued > 45 then None else Some (sn_dataset s))"

definition updater_Ready :: "GeoSnapshot option \<Rightarrow> int \<Rightarrow> bool" where
  "updater_Ready current today \<longleftrightarrow> CurrentDataset current today \<noteq> None"

record PeerAdmissionPolicy =
  pa_dataset :: "Range list option"
  pa_updater :: "GeoSnapshot option option"

definition Public :: "Range list option \<Rightarrow> PeerAdmissionPolicy" where
  "Public dataset = \<lparr> pa_dataset = dataset, pa_updater = None \<rparr>"

definition PublicWithUpdater :: "GeoSnapshot option \<Rightarrow> PeerAdmissionPolicy" where
  "PublicWithUpdater current = \<lparr> pa_dataset = None, pa_updater = Some current \<rparr>"

definition policy_dataset :: "PeerAdmissionPolicy \<Rightarrow> int \<Rightarrow> Range list option" where
  "policy_dataset p today = (case pa_dataset p of Some d \<Rightarrow> Some d
     | None \<Rightarrow> (case pa_updater p of Some current \<Rightarrow> CurrentDataset current today | None \<Rightarrow> None))"

definition Allows :: "asio \<Rightarrow> PeerAdmissionPolicy \<Rightarrow> int \<Rightarrow> string \<Rightarrow> bool" where
  "Allows A p today text \<longleftrightarrow> IsLocalNetworkAddress A text
     \<or> (case policy_dataset p today of None \<Rightarrow> False | Some dataset \<Rightarrow> IsFrench A dataset text)"

definition Ready :: "PeerAdmissionPolicy \<Rightarrow> int \<Rightarrow> bool" where
  "Ready p today \<longleftrightarrow> pa_dataset p \<noteq> None \<or> (case pa_updater p of None \<Rightarrow> False | Some current \<Rightarrow> updater_Ready current today)"

section \<open>The search\<close>

text \<open>On a list that is split by the predicate, the halving loop finds the split point.\<close>

lemma lower_bound_split:
  shows "(\<And>i. i < k \<Longrightarrow> before (xs ! i)) \<Longrightarrow> (\<And>i. k \<le> i \<Longrightarrow> i < n \<Longrightarrow> \<not> before (xs ! i)) \<Longrightarrow> first \<le> k \<Longrightarrow> k \<le> first + len \<Longrightarrow> first + len \<le> n \<Longrightarrow> lower_bound before xs first len = k"
proof (induction before xs first len rule: lower_bound.induct)
  case (1 before xs first len)
  show ?case
  proof (cases "len = 0")
    case True
    then show ?thesis using 1(5,6) by (simp add: lower_bound.simps)
  next
    case False
    let ?half = "len div 2" and ?mid = "first + len div 2"
    have h: "?half < len" using False by simp
    show ?thesis
    proof (cases "before (xs ! ?mid)")
      case True
      have "\<not> k \<le> ?mid" using 1(4) [of ?mid] True h 1(7) by linarith
      then have "lower_bound before xs (?mid + 1) (len - ?half - 1) = k"
        using 1(1) [OF False HOL.refl HOL.refl True] 1(3-7) h by simp
      then show ?thesis using False True by (subst lower_bound.simps) (simp add: Let_def)
    next
      case b: False
      have "k \<le> ?mid" using 1(3) [of ?mid] b by linarith
      then have "lower_bound before xs first ?half = k" using 1(2) [OF False HOL.refl HOL.refl b] 1(3-7) h by simp
      then show ?thesis using False b by (subst lower_bound.simps) (simp add: Let_def)
    qed
  qed
qed

definition apart :: "Range \<Rightarrow> Range \<Rightarrow> bool" where
  "apart a b \<longleftrightarrow> rg_ipv6 a < rg_ipv6 b \<or> (rg_ipv6 a = rg_ipv6 b \<and> rg_last a < rg_first b)"

definition in_range :: "128 word \<times> bool \<Rightarrow> Range \<Rightarrow> bool" where
  "in_range key r \<longleftrightarrow> rg_ipv6 r = snd key \<and> rg_first r \<le> fst key \<and> fst key \<le> rg_last r"

lemma sorted_apart:
  "sorted (map (\<lambda>r. (rg_ipv6 r, rg_first r)) rs) \<Longrightarrow> \<not> overlaps rs \<Longrightarrow> \<forall>r\<in>set rs. rg_first r \<le> rg_last r \<Longrightarrow> sorted_wrt apart rs"
proof (induction rs rule: overlaps.induct)
  case (1 a b rs)
  then have ih: "sorted_wrt apart (b # rs)" and ab: "(rg_ipv6 a, rg_first a) \<le> (rg_ipv6 b, rg_first b)" by simp_all
  have first: "apart a b" using 1(3) ab by (auto simp: apart_def less_eq_prod_def)
  have "apart a c" if "c \<in> set rs" for c
  proof -
    have "apart b c" using ih that by simp
    moreover have "rg_first b \<le> rg_last b" using 1(4) by simp
    ultimately show ?thesis using first by (auto simp: apart_def)
  qed
  then show ?case using ih first by simp
qed simp_all

lemma search_finds:
  assumes "sorted_wrt apart rs" and "\<forall>r\<in>set rs. rg_first r \<le> rg_last r"
  shows "(let found = lower_bound (range_before key) rs 0 (length rs) in found \<noteq> length rs \<and> in_range key (rs ! found)) \<longleftrightarrow> (\<exists>r\<in>set rs. in_range key r)"
proof -
  define k where "k = length (takeWhile (range_before key) rs)"
  obtain x v where key: "key = (x, v)" by (cases key)
  have ap: "apart (rs ! i) (rs ! j)" if "i < j" "j < length rs" for i j using assms(1) that by (simp add: sorted_wrt_iff_nth_less)
  have le: "rg_first (rs ! i) \<le> rg_last (rs ! i)" if "i < length rs" for i using assms(2) that by simp
  have down: "range_before key (rs ! i)" if "range_before key (rs ! j)" "i \<le> j" "j < length rs" for i j
    using that ap [of i j] le [of j] by (cases "i = j") (auto simp: range_before_def apart_def key)
  have kl: "k \<le> length rs" by (simp add: k_def length_takeWhile_le)
  have lo: "range_before key (rs ! i)" if "i < k" for i
    using that nth_mem [of i "takeWhile (range_before key) rs"] by (metis k_def set_takeWhileD takeWhile_nth)
  have hi: "\<not> range_before key (rs ! i)" if "k \<le> i" "i < length rs" for i
  proof
    assume "range_before key (rs ! i)"
    then have "range_before key (rs ! k)" using down that by blast
    then show False using nth_length_takeWhile [of "range_before key" rs] that by (simp add: k_def)
  qed
  have f: "lower_bound (range_before key) rs 0 (length rs) = k"
    by (rule lower_bound_split [of k "range_before key" rs "length rs"]) (use lo hi kl in auto)
  have "k \<noteq> length rs \<and> in_range key (rs ! k)" if r: "r \<in> set rs" and inr: "in_range key r" for r
  proof -
    obtain j where j: "j < length rs" "rs ! j = r" using r by (auto simp: in_set_conv_nth)
    have "\<not> range_before key (rs ! j)" using inr j by (auto simp: range_before_def in_range_def key)
    then have "k \<le> j" using lo [of j] by linarith
    moreover have "range_before key (rs ! i)" if "i < j" for i
      using ap [OF that j(1)] inr j by (auto simp: range_before_def in_range_def apart_def key)
    ultimately have "k = j" using hi [of k] j(1) by (metis le_less order_less_le_trans)
    then show ?thesis using j inr by auto
  qed
  moreover have "k < length rs \<Longrightarrow> rs ! k \<in> set rs" by simp
  ultimately show ?thesis using kl unfolding f Let_def by (metis le_neq_implies_less)
qed

section \<open>Loaded tables\<close>

definition french_lines :: "asio \<Rightarrow> string \<Rightarrow> Range set" where
  "french_lines A csv = (case parse_csv A 0 csv of None \<Rightarrow> {} | Some ranges \<Rightarrow> set ranges)"

lemma parse_line_range: "parse_line A line = Some (Some r) \<Longrightarrow> rg_first r \<le> rg_last r"
  by (auto simp: parse_line_def Let_def split: option.splits if_split_asm prod.splits)

lemma parse_csv_ranges: "parse_csv A n t = Some rs \<Longrightarrow> r \<in> set rs \<Longrightarrow> rg_first r \<le> rg_last r"
proof (induction A n t arbitrary: rs rule: parse_csv.induct)
  case (1 A n t)
  show ?case
  proof (cases "NextLine t")
    case None
    then show ?thesis using 1(2,3) by (simp add: parse_csv.simps)
  next
    case (Some lr)
    obtain line rest where lr: "lr = (line, rest)" by (cases lr)
    obtain french ranges where p: "\<not> (line = [] \<or> n + 1 > MAX_RECORDS)" "parse_line A line = Some french" "parse_csv A (n + 1) rest = Some ranges"
      and rs: "rs = (case french of None \<Rightarrow> ranges | Some r \<Rightarrow> r # ranges)"
      using 1(2) Some lr by (subst (asm) parse_csv.simps) (auto split: option.split_asm if_split_asm)
    show ?thesis using 1(1) [OF Some lr [symmetric] p(1,2,3)] 1(3) parse_line_range [of A line r] p(2) rs by (auto split: option.split_asm)
  qed
qed

lemma load_facts:
  assumes "LoadDbIpCountryCsv C A file expected_sha256 issued_month today = Some ranges"
  shows "\<exists>csv rs. file = Some (length csv, csv) \<and> parse_csv A 0 csv = Some rs \<and> ranges = sort_key (\<lambda>r. (rg_ipv6 r, rg_first r)) rs \<and> \<not> overlaps ranges
    \<and> 0 \<le> today - sys_days issued_month \<and> today - sys_days issued_month \<le> MAX_DATASET_AGE \<and> ComputeSha256 C [str csv] = Some expected_sha256"
  using assms by (auto simp: LoadDbIpCountryCsv_def Let_def split: option.split_asm if_split_asm)

lemma IsFrench_search:
  "IsFrench A ranges text \<longleftrightarrow> (case AddressBytes A text of None \<Rightarrow> False
     | Some key \<Rightarrow> let found = lower_bound (range_before key) ranges 0 (length ranges) in found \<noteq> length ranges \<and> in_range key (ranges ! found))"
  by (auto simp: IsFrench_def in_range_def Let_def split: option.splits)

lemma IsFrench_exact:
  assumes "LoadDbIpCountryCsv C A (Some (n, csv)) expected_sha256 issued_month today = Some ranges"
  shows "IsFrench A ranges text \<longleftrightarrow> (\<exists>key. AddressBytes A text = Some key \<and> (\<exists>r\<in>french_lines A csv. in_range key r))"
proof -
  obtain rs where rs: "parse_csv A 0 csv = Some rs" "ranges = sort_key (\<lambda>r. (rg_ipv6 r, rg_first r)) rs" "\<not> overlaps ranges"
    using load_facts [OF assms] by auto
  have le: "\<forall>r\<in>set ranges. rg_first r \<le> rg_last r" using parse_csv_ranges [OF rs(1)] rs(2) by simp
  have so: "sorted_wrt apart ranges" by (rule sorted_apart [OF _ rs(3) le]) (simp add: rs(2))
  have se: "set ranges = french_lines A csv" by (simp add: rs french_lines_def)
  show ?thesis unfolding IsFrench_search using search_finds [OF so le] unfolding se by (auto split: option.split)
qed

text \<open>C27. For every table that loads from a file, and for every policy over it (fixed, or through the updater's snapshot), an address is admitted
  exactly when it is a local network address, or the table is in force (fixed, or between zero and forty-five days old) and the address lies between the
  bounds of one of the French lines of the file, in its own family. The loaded file has the expected digest, and its age was within the same limit when it
  was loaded. The search, the sorting and the overlap check thus lose no French line and add none.
\<close>

theorem peer_admission_exact:
  assumes "LoadDbIpCountryCsv C A (Some (n, csv)) expected_sha256 issued_month loaded = Some ranges"
  shows "ComputeSha256 C [str csv] = Some expected_sha256 \<and> n = length csv \<and> loaded - sys_days issued_month \<in> {0..45}
    \<and> (Allows A (Public (Some ranges)) today text \<longleftrightarrow>
         IsLocalNetworkAddress A text \<or> (\<exists>key. AddressBytes A text = Some key \<and> (\<exists>r\<in>french_lines A csv. in_range key r)))
    \<and> (Allows A (PublicWithUpdater (Some \<lparr> sn_dataset = ranges, sn_issued_month = issued_month \<rparr>)) today text \<longleftrightarrow>
         IsLocalNetworkAddress A text
         \<or> (today - sys_days issued_month \<in> {0..45} \<and> (\<exists>key. AddressBytes A text = Some key \<and> (\<exists>r\<in>french_lines A csv. in_range key r))))
    \<and> \<not> Ready (Public None) today \<and> (Allows A (Public None) today text \<longleftrightarrow> IsLocalNetworkAddress A text)"
  using load_facts [OF assms] IsFrench_exact [OF assms, of "text"]
  by (auto simp: Allows_def policy_dataset_def Public_def PublicWithUpdater_def CurrentDataset_def Ready_def MAX_DATASET_AGE_def Let_def)

text \<open>A table of two lines, on an address reader that knows four addresses.\<close>

definition sample_asio :: asio where
  "sample_asio = \<lparr> asio_make_address = map_of [(''2.0.0.0'', V4 0x02000000), (''2.9.0.1'', V4 0x02090001), (''2.15.255.255'', V4 0x020FFFFF), (''3.0.0.0'', V4 0x03000000)],
     asio_is_v4_mapped = (\<lambda>a. drop_bit 32 a = 0xFFFF), asio_mapped_v4 = (\<lambda>a. ucast a), asio_is_loopback = (\<lambda>a. a = 1) \<rparr>"

definition sample_csv :: string where
  "sample_csv = ''2.0.0.0,2.15.255.255,FR'' @ [CHR 0x0A] @ ''3.0.0.0,3.0.0.0,US'' @ [CHR 0x0D, CHR 0x0A]"

definition sample_range :: Range where
  "sample_range = \<lparr> rg_first = 0x02000000000000000000000000000000, rg_last = 0x020FFFFF000000000000000000000000, rg_ipv6 = False \<rparr>"

lemma sample_lines:
  "NextLine sample_csv = Some (''2.0.0.0,2.15.255.255,FR'', ''3.0.0.0,3.0.0.0,US'' @ [CHR 0x0D, CHR 0x0A])"
  "NextLine (''3.0.0.0,3.0.0.0,US'' @ [CHR 0x0D, CHR 0x0A]) = Some (''3.0.0.0,3.0.0.0,US'', [])"
  "NextLine [] = None"
  by code_simp+

lemma sample_records:
  "parse_line sample_asio ''2.0.0.0,2.15.255.255,FR'' = Some (Some sample_range)"
  "parse_line sample_asio ''3.0.0.0,3.0.0.0,US'' = Some None"
  by code_simp+

lemma sample_parse: "parse_csv sample_asio 0 sample_csv = Some [sample_range]"
  by (subst parse_csv.simps, simp only: sample_lines sample_records option.case prod.case,
      subst parse_csv.simps, simp only: sample_lines sample_records option.case prod.case,
      subst parse_csv.simps, simp add: sample_lines MAX_RECORDS_def)

lemma sample_load: "LoadDbIpCountryCsv tail_crypto sample_asio (Some (length sample_csv, sample_csv)) 11 (2024, 3) (sys_days (2024, 3) + 10) = Some [sample_range]"
proof -
  have "evp_sha256 tail_crypto (str sample_csv) = Some 11" by code_simp
  moreover have "length sample_csv = 44" by code_simp
  ultimately show ?thesis
    by (simp add: LoadDbIpCountryCsv_def sample_parse month_ok_def MAX_DATASET_AGE_def MAX_DATASET_BYTES_def Let_def)
qed

theorem peer_admission_exact_witness:
  "Allows sample_asio (Public (Some [sample_range])) 0 ''2.9.0.1''
    \<and> \<not> Allows sample_asio (Public (Some [sample_range])) 0 ''3.0.0.0''
    \<and> \<not> Allows sample_asio (PublicWithUpdater (Some \<lparr> sn_dataset = [sample_range], sn_issued_month = (2024, 3) \<rparr>)) (sys_days (2024, 3) + 46) ''2.9.0.1''"
proof -
  have l: "\<not> IsLocalNetworkAddress sample_asio ''2.9.0.1''" "\<not> IsLocalNetworkAddress sample_asio ''3.0.0.0''" by code_simp+
  have a: "AddressBytes sample_asio ''2.9.0.1'' = Some (0x02090001000000000000000000000000, False)"
    "AddressBytes sample_asio ''3.0.0.0'' = Some (0x03000000000000000000000000000000, False)" by code_simp+
  have f: "french_lines sample_asio sample_csv = {sample_range}" by (simp add: french_lines_def sample_parse)
  have r: "in_range (0x02090001000000000000000000000000, False) sample_range" "\<not> in_range (0x03000000000000000000000000000000, False) sample_range"
    by (simp_all add: in_range_def sample_range_def)
  note exact = peer_admission_exact [OF sample_load]
  show ?thesis
    using exact [of 0 "''2.9.0.1''"] exact [of 0 "''3.0.0.0''"] exact [of "sys_days (2024, 3) + 46" "''2.9.0.1''"] by (simp add: l a f r)
qed

end
