(* ===== verification/PrivateStore.thy ===== *)
theory PrivateStore
  imports LocalStore TextForms OrderedMap
begin

text \<open>
  The encrypted application database of one identity (\<^verbatim>\<open>private_application_store.h/.cpp\<close>) over the local key-value store: records
  under keyed names, sealed with the name as associated data, and transactions that nest. HMAC and the ChaCha20-Poly1305 functions
  are the record \<open>sealing\<close>; the key store is seen through the account and the key it derives; random bytes, write outcomes and the
  results of prefix scans are arguments. Shown: transactions with savepoints refine updates of a plain map.
\<close>

section \<open>Parameters and state\<close>

record sealing =
  hmac_sha256 :: "256 word \<Rightarrow> bytes \<Rightarrow> 256 word option"
  aead_encrypt :: "256 word \<Rightarrow> 96 word \<Rightarrow> bytes \<Rightarrow> bytes \<Rightarrow> bytes option"
  aead_decrypt :: "256 word \<Rightarrow> 96 word \<Rightarrow> bytes \<Rightarrow> bytes \<Rightarrow> bytes option"

record keystore =
  ks_account :: "AccountId option"
  ks_application_key :: "256 word option"

type_synonym staged = "(string, bytes option) omap"

record PrivateApplicationStore =
  ps_account :: AccountId
  ps_key_check :: "256 word"
  ps_preserve_data_key :: bool
  ps_staged :: "staged option"
  ps_staged_failed :: bool

definition CHECK_NAME :: string where "CHECK_NAME = ''__application_store_check__''"
definition CHECK_VALUE :: string where "CHECK_VALUE = ''CYBOU local application store''"
definition CHECK_DB_KEY :: string where "CHECK_DB_KEY = ''app/check''"
definition ROW_DB_PREFIX :: string where "ROW_DB_PREFIX = ''app/row/''"
definition RECORD_DOMAIN :: string where "RECORD_DOMAIN = ''CYBOU/LOCAL-APPLICATION-STORE/record/''"
definition KEY_CHECK_DOMAIN :: string where "KEY_CHECK_DOMAIN = ''CYBOU/LOCAL-APPLICATION-STORE/key-check''"
definition DATA_KEY_NAME :: string where "DATA_KEY_NAME = ''__application_data_key__''"
definition MAX_NAME_BYTES :: nat where "MAX_NAME_BYTES = 512"
definition MAX_VALUE_BYTES :: nat where "MAX_VALUE_BYTES = 4 * 1024 * 1024"

section \<open>Records\<close>

definition AssociatedData :: "AccountId \<Rightarrow> string \<Rightarrow> bytes" where
  "AssociatedData account name = str RECORD_DOMAIN @ be_bytes 32 account @ str name"

definition valid_name :: "string \<Rightarrow> bool" where
  "valid_name name \<longleftrightarrow> name \<noteq> [] \<and> length name \<le> MAX_NAME_BYTES \<and> name \<noteq> CHECK_NAME"

definition RecordKey :: "sealing \<Rightarrow> PrivateApplicationStore \<Rightarrow> 256 word \<Rightarrow> string \<Rightarrow> string option" where
  "RecordKey A s key name =
     (if \<not> valid_name name then None
      else map_option (\<lambda>digest. ROW_DB_PREFIX @ HexEncode (be_bytes 32 digest)) (hmac_sha256 A key (AssociatedData (ps_account s) name)))"

text \<open>\<open>nonce\<close> is the answer of \<^verbatim>\<open>RAND_bytes\<close>.\<close>

definition Encrypt :: "sealing \<Rightarrow> PrivateApplicationStore \<Rightarrow> 96 word option \<Rightarrow> 256 word \<Rightarrow> string \<Rightarrow> bytes \<Rightarrow> bytes option" where
  "Encrypt A s nonce key name plaintext =
     (if length plaintext > MAX_VALUE_BYTES then None
      else case nonce of None \<Rightarrow> None
        | Some n \<Rightarrow> map_option (\<lambda>sealed. be_bytes 12 n @ sealed) (aead_encrypt A key n (AssociatedData (ps_account s) name) plaintext))"

definition Decrypt :: "sealing \<Rightarrow> PrivateApplicationStore \<Rightarrow> 256 word \<Rightarrow> string \<Rightarrow> bytes \<Rightarrow> bytes option" where
  "Decrypt A s key name encoded =
     (if length encoded < 12 + 16 \<or> length encoded > 12 + MAX_VALUE_BYTES + 16 then None
      else aead_decrypt A key (be_word (take 12 encoded)) (AssociatedData (ps_account s) name) (drop 12 encoded))"

section \<open>Keys\<close>

definition access_key :: "256 word \<Rightarrow> string" where
  "access_key digest = ''app/access/'' @ HexEncode (be_bytes 32 digest)"

definition UnwrapKey :: "sealing \<Rightarrow> PrivateApplicationStore \<Rightarrow> KVStore \<Rightarrow> 256 word \<Rightarrow> exn + 256 word option" where
  "UnwrapKey A s db wrapping_key =
     (case hmac_sha256 A wrapping_key (str KEY_CHECK_DOMAIN) of None \<Rightarrow> Inr None
      | Some digest \<Rightarrow> bindE (KV_Read db (access_key digest)) (\<lambda>encoded. case encoded of None \<Rightarrow> Inr None
        | Some e \<Rightarrow> (case Decrypt A s wrapping_key DATA_KEY_NAME e of None \<Rightarrow> Inr None
          | Some decoded \<Rightarrow> Inr (if length decoded \<noteq> 32 then None else Some (be_word decoded)))))"

definition WrapKey :: "sealing \<Rightarrow> PrivateApplicationStore \<Rightarrow> 96 word option \<Rightarrow> write_outcome \<Rightarrow> 256 word \<Rightarrow> 256 word \<Rightarrow> bool \<Rightarrow> KVStore \<Rightarrow> bool \<times> KVStore" where
  "WrapKey A s nonce w wrapping_key data_key prepared_rotation db =
     (case hmac_sha256 A wrapping_key (str KEY_CHECK_DOMAIN) of None \<Rightarrow> (False, db)
      | Some digest \<Rightarrow> (case Encrypt A s nonce wrapping_key DATA_KEY_NAME (be_bytes 32 data_key) of None \<Rightarrow> (False, db)
        | Some encoded \<Rightarrow>
          let batch = batch_Write ''app/data-key-present'' [1] (batch_Write (access_key digest) encoded []);
              batch = (if prepared_rotation then batch_Write ''app/rotation-access'' (be_bytes 32 digest) batch else batch);
              (r, db') = WriteBatch w batch db
          in (r = Inr (), db')))"

definition AccessKey :: "sealing \<Rightarrow> keystore \<Rightarrow> KVStore \<Rightarrow> PrivateApplicationStore \<Rightarrow> exn + 256 word option" where
  "AccessKey A K db s =
     (if ks_account K \<noteq> Some (ps_account s) then Inr None
      else case ks_application_key K of None \<Rightarrow> Inr None
        | Some derived \<Rightarrow>
          bindE (if ps_preserve_data_key s then UnwrapKey A s db derived else Inr (Some derived)) (\<lambda>key. case key of None \<Rightarrow> Inr None
            | Some k \<Rightarrow> Inr (if hmac_sha256 A k (str KEY_CHECK_DOMAIN) = Some (ps_key_check s) then Some k else None)))"

definition IsUnlocked :: "sealing \<Rightarrow> keystore \<Rightarrow> KVStore \<Rightarrow> PrivateApplicationStore \<Rightarrow> exn + bool" where
  "IsUnlocked A K db s = bindE (AccessKey A K db s) (\<lambda>key. Inr (key \<noteq> None))"

text \<open>\<open>candidate_key\<close> is the key that the prepared material derives, absent when the key store refuses the new entropy.\<close>

definition PrepareKeyRotation ::
  "sealing \<Rightarrow> keystore \<Rightarrow> 96 word option \<Rightarrow> write_outcome \<Rightarrow> 256 word option \<Rightarrow> PrivateApplicationStore \<Rightarrow> KVStore \<Rightarrow> exn + bool \<times> KVStore" where
  "PrepareKeyRotation A K nonce w candidate_key s db =
     (if \<not> ps_preserve_data_key s then Inr (False, db)
      else bindE (AccessKey A K db s) (\<lambda>data_key. case (data_key, candidate_key) of
          (Some d, Some key) \<Rightarrow> Inr (WrapKey A s nonce w key d True db)
        | _ \<Rightarrow> Inr (False, db)))"

section \<open>Opening\<close>

datatype open_error = KeyMismatch | OtherError exn

definition throwing :: "exn + 'a \<Rightarrow> (open_error + 'a)" where
  "throwing m = (case m of Inl e \<Rightarrow> Inl (OtherError e) | Inr a \<Rightarrow> Inr a)"

record open_outcomes =
  oo_fresh_key :: "256 word option"
  oo_wrap_nonce :: "96 word option"
  oo_wrap_write :: write_outcome
  oo_check_nonce :: "96 word option"
  oo_check_write :: write_outcome
  oo_retire_write :: write_outcome
  oo_row_scan :: "exn + bool"
  oo_access_scan :: "exn + string list"

definition check_record_ok :: "sealing \<Rightarrow> PrivateApplicationStore \<Rightarrow> 256 word \<Rightarrow> bytes \<Rightarrow> bool" where
  "check_record_ok A s key encoded \<longleftrightarrow> Decrypt A s key CHECK_NAME encoded = Some (str CHECK_VALUE)"

text \<open>The data key of a store that keeps it across rotations.\<close>

definition open_data_key ::
  "sealing \<Rightarrow> open_outcomes \<Rightarrow> string \<Rightarrow> PrivateApplicationStore \<Rightarrow> 256 word \<Rightarrow> KVStore \<Rightarrow> (open_error + 256 word) \<times> KVStore" where
  "open_data_key A out filename s key db =
     (case UnwrapKey A s db key of Inl e \<Rightarrow> (Inl (OtherError e), db)
      | Inr unwrapped \<Rightarrow> (case KV_Exists db ''app/data-key-present'' of Inl e \<Rightarrow> (Inl (OtherError e), db)
        | Inr present \<Rightarrow>
          if present then (case unwrapped of None \<Rightarrow> (Inl KeyMismatch, db) | Some d \<Rightarrow> (Inr d, db))
          else case (if filename = ''local.db'' then oo_fresh_key out else Some key) of None \<Rightarrow> (Inl (OtherError runtime_error), db)
            | Some data_key \<Rightarrow> (case KV_Read db CHECK_DB_KEY of Inl e \<Rightarrow> (Inl (OtherError e), db)
              | Inr old_check \<Rightarrow>
                if (case old_check of None \<Rightarrow> False | Some e \<Rightarrow> \<not> check_record_ok A s data_key e) then (Inl KeyMismatch, db)
                else let (ok, db') = WrapKey A s (oo_wrap_nonce out) (oo_wrap_write out) key data_key False db
                  in (if ok then Inr data_key else Inl (OtherError runtime_error), db'))))"

text \<open>The key check: verified when present, created in an empty database.\<close>

definition open_check :: "sealing \<Rightarrow> open_outcomes \<Rightarrow> PrivateApplicationStore \<Rightarrow> 256 word \<Rightarrow> KVStore \<Rightarrow> (open_error + unit) \<times> KVStore" where
  "open_check A out s key db =
     (case KV_Read db CHECK_DB_KEY of Inl e \<Rightarrow> (Inl (OtherError e), db)
      | Inr (Some e) \<Rightarrow> (if check_record_ok A s key e then Inr () else Inl KeyMismatch, db)
      | Inr None \<Rightarrow> (case KV_Exists db CHECK_DB_KEY of Inl e \<Rightarrow> (Inl (OtherError e), db)
        | Inr True \<Rightarrow> (Inl (OtherError runtime_error), db)
        | Inr False \<Rightarrow> (case oo_row_scan out of Inl e \<Rightarrow> (Inl (OtherError e), db)
          | Inr True \<Rightarrow> (Inl (OtherError runtime_error), db)
          | Inr False \<Rightarrow> (case Encrypt A s (oo_check_nonce out) key CHECK_NAME (str CHECK_VALUE) of None \<Rightarrow> (Inl (OtherError runtime_error), db)
            | Some encoded \<Rightarrow> let (r, db') = KV_Write (oo_check_write out) CHECK_DB_KEY encoded db in (throwing r, db')))))"

text \<open>The retirement of old access records once the prepared phrase is in use.\<close>

definition open_retire :: "sealing \<Rightarrow> open_outcomes \<Rightarrow> 256 word option \<Rightarrow> KVStore \<Rightarrow> (open_error + unit) \<times> KVStore" where
  "open_retire A out active db =
     (case active of None \<Rightarrow> (Inr (), db)
      | Some k \<Rightarrow> (case hmac_sha256 A k (str KEY_CHECK_DOMAIN) of None \<Rightarrow> (Inr (), db)
        | Some digest \<Rightarrow> (case KV_Read db ''app/rotation-access'' of Inl e \<Rightarrow> (Inl (OtherError e), db)
          | Inr target \<Rightarrow>
            if target \<noteq> Some (be_bytes 32 digest) then (Inr (), db)
            else case oo_access_scan out of Inl e \<Rightarrow> (Inl (OtherError e), db)
              | Inr names \<Rightarrow>
                let batch = fold batch_Erase (filter (\<lambda>name. name \<noteq> access_key digest) names) [];
                    (r, db') = WriteBatch (oo_retire_write out) (batch_Erase ''app/rotation-access'' batch) db
                in (throwing r, db'))))"

definition open_private_store ::
  "sealing \<Rightarrow> keystore \<Rightarrow> open_outcomes \<Rightarrow> string \<Rightarrow> string \<Rightarrow> bool \<Rightarrow> KVStore \<Rightarrow> (open_error + PrivateApplicationStore) \<times> KVStore" where
  "open_private_store A K out identity_dir filename preserve db =
     (let account = (case ks_account K of None \<Rightarrow> 0 | Some a \<Rightarrow> a);
          s = \<lparr> ps_account = account, ps_key_check = 0, ps_preserve_data_key = preserve, ps_staged = None, ps_staged_failed = False \<rparr> in
      if account = 0 \<or> identity_dir = [] then (Inl (OtherError invalid_argument), db)
      else case ks_application_key K of None \<Rightarrow> (Inl (OtherError runtime_error), db)
      | Some derived \<Rightarrow>
        if filename \<noteq> ''app.db'' \<and> filename \<noteq> ''local.db'' then (Inl (OtherError invalid_argument), db)
        else case (if preserve then open_data_key A out filename s derived db else (Inr derived, db)) of (Inl e, db1) \<Rightarrow> (Inl e, db1)
        | (Inr key, db1) \<Rightarrow> (case hmac_sha256 A key (str KEY_CHECK_DOMAIN) of None \<Rightarrow> (Inl (OtherError runtime_error), db1)
          | Some check \<Rightarrow> (case open_check A out s key db1 of (Inl e, db2) \<Rightarrow> (Inl e, db2)
            | (Inr _, db2) \<Rightarrow> (case (if preserve then open_retire A out (Some derived) db2 else (Inr (), db2)) of (Inl e, db3) \<Rightarrow> (Inl e, db3)
              | (Inr _, db3) \<Rightarrow> (Inr (s \<lparr> ps_key_check := check \<rparr>), db3)))))"

section \<open>Operations\<close>

definition map_assign :: "'k::linorder \<Rightarrow> 'v \<Rightarrow> ('k, 'v) omap \<Rightarrow> ('k, 'v) omap" where
  "map_assign k v m = map_adjust k (\<lambda>_. v) (map_emplace k v m)"

definition Put ::
  "sealing \<Rightarrow> keystore \<Rightarrow> 96 word option \<Rightarrow> write_outcome \<Rightarrow> string \<Rightarrow> bytes \<Rightarrow> PrivateApplicationStore \<Rightarrow> KVStore
   \<Rightarrow> exn + bool \<times> PrivateApplicationStore \<times> KVStore" where
  "Put A K nonce w name plaintext s db =
     (case ps_staged s of
        Some staged \<Rightarrow>
          bindE (if \<not> valid_name name \<or> length plaintext > MAX_VALUE_BYTES then Inr False else IsUnlocked A K db s) (\<lambda>ok.
            if \<not> ok then Inr (False, s \<lparr> ps_staged_failed := True \<rparr>, db)
            else Inr (True, s \<lparr> ps_staged := Some (map_assign name (Some plaintext) staged) \<rparr>, db))
      | None \<Rightarrow>
          bindE (AccessKey A K db s) (\<lambda>key. case key of None \<Rightarrow> Inr (False, s, db)
            | Some k \<Rightarrow> (case RecordKey A s k name of None \<Rightarrow> Inr (False, s, db)
              | Some record_key \<Rightarrow> (case Encrypt A s nonce k name plaintext of None \<Rightarrow> Inr (False, s, db)
                | Some encoded \<Rightarrow> let (r, db') = KV_Write w record_key encoded db in Inr (r = Inr (), s, db')))))"

definition Get :: "sealing \<Rightarrow> keystore \<Rightarrow> KVStore \<Rightarrow> PrivateApplicationStore \<Rightarrow> string \<Rightarrow> exn + bytes option" where
  "Get A K db s name =
     (case (case ps_staged s of None \<Rightarrow> None | Some staged \<Rightarrow> map_find staged name) of
        Some value \<Rightarrow> Inr value
      | None \<Rightarrow>
        bindE (AccessKey A K db s) (\<lambda>key. case key of None \<Rightarrow> Inr None
          | Some k \<Rightarrow> (case RecordKey A s k name of None \<Rightarrow> Inr None
            | Some record_key \<Rightarrow> (case KV_Read db record_key of Inl _ \<Rightarrow> Inr None
              | Inr None \<Rightarrow> Inr None
              | Inr (Some encoded) \<Rightarrow> Inr (Decrypt A s k name encoded)))))"

definition Has :: "sealing \<Rightarrow> keystore \<Rightarrow> KVStore \<Rightarrow> PrivateApplicationStore \<Rightarrow> string \<Rightarrow> exn + bool" where
  "Has A K db s name =
     (case (case ps_staged s of None \<Rightarrow> None | Some staged \<Rightarrow> map_find staged name) of
        Some value \<Rightarrow> Inr (value \<noteq> None)
      | None \<Rightarrow>
        bindE (AccessKey A K db s) (\<lambda>key. case key of None \<Rightarrow> Inr False
          | Some k \<Rightarrow> (case RecordKey A s k name of None \<Rightarrow> Inr False
            | Some record_key \<Rightarrow> (case KV_Exists db record_key of Inl _ \<Rightarrow> Inr False | Inr b \<Rightarrow> Inr b))))"

definition Erase ::
  "sealing \<Rightarrow> keystore \<Rightarrow> write_outcome \<Rightarrow> string \<Rightarrow> PrivateApplicationStore \<Rightarrow> KVStore \<Rightarrow> exn + bool \<times> PrivateApplicationStore \<times> KVStore" where
  "Erase A K w name s db =
     (case ps_staged s of
        Some staged \<Rightarrow> Inr (True, s \<lparr> ps_staged := Some (map_assign name None staged) \<rparr>, db)
      | None \<Rightarrow>
          bindE (AccessKey A K db s) (\<lambda>key. case key of None \<Rightarrow> Inr (False, s, db)
            | Some k \<Rightarrow> (case RecordKey A s k name of None \<Rightarrow> Inr (False, s, db)
              | Some record_key \<Rightarrow> let (r, db') = KV_Erase w record_key db in Inr (r = Inr (), s, db'))))"

text \<open>The loop of \<^verbatim>\<open>WriteBatch\<close>; the nonces are drawn in the order of the values.\<close>

fun build_batch ::
  "sealing \<Rightarrow> PrivateApplicationStore \<Rightarrow> 256 word \<Rightarrow> (nat \<Rightarrow> 96 word option) \<Rightarrow> (string \<times> bytes option) list \<Rightarrow> kv_batch \<Rightarrow> kv_batch option" where
  "build_batch A s key nonces [] batch = Some batch"
| "build_batch A s key nonces ((name, value) # changes) batch =
     (case RecordKey A s key name of None \<Rightarrow> None
      | Some record_key \<Rightarrow> (case value of None \<Rightarrow> build_batch A s key nonces changes (batch_Erase record_key batch)
        | Some v \<Rightarrow> (case Encrypt A s (nonces 0) key name v of None \<Rightarrow> None
          | Some encoded \<Rightarrow> build_batch A s key (\<lambda>i. nonces (Suc i)) changes (batch_Write record_key encoded batch))))"

definition WriteChanges ::
  "sealing \<Rightarrow> keystore \<Rightarrow> (nat \<Rightarrow> 96 word option) \<Rightarrow> write_outcome \<Rightarrow> (string \<times> bytes option) list \<Rightarrow> PrivateApplicationStore \<Rightarrow> KVStore \<Rightarrow> exn + bool \<times> KVStore" where
  "WriteChanges A K nonces w changes s db =
     bindE (AccessKey A K db s) (\<lambda>key. case key of None \<Rightarrow> Inr (False, db)
       | Some k \<Rightarrow> (case build_batch A s k nonces changes [] of None \<Rightarrow> Inr (False, db)
         | Some batch \<Rightarrow> let (r, db') = WriteBatch w batch db in Inr (r = Inr (), db')))"

section \<open>Transactions\<close>

record Batch =
  b_outermost :: bool
  b_done :: bool
  b_savepoint :: staged
  b_savepoint_failed :: bool

definition Batch_open :: "PrivateApplicationStore \<Rightarrow> Batch \<times> PrivateApplicationStore" where
  "Batch_open s = (case ps_staged s of
     None \<Rightarrow> (\<lparr> b_outermost = True, b_done = False, b_savepoint = [], b_savepoint_failed = False \<rparr>,
             s \<lparr> ps_staged := Some [], ps_staged_failed := False \<rparr>)
   | Some staged \<Rightarrow> (\<lparr> b_outermost = False, b_done = False, b_savepoint = staged, b_savepoint_failed = ps_staged_failed s \<rparr>, s))"

definition RollBack :: "Batch \<Rightarrow> PrivateApplicationStore \<Rightarrow> Batch \<times> PrivateApplicationStore" where
  "RollBack b s = (b \<lparr> b_savepoint := [] \<rparr>, s \<lparr> ps_staged := Some (b_savepoint b), ps_staged_failed := b_savepoint_failed b \<rparr>)"

definition Batch_close :: "Batch \<Rightarrow> PrivateApplicationStore \<Rightarrow> PrivateApplicationStore" where
  "Batch_close b s =
     (if b_outermost b \<and> ps_staged s \<noteq> None then s \<lparr> ps_staged := None \<rparr>
      else if \<not> b_outermost b \<and> \<not> b_done b \<and> ps_staged s \<noteq> None then snd (RollBack b s)
      else s)"

definition Batch_Commit ::
  "sealing \<Rightarrow> keystore \<Rightarrow> (nat \<Rightarrow> 96 word option) \<Rightarrow> write_outcome \<Rightarrow> Batch \<Rightarrow> PrivateApplicationStore \<Rightarrow> KVStore
   \<Rightarrow> (exn + bool) \<times> Batch \<times> PrivateApplicationStore \<times> KVStore" where
  "Batch_Commit A K nonces w b s db =
     (if b_done b then (Inr False, b, s, db)
      else let b = b \<lparr> b_done := True \<rparr> in
        if \<not> b_outermost b then
          (if \<not> ps_staged_failed s then (Inr True, b, s, db)
           else let (b', s') = RollBack b s in (Inr False, b', s', db))
        else
          let changes = (case ps_staged s of None \<Rightarrow> [] | Some staged \<Rightarrow> staged); failed = ps_staged_failed s; s' = s \<lparr> ps_staged := None \<rparr>
          in if failed then (Inr False, b, s', db)
             else case WriteChanges A K nonces w changes s' db of Inl e \<Rightarrow> (Inl e, b, s', db) | Inr (ok, db') \<Rightarrow> (Inr ok, b, s', db'))"

section \<open>Scripts of a transaction\<close>

text \<open>
  A transaction as its caller writes it: calls of the store and inner blocks, each with a \<^verbatim>\<open>Batch\<close> object of its own that is committed at the
  end of the block or left to its destructor. The replies are those of the calls and of the inner commits, in order.
\<close>

datatype txn = TPut string bytes | TErase string | TGet string | TBlock bool "txn list"

datatype reply = RBool bool | RBytes "bytes option"

fun run_block :: "sealing \<Rightarrow> keystore \<Rightarrow> KVStore \<Rightarrow> txn list \<Rightarrow> PrivateApplicationStore \<Rightarrow> exn + reply list \<times> PrivateApplicationStore" where
  "run_block A K db [] s = Inr ([], s)"
| "run_block A K db (TPut name v # ts) s =
     bindE (Put A K None WriteLost name v s db) (\<lambda>(ok, s1, _). bindE (run_block A K db ts s1) (\<lambda>(rs, s2). Inr (RBool ok # rs, s2)))"
| "run_block A K db (TErase name # ts) s =
     bindE (Erase A K WriteLost name s db) (\<lambda>(ok, s1, _). bindE (run_block A K db ts s1) (\<lambda>(rs, s2). Inr (RBool ok # rs, s2)))"
| "run_block A K db (TGet name # ts) s =
     bindE (Get A K db s name) (\<lambda>v. bindE (run_block A K db ts s) (\<lambda>(rs, s2). Inr (RBytes v # rs, s2)))"
| "run_block A K db (TBlock commit body # ts) s =
     (let (b, s1) = Batch_open s in
      bindE (run_block A K db body s1) (\<lambda>(rs1, s2).
        if commit then
          (let (r, b', s3, _) = Batch_Commit A K (\<lambda>_. None) WriteLost b s2 db in
           bindE r (\<lambda>ok. bindE (run_block A K db ts (Batch_close b' s3)) (\<lambda>(rs2, s4). Inr (rs1 @ RBool ok # rs2, s4))))
        else bindE (run_block A K db ts (Batch_close b s2)) (\<lambda>(rs2, s4). Inr (rs1 @ rs2, s4))))"

definition transact ::
  "sealing \<Rightarrow> keystore \<Rightarrow> (nat \<Rightarrow> 96 word option) \<Rightarrow> write_outcome \<Rightarrow> txn list \<Rightarrow> PrivateApplicationStore \<Rightarrow> KVStore
   \<Rightarrow> (exn + reply list \<times> bool) \<times> PrivateApplicationStore \<times> KVStore" where
  "transact A K nonces w body s db =
     (let (b, s1) = Batch_open s in
      case run_block A K db body s1 of Inl e \<Rightarrow> (Inl e, Batch_close b s1, db)
      | Inr (rs, s2) \<Rightarrow> let (r, b', s3, db') = Batch_Commit A K nonces w b s2 db
          in (bindE r (\<lambda>ok. Inr (rs, ok)), Batch_close b' s3, db'))"

text \<open>The abstract machine: a plain map and whether a refused value has doomed the transaction.\<close>

type_synonym view = "string \<Rightarrow> bytes option"

fun spec_block :: "txn list \<Rightarrow> view \<times> bool \<Rightarrow> reply list \<times> view \<times> bool" where
  "spec_block [] mf = ([], mf)"
| "spec_block (TPut name v # ts) (m, f) =
     (let ok = valid_name name \<and> length v \<le> MAX_VALUE_BYTES; (rs, mf) = spec_block ts (if ok then (m(name \<mapsto> v), f) else (m, True))
      in (RBool ok # rs, mf))"
| "spec_block (TErase name # ts) (m, f) = (let (rs, mf) = spec_block ts (m(name := None), f) in (RBool True # rs, mf))"
| "spec_block (TGet name # ts) (m, f) = (let (rs, mf) = spec_block ts (m, f) in (RBytes (m name) # rs, mf))"
| "spec_block (TBlock commit body # ts) (m, f) =
     (let (rs1, m1, f1) = spec_block body (m, f); kept = commit \<and> \<not> f1; (rs2, mf) = spec_block ts (if kept then (m1, f1) else (m, f))
      in (rs1 @ (if commit then [RBool (\<not> f1)] else []) @ rs2, mf))"

text \<open>The names a script may use: those of the set \<open>N\<close>; a refused \<^verbatim>\<open>Put\<close> may also carry a bad name.\<close>

fun names_in :: "string set \<Rightarrow> txn list \<Rightarrow> bool" where
  "names_in N [] \<longleftrightarrow> True"
| "names_in N (TPut name v # ts) \<longleftrightarrow> (name \<in> N \<or> \<not> valid_name name) \<and> names_in N ts"
| "names_in N (TErase name # ts) \<longleftrightarrow> name \<in> N \<and> names_in N ts"
| "names_in N (TGet name # ts) \<longleftrightarrow> name \<in> N \<and> names_in N ts"
| "names_in N (TBlock commit body # ts) \<longleftrightarrow> names_in N body \<and> names_in N ts"

section \<open>The contents of a store\<close>

definition row_of :: "sealing \<Rightarrow> AccountId \<Rightarrow> 256 word \<Rightarrow> string \<Rightarrow> 256 word" where
  "row_of A account key name = the (hmac_sha256 A key (AssociatedData account name))"

definition row_key :: "256 word \<Rightarrow> string" where
  "row_key digest = ROW_DB_PREFIX @ GetHex digest"

definition durable :: "sealing \<Rightarrow> PrivateApplicationStore \<Rightarrow> 256 word \<Rightarrow> KVStore \<Rightarrow> view" where
  "durable A s key db name = (case stored db (row_key (row_of A (ps_account s) key name)) of None \<Rightarrow> None | Some e \<Rightarrow> Decrypt A s key name e)"

text \<open>
  A store whose key is accessible, on names whose keyed digests are defined and distinct, with an AEAD that opens what it seals (and seals with a tag
  of 16 bytes), and with readable rows.
\<close>

definition store_ready :: "sealing \<Rightarrow> keystore \<Rightarrow> string set \<Rightarrow> 256 word \<Rightarrow> PrivateApplicationStore \<Rightarrow> KVStore \<Rightarrow> bool" where
  "store_ready A K N key s db \<longleftrightarrow> AccessKey A K db s = Inr (Some key)
     \<and> (\<forall>n\<in>N. valid_name n \<and> hmac_sha256 A key (AssociatedData (ps_account s) n) \<noteq> None)
     \<and> inj_on (row_of A (ps_account s) key) N
     \<and> (\<forall>n\<in>N. \<not> kv_unreadable db (EncodeString (row_key (row_of A (ps_account s) key n))))
     \<and> (\<forall>n\<in>N. \<forall>nonce v c. aead_encrypt A key nonce (AssociatedData (ps_account s) n) v = Some c \<longrightarrow>
           length c = length v + 16 \<and> aead_decrypt A key nonce (AssociatedData (ps_account s) n) c = Some v)"

lemma store_readyD:
  assumes "store_ready A K N key s db"
  shows "AccessKey A K db s = Inr (Some key)" "inj_on (row_of A (ps_account s) key) N"
    "n \<in> N \<Longrightarrow> valid_name n" "n \<in> N \<Longrightarrow> RecordKey A s key n = Some (row_key (row_of A (ps_account s) key n))"
    "n \<in> N \<Longrightarrow> \<not> kv_unreadable db (EncodeString (row_key (row_of A (ps_account s) key n)))"
    "n \<in> N \<Longrightarrow> aead_encrypt A key nonce (AssociatedData (ps_account s) n) v = Some c \<Longrightarrow> length c = length v + 16"
    "n \<in> N \<Longrightarrow> aead_encrypt A key nonce (AssociatedData (ps_account s) n) v = Some c \<Longrightarrow> aead_decrypt A key nonce (AssociatedData (ps_account s) n) c = Some v"
  using assms by (auto simp: store_ready_def RecordKey_def row_key_def row_of_def GetHex_def)

text \<open>Only the account, the key check and the mode of a store bear on its keys and records.\<close>

definition same_store :: "PrivateApplicationStore \<Rightarrow> PrivateApplicationStore \<Rightarrow> bool" where
  "same_store s s' \<longleftrightarrow> ps_account s' = ps_account s \<and> ps_key_check s' = ps_key_check s \<and> ps_preserve_data_key s' = ps_preserve_data_key s"

lemma same_store_refl [simp]: "same_store s s" by (simp add: same_store_def)

lemma same_store_trans: "same_store s t \<Longrightarrow> same_store t u \<Longrightarrow> same_store s u" by (simp add: same_store_def)

lemma same_store_update [simp]:
  "same_store s (s \<lparr> ps_staged := st \<rparr>)" "same_store s (s \<lparr> ps_staged_failed := f \<rparr>)" "same_store s (s \<lparr> ps_staged := st, ps_staged_failed := f \<rparr>)"
  by (simp_all add: same_store_def)

lemma same_store_functions:
  assumes "same_store s s'"
  shows "AccessKey A K db s' = AccessKey A K db s" "Decrypt A s' key n e = Decrypt A s key n e" "Encrypt A s' nonce key n v = Encrypt A s nonce key n v"
    "RecordKey A s' key n = RecordKey A s key n" "durable A s' key db = durable A s key db" "store_ready A K N key s' db = store_ready A K N key s db"
proof -
  have e: "ps_account s' = ps_account s" "ps_key_check s' = ps_key_check s" "ps_preserve_data_key s' = ps_preserve_data_key s"
    using assms by (simp_all add: same_store_def)
  have d: "Decrypt A s' k n e = Decrypt A s k n e" for k n e by (simp add: Decrypt_def assms [unfolded same_store_def])
  have u: "UnwrapKey A s' db k = UnwrapKey A s db k" for k unfolding UnwrapKey_def d by (rule HOL.refl)
  show k: "AccessKey A K db s' = AccessKey A K db s" unfolding AccessKey_def u e by (rule HOL.refl)
  show "Decrypt A s' key n e = Decrypt A s key n e" by (rule d)
  show "Encrypt A s' nonce key n v = Encrypt A s nonce key n v" "RecordKey A s' key n = RecordKey A s key n"
    unfolding Encrypt_def RecordKey_def e by (rule HOL.refl)+
  show "durable A s' key db = durable A s key db" by (rule ext, unfold durable_def d e, rule HOL.refl)
  show "store_ready A K N key s' db = store_ready A K N key s db" unfolding store_ready_def k e by (rule HOL.refl)
qed

section \<open>Blocks refine the abstract machine\<close>

definition overlay :: "staged \<Rightarrow> view \<Rightarrow> view" where
  "overlay st m = (\<lambda>n. case map_find st n of Some v \<Rightarrow> v | None \<Rightarrow> m n)"

definition staged_ok :: "string set \<Rightarrow> staged \<Rightarrow> bool" where
  "staged_ok N st \<longleftrightarrow> omap_wf st \<and> (\<forall>(n, v)\<in>set st. n \<in> N \<and> (\<forall>x. v = Some x \<longrightarrow> length x \<le> MAX_VALUE_BYTES))"

text \<open>The relation of a store inside a transaction over the contents \<open>d\<close> to the abstract state.\<close>

definition block_rel :: "string set \<Rightarrow> view \<Rightarrow> PrivateApplicationStore \<Rightarrow> view \<times> bool \<Rightarrow> bool" where
  "block_rel N d s mf \<longleftrightarrow> (\<exists>st. ps_staged s = Some st \<and> staged_ok N st \<and> (\<forall>n\<in>N. overlay st d n = fst mf n)) \<and> ps_staged_failed s = snd mf"

lemma omap_wf_assign [simp]: "omap_wf m \<Longrightarrow> omap_wf (map_assign k v m)"
  by (simp add: map_assign_def)

lemma map_find_assign [simp]: "map_find (map_assign k v m) k' = (if k' = k then Some v else map_find m k')"
  by (simp add: map_assign_def split: option.split)

lemma staged_ok_assign:
  assumes "staged_ok N st" "n \<in> N" "\<And>x. v = Some x \<Longrightarrow> length x \<le> MAX_VALUE_BYTES"
  shows "staged_ok N (map_assign n v st)"
proof -
  have w: "omap_wf st" using assms(1) by (simp add: staged_ok_def)
  have "n' \<in> N \<and> (\<forall>x. v' = Some x \<longrightarrow> length x \<le> MAX_VALUE_BYTES)" if "(n', v') \<in> set (map_assign n v st)" for n' v'
  proof -
    have "map_find (map_assign n v st) n' = Some v'" using that w by (simp add: map_find_iff_set del: map_find_assign)
    then show ?thesis using assms w by (auto simp: staged_ok_def map_find_iff_set split: if_split_asm)
  qed
  then show ?thesis using w by (auto simp: staged_ok_def)
qed

lemma overlay_assign: "overlay (map_assign n v st) d = (overlay st d)(n := v)"
  by (simp add: overlay_def fun_eq_iff)

lemma Get_view:
  assumes "store_ready A K N key s db" "n \<in> N"
  shows "Get A K db s n = Inr (case ps_staged s of None \<Rightarrow> durable A s key db n | Some st \<Rightarrow> overlay st (durable A s key db) n)"
proof -
  note r = store_readyD [OF assms(1)]
  have "KV_Read db (row_key (row_of A (ps_account s) key n)) = Inr (stored db (row_key (row_of A (ps_account s) key n)))"
    using r(5) [OF assms(2)] by (simp add: KV_Read_def ReadRaw_def stored_def split: option.split)
  then show ?thesis using r(1) r(4) [OF assms(2)]
    by (auto simp: Get_def overlay_def durable_def split: option.split)
qed

lemma block_put:
  assumes "store_ready A K N key s db" "block_rel N d s (m, f)" "n \<in> N \<or> \<not> valid_name n"
  shows "\<exists>s1. Put A K nonce w n v s db = Inr (valid_name n \<and> length v \<le> MAX_VALUE_BYTES, s1, db) \<and> same_store s s1
    \<and> block_rel N d s1 (if valid_name n \<and> length v \<le> MAX_VALUE_BYTES then (m(n \<mapsto> v), f) else (m, True))"
proof -
  obtain st where st: "ps_staged s = Some st" "staged_ok N st" "\<forall>n\<in>N. overlay st d n = m n" "ps_staged_failed s = f"
    using assms(2) by (auto simp: block_rel_def)
  have u: "IsUnlocked A K db s = Inr True" using store_readyD(1) [OF assms(1)] by (simp add: IsUnlocked_def)
  show ?thesis
  proof (cases "valid_name n \<and> length v \<le> MAX_VALUE_BYTES")
    case True
    then have "n \<in> N" using assms(3) by simp
    then have "block_rel N d (s \<lparr> ps_staged := Some (map_assign n (Some v) st) \<rparr>) (m(n \<mapsto> v), f)"
      using st True by (auto simp: block_rel_def overlay_assign intro!: staged_ok_assign)
    then show ?thesis using True st(1) u by (auto simp: Put_def)
  next
    case False
    then have "Put A K nonce w n v s db = Inr (False, s \<lparr> ps_staged_failed := True \<rparr>, db)" using st(1) by (auto simp: Put_def)
    moreover have "block_rel N d (s \<lparr> ps_staged_failed := True \<rparr>) (m, True)" using st by (simp add: block_rel_def)
    ultimately show ?thesis using False by (auto intro: same_store_update)
  qed
qed

lemma block_erase:
  assumes "block_rel N d s (m, f)" "n \<in> N"
  shows "\<exists>s1. Erase A K w n s db = Inr (True, s1, db) \<and> same_store s s1 \<and> block_rel N d s1 (m(n := None), f)"
proof -
  obtain st where st: "ps_staged s = Some st" "staged_ok N st" "\<forall>n\<in>N. overlay st d n = m n" "ps_staged_failed s = f"
    using assms(1) by (auto simp: block_rel_def)
  have "block_rel N d (s \<lparr> ps_staged := Some (map_assign n None st) \<rparr>) (m(n := None), f)"
    using st assms(2) by (auto simp: block_rel_def overlay_assign intro!: staged_ok_assign)
  then show ?thesis using st(1) by (auto simp: Erase_def)
qed

text \<open>An inner block: opening takes a savepoint, and closing keeps the changes of a committed block and restores the savepoint otherwise.\<close>

lemma block_inner:
  assumes "block_rel N d s (m, f)" "Batch_open s = (b, s1)" "block_rel N d s2 (m', f')" "same_store s s2"
  shows "s1 = s"
    "\<exists>s3. Batch_Commit A K nonces w b s2 db = (Inr (\<not> f'), b \<lparr> b_done := True, b_savepoint := (if f' then [] else b_savepoint b) \<rparr>, s3, db)
       \<and> Batch_close (b \<lparr> b_done := True, b_savepoint := (if f' then [] else b_savepoint b) \<rparr>) s3 = s3
       \<and> same_store s s3 \<and> block_rel N d s3 (if f' then (m, f) else (m', f'))"
    "same_store s (Batch_close b s2)" "block_rel N d (Batch_close b s2) (m, f)"
proof -
  obtain st where st: "ps_staged s = Some st" "staged_ok N st" "\<forall>n\<in>N. overlay st d n = m n" "ps_staged_failed s = f"
    using assms(1) by (auto simp: block_rel_def)
  obtain st' where st': "ps_staged s2 = Some st'" "ps_staged_failed s2 = f'" using assms(3) by (auto simp: block_rel_def)
  have b: "b = \<lparr> b_outermost = False, b_done = False, b_savepoint = st, b_savepoint_failed = f \<rparr>" and s1: "s1 = s"
    using assms(2) st(1,4) by (auto simp: Batch_open_def)
  show "s1 = s" by (rule s1)
  have restored: "block_rel N d (s2 \<lparr> ps_staged := Some st, ps_staged_failed := f \<rparr>) (m, f)" using st by (simp add: block_rel_def)
  have same: "same_store s (s2 \<lparr> ps_staged := Some st, ps_staged_failed := f \<rparr>)" using assms(4) by (simp add: same_store_def)
  show "same_store s (Batch_close b s2)" "block_rel N d (Batch_close b s2) (m, f)"
    using same restored st'(1) by (simp_all add: b Batch_close_def RollBack_def)
  show "\<exists>s3. Batch_Commit A K nonces w b s2 db = (Inr (\<not> f'), b \<lparr> b_done := True, b_savepoint := (if f' then [] else b_savepoint b) \<rparr>, s3, db)
       \<and> Batch_close (b \<lparr> b_done := True, b_savepoint := (if f' then [] else b_savepoint b) \<rparr>) s3 = s3
       \<and> same_store s s3 \<and> block_rel N d s3 (if f' then (m, f) else (m', f'))"
    using same restored st' assms(3,4) by (cases f') (simp_all add: b Batch_Commit_def Batch_close_def RollBack_def Let_def)
qed

lemma run_block_refines:
  "store_ready A K N key s db \<Longrightarrow> block_rel N (durable A s key db) s mf \<Longrightarrow> names_in N body \<Longrightarrow> spec_block body mf = (rs, mf') \<Longrightarrow>
   \<exists>s'. run_block A K db body s = Inr (rs, s') \<and> same_store s s' \<and> block_rel N (durable A s key db) s' mf'"
proof (induction A K db body s arbitrary: mf rs mf' rule: run_block.induct)
  case (1 A K db s)
  then show ?case by simp
next
  case (2 A K db n v ts s)
  obtain m f where mf: "mf = (m, f)" by (cases mf)
  let ?mf1 = "if valid_name n \<and> length v \<le> MAX_VALUE_BYTES then (m(n \<mapsto> v), f) else (m, True)"
  obtain s1 where p: "Put A K None WriteLost n v s db = Inr (valid_name n \<and> length v \<le> MAX_VALUE_BYTES, s1, db)" "same_store s s1"
    "block_rel N (durable A s key db) s1 ?mf1" using block_put [OF 2(2) 2(3) [unfolded mf]] 2(4) by fastforce
  obtain rs1 where sp: "spec_block ts ?mf1 = (rs1, mf')" "rs = RBool (valid_name n \<and> length v \<le> MAX_VALUE_BYTES) # rs1"
    using 2(5) by (auto simp: mf Let_def split: prod.split_asm)
  note eqs = same_store_functions [OF p(2)]
  obtain s' where "run_block A K db ts s1 = Inr (rs1, s')" "same_store s1 s'" "block_rel N (durable A s key db) s' mf'"
    using 2(1) [of s1, unfolded eqs, OF 2(2) p(3) _ sp(1)] 2(4) by auto
  then show ?case using p(1,2) sp(2) same_store_trans by auto
next
  case (3 A K db n ts s)
  obtain m f where mf: "mf = (m, f)" by (cases mf)
  obtain s1 where p: "Erase A K WriteLost n s db = Inr (True, s1, db)" "same_store s s1" "block_rel N (durable A s key db) s1 (m(n := None), f)"
    using block_erase [OF 3(3) [unfolded mf]] 3(4) by fastforce
  obtain rs1 where sp: "spec_block ts (m(n := None), f) = (rs1, mf')" "rs = RBool True # rs1" using 3(5) by (auto simp: mf Let_def split: prod.split_asm)
  note eqs = same_store_functions [OF p(2)]
  obtain s' where "run_block A K db ts s1 = Inr (rs1, s')" "same_store s1 s'" "block_rel N (durable A s key db) s' mf'"
    using 3(1) [of s1, unfolded eqs, OF 3(2) p(3) _ sp(1)] 3(4) by auto
  then show ?case using p(1,2) sp(2) same_store_trans by auto
next
  case (4 A K db n ts s)
  obtain m f where mf: "mf = (m, f)" by (cases mf)
  have g: "Get A K db s n = Inr (m n)" using Get_view [OF 4(2), of n] 4(3,4) by (auto simp: block_rel_def mf)
  obtain rs1 where sp: "spec_block ts (m, f) = (rs1, mf')" "rs = RBytes (m n) # rs1" using 4(5) by (auto simp: mf Let_def split: prod.split_asm)
  obtain s' where "run_block A K db ts s = Inr (rs1, s')" "same_store s s'" "block_rel N (durable A s key db) s' mf'"
    using 4(1) [OF 4(2) 4(3) [unfolded mf] _ sp(1)] 4(4) by auto
  then show ?case using g sp(2) by auto
next
  case (5 A K db commit body ts s)
  obtain m f where mf: "mf = (m, f)" by (cases mf)
  obtain b s1 where o: "Batch_open s = (b, s1)" by fastforce
  have s1: "s1 = s" using block_inner(1) [OF 5(5) [unfolded mf] o 5(5) [unfolded mf]] by simp
  obtain rs1 m1 f1 where sp1: "spec_block body (m, f) = (rs1, m1, f1)" by (cases "spec_block body (m, f)") auto
  obtain rs2 where sp2: "spec_block ts (if commit \<and> \<not> f1 then (m1, f1) else (m, f)) = (rs2, mf')"
    and rs: "rs = rs1 @ (if commit then [RBool (\<not> f1)] else []) @ rs2"
    using 5(7) by (auto simp: mf sp1 Let_def split: prod.split_asm)
  have nb: "names_in N body" "names_in N ts" using 5(6) by simp_all
  obtain s2 where b2: "run_block A K db body s = Inr (rs1, s2)" "same_store s s2" "block_rel N (durable A s key db) s2 (m1, f1)"
    using 5(1) [OF o [symmetric] HOL.refl, unfolded s1, OF 5(4) 5(5) [unfolded mf] nb(1) sp1] by blast
  note inner = block_inner [OF 5(5) [unfolded mf] o b2(3,2)]
  show ?case
  proof (cases commit)
    case True
    obtain b' s3 where c: "Batch_Commit A K (\<lambda>_. None) WriteLost b s2 db = (Inr (\<not> f1), b', s3, db)" "Batch_close b' s3 = s3" "same_store s s3"
      "block_rel N (durable A s key db) s3 (if f1 then (m, f) else (m1, f1))" using inner(2) [of A K "\<lambda>_. None" WriteLost db] by blast
    note eqs = same_store_functions [OF c(3)]
    have "\<exists>s'. run_block A K db ts s3 = Inr (rs2, s') \<and> same_store s3 s' \<and> block_rel N (durable A s3 key db) s' mf'"
      using 5(2) [OF o [symmetric] HOL.refl True c(1) [symmetric] HOL.refl HOL.refl HOL.refl, unfolded c(2)] 5(4) c(4) nb(2) sp2 True eqs
      by (auto split: if_split_asm)
    then obtain s' where "run_block A K db ts s3 = Inr (rs2, s')" "same_store s3 s'" "block_rel N (durable A s key db) s' mf'" using eqs by auto
    then show ?thesis using True o s1 b2(1) c(1,2,3) rs same_store_trans by auto
  next
    case False
    note eqs = same_store_functions [OF inner(3)]
    have "spec_block ts (m, f) = (rs2, mf')" using sp2 False by simp
    then obtain s' where "run_block A K db ts (Batch_close b s2) = Inr (rs2, s')" "same_store (Batch_close b s2) s'"
      "block_rel N (durable A s key db) s' mf'"
      using 5(3) [OF o [symmetric] HOL.refl False, of s2, unfolded eqs, OF 5(4) inner(4) nb(2)] by blast
    then show ?thesis using False o s1 b2(1) inner(3) rs same_store_trans by auto
  qed
qed

section \<open>The outermost commit\<close>

declare length_HexEncode [simp]

lemma row_key_inj: "row_key x = row_key y \<longleftrightarrow> x = y"
  using FromHex_GetHex by (metis row_key_def option.inject same_append_eq)

lemma row_key_ok: "key_ok (row_key x)" "key_ok (access_key x)" "row_key x \<noteq> access_key y" "access_key y \<noteq> row_key x"
  by (simp_all add: key_ok_def row_key_def access_key_def ROW_DB_PREFIX_def GetHex_def MAX_LOCAL_RECORD_def)

lemma batch_apply_other: "k \<notin> fst ` set batch \<Longrightarrow> batch_apply batch d k = d k"
  by (induction batch rule: rev_induct) (auto simp: batch_apply_snoc, simp add: batch_apply_def)

definition with_data :: "KVStore \<Rightarrow> (bytes \<Rightarrow> bytes option) \<Rightarrow> KVStore" where
  "with_data db d = db \<lparr> kv_data := d \<rparr>"

lemma batch_apply_nil: "batch_apply [] d = d" by (simp add: batch_apply_def)

lemma with_data_same: "with_data db (kv_data db) = db" by (simp add: with_data_def)

lemma durable_update:
  assumes "store_ready A K N key s db" "n \<in> N" "m \<in> N"
  shows "durable A s key (with_data db (d(EncodeString (row_key (row_of A (ps_account s) key n)) := None))) m
      = (if m = n then None else durable A s key (with_data db d) m)"
    "Encrypt A s nonce key n v = Some e \<Longrightarrow> durable A s key (with_data db (d(EncodeString (row_key (row_of A (ps_account s) key n)) := Some (EncodeBytes e)))) m
      = (if m = n then Some v else durable A s key (with_data db d) m)"
proof -
  note r = store_readyD [OF assms(1)]
  have k: "row_of A (ps_account s) key n = row_of A (ps_account s) key m \<longleftrightarrow> m = n" using r(2) assms(2,3) by (auto dest: inj_onD)
  have k': "row_of A (ps_account s) key m = row_of A (ps_account s) key n \<longleftrightarrow> m = n" using k by auto
  show "durable A s key (with_data db (d(EncodeString (row_key (row_of A (ps_account s) key n)) := None))) m
      = (if m = n then None else durable A s key (with_data db d) m)"
    by (simp add: durable_def stored_def with_data_def EncodeString_inj row_key_ok row_key_inj k k')
  assume e: "Encrypt A s nonce key n v = Some e"
  obtain x c where c: "nonce = Some x" "aead_encrypt A key x (AssociatedData (ps_account s) n) v = Some c" "e = be_bytes 12 x @ c" "length v \<le> MAX_VALUE_BYTES"
    using e by (auto simp: Encrypt_def split: if_split_asm option.split_asm)
  have l: "length c = length v + 16" using r(6) [OF assms(2) c(2)] .
  have "Decrypt A s key n e = Some v" using r(7) [OF assms(2) c(2)] c(3,4) l by (simp add: Decrypt_def be_word_be_bytes)
  moreover have "DecodeBytes (EncodeBytes e) = Some e"
    by (rule bytes_record.dec_enc) (use c(3,4) l in \<open>simp add: MAX_LOCAL_RECORD_def MAX_VALUE_BYTES_def\<close>)
  ultimately show "durable A s key (with_data db (d(EncodeString (row_key (row_of A (ps_account s) key n)) := Some (EncodeBytes e)))) m
      = (if m = n then Some v else durable A s key (with_data db d) m)"
    by (simp add: durable_def stored_def with_data_def EncodeString_inj row_key_ok row_key_inj k k')
qed

lemma build_batch_durable:
  assumes "store_ready A K N key s db"
  shows "build_batch A s key nonces changes batch = Some batch' \<Longrightarrow> \<forall>(n, v)\<in>set changes. n \<in> N \<Longrightarrow> distinct (map fst changes) \<Longrightarrow> m \<in> N \<Longrightarrow>
    durable A s key (with_data db (batch_apply batch' d)) m
      = (case map_of changes m of Some v \<Rightarrow> v | None \<Rightarrow> durable A s key (with_data db (batch_apply batch d)) m)"
  using assms
proof (induction A s key nonces changes batch rule: build_batch.induct)
  case (2 A s key nonces n v changes batch)
  note r = store_readyD [OF 2(7)]
  have n: "n \<in> N" "\<forall>(n, v)\<in>set changes. n \<in> N" "n \<notin> fst ` set changes" "distinct (map fst changes)" using 2(4,5) by auto
  have none: "map_of changes n = None" using n(3) by (simp add: map_of_eq_None_iff)
  let ?k = "row_key (row_of A (ps_account s) key n)"
  show ?case
  proof (cases v)
    case None
    have b: "build_batch A s key nonces changes (batch_Erase ?k batch) = Some batch'" using 2(3) r(4) [OF n(1)] None by simp
    note ih = 2(1) [OF r(4) [OF n(1)] None b n(2,4) 2(6,7)]
    show ?thesis using ih none durable_update(1) [OF 2(7) n(1) 2(6)] None
      by (auto simp: batch_Erase_def batch_apply_snoc split: option.split)
  next
    case (Some x)
    obtain e where e: "Encrypt A s (nonces 0) key n x = Some e"
      and b: "build_batch A s key (\<lambda>i. nonces (Suc i)) changes (batch_Write ?k e batch) = Some batch'"
      using 2(3) r(4) [OF n(1)] Some by (auto split: option.split_asm)
    note ih = 2(2) [OF r(4) [OF n(1)] Some e b n(2,4) 2(6,7)]
    show ?thesis using ih none durable_update(2) [OF 2(7) n(1) 2(6) e] Some
      by (auto simp: batch_Write_def batch_apply_snoc split: option.split)
  qed
qed simp

lemma same_build: "same_store s s' \<Longrightarrow> build_batch A s' key nonces changes batch = build_batch A s key nonces changes batch"
proof (induction changes arbitrary: nonces batch)
  case (Cons nv changes)
  obtain n v where nv: "nv = (n, v)" by (cases nv)
  show ?case unfolding nv build_batch.simps Cons.IH [OF Cons.prems] same_store_functions(3,4) [OF Cons.prems] ..
qed simp

lemma build_batch_keys:
  "build_batch A s key nonces changes batch = Some batch' \<Longrightarrow> fst ` set batch' \<subseteq> fst ` set batch \<union> (\<lambda>x. EncodeString (row_key x)) ` UNIV"
proof (induction A s key nonces changes batch rule: build_batch.induct)
  case (2 A s key nonces n v changes batch)
  obtain rk where rk: "RecordKey A s key n = Some rk" using 2(3) by (auto split: option.split_asm)
  obtain x where x: "rk = row_key x" using rk by (auto simp: RecordKey_def row_key_def GetHex_def split: if_split_asm)
  show ?case
  proof (cases v)
    case None
    then show ?thesis using 2(1) [OF rk None] 2(3) rk x by (auto simp: batch_Erase_def)
  next
    case (Some y)
    then show ?thesis using 2(2) [OF rk Some] 2(3) rk x by (auto simp: batch_Write_def split: option.split_asm)
  qed
qed simp

lemma build_batch_total:
  assumes "store_ready A K N key s db" "staged_ok N changes"
    and "\<forall>i. nonces i \<noteq> None"
    and "\<forall>nonce n v. n \<in> N \<longrightarrow> length v \<le> MAX_VALUE_BYTES \<longrightarrow> aead_encrypt A key nonce (AssociatedData (ps_account s) n) v \<noteq> None"
  shows "build_batch A s key nonces changes batch \<noteq> None"
proof -
  have c: "\<forall>(n, v)\<in>set changes. n \<in> N \<and> (\<forall>x. v = Some x \<longrightarrow> length x \<le> MAX_VALUE_BYTES)" using assms(2) by (simp add: staged_ok_def)
  show ?thesis using c assms(3)
  proof (induction changes arbitrary: nonces batch)
    case (Cons nv changes)
    obtain n v where nv: "nv = (n, v)" by (cases nv)
    have n: "n \<in> N" and c': "\<forall>(n, v)\<in>set changes. n \<in> N \<and> (\<forall>x. v = Some x \<longrightarrow> length x \<le> MAX_VALUE_BYTES)" using Cons(2) nv by auto
    note rk = store_readyD(4) [OF assms(1) n]
    show ?case
    proof (cases v)
      case None
      then show ?thesis using Cons.IH [OF c' Cons(3)] rk nv by simp
    next
      case (Some y)
      obtain z where z: "nonces 0 = Some z" using Cons(3) by blast
      have "length y \<le> MAX_VALUE_BYTES" using Cons(2) Some nv by simp
      then obtain e where "Encrypt A s (nonces 0) key n y = Some e" using assms(4) n z by (fastforce simp: Encrypt_def)
      then show ?thesis using Cons.IH [OF c', of "\<lambda>i. nonces (Suc i)"] Cons(3) rk nv Some by simp
    qed
  qed simp
qed

text \<open>Writing rows leaves the access records, and so the key, as they are.\<close>

lemma AccessKey_rows:
  assumes "fst ` set batch \<subseteq> (\<lambda>x. EncodeString (row_key x)) ` UNIV"
  shows "AccessKey A K (db \<lparr> kv_data := batch_apply batch (kv_data db) \<rparr>) s = AccessKey A K db s"
proof -
  have "EncodeString (access_key y) \<notin> fst ` set batch" for y using assms by (auto simp: EncodeString_inj row_key_ok dest!: subsetD)
  then have "KV_Read (db \<lparr> kv_data := batch_apply batch (kv_data db) \<rparr>) (access_key y) = KV_Read db (access_key y)" for y
    by (simp add: KV_Read_def ReadRaw_def batch_apply_other)
  then have "UnwrapKey A s (db \<lparr> kv_data := batch_apply batch (kv_data db) \<rparr>) k = UnwrapKey A s db k" for k
    unfolding UnwrapKey_def by presburger
  then show ?thesis unfolding AccessKey_def by presburger
qed

lemma store_ready_rows:
  assumes "store_ready A K N key s db" "build_batch A s key nonces changes [] = Some batch"
  shows "store_ready A K N key s (db \<lparr> kv_data := batch_apply batch (kv_data db) \<rparr>)"
  using assms(1) AccessKey_rows [of batch A K db s] build_batch_keys [OF assms(2)] by (simp add: store_ready_def)

lemma staged_distinct: "staged_ok N st \<Longrightarrow> distinct (map fst st)" "staged_ok N st \<Longrightarrow> \<forall>(n, v)\<in>set st. n \<in> N"
  by (auto simp: staged_ok_def dest: omap_wf_distinct)

lemma WriteChanges_effect:
  assumes ready: "store_ready A K N key s db" and st: "staged_ok N changes"
  shows "\<exists>ok db'. WriteChanges A K nonces w changes s db = Inr (ok, db') \<and> store_ready A K N key s db'
    \<and> (ok \<longrightarrow> w = WriteOk) \<and> (db' = db \<or> (\<forall>n\<in>N. durable A s key db' n = overlay changes (durable A s key db) n)) \<and> (\<not> ok \<longrightarrow> w \<noteq> WriteApplied \<longrightarrow> db' = db)
    \<and> (ok \<longrightarrow> (\<forall>n\<in>N. durable A s key db' n = overlay changes (durable A s key db) n))
    \<and> (build_batch A s key nonces changes [] \<noteq> None \<longrightarrow> w = WriteOk \<longrightarrow> ok)"
proof (cases "build_batch A s key nonces changes []")
  case None
  then show ?thesis using ready store_readyD(1) [OF ready] by (intro exI [of _ False] exI [of _ db]) (simp add: WriteChanges_def)
next
  case (Some batch)
  let ?db = "db \<lparr> kv_data := batch_apply batch (kv_data db) \<rparr>"
  have d: "durable A s key ?db n = overlay changes (durable A s key db) n" if "n \<in> N" for n
    using build_batch_durable [OF ready Some staged_distinct(2,1) [OF st] that, of "kv_data db"]
    unfolding batch_apply_nil with_data_same unfolding with_data_def overlay_def map_find_def .
  have r: "store_ready A K N key s ?db" by (rule store_ready_rows [OF ready Some])
  have wc: "WriteChanges A K nonces w changes s db = Inr (w = WriteOk, if w = WriteLost then db else ?db)"
    using store_readyD(1) [OF ready] Some by (cases w) (simp_all add: WriteChanges_def WriteBatch_def Let_def)
  show ?thesis unfolding wc using d r ready by (intro exI [of _ "w = WriteOk"] exI [of _ "if w = WriteLost then db else ?db"]) (cases w, auto)
qed

text \<open>Opening, committing and closing an outermost batch.\<close>

lemma outer_open:
  assumes "ps_staged s = None" "Batch_open s = (b, s1)"
  shows "same_store s s1" "b_outermost b \<and> \<not> b_done b" "block_rel N d s1 (d, False)"
  using assms by (auto simp: Batch_open_def block_rel_def staged_ok_def overlay_def)

lemma outer_commit:
  assumes ready: "store_ready A K N key s db" and b: "b_outermost b \<and> \<not> b_done b"
    and rel: "block_rel N (durable A s key db) s2 (contents, refused)" and same: "same_store s s2"
  shows "\<exists>ok b' s' db'. Batch_Commit A K nonces w b s2 db = (Inr ok, b', s', db') \<and> Batch_close b' s' = s'
    \<and> ps_staged s' = None \<and> same_store s s' \<and> store_ready A K N key s' db'
    \<and> (ok \<longrightarrow> \<not> refused \<and> (\<forall>n\<in>N. durable A s' key db' n = contents n))
    \<and> (\<not> ok \<and> w \<noteq> WriteApplied \<longrightarrow> db' = db)
    \<and> (db' = db \<or> (\<forall>n\<in>N. durable A s' key db' n = contents n))
    \<and> (\<not> refused \<and> w = WriteOk \<and> (\<forall>i. nonces i \<noteq> None)
        \<and> (\<forall>nonce n v. n \<in> N \<longrightarrow> length v \<le> MAX_VALUE_BYTES \<longrightarrow> aead_encrypt A key nonce (AssociatedData (ps_account s) n) v \<noteq> None) \<longrightarrow> ok)"
proof -
  obtain st where st: "ps_staged s2 = Some st" "staged_ok N st" "\<forall>n\<in>N. overlay st (durable A s key db) n = contents n" "ps_staged_failed s2 = refused"
    using rel by (auto simp: block_rel_def)
  let ?s3 = "s2 \<lparr> ps_staged := None \<rparr>"
  have same3: "same_store s ?s3" using same by (simp add: same_store_def)
  note eqs3 = same_store_functions [OF same3]
  obtain ok db' where w: "WriteChanges A K nonces w st ?s3 db = Inr (ok, db')" "store_ready A K N key s db'" "ok \<longrightarrow> w = WriteOk"
    "db' = db \<or> (\<forall>n\<in>N. durable A s key db' n = contents n)" "\<not> ok \<longrightarrow> w \<noteq> WriteApplied \<longrightarrow> db' = db"
    "ok \<longrightarrow> (\<forall>n\<in>N. durable A s key db' n = contents n)" "build_batch A s key nonces st [] \<noteq> None \<longrightarrow> w = WriteOk \<longrightarrow> ok"
  proof -
    obtain ok db' where x: "WriteChanges A K nonces w st ?s3 db = Inr (ok, db')" "store_ready A K N key s db'" "ok \<longrightarrow> w = WriteOk"
      "db' = db \<or> (\<forall>n\<in>N. durable A s key db' n = overlay st (durable A s key db) n)" "\<not> ok \<longrightarrow> w \<noteq> WriteApplied \<longrightarrow> db' = db"
      "ok \<longrightarrow> (\<forall>n\<in>N. durable A s key db' n = overlay st (durable A s key db) n)" "build_batch A ?s3 key nonces st [] \<noteq> None \<longrightarrow> w = WriteOk \<longrightarrow> ok"
      using WriteChanges_effect [OF eqs3(6) [THEN iffD2, OF ready] st(2), of nonces w] unfolding eqs3(5,6) by blast
    show thesis by (rule that [of ok db']) (use x st(3) same_build [OF same3, of A key nonces st "[]"] in auto)
  qed
  show ?thesis
  proof (cases refused)
    case True
    then have "Batch_Commit A K nonces w b s2 db = (Inr False, b \<lparr> b_done := True \<rparr>, ?s3, db)"
      using st b by (simp add: Batch_Commit_def Let_def)
    moreover have "Batch_close (b \<lparr> b_done := True \<rparr>) ?s3 = ?s3" by (simp add: Batch_close_def)
    ultimately show ?thesis using True ready eqs3(6) same3
      by (intro exI [of _ False] exI [of _ "b \<lparr> b_done := True \<rparr>"] exI [of _ ?s3] exI [of _ db]) simp
  next
    case False
    then have t: "Batch_Commit A K nonces w b s2 db = (Inr ok, b \<lparr> b_done := True \<rparr>, ?s3, db')"
      using st b w(1) by (simp add: Batch_Commit_def Let_def)
    have "build_batch A s key nonces st [] \<noteq> None" if "\<forall>i. nonces i \<noteq> None"
      "\<forall>nonce n v. n \<in> N \<longrightarrow> length v \<le> MAX_VALUE_BYTES \<longrightarrow> aead_encrypt A key nonce (AssociatedData (ps_account s) n) v \<noteq> None"
      by (rule build_batch_total [OF ready st(2) that])
    moreover have "Batch_close (b \<lparr> b_done := True \<rparr>) ?s3 = ?s3" by (simp add: Batch_close_def)
    ultimately show ?thesis using False t w eqs3(5,6) same3
      by (intro exI [of _ ok] exI [of _ "b \<lparr> b_done := True \<rparr>"] exI [of _ ?s3] exI [of _ db']) auto
  qed
qed

text \<open>C22. Transactions of the encrypted store refine updates of a plain map. Let the key be accessible, the names of the set \<open>N\<close> have distinct keyed digests, the
  AEAD open what it seals, and run any script of \<^verbatim>\<open>Put\<close>, \<^verbatim>\<open>Erase\<close>, \<^verbatim>\<open>Get\<close> and nested blocks on these names inside an outermost batch that is committed. Then
  every reply, also of the reads and of the inner commits, is the one the abstract machine gives, where an inner block that is abandoned or contains a refused value
  leaves no trace; if the commit succeeds the contents are those of the abstract machine; if it fails and the database did not apply the batch behind its
  report, the database is untouched, and in any case the contents are either the old or the new ones; and the commit succeeds when no value was refused, random
  bytes, encryption and the write succeed. The store is closed and ready afterwards.
\<close>

theorem private_store_refines_map:
  assumes ready: "store_ready A K N key s db" and idle: "ps_staged s = None" and names: "names_in N body"
    and spec: "spec_block body (durable A s key db, False) = (replies, contents, refused)"
  shows "\<exists>ok s' db'. transact A K nonces w body s db = (Inr (replies, ok), s', db') \<and> ps_staged s' = None \<and> store_ready A K N key s' db'
    \<and> (ok \<longrightarrow> \<not> refused \<and> (\<forall>n\<in>N. durable A s' key db' n = contents n))
    \<and> (\<not> ok \<and> w \<noteq> WriteApplied \<longrightarrow> db' = db)
    \<and> (db' = db \<or> (\<forall>n\<in>N. durable A s' key db' n = contents n))
    \<and> (\<not> refused \<and> w = WriteOk \<and> (\<forall>i. nonces i \<noteq> None)
        \<and> (\<forall>nonce n v. n \<in> N \<longrightarrow> length v \<le> MAX_VALUE_BYTES \<longrightarrow> aead_encrypt A key nonce (AssociatedData (ps_account s) n) v \<noteq> None) \<longrightarrow> ok)"
proof -
  obtain b s1 where o: "Batch_open s = (b, s1)" by fastforce
  note open1 = outer_open [OF idle o]
  note eqs1 = same_store_functions [OF open1(1)]
  have rel: "block_rel N (durable A s1 key db) s1 (durable A s key db, False)" unfolding eqs1(5) by (rule open1(3))
  obtain s2 where s2: "run_block A K db body s1 = Inr (replies, s2)" "same_store s1 s2" "block_rel N (durable A s key db) s2 (contents, refused)"
    using run_block_refines [OF eqs1(6) [THEN iffD2, OF ready] rel names spec] unfolding eqs1(5) by blast
  have same: "same_store s s2" by (rule same_store_trans [OF open1(1) s2(2)])
  from outer_commit [OF ready open1(2) s2(3) same, of nonces w] obtain ok b' s' db' where
    c: "Batch_Commit A K nonces w b s2 db = (Inr ok, b', s', db')" "Batch_close b' s' = s'" and rest:
    "ps_staged s' = None" "store_ready A K N key s' db'" "ok \<longrightarrow> \<not> refused \<and> (\<forall>n\<in>N. durable A s' key db' n = contents n)"
    "\<not> ok \<and> w \<noteq> WriteApplied \<longrightarrow> db' = db" "db' = db \<or> (\<forall>n\<in>N. durable A s' key db' n = contents n)"
    "\<not> refused \<and> w = WriteOk \<and> (\<forall>i. nonces i \<noteq> None)
        \<and> (\<forall>nonce n v. n \<in> N \<longrightarrow> length v \<le> MAX_VALUE_BYTES \<longrightarrow> aead_encrypt A key nonce (AssociatedData (ps_account s) n) v \<noteq> None) \<longrightarrow> ok" by blast
  have "transact A K nonces w body s db = (Inr (replies, ok), s', db')" using o s2(1) c by (simp add: transact_def)
  then show ?thesis using rest by blast
qed

definition toy_sealing :: sealing where
  "toy_sealing = \<lparr> hmac_sha256 = (\<lambda>key bs. Some (of_nat (length bs))), aead_encrypt = (\<lambda>key nonce aad v. Some (v @ replicate 16 0)),
     aead_decrypt = (\<lambda>key nonce aad c. Some (take (length c - 16) c)) \<rparr>"

definition toy_keystore :: keystore where
  "toy_keystore = \<lparr> ks_account = Some 7, ks_application_key = Some 9 \<rparr>"

definition toy_store :: PrivateApplicationStore where
  "toy_store = \<lparr> ps_account = 7, ps_key_check = of_nat (length (str KEY_CHECK_DOMAIN)), ps_preserve_data_key = False, ps_staged = None, ps_staged_failed = False \<rparr>"

definition toy_db :: KVStore where
  "toy_db = \<lparr> kv_data = (\<lambda>_. None), kv_unreadable = (\<lambda>_. False) \<rparr>"

lemma toy_ready: "store_ready toy_sealing toy_keystore {''a'', ''bb''} 9 toy_store toy_db"
  by (simp add: store_ready_def AccessKey_def toy_sealing_def toy_keystore_def toy_store_def toy_db_def valid_name_def MAX_NAME_BYTES_def CHECK_NAME_def
      row_of_def AssociatedData_def RECORD_DOMAIN_def inj_on_def str_def)

theorem private_store_refines_map_witness:
  "\<exists>s' db'. transact toy_sealing toy_keystore (\<lambda>_. Some 0) WriteOk
       [TPut ''a'' [1], TBlock False [TPut ''bb'' [2]], TBlock True [TPut ''bb'' [3], TGet ''bb''], TGet ''a''] toy_store toy_db
     = (Inr ([RBool True, RBool True, RBool True, RBytes (Some [3]), RBool True, RBytes (Some [1])], True), s', db')
     \<and> durable toy_sealing s' 9 db' ''bb'' = Some [3] \<and> durable toy_sealing s' 9 db' ''a'' = Some [1]"
proof -
  let ?body = "[TPut ''a'' [1], TBlock False [TPut ''bb'' [2]], TBlock True [TPut ''bb'' [3], TGet ''bb''], TGet ''a'']"
  let ?d = "durable toy_sealing toy_store 9 toy_db"
  have v: "valid_name ''a''" "valid_name ''bb''" by (simp_all add: valid_name_def MAX_NAME_BYTES_def CHECK_NAME_def)
  have idle: "ps_staged toy_store = None" by (simp add: toy_store_def)
  have names: "names_in {''a'', ''bb''} ?body" by simp
  have spec: "spec_block ?body (?d, False)
      = ([RBool True, RBool True, RBool True, RBytes (Some [3]), RBool True, RBytes (Some [1])], ?d(''a'' \<mapsto> [1], ''bb'' \<mapsto> [3]), False)"
    by (simp add: v MAX_VALUE_BYTES_def)
  have e: "\<forall>nonce n v. n \<in> {''a'', ''bb''} \<longrightarrow> length v \<le> MAX_VALUE_BYTES \<longrightarrow> aead_encrypt toy_sealing 9 nonce (AssociatedData (ps_account toy_store) n) v \<noteq> None"
    by (simp add: toy_sealing_def)
  obtain ok s' db' where t: "transact toy_sealing toy_keystore (\<lambda>_. Some 0) WriteOk ?body toy_store toy_db
      = (Inr ([RBool True, RBool True, RBool True, RBytes (Some [3]), RBool True, RBytes (Some [1])], ok), s', db')"
    "ok \<longrightarrow> (\<forall>n\<in>{''a'', ''bb''}. durable toy_sealing s' 9 db' n = (?d(''a'' \<mapsto> [1], ''bb'' \<mapsto> [3])) n)" "ok"
    using private_store_refines_map [OF toy_ready idle names spec, of "\<lambda>_. Some 0" WriteOk] e by auto
  then show ?thesis by auto
qed

text \<open>With a retained data key the key is read from the database outside the handlers of exceptions, so a read error leaves \<^verbatim>\<open>Put\<close> and \<^verbatim>\<open>Get\<close> as an exception.\<close>

lemma access_error_escapes:
  assumes "ps_preserve_data_key s" "ks_account K = Some (ps_account s)" "ks_application_key K = Some k" "hmac_sha256 A k (str KEY_CHECK_DOMAIN) = Some digest"
    and "kv_unreadable db (EncodeString (access_key digest))" and "ps_staged s = None"
  shows "Put A K nonce w name v s db = Inl runtime_error" "Get A K db s name = Inl runtime_error" "Has A K db s name = Inl runtime_error"
proof -
  have "AccessKey A K db s = Inl runtime_error" using assms by (simp add: AccessKey_def UnwrapKey_def KV_Read_def ReadRaw_def)
  then show "Put A K nonce w name v s db = Inl runtime_error" "Get A K db s name = Inl runtime_error" "Has A K db s name = Inl runtime_error"
    using assms(6) by (simp_all add: Put_def Get_def Has_def)
qed

end
