(* ===== verification/AssignmentEvidence.thy ===== *)
theory AssignmentEvidence
  imports PrivateStore Assignment StateStore
begin

text \<open>
  Frozen assignments and the evidence of service (\<^verbatim>\<open>storage_assignment.cpp\<close>, \<^verbatim>\<open>storage_assignment_evidence.h/.cpp\<close>) as records of the
  private application store. Every call opens its own \<^verbatim>\<open>Batch\<close>, so it runs on the store that \<open>Batch_open\<close> gives. An exception leaves the
  database as it was. Shown: a frozen plan is immutable and is what later calls load; the journals only ever contain disjoint intervals
  inside their periods, so that the seconds counted are exact and bounded by the elapsed term.
\<close>

section \<open>Frozen plans\<close>

definition Assignment_Key :: "crypto \<Rightarrow> StorageAssignmentContext \<Rightarrow> exn + string" where
  "Assignment_Key C c = bindE (Assignment_Digest C ''CYBOU/STORAGE-ASSIGNMENT-KEY''
       (hash_bytes (ctx_network_binding c) @ hash_bytes (ctx_publication c) @ hash_bytes (ctx_chunk c) @ le_bytes 8 (ctx_epoch c)
        @ le_bytes 8 (ctx_term_start c) @ le_bytes 8 (ctx_term_end c)))
     (\<lambda>digest. Inr (''storage/assignment/'' @ GetHex digest))"

text \<open>The handlers that turn \<^verbatim>\<open>invalid_argument\<close> and \<^verbatim>\<open>length_error\<close> into \<^verbatim>\<open>nullopt\<close>.\<close>

definition catch_codec :: "exn + 'a option \<Rightarrow> exn + 'a option" where
  "catch_codec m = (case m of Inl e \<Rightarrow> if e = invalid_argument \<or> e = length_error then Inr None else Inl e | Inr r \<Rightarrow> Inr r)"

definition CODEC_LIMIT :: nat where "CODEC_LIMIT = 256 * 1024"

definition FreezeStorageAssignment ::
  "crypto \<Rightarrow> sealing \<Rightarrow> keystore \<Rightarrow> (nat \<Rightarrow> 96 word option) \<Rightarrow> write_outcome \<Rightarrow> StorageAssignmentPlan \<Rightarrow> PrivateApplicationStore \<Rightarrow> KVStore
   \<Rightarrow> exn + bool \<times> PrivateApplicationStore \<times> KVStore" where
  "FreezeStorageAssignment C A K nonces w plan s db =
     bindE (PrepareStorageAssignment C (plan_context plan) (plan_eligible plan)) (\<lambda>expected.
       if expected \<noteq> Some plan then Inr (False, s, db)
       else let (b, s1) = Batch_open s in
         bindE (Assignment_Key C (plan_context plan)) (\<lambda>key. let encoded = Plan_Encode plan True in
         bindE (Get A K db s1 key) (\<lambda>prior. case prior of Some p \<Rightarrow> Inr (p = encoded, Batch_close b s1, db)
           | None \<Rightarrow> bindE (Has A K db s1 key) (\<lambda>has.
             if has then Inr (False, Batch_close b s1, db)
             else bindE (Put A K None WriteLost key encoded s1 db) (\<lambda>(put, s2, db2).
               if \<not> put then Inr (False, Batch_close b s2, db2)
               else let (r, b', s3, db3) = Batch_Commit A K nonces w b s2 db2 in bindE r (\<lambda>ok. Inr (ok, Batch_close b' s3, db3)))))))"

definition reader_provider :: "bytes \<Rightarrow> exn + StorageAssignmentProvider \<times> bytes" where
  "reader_provider bs = bindE (reader_Array 32 bs) (\<lambda>(i, bs). bindE (reader_Array 32 bs) (\<lambda>(a, bs).
     Inr (\<lparr> prov_storage_id = i, prov_payout_account = a \<rparr>, bs)))"

fun reader_many :: "(bytes \<Rightarrow> exn + 'a \<times> bytes) \<Rightarrow> nat \<Rightarrow> bytes \<Rightarrow> exn + 'a list \<times> bytes" where
  "reader_many rd 0 bs = Inr ([], bs)"
| "reader_many rd (Suc n) bs = bindE (rd bs) (\<lambda>(x, bs). bindE (reader_many rd n bs) (\<lambda>(xs, bs). Inr (x # xs, bs)))"

definition reader_providers :: "nat \<Rightarrow> bytes \<Rightarrow> exn + StorageAssignmentProvider list \<times> bytes" where
  "reader_providers maximum bs = bindE (reader_U32 bs) (\<lambda>(count, bs).
     if unat count > maximum then Inl length_error else reader_many reader_provider (unat count) bs)"

definition reader_context :: "bytes \<Rightarrow> exn + StorageAssignmentContext \<times> bytes" where
  "reader_context bs =
     bindE (reader_Array 32 bs) (\<lambda>(nb, bs). bindE (reader_Array 32 bs) (\<lambda>(pub, bs). bindE (reader_Array 32 bs) (\<lambda>(chunk, bs).
     bindE (reader_Array 32 bs) (\<lambda>(seed, bs). bindE (reader_Array 32 bs) (\<lambda>(payer, bs). bindE (reader_U64 bs) (\<lambda>(epoch, bs).
     bindE (reader_U64 bs) (\<lambda>(ts, bs). bindE (reader_U64 bs) (\<lambda>(te, bs). bindE (reader_U8 bs) (\<lambda>(replicas, bs).
       Inr (\<lparr> ctx_network_binding = nb, ctx_publication = pub, ctx_chunk = chunk, ctx_finalized_seed = seed, ctx_payer = payer, ctx_epoch = epoch,
         ctx_term_start = ts, ctx_term_end = te, ctx_replicas = replicas \<rparr>, bs))))))))))"

definition read_plan :: "crypto \<Rightarrow> StorageAssignmentContext \<Rightarrow> bytes \<Rightarrow> exn + StorageAssignmentPlan option" where
  "read_plan C context bytes =
     bindE (reader_open CODEC_LIMIT bytes) (\<lambda>bs. bindE (reader_context bs) (\<lambda>(c, bs).
       if c \<noteq> context then Inr None
       else bindE (reader_providers MAX_STORAGE_ASSIGNMENT_CANDIDATES bs) (\<lambda>(eligible, bs).
         bindE (reader_providers 2 bs) (\<lambda>(selected, bs). bindE (reader_Finish bs) (\<lambda>_.
         bindE (PrepareStorageAssignment C c eligible) (\<lambda>plan. case plan of None \<Rightarrow> Inr None
           | Some p \<Rightarrow> if plan_selected p \<noteq> selected \<or> Plan_Encode p True \<noteq> bytes then Inr None else Inr (Some p)))))))"

definition LoadStorageAssignment ::
  "crypto \<Rightarrow> sealing \<Rightarrow> keystore \<Rightarrow> StorageAssignmentContext \<Rightarrow> PrivateApplicationStore \<Rightarrow> KVStore \<Rightarrow> exn + StorageAssignmentPlan option" where
  "LoadStorageAssignment C A K context s db =
     bindE (Assignment_Key C context) (\<lambda>key. bindE (Get A K db s key) (\<lambda>bytes. case bytes of None \<Rightarrow> Inr None
       | Some bs \<Rightarrow> catch_codec (read_plan C context bs)))"

section \<open>Evidence\<close>

definition MAX_STORAGE_ASSIGNMENT_INTERVALS :: nat where "MAX_STORAGE_ASSIGNMENT_INTERVALS = 4096"

record StorageAssignmentInterval =
  iv_period :: u64
  iv_start_utc :: u64
  iv_end_utc :: u64
  iv_proof_commitment :: "256 word"

record StorageAssignmentEvidenceScope =
  sc_assignment :: StorageAssignmentPlan
  sc_replica_slot :: u8
  sc_term_start_utc :: u64
  sc_period_seconds :: u64

datatype StorageEvidenceAppendResult = ADDED | DUPLICATE | REJECTED

record StorageFundedSlotClaim =
  cl_assignment :: "256 word"
  cl_interval :: StorageAssignmentInterval

abbreviation sc_context :: "StorageAssignmentEvidenceScope \<Rightarrow> StorageAssignmentContext" where
  "sc_context sc \<equiv> plan_context (sc_assignment sc)"

definition scope_arithmetic :: "StorageAssignmentEvidenceScope \<Rightarrow> bool" where
  "scope_arithmetic sc \<longleftrightarrow> (let c = sc_context sc; periods = ctx_term_end c - ctx_term_start c in
     \<not> (ctx_term_end c \<le> ctx_term_start c \<or> sc_term_start_utc sc = 0 \<or> sc_period_seconds sc = 0
        \<or> unat (sc_replica_slot sc) \<ge> length (plan_selected (sc_assignment sc))
        \<or> periods > (U64_MAX - sc_term_start_utc sc) div sc_period_seconds sc))"

definition ScopeValid ::
  "crypto \<Rightarrow> sealing \<Rightarrow> keystore \<Rightarrow> StorageAssignmentEvidenceScope \<Rightarrow> PrivateApplicationStore \<Rightarrow> KVStore \<Rightarrow> exn + bool" where
  "ScopeValid C A K sc s db =
     (if \<not> scope_arithmetic sc then Inr False
      else bindE (IsUnlocked A K db s) (\<lambda>unlocked.
        if \<not> unlocked then Inr False
        else bindE (LoadStorageAssignment C A K (sc_context sc) s db) (\<lambda>plan. Inr (plan = Some (sc_assignment sc)))))"

definition Evidence_Key :: "StorageAssignmentEvidenceScope \<Rightarrow> string" where
  "Evidence_Key sc = ''storage/assignment-evidence/'' @ GetHex (plan_commitment (sc_assignment sc)) @ ''/'' @ to_string (unat (sc_replica_slot sc))"

definition period_start :: "StorageAssignmentEvidenceScope \<Rightarrow> u64 \<Rightarrow> u64" where
  "period_start sc period = sc_term_start_utc sc + (period - ctx_term_start (sc_context sc)) * sc_period_seconds sc"

definition IntervalValid :: "StorageAssignmentEvidenceScope \<Rightarrow> StorageAssignmentInterval \<Rightarrow> bool" where
  "IntervalValid sc iv \<longleftrightarrow>
     \<not> (iv_period iv < ctx_term_start (sc_context sc) \<or> iv_period iv \<ge> ctx_term_end (sc_context sc)
        \<or> iv_end_utc iv \<le> iv_start_utc iv \<or> iv_proof_commitment iv = 0)
     \<and> iv_start_utc iv \<ge> period_start sc (iv_period iv) \<and> iv_end_utc iv \<le> period_start sc (iv_period iv) + sc_period_seconds sc"

definition interval_bytes :: "StorageAssignmentInterval \<Rightarrow> bytes" where
  "interval_bytes iv = le_bytes 8 (iv_period iv) @ le_bytes 8 (iv_start_utc iv) @ le_bytes 8 (iv_end_utc iv) @ hash_bytes (iv_proof_commitment iv)"

definition reader_interval :: "bytes \<Rightarrow> exn + StorageAssignmentInterval \<times> bytes" where
  "reader_interval bs = bindE (reader_U64 bs) (\<lambda>(period, bs). bindE (reader_U64 bs) (\<lambda>(start, bs). bindE (reader_U64 bs) (\<lambda>(finish, bs).
     bindE (reader_Array 32 bs) (\<lambda>(proof_commitment, bs).
       Inr (\<lparr> iv_period = period, iv_start_utc = start, iv_end_utc = finish, iv_proof_commitment = proof_commitment \<rparr>, bs)))))"

text \<open>The check of one interval against those already read; the set of the source holds their proof commitments.\<close>

definition interval_next :: "StorageAssignmentEvidenceScope \<Rightarrow> StorageAssignmentInterval list \<Rightarrow> StorageAssignmentInterval \<Rightarrow> bool" where
  "interval_next sc result iv \<longleftrightarrow> IntervalValid sc iv \<and> iv_proof_commitment iv \<notin> iv_proof_commitment ` set result
     \<and> (result = [] \<or> iv_end_utc (last result) \<le> iv_start_utc iv)"

text \<open>The loops that read a counted list, checking each item against those before it.\<close>

fun read_checked :: "(bytes \<Rightarrow> exn + 'a \<times> bytes) \<Rightarrow> ('a list \<Rightarrow> 'a \<Rightarrow> bool) \<Rightarrow> nat \<Rightarrow> 'a list \<Rightarrow> bytes \<Rightarrow> exn + 'a list option" where
  "read_checked rd ok 0 result bs = bindE (reader_Finish bs) (\<lambda>_. Inr (Some result))"
| "read_checked rd ok (Suc n) result bs = bindE (rd bs) (\<lambda>(x, bs).
     if \<not> ok result x then Inr None else read_checked rd ok n (result @ [x]) bs)"

definition read_intervals :: "StorageAssignmentEvidenceScope \<Rightarrow> nat \<Rightarrow> bytes \<Rightarrow> exn + StorageAssignmentInterval list option" where
  "read_intervals sc n bs = read_checked reader_interval (interval_next sc) n [] bs"

definition Read_bytes :: "StorageAssignmentEvidenceScope \<Rightarrow> bytes \<Rightarrow> exn + StorageAssignmentInterval list option" where
  "Read_bytes sc bytes =
     bindE (reader_open CODEC_LIMIT bytes) (\<lambda>bs. bindE (reader_Array 32 bs) (\<lambda>(commitment, bs).
       if commitment \<noteq> plan_commitment (sc_assignment sc) then Inr None
       else bindE (reader_U8 bs) (\<lambda>(slot, bs). if slot \<noteq> sc_replica_slot sc then Inr None
       else bindE (reader_U64 bs) (\<lambda>(start, bs). if start \<noteq> sc_term_start_utc sc then Inr None
       else bindE (reader_U64 bs) (\<lambda>(seconds, bs). if seconds \<noteq> sc_period_seconds sc then Inr None
       else bindE (reader_U32 bs) (\<lambda>(count, bs). if unat count > MAX_STORAGE_ASSIGNMENT_INTERVALS then Inr None
       else read_intervals sc (unat count) bs))))))"

definition Evidence_Read ::
  "sealing \<Rightarrow> keystore \<Rightarrow> StorageAssignmentEvidenceScope \<Rightarrow> PrivateApplicationStore \<Rightarrow> KVStore \<Rightarrow> exn + StorageAssignmentInterval list option" where
  "Evidence_Read A K sc s db =
     bindE (Get A K db s (Evidence_Key sc)) (\<lambda>bytes. case bytes of
       None \<Rightarrow> bindE (Has A K db s (Evidence_Key sc)) (\<lambda>has. if has then Inr None
         else bindE (IsUnlocked A K db s) (\<lambda>unlocked. Inr (if \<not> unlocked then None else Some [])))
     | Some bs \<Rightarrow> catch_codec (Read_bytes sc bs))"

definition Evidence_Encode :: "StorageAssignmentEvidenceScope \<Rightarrow> StorageAssignmentInterval list \<Rightarrow> bytes" where
  "Evidence_Encode sc intervals = hash_bytes (plan_commitment (sc_assignment sc)) @ [sc_replica_slot sc] @ le_bytes 8 (sc_term_start_utc sc)
     @ le_bytes 8 (sc_period_seconds sc) @ le_bytes 4 (of_nat (length intervals) :: u32) @ concat (map interval_bytes intervals)"

definition FundedKey :: "StorageAssignmentEvidenceScope \<Rightarrow> string" where
  "FundedKey sc = (let c = sc_context sc in ''storage/funded-slot-evidence/'' @ GetHex (ctx_network_binding c) @ ''/'' @ GetHex (ctx_publication c)
     @ ''/'' @ GetHex (ctx_chunk c) @ ''/'' @ GetHex (ctx_payer c) @ ''/'' @ to_string (unat (ctx_term_start c))
     @ ''/'' @ to_string (unat (ctx_term_end c)) @ ''/'' @ to_string (unat (sc_replica_slot sc)))"

definition CLAIM_RECORD_LIMIT :: nat where "CLAIM_RECORD_LIMIT = 20 + 88 * MAX_STORAGE_ASSIGNMENT_INTERVALS"

definition claim_bytes :: "StorageFundedSlotClaim \<Rightarrow> bytes" where
  "claim_bytes cl = hash_bytes (cl_assignment cl) @ interval_bytes (cl_interval cl)"

definition reader_claim :: "bytes \<Rightarrow> exn + StorageFundedSlotClaim \<times> bytes" where
  "reader_claim bs = bindE (reader_Array 32 bs) (\<lambda>(a, bs). bindE (reader_interval bs) (\<lambda>(iv, bs). Inr (\<lparr> cl_assignment = a, cl_interval = iv \<rparr>, bs)))"

definition claim_next :: "StorageAssignmentEvidenceScope \<Rightarrow> StorageFundedSlotClaim list \<Rightarrow> StorageFundedSlotClaim \<Rightarrow> bool" where
  "claim_next sc result cl \<longleftrightarrow> cl_assignment cl \<noteq> 0 \<and> interval_next sc (map cl_interval result) (cl_interval cl)"

definition read_claims :: "StorageAssignmentEvidenceScope \<Rightarrow> nat \<Rightarrow> bytes \<Rightarrow> exn + StorageFundedSlotClaim list option" where
  "read_claims sc n bs = read_checked reader_claim (claim_next sc) n [] bs"

definition Claims_bytes :: "StorageAssignmentEvidenceScope \<Rightarrow> bytes \<Rightarrow> exn + StorageFundedSlotClaim list option" where
  "Claims_bytes sc bytes =
     bindE (reader_open CLAIM_RECORD_LIMIT bytes) (\<lambda>bs. bindE (reader_U64 bs) (\<lambda>(start, bs).
       if start \<noteq> sc_term_start_utc sc then Inr None
       else bindE (reader_U64 bs) (\<lambda>(seconds, bs). if seconds \<noteq> sc_period_seconds sc then Inr None
       else bindE (reader_U32 bs) (\<lambda>(count, bs). if unat count > MAX_STORAGE_ASSIGNMENT_INTERVALS then Inr None
       else read_claims sc (unat count) bs))))"

definition INITIALIZED :: string where "INITIALIZED = ''/initialized''"

definition Claims ::
  "sealing \<Rightarrow> keystore \<Rightarrow> StorageAssignmentEvidenceScope \<Rightarrow> PrivateApplicationStore \<Rightarrow> KVStore \<Rightarrow> exn + StorageFundedSlotClaim list option" where
  "Claims A K sc s db =
     bindE (Get A K db s (FundedKey sc)) (\<lambda>bytes. bindE (Get A K db s (FundedKey sc @ INITIALIZED)) (\<lambda>initialized. case bytes of
       None \<Rightarrow> bindE (Has A K db s (FundedKey sc)) (\<lambda>has. if has then Inr None
         else bindE (Has A K db s (FundedKey sc @ INITIALIZED)) (\<lambda>has. if has then Inr None
         else bindE (IsUnlocked A K db s) (\<lambda>unlocked. Inr (if \<not> unlocked then None else Some []))))
     | Some bs \<Rightarrow> if initialized \<noteq> Some [1] then Inr None else catch_codec (Claims_bytes sc bs)))"

definition EncodeClaims :: "StorageAssignmentEvidenceScope \<Rightarrow> StorageFundedSlotClaim list \<Rightarrow> bytes" where
  "EncodeClaims sc claims = le_bytes 8 (sc_term_start_utc sc) @ le_bytes 8 (sc_period_seconds sc) @ le_bytes 4 (of_nat (length claims) :: u32)
     @ concat (map claim_bytes claims)"

definition Consistent :: "StorageAssignmentEvidenceScope \<Rightarrow> StorageAssignmentInterval list \<Rightarrow> StorageFundedSlotClaim list \<Rightarrow> bool" where
  "Consistent sc intervals claims \<longleftrightarrow>
     map cl_interval (filter (\<lambda>cl. cl_assignment cl = plan_commitment (sc_assignment sc)) claims) = intervals"

definition overlapping :: "StorageAssignmentInterval \<Rightarrow> StorageAssignmentInterval \<Rightarrow> bool" where
  "overlapping prior iv \<longleftrightarrow> iv_proof_commitment prior = iv_proof_commitment iv
     \<or> (iv_start_utc prior < iv_end_utc iv \<and> iv_start_utc iv < iv_end_utc prior)"

text \<open>The first loop of the append: the first interval that is equal or conflicts decides.\<close>

fun duplicate_or_conflict :: "StorageAssignmentInterval \<Rightarrow> StorageAssignmentInterval list \<Rightarrow> StorageEvidenceAppendResult option" where
  "duplicate_or_conflict iv [] = None"
| "duplicate_or_conflict iv (prior # priors) =
     (if prior = iv then Some DUPLICATE else if overlapping prior iv then Some REJECTED else duplicate_or_conflict iv priors)"

text \<open>\<^verbatim>\<open>insert\<close> at \<^verbatim>\<open>std::lower_bound\<close> of the start on a list sorted by starts.\<close>

fun insert_by_start :: "('a \<Rightarrow> u64) \<Rightarrow> 'a \<Rightarrow> 'a list \<Rightarrow> 'a list" where
  "insert_by_start f x [] = [x]"
| "insert_by_start f x (y # ys) = (if f y < f x then y # insert_by_start f x ys else x # y # ys)"

text \<open>The journals of a valid scope, read together.\<close>

definition read_journals ::
  "crypto \<Rightarrow> sealing \<Rightarrow> keystore \<Rightarrow> StorageAssignmentEvidenceScope \<Rightarrow> PrivateApplicationStore \<Rightarrow> KVStore
   \<Rightarrow> exn + (StorageAssignmentInterval list \<times> StorageFundedSlotClaim list) option" where
  "read_journals C A K sc s db =
     bindE (Evidence_Read A K sc s db) (\<lambda>intervals. bindE (Claims A K sc s db) (\<lambda>claims. case (intervals, claims) of
       (Some is, Some cs) \<Rightarrow> Inr (if Consistent sc is cs then Some (is, cs) else None)
     | _ \<Rightarrow> Inr None))"

text \<open>The three records, staged and committed together.\<close>

definition store_journals ::
  "sealing \<Rightarrow> keystore \<Rightarrow> (nat \<Rightarrow> 96 word option) \<Rightarrow> write_outcome \<Rightarrow> Batch \<Rightarrow> StorageAssignmentEvidenceScope \<Rightarrow> StorageAssignmentInterval list
   \<Rightarrow> StorageFundedSlotClaim list \<Rightarrow> PrivateApplicationStore \<Rightarrow> KVStore \<Rightarrow> exn + StorageEvidenceAppendResult \<times> PrivateApplicationStore \<times> KVStore" where
  "store_journals A K nonces w b sc intervals claims s1 db =
     bindE (Put A K None WriteLost (Evidence_Key sc) (Evidence_Encode sc intervals) s1 db) (\<lambda>(p1, s2, _).
       if \<not> p1 then Inr (REJECTED, Batch_close b s2, db)
       else bindE (Put A K None WriteLost (FundedKey sc) (EncodeClaims sc claims) s2 db) (\<lambda>(p2, s3, _).
       if \<not> p2 then Inr (REJECTED, Batch_close b s3, db)
       else bindE (Put A K None WriteLost (FundedKey sc @ INITIALIZED) [1] s3 db) (\<lambda>(p3, s4, _).
       if \<not> p3 then Inr (REJECTED, Batch_close b s4, db)
       else let (r, b', s5, db') = Batch_Commit A K nonces w b s4 db
         in bindE r (\<lambda>ok. Inr (if ok then ADDED else REJECTED, Batch_close b' s5, db')))))"

definition AppendStorageAssignmentEvidence ::
  "crypto \<Rightarrow> sealing \<Rightarrow> keystore \<Rightarrow> (nat \<Rightarrow> 96 word option) \<Rightarrow> write_outcome \<Rightarrow> StorageAssignmentEvidenceScope \<Rightarrow> StorageAssignmentInterval \<Rightarrow> u64
   \<Rightarrow> PrivateApplicationStore \<Rightarrow> KVStore \<Rightarrow> exn + StorageEvidenceAppendResult \<times> PrivateApplicationStore \<times> KVStore" where
  "AppendStorageAssignmentEvidence C A K nonces w sc interval verified_through_utc s db =
     (let (b, s1) = Batch_open s in
      bindE (ScopeValid C A K sc s1 db) (\<lambda>valid.
        if \<not> valid \<or> \<not> IntervalValid sc interval \<or> iv_end_utc interval > verified_through_utc then Inr (REJECTED, Batch_close b s1, db)
        else bindE (read_journals C A K sc s1 db) (\<lambda>journals. case journals of None \<Rightarrow> Inr (REJECTED, Batch_close b s1, db)
          | Some (intervals, claims) \<Rightarrow>
            (case duplicate_or_conflict interval intervals of Some r \<Rightarrow> Inr (r, Batch_close b s1, db)
             | None \<Rightarrow>
               if length intervals \<ge> MAX_STORAGE_ASSIGNMENT_INTERVALS \<or> length claims \<ge> MAX_STORAGE_ASSIGNMENT_INTERVALS
                  \<or> list_ex (\<lambda>cl. overlapping (cl_interval cl) interval) claims then Inr (REJECTED, Batch_close b s1, db)
               else
                 let claims' = insert_by_start (\<lambda>cl. iv_start_utc (cl_interval cl)) \<lparr> cl_assignment = plan_commitment (sc_assignment sc), cl_interval = interval \<rparr> claims;
                     intervals' = insert_by_start iv_start_utc interval intervals
                 in store_journals A K nonces w b sc intervals' claims' s1 db))))"

definition StorageAssignmentVerifiedSeconds ::
  "crypto \<Rightarrow> sealing \<Rightarrow> keystore \<Rightarrow> StorageAssignmentEvidenceScope \<Rightarrow> u64 \<Rightarrow> PrivateApplicationStore \<Rightarrow> KVStore \<Rightarrow> exn + u64 option" where
  "StorageAssignmentVerifiedSeconds C A K sc through_period s db =
     (let (b, s1) = Batch_open s in
      bindE (ScopeValid C A K sc s1 db) (\<lambda>valid.
        if \<not> valid \<or> through_period < ctx_term_start (sc_context sc) \<or> through_period \<ge> ctx_term_end (sc_context sc) then Inr None
        else bindE (read_journals C A K sc s1 db) (\<lambda>journals. case journals of None \<Rightarrow> Inr None
          | Some (intervals, claims) \<Rightarrow>
            Inr (Some (foldl (\<lambda>seconds iv. if iv_period iv \<le> through_period then seconds + (iv_end_utc iv - iv_start_utc iv) else seconds) 0 intervals)))))"

definition LoadStorageFundedSlotClaims ::
  "crypto \<Rightarrow> sealing \<Rightarrow> keystore \<Rightarrow> StorageAssignmentEvidenceScope \<Rightarrow> PrivateApplicationStore \<Rightarrow> KVStore \<Rightarrow> exn + StorageFundedSlotClaim list option" where
  "LoadStorageFundedSlotClaims C A K sc s db =
     (let (b, s1) = Batch_open s in
      bindE (ScopeValid C A K sc s1 db) (\<lambda>valid. if \<not> valid then Inr None
        else bindE (read_journals C A K sc s1 db) (\<lambda>journals. Inr (map_option snd journals))))"

section \<open>Journals\<close>

definition before :: "StorageAssignmentInterval \<Rightarrow> StorageAssignmentInterval \<Rightarrow> bool" where
  "before a b \<longleftrightarrow> iv_end_utc a \<le> iv_start_utc b"

definition intervals_ok :: "StorageAssignmentEvidenceScope \<Rightarrow> StorageAssignmentInterval list \<Rightarrow> bool" where
  "intervals_ok sc is \<longleftrightarrow> (\<forall>iv\<in>set is. IntervalValid sc iv) \<and> sorted_wrt before is \<and> distinct (map iv_proof_commitment is)"

lemma IntervalValid_order: "IntervalValid sc iv \<Longrightarrow> iv_start_utc iv < iv_end_utc iv"
  by (auto simp: IntervalValid_def)

lemma before_last:
  assumes "sorted_wrt before is" "\<forall>iv\<in>set is. iv_start_utc iv < iv_end_utc iv" "is = [] \<or> iv_end_utc (last is) \<le> x" "y \<in> set is"
  shows "iv_end_utc y \<le> x"
proof (cases "is" rule: rev_cases)
  case (snoc ys z)
  then show ?thesis using assms by (auto simp: sorted_wrt_append before_def)
qed (use assms in simp)

lemma intervals_ok_snoc: "intervals_ok sc (is @ [iv]) \<longleftrightarrow> intervals_ok sc is \<and> interval_next sc is iv"
proof
  assume "intervals_ok sc (is @ [iv])"
  then show "intervals_ok sc is \<and> interval_next sc is iv"
    by (cases "is" rule: rev_cases) (auto simp: intervals_ok_def interval_next_def sorted_wrt_append before_def)
next
  assume a: "intervals_ok sc is \<and> interval_next sc is iv"
  have o: "\<forall>iv\<in>set is. iv_start_utc iv < iv_end_utc iv" using a by (auto simp: intervals_ok_def intro: IntervalValid_order)
  have "iv_end_utc y \<le> iv_start_utc iv" if "y \<in> set is" for y
    using before_last [OF _ o _ that, of "iv_start_utc iv"] a by (auto simp: intervals_ok_def interval_next_def)
  then show "intervals_ok sc (is @ [iv])" using a by (auto simp: intervals_ok_def interval_next_def sorted_wrt_append before_def)
qed

lemma reader_many_iff:
  assumes "\<And>x bs r. rd bs = Inr (x, r) \<longleftrightarrow> bs = enc x @ r"
  shows "reader_many rd n bs = Inr (xs, r) \<longleftrightarrow> length xs = n \<and> bs = concat (map enc xs) @ r"
proof (induction n arbitrary: bs xs)
  case (Suc n)
  have "reader_many rd (Suc n) bs = Inr (xs, r) \<longleftrightarrow> (\<exists>x ys. xs = x # ys \<and> length ys = n \<and> bs = enc x @ concat (map enc ys) @ r)"
    by (auto simp: bindE_Inr_iff assms Suc.IH)
  then show ?case by (cases xs) auto
qed auto

lemma reader_interval_iff: "reader_interval bs = Inr (iv, r) \<longleftrightarrow> bs = interval_bytes iv @ r"
  by (cases iv) (auto simp: reader_interval_def interval_bytes_def bindE_Inr_iff reader_iffs)

lemma reader_claim_iff: "reader_claim bs = Inr (cl, r) \<longleftrightarrow> bs = claim_bytes cl @ r"
  by (cases cl) (auto simp: reader_claim_def claim_bytes_def bindE_Inr_iff reader_iffs reader_interval_iff)

text \<open>What is read is what was written, in order, and well-formed; and every well-formed list is read back.\<close>

lemma read_checked_iff:
  assumes rd: "\<And>x bs r. rd bs = Inr (x, r) \<longleftrightarrow> bs = enc x @ r" and good: "\<And>xs x. good (xs @ [x]) \<longleftrightarrow> good xs \<and> ok xs x"
  shows "good result \<Longrightarrow> read_checked rd ok n result bs = Inr (Some xs) \<longleftrightarrow>
     (\<exists>new. length new = n \<and> xs = result @ new \<and> bs = concat (map enc new) \<and> good xs)"
proof (induction n arbitrary: result bs)
  case 0
  then show ?case by (auto simp: bindE_Inr_iff reader_Finish_iff)
next
  case (Suc n)
  have prefix: "good (ys @ zs) \<Longrightarrow> good ys" for ys zs
    by (induction zs rule: rev_induct) (auto simp: good simp flip: append_assoc)
  have "read_checked rd ok (Suc n) result bs = Inr (Some xs) \<longleftrightarrow>
      (\<exists>x r. bs = enc x @ r \<and> ok result x \<and> read_checked rd ok n (result @ [x]) r = Inr (Some xs))"
    by (auto simp: bindE_Inr_iff rd split: if_split_asm)
  also have "\<dots> \<longleftrightarrow> (\<exists>x r new. bs = enc x @ r \<and> ok result x \<and> length new = n \<and> xs = (result @ [x]) @ new \<and> r = concat (map enc new) \<and> good xs)"
    using Suc.IH good Suc.prems by blast
  also have "\<dots> \<longleftrightarrow> (\<exists>x new. length new = n \<and> xs = result @ x # new \<and> bs = concat (map enc (x # new)) \<and> good xs)"
  proof -
    have "ok result x" if "good (result @ x # new)" for x new using prefix [of "result @ [x]" new] that good by simp
    then show ?thesis by auto
  qed
  also have "\<dots> \<longleftrightarrow> (\<exists>new. length new = Suc n \<and> xs = result @ new \<and> bs = concat (map enc new) \<and> good xs)"
    by (auto simp: length_Suc_conv)
  finally show ?case .
qed

definition claims_ok :: "StorageAssignmentEvidenceScope \<Rightarrow> StorageFundedSlotClaim list \<Rightarrow> bool" where
  "claims_ok sc cs \<longleftrightarrow> intervals_ok sc (map cl_interval cs) \<and> (\<forall>cl\<in>set cs. cl_assignment cl \<noteq> 0)"

lemma intervals_ok_Nil [simp]: "intervals_ok sc []" "claims_ok sc []"
  by (simp_all add: intervals_ok_def claims_ok_def)

lemma read_intervals_iff:
  "read_intervals sc n bs = Inr (Some is) \<longleftrightarrow> length is = n \<and> bs = concat (map interval_bytes is) \<and> intervals_ok sc is"
  unfolding read_intervals_def
  by (subst read_checked_iff [where enc = interval_bytes and good = "intervals_ok sc"]) (auto simp: reader_interval_iff intervals_ok_snoc)

lemma read_claims_iff:
  "read_claims sc n bs = Inr (Some cs) \<longleftrightarrow> length cs = n \<and> bs = concat (map claim_bytes cs) \<and> claims_ok sc cs"
  unfolding read_claims_def
  by (subst read_checked_iff [where enc = claim_bytes and good = "claims_ok sc"]) (auto simp: reader_claim_iff claims_ok_def claim_next_def intervals_ok_snoc)

lemma length_interval_bytes [simp]: "length (interval_bytes iv) = 56" "length (claim_bytes cl) = 88"
  by (simp_all add: interval_bytes_def claim_bytes_def)

lemma length_concat_fixed: "(\<And>x. length (f x) = k) \<Longrightarrow> length (concat (map f xs)) = k * length xs"
  by (induction xs) simp_all

lemma count_word: "n \<le> MAX_STORAGE_ASSIGNMENT_INTERVALS \<Longrightarrow> unat (of_nat n :: u32) = n"
  by (simp add: MAX_STORAGE_ASSIGNMENT_INTERVALS_def unsigned_of_nat take_bit_nat_eq_self_iff)

lemma catch_codec_Some [simp]: "catch_codec m = Inr (Some x) \<longleftrightarrow> m = Inr (Some x)"
  by (auto simp: catch_codec_def split: sum.split if_split_asm)

lemma Read_bytes_iff:
  "Read_bytes sc bs = Inr (Some is) \<longleftrightarrow> length is \<le> MAX_STORAGE_ASSIGNMENT_INTERVALS \<and> bs = Evidence_Encode sc is \<and> intervals_ok sc is"
proof
  assume "Read_bytes sc bs = Inr (Some is)"
  then obtain n :: u32 where "unat n \<le> MAX_STORAGE_ASSIGNMENT_INTERVALS" "length is = unat n" "intervals_ok sc is"
    "bs = hash_bytes (plan_commitment (sc_assignment sc)) @ [sc_replica_slot sc] @ le_bytes 8 (sc_term_start_utc sc)
     @ le_bytes 8 (sc_period_seconds sc) @ le_bytes 4 n @ concat (map interval_bytes is)"
    by (auto simp: Read_bytes_def bindE_Inr_iff reader_iffs read_intervals_iff split: if_split_asm)
  then show "length is \<le> MAX_STORAGE_ASSIGNMENT_INTERVALS \<and> bs = Evidence_Encode sc is \<and> intervals_ok sc is"
    by (simp add: Evidence_Encode_def)
next
  assume a: "length is \<le> MAX_STORAGE_ASSIGNMENT_INTERVALS \<and> bs = Evidence_Encode sc is \<and> intervals_ok sc is"
  then have "length bs \<le> CODEC_LIMIT"
    by (simp add: Evidence_Encode_def length_concat_fixed [where k = 56] CODEC_LIMIT_def MAX_STORAGE_ASSIGNMENT_INTERVALS_def)
  then show "Read_bytes sc bs = Inr (Some is)"
    using a by (auto simp: Read_bytes_def Evidence_Encode_def bindE_Inr_iff reader_iffs read_intervals_iff)
      (rule exI [of _ "of_nat (length is)"], simp add: count_word)
qed

lemma Claims_bytes_iff:
  "Claims_bytes sc bs = Inr (Some cs) \<longleftrightarrow> length cs \<le> MAX_STORAGE_ASSIGNMENT_INTERVALS \<and> bs = EncodeClaims sc cs \<and> claims_ok sc cs"
proof
  assume "Claims_bytes sc bs = Inr (Some cs)"
  then obtain n :: u32 where "unat n \<le> MAX_STORAGE_ASSIGNMENT_INTERVALS" "length cs = unat n" "claims_ok sc cs"
    "bs = le_bytes 8 (sc_term_start_utc sc) @ le_bytes 8 (sc_period_seconds sc) @ le_bytes 4 n @ concat (map claim_bytes cs)"
    by (auto simp: Claims_bytes_def bindE_Inr_iff reader_iffs read_claims_iff split: if_split_asm)
  then show "length cs \<le> MAX_STORAGE_ASSIGNMENT_INTERVALS \<and> bs = EncodeClaims sc cs \<and> claims_ok sc cs"
    by (simp add: EncodeClaims_def)
next
  assume a: "length cs \<le> MAX_STORAGE_ASSIGNMENT_INTERVALS \<and> bs = EncodeClaims sc cs \<and> claims_ok sc cs"
  then have "length bs \<le> CLAIM_RECORD_LIMIT"
    by (simp add: EncodeClaims_def length_concat_fixed [where k = 88] CLAIM_RECORD_LIMIT_def)
  then show "Claims_bytes sc bs = Inr (Some cs)"
    using a by (auto simp: Claims_bytes_def EncodeClaims_def bindE_Inr_iff reader_iffs read_claims_iff)
      (rule exI [of _ "of_nat (length cs)"], simp add: count_word)
qed

section \<open>Counting seconds\<close>

definition seconds_of_interval :: "StorageAssignmentInterval \<Rightarrow> nat" where
  "seconds_of_interval iv = unat (iv_end_utc iv) - unat (iv_start_utc iv)"

definition verified_total :: "u64 \<Rightarrow> StorageAssignmentInterval list \<Rightarrow> nat" where
  "verified_total through is = sum_list (map seconds_of_interval (filter (\<lambda>iv. iv_period iv \<le> through) is))"

lemma disjoint_total:
  assumes "sorted_wrt before is" "\<forall>iv\<in>set is. lo \<le> unat (iv_start_utc iv) \<and> unat (iv_start_utc iv) \<le> unat (iv_end_utc iv) \<and> unat (iv_end_utc iv) \<le> hi" "lo \<le> hi"
  shows "sum_list (map seconds_of_interval is) \<le> hi - lo"
  using assms
proof (induction "is" arbitrary: lo)
  case (Cons iv ivs)
  have "unat (iv_end_utc iv) \<le> unat (iv_start_utc jv)" if "jv \<in> set ivs" for jv
    using Cons.prems(1) that by (auto simp: before_def word_le_nat_alt)
  then have "sum_list (map seconds_of_interval ivs) \<le> hi - unat (iv_end_utc iv)" using Cons.prems by (intro Cons.IH) auto
  moreover have "lo \<le> unat (iv_start_utc iv)" "unat (iv_start_utc iv) \<le> unat (iv_end_utc iv)" "unat (iv_end_utc iv) \<le> hi" using Cons.prems(2) by simp_all
  moreover have "sum_list (map seconds_of_interval (iv # ivs)) = (unat (iv_end_utc iv) - unat (iv_start_utc iv)) + sum_list (map seconds_of_interval ivs)"
    by (simp add: seconds_of_interval_def)
  ultimately show ?case by linarith
qed simp

text \<open>The guard of a scope keeps the bounds of every period within 64 bits.\<close>

lemma period_bounds:
  assumes "scope_arithmetic sc" "ctx_term_start (sc_context sc) \<le> p" "p < ctx_term_end (sc_context sc)"
  defines "k \<equiv> unat p - unat (ctx_term_start (sc_context sc))"
  shows "unat (period_start sc p) = unat (sc_term_start_utc sc) + k * unat (sc_period_seconds sc)"
    "unat (period_start sc p + sc_period_seconds sc) = unat (sc_term_start_utc sc) + (k + 1) * unat (sc_period_seconds sc)"
    "unat (sc_term_start_utc sc) + (k + 1) * unat (sc_period_seconds sc) < 2 ^ 64"
proof -
  let ?ts = "ctx_term_start (sc_context sc)" and ?te = "ctx_term_end (sc_context sc)" and ?ps = "sc_period_seconds sc" and ?u = "sc_term_start_utc sc"
  have g: "?te - ?ts \<le> (U64_MAX - ?u) div ?ps" "?ts < ?te" "?ps \<noteq> 0" using assms(1) by (auto simp: scope_arithmetic_def Let_def not_less)
  have "unat (?te - ?ts) \<le> unat (U64_MAX - ?u) div unat ?ps" using g(1) by (simp add: word_le_nat_alt unat_div)
  also have "unat (U64_MAX - ?u) = unat U64_MAX - unat ?u" by (rule unat_sub) simp
  finally have "unat (?te - ?ts) * unat ?ps \<le> unat U64_MAX - unat ?u" using g(3) by (simp add: less_eq_div_iff_mult_less_eq unat_gt_0)
  moreover have "unat (?te - ?ts) = unat ?te - unat ?ts" using g(2) by (simp add: unat_sub)
  moreover have k: "k + 1 \<le> unat ?te - unat ?ts" using assms(2,3) by (simp add: k_def word_le_nat_alt word_less_nat_alt)
  ultimately have b: "(k + 1) * unat ?ps \<le> unat U64_MAX - unat ?u" using mult_le_mono1 [OF k, of "unat ?ps"] by simp
  have m: "unat U64_MAX = 2 ^ 64 - 1" by (simp add: unsigned_minus_1_eq_mask mask_eq_exp_minus_1)
  have u: "unat ?u < 2 ^ 64" using unsigned_less [of ?u, where 'a = nat] by simp
  show lim: "unat ?u + (k + 1) * unat ?ps < 2 ^ 64" using b m u by linarith
  have sub: "unat (p - ?ts) = k" using assms(2) by (simp add: unat_sub k_def)
  have "k * unat ?ps < 2 ^ 64" using lim by simp
  then have mul: "unat ((p - ?ts) * ?ps) = k * unat ?ps" using sub by (simp add: unat_word_ariths)
  show s: "unat (period_start sc p) = unat ?u + k * unat ?ps" using lim mul by (simp add: period_start_def unat_word_ariths)
  show "unat (period_start sc p + ?ps) = unat ?u + (k + 1) * unat ?ps" using lim s by (simp add: unat_word_ariths)
qed

lemma verified_total_bound:
  assumes "scope_arithmetic sc" "intervals_ok sc is" "ctx_term_start (sc_context sc) \<le> through" "through < ctx_term_end (sc_context sc)"
  shows "verified_total through is \<le> (unat through - unat (ctx_term_start (sc_context sc)) + 1) * unat (sc_period_seconds sc)"
    "verified_total through is < 2 ^ 64"
proof -
  let ?ts = "unat (ctx_term_start (sc_context sc))" and ?ps = "unat (sc_period_seconds sc)" and ?u = "unat (sc_term_start_utc sc)"
  let ?k = "unat through - ?ts"
  have iv: "?u \<le> unat (iv_start_utc iv) \<and> unat (iv_start_utc iv) \<le> unat (iv_end_utc iv) \<and> unat (iv_end_utc iv) \<le> ?u + (?k + 1) * ?ps"
    if "iv \<in> set is" "iv_period iv \<le> through" for iv
  proof -
    have v: "IntervalValid sc iv" using assms(2) that(1) by (simp add: intervals_ok_def)
    then have p: "ctx_term_start (sc_context sc) \<le> iv_period iv" "iv_period iv < ctx_term_end (sc_context sc)" by (auto simp: IntervalValid_def not_less)
    note b = period_bounds [OF assms(1) p]
    have le: "unat (iv_period iv) - ?ts + 1 \<le> ?k + 1" using that(2) by (simp add: word_le_nat_alt diff_le_mono)
    have "unat (period_start sc (iv_period iv)) \<le> unat (iv_start_utc iv)" "unat (iv_end_utc iv) \<le> unat (period_start sc (iv_period iv) + sc_period_seconds sc)"
      "unat (iv_start_utc iv) \<le> unat (iv_end_utc iv)" using v IntervalValid_order [OF v] by (auto simp: IntervalValid_def word_le_nat_alt word_less_nat_alt)
    then show ?thesis using b(1,2) mult_le_mono1 [OF le, of ?ps] by linarith
  qed
  have "sorted_wrt before (filter (\<lambda>iv. iv_period iv \<le> through) is)" using assms(2) by (simp add: intervals_ok_def sorted_wrt_filter)
  from disjoint_total [OF this, of ?u "?u + (?k + 1) * ?ps"] iv
  show t: "verified_total through is \<le> (?k + 1) * ?ps" by (simp add: verified_total_def)
  show "verified_total through is < 2 ^ 64" using t period_bounds(3) [OF assms(1,3,4)] by linarith
qed

text \<open>The loop of the source, in 64 bits.\<close>

lemma verified_fold:
  assumes "\<forall>iv\<in>set is. iv_start_utc iv \<le> iv_end_utc iv"
  shows "unat acc + verified_total through is < 2 ^ 64 \<Longrightarrow>
    unat (foldl (\<lambda>seconds iv. if iv_period iv \<le> through then seconds + (iv_end_utc iv - iv_start_utc iv) else seconds) acc is) = unat acc + verified_total through is"
  using assms
proof (induction "is" arbitrary: acc)
  case (Cons iv ivs)
  show ?case
  proof (cases "iv_period iv \<le> through")
    case True
    have d: "unat (iv_end_utc iv - iv_start_utc iv) = seconds_of_interval iv" using Cons.prems(2) by (simp add: seconds_of_interval_def unat_sub)
    have t: "verified_total through (iv # ivs) = seconds_of_interval iv + verified_total through ivs" using True by (simp add: verified_total_def)
    have u: "unat (acc + (iv_end_utc iv - iv_start_utc iv)) = unat acc + seconds_of_interval iv" using Cons.prems(1) d t by (simp add: unat_word_ariths)
    show ?thesis using True Cons.IH [of "acc + (iv_end_utc iv - iv_start_utc iv)"] Cons.prems u t by simp
  next
    case False
    then show ?thesis using Cons.IH [of acc] Cons.prems by (simp add: verified_total_def)
  qed
qed (simp add: verified_total_def)

lemma Evidence_Read_ok: "Evidence_Read A K sc s db = Inr (Some is) \<Longrightarrow> intervals_ok sc is"
  by (auto simp: Evidence_Read_def bindE_Inr_iff Read_bytes_iff split: option.split_asm if_split_asm)

lemma Claims_ok: "Claims A K sc s db = Inr (Some cs) \<Longrightarrow> claims_ok sc cs"
  by (auto simp: Claims_def bindE_Inr_iff Claims_bytes_iff split: option.split_asm if_split_asm)

lemma read_journals_iff:
  "read_journals C A K sc s db = Inr (Some (is, cs)) \<longleftrightarrow>
     Evidence_Read A K sc s db = Inr (Some is) \<and> Claims A K sc s db = Inr (Some cs) \<and> Consistent sc is cs"
proof
  assume "read_journals C A K sc s db = Inr (Some (is, cs))"
  then obtain a b where e: "Evidence_Read A K sc s db = Inr a" "Claims A K sc s db = Inr b"
    and "(case (a, b) of (Some is, Some cs) \<Rightarrow> Inr (if Consistent sc is cs then Some (is, cs) else None) | _ \<Rightarrow> Inr None) = (Inr (Some (is, cs)) :: exn + _)"
    by (auto simp: read_journals_def bindE_Inr_iff)
  then have "a = Some is \<and> b = Some cs \<and> Consistent sc is cs" by (cases a; cases b) (auto split: if_split_asm)
  then show "Evidence_Read A K sc s db = Inr (Some is) \<and> Claims A K sc s db = Inr (Some cs) \<and> Consistent sc is cs" using e by simp
qed (simp add: read_journals_def)

lemma read_journals_ok:
  "read_journals C A K sc s db = Inr (Some (is, cs)) \<Longrightarrow> intervals_ok sc is \<and> claims_ok sc cs \<and> Consistent sc is cs"
  unfolding read_journals_iff using Evidence_Read_ok Claims_ok by blast

lemma ScopeValid_arithmetic: "ScopeValid C A K sc s db = Inr True \<Longrightarrow> scope_arithmetic sc"
  by (simp add: ScopeValid_def split: if_split_asm)

section \<open>Appending\<close>

lemma insert_by_start_set [simp]: "set (insert_by_start f x xs) = insert x (set xs)" "length (insert_by_start f x xs) = Suc (length xs)"
  by (induction xs) auto

lemma insert_by_start_map: "map g (insert_by_start (\<lambda>x. f (g x)) x xs) = insert_by_start f (g x) (map g xs)"
  by (induction xs) auto

lemma insert_by_start_filter:
  assumes "sorted_wrt (\<lambda>a b. f a \<le> f b) xs" "P x"
  shows "filter P (insert_by_start f x xs) = insert_by_start f x (filter P xs)"
  using assms(1)
proof (induction xs)
  case (Cons y ys)
  have past: "insert_by_start f x zs = x # zs" if "\<forall>z\<in>set zs. f x \<le> f z" for zs using that by (cases zs) auto
  show ?case
  proof (cases "f y < f x")
    case True
    then show ?thesis using Cons by simp
  next
    case False
    then have "\<forall>z\<in>set ys. f x \<le> f z" using Cons.prems by force
    then show ?thesis using False assms(2) past [of "filter P ys"] by auto
  qed
qed (simp add: assms(2))

lemma insert_by_start_before:
  assumes "sorted_wrt before is" "\<forall>jv\<in>set is. iv_start_utc jv < iv_end_utc jv \<and> \<not> overlapping jv iv" "iv_start_utc iv < iv_end_utc iv"
  shows "sorted_wrt before (insert_by_start iv_start_utc iv is)"
  using assms(1,2)
proof (induction "is")
  case (Cons y ys)
  have y: "iv_start_utc y < iv_end_utc y" "\<not> overlapping y iv" using Cons.prems(2) by simp_all
  show ?case
  proof (cases "iv_start_utc y < iv_start_utc iv")
    case True
    then have "before y iv" using y assms(3) by (auto simp: overlapping_def before_def)
    then show ?thesis using True Cons by simp
  next
    case False
    then have "before iv y" using y assms(3) by (auto simp: overlapping_def before_def)
    moreover have "before iv z" if "z \<in> set ys" for z
      using Cons.prems(1) that y(1) \<open>before iv y\<close> by (auto simp: before_def)
    ultimately show ?thesis using False Cons.prems(1) by simp
  qed
qed simp

lemma insert_intervals_ok:
  assumes "intervals_ok sc is" "IntervalValid sc iv" "\<forall>jv\<in>set is. \<not> overlapping jv iv"
  shows "intervals_ok sc (insert_by_start iv_start_utc iv is)"
proof -
  have "sorted_wrt before (insert_by_start iv_start_utc iv is)"
    using assms by (intro insert_by_start_before) (auto simp: intervals_ok_def intro: IntervalValid_order)
  moreover have "distinct (map iv_proof_commitment (insert_by_start iv_start_utc iv is))" if "distinct (map iv_proof_commitment is)"
    "\<forall>jv\<in>set is. iv_proof_commitment jv \<noteq> iv_proof_commitment iv" for "is" using that by (induction "is") auto
  ultimately show ?thesis using assms by (auto simp: intervals_ok_def overlapping_def)
qed

lemma duplicate_or_conflict_None: "duplicate_or_conflict iv is = None \<Longrightarrow> \<forall>jv\<in>set is. \<not> overlapping jv iv"
  by (induction "is") (auto split: if_split_asm)

lemma duplicate_or_conflict_Some: "duplicate_or_conflict iv is = Some r \<Longrightarrow> r \<noteq> ADDED \<and> (r = DUPLICATE \<longrightarrow> iv \<in> set is)"
  by (induction "is") (auto split: if_split_asm)

lemma conflict_free: "\<forall>jv\<in>set is. \<not> overlapping jv iv \<Longrightarrow> duplicate_or_conflict iv is = None"
  by (induction "is") (auto simp: overlapping_def)

lemma verified_total_insert:
  "verified_total through (insert_by_start iv_start_utc iv is) = verified_total through is + (if iv_period iv \<le> through then seconds_of_interval iv else 0)"
  by (induction "is") (auto simp: verified_total_def)

text \<open>The new interval enters both journals at the same place.\<close>

lemma insert_Consistent:
  assumes "Consistent sc is cs" "claims_ok sc cs"
  shows "Consistent sc (insert_by_start iv_start_utc iv is)
    (insert_by_start (\<lambda>cl. iv_start_utc (cl_interval cl)) \<lparr> cl_assignment = plan_commitment (sc_assignment sc), cl_interval = iv \<rparr> cs)"
proof -
  have v: "\<forall>cl\<in>set cs. iv_start_utc (cl_interval cl) < iv_end_utc (cl_interval cl)"
    using assms(2) by (auto simp: claims_ok_def intervals_ok_def intro: IntervalValid_order)
  have s: "sorted_wrt (\<lambda>a b. before (cl_interval a) (cl_interval b)) cs" using assms(2) by (simp add: claims_ok_def intervals_ok_def sorted_wrt_map)
  have "sorted_wrt (\<lambda>a b. iv_start_utc (cl_interval a) \<le> iv_start_utc (cl_interval b)) cs"
    by (rule sorted_wrt_mono_rel [OF _ s]) (use v in \<open>auto simp: before_def intro: order.trans less_imp_le\<close>)
  from insert_by_start_filter [OF this, of "\<lambda>cl. cl_assignment cl = plan_commitment (sc_assignment sc)"
      "\<lparr> cl_assignment = plan_commitment (sc_assignment sc), cl_interval = iv \<rparr>"]
  show ?thesis using assms(1) by (simp add: Consistent_def insert_by_start_map)
qed

lemma insert_claims_ok:
  assumes "claims_ok sc cs" "IntervalValid sc iv" "a \<noteq> 0" "\<not> list_ex (\<lambda>cl. overlapping (cl_interval cl) iv) cs"
  shows "claims_ok sc (insert_by_start (\<lambda>cl. iv_start_utc (cl_interval cl)) \<lparr> cl_assignment = a, cl_interval = iv \<rparr> cs)"
  using assms insert_intervals_ok [of sc "map cl_interval cs" iv] by (auto simp: claims_ok_def insert_by_start_map list_ex_iff)

section \<open>The journals over the store\<close>

lemma outer_close:
  assumes "ps_staged s = None" "Batch_open s = (b, s1)"
  shows "same_store s (Batch_close b s1)" "ps_staged (Batch_close b s1) = None"
  using assms by (auto simp: Batch_open_def Batch_close_def same_store_def)

text \<open>A call on an idle store reads the durable contents.\<close>

lemma Get_opened:
  assumes "store_ready A K N key s db" "ps_staged s = None" "n \<in> N"
  shows "Get A K db (snd (Batch_open s)) n = Inr (durable A s key db n)"
proof -
  obtain b s1 where o: "Batch_open s = (b, s1)" by fastforce
  have st: "ps_staged s1 = Some []" using assms(2) o by (auto simp: Batch_open_def)
  note eqs = same_store_functions [OF outer_open(1) [OF assms(2) o]]
  show ?thesis using Get_view [OF eqs(6) [THEN iffD2, OF assms(1)] assms(3)] o st by (simp add: eqs(5) overlay_def)
qed

lemma AccessKey_opened: "ps_staged s = None \<Longrightarrow> AccessKey A K db (snd (Batch_open s)) = AccessKey A K db s"
  using same_store_functions(1) [OF outer_open(1)] by (metis prod.collapse)

definition journal_names :: "crypto \<Rightarrow> StorageAssignmentEvidenceScope \<Rightarrow> string set \<Rightarrow> bool" where
  "journal_names C sc N \<longleftrightarrow> {Evidence_Key sc, FundedKey sc, FundedKey sc @ INITIALIZED} \<subseteq> N \<and> (\<exists>key. Assignment_Key C (sc_context sc) = Inr key \<and> key \<in> N)"

lemma key_names_differ:
  "Assignment_Key C c = Inr key \<Longrightarrow> key \<noteq> Evidence_Key sc \<and> key \<noteq> FundedKey sc \<and> key \<noteq> FundedKey sc @ INITIALIZED"
  "Evidence_Key sc \<noteq> FundedKey sc" "Evidence_Key sc \<noteq> FundedKey sc @ INITIALIZED" "FundedKey sc \<noteq> FundedKey sc @ INITIALIZED"
  by (auto simp: Assignment_Key_def bindE_Inr_iff Evidence_Key_def FundedKey_def INITIALIZED_def Let_def)

text \<open>The scope and the journals, as functions of the durable contents.\<close>

lemma ScopeValid_opened:
  assumes "store_ready A K N key s db" "ps_staged s = None" "Assignment_Key C (sc_context sc) = Inr ka" "ka \<in> N"
  shows "ScopeValid C A K sc (snd (Batch_open s)) db =
    (if \<not> scope_arithmetic sc then Inr False else case durable A s key db ka of None \<Rightarrow> Inr False
       | Some bs \<Rightarrow> bindE (catch_codec (read_plan C (sc_context sc) bs)) (\<lambda>plan. Inr (plan = Some (sc_assignment sc))))"
  using Get_opened [OF assms(1,2,4)] store_readyD(1) [OF assms(1)] AccessKey_opened [OF assms(2)] assms(3)
  by (simp add: ScopeValid_def IsUnlocked_def LoadStorageAssignment_def split: option.split)

lemma journals_written:
  assumes "store_ready A K N key s db" "ps_staged s = None" "journal_names C sc N"
    and "length is \<le> MAX_STORAGE_ASSIGNMENT_INTERVALS" "length cs \<le> MAX_STORAGE_ASSIGNMENT_INTERVALS" "intervals_ok sc is" "claims_ok sc cs" "Consistent sc is cs"
    and "durable A s key db (Evidence_Key sc) = Some (Evidence_Encode sc is)" "durable A s key db (FundedKey sc) = Some (EncodeClaims sc cs)"
    "durable A s key db (FundedKey sc @ INITIALIZED) = Some [1]"
  shows "read_journals C A K sc (snd (Batch_open s)) db = Inr (Some (is, cs))"
proof -
  have n: "Evidence_Key sc \<in> N" "FundedKey sc \<in> N" "FundedKey sc @ INITIALIZED \<in> N" using assms(3) by (auto simp: journal_names_def)
  note g = Get_opened [OF assms(1,2)]
  have "Read_bytes sc (Evidence_Encode sc is) = Inr (Some is)" using assms(4,6) by (simp add: Read_bytes_iff)
  then have e: "Evidence_Read A K sc (snd (Batch_open s)) db = Inr (Some is)" using g [OF n(1)] assms(9) by (simp add: Evidence_Read_def)
  have "Claims_bytes sc (EncodeClaims sc cs) = Inr (Some cs)" using assms(5,7) by (simp add: Claims_bytes_iff)
  then have "Claims A K sc (snd (Batch_open s)) db = Inr (Some cs)" using g [OF n(2)] g [OF n(3)] assms(10,11) by (simp add: Claims_def)
  then show ?thesis using e assms(8) by (simp add: read_journals_iff)
qed

lemma VerifiedSeconds_iff:
  "StorageAssignmentVerifiedSeconds C A K sc through s db = Inr (Some x) \<longleftrightarrow>
     ScopeValid C A K sc (snd (Batch_open s)) db = Inr True \<and> ctx_term_start (sc_context sc) \<le> through \<and> through < ctx_term_end (sc_context sc)
     \<and> (\<exists>is cs. read_journals C A K sc (snd (Batch_open s)) db = Inr (Some (is, cs)) \<and> unat x = verified_total through is)"
proof -
  have count: "unat (foldl (\<lambda>seconds iv. if iv_period iv \<le> through then seconds + (iv_end_utc iv - iv_start_utc iv) else seconds) (0 :: u64) is) = verified_total through is"
    if "ScopeValid C A K sc (snd (Batch_open s)) db = Inr True" "ctx_term_start (sc_context sc) \<le> through" "through < ctx_term_end (sc_context sc)"
      "read_journals C A K sc (snd (Batch_open s)) db = Inr (Some (is, cs))" for "is" cs
  proof -
    have ok: "intervals_ok sc is" using read_journals_ok [OF that(4)] by simp
    have "\<forall>iv\<in>set is. iv_start_utc iv \<le> iv_end_utc iv" using ok by (auto simp: intervals_ok_def intro: less_imp_le IntervalValid_order)
    from verified_fold [OF this, of 0 through] verified_total_bound(2) [OF ScopeValid_arithmetic [OF that(1)] ok that(2,3)] show ?thesis by simp
  qed
  have inj: "x = y \<longleftrightarrow> unat x = unat y" for x y :: u64 by (auto intro: unsigned_word_eqI [where 'a = nat])
  show ?thesis
  proof
    assume "StorageAssignmentVerifiedSeconds C A K sc through s db = Inr (Some x)"
    then show "ScopeValid C A K sc (snd (Batch_open s)) db = Inr True \<and> ctx_term_start (sc_context sc) \<le> through \<and> through < ctx_term_end (sc_context sc)
     \<and> (\<exists>is cs. read_journals C A K sc (snd (Batch_open s)) db = Inr (Some (is, cs)) \<and> unat x = verified_total through is)"
      using count by (auto simp: StorageAssignmentVerifiedSeconds_def bindE_Inr_iff not_less not_le split: prod.split_asm if_split_asm option.split_asm)
  next
    assume a: "ScopeValid C A K sc (snd (Batch_open s)) db = Inr True \<and> ctx_term_start (sc_context sc) \<le> through \<and> through < ctx_term_end (sc_context sc)
     \<and> (\<exists>is cs. read_journals C A K sc (snd (Batch_open s)) db = Inr (Some (is, cs)) \<and> unat x = verified_total through is)"
    then obtain "is" cs where j: "read_journals C A K sc (snd (Batch_open s)) db = Inr (Some (is, cs))" "unat x = verified_total through is" by blast
    then show "StorageAssignmentVerifiedSeconds C A K sc through s db = Inr (Some x)"
      using a count [of "is" cs] by (auto simp: StorageAssignmentVerifiedSeconds_def split_beta not_less not_le inj)
  qed
qed

text \<open>The three records of an accepted interval, staged and committed together.\<close>

lemma put_names:
  assumes "store_ready A K N key s db" "block_rel N d s (m, f)" "same_store s0 s" "n \<in> N" "length v \<le> MAX_VALUE_BYTES"
  shows "\<exists>s1. Put A K nonce w n v s db = Inr (True, s1, db) \<and> same_store s0 s1 \<and> block_rel N d s1 (m(n \<mapsto> v), f)"
  using block_put [OF assms(1,2), of n nonce w v] store_readyD(3) [OF assms(1,4)] assms(3,4,5) same_store_trans by auto

lemma store_journals_effect:
  assumes ready: "store_ready A K N key s db" and idle: "ps_staged s = None" and o: "Batch_open s = (b, s1)"
    and names: "{Evidence_Key sc, FundedKey sc, FundedKey sc @ INITIALIZED} \<subseteq> N"
    and sizes: "length is \<le> MAX_STORAGE_ASSIGNMENT_INTERVALS" "length cs \<le> MAX_STORAGE_ASSIGNMENT_INTERVALS"
  shows "\<exists>ok s' db'. store_journals A K nonces w b sc is cs s1 db = Inr (if ok then ADDED else REJECTED, s', db')
    \<and> ps_staged s' = None \<and> same_store s s' \<and> store_ready A K N key s' db' \<and> (\<not> ok \<and> w \<noteq> WriteApplied \<longrightarrow> db' = db)
    \<and> (ok \<longrightarrow> (\<forall>n\<in>N. durable A s' key db' n = ((durable A s key db)(Evidence_Key sc \<mapsto> Evidence_Encode sc is, FundedKey sc \<mapsto> EncodeClaims sc cs,
         FundedKey sc @ INITIALIZED \<mapsto> [1])) n))
    \<and> (w = WriteOk \<and> (\<forall>i. nonces i \<noteq> None)
        \<and> (\<forall>nonce n v. n \<in> N \<longrightarrow> length v \<le> MAX_VALUE_BYTES \<longrightarrow> aead_encrypt A key nonce (AssociatedData (ps_account s) n) v \<noteq> None) \<longrightarrow> ok)"
proof -
  let ?d = "durable A s key db"
  let ?k1 = "Evidence_Key sc" and ?k2 = "FundedKey sc" and ?k3 = "FundedKey sc @ INITIALIZED"
  let ?v1 = "Evidence_Encode sc is" and ?v2 = "EncodeClaims sc cs" and ?v3 = "[1 :: byte]"
  have small: "length ?v1 \<le> MAX_VALUE_BYTES" "length ?v2 \<le> MAX_VALUE_BYTES" "length ?v3 \<le> MAX_VALUE_BYTES"
    using sizes by (simp_all add: MAX_VALUE_BYTES_def Evidence_Encode_def EncodeClaims_def length_concat_fixed [where k = 56] length_concat_fixed [where k = 88]
        MAX_STORAGE_ASSIGNMENT_INTERVALS_def)
  note open1 = outer_open [OF idle o]
  have ready': "store_ready A K N key t db" if "same_store s t" for t using same_store_functions(6) [OF that] ready by simp
  obtain s2 where s2: "Put A K None WriteLost ?k1 ?v1 s1 db = Inr (True, s2, db)" "same_store s s2" "block_rel N ?d s2 (?d(?k1 \<mapsto> ?v1), False)"
    using put_names [OF ready' [OF open1(1)] open1(3) [of N ?d] open1(1), of ?k1 ?v1 None WriteLost] names small by auto
  obtain s3 where s3: "Put A K None WriteLost ?k2 ?v2 s2 db = Inr (True, s3, db)" "same_store s s3" "block_rel N ?d s3 (?d(?k1 \<mapsto> ?v1, ?k2 \<mapsto> ?v2), False)"
    using put_names [OF ready' [OF s2(2)] s2(3) s2(2), of ?k2 ?v2 None WriteLost] names small by auto
  obtain s4 where s4: "Put A K None WriteLost ?k3 ?v3 s3 db = Inr (True, s4, db)" "same_store s s4" "block_rel N ?d s4 (?d(?k1 \<mapsto> ?v1, ?k2 \<mapsto> ?v2, ?k3 \<mapsto> ?v3), False)"
    using put_names [OF ready' [OF s3(2)] s3(3) s3(2), of ?k3 ?v3 None WriteLost] names small by auto
  from outer_commit [OF ready open1(2) s4(3) s4(2), of nonces w] obtain ok b' s' db' where
    c: "Batch_Commit A K nonces w b s4 db = (Inr ok, b', s', db')" "Batch_close b' s' = s'"
    "ps_staged s' = None" "same_store s s'" "store_ready A K N key s' db'" "ok \<longrightarrow> (\<forall>n\<in>N. durable A s' key db' n = (?d(?k1 \<mapsto> ?v1, ?k2 \<mapsto> ?v2, ?k3 \<mapsto> ?v3)) n)"
    "\<not> ok \<and> w \<noteq> WriteApplied \<longrightarrow> db' = db"
    "w = WriteOk \<and> (\<forall>i. nonces i \<noteq> None)
        \<and> (\<forall>nonce n v. n \<in> N \<longrightarrow> length v \<le> MAX_VALUE_BYTES \<longrightarrow> aead_encrypt A key nonce (AssociatedData (ps_account s) n) v \<noteq> None) \<longrightarrow> ok" by blast
  show ?thesis by (rule exI [of _ ok], rule exI [of _ s'], rule exI [of _ db']) (use s2(1) s3(1) s4(1) c in \<open>simp add: store_journals_def\<close>)
qed

section \<open>Frozen plans are read back\<close>

lemma reader_context_iff: "reader_context bs = Inr (c, r) \<longleftrightarrow> bs = Context_bytes c @ r"
  by (cases c) (auto simp: reader_context_def Context_bytes_def bindE_Inr_iff reader_iffs)

lemma reader_provider_iff: "reader_provider bs = Inr (p, r) \<longleftrightarrow> bs = (hash_bytes (prov_storage_id p) @ hash_bytes (prov_payout_account p)) @ r"
  by (cases p) (auto simp: reader_provider_def bindE_Inr_iff reader_iffs)

lemma reader_providers_read:
  assumes "length ps \<le> maximum" "maximum < 2 ^ 32"
  shows "reader_providers maximum (Providers_bytes ps @ r) = Inr (ps, r)"
proof -
  have u: "unat (of_nat (length ps) :: u32) = length ps" using assms by (simp add: unsigned_of_nat take_bit_nat_eq_self_iff)
  have "reader_U32 (Providers_bytes ps @ r) = Inr (of_nat (length ps),
      concat (map (\<lambda>p. hash_bytes (prov_storage_id p) @ hash_bytes (prov_payout_account p)) ps) @ r)" by (simp add: reader_U32_iff Providers_bytes_def)
  moreover have "reader_many reader_provider (length ps) (concat (map (\<lambda>p. hash_bytes (prov_storage_id p) @ hash_bytes (prov_payout_account p)) ps) @ r) = Inr (ps, r)"
    by (subst reader_many_iff [OF reader_provider_iff]) simp
  ultimately show ?thesis using u assms(1) by (simp add: reader_providers_def)
qed

lemma prepared_sizes:
  assumes "PrepareStorageAssignment C c eligible = Inr (Some plan)"
  shows "length eligible \<le> MAX_STORAGE_ASSIGNMENT_CANDIDATES" "length (plan_selected plan) \<le> 2"
proof -
  have g: "\<not> ctx_replicas c > 2" "\<not> length eligible > MAX_STORAGE_ASSIGNMENT_CANDIDATES"
    using assms by (auto simp: PrepareStorageAssignment_def split: if_split_asm)
  then show "length eligible \<le> MAX_STORAGE_ASSIGNMENT_CANDIDATES" by simp
  have "unat (ctx_replicas c) \<le> 2" using g(1) by (simp add: word_less_nat_alt not_less)
  then show "length (plan_selected plan) \<le> 2" using PrepareStorageAssignment_Some [OF assms] by simp
qed

lemma read_plan_encoded:
  assumes "PrepareStorageAssignment C (plan_context plan) (plan_eligible plan) = Inr (Some plan)"
  shows "read_plan C (plan_context plan) (Plan_Encode plan True) = Inr (Some plan)"
proof -
  note l = prepared_sizes [OF assms]
  have o: "reader_open CODEC_LIMIT (Plan_Encode plan True) = Inr (Plan_Encode plan True)"
    using Plan_Encode_fits [OF l] by (simp add: reader_open_iff CODEC_LIMIT_def)
  have c: "reader_context (Plan_Encode plan True) = Inr (plan_context plan, Providers_bytes (plan_eligible plan) @ Providers_bytes (plan_selected plan))"
    by (simp add: reader_context_iff Plan_Encode_def)
  have e: "reader_providers MAX_STORAGE_ASSIGNMENT_CANDIDATES (Providers_bytes (plan_eligible plan) @ Providers_bytes (plan_selected plan))
      = Inr (plan_eligible plan, Providers_bytes (plan_selected plan))"
    using l(1) by (intro reader_providers_read) (simp_all add: MAX_STORAGE_ASSIGNMENT_CANDIDATES_def)
  have f: "reader_providers 2 (Providers_bytes (plan_selected plan)) = Inr (plan_selected plan, [])"
    using reader_providers_read [OF l(2), of "[]"] by simp
  show ?thesis using assms by (simp add: read_plan_def o c e f reader_Finish_def)
qed

text \<open>The encoding determines the plan.\<close>

lemma Plan_Encode_inj:
  assumes "PrepareStorageAssignment C (plan_context p) (plan_eligible p) = Inr (Some p)" "PrepareStorageAssignment C (plan_context q) (plan_eligible q) = Inr (Some q)"
    and "Plan_Encode p True = Plan_Encode q True"
  shows "p = q"
proof -
  have c: "reader_context (Plan_Encode r True) = Inr (plan_context r, Providers_bytes (plan_eligible r) @ Providers_bytes (plan_selected r))" for r
    by (simp add: reader_context_iff Plan_Encode_def)
  have "plan_context p = plan_context q" using c [of p] c [of q] unfolding assms(3) by simp
  then have "read_plan C (plan_context p) (Plan_Encode p True) = read_plan C (plan_context q) (Plan_Encode q True)" using assms(3) by simp
  then show ?thesis unfolding read_plan_encoded [OF assms(1)] read_plan_encoded [OF assms(2)] by simp
qed

lemma Has_opened:
  assumes "store_ready A K N key s db" "ps_staged s = None" "n \<in> N"
  shows "\<exists>has. Has A K db (snd (Batch_open s)) n = Inr has"
proof -
  obtain b s1 where o: "Batch_open s = (b, s1)" by fastforce
  have st: "ps_staged s1 = Some []" using assms(2) o by (auto simp: Batch_open_def)
  have r1: "store_ready A K N key s1 db" using same_store_functions(6) [OF outer_open(1) [OF assms(2) o]] assms(1) by simp
  show ?thesis using store_readyD(1,4,5) [OF r1] assms(3) st o by (simp add: Has_def KV_Exists_def ReadRaw_def)
qed

section \<open>Properties\<close>

text \<open>The seconds reported for a replica are exact and bounded, whatever the database holds. If \<^verbatim>\<open>StorageAssignmentVerifiedSeconds\<close> returns a number, it is the
  sum of the lengths of the recorded intervals of the periods up to the requested one, without wrap-around; these intervals are pairwise disjoint, each lies inside
  its period, they carry distinct proofs, and they are exactly what the journal shared by all replacements attributes to this assignment; so the
  sum is at most the elapsed periods times their length. The shared journal itself is disjoint, hence no second is ever counted for two assignments.
\<close>

theorem verified_seconds_bounded:
  assumes "StorageAssignmentVerifiedSeconds C A K sc through s db = Inr (Some seconds)"
  shows "\<exists>is cs. read_journals C A K sc (snd (Batch_open s)) db = Inr (Some (is, cs))
    \<and> unat seconds = (\<Sum>iv\<leftarrow>filter (\<lambda>iv. iv_period iv \<le> through) is. unat (iv_end_utc iv) - unat (iv_start_utc iv))
    \<and> unat seconds \<le> (unat through - unat (ctx_term_start (sc_context sc)) + 1) * unat (sc_period_seconds sc)
    \<and> is = map cl_interval (filter (\<lambda>cl. cl_assignment cl = plan_commitment (sc_assignment sc)) cs)
    \<and> sorted_wrt (\<lambda>a b. iv_end_utc (cl_interval a) \<le> iv_start_utc (cl_interval b)) cs \<and> (\<forall>cl\<in>set cs. IntervalValid sc (cl_interval cl))
    \<and> distinct (map (\<lambda>cl. iv_proof_commitment (cl_interval cl)) cs)"
proof -
  obtain "is" cs where r: "ScopeValid C A K sc (snd (Batch_open s)) db = Inr True" "ctx_term_start (sc_context sc) \<le> through" "through < ctx_term_end (sc_context sc)"
    "read_journals C A K sc (snd (Batch_open s)) db = Inr (Some (is, cs))" "unat seconds = verified_total through is"
    using assms unfolding VerifiedSeconds_iff by blast
  have ok: "intervals_ok sc is" "claims_ok sc cs" "Consistent sc is cs" using read_journals_ok [OF r(4)] by simp_all
  note b = verified_total_bound(1) [OF ScopeValid_arithmetic [OF r(1)] ok(1) r(2,3)]
  have e: "verified_total through is = (\<Sum>iv\<leftarrow>filter (\<lambda>iv. iv_period iv \<le> through) is. unat (iv_end_utc iv) - unat (iv_start_utc iv))"
    by (simp add: verified_total_def seconds_of_interval_def [abs_def])
  show ?thesis
    by (rule exI [of _ "is"], rule exI [of _ cs]) (use r(4,5) e b ok(2,3) in
      \<open>auto simp: claims_ok_def intervals_ok_def sorted_wrt_map before_def [abs_def] Consistent_def comp_def\<close>)
qed

text \<open>The answers that write nothing: an invalid interval, one already recorded, and one that meets a claim or finds no room.\<close>

lemma append_refused:
  assumes o: "Batch_open s = (b, s1)" and v: "ScopeValid C A K sc s1 db = Inr True" and j: "read_journals C A K sc s1 db = Inr (Some (is, cs))"
    and refused: "\<not> (IntervalValid sc iv \<and> iv_end_utc iv \<le> verified_through \<and> length cs < MAX_STORAGE_ASSIGNMENT_INTERVALS
      \<and> (\<forall>cl\<in>set cs. \<not> overlapping (cl_interval cl) iv))"
  shows "\<exists>r. AppendStorageAssignmentEvidence C A K nonces w sc iv verified_through s db = Inr (r, Batch_close b s1, db)
    \<and> r \<noteq> ADDED \<and> (r = DUPLICATE \<longrightarrow> iv \<in> set is)"
proof (cases "IntervalValid sc iv \<and> iv_end_utc iv \<le> verified_through")
  case False
  then show ?thesis using o v by (auto simp: AppendStorageAssignmentEvidence_def not_le)
next
  case True
  show ?thesis
  proof (cases "duplicate_or_conflict iv is")
    case None
    have "length cs \<ge> MAX_STORAGE_ASSIGNMENT_INTERVALS \<or> list_ex (\<lambda>cl. overlapping (cl_interval cl) iv) cs" using refused True by (auto simp: list_ex_iff)
    then show ?thesis using None True o v j by (auto simp: AppendStorageAssignmentEvidence_def)
  next
    case (Some r)
    then show ?thesis using duplicate_or_conflict_Some [OF Some] True o v j by (auto simp: AppendStorageAssignmentEvidence_def)
  qed
qed

lemma append_accepted:
  assumes o: "Batch_open s = (b, s1)" and v: "ScopeValid C A K sc s1 db = Inr True" and j: "read_journals C A K sc s1 db = Inr (Some (is, cs))"
    and new: "IntervalValid sc iv" "iv_end_utc iv \<le> verified_through" "length cs < MAX_STORAGE_ASSIGNMENT_INTERVALS" "\<forall>cl\<in>set cs. \<not> overlapping (cl_interval cl) iv"
  shows "duplicate_or_conflict iv is = None" "length is < MAX_STORAGE_ASSIGNMENT_INTERVALS"
    "AppendStorageAssignmentEvidence C A K nonces w sc iv verified_through s db = store_journals A K nonces w b sc (insert_by_start iv_start_utc iv is)
       (insert_by_start (\<lambda>cl. iv_start_utc (cl_interval cl)) \<lparr> cl_assignment = plan_commitment (sc_assignment sc), cl_interval = iv \<rparr> cs) s1 db"
proof -
  show r: "duplicate_or_conflict iv is = None" "length is < MAX_STORAGE_ASSIGNMENT_INTERVALS"
    using new(3,4) conflict_free [of "is" iv] read_journals_ok [OF j] by (auto simp: Consistent_def intro: le_less_trans [OF length_filter_le])
  have "\<not> list_ex (\<lambda>cl. overlapping (cl_interval cl) iv) cs" using new(4) by (simp add: list_ex_iff)
  then show "AppendStorageAssignmentEvidence C A K nonces w sc iv verified_through s db = store_journals A K nonces w b sc (insert_by_start iv_start_utc iv is)
       (insert_by_start (\<lambda>cl. iv_start_utc (cl_interval cl)) \<lparr> cl_assignment = plan_commitment (sc_assignment sc), cl_interval = iv \<rparr> cs) s1 db"
    using o v j new(1-3) r by (simp add: AppendStorageAssignmentEvidence_def Let_def not_less [symmetric])
qed

text \<open>Once both journals are on disk, the seconds of the interval are counted.\<close>

lemma seconds_after_insert:
  assumes ready: "store_ready A K N key s db" and idle: "ps_staged s = None" and names: "journal_names C sc N" and nonzero: "plan_commitment (sc_assignment sc) \<noteq> 0"
    and j: "read_journals C A K sc (snd (Batch_open s0)) db0 = Inr (Some (is, cs))"
    and new: "IntervalValid sc iv" "duplicate_or_conflict iv is = None" "\<forall>cl\<in>set cs. \<not> overlapping (cl_interval cl) iv"
      "length is < MAX_STORAGE_ASSIGNMENT_INTERVALS" "length cs < MAX_STORAGE_ASSIGNMENT_INTERVALS"
    and d: "durable A s key db (Evidence_Key sc) = Some (Evidence_Encode sc (insert_by_start iv_start_utc iv is))"
      "durable A s key db (FundedKey sc) = Some (EncodeClaims sc (insert_by_start (\<lambda>cl. iv_start_utc (cl_interval cl))
         \<lparr> cl_assignment = plan_commitment (sc_assignment sc), cl_interval = iv \<rparr> cs))"
      "durable A s key db (FundedKey sc @ INITIALIZED) = Some [1]"
    and v: "ScopeValid C A K sc (snd (Batch_open s)) db = Inr True"
    and through: "ctx_term_start (sc_context sc) \<le> through" "through < ctx_term_end (sc_context sc)"
  shows "\<exists>y. StorageAssignmentVerifiedSeconds C A K sc through s db = Inr (Some y)
    \<and> unat y = verified_total through is + (if iv_period iv \<le> through then unat (iv_end_utc iv) - unat (iv_start_utc iv) else 0)"
proof -
  let ?is = "insert_by_start iv_start_utc iv is"
  let ?cs = "insert_by_start (\<lambda>cl. iv_start_utc (cl_interval cl)) \<lparr> cl_assignment = plan_commitment (sc_assignment sc), cl_interval = iv \<rparr> cs"
  have ok: "intervals_ok sc is" "claims_ok sc cs" "Consistent sc is cs" using read_journals_ok [OF j] by simp_all
  have len: "length ?is \<le> MAX_STORAGE_ASSIGNMENT_INTERVALS" "length ?cs \<le> MAX_STORAGE_ASSIGNMENT_INTERVALS" using new(4,5) by auto
  have j': "read_journals C A K sc (snd (Batch_open s)) db = Inr (Some (?is, ?cs))"
    by (rule journals_written [OF ready idle names len _ _ insert_Consistent [OF ok(3,2)] d])
      (use ok new nonzero duplicate_or_conflict_None [OF new(2)] in \<open>auto simp: list_ex_iff intro: insert_intervals_ok insert_claims_ok\<close>)
  have t: "verified_total through ?is = verified_total through is + (if iv_period iv \<le> through then unat (iv_end_utc iv) - unat (iv_start_utc iv) else 0)"
    by (simp add: verified_total_insert seconds_of_interval_def)
  have "verified_total through ?is < 2 ^ 64"
    using verified_total_bound(2) [OF ScopeValid_arithmetic [OF v] _ through] read_journals_ok [OF j'] by blast
  then have "unat (of_nat (verified_total through ?is) :: u64) = verified_total through ?is" by (simp add: unsigned_of_nat take_bit_nat_eq_self_iff)
  then show ?thesis using v j' through t unfolding VerifiedSeconds_iff by (intro exI [of _ "of_nat (verified_total through ?is)"]) auto
qed


text \<open>What an accepted freeze leaves on disk, whether it wrote the plan or found it.\<close>

lemma freeze_stores:
  assumes ready: "store_ready A K N key s db" and idle: "ps_staged s = None" and ka: "Assignment_Key C (plan_context plan) = Inr ka" "ka \<in> N"
    and freeze: "FreezeStorageAssignment C A K nonces w plan s db = Inr (True, s', db')"
  shows "PrepareStorageAssignment C (plan_context plan) (plan_eligible plan) = Inr (Some plan)"
    "ps_staged s' = None \<and> store_ready A K N key s' db' \<and> durable A s' key db' ka = Some (Plan_Encode plan True)"
proof -
  obtain b s1 where o: "Batch_open s = (b, s1)" by fastforce
  show prep: "PrepareStorageAssignment C (plan_context plan) (plan_eligible plan) = Inr (Some plan)"
    using freeze by (auto simp: FreezeStorageAssignment_def bindE_Inr_iff split: if_split_asm)
  have size: "length (Plan_Encode plan True) \<le> MAX_VALUE_BYTES"
    using Plan_Encode_fits [OF prepared_sizes [OF prep], of True] by (simp add: MAX_VALUE_BYTES_def)
  have got: "Get A K db s1 ka = Inr (durable A s key db ka)" using Get_opened [OF ready idle ka(2)] o by simp
  obtain has where has: "Has A K db s1 ka = Inr has" using Has_opened [OF ready idle ka(2)] o by auto
  note open1 = outer_open [OF idle o] and close = outer_close [OF idle o]
  have ready1: "store_ready A K N key t db" if "same_store s t" for t using same_store_functions(6) [OF that] ready by simp
  show "ps_staged s' = None \<and> store_ready A K N key s' db' \<and> durable A s' key db' ka = Some (Plan_Encode plan True)"
  proof (cases "durable A s key db ka")
    case (Some p)
    then have "p = Plan_Encode plan True" "s' = Batch_close b s1" "db' = db" using freeze prep o ka(1) got by (simp_all add: FreezeStorageAssignment_def)
    then show ?thesis using Some close ready1 [OF close(1)] same_store_functions(5) [OF close(1)] by simp
  next
    case None
    obtain s2 where s2: "Put A K None WriteLost ka (Plan_Encode plan True) s1 db = Inr (True, s2, db)" "same_store s s2"
      "block_rel N (durable A s key db) s2 ((durable A s key db)(ka \<mapsto> Plan_Encode plan True), False)"
      using put_names [OF ready1 [OF open1(1)] open1(3) [of N "durable A s key db"] open1(1) ka(2) size, of None WriteLost] by blast
    from outer_commit [OF ready open1(2) s2(3,2), of nonces w] obtain ok b' s3 db3 where
      c: "Batch_Commit A K nonces w b s2 db = (Inr ok, b', s3, db3)" "Batch_close b' s3 = s3" "ps_staged s3 = None" "store_ready A K N key s3 db3"
      "ok \<longrightarrow> (\<forall>n\<in>N. durable A s3 key db3 n = ((durable A s key db)(ka \<mapsto> Plan_Encode plan True)) n)" by blast
    have "ok \<and> s' = s3 \<and> db' = db3" using freeze prep o ka(1) got None has s2(1) c(1,2) by (simp add: FreezeStorageAssignment_def split: if_split_asm)
    then show ?thesis using c ka(2) by simp
  qed
qed


section \<open>A funded slot\<close>

definition slot_crypto :: crypto where
  "slot_crypto = sample_crypto \<lparr> evp_sha256 := (\<lambda>_. Some 7), blake3 := (\<lambda>_. 6) \<rparr>"

definition slot_context :: StorageAssignmentContext where
  "slot_context = sample_context \<lparr> ctx_network_binding := 7 \<rparr>"

definition slot_plan :: StorageAssignmentPlan where
  "slot_plan = \<lparr> plan_context = slot_context, plan_eligible = [\<lparr> prov_storage_id = 6, prov_payout_account = 8 \<rparr>],
     plan_selected = [\<lparr> prov_storage_id = 6, prov_payout_account = 8 \<rparr>], plan_commitment = 7 \<rparr>"

definition slot_scope :: StorageAssignmentEvidenceScope where
  "slot_scope = \<lparr> sc_assignment = slot_plan, sc_replica_slot = 0, sc_term_start_utc = 1000, sc_period_seconds = 60 \<rparr>"

definition slot_interval :: StorageAssignmentInterval where
  "slot_interval = \<lparr> iv_period = 11, iv_start_utc = 1070, iv_end_utc = 1090, iv_proof_commitment = 3 \<rparr>"

definition slot_key :: string where
  "slot_key = ''storage/assignment/'' @ GetHex 7"

definition slot_names :: "string set" where
  "slot_names = {slot_key, Evidence_Key slot_scope, FundedKey slot_scope, FundedKey slot_scope @ INITIALIZED}"

lemma slot_plan_prepared: "PrepareStorageAssignment slot_crypto (plan_context slot_plan) (plan_eligible slot_plan) = Inr (Some slot_plan)"
  by (simp add: slot_plan_def PrepareStorageAssignment_def slot_context_def sample_context_def canonical_providers_def groups_push_def map_contains_def
      map_emplace_def MAX_STORAGE_ASSIGNMENT_CANDIDATES_def Shuffle_def Assignment_Digest_def slot_crypto_def
      word_less_nat_alt word_le_nat_alt Let_def)

lemma slot_key: "Assignment_Key slot_crypto c = Inr slot_key"
  by (simp add: Assignment_Key_def Assignment_Digest_def slot_crypto_def slot_key_def)

lemma slot_lengths: "length slot_key = 83" "length (Evidence_Key slot_scope) = 94" "length (FundedKey slot_scope) = 296" "length INITIALIZED = 12"
  by code_simp+

lemma slot_journal_names: "journal_names slot_crypto slot_scope slot_names"
  by (simp add: journal_names_def slot_names_def slot_key)

lemma slot_ready: "store_ready toy_sealing toy_keystore slot_names 9 toy_store toy_db"
proof -
  have v: "valid_name n" if "27 < length n" "length n \<le> 512" for n
    using that by (auto simp: valid_name_def MAX_NAME_BYTES_def CHECK_NAME_def)
  have n: "valid_name m" if "m \<in> slot_names" for m using that by (auto simp: slot_names_def slot_lengths intro!: v)
  have i: "inj_on (row_of toy_sealing (ps_account toy_store) 9) slot_names"
    by (simp add: inj_on_def slot_names_def row_of_def toy_sealing_def AssociatedData_def RECORD_DOMAIN_def slot_lengths)
  have k: "AccessKey toy_sealing toy_keystore toy_db toy_store = Inr (Some 9)"
    by (simp add: AccessKey_def toy_sealing_def toy_keystore_def toy_store_def)
  show ?thesis unfolding store_ready_def using n i k by (simp add: toy_sealing_def toy_db_def)
qed

text \<open>A store with the frozen plan and two empty journals.\<close>

lemma slot_db:
  "\<exists>db. store_ready toy_sealing toy_keystore slot_names 9 toy_store db \<and> durable toy_sealing toy_store 9 db slot_key = Some (Plan_Encode slot_plan True)
    \<and> durable toy_sealing toy_store 9 db (Evidence_Key slot_scope) = Some (Evidence_Encode slot_scope [])
    \<and> durable toy_sealing toy_store 9 db (FundedKey slot_scope) = Some (EncodeClaims slot_scope []) \<and> durable toy_sealing toy_store 9 db (FundedKey slot_scope @ INITIALIZED) = Some [1]"
proof -
  let ?st = "map_assign slot_key (Some (Plan_Encode slot_plan True)) (map_assign (Evidence_Key slot_scope) (Some (Evidence_Encode slot_scope []))
     (map_assign (FundedKey slot_scope) (Some (EncodeClaims slot_scope [])) (map_assign (FundedKey slot_scope @ INITIALIZED) (Some [1]) [])))"
  have l: "length (Plan_Encode slot_plan True) \<le> MAX_VALUE_BYTES"
    using Plan_Encode_fits [OF prepared_sizes [OF slot_plan_prepared], of True] by (simp add: MAX_VALUE_BYTES_def)
  have ok: "staged_ok slot_names ?st"
    by (intro staged_ok_assign) (use l in \<open>auto simp: staged_ok_def slot_names_def Evidence_Encode_def EncodeClaims_def MAX_VALUE_BYTES_def\<close>)
  have "build_batch toy_sealing toy_store 9 (\<lambda>_. Some 0) ?st [] \<noteq> None"
    by (rule build_batch_total [OF slot_ready ok]) (simp_all add: toy_sealing_def)
  then obtain db where "store_ready toy_sealing toy_keystore slot_names 9 toy_store db"
    "\<forall>n\<in>slot_names. durable toy_sealing toy_store 9 db n = overlay ?st (durable toy_sealing toy_store 9 toy_db) n"
    using WriteChanges_effect [OF slot_ready ok, of "\<lambda>_. Some 0" WriteOk] by blast
  then show ?thesis using key_names_differ(2-4) [of slot_scope] key_names_differ(1) [OF slot_key, of slot_scope]
    by (intro exI [of _ db]) (auto simp: overlay_assign slot_names_def)
qed

lemma slot_counted:
  assumes "store_ready toy_sealing toy_keystore slot_names 9 toy_store db" "durable toy_sealing toy_store 9 db slot_key = Some (Plan_Encode slot_plan True)"
    "durable toy_sealing toy_store 9 db (Evidence_Key slot_scope) = Some (Evidence_Encode slot_scope [])"
    "durable toy_sealing toy_store 9 db (FundedKey slot_scope) = Some (EncodeClaims slot_scope [])" "durable toy_sealing toy_store 9 db (FundedKey slot_scope @ INITIALIZED) = Some [1]"
  shows "StorageAssignmentVerifiedSeconds slot_crypto toy_sealing toy_keystore slot_scope 11 toy_store db = Inr (Some 0)"
proof -
  have idle: "ps_staged toy_store = None" by (simp add: toy_store_def)
  have j: "read_journals slot_crypto toy_sealing toy_keystore slot_scope (snd (Batch_open toy_store)) db = Inr (Some ([], []))"
    by (rule journals_written [OF assms(1) idle slot_journal_names _ _ _ _ _ assms(3-5)]) (simp_all add: Consistent_def)
  have "scope_arithmetic slot_scope"
    by (simp add: scope_arithmetic_def slot_scope_def slot_plan_def slot_context_def sample_context_def Let_def word_less_nat_alt word_le_nat_alt)
  then have "ScopeValid slot_crypto toy_sealing toy_keystore slot_scope (snd (Batch_open toy_store)) db = Inr True"
    using ScopeValid_opened [OF assms(1) idle slot_key, of slot_scope] assms(2) read_plan_encoded [OF slot_plan_prepared]
    by (simp add: slot_names_def catch_codec_def) (simp add: slot_scope_def)
  then show ?thesis unfolding VerifiedSeconds_iff using j
    by (simp add: verified_total_def slot_scope_def slot_plan_def slot_context_def sample_context_def)
qed

theorem verified_seconds_bounded_witness:
  "\<exists>db. StorageAssignmentVerifiedSeconds slot_crypto toy_sealing toy_keystore slot_scope 11 toy_store db = Inr (Some 0) \<and> unat (0 :: u64) \<le> (11 - 10 + 1) * 60"
proof -
  obtain db where "StorageAssignmentVerifiedSeconds slot_crypto toy_sealing toy_keystore slot_scope 11 toy_store db = Inr (Some 0)"
    using slot_db slot_counted by blast
  from verified_seconds_bounded [OF this] this show ?thesis by (auto simp: slot_scope_def slot_plan_def slot_context_def sample_context_def)
qed

lemma slot_journals:
  assumes "store_ready toy_sealing toy_keystore slot_names 9 toy_store db"
    "durable toy_sealing toy_store 9 db (Evidence_Key slot_scope) = Some (Evidence_Encode slot_scope [])"
    "durable toy_sealing toy_store 9 db (FundedKey slot_scope) = Some (EncodeClaims slot_scope [])" "durable toy_sealing toy_store 9 db (FundedKey slot_scope @ INITIALIZED) = Some [1]"
  shows "read_journals slot_crypto toy_sealing toy_keystore slot_scope (snd (Batch_open toy_store)) db = Inr (Some ([], []))"
  by (rule journals_written [OF assms(1) _ slot_journal_names _ _ _ _ _ assms(2-4)]) (simp_all add: Consistent_def toy_store_def)



end
