(* ===== verification/AssignmentPayout.thy ===== *)
theory AssignmentPayout
  imports AssignmentEvidence Settlement SampleStore
begin

text \<open>
  Attested assignments and the payout quotes computed from their evidence (\<^verbatim>\<open>storage_assignment_attestation.h/.cpp\<close>,
  \<^verbatim>\<open>storage_assignment_payout.h/.cpp\<close>). Shown: the portable attestation is read back exactly; a quote never exceeds the budget of its slot
  and of its term, and its entries are the exact floors of the verified shares; the linear merge of the two journals of a chunk finds
  every pair of overlapping claims, so that in an accepted term two replicas are never served by one provider or paid to one account
  at the same time.
\<close>

section \<open>Attestations\<close>

record StorageAssignmentBindingProof =
  bp_storage_id :: "256 word"
  bp_binding :: StoragePayoutBinding

record AttestedStorageAssignment =
  aa_plan :: StorageAssignmentPlan
  aa_signature :: IdentityHybridSignature

abbreviation GetPoaPublicKey :: "VerifiedNetworkGenesis \<Rightarrow> IdentityHybridPublicKey" where
  "GetPoaPublicKey g \<equiv> ng_poa_finalizer_public_key (vg_genesis g)"

definition Attestation_Digest :: "crypto \<Rightarrow> VerifiedNetworkGenesis \<Rightarrow> StorageAssignmentPlan \<Rightarrow> exn + hash256 option" where
  "Attestation_Digest C genesis plan =
     bindE (ComputeNetworkBinding C (ng_network_public_key (vg_genesis genesis))) (\<lambda>nb.
       if nb \<noteq> ctx_network_binding (plan_context plan) then Inr None
       else bindE (PrepareStorageAssignment C (plan_context plan) (plan_eligible plan)) (\<lambda>expected.
         if expected \<noteq> Some plan then Inr None
         else Inr (ComputeSha256 C [str ''CYBOU/STORAGE-ASSIGNMENT-ATTESTATION'', hash_bytes (plan_commitment plan)])))"

definition Attestation_Key :: "StorageAssignmentPlan \<Rightarrow> string" where
  "Attestation_Key plan = ''storage/assignment-attestation/'' @ GetHex (plan_commitment plan)"

definition BindingKey :: "StorageAssignmentPlan \<Rightarrow> 256 word \<Rightarrow> string" where
  "BindingKey plan storage = Attestation_Key plan @ ''/binding/'' @ GetHex storage"

definition VerifyStorageAssignmentAttestation :: "crypto \<Rightarrow> VerifiedNetworkGenesis \<Rightarrow> AttestedStorageAssignment \<Rightarrow> exn + bool" where
  "VerifyStorageAssignmentAttestation C genesis a =
     bindE (Attestation_Digest C genesis (aa_plan a)) (\<lambda>digest. Inr (case digest of None \<Rightarrow> False
       | Some d \<Rightarrow> VerifyIdentityMessage C (GetPoaPublicKey genesis) (aa_signature a) (hash_bytes d)))"

definition reader_signature :: "bytes \<Rightarrow> exn + IdentityHybridSignature \<times> bytes" where
  "reader_signature bs = bindE (reader_Array 64 bs) (\<lambda>(ed, bs). bindE (reader_Fixed 3309 bs) (\<lambda>(ml, bs).
     Inr (\<lparr> sig_ed25519 = ed, sig_ml_dsa = ml \<rparr>, bs)))"

definition Attestation_Read ::
  "crypto \<Rightarrow> sealing \<Rightarrow> keystore \<Rightarrow> VerifiedNetworkGenesis \<Rightarrow> StorageAssignmentPlan \<Rightarrow> PrivateApplicationStore \<Rightarrow> KVStore \<Rightarrow> exn + AttestedStorageAssignment option" where
  "Attestation_Read C A K genesis plan s db =
     bindE (Get A K db s (Attestation_Key plan)) (\<lambda>bytes. case bytes of None \<Rightarrow> Inr None
       | Some bs \<Rightarrow> catch_codec (
           bindE (reader_open CODEC_LIMIT bs) (\<lambda>bs. bindE (reader_signature bs) (\<lambda>(signature, bs). bindE (reader_Finish bs) (\<lambda>_.
           let result = \<lparr> aa_plan = plan, aa_signature = signature \<rparr> in
           bindE (VerifyStorageAssignmentAttestation C genesis result) (\<lambda>ok. Inr (if ok then Some result else None)))))))"

definition attestation_bytes :: "AttestedStorageAssignment \<Rightarrow> bytes" where
  "attestation_bytes a = Context_bytes (plan_context (aa_plan a)) @ Providers_bytes (plan_eligible (aa_plan a))
     @ be_bytes 64 (sig_ed25519 (aa_signature a)) @ sig_ml_dsa (aa_signature a)"

text \<open>A writer of limited size fails exactly when the whole exceeds the limit.\<close>

definition EncodeStorageAssignmentAttestation :: "crypto \<Rightarrow> AttestedStorageAssignment \<Rightarrow> exn + bytes option" where
  "EncodeStorageAssignmentAttestation C a =
     bindE (PrepareStorageAssignment C (plan_context (aa_plan a)) (plan_eligible (aa_plan a))) (\<lambda>expected.
       if expected \<noteq> Some (aa_plan a) \<or> length (sig_ml_dsa (aa_signature a)) \<noteq> 3309 then Inr None
       else Inr (if length (attestation_bytes a) > MAX_OPERATION_PAYLOAD_BYTES then None else Some (attestation_bytes a)))"

text \<open>The loop over the providers, which must increase strictly.\<close>

fun read_increasing :: "nat \<Rightarrow> StorageAssignmentProvider list \<Rightarrow> bytes \<Rightarrow> exn + (StorageAssignmentProvider list \<times> bytes) option" where
  "read_increasing 0 eligible bs = Inr (Some (eligible, bs))"
| "read_increasing (Suc n) eligible bs = bindE (reader_provider bs) (\<lambda>(p, bs).
     if eligible \<noteq> [] \<and> \<not> prov_key (last eligible) < prov_key p then Inr None else read_increasing n (eligible @ [p]) bs)"

definition ATTESTATION_FIXED_SIZE :: nat where "ATTESTATION_FIXED_SIZE = 185 + 4 + 64 + 3309"

definition DecodeStorageAssignmentAttestation :: "crypto \<Rightarrow> bytes \<Rightarrow> exn + AttestedStorageAssignment option" where
  "DecodeStorageAssignmentAttestation C bytes =
     (if length bytes < ATTESTATION_FIXED_SIZE \<or> length bytes > MAX_OPERATION_PAYLOAD_BYTES then Inr None
      else catch_codec (
        bindE (reader_open MAX_OPERATION_PAYLOAD_BYTES bytes) (\<lambda>bs. bindE (reader_context bs) (\<lambda>(c, bs). bindE (reader_U32 bs) (\<lambda>(count, bs).
          if count = 0 \<or> unat count > MAX_STORAGE_ASSIGNMENT_CANDIDATES \<or> length bytes \<noteq> ATTESTATION_FIXED_SIZE + unat count * 64 then Inr None
          else bindE (read_increasing (unat count) [] bs) (\<lambda>r. case r of None \<Rightarrow> Inr None
            | Some (eligible, bs) \<Rightarrow> bindE (PrepareStorageAssignment C c eligible) (\<lambda>plan. case plan of None \<Rightarrow> Inr None
              | Some p \<Rightarrow> bindE (reader_signature bs) (\<lambda>(signature, bs). bindE (reader_Finish bs) (\<lambda>_.
                  Inr (Some \<lparr> aa_plan = p, aa_signature = signature \<rparr>))))))))))"

definition binding_verifies :: "crypto \<Rightarrow> StorageAssignmentPlan \<Rightarrow> IdentityRegistry \<Rightarrow> StorageAssignmentBindingProof \<Rightarrow> bool" where
  "binding_verifies C plan registry proof_of \<longleftrightarrow>
     (case Registry_Find registry (spb_payout_account (bp_binding proof_of)) of None \<Rightarrow> False
      | Some identity \<Rightarrow> purpose (ir_authorization_key identity) = AUTHORIZATION
          \<and> VerifyStoragePayoutBindingStorageKey C (bp_binding proof_of) (ctx_network_binding (plan_context plan)) (bp_storage_id proof_of)
          \<and> VerifyIdentityMessage C (ir_authorization_key identity) (spb_authorization (bp_binding proof_of))
              (hash_bytes (StoragePayoutBindingDigest C (ctx_network_binding (plan_context plan)) (bp_storage_id proof_of) (spb_payout_account (bp_binding proof_of)))))"

definition VerifyStorageAssignmentBindings ::
  "crypto \<Rightarrow> StorageAssignmentPlan \<Rightarrow> IdentityRegistry \<Rightarrow> hash256 \<Rightarrow> StorageAssignmentBindingProof list \<Rightarrow> exn + bool" where
  "VerifyStorageAssignmentBindings C plan registry snapshot_id proofs =
     (if ctx_finalized_seed (plan_context plan) \<noteq> snapshot_id \<or> proofs = [] \<or> length proofs \<noteq> length (plan_eligible plan)
         \<or> length proofs > MAX_STORAGE_ASSIGNMENT_CANDIDATES then Inr False
      else bindE (PrepareStorageAssignment C (plan_context plan) (plan_eligible plan)) (\<lambda>expected.
        if expected \<noteq> Some plan then Inr False
        else if \<not> list_all (binding_verifies C plan registry) proofs then Inr False
        else Inr (sort_key prov_key (map (\<lambda>p. \<lparr> prov_storage_id = bp_storage_id p, prov_payout_account = spb_payout_account (bp_binding p) \<rparr>) proofs) = plan_eligible plan)))"

definition LoadStorageAssignmentAttestation ::
  "crypto \<Rightarrow> sealing \<Rightarrow> keystore \<Rightarrow> VerifiedNetworkGenesis \<Rightarrow> StorageAssignmentContext \<Rightarrow> PrivateApplicationStore \<Rightarrow> KVStore \<Rightarrow> exn + AttestedStorageAssignment option" where
  "LoadStorageAssignmentAttestation C A K genesis context s db =
     bindE (LoadStorageAssignment C A K context s db) (\<lambda>plan. case plan of None \<Rightarrow> Inr None | Some p \<Rightarrow> Attestation_Read C A K genesis p s db)"

fun load_bindings ::
  "sealing \<Rightarrow> keystore \<Rightarrow> StorageAssignmentPlan \<Rightarrow> PrivateApplicationStore \<Rightarrow> KVStore \<Rightarrow> StorageAssignmentProvider list
   \<Rightarrow> exn + StorageAssignmentBindingProof list option" where
  "load_bindings A K plan s db [] = Inr (Some [])"
| "load_bindings A K plan s db (p # ps) =
     bindE (Get A K db s (BindingKey plan (prov_storage_id p))) (\<lambda>bytes.
       case Option.bind bytes DecodeStoragePayoutBinding of None \<Rightarrow> Inr None
       | Some b \<Rightarrow> bindE (load_bindings A K plan s db ps) (\<lambda>rest. Inr (map_option ((#) \<lparr> bp_storage_id = prov_storage_id p, bp_binding = b \<rparr>) rest)))"

definition LoadStorageAssignmentBindings ::
  "crypto \<Rightarrow> sealing \<Rightarrow> keystore \<Rightarrow> VerifiedNetworkGenesis \<Rightarrow> StorageAssignmentContext \<Rightarrow> IdentityRegistry \<Rightarrow> hash256 \<Rightarrow> PrivateApplicationStore \<Rightarrow> KVStore
   \<Rightarrow> exn + StorageAssignmentBindingProof list option" where
  "LoadStorageAssignmentBindings C A K genesis context registry snapshot_id s db =
     (let (b, s1) = Batch_open s in
      bindE (LoadStorageAssignmentAttestation C A K genesis context s1 db) (\<lambda>attested. case attested of None \<Rightarrow> Inr None
        | Some a \<Rightarrow> bindE (load_bindings A K (aa_plan a) s1 db (plan_eligible (aa_plan a))) (\<lambda>proofs. case proofs of None \<Rightarrow> Inr None
          | Some ps \<Rightarrow> bindE (VerifyStorageAssignmentBindings C (aa_plan a) registry snapshot_id ps) (\<lambda>ok. Inr (if ok then Some ps else None)))))"

definition VerifyAssignedStorageReceipt ::
  "crypto \<Rightarrow> VerifiedNetworkGenesis \<Rightarrow> AttestedStorageAssignment \<Rightarrow> u8 \<Rightarrow> bytes \<Rightarrow> u32 \<Rightarrow> exn + bool" where
  "VerifyAssignedStorageReceipt C genesis a slot receipt stored_size =
     (if stored_size = 0 \<or> unat slot \<ge> length (plan_selected (aa_plan a)) then Inr False
      else bindE (VerifyStorageAssignmentAttestation C genesis a) (\<lambda>ok.
        if \<not> ok then Inr False
        else let c = plan_context (aa_plan a) in
          Inr (VerifyStorageReceipt C receipt (ctx_network_binding c) (ctx_publication c) (ctx_chunk c) stored_size
            = Some (prov_storage_id (plan_selected (aa_plan a) ! unat slot)))))"

text \<open>The bindings staged one after the other.\<close>

fun put_bindings ::
  "sealing \<Rightarrow> keystore \<Rightarrow> StorageAssignmentPlan \<Rightarrow> StorageAssignmentBindingProof list \<Rightarrow> PrivateApplicationStore \<Rightarrow> KVStore \<Rightarrow> exn + bool \<times> PrivateApplicationStore" where
  "put_bindings A K plan [] s db = Inr (True, s)"
| "put_bindings A K plan (p # ps) s db =
     bindE (Put A K None WriteLost (BindingKey plan (bp_storage_id p)) (EncodeStoragePayoutBinding (bp_binding p)) s db) (\<lambda>(ok, s1, _).
       if \<not> ok then Inr (False, s1) else put_bindings A K plan ps s1 db)"

text \<open>The second transaction: the signature that is already saved, or a new one saved with its bindings.\<close>

definition attest_frozen ::
  "crypto \<Rightarrow> sealing \<Rightarrow> keystore \<Rightarrow> (nat \<Rightarrow> 96 word option) \<Rightarrow> write_outcome \<Rightarrow> VerifiedNetworkGenesis \<Rightarrow> StorageAssignmentPlan \<Rightarrow> IdentityRegistry \<Rightarrow> hash256
   \<Rightarrow> StorageAssignmentBindingProof list \<Rightarrow> PoaSigner \<Rightarrow> hash256 \<Rightarrow> PrivateApplicationStore \<Rightarrow> KVStore
   \<Rightarrow> exn + AttestedStorageAssignment option \<times> PrivateApplicationStore \<times> KVStore" where
  "attest_frozen C A K nonces w genesis plan registry snapshot_id proofs signer digest s db =
     (let (b, s1) = Batch_open s in
      bindE (Attestation_Read C A K genesis plan s1 db) (\<lambda>cached. case cached of
        Some a \<Rightarrow> bindE (LoadStorageAssignmentBindings C A K genesis (plan_context plan) registry snapshot_id s1 db) (\<lambda>bindings.
          Inr (if bindings = None then None else Some a, Batch_close b s1, db))
      | None \<Rightarrow> bindE (Has A K db s1 (Attestation_Key plan)) (\<lambda>has.
          if has then Inr (None, Batch_close b s1, db)
          else case signer_Sign signer (hash_bytes digest) of None \<Rightarrow> Inr (None, Batch_close b s1, db)
          | Some signature \<Rightarrow>
            let result = \<lparr> aa_plan = plan, aa_signature = signature \<rparr> in
            bindE (VerifyStorageAssignmentAttestation C genesis result) (\<lambda>ok.
              if \<not> ok then Inr (None, Batch_close b s1, db)
              else bindE (put_bindings A K plan proofs s1 db) (\<lambda>(put, s2).
                if \<not> put then Inr (None, Batch_close b s2, db)
                else bindE (Put A K None WriteLost (Attestation_Key plan) (be_bytes 64 (sig_ed25519 signature) @ sig_ml_dsa signature) s2 db) (\<lambda>(put, s3, _).
                  if \<not> put then Inr (None, Batch_close b s3, db)
                  else let (r, b', s4, db') = Batch_Commit A K nonces w b s3 db
                    in bindE r (\<lambda>ok. Inr (if ok then Some result else None, Batch_close b' s4, db'))))))))"

definition AttestStorageAssignment ::
  "crypto \<Rightarrow> sealing \<Rightarrow> keystore \<Rightarrow> (nat \<Rightarrow> 96 word option) \<times> (nat \<Rightarrow> 96 word option) \<Rightarrow> write_outcome \<times> write_outcome \<Rightarrow> VerifiedNetworkGenesis
   \<Rightarrow> StorageAssignmentPlan \<Rightarrow> IdentityRegistry \<Rightarrow> hash256 \<Rightarrow> StorageAssignmentBindingProof list \<Rightarrow> PoaSigner \<Rightarrow> PrivateApplicationStore \<Rightarrow> KVStore
   \<Rightarrow> exn + AttestedStorageAssignment option \<times> PrivateApplicationStore \<times> KVStore" where
  "AttestStorageAssignment C A K nonces w genesis plan registry snapshot_id proofs signer s db =
     bindE (Attestation_Digest C genesis plan) (\<lambda>digest. case digest of None \<Rightarrow> Inr (None, s, db)
       | Some d \<Rightarrow>
         if signer_PublicKey signer \<noteq> Some (GetPoaPublicKey genesis) then Inr (None, s, db)
         else bindE (VerifyStorageAssignmentBindings C plan registry snapshot_id proofs) (\<lambda>ok.
           if \<not> ok then Inr (None, s, db)
           else let (b, s1) = Batch_open s in
             if \<not> b_outermost b then Inr (None, Batch_close b s1, db)
             else bindE (FreezeStorageAssignment C A K (\<lambda>_. None) WriteLost plan s1 db) (\<lambda>(frozen, s2, _).
               if \<not> frozen then Inr (None, Batch_close b s2, db)
               else let (r, b', s3, db1) = Batch_Commit A K (fst nonces) (fst w) b s2 db in
                 bindE r (\<lambda>ok. let s4 = Batch_close b' s3 in
                   if \<not> ok then Inr (None, s4, db1)
                   else attest_frozen C A K (snd nonces) (snd w) genesis plan registry snapshot_id proofs signer d s4 db1))))"

section \<open>Quotes\<close>

record StorageAssignmentPaid =
  pd_provider :: StorageAssignmentProvider
  pd_finalized_paid :: u64

record StorageAssignmentPayout =
  py_provider :: StorageAssignmentProvider
  py_verified_unit_seconds :: u64
  py_entitlement :: u64
  py_finalized_paid :: u64
  py_payout :: u64

record StorageAssignmentSlotQuote =
  sq_budget :: AssignedStorageBudget
  sq_verified_unit_seconds :: u64
  sq_finalized_paid :: u64
  sq_payout :: u64
  sq_entries :: "StorageAssignmentPayout list"

record StorageAssignmentSlotPaid =
  sp_replica_slot :: u8
  sp_payment :: StorageAssignmentPaid

record StorageAssignmentTermQuote =
  tq_budget :: AssignedStorageBudget
  tq_finalized_paid :: u64
  tq_payout :: u64
  tq_slots :: "StorageAssignmentSlotQuote list"

text \<open>A registry pointer may be null. A map keyed by providers is ordered by their pair of identifiers.\<close>

type_synonym registry_snapshot = "hash256 \<times> IdentityRegistry option"
type_synonym provider_map = "(256 word \<times> 256 word, u64) omap"

fun historical_registries :: "registry_snapshot list \<Rightarrow> (hash256, IdentityRegistry) omap \<Rightarrow> (hash256, IdentityRegistry) omap option" where
  "historical_registries [] m = Some m"
| "historical_registries ((block_id, registry) # rs) m =
     (case registry of None \<Rightarrow> None
      | Some r \<Rightarrow> if map_contains m block_id then None else historical_registries rs (map_emplace block_id r m))"

definition same_term :: "StorageAssignmentEvidenceScope \<Rightarrow> StorageAssignmentEvidenceScope \<Rightarrow> bool" where
  "same_term base scope \<longleftrightarrow> (let s = sc_context scope; c = sc_context base in
     ctx_network_binding s = ctx_network_binding c \<and> ctx_publication s = ctx_publication c \<and> ctx_payer s = ctx_payer c
     \<and> ctx_term_start s = ctx_term_start c \<and> ctx_term_end s = ctx_term_end c \<and> ctx_replicas s = ctx_replicas c
     \<and> sc_term_start_utc scope = sc_term_start_utc base \<and> sc_period_seconds scope = sc_period_seconds base)"

text \<open>The loop over the assignments: \<^verbatim>\<open>plans\<close> by commitment and the first scope of every chunk.\<close>

fun collect_scopes ::
  "crypto \<Rightarrow> sealing \<Rightarrow> keystore \<Rightarrow> VerifiedNetworkGenesis \<Rightarrow> StorageAssignmentEvidenceScope \<Rightarrow> ChunkId list \<Rightarrow> u64 \<Rightarrow> (hash256, IdentityRegistry) omap
   \<Rightarrow> PrivateApplicationStore \<Rightarrow> KVStore \<Rightarrow> StorageAssignmentEvidenceScope list
   \<Rightarrow> (256 word, StorageAssignmentEvidenceScope) omap \<Rightarrow> (ChunkId, StorageAssignmentEvidenceScope) omap
   \<Rightarrow> exn + ((256 word, StorageAssignmentEvidenceScope) omap \<times> (ChunkId, StorageAssignmentEvidenceScope) omap) option" where
  "collect_scopes C A K genesis base chunks through historical s db [] plans representatives = Inr (Some (plans, representatives))"
| "collect_scopes C A K genesis base chunks through historical s db (scope # scopes) plans representatives =
     (if \<not> same_term base scope \<or> sc_replica_slot scope \<noteq> sc_replica_slot base \<or> ctx_chunk (sc_context scope) \<notin> set chunks
         \<or> map_contains plans (plan_commitment (sc_assignment scope)) then Inr None
      else bindE (LoadStorageAssignmentAttestation C A K genesis (sc_context scope) s db) (\<lambda>attested. case attested of None \<Rightarrow> Inr None
        | Some a \<Rightarrow>
          if aa_plan a \<noteq> sc_assignment scope then Inr None
          else case map_find historical (ctx_finalized_seed (sc_context scope)) of None \<Rightarrow> Inr None
          | Some registry \<Rightarrow>
            bindE (LoadStorageAssignmentBindings C A K genesis (sc_context scope) registry (ctx_finalized_seed (sc_context scope)) s db) (\<lambda>bindings.
              if bindings = None then Inr None
              else bindE (StorageAssignmentVerifiedSeconds C A K scope through s db) (\<lambda>seconds.
                if seconds = None then Inr None
                else collect_scopes C A K genesis base chunks through historical s db scopes
                  (map_emplace (plan_commitment (sc_assignment scope)) scope plans) (map_emplace (ctx_chunk (sc_context scope)) scope representatives)))))"

text \<open>
  The accounting of one claim. \<^verbatim>\<open>service[provider]\<close> creates the entry of a provider also for a claim of a later period.
\<close>

definition service_of :: "provider_map \<Rightarrow> 256 word \<times> 256 word \<Rightarrow> u64" where
  "service_of service p = (case map_find service p of None \<Rightarrow> 0 | Some x \<Rightarrow> x)"

fun count_claims ::
  "(256 word, StorageAssignmentEvidenceScope) omap \<Rightarrow> u8 \<Rightarrow> ChunkId \<Rightarrow> u64 \<Rightarrow> u64 \<Rightarrow> StorageFundedSlotClaim list \<Rightarrow> provider_map \<times> u64 \<Rightarrow> (provider_map \<times> u64) option" where
  "count_claims plans slot chunk through limit [] acc = Some acc"
| "count_claims plans slot chunk through limit (cl # cls) (service, sum_seconds) =
     (case map_find plans (cl_assignment cl) of None \<Rightarrow> None
      | Some scope \<Rightarrow>
        if ctx_chunk (sc_context scope) \<noteq> chunk then None
        else let provider = prov_key (plan_selected (sc_assignment scope) ! unat slot);
                 service1 = map_emplace provider 0 service; seconds = service_of service provider in
          if iv_period (cl_interval cl) > through then count_claims plans slot chunk through limit cls (service1, sum_seconds)
          else let amount = iv_end_utc (cl_interval cl) - iv_start_utc (cl_interval cl) in
            if seconds > U64_MAX - amount \<or> sum_seconds > limit \<or> amount > limit - sum_seconds then None
            else count_claims plans slot chunk through limit cls (map_adjust provider (\<lambda>_. seconds + amount) service1, sum_seconds + amount))"

fun count_service ::
  "crypto \<Rightarrow> sealing \<Rightarrow> keystore \<Rightarrow> (256 word, StorageAssignmentEvidenceScope) omap \<Rightarrow> u8 \<Rightarrow> u64 \<Rightarrow> u64 \<Rightarrow> PrivateApplicationStore \<Rightarrow> KVStore
   \<Rightarrow> (ChunkId, StorageAssignmentEvidenceScope) omap \<Rightarrow> provider_map \<times> u64 \<Rightarrow> exn + (provider_map \<times> u64) option" where
  "count_service C A K plans slot through limit s db [] acc = Inr (Some acc)"
| "count_service C A K plans slot through limit s db ((chunk, scope) # rest) acc =
     bindE (LoadStorageFundedSlotClaims C A K scope s db) (\<lambda>claims. case claims of None \<Rightarrow> Inr None
       | Some cls \<Rightarrow> (case count_claims plans slot chunk through limit cls acc of None \<Rightarrow> Inr None
         | Some acc' \<Rightarrow> count_service C A K plans slot through limit s db rest acc'))"

fun paid_history :: "provider_map \<Rightarrow> StorageAssignmentPaid list \<Rightarrow> provider_map \<Rightarrow> provider_map option" where
  "paid_history service [] finalized = Some finalized"
| "paid_history service (p # ps) finalized =
     (if \<not> map_contains service (prov_key (pd_provider p)) \<or> map_contains finalized (prov_key (pd_provider p)) then None
      else paid_history service ps (map_emplace (prov_key (pd_provider p)) (pd_finalized_paid p) finalized))"

definition provider_of_key :: "256 word \<times> 256 word \<Rightarrow> StorageAssignmentProvider" where
  "provider_of_key k = \<lparr> prov_storage_id = fst k, prov_payout_account = snd k \<rparr>"

fun quote_entries :: "AssignedStorageBudget \<Rightarrow> provider_map \<Rightarrow> provider_map \<Rightarrow> StorageAssignmentSlotQuote \<Rightarrow> StorageAssignmentSlotQuote option" where
  "quote_entries budget finalized [] q = Some q"
| "quote_entries budget finalized ((provider, seconds) # rest) q =
     (let already_paid = service_of finalized provider in
      case ComputeAssignedStoragePayout budget seconds already_paid of None \<Rightarrow> None
      | Some due \<Rightarrow>
        if already_paid + due > per_replica budget - sq_finalized_paid q - sq_payout q then None
        else quote_entries budget finalized rest (q \<lparr>
          sq_entries := sq_entries q @ [\<lparr> py_provider = provider_of_key provider, py_verified_unit_seconds = seconds, py_entitlement = already_paid + due,
            py_finalized_paid = already_paid, py_payout = due \<rparr>],
          sq_finalized_paid := sq_finalized_paid q + already_paid, sq_payout := sq_payout q + due \<rparr>))"

definition QuoteSlot ::
  "crypto \<Rightarrow> sealing \<Rightarrow> keystore \<Rightarrow> VerifiedNetworkGenesis \<Rightarrow> StorageAssignmentEvidenceScope list \<Rightarrow> ChunkId list \<Rightarrow> u64 \<Rightarrow> u64 \<Rightarrow> StorageAssignmentPaid list
   \<Rightarrow> registry_snapshot list \<Rightarrow> PrivateApplicationStore \<Rightarrow> KVStore \<Rightarrow> exn + StorageAssignmentSlotQuote option" where
  "QuoteSlot C A K genesis assignments chunks rate through paid registries s db =
     (case assignments of [] \<Rightarrow> Inr None
      | base # _ \<Rightarrow>
        if chunks = [] then Inr None
        else case historical_registries registries [] of None \<Rightarrow> Inr None
        | Some historical \<Rightarrow>
          let c = sc_context base in
          if through < ctx_term_start c \<or> through \<ge> ctx_term_end c then Inr None
          else case ComputeAssignedStorageBudget (of_nat (length chunks)) (ucast (ctx_replicas c)) (ctx_term_end c - ctx_term_start c) (sc_period_seconds base) rate of
            None \<Rightarrow> Inr None
          | Some budget \<Rightarrow>
            if 0 \<in> set chunks \<or> \<not> distinct chunks then Inr None
            else bindE (collect_scopes C A K genesis base chunks through historical s db assignments [] []) (\<lambda>collected. case collected of None \<Rightarrow> Inr None
              | Some (plans, representatives) \<Rightarrow>
                if length representatives \<noteq> length chunks then Inr None
                else bindE (count_service C A K plans (sc_replica_slot base) through (budget_unit_seconds budget) s db representatives ([], 0)) (\<lambda>counted.
                  case counted of None \<Rightarrow> Inr None
                  | Some (service, sum_seconds) \<Rightarrow>
                    if length service > 1024 \<or> length paid > 1024 then Inr None
                    else Inr (Option.bind (paid_history service paid []) (\<lambda>finalized.
                      quote_entries budget finalized service
                        \<lparr> sq_budget = budget, sq_verified_unit_seconds = sum_seconds, sq_finalized_paid = 0, sq_payout = 0, sq_entries = [] \<rparr>)))))"

definition PrepareStorageAssignmentSlotPayouts ::
  "crypto \<Rightarrow> sealing \<Rightarrow> keystore \<Rightarrow> VerifiedNetworkGenesis \<Rightarrow> StorageAssignmentEvidenceScope list \<Rightarrow> ChunkId list \<Rightarrow> u64 \<Rightarrow> u64 \<Rightarrow> StorageAssignmentPaid list
   \<Rightarrow> registry_snapshot list \<Rightarrow> PrivateApplicationStore \<Rightarrow> KVStore \<Rightarrow> exn + StorageAssignmentSlotQuote option" where
  "PrepareStorageAssignmentSlotPayouts C A K genesis assignments chunks rate through paid registries s db =
     (let (b, s1) = Batch_open s in
      if \<not> b_outermost b then Inr None else QuoteSlot C A K genesis assignments chunks rate through paid registries s1 db)"

section \<open>Terms\<close>

text \<open>One slot added to the running totals of the term, and the slots in order.\<close>

definition add_slot_quote :: "nat \<Rightarrow> StorageAssignmentSlotQuote \<Rightarrow> StorageAssignmentTermQuote \<Rightarrow> StorageAssignmentTermQuote option" where
  "add_slot_quote slot q result =
     (let budget = (if slot = 0 then sq_budget q else tq_budget result) in
      if sq_budget q \<noteq> budget \<or> sq_finalized_paid q > budget_total budget - tq_finalized_paid result - tq_payout result
         \<or> sq_payout q > budget_total budget - tq_finalized_paid result - tq_payout result - sq_finalized_paid q then None
      else Some (result \<lparr> tq_budget := budget, tq_finalized_paid := tq_finalized_paid result + sq_finalized_paid q,
        tq_payout := tq_payout result + sq_payout q, tq_slots := tq_slots result @ [q] \<rparr>))"

fun quote_slots ::
  "(nat \<Rightarrow> exn + StorageAssignmentSlotQuote option) \<Rightarrow> nat list \<Rightarrow> nat \<Rightarrow> StorageAssignmentTermQuote \<Rightarrow> exn + StorageAssignmentTermQuote option" where
  "quote_slots quote_of [] entries result = Inr (Some result)"
| "quote_slots quote_of (slot # slots) entries result =
     bindE (quote_of slot) (\<lambda>quote. case quote of None \<Rightarrow> Inr None
       | Some q \<Rightarrow>
         if length (sq_entries q) > 1024 - entries then Inr None
         else case add_slot_quote slot q result of None \<Rightarrow> Inr None
           | Some result' \<Rightarrow> quote_slots quote_of slots (entries + length (sq_entries q)) result')"

definition claims_meet :: "StorageFundedSlotClaim \<Rightarrow> StorageFundedSlotClaim \<Rightarrow> bool" where
  "claims_meet x y \<longleftrightarrow> iv_start_utc (cl_interval x) < iv_end_utc (cl_interval y) \<and> iv_start_utc (cl_interval y) < iv_end_utc (cl_interval x)"

definition independent_claims :: "(256 word, StorageAssignmentPlan) omap \<Rightarrow> StorageFundedSlotClaim \<Rightarrow> StorageFundedSlotClaim \<Rightarrow> bool" where
  "independent_claims plans x y \<longleftrightarrow> (case (map_find plans (cl_assignment x), map_find plans (cl_assignment y)) of
     (Some xp, Some yp) \<Rightarrow> prov_storage_id (plan_selected xp ! 0) \<noteq> prov_storage_id (plan_selected yp ! 1)
        \<and> prov_payout_account (plan_selected xp ! 0) \<noteq> prov_payout_account (plan_selected yp ! 1)
   | _ \<Rightarrow> False)"

text \<open>The walk over the two sorted journals of a chunk.\<close>

fun walk_claims :: "(StorageFundedSlotClaim \<Rightarrow> StorageFundedSlotClaim \<Rightarrow> bool) \<Rightarrow> StorageFundedSlotClaim list \<Rightarrow> StorageFundedSlotClaim list \<Rightarrow> bool" where
  "walk_claims ok (x # xs) (y # ys) =
     ((claims_meet x y \<longrightarrow> ok x y)
      \<and> (if iv_end_utc (cl_interval x) \<le> iv_end_utc (cl_interval y) then walk_claims ok xs (y # ys) else walk_claims ok (x # xs) ys))"
| "walk_claims ok [] ys = True"
| "walk_claims ok xs [] = True"

text \<open>The last scope of every chunk and slot; \<^verbatim>\<open>plans\<close> keeps the first plan of a commitment.\<close>

definition slot_scope_of :: "StorageAssignmentEvidenceScope list \<Rightarrow> ChunkId \<Rightarrow> u8 \<Rightarrow> StorageAssignmentEvidenceScope option" where
  "slot_scope_of scopes chunk slot = find (\<lambda>sc. ctx_chunk (sc_context sc) = chunk \<and> sc_replica_slot sc = slot) (rev scopes)"

definition plans_of :: "StorageAssignmentEvidenceScope list \<Rightarrow> (256 word, StorageAssignmentPlan) omap" where
  "plans_of scopes = fold (\<lambda>sc m. map_emplace (plan_commitment (sc_assignment sc)) (sc_assignment sc) m) scopes []"

definition chunks_of :: "StorageAssignmentEvidenceScope list \<Rightarrow> ChunkId list" where
  "chunks_of scopes = sort (remdups (map (\<lambda>sc. ctx_chunk (sc_context sc)) scopes))"

fun independent_chunks ::
  "crypto \<Rightarrow> sealing \<Rightarrow> keystore \<Rightarrow> StorageAssignmentEvidenceScope list \<Rightarrow> PrivateApplicationStore \<Rightarrow> KVStore \<Rightarrow> ChunkId list \<Rightarrow> exn + bool" where
  "independent_chunks C A K scopes s db [] = Inr True"
| "independent_chunks C A K scopes s db (chunk # chunks) =
     (case (slot_scope_of scopes chunk 0, slot_scope_of scopes chunk 1) of
        (Some s0, Some s1) \<Rightarrow>
          bindE (LoadStorageFundedSlotClaims C A K s0 s db) (\<lambda>left. bindE (LoadStorageFundedSlotClaims C A K s1 s db) (\<lambda>right. case (left, right) of
            (Some xs, Some ys) \<Rightarrow> if walk_claims (independent_claims (plans_of scopes)) xs ys then independent_chunks C A K scopes s db chunks else Inr False
          | _ \<Rightarrow> Inr False))
      | _ \<Rightarrow> Inr False)"

definition PrepareStorageAssignmentTermPayouts ::
  "crypto \<Rightarrow> sealing \<Rightarrow> keystore \<Rightarrow> VerifiedNetworkGenesis \<Rightarrow> StorageAssignmentEvidenceScope list \<Rightarrow> ChunkId list \<Rightarrow> u64 \<Rightarrow> u64 \<Rightarrow> StorageAssignmentSlotPaid list
   \<Rightarrow> registry_snapshot list \<Rightarrow> PrivateApplicationStore \<Rightarrow> KVStore \<Rightarrow> exn + StorageAssignmentTermQuote option" where
  "PrepareStorageAssignmentTermPayouts C A K genesis assignments chunks rate through paid registries s db =
     (case assignments of [] \<Rightarrow> Inr None
      | base # _ \<Rightarrow>
        if length paid > 1024 then Inr None
        else let (b, s1) = Batch_open s; replicas = ctx_replicas (sc_context base) in
          if \<not> b_outermost b \<or> replicas = 0 \<or> replicas > 2
             \<or> \<not> list_all (\<lambda>sc. sc_replica_slot sc < replicas \<and> same_term base sc) assignments
             \<or> \<not> list_all (\<lambda>p. sp_replica_slot p < replicas) paid then Inr None
          else let quote_of = (\<lambda>slot. QuoteSlot C A K genesis (filter (\<lambda>sc. unat (sc_replica_slot sc) = slot) assignments) chunks rate through
                   (map sp_payment (filter (\<lambda>p. unat (sp_replica_slot p) = slot) paid)) registries s1 db);
                 empty = \<lparr> tq_budget = \<lparr> per_replica = 0, budget_total = 0, budget_unit_seconds = 0 \<rparr>, tq_finalized_paid = 0, tq_payout = 0, tq_slots = [] \<rparr> in
            bindE (quote_slots quote_of [0..<unat replicas] 0 empty) (\<lambda>result. case result of None \<Rightarrow> Inr None
              | Some q \<Rightarrow>
                if replicas \<noteq> 2 then Inr (Some q)
                else bindE (independent_chunks C A K assignments s1 db (chunks_of assignments)) (\<lambda>ok. Inr (if ok then Some q else None))))"

section \<open>The portable attestation\<close>

lemma reader_signature_iff: "reader_signature bs = Inr (sig, r) \<longleftrightarrow> bs = be_bytes 64 (sig_ed25519 sig) @ sig_ml_dsa sig @ r \<and> length (sig_ml_dsa sig) = 3309"
  by (cases sig) (auto simp: reader_signature_def bindE_Inr_iff reader_Fixed_iff reader_Array_iff [where 'a = 512 and n = 64, simplified])

lemma read_increasing_read:
  assumes "sorted_wrt (\<lambda>p q. prov_key p < prov_key q) (acc @ ps)"
  shows "read_increasing (length ps) acc (concat (map (\<lambda>p. hash_bytes (prov_storage_id p) @ hash_bytes (prov_payout_account p)) ps) @ r) = Inr (Some (acc @ ps, r))"
  using assms
proof (induction ps arbitrary: acc)
  case (Cons p ps)
  have "reader_provider (concat (map (\<lambda>p. hash_bytes (prov_storage_id p) @ hash_bytes (prov_payout_account p)) (p # ps)) @ r)
      = Inr (p, concat (map (\<lambda>p. hash_bytes (prov_storage_id p) @ hash_bytes (prov_payout_account p)) ps) @ r)" by (simp add: reader_provider_iff)
  moreover have "acc = [] \<or> prov_key (last acc) < prov_key p" using Cons.prems by (cases acc rule: rev_cases) (auto simp: sorted_wrt_append)
  moreover have "read_increasing (length ps) (acc @ [p]) (concat (map (\<lambda>p. hash_bytes (prov_storage_id p) @ hash_bytes (prov_payout_account p)) ps) @ r)
      = Inr (Some ((acc @ [p]) @ ps, r))" by (rule Cons.IH) (use Cons.prems in simp)
  ultimately show ?case by simp
qed simp

lemma prepared_eligible:
  assumes "PrepareStorageAssignment C c eligible = Inr (Some plan)" "plan_eligible plan = eligible"
  shows "eligible \<noteq> []" "sorted_wrt (\<lambda>p q. prov_key p < prov_key q) eligible"
proof -
  show "eligible \<noteq> []" using assms(1) by (auto simp: PrepareStorageAssignment_def split: if_split_asm)
  have "canonical_providers eligible = eligible" using PrepareStorageAssignment_Some(2) [OF assms(1)] assms(2) by simp
  then have "sorted_wrt (<) (map prov_key eligible)" using canonical_providers_sorted [of eligible] by (simp add: strict_sorted_iff)
  then show "sorted_wrt (\<lambda>p q. prov_key p < prov_key q) eligible" by (simp add: sorted_wrt_map)
qed

lemma attestation_reads_back:
  assumes "EncodeStorageAssignmentAttestation C a = Inr (Some bs)"
  shows "DecodeStorageAssignmentAttestation C bs = Inr (Some a)"
proof -
  let ?p = "aa_plan a"
  have prep: "PrepareStorageAssignment C (plan_context ?p) (plan_eligible ?p) = Inr (Some ?p)" and ml: "length (sig_ml_dsa (aa_signature a)) = 3309"
    and bs: "bs = attestation_bytes a" and lim: "length bs \<le> MAX_OPERATION_PAYLOAD_BYTES"
    using assms by (auto simp: EncodeStorageAssignmentAttestation_def bindE_Inr_iff split: if_split_asm)
  note el = prepared_eligible [OF prep HOL.refl] and sz = prepared_sizes(1) [OF prep]
  let ?n = "length (plan_eligible ?p)" and ?ps = "concat (map (\<lambda>p. hash_bytes (prov_storage_id p) @ hash_bytes (prov_payout_account p)) (plan_eligible ?p))"
  let ?sig = "be_bytes 64 (sig_ed25519 (aa_signature a)) @ sig_ml_dsa (aa_signature a)"
  have u: "unat (of_nat ?n :: u32) = ?n" using sz by (simp add: MAX_STORAGE_ASSIGNMENT_CANDIDATES_def unsigned_of_nat take_bit_nat_eq_self_iff)
  have len: "length bs = ATTESTATION_FIXED_SIZE + ?n * 64"
    by (simp add: bs attestation_bytes_def ml Context_bytes_def ATTESTATION_FIXED_SIZE_def)
  have c: "reader_context bs = Inr (plan_context ?p, le_bytes 4 (of_nat ?n :: u32) @ ?ps @ ?sig)"
    by (simp add: reader_context_iff bs attestation_bytes_def Providers_bytes_def)
  have n: "reader_U32 (le_bytes 4 (of_nat ?n :: u32) @ ?ps @ ?sig) = Inr (of_nat ?n, ?ps @ ?sig)" by (simp add: reader_U32_iff)
  have r: "read_increasing ?n [] (?ps @ ?sig) = Inr (Some (plan_eligible ?p, ?sig))" using read_increasing_read [of "[]" "plan_eligible ?p" ?sig] el(2) by simp
  have g: "reader_signature ?sig = Inr (aa_signature a, [])" by (simp add: reader_signature_iff ml)
  have z: "(of_nat ?n :: u32) \<noteq> 0" using u el(1) by auto
  have "reader_open MAX_OPERATION_PAYLOAD_BYTES bs = Inr bs" using lim by (simp add: reader_open_iff)
  then show ?thesis using lim len c n r g prep z u sz by (simp add: DecodeStorageAssignmentAttestation_def reader_Finish_def catch_codec_def)
qed

section \<open>Bounds of a slot quote\<close>

definition entry_exact :: "AssignedStorageBudget \<Rightarrow> StorageAssignmentPayout \<Rightarrow> bool" where
  "entry_exact b e \<longleftrightarrow> unat (py_entitlement e) = entitlement b (unat (py_verified_unit_seconds e))
     \<and> unat (py_finalized_paid e) + unat (py_payout e) = unat (py_entitlement e)"

definition quote_sums :: "StorageAssignmentSlotQuote \<Rightarrow> bool" where
  "quote_sums q \<longleftrightarrow> unat (sq_finalized_paid q) = (\<Sum>e\<leftarrow>sq_entries q. unat (py_finalized_paid e)) \<and> unat (sq_payout q) = (\<Sum>e\<leftarrow>sq_entries q. unat (py_payout e))
     \<and> unat (sq_finalized_paid q) + unat (sq_payout q) \<le> unat (per_replica (sq_budget q)) \<and> list_all (entry_exact (sq_budget q)) (sq_entries q)"

lemma quote_entry_step:
  assumes "quote_sums q" "ComputeAssignedStoragePayout (sq_budget q) seconds paid = Some due" "\<not> paid + due > per_replica (sq_budget q) - sq_finalized_paid q - sq_payout q"
  shows "quote_sums (q \<lparr> sq_entries := sq_entries q @ [\<lparr> py_provider = p, py_verified_unit_seconds = seconds, py_entitlement = paid + due,
            py_finalized_paid = paid, py_payout = due \<rparr>],
          sq_finalized_paid := sq_finalized_paid q + paid, sq_payout := sq_payout q + due \<rparr>)"
proof -
  let ?R = "per_replica (sq_budget q)"
  have e: "unat paid + unat due = entitlement (sq_budget q) (unat seconds)" "seconds \<le> budget_unit_seconds (sq_budget q)"
    using assms(2) by (simp_all add: ComputeAssignedStoragePayout_iff)
  have "entitlement (sq_budget q) (unat seconds) \<le> unat ?R" using e(2) by (intro entitlement_le) (simp add: word_le_nat_alt)
  then have lt: "unat paid + unat due < 2 ^ 64" using e(1) unsigned_less [of ?R, where 'a = nat] by simp
  then have add: "unat (paid + due) = unat paid + unat due" by (simp add: unat_word_ariths)
  have b: "unat (sq_finalized_paid q) + unat (sq_payout q) \<le> unat ?R" using assms(1) by (simp add: quote_sums_def)
  have s1: "unat (?R - sq_finalized_paid q) = unat ?R - unat (sq_finalized_paid q)" using b by (intro unat_sub) (simp add: word_le_nat_alt)
  have s2: "unat (?R - sq_finalized_paid q - sq_payout q) = unat ?R - unat (sq_finalized_paid q) - unat (sq_payout q)"
    using b s1 by (subst unat_sub) (simp_all add: word_le_nat_alt)
  have room: "unat (sq_finalized_paid q) + unat (sq_payout q) + (unat paid + unat due) \<le> unat ?R"
    using assms(3) add s2 b by (simp add: word_less_nat_alt not_less)
  have R: "unat ?R < 2 ^ 64" using unsigned_less [of ?R, where 'a = nat] by simp
  have f: "unat (sq_finalized_paid q + paid) = unat (sq_finalized_paid q) + unat paid" "unat (sq_payout q + due) = unat (sq_payout q) + unat due"
    using room R by (simp_all add: unat_word_ariths)
  show ?thesis using assms(1) room f add e(1) by (simp add: quote_sums_def entry_exact_def)
qed

lemma quote_entries_ok:
  "quote_entries budget finalized svc q = Some q' \<Longrightarrow> sq_budget q = budget \<Longrightarrow> quote_sums q \<Longrightarrow>
   quote_sums q' \<and> sq_budget q' = budget \<and> sq_verified_unit_seconds q' = sq_verified_unit_seconds q
   \<and> map (\<lambda>e. (prov_key (py_provider e), py_verified_unit_seconds e)) (sq_entries q') = map (\<lambda>e. (prov_key (py_provider e), py_verified_unit_seconds e)) (sq_entries q) @ svc"
proof (induction budget finalized svc q rule: quote_entries.induct)
  case (2 budget finalized p secs rest q)
  let ?paid = "service_of finalized p"
  obtain due where d: "ComputeAssignedStoragePayout budget secs ?paid = Some due" "\<not> ?paid + due > per_replica budget - sq_finalized_paid q - sq_payout q"
    using 2(2) by (auto simp: Let_def split: option.split_asm if_split_asm)
  let ?q = "q \<lparr> sq_entries := sq_entries q @ [\<lparr> py_provider = provider_of_key p, py_verified_unit_seconds = secs, py_entitlement = ?paid + due,
            py_finalized_paid = ?paid, py_payout = due \<rparr>],
          sq_finalized_paid := sq_finalized_paid q + ?paid, sq_payout := sq_payout q + due \<rparr>"
  have step: "quote_sums ?q" by (rule quote_entry_step) (use d 2(3,4) in auto)
  have r: "quote_entries budget finalized rest ?q = Some q'" using 2(2) d by (simp add: Let_def)
  have "prov_key (provider_of_key p) = p" by (simp add: prov_key_def provider_of_key_def)
  then show ?case using 2(1) [OF HOL.refl d r _ step] 2(3) by simp
qed simp

definition service_ok :: "u64 \<Rightarrow> provider_map \<times> u64 \<Rightarrow> bool" where
  "service_ok limit acc \<longleftrightarrow> omap_wf (fst acc) \<and> map_weigh unat (fst acc) = unat (snd acc) \<and> snd acc \<le> limit"

lemma service_skip: "service_ok limit (service, t) \<Longrightarrow> service_ok limit (map_emplace p 0 service, t)"
  by (cases "map_find service p") (auto simp: service_ok_def map_weigh_emplace, simp add: map_emplace_def)

lemma service_add:
  assumes "service_ok limit (service, t)" "\<not> (service_of service p > U64_MAX - amount \<or> t > limit \<or> amount > limit - t)"
  shows "service_ok limit (map_adjust p (\<lambda>_. service_of service p + amount) (map_emplace p 0 service), t + amount)"
proof -
  have ok: "service_ok limit (map_emplace p 0 service, t)" by (rule service_skip [OF assms(1)])
  have f: "map_find (map_emplace p 0 service) p = Some (service_of service p)" by (simp add: service_of_def split: option.split)
  have t: "unat (t + amount) = unat t + unat amount" "t + amount \<le> limit" using budget_add [of t limit amount] assms(2) by (auto simp: not_less)
  have "service_of service p \<le> U64_MAX - amount" using assms(2) by (auto simp: not_less)
  moreover have "unat (U64_MAX - amount) = unat U64_MAX - unat amount" by (rule unat_sub) simp
  ultimately have "unat (service_of service p) \<le> unat U64_MAX - unat amount" by (simp add: word_le_nat_alt)
  moreover have "unat U64_MAX = 2 ^ 64 - 1" by (simp add: unsigned_minus_1_eq_mask mask_eq_exp_minus_1)
  ultimately have "unat (service_of service p) + unat amount < 2 ^ 64" using unsigned_less [of amount, where 'a = nat] by simp
  then have a: "unat (service_of service p + amount) = unat (service_of service p) + unat amount" by (simp add: unat_word_ariths)
  have w: "omap_wf (map_emplace p 0 service)" using ok by (simp add: service_ok_def)
  have "map_weigh unat (map_adjust p (\<lambda>_. service_of service p + amount) (map_emplace p 0 service)) = unat t + unat amount"
    using map_weigh_adjust [OF w f, of unat "\<lambda>_. service_of service p + amount"] a ok by (simp add: service_ok_def)
  then show ?thesis using w t by (simp add: service_ok_def)
qed

lemma count_claims_ok:
  "count_claims plans slot chunk through limit cls acc = Some acc' \<Longrightarrow> service_ok limit acc \<Longrightarrow> service_ok limit acc'"
proof (induction plans slot chunk through limit cls acc rule: count_claims.induct)
  case (2 plans slot chunk through limit cl cls service t)
  obtain scope where sc: "map_find plans (cl_assignment cl) = Some scope" "ctx_chunk (sc_context scope) = chunk"
    using 2(3) by (auto split: option.split_asm if_split_asm)
  let ?p = "prov_key (plan_selected (sc_assignment scope) ! unat slot)"
  let ?amount = "iv_end_utc (cl_interval cl) - iv_start_utc (cl_interval cl)"
  show ?case
  proof (cases "iv_period (cl_interval cl) > through")
    case True
    have "count_claims plans slot chunk through limit cls (map_emplace ?p 0 service, t) = Some acc'" using 2(3) sc True by (simp add: Let_def)
    then show ?thesis using 2(1) [OF sc(1) _ HOL.refl HOL.refl HOL.refl True] sc(2) service_skip [OF 2(4)] by simp
  next
    case False
    have g: "\<not> (service_of service ?p > U64_MAX - ?amount \<or> t > limit \<or> ?amount > limit - t)"
      using 2(3) sc False by (auto simp: Let_def split: if_split_asm)
    have "count_claims plans slot chunk through limit cls (map_adjust ?p (\<lambda>_. service_of service ?p + ?amount) (map_emplace ?p 0 service), t + ?amount) = Some acc'"
      using 2(3) sc False g by (simp add: Let_def)
    then show ?thesis using 2(2) [OF sc(1) _ HOL.refl HOL.refl HOL.refl False HOL.refl g] sc(2) service_add [OF 2(4) g] by simp
  qed
qed simp

lemma count_service_ok:
  "count_service C A K plans slot through limit s db reps acc = Inr (Some acc') \<Longrightarrow> service_ok limit acc \<Longrightarrow> service_ok limit acc'"
proof (induction reps arbitrary: acc)
  case (Cons cs reps)
  obtain chunk scope where cs: "cs = (chunk, scope)" by (cases cs)
  obtain cls acc1 where "count_claims plans slot chunk through limit cls acc = Some acc1" "count_service C A K plans slot through limit s db reps acc1 = Inr (Some acc')"
    using Cons.prems(1) by (auto simp: cs bindE_Inr_iff split: option.split_asm)
  then show ?case using Cons.IH count_claims_ok Cons.prems(2) by blast
qed simp

lemma QuoteSlot_ok:
  assumes "QuoteSlot C A K genesis assignments chunks rate through paid registries s db = Inr (Some q)"
  shows "quote_sums q" "unat (sq_verified_unit_seconds q) = (\<Sum>e\<leftarrow>sq_entries q. unat (py_verified_unit_seconds e))"
    "sq_verified_unit_seconds q \<le> budget_unit_seconds (sq_budget q)" "distinct (map (\<lambda>e. prov_key (py_provider e)) (sq_entries q))" "length (sq_entries q) \<le> 1024"
    "\<exists>base rest. assignments = base # rest \<and> ComputeAssignedStorageBudget (of_nat (length chunks)) (ucast (ctx_replicas (sc_context base)))
       (ctx_term_end (sc_context base) - ctx_term_start (sc_context base)) (sc_period_seconds base) rate = Some (sq_budget q)"
proof -
  obtain base rest budget plans reps service t finalized where a: "assignments = base # rest"
    and b: "ComputeAssignedStorageBudget (of_nat (length chunks)) (ucast (ctx_replicas (sc_context base)))
       (ctx_term_end (sc_context base) - ctx_term_start (sc_context base)) (sc_period_seconds base) rate = Some budget"
    and c: "count_service C A K plans (sc_replica_slot base) through (budget_unit_seconds budget) s db reps ([], 0) = Inr (Some (service, t))" "length service \<le> 1024"
    and e: "quote_entries budget finalized service \<lparr> sq_budget = budget, sq_verified_unit_seconds = t, sq_finalized_paid = 0, sq_payout = 0, sq_entries = [] \<rparr> = Some q"
    using assms by (auto simp: QuoteSlot_def bindE_Inr_iff Let_def bind_eq_Some_conv not_less split: list.split_asm option.split_asm if_split_asm prod.split_asm)
  have sv: "service_ok (budget_unit_seconds budget) (service, t)" by (rule count_service_ok [OF c(1)]) (simp add: service_ok_def)
  have "quote_sums \<lparr> sq_budget = budget, sq_verified_unit_seconds = t, sq_finalized_paid = 0, sq_payout = 0, sq_entries = [] \<rparr>" by (simp add: quote_sums_def)
  note ok = quote_entries_ok [OF e _ this, simplified]
  have m: "map (\<lambda>e. (prov_key (py_provider e), py_verified_unit_seconds e)) (sq_entries q) = service" using ok by simp
  show "quote_sums q" "sq_verified_unit_seconds q \<le> budget_unit_seconds (sq_budget q)" using ok sv by (simp_all add: service_ok_def)
  have "map_weigh unat service = (\<Sum>e\<leftarrow>sq_entries q. unat (py_verified_unit_seconds e))" unfolding m [symmetric] map_weigh_def by (simp add: comp_def)
  then show "unat (sq_verified_unit_seconds q) = (\<Sum>e\<leftarrow>sq_entries q. unat (py_verified_unit_seconds e))" using ok sv by (simp add: service_ok_def)
  have "distinct (map fst service)" using sv by (simp add: service_ok_def omap_wf_distinct)
  then show "distinct (map (\<lambda>e. prov_key (py_provider e)) (sq_entries q))" unfolding m [symmetric] by (simp add: comp_def)
  show "length (sq_entries q) \<le> 1024" using c(2) arg_cong [OF m, of length] by simp
  show "\<exists>base rest. assignments = base # rest \<and> ComputeAssignedStorageBudget (of_nat (length chunks)) (ucast (ctx_replicas (sc_context base)))
       (ctx_term_end (sc_context base) - ctx_term_start (sc_context base)) (sc_period_seconds base) rate = Some (sq_budget q)" using a b ok by simp
qed

section \<open>The walk over two journals\<close>

text \<open>Sorted, disjoint, non-empty intervals on both sides: the walk meets every overlapping pair.\<close>

definition journal_sorted :: "StorageFundedSlotClaim list \<Rightarrow> bool" where
  "journal_sorted cs \<longleftrightarrow> sorted_wrt before (map cl_interval cs) \<and> (\<forall>c\<in>set cs. iv_start_utc (cl_interval c) < iv_end_utc (cl_interval c))"

lemma walk_claims_complete:
  "walk_claims ok xs ys \<Longrightarrow> journal_sorted xs \<Longrightarrow> journal_sorted ys \<Longrightarrow> x \<in> set xs \<Longrightarrow> y \<in> set ys \<Longrightarrow> claims_meet x y \<Longrightarrow> ok x y"
proof (induction ok xs ys rule: walk_claims.induct)
  case (1 ok a xs b ys)
  have sx: "journal_sorted xs" "\<forall>c\<in>set xs. iv_end_utc (cl_interval a) \<le> iv_start_utc (cl_interval c)" using 1(4) by (auto simp: journal_sorted_def before_def)
  have sy: "journal_sorted ys" "\<forall>c\<in>set ys. iv_end_utc (cl_interval b) \<le> iv_start_utc (cl_interval c)" using 1(5) by (auto simp: journal_sorted_def before_def)
  show ?case
  proof (cases "iv_end_utc (cl_interval a) \<le> iv_end_utc (cl_interval b)")
    case True
    have w: "walk_claims ok xs (b # ys)" "claims_meet a b \<longrightarrow> ok a b" using 1(3) True by simp_all
    have "\<not> claims_meet a c" if "c \<in> set ys" for c using sy(2) that True by (fastforce simp: claims_meet_def not_less)
    then show ?thesis using 1(1) [OF True w(1) sx(1) 1(5) _ 1(7,8)] w(2) 1(6,7,8) by auto
  next
    case False
    have w: "walk_claims ok (a # xs) ys" "claims_meet a b \<longrightarrow> ok a b" using 1(3) False by simp_all
    have "\<not> claims_meet c b" if "c \<in> set xs" for c using sx(2) that False by (fastforce simp: claims_meet_def not_less)
    then show ?thesis using 1(2) [OF False w(1) 1(4) sy(1) 1(6) _ 1(8)] w(2) 1(6,7,8) by auto
  qed
qed simp_all

lemma LoadClaims_sorted: "LoadStorageFundedSlotClaims C A K sc s db = Inr (Some cs) \<Longrightarrow> journal_sorted cs"
proof -
  assume "LoadStorageFundedSlotClaims C A K sc s db = Inr (Some cs)"
  then obtain "is" where "read_journals C A K sc (snd (Batch_open s)) db = Inr (Some (is, cs))"
    by (auto simp: LoadStorageFundedSlotClaims_def bindE_Inr_iff split: prod.split_asm if_split_asm)
  then have "claims_ok sc cs" using read_journals_ok by blast
  then show ?thesis by (auto simp: claims_ok_def intervals_ok_def journal_sorted_def intro: IntervalValid_order)
qed

section \<open>Bounds of a term quote\<close>

definition term_sums :: "StorageAssignmentTermQuote \<Rightarrow> bool" where
  "term_sums r \<longleftrightarrow> unat (tq_finalized_paid r) = (\<Sum>q\<leftarrow>tq_slots r. unat (sq_finalized_paid q)) \<and> unat (tq_payout r) = (\<Sum>q\<leftarrow>tq_slots r. unat (sq_payout q))
     \<and> unat (tq_finalized_paid r) + unat (tq_payout r) \<le> unat (budget_total (tq_budget r)) \<and> (\<forall>q\<in>set (tq_slots r). sq_budget q = tq_budget r)"

lemma term_step:
  assumes "term_sums r" "slot = 0 \<longrightarrow> tq_slots r = []" "add_slot_quote slot q r = Some r'"
  shows "term_sums r' \<and> tq_slots r' = tq_slots r @ [q]"
proof -
  define budget where "budget = (if slot = 0 then sq_budget q else tq_budget r)"
  let ?T = "budget_total budget" and ?f = "tq_finalized_paid r" and ?p = "tq_payout r"
  have eq: "sq_budget q = budget" and g1: "\<not> sq_finalized_paid q > ?T - ?f - ?p" and g2: "\<not> sq_payout q > ?T - ?f - ?p - sq_finalized_paid q"
    and r': "r' = r \<lparr> tq_budget := budget, tq_finalized_paid := ?f + sq_finalized_paid q, tq_payout := ?p + sq_payout q, tq_slots := tq_slots r @ [q] \<rparr>"
    using assms(3) unfolding add_slot_quote_def Let_def budget_def [symmetric] by (auto split: if_split_asm)
  have b: "unat ?f + unat ?p \<le> unat ?T" using assms(1,2) by (cases "slot = 0") (simp_all add: term_sums_def budget_def)
  have s1: "unat (?T - ?f) = unat ?T - unat ?f" using b by (intro unat_sub) (simp add: word_le_nat_alt)
  have s2: "unat (?T - ?f - ?p) = unat ?T - unat ?f - unat ?p" using b s1 by (subst unat_sub) (simp_all add: word_le_nat_alt)
  have le: "sq_finalized_paid q \<le> ?T - ?f - ?p" using g1 by simp
  then have s3: "unat (?T - ?f - ?p - sq_finalized_paid q) = unat ?T - unat ?f - unat ?p - unat (sq_finalized_paid q)" using s2 by (subst unat_sub) simp_all
  have room: "unat ?f + unat ?p + unat (sq_finalized_paid q) + unat (sq_payout q) \<le> unat ?T"
    using le g2 s2 s3 b by (simp add: word_le_nat_alt word_less_nat_alt not_less)
  have T: "unat ?T < 2 ^ 64" using unsigned_less [of ?T, where 'a = nat] by simp
  have u: "unat (?f + sq_finalized_paid q) = unat ?f + unat (sq_finalized_paid q)" "unat (?p + sq_payout q) = unat ?p + unat (sq_payout q)"
    using room T by (simp_all add: unat_word_ariths)
  have same: "\<forall>q\<in>set (tq_slots r). sq_budget q = budget" using assms(1,2) by (cases "slot = 0") (simp_all add: term_sums_def budget_def)
  show ?thesis unfolding r' using assms(1) room u eq same by (simp add: term_sums_def)
qed

lemma quote_slots_ok:
  "quote_slots quote_of slots n r = Inr (Some r') \<Longrightarrow> term_sums r \<Longrightarrow> 0 \<in> set slots \<longrightarrow> tq_slots r = [] \<and> hd slots = 0 \<and> 0 \<notin> set (tl slots)
   \<Longrightarrow> term_sums r' \<and> (\<exists>qs. tq_slots r' = tq_slots r @ qs \<and> list_all2 (\<lambda>slot q. quote_of slot = Inr (Some q)) slots qs)"
proof (induction slots arbitrary: n r)
  case (Cons slot slots)
  obtain q r1 where q: "quote_of slot = Inr (Some q)" "add_slot_quote slot q r = Some r1"
    and rest: "quote_slots quote_of slots (n + length (sq_entries q)) r1 = Inr (Some r')"
    using Cons.prems(1) by (auto simp: bindE_Inr_iff split: option.split_asm if_split_asm)
  have step: "term_sums r1" "tq_slots r1 = tq_slots r @ [q]" using term_step [OF Cons.prems(2) _ q(2)] Cons.prems(3) by auto
  have "0 \<notin> set slots" using Cons.prems(3) by (cases "slot = 0") auto
  then show ?case using Cons.IH [OF rest step(1)] step(2) q(1) by auto
qed simp

lemma independent_chunks_sound:
  assumes "independent_chunks C A K scopes s db chunks = Inr True" "chunk \<in> set chunks"
  shows "\<exists>s0 s1 xs ys. slot_scope_of scopes chunk 0 = Some s0 \<and> slot_scope_of scopes chunk 1 = Some s1
    \<and> LoadStorageFundedSlotClaims C A K s0 s db = Inr (Some xs) \<and> LoadStorageFundedSlotClaims C A K s1 s db = Inr (Some ys)
    \<and> (\<forall>x\<in>set xs. \<forall>y\<in>set ys. claims_meet x y \<longrightarrow> independent_claims (plans_of scopes) x y)"
  using assms
proof (induction chunks)
  case (Cons c chunks)
  obtain s0 s1 xs ys where c: "slot_scope_of scopes c 0 = Some s0" "slot_scope_of scopes c 1 = Some s1"
    "LoadStorageFundedSlotClaims C A K s0 s db = Inr (Some xs)" "LoadStorageFundedSlotClaims C A K s1 s db = Inr (Some ys)"
    "walk_claims (independent_claims (plans_of scopes)) xs ys" "independent_chunks C A K scopes s db chunks = Inr True"
  proof -
    obtain s0 s1 where sc: "slot_scope_of scopes c 0 = Some s0" "slot_scope_of scopes c 1 = Some s1"
      using Cons.prems(1) by (cases "slot_scope_of scopes c 0"; cases "slot_scope_of scopes c 1") auto
    obtain l r where lr: "LoadStorageFundedSlotClaims C A K s0 s db = Inr l" "LoadStorageFundedSlotClaims C A K s1 s db = Inr r"
      using Cons.prems(1) sc by (auto simp: bindE_Inr_iff)
    obtain xs ys where xy: "l = Some xs" "r = Some ys" using Cons.prems(1) sc lr by (cases l; cases r) auto
    show thesis by (rule that [of s0 s1 xs ys]) (use Cons.prems(1) sc lr xy in \<open>auto split: if_split_asm\<close>)
  qed
  show ?case
  proof (cases "chunk = c")
    case True
    have "independent_claims (plans_of scopes) x y" if "x \<in> set xs" "y \<in> set ys" "claims_meet x y" for x y
      using walk_claims_complete [OF c(5) LoadClaims_sorted [OF c(3)] LoadClaims_sorted [OF c(4)] that] .
    then show ?thesis using c True by blast
  qed (use Cons.IH [OF c(6)] Cons.prems(2) in simp)
qed simp

lemma term_quote_parts:
  assumes "PrepareStorageAssignmentTermPayouts C A K genesis assignments chunks rate through paid registries s db = Inr (Some q)"
  shows "\<exists>base rest. assignments = base # rest \<and> ctx_replicas (sc_context base) \<noteq> 0 \<and> (\<forall>sc\<in>set assignments. same_term base sc)
    \<and> quote_slots (\<lambda>slot. QuoteSlot C A K genesis (filter (\<lambda>sc. unat (sc_replica_slot sc) = slot) assignments) chunks rate through
         (map sp_payment (filter (\<lambda>p. unat (sp_replica_slot p) = slot) paid)) registries (snd (Batch_open s)) db) [0..<unat (ctx_replicas (sc_context base))] 0
         \<lparr> tq_budget = \<lparr> per_replica = 0, budget_total = 0, budget_unit_seconds = 0 \<rparr>, tq_finalized_paid = 0, tq_payout = 0, tq_slots = [] \<rparr> = Inr (Some q)
    \<and> (ctx_replicas (sc_context base) = 2 \<longrightarrow> independent_chunks C A K assignments (snd (Batch_open s)) db (chunks_of assignments) = Inr True)"
proof -
  obtain base rest where a: "assignments = base # rest" using assms by (cases assignments) (simp_all add: PrepareStorageAssignmentTermPayouts_def)
  obtain b s1 where o: "Batch_open s = (b, s1)" by fastforce
  show ?thesis using assms a o
    by (auto simp: PrepareStorageAssignmentTermPayouts_def bindE_Inr_iff list_all_iff Let_def split: option.split_asm if_split_asm)
qed

section \<open>Properties\<close>

text \<open>A portable attestation survives the wire: whatever \<^verbatim>\<open>EncodeStorageAssignmentAttestation\<close> emits (it refuses a plan that is not the one
  computed from its own context and providers, and a signature of a wrong size), \<^verbatim>\<open>DecodeStorageAssignmentAttestation\<close> reads back as the same plan and
  signature, and the size of the record is the fixed part plus 64 bytes for each provider.
\<close>

theorem attestation_roundtrip:
  assumes "EncodeStorageAssignmentAttestation C a = Inr (Some bs)"
  shows "DecodeStorageAssignmentAttestation C bs = Inr (Some a) \<and> length bs = ATTESTATION_FIXED_SIZE + 64 * length (plan_eligible (aa_plan a))"
proof -
  have "bs = attestation_bytes a" "length (sig_ml_dsa (aa_signature a)) = 3309"
    using assms by (auto simp: EncodeStorageAssignmentAttestation_def bindE_Inr_iff split: if_split_asm)
  then have "length bs = ATTESTATION_FIXED_SIZE + 64 * length (plan_eligible (aa_plan a))"
    by (simp add: attestation_bytes_def Context_bytes_def ATTESTATION_FIXED_SIZE_def)
  then show ?thesis using attestation_reads_back [OF assms] by blast
qed

text \<open>C25. The quote of a term is covered by its budget. Whenever \<^verbatim>\<open>PrepareStorageAssignmentTermPayouts\<close> returns a quote, there is one slot quote for each replica, all
  on the budget computed for the number of chunks, the replicas and the length of the term; what was already paid and what is due add up, over the slots
  and inside every slot over the providers, to the totals; they never exceed the budget of the term, nor that of a replica in a slot; each provider has
  one entry, whose entitlement is the exact floor of its verified share; the verified seconds of a slot never exceed the funded ones. With two replicas, whenever two claims of
  a chunk of the assignments overlap in time, they were served by different storages for different payout accounts.
\<close>

theorem term_quote_within_budget:
  assumes "PrepareStorageAssignmentTermPayouts C A K genesis assignments chunks rate through paid registries s db = Inr (Some q)"
  shows "unat (tq_finalized_paid q) + unat (tq_payout q) \<le> unat (budget_total (tq_budget q))
    \<and> unat (tq_finalized_paid q) = (\<Sum>sq\<leftarrow>tq_slots q. unat (sq_finalized_paid sq)) \<and> unat (tq_payout q) = (\<Sum>sq\<leftarrow>tq_slots q. unat (sq_payout sq))
    \<and> (\<forall>sq\<in>set (tq_slots q). sq_budget sq = tq_budget q \<and> unat (sq_finalized_paid sq) + unat (sq_payout sq) \<le> unat (per_replica (tq_budget q))
         \<and> unat (sq_finalized_paid sq) = (\<Sum>e\<leftarrow>sq_entries sq. unat (py_finalized_paid e)) \<and> unat (sq_payout sq) = (\<Sum>e\<leftarrow>sq_entries sq. unat (py_payout e))
         \<and> list_all (entry_exact (tq_budget q)) (sq_entries sq) \<and> distinct (map (\<lambda>e. prov_key (py_provider e)) (sq_entries sq))
         \<and> unat (sq_verified_unit_seconds sq) = (\<Sum>e\<leftarrow>sq_entries sq. unat (py_verified_unit_seconds e))
         \<and> sq_verified_unit_seconds sq \<le> budget_unit_seconds (tq_budget q))
    \<and> (\<exists>base rest. assignments = base # rest \<and> length (tq_slots q) = unat (ctx_replicas (sc_context base))
         \<and> ComputeAssignedStorageBudget (of_nat (length chunks)) (ucast (ctx_replicas (sc_context base)))
             (ctx_term_end (sc_context base) - ctx_term_start (sc_context base)) (sc_period_seconds base) rate = Some (tq_budget q)
         \<and> (ctx_replicas (sc_context base) = 2 \<longrightarrow> (\<forall>chunk\<in>(\<lambda>sc. ctx_chunk (sc_context sc)) ` set assignments. \<exists>s0 s1 xs ys.
              slot_scope_of assignments chunk 0 = Some s0 \<and> slot_scope_of assignments chunk 1 = Some s1
              \<and> LoadStorageFundedSlotClaims C A K s0 (snd (Batch_open s)) db = Inr (Some xs) \<and> LoadStorageFundedSlotClaims C A K s1 (snd (Batch_open s)) db = Inr (Some ys)
              \<and> (\<forall>x\<in>set xs. \<forall>y\<in>set ys. claims_meet x y \<longrightarrow> independent_claims (plans_of assignments) x y))))"
proof -
  let ?empty = "\<lparr> tq_budget = \<lparr> per_replica = 0, budget_total = 0, budget_unit_seconds = 0 \<rparr>, tq_finalized_paid = 0, tq_payout = 0, tq_slots = [] \<rparr>"
  let ?quote = "\<lambda>slot. QuoteSlot C A K genesis (filter (\<lambda>sc. unat (sc_replica_slot sc) = slot) assignments) chunks rate through
       (map sp_payment (filter (\<lambda>p. unat (sp_replica_slot p) = slot) paid)) registries (snd (Batch_open s)) db"
  obtain base rest where a: "assignments = base # rest" and n0: "ctx_replicas (sc_context base) \<noteq> 0"
    and same: "\<forall>sc\<in>set assignments. same_term base sc"
    and qs: "quote_slots ?quote [0..<unat (ctx_replicas (sc_context base))] 0 ?empty = Inr (Some q)"
    and ind: "ctx_replicas (sc_context base) = 2 \<longrightarrow> independent_chunks C A K assignments (snd (Batch_open s)) db (chunks_of assignments) = Inr True"
    using term_quote_parts [OF assms] by blast
  let ?n = "unat (ctx_replicas (sc_context base))"
  have n: "0 < ?n" using n0 by (simp add: unat_gt_0)
  have "term_sums ?empty" by (simp add: term_sums_def)
  from quote_slots_ok [OF qs this] n have ts: "term_sums q" and all: "list_all2 (\<lambda>slot sq. ?quote slot = Inr (Some sq)) [0..<?n] (tq_slots q)"
    by (auto simp: upt_rec [of 0] )
  have len: "length (tq_slots q) = ?n" using list_all2_lengthD [OF all] by simp
  have each: "\<exists>slot. ?quote slot = Inr (Some sq)" if "sq \<in> set (tq_slots q)" for sq
    using that all by (auto simp: in_set_conv_nth list_all2_conv_all_nth)
  have budgets: "\<forall>sq\<in>set (tq_slots q). sq_budget sq = tq_budget q" using ts by (simp add: term_sums_def)
  obtain sq where sq: "sq \<in> set (tq_slots q)" using len n by (cases "tq_slots q") auto
  obtain slot where "?quote slot = Inr (Some sq)" using each [OF sq] by blast
  from QuoteSlot_ok(6) [OF this] obtain b bs where b: "filter (\<lambda>sc. unat (sc_replica_slot sc) = slot) assignments = b # bs"
    "ComputeAssignedStorageBudget (of_nat (length chunks)) (ucast (ctx_replicas (sc_context b))) (ctx_term_end (sc_context b) - ctx_term_start (sc_context b))
       (sc_period_seconds b) rate = Some (sq_budget sq)" by blast
  have "b \<in> set assignments" using b(1) by (metis filter_is_subset list.set_intros(1) subsetD)
  then have "same_term base b" using same by blast
  then have budget: "ComputeAssignedStorageBudget (of_nat (length chunks)) (ucast (ctx_replicas (sc_context base)))
             (ctx_term_end (sc_context base) - ctx_term_start (sc_context base)) (sc_period_seconds base) rate = Some (tq_budget q)"
    using b(2) budgets sq by (simp add: same_term_def Let_def)
  have slots: "\<forall>sq\<in>set (tq_slots q). sq_budget sq = tq_budget q \<and> unat (sq_finalized_paid sq) + unat (sq_payout sq) \<le> unat (per_replica (tq_budget q))
         \<and> unat (sq_finalized_paid sq) = (\<Sum>e\<leftarrow>sq_entries sq. unat (py_finalized_paid e)) \<and> unat (sq_payout sq) = (\<Sum>e\<leftarrow>sq_entries sq. unat (py_payout e))
         \<and> list_all (entry_exact (tq_budget q)) (sq_entries sq) \<and> distinct (map (\<lambda>e. prov_key (py_provider e)) (sq_entries sq))
         \<and> unat (sq_verified_unit_seconds sq) = (\<Sum>e\<leftarrow>sq_entries sq. unat (py_verified_unit_seconds e))
         \<and> sq_verified_unit_seconds sq \<le> budget_unit_seconds (tq_budget q)"
    using each budgets QuoteSlot_ok(1-4) unfolding quote_sums_def by metis
  have chunks: "set (chunks_of assignments) = (\<lambda>sc. ctx_chunk (sc_context sc)) ` set assignments" by (simp add: chunks_of_def)
  show ?thesis
    using ts slots a len budget ind independent_chunks_sound [of C A K assignments "snd (Batch_open s)" db "chunks_of assignments"] chunks
    unfolding term_sums_def by (intro conjI exI [of _ base] exI [of _ rest]) auto
qed

section \<open>A quoted term\<close>

text \<open>
  The funded slot of \<open>AssignmentEvidence\<close>, attested by the finalizer of the sample network and with one recorded interval of twenty seconds; the payout
  account is registered.
\<close>

definition quote_signature :: IdentityHybridSignature where "quote_signature = sample_sig POA_FINALIZER"

definition quote_attestation :: AttestedStorageAssignment where
  "quote_attestation = \<lparr> aa_plan = slot_plan, aa_signature = quote_signature \<rparr>"

definition quote_binding :: StoragePayoutBinding where
  "quote_binding = \<lparr> spb_payout_account = 8, spb_authorization = sample_sig AUTHORIZATION, spb_storage_proof = replicate (32 + 1312 + 64 + 2420) 1 \<rparr>"

definition quote_registry :: IdentityRegistry where
  "quote_registry = \<lparr> m_accounts = [(8, sample_identity 1)], m_recovery_index = [] \<rparr>"

definition quote_claim :: StorageFundedSlotClaim where
  "quote_claim = \<lparr> cl_assignment = 7, cl_interval = slot_interval \<rparr>"

definition quote_names :: "string set" where
  "quote_names = insert (Attestation_Key slot_plan) (insert (BindingKey slot_plan 6) slot_names)"

lemma quote_lengths: "length (Attestation_Key slot_plan) = 95" "length (BindingKey slot_plan 6) = 168"
  by code_simp+

lemma slot_commitment: "plan_commitment slot_plan = 7" "plan_context slot_plan = slot_context"
  "plan_eligible slot_plan = [\<lparr> prov_storage_id = 6, prov_payout_account = 8 \<rparr>]" "plan_selected slot_plan = [\<lparr> prov_storage_id = 6, prov_payout_account = 8 \<rparr>]"
  by (simp_all add: slot_plan_def)

lemma quote_encoded: "EncodeStorageAssignmentAttestation slot_crypto quote_attestation = Inr (Some (attestation_bytes quote_attestation))"
proof -
  have "length (attestation_bytes quote_attestation) \<le> MAX_OPERATION_PAYLOAD_BYTES"
    by (simp add: attestation_bytes_def quote_attestation_def slot_commitment Context_bytes_def Providers_bytes_def quote_signature_def sample_sig_def SignatureSize_def
        MAX_OPERATION_PAYLOAD_BYTES_def)
  then show ?thesis using slot_plan_prepared
    by (simp add: EncodeStorageAssignmentAttestation_def quote_attestation_def quote_signature_def sample_sig_def SignatureSize_def)
qed

theorem attestation_roundtrip_witness:
  "DecodeStorageAssignmentAttestation slot_crypto (attestation_bytes quote_attestation) = Inr (Some quote_attestation)"
  using attestation_roundtrip [OF quote_encoded] by blast

lemma quote_verifies: "VerifyIdentityMessage slot_crypto poa_key quote_signature m"
  "VerifyIdentityMessage slot_crypto (sample_key AUTHORIZATION 1) (sample_sig AUTHORIZATION) m"
  by (simp_all add: VerifyIdentityMessage_def Verify_def slot_crypto_def sample_crypto_def poa_key_def sample_key_def quote_signature_def sample_sig_def
      PublicSize_def SignatureSize_def)

lemma quote_attested: "VerifyStorageAssignmentAttestation slot_crypto sample_genesis quote_attestation = Inr True"
proof -
  have "ComputeNetworkBinding slot_crypto (ng_network_public_key (vg_genesis sample_genesis)) = Inr 7"
    by (simp add: ComputeNetworkBinding_def Sha256_Finalize_def slot_crypto_def)
  then have "\<exists>d. Attestation_Digest slot_crypto sample_genesis slot_plan = Inr (Some d)"
    using slot_plan_prepared by (simp add: Attestation_Digest_def slot_commitment slot_context_def ComputeSha256_def slot_crypto_def)
  then show ?thesis
    by (auto simp: VerifyStorageAssignmentAttestation_def quote_attestation_def quote_verifies sample_genesis_def sample_network_def)
qed

lemma quote_bound: "binding_wf quote_binding" "binding_verifies slot_crypto slot_plan quote_registry \<lparr> bp_storage_id = 6, bp_binding = quote_binding \<rparr>"
proof -
  show "binding_wf quote_binding" by (simp add: binding_wf_def quote_binding_def sample_sig_def SignatureSize_def)
  have ne: "subspan 32 1312 (replicate 3828 (1 :: byte)) \<noteq> []" by (simp add: length_subspan flip: length_greater_0_conv)
  have "VerifyStoragePayoutBindingStorageKey slot_crypto quote_binding nb 6" for nb
    by (simp add: ne VerifyStoragePayoutBindingStorageKey_def VerifyStorageProof_def quote_binding_def Let_def VerifyIdentityMessage_def Verify_def slot_crypto_def
        sample_crypto_def PublicSize_def SignatureSize_def length_subspan ComputeChunkId_def)
  then show "binding_verifies slot_crypto slot_plan quote_registry \<lparr> bp_storage_id = 6, bp_binding = quote_binding \<rparr>"
    using quote_verifies(2) by (simp add: binding_verifies_def Registry_Find_def quote_registry_def) (simp add: quote_binding_def sample_identity_def sample_key_def)
qed

text \<open>Distinct names of distinct length have distinct rows in the toy store.\<close>

lemma quote_ready: "store_ready toy_sealing toy_keystore quote_names 9 toy_store toy_db"
proof -
  have v: "valid_name n" if "27 < length n" "length n \<le> 512" for n
    using that by (auto simp: valid_name_def MAX_NAME_BYTES_def CHECK_NAME_def)
  have n: "valid_name m" if "m \<in> quote_names" for m using that by (auto simp: quote_names_def slot_names_def slot_lengths quote_lengths intro!: v)
  have i: "inj_on (row_of toy_sealing (ps_account toy_store) 9) quote_names"
    by (simp add: inj_on_def quote_names_def slot_names_def row_of_def toy_sealing_def AssociatedData_def RECORD_DOMAIN_def slot_lengths quote_lengths)
  show ?thesis using slot_ready n i unfolding store_ready_def by (simp add: toy_sealing_def toy_db_def)
qed

lemma quote_distinct: "distinct [Attestation_Key slot_plan, BindingKey slot_plan 6, slot_key, Evidence_Key slot_scope, FundedKey slot_scope, FundedKey slot_scope @ INITIALIZED]"
  by (rule distinct_map [where f = length, THEN iffD1, THEN conjunct1]) (simp add: slot_lengths quote_lengths)

definition quote_records :: "(string \<times> bytes) list" where
  "quote_records = [(Attestation_Key slot_plan, be_bytes 64 (sig_ed25519 quote_signature) @ sig_ml_dsa quote_signature),
     (BindingKey slot_plan 6, EncodeStoragePayoutBinding quote_binding), (slot_key, Plan_Encode slot_plan True),
     (Evidence_Key slot_scope, Evidence_Encode slot_scope [slot_interval]), (FundedKey slot_scope, EncodeClaims slot_scope [quote_claim]),
     (FundedKey slot_scope @ INITIALIZED, [1])]"

lemma quote_db:
  "\<exists>db. store_ready toy_sealing toy_keystore quote_names 9 toy_store db
     \<and> (\<forall>(n, v)\<in>set quote_records. durable toy_sealing toy_store 9 db n = Some v)"
proof -
  let ?st = "foldr (\<lambda>(n, v) st. map_assign n (Some v) st) quote_records []"
  have l: "length (Plan_Encode slot_plan True) \<le> MAX_VALUE_BYTES"
    using Plan_Encode_fits [OF prepared_sizes [OF slot_plan_prepared], of True] by (simp add: MAX_VALUE_BYTES_def)
  have sizes: "\<forall>(n, v)\<in>set quote_records. n \<in> quote_names \<and> length v \<le> MAX_VALUE_BYTES"
    using l by (simp add: quote_records_def quote_names_def slot_names_def quote_signature_def sample_sig_def SignatureSize_def EncodeStoragePayoutBinding_def
        quote_binding_def Evidence_Encode_def EncodeClaims_def MAX_VALUE_BYTES_def interval_bytes_def claim_bytes_def)
  have assign: "staged_ok quote_names (foldr (\<lambda>(n, v) st. map_assign n (Some v) st) rs [])"
    if "\<forall>(n, v)\<in>set rs. n \<in> quote_names \<and> length v \<le> MAX_VALUE_BYTES" for rs :: "(string \<times> bytes) list"
    using that by (induction rs) (auto simp: staged_ok_def [of _ "[]"] intro!: staged_ok_assign)
  have find: "map_find (foldr (\<lambda>(n, v) st. map_assign n (Some v) st) rs []) n = map_option Some (map_of rs n)" for rs :: "(string \<times> bytes) list" and n
    by (induction rs) auto
  have ok: "staged_ok quote_names ?st" by (rule assign [OF sizes])
  have "build_batch toy_sealing toy_store 9 (\<lambda>_. Some 0) ?st [] \<noteq> None"
    by (rule build_batch_total [OF quote_ready ok]) (simp_all add: toy_sealing_def)
  then obtain db where d: "store_ready toy_sealing toy_keystore quote_names 9 toy_store db"
    "\<forall>n\<in>quote_names. durable toy_sealing toy_store 9 db n = overlay ?st (durable toy_sealing toy_store 9 toy_db) n"
    using WriteChanges_effect [OF quote_ready ok, of "\<lambda>_. Some 0" WriteOk] by blast
  have "distinct (map fst quote_records)" using quote_distinct by (simp add: quote_records_def)
  then have "durable toy_sealing toy_store 9 db n = Some v" if "(n, v) \<in> set quote_records" for n v
    using d(2) sizes that by (auto simp: overlay_def find)
  then show ?thesis using d(1) by blast
qed

lemma opened_again: "snd (Batch_open (snd (Batch_open s))) = snd (Batch_open s)"
  by (simp add: Batch_open_def split: option.split)

lemma quote_loads:
  assumes ready: "store_ready toy_sealing toy_keystore quote_names 9 toy_store db"
    and rows: "\<forall>(n, v)\<in>set quote_records. durable toy_sealing toy_store 9 db n = Some v"
  defines "s1 \<equiv> snd (Batch_open toy_store)"
  shows "LoadStorageAssignmentAttestation slot_crypto toy_sealing toy_keystore sample_genesis slot_context s1 db = Inr (Some quote_attestation)"
    "\<exists>ps. LoadStorageAssignmentBindings slot_crypto toy_sealing toy_keystore sample_genesis slot_context quote_registry 4 s1 db = Inr (Some ps)"
    "StorageAssignmentVerifiedSeconds slot_crypto toy_sealing toy_keystore slot_scope 11 s1 db = Inr (Some 20)"
    "LoadStorageFundedSlotClaims slot_crypto toy_sealing toy_keystore slot_scope s1 db = Inr (Some [quote_claim])"
proof -
  have idle: "ps_staged toy_store = None" by (simp add: toy_store_def)
  have get: "Get toy_sealing toy_keystore db s1 n = Inr (Some v)" if "(n, v) \<in> set quote_records" for n v
    using Get_opened [OF ready idle, of n] rows that by (auto simp: s1_def quote_names_def quote_records_def slot_names_def)
  have again: "\<exists>b. Batch_open s1 = (b, s1)" unfolding s1_def using opened_again [of toy_store] by (metis prod.collapse)
  have plan: "read_plan slot_crypto slot_context (Plan_Encode slot_plan True) = Inr (Some slot_plan)"
    using read_plan_encoded [OF slot_plan_prepared] by (simp add: slot_commitment)
  have load: "LoadStorageAssignment slot_crypto toy_sealing toy_keystore slot_context s1 db = Inr (Some slot_plan)"
    using get [of slot_key "Plan_Encode slot_plan True"] by (simp add: LoadStorageAssignment_def slot_key quote_records_def plan catch_codec_def)
  let ?sig = "be_bytes 64 (sig_ed25519 quote_signature) @ sig_ml_dsa quote_signature"
  have len: "length (sig_ml_dsa quote_signature) = 3309" by (simp add: quote_signature_def sample_sig_def SignatureSize_def)
  have "reader_open CODEC_LIMIT ?sig = Inr ?sig" "reader_signature ?sig = Inr (quote_signature, [])"
    using len by (simp_all add: reader_open_iff CODEC_LIMIT_def reader_signature_iff)
  then show attested: "LoadStorageAssignmentAttestation slot_crypto toy_sealing toy_keystore sample_genesis slot_context s1 db = Inr (Some quote_attestation)"
    using quote_attested get [of "Attestation_Key slot_plan" ?sig]
    by (simp add: LoadStorageAssignmentAttestation_def load Attestation_Read_def quote_records_def reader_Finish_def catch_codec_def quote_attestation_def [symmetric])
  have decoded: "DecodeStoragePayoutBinding (EncodeStoragePayoutBinding quote_binding) = Some quote_binding"
    using quote_bound(1) by (simp add: DecodeStoragePayoutBinding_iff)
  have a: "aa_plan quote_attestation = slot_plan" by (simp add: quote_attestation_def)
  have "VerifyStorageAssignmentBindings slot_crypto slot_plan quote_registry 4 [\<lparr> bp_storage_id = 6, bp_binding = quote_binding \<rparr>] = Inr True"
    using quote_bound(2) slot_plan_prepared
    by (simp add: VerifyStorageAssignmentBindings_def slot_commitment slot_context_def sample_context_def MAX_STORAGE_ASSIGNMENT_CANDIDATES_def) (simp add: quote_binding_def)
  then show "\<exists>ps. LoadStorageAssignmentBindings slot_crypto toy_sealing toy_keystore sample_genesis slot_context quote_registry 4 s1 db = Inr (Some ps)"
    using again attested get [of "BindingKey slot_plan 6" "EncodeStoragePayoutBinding quote_binding"]
    by (auto simp: LoadStorageAssignmentBindings_def a slot_commitment quote_records_def decoded)
  have scope: "ScopeValid slot_crypto toy_sealing toy_keystore slot_scope s1 db = Inr True"
  proof -
    have "scope_arithmetic slot_scope"
      by (simp add: scope_arithmetic_def slot_scope_def slot_plan_def slot_context_def sample_context_def Let_def word_less_nat_alt word_le_nat_alt)
    moreover have "AccessKey toy_sealing toy_keystore db s1 = Inr (Some 9)" using AccessKey_opened [OF idle] store_readyD(1) [OF ready] by (simp add: s1_def)
    moreover have "sc_context slot_scope = slot_context" "sc_assignment slot_scope = slot_plan" by (simp_all add: slot_scope_def slot_commitment)
    ultimately show ?thesis by (simp add: ScopeValid_def IsUnlocked_def load)
  qed
  have valid: "IntervalValid slot_scope slot_interval"
    by (simp add: IntervalValid_def slot_interval_def slot_scope_def slot_plan_def slot_context_def sample_context_def period_start_def word_less_nat_alt word_le_nat_alt)
  have names: "journal_names slot_crypto slot_scope quote_names" using slot_journal_names by (auto simp: journal_names_def quote_names_def)
  have journals: "read_journals slot_crypto toy_sealing toy_keystore slot_scope s1 db = Inr (Some ([slot_interval], [quote_claim]))"
    unfolding s1_def
  proof (rule journals_written [OF ready idle names])
    show "Consistent slot_scope [slot_interval] [quote_claim]" by (simp add: Consistent_def quote_claim_def slot_scope_def slot_commitment)
  qed (use valid rows in \<open>simp_all add: intervals_ok_def claims_ok_def quote_claim_def MAX_STORAGE_ASSIGNMENT_INTERVALS_def quote_records_def\<close>)
  have "verified_total 11 [slot_interval] = 20" by (simp add: verified_total_def seconds_of_interval_def slot_interval_def)
  then show "StorageAssignmentVerifiedSeconds slot_crypto toy_sealing toy_keystore slot_scope 11 s1 db = Inr (Some 20)"
    unfolding VerifiedSeconds_iff using scope journals opened_again [of toy_store]
    by (simp add: s1_def) (simp add: slot_scope_def slot_plan_def slot_context_def sample_context_def)
  show "LoadStorageFundedSlotClaims slot_crypto toy_sealing toy_keystore slot_scope s1 db = Inr (Some [quote_claim])"
    using again scope journals by (auto simp: LoadStorageFundedSlotClaims_def)
qed

definition quote_budget :: AssignedStorageBudget where
  "quote_budget = \<lparr> per_replica = 120, budget_total = 120, budget_unit_seconds = 120 \<rparr>"

definition quote_rate :: u64 where "quote_rate = STORAGE_RENT_DENOMINATOR"

lemma quote_budget: "ComputeAssignedStorageBudget 1 1 2 60 quote_rate = Some quote_budget"
  by (simp add: ComputeAssignedStorageBudget_iff quote_budget_def quote_rate_def STORAGE_RENT_DENOMINATOR_def rent_den_def ceil_div_def)

definition quote_slot :: StorageAssignmentSlotQuote where
  "quote_slot = \<lparr> sq_budget = quote_budget, sq_verified_unit_seconds = 20, sq_finalized_paid = 5, sq_payout = 15,
     sq_entries = [\<lparr> py_provider = \<lparr> prov_storage_id = 6, prov_payout_account = 8 \<rparr>, py_verified_unit_seconds = 20, py_entitlement = 20, py_finalized_paid = 5, py_payout = 15 \<rparr>] \<rparr>"

definition quote_paid :: StorageAssignmentPaid where
  "quote_paid = \<lparr> pd_provider = \<lparr> prov_storage_id = 6, prov_payout_account = 8 \<rparr>, pd_finalized_paid = 5 \<rparr>"

lemma quote_due: "ComputeAssignedStoragePayout quote_budget 20 5 = Some 15"
  by (simp add: ComputeAssignedStoragePayout_iff budget_ok_def entitlement_def quote_budget_def)

lemma quote_slot:
  assumes "store_ready toy_sealing toy_keystore quote_names 9 toy_store db" "\<forall>(n, v)\<in>set quote_records. durable toy_sealing toy_store 9 db n = Some v"
  shows "QuoteSlot slot_crypto toy_sealing toy_keystore sample_genesis [slot_scope] [3] quote_rate 11 [quote_paid] [(4, Some quote_registry)] (snd (Batch_open toy_store)) db
    = Inr (Some quote_slot)"
proof -
  note loads = quote_loads [OF assms]
  have sc: "sc_context slot_scope = slot_context" "sc_assignment slot_scope = slot_plan" "sc_replica_slot slot_scope = 0" "sc_period_seconds slot_scope = 60"
    by (simp_all add: slot_scope_def slot_commitment)
  have cx: "ctx_term_start slot_context = 10" "ctx_term_end slot_context = 12" "ctx_replicas slot_context = 1" "ctx_chunk slot_context = 3" "ctx_finalized_seed slot_context = 4"
    by (simp_all add: slot_context_def sample_context_def)
  have iv: "iv_period slot_interval = 11" "iv_start_utc slot_interval = 1070" "iv_end_utc slot_interval = 1090" by (simp_all add: slot_interval_def)
  have h: "historical_registries [(4, Some quote_registry)] [] = Some [(4, quote_registry)]" by (simp add: map_contains_def map_emplace_def)
  have a: "aa_plan quote_attestation = slot_plan" by (simp add: quote_attestation_def)
  have c: "collect_scopes slot_crypto toy_sealing toy_keystore sample_genesis slot_scope [3] 11 [(4, quote_registry)] (snd (Batch_open toy_store)) db [slot_scope] [] []
      = Inr (Some ([(7, slot_scope)], [(3, slot_scope)]))"
    using loads(1,2,3) by (auto simp: sc cx a slot_commitment same_term_def Let_def map_contains_def map_emplace_def)
  have n: "count_claims [(7, slot_scope)] 0 3 11 120 [quote_claim] ([], 0) = Some ([((6, 8), 20)], 20)"
    by (simp add: quote_claim_def sc cx iv slot_commitment prov_key_def Let_def service_of_def map_emplace_def word_less_nat_alt word_le_nat_alt)
  have e: "quote_entries quote_budget [((6, 8), 5)] [((6, 8), 20)]
      \<lparr> sq_budget = quote_budget, sq_verified_unit_seconds = 20, sq_finalized_paid = 0, sq_payout = 0, sq_entries = [] \<rparr> = Some quote_slot"
    using quote_due by (simp add: service_of_def quote_slot_def provider_of_key_def) (simp add: quote_budget_def)
  have f: "paid_history [((6, 8), 20)] [quote_paid] [] = Some [((6, 8), 5)]"
    by (simp add: quote_paid_def prov_key_def map_contains_def map_emplace_def)
  have b: "budget_unit_seconds quote_budget = 120" by (simp add: quote_budget_def)
  show ?thesis unfolding QuoteSlot_def using h c n e f b loads(4) quote_budget by (simp add: sc slot_commitment cx Let_def)
qed

theorem term_quote_within_budget_witness:
  "\<exists>db q. PrepareStorageAssignmentTermPayouts slot_crypto toy_sealing toy_keystore sample_genesis [slot_scope] [3] quote_rate 11
       [\<lparr> sp_replica_slot = 0, sp_payment = quote_paid \<rparr>] [(4, Some quote_registry)] toy_store db = Inr (Some q)
     \<and> tq_finalized_paid q = 5 \<and> tq_payout q = 15 \<and> unat (tq_finalized_paid q) + unat (tq_payout q) \<le> unat (budget_total (tq_budget q)) \<and> length (tq_slots q) = 1"
proof -
  obtain db where d: "store_ready toy_sealing toy_keystore quote_names 9 toy_store db" "\<forall>(n, v)\<in>set quote_records. durable toy_sealing toy_store 9 db n = Some v"
    using quote_db by blast
  let ?q = "\<lparr> tq_budget = quote_budget, tq_finalized_paid = 5, tq_payout = 15, tq_slots = [quote_slot] \<rparr>"
  have sc: "ctx_replicas (sc_context slot_scope) = 1" "sc_replica_slot slot_scope = 0" by (simp_all add: slot_scope_def slot_plan_def slot_context_def sample_context_def)
  have o: "b_outermost (fst (Batch_open toy_store))" by (simp add: Batch_open_def toy_store_def)
  have q: "sq_entries quote_slot \<noteq> [] \<and> length (sq_entries quote_slot) \<le> 1024"
    "add_slot_quote 0 quote_slot \<lparr> tq_budget = \<lparr> per_replica = 0, budget_total = 0, budget_unit_seconds = 0 \<rparr>, tq_finalized_paid = 0, tq_payout = 0, tq_slots = [] \<rparr> = Some ?q"
    by (simp_all add: add_slot_quote_def quote_slot_def quote_budget_def Let_def)
  have "PrepareStorageAssignmentTermPayouts slot_crypto toy_sealing toy_keystore sample_genesis [slot_scope] [3] quote_rate 11
       [\<lparr> sp_replica_slot = 0, sp_payment = quote_paid \<rparr>] [(4, Some quote_registry)] toy_store db = Inr (Some ?q)"
    using quote_slot [OF d] q o by (simp add: PrepareStorageAssignmentTermPayouts_def sc same_term_def split_beta Let_def)
  from term_quote_within_budget [OF this] this show ?thesis
    by (intro exI [of _ db] exI [of _ ?q] conjI) (auto simp: sc)
qed

end
