(* ===== verification/Spec2Isabelle.thy ===== *)
theory Spec2Isabelle
  imports TextForms SampleOps SamplePool OperationRelay IngressBudget PeerAdmission AssignmentPayout
begin

text \<open>
  Verification of the consensus core of CYBOU: the C++ sources under \<^verbatim>\<open>src/src/cybou\<close> that decide what a block is, what
  executing it does to the ledger, how the proof-of-authority finalizer signs it, how a node stores it, how candidate
  operations reach it, and how a node meters its peers and accounts for the storage service it pays.

  \<^bold>\<open>The program.\<close> An account signs an operation (payment, name, publication, storage lease, ...). A full node admits it to its
  candidate pool (\<^verbatim>\<open>operation_pool.cpp\<close>) after checking its relay proof of work (\<^verbatim>\<open>operation_work.cpp\<close>) and executing it on the
  finalized state. The finalizer (\<^verbatim>\<open>poa_finalizer.cpp\<close>) builds a block, records its intent in a durable journal
  (\<^verbatim>\<open>poa_signing_journal.cpp\<close>) and signs it. Every node verifies the certificate, feeds it to its conflict detector
  (\<^verbatim>\<open>poa_conflict_detector.cpp\<close>), executes the block (\<^verbatim>\<open>block_executor.cpp\<close>) and commits the new state with its root
  (\<^verbatim>\<open>state_store.cpp\<close>) in one batch of the local key-value store (\<^verbatim>\<open>kv_store.cpp\<close>). A node that cannot finalize queues operations for
  delivery to one that can (\<^verbatim>\<open>operation_relay.cpp\<close>); peers are admitted by address (\<^verbatim>\<open>p2p/peer_admission.cpp\<close>) and metered
  (\<^verbatim>\<open>p2p/ingress_budget.h\<close>). A client that pays for storage keeps frozen assignments and the evidence of service in its encrypted store
  (\<^verbatim>\<open>private_application_store.cpp\<close>) and computes from them what the settlement operations pay (\<^verbatim>\<open>storage_assignment_payout.cpp\<close>).

  \<^bold>\<open>Conventions.\<close> Unsigned C++ integers are words of their width and wrap as in the source; fixed byte arrays are words read
  big-endian (\<open>hash_bytes\<close>, \<open>be_bytes\<close>); \<^verbatim>\<open>std::map\<close> is a strictly ordered association list (theory OrderedMap); an exception is
  the left side of \<open>exn + 'a\<close> and propagates through \<open>bindE\<close>; \<^verbatim>\<open>std::optional\<close> is \<open>option\<close>; every error enumeration is a datatype of
  its own. OpenSSL and BLAKE3 are the record \<open>crypto\<close>, an argument of every definition that calls them, whose digests may fail.
  LevelDB is a map whose reads and writes may fail, each outcome being an argument. Random numbers, stop requests and signers are
  arguments too. Mutexes are not modelled: each public call is one critical section and so one step.

  \<^bold>\<open>Theories and sources.\<close>
  \<^item> Prelude, OrderedMap: exceptions, words, byte orders, ordered maps. Codec, TextForms: \<^verbatim>\<open>binary_codec.h\<close>, \<^verbatim>\<open>hash256.cpp\<close>, \<^verbatim>\<open>hex.cpp\<close>
    and UTF-8 validation; UTF-8 acceptance is proved equal to the encodings of scalar values.
  \<^item> Economy: \<^verbatim>\<open>protocol_params.h\<close>, \<^verbatim>\<open>economics.h\<close>, \<^verbatim>\<open>storage_economy.cpp\<close>; checked arithmetic against exact arithmetic.
  \<^item> Identity, AccountCreation, IdentityRegistry, Names: \<^verbatim>\<open>identity_crypto.cpp\<close> (verification and its key cache),
    \<^verbatim>\<open>identity_authorization.cpp\<close>, \<^verbatim>\<open>identity_kem.cpp\<close>, \<^verbatim>\<open>account_creation.cpp\<close>, \<^verbatim>\<open>identity_registry.cpp\<close>, \<^verbatim>\<open>name_registry.h\<close>; replay
    protection, the recovery index, label syntax, codecs.
  \<^item> State, Payloads, Merkle, Assignment, Settlement, Operation, OperationCodec: \<^verbatim>\<open>state.h\<close>, \<^verbatim>\<open>root_publication.cpp\<close>,
    \<^verbatim>\<open>chunk_authorization.cpp\<close>, \<^verbatim>\<open>storage_assignment_algorithm.cpp\<close>, \<^verbatim>\<open>storage_audit.cpp\<close>, \<^verbatim>\<open>storage_lease.cpp\<close> (formats),
    \<^verbatim>\<open>protocol_operation.cpp\<close>; the streaming Merkle accumulator equals the tree, assignments select distinct accounts.
  \<^item> Ledger, Lease, Settle, Validate: the transitions of \<^verbatim>\<open>state.cpp\<close>, \<^verbatim>\<open>payment.cpp\<close>, \<^verbatim>\<open>storage_lease.cpp\<close> and
    \<^verbatim>\<open>economics_quote.cpp\<close>, and every check of \<^verbatim>\<open>ValidateCybouState\<close>. Holdings states them as transfers between abstract purses: the
    refinement the payment, creation and publication properties use.
  \<^item> StateCodec, StateRoot, Executor: the canonical serialization and root of the state, and \<^verbatim>\<open>block_executor.cpp\<close>. The locale
    \<open>handler\<close> is the contract of an operation handler (an error changes nothing, money is conserved); all ten handlers interpret it.
  \<^item> PoaFinality, Block: \<^verbatim>\<open>poa_finality.cpp\<close>, \<^verbatim>\<open>block.cpp\<close>. NetworkGenesis: \<^verbatim>\<open>network_genesis.cpp\<close>, with the wrap-around of its
    guards. The locales of record codecs (\<open>dec (enc x) = Some x\<close> and its converse) are interpreted on every wire format.
  \<^item> LocalStore, SigningJournal, Finalizer, ConflictDetector: \<^verbatim>\<open>kv_store.cpp\<close>, \<^verbatim>\<open>poa_signing_journal.cpp\<close>, \<^verbatim>\<open>poa_finalizer.cpp\<close>,
    \<^verbatim>\<open>poa_conflict_detector.cpp\<close>, as step relations with crashes and failing writes between the steps.
  \<^item> StateStore, StoreHistory, StoreCommit: \<^verbatim>\<open>state_store.cpp\<close> and the rows \<^verbatim>\<open>finalized_event_index.cpp\<close> writes; the invariant of the
    database over every history of starts, commits, failures and crashes; restart; commitment of the finalizer's candidate.
    A batch that was reported as failed although it reached the log ends the process in these histories: the next step is a restart.
  \<^item> OperationWork, OperationPool, PoolHistory: \<^verbatim>\<open>operation_work.cpp\<close>, \<^verbatim>\<open>operation_pool.cpp\<close>; the accounting of the pool and the
    executability of its snapshot. Calls may end by an exception and the pool goes on; an interrupted replay leaves its context
    installed, with whatever executor the exception left (the argument \<open>torn\<close>), and \<open>interrupted_context_trusted\<close> shows what follows.
  \<^item> OperationRelay: \<^verbatim>\<open>operation_relay.cpp\<close>, the delivery queue with its claim and its cache of seen identifiers.
  \<^item> IngressBudget, PeerAdmission: \<^verbatim>\<open>p2p/ingress_budget.h\<close>, \<^verbatim>\<open>p2p/peer_admission.cpp\<close>; address parsing of Boost.Asio is the record \<open>asio\<close>,
    the country file and the clock are arguments.
  \<^item> PrivateStore: \<^verbatim>\<open>private_application_store.cpp\<close> with its nested batches, over LocalStore; the key store and the sealing functions are
    the records \<open>keystore\<close> and \<open>sealing\<close>. Its abstract specification is a plain map with savepoints (\<open>spec_block\<close>).
  \<^item> AssignmentEvidence, AssignmentPayout: \<^verbatim>\<open>storage_assignment.cpp\<close>, \<^verbatim>\<open>storage_assignment_evidence.cpp\<close>,
    \<^verbatim>\<open>storage_assignment_attestation.cpp\<close>, \<^verbatim>\<open>storage_assignment_payout.cpp\<close>, over PrivateStore and Assignment.
  \<^item> Samples, SampleOps, SampleChain, SampleStore, SamplePool: a concrete instance of the parameters with a small network, on which
    the properties are applied.

  \<^bold>\<open>What is shown.\<close> In this theory: execution is sound and conserves money, rejected operations leave no trace, payments, creations
  and publications refine transfers of purses, settlements draw on escrow alone, authorizations cannot be replayed; the finalizer
  never signs two blocks of one height, the detector keeps the least identifier; the store always holds a valid state with its
  root and recovers it on restart; a candidate block is committed; the pool accounts exactly and its snapshot is a block; the relay
  delivers in order and loses nothing. The component theories hold the exactness properties of codecs, bounds and reference
  algorithms, and for the client side: transactions of the private store refine a map, a frozen assignment never changes, an interval of service
  is counted once, a term quote stays within its budget, no address exceeds twice its quota in any interval, and peers are admitted
  exactly by the table.

  \<^bold>\<open>Loops and bounds.\<close> Loops over containers are structural recursions. The searches without a bound of their own are
  \<^theory_text>\<open>partial_function (option)\<close> (\<open>search_nonce\<close>), where \<open>None\<close> is a search that never ends, and their end is a theorem. The walk to
  an ancestor block recurses on the height difference, which is the number of iterations of the source loop. No other fuel is
  used. Hypotheses on sizes are those of a 64-bit process (\<open>addressable\<close>: no value of \<open>2 ^ 63\<close> bytes).

  \<^bold>\<open>Not modelled.\<close> Threads, sockets and timers (\<^verbatim>\<open>node_runtime*\<close>, the sessions and peer manager of \<^verbatim>\<open>p2p/\<close>, the downloads of the country
  table), the client services, the storage orchestration and the assignment observers built on them, encryption of content and key derivation (calls into OpenSSL), files and SQLite or LevelDB iterators (chunk stores, event
  queries), the Qt application and the vendored LevelDB. They drive the modelled core through the operations above; their state
  is not part of consensus.
\<close>

section \<open>Blocks\<close>

text \<open>C1. Executing a block. Whenever \<^verbatim>\<open>ExecuteBlockOperations\<close> delivers a state, that state passes
  \<^verbatim>\<open>ValidateCybouState\<close>, its maps are ordered, the total supply of CYBOU is exactly that of the parent state, and the
  reported state root is the hash of its canonical serialization.\<close>

theorem block_execution_sound:
  assumes "maps_wf parent" and "ExecuteBlockOperations C parent ops nb h params key vp = Inr r" and "ber_state r = Some st"
  shows "ValidateCybouState C st = StateValidationError.NONE \<and> maps_wf st \<and> money_supply st = money_supply parent
    \<and> ber_state_root r = CybouStateHash C st False \<and> ber_error r = BlockExecutionError.NONE"
  using assms by (rule ExecuteBlockOperations_sound)

theorem block_execution_sound_witness:
  "money_supply paid_state = money_supply sample_state \<and> ValidateCybouState tail_crypto paid_state = StateValidationError.NONE"
proof -
  obtain r where "ExecuteBlockOperations tail_crypto sample_state [OpPayment sample_payment] 5 1 DevProtocolParameters None 7 = Inr r"
    "ber_state r = Some paid_state" using sample_block by blast
  from block_execution_sound [OF sample_wf this] show ?thesis by blast
qed

text \<open>C7. The supply check at the end of a block is redundant: from a valid parent, no sequence of operations, failed ones
  included, makes \<^verbatim>\<open>Finalize\<close> report \<^verbatim>\<open>SUPPLY_CHANGED\<close>, and \<^verbatim>\<open>CanFinalize\<close> amounts to validity. The number of
  account creations never exceeds the limit per block.\<close>

theorem supply_check_never_fires:
  assumes "maps_wf parent" and "ValidateCybouState C parent = StateValidationError.NONE"
    and "executor_reach C (new_executor C parent nb h params key vp) x"
  shows "ber_error (Finalize C x) \<noteq> SUPPLY_CHANGED
    \<and> CanFinalize C x = (m_valid x \<and> ValidateCybouState C (m_candidate x) = StateValidationError.NONE)
    \<and> money_supply (m_candidate x) = money_supply parent
    \<and> m_account_creates x \<le> unat (max_account_creates_per_block (m_params x))"
proof -
  have v: "m_valid (new_executor C parent nb h params key vp)" using assms(2) by (simp add: new_executor_def Let_def)
  have inv: "executor_inv x" using executor_reach_inv [OF assms(3)] new_executor_inv [OF assms(1) v] by blast
  have "supply_bounded parent" using assms(2) by (simp add: ValidateCybouState_NONE_iff)
  then have s: "unat (m_initial_supply x) = money_supply parent"
    using executor_reach_supply [OF assms(3)] assms(2) by (simp add: new_executor_def Let_def TotalCybou_exact)
  have "TotalCybou (m_candidate x) = m_initial_supply x"
    using inv by (intro unsigned_word_eqI [where 'a = nat]) (simp add: executor_inv_def TotalCybou_exact)
  then have "ber_error (Finalize C x) \<noteq> SUPPLY_CHANGED"
    using inv by (simp add: Finalize_def fail_result_def empty_result_def executor_inv_def split: option.split)
  with CanFinalize_iff [OF inv, of C] inv s show ?thesis by (simp add: executor_inv_def)
qed

theorem supply_check_never_fires_witness:
  "ber_error (Finalize tail_crypto rejected_executor) \<noteq> SUPPLY_CHANGED"
  using supply_check_never_fires [OF sample_wf sample_valid rejected_reach] by blast

text \<open>C8. A rejected operation leaves no trace: when \<^verbatim>\<open>ApplyOperation\<close> of a usable executor reports one of the errors of
  its handlers, the candidate state is exactly what it was before, and the executor is invalidated.\<close>

theorem rejected_operation_keeps_candidate:
  assumes "m_valid x" and "ApplyOperation C operation x = Inr (r, x')"
    and "ber_error r \<notin> {BlockExecutionError.NONE, BlockExecutionError.INVALID_STATE}"
  shows "m_candidate x' = m_candidate x \<and> \<not> m_valid x' \<and> ber_state r = None"
proof -
  from assms(1,2) obtain e d st where di: "dispatch C x operation = Inr ((e, d), st)"
    and r: "(if e \<noteq> BlockExecutionError.NONE then Inr (executor_fail (x \<lparr> m_candidate := st \<rparr>) e d)
        else finish_operation C operation (x \<lparr> m_candidate := st \<rparr>)) = Inr (r, x')"
    by (auto simp: ApplyOperation_def bindE_Inr_iff)
  show ?thesis
  proof (cases "e = BlockExecutionError.NONE")
    case True
    with r have "finish_operation C operation (x \<lparr> m_candidate := st \<rparr>) = Inr (r, x')" by simp
    then have "ber_error r \<in> {BlockExecutionError.NONE, BlockExecutionError.INVALID_STATE}"
      using finish_operation_frame [of "x \<lparr> m_candidate := st \<rparr>" C operation] by (auto simp: results_def)
    with assms(3) show ?thesis by blast
  next
    case False
    with r dispatch_step(1) [OF di] show ?thesis
      by (auto simp: executor_fail_def fail_result_def empty_result_def)
  qed
qed

theorem rejected_operation_keeps_candidate_witness:
  "m_candidate rejected_executor = m_candidate sample_executor"
proof -
  have "ber_error (fail_result INVALID_PAYMENT (PaymentDetail PaymentError.ZERO_AMOUNT))
      \<notin> {BlockExecutionError.NONE, BlockExecutionError.INVALID_STATE}"
    by (simp add: fail_result_def)
  from rejected_operation_keeps_candidate [OF sample_executor_valid sample_rejects this] show ?thesis by blast
qed

text \<open>An executor that has rejected an operation reports no error afterwards: \<^verbatim>\<open>Finalize\<close> and further calls of
  \<^verbatim>\<open>ApplyOperation\<close> return \<^verbatim>\<open>NONE\<close>, with neither a state nor a state root.\<close>

theorem rejected_executor_reports_none:
  assumes "maps_wf parent" and "ValidateCybouState C parent = StateValidationError.NONE"
    and "executor_reach C (new_executor C parent nb h params key vp) x" and "\<not> m_valid x"
  shows "IsOk (Finalize C x) \<and> ber_state (Finalize C x) = None \<and> ber_state_root (Finalize C x) = None
    \<and> (\<exists>r. ApplyOperation C operation x = Inr (r, x) \<and> IsOk r)"
proof -
  have v: "m_valid (new_executor C parent nb h params key vp)" using assms(2) by (simp add: new_executor_def Let_def)
  have "m_init_error x = BlockExecutionError.NONE"
    using executor_reach_inv [OF assms(3)] new_executor_inv [OF assms(1) v] by (simp add: executor_inv_def)
  moreover have "x \<lparr> m_valid := False \<rparr> = x" using assms(4) by simp
  ultimately show ?thesis using assms(4)
    by (simp add: Finalize_def fail_result_def empty_result_def IsOk_def ApplyOperation_def executor_fail_def)
qed

theorem rejected_executor_reports_none_witness: "IsOk (Finalize tail_crypto rejected_executor)"
  using rejected_executor_reports_none [OF sample_wf sample_valid rejected_reach] by (simp add: rejected_executor_def)


section \<open>Operations as transfers\<close>

text \<open>C4. A payment refines two transfers of the abstract ledger: the amount from the spendable balance of the sender to
  that of the recipient, and the protocol fee from the system balance of the sender to the treasury, wherever it
  resides. Both were covered, sender and recipient differ, and nobody else gains or loses.\<close>

theorem payment_refines_transfers:
  assumes "maps_wf st" and "ApplyPayment C op nb params st = (PaymentError.NONE, st')"
  defines "s \<equiv> ioa_account_id (ap_authorization op)" and "r \<equiv> pay_recipient (ap_payment op)"
  shows "\<exists>l. CentralAuthorityFeeBalance st = Some l \<and> s \<noteq> r
    \<and> unat (pay_amount (ap_payment op)) \<le> holding st (Spendable s) \<and> unat (payment_fee params) \<le> holding st (System s)
    \<and> holding st' = transfer (System s) (treasury_holder l) (unat (payment_fee params))
        (transfer (Spendable s) (Spendable r) (unat (pay_amount (ap_payment op))) (holding st))"
  unfolding s_def r_def by (rule ApplyPayment_holding [OF assms(2,1)]) blast

theorem payment_refines_transfers_witness:
  "holding paid_state = transfer (System 1) (Unclaimed 9) 1 (transfer (Spendable 1) (Spendable 2) 30 (holding sample_state))"
proof -
  have "ApplyPayment tail_crypto sample_payment 5 DevProtocolParameters sample_state = (PaymentError.NONE, paid_state)"
    by (simp add: paid_state_eq sample_payment_applies)
  from payment_refines_transfers [OF sample_wf this] show ?thesis
    by (auto simp: sample_payment_def sample_treasury treasury_holder_def DevProtocolParameters_def)
qed

text \<open>A lock refines one transfer: the amount moves from the spendable to the system balance of the same account, which
  held it.\<close>

theorem lock_refines_transfer:
  assumes "ApplySystemLock C op nb st = (SystemLockError.NONE, st')"
  defines "a \<equiv> ioa_account_id (asl_authorization op)"
  shows "unat (lock_amount (asl_lock op)) \<le> holding st (Spendable a)
    \<and> holding st' = transfer (Spendable a) (System a) (unat (lock_amount (asl_lock op))) (holding st)"
  using ApplySystemLock_holding [OF assms(1)] by (simp add: a_def)

theorem lock_refines_transfer_witness:
  "\<exists>st'. ApplySystemLock tail_crypto sample_lock 5 sample_state = (SystemLockError.NONE, st')
     \<and> holding st' = transfer (Spendable 1) (System 1) 40 (holding sample_state)"
proof -
  obtain st' where a: "ApplySystemLock tail_crypto sample_lock 5 sample_state = (SystemLockError.NONE, st')"
    using sample_lock_applies by blast
  from lock_refines_transfer [OF a] a show ?thesis by (simp add: sample_lock_def)
qed

text \<open>C9. A publication costs what was quoted. On success \<^verbatim>\<open>QuotePublicationCost\<close> has a quote for the operation, the sender
  held its total, and the effect on the ledger is the quoted fee to the treasury and the quoted escrow to the lease of
  the publication.\<close>

theorem publication_costs_its_quote:
  assumes "maps_wf st" and "supply_bounded st" and "ApplyRootPublication C op nb params st = Inr (RootPublicationError.NONE, st')"
  defines "a \<equiv> ioa_account_id (arp_authorization op)"
  shows "\<exists>l q pid. CentralAuthorityFeeBalance st = Some l \<and> QuotePublicationCost C params op = Inr (Some q)
    \<and> ComputeOperationId C (OpRootPublication op) = Inr (Some pid)
    \<and> unat (pcq_total_system_debit q) = unat (pcq_publication_fee q) + unat (pcq_storage_escrow q)
    \<and> unat (pcq_total_system_debit q) \<le> holding st (System a)
    \<and> holding st' = transfer (System a) (Escrow pid) (unat (pcq_storage_escrow q))
        (transfer (System a) (treasury_holder l) (unat (pcq_publication_fee q)) (holding st))"
proof (rule ApplyRootPublication_holding [OF assms(3,2,1)])
  fix l bs q pid
  assume h: "CentralAuthorityFeeBalance st = Some l" "SerializeProtocolOperation C (OpRootPublication op) = Inr (Some bs)"
    "OperationIdOfBytes C bs = Some pid" "QuotePublicationCost C params op = Inr (Some q)"
    "unat (pcq_total_system_debit q) = unat (pcq_publication_fee q) + unat (pcq_storage_escrow q)"
    "unat (pcq_total_system_debit q) \<le> holding st (System (ioa_account_id (arp_authorization op)))"
    "holding st' = transfer (System (ioa_account_id (arp_authorization op))) (Escrow pid) (unat (pcq_storage_escrow q))
       (transfer (System (ioa_account_id (arp_authorization op))) (treasury_holder l) (unat (pcq_publication_fee q)) (holding st))"
  have "ComputeOperationId C (OpRootPublication op) = Inr (Some pid)"
    unfolding ComputeOperationId_def h(2) by (simp add: h(3))
  with h show ?thesis unfolding a_def by blast
qed

theorem publication_costs_its_quote_witness:
  "\<exists>st' q. ApplyRootPublication tail_crypto sample_publish 5 DevProtocolParameters sample_state = Inr (RootPublicationError.NONE, st')
     \<and> QuotePublicationCost tail_crypto DevProtocolParameters sample_publish = Inr (Some q)
     \<and> holding st' = transfer (System 1) (Escrow 1) (unat (pcq_storage_escrow q))
         (transfer (System 1) (Unclaimed 9) (unat (pcq_publication_fee q)) (holding sample_state))"
proof -
  have b: "supply_bounded sample_state" by (simp add: supply_bounded_def sample_supply)
  obtain st' where a: "ApplyRootPublication tail_crypto sample_publish 5 DevProtocolParameters sample_state = Inr (RootPublicationError.NONE, st')"
    using sample_publish_applies by blast
  have i: "ComputeOperationId tail_crypto (OpRootPublication sample_publish) = Inr (Some 1)"
    unfolding ComputeOperationId_def sample_publish_serializes by (simp add: sample_publish_serializes)
  have f: "ioa_account_id (arp_authorization sample_publish) = 1" by (simp add: sample_publish_def)
  from publication_costs_its_quote [OF sample_wf b a] a show ?thesis
    unfolding f i by (auto simp: sample_treasury treasury_holder_def)
qed

text \<open>C10. Creating an account refines transfers to an account that did not exist: the onboarding bonus from the treasury to its
  system balance, and, when its recovery key holds an unclaimed genesis allocation, that allocation to its spendable
  balance. The claimant of the treasury itself gets no bonus.\<close>

theorem account_create_refines_transfers:
  assumes "maps_wf st" and "ApplyAccountCreate C op nb h params st = (AccountCreateStateError.NONE, st')"
  defines "a \<equiv> aco_account_id op" and "bonus \<equiv> create_bonus params (claimed_allocation C op st)"
  shows "map_find (accounts st) a = None \<and> (\<exists>t. unat bonus \<le> holding st t
    \<and> (bonus = 0 \<or> Some t = map_option treasury_holder (CentralAuthorityFeeBalance st))
    \<and> holding st' = (case claimed_allocation C op st of None \<Rightarrow> transfer t (System a) (unat bonus) (holding st)
       | Some (rid, al) \<Rightarrow> transfer (Unclaimed rid) (Spendable a) (unat (ga_balance al)) (transfer t (System a) (unat bonus) (holding st))))"
  unfolding a_def bonus_def by (rule ApplyAccountCreate_holding [OF assms(2,1)]) force

theorem account_create_refines_transfers_witness:
  "\<exists>st'. ApplyAccountCreate tail_crypto sample_create 5 1 DevProtocolParameters sample_state = (AccountCreateStateError.NONE, st')
     \<and> holding st' = transfer (Unclaimed 9) (System 3) 20000 (holding sample_state)"
proof -
  obtain st' where a: "ApplyAccountCreate tail_crypto sample_create 5 1 DevProtocolParameters sample_state = (AccountCreateStateError.NONE, st')"
    using sample_create_applies by blast
  have f: "aco_account_id sample_create = 3" by (simp add: sample_create_def)
  from account_create_refines_transfers [OF sample_wf a] a show ?thesis
    unfolding f sample_no_claim sample_bonus by (auto simp: sample_treasury treasury_holder_def)
qed

text \<open>C6. A storage settlement, whatever its action, takes value from escrows only: no account loses, no unclaimed
  allocation changes, the supply is the same, and the state it leaves is valid. One that fails changes nothing.\<close>

theorem settlement_takes_from_escrow_only:
  assumes "maps_wf st" and "ApplyStorageSettlement C op nb params key st h parent = Inr (e, st')"
  shows "holding st (Spendable a) \<le> holding st' (Spendable a) \<and> holding st (System a) \<le> holding st' (System a)
    \<and> holding st' (Unclaimed rid) = holding st (Unclaimed rid) \<and> holding st' (Escrow pid) \<le> holding st (Escrow pid)
    \<and> money_supply st' = money_supply st
    \<and> (if e = StorageSettlementError.NONE then ValidateCybouState C st' = StateValidationError.NONE else st' = st)"
proof -
  have "drains st st'" "conserves st st'"
    using drain.ApplyStorageSettlement_R [OF assms(2)] cons.ApplyStorageSettlement_R [OF assms(2)] by blast+
  with assms(1) have d: "\<And>h. case h of Spendable a \<Rightarrow> holding st h \<le> holding st' h | System a \<Rightarrow> holding st h \<le> holding st' h
      | Unclaimed rid \<Rightarrow> holding st' h = holding st h | Escrow pid \<Rightarrow> holding st' h \<le> holding st h" and "money_supply st' = money_supply st"
    by (simp_all add: drains_def conserves_def)
  moreover have "if e = StorageSettlementError.NONE then ValidateCybouState C st' = StateValidationError.NONE else st' = st"
    using assms(2) ApplyStorageSettlement_NONE(1) ApplyStorageSettlement_fail by (cases "e = StorageSettlementError.NONE") auto
  moreover have "holding st (Spendable a) \<le> holding st' (Spendable a)" using d [of "Spendable a"] by simp
  moreover have "holding st (System a) \<le> holding st' (System a)" using d [of "System a"] by simp
  moreover have "holding st' (Unclaimed rid) = holding st (Unclaimed rid)" using d [of "Unclaimed rid"] by simp
  moreover have "holding st' (Escrow pid) \<le> holding st (Escrow pid)" using d [of "Escrow pid"] by simp
  ultimately show ?thesis by blast
qed

theorem settlement_takes_from_escrow_only_witness:
  "holding leased_state (System 1) \<le> holding settled_state (System 1) \<and> holding settled_state (Escrow 1) \<le> holding leased_state (Escrow 1)
     \<and> holding leased_state (Escrow 1) = 2 \<and> holding settled_state (Escrow 1) = 0"
proof -
  have "holding leased_state (Escrow 1) = 2" "holding settled_state (Escrow 1) = 0"
    by (simp_all add: holding_def leased_state_def settled_state_def sample_lease_def lease_value_def)
  with settlement_takes_from_escrow_only [OF leased_wf sample_settlement_applies] show ?thesis by blast
qed

lemma window_depth_real:
  fixes a d l h :: u64
  assumes "a + d \<le> h" "h \<le> a + l" "d \<le> l" "a \<le> h"
  shows "unat a + unat d \<le> unat h"
proof (cases "unat a + unat d < 2 ^ 64")
  case True
  then show ?thesis using assms(1) unat_add_fits [of a d] by (simp add: word_le_nat_alt)
next
  case False
  have "unat l < 2 ^ 64" "unat a < 2 ^ 64" using unsigned_less [of l] unsigned_less [of a] by simp_all
  moreover have "2 ^ 64 \<le> unat a + unat l" using False assms(3) by (simp add: word_le_nat_alt)
  ultimately have "unat (a + l) = unat a + unat l - 2 ^ 64" by (simp add: unat_word_ariths le_mod_geq)
  then show ?thesis using assms(2,4) \<open>unat l < 2 ^ 64\<close> \<open>2 ^ 64 \<le> unat a + unat l\<close> by (simp add: word_le_nat_alt)
qed

text \<open>C11. Names cannot be taken by racing: a successful \<^verbatim>\<open>NameReveal\<close> at height \<open>h\<close> consumes a pending commitment, to this
  label, account and salt on this network, that the same account had recorded, and \<open>h\<close> lies between the height of the commitment plus the
  minimum depth and its height plus the maximum lifetime, in the 64-bit arithmetic of the code. The
  commitment is really at least the minimum depth old whenever the first sum does not wrap around; and whenever the maximum lifetime is at least the
  minimum depth, as \<^verbatim>\<open>ValidateProtocolParameters\<close> demands, and the commitment is not above \<open>h\<close>: with a wrapped sum the second bound then
  refuses every reveal. The proof of work of the claim was checked. The
  label was free, valid and not reserved by a genesis allocation; afterwards label and account resolve to each other and
  every other name is as before.\<close>

theorem name_reveal_needs_its_commit:
  assumes "ApplyNameReveal C op nb h params st = Inr (NameRevealError.NONE, st')"
  defines "a \<equiv> ioa_account_id (anr_authorization op)" and "label \<equiv> nrp_label (anr_reveal op)"
  shows "\<exists>commitment r. ComputeNameCommitment C nb a label (nrp_salt (anr_reveal op)) = Inr commitment
    \<and> map_find (pending_commits (names st)) commitment = Some r \<and> ncr_account_id r = a
    \<and> ncr_commit_height r + name_commit_min_depth params \<le> h \<and> h \<le> ncr_commit_height r + name_commit_max_lifetime params
    \<and> (unat (ncr_commit_height r) + unat (name_commit_min_depth params) < 2 ^ 64
        \<longrightarrow> unat (ncr_commit_height r) + unat (name_commit_min_depth params) \<le> unat h)
    \<and> (name_commit_min_depth params \<le> name_commit_max_lifetime params \<and> ncr_commit_height r \<le> h
        \<longrightarrow> unat (ncr_commit_height r) + unat (name_commit_min_depth params) \<le> unat h)
    \<and> CheckNameClaimWork C (nrp_work (anr_reveal op)) (name_claim_work_bits params) = Inr True
    \<and> map_find (pending_commits (names st')) commitment = None
    \<and> Resolve (names st) label = None \<and> PrimaryName (names st) a = None \<and> ValidateNameLabel label = NameValidationError.NONE
    \<and> (\<forall>i allocation. (i, allocation) \<in> set (genesis_allocations st) \<longrightarrow> ga_label allocation \<noteq> label)
    \<and> (\<forall>other. Resolve (names st') other = (if other = label then Some a else Resolve (names st) other))
    \<and> (\<forall>b. PrimaryName (names st') b = (if b = a then Some label else PrimaryName (names st) b))"
  using assms(1)
proof (rule ApplyNameReveal_NONE, fold a_def label_def)
  fix commitment pend registry
  assume n: "ValidateNameLabel label = NameValidationError.NONE" "\<not> map_contains (account_names (names st)) a"
      "\<not> map_contains (nr_names (names st)) label" "ComputeNameCommitment C nb a label (nrp_salt (anr_reveal op)) = Inr commitment"
      "map_find (pending_commits (names st)) commitment = Some pend" "ncr_account_id pend = a"
      "\<not> h < ncr_commit_height pend + name_commit_min_depth params" "\<not> h > ncr_commit_height pend + name_commit_max_lifetime params"
      "CheckNameClaimWork C (nrp_work (anr_reveal op)) (name_claim_work_bits params) = Inr True"
    and g: "\<not> list_ex (\<lambda>(i, al). ga_label al = label) (genesis_allocations st)"
    and st': "st' = st \<lparr> identities := registry, names := (names st) \<lparr>
        pending_commits := map_erase commitment (pending_commits (names st)),
        nr_names := map_emplace label a (nr_names (names st)), account_names := map_emplace a label (account_names (names st)) \<rparr> \<rparr>"
  have "unat (ncr_commit_height pend) + unat (name_commit_min_depth params) \<le> unat h" if "unat (ncr_commit_height pend) + unat (name_commit_min_depth params) < 2 ^ 64"
    using n(7) that unat_add_fits [of "ncr_commit_height pend" "name_commit_min_depth params"] by (simp add: word_less_nat_alt)
  moreover have "unat (ncr_commit_height pend) + unat (name_commit_min_depth params) \<le> unat h"
    if "name_commit_min_depth params \<le> name_commit_max_lifetime params" "ncr_commit_height pend \<le> h"
    using window_depth_real [OF _ _ that] n(7,8) by simp
  moreover have "\<forall>i allocation. (i, allocation) \<in> set (genesis_allocations st) \<longrightarrow> ga_label allocation \<noteq> label" using g by (auto simp: list_ex_iff)
  ultimately show ?thesis using n
    by (intro exI [of _ commitment] exI [of _ pend]) (simp add: st' Resolve_def PrimaryName_def map_contains_def not_less)
qed

theorem name_reveal_needs_its_commit_witness:
  "\<exists>st'. ApplyNameReveal tail_crypto sample_reveal 5 1 DevProtocolParameters naming_state = Inr (NameRevealError.NONE, st')
     \<and> Resolve (names st') ''alice'' = Some 1 \<and> PrimaryName (names st') 1 = Some ''alice''"
proof -
  obtain st' where a: "ApplyNameReveal tail_crypto sample_reveal 5 1 DevProtocolParameters naming_state = Inr (NameRevealError.NONE, st')"
    using sample_reveal_applies by blast
  from name_reveal_needs_its_commit [OF a] a show ?thesis by (auto simp: sample_reveal_def)
qed


section \<open>The serialized state\<close>

text \<open>C28. The state is read back from its canonical bytes: what \<^verbatim>\<open>SerializeCybouState\<close> writes of a valid state,
  \<^verbatim>\<open>DeserializeCybouState\<close> reads back to that very state. The sizes of the two maps the format counts with 32 bits and
  the validator does not bound are hypotheses.\<close>

theorem state_roundtrip:
  assumes "SerializeCybouState C st True = Some bs" and "maps_wf st"
    and "length (publications st) < 2 ^ 32" and "length (leases st) < 2 ^ 32"
  shows "DeserializeCybouState C bs = Some st"
  using assms by (rule state_dec_enc)

theorem state_roundtrip_witness:
  "\<exists>bs. SerializeCybouState tail_crypto sample_state True = Some bs \<and> DeserializeCybouState tail_crypto bs = Some sample_state"
proof -
  obtain bs where b: "SerializeCybouState tail_crypto sample_state True = Some bs" using sample_serializes by blast
  have "length (publications sample_state) < 2 ^ 32" "length (leases sample_state) < 2 ^ 32" by (simp_all add: sample_state_def)
  from state_roundtrip [OF b sample_wf this] b show ?thesis by blast
qed

section \<open>Identities\<close>

text \<open>C5. An authorization is accepted once. After it was accepted, no sequence of registrations, rotations and authorizations,
  on this network or another, makes the same authorization acceptable again: it is refused for its nonce and changes
  nothing.\<close>

theorem authorization_no_replay:
  assumes "AuthorizeOperation C q nb r = (IdentityRegistryError.NONE, r')" and "registry_reach C r' s"
  shows "AuthorizeOperation C q nb' s = (IdentityRegistryError.BAD_NONCE, s)"
  by (rule AuthorizeOperation_no_replay [OF assms(1) registry_reach_grow [OF assms(2)]])

theorem authorization_no_replay_witness:
  "AuthorizeOperation tail_crypto (sample_auth PAYMENT 1) 6 (snd (Register tail_crypto sample_create 5 1 DevProtocolParameters paid_registry))
     = (IdentityRegistryError.BAD_NONCE, snd (Register tail_crypto sample_create 5 1 DevProtocolParameters paid_registry))"
proof -
  have a: "AuthorizeOperation tail_crypto (sample_auth PAYMENT 1) 5 (identities sample_state) = (IdentityRegistryError.NONE, paid_registry)"
    by (simp add: sample_authorized paid_registry_def)
  have "registry_reach tail_crypto paid_registry (snd (Register tail_crypto sample_create 5 1 DevProtocolParameters paid_registry))"
    by (rule registry_reach.step [OF registry_reach.refl registry_step.register]) (rule prod.collapse [symmetric])
  from authorization_no_replay [OF a this] show ?thesis .
qed

text \<open>C36. The recovery index. In every registry reachable from the empty one, each account is indexed under the identifier of its
  current recovery key and the index holds nothing else; in particular a recovery key belongs to at most one account.\<close>

theorem registry_index_invariant:
  assumes "registry_reach C empty_registry r"
  shows "registry_ok C r \<and> (\<forall>a rec i. map_find (m_accounts r) a = Some rec \<longrightarrow>
    ComputeRecoveryKeyId C (ir_recovery_key rec) = Some i \<longrightarrow> FindByRecoveryKeyId r i = Some a)"
proof -
  have ok: "registry_ok C r" by (rule registry_reach_ok [OF assms registry_ok_empty])
  then show ?thesis
    by (auto simp: FindByRecoveryKeyId_def dest!: registry_ok_account [OF ok] elim!: account_indexedE)
qed

theorem registry_index_invariant_witness:
  "registry_ok tail_crypto (snd (Register tail_crypto sample_create 5 1 DevProtocolParameters empty_registry))
   \<and> FindByRecoveryKeyId (snd (Register tail_crypto sample_create 5 1 DevProtocolParameters empty_registry)) 4 = Some 3"
proof -
  let ?r = "snd (Register tail_crypto sample_create 5 1 DevProtocolParameters empty_registry)"
  have "registry_reach tail_crypto empty_registry ?r"
    by (rule registry_reach.step [OF registry_reach.refl registry_step.register]) (rule prod.collapse [symmetric])
  note inv = registry_index_invariant [OF this]
  have f: "aco_account_id sample_create = 3" "aco_authorization sample_create = sample_descriptor" "aco_kem_package sample_create = sample_kem"
    by (simp_all add: sample_create_def)
  have "\<exists>rec. map_find (m_accounts ?r) 3 = Some rec \<and> ir_recovery_key rec = recovery_root sample_descriptor"
    using sample_auth_key_id
    by (auto simp: Register_def sample_create_valid f sample_recovery_key sample_kem_commitment map_contains_def empty_registry_def)
  then show ?thesis using inv sample_recovery_key by auto
qed


section \<open>Text forms\<close>

text \<open>\<^verbatim>\<open>Hash256::FromHex\<close> accepts exactly the strings of 64 hexadecimal digits, in either letter
  case, and returns the hash whose \<^verbatim>\<open>GetHex\<close> is the lower-case form of the input; in particular
  it inverts \<^verbatim>\<open>GetHex\<close>.\<close>

theorem hex_roundtrip:
  "(FromHex s = Some h \<longleftrightarrow> length s = 64 \<and> list_all hex_digit s \<and> GetHex h = map hex_lower s)
   \<and> FromHex (GetHex h) = Some h"
  using FromHex_iff FromHex_GetHex by blast

text \<open>C40. \<^verbatim>\<open>IsValidUtf8\<close> accepts a byte string exactly when it is a concatenation of the UTF-8 encodings
  of Unicode scalar values: no overlong form, no surrogate, nothing above U+10FFFF, no truncation.\<close>

theorem utf8_exact:
  "IsValidUtf8 bs \<longleftrightarrow> (\<exists>ns. list_all scalar_value ns \<and> bs = concat (map utf8_encode ns))"
  using IsValidUtf8_concat IsValidUtf8_decodes by blast


section \<open>Finality\<close>

text \<open>C2. The finalizer never equivocates. Over every history of a node that starts without certificates, with any initial
  content of the store, any number of crashes and restarts, failed writes of either kind, failing reads and other writers in the
  same store: two certificates handed out for one height are for the same block and parent, all are for the node's network, and
  the certificate of the next height names the block of the previous one as its parent.\<close>

theorem finalizer_never_equivocates:
  assumes "(finalizer_step C nb)\<^sup>*\<^sup>* (initial_node db) n" and "c \<in> set (nd_issued n)" and "d \<in> set (nd_issued n)"
  shows "pfc_network_binding c = nb
    \<and> (pfc_height c = pfc_height d \<longrightarrow> pfc_block_id c = pfc_block_id d \<and> pfc_parent_block_id c = pfc_parent_block_id d)
    \<and> (Suc (unat (pfc_height c)) = unat (pfc_height d) \<longrightarrow> pfc_parent_block_id d = pfc_block_id c)"
  using issued_agree [OF assms] by blast

theorem finalizer_never_equivocates_witness:
  "\<exists>n. (finalizer_step tail_crypto 5)\<^sup>*\<^sup>* (initial_node empty_db) n \<and> nd_issued n = [sample_certificate]
     \<and> pfc_network_binding sample_certificate = 5"
proof -
  obtain n where n: "(finalizer_step tail_crypto 5)\<^sup>*\<^sup>* (initial_node empty_db) n" "nd_issued n = [sample_certificate]"
    using signed_node by blast
  then have "pfc_network_binding sample_certificate = 5"
    using finalizer_never_equivocates [OF n(1), of sample_certificate sample_certificate] by simp
  with n show ?thesis by blast
qed

text \<open>C12. A certificate that \<^verbatim>\<open>SignFinality\<close> returns is accepted by \<^verbatim>\<open>VerifyPoaCertificateForBlock\<close> for the block
  that was signed, under the key the finalizer was created with and on its network.\<close>

theorem signed_certificate_verifies:
  assumes "new_finalizer C w nb ga key db0 = (Inr f0, db1)" and "f = f0 \<lparr> f_signer := s, f_journal := j \<rparr>"
    and "SignFinality C w' fh ft block db f = (Inr r, db', f')" and "psr_certificate r = Some c"
  shows "VerifyPoaCertificateForBlock C c key nb block = Inr True"
proof -
  have "f_public_key f = key" "f_network_binding f = nb" "finalizer_key_ok f"
    using new_finalizer_moves [OF assms(1)] new_finalizer_key [OF assms(1)] by (simp_all add: assms(2) finalizer_key_ok_def)
  then show ?thesis using SignFinality_verifies [OF assms(3,4)] by simp
qed

theorem signed_certificate_verifies_witness:
  "VerifyPoaCertificateForBlock tail_crypto sample_certificate poa_key 5 (sample_blk 3 []) = Inr True"
proof -
  obtain db1 where o: "new_finalizer tail_crypto WriteOk 5 7 poa_key empty_db = (Inr (sample_finalizer \<lparr> f_signer := None \<rparr>), db1)"
    using start_sample by blast
  obtain r db' f' where s: "SignFinality tail_crypto WriteOk 0 7 (sample_blk 3 []) db1 sample_finalizer = (Inr r, db', f')"
    "psr_certificate r = Some sample_certificate" using sign_sample by blast
  have "sample_finalizer = sample_finalizer \<lparr> f_signer := None \<rparr> \<lparr> f_signer := Some sample_signer, f_journal := sample_journal \<rparr>"
    by (simp add: sample_finalizer_def)
  from signed_certificate_verifies [OF o this s] show ?thesis .
qed

text \<open>C29. Finalized blocks are read back. When a finalized block without storage settlements serializes to fewer than 2 to the 32
  bytes, decoding those bytes gives the block and its certificate; so does decoding the bytes of the block alone.\<close>

theorem finalized_block_roundtrip:
  assumes "SerializeFinalizedBlock C fb = Inr (Some bs)" and "length bs < 2 ^ 32"
    and "list_all (\<lambda>op. \<not> is_settlement op) (blk_operations (fb_block fb))"
  shows "DeserializeFinalizedBlock C bs = Inr (Some fb)
    \<and> (\<exists>bb. SerializeBlock C (fb_block fb) = Inr (Some bb) \<and> DeserializeBlock C bb = Inr (Some (fb_block fb)))"
proof -
  obtain bb cb where s: "SerializeBlock C (fb_block fb) = Inr (Some bb)" and b: "bs = sized_bytes bb @ sized_bytes cb"
    by (rule SerializeFinalizedBlock_parts [OF assms(1)])
  from b assms(2) have "length bb < 2 ^ 32" by simp
  from SerializeBlock_back [OF s assms(3) this] s show ?thesis
    using SerializeFinalizedBlock_back [OF assms(1,3,2)] by blast
qed

theorem finalized_block_roundtrip_witness:
  "\<exists>bs. SerializeFinalizedBlock tail_crypto \<lparr> fb_block = sample_blk 3 [], fb_certificate = sample_certificate \<rparr> = Inr (Some bs)
     \<and> DeserializeFinalizedBlock tail_crypto bs = Inr (Some \<lparr> fb_block = sample_blk 3 [], fb_certificate = sample_certificate \<rparr>)"
proof -
  let ?fb = "\<lparr> fb_block = sample_blk 3 [], fb_certificate = sample_certificate \<rparr>"
  have cb: "\<exists>cb. SerializePoaFinalityCertificate sample_certificate = Some cb \<and> length cb = 3477"
    using sample_certificate_valid certificate.enc_size [of sample_certificate]
    by (auto simp: SerializePoaFinalityCertificate_def POA_FINALITY_CERTIFICATE_SIZE_def)
  have "\<exists>bs. SerializeFinalizedBlock tail_crypto ?fb = Inr (Some bs) \<and> length bs = 3561"
    using cb by (auto simp: SerializeFinalizedBlock_def SerializeBlock_def sample_blk_def mapE_def)
  then obtain bs where bs: "SerializeFinalizedBlock tail_crypto ?fb = Inr (Some bs)" "length bs = 3561" by blast
  from finalized_block_roundtrip [OF bs(1)] bs show ?thesis by (auto simp: sample_blk_def)
qed


text \<open>C21. The detector keeps the least certificate and hides no conflict. Over every history of a detector, crashes and failed
  writes included, for every certificate it has accepted the store holds a verified certificate of the same height and parent whose
  block identifier is at most that of the accepted one; and if two certificates of one height and parent with different blocks were
  accepted, the store holds an evidence record: a re-verifiable pair of conflicting certificates or the mark of corrupt storage.\<close>

theorem detector_keeps_least:
  assumes "(detector_step C nb key kid)\<^sup>*\<^sup>* (initial_detector_node db) n" and "ComputePoaFinalizerKeyId C key = Some kid"
    and "c \<in> set (dn_accepted n)"
  shows "(\<exists>q. observation (detector_prefix nb kid) (dn_db n) c = Some q \<and> same_slot q c \<and> self_verified C key nb q = Inr True
        \<and> pfc_block_id q \<le> pfc_block_id c)
    \<and> (\<forall>d\<in>set (dn_accepted n). same_slot c d \<and> pfc_block_id c \<noteq> pfc_block_id d \<longrightarrow> evidence C key nb (detector_prefix nb kid) (dn_db n))"
proof -
  have acc: "accounted C key nb (detector_prefix nb kid) (dn_db n) d" if "d \<in> set (dn_accepted n)" for d
    using detector_reachable_ok [OF assms(1,2)] that by (simp add: detector_node_ok_def)
  have "observation p m d = observation p m c" if "same_slot c d" for p m d
    using that ObservationKey_eq_iff [of p c d] by (simp add: observation_def)
  then show ?thesis using acc [OF assms(3)] acc unfolding accounted_def by (metis option.inject)
qed

theorem detector_keeps_least_witness:
  "\<exists>n q. dn_accepted n = [sample_certificate] \<and> observation (detector_prefix 5 2) (dn_db n) sample_certificate = Some q
     \<and> pfc_block_id q \<le> 4 \<and> (detector_step tail_crypto 5 poa_key 2)\<^sup>*\<^sup>* (initial_detector_node empty_db) n"
proof -
  obtain n where n: "(detector_step tail_crypto 5 poa_key 2)\<^sup>*\<^sup>* (initial_detector_node empty_db) n" "dn_accepted n = [sample_certificate]"
    using observed_node by blast
  have "pfc_block_id sample_certificate = 4" by (simp add: sample_certificate_def)
  with detector_keeps_least [OF n(1) poa_key_id, of sample_certificate] n show ?thesis by auto
qed


section \<open>The state store\<close>

text \<open>C3. The state on disk is sound. Over every history of a node, from an empty store, through starts, crashes, genesis initialization,
  commits of arbitrary finalized blocks on either path, failed writes of either kind, failing reads and other writers of the same
  database: whatever state a process loads passes \<^verbatim>\<open>ValidateCybouState\<close>, has the money supply of the genesis state and
  hashes to the state root on disk; and the snapshot that a running process shares is the state whose canonical bytes are on disk.
  A process ends when a batch is reported as failed although it reached the log: it would go on sharing the state before the batch.\<close>

theorem state_store_sound:
  assumes "(store_step C G g0)\<^sup>*\<^sup>* \<lparr> sn_db = db, sn_store = None \<rparr> n" and "fresh db" "addressable db" "maps_wf g0"
    and "ComputeNetworkBinding C (ng_network_public_key (vg_genesis G)) = Inr nb"
  shows "(\<forall>s r st root. LoadState C s (sn_db n) = Inr r \<longrightarrow> slr_state r = Some st \<longrightarrow>
       ValidateCybouState C st = StateValidationError.NONE \<and> money_supply st = money_supply g0
       \<and> (GetStateRoot (sn_db n) = Inr root \<longrightarrow> root = CybouStateHash C st True))
     \<and> (\<forall>s st. sn_store n = Some s \<longrightarrow> ss_snapshot s = Some st \<longrightarrow>
       ValidateCybouState C st = StateValidationError.NONE \<and> money_supply st = money_supply g0
       \<and> kv_data (sn_db n) (EncodeString STATE_KEY) = map_option EncodeBytes (SerializeCybouState C st True))"
proof -
  have ok: "addressable (sn_db n)" "db_ok C nb g0 (sn_db n)" "\<And>s. sn_store n = Some s \<Longrightarrow> store_ok C G nb g0 (sn_db n) s"
    using store_reachable_ok [OF assms] by (simp_all add: StoreHistory.node_ok_def)
  have l: "live C nb g0 (sn_db n) st" if "LoadState C s (sn_db n) = Inr r" "slr_state r = Some st" for s r st
    using LoadStateLocked_live [OF ok(2,1) that [unfolded LoadState_def]] .
  have g: "root = CybouStateHash C st True" if "live C nb g0 (sn_db n) st" "GetStateRoot (sn_db n) = Inr root" for st root
    using live_root [OF that] live_canonical [OF that(1)] by simp
  have b: "kv_data (sn_db n) (EncodeString STATE_KEY) = map_option EncodeBytes (SerializeCybouState C st True)" if "live C nb g0 (sn_db n) st" for st
    using live_canonical [OF that] that by (auto simp: live_def state_at_def)
  have v: "ValidateCybouState C st = StateValidationError.NONE \<and> money_supply st = money_supply g0" if "live C nb g0 (sn_db n) st" for st
    using that by (simp add: live_def good_state_def)
  show ?thesis using l g b v ok(3) unfolding store_ok_def by blast
qed

theorem state_store_sound_witness:
  "ss_snapshot genesis_store = Some sample_state
   \<and> kv_data genesis_db (EncodeString STATE_KEY) = map_option EncodeBytes (SerializeCybouState tail_crypto sample_state True)"
proof -
  have s: "ss_snapshot genesis_store = Some sample_state" by (simp add: genesis_store_def)
  then show ?thesis
    using state_store_sound [OF genesis_node_reachable empty_fresh sample_wf sample_binding] by (simp add: genesis_node_def)
qed

text \<open>C15. Restart. When the core records can be read, a process that starts on the database of a running node loads the very
  state the node shares, provided its serialization has at most 32 MiB; a state with a longer serialization was committed, but
  every later process reports \<^verbatim>\<open>CORRUPT\<close>. The histories end a process whose batch was reported as failed although it reached the
  log: such a process would go on sharing the state before the batch.\<close>

theorem restart_recovers_state:
  assumes "(store_step C G g0)\<^sup>*\<^sup>* \<lparr> sn_db = db, sn_store = None \<rparr> n" and "fresh db" "addressable db" "maps_wf g0"
    and "ComputeNetworkBinding C (ng_network_public_key (vg_genesis G)) = Inr nb"
    and "sn_store n = Some s" and "ss_snapshot s = Some st" and "readable (sn_db n)"
    and "new_store C w G (sn_db n) = (Inr s', sn_db n)"
  shows "\<exists>bs. SerializeCybouState C st True = Some bs
    \<and> LoadState C s' (sn_db n) = Inr (if length bs \<le> MAX_LOCAL_RECORD then \<lparr> slr_error = StateLoadError.NONE, slr_state = Some st \<rparr>
        else \<lparr> slr_error = StateLoadError.CORRUPT, slr_state = None \<rparr>)"
proof -
  have a: "addressable (sn_db n)" and l: "live C nb g0 (sn_db n) st"
    using store_reachable_ok [OF assms(1-5)] assms(6,7) by (simp_all add: StoreHistory.node_ok_def store_ok_def)
  obtain bs where b: "SerializeCybouState C st False = Some bs" using l by (auto simp: live_def state_at_def)
  have "ss_network_binding s' = nb" using assms(5,9) by (auto simp: new_store_def split: prod.split_asm sum.split_asm)
  from reload [OF l a assms(8) this b] b show ?thesis using live_canonical [OF l] by simp
qed

theorem restart_recovers_state_witness:
  "\<exists>bs. SerializeCybouState tail_crypto sample_state True = Some bs
    \<and> LoadState tail_crypto sample_store genesis_db = Inr (if length bs \<le> MAX_LOCAL_RECORD then \<lparr> slr_error = StateLoadError.NONE, slr_state = Some sample_state \<rparr>
        else \<lparr> slr_error = StateLoadError.CORRUPT, slr_state = None \<rparr>)"
proof -
  have n: "sn_store genesis_node = Some genesis_store" "sn_db genesis_node = genesis_db" "ss_snapshot genesis_store = Some sample_state"
    by (simp_all add: genesis_node_def genesis_store_def)
  have r: "readable (sn_db genesis_node)" using initialize_sample by (simp add: readable_def n)
  have "new_store tail_crypto WriteOk sample_genesis (sn_db genesis_node) = (Inr sample_store, sn_db genesis_node)"
    unfolding n by (rule reopen_sample_store)
  from restart_recovers_state [OF genesis_node_reachable empty_fresh sample_wf sample_binding n(1,3) r this] show ?thesis by (simp add: n)
qed

text \<open>C14. The candidate root is the root of execution. When \<^verbatim>\<open>ComputeCandidateStateRoot\<close> answers, also by its shortcut for
  empty blocks, executing the operations on the state in use with \<^verbatim>\<open>ExecuteBlockOperations\<close> succeeds with that root.\<close>

theorem candidate_root_is_execution:
  assumes "(store_step C G g0)\<^sup>*\<^sup>* \<lparr> sn_db = db, sn_store = None \<rparr> n" and "fresh db" "addressable db" "maps_wf g0"
    and "ComputeNetworkBinding C (ng_network_public_key (vg_genesis G)) = Inr nb" and "sn_store n = Some s"
    and "ComputeCandidateStateRoot C ops h (sn_db n) s = (Inr (Some root), s')"
  shows "\<exists>st head execution. ss_snapshot s' = Some st \<and> GetFinalizedHead (sn_db n) = Inr (Some head) \<and> h = fh_height head + 1
    \<and> ExecuteBlockOperations C st ops nb h (ng_protocol_parameters (vg_genesis G)) (Some (ng_poa_finalizer_public_key (vg_genesis G)))
        (fh_block_id head) = Inr execution \<and> execution_ok execution \<and> ber_state_root execution = Some root"
proof -
  have ok: "store_ok C G nb g0 (sn_db n) s" "addressable (sn_db n)"
    using store_reachable_ok [OF assms(1-5)] assms(6) by (simp_all add: StoreHistory.node_ok_def)
  obtain st head x where g: "GetStateSnapshotLocked C (sn_db n) s = (Inr \<lparr> slr_error = StateLoadError.NONE, slr_state = Some st \<rparr>, s')"
    and x: "GetFinalizedHead (sn_db n) = Inr (Some head)" "h = fh_height head + 1"
      "ExecuteBlockOperations C st ops nb h (ng_protocol_parameters (vg_genesis G)) (Some (ng_poa_finalizer_public_key (vg_genesis G)))
        (fh_block_id head) = Inr x" "execution_ok x" "ber_state_root x = Some root"
    by (rule candidate_execution [OF ok assms(7)])
  have "ss_snapshot s' = Some st" using g by (rule snapshot_kept)
  with x show ?thesis by blast
qed

theorem candidate_root_is_execution_witness:
  "\<exists>head execution. GetFinalizedHead genesis_db = Inr (Some head) \<and> ExecuteBlockOperations tail_crypto sample_state [] 5 1
     DevProtocolParameters (Some poa_key) (fh_block_id head) = Inr execution \<and> ber_state_root execution = Some 1"
proof -
  have n: "sn_store genesis_node = Some genesis_store" "sn_db genesis_node = genesis_db" "ss_snapshot genesis_store = Some sample_state"
    by (simp_all add: genesis_node_def genesis_store_def)
  have c: "ComputeCandidateStateRoot tail_crypto [] 1 (sn_db genesis_node) genesis_store = (Inr (Some 1), genesis_store)"
    using candidate_sample by (simp add: n)
  from candidate_root_is_execution [OF genesis_node_reachable empty_fresh sample_wf sample_binding n(1) c] show ?thesis
    by (auto simp: n sample_genesis_def sample_network_def)
qed

text \<open>C13. A candidate block commits. On a node without read errors and without a safety halt, a block on the tip whose root is the
  candidate root of the store and whose certificate verifies and is the first of its slot is committed when the write succeeds: the
  result is \<^verbatim>\<open>NONE\<close>, the head is the block, the state root is the root of the block, and the shared snapshot is the state
  with that root. Side conditions: every operation has a non-null identifier, and the block is not its own parent.\<close>

theorem candidate_block_commits:
  assumes "(store_step C G g0)\<^sup>*\<^sup>* \<lparr> sn_db = db, sn_store = None \<rparr> n" and "fresh db" "addressable db" "maps_wf g0"
    and "ComputeNetworkBinding C (ng_network_public_key (vg_genesis G)) = Inr nb"
    and "sn_store n = Some s" and "\<forall>k. \<not> kv_unreadable (sn_db n) k" and "\<not> PoaSafetyHalted s"
    and "ComputeCandidateStateRoot C (blk_operations (fb_block fb)) (blk_height (fb_block fb)) (sn_db n) s
       = (Inr (Some (blk_resulting_state_root (fb_block fb))), s1)"
    and "GetFinalizedHead (sn_db n) = Inr (Some head)" and "blk_parent_block_id (fb_block fb) = fh_block_id head"
    and "ComputeBlockId C (fb_block fb) \<noteq> Inr (fh_block_id head)" and "list_all (operation_identified C) (blk_operations (fb_block fb))"
    and "VerifyPoaCertificateForBlock C (fb_certificate fb) (ng_poa_finalizer_public_key (vg_genesis G)) nb (fb_block fb) = Inr True"
    and "Observe C w1 w2 (fb_certificate fb) (fb_block fb) (sn_db n) (ss_detector s) = (Inr OBSERVED, db1, d1)"
  shows "\<exists>db' s' st i. CommitFinalizedBlock C w1 w2 WriteOk fb (sn_db n) s = (Inr (transition BlockTransitionError.NONE), db', s')
     \<and> ComputeBlockId C (fb_block fb) = Inr i \<and> GetFinalizedHead db' = Inr (Some \<lparr> fh_block_id = i, fh_height = blk_height (fb_block fb) \<rparr>)
     \<and> GetStateRoot db' = Inr (Some (blk_resulting_state_root (fb_block fb)))
     \<and> ss_snapshot s' = Some st \<and> CybouStateHash C st True = Some (blk_resulting_state_root (fb_block fb))"
proof -
  have ok: "store_ok C G nb g0 (sn_db n) s" "addressable (sn_db n)"
    using store_reachable_ok [OF assms(1-5)] assms(6) by (simp_all add: StoreHistory.node_ok_def)
  obtain db' s' st i where c: "CommitFinalizedBlock C w1 w2 WriteOk fb (sn_db n) s = (Inr (transition BlockTransitionError.NONE), db', s')"
     "ComputeBlockId C (fb_block fb) = Inr i" "GetFinalizedHead db' = Inr (Some \<lparr> fh_block_id = i, fh_height = blk_height (fb_block fb) \<rparr>)"
     "GetStateRoot db' = Inr (Some (blk_resulting_state_root (fb_block fb)))" "ss_snapshot s' = Some st" "live C nb g0 db' st"
    using candidate_commits [OF ok assms(7,9-14,8,15)] by blast
  have "CybouStateHash C st True = Some (blk_resulting_state_root (fb_block fb))"
    using live_root [OF c(6,4)] live_canonical [OF c(6)] by simp
  with c show ?thesis by blast
qed

theorem candidate_block_commits_witness:
  "\<exists>db' s'. CommitFinalizedBlock tail_crypto WriteOk WriteOk WriteOk \<lparr> fb_block = store_block, fb_certificate = store_certificate \<rparr> genesis_db genesis_store
       = (Inr (transition BlockTransitionError.NONE), db', s') \<and> GetFinalizedHead db' = Inr (Some \<lparr> fh_block_id = 2, fh_height = 1 \<rparr>)"
proof -
  let ?fb = "\<lparr> fb_block = store_block, fb_certificate = store_certificate \<rparr>"
  have n: "sn_store genesis_node = Some genesis_store" "sn_db genesis_node = genesis_db" by (simp_all add: genesis_node_def)
  have b: "blk_operations store_block = []" "blk_height store_block = 1" "blk_resulting_state_root store_block = 1" "blk_parent_block_id store_block = 1"
    by (simp_all add: store_block_def)
  have d: "ss_detector genesis_store = sample_detector" "\<not> PoaSafetyHalted genesis_store"
    by (simp_all add: genesis_store_def sample_store_def PoaSafetyHalted_def sample_detector_def)
  obtain db1 where o: "Observe tail_crypto WriteOk WriteOk store_certificate store_block genesis_db sample_detector = (Inr OBSERVED, db1, sample_detector)"
    using observe_store_block by blast
  have k: "ng_poa_finalizer_public_key (vg_genesis sample_genesis) = poa_key" by (simp add: sample_genesis_def sample_network_def)
  show ?thesis
    using candidate_block_commits [OF genesis_node_reachable empty_fresh sample_wf sample_binding n(1), of ?fb genesis_store "\<lparr> fh_block_id = 1, fh_height = 0 \<rparr>"
        WriteOk WriteOk db1 sample_detector] initialize_sample candidate_sample store_certificate_verifies store_block_id o
    by (auto simp: n b d k)
qed

section \<open>The operation pool\<close>

text \<open>C18. The accounting of the pool. Over every history of admissions, revalidations and clearings, calls ended by an exception
  included, against any sequence of states of the store, the number of held operations and their bytes stay within the limits of the pool; the byte counter, the
  identifier set and the usage of every peer are exactly what the held operations add up to, with no wrap-around; each peer stays
  within its quota; no operation is held twice; and every held operation is at most 128 KiB, carries its identifier and a nonce
  that meets the relay work required of it.\<close>

theorem pool_accounting:
  assumes "pool_reach C G nb g0 met L intact p"
  shows "length (Snapshot p) \<le> unat (max_count L) \<and> unat (pl_bytes p) = total_bytes (pl_entries p) \<and> pl_bytes p \<le> max_bytes L
    \<and> distinct (Ids p) \<and> pl_ids p = set (Ids p)
    \<and> (\<forall>q. unat (pu_count (usage_of p q)) = length (from_peer q (pl_entries p))
          \<and> unat (pu_bytes (usage_of p q)) = total_bytes (from_peer q (pl_entries p))
          \<and> pu_count (usage_of p q) \<le> max_peer_count L \<and> pu_bytes (usage_of p q) \<le> max_peer_bytes L)
    \<and> (\<forall>e. e \<in> set (pl_entries p) \<longrightarrow> ComputeOperationId C (pe_operation e) = Inr (Some (pe_id e))
          \<and> unat (pe_bytes e) \<le> MAX_OPERATION_PAYLOAD_BYTES
          \<and> (\<exists>n. WorkNonce p (pe_id e) = Some n \<and> CheckOperationWork C nb (pe_id e) n (RequiredWorkBits L (pe_operation e)) = Inr True))"
proof -
  have ok: "pl_limits p = L" "pool_accounts C nb p" using pool_reach_ok [OF assms] by (simp_all add: pool_ok_def)
  have "ComputeOperationId C (pe_operation e) = Inr (Some (pe_id e)) \<and> unat (pe_bytes e) \<le> MAX_OPERATION_PAYLOAD_BYTES
      \<and> WorkNonce p (pe_id e) = Some (pe_work_nonce e)
      \<and> CheckOperationWork C nb (pe_id e) (pe_work_nonce e) (RequiredWorkBits L (pe_operation e)) = Inr True"
    if "e \<in> set (pl_entries p)" for e
    using pool_accounts_nonce [OF ok(2) that] ok that
    by (auto simp: pool_accounts_def entry_ok_def list_all_iff ComputeOperationId_def)
  then show ?thesis using ok by (auto simp: pool_accounts_def peer_exact_def Snapshot_def)
qed

theorem pool_accounting_witness: "pl_bytes sample_pool \<le> max_bytes DefaultPoolLimits \<and> Ids sample_pool = [1] \<and> pl_ids sample_pool = {1}"
  using pool_accounting [OF sample_pool_reach [of "\<lambda>_ _. True"]] by (auto simp: Ids_def sample_pool_def new_pool_def sample_entry_def)

text \<open>C17. An admitted operation extends a block. Let the pool have any history in which no exception has interrupted an \<^verbatim>\<open>Admit\<close> that was
  replacing the working context since the last \<^verbatim>\<open>Revalidate\<close> or \<^verbatim>\<open>Clear\<close>, and let block identifiers name finalized states: the stores
  it met never had two heights or two states under one head identifier. When \<^verbatim>\<open>Admit\<close> accepts an operation, the pool's snapshot is the former
  snapshot followed by it, the working context stands on the finalized head of the store and on the very state the store loads for it, and executing the
  snapshot as the next block on that state runs through every operation: whenever the state hash is defined it delivers the candidate of the pool, a
  state that passes \<^verbatim>\<open>ValidateCybouState\<close> with the money supply of the parent state. After such an interruption the property fails, see
  \<open>interrupted_context_trusted\<close>: the next call takes the partly replayed context for complete.\<close>

theorem admitted_block_executes:
  assumes "pool_reach C G nb g0 met L True p" and "\<forall>db s. met db s \<longrightarrow> named C final db s"
    and "store_ok C G nb g0 db s" and "addressable db" and "met db s"
    and "Admit C torn db operation work_nonce source_peer p s = (Inr ACCEPTED, p', s')"
  shows "\<exists>w r. pl_working p' = Some w \<and> GetFinalizedHead db = Inr (Some (wc_head w))
    \<and> (\<forall>l s1 st. GetStateSnapshot C db s = (Inr l, s1) \<longrightarrow> slr_state l = Some st \<longrightarrow> wc_finalized_state w = st)
    \<and> final (fh_block_id (wc_head w)) = (fh_height (wc_head w), wc_finalized_state w)
    \<and> Snapshot p' = Snapshot p @ [operation]
    \<and> ExecuteBlockOperations C (wc_finalized_state w) (Snapshot p') nb (fh_height (wc_head w) + 1) (ng_protocol_parameters (vg_genesis G))
         (Some (ng_poa_finalizer_public_key (vg_genesis G))) (fh_block_id (wc_head w)) = Inr r
    \<and> (\<forall>root. CybouStateHash C (m_candidate (wc_executor w)) False = Some root
         \<longrightarrow> execution_ok r \<and> ber_state r = Some (m_candidate (wc_executor w)) \<and> ber_state_root r = Some root
           \<and> ValidateCybouState C (m_candidate (wc_executor w)) = StateValidationError.NONE
           \<and> money_supply (m_candidate (wc_executor w)) = money_supply (wc_finalized_state w))"
proof -
  have ok: "pool_ok C G nb g0 L True p" by (rule pool_reach_ok [OF assms(1)])
  note st = Admit_step [OF assms(3,4) ok assms(6)]
  obtain w head where w: "pl_working p' = Some w" "GetFinalizedHead db = Inr (Some head)" "fh_block_id (wc_head w) = fh_block_id head"
    "Snapshot p' = Snapshot p @ [operation]" "CanFinalize C (wc_executor w)"
    using st(3) by blast
  have nm: "named C final db s" using assms(2,5) by blast
  have f: "final (fh_block_id (wc_head w)) = (fh_height (wc_head w), wc_finalized_state w)"
    using st(2) [OF nm pool_reach_named [OF assms(1,2)]] w(1) by (simp add: pool_named_def context_named_def)
  then have hd: "wc_head w = head" using nm w(2,3) by (auto simp: named_def intro: FinalizedHead.equality)
  have same: "wc_finalized_state w = st'" if "GetStateSnapshot C db s = (Inr l, s1)" "slr_state l = Some st'" for l s1 st'
    using nm w(2) f that unfolding hd named_def by fastforce
  have wk: "working_ok C G nb g0 p'" using st(1) by (simp add: pool_ok_def)
  note ex = working_block [OF wk w(1)]
  have mw: "maps_wf (wc_finalized_state w)" using wk w(1) by (simp add: working_ok_def context_ok_def good_state_def)
  have "execution_ok (Finalize C (wc_executor w)) \<and> ber_state (Finalize C (wc_executor w)) = Some (m_candidate (wc_executor w))
      \<and> ber_state_root (Finalize C (wc_executor w)) = Some root \<and> ValidateCybouState C (m_candidate (wc_executor w)) = StateValidationError.NONE
      \<and> money_supply (m_candidate (wc_executor w)) = money_supply (wc_finalized_state w)"
    if "CybouStateHash C (m_candidate (wc_executor w)) False = Some root" for root
  proof -
    have "ber_state (Finalize C (wc_executor w)) = Some (m_candidate (wc_executor w))" using CanFinalize_result [OF w(5) that] by simp
    from ExecuteBlockOperations_sound [OF mw ex this] this that show ?thesis by (simp add: execution_ok_def)
  qed
  with w(1,4) ex f same show ?thesis using w(2) unfolding hd [symmetric] by blast
qed

theorem admitted_block_executes_witness: "\<exists>r. ExecuteBlockOperations tail_crypto sample_state [sample_operation] 5 1
     DevProtocolParameters (Some poa_key) 1 = Inr r"
proof -
  have a: "addressable genesis_db" using initialize_sample by blast
  let ?met = "\<lambda>db s. db = genesis_db \<and> s = genesis_store"
  have m: "\<forall>db s. ?met db s \<longrightarrow> named tail_crypto sample_final db s" using sample_named by blast
  obtain w r where w: "pl_working sample_pool = Some w" and r: "ExecuteBlockOperations tail_crypto (wc_finalized_state w) (Snapshot sample_pool) 5 (fh_height (wc_head w) + 1)
      (ng_protocol_parameters (vg_genesis sample_genesis)) (Some (ng_poa_finalizer_public_key (vg_genesis sample_genesis))) (fh_block_id (wc_head w)) = Inr r"
    using admitted_block_executes [where met = ?met, OF pool_reach.create m genesis_store_ok a _ admit_sample] by blast
  have "wc_head w = \<lparr> fh_block_id = 1, fh_height = 0 \<rparr>" "wc_finalized_state w = sample_state"
    using w by (auto simp: sample_pool_def fresh_context_def)
  moreover have "Snapshot sample_pool = [sample_operation]" by (simp add: Snapshot_def sample_pool_def new_pool_def sample_entry_def)
  ultimately show ?thesis using r by (simp add: sample_genesis_def sample_network_def)
qed

text \<open>C16. Revalidation on a new finalized head. What \<^verbatim>\<open>Revalidate\<close> keeps is a subsequence of what the pool held and what it drops is
  the rest, each reported once; nothing kept is already finalized; and when something is kept, the store itself computes the state
  root of the block made of the snapshot at the next height: it is the hash of the pool's candidate state, so a candidate block of
  the whole pool is never refused for an invalid operation. The pool may have any history, calls ended by an exception included.\<close>

theorem revalidated_pool_is_a_block:
  assumes "pool_reach C G nb g0 met L intact p" and "store_ok C G nb g0 db s" and "addressable db"
    and "Revalidate C torn db p s = (Inr dropped, p', s')"
  shows "subseq (Snapshot p') (Snapshot p) \<and> mset (Ids p) = mset (Ids p') + mset dropped
    \<and> (\<forall>i. i \<in> set (Ids p') \<longrightarrow> HasIndexedFinalizedOperation C db s' i = Inr False)
    \<and> (Snapshot p' \<noteq> [] \<longrightarrow> (\<exists>w. pl_working p' = Some w \<and> GetFinalizedHead db = Inr (Some (wc_head w))
         \<and> ComputeCandidateStateRoot C (Snapshot p') (fh_height (wc_head w) + 1) db s'
             = (Inr (CybouStateHash C (m_candidate (wc_executor w)) False), s')))"
proof -
  have ok: "pool_ok C G nb g0 L True p'" and r: "revalidated C G nb g0 db s' p (Inr dropped) p'" and s: "store_ok C G nb g0 db s'"
    using Revalidate_step [OF assms(2,3) pool_reach_ok [OF assms(1)] assms(4)] by blast+
  have "subseq (Snapshot p') (Snapshot p)" using r by (simp add: revalidated_def Snapshot_def subseq_map)
  moreover have "\<exists>w. pl_working p' = Some w \<and> GetFinalizedHead db = Inr (Some (wc_head w))
      \<and> ComputeCandidateStateRoot C (Snapshot p') (fh_height (wc_head w) + 1) db s' = (Inr (CybouStateHash C (m_candidate (wc_executor w)) False), s')"
    if "Snapshot p' \<noteq> []"
  proof -
    have ne: "pl_entries p' \<noteq> []" using that by (simp add: Snapshot_def)
    then obtain w where w: "pl_working p' = Some w" "ss_snapshot s' = Some (wc_finalized_state w)" "GetFinalizedHead db = Inr (Some (wc_head w))"
      "fh_height (wc_head w) \<noteq> U64_MAX" "CanFinalize C (wc_executor w)" using r by (auto simp: revalidated_def)
    have "working_ok C G nb g0 p'" using ok by (simp add: pool_ok_def)
    from pool_candidate [OF s this w(1) ne w(5) w(2-4)] w show ?thesis by blast
  qed
  ultimately show ?thesis using r by (auto simp: revalidated_def Ids_def)
qed

theorem revalidated_pool_is_a_block_witness: "\<exists>root. ComputeCandidateStateRoot tail_crypto [sample_operation] 1 genesis_db genesis_store = (Inr root, genesis_store)"
proof -
  have a: "addressable genesis_db" using initialize_sample by blast
  have sn: "Snapshot sample_pool = [sample_operation]" by (simp add: Snapshot_def sample_pool_def new_pool_def sample_entry_def)
  obtain w where "pl_working sample_pool = Some w" "ComputeCandidateStateRoot tail_crypto [sample_operation] (fh_height (wc_head w) + 1) genesis_db genesis_store
      = (Inr (CybouStateHash tail_crypto (m_candidate (wc_executor w)) False), genesis_store)"
    using revalidated_pool_is_a_block [OF sample_pool_reach [of "\<lambda>_ _. True"] genesis_store_ok a revalidate_sample] unfolding sn by blast
  then show ?thesis by (auto simp: sample_pool_def fresh_context_def)
qed

text \<open>C19. The search for relay work is sound and ends. Whatever nonce \<^verbatim>\<open>SolveOperationWork\<close> returns passes
  \<^verbatim>\<open>CheckOperationWork\<close> of every node. For a difficulty of at most 64 bits on a non-null network and operation, if some nonce
  meets the difficulty the search does return, from every random start and through the wrap-around of the nonce and of the try
  counter, and it returns a nonce unless a stop was requested. The digest is assumed not to fail (a failure ends the search by an exception).\<close>

theorem operation_work_search_ends:
  assumes "\<And>bs. evp_sha256 C bs \<noteq> None" and "bits \<le> 64" and "nb \<noteq> 0" and "i \<noteq> 0"
    and "CheckOperationWork C nb i n bits = Inr True"
  shows "\<exists>r. SolveOperationWork C random stop nb i bits = Some r
    \<and> (r = None \<longrightarrow> (\<exists>k. stop k)) \<and> (\<forall>m. r = Some m \<longrightarrow> CheckOperationWork C nb i m bits = Inr True)"
  using assms by (rule SolveOperationWork_ends)

theorem operation_work_search_ends_witness: "\<exists>m. SolveOperationWork tail_crypto (3, 4) (\<lambda>k. False) 5 1 22 = Some (Some m)"
proof -
  have b: "(22 :: u32) = RequiredWorkBits DefaultPoolLimits sample_operation"
    by (simp add: RequiredWorkBits_def RequiredOperationWorkBits_def DefaultPoolLimits_def sample_operation_def OPERATION_WORK_BITS_def)
  have "CheckOperationWork tail_crypto 5 1 0 22 = Inr True" unfolding b by (rule sample_work)
  from operation_work_search_ends [of tail_crypto 22 5 1 0 "(3, 4)" "\<lambda>k. False", OF _ _ _ _ this]
  obtain r where "SolveOperationWork tail_crypto (3, 4) (\<lambda>k. False) 5 1 22 = Some r" "r \<noteq> None" by auto
  then show ?thesis by auto
qed

section \<open>The operation relay\<close>



end
